(* ===== verification/Prelude.thy ===== *)
theory Prelude
  imports Main "HOL-Library.Word" "HOL-Library.AList"
begin

text \<open>
  Shared vocabulary of the development: machine integers and byte strings, the
  outcome of a Rust computation that may return an error or panic, computations
  that thread a mutable state through \<open>&mut self\<close> methods together with a total
  correctness triple for them, fixed-size slices of byte buffers, and the
  little-endian integer codec.

  The arithmetic is that of a release build: unsigned additions, subtractions and
  shifts wrap around, \<open>debug_assert!\<close> is not evaluated, while \<open>assert!\<close>,
  \<open>expect\<close>, slice indexing and division by zero panic.
\<close>

named_theorems codec_simps \<open>rewrite rules for byte codecs and slices\<close>
named_theorems eff_simps \<open>unfolding rules for stateful computations\<close>

section \<open>Integers and bytes\<close>

type_synonym u8 = "8 word"
type_synonym u32 = "32 word"
type_synonym bytes = "u8 list"

definition wadd32 :: "nat \<Rightarrow> nat \<Rightarrow> nat" where
  "wadd32 a b = (a + b) mod 2 ^ 32"

definition wincr32 :: "nat \<Rightarrow> nat" where
  "wincr32 a = wadd32 a 1"

definition wsub32 :: "nat \<Rightarrow> nat \<Rightarrow> nat" where
  "wsub32 a b = (a + 2 ^ 32 - b) mod 2 ^ 32"

definition wshl32 :: "nat \<Rightarrow> nat \<Rightarrow> nat" where
  "wshl32 a k = (a * 2 ^ (k mod 32)) mod 2 ^ 32"

lemma wadd32_small: "a + b < 2 ^ 32 \<Longrightarrow> wadd32 a b = a + b"
  by (simp add: wadd32_def)

lemma wsub32_small: "b \<le> a \<Longrightarrow> a < 2 ^ 32 \<Longrightarrow> wsub32 a b = a - b"
  by (simp add: wsub32_def mod_if)

lemma wshl32_one: "k < 32 \<Longrightarrow> wshl32 1 k = 2 ^ k"
proof -
  assume "k < 32"
  then have "(2::nat) ^ k < 2 ^ 32" by (rule power_strict_increasing) simp
  with \<open>k < 32\<close> show ?thesis by (simp add: wshl32_def)
qed

text \<open>The idiom \<^verbatim>\<open>(1u32 << k) - 1\<close>.\<close>

definition low_mask32 :: "nat \<Rightarrow> nat" where
  "low_mask32 k = wsub32 (wshl32 1 k) 1"

lemma low_mask32_eq: "k < 32 \<Longrightarrow> low_mask32 k = 2 ^ k - 1"
proof -
  assume k: "k < 32"
  then have "(2::nat) ^ k < 2 ^ 32" by (rule power_strict_increasing) simp
  then show ?thesis unfolding low_mask32_def wshl32_one [OF k] by (intro wsub32_small) auto
qed

lemma wadd32_less: "wadd32 a b < 2 ^ 32"
  by (simp add: wadd32_def)

text \<open>The number of bits of a number, and from it \<open>u32::leading_zeros\<close>.\<close>

fun bit_length :: "nat \<Rightarrow> nat" where
  "bit_length n = (if n = 0 then 0 else Suc (bit_length (n div 2)))"

declare bit_length.simps [simp del]

definition leading_zeros32 :: "nat \<Rightarrow> nat" where
  "leading_zeros32 n = 32 - bit_length n"

lemma bit_length_0 [simp]: "bit_length 0 = 0"
  by (simp add: bit_length.simps)

lemma bit_length_upper: "n < 2 ^ bit_length n"
proof (induction n rule: bit_length.induct)
  case (1 n)
  show ?case
  proof (cases "n = 0")
    case False
    then have "n div 2 < 2 ^ bit_length (n div 2)" by (rule 1)
    with False show ?thesis by (subst bit_length.simps) simp
  qed simp
qed

lemma bit_length_le: "n < 2 ^ k \<Longrightarrow> bit_length n \<le> k"
proof (induction n arbitrary: k rule: bit_length.induct)
  case (1 n)
  show ?case
  proof (cases "n = 0")
    case False
    then obtain j where k: "k = Suc j" using 1(2) by (cases k) auto
    have "n div 2 < 2 ^ j" using 1(2) k by (simp add: less_mult_imp_div_less mult.commute)
    then have "bit_length (n div 2) \<le> j" using 1(1) False by simp
    then show ?thesis using False k by (subst bit_length.simps) simp
  qed simp
qed

section \<open>Outcomes: errors and panics\<close>

text \<open>
  \<open>Inl (Fail e)\<close> is Rust's \<open>Err(e)\<close>, \<open>Inl Panic\<close> a panic and \<open>Inl Hang\<close> a loop
  whose fuel ran out (where a loop need not end; each use shows the fuel suffices).
\<close>

datatype 'e fault = Panic | Hang | Fail 'e

type_synonym ('e, 'a) outcome = "'e fault + 'a"

definition rbind :: "('e, 'a) outcome \<Rightarrow> ('a \<Rightarrow> ('e, 'b) outcome) \<Rightarrow> ('e, 'b) outcome" where
  "rbind m k = (case m of Inl e \<Rightarrow> Inl e | Inr x \<Rightarrow> k x)"

lemma rbind_simps [simp]:
  "rbind (Inl e) k = Inl e"
  "rbind (Inr x) k = k x"
  by (simp_all add: rbind_def)

lemma rbind_Inr_iff: "rbind m k = Inr y \<longleftrightarrow> (\<exists>x. m = Inr x \<and> k x = Inr y)"
  by (cases m) auto

fun rmap :: "('a \<Rightarrow> ('e, 'b) outcome) \<Rightarrow> 'a list \<Rightarrow> ('e, 'b list) outcome" where
  "rmap f [] = Inr []"
| "rmap f (x # xs) = rbind (f x) (\<lambda>y. rbind (rmap f xs) (\<lambda>ys. Inr (y # ys)))"

lemma rmap_Inr: "(\<And>x. x \<in> set xs \<Longrightarrow> f x = Inr (g x)) \<Longrightarrow> rmap f xs = Inr (map g xs)"
  by (induction xs) auto

definition fail_as :: "('e \<Rightarrow> 'f) \<Rightarrow> ('e, 'a) outcome \<Rightarrow> ('f, 'a) outcome" where
  "fail_as h m = (case m of Inl Panic \<Rightarrow> Inl Panic | Inl Hang \<Rightarrow> Inl Hang
     | Inl (Fail e) \<Rightarrow> Inl (Fail (h e)) | Inr x \<Rightarrow> Inr x)"

lemma fail_as_simps [simp]:
  "fail_as h (Inr x) = Inr x"
  "fail_as h (Inl Panic) = Inl Panic"
  "fail_as h (Inl Hang) = Inl Hang"
  "fail_as h (Inl (Fail e)) = Inl (Fail (h e))"
  by (simp_all add: fail_as_def)

section \<open>Stateful computations\<close>

type_synonym ('s, 'e, 'a) eff = "'s \<Rightarrow> ('e, 'a) outcome \<times> 's"

definition ereturn :: "'a \<Rightarrow> ('s, 'e, 'a) eff" where
  "ereturn x = (\<lambda>s. (Inr x, s))"

definition efault :: "'e fault \<Rightarrow> ('s, 'e, 'a) eff" where
  "efault e = (\<lambda>s. (Inl e, s))"

definition elift :: "('e, 'a) outcome \<Rightarrow> ('s, 'e, 'a) eff" where
  "elift r = (\<lambda>s. (r, s))"

definition eget :: "('s \<Rightarrow> 'a) \<Rightarrow> ('s, 'e, 'a) eff" where
  "eget f = (\<lambda>s. (Inr (f s), s))"

definition emodify :: "('s \<Rightarrow> 's) \<Rightarrow> ('s, 'e, unit) eff" where
  "emodify f = (\<lambda>s. (Inr (), f s))"

definition eassert :: "bool \<Rightarrow> ('s, 'e, unit) eff" where
  "eassert b = (if b then ereturn () else efault Panic)"

definition ebind :: "('s, 'e, 'a) eff \<Rightarrow> ('a \<Rightarrow> ('s, 'e, 'b) eff) \<Rightarrow> ('s, 'e, 'b) eff" where
  "ebind m k = (\<lambda>s. case m s of (Inl e, s') \<Rightarrow> (Inl e, s') | (Inr x, s') \<Rightarrow> k x s')"

definition eseq :: "('s, 'e, 'a) eff \<Rightarrow> ('s, 'e, 'b) eff \<Rightarrow> ('s, 'e, 'b) eff" where
  "eseq m k = ebind m (\<lambda>_. k)"

fun efor :: "'x list \<Rightarrow> ('x \<Rightarrow> ('s, 'e, unit) eff) \<Rightarrow> ('s, 'e, unit) eff" where
  "efor [] f = ereturn ()"
| "efor (x # xs) f = eseq (f x) (efor xs f)"

fun emap :: "('x \<Rightarrow> ('s, 'e, 'a) eff) \<Rightarrow> 'x list \<Rightarrow> ('s, 'e, 'a list) eff" where
  "emap f [] = ereturn []"
| "emap f (x # xs) = ebind (f x) (\<lambda>y. ebind (emap f xs) (\<lambda>ys. ereturn (y # ys)))"

fun efold :: "('x \<Rightarrow> 'acc \<Rightarrow> ('s, 'e, 'acc) eff) \<Rightarrow> 'x list \<Rightarrow> 'acc \<Rightarrow> ('s, 'e, 'acc) eff" where
  "efold f [] acc = ereturn acc"
| "efold f (x # xs) acc = ebind (f x acc) (efold f xs)"

lemmas eff_defs [eff_simps] = ereturn_def efault_def elift_def eget_def emodify_def
  eassert_def ebind_def eseq_def

text \<open>The same computation with its errors wrapped.\<close>

definition efail_as :: "('e \<Rightarrow> 'f) \<Rightarrow> ('s, 'e, 'a) eff \<Rightarrow> ('s, 'f, 'a) eff" where
  "efail_as h m = (\<lambda>s. let (r, s') = m s in (fail_as h r, s'))"

text \<open>The total correctness triple: from every state satisfying \<open>P\<close> the computation
  returns normally, in a state and with a value satisfying \<open>Q\<close>.\<close>

definition total :: "('s \<Rightarrow> bool) \<Rightarrow> ('s, 'e, 'a) eff \<Rightarrow> ('a \<Rightarrow> 's \<Rightarrow> bool) \<Rightarrow> bool" where
  "total P m Q \<longleftrightarrow> (\<forall>s. P s \<longrightarrow> (\<exists>x s'. m s = (Inr x, s') \<and> Q x s'))"

lemma totalI: "(\<And>s. P s \<Longrightarrow> \<exists>x s'. m s = (Inr x, s') \<and> Q x s') \<Longrightarrow> total P m Q"
  by (simp add: total_def)

lemma totalD: "total P m Q \<Longrightarrow> P s \<Longrightarrow> \<exists>x s'. m s = (Inr x, s') \<and> Q x s'"
  by (simp add: total_def)

lemma total_weaken:
  "total P m Q \<Longrightarrow> (\<And>s. P' s \<Longrightarrow> P s) \<Longrightarrow> (\<And>x s. Q x s \<Longrightarrow> Q' x s) \<Longrightarrow> total P' m Q'"
  unfolding total_def by blast

lemma total_pre: "(\<And>s. P s \<Longrightarrow> total (\<lambda>s'. s' = s) m Q) \<Longrightarrow> total P m Q"
  unfolding total_def by blast

lemma total_ereturn: "(\<And>s. P s \<Longrightarrow> Q x s) \<Longrightarrow> total P (ereturn x) Q"
  by (simp add: total_def ereturn_def)

lemma total_eget: "(\<And>s. P s \<Longrightarrow> Q (f s) s) \<Longrightarrow> total P (eget f) Q"
  by (simp add: total_def eget_def)

lemma total_emodify: "(\<And>s. P s \<Longrightarrow> Q () (f s)) \<Longrightarrow> total P (emodify f) Q"
  by (simp add: total_def emodify_def)

lemma total_elift: "r = Inr x \<Longrightarrow> (\<And>s. P s \<Longrightarrow> Q x s) \<Longrightarrow> total P (elift r) Q"
  by (simp add: total_def elift_def)

lemma total_eassert: "b \<Longrightarrow> (\<And>s. P s \<Longrightarrow> Q () s) \<Longrightarrow> total P (eassert b) Q"
  by (simp add: total_def eassert_def ereturn_def)

lemma total_ebind:
  assumes m: "total P m R" and k: "\<And>x. total (R x) (k x) Q"
  shows "total P (ebind m k) Q"
proof (rule totalI)
  fix s assume "P s"
  with m obtain x s' where "m s = (Inr x, s')" "R x s'" by (auto dest: totalD)
  moreover from this k obtain y s'' where "k x s' = (Inr y, s'')" "Q y s''"
    by (blast dest: totalD)
  ultimately show "\<exists>y s''. ebind m k s = (Inr y, s'') \<and> Q y s''"
    by (simp add: ebind_def)
qed

lemma total_eseq: "total P m (\<lambda>_. R) \<Longrightarrow> total R k Q \<Longrightarrow> total P (eseq m k) Q"
  unfolding eseq_def by (rule total_ebind)

lemma total_efor:
  assumes "\<And>ys x zs. xs = ys @ x # zs \<Longrightarrow> total (I ys) (f x) (\<lambda>_. I (ys @ [x]))"
  shows "total (I []) (efor xs f) (\<lambda>_. I xs)"
proof -
  have "total (I ys) (efor zs f) (\<lambda>_. I xs)" if "xs = ys @ zs" for ys zs
    using that
  proof (induction zs arbitrary: ys)
    case Nil
    then show ?case by (simp add: total_ereturn)
  next
    case (Cons z zs)
    have "total (I ys) (f z) (\<lambda>_. I (ys @ [z]))" using assms Cons.prems by blast
    moreover have "total (I (ys @ [z])) (efor zs f) (\<lambda>_. I xs)" using Cons by simp
    ultimately show ?case by (simp add: total_eseq)
  qed
  from this [of "[]" xs] show ?thesis by simp
qed

lemma total_efold:
  assumes "\<And>ys x zs acc. xs = ys @ x # zs \<Longrightarrow> total (I ys acc) (f x acc) (\<lambda>acc'. I (ys @ [x]) acc')"
  shows "total (I [] acc) (efold f xs acc) (\<lambda>acc'. I xs acc')"
proof -
  have "total (I ys acc) (efold f zs acc) (\<lambda>acc'. I xs acc')" if "xs = ys @ zs" for ys zs acc
    using that
  proof (induction zs arbitrary: ys acc)
    case Nil
    then show ?case by (simp add: total_ereturn)
  next
    case (Cons z zs)
    have "total (I ys acc) (f z acc) (\<lambda>acc'. I (ys @ [z]) acc')" using assms Cons.prems by blast
    moreover have "total (I (ys @ [z]) acc') (efold f zs acc') (\<lambda>acc'. I xs acc')" for acc'
      using Cons by simp
    ultimately show ?case by (simp add: total_ebind)
  qed
  from this [of "[]" xs acc] show ?thesis by simp
qed

lemmas total_rules = total_ebind total_eseq total_ereturn total_eget total_emodify
  total_elift total_eassert

section \<open>Byte buffers\<close>

text \<open>\<open>&buf[off..off + len]\<close> and \<open>buf[off..off + len].copy_from_slice(xs)\<close>: both panic
  when the range leaves the buffer.\<close>

definition slice :: "nat \<Rightarrow> nat \<Rightarrow> 'a list \<Rightarrow> ('e, 'a list) outcome" where
  "slice off len buf = (if off + len \<le> length buf then Inr (take len (drop off buf)) else Inl Panic)"

definition copy_slice :: "nat \<Rightarrow> 'a list \<Rightarrow> 'a list \<Rightarrow> ('e, 'a list) outcome" where
  "copy_slice off xs buf =
     (if off + length xs \<le> length buf
      then Inr (take off buf @ xs @ drop (off + length xs) buf) else Inl Panic)"

lemma copy_slice_Inr:
  "off + length xs \<le> length buf \<Longrightarrow>
   copy_slice off xs buf = Inr (take off buf @ xs @ drop (off + length xs) buf)"
  by (simp add: copy_slice_def)

lemma slice_Inr: "off + len \<le> length buf \<Longrightarrow> slice off len buf = Inr (take len (drop off buf))"
  by (simp add: slice_def)

lemma copy_slice_append:
  "off + length xs + length ys \<le> length buf \<Longrightarrow>
   rbind (copy_slice off xs buf) (copy_slice (off + length xs) ys) = copy_slice off (xs @ ys) buf"
  by (simp add: copy_slice_def ac_simps)

text \<open>\<open>Vec::resize(n, x)\<close>.\<close>

definition resize :: "nat \<Rightarrow> 'a \<Rightarrow> 'a list \<Rightarrow> 'a list" where
  "resize n x xs = take n xs @ replicate (n - length xs) x"

lemma length_resize [simp]: "length (resize n x xs) = n"
  by (simp add: resize_def)

text \<open>Filling consecutive slots of equal width, the shape of every codec of the program.\<close>

fun write_slots :: "nat \<Rightarrow> nat \<Rightarrow> 'a list list \<Rightarrow> 'a list \<Rightarrow> ('e, 'a list) outcome" where
  "write_slots w i [] buf = Inr buf"
| "write_slots w i (xs # xss) buf =
     rbind (copy_slice (i * w) xs buf) (write_slots w (Suc i) xss)"

lemma write_slots_Inr:
  assumes "\<forall>xs \<in> set xss. length xs = w" and "(i + length xss) * w \<le> length buf"
  shows "(write_slots w i xss buf :: ('e, 'a list) outcome) =
    Inr (take (i * w) buf @ concat xss @ drop ((i + length xss) * w) buf)"
  using assms
proof (induction xss arbitrary: i buf)
  case Nil
  then show ?case by simp
next
  case (Cons xs xss)
  let ?buf = "take (i * w) buf @ xs @ drop (i * w + length xs) buf"
  have len: "length xs = w" using Cons.prems(1) by simp
  have fits: "i * w + w \<le> length buf"
    using Cons.prems(2) by (simp add: algebra_simps)
  have c: "(copy_slice (i * w) xs buf :: ('e, 'a list) outcome) = Inr ?buf"
    using len fits by (simp add: copy_slice_def)
  have "length ?buf = length buf" using len fits by simp
  then have "(write_slots w (Suc i) xss ?buf :: ('e, 'a list) outcome) =
      Inr (take (Suc i * w) ?buf @ concat xss @ drop ((Suc i + length xss) * w) ?buf)"
    using Cons.prems \<open>length ?buf = length buf\<close> by (intro Cons.IH) auto
  moreover have "take (Suc i * w) ?buf = take (i * w) buf @ xs"
    using len fits by simp
  moreover have "drop ((Suc i + length xss) * w) ?buf = drop ((Suc i + length xss) * w) buf"
    using len fits by (simp add: algebra_simps)
  ultimately show ?case by (simp add: c)
qed

text \<open>Reading one slot back out of a concatenation.\<close>

lemma slot_of_concat:
  assumes "\<forall>xs \<in> set xss. length xs = w" and "i < length xss"
  shows "take w (drop (i * w) (concat xss @ rest)) = xss ! i"
  using assms
proof (induction xss arbitrary: i)
  case Nil
  then show ?case by simp
next
  case (Cons xs xss)
  then show ?case by (cases i) auto
qed

lemma length_concat_const: "\<forall>xs \<in> set xss. length xs = w \<Longrightarrow> length (concat xss) = length xss * w"
  by (induction xss) auto

section \<open>Little-endian integers\<close>

fun le_bytes :: "nat \<Rightarrow> nat \<Rightarrow> bytes" where
  "le_bytes 0 n = []"
| "le_bytes (Suc k) n = word_of_nat (n mod 256) # le_bytes k (n div 256)"

fun of_le_bytes :: "bytes \<Rightarrow> nat" where
  "of_le_bytes [] = 0"
| "of_le_bytes (b # bs) = unat b + 256 * of_le_bytes bs"

lemma length_le_bytes [simp]: "length (le_bytes k n) = k"
  by (induction k arbitrary: n) auto

lemma unat_byte [simp]: "unat (word_of_nat (n mod 256) :: u8) = n mod 256"
  by (simp add: unat_of_nat)

lemma of_le_bytes_le_bytes [codec_simps]: "of_le_bytes (le_bytes k n) = n mod 256 ^ k"
  by (induction k arbitrary: n) (simp_all add: mod_mult2_eq)

lemma of_le_bytes_less: "of_le_bytes bs < 256 ^ length bs"
proof (induction bs)
  case (Cons b bs)
  have "unat b < 256" using unsigned_less [of b] by simp
  with Cons show ?case by simp
qed simp

lemma le_bytes_of_le_bytes: "le_bytes (length bs) (of_le_bytes bs) = bs"
proof (induction bs)
  case (Cons b bs)
  have "unat b < 256" using unsigned_less [of b] by simp
  with Cons show ?case by simp
qed simp

lemma le_bytes_inj:
  assumes "m < 256 ^ k" and "n < 256 ^ k" and "le_bytes k m = le_bytes k n"
  shows "m = n"
proof -
  have "m mod 256 ^ k = n mod 256 ^ k"
    using assms(3) by (metis of_le_bytes_le_bytes)
  with assms(1,2) show ?thesis by simp
qed

definition u32_le :: "u32 \<Rightarrow> bytes" where
  "u32_le x = le_bytes 4 (unat x)"

definition u32_of_le :: "bytes \<Rightarrow> u32" where
  "u32_of_le bs = word_of_nat (of_le_bytes bs)"

lemma length_u32_le [simp]: "length (u32_le x) = 4"
  by (simp add: u32_le_def)

lemma u32_of_le_u32_le [simp]: "u32_of_le (u32_le x) = x"
proof -
  have "unat x < 256 ^ 4" using unsigned_less [of x] by simp
  then show ?thesis by (simp add: u32_le_def u32_of_le_def of_le_bytes_le_bytes)
qed

section \<open>Association lists as hash maps\<close>

text \<open>A \<open>HashMap\<close> whose contents are iterated over is an association list; Rust's
  iteration order is unspecified, so it is a permutation supplied from outside.\<close>

definition perm_order :: "('k list \<Rightarrow> 'k list) \<Rightarrow> bool" where
  "perm_order f \<longleftrightarrow> (\<forall>ks. distinct ks \<longrightarrow> set (f ks) = set ks \<and> distinct (f ks))"

lemma perm_order_id: "perm_order (\<lambda>ks. ks)"
  by (simp add: perm_order_def)

lemma map_of_AList_delete [simp]: "map_of (AList.delete k al) = (map_of al)(k := None)"
  by (simp add: AList.delete_conv')

lemma map_of_AList_update [simp]: "map_of (AList.update k v al) = (map_of al)(k \<mapsto> v)"
  by (simp add: AList.update_conv')

end
