(* ===== verification/Oram_Tree.thy ===== *)
theory Oram_Tree
  imports Prelude
begin

text \<open>
  Ring-ORAM parameters and tree layout: \<^verbatim>\<open>crates/ring-oram/src/params.rs\<close> and
  \<^verbatim>\<open>crates/ring-oram/src/path.rs\<close>.  Buckets are numbered breadth-first; a path is
  the list of buckets from the root to one leaf.  The arithmetic is \<open>u32\<close> with the
  wrap-around of a release build; the lemmas give the range of \<open>n_leaves\<close> in which
  nothing wraps and the closed form of a path there.
\<close>

section \<open>Parameters\<close>

record ring_oram_params =
  ring_z :: nat
  ring_s :: nat
  ring_a :: nat
  block_bytes :: nat
  n_leaves :: nat
  treetop_levels :: nat

definition default_params :: ring_oram_params where
  "default_params = \<lparr>ring_z = 4, ring_s = 5, ring_a = 3, block_bytes = 2048, n_leaves = 64, treetop_levels = 0\<rparr>"

definition bucket_capacity :: "ring_oram_params \<Rightarrow> nat" where
  "bucket_capacity p = wadd32 (ring_z p) (ring_s p)"

definition tree_levels :: "nat \<Rightarrow> nat" where
  "tree_levels n = (if n \<le> 1 then 1 else 32 - leading_zeros32 (n - 1) + 1)"

definition levels :: "ring_oram_params \<Rightarrow> nat" where
  "levels p = tree_levels (n_leaves p)"

definition num_buckets :: "ring_oram_params \<Rightarrow> nat" where
  "num_buckets p = low_mask32 (levels p)"

definition treetop_bucket_count :: "ring_oram_params \<Rightarrow> nat" where
  "treetop_bucket_count p =
     (if treetop_levels p = 0 then 0 else low_mask32 (treetop_levels p))"

definition bucket_in_treetop :: "ring_oram_params \<Rightarrow> nat \<Rightarrow> bool" where
  "bucket_in_treetop p bucket_id \<longleftrightarrow> bucket_id < treetop_bucket_count p"

section \<open>Paths\<close>

definition total_buckets :: "nat \<Rightarrow> nat" where
  "total_buckets n = low_mask32 (tree_levels n)"

text \<open>The loop \<^verbatim>\<open>for _ in 1..levels { cur = (cur - 1) / 2; out.push(cur); }\<close>, from a
  bucket upwards.\<close>

fun climb :: "nat \<Rightarrow> nat \<Rightarrow> nat list" where
  "climb 0 cur = []"
| "climb (Suc k) cur = (let up = wsub32 cur 1 div 2 in up # climb k up)"

definition path_buckets :: "nat \<Rightarrow> nat \<Rightarrow> nat list" where
  "path_buckets p n =
     (let levels = tree_levels n;
          leaf_bucket = wadd32 (low_mask32 (levels - 1)) p
      in rev (leaf_bucket # climb (levels - 1) leaf_bucket))"

section \<open>Layout lemmas\<close>

lemma tree_levels_pos: "0 < tree_levels n"
  by (simp add: tree_levels_def)

lemma tree_levels_eq:
  assumes "n \<le> 2 ^ 32"
  shows "tree_levels n = bit_length (n - 1) + 1"
proof (cases "n \<le> 1")
  case True
  then show ?thesis by (simp add: tree_levels_def)
next
  case False
  with assms have "bit_length (n - 1) \<le> 32" by (intro bit_length_le) simp
  with False show ?thesis by (simp add: tree_levels_def leading_zeros32_def)
qed

text \<open>Every path index below \<open>n\<close> has a leaf of its own.\<close>

lemma leaves_fit: "n \<le> 2 ^ 32 \<Longrightarrow> n \<le> 2 ^ (tree_levels n - 1)"
  using bit_length_upper [of "n - 1"] by (simp add: tree_levels_eq)

lemma tree_levels_le: "n \<le> 2 ^ k \<Longrightarrow> k \<le> 32 \<Longrightarrow> tree_levels n \<le> k + 1"
proof -
  assume n: "n \<le> 2 ^ k" and k: "k \<le> 32"
  have "(2::nat) ^ k \<le> 2 ^ 32" using k by (intro power_increasing) auto
  with n have "n \<le> 2 ^ 32" by simp
  moreover have "n - 1 < 2 ^ k" using n by (cases n) auto
  ultimately show ?thesis using bit_length_le [of "n - 1" k] by (simp add: tree_levels_eq)
qed

text \<open>The range of \<open>n_leaves\<close> in which no shift or addition wraps.\<close>

definition wf_params :: "ring_oram_params \<Rightarrow> bool" where
  "wf_params p \<longleftrightarrow> 0 < n_leaves p \<and> n_leaves p \<le> 2 ^ 30 \<and> 0 < ring_a p \<and> ring_a p < 2 ^ 32 \<and>
     ring_z p + ring_s p < 2 ^ 32 \<and> block_bytes p < 2 ^ 32 \<and> treetop_levels p < 32"

lemma wf_levels: "wf_params p \<Longrightarrow> levels p \<le> 31"
  using tree_levels_le [of "n_leaves p" 30] by (simp add: wf_params_def levels_def)

lemma num_buckets_eq: "wf_params p \<Longrightarrow> num_buckets p = 2 ^ levels p - 1"
  using wf_levels [of p] by (simp add: num_buckets_def low_mask32_eq)

lemma bucket_capacity_eq: "wf_params p \<Longrightarrow> bucket_capacity p = ring_z p + ring_s p"
  by (simp add: bucket_capacity_def wadd32_small wf_params_def)

lemma treetop_bucket_count_eq:
  "treetop_levels p < 32 \<Longrightarrow> treetop_bucket_count p = 2 ^ treetop_levels p - 1"
  by (simp add: treetop_bucket_count_def low_mask32_eq)

text \<open>The bucket at depth \<open>d\<close> of the path to leaf \<open>q\<close> in a tree of \<open>Suc m\<close> levels.\<close>

definition tree_node :: "nat \<Rightarrow> nat \<Rightarrow> nat \<Rightarrow> nat" where
  "tree_node m q d = 2 ^ d - 1 + q div 2 ^ (m - d)"

lemma tree_node_bounds:
  assumes "q < 2 ^ m" and "d \<le> m"
  shows "2 ^ d - 1 \<le> tree_node m q d" and "tree_node m q d < 2 ^ Suc d - 1"
proof -
  have "q div 2 ^ (m - d) < 2 ^ d"
    using assms by (intro less_mult_imp_div_less) (simp add: power_add [symmetric])
  then show "tree_node m q d < 2 ^ Suc d - 1"
    using one_le_power [of "2::nat" d] by (simp add: tree_node_def)
qed (simp add: tree_node_def)

lemma tree_node_parent:
  assumes "q < 2 ^ m" and "Suc d \<le> m" and "m < 32"
  shows "wsub32 (tree_node m q (Suc d)) 1 div 2 = tree_node m q d"
proof -
  have "1 \<le> (2::nat) ^ Suc d - 1"
    using one_le_power [of "2::nat" d] unfolding power_Suc by linarith
  then have one: "1 \<le> tree_node m q (Suc d)"
    using tree_node_bounds(1) [OF assms(1,2)] by (rule le_trans)
  have "tree_node m q (Suc d) < 2 ^ Suc (Suc d) - 1"
    by (rule tree_node_bounds(2) [OF assms(1,2)])
  moreover have "(2::nat) ^ Suc (Suc d) \<le> 2 ^ Suc m"
    using assms(2) by (intro power_increasing) auto
  moreover have "(2::nat) ^ Suc m \<le> 2 ^ 32"
    using assms(3) by (intro power_increasing) auto
  ultimately have "tree_node m q (Suc d) < 2 ^ 32" by linarith
  with one have "wsub32 (tree_node m q (Suc d)) 1 = tree_node m q (Suc d) - 1"
    by (rule wsub32_small)
  moreover have "q div 2 ^ (m - d) = q div 2 ^ (m - Suc d) div 2"
    using assms(2) by (simp add: div_mult2_eq [symmetric] power_Suc2 [symmetric] Suc_diff_Suc
        del: power_Suc)
  moreover have "tree_node m q (Suc d) - 1 = 2 * (2 ^ d - 1) + q div 2 ^ (m - Suc d)"
  proof -
    obtain e where "(2::nat) ^ d = Suc e" using not0_implies_Suc [of "(2::nat) ^ d"] by auto
    then show ?thesis by (simp add: tree_node_def)
  qed
  ultimately show ?thesis by (simp add: tree_node_def)
qed

lemma climb_tree_node:
  assumes "q < 2 ^ m" and "k \<le> m" and "m < 32"
  shows "climb k (tree_node m q k) = rev (map (tree_node m q) [0..<k])"
  using assms(2)
proof (induction k)
  case (Suc k)
  have "wsub32 (tree_node m q (Suc k)) 1 div 2 = tree_node m q k"
    using assms Suc.prems by (intro tree_node_parent)
  with Suc show ?case by (simp add: Let_def)
qed simp

lemma path_buckets_closed:
  assumes n: "n \<le> 2 ^ 31" and q: "q < 2 ^ (tree_levels n - 1)"
  shows "path_buckets q n = map (tree_node (tree_levels n - 1) q) [0..<tree_levels n]"
proof -
  let ?m = "tree_levels n - 1"
  have "tree_levels n \<le> 32" using tree_levels_le [of n 31] n by simp
  then have m: "?m < 32" using tree_levels_pos [of n] by linarith
  have "(2::nat) ^ ?m - 1 + q < 2 ^ Suc ?m" using q by simp
  moreover have "(2::nat) ^ Suc ?m \<le> 2 ^ 32" using m by (intro power_increasing) auto
  ultimately have "2 ^ ?m - 1 + q < 2 ^ 32" by linarith
  then have leaf: "wadd32 (low_mask32 ?m) q = tree_node ?m q ?m"
    using m by (simp add: low_mask32_eq wadd32_small tree_node_def)
  have L: "tree_levels n = Suc ?m" using tree_levels_pos [of n] by simp
  have "path_buckets q n = rev (tree_node ?m q ?m # climb ?m (tree_node ?m q ?m))"
    by (simp only: path_buckets_def Let_def leaf)
  also have "\<dots> = map (tree_node ?m q) [0..<Suc ?m]"
    using climb_tree_node [OF q order_refl m] by simp
  finally show ?thesis using L by simp
qed

text \<open>What the rest of the ORAM relies on: a path has one bucket per level, in range, and
  no bucket twice; it starts at the root and ends at the leaf.\<close>

lemma wf_path_closed:
  assumes "wf_params p" and "q < n_leaves p"
  shows "path_buckets q (n_leaves p) = map (tree_node (levels p - 1) q) [0..<levels p]"
    and "q < 2 ^ (levels p - 1)"
proof -
  have n: "n_leaves p \<le> 2 ^ 31" "n_leaves p \<le> 2 ^ 32" using assms by (auto simp: wf_params_def)
  show q: "q < 2 ^ (levels p - 1)"
    using leaves_fit [OF n(2)] assms(2) by (simp add: levels_def)
  show "path_buckets q (n_leaves p) = map (tree_node (levels p - 1) q) [0..<levels p]"
    using path_buckets_closed [OF n(1)] q by (simp add: levels_def)
qed

lemma length_path: "wf_params p \<Longrightarrow> q < n_leaves p \<Longrightarrow> length (path_buckets q (n_leaves p)) = levels p"
  by (simp add: wf_path_closed)

lemma path_in_range:
  assumes "wf_params p" and "q < n_leaves p" and "b \<in> set (path_buckets q (n_leaves p))"
  shows "b < num_buckets p"
proof -
  obtain d where d: "d < levels p" "b = tree_node (levels p - 1) q d"
    using assms by (auto simp: wf_path_closed)
  then have "b < 2 ^ Suc d - 1"
    using tree_node_bounds(2) [OF wf_path_closed(2) [OF assms(1,2)], of d] by simp
  moreover have "(2::nat) ^ Suc d \<le> 2 ^ levels p"
    using d(1) by (intro power_increasing) auto
  ultimately show ?thesis using num_buckets_eq [OF assms(1)] by linarith
qed

lemma tree_node_strict_mono:
  assumes "q < 2 ^ m" and "d < e" and "e \<le> m"
  shows "tree_node m q d < tree_node m q e"
proof -
  have "tree_node m q d < 2 ^ Suc d - 1"
    using assms by (intro tree_node_bounds(2)) auto
  also have "(2::nat) ^ Suc d - 1 \<le> 2 ^ e - 1"
    using assms(2) by (intro diff_le_mono power_increasing) auto
  also have "\<dots> \<le> tree_node m q e"
    using assms by (intro tree_node_bounds(1)) auto
  finally show ?thesis .
qed

lemma sorted_path:
  assumes "wf_params p" and "q < n_leaves p"
  shows "sorted_wrt (<) (path_buckets q (n_leaves p))"
proof -
  have "sorted_wrt (<) (map (tree_node (levels p - 1) q) [0..<levels p])"
    unfolding sorted_wrt_map
    by (rule sorted_wrt_mono_rel [OF _ sorted_wrt_upt])
       (use tree_node_strict_mono [OF wf_path_closed(2) [OF assms]] in auto)
  then show ?thesis by (simp add: wf_path_closed [OF assms])
qed

lemma distinct_path: "wf_params p \<Longrightarrow> q < n_leaves p \<Longrightarrow> distinct (path_buckets q (n_leaves p))"
  using sorted_path strict_sorted_iff by blast

lemma root_in_path:
  assumes "wf_params p" and "q < n_leaves p"
  shows "hd (path_buckets q (n_leaves p)) = 0"
proof -
  have "0 < levels p" by (simp add: levels_def tree_levels_pos)
  then have "hd (path_buckets q (n_leaves p)) = tree_node (levels p - 1) q 0"
    by (simp add: wf_path_closed [OF assms] hd_map)
  then show ?thesis using wf_path_closed(2) [OF assms] by (simp add: tree_node_def)
qed

text \<open>The buckets of a path below the treetop.\<close>

lemma tree_node_in_treetop:
  assumes "q < 2 ^ m" and "d \<le> m" and "treetop_levels p < 32"
  shows "bucket_in_treetop p (tree_node m q d) \<longleftrightarrow> d < treetop_levels p"
proof -
  have b: "2 ^ d - 1 \<le> tree_node m q d" "tree_node m q d < 2 ^ Suc d - 1"
    using tree_node_bounds [OF assms(1,2)] .
  show ?thesis
  proof (cases "d < treetop_levels p")
    case True
    then have "(2::nat) ^ Suc d \<le> 2 ^ treetop_levels p" by (intro power_increasing) auto
    with b True show ?thesis by (simp add: bucket_in_treetop_def treetop_bucket_count_eq [OF assms(3)])
  next
    case False
    then have "(2::nat) ^ treetop_levels p \<le> 2 ^ d" by (intro power_increasing) auto
    with b(1) have "\<not> tree_node m q d < 2 ^ treetop_levels p - 1" by linarith
    with False show ?thesis by (simp add: bucket_in_treetop_def treetop_bucket_count_eq [OF assms(3)])
  qed
qed

lemma deep_path_length:
  assumes wf: "wf_params p" and q: "q < n_leaves p"
  shows "length (filter (\<lambda>x. \<not> bucket_in_treetop p x) (path_buckets q (n_leaves p))) =
    levels p - treetop_levels p"
proof -
  have t: "treetop_levels p < 32" using wf by (simp add: wf_params_def)
  have "filter (\<lambda>d. \<not> bucket_in_treetop p (tree_node (levels p - 1) q d)) [0..<levels p] =
      filter (\<lambda>d. \<not> d < treetop_levels p) [0..<levels p]"
    using tree_node_in_treetop [OF wf_path_closed(2) [OF wf q] _ t] by (intro filter_cong) auto
  moreover have "length (filter (\<lambda>d. \<not> d < k) [0..<n]) = n - k" for k n :: nat
    by (induction n) auto
  ultimately show ?thesis by (simp add: wf_path_closed(1) [OF wf q] filter_map comp_def)
qed

lemma path_parent:
  assumes wf: "wf_params p" and q: "q < n_leaves p" and d: "Suc d < levels p"
  shows "path_buckets q (n_leaves p) ! d = (path_buckets q (n_leaves p) ! Suc d - 1) div 2"
proof -
  let ?m = "levels p - 1" and ?ps = "path_buckets q (n_leaves p)"
  note closed = wf_path_closed [OF wf q]
  have m: "?m < 32" "Suc d \<le> ?m" using wf_levels [OF wf] d by auto
  have nth: "?ps ! d = tree_node ?m q d" "?ps ! Suc d = tree_node ?m q (Suc d)"
    using d by (simp_all add: closed(1) del: upt_Suc)
  have "1 \<le> tree_node ?m q (Suc d)"
    using tree_node_bounds(1) [OF closed(2) m(2)] one_le_power [of "2::nat" d]
    unfolding power_Suc by linarith
  moreover have "?ps ! Suc d \<in> set ?ps" using d length_path [OF wf q] by (intro nth_mem) simp
  then have "tree_node ?m q (Suc d) < num_buckets p" using path_in_range [OF wf q] nth(2) by simp
  then have "tree_node ?m q (Suc d) < 2 ^ 32"
    by (simp add: num_buckets_def low_mask32_def wsub32_def)
  ultimately have "wsub32 (tree_node ?m q (Suc d)) 1 = tree_node ?m q (Suc d) - 1"
    by (rule wsub32_small)
  with tree_node_parent [OF closed(2) m(2,1)] nth show ?thesis by simp
qed

end
