(* ===== verification/Oram_Block.thy ===== *)
theory Oram_Block
  imports Oram_Tree
begin

text \<open>
  Blocks, the bucket codec, the position map and the stash of the Ring-ORAM client:
  \<^verbatim>\<open>block.rs\<close>, \<^verbatim>\<open>codec.rs\<close>, \<^verbatim>\<open>posmap.rs\<close> and \<^verbatim>\<open>stash.rs\<close> of
  \<^verbatim>\<open>crates/ring-oram/src\<close>.  AES-GCM is code of another crate: \<open>seal\<close> and \<open>unseal\<close>
  (key, nonce, text) are parameters.  The lemmas give the exact bytes of a serialised
  bucket, the round trip, and the injectivity of the nonce.
\<close>

section \<open>Blocks\<close>

type_synonym block_id = u32

definition DUMMY :: block_id where
  "DUMMY = word_of_nat (2 ^ 32 - 1)"

record oblock =
  ob_id :: block_id
  ob_payload :: bytes

definition id_is_dummy :: "block_id \<Rightarrow> bool" where
  "id_is_dummy i \<longleftrightarrow> i = DUMMY"

definition payload_from_exact :: "bytes \<Rightarrow> nat \<Rightarrow> ('e, bytes) outcome" where
  "payload_from_exact bs n = (if length bs = n then Inr bs else Inl Panic)"

definition payload_padded :: "bytes \<Rightarrow> nat \<Rightarrow> ('e, bytes) outcome" where
  "payload_padded bs n = (if length bs \<le> n then Inr (resize n 0 bs) else Inl Panic)"

definition payload_zero :: "nat \<Rightarrow> bytes" where
  "payload_zero n = replicate n 0"

definition block_dummy :: "nat \<Rightarrow> oblock" where
  "block_dummy n = \<lparr>ob_id = DUMMY, ob_payload = payload_zero n\<rparr>"

definition is_dummy :: "oblock \<Rightarrow> bool" where
  "is_dummy b \<longleftrightarrow> id_is_dummy (ob_id b)"

lemma is_dummy_iff: "is_dummy b \<longleftrightarrow> ob_id b = DUMMY"
  by (simp add: is_dummy_def id_is_dummy_def)

lemma block_dummy_simps [simp]:
  "ob_id (block_dummy n) = DUMMY" "length (ob_payload (block_dummy n)) = n" "is_dummy (block_dummy n)"
  by (simp_all add: block_dummy_def payload_zero_def is_dummy_iff)

section \<open>Bucket codec\<close>

definition make_nonce :: "nat \<Rightarrow> nat \<Rightarrow> bytes" where
  "make_nonce bucket_id write_counter = le_bytes 8 bucket_id @ le_bytes 4 write_counter"

definition slot_size :: "ring_oram_params \<Rightarrow> nat" where
  "slot_size p = 4 + block_bytes p"

definition bucket_plaintext_size :: "ring_oram_params \<Rightarrow> nat" where
  "bucket_plaintext_size p = bucket_capacity p * slot_size p"

fun put_blocks :: "ring_oram_params \<Rightarrow> nat \<Rightarrow> oblock list \<Rightarrow> bytes \<Rightarrow> ('e, bytes) outcome" where
  "put_blocks p i [] out = Inr out"
| "put_blocks p i (b # bs) out =
     (let off = i * slot_size p in
      rbind (copy_slice off (u32_le (ob_id b)) out) (\<lambda>out.
      if length (ob_payload b) \<noteq> block_bytes p then Inl Panic
      else rbind (copy_slice (off + 4) (ob_payload b) out) (put_blocks p (Suc i) bs)))"

fun put_dummy_ids :: "ring_oram_params \<Rightarrow> nat list \<Rightarrow> bytes \<Rightarrow> ('e, bytes) outcome" where
  "put_dummy_ids p [] out = Inr out"
| "put_dummy_ids p (i # is) out =
     rbind (copy_slice (i * slot_size p) (u32_le DUMMY) out) (put_dummy_ids p is)"

definition serialise_bucket :: "oblock list \<Rightarrow> ring_oram_params \<Rightarrow> ('e, bytes) outcome" where
  "serialise_bucket blocks p =
     (let cap = bucket_capacity p in
      if length blocks > cap then Inl Panic
      else rbind (put_blocks p 0 blocks (replicate (cap * slot_size p) 0))
             (put_dummy_ids p [length blocks..<cap]))"

definition read_block :: "bytes \<Rightarrow> ring_oram_params \<Rightarrow> nat \<Rightarrow> ('e, oblock) outcome" where
  "read_block bs p i =
     (let off = i * slot_size p in
      rbind (slice off 4 bs) (\<lambda>idb.
      rbind (slice (off + 4) (block_bytes p) bs) (\<lambda>pl.
      rbind (payload_from_exact pl (block_bytes p)) (\<lambda>pl.
      Inr \<lparr>ob_id = u32_of_le idb, ob_payload = pl\<rparr>))))"

definition deserialise_bucket :: "bytes \<Rightarrow> ring_oram_params \<Rightarrow> ('e, oblock list) outcome" where
  "deserialise_bucket bs p =
     (if length bs \<noteq> bucket_capacity p * slot_size p then Inl Panic
      else rmap (read_block bs p) [0..<bucket_capacity p])"

text \<open>AES-GCM frames: the nonce is derived from the bucket and its write counter.\<close>

type_synonym seal_fun = "bytes \<Rightarrow> bytes \<Rightarrow> bytes \<Rightarrow> bytes"
type_synonym unseal_fun = "bytes \<Rightarrow> bytes \<Rightarrow> bytes \<Rightarrow> bytes option"

datatype aes_error = AuthenticationFailed

definition aes_encrypt :: "seal_fun \<Rightarrow> bytes \<Rightarrow> nat \<Rightarrow> nat \<Rightarrow> bytes \<Rightarrow> bytes" where
  "aes_encrypt seal key bucket_id write_counter plaintext =
     seal key (make_nonce bucket_id write_counter) plaintext"

definition aes_decrypt :: "unseal_fun \<Rightarrow> bytes \<Rightarrow> nat \<Rightarrow> nat \<Rightarrow> bytes \<Rightarrow> (aes_error, bytes) outcome" where
  "aes_decrypt unseal key bucket_id write_counter ciphertext =
     (case unseal key (make_nonce bucket_id write_counter) ciphertext of
        None \<Rightarrow> Inl (Fail AuthenticationFailed) | Some pt \<Rightarrow> Inr pt)"

text \<open>What the program relies on of the AEAD: a frame opens under the key and nonce that
  sealed it.\<close>

definition aead_roundtrip :: "seal_fun \<Rightarrow> unseal_fun \<Rightarrow> bool" where
  "aead_roundtrip seal unseal \<longleftrightarrow> (\<forall>k n p. unseal k n (seal k n p) = Some p)"

lemma aes_decrypt_encrypt:
  "aead_roundtrip seal unseal \<Longrightarrow> aes_decrypt unseal k b c (aes_encrypt seal k b c pt) = Inr pt"
  by (simp add: aes_decrypt_def aes_encrypt_def aead_roundtrip_def)

subsection \<open>The bytes of a bucket\<close>

definition slot_bytes :: "oblock \<Rightarrow> bytes" where
  "slot_bytes b = u32_le (ob_id b) @ ob_payload b"

definition fits :: "ring_oram_params \<Rightarrow> oblock list \<Rightarrow> bool" where
  "fits p bs \<longleftrightarrow> (\<forall>b \<in> set bs. length (ob_payload b) = block_bytes p)"

definition pad_bucket :: "ring_oram_params \<Rightarrow> oblock list \<Rightarrow> oblock list" where
  "pad_bucket p bs = bs @ replicate (bucket_capacity p - length bs) (block_dummy (block_bytes p))"

lemma length_pad_bucket [simp]:
  "length bs \<le> bucket_capacity p \<Longrightarrow> length (pad_bucket p bs) = bucket_capacity p"
  by (simp add: pad_bucket_def)

lemma pad_bucket_pad: "length bs \<le> bucket_capacity p \<Longrightarrow> pad_bucket p (pad_bucket p bs) = pad_bucket p bs"
  by (simp add: pad_bucket_def)

lemma fits_pad_bucket [simp]: "fits p (pad_bucket p bs) = fits p bs"
  by (auto simp: fits_def pad_bucket_def)

lemma put_blocks_slots:
  assumes "fits p bs"
  shows "(put_blocks p i bs out :: ('e, bytes) outcome) = write_slots (slot_size p) i (map slot_bytes bs) out"
  using assms
proof (induction bs arbitrary: i out)
  case Nil
  then show ?case by simp
next
  case (Cons b bs)
  have len: "length (ob_payload b) = block_bytes p" using Cons.prems by (simp add: fits_def)
  have IH: "(put_blocks p (Suc i) bs :: bytes \<Rightarrow> ('e, bytes) outcome) =
      write_slots (slot_size p) (Suc i) (map slot_bytes bs)"
    using Cons by (auto simp: fits_def)
  let ?off = "i * slot_size p"
  show ?case
  proof (cases "?off + slot_size p \<le> length out")
    case True
    then have "(rbind (copy_slice ?off (u32_le (ob_id b)) out)
          (copy_slice (?off + 4) (ob_payload b)) :: ('e, bytes) outcome)
        = copy_slice ?off (slot_bytes b) out"
      using copy_slice_append [of ?off "u32_le (ob_id b)" "ob_payload b" out] len
      by (simp add: slot_bytes_def slot_size_def)
    with True len IH show ?thesis
      by (simp add: copy_slice_def slot_size_def slot_bytes_def [of b] Let_def ac_simps)
  next
    case False
    with len show ?thesis
      by (auto simp: copy_slice_def slot_size_def slot_bytes_def Let_def)
  qed
qed

lemma put_dummy_ids_fill:
  assumes "length xs = i * slot_size p"
  shows "(put_dummy_ids p [i..<i + k] (xs @ replicate (k * slot_size p) 0) :: ('e, bytes) outcome) =
    Inr (xs @ concat (replicate k (slot_bytes (block_dummy (block_bytes p)))))"
  using assms
proof (induction k arbitrary: i xs)
  case 0
  then show ?case by simp
next
  case (Suc k)
  let ?d = "slot_bytes (block_dummy (block_bytes p))"
  have upt: "[i..<i + Suc k] = i # [Suc i..<Suc i + k]"
    using upt_conv_Cons [of i "i + Suc k"] by simp
  have w: "slot_size p = 4 + block_bytes p" by (simp add: slot_size_def)
  have rep: "replicate (Suc k * slot_size p) (0::u8) =
      replicate 4 0 @ replicate (block_bytes p) 0 @ replicate (k * slot_size p) 0"
    by (simp only: mult_Suc w replicate_add append_assoc)
  have "copy_slice (i * slot_size p) (u32_le DUMMY) (xs @ replicate (Suc k * slot_size p) 0) =
      (Inr (xs @ u32_le DUMMY @ replicate (block_bytes p) 0 @ replicate (k * slot_size p) 0) :: ('e, bytes) outcome)"
    using Suc.prems unfolding rep by (simp add: copy_slice_def w)
  moreover have "u32_le DUMMY @ replicate (block_bytes p) 0 = ?d"
    by (simp add: slot_bytes_def block_dummy_def payload_zero_def)
  ultimately have "copy_slice (i * slot_size p) (u32_le DUMMY) (xs @ replicate (Suc k * slot_size p) 0) =
      (Inr ((xs @ ?d) @ replicate (k * slot_size p) 0) :: ('e, bytes) outcome)"
    by (metis append_assoc)
  moreover have "length (xs @ ?d) = Suc i * slot_size p"
    using Suc.prems by (simp add: slot_bytes_def w)
  then have "(put_dummy_ids p [Suc i..<Suc i + k] ((xs @ ?d) @ replicate (k * slot_size p) 0) :: ('e, bytes) outcome) =
      Inr ((xs @ ?d) @ concat (replicate k ?d))"
    by (rule Suc.IH)
  ultimately show ?case by (simp only: upt put_dummy_ids.simps rbind_simps) simp
qed

lemma length_slot_bytes: "fits p bs \<Longrightarrow> b \<in> set bs \<Longrightarrow> length (slot_bytes b) = slot_size p"
  by (simp add: fits_def slot_bytes_def slot_size_def)

lemma serialise_bucket_bytes:
  assumes "fits p bs" and "length bs \<le> bucket_capacity p"
  shows "serialise_bucket bs p = (Inr (concat (map slot_bytes (pad_bucket p bs))) :: ('e, bytes) outcome)"
proof -
  let ?w = "slot_size p" and ?cap = "bucket_capacity p" and ?n = "length bs"
  have lens: "\<forall>xs \<in> set (map slot_bytes bs). length xs = ?w"
    using length_slot_bytes [OF assms(1)] by auto
  have le: "(0 + length (map slot_bytes bs)) * ?w \<le> length (replicate (?cap * ?w) (0::u8))"
    using assms(2) by (simp add: mult_le_mono1)
  have "put_blocks p 0 bs (replicate (?cap * ?w) 0) =
      (Inr (concat (map slot_bytes bs) @ replicate ((?cap - ?n) * ?w) 0) :: ('e, bytes) outcome)"
    using write_slots_Inr [OF lens le, where 'e = 'e] assms(2)
    by (simp add: put_blocks_slots [OF assms(1)] diff_mult_distrib)
  moreover have "length (concat (map slot_bytes bs)) = ?n * ?w"
    using length_concat_const [OF lens] by simp
  then have "put_dummy_ids p [?n..<?n + (?cap - ?n)]
      (concat (map slot_bytes bs) @ replicate ((?cap - ?n) * ?w) 0) =
      (Inr (concat (map slot_bytes bs) @
        concat (replicate (?cap - ?n) (slot_bytes (block_dummy (block_bytes p))))) :: ('e, bytes) outcome)"
    by (rule put_dummy_ids_fill)
  ultimately show ?thesis
    using assms(2) by (simp add: serialise_bucket_def pad_bucket_def Let_def)
qed

lemma deserialise_concat:
  assumes "fits p bs" and "length bs = bucket_capacity p"
  shows "deserialise_bucket (concat (map slot_bytes bs)) p = (Inr bs :: ('e, oblock list) outcome)"
proof -
  let ?w = "slot_size p" and ?c = "concat (map slot_bytes bs)"
  have lens: "\<forall>xs \<in> set (map slot_bytes bs). length xs = ?w"
    using length_slot_bytes [OF assms(1)] by auto
  have clen: "length ?c = length bs * ?w" using length_concat_const [OF lens] by simp
  have "read_block ?c p i = (Inr (bs ! i) :: ('e, oblock) outcome)" if i: "i < length bs" for i
  proof -
    have slot: "take ?w (drop (i * ?w) ?c) = slot_bytes (bs ! i)"
      using slot_of_concat [OF lens, of i "[]"] i by simp
    have pl: "length (ob_payload (bs ! i)) = block_bytes p"
      using assms(1) i by (simp add: fits_def)
    have "Suc i * ?w \<le> length bs * ?w" using i by (intro mult_le_mono1) simp
    then have room: "i * ?w + ?w \<le> length ?c" using clen by simp
    have "take 4 (drop (i * ?w) ?c) = take 4 (take ?w (drop (i * ?w) ?c))"
      by (simp add: slot_size_def)
    then have idb: "take 4 (drop (i * ?w) ?c) = u32_le (ob_id (bs ! i))"
      by (simp only: slot) (simp add: slot_bytes_def)
    have "take (block_bytes p) (drop (i * ?w + 4) ?c) = drop 4 (take ?w (drop (i * ?w) ?c))"
      by (simp add: slot_size_def drop_take add.commute)
    then have plb: "take (block_bytes p) (drop (i * ?w + 4) ?c) = ob_payload (bs ! i)"
      by (simp only: slot) (simp add: slot_bytes_def)
    show ?thesis
      using room idb plb pl
      by (simp add: read_block_def slice_def payload_from_exact_def Let_def slot_size_def add.assoc)
  qed
  then have "rmap (read_block ?c p) [0..<length bs] = (Inr (map ((!) bs) [0..<length bs]) :: ('e, oblock list) outcome)"
    by (intro rmap_Inr) simp
  then show ?thesis
    using clen by (simp add: deserialise_bucket_def map_nth flip: assms(2))
qed

lemma deserialise_serialise:
  assumes "fits p bs" and "length bs \<le> bucket_capacity p" and "serialise_bucket bs p = (Inr pt :: ('e, bytes) outcome)"
  shows "deserialise_bucket pt p = (Inr (pad_bucket p bs) :: ('f, oblock list) outcome)"
proof -
  have "pt = concat (map slot_bytes (pad_bucket p bs))"
    using assms serialise_bucket_bytes [OF assms(1,2), where 'e = 'e] by simp
  then show ?thesis using deserialise_concat [of p "pad_bucket p bs"] assms by simp
qed

lemma make_nonce_inj:
  assumes "b < 2 ^ 32" "b' < 2 ^ 32" "c < 2 ^ 32" "c' < 2 ^ 32"
    and "make_nonce b c = make_nonce b' c'"
  shows "b = b' \<and> c = c'"
proof -
  have "le_bytes 8 b = le_bytes 8 b'" "le_bytes 4 c = le_bytes 4 c'"
    using assms(5) by (simp_all add: make_nonce_def)
  then show ?thesis
    using le_bytes_inj [of b 8 b'] le_bytes_inj [of c 4 c'] assms by simp
qed

section \<open>Position map and stash\<close>

type_synonym posmap = "block_id \<Rightarrow> nat option"

definition posmap_get :: "posmap \<Rightarrow> block_id \<Rightarrow> nat option" where
  "posmap_get pm i = pm i"

definition posmap_set :: "block_id \<Rightarrow> nat \<Rightarrow> posmap \<Rightarrow> posmap" where
  "posmap_set i q pm = pm(i \<mapsto> q)"

type_synonym stash = "(block_id \<times> oblock) list"

definition stash_insert :: "oblock \<Rightarrow> stash \<Rightarrow> stash" where
  "stash_insert b st = AList.update (ob_id b) b st"

definition stash_take :: "block_id \<Rightarrow> stash \<Rightarrow> oblock option \<times> stash" where
  "stash_take i st = (map_of st i, AList.delete i st)"

definition stash_peek :: "stash \<Rightarrow> block_id \<Rightarrow> oblock option" where
  "stash_peek st i = map_of st i"

definition stash_ids :: "(block_id list \<Rightarrow> block_id list) \<Rightarrow> stash \<Rightarrow> block_id list" where
  "stash_ids order st = order (map fst st)"

definition stash_len :: "stash \<Rightarrow> nat" where
  "stash_len st = length st"

fun take_all :: "block_id list \<Rightarrow> stash \<Rightarrow> ('e, oblock list \<times> stash) outcome" where
  "take_all [] st = Inr ([], st)"
| "take_all (i # is) st =
     (case stash_take i st of
        (None, _) \<Rightarrow> Inl Panic
      | (Some b, st') \<Rightarrow> rbind (take_all is st') (\<lambda>(bs, st''). Inr (b # bs, st'')))"

definition drain_matching :: "(block_id list \<Rightarrow> block_id list) \<Rightarrow> (block_id \<Rightarrow> bool) \<Rightarrow> stash
    \<Rightarrow> ('e, oblock list \<times> stash) outcome" where
  "drain_matching order pred st = take_all (List.filter pred (stash_ids order st)) st"

definition wf_stash :: "stash \<Rightarrow> bool" where
  "wf_stash st \<longleftrightarrow> distinct (map fst st) \<and> (\<forall>(i, b) \<in> set st. ob_id b = i)"

lemma wf_stash_Nil [simp]: "wf_stash []"
  by (simp add: wf_stash_def)

lemma set_AList_delete: "set (AList.delete k al) = {x \<in> set al. fst x \<noteq> k}"
  by (auto simp: AList.delete_eq)

lemma wf_stash_take: "wf_stash st \<Longrightarrow> wf_stash (AList.delete i st)"
  by (auto simp: wf_stash_def AList.distinct_delete set_AList_delete)

lemma wf_stash_iff_map_of:
  "wf_stash st \<longleftrightarrow> distinct (map fst st) \<and> (\<forall>i b. map_of st i = Some b \<longrightarrow> ob_id b = i)"
  by (auto simp: wf_stash_def dest: map_of_SomeD)

lemma wf_stash_insert: "wf_stash st \<Longrightarrow> wf_stash (stash_insert b st)"
  by (auto simp: wf_stash_iff_map_of stash_insert_def AList.distinct_update split: if_splits)

lemma map_of_stash_insert [simp]: "map_of (stash_insert b st) = (map_of st)(ob_id b \<mapsto> b)"
  by (simp add: stash_insert_def)

lemma set_stash_ids: "perm_order order \<Longrightarrow> wf_stash st \<Longrightarrow> set (stash_ids order st) = dom (map_of st)"
  by (simp add: perm_order_def wf_stash_def stash_ids_def dom_map_of_conv_image_fst)

lemma distinct_stash_ids: "perm_order order \<Longrightarrow> wf_stash st \<Longrightarrow> distinct (stash_ids order st)"
  by (simp add: perm_order_def wf_stash_def stash_ids_def)

text \<open>Draining takes exactly the matching blocks and leaves the others.\<close>

lemma take_all_spec:
  assumes "distinct is" and "set is \<subseteq> dom (map_of st)"
  shows "\<exists>bs st'. take_all is st = (Inr (bs, st') :: ('e, oblock list \<times> stash) outcome) \<and>
    map (Some :: oblock \<Rightarrow> oblock option) bs = map (map_of st) is \<and>
    map_of st' = (map_of st) |` (- set is)"
  using assms
proof (induction "is" arbitrary: st)
  case Nil
  then show ?case by simp
next
  case (Cons i "is")
  obtain b where b: "map_of st i = Some b" using Cons.prems by auto
  let ?st = "AList.delete i st"
  have "set is \<subseteq> dom (map_of ?st)" using Cons.prems by auto
  then obtain bs st' where *:
    "take_all is ?st = (Inr (bs, st') :: ('e, oblock list \<times> stash) outcome)"
    "map (Some :: oblock \<Rightarrow> oblock option) bs = map (map_of ?st) is"
    "map_of st' = (map_of ?st) |` (- set is)"
    using Cons.IH Cons.prems(1) by (metis distinct.simps(2))
  have "map (map_of ?st) is = map (map_of st) is" using Cons.prems(1) by simp
  moreover have "map_of st' = (map_of st) |` (- set (i # is))"
    using *(3) by (auto simp: restrict_map_def fun_eq_iff)
  ultimately show ?case using b * by (simp add: stash_take_def)
qed

end
