(* ===== verification/Oram_Backend.thy ===== *)
theory Oram_Backend
  imports Oram_Block
begin

text \<open>
  The storage side of the Ring-ORAM: the \<open>BlockBackend\<close> trait and its in-memory
  implementation (\<^verbatim>\<open>crates/ring-oram/src/backend.rs\<close>).  The trait is the locale
  \<open>block_backend\<close>: what the client relies on when it reads and writes buckets.  The
  in-memory backend is interpreted below; the REST server is interpreted in its own
  theory.
\<close>

record enc_bucket =
  eb_bucket_id :: nat
  eb_write_counter :: nat
  eb_ciphertext :: bytes

text \<open>The trait's three methods.  \<open>read_path\<close> takes \<open>&self\<close> but may update counters kept
  behind shared references, so it returns the store as well.  The error is the text of
  an \<open>anyhow::Error\<close>.\<close>

record 'b backend_ops =
  be_read_path :: "nat list \<Rightarrow> ('b, string, enc_bucket list) eff"
  be_write_buckets :: "enc_bucket list \<Rightarrow> ('b, string, unit) eff"
  be_num_buckets :: "'b \<Rightarrow> nat"

section \<open>The in-memory backend\<close>

record mem_backend =
  mb_buckets :: "enc_bucket list"
  mb_read_count :: nat

definition mem_new :: "nat \<Rightarrow> mem_backend" where
  "mem_new n = \<lparr>mb_buckets = map (\<lambda>i. \<lparr>eb_bucket_id = i, eb_write_counter = 0, eb_ciphertext = []\<rparr>) [0..<n],
     mb_read_count = 0\<rparr>"

definition nth_checked :: "'a list \<Rightarrow> nat \<Rightarrow> ('e, 'a) outcome" where
  "nth_checked xs i = (if i < length xs then Inr (xs ! i) else Inl Panic)"

definition mem_read_path :: "nat list \<Rightarrow> (mem_backend, string, enc_bucket list) eff" where
  "mem_read_path ids =
     eseq (emodify (\<lambda>m. m\<lparr>mb_read_count := (mb_read_count m + length ids) mod 2 ^ 64\<rparr>))
       (ebind (eget mb_buckets) (\<lambda>bs. elift (rmap (nth_checked bs) ids)))"

definition mem_store :: "enc_bucket \<Rightarrow> (mem_backend, string, unit) eff" where
  "mem_store b =
     ebind (eget mb_buckets) (\<lambda>bs.
     eseq (eassert (eb_bucket_id b < length bs))
       (emodify (\<lambda>m. m\<lparr>mb_buckets := bs[eb_bucket_id b := b]\<rparr>)))"

definition mem_write_buckets :: "enc_bucket list \<Rightarrow> (mem_backend, string, unit) eff" where
  "mem_write_buckets bs = efor bs mem_store"

definition mem_num_buckets :: "mem_backend \<Rightarrow> nat" where
  "mem_num_buckets m = length (mb_buckets m) mod 2 ^ 32"

definition mem_ops :: "mem_backend backend_ops" where
  "mem_ops = \<lparr>be_read_path = mem_read_path, be_write_buckets = mem_write_buckets,
     be_num_buckets = mem_num_buckets\<rparr>"

section \<open>The contract of a backend\<close>

text \<open>\<open>view\<close> is the bucket stored at an index.  Reads in range return the stored buckets in
  the requested order and change nothing a later read can see; writes in range replace
  the named buckets, the last write to a bucket winning.\<close>

definition put_view :: "enc_bucket list \<Rightarrow> (nat \<Rightarrow> enc_bucket) \<Rightarrow> nat \<Rightarrow> enc_bucket" where
  "put_view bs v = fold (\<lambda>b v. v(eb_bucket_id b := b)) bs v"

lemma put_view_simps [simp]:
  "put_view [] v = v"
  "put_view (b # bs) v = put_view bs (v(eb_bucket_id b := b))"
  by (simp_all add: put_view_def)

lemma put_view_notin: "i \<notin> eb_bucket_id ` set bs \<Longrightarrow> put_view bs v i = v i"
  by (induction bs arbitrary: v) auto

lemma put_view_in:
  assumes "distinct (map eb_bucket_id bs)" and "b \<in> set bs"
  shows "put_view bs v (eb_bucket_id b) = b"
  using assms
proof (induction bs arbitrary: v)
  case (Cons c bs)
  show ?case
  proof (cases "b = c")
    case True
    then show ?thesis using Cons.prems(1) by (simp add: put_view_notin)
  next
    case False
    then show ?thesis using Cons by simp
  qed
qed simp

text \<open>\<open>obs\<close> is what an observer of the backend has seen, \<open>on_read\<close> and \<open>on_write\<close> how a
  request changes it: it depends on the bucket indices only.  A backend may \<open>start\<close> with
  nothing stored; the first write, of every bucket in order, brings it into its invariant.\<close>

lemma put_all_view:
  assumes "map eb_bucket_id es = [0..<n]" and "e \<in> set es"
  shows "put_view es v (eb_bucket_id e) = e \<and> eb_bucket_id e < n"
proof -
  have "eb_bucket_id e \<in> set (map eb_bucket_id es)" using assms(2) by auto
  then show ?thesis using put_view_in [OF _ assms(2)] assms(1) by simp
qed

locale block_backend =
  fixes be :: "'b backend_ops"
    and view :: "'b \<Rightarrow> nat \<Rightarrow> enc_bucket"
    and be_inv :: "'b \<Rightarrow> bool"
    and obs :: "'b \<Rightarrow> 'o"
    and on_read :: "nat list \<Rightarrow> 'o \<Rightarrow> 'o"
    and on_write :: "nat list \<Rightarrow> 'o \<Rightarrow> 'o"
    and start :: "'b \<Rightarrow> bool"
  assumes read_path_ok: "be_inv b \<Longrightarrow> \<forall>i \<in> set ids. i < be_num_buckets be b \<Longrightarrow>
      \<exists>b'. be_read_path be ids b = (Inr (map (view b) ids), b') \<and>
        be_inv b' \<and> view b' = view b \<and> be_num_buckets be b' = be_num_buckets be b \<and>
        obs b' = on_read ids (obs b)"
    and write_buckets_ok: "be_inv b \<Longrightarrow> \<forall>e \<in> set es. eb_bucket_id e < be_num_buckets be b \<Longrightarrow>
      \<exists>b'. be_write_buckets be es b = (Inr (), b') \<and> be_inv b' \<and>
        (\<forall>i < be_num_buckets be b. view b' i = put_view es (view b) i) \<and>
        be_num_buckets be b' = be_num_buckets be b \<and>
        obs b' = on_write (map eb_bucket_id es) (obs b)"
    and first_write_ok: "start b \<Longrightarrow> map eb_bucket_id es = [0..<be_num_buckets be b] \<Longrightarrow>
      \<exists>b'. be_write_buckets be es b = (Inr (), b') \<and> be_inv b' \<and>
        (\<forall>e \<in> set es. view b' (eb_bucket_id e) = e) \<and>
        be_num_buckets be b' = be_num_buckets be b \<and>
        obs b' = on_write (map eb_bucket_id es) (obs b)"

section \<open>The in-memory backend keeps the contract\<close>

definition mem_inv :: "mem_backend \<Rightarrow> bool" where
  "mem_inv m \<longleftrightarrow> length (mb_buckets m) < 2 ^ 32"

definition mem_view :: "mem_backend \<Rightarrow> nat \<Rightarrow> enc_bucket" where
  "mem_view m i = mb_buckets m ! i"

lemma mem_num_buckets_eq: "mem_inv m \<Longrightarrow> mem_num_buckets m = length (mb_buckets m)"
  by (simp add: mem_inv_def mem_num_buckets_def)

lemma mem_read_path_Inr:
  assumes "\<forall>i \<in> set ids. i < length (mb_buckets m)"
  shows "mem_read_path ids m = (Inr (map (mem_view m) ids),
    m\<lparr>mb_read_count := (mb_read_count m + length ids) mod 2 ^ 64\<rparr>)"
proof -
  have "rmap (nth_checked (mb_buckets m)) ids = Inr (map (mem_view m) ids)"
    using assms by (intro rmap_Inr) (auto simp: nth_checked_def mem_view_def)
  then show ?thesis by (simp add: mem_read_path_def eff_simps)
qed

lemma mem_write_buckets_Inr:
  assumes "\<forall>e \<in> set es. eb_bucket_id e < length (mb_buckets m)"
  shows "\<exists>bs. mem_write_buckets es m = (Inr (), m\<lparr>mb_buckets := bs\<rparr>) \<and>
    length bs = length (mb_buckets m) \<and>
    (\<forall>i < length bs. bs ! i = put_view es (\<lambda>i. mb_buckets m ! i) i)"
  using assms
proof (induction es arbitrary: m)
  case Nil
  then show ?case by (intro exI [of _ "mb_buckets m"]) (simp add: mem_write_buckets_def eff_simps)
next
  case (Cons e es)
  let ?m = "m\<lparr>mb_buckets := (mb_buckets m)[eb_bucket_id e := e]\<rparr>"
  have step: "mem_store e m = (Inr (), ?m)"
    using Cons.prems by (simp add: mem_store_def eff_simps)
  obtain bs where bs: "mem_write_buckets es ?m = (Inr (), ?m\<lparr>mb_buckets := bs\<rparr>)"
    "length bs = length (mb_buckets m)"
    "\<forall>i < length bs. bs ! i = put_view es (\<lambda>i. mb_buckets ?m ! i) i"
    using Cons.IH [of ?m] Cons.prems by auto
  have "put_view es (\<lambda>i. mb_buckets ?m ! i) i =
      put_view es ((\<lambda>i. mb_buckets m ! i)(eb_bucket_id e := e)) i" if "i < length bs" for i
    using that bs(2)
  proof (cases "i \<in> eb_bucket_id ` set es")
    case False
    then show ?thesis using that bs(2) by (auto simp: put_view_notin nth_list_update)
  next
    case True
    have "put_view es v i = put_view es w i" for v w
      using True by (induction es arbitrary: v w) (auto simp: put_view_notin, (metis put_view_notin fun_upd_same)+)
    then show ?thesis .
  qed
  with bs step show ?case
    by (intro exI [of _ bs]) (simp add: mem_write_buckets_def eff_simps)
qed

text \<open>The observation of the in-memory backend is its own read counter.\<close>

definition count_reads :: "nat list \<Rightarrow> nat \<Rightarrow> nat" where
  "count_reads ids n = (n + length ids) mod 2 ^ 64"

interpretation mem: block_backend mem_ops mem_view mem_inv mb_read_count count_reads "\<lambda>_ n. n" mem_inv
proof unfold_locales
  fix b :: mem_backend and ids :: "nat list"
  assume "mem_inv b" and "\<forall>i \<in> set ids. i < be_num_buckets mem_ops b"
  then show "\<exists>b'. be_read_path mem_ops ids b = (Inr (map (mem_view b) ids), b') \<and>
      mem_inv b' \<and> mem_view b' = mem_view b \<and> be_num_buckets mem_ops b' = be_num_buckets mem_ops b \<and>
      mb_read_count b' = count_reads ids (mb_read_count b)"
    by (simp add: mem_ops_def mem_num_buckets_eq mem_read_path_Inr count_reads_def)
       (simp add: mem_inv_def mem_view_def mem_num_buckets_def fun_eq_iff)
next
  fix b :: mem_backend and es :: "enc_bucket list"
  assume inv: "mem_inv b" and "\<forall>e \<in> set es. eb_bucket_id e < be_num_buckets mem_ops b"
  then have "\<forall>e \<in> set es. eb_bucket_id e < length (mb_buckets b)"
    by (simp add: mem_ops_def mem_num_buckets_eq)
  from mem_write_buckets_Inr [OF this] obtain bs where
    "mem_write_buckets es b = (Inr (), b\<lparr>mb_buckets := bs\<rparr>)"
    "length bs = length (mb_buckets b)"
    "\<forall>i < length bs. bs ! i = put_view es (\<lambda>i. mb_buckets b ! i) i" by blast
  with inv show "\<exists>b'. be_write_buckets mem_ops es b = (Inr (), b') \<and> mem_inv b' \<and>
      (\<forall>i < be_num_buckets mem_ops b. mem_view b' i = put_view es (mem_view b) i) \<and>
      be_num_buckets mem_ops b' = be_num_buckets mem_ops b \<and> mb_read_count b' = mb_read_count b"
    by (simp add: mem_ops_def mem_num_buckets_def mem_inv_def mem_view_def [abs_def])
next
  fix b :: mem_backend and es :: "enc_bucket list"
  assume inv: "mem_inv b" and ids: "map eb_bucket_id es = [0..<be_num_buckets mem_ops b]"
  have n: "be_num_buckets mem_ops b = length (mb_buckets b)" using inv by (simp add: mem_ops_def mem_num_buckets_eq)
  have "\<forall>e \<in> set es. eb_bucket_id e < length (mb_buckets b)"
    using put_all_view [OF ids] n by auto
  from mem_write_buckets_Inr [OF this] obtain bs where
    "mem_write_buckets es b = (Inr (), b\<lparr>mb_buckets := bs\<rparr>)" "length bs = length (mb_buckets b)"
    "\<forall>i < length bs. bs ! i = put_view es (\<lambda>i. mb_buckets b ! i) i" by blast
  with inv show "\<exists>b'. be_write_buckets mem_ops es b = (Inr (), b') \<and> mem_inv b' \<and>
      (\<forall>e \<in> set es. mem_view b' (eb_bucket_id e) = e) \<and>
      be_num_buckets mem_ops b' = be_num_buckets mem_ops b \<and> mb_read_count b' = mb_read_count b"
    using put_all_view [OF ids] n by (simp add: mem_ops_def mem_num_buckets_def mem_inv_def mem_view_def)
qed

section \<open>What the storage server sees\<close>

text \<open>Any backend with a log of the requests it serves: the bucket indices read and
  written, in order.  It is the adversary's view of the protocol, ciphertexts aside.\<close>

datatype request = ReadReq "nat list" | WriteReq "nat list"

definition spy_ops :: "'b backend_ops \<Rightarrow> ('b \<times> request list) backend_ops" where
  "spy_ops be = \<lparr>
     be_read_path = (\<lambda>ids (b, log). let (r, b') = be_read_path be ids b in (r, (b', log @ [ReadReq ids]))),
     be_write_buckets = (\<lambda>es (b, log). let (r, b') = be_write_buckets be es b in
        (r, (b', log @ [WriteReq (map eb_bucket_id es)]))),
     be_num_buckets = (\<lambda>(b, log). be_num_buckets be b)\<rparr>"

definition spy_read :: "nat list \<Rightarrow> request list \<Rightarrow> request list" where
  "spy_read ids log = log @ [ReadReq ids]"

definition spy_write :: "nat list \<Rightarrow> request list \<Rightarrow> request list" where
  "spy_write ids log = log @ [WriteReq ids]"

text \<open>A backend that keeps the contract keeps it when spied on.\<close>

lemma spy_contract:
  assumes "block_backend be view be_inv obs on_read on_write start"
  shows "block_backend (spy_ops be) (\<lambda>(b, _). view b) (\<lambda>(b, _). be_inv b) snd spy_read spy_write (\<lambda>(b, _). start b)"
proof -
  from assms have r: "\<And>b ids. be_inv b \<Longrightarrow> \<forall>i \<in> set ids. i < be_num_buckets be b \<Longrightarrow>
      \<exists>b'. be_read_path be ids b = (Inr (map (view b) ids), b') \<and>
        be_inv b' \<and> view b' = view b \<and> be_num_buckets be b' = be_num_buckets be b"
    and w: "\<And>b es. be_inv b \<Longrightarrow> \<forall>e \<in> set es. eb_bucket_id e < be_num_buckets be b \<Longrightarrow>
      \<exists>b'. be_write_buckets be es b = (Inr (), b') \<and> be_inv b' \<and>
        (\<forall>i < be_num_buckets be b. view b' i = put_view es (view b) i) \<and>
        be_num_buckets be b' = be_num_buckets be b"
    and f: "\<And>b es. start b \<Longrightarrow> map eb_bucket_id es = [0..<be_num_buckets be b] \<Longrightarrow>
      \<exists>b'. be_write_buckets be es b = (Inr (), b') \<and> be_inv b' \<and>
        (\<forall>e \<in> set es. view b' (eb_bucket_id e) = e) \<and> be_num_buckets be b' = be_num_buckets be b"
    unfolding block_backend_def by blast+
  show ?thesis
  proof (unfold_locales, goal_cases)
    case (1 b ids)
    then show ?case using r [of "fst b" ids]
      by (cases b) (auto simp: spy_ops_def spy_read_def)
  next
    case (2 b es)
    then show ?case using w [of "fst b" es]
      by (cases b) (auto simp: spy_ops_def spy_write_def)
  next
    case (3 b es)
    then show ?case using f [of "fst b" es]
      by (cases b) (auto simp: spy_ops_def spy_write_def)
  qed
qed

interpretation spy: block_backend "spy_ops mem_ops" "\<lambda>(b, _). mem_view b" "\<lambda>(b, _). mem_inv b"
  snd spy_read spy_write "\<lambda>(b, _). mem_inv b"
  by (rule spy_contract [OF mem.block_backend_axioms])

lemma mem_new_inv: "n < 2 ^ 32 \<Longrightarrow> mem_inv (mem_new n)"
  by (simp add: mem_inv_def mem_new_def)

lemma mem_new_num: "n < 2 ^ 32 \<Longrightarrow> be_num_buckets mem_ops (mem_new n) = n"
  by (simp add: mem_ops_def mem_num_buckets_def mem_new_def)

end
