(* ===== verification/Oram_Client.thy ===== *)
theory Oram_Client
  imports Oram_Backend
begin

text \<open>
  The Ring-ORAM client, \<^verbatim>\<open>crates/ring-oram/src/client.rs\<close>: its state and every
  operation, written over the operations \<open>be\<close> of any backend and the record \<open>X\<close> of the
  code of other crates it calls: AES-GCM, the ChaCha20 generator and the iteration
  order of the standard hash map.
\<close>

record 'g oram_ext =
  ext_seal :: seal_fun
  ext_unseal :: unseal_fun
  rng_from_seed :: "bytes \<Rightarrow> 'g"
  rng_range :: "nat \<Rightarrow> 'g \<Rightarrow> nat \<times> 'g"
  hash_order :: "block_id list \<Rightarrow> block_id list"

datatype oram_error =
    UnknownBlock block_id
  | Corrupted aes_error
  | PayloadSize nat nat
  | StashOverflow nat
  | Backend string

record ('b, 'g) oram_client =
  backend :: 'b
  params :: ring_oram_params
  key :: bytes
  posmap :: posmap
  stash :: stash
  counters :: "nat list"
  accesses_since_evict :: nat
  defer_evictions :: bool
  pending_evictions :: nat
  evict_cursor :: nat
  rng :: 'g
  treetop_cache :: "enc_bucket list"

type_synonym ('b, 'g, 'a) oram = "(('b, 'g) oram_client, oram_error, 'a) eff"

definition with_backend :: "('b, string, 'a) eff \<Rightarrow> ('b, 'g, 'a) oram" where
  "with_backend m = (\<lambda>c. let (r, b) = m (backend c) in (fail_as Backend r, c\<lparr>backend := b\<rparr>))"

section \<open>Reading and writing through the treetop cache\<close>

definition cached_bucket :: "ring_oram_params \<Rightarrow> enc_bucket list \<Rightarrow> nat \<Rightarrow>
    (oram_error, enc_bucket option) outcome" where
  "cached_bucket p cache bid =
     (if bucket_in_treetop p bid then rbind (nth_checked cache bid) (\<lambda>e. Inr (Some e)) else Inr None)"

fun fill_deep :: "enc_bucket option list \<Rightarrow> enc_bucket list \<Rightarrow> (oram_error, enc_bucket list) outcome" where
  "fill_deep [] deep = Inr []"
| "fill_deep (Some e # out) deep = rbind (fill_deep out deep) (\<lambda>es. Inr (e # es))"
| "fill_deep (None # out) [] = Inl Panic"
| "fill_deep (None # out) (d # deep) = rbind (fill_deep out deep) (\<lambda>es. Inr (d # es))"

definition read_path_cached :: "'b backend_ops \<Rightarrow> nat list \<Rightarrow> ('b, 'g, enc_bucket list) oram" where
  "read_path_cached be bucket_ids =
     ebind (eget (\<lambda>c. (params c, treetop_cache c))) (\<lambda>(p, cache).
     ebind (elift (rmap (cached_bucket p cache) bucket_ids)) (\<lambda>out.
     let deep_ids = filter (\<lambda>bid. \<not> bucket_in_treetop p bid) bucket_ids in
     ebind (if deep_ids = [] then ereturn [] else with_backend (be_read_path be deep_ids)) (\<lambda>deep.
     elift (fill_deep out deep))))"

definition grow_cache :: "nat \<Rightarrow> enc_bucket list \<Rightarrow> enc_bucket list" where
  "grow_cache idx cache = cache @
     map (\<lambda>i. \<lparr>eb_bucket_id = i, eb_write_counter = 0, eb_ciphertext = []\<rparr>) [length cache..<Suc idx]"

definition mirror_bucket :: "ring_oram_params \<Rightarrow> enc_bucket \<Rightarrow> enc_bucket list \<Rightarrow> enc_bucket list" where
  "mirror_bucket p b cache =
     (if bucket_in_treetop p (eb_bucket_id b)
      then (grow_cache (eb_bucket_id b) cache)[eb_bucket_id b := b] else cache)"

definition write_buckets_cached :: "'b backend_ops \<Rightarrow> enc_bucket list \<Rightarrow> ('b, 'g, unit) oram" where
  "write_buckets_cached be buckets =
     eseq (emodify (\<lambda>c. c\<lparr>treetop_cache := fold (mirror_bucket (params c)) buckets (treetop_cache c)\<rparr>))
       (with_backend (be_write_buckets be buckets))"

section \<open>Construction\<close>

definition dummies :: "ring_oram_params \<Rightarrow> oblock list" where
  "dummies p = map (\<lambda>_. block_dummy (block_bytes p)) [0..<bucket_capacity p]"

definition init_bucket :: "'g oram_ext \<Rightarrow> bytes \<Rightarrow> nat \<Rightarrow> ('b, 'g, enc_bucket) oram" where
  "init_bucket X pt bid =
     ebind (eget (\<lambda>c. (counters c, key c))) (\<lambda>(cs, k).
     eseq (eassert (bid < length cs))
     (eseq (emodify (\<lambda>c. c\<lparr>counters := cs[bid := 1]\<rparr>))
     (ereturn \<lparr>eb_bucket_id = bid, eb_write_counter = 1,
               eb_ciphertext = aes_encrypt (ext_seal X) k bid 1 pt\<rparr>)))"

definition initialize_tree :: "'b backend_ops \<Rightarrow> 'g oram_ext \<Rightarrow> ('b, 'g, unit) oram" where
  "initialize_tree be X =
     ebind (eget params) (\<lambda>p.
     ebind (elift (serialise_bucket (dummies p) p)) (\<lambda>pt.
     ebind (emap (init_bucket X pt) [0..<num_buckets p]) (\<lambda>updates.
     write_buckets_cached be updates)))"

definition oram_new :: "'b backend_ops \<Rightarrow> 'g oram_ext \<Rightarrow> 'b \<Rightarrow> ring_oram_params \<Rightarrow> bytes \<Rightarrow> bytes \<Rightarrow>
    (oram_error, ('b, 'g) oram_client) outcome" where
  "oram_new be X b p k seed =
     (if be_num_buckets be b \<noteq> num_buckets p then Inl Panic
      else case initialize_tree be X
             \<lparr>backend = b, params = p, key = k, posmap = Map.empty, stash = [],
              counters = replicate (num_buckets p) 0, accesses_since_evict = 0,
              defer_evictions = False, pending_evictions = 0, evict_cursor = 0,
              rng = rng_from_seed X seed, treetop_cache = []\<rparr> of
           (Inl e, _) \<Rightarrow> Inl e | (Inr _, c) \<Rightarrow> Inr c)"

section \<open>Eviction\<close>

definition fresh_path :: "'g oram_ext \<Rightarrow> ('b, 'g, nat) oram" where
  "fresh_path X =
     ebind (eget (\<lambda>c. (n_leaves (params c), rng c))) (\<lambda>(n, g).
     eseq (eassert (0 < n))
     (let (q, g') = rng_range X n g in
      eseq (emodify (\<lambda>c. c\<lparr>rng := g'\<rparr>)) (ereturn q)))"

text \<open>Decrypting a fetched path and moving its real blocks into the stash.  An
  authentication failure is an error in \<open>read\<close> and a panic (\<open>expect\<close>) in
  \<open>evict_path\<close>, hence the parameter \<open>on_err\<close>.\<close>

definition absorb_block :: "oblock \<Rightarrow> stash \<Rightarrow> stash" where
  "absorb_block b st =
     (if \<not> is_dummy b \<and> stash_peek st (ob_id b) = None then stash_insert b st else st)"

definition absorb_path :: "'g oram_ext \<Rightarrow> (aes_error \<Rightarrow> oram_error fault) \<Rightarrow> enc_bucket list \<Rightarrow>
    ('b, 'g, unit) oram" where
  "absorb_path X on_err encrypted =
     efor encrypted (\<lambda>eb.
       ebind (eget (\<lambda>c. (key c, params c))) (\<lambda>(k, p).
       case aes_decrypt (ext_unseal X) k (eb_bucket_id eb) (eb_write_counter eb) (eb_ciphertext eb) of
         Inl (Fail e) \<Rightarrow> efault (on_err e)
       | Inl _ \<Rightarrow> efault Panic
       | Inr pt \<Rightarrow>
           ebind (elift (deserialise_bucket pt p)) (\<lambda>blocks.
           emodify (\<lambda>c. c\<lparr>stash := fold absorb_block blocks (stash c)\<rparr>))))"

text \<open>Encrypting new contents for a list of buckets under bumped write counters.\<close>

definition seal_bucket :: "'g oram_ext \<Rightarrow> nat \<Rightarrow> oblock list \<Rightarrow> ('b, 'g, enc_bucket) oram" where
  "seal_bucket X bid blocks =
     ebind (eget (\<lambda>c. (params c, key c, counters c))) (\<lambda>(p, k, cs).
     ebind (elift (serialise_bucket blocks p)) (\<lambda>pt.
     eseq (eassert (bid < length cs))
     (let counter = wincr32 (cs ! bid) in
      eseq (emodify (\<lambda>c. c\<lparr>counters := cs[bid := counter]\<rparr>))
      (ereturn \<lparr>eb_bucket_id = bid, eb_write_counter = counter,
                eb_ciphertext = aes_encrypt (ext_seal X) k bid counter pt\<rparr>))))"

definition place_block :: "nat \<Rightarrow> nat list \<Rightarrow> nat list \<Rightarrow> oblock list list \<Rightarrow> nat option" where
  "place_block cap_z bucket_ids block_bucket_ids contents =
     List.find (\<lambda>d. bucket_ids ! d \<in> set block_bucket_ids \<and> length (contents ! d) < cap_z)
       (rev [0..<length bucket_ids])"

definition repack_one :: "nat list \<Rightarrow> block_id \<Rightarrow> oblock list list \<Rightarrow> ('b, 'g, oblock list list) oram" where
  "repack_one bucket_ids i contents =
     ebind (eget (\<lambda>c. (posmap_get (posmap c) i, params c, stash c))) (\<lambda>(q, p, st).
     case q of None \<Rightarrow> efault Panic
     | Some q \<Rightarrow>
        (case place_block (ring_z p) bucket_ids (path_buckets q (n_leaves p)) contents of
           None \<Rightarrow> ereturn contents
         | Some d \<Rightarrow>
            (case stash_take i st of
               (None, _) \<Rightarrow> efault Panic
             | (Some b, st') \<Rightarrow>
                 eseq (emodify (\<lambda>c. c\<lparr>stash := st'\<rparr>))
                   (ereturn (contents[d := contents ! d @ [b]])))))"

definition repack :: "nat list \<Rightarrow> block_id list \<Rightarrow> oblock list list \<Rightarrow> ('b, 'g, oblock list list) oram" where
  "repack bucket_ids = efold (repack_one bucket_ids)"

definition evict_path :: "'b backend_ops \<Rightarrow> 'g oram_ext \<Rightarrow> ('b, 'g, unit) oram" where
  "evict_path be X =
     ebind (eget params) (\<lambda>p.
     eseq (eassert (0 < n_leaves p))
     (ebind (eget (\<lambda>c. evict_cursor c mod n_leaves p)) (\<lambda>path.
     eseq (emodify (\<lambda>c. c\<lparr>evict_cursor := wincr32 (evict_cursor c) mod n_leaves p\<rparr>))
     (let bucket_ids = path_buckets path (n_leaves p) in
      ebind (read_path_cached be bucket_ids) (\<lambda>encrypted.
      eseq (absorb_path X (\<lambda>_. Panic) encrypted)
      (ebind (eget (\<lambda>c. stash_ids (hash_order X) (stash c))) (\<lambda>candidate_ids.
      ebind (repack bucket_ids candidate_ids (replicate (length bucket_ids) [])) (\<lambda>contents.
      ebind (emap (\<lambda>(bid, real). seal_bucket X bid (pad_bucket p real)) (zip bucket_ids contents)) (\<lambda>updates.
      write_buckets_cached be updates)))))))))"

text \<open>\<^verbatim>\<open>while self.accesses_since_evict >= self.params.a\<close>.  With \<open>a = 0\<close> the loop of the
  code does not end; with \<open>a > 0\<close> the fuel \<open>accesses_since_evict + 1\<close> is enough, which
  \<open>maybe_evict_fuel_enough\<close> below proves.\<close>

fun maybe_evict_loop :: "'b backend_ops \<Rightarrow> 'g oram_ext \<Rightarrow> nat \<Rightarrow> ('b, 'g, unit) oram" where
  "maybe_evict_loop be X 0 = efault Hang"
| "maybe_evict_loop be X (Suc fuel) =
     ebind (eget (\<lambda>c. (accesses_since_evict c, ring_a (params c), defer_evictions c))) (\<lambda>(acc, a, defer).
     if a \<le> acc then
       eseq (emodify (\<lambda>c. c\<lparr>accesses_since_evict := acc - a\<rparr>))
       (eseq (if defer then emodify (\<lambda>c. c\<lparr>pending_evictions := wincr32 (pending_evictions c)\<rparr>)
              else evict_path be X)
         (maybe_evict_loop be X fuel))
     else ereturn ())"

definition maybe_evict :: "'b backend_ops \<Rightarrow> 'g oram_ext \<Rightarrow> ('b, 'g, unit) oram" where
  "maybe_evict be X = ebind (eget accesses_since_evict) (\<lambda>acc. maybe_evict_loop be X (Suc acc))"

definition set_defer_evictions :: "bool \<Rightarrow> ('b, 'g, unit) oram" where
  "set_defer_evictions defer = emodify (\<lambda>c. c\<lparr>defer_evictions := defer\<rparr>)"

text \<open>\<open>evict_path\<close> does not touch \<open>pending_evictions\<close>, so the loop runs once per unit.\<close>

fun flush_loop :: "'b backend_ops \<Rightarrow> 'g oram_ext \<Rightarrow> nat \<Rightarrow> ('b, 'g, unit) oram" where
  "flush_loop be X 0 = ereturn ()"
| "flush_loop be X (Suc n) =
     eseq (evict_path be X)
     (eseq (emodify (\<lambda>c. c\<lparr>pending_evictions := pending_evictions c - 1\<rparr>)) (flush_loop be X n))"

definition flush_evictions :: "'b backend_ops \<Rightarrow> 'g oram_ext \<Rightarrow> ('b, 'g, unit) oram" where
  "flush_evictions be X = ebind (eget pending_evictions) (flush_loop be X)"

section \<open>Accesses\<close>

definition count_access :: "('b, 'g, unit) oram" where
  "count_access = emodify (\<lambda>c. c\<lparr>accesses_since_evict := wincr32 (accesses_since_evict c)\<rparr>)"

definition oram_admit :: "'b backend_ops \<Rightarrow> 'g oram_ext \<Rightarrow> block_id \<Rightarrow> bytes \<Rightarrow> ('b, 'g, unit) oram" where
  "oram_admit be X i payload =
     ebind (eget params) (\<lambda>p.
     if length payload \<noteq> block_bytes p
     then efault (Fail (PayloadSize (block_bytes p) (length payload)))
     else
       ebind (fresh_path X) (\<lambda>path.
       eseq (emodify (\<lambda>c. c\<lparr>posmap := posmap_set i path (posmap c)\<rparr>))
       (ebind (elift (payload_from_exact payload (block_bytes p))) (\<lambda>pl.
       eseq (emodify (\<lambda>c. c\<lparr>stash := stash_insert \<lparr>ob_id = i, ob_payload = pl\<rparr> (stash c)\<rparr>))
       (eseq count_access (maybe_evict be X))))))"

definition oram_read :: "'b backend_ops \<Rightarrow> 'g oram_ext \<Rightarrow> block_id \<Rightarrow> ('b, 'g, bytes) oram" where
  "oram_read be X i =
     ebind (eget (\<lambda>c. (posmap_get (posmap c) i, params c))) (\<lambda>(q, p).
     case q of None \<Rightarrow> efault (Fail (UnknownBlock i))
     | Some path \<Rightarrow>
       (let bucket_ids = path_buckets path (n_leaves p) in
        ebind (read_path_cached be bucket_ids) (\<lambda>encrypted.
        eseq (absorb_path X (\<lambda>e. Fail (Corrupted e)) encrypted)
        (ebind (eget (\<lambda>c. stash_peek (stash c) i)) (\<lambda>entry.
        case entry of None \<Rightarrow> efault Panic
        | Some b \<Rightarrow>
          ebind (fresh_path X) (\<lambda>new_path.
          eseq (emodify (\<lambda>c. c\<lparr>posmap := posmap_set i new_path (posmap c)\<rparr>))
          (ebind (emap (\<lambda>bid. seal_bucket X bid (dummies p)) bucket_ids) (\<lambda>updates.
          eseq (write_buckets_cached be updates)
          (eseq count_access
          (eseq (maybe_evict be X)
            (ereturn (ob_payload b))))))))))))"

definition oram_write :: "'b backend_ops \<Rightarrow> 'g oram_ext \<Rightarrow> block_id \<Rightarrow> bytes \<Rightarrow> ('b, 'g, unit) oram" where
  "oram_write be X i payload =
     ebind (eget params) (\<lambda>p.
     if length payload \<noteq> block_bytes p
     then efault (Fail (PayloadSize (block_bytes p) (length payload)))
     else
       ebind (oram_read be X i) (\<lambda>_.
       ebind (eget stash) (\<lambda>st.
       case stash_take i st of
         (None, _) \<Rightarrow> efault Panic
       | (Some b, st') \<Rightarrow>
           ebind (elift (payload_from_exact payload (block_bytes p))) (\<lambda>pl.
           emodify (\<lambda>c. c\<lparr>stash := stash_insert (b\<lparr>ob_payload := pl\<rparr>) st'\<rparr>)))))"

definition oram_stash_len :: "('b, 'g) oram_client \<Rightarrow> nat" where
  "oram_stash_len c = stash_len (stash c)"

definition oram_num_buckets :: "'b backend_ops \<Rightarrow> ('b, 'g) oram_client \<Rightarrow> nat" where
  "oram_num_buckets be c = be_num_buckets be (backend c)"

end
