(* ===== verification/Oram_Content.thy ===== *)
theory Oram_Content
  imports Oram_Client
begin

text \<open>
  The abstract content of a Ring-ORAM: which payload each admitted block has, and how it
  is spread over the stash and the tree.  \<open>content_inv p T pm st V\<close> relates the decoded
  tree \<open>T\<close> (the slots of each bucket), the position map, the stash and the logical
  content \<open>V\<close>; the lemmas show that each elementary move of the protocol (draining a
  path, remapping, placing, admitting, overwriting) keeps it.
\<close>

definition on_path :: "ring_oram_params \<Rightarrow> nat \<Rightarrow> nat \<Rightarrow> bool" where
  "on_path p q x \<longleftrightarrow> x \<in> set (path_buckets q (n_leaves p))"

definition content_inv :: "ring_oram_params \<Rightarrow> (nat \<Rightarrow> oblock list) \<Rightarrow> posmap \<Rightarrow> stash \<Rightarrow>
    (block_id \<Rightarrow> bytes option) \<Rightarrow> bool" where
  "content_inv p T pm st V \<longleftrightarrow>
     wf_stash st \<and> dom V = dom pm \<and> DUMMY \<notin> dom pm \<and>
     (\<forall>i q. pm i = Some q \<longrightarrow> q < n_leaves p) \<and>
     (\<forall>i v. V i = Some v \<longrightarrow> length v = block_bytes p) \<and>
     (\<forall>i b. map_of st i = Some b \<longrightarrow> V i = Some (ob_payload b)) \<and>
     (\<forall>x < num_buckets p. \<forall>b \<in> set (T x). \<not> is_dummy b \<longrightarrow>
        V (ob_id b) = Some (ob_payload b) \<and> map_of st (ob_id b) = None \<and>
        (\<exists>q. pm (ob_id b) = Some q \<and> on_path p q x)) \<and>
     (\<forall>x < num_buckets p. \<forall>y < num_buckets p. \<forall>b \<in> set (T x). \<forall>b' \<in> set (T y).
        \<not> is_dummy b \<and> ob_id b = ob_id b' \<longrightarrow> x = y) \<and>
     (\<forall>i q. pm i = Some q \<and> map_of st i = None \<longrightarrow>
        (\<exists>x. x < num_buckets p \<and> on_path p q x \<and> (\<exists>b \<in> set (T x). ob_id b = i)))"

lemma content_invD:
  assumes "content_inv p T pm st V"
  shows "wf_stash st" and "dom V = dom pm" and "DUMMY \<notin> dom pm"
    and "\<And>i q. pm i = Some q \<Longrightarrow> q < n_leaves p"
    and "\<And>i v. V i = Some v \<Longrightarrow> length v = block_bytes p"
    and "\<And>i b. map_of st i = Some b \<Longrightarrow> V i = Some (ob_payload b)"
    and "\<And>x b. x < num_buckets p \<Longrightarrow> b \<in> set (T x) \<Longrightarrow> \<not> is_dummy b \<Longrightarrow>
        V (ob_id b) = Some (ob_payload b)"
    and "\<And>x b. x < num_buckets p \<Longrightarrow> b \<in> set (T x) \<Longrightarrow> \<not> is_dummy b \<Longrightarrow> map_of st (ob_id b) = None"
    and "\<And>x b. x < num_buckets p \<Longrightarrow> b \<in> set (T x) \<Longrightarrow> \<not> is_dummy b \<Longrightarrow>
        \<exists>q. pm (ob_id b) = Some q \<and> on_path p q x"
    and "\<And>x y b b'. x < num_buckets p \<Longrightarrow> y < num_buckets p \<Longrightarrow> b \<in> set (T x) \<Longrightarrow> b' \<in> set (T y) \<Longrightarrow>
        \<not> is_dummy b \<Longrightarrow> ob_id b = ob_id b' \<Longrightarrow> x = y"
    and "\<And>i q. pm i = Some q \<Longrightarrow> map_of st i = None \<Longrightarrow>
        \<exists>x. x < num_buckets p \<and> on_path p q x \<and> (\<exists>b \<in> set (T x). ob_id b = i)"
  using assms unfolding content_inv_def by blast+

lemma content_invI:
  assumes "wf_stash st" and "dom V = dom pm" and "DUMMY \<notin> dom pm"
    and "\<And>i q. pm i = Some q \<Longrightarrow> q < n_leaves p"
    and "\<And>i v. V i = Some v \<Longrightarrow> length v = block_bytes p"
    and "\<And>i b. map_of st i = Some b \<Longrightarrow> V i = Some (ob_payload b)"
    and "\<And>x b. x < num_buckets p \<Longrightarrow> b \<in> set (T x) \<Longrightarrow> \<not> is_dummy b \<Longrightarrow>
        V (ob_id b) = Some (ob_payload b)"
    and "\<And>x b. x < num_buckets p \<Longrightarrow> b \<in> set (T x) \<Longrightarrow> \<not> is_dummy b \<Longrightarrow> map_of st (ob_id b) = None"
    and "\<And>x b. x < num_buckets p \<Longrightarrow> b \<in> set (T x) \<Longrightarrow> \<not> is_dummy b \<Longrightarrow>
        \<exists>q. pm (ob_id b) = Some q \<and> on_path p q x"
    and "\<And>x y b b'. x < num_buckets p \<Longrightarrow> y < num_buckets p \<Longrightarrow> b \<in> set (T x) \<Longrightarrow> b' \<in> set (T y) \<Longrightarrow>
        \<not> is_dummy b \<Longrightarrow> ob_id b = ob_id b' \<Longrightarrow> x = y"
    and "\<And>i q. pm i = Some q \<Longrightarrow> map_of st i = None \<Longrightarrow>
        \<exists>x. x < num_buckets p \<and> on_path p q x \<and> (\<exists>b \<in> set (T x). ob_id b = i)"
  shows "content_inv p T pm st V"
  unfolding content_inv_def
  by (intro conjI allI impI ballI; (elim conjE)?; (rule assms; assumption)?)

lemma stash_in_posmap: "content_inv p T pm st V \<Longrightarrow> map_of st i = Some b \<Longrightarrow> \<exists>q. pm i = Some q"
  using content_invD(2,6) by (metis domD domI)

text \<open>Only the real blocks of a bucket matter.\<close>

lemma content_real_cong:
  assumes inv: "content_inv p T pm st V"
    and same: "\<And>x b. x < num_buckets p \<Longrightarrow> \<not> is_dummy b \<Longrightarrow> b \<in> set (T x) \<longleftrightarrow> b \<in> set (T' x)"
  shows "content_inv p T' pm st V"
proof -
  note D = content_invD [OF inv]
  show ?thesis
  proof (rule content_invI)
    fix x b assume "x < num_buckets p" "b \<in> set (T' x)" "\<not> is_dummy b"
    then have "x < num_buckets p" "b \<in> set (T x)" "\<not> is_dummy b" using same by simp_all
    then show "V (ob_id b) = Some (ob_payload b)" "map_of st (ob_id b) = None"
      "\<exists>q. pm (ob_id b) = Some q \<and> on_path p q x"
      by (rule D(7), rule D(8), rule D(9))
  next
    fix x y b b'
    assume *: "x < num_buckets p" "y < num_buckets p" "b \<in> set (T' x)" "b' \<in> set (T' y)"
      "\<not> is_dummy b" "ob_id b = ob_id b'"
    then have "\<not> is_dummy b'" by (simp add: is_dummy_iff)
    then have "b \<in> set (T x)" "b' \<in> set (T y)" using * same by simp_all
    then show "x = y" using * D(10) by blast
  next
    fix i q assume pm: "pm i = Some q" and "map_of st i = None"
    then obtain x b where *: "x < num_buckets p" "on_path p q x" "b \<in> set (T x)" "ob_id b = i"
      using D(11) by blast
    have "i \<noteq> DUMMY" using pm D(3) by auto
    with * have "\<not> is_dummy b" by (simp add: is_dummy_iff)
    with * same have "b \<in> set (T' x)" by simp
    with * show "\<exists>x. x < num_buckets p \<and> on_path p q x \<and> (\<exists>b \<in> set (T' x). ob_id b = i)"
      by blast
  qed (fact D)+
qed

section \<open>Draining a path into the stash\<close>

lemma absorb_block_wf: "wf_stash st \<Longrightarrow> wf_stash (absorb_block b st)"
  by (simp add: absorb_block_def wf_stash_insert)

lemma fold_absorb_wf: "wf_stash st \<Longrightarrow> wf_stash (fold absorb_block bs st)"
  by (induction bs arbitrary: st) (simp_all add: absorb_block_wf)

lemma fold_absorb_keep: "map_of st i = Some b \<Longrightarrow> map_of (fold absorb_block bs st) i = Some b"
proof (induction bs arbitrary: st)
  case (Cons c bs)
  have "map_of (absorb_block c st) i = Some b"
    using Cons.prems by (auto simp: absorb_block_def stash_peek_def)
  then show ?case using Cons.IH by simp
qed simp

lemma fold_absorb_from:
  "map_of (fold absorb_block bs st) i = Some b \<Longrightarrow>
   map_of st i = Some b \<or> (b \<in> set bs \<and> \<not> is_dummy b \<and> ob_id b = i)"
proof (induction bs arbitrary: st)
  case (Cons c bs)
  then have "map_of (absorb_block c st) i = Some b \<or> (b \<in> set bs \<and> \<not> is_dummy b \<and> ob_id b = i)"
    by simp
  then show ?case by (auto simp: absorb_block_def split: if_splits)
qed simp

lemma fold_absorb_all:
  "b \<in> set bs \<Longrightarrow> \<not> is_dummy b \<Longrightarrow> map_of (fold absorb_block bs st) (ob_id b) \<noteq> None"
proof (induction bs arbitrary: st)
  case (Cons c bs)
  show ?case
  proof (cases "b \<in> set bs")
    case True
    then show ?thesis using Cons by simp
  next
    case False
    then have "map_of (absorb_block b st) (ob_id b) \<noteq> None"
      using Cons.prems by (auto simp: absorb_block_def stash_peek_def)
    then obtain d where "map_of (absorb_block b st) (ob_id b) = Some d" by auto
    then show ?thesis using False Cons.prems fold_absorb_keep by fastforce
  qed
qed simp

text \<open>New contents for the buckets of a path, the other buckets unchanged.\<close>

definition overlay :: "ring_oram_params \<Rightarrow> nat list \<Rightarrow> oblock list list \<Rightarrow> (nat \<Rightarrow> oblock list) \<Rightarrow>
    nat \<Rightarrow> oblock list" where
  "overlay p ids contents T x =
     (case map_of (zip ids contents) x of Some bs \<Rightarrow> pad_bucket p bs | None \<Rightarrow> T x)"

lemma overlay_out: "x \<notin> set ids \<Longrightarrow> overlay p ids contents T x = T x"
proof -
  assume "x \<notin> set ids"
  then have "x \<notin> fst ` set (zip ids contents)" by (auto dest: set_zip_leftD)
  then have "map_of (zip ids contents) x = None" by (simp add: map_of_eq_None_iff)
  then show ?thesis by (simp add: overlay_def)
qed

lemma overlay_nth:
  "distinct ids \<Longrightarrow> length contents = length ids \<Longrightarrow> d < length ids \<Longrightarrow>
   overlay p ids contents T (ids ! d) = pad_bucket p (contents ! d)"
  by (simp add: overlay_def map_of_zip_nth)

lemma set_pad_bucket_real: "\<not> is_dummy b \<Longrightarrow> b \<in> set (pad_bucket p bs) \<longleftrightarrow> b \<in> set bs"
  by (auto simp: pad_bucket_def)

lemma overlay_empty_real:
  assumes "x \<in> set ids" and "b \<in> set (overlay p ids (replicate (length ids) []) T x)"
  shows "is_dummy b"
proof -
  have "map_of (zip ids (replicate (length ids) [])) x = (Some [] :: oblock list option)"
    using assms(1) by (simp add: zip_replicate2 map_of_map_restrict)
  then show ?thesis using assms(2) by (auto simp: overlay_def pad_bucket_def)
qed

lemma content_drain:
  assumes inv: "content_inv p T pm st V" and ids: "\<forall>x \<in> set ids. x < num_buckets p"
  shows "content_inv p (overlay p ids (replicate (length ids) []) T) pm
    (fold absorb_block (concat (map T ids)) st) V"
    (is "content_inv p ?T pm ?st V")
proof -
  note D = content_invD [OF inv]
  have off: "x \<notin> set ids \<and> b \<in> set (T x)" if "b \<in> set (?T x)" "\<not> is_dummy b" for x b
    using that overlay_empty_real overlay_out by metis
  show ?thesis
  proof (rule content_invI)
    show "wf_stash ?st" using D(1) by (rule fold_absorb_wf)
  next
    fix i b assume "map_of ?st i = Some b"
    then consider "map_of st i = Some b" | x where "x \<in> set ids" "b \<in> set (T x)" "\<not> is_dummy b" "ob_id b = i"
      using fold_absorb_from [of "concat (map T ids)" st i b] by auto
    then show "V i = Some (ob_payload b)" using D(6,7) ids by cases auto
  next
    fix x b assume x: "x < num_buckets p" and b: "b \<in> set (?T x)" "\<not> is_dummy b"
    note o = off [OF b]
    show "V (ob_id b) = Some (ob_payload b)" "\<exists>q. pm (ob_id b) = Some q \<and> on_path p q x"
      using D(7) [OF x _ b(2)] D(9) [OF x _ b(2)] o by simp_all
    show "map_of ?st (ob_id b) = None"
    proof (rule ccontr)
      assume "map_of ?st (ob_id b) \<noteq> None"
      then obtain d where "map_of ?st (ob_id b) = Some d" by auto
      from fold_absorb_from [OF this] D(8) [OF x _ b(2)] o
      obtain y where "y \<in> set ids" "d \<in> set (T y)" "ob_id d = ob_id b" by auto
      then have "x = y" using D(10) [OF x, of y b d] o b(2) ids by auto
      with \<open>y \<in> set ids\<close> o show False by simp
    qed
  next
    fix x y b b'
    assume "x < num_buckets p" "y < num_buckets p" "b \<in> set (?T x)" "b' \<in> set (?T y)"
      "\<not> is_dummy b" "ob_id b = ob_id b'"
    moreover from this have "\<not> is_dummy b'" by (simp add: is_dummy_iff)
    ultimately show "x = y" using D(10) off by metis
  next
    fix i q assume pm: "pm i = Some q" and none: "map_of ?st i = None"
    then have "map_of st i = None" using fold_absorb_keep by (metis not_None_eq)
    with pm D(11) obtain x b where *: "x < num_buckets p" "on_path p q x" "b \<in> set (T x)" "ob_id b = i"
      by blast
    have "\<not> is_dummy b" using * pm D(3) by (auto simp: is_dummy_iff)
    have "x \<notin> set ids"
    proof
      assume "x \<in> set ids"
      then have "b \<in> set (concat (map T ids))" using * by auto
      from fold_absorb_all [OF this \<open>\<not> is_dummy b\<close>, of st] none * show False by simp
    qed
    then have "b \<in> set (?T x)" using * by (simp add: overlay_out)
    with * show "\<exists>x. x < num_buckets p \<and> on_path p q x \<and> (\<exists>b \<in> set (?T x). ob_id b = i)" by blast
  qed (fact D)+
qed

section \<open>Remapping, placing, admitting and overwriting\<close>

lemma content_remap:
  assumes inv: "content_inv p T pm st V" and i: "map_of st i = Some b" and q: "q < n_leaves p"
  shows "content_inv p T (pm(i \<mapsto> q)) st V"
proof -
  note D = content_invD [OF inv]
  have i_pm: "i \<in> dom pm" using stash_in_posmap [OF inv i] by auto
  show ?thesis
  proof (rule content_invI)
    show "dom V = dom (pm(i \<mapsto> q))" using D(2) i_pm by auto
    show "DUMMY \<notin> dom (pm(i \<mapsto> q))" using D(3) i_pm by auto
    show "q' < n_leaves p" if "(pm(i \<mapsto> q)) j = Some q'" for j q'
      using that q D(4) by (auto split: if_splits)
    show "\<exists>q'. (pm(i \<mapsto> q)) (ob_id c) = Some q' \<and> on_path p q' x"
      if "x < num_buckets p" "c \<in> set (T x)" "\<not> is_dummy c" for x c
      using D(8) [OF that] D(9) [OF that] i by auto
    show "\<exists>x. x < num_buckets p \<and> on_path p q' x \<and> (\<exists>b \<in> set (T x). ob_id b = j)"
      if "(pm(i \<mapsto> q)) j = Some q'" "map_of st j = None" for j q'
      using that i D(11) by (auto split: if_splits)
  qed (fact D)+
qed

lemma content_place:
  assumes inv: "content_inv p T pm st V" and i: "map_of st i = Some b" and q: "pm i = Some q"
    and x: "x < num_buckets p" "on_path p q x"
    and T': "\<And>y c. \<not> is_dummy c \<Longrightarrow> c \<in> set (T' y) \<longleftrightarrow> c \<in> set (T y) \<or> (y = x \<and> c = b)"
  shows "content_inv p T' pm (AList.delete i st) V"
proof -
  note D = content_invD [OF inv]
  have idb: "ob_id b = i" using D(1) i by (simp add: wf_stash_iff_map_of)
  have real: "\<not> is_dummy b" using idb q D(3) by (auto simp: is_dummy_iff)
  have notin: "ob_id c \<noteq> i" if "y < num_buckets p" "c \<in> set (T y)" "\<not> is_dummy c" for y c
    using D(8) [OF that] i by auto
  show ?thesis
  proof (rule content_invI)
    show "wf_stash (AList.delete i st)" using D(1) by (rule wf_stash_take)
    show "V j = Some (ob_payload c)" if "map_of (AList.delete i st) j = Some c" for j c
      using that D(6) by (auto split: if_splits)
    show "V (ob_id c) = Some (ob_payload c)"
      if "y < num_buckets p" "c \<in> set (T' y)" "\<not> is_dummy c" for y c
      using that T' D(6) [OF i] D(7) idb by auto
    show "map_of (AList.delete i st) (ob_id c) = None"
      if "y < num_buckets p" "c \<in> set (T' y)" "\<not> is_dummy c" for y c
      using that T' D(8) idb by auto
    show "\<exists>q. pm (ob_id c) = Some q \<and> on_path p q y"
      if "y < num_buckets p" "c \<in> set (T' y)" "\<not> is_dummy c" for y c
      using that T' D(9) q x idb by auto
  next
    fix y y' c c'
    assume *: "y < num_buckets p" "y' < num_buckets p" "c \<in> set (T' y)" "c' \<in> set (T' y')"
      "\<not> is_dummy c" "ob_id c = ob_id c'"
    then have "\<not> is_dummy c'" by (simp add: is_dummy_iff)
    with * show "y = y'" using T' D(10) notin idb by metis
  next
    fix j q' assume j: "pm j = Some q'" "map_of (AList.delete i st) j = None"
    show "\<exists>x. x < num_buckets p \<and> on_path p q' x \<and> (\<exists>b \<in> set (T' x). ob_id b = j)"
    proof (cases "j = i")
      case True
      then show ?thesis using j q x T' real idb by auto
    next
      case False
      then obtain y c where *: "y < num_buckets p" "on_path p q' y" "c \<in> set (T y)" "ob_id c = j"
        using D(11) [OF j(1)] j(2) by auto
      then have "\<not> is_dummy c" using j D(3) by (auto simp: is_dummy_iff)
      then show ?thesis using * T' by blast
    qed
  qed (fact D)+
qed

lemma content_admit:
  assumes inv: "content_inv p T pm st V" and new: "pm i = None" and i: "i \<noteq> DUMMY"
    and q: "q < n_leaves p" and len: "length v = block_bytes p"
  shows "content_inv p T (pm(i \<mapsto> q)) (stash_insert \<lparr>ob_id = i, ob_payload = v\<rparr> st) (V(i \<mapsto> v))"
proof -
  note D = content_invD [OF inv]
  have other: "ob_id c \<noteq> i" if "x < num_buckets p" "c \<in> set (T x)" "\<not> is_dummy c" for x c
    using D(9) [OF that] new by auto
  show ?thesis
  proof (rule content_invI)
    show "wf_stash (stash_insert \<lparr>ob_id = i, ob_payload = v\<rparr> st)"
      using D(1) by (rule wf_stash_insert)
    show "dom (V(i \<mapsto> v)) = dom (pm(i \<mapsto> q))" using D(2) by auto
    show "DUMMY \<notin> dom (pm(i \<mapsto> q))" using D(3) i by auto
    show "q' < n_leaves p" if "(pm(i \<mapsto> q)) j = Some q'" for j q'
      using that q D(4) by (auto split: if_splits)
    show "length w = block_bytes p" if "(V(i \<mapsto> v)) j = Some w" for j w
      using that len D(5) by (auto split: if_splits)
    show "(V(i \<mapsto> v)) j = Some (ob_payload b)"
      if "map_of (stash_insert \<lparr>ob_id = i, ob_payload = v\<rparr> st) j = Some b" for j b
      using that D(6) by (auto split: if_splits)
    show "(V(i \<mapsto> v)) (ob_id c) = Some (ob_payload c)"
      if "x < num_buckets p" "c \<in> set (T x)" "\<not> is_dummy c" for x c
      using D(7) [OF that] other [OF that] by simp
    show "map_of (stash_insert \<lparr>ob_id = i, ob_payload = v\<rparr> st) (ob_id c) = None"
      if "x < num_buckets p" "c \<in> set (T x)" "\<not> is_dummy c" for x c
      using D(8) [OF that] other [OF that] by simp
    show "\<exists>q'. (pm(i \<mapsto> q)) (ob_id c) = Some q' \<and> on_path p q' x"
      if "x < num_buckets p" "c \<in> set (T x)" "\<not> is_dummy c" for x c
      using D(9) [OF that] other [OF that] by simp
    show "\<exists>x. x < num_buckets p \<and> on_path p q' x \<and> (\<exists>b \<in> set (T x). ob_id b = j)"
      if "(pm(i \<mapsto> q)) j = Some q'" "map_of (stash_insert \<lparr>ob_id = i, ob_payload = v\<rparr> st) j = None" for j q'
      using that D(11) by (auto split: if_splits)
  qed (fact D)+
qed

lemma content_overwrite:
  assumes inv: "content_inv p T pm st V" and i: "map_of st i = Some b" and len: "length v = block_bytes p"
  shows "content_inv p T pm (stash_insert (b\<lparr>ob_payload := v\<rparr>) (AList.delete i st)) (V(i \<mapsto> v))"
proof -
  note D = content_invD [OF inv]
  have idb: "ob_id b = i" using D(1) i by (simp add: wf_stash_iff_map_of)
  let ?st = "stash_insert (b\<lparr>ob_payload := v\<rparr>) (AList.delete i st)"
  have m: "map_of ?st = (map_of st)(i \<mapsto> b\<lparr>ob_payload := v\<rparr>)" by (simp add: idb)
  have other: "ob_id c \<noteq> i" if "x < num_buckets p" "c \<in> set (T x)" "\<not> is_dummy c" for x c
    using D(8) [OF that] i by auto
  show ?thesis
  proof (rule content_invI)
    show "wf_stash ?st" using D(1) by (intro wf_stash_insert wf_stash_take)
    show "dom (V(i \<mapsto> v)) = dom pm" using D(2) stash_in_posmap [OF inv i] by auto
    show "length w = block_bytes p" if "(V(i \<mapsto> v)) j = Some w" for j w
      using that len D(5) by (auto split: if_splits)
    show "(V(i \<mapsto> v)) j = Some (ob_payload c)" if "map_of ?st j = Some c" for j c
      using that D(6) unfolding m by (auto split: if_splits)
    show "(V(i \<mapsto> v)) (ob_id c) = Some (ob_payload c)"
      if "x < num_buckets p" "c \<in> set (T x)" "\<not> is_dummy c" for x c
      using D(7) [OF that] other [OF that] by simp
    show "map_of ?st (ob_id c) = None"
      if "x < num_buckets p" "c \<in> set (T x)" "\<not> is_dummy c" for x c
      using D(8) [OF that] other [OF that] unfolding m by simp
    show "\<exists>x. x < num_buckets p \<and> on_path p q x \<and> (\<exists>b \<in> set (T x). ob_id b = j)"
      if "pm j = Some q" "map_of ?st j = None" for j q
      using that D(11) unfolding m by (auto split: if_splits)
  qed (fact D)+
qed

lemma content_empty: "content_inv p (\<lambda>_. dummies p) Map.empty [] Map.empty"
  by (rule content_invI) (auto simp: dummies_def)

end
