(* ===== verification/Oram_Physical.thy ===== *)
theory Oram_Physical
  imports Oram_Content
begin

text \<open>
  The encrypted side of the Ring-ORAM: the backend holds, for every bucket, the frame of
  the bucket's slots sealed under the client's write counter, and the treetop cache
  mirrors the top of the tree.  The lemmas are proved once for any backend that keeps
  the contract \<open>block_backend\<close>.
\<close>

definition ext_ok :: "'g oram_ext \<Rightarrow> bool" where
  "ext_ok X \<longleftrightarrow> aead_roundtrip (ext_seal X) (ext_unseal X) \<and>
     (\<forall>n g. 0 < n \<longrightarrow> fst (rng_range X n g) < n) \<and> perm_order (hash_order X)"

definition sealed :: "'g oram_ext \<Rightarrow> bytes \<Rightarrow> nat \<Rightarrow> nat \<Rightarrow> oblock list \<Rightarrow> enc_bucket" where
  "sealed X k x ctr bs = \<lparr>eb_bucket_id = x, eb_write_counter = ctr,
     eb_ciphertext = aes_encrypt (ext_seal X) k x ctr (concat (map slot_bytes bs))\<rparr>"

lemma sealed_simps [simp]:
  "eb_bucket_id (sealed X k x ctr bs) = x" "eb_write_counter (sealed X k x ctr bs) = ctr"
  by (simp_all add: sealed_def)

definition tree_shape :: "ring_oram_params \<Rightarrow> (nat \<Rightarrow> oblock list) \<Rightarrow> bool" where
  "tree_shape p T \<longleftrightarrow> (\<forall>x < num_buckets p. length (T x) = bucket_capacity p \<and> fits p (T x))"

definition phys_inv :: "'b backend_ops \<Rightarrow> ('b \<Rightarrow> nat \<Rightarrow> enc_bucket) \<Rightarrow> ('b \<Rightarrow> bool) \<Rightarrow> 'g oram_ext \<Rightarrow>
    ('b, 'g) oram_client \<Rightarrow> (nat \<Rightarrow> oblock list) \<Rightarrow> bool" where
  "phys_inv be view be_inv X c T \<longleftrightarrow>
     be_inv (backend c) \<and> be_num_buckets be (backend c) = num_buckets (params c) \<and>
     length (counters c) = num_buckets (params c) \<and> tree_shape (params c) T \<and>
     (\<forall>x < num_buckets (params c). view (backend c) x = sealed X (key c) x (counters c ! x) (T x)) \<and>
     (\<forall>x < num_buckets (params c). bucket_in_treetop (params c) x \<longrightarrow>
        x < length (treetop_cache c) \<and> treetop_cache c ! x = view (backend c) x)"

lemma phys_invD:
  assumes "phys_inv be view be_inv X c T"
  shows "be_inv (backend c)" and "be_num_buckets be (backend c) = num_buckets (params c)"
    and "length (counters c) = num_buckets (params c)" and "tree_shape (params c) T"
    and "\<And>x. x < num_buckets (params c) \<Longrightarrow> view (backend c) x = sealed X (key c) x (counters c ! x) (T x)"
    and "\<And>x. x < num_buckets (params c) \<Longrightarrow> bucket_in_treetop (params c) x \<Longrightarrow> x < length (treetop_cache c)"
    and "\<And>x. x < num_buckets (params c) \<Longrightarrow> bucket_in_treetop (params c) x \<Longrightarrow>
      treetop_cache c ! x = view (backend c) x"
  using assms unfolding phys_inv_def by simp_all

section \<open>Stepping through a computation\<close>

lemma ebind_step: "m s = (Inr x, s') \<Longrightarrow> ebind m k s = k x s'"
  by (simp add: ebind_def)

lemma eseq_step: "m s = (Inr x, s') \<Longrightarrow> eseq m k s = k s'"
  by (simp add: eseq_def ebind_def)

lemma eget_step [simp]: "ebind (eget f) k s = k (f s) s"
  by (simp add: eff_simps)

lemma emodify_step [simp]: "eseq (emodify f) k s = k (f s)"
  by (simp add: eff_simps)

lemma eassert_step [simp]: "b \<Longrightarrow> eseq (eassert b) k s = k s"
  by (simp add: eff_simps)

lemma elift_step [simp]: "ebind (elift (Inr x)) k s = k x s"
  by (simp add: eff_simps)

lemma ereturn_eq [simp]: "ereturn x s = (Inr x, s)"
  by (simp add: eff_simps)

section \<open>Draining and repacking\<close>

lemma fill_deep_merge:
  "fill_deep (map (\<lambda>x. if P x then Some (f x) else None) ids) (map f (filter (\<lambda>x. \<not> P x) ids)) =
   Inr (map f ids)"
  by (induction ids) auto

lemma fits_concat: "tree_shape p T \<Longrightarrow> x < num_buckets p \<Longrightarrow>
  deserialise_bucket (concat (map slot_bytes (T x))) p = Inr (T x)"
  by (simp add: tree_shape_def deserialise_concat)

lemma absorb_path_ok:
  assumes X: "ext_ok X" and T: "tree_shape (params c) T"
    and ids: "\<forall>x \<in> set ids. x < num_buckets (params c)"
  shows "absorb_path X on_err (map (\<lambda>x. sealed X (key c) x (g x) (T x)) ids) c =
    (Inr (), c\<lparr>stash := fold absorb_block (concat (map T ids)) (stash c)\<rparr>)"
  using T ids
proof (induction ids arbitrary: c)
  case Nil
  then show ?case by (simp add: absorb_path_def)
next
  case (Cons x ids)
  have dec: "aes_decrypt (ext_unseal X) (key c) x (g x)
      (eb_ciphertext (sealed X (key c) x (g x) (T x))) = Inr (concat (map slot_bytes (T x)))"
    using X by (simp add: sealed_def ext_ok_def aes_decrypt_encrypt)
  let ?c = "c\<lparr>stash := fold absorb_block (T x) (stash c)\<rparr>"
  have "absorb_path X on_err (map (\<lambda>x. sealed X (key c) x (g x) (T x)) (x # ids)) c =
      absorb_path X on_err (map (\<lambda>x. sealed X (key ?c) x (g x) (T x)) ids) ?c"
    using Cons.prems dec
    by (simp add: fits_concat absorb_path_def eseq_def ebind_def eget_def elift_def emodify_def)
  then show ?case using Cons.IH [of ?c] Cons.prems by simp
qed

definition bounded :: "ring_oram_params \<Rightarrow> oblock list list \<Rightarrow> bool" where
  "bounded p contents \<longleftrightarrow> (\<forall>bs \<in> set contents. length bs \<le> ring_z p \<and> fits p bs)"

lemma place_block_Some:
  assumes "place_block zz ids path contents = Some d"
  shows "d < length ids" and "ids ! d \<in> set path" and "length (contents ! d) < zz"
  using assms by (auto simp: place_block_def find_Some_iff rev_nth)

lemma overlay_place:
  assumes "distinct ids" and "length contents = length ids" and "d < length ids"
    and "\<not> is_dummy x"
  shows "x \<in> set (overlay p ids (contents[d := contents ! d @ [b]]) T y) \<longleftrightarrow>
    x \<in> set (overlay p ids contents T y) \<or> (y = ids ! d \<and> x = b)"
proof (cases "y \<in> set ids")
  case False
  then show ?thesis using assms(3) by (auto simp: overlay_out)
next
  case True
  then obtain e where e: "e < length ids" "y = ids ! e" by (auto simp: in_set_conv_nth)
  have "y = ids ! d \<longleftrightarrow> e = d" using e assms(1,3) by (simp add: nth_eq_iff_index_eq)
  then show ?thesis
    using e assms by (auto simp: overlay_nth set_pad_bucket_real)
qed

lemma repack_ok:
  assumes ids: "distinct ids" "\<forall>x \<in> set ids. x < num_buckets (params c)"
    and len: "length contents = length ids" and bnd: "bounded (params c) contents"
    and inv: "content_inv (params c) (overlay (params c) ids contents T) (posmap c) (stash c) V"
    and cand: "distinct cand" "set cand \<subseteq> dom (map_of (stash c))"
  shows "\<exists>contents' st'. repack ids cand contents c = (Inr contents', c\<lparr>stash := st'\<rparr>) \<and>
    length contents' = length ids \<and> bounded (params c) contents' \<and>
    content_inv (params c) (overlay (params c) ids contents' T) (posmap c) st' V"
  using len bnd inv cand ids
proof (induction cand arbitrary: contents c)
  case Nil
  then show ?case
    by (intro exI [of _ contents] exI [of _ "stash c"]) (simp add: repack_def)
next
  case (Cons i cand)
  let ?p = "params c"
  obtain b where b: "map_of (stash c) i = Some b" using Cons.prems(5) by auto
  obtain q where q: "posmap c i = Some q" using stash_in_posmap [OF Cons.prems(3) b] by auto
  show ?case
  proof (cases "place_block (ring_z ?p) ids (path_buckets q (n_leaves ?p)) contents")
    case None
    then have "repack ids (i # cand) contents c = repack ids cand contents c"
      using q by (simp add: repack_def repack_one_def posmap_get_def ebind_def eget_def)
    then show ?thesis using Cons by simp
  next
    case (Some d)
    note d = place_block_Some [OF Some]
    let ?contents = "contents[d := contents ! d @ [b]]"
    let ?c = "c\<lparr>stash := AList.delete i (stash c)\<rparr>"
    have "repack ids (i # cand) contents c = repack ids cand ?contents ?c"
      using q b Some
      by (simp add: repack_def repack_one_def posmap_get_def stash_take_def ebind_def eget_def
          eseq_def emodify_def ereturn_def)
    moreover have "\<exists>contents' st'. repack ids cand ?contents ?c = (Inr contents', ?c\<lparr>stash := st'\<rparr>) \<and>
        length contents' = length ids \<and> bounded (params ?c) contents' \<and>
        content_inv (params ?c) (overlay (params ?c) ids contents' T) (posmap ?c) st' V"
    proof (rule Cons.IH)
      show "length ?contents = length ids" using Cons.prems(1) by simp
      have "length (ob_payload b) = block_bytes ?p"
        using content_invD(5,6) [OF Cons.prems(3)] b by blast
      then have "length (contents ! d @ [b]) \<le> ring_z ?p \<and> fits ?p (contents ! d @ [b])"
        using d Cons.prems(1,2) nth_mem [of d contents] by (auto simp: bounded_def fits_def)
      then show "bounded (params ?c) ?contents"
        using Cons.prems(2) set_update_subset_insert [of contents d "contents ! d @ [b]"]
        by (auto simp: bounded_def)
      have "content_inv ?p (overlay ?p ids ?contents T) (posmap c) (AList.delete i (stash c)) V"
        using Cons.prems(1,3,6,7) d
        by (intro content_place [where i = i and b = b and q = q and x = "ids ! d" and st = "stash c"
              and T = "overlay ?p ids contents T"])
           (simp_all add: overlay_place on_path_def b q)
      then show "content_inv (params ?c) (overlay (params ?c) ids ?contents T) (posmap ?c) (stash ?c) V"
        by simp
      show "set cand \<subseteq> dom (map_of (stash ?c))" using Cons.prems(4,5) by auto
    qed (use Cons.prems in auto)
    ultimately show ?thesis by simp
  qed
qed

section \<open>Sealing and storing\<close>

definition bump :: "nat list \<Rightarrow> nat list \<Rightarrow> nat list" where
  "bump ids cs = fold (\<lambda>x cs. cs[x := wincr32 (cs ! x)]) ids cs"

lemma length_bump [simp]: "length (bump ids cs) = length cs"
  by (induction ids arbitrary: cs) (simp_all add: bump_def)

lemma bump_Cons: "bump (x # ids) cs = bump ids (cs[x := wincr32 (cs ! x)])"
  by (simp add: bump_def)

lemma bump_notin: "x \<notin> set ids \<Longrightarrow> bump ids cs ! x = cs ! x"
  by (induction ids arbitrary: cs) (simp_all add: bump_Cons, simp add: bump_def)

lemma bump_in: "distinct ids \<Longrightarrow> x \<in> set ids \<Longrightarrow> x < length cs \<Longrightarrow> bump ids cs ! x = wincr32 (cs ! x)"
proof (induction ids arbitrary: cs)
  case (Cons y ids)
  show ?case
  proof (cases "x = y")
    case True
    then show ?thesis using Cons.prems by (simp add: bump_Cons bump_notin)
  next
    case False
    then show ?thesis using Cons by (simp add: bump_Cons)
  qed
qed simp

lemma seal_loop:
  assumes "distinct ids" and "length contents = length ids"
    and "\<forall>x \<in> set ids. x < length (counters c)"
    and "\<forall>bs \<in> set contents. length bs \<le> bucket_capacity (params c) \<and> fits (params c) bs"
  shows "emap (\<lambda>(bid, real). seal_bucket X bid (pad_bucket (params c) real)) (zip ids contents) c =
    (Inr (map (\<lambda>(x, bs). sealed X (key c) x (bump ids (counters c) ! x) (pad_bucket (params c) bs))
       (zip ids contents)),
     c\<lparr>counters := bump ids (counters c)\<rparr>)"
  using assms
proof (induction ids arbitrary: contents c)
  case Nil
  then show ?case by (simp add: bump_def)
next
  case (Cons x ids)
  then obtain bs rest where contents: "contents = bs # rest" by (cases contents) auto
  let ?p = "params c" and ?k = "wincr32 (counters c ! x)"
  let ?c = "c\<lparr>counters := (counters c)[x := ?k]\<rparr>"
  have pad: "length bs \<le> bucket_capacity ?p" "fits ?p bs" using Cons.prems contents by auto
  have "(serialise_bucket (pad_bucket ?p bs) ?p :: (oram_error, bytes) outcome) = Inr (concat (map slot_bytes (pad_bucket ?p bs)))"
    using pad by (simp add: serialise_bucket_bytes pad_bucket_pad)
  then have seal: "seal_bucket X x (pad_bucket ?p bs) c = (Inr (sealed X (key c) x ?k (pad_bucket ?p bs)), ?c)"
    using Cons.prems by (simp add: seal_bucket_def sealed_def Let_def)
  have "emap (\<lambda>(bid, real). seal_bucket X bid (pad_bucket (params ?c) real)) (zip ids rest) ?c =
      (Inr (map (\<lambda>(x, bs). sealed X (key ?c) x (bump ids (counters ?c) ! x) (pad_bucket (params ?c) bs))
         (zip ids rest)), ?c\<lparr>counters := bump ids (counters ?c)\<rparr>)"
    using Cons.prems contents by (intro Cons.IH) auto
  then have IH: "emap (\<lambda>(bid, real). seal_bucket X bid (pad_bucket ?p real)) (zip ids rest) ?c =
      (Inr (map (\<lambda>(y, bs). sealed X (key c) y (bump (x # ids) (counters c) ! y) (pad_bucket ?p bs))
         (zip ids rest)), c\<lparr>counters := bump (x # ids) (counters c)\<rparr>)"
    by (simp add: bump_Cons)
  have "bump (x # ids) (counters c) ! x = ?k" using Cons.prems by (intro bump_in) auto
  then show ?case
    using contents seal IH by (simp add: ebind_def)
qed

lemma mirror_length: "length cache \<le> length (fold (mirror_bucket p) es cache)"
proof (induction es arbitrary: cache)
  case (Cons e es)
  have "length cache \<le> length (mirror_bucket p e cache)"
    by (simp add: mirror_bucket_def grow_cache_def)
  then show ?case using Cons [of "mirror_bucket p e cache"] by simp
qed simp

lemma mirror_other:
  assumes "x \<notin> eb_bucket_id ` set es" and "x < length cache"
  shows "fold (mirror_bucket p) es cache ! x = cache ! x"
  using assms
proof (induction es arbitrary: cache)
  case (Cons e es)
  have "mirror_bucket p e cache ! x = cache ! x" and "x < length (mirror_bucket p e cache)"
    using Cons.prems by (auto simp: mirror_bucket_def grow_cache_def nth_append)
  then show ?case using Cons by simp
qed simp

lemma mirror_in:
  assumes "distinct (map eb_bucket_id es)" and "e \<in> set es" and "bucket_in_treetop p (eb_bucket_id e)"
  shows "eb_bucket_id e < length (fold (mirror_bucket p) es cache) \<and>
    fold (mirror_bucket p) es cache ! eb_bucket_id e = e"
  using assms
proof (induction es arbitrary: cache)
  case (Cons d es)
  show ?case
  proof (cases "d = e")
    case True
    let ?c = "mirror_bucket p e cache"
    have "eb_bucket_id e < length ?c" and "?c ! eb_bucket_id e = e"
      using Cons.prems(3) by (simp_all add: mirror_bucket_def grow_cache_def)
    moreover have "eb_bucket_id e \<notin> eb_bucket_id ` set es" using Cons.prems(1) True by simp
    ultimately show ?thesis
      using True mirror_other [of "eb_bucket_id e" es ?c p] mirror_length [of ?c p es] by simp
  next
    case False
    then show ?thesis using Cons by simp
  qed
qed simp

lemma tree_shape_overlay:
  assumes "tree_shape p T" and "wf_params p" and "bounded p contents" and "length contents = length ids"
  shows "tree_shape p (overlay p ids contents T)"
  unfolding tree_shape_def
proof (intro allI impI)
  fix x assume x: "x < num_buckets p"
  show "length (overlay p ids contents T x) = bucket_capacity p \<and> fits p (overlay p ids contents T x)"
  proof (cases "map_of (zip ids contents) x")
    case None
    then show ?thesis using assms(1) x by (simp add: overlay_def tree_shape_def)
  next
    case (Some bs)
    then have "bs \<in> set contents" using map_of_SomeD set_zip_rightD by fast
    then have "length bs \<le> bucket_capacity p" "fits p bs"
      using assms(2,3) by (auto simp: bounded_def bucket_capacity_eq)
    with Some show ?thesis by (simp add: overlay_def)
  qed
qed

section \<open>Through any backend\<close>

text \<open>The requests a path access makes: the buckets below the treetop are read, if there
  are any, and the whole path is written.\<close>

definition deep_part :: "ring_oram_params \<Rightarrow> nat list \<Rightarrow> nat list" where
  "deep_part p ids = filter (\<lambda>x. \<not> bucket_in_treetop p x) ids"

definition seen_read :: "(nat list \<Rightarrow> 'o \<Rightarrow> 'o) \<Rightarrow> ring_oram_params \<Rightarrow> nat list \<Rightarrow> 'o \<Rightarrow> 'o" where
  "seen_read on_read p ids o1 = (if deep_part p ids = [] then o1 else on_read (deep_part p ids) o1)"

definition seen_path :: "(nat list \<Rightarrow> 'o \<Rightarrow> 'o) \<Rightarrow> (nat list \<Rightarrow> 'o \<Rightarrow> 'o) \<Rightarrow> ring_oram_params \<Rightarrow>
    nat \<Rightarrow> 'o \<Rightarrow> 'o" where
  "seen_path on_read on_write p q o1 =
     on_write (path_buckets q (n_leaves p)) (seen_read on_read p (path_buckets q (n_leaves p)) o1)"

context block_backend begin

lemma read_path_cached_ok:
  assumes P: "phys_inv be view be_inv X c T" and ids: "\<forall>x \<in> set ids. x < num_buckets (params c)"
  shows "\<exists>b. read_path_cached be ids c =
      (Inr (map (\<lambda>x. sealed X (key c) x (counters c ! x) (T x)) ids), c\<lparr>backend := b\<rparr>) \<and>
    phys_inv be view be_inv X (c\<lparr>backend := b\<rparr>) T \<and>
    obs b = seen_read on_read (params c) ids (obs (backend c))"
proof -
  note D = phys_invD [OF P]
  let ?top = "bucket_in_treetop (params c)"
  let ?v = "view (backend c)" and ?deep = "filter (\<lambda>x. \<not> ?top x) ids"
  have cached: "rmap (cached_bucket (params c) (treetop_cache c)) ids =
      Inr (map (\<lambda>x. if ?top x then Some (?v x) else None) ids)"
    using ids D(6,7) by (intro rmap_Inr) (auto simp: cached_bucket_def nth_checked_def)
  have frames: "map ?v ids = map (\<lambda>x. sealed X (key c) x (counters c ! x) (T x)) ids"
    using ids D(5) by simp
  have fetch: "\<exists>b. (if ?deep = [] then ereturn [] else with_backend (be_read_path be ?deep)) c =
      (Inr (map ?v ?deep), c\<lparr>backend := b\<rparr>) \<and> phys_inv be view be_inv X (c\<lparr>backend := b\<rparr>) T \<and>
      obs b = seen_read on_read (params c) ids (obs (backend c))"
  proof (cases "?deep = []")
    case True
    then show ?thesis using P by (intro exI [of _ "backend c"]) (simp add: seen_read_def deep_part_def)
  next
    case False
    have "\<forall>i \<in> set ?deep. i < be_num_buckets be (backend c)" using ids D(2) by simp
    from read_path_ok [OF D(1) this] obtain b where
      "be_read_path be ?deep (backend c) = (Inr (map ?v ?deep), b)" "be_inv b" "view b = ?v"
      "be_num_buckets be b = be_num_buckets be (backend c)" "obs b = on_read ?deep (obs (backend c))"
      by blast
    with False P show ?thesis
      by (intro exI [of _ b]) (auto simp: with_backend_def phys_inv_def seen_read_def deep_part_def)
  qed
  then obtain b where b: "(if ?deep = [] then ereturn [] else with_backend (be_read_path be ?deep)) c =
      (Inr (map ?v ?deep), c\<lparr>backend := b\<rparr>)" "phys_inv be view be_inv X (c\<lparr>backend := b\<rparr>) T"
    "obs b = seen_read on_read (params c) ids (obs (backend c))"
    by blast
  have "read_path_cached be ids c = (fill_deep (map (\<lambda>x. if ?top x then Some (?v x) else None) ids)
      (map ?v ?deep), c\<lparr>backend := b\<rparr>)"
    using b(1) by (simp add: read_path_cached_def cached Let_def elift_def ebind_def eget_def)
  then show ?thesis using b(2,3) by (auto simp: fill_deep_merge frames)
qed

lemma write_buckets_cached_ok:
  assumes P: "phys_inv be view be_inv X c T" and wf: "wf_params (params c)"
    and ids: "distinct ids" "\<forall>x \<in> set ids. x < num_buckets (params c)"
    and contents: "length contents = length ids" "bounded (params c) contents"
    and c1: "c1 = c\<lparr>counters := bump ids (counters c)\<rparr>"
    and es: "es = map (\<lambda>(x, bs). sealed X (key c) x (bump ids (counters c) ! x) (pad_bucket (params c) bs))
       (zip ids contents)"
  shows "\<exists>b tc. write_buckets_cached be es c1 = (Inr (), c1\<lparr>backend := b, treetop_cache := tc\<rparr>) \<and>
    phys_inv be view be_inv X (c1\<lparr>backend := b, treetop_cache := tc\<rparr>) (overlay (params c) ids contents T) \<and>
    obs b = on_write ids (obs (backend c))"
proof -
  note D = phys_invD [OF P]
  let ?p = "params c" and ?T = "overlay (params c) ids contents T" and ?cs = "bump ids (counters c)"
  have mapid: "map eb_bucket_id es = ids"
    using contents(1) by (simp add: es split_beta comp_def)
  then have set_ids: "eb_bucket_id ` set es = set ids" by (metis set_map)
  have in_range: "\<forall>e \<in> set es. eb_bucket_id e < be_num_buckets be (backend c)"
    using ids(2) set_ids D(2) by auto
  from write_buckets_ok [OF D(1) this] obtain b where b:
    "be_write_buckets be es (backend c) = (Inr (), b)" "be_inv b"
    "\<forall>i < be_num_buckets be (backend c). view b i = put_view es (view (backend c)) i"
    "be_num_buckets be b = be_num_buckets be (backend c)"
    "obs b = on_write ids (obs (backend c))" using mapid by auto
  let ?tc = "fold (mirror_bucket ?p) es (treetop_cache c)"
  have run: "write_buckets_cached be es c1 = (Inr (), c1\<lparr>backend := b, treetop_cache := ?tc\<rparr>)"
    using b(1) by (simp add: write_buckets_cached_def with_backend_def c1)
  have elem: "sealed X (key c) x (?cs ! x) (?T x) \<in> set es" if x: "x \<in> set ids" for x
  proof -
    obtain d where d: "d < length ids" "x = ids ! d" using x by (auto simp: in_set_conv_nth)
    then have "es ! d = sealed X (key c) x (?cs ! x) (?T x)"
      using contents(1) ids(1) by (simp add: es overlay_nth)
    moreover have "d < length es" using d mapid by (metis length_map)
    ultimately show ?thesis by (metis nth_mem)
  qed
  have new_view: "view b x = sealed X (key c) x (?cs ! x) (?T x)" if x: "x < num_buckets ?p" for x
  proof (cases "x \<in> set ids")
    case True
    have "put_view es (view (backend c)) x = sealed X (key c) x (?cs ! x) (?T x)"
      using put_view_in [of es, OF _ elem [OF True]] ids(1) mapid by simp
    then show ?thesis using b(3) x D(2) by simp
  next
    case False
    then show ?thesis
      using b(3) x D(2) D(5) [OF x] set_ids by (simp add: put_view_notin bump_notin overlay_out)
  qed
  have cache: "x < length ?tc \<and> ?tc ! x = view b x"
    if x: "x < num_buckets ?p" and top: "bucket_in_treetop ?p x" for x
  proof (cases "x \<in> set ids")
    case True
    then show ?thesis
      using mirror_in [of es "sealed X (key c) x (?cs ! x) (?T x)" ?p "treetop_cache c"] elem [OF True]
        ids(1) mapid top new_view [OF x] by simp
  next
    case False
    then have "view b x = view (backend c) x"
      using new_view [OF x] D(5) [OF x] by (simp add: bump_notin overlay_out)
    moreover have "x < length ?tc" using D(6) [OF x top] mirror_length less_le_trans by blast
    ultimately show ?thesis
      using False set_ids D(6,7) [OF x top] by (simp add: mirror_other)
  qed
  have "phys_inv be view be_inv X (c1\<lparr>backend := b, treetop_cache := ?tc\<rparr>) ?T"
    using b(2,4) D(2,3) new_view cache tree_shape_overlay [OF D(4) wf contents(2,1)]
    by (simp add: phys_inv_def c1)
  with run b(5) show ?thesis by blast
qed

end

end
