(* ===== verification/Oram_Correct.thy ===== *)
theory Oram_Correct
  imports Oram_Physical
begin

text \<open>
  Functional correctness of the Ring-ORAM client.  \<open>oram_inv\<close> joins the encrypted tree
  and the abstract content; each operation keeps it, never panics, and has the effect of
  the corresponding operation of a plain map from block ids to payloads.  The lemmas are
  proved for every backend that keeps the contract and then read off for the in-memory
  backend.
\<close>

definition oram_inv :: "'b backend_ops \<Rightarrow> ('b \<Rightarrow> nat \<Rightarrow> enc_bucket) \<Rightarrow> ('b \<Rightarrow> bool) \<Rightarrow> 'g oram_ext \<Rightarrow>
    ('b, 'g) oram_client \<Rightarrow> (block_id \<Rightarrow> bytes option) \<Rightarrow> bool" where
  "oram_inv be view be_inv X c V \<longleftrightarrow> wf_params (params c) \<and>
     (\<exists>T. phys_inv be view be_inv X c T \<and> content_inv (params c) T (posmap c) (stash c) V)"

text \<open>The part of the state an eviction leaves alone, and how far write counters moved:
  \<open>advanced view c c' n\<close> says every counter moved by at most \<open>n\<close> and a bucket whose
  counter did not move still holds the same frame.\<close>

definition same_control :: "('b, 'g) oram_client \<Rightarrow> ('b, 'g) oram_client \<Rightarrow> bool" where
  "same_control c c' \<longleftrightarrow> params c' = params c \<and> key c' = key c \<and> posmap c' = posmap c \<and>
     accesses_since_evict c' = accesses_since_evict c \<and> defer_evictions c' = defer_evictions c \<and>
     pending_evictions c' = pending_evictions c"

definition advanced :: "('b \<Rightarrow> nat \<Rightarrow> enc_bucket) \<Rightarrow> ('b, 'g) oram_client \<Rightarrow> ('b, 'g) oram_client \<Rightarrow> nat \<Rightarrow> bool" where
  "advanced view c c' n \<longleftrightarrow> params c' = params c \<and> (\<forall>x < num_buckets (params c).
     view (backend c') x = view (backend c) x \<or>
     (\<exists>j. 0 < j \<and> j \<le> n \<and> eb_write_counter (view (backend c') x) =
        (eb_write_counter (view (backend c) x) + j) mod 2 ^ 32))"

lemma advanced_refl: "params c' = params c \<Longrightarrow> view (backend c') = view (backend c) \<Longrightarrow> advanced view c c' 0"
  by (simp add: advanced_def)

lemma advanced_trans:
  assumes "advanced view c c' m" and "advanced view c' c'' n"
  shows "advanced view c c'' (m + n)"
  unfolding advanced_def
proof (intro conjI allI impI)
  show "params c'' = params c" using assms by (simp add: advanced_def)
  fix x assume x: "x < num_buckets (params c)"
  let ?v = "\<lambda>c. view (backend c) x" and ?k = "\<lambda>c. eb_write_counter (view (backend c) x)"
  have 1: "?v c' = ?v c \<or> (\<exists>j. 0 < j \<and> j \<le> m \<and> ?k c' = (?k c + j) mod 2 ^ 32)"
    and 2: "?v c'' = ?v c' \<or> (\<exists>j. 0 < j \<and> j \<le> n \<and> ?k c'' = (?k c' + j) mod 2 ^ 32)"
    using assms x by (simp_all add: advanced_def)
  show "?v c'' = ?v c \<or> (\<exists>j. 0 < j \<and> j \<le> m + n \<and> ?k c'' = (?k c + j) mod 2 ^ 32)"
  proof (cases "?v c'' = ?v c'")
    case True
    with 1 show ?thesis by (metis trans_le_add1)
  next
    case False
    with 2 obtain j where j: "0 < j" "j \<le> n" "?k c'' = (?k c' + j) mod 2 ^ 32" by blast
    show ?thesis
    proof (cases "?v c' = ?v c")
      case True
      with j show ?thesis by (intro disjI2 exI [of _ j]) simp
    next
      case False
      with 1 obtain i where i: "0 < i" "i \<le> m" "?k c' = (?k c + i) mod 2 ^ 32" by blast
      with j have "?k c'' = (?k c + (i + j)) mod 2 ^ 32" by (simp add: mod_add_left_eq add.assoc)
      with i j show ?thesis by (intro disjI2 exI [of _ "i + j"]) simp
    qed
  qed
qed

lemma advanced_mono: "advanced view c c' m \<Longrightarrow> m \<le> n \<Longrightarrow> advanced view c c' n"
  unfolding advanced_def by (meson le_trans)

text \<open>Within fewer than \<open>2 ^ 32\<close> bumps, equal write counters mean the same frame.\<close>

lemma advanced_same_frame:
  assumes adv: "advanced view c c' n" and n: "n < 2 ^ 32" and x: "x < num_buckets (params c)"
    and eq: "eb_write_counter (view (backend c') x) = eb_write_counter (view (backend c) x)"
    and small: "eb_write_counter (view (backend c) x) < 2 ^ 32"
  shows "view (backend c') x = view (backend c) x"
proof (rule ccontr)
  let ?k = "eb_write_counter (view (backend c) x)"
  assume "view (backend c') x \<noteq> view (backend c) x"
  then obtain j where j: "0 < j" "j \<le> n" "?k = (?k + j) mod 2 ^ 32"
    using adv x eq by (auto simp: advanced_def)
  then have "(?k + j) mod 2 ^ 32 = ?k mod 2 ^ 32" using small by simp
  then have "2 ^ 32 dvd j" by (metis add_diff_cancel_left' le_add1 mod_eq_dvd_iff_nat)
  with j n show False by (auto dest: dvd_imp_le)
qed

context block_backend begin

lemma content_path_index:
  "content_inv p T pm st V \<Longrightarrow> pm i = Some q \<Longrightarrow> q < n_leaves p"
  by (rule content_invD(4))

text \<open>Storing new contents over a path, with the write counters it consumes.\<close>

lemma advanced_store:
  assumes P: "phys_inv be view be_inv X c T"
    and P': "phys_inv be view be_inv X c' (overlay (params c) ids contents T)"
    and c': "params c' = params c" "key c' = key c" "counters c' = bump ids (counters c)"
    and ids: "distinct ids"
  shows "advanced view c c' 1"
  unfolding advanced_def
proof (intro conjI allI impI)
  fix x assume x: "x < num_buckets (params c)"
  have v: "view (backend c) x = sealed X (key c) x (counters c ! x) (T x)"
    "view (backend c') x = sealed X (key c) x (bump ids (counters c) ! x) (overlay (params c) ids contents T x)"
    using phys_invD(5) [OF P x] phys_invD(5) [OF P', of x] x c' by simp_all
  show "view (backend c') x = view (backend c) x \<or> (\<exists>j. 0 < j \<and> j \<le> 1 \<and>
      eb_write_counter (view (backend c') x) = (eb_write_counter (view (backend c) x) + j) mod 2 ^ 32)"
    using v ids x phys_invD(3) [OF P]
    by (cases "x \<in> set ids") (auto simp: bump_in wincr32_def wadd32_def bump_notin overlay_out)
qed (use c' in simp)

text \<open>One eviction: it drains the path, repacks what fits and stores the path again; the
  logical content does not change.\<close>

lemma dummies_pad: "dummies p = pad_bucket p []"
  by (simp add: dummies_def pad_bucket_def map_replicate_const)

lemma bounded_empty: "bounded p (replicate n [])"
  by (auto simp: bounded_def fits_def)

lemma bounded_seal:
  "wf_params p \<Longrightarrow> bounded p contents \<Longrightarrow>
   \<forall>bs \<in> set contents. length bs \<le> bucket_capacity p \<and> fits p bs"
  by (auto simp: bounded_def bucket_capacity_eq)

lemma drain_ok:
  assumes P: "phys_inv be view be_inv X c T" and X: "ext_ok X"
    and C: "content_inv (params c) T (posmap c) (stash c) V"
    and ids: "\<forall>x \<in> set ids. x < num_buckets (params c)"
  shows "\<exists>encrypted b st. read_path_cached be ids c = (Inr encrypted, c\<lparr>backend := b\<rparr>) \<and>
    absorb_path X on_err encrypted (c\<lparr>backend := b\<rparr>) = (Inr (), c\<lparr>backend := b, stash := st\<rparr>) \<and>
    phys_inv be view be_inv X (c\<lparr>backend := b, stash := st\<rparr>) T \<and>
    st = fold absorb_block (concat (map T ids)) (stash c) \<and>
    obs b = seen_read on_read (params c) ids (obs (backend c)) \<and>
    content_inv (params c) (overlay (params c) ids (replicate (length ids) []) T) (posmap c) st V"
proof -
  obtain b where b: "read_path_cached be ids c =
      (Inr (map (\<lambda>x. sealed X (key c) x (counters c ! x) (T x)) ids), c\<lparr>backend := b\<rparr>)"
    "phys_inv be view be_inv X (c\<lparr>backend := b\<rparr>) T"
    "obs b = seen_read on_read (params c) ids (obs (backend c))"
    using read_path_cached_ok [OF P ids] by blast
  let ?st = "fold absorb_block (concat (map T ids)) (stash c)"
  have a: "absorb_path X on_err (map (\<lambda>x. sealed X (key c) x (counters c ! x) (T x)) ids) (c\<lparr>backend := b\<rparr>) =
      (Inr (), c\<lparr>backend := b, stash := ?st\<rparr>)"
    using absorb_path_ok [OF X, of "c\<lparr>backend := b\<rparr>" T ids on_err "\<lambda>x. counters c ! x"]
      phys_invD(4) [OF P] ids by simp
  have "phys_inv be view be_inv X (c\<lparr>backend := b, stash := ?st\<rparr>) T"
    using b(2) by (simp add: phys_inv_def)
  with b(1,3) a content_drain [OF C ids] show ?thesis by blast
qed

lemma evict_path_ok:
  assumes inv: "oram_inv be view be_inv X c V" and X: "ext_ok X"
  shows "\<exists>c'. evict_path be X c = (Inr (), c') \<and> oram_inv be view be_inv X c' V \<and>
    same_control c c' \<and> advanced view c c' 1 \<and> rng c' = rng c \<and>
    evict_cursor c' = wincr32 (evict_cursor c) mod n_leaves (params c) \<and>
    obs (backend c') = seen_path on_read on_write (params c)
      (evict_cursor c mod n_leaves (params c)) (obs (backend c))"
proof -
  let ?p = "params c" and ?n = "n_leaves (params c)"
  obtain T where wf: "wf_params ?p" and P: "phys_inv be view be_inv X c T"
    and C: "content_inv ?p T (posmap c) (stash c) V"
    using inv by (auto simp: oram_inv_def)
  have n: "0 < ?n" using wf by (simp add: wf_params_def)
  define q where "q = evict_cursor c mod ?n"
  define ids where "ids = path_buckets q ?n"
  have q: "q < ?n" using n by (simp add: q_def)
  have ids: "distinct ids" "\<forall>x \<in> set ids. x < num_buckets ?p"
    using distinct_path [OF wf q] path_in_range [OF wf q] by (auto simp: ids_def)
  define c0 where "c0 = c\<lparr>evict_cursor := wincr32 (evict_cursor c) mod ?n\<rparr>"
  have c0: "params c0 = ?p" "posmap c0 = posmap c" "stash c0 = stash c" "key c0 = key c"
    "counters c0 = counters c" by (simp_all add: c0_def)
  have P0: "phys_inv be view be_inv X c0 T" using P by (simp add: phys_inv_def c0_def)
  obtain encrypted b st where d: "read_path_cached be ids c0 = (Inr encrypted, c0\<lparr>backend := b\<rparr>)"
    "absorb_path X (\<lambda>_. Panic) encrypted (c0\<lparr>backend := b\<rparr>) = (Inr (), c0\<lparr>backend := b, stash := st\<rparr>)"
    "phys_inv be view be_inv X (c0\<lparr>backend := b, stash := st\<rparr>) T"
    "content_inv ?p (overlay ?p ids (replicate (length ids) []) T) (posmap c) st V"
    "obs b = seen_read on_read ?p ids (obs (backend c0))"
    using drain_ok [OF P0 X, of V ids "\<lambda>_. Panic"] C ids c0 by auto
  let ?c2 = "c0\<lparr>backend := b, stash := st\<rparr>"
  have wf_st: "wf_stash st" using content_invD(1) [OF d(4)] .
  have cand: "distinct (stash_ids (hash_order X) st)" "set (stash_ids (hash_order X) st) \<subseteq> dom (map_of st)"
    using X wf_st by (simp_all add: ext_ok_def distinct_stash_ids set_stash_ids)
  obtain contents st' where r: "repack ids (stash_ids (hash_order X) st) (replicate (length ids) []) ?c2 =
      (Inr contents, ?c2\<lparr>stash := st'\<rparr>)" "length contents = length ids" "bounded ?p contents"
    "content_inv ?p (overlay ?p ids contents T) (posmap c) st' V"
    using repack_ok [of ids ?c2 "replicate (length ids) []" T V "stash_ids (hash_order X) st"]
      ids cand d(4) bounded_empty [of ?p "length ids"] c0 by auto
  let ?c3 = "c0\<lparr>backend := b, stash := st'\<rparr>"
  let ?es = "map (\<lambda>(x, bs). sealed X (key c) x (bump ids (counters c) ! x) (pad_bucket ?p bs)) (zip ids contents)"
  have seal: "emap (\<lambda>(bid, real). seal_bucket X bid (pad_bucket ?p real)) (zip ids contents) ?c3 =
      (Inr ?es, ?c3\<lparr>counters := bump ids (counters c)\<rparr>)"
    using seal_loop [of ids contents ?c3 X] ids r(2) bounded_seal [OF wf r(3)] phys_invD(3) [OF P] c0
    by simp
  have P3: "phys_inv be view be_inv X ?c3 T" using d(3) by (simp add: phys_inv_def)
  obtain b' tc where w: "write_buckets_cached be ?es (?c3\<lparr>counters := bump ids (counters c)\<rparr>) =
      (Inr (), ?c3\<lparr>counters := bump ids (counters c), backend := b', treetop_cache := tc\<rparr>)"
    "phys_inv be view be_inv X (?c3\<lparr>counters := bump ids (counters c), backend := b', treetop_cache := tc\<rparr>)
       (overlay ?p ids contents T)"
    "obs b' = on_write ids (obs b)"
    using write_buckets_cached_ok [OF P3, of ids contents "?c3\<lparr>counters := bump ids (counters c)\<rparr>" ?es]
      wf ids r(2,3) c0 by auto
  let ?c' = "?c3\<lparr>counters := bump ids (counters c), backend := b', treetop_cache := tc\<rparr>"
  have "evict_path be X c = (Inr (), ?c')"
    using n d(1,2) r(1) seal w(1)
    by (simp add: evict_path_def Let_def ebind_step eseq_step flip: q_def ids_def c0_def)
  moreover have "oram_inv be view be_inv X ?c' V"
    using wf w(2) r(4) c0 by (auto simp: oram_inv_def)
  moreover have "same_control c ?c'" by (simp add: same_control_def c0_def)
  moreover have "advanced view c ?c' 1"
    using advanced_store [OF P, of ?c' ids contents] w(2) ids c0 by simp
  moreover have "obs b' = seen_path on_read on_write ?p q (obs (backend c))"
    using d(5) w(3) by (simp add: seen_path_def ids_def c0_def)
  ultimately show ?thesis
    by (intro exI [of _ ?c']) (simp add: q_def c0_def)
qed

end

end
