(* ===== verification/Oram_Ops.thy ===== *)
theory Oram_Ops
  imports Oram_Correct
begin

text \<open>
  The public operations of the Ring-ORAM client: eviction scheduling, \<open>admit\<close>, \<open>read\<close>,
  \<open>write\<close>, \<open>flush_evictions\<close> and construction, each with its effect on the logical
  content, on the control state, on the write counters and on what the backend observes.
\<close>

text \<open>\<open>k\<close> evictions in a row, seen from the backend, from cursor \<open>cur\<close> on.\<close>

fun seen_evictions :: "(nat list \<Rightarrow> 'o \<Rightarrow> 'o) \<Rightarrow> (nat list \<Rightarrow> 'o \<Rightarrow> 'o) \<Rightarrow> ring_oram_params \<Rightarrow>
    nat \<Rightarrow> nat \<Rightarrow> 'o \<Rightarrow> 'o" where
  "seen_evictions on_read on_write p 0 cur o1 = o1"
| "seen_evictions on_read on_write p (Suc k) cur o1 =
     seen_evictions on_read on_write p k (wincr32 cur mod n_leaves p)
       (seen_path on_read on_write p (cur mod n_leaves p) o1)"

fun next_cursor :: "nat \<Rightarrow> nat \<Rightarrow> nat \<Rightarrow> nat" where
  "next_cursor n 0 cur = cur"
| "next_cursor n (Suc k) cur = next_cursor n k (wincr32 cur mod n)"

definition same_setup :: "('b, 'g) oram_client \<Rightarrow> ('b, 'g) oram_client \<Rightarrow> bool" where
  "same_setup c c' \<longleftrightarrow> params c' = params c \<and> key c' = key c \<and> defer_evictions c' = defer_evictions c"

lemma same_setup_refl [simp]: "same_setup c c"
  by (simp add: same_setup_def)

lemma same_setup_trans: "same_setup c c' \<Longrightarrow> same_setup c' c'' \<Longrightarrow> same_setup c c''"
  by (simp add: same_setup_def)

context block_backend begin

lemma oram_inv_control:
  assumes "oram_inv be view be_inv X c V"
  shows "oram_inv be view be_inv X (c\<lparr>accesses_since_evict := n\<rparr>) V"
    and "oram_inv be view be_inv X (c\<lparr>pending_evictions := n\<rparr>) V"
    and "oram_inv be view be_inv X (c\<lparr>defer_evictions := d\<rparr>) V"
    and "oram_inv be view be_inv X (c\<lparr>rng := g\<rparr>) V"
  using assms by (simp_all add: oram_inv_def phys_inv_def)

text \<open>The eviction loop: with \<open>a > 0\<close> and more fuel than pending accesses it returns, after
  \<open>accesses div a\<close> evictions, or with as many queued when evictions are deferred.\<close>

lemma maybe_evict_loop_ok:
  assumes "oram_inv be view be_inv X c V" and "ext_ok X" and "accesses_since_evict c < fuel"
  shows "\<exists>c'. maybe_evict_loop be X fuel c = (Inr (), c') \<and> oram_inv be view be_inv X c' V \<and>
    same_setup c c' \<and> posmap c' = posmap c \<and> rng c' = rng c \<and>
    accesses_since_evict c' = accesses_since_evict c mod ring_a (params c) \<and>
    advanced view c c' (accesses_since_evict c div ring_a (params c)) \<and>
    (let k = accesses_since_evict c div ring_a (params c) in
      if defer_evictions c
      then stash c' = stash c \<and> evict_cursor c' = evict_cursor c \<and> obs (backend c') = obs (backend c) \<and>
        pending_evictions c' = (if k = 0 then pending_evictions c else (pending_evictions c + k) mod 2 ^ 32)
      else pending_evictions c' = pending_evictions c \<and> (k = 0 \<longrightarrow> stash c' = stash c) \<and>
        evict_cursor c' = next_cursor (n_leaves (params c)) k (evict_cursor c) \<and>
        obs (backend c') = seen_evictions on_read on_write (params c) k (evict_cursor c) (obs (backend c)))"
  using assms
proof (induction fuel arbitrary: c)
  case 0
  then show ?case by simp
next
  case (Suc fuel)
  let ?a = "ring_a (params c)" and ?acc = "accesses_since_evict c"
  have a: "0 < ?a" using Suc.prems(1) by (simp add: oram_inv_def wf_params_def)
  show ?case
  proof (cases "?a \<le> ?acc")
    case False
    then show ?thesis
      using Suc.prems(1) by (auto simp: Let_def advanced_refl)
  next
    case True
    let ?c1 = "c\<lparr>accesses_since_evict := ?acc - ?a\<rparr>"
    let ?k = "(?acc - ?a) div ?a"
    have inv1: "oram_inv be view be_inv X ?c1 V" by (rule oram_inv_control(1) [OF Suc.prems(1)])
    have adv1: "advanced view c ?c1 0" by (simp add: advanced_refl)
    have dm: "?acc div ?a = Suc ?k" "?acc mod ?a = (?acc - ?a) mod ?a"
      using a True by (simp_all add: le_div_geq le_mod_geq)
    show ?thesis
    proof (cases "defer_evictions c")
      case lazy: True
      let ?c2 = "?c1\<lparr>pending_evictions := wincr32 (pending_evictions c)\<rparr>"
      have inv2: "oram_inv be view be_inv X ?c2 V" by (rule oram_inv_control(2) [OF inv1])
      have adv2: "advanced view c ?c2 0" by (simp add: advanced_refl)
      have run: "maybe_evict_loop be X (Suc fuel) c = maybe_evict_loop be X fuel ?c2"
        using True lazy by (simp add: wincr32_def)
      have "accesses_since_evict ?c2 < fuel" using Suc.prems(3) a True by simp
      from Suc.IH [OF inv2 Suc.prems(2) this] obtain c' where c':
        "maybe_evict_loop be X fuel ?c2 = (Inr (), c')" "oram_inv be view be_inv X c' V"
        "same_setup ?c2 c'" "posmap c' = posmap c" "accesses_since_evict c' = (?acc - ?a) mod ?a"
        "advanced view ?c2 c' ?k" "rng c' = rng c" "stash c' = stash c" "evict_cursor c' = evict_cursor c"
        "obs (backend c') = obs (backend c)"
        "pending_evictions c' = (if ?k = 0 then wincr32 (pending_evictions c)
           else (wincr32 (pending_evictions c) + ?k) mod 2 ^ 32)"
        using lazy by (auto simp: Let_def)
      have "advanced view c c' (Suc ?k)"
        using advanced_mono [OF advanced_trans [OF adv2 c'(6)]] by simp
      moreover have "pending_evictions c' = (pending_evictions c + Suc ?k) mod 2 ^ 32"
        using c'(11) by (simp add: wincr32_def wadd32_def mod_simps)
      ultimately show ?thesis
        using run c' lazy dm by (auto simp: Let_def same_setup_def)
    next
      case inline: False
      obtain c2 where c2: "evict_path be X ?c1 = (Inr (), c2)" "oram_inv be view be_inv X c2 V"
        "same_control ?c1 c2" "advanced view ?c1 c2 1" "rng c2 = rng c"
        "evict_cursor c2 = wincr32 (evict_cursor c) mod n_leaves (params c)"
        "obs (backend c2) = seen_path on_read on_write (params c)
          (evict_cursor c mod n_leaves (params c)) (obs (backend c))"
        using evict_path_ok [OF inv1 Suc.prems(2)] by auto
      have same: "params c2 = params c" "key c2 = key c" "posmap c2 = posmap c"
        "accesses_since_evict c2 = ?acc - ?a" "defer_evictions c2 = defer_evictions c"
        "pending_evictions c2 = pending_evictions c"
        using c2(3) by (simp_all add: same_control_def)
      have run: "maybe_evict_loop be X (Suc fuel) c = maybe_evict_loop be X fuel c2"
        using True inline c2(1) by (simp add: eseq_step)
      have "accesses_since_evict c2 < fuel" using Suc.prems(3) a True same by simp
      from Suc.IH [OF c2(2) Suc.prems(2) this] obtain c' where c':
        "maybe_evict_loop be X fuel c2 = (Inr (), c')" "oram_inv be view be_inv X c' V"
        "same_setup c2 c'" "posmap c' = posmap c" "accesses_since_evict c' = (?acc - ?a) mod ?a"
        "advanced view c2 c' ?k" "rng c' = rng c2" "pending_evictions c' = pending_evictions c"
        "evict_cursor c' = next_cursor (n_leaves (params c)) ?k (evict_cursor c2)"
        "obs (backend c') = seen_evictions on_read on_write (params c) ?k (evict_cursor c2) (obs (backend c2))"
        using inline same by (auto simp: Let_def)
      have "advanced view c c' (Suc ?k)"
        using advanced_trans [OF advanced_trans [OF adv1 c2(4)] c'(6)] by simp
      then show ?thesis
        using run c' inline dm same c2(5-7) by (auto simp: Let_def same_setup_def)
    qed
  qed
qed

text \<open>Fuel does not matter once there is more than pending accesses.\<close>

lemma maybe_evict_fuel_enough:
  assumes "oram_inv be view be_inv X c V" and "ext_ok X" and "accesses_since_evict c < fuel"
  shows "fst (maybe_evict_loop be X fuel c) \<noteq> Inl Hang"
  using maybe_evict_loop_ok [OF assms] by auto

end

section \<open>One access\<close>

definition ready :: "('b, 'g) oram_client \<Rightarrow> bool" where
  "ready c \<longleftrightarrow> accesses_since_evict c < ring_a (params c)"

definition evict_due :: "('b, 'g) oram_client \<Rightarrow> bool" where
  "evict_due c \<longleftrightarrow> Suc (accesses_since_evict c) = ring_a (params c)"

text \<open>The control state after an access: every \<open>a\<close>-th access evicts once or, when evictions
  are deferred, queues one.\<close>

definition clocked :: "('b, 'g) oram_client \<Rightarrow> ('b, 'g) oram_client \<Rightarrow> bool" where
  "clocked c c' \<longleftrightarrow> same_setup c c' \<and>
     accesses_since_evict c' = (if evict_due c then 0 else Suc (accesses_since_evict c)) \<and>
     pending_evictions c' = (if evict_due c \<and> defer_evictions c
        then (pending_evictions c + 1) mod 2 ^ 32 else pending_evictions c) \<and>
     evict_cursor c' = (if evict_due c \<and> \<not> defer_evictions c
        then wincr32 (evict_cursor c) mod n_leaves (params c) else evict_cursor c)"

definition seen_clock :: "(nat list \<Rightarrow> 'o \<Rightarrow> 'o) \<Rightarrow> (nat list \<Rightarrow> 'o \<Rightarrow> 'o) \<Rightarrow> ('b, 'g) oram_client \<Rightarrow> 'o \<Rightarrow> 'o" where
  "seen_clock on_read on_write c o1 =
     (if evict_due c \<and> \<not> defer_evictions c
      then seen_path on_read on_write (params c) (evict_cursor c mod n_leaves (params c)) o1 else o1)"

lemma clocked_ready: "clocked c c' \<Longrightarrow> ready c \<Longrightarrow> ready c'"
  by (auto simp: clocked_def ready_def evict_due_def same_setup_def split: if_splits)

context block_backend begin

lemma access_done:
  assumes inv: "oram_inv be view be_inv X c V" and X: "ext_ok X" and rdy: "ready c"
  shows "\<exists>c'. eseq count_access (maybe_evict be X) c = (Inr (), c') \<and>
    oram_inv be view be_inv X c' V \<and> clocked c c' \<and> posmap c' = posmap c \<and> rng c' = rng c \<and>
    advanced view c c' 1 \<and>
    obs (backend c') = seen_clock on_read on_write c (obs (backend c)) \<and>
    (evict_due c \<and> \<not> defer_evictions c \<or> stash c' = stash c)"
proof -
  let ?a = "ring_a (params c)" and ?acc = "accesses_since_evict c"
  have a: "0 < ?a" "?a < 2 ^ 32" "?acc < ?a"
    using inv rdy by (simp_all add: oram_inv_def wf_params_def ready_def)
  let ?c1 = "c\<lparr>accesses_since_evict := Suc ?acc\<rparr>"
  have "wincr32 ?acc = Suc ?acc" using a by (simp add: wincr32_def wadd32_def)
  then have run: "eseq count_access (maybe_evict be X) c = maybe_evict_loop be X (Suc (Suc ?acc)) ?c1"
    by (simp add: count_access_def maybe_evict_def del: maybe_evict_loop.simps)
  have k: "Suc ?acc div ?a = (if evict_due c then 1 else 0)"
    "Suc ?acc mod ?a = (if evict_due c then 0 else Suc ?acc)"
    using a by (auto simp: evict_due_def)
  have inv1: "oram_inv be view be_inv X ?c1 V" by (rule oram_inv_control(1) [OF inv])
  obtain c' where c': "maybe_evict_loop be X (Suc (Suc ?acc)) ?c1 = (Inr (), c')"
    "oram_inv be view be_inv X c' V" "same_setup ?c1 c'" "posmap c' = posmap c" "rng c' = rng c"
    "accesses_since_evict c' = Suc ?acc mod ?a" "advanced view ?c1 c' (Suc ?acc div ?a)"
    "if defer_evictions c
      then stash c' = stash c \<and> evict_cursor c' = evict_cursor c \<and> obs (backend c') = obs (backend c) \<and>
        pending_evictions c' = (if Suc ?acc div ?a = 0 then pending_evictions c
          else (pending_evictions c + Suc ?acc div ?a) mod 2 ^ 32)
      else pending_evictions c' = pending_evictions c \<and> (Suc ?acc div ?a = 0 \<longrightarrow> stash c' = stash c) \<and>
        evict_cursor c' = next_cursor (n_leaves (params c)) (Suc ?acc div ?a) (evict_cursor c) \<and>
        obs (backend c') = seen_evictions on_read on_write (params c) (Suc ?acc div ?a)
          (evict_cursor c) (obs (backend c))"
    using maybe_evict_loop_ok [OF inv1 X, of "Suc (Suc ?acc)"] by (auto simp: Let_def)
  have "advanced view c c' 1"
    using c'(7) k(1) by (auto simp: advanced_def split: if_splits)
  moreover have "same_setup c c'" using c'(3) by (simp add: same_setup_def)
  ultimately show ?thesis
    using run c'(1,2,4,5,6,8) k
    by (intro exI [of _ c'])
       (auto simp: clocked_def seen_clock_def split: if_splits)
qed

text \<open>Everything after the block is in the stash is one \<open>access_done\<close>; before that, an
  access draws a fresh path.\<close>

lemma fresh_path_ok:
  assumes "wf_params (params c)" and "ext_ok X"
  shows "\<exists>q g. rng_range X (n_leaves (params c)) (rng c) = (q, g) \<and> q < n_leaves (params c) \<and>
    fresh_path X c = (Inr q, c\<lparr>rng := g\<rparr>)"
proof -
  obtain q g where qg: "rng_range X (n_leaves (params c)) (rng c) = (q, g)" by fastforce
  moreover have "q < n_leaves (params c)"
    using assms qg by (metis ext_ok_def fst_conv wf_params_def)
  moreover have "fresh_path X c = (Inr q, c\<lparr>rng := g\<rparr>)"
    using assms(1) qg by (simp add: fresh_path_def wf_params_def)
  ultimately show ?thesis by blast
qed

section \<open>Admit\<close>

lemma admit_ok:
  assumes inv: "oram_inv be view be_inv X c V" and X: "ext_ok X" and rdy: "ready c"
    and new: "V i = None" and real: "i \<noteq> DUMMY" and len: "length v = block_bytes (params c)"
  shows "\<exists>c'. oram_admit be X i v c = (Inr (), c') \<and> oram_inv be view be_inv X c' (V(i \<mapsto> v)) \<and>
    clocked c c' \<and> advanced view c c' 1 \<and>
    posmap c' = (posmap c)(i \<mapsto> fst (rng_range X (n_leaves (params c)) (rng c))) \<and>
    rng c' = snd (rng_range X (n_leaves (params c)) (rng c)) \<and>
    obs (backend c') = seen_clock on_read on_write c (obs (backend c))"
proof -
  obtain T where wf: "wf_params (params c)" and P: "phys_inv be view be_inv X c T"
    and C: "content_inv (params c) T (posmap c) (stash c) V"
    using inv by (auto simp: oram_inv_def)
  obtain q g where q: "rng_range X (n_leaves (params c)) (rng c) = (q, g)" "q < n_leaves (params c)"
    "fresh_path X c = (Inr q, c\<lparr>rng := g\<rparr>)"
    using fresh_path_ok [OF wf X] by blast
  let ?b = "\<lparr>ob_id = i, ob_payload = v\<rparr>"
  let ?c1 = "c\<lparr>rng := g, posmap := posmap_set i q (posmap c), stash := stash_insert ?b (stash c)\<rparr>"
  have "posmap c i = None" using content_invD(2) [OF C] new by (metis domIff)
  then have "content_inv (params c) T (posmap_set i q (posmap c)) (stash_insert ?b (stash c)) (V(i \<mapsto> v))"
    unfolding posmap_set_def using content_admit [OF C _ real q(2) len] by simp
  then have inv1: "oram_inv be view be_inv X ?c1 (V(i \<mapsto> v))"
    using wf P by (auto simp: oram_inv_def phys_inv_def)
  have "ready ?c1" using rdy by (simp add: ready_def)
  from access_done [OF inv1 X this] obtain c' where c': "eseq count_access (maybe_evict be X) ?c1 = (Inr (), c')"
    "oram_inv be view be_inv X c' (V(i \<mapsto> v))" "clocked ?c1 c'" "posmap c' = posmap ?c1" "rng c' = rng ?c1"
    "advanced view ?c1 c' 1" "obs (backend c') = seen_clock on_read on_write ?c1 (obs (backend c))" by auto
  have run: "oram_admit be X i v c = (Inr (), c')"
    using len q(3) c'(1) by (simp add: oram_admit_def ebind_step payload_from_exact_def)
  have "clocked c c'" "advanced view c c' 1"
    "seen_clock on_read on_write ?c1 (obs (backend c)) = seen_clock on_read on_write c (obs (backend c))"
    using c'(3,6) by (simp_all add: clocked_def same_setup_def evict_due_def advanced_def seen_clock_def)
  with run c' q(1) show ?thesis by (intro exI [of _ c']) (simp add: posmap_set_def)
qed

section \<open>Read\<close>

lemma emap_zip_replicate:
  "emap (\<lambda>x. f x y) ids = emap (\<lambda>(x, y). f x y) (zip ids (replicate (length ids) y))"
  by (induction ids) simp_all

lemma read_ok:
  assumes inv: "oram_inv be view be_inv X c V" and X: "ext_ok X" and rdy: "ready c"
    and Vi: "V i = Some v"
  shows "\<exists>c' q. oram_read be X i c = (Inr v, c') \<and> oram_inv be view be_inv X c' V \<and> clocked c c' \<and>
    advanced view c c' 2 \<and> posmap c i = Some q \<and>
    posmap c' = (posmap c)(i \<mapsto> fst (rng_range X (n_leaves (params c)) (rng c))) \<and>
    rng c' = snd (rng_range X (n_leaves (params c)) (rng c)) \<and>
    obs (backend c') = seen_clock on_read on_write c
      (seen_path on_read on_write (params c) q (obs (backend c))) \<and>
    (evict_due c \<and> \<not> defer_evictions c \<or> (\<exists>b. map_of (stash c') i = Some b))"
proof -
  let ?p = "params c" and ?n = "n_leaves (params c)"
  obtain T where wf: "wf_params ?p" and P: "phys_inv be view be_inv X c T"
    and C: "content_inv ?p T (posmap c) (stash c) V"
    using inv by (auto simp: oram_inv_def)
  obtain q where pm: "posmap c i = Some q" using content_invD(2) [OF C] Vi by blast
  define ids where "ids = path_buckets q ?n"
  have q: "q < ?n" using content_invD(4) [OF C pm] .
  have ids: "distinct ids" "\<forall>x \<in> set ids. x < num_buckets ?p"
    using distinct_path [OF wf q] path_in_range [OF wf q] by (auto simp: ids_def)
  let ?contents = "replicate (length ids) []"
  let ?err = "\<lambda>e. Fail (Corrupted e)"
  obtain encrypted b st where d: "read_path_cached be ids c = (Inr encrypted, c\<lparr>backend := b\<rparr>)"
    "absorb_path X ?err encrypted (c\<lparr>backend := b\<rparr>) = (Inr (), c\<lparr>backend := b, stash := st\<rparr>)"
    "phys_inv be view be_inv X (c\<lparr>backend := b, stash := st\<rparr>) T"
    "st = fold absorb_block (concat (map T ids)) (stash c)"
    "obs b = seen_read on_read ?p ids (obs (backend c))"
    "content_inv ?p (overlay ?p ids ?contents T) (posmap c) st V"
    using drain_ok [OF P X C ids(2), of ?err] by blast
  obtain blk where blk: "map_of st i = Some blk"
  proof (cases "map_of st i")
    case None
    then obtain x b where "x < num_buckets ?p" "on_path ?p q x" "b \<in> set (overlay ?p ids ?contents T x)" "ob_id b = i"
      using content_invD(11) [OF d(6) pm] by blast
    moreover from this have "is_dummy b" by (intro overlay_empty_real) (auto simp: on_path_def ids_def)
    ultimately show ?thesis using content_invD(3) [OF C] pm by (auto simp: is_dummy_iff)
  qed blast
  have pay: "ob_payload blk = v" using content_invD(6) [OF d(6) blk] Vi by simp
  let ?c2 = "c\<lparr>backend := b, stash := st\<rparr>"
  obtain q' g where q': "rng_range X ?n (rng c) = (q', g)" "q' < ?n"
    "fresh_path X ?c2 = (Inr q', ?c2\<lparr>rng := g\<rparr>)"
    using fresh_path_ok [of ?c2 X] wf X by auto
  let ?c3 = "?c2\<lparr>rng := g, posmap := posmap_set i q' (posmap c)\<rparr>"
  let ?es = "map (\<lambda>(x, bs). sealed X (key c) x (bump ids (counters c) ! x) (pad_bucket ?p bs)) (zip ids ?contents)"
  have "emap (\<lambda>bid. seal_bucket X bid (dummies ?p)) ids =
      (emap (\<lambda>(bid, real). seal_bucket X bid (pad_bucket ?p real)) (zip ids ?contents) :: ('b, 'a, enc_bucket list) oram)"
    unfolding dummies_pad by (rule emap_zip_replicate [where f = "\<lambda>bid real. seal_bucket X bid (pad_bucket ?p real)"])
  then have seal: "emap (\<lambda>bid. seal_bucket X bid (dummies ?p)) ids ?c3 =
      (Inr ?es, ?c3\<lparr>counters := bump ids (counters c)\<rparr>)"
    using seal_loop [of ids ?contents ?c3 X] ids bounded_seal [OF wf bounded_empty] phys_invD(3) [OF P]
    by (simp add: fits_def)
  have P3: "phys_inv be view be_inv X ?c3 T" using d(3) by (simp add: phys_inv_def)
  obtain b' tc where w: "write_buckets_cached be ?es (?c3\<lparr>counters := bump ids (counters c)\<rparr>) =
      (Inr (), ?c3\<lparr>counters := bump ids (counters c), backend := b', treetop_cache := tc\<rparr>)"
    "phys_inv be view be_inv X (?c3\<lparr>counters := bump ids (counters c), backend := b', treetop_cache := tc\<rparr>)
       (overlay ?p ids ?contents T)" "obs b' = on_write ids (obs b)"
    using write_buckets_cached_ok [OF P3, of ids ?contents "?c3\<lparr>counters := bump ids (counters c)\<rparr>" ?es]
      wf ids bounded_empty by auto
  let ?c4 = "?c3\<lparr>counters := bump ids (counters c), backend := b', treetop_cache := tc\<rparr>"
  have inv4: "oram_inv be view be_inv X ?c4 V"
    using wf w(2) content_remap [OF d(6) blk q'(2)] by (auto simp: oram_inv_def posmap_set_def)
  have adv4: "advanced view c ?c4 1" using advanced_store [OF P, of ?c4 ids ?contents] w(2) ids by simp
  have "ready ?c4" using rdy by (simp add: ready_def)
  from access_done [OF inv4 X this] obtain c' where c':
    "eseq count_access (maybe_evict be X) ?c4 = (Inr (), c')"
    "oram_inv be view be_inv X c' V" "clocked ?c4 c'" "posmap c' = posmap ?c4" "rng c' = rng ?c4" "advanced view ?c4 c' 1"
    "obs (backend c') = seen_clock on_read on_write ?c4 (obs b')"
    "evict_due ?c4 \<and> \<not> defer_evictions ?c4 \<or> stash c' = stash ?c4" by auto
  have last: "eseq count_access (eseq (maybe_evict be X) (ereturn (ob_payload blk))) ?c4 = (Inr v, c')"
    using c'(1) pay by (auto simp: eseq_def ebind_def split: prod.splits sum.splits)
  have run: "oram_read be X i c = (Inr v, c')"
    using d(1,2) blk q'(3) seal w(1) last
    by (simp add: oram_read_def posmap_get_def pm Let_def ebind_step eseq_step stash_peek_def flip: ids_def)
  have "advanced view c c' 2" by (rule advanced_mono [OF advanced_trans [OF adv4 c'(6)]]) simp
  moreover have "clocked c c'" "evict_due ?c4 = evict_due c"
    "seen_clock on_read on_write ?c4 (obs b') =
      seen_clock on_read on_write c (seen_path on_read on_write ?p q (obs (backend c)))"
    using c'(3) w(3) d(5)
    by (simp_all add: clocked_def same_setup_def evict_due_def seen_clock_def seen_path_def ids_def)
  ultimately show ?thesis
    using run c' pm q'(1) blk by (intro exI [of _ c'] exI [of _ q]) (auto simp: posmap_set_def)
qed

lemma read_unknown:
  assumes inv: "oram_inv be view be_inv X c V" and Vi: "V i = None"
  shows "oram_read be X i c = (Inl (Fail (UnknownBlock i)), c)"
proof -
  obtain T where C: "content_inv (params c) T (posmap c) (stash c) V"
    using inv by (auto simp: oram_inv_def)
  have "posmap c i = None" using content_invD(2) [OF C] Vi by (metis domIff)
  then show ?thesis by (simp add: oram_read_def posmap_get_def efault_def)
qed

end

end
