(* ===== verification/Oram_Access.thy ===== *)
theory Oram_Access
  imports Oram_Ops
begin

text \<open>
  The remaining public operations of the Ring-ORAM client: \<open>write\<close>, \<open>flush_evictions\<close>,
  \<open>set_defer_evictions\<close> and construction.
\<close>

section \<open>Write\<close>

text \<open>The second half of a write, once the block is in the stash.\<close>

definition overwrite :: "block_id \<Rightarrow> bytes \<Rightarrow> ('b, 'g, unit) oram" where
  "overwrite i w = ebind (eget (\<lambda>c. (params c, stash c))) (\<lambda>(p, st).
     case stash_take i st of
       (None, _) \<Rightarrow> efault Panic
     | (Some b, st') \<Rightarrow>
         ebind (elift (payload_from_exact w (block_bytes p))) (\<lambda>pl.
         emodify (\<lambda>c. c\<lparr>stash := stash_insert (b\<lparr>ob_payload := pl\<rparr>) st'\<rparr>)))"

context block_backend begin

lemma write_size_error:
  "length w \<noteq> block_bytes (params c) \<Longrightarrow>
   oram_write be X i w c = (Inl (Fail (PayloadSize (block_bytes (params c)) (length w))), c)"
  by (simp add: oram_write_def efault_def)

lemma admit_size_error:
  "length w \<noteq> block_bytes (params c) \<Longrightarrow>
   oram_admit be X i w c = (Inl (Fail (PayloadSize (block_bytes (params c)) (length w))), c)"
  by (simp add: oram_admit_def efault_def)

lemma write_unknown:
  assumes "oram_inv be view be_inv X c V" and "V i = None" and "length w = block_bytes (params c)"
  shows "oram_write be X i w c = (Inl (Fail (UnknownBlock i)), c)"
  using assms(3) by (simp add: oram_write_def read_unknown [OF assms(1,2)] ebind_def eget_def)

lemma write_split:
  assumes "length w = block_bytes (params c)" and "oram_read be X i c = (Inr v, c1)"
    and "params c1 = params c"
  shows "oram_write be X i w c = overwrite i w c1"
  using assms by (simp add: oram_write_def overwrite_def ebind_step)

lemma overwrite_ok:
  assumes inv: "oram_inv be view be_inv X c V" and b: "map_of (stash c) i = Some b"
    and len: "length w = block_bytes (params c)"
  shows "\<exists>st. overwrite i w c = (Inr (), c\<lparr>stash := st\<rparr>) \<and>
    oram_inv be view be_inv X (c\<lparr>stash := st\<rparr>) (V(i \<mapsto> w))"
proof -
  obtain T where wf: "wf_params (params c)" and P: "phys_inv be view be_inv X c T"
    and C: "content_inv (params c) T (posmap c) (stash c) V"
    using inv by (auto simp: oram_inv_def)
  let ?st = "stash_insert (b\<lparr>ob_payload := w\<rparr>) (AList.delete i (stash c))"
  have "overwrite i w c = (Inr (), c\<lparr>stash := ?st\<rparr>)"
    using b len by (simp add: overwrite_def stash_take_def payload_from_exact_def emodify_def)
  moreover have "phys_inv be view be_inv X (c\<lparr>stash := ?st\<rparr>) T" using P by (simp add: phys_inv_def)
  ultimately show ?thesis
    using wf content_overwrite [OF C b len] by (auto simp: oram_inv_def)
qed

lemma write_ok:
  assumes inv: "oram_inv be view be_inv X c V" and X: "ext_ok X" and rdy: "ready c"
    and Vi: "V i = Some v" and len: "length w = block_bytes (params c)"
    and quiet: "\<not> (evict_due c \<and> \<not> defer_evictions c)"
  shows "\<exists>c' q. oram_write be X i w c = (Inr (), c') \<and> oram_inv be view be_inv X c' (V(i \<mapsto> w)) \<and>
    clocked c c' \<and> advanced view c c' 2 \<and> posmap c i = Some q \<and>
    posmap c' = (posmap c)(i \<mapsto> fst (rng_range X (n_leaves (params c)) (rng c))) \<and>
    rng c' = snd (rng_range X (n_leaves (params c)) (rng c)) \<and>
    obs (backend c') = seen_clock on_read on_write c
      (seen_path on_read on_write (params c) q (obs (backend c)))"
proof -
  obtain c1 q where r: "oram_read be X i c = (Inr v, c1)" "oram_inv be view be_inv X c1 V"
    "clocked c c1" "advanced view c c1 2" "posmap c i = Some q"
    "posmap c1 = (posmap c)(i \<mapsto> fst (rng_range X (n_leaves (params c)) (rng c)))"
    "rng c1 = snd (rng_range X (n_leaves (params c)) (rng c))"
    "obs (backend c1) = seen_clock on_read on_write c
      (seen_path on_read on_write (params c) q (obs (backend c)))"
    "\<exists>b. map_of (stash c1) i = Some b"
    using read_ok [OF inv X rdy Vi] quiet by auto
  then obtain b where b: "map_of (stash c1) i = Some b" by blast
  have p: "params c1 = params c" using r(3) by (simp add: clocked_def same_setup_def)
  obtain st where o: "overwrite i w c1 = (Inr (), c1\<lparr>stash := st\<rparr>)"
    "oram_inv be view be_inv X (c1\<lparr>stash := st\<rparr>) (V(i \<mapsto> w))"
    using overwrite_ok [OF r(2) b] len p by auto
  have "oram_write be X i w c = (Inr (), c1\<lparr>stash := st\<rparr>)"
    using write_split [OF len r(1) p] o(1) by simp
  with o(2) r show ?thesis
    by (intro exI [of _ "c1\<lparr>stash := st\<rparr>"] exI [of _ q])
       (simp add: clocked_def same_setup_def advanced_def)
qed

text \<open>An access that also evicts inline may move the block back to the tree before \<open>write\<close>
  takes it from the stash.  Then, and only then, \<open>write\<close> panics; the content is still the
  old one.\<close>

lemma write_or_panic:
  assumes inv: "oram_inv be view be_inv X c V" and X: "ext_ok X" and rdy: "ready c"
    and Vi: "V i = Some v" and len: "length w = block_bytes (params c)"
  shows "\<exists>c'. oram_write be X i w c = (Inr (), c') \<and> oram_inv be view be_inv X c' (V(i \<mapsto> w)) \<or>
    oram_write be X i w c = (Inl Panic, c') \<and> oram_inv be view be_inv X c' V \<and>
      evict_due c \<and> \<not> defer_evictions c"
proof -
  obtain c1 where r: "oram_read be X i c = (Inr v, c1)" "oram_inv be view be_inv X c1 V" "clocked c c1"
    "evict_due c \<and> \<not> defer_evictions c \<or> (\<exists>b. map_of (stash c1) i = Some b)"
    using read_ok [OF inv X rdy Vi] by auto
  have p: "params c1 = params c" using r(3) by (simp add: clocked_def same_setup_def)
  show ?thesis
  proof (cases "map_of (stash c1) i")
    case None
    then have "oram_write be X i w c = (Inl Panic, c1)"
      using write_split [OF len r(1) p] by (simp add: overwrite_def stash_take_def efault_def)
    with None r show ?thesis by auto
  next
    case (Some b)
    then obtain st where "overwrite i w c1 = (Inr (), c1\<lparr>stash := st\<rparr>)"
      "oram_inv be view be_inv X (c1\<lparr>stash := st\<rparr>) (V(i \<mapsto> w))"
      using overwrite_ok [OF r(2) Some] len p by auto
    then show ?thesis using write_split [OF len r(1) p] by auto
  qed
qed

section \<open>Deferred evictions\<close>

lemma set_defer_ok:
  assumes "oram_inv be view be_inv X c V"
  shows "\<exists>c'. set_defer_evictions d c = (Inr (), c') \<and> oram_inv be view be_inv X c' V \<and>
    c' = c\<lparr>defer_evictions := d\<rparr>"
  using oram_inv_control(3) [OF assms] by (simp add: set_defer_evictions_def emodify_def)

lemma flush_loop_ok:
  assumes "oram_inv be view be_inv X c V" and "ext_ok X"
  shows "\<exists>c'. flush_loop be X n c = (Inr (), c') \<and> oram_inv be view be_inv X c' V \<and>
    same_setup c c' \<and> posmap c' = posmap c \<and> rng c' = rng c \<and>
    accesses_since_evict c' = accesses_since_evict c \<and>
    pending_evictions c' = pending_evictions c - n \<and> advanced view c c' n \<and>
    evict_cursor c' = next_cursor (n_leaves (params c)) n (evict_cursor c) \<and>
    obs (backend c') = seen_evictions on_read on_write (params c) n (evict_cursor c) (obs (backend c))"
  using assms
proof (induction n arbitrary: c)
  case 0
  then show ?case by (simp add: advanced_refl)
next
  case (Suc n)
  obtain c1 where e: "evict_path be X c = (Inr (), c1)" "oram_inv be view be_inv X c1 V"
    "same_control c c1" "advanced view c c1 1" "rng c1 = rng c"
    "evict_cursor c1 = wincr32 (evict_cursor c) mod n_leaves (params c)"
    "obs (backend c1) = seen_path on_read on_write (params c)
      (evict_cursor c mod n_leaves (params c)) (obs (backend c))"
    using evict_path_ok [OF Suc.prems] by blast
  let ?c2 = "c1\<lparr>pending_evictions := pending_evictions c1 - 1\<rparr>"
  have inv2: "oram_inv be view be_inv X ?c2 V" by (rule oram_inv_control(2) [OF e(2)])
  have adv2: "advanced view c ?c2 1" using e(4) by (simp add: advanced_def)
  obtain c' where c': "flush_loop be X n ?c2 = (Inr (), c')" "oram_inv be view be_inv X c' V"
    "same_setup ?c2 c'" "posmap c' = posmap ?c2" "rng c' = rng ?c2"
    "accesses_since_evict c' = accesses_since_evict ?c2"
    "pending_evictions c' = pending_evictions ?c2 - n" "advanced view ?c2 c' n"
    "evict_cursor c' = next_cursor (n_leaves (params ?c2)) n (evict_cursor ?c2)"
    "obs (backend c') = seen_evictions on_read on_write (params ?c2) n (evict_cursor ?c2) (obs (backend ?c2))"
    using Suc.IH [OF inv2 Suc.prems(2)] by blast
  have run: "flush_loop be X (Suc n) c = (Inr (), c')"
    using e(1) c'(1) by (simp add: eseq_step)
  have "advanced view c c' (Suc n)" using advanced_trans [OF adv2 c'(8)] by simp
  with run c' e show ?case
    by (intro exI [of _ c']) (simp add: same_setup_def same_control_def)
qed

lemma flush_ok:
  assumes "oram_inv be view be_inv X c V" and "ext_ok X"
  shows "\<exists>c'. flush_evictions be X c = (Inr (), c') \<and> oram_inv be view be_inv X c' V \<and>
    same_setup c c' \<and> posmap c' = posmap c \<and> rng c' = rng c \<and>
    accesses_since_evict c' = accesses_since_evict c \<and> pending_evictions c' = 0 \<and>
    advanced view c c' (pending_evictions c) \<and>
    evict_cursor c' = next_cursor (n_leaves (params c)) (pending_evictions c) (evict_cursor c) \<and>
    obs (backend c') = seen_evictions on_read on_write (params c) (pending_evictions c)
      (evict_cursor c) (obs (backend c))"
  using flush_loop_ok [OF assms, of "pending_evictions c"] by (auto simp: flush_evictions_def)

end

section \<open>Construction\<close>

lemma nth_fold_set:
  "x < length cs \<Longrightarrow> fold (\<lambda>x cs. cs[x := v]) ids cs ! x = (if x \<in> set ids then v else cs ! x)"
  by (induction ids arbitrary: cs) (auto simp: nth_list_update)

lemma length_fold_set [simp]: "length (fold (\<lambda>x cs. cs[x := v]) ids cs) = length cs"
  by (induction ids arbitrary: cs) auto

lemma init_loop:
  assumes "\<forall>x \<in> set ids. x < length (counters c)"
    and "pt = concat (map slot_bytes bs)"
  shows "emap (init_bucket X pt) ids c =
    (Inr (map (\<lambda>x. sealed X (key c) x 1 bs) ids),
     c\<lparr>counters := fold (\<lambda>x cs. cs[x := 1]) ids (counters c)\<rparr>)"
  using assms(1)
proof (induction ids arbitrary: c)
  case Nil
  then show ?case by simp
next
  case (Cons x ids)
  then show ?case
    by (simp add: init_bucket_def ebind_def eseq_def eget_def emodify_def eassert_def sealed_def assms(2))
qed

context block_backend begin

lemma oram_new_ok:
  assumes wf: "wf_params p" and b: "start b" and n: "be_num_buckets be b = num_buckets p"
  shows "\<exists>c. oram_new be X b p k seed = Inr c \<and> oram_inv be view be_inv X c Map.empty \<and> ready c \<and>
    params c = p \<and> key c = k \<and> posmap c = Map.empty \<and> stash c = [] \<and> accesses_since_evict c = 0 \<and>
    \<not> defer_evictions c \<and> pending_evictions c = 0 \<and> evict_cursor c = 0 \<and>
    rng c = rng_from_seed X seed \<and> counters c = replicate (num_buckets p) 1 \<and>
    obs (backend c) = on_write [0..<num_buckets p] (obs b)"
proof -
  let ?N = "num_buckets p" and ?T = "\<lambda>_. dummies p"
  define c0 where "c0 = \<lparr>backend = b, params = p, key = k, posmap = Map.empty, stash = [],
    counters = replicate ?N 0, accesses_since_evict = 0, defer_evictions = False,
    pending_evictions = 0, evict_cursor = 0, rng = rng_from_seed X seed, treetop_cache = []\<rparr>"
  have len: "length (dummies p) = bucket_capacity p" "fits p (dummies p)"
    by (simp_all add: dummies_pad fits_def pad_bucket_def block_dummy_def payload_zero_def)
  have pad: "pad_bucket p (dummies p) = dummies p" using len by (simp add: pad_bucket_def)
  have ser: "(serialise_bucket (dummies p) p :: (oram_error, bytes) outcome) =
      Inr (concat (map slot_bytes (dummies p)))"
    using serialise_bucket_bytes [OF len(2)] len(1) pad by simp
  define es where "es = map (\<lambda>x. sealed X k x 1 (dummies p)) [0..<?N]"
  define cs where "cs = fold (\<lambda>x cs. cs[x := (1::nat)]) [0..<?N] (replicate ?N 0)"
  have cs: "cs = replicate ?N 1"
    unfolding cs_def by (rule nth_equalityI) (simp_all add: nth_fold_set)
  have ids: "map eb_bucket_id es = [0..<?N]" by (simp add: es_def comp_def)
  from first_write_ok [OF b] this n obtain b' where b':
    "be_write_buckets be es b = (Inr (), b')" "be_inv b'"
    "\<forall>e \<in> set es. view b' (eb_bucket_id e) = e" "be_num_buckets be b' = ?N"
    "obs b' = on_write [0..<?N] (obs b)" by metis
  let ?tc = "fold (mirror_bucket p) es []"
  let ?c = "c0\<lparr>counters := cs, treetop_cache := ?tc, backend := b'\<rparr>"
  have loop: "emap (init_bucket X (concat (map slot_bytes (dummies p)))) [0..<?N] c0 =
      (Inr es, c0\<lparr>counters := cs\<rparr>)"
    using init_loop [of "[0..<?N]" c0 _ "dummies p" X] by (simp add: c0_def es_def cs_def)
  have run: "initialize_tree be X c0 = (Inr (), ?c)"
    using ser b'(1) loop
    by (simp add: initialize_tree_def ebind_step write_buckets_cached_def with_backend_def c0_def
          del: One_nat_def)
  have elem: "sealed X k x 1 (dummies p) \<in> set es" if "x < ?N" for x using that by (simp add: es_def)
  have v: "view b' x = sealed X k x 1 (dummies p)" if x: "x < ?N" for x
    using bspec [OF b'(3) elem [OF x]] by simp
  have "x < length ?tc \<and> ?tc ! x = view b' x" if x: "x < ?N" "bucket_in_treetop p x" for x
    using mirror_in [of es "sealed X k x 1 (dummies p)" p "[]"] elem [OF x(1)] ids x v by simp
  then have "phys_inv be view be_inv X ?c ?T"
    using b'(2,4) v cs len by (simp add: phys_inv_def c0_def tree_shape_def)
  then have inv: "oram_inv be view be_inv X ?c Map.empty"
    using wf content_empty [of p] by (auto simp: oram_inv_def c0_def)
  have "oram_new be X b p k seed = Inr ?c"
    using n run by (simp add: oram_new_def flip: c0_def)
  moreover have "ready ?c" using wf by (simp add: ready_def c0_def wf_params_def)
  ultimately show ?thesis
    using inv b'(5) cs by (intro exI [of _ ?c]) (simp add: c0_def)
qed

lemma oram_new_wrong_size:
  "be_num_buckets be b \<noteq> num_buckets p \<Longrightarrow> oram_new be X b p k seed = Inl Panic"
  by (simp add: oram_new_def)

end

end
