(* ===== verification/Oram_Spec.thy ===== *)
theory Oram_Spec
  imports Oram_Access
begin

text \<open>
  The Ring-ORAM against its specification.  A history is a list of public operations.
  The specification is a plain key-value map (\<open>kv_op\<close>) beside a public clock: when
  evictions happen, which random draw chose the leaf of each block, and what the backend
  sees.  \<open>run_ops_sim\<close> is the simulation; it holds for every backend that keeps the
  contract.
\<close>

section \<open>Histories\<close>

datatype oram_op = Admit block_id bytes | Read block_id | Write block_id bytes | SetDefer bool | Flush

definition run_op :: "'b backend_ops \<Rightarrow> 'g oram_ext \<Rightarrow> oram_op \<Rightarrow> ('b, 'g, bytes option) oram" where
  "run_op be X op =
     (case op of
        Admit i v \<Rightarrow> eseq (oram_admit be X i v) (ereturn None)
      | Read i \<Rightarrow> ebind (oram_read be X i) (\<lambda>v. ereturn (Some v))
      | Write i v \<Rightarrow> eseq (oram_write be X i v) (ereturn None)
      | SetDefer d \<Rightarrow> eseq (set_defer_evictions d) (ereturn None)
      | Flush \<Rightarrow> eseq (flush_evictions be X) (ereturn None))"

text \<open>The caller goes on after an error, and not after a panic.\<close>

fun run_ops :: "'b backend_ops \<Rightarrow> 'g oram_ext \<Rightarrow> oram_op list \<Rightarrow> ('b, 'g) oram_client \<Rightarrow>
    (oram_error, bytes option) outcome list \<times> ('b, 'g) oram_client" where
  "run_ops be X [] c = ([], c)"
| "run_ops be X (op # ops) c =
     (case run_op be X op c of
        (Inl Panic, c') \<Rightarrow> ([Inl Panic], c')
      | (Inl Hang, c') \<Rightarrow> ([Inl Hang], c')
      | (r, c') \<Rightarrow> (let (rs, c'') = run_ops be X ops c' in (r # rs, c'')))"

section \<open>The specification\<close>

text \<open>What the operations mean to their caller.\<close>

definition kv_op :: "ring_oram_params \<Rightarrow> oram_op \<Rightarrow> (block_id \<Rightarrow> bytes option) \<Rightarrow>
    (oram_error, bytes option) outcome \<times> (block_id \<Rightarrow> bytes option)" where
  "kv_op p op V =
     (let size = \<lambda>v. Inl (Fail (PayloadSize (block_bytes p) (length v))) in
      case op of
        Admit i v \<Rightarrow> if length v \<noteq> block_bytes p then (size v, V) else (Inr None, V(i \<mapsto> v))
      | Read i \<Rightarrow> (case V i of None \<Rightarrow> (Inl (Fail (UnknownBlock i)), V) | Some v \<Rightarrow> (Inr (Some v), V))
      | Write i v \<Rightarrow> if length v \<noteq> block_bytes p then (size v, V)
          else (case V i of None \<Rightarrow> (Inl (Fail (UnknownBlock i)), V) | Some _ \<Rightarrow> (Inr None, V(i \<mapsto> v)))
      | SetDefer d \<Rightarrow> (Inr None, V)
      | Flush \<Rightarrow> (Inr None, V))"

fun kv_run :: "ring_oram_params \<Rightarrow> oram_op list \<Rightarrow> (block_id \<Rightarrow> bytes option) \<Rightarrow>
    (oram_error, bytes option) outcome list" where
  "kv_run p [] V = []"
| "kv_run p (op # ops) V = (let (r, V') = kv_op p op V in r # kv_run p ops V')"

text \<open>What an operation costs and shows: the draw whose leaf it touches, if it succeeds.\<close>

datatype 'k event = Touch 'k | Place | Defers bool | Flushes | Nothing

record 'o oram_clock =
  ck_acc :: nat
  ck_defer :: bool
  ck_pending :: nat
  ck_cursor :: nat
  ck_bumps :: nat
  ck_seen :: 'o

definition tick :: "(nat list \<Rightarrow> 'o \<Rightarrow> 'o) \<Rightarrow> (nat list \<Rightarrow> 'o \<Rightarrow> 'o) \<Rightarrow> ring_oram_params \<Rightarrow>
    'o oram_clock \<Rightarrow> 'o oram_clock" where
  "tick on_read on_write p k =
     (let due = (Suc (ck_acc k) = ring_a p) in
      k\<lparr>ck_acc := if due then 0 else Suc (ck_acc k),
        ck_pending := if due \<and> ck_defer k then (ck_pending k + 1) mod 2 ^ 32 else ck_pending k,
        ck_cursor := if due \<and> \<not> ck_defer k then wincr32 (ck_cursor k) mod n_leaves p else ck_cursor k,
        ck_bumps := Suc (ck_bumps k),
        ck_seen := if due \<and> \<not> ck_defer k
          then seen_path on_read on_write p (ck_cursor k mod n_leaves p) (ck_seen k) else ck_seen k\<rparr>)"

fun clock_event :: "(nat list \<Rightarrow> 'o \<Rightarrow> 'o) \<Rightarrow> (nat list \<Rightarrow> 'o \<Rightarrow> 'o) \<Rightarrow> ring_oram_params \<Rightarrow>
    nat event \<Rightarrow> 'o oram_clock \<Rightarrow> 'o oram_clock" where
  "clock_event on_read on_write p (Touch q) k =
     tick on_read on_write p (k\<lparr>ck_bumps := Suc (ck_bumps k),
       ck_seen := seen_path on_read on_write p q (ck_seen k)\<rparr>)"
| "clock_event on_read on_write p Place k = tick on_read on_write p k"
| "clock_event on_read on_write p (Defers d) k = k\<lparr>ck_defer := d\<rparr>"
| "clock_event on_read on_write p Flushes k =
     k\<lparr>ck_pending := 0, ck_cursor := next_cursor (n_leaves p) (ck_pending k) (ck_cursor k),
       ck_bumps := ck_bumps k + ck_pending k,
       ck_seen := seen_evictions on_read on_write p (ck_pending k) (ck_cursor k) (ck_seen k)\<rparr>"
| "clock_event on_read on_write p Nothing k = k"

text \<open>The ledger of random draws: which draw chose the present leaf of a block.\<close>

record ledger =
  lg_content :: "block_id \<Rightarrow> bytes option"
  lg_leaf :: "block_id \<Rightarrow> nat option"
  lg_draws :: nat

definition redraw :: "block_id \<Rightarrow> ledger \<Rightarrow> ledger" where
  "redraw i l = l\<lparr>lg_leaf := (lg_leaf l)(i \<mapsto> lg_draws l), lg_draws := Suc (lg_draws l)\<rparr>"

definition leak :: "ring_oram_params \<Rightarrow> oram_op \<Rightarrow> ledger \<Rightarrow> nat event" where
  "leak p op l =
     (let touch = \<lambda>i. case lg_leaf l i of None \<Rightarrow> Nothing | Some k \<Rightarrow> Touch k in
      case op of
        Admit i v \<Rightarrow> if length v \<noteq> block_bytes p then Nothing else Place
      | Read i \<Rightarrow> touch i
      | Write i v \<Rightarrow> if length v \<noteq> block_bytes p then Nothing else touch i
      | SetDefer d \<Rightarrow> Defers d
      | Flush \<Rightarrow> Flushes)"

definition book :: "ring_oram_params \<Rightarrow> oram_op \<Rightarrow> ledger \<Rightarrow> ledger" where
  "book p op l =
     (let l' = l\<lparr>lg_content := snd (kv_op p op (lg_content l))\<rparr>;
          touch = \<lambda>i. if lg_leaf l i = None then l' else redraw i l' in
      case op of
        Admit i v \<Rightarrow> if length v \<noteq> block_bytes p then l' else redraw i l'
      | Read i \<Rightarrow> touch i
      | Write i v \<Rightarrow> if length v \<noteq> block_bytes p then l' else touch i
      | _ \<Rightarrow> l')"

fun leaks :: "ring_oram_params \<Rightarrow> oram_op list \<Rightarrow> ledger \<Rightarrow> nat event list" where
  "leaks p [] l = []"
| "leaks p (op # ops) l = leak p op l # leaks p ops (book p op l)"

definition empty_ledger :: ledger where
  "empty_ledger = \<lparr>lg_content = Map.empty, lg_leaf = Map.empty, lg_draws = 0\<rparr>"

text \<open>A block id is admitted at most once and is not the reserved one; a write does not
  fall on an access that evicts inline.\<close>

definition legal_op :: "ring_oram_params \<Rightarrow> oram_op \<Rightarrow> (block_id \<Rightarrow> bytes option) \<Rightarrow> nat \<Rightarrow> bool \<Rightarrow> bool" where
  "legal_op p op V acc defer_mode =
     (case op of
        Admit i v \<Rightarrow> length v = block_bytes p \<longrightarrow> i \<noteq> DUMMY \<and> V i = None
      | Write i v \<Rightarrow> length v = block_bytes p \<and> V i \<noteq> None \<longrightarrow> Suc acc \<noteq> ring_a p \<or> defer_mode
      | _ \<Rightarrow> True)"

text \<open>Whether an operation counts as an access.\<close>

definition counts :: "ring_oram_params \<Rightarrow> oram_op \<Rightarrow> (block_id \<Rightarrow> bytes option) \<Rightarrow> bool" where
  "counts p op V =
     (case op of
        Admit i v \<Rightarrow> length v = block_bytes p
      | Read i \<Rightarrow> V i \<noteq> None
      | Write i v \<Rightarrow> length v = block_bytes p \<and> V i \<noteq> None
      | _ \<Rightarrow> False)"

fun legal :: "ring_oram_params \<Rightarrow> oram_op list \<Rightarrow> (block_id \<Rightarrow> bytes option) \<Rightarrow> nat \<Rightarrow> bool \<Rightarrow> bool" where
  "legal p [] V acc defer_mode = True"
| "legal p (op # ops) V acc defer_mode =
     (legal_op p op V acc defer_mode \<and>
      legal p ops (snd (kv_op p op V))
        (if counts p op V then (if Suc acc = ring_a p then 0 else Suc acc) else acc)
        (case op of SetDefer d \<Rightarrow> d | _ \<Rightarrow> defer_mode))"

text \<open>The \<open>k\<close>-th leaf the client draws.\<close>

fun rng_at :: "'g oram_ext \<Rightarrow> nat \<Rightarrow> 'g \<Rightarrow> nat \<Rightarrow> 'g" where
  "rng_at X n g 0 = g"
| "rng_at X n g (Suc k) = snd (rng_range X n (rng_at X n g k))"

definition draw_at :: "'g oram_ext \<Rightarrow> nat \<Rightarrow> 'g \<Rightarrow> nat \<Rightarrow> nat" where
  "draw_at X n g k = fst (rng_range X n (rng_at X n g k))"

section \<open>The simulation\<close>

context block_backend begin

definition sim :: "'g oram_ext \<Rightarrow> 'g \<Rightarrow> ('b, 'g) oram_client \<Rightarrow> ('b, 'g) oram_client \<Rightarrow> ledger \<Rightarrow>
    'o oram_clock \<Rightarrow> bool" where
  "sim X g c0 c l k \<longleftrightarrow> oram_inv be view be_inv X c (lg_content l) \<and> ready c \<and>
     advanced view c0 c (ck_bumps k) \<and>
     accesses_since_evict c = ck_acc k \<and> defer_evictions c = ck_defer k \<and>
     pending_evictions c = ck_pending k \<and> evict_cursor c = ck_cursor k \<and> obs (backend c) = ck_seen k \<and>
     rng c = rng_at X (n_leaves (params c)) g (lg_draws l) \<and>
     posmap c = (\<lambda>i. map_option (draw_at X (n_leaves (params c)) g) (lg_leaf l i))"

abbreviation step_clock :: "ring_oram_params \<Rightarrow> nat event \<Rightarrow> 'o oram_clock \<Rightarrow> 'o oram_clock" where
  "step_clock \<equiv> clock_event on_read on_write"

lemma sim_tick:
  assumes "sim X g c0 c l k" and "clocked c c'" and "oram_inv be view be_inv X c' V"
    and "advanced view c c' (ck_bumps k' - ck_bumps k)" and "ck_bumps k \<le> ck_bumps k'"
    and "obs (backend c') = ck_seen k'"
    and "posmap c' = (posmap c)(i \<mapsto> fst (rng_range X (n_leaves (params c)) (rng c)))"
    and "rng c' = snd (rng_range X (n_leaves (params c)) (rng c))"
    and "ck_acc k' = (if Suc (ck_acc k) = ring_a (params c) then 0 else Suc (ck_acc k))"
    and "ck_defer k' = ck_defer k"
    and "ck_pending k' = (if Suc (ck_acc k) = ring_a (params c) \<and> ck_defer k
      then (ck_pending k + 1) mod 2 ^ 32 else ck_pending k)"
    and "ck_cursor k' = (if Suc (ck_acc k) = ring_a (params c) \<and> \<not> ck_defer k
      then wincr32 (ck_cursor k) mod n_leaves (params c) else ck_cursor k)"
  shows "sim X g c0 c' (redraw i (l\<lparr>lg_content := V\<rparr>)) k'"
proof -
  have "params c' = params c" using assms(2) by (simp add: clocked_def same_setup_def)
  moreover have "ready c'" using assms(1,2) clocked_ready by (auto simp: sim_def)
  moreover have "advanced view c0 c' (ck_bumps k')"
    using advanced_trans [OF _ assms(4), of c0 "ck_bumps k"] assms(1,5) by (simp add: sim_def)
  moreover have "posmap c' = (\<lambda>j. map_option (draw_at X (n_leaves (params c)) g)
      (((lg_leaf l)(i \<mapsto> lg_draws l)) j))"
    using assms(1,7) by (auto simp: sim_def draw_at_def)
  ultimately show ?thesis
    using assms by (simp add: sim_def redraw_def clocked_def same_setup_def evict_due_def)
qed

lemma sim_leaf:
  "sim X g c0 c l k \<Longrightarrow> posmap c i = Some q \<longleftrightarrow>
   (\<exists>d. lg_leaf l i = Some d \<and> q = draw_at X (n_leaves (params c)) g d)"
  by (auto simp: sim_def)

lemma sim_dom: "sim X g c0 c l k \<Longrightarrow> lg_content l i = None \<longleftrightarrow> lg_leaf l i = None"
proof -
  assume s: "sim X g c0 c l k"
  then obtain T where "content_inv (params c) T (posmap c) (stash c) (lg_content l)"
    by (auto simp: sim_def oram_inv_def)
  from content_invD(2) [OF this] have "lg_content l i = None \<longleftrightarrow> posmap c i = None" by (metis domIff)
  with s show ?thesis by (simp add: sim_def)
qed

text \<open>One operation.\<close>

definition sim_step :: "'g oram_ext \<Rightarrow> 'g \<Rightarrow> ('b, 'g) oram_client \<Rightarrow> ('b, 'g) oram_client \<Rightarrow> oram_op \<Rightarrow>
    ledger \<Rightarrow> 'o oram_clock \<Rightarrow> bool" where
  "sim_step X g c0 c op l k \<longleftrightarrow> (\<exists>c'. run_op be X op c = (fst (kv_op (params c) op (lg_content l)), c') \<and>
     params c' = params c \<and> sim X g c0 c' (book (params c) op l) (step_clock (params c)
       (map_event (draw_at X (n_leaves (params c)) g) (leak (params c) op l)) k))"

lemma sim_admit:
  assumes s: "sim X g c0 c l k" and X: "ext_ok X" and ok: "legal_op (params c) (Admit i v) (lg_content l) (ck_acc k) (ck_defer k)"
  shows "sim_step X g c0 c (Admit i v) l k"
proof (cases "length v = block_bytes (params c)")
  case False
  then show ?thesis using s
    by (simp add: sim_step_def run_op_def kv_op_def leak_def book_def eseq_def ebind_def admit_size_error)
next
  case True
  with ok have new: "lg_content l i = None" "i \<noteq> DUMMY" by (simp_all add: legal_op_def)
  have pre: "oram_inv be view be_inv X c (lg_content l)" "ready c" using s by (simp_all add: sim_def)
  obtain c' where c': "oram_admit be X i v c = (Inr (), c')"
    "oram_inv be view be_inv X c' ((lg_content l)(i \<mapsto> v))" "clocked c c'" "advanced view c c' 1"
    "posmap c' = (posmap c)(i \<mapsto> fst (rng_range X (n_leaves (params c)) (rng c)))"
    "rng c' = snd (rng_range X (n_leaves (params c)) (rng c))"
    "obs (backend c') = seen_clock on_read on_write c (obs (backend c))"
    using admit_ok [where V = "lg_content l" and i = i, OF pre(1) X pre(2) new True] by blast
  have run: "run_op be X (Admit i v) c = (Inr None, c')"
    using c'(1) by (simp add: run_op_def eseq_step)
  have "sim X g c0 c' (redraw i (l\<lparr>lg_content := (lg_content l)(i \<mapsto> v)\<rparr>)) (step_clock (params c) Place k)"
    using s c' by (intro sim_tick [OF s c'(3,2)])
      (simp_all add: tick_def sim_def seen_clock_def evict_due_def Let_def)
  moreover have "params c' = params c" using c'(3) by (simp add: clocked_def same_setup_def)
  ultimately show ?thesis
    using run True unfolding sim_step_def by (intro exI [of _ c']) (simp add: kv_op_def leak_def book_def)
qed

lemma sim_read:
  assumes s: "sim X g c0 c l k" and X: "ext_ok X"
  shows "sim_step X g c0 c (Read i) l k"
proof (cases "lg_content l i")
  case None
  have "oram_inv be view be_inv X c (lg_content l)" using s by (simp add: sim_def)
  with None have "run_op be X (Read i) c = (Inl (Fail (UnknownBlock i)), c)"
    by (simp add: run_op_def read_unknown ebind_def)
  then show ?thesis using s None sim_dom [OF s, of i]
    by (simp add: sim_step_def kv_op_def leak_def book_def)
next
  case (Some v)
  have pre: "oram_inv be view be_inv X c (lg_content l)" "ready c" using s by (simp_all add: sim_def)
  obtain c' q where c': "oram_read be X i c = (Inr v, c')"
    "oram_inv be view be_inv X c' (lg_content l)" "clocked c c'" "advanced view c c' 2"
    "posmap c i = Some q"
    "posmap c' = (posmap c)(i \<mapsto> fst (rng_range X (n_leaves (params c)) (rng c)))"
    "rng c' = snd (rng_range X (n_leaves (params c)) (rng c))"
    "obs (backend c') = seen_clock on_read on_write c
      (seen_path on_read on_write (params c) q (obs (backend c)))"
    using read_ok [where V = "lg_content l" and i = i, OF pre(1) X pre(2) Some] by blast
  obtain d where d: "lg_leaf l i = Some d" "q = draw_at X (n_leaves (params c)) g d"
    using c'(5) sim_leaf [OF s, of i] by auto
  have run: "run_op be X (Read i) c = (Inr (Some v), c')"
    using c'(1) by (simp add: run_op_def ebind_step)
  have "sim X g c0 c' (redraw i (l\<lparr>lg_content := lg_content l\<rparr>)) (step_clock (params c) (Touch q) k)"
    using s c' by (intro sim_tick [OF s c'(3,2)])
      (simp_all add: tick_def sim_def seen_clock_def evict_due_def Let_def numeral_2_eq_2)
  moreover have "params c' = params c" using c'(3) by (simp add: clocked_def same_setup_def)
  ultimately show ?thesis
    using run Some d unfolding sim_step_def by (intro exI [of _ c']) (simp add: kv_op_def leak_def book_def)
qed

lemma sim_write:
  assumes s: "sim X g c0 c l k" and X: "ext_ok X" and ok: "legal_op (params c) (Write i w) (lg_content l) (ck_acc k) (ck_defer k)"
  shows "sim_step X g c0 c (Write i w) l k"
proof -
  have pre: "oram_inv be view be_inv X c (lg_content l)" "ready c" using s by (simp_all add: sim_def)
  consider (size) "length w \<noteq> block_bytes (params c)"
    | (unknown) "length w = block_bytes (params c)" "lg_content l i = None"
    | (known) v where "length w = block_bytes (params c)" "lg_content l i = Some v" by fastforce
  then show ?thesis
  proof cases
    case size
    then show ?thesis using s
      by (simp add: sim_step_def run_op_def kv_op_def leak_def book_def eseq_def ebind_def write_size_error)
  next
    case unknown
    then have "run_op be X (Write i w) c = (Inl (Fail (UnknownBlock i)), c)"
      using write_unknown [OF pre(1)] by (simp add: run_op_def eseq_def ebind_def)
    then show ?thesis using s unknown sim_dom [OF s, of i]
      by (simp add: sim_step_def kv_op_def leak_def book_def)
  next
    case known
    then have quiet: "\<not> (evict_due c \<and> \<not> defer_evictions c)"
      using ok s by (auto simp: legal_op_def evict_due_def sim_def)
    obtain c' q where c': "oram_write be X i w c = (Inr (), c')"
      "oram_inv be view be_inv X c' ((lg_content l)(i \<mapsto> w))" "clocked c c'" "advanced view c c' 2"
      "posmap c i = Some q"
      "posmap c' = (posmap c)(i \<mapsto> fst (rng_range X (n_leaves (params c)) (rng c)))"
      "rng c' = snd (rng_range X (n_leaves (params c)) (rng c))"
      "obs (backend c') = seen_clock on_read on_write c
        (seen_path on_read on_write (params c) q (obs (backend c)))"
      using write_ok [where V = "lg_content l" and i = i, OF pre(1) X pre(2) known(2,1) quiet] by blast
    obtain d where d: "lg_leaf l i = Some d" "q = draw_at X (n_leaves (params c)) g d"
      using c'(5) sim_leaf [OF s, of i] by auto
    have run: "run_op be X (Write i w) c = (Inr None, c')"
      using c'(1) by (simp add: run_op_def eseq_step)
    have "sim X g c0 c' (redraw i (l\<lparr>lg_content := (lg_content l)(i \<mapsto> w)\<rparr>)) (step_clock (params c) (Touch q) k)"
      using s c' by (intro sim_tick [OF s c'(3,2)])
        (simp_all add: tick_def sim_def seen_clock_def evict_due_def Let_def numeral_2_eq_2)
    moreover have "params c' = params c" using c'(3) by (simp add: clocked_def same_setup_def)
    ultimately show ?thesis
      using run known d unfolding sim_step_def
      by (intro exI [of _ c']) (simp add: kv_op_def leak_def book_def)
  qed
qed

lemma sim_defer:
  assumes s: "sim X g c0 c l k"
  shows "sim_step X g c0 c (SetDefer d) l k"
proof -
  have inv: "oram_inv be view be_inv X c (lg_content l)" using s by (simp add: sim_def)
  have run: "run_op be X (SetDefer d) c = (Inr None, c\<lparr>defer_evictions := d\<rparr>)"
    by (simp add: run_op_def set_defer_evictions_def)
  have "advanced view c0 (c\<lparr>defer_evictions := d\<rparr>) (ck_bumps k)" using s by (simp add: sim_def advanced_def)
  then have "sim X g c0 (c\<lparr>defer_evictions := d\<rparr>) l (k\<lparr>ck_defer := d\<rparr>)"
    using s oram_inv_control(3) [OF inv, of d] by (simp add: sim_def ready_def)
  with run show ?thesis by (simp add: sim_step_def kv_op_def leak_def book_def)
qed

lemma sim_flush:
  assumes s: "sim X g c0 c l k" and X: "ext_ok X"
  shows "sim_step X g c0 c Flush l k"
proof -
  have inv: "oram_inv be view be_inv X c (lg_content l)" using s by (simp add: sim_def)
  obtain c' where c': "flush_evictions be X c = (Inr (), c')" "oram_inv be view be_inv X c' (lg_content l)"
    "same_setup c c'" "posmap c' = posmap c" "rng c' = rng c"
    "accesses_since_evict c' = accesses_since_evict c" "pending_evictions c' = 0"
    "advanced view c c' (pending_evictions c)"
    "evict_cursor c' = next_cursor (n_leaves (params c)) (pending_evictions c) (evict_cursor c)"
    "obs (backend c') = seen_evictions on_read on_write (params c) (pending_evictions c)
      (evict_cursor c) (obs (backend c))"
    using flush_ok [OF inv X] by blast
  have "advanced view c0 c' (ck_bumps k + ck_pending k)"
    using advanced_trans [OF _ c'(8)] s by (simp add: sim_def)
  moreover have "ready c'" using s c' by (simp add: sim_def ready_def same_setup_def)
  ultimately have "sim X g c0 c' l (step_clock (params c) Flushes k)"
    using s c' by (simp add: sim_def same_setup_def)
  moreover have "run_op be X Flush c = (Inr None, c')"
    using c'(1) by (simp add: run_op_def eseq_step)
  moreover have "params c' = params c" using c'(3) by (simp add: same_setup_def)
  ultimately show ?thesis
    unfolding sim_step_def by (intro exI [of _ c']) (simp add: kv_op_def leak_def book_def)
qed

lemma run_op_sim:
  "sim X g c0 c l k \<Longrightarrow> ext_ok X \<Longrightarrow> legal_op (params c) op (lg_content l) (ck_acc k) (ck_defer k) \<Longrightarrow> sim_step X g c0 c op l k"
  by (cases op) (simp_all add: sim_admit sim_read sim_write sim_defer sim_flush)

end

definition start_clock :: "'o \<Rightarrow> 'o oram_clock" where
  "start_clock o1 = \<lparr>ck_acc = 0, ck_defer = False, ck_pending = 0, ck_cursor = 0, ck_bumps = 0, ck_seen = o1\<rparr>"

fun book_all :: "ring_oram_params \<Rightarrow> oram_op list \<Rightarrow> ledger \<Rightarrow> ledger" where
  "book_all p [] l = l"
| "book_all p (op # ops) l = book_all p ops (book p op l)"

definition clock_all :: "(nat list \<Rightarrow> 'o \<Rightarrow> 'o) \<Rightarrow> (nat list \<Rightarrow> 'o \<Rightarrow> 'o) \<Rightarrow> ring_oram_params \<Rightarrow>
    nat event list \<Rightarrow> 'o oram_clock \<Rightarrow> 'o oram_clock" where
  "clock_all on_read on_write p = fold (clock_event on_read on_write p)"

lemma clock_counts:
  assumes "\<And>i. lg_content l i = None \<longleftrightarrow> lg_leaf l i = None"
  shows "ck_acc (clock_event on_read on_write p (map_event f (leak p op l)) k) =
      (if counts p op (lg_content l) then (if Suc (ck_acc k) = ring_a p then 0 else Suc (ck_acc k)) else ck_acc k)"
    and "ck_defer (clock_event on_read on_write p (map_event f (leak p op l)) k) =
      (case op of SetDefer d \<Rightarrow> d | _ \<Rightarrow> ck_defer k)"
  using assms by (auto simp: leak_def counts_def tick_def Let_def split: oram_op.splits option.splits)

lemma kv_op_no_panic:
  "fst (kv_op p op V) \<noteq> Inl Panic" "fst (kv_op p op V) \<noteq> Inl Hang"
  by (auto simp: kv_op_def Let_def split: oram_op.splits option.splits)

lemma content_book: "lg_content (book p op l) = snd (kv_op p op (lg_content l))"
  by (auto simp: book_def Let_def redraw_def split: oram_op.splits)

context block_backend begin

theorem run_ops_sim:
  assumes "sim X g c0 c l k" and "ext_ok X" and "params c = p" and "draw = draw_at X (n_leaves p) g"
    and "legal p ops (lg_content l) (ck_acc k) (ck_defer k)"
  shows "\<exists>c'. run_ops be X ops c = (kv_run p ops (lg_content l), c') \<and> params c' = p \<and>
    sim X g c0 c' (book_all p ops l)
      (clock_all on_read on_write p (map (map_event draw) (leaks p ops l)) k)"
  using assms
proof (induction ops arbitrary: c l k)
  case Nil
  then show ?case by (simp add: clock_all_def)
next
  case (Cons op ops)
  let ?k = "clock_event on_read on_write p (map_event draw (leak p op l)) k"
  have "sim_step X g c0 c op l k"
    using Cons.prems by (intro run_op_sim) simp_all
  then obtain c1 where c1: "run_op be X op c = (fst (kv_op p op (lg_content l)), c1)"
    "params c1 = p" "sim X g c0 c1 (book p op l) ?k"
    using Cons.prems(3,4) by (auto simp: sim_step_def)
  have leg: "legal p ops (lg_content (book p op l)) (ck_acc ?k) (ck_defer ?k)"
    unfolding content_book clock_counts [OF sim_dom [OF Cons.prems(1)]]
    using Cons.prems(5) by simp
  obtain c' where c': "run_ops be X ops c1 = (kv_run p ops (lg_content (book p op l)), c')" "params c' = p"
    "sim X g c0 c' (book_all p ops (book p op l))
      (clock_all on_read on_write p (map (map_event draw) (leaks p ops (book p op l))) ?k)"
    using Cons.IH [OF c1(3) Cons.prems(2) c1(2) Cons.prems(4) leg] by blast
  have "run_ops be X (op # ops) c = (kv_run p (op # ops) (lg_content l), c')"
    using c1(1) c'(1) kv_op_no_panic [of p op "lg_content l"]
    by (cases "kv_op p op (lg_content l)")
       (auto simp: content_book split: sum.splits fault.splits)
  with c' show ?case by (simp add: clock_all_def)
qed

text \<open>A fresh client, and any legal history on it.\<close>

lemma fresh_history:
  assumes "wf_params p" and "ext_ok X" and "start b" and "be_num_buckets be b = num_buckets p"
    and "draw = draw_at X (n_leaves p) (rng_from_seed X seed)" and "legal p ops Map.empty 0 False"
  shows "\<exists>c c'. oram_new be X b p ky seed = Inr c \<and> params c = p \<and>
    run_ops be X ops c = (kv_run p ops Map.empty, c') \<and> params c' = p \<and>
    sim X (rng_from_seed X seed) c c' (book_all p ops empty_ledger)
      (clock_all on_read on_write p (map (map_event draw) (leaks p ops empty_ledger))
        (start_clock (on_write [0..<num_buckets p] (obs b))))"
proof -
  obtain c where c: "oram_new be X b p ky seed = Inr c" "oram_inv be view be_inv X c Map.empty" "ready c"
    "params c = p" "posmap c = Map.empty" "accesses_since_evict c = 0" "\<not> defer_evictions c"
    "pending_evictions c = 0" "evict_cursor c = 0" "rng c = rng_from_seed X seed"
    "obs (backend c) = on_write [0..<num_buckets p] (obs b)"
    using oram_new_ok [OF assms(1,3,4)] by blast
  then have "sim X (rng_from_seed X seed) c c empty_ledger
      (start_clock (on_write [0..<num_buckets p] (obs b)))"
    by (simp add: sim_def empty_ledger_def start_clock_def advanced_refl)
  from run_ops_sim [OF this assms(2) c(4) assms(5), of ops] c(1,4) assms(6) show ?thesis
    by (simp add: empty_ledger_def start_clock_def)
qed

end

end
