(* ===== verification/Oram_Oblivious.thy ===== *)
theory Oram_Oblivious
  imports Oram_Spec
begin

text \<open>
  What the storage server learns.  The log of bucket requests is a function of the events
  of a history and of the leaves drawn; every touched leaf is the value of a draw that is
  revealed once.  So two histories of the same shape produce the same log up to a
  permutation of the draws, which leaves independent uniform draws unchanged.
\<close>

fun touched :: "'k event list \<Rightarrow> 'k list" where
  "touched [] = []"
| "touched (Touch k # es) = k # touched es"
| "touched (Place # es) = touched es"
| "touched (Defers d # es) = touched es"
| "touched (Flushes # es) = touched es"
| "touched (Nothing # es) = touched es"

definition shape :: "ring_oram_params \<Rightarrow> oram_op list \<Rightarrow> unit event list" where
  "shape p ops = map (map_event (\<lambda>_. ())) (leaks p ops empty_ledger)"

section \<open>Draws are revealed once\<close>

definition ledger_inv :: "ledger \<Rightarrow> bool" where
  "ledger_inv l \<longleftrightarrow> (\<forall>i j k. lg_leaf l i = Some k \<and> lg_leaf l j = Some k \<longrightarrow> i = j) \<and>
     (\<forall>i k. lg_leaf l i = Some k \<longrightarrow> k < lg_draws l)"

lemma ledger_inv_content [simp]: "ledger_inv (l\<lparr>lg_content := V\<rparr>) = ledger_inv l"
  by (simp add: ledger_inv_def)

lemma redraw_content: "redraw i (l\<lparr>lg_content := V\<rparr>) = (redraw i l)\<lparr>lg_content := V\<rparr>"
  by (simp add: redraw_def)

lemma ledger_inv_redraw: "ledger_inv l \<Longrightarrow> ledger_inv (redraw i l)"
  unfolding ledger_inv_def redraw_def by (auto, force+)

lemma ledger_inv_book: "ledger_inv l \<Longrightarrow> ledger_inv (book p op l)"
  by (auto simp: book_def Let_def redraw_content ledger_inv_redraw split: oram_op.splits)

definition live :: "ledger \<Rightarrow> nat \<Rightarrow> bool" where
  "live l k \<longleftrightarrow> (\<exists>i. lg_leaf l i = Some k) \<or> lg_draws l \<le> k"

lemma live_book: "ledger_inv l \<Longrightarrow> live (book p op l) k \<Longrightarrow> live l k"
  by (auto simp: live_def book_def Let_def redraw_def split: oram_op.splits if_splits)

lemma live_touch: "leak p op l = Touch k \<Longrightarrow> live l k"
  by (auto simp: live_def leak_def Let_def split: oram_op.splits if_splits option.splits)

lemma touch_dead: "ledger_inv l \<Longrightarrow> leak p op l = Touch k \<Longrightarrow> \<not> live (book p op l) k"
  unfolding ledger_inv_def
  by (auto simp: live_def leak_def book_def redraw_def Let_def
      split: oram_op.splits if_splits option.splits) (metis+ | fastforce)+

lemma touched_once:
  "ledger_inv l \<Longrightarrow> distinct (touched (leaks p ops l)) \<and> (\<forall>k \<in> set (touched (leaks p ops l)). live l k)"
proof (induction ops arbitrary: l)
  case (Cons op ops)
  let ?rest = "touched (leaks p ops (book p op l))"
  have IH: "distinct ?rest" "\<And>k. k \<in> set ?rest \<Longrightarrow> live (book p op l) k"
    using Cons.IH [OF ledger_inv_book [OF Cons.prems], of p op] by blast+
  then have "\<And>k. k \<in> set ?rest \<Longrightarrow> live l k" using live_book [OF Cons.prems] by blast
  then show ?case
    using IH live_touch [of p op l] touch_dead [OF Cons.prems, of p op]
    by (cases "leak p op l") auto
qed simp

lemma ledger_inv_empty [simp]: "ledger_inv empty_ledger"
  by (simp add: ledger_inv_def empty_ledger_def)

section \<open>Renaming draws\<close>

lemma bij_extends:
  fixes xs ys :: "nat list"
  assumes "distinct xs" and "distinct ys" and "length xs = length ys"
  shows "\<exists>f. bij f \<and> map f xs = ys"
proof -
  let ?S = "set xs \<union> set ys"
  have "card (?S - set xs) = card (?S - set ys)"
    using assms by (simp add: card_Diff_subset distinct_card)
  then obtain h where h: "bij_betw h (?S - set xs) (?S - set ys)"
    using finite_same_card_bij [of "?S - set xs" "?S - set ys"] by auto
  define g where "g x = the (map_of (zip xs ys) x)" for x
  have g_nth: "g (xs ! i) = ys ! i" if "i < length xs" for i
    using that assms by (simp add: g_def map_of_zip_nth)
  then have g_map: "map g xs = ys" using assms(3) by (intro nth_equalityI) simp_all
  have "inj_on g (set xs)"
    using assms(1,2) g_map by (metis distinct_map)
  then have g: "bij_betw g (set xs) (set ys)" using g_map by (auto simp: bij_betw_def)
  define f where "f x = (if x \<in> set xs then g x else if x \<in> ?S then h x else x)" for x
  have S: "bij_betw f (set xs) (set ys)"
    using g by (rule bij_betw_cong [THEN iffD1, rotated]) (simp add: f_def)
  have "bij_betw f (?S - set xs) (?S - set ys)"
    using h by (rule bij_betw_cong [THEN iffD1, rotated]) (auto simp: f_def)
  from bij_betw_combine [OF S this] have "bij_betw f (set xs \<union> (?S - set xs)) (set ys \<union> (?S - set ys))"
    by blast
  then have in_S: "bij_betw f ?S ?S" by (simp add: Un_absorb1)
  have "bij_betw f (- ?S) (- ?S)"
    by (rule bij_betw_cong [THEN iffD1, of _ id]) (auto simp: f_def)
  from bij_betw_combine [OF in_S this] have "bij_betw f (?S \<union> - ?S) (?S \<union> - ?S)" by blast
  then have "bij f" unfolding Compl_partition .
  moreover have "map f xs = ys" using g_map by (auto simp: f_def intro: nth_equalityI)
  ultimately show ?thesis by blast
qed

lemma shape_renaming:
  assumes "map (map_event (\<lambda>_. ())) es = map (map_event (\<lambda>_. ())) es'" and "map f (touched es) = touched es'"
  shows "map (map_event f) es = es'"
  using assms
proof (induction es arbitrary: es')
  case (Cons e es)
  then obtain e' rest where "es' = e' # rest" by (cases es') auto
  with Cons show ?case by (cases e; cases e') auto
qed simp

lemma shape_touched:
  "map (map_event (\<lambda>_. ())) es = map (map_event (\<lambda>_. ())) es' \<Longrightarrow> length (touched es) = length (touched es')"
proof (induction es arbitrary: es')
  case (Cons e es)
  then obtain e' rest where "es' = e' # rest" by (cases es') auto
  with Cons show ?case by (cases e; cases e') auto
qed simp

section \<open>A client whose draws come from a tape\<close>

definition tape_ext :: "seal_fun \<Rightarrow> unseal_fun \<Rightarrow> (block_id list \<Rightarrow> block_id list) \<Rightarrow> (nat \<Rightarrow> nat) \<Rightarrow>
    nat oram_ext" where
  "tape_ext seal unseal order tape = \<lparr>ext_seal = seal, ext_unseal = unseal, rng_from_seed = (\<lambda>_. 0),
     rng_range = (\<lambda>n k. (tape k mod n, Suc k)), hash_order = order\<rparr>"

lemma tape_ext_ok: "aead_roundtrip seal unseal \<Longrightarrow> perm_order order \<Longrightarrow> ext_ok (tape_ext seal unseal order tape)"
  by (simp add: ext_ok_def tape_ext_def)

lemma tape_rng_at: "rng_at (tape_ext seal unseal order tape) n 0 k = k"
  by (induction k) (simp_all add: tape_ext_def)

lemma tape_draw: "draw_at (tape_ext seal unseal order tape) n 0 = (\<lambda>k. tape k mod n)"
  by (rule ext) (simp add: draw_at_def tape_rng_at, simp add: tape_ext_def)

definition server_log :: "'g oram_ext \<Rightarrow> ring_oram_params \<Rightarrow> bytes \<Rightarrow> bytes \<Rightarrow> oram_op list \<Rightarrow> request list" where
  "server_log X p k seed ops =
     (case oram_new (spy_ops mem_ops) X (mem_new (num_buckets p), []) p k seed of
        Inl _ \<Rightarrow> []
      | Inr c \<Rightarrow> snd (backend (snd (run_ops (spy_ops mem_ops) X ops c))))"

lemma spy_num: "n < 2 ^ 32 \<Longrightarrow> be_num_buckets (spy_ops mem_ops) (mem_new n, log) = n"
  using mem_new_num by (simp add: spy_ops_def)

lemma num_buckets_less: "num_buckets p < 2 ^ 32"
  by (simp add: num_buckets_def low_mask32_def wsub32_def)

text \<open>The log as a function of the events and the drawn leaves.\<close>

lemma server_log_events:
  assumes "wf_params p" and "ext_ok X" and "legal p ops Map.empty 0 False"
  shows "server_log X p k seed ops = ck_seen (clock_all spy_read spy_write p
    (map (map_event (draw_at X (n_leaves p) (rng_from_seed X seed))) (leaks p ops empty_ledger))
    (start_clock [WriteReq [0..<num_buckets p]]))"
proof -
  have b: "(case (mem_new (num_buckets p), [] :: request list) of (b, _) \<Rightarrow> mem_inv b)"
    using mem_new_inv [OF num_buckets_less] by simp
  obtain c c' where *: "oram_new (spy_ops mem_ops) X (mem_new (num_buckets p), []) p k seed = Inr c"
    "run_ops (spy_ops mem_ops) X ops c = (kv_run p ops Map.empty, c')"
    "spy.sim X (rng_from_seed X seed) c c' (book_all p ops empty_ledger)
      (clock_all spy_read spy_write p
        (map (map_event (draw_at X (n_leaves p) (rng_from_seed X seed))) (leaks p ops empty_ledger))
        (start_clock (spy_write [0..<num_buckets p] [])))"
    using spy.fresh_history [where seed = seed and ky = k, OF assms(1,2) b spy_num [OF num_buckets_less] refl assms(3)]
    by auto
  from *(3) show ?thesis by (simp add: server_log_def *(1,2) spy.sim_def spy_write_def)
qed

end
