(* ===== verification/Oram_Theorems.thy ===== *)
theory Oram_Theorems
  imports Oram_Oblivious "HOL-Library.Code_Target_Nat"
begin

text \<open>
  The properties of the Ring-ORAM, on the in-memory backend and on the same backend with a
  request log.  The witnesses run on small trees with a transparent cipher and a counting
  generator.
\<close>

section \<open>Reachable states\<close>

inductive oram_reach :: "'g oram_ext \<Rightarrow> ring_oram_params \<Rightarrow> (mem_backend, 'g) oram_client \<Rightarrow>
    (block_id \<Rightarrow> bytes option) \<Rightarrow> bool" for X :: "'g oram_ext" and p :: ring_oram_params where
  reach_new: "oram_new mem_ops X (mem_new (num_buckets p)) p k seed = Inr c \<Longrightarrow> oram_reach X p c Map.empty"
| reach_op: "oram_reach X p c V \<Longrightarrow> legal_op p op V (accesses_since_evict c) (defer_evictions c) \<Longrightarrow>
    run_op mem_ops X op c = (r, c') \<Longrightarrow> oram_reach X p c' (snd (kv_op p op V))"

lemma reach_sim:
  assumes "oram_reach X p c V" and wf: "wf_params p" and X: "ext_ok X"
  shows "\<exists>g c0 l k. mem.sim X g c0 c l k \<and> lg_content l = V \<and> params c = p"
  using assms(1)
proof (induction rule: oram_reach.induct)
  case (reach_new k seed c)
  have "\<exists>c c'. oram_new mem_ops X (mem_new (num_buckets p)) p k seed = Inr c \<and> params c = p \<and>
      run_ops mem_ops X [] c = (kv_run p [] Map.empty, c') \<and> params c' = p \<and>
      mem.sim X (rng_from_seed X seed) c c' (book_all p [] empty_ledger) (clock_all count_reads (\<lambda>_ n. n) p
        (map (map_event (draw_at X (n_leaves p) (rng_from_seed X seed))) (leaks p [] empty_ledger))
        (start_clock (mb_read_count (mem_new (num_buckets p)))))"
    by (rule mem.fresh_history [OF wf X mem_new_inv mem_new_num refl])
       (simp_all only: num_buckets_less legal.simps)
  with reach_new have "mem.sim X (rng_from_seed X seed) c c empty_ledger
      (start_clock (mb_read_count (mem_new (num_buckets p)))) \<and> params c = p"
    by (auto simp: clock_all_def)
  moreover have "lg_content empty_ledger = Map.empty" by (simp add: empty_ledger_def)
  ultimately show ?case by blast
next
  case (reach_op c V op r c')
  then obtain g c0 l k where s: "mem.sim X g c0 c l k" "lg_content l = V" "params c = p" by blast
  have "legal_op (params c) op (lg_content l) (ck_acc k) (ck_defer k)"
    using reach_op.hyps(2) s by (simp add: mem.sim_def)
  from mem.run_op_sim [OF s(1) X this] s(2,3) reach_op.hyps(3) content_book [of p op l]
  show ?case unfolding mem.sim_step_def by force
qed

lemma reach_inv:
  assumes "oram_reach X p c V" and "wf_params p" and "ext_ok X"
  shows "oram_inv mem_ops mem_view mem_inv X c V" and "ready c" and "params c = p"
  using reach_sim [OF assms] by (auto simp: mem.sim_def)

section \<open>Concrete instances\<close>

definition demo_seal :: seal_fun where
  "demo_seal k n p = p"

definition demo_unseal :: unseal_fun where
  "demo_unseal k n c = Some c"

definition demo_ext :: "nat oram_ext" where
  "demo_ext = tape_ext demo_seal demo_unseal (\<lambda>ids. ids) (\<lambda>k. k)"

lemma demo_aead: "aead_roundtrip demo_seal demo_unseal"
  by (simp add: aead_roundtrip_def demo_seal_def demo_unseal_def)

lemma demo_ext_ok: "ext_ok demo_ext"
  unfolding demo_ext_def by (rule tape_ext_ok [OF demo_aead perm_order_id])

definition demo_params :: ring_oram_params where
  "demo_params = \<lparr>ring_z = 1, ring_s = 1, ring_a = 2, block_bytes = 1, n_leaves = 2, treetop_levels = 1\<rparr>"

definition eager_params :: ring_oram_params where
  "eager_params = \<lparr>ring_z = 1, ring_s = 0, ring_a = 1, block_bytes = 1, n_leaves = 1, treetop_levels = 0\<rparr>"

lemma wf_demo: "wf_params demo_params" "wf_params eager_params"
  by (simp_all add: wf_params_def demo_params_def eager_params_def)

text \<open>The client after a history.\<close>

definition demo_run :: "ring_oram_params \<Rightarrow> oram_op list \<Rightarrow> (mem_backend, nat) oram_client" where
  "demo_run p ops =
     snd (run_ops mem_ops demo_ext ops (projr (oram_new mem_ops demo_ext (mem_new (num_buckets p)) p [] [])))"

lemma reach_demo:
  assumes "legal p ops Map.empty 0 False" and "wf_params p"
  shows "oram_reach demo_ext p (demo_run p ops) (lg_content (book_all p ops empty_ledger))"
proof -
  have grow: "oram_reach demo_ext p (snd (run_ops mem_ops demo_ext ops c)) (lg_content (book_all p ops l))"
    if "oram_reach demo_ext p c (lg_content l)" "legal p ops (lg_content l) (accesses_since_evict c) (defer_evictions c)"
      "mem.sim demo_ext g c0 c l k" "params c = p" for ops c l g c0 k
    using that
  proof (induction ops arbitrary: c l k)
    case (Cons op ops)
    have op: "legal_op p op (lg_content l) (accesses_since_evict c) (defer_evictions c)"
      using Cons.prems(2) by simp
    then have "legal_op (params c) op (lg_content l) (ck_acc k) (ck_defer k)"
      using Cons.prems(3,4) by (simp add: mem.sim_def)
    from mem.run_op_sim [OF Cons.prems(3) demo_ext_ok this] obtain c' where c':
      "run_op mem_ops demo_ext op c = (fst (kv_op p op (lg_content l)), c')" "params c' = p"
      "mem.sim demo_ext g c0 c' (book p op l) (clock_event count_reads (\<lambda>_ n. n) p
        (map_event (draw_at demo_ext (n_leaves p) g) (leak p op l)) k)"
      using Cons.prems(4) by (auto simp: mem.sim_step_def)
    have "oram_reach demo_ext p c' (lg_content (book p op l))"
      using reach_op [OF Cons.prems(1) op c'(1)] by (simp add: content_book)
    moreover have "legal p ops (lg_content (book p op l)) (accesses_since_evict c') (defer_evictions c')"
    proof -
      have "accesses_since_evict c' = (if counts p op (lg_content l) then
          (if Suc (ck_acc k) = ring_a p then 0 else Suc (ck_acc k)) else ck_acc k)"
        "defer_evictions c' = (case op of SetDefer d \<Rightarrow> d | _ \<Rightarrow> ck_defer k)"
        using c'(3) by (simp_all add: mem.sim_def clock_counts [OF mem.sim_dom [OF Cons.prems(3)]])
      moreover have "accesses_since_evict c = ck_acc k" "defer_evictions c = ck_defer k"
        using Cons.prems(3) by (simp_all add: mem.sim_def)
      ultimately show ?thesis using Cons.prems(2) by (simp only: legal.simps content_book)
    qed
    ultimately have "oram_reach demo_ext p (snd (run_ops mem_ops demo_ext ops c')) (lg_content (book_all p ops (book p op l)))"
      using Cons.IH c'(2,3) by simp
    then show ?case using c'(1) kv_op_no_panic [of p op "lg_content l"]
      by (auto simp: split_beta split: sum.splits fault.splits)
  qed auto
  have "\<exists>c c'. oram_new mem_ops demo_ext (mem_new (num_buckets p)) p [] [] = Inr c \<and> params c = p \<and>
      run_ops mem_ops demo_ext [] c = (kv_run p [] Map.empty, c') \<and> params c' = p \<and>
      mem.sim demo_ext (rng_from_seed demo_ext []) c c' (book_all p [] empty_ledger) (clock_all count_reads (\<lambda>_ n. n) p
        (map (map_event (draw_at demo_ext (n_leaves p) (rng_from_seed demo_ext []))) (leaks p [] empty_ledger))
        (start_clock (mb_read_count (mem_new (num_buckets p)))))"
    by (rule mem.fresh_history [OF assms(2) demo_ext_ok mem_new_inv mem_new_num refl])
       (simp_all only: num_buckets_less legal.simps)
  then obtain c where c: "oram_new mem_ops demo_ext (mem_new (num_buckets p)) p [] [] = Inr c" "params c = p"
    "mem.sim demo_ext (rng_from_seed demo_ext []) c c empty_ledger (start_clock (mb_read_count (mem_new (num_buckets p))))"
    by (auto simp: clock_all_def)
  have e: "lg_content empty_ledger = Map.empty" by (simp add: empty_ledger_def)
  have "accesses_since_evict c = 0" "defer_evictions c = False"
    using c(3) by (simp_all add: mem.sim_def start_clock_def)
  then show ?thesis
    using grow [of c empty_ledger ops, OF _ _ c(3,2)] reach_new [OF c(1)] assms(1) e c(1)
    by (simp add: demo_run_def)
qed

section \<open>The properties\<close>

definition demo_history :: "oram_op list" where
  "demo_history = [SetDefer True, Admit 1 [7], Write 1 [9], Read 1, Read 2, Flush, Read 1, Admit 3 [1, 2]]"

definition other_history :: "oram_op list" where
  "other_history = [SetDefer True, Admit 5 [1], Read 5, Write 5 [2], Read 6, Flush, Read 5, Admit 4 []]"

lemma demo_legal: "legal demo_params demo_history Map.empty 0 False"
  by code_simp

lemma demo_short: "legal demo_params [Admit 1 [7]] Map.empty 0 False"
  by code_simp

text \<open>C6: A Ring-ORAM built over the in-memory backend answers every legal history exactly like
  a key-value map: each read returns the last payload written to the block, reads and
  writes of unknown blocks and payloads of the wrong size return their errors, and nothing
  panics or hangs.\<close>

theorem oram_refines_map:
  assumes "wf_params p" and "ext_ok X" and "legal p ops Map.empty 0 False"
  shows "\<exists>c c'. oram_new mem_ops X (mem_new (num_buckets p)) p k seed = Inr c \<and>
    run_ops mem_ops X ops c = (kv_run p ops Map.empty, c')"
  using mem.fresh_history [where seed = seed and ky = k,
      OF assms(1,2) mem_new_inv mem_new_num refl assms(3)] num_buckets_less
  by blast

theorem oram_refines_map_witness:
  "\<exists>c c'. oram_new mem_ops demo_ext (mem_new (num_buckets demo_params)) demo_params [] [] = Inr c \<and>
    run_ops mem_ops demo_ext demo_history c =
      ([Inr None, Inr None, Inr None, Inr (Some [9]), Inl (Fail (UnknownBlock 2)), Inr None,
        Inr (Some [9]), Inl (Fail (PayloadSize 1 2))], c')"
proof -
  have "kv_run demo_params demo_history Map.empty =
      [Inr None, Inr None, Inr None, Inr (Some [9]), Inl (Fail (UnknownBlock 2)), Inr None,
        Inr (Some [9]), Inl (Fail (PayloadSize 1 2))]" by code_simp
  then show ?thesis using oram_refines_map [OF wf_demo(1) demo_ext_ok demo_legal] by simp
qed

text \<open>C7: Obliviousness.  Two legal histories of the same shape (the same kinds of
  operations succeeding, whatever blocks and payloads they name) make the storage server
  see the same requests, once the client's random draws are renamed by a permutation that
  does not depend on the draws.  Independent uniform leaves have the same law after
  such a renaming, so the log tells the server nothing but the shape.\<close>

theorem oram_oblivious:
  assumes "wf_params p" and "aead_roundtrip seal unseal" and "perm_order order"
    and "legal p ops Map.empty 0 False" and "legal p ops' Map.empty 0 False"
    and "shape p ops = shape p ops'"
  shows "\<exists>\<pi>. bij \<pi> \<and> (\<forall>tape k k' seed seed'.
    server_log (tape_ext seal unseal order (tape \<circ> \<pi>)) p k seed ops =
    server_log (tape_ext seal unseal order tape) p k' seed' ops')"
proof -
  let ?es = "leaks p ops empty_ledger" and ?es' = "leaks p ops' empty_ledger"
  have same: "map (map_event (\<lambda>_. ())) ?es = map (map_event (\<lambda>_. ())) ?es'"
    using assms(6) by (simp add: shape_def)
  obtain \<pi> where \<pi>: "bij \<pi>" "map \<pi> (touched ?es) = touched ?es'"
    using bij_extends touched_once [OF ledger_inv_empty] shape_touched [OF same] by metis
  have renamed: "map (map_event \<pi>) ?es = ?es'" by (rule shape_renaming [OF same \<pi>(2)])
  have "map (map_event (\<lambda>k. (tape \<circ> \<pi>) k mod n_leaves p)) ?es =
      map (map_event (\<lambda>k. tape k mod n_leaves p)) ?es'" for tape
    by (simp add: renamed [symmetric] event.map_comp comp_def)
  then show ?thesis
    using \<pi>(1) assms(1,4,5) tape_ext_ok [OF assms(2,3)]
    by (intro exI [of _ \<pi>]) (simp add: server_log_events tape_draw, simp add: tape_ext_def tape_draw [unfolded tape_ext_def])
qed

theorem oram_oblivious_witness:
  "\<exists>\<pi>. bij \<pi> \<and> (\<forall>tape k k' seed seed'.
    server_log (tape_ext demo_seal demo_unseal (\<lambda>ids. ids) (tape \<circ> \<pi>)) demo_params k seed demo_history =
    server_log (tape_ext demo_seal demo_unseal (\<lambda>ids. ids) tape) demo_params k' seed' other_history)"
proof -
  have "legal demo_params other_history Map.empty 0 False" by code_simp
  moreover have "shape demo_params demo_history = shape demo_params other_history" by code_simp
  ultimately show ?thesis
    by (rule oram_oblivious [OF wf_demo(1) demo_aead perm_order_id demo_legal])
qed

text \<open>C8: In every reachable state each admitted block is in exactly one place, the stash or a
  bucket on the path to its mapped leaf, with its logical payload; the backend holds
  exactly the sealed frames of the client's tree under its write counters; and the
  treetop cache mirrors the top of the tree.\<close>

theorem oram_invariant:
  assumes "wf_params p" and "ext_ok X" and "oram_reach X p c V"
  shows "\<exists>T. phys_inv mem_ops mem_view mem_inv X c T \<and> content_inv p T (posmap c) (stash c) V"
  using reach_inv [OF assms(3,1,2)] by (auto simp: oram_inv_def)

theorem oram_invariant_witness:
  "\<exists>c T. phys_inv mem_ops mem_view mem_inv demo_ext c T \<and>
    content_inv demo_params T (posmap c) (stash c) [1 \<mapsto> [9]]"
proof -
  have "lg_content (book_all demo_params demo_history empty_ledger) = [1 \<mapsto> [9]]"
    by (rule ext, code_simp, auto)
  then show ?thesis
    using reach_demo [OF demo_legal wf_demo(1)] oram_invariant [OF wf_demo(1) demo_ext_ok] by metis
qed


definition inline_paths :: "(mem_backend, 'g) oram_client \<Rightarrow> nat" where
  "inline_paths c = (if evict_due c \<and> \<not> defer_evictions c then 2 else 1)"

lemma seen_path_count:
  assumes "wf_params p" and "q < n_leaves p"
  shows "seen_path count_reads (\<lambda>_ n. n) p q n mod 2 ^ 64 = (n + (levels p - treetop_levels p)) mod 2 ^ 64"
  using deep_path_length [OF assms]
  by (auto simp: seen_path_def seen_read_def count_reads_def deep_part_def)


text \<open>A reachable client on which block 1 holds the payload \<open>[7]\<close>.\<close>

lemma demo_client: "oram_reach demo_ext demo_params (demo_run demo_params [Admit 1 [7]]) [1 \<mapsto> [7]]"
proof -
  have "lg_content (book_all demo_params [Admit 1 [7]] empty_ledger) = [1 \<mapsto> [7]]"
    by (rule ext, code_simp)
  then show ?thesis using reach_demo [OF demo_short wf_demo(1)] by simp
qed


section \<open>Write counters\<close>

lemma clock_bumps:
  "ck_bumps (clock_event on_read on_write p e k) + ck_pending (clock_event on_read on_write p e k) \<le>
   ck_bumps k + ck_pending k + 3"
  using mod_less_eq_dividend [of "ck_pending k + 1" "2 ^ 32"]
  by (cases e) (auto simp: tick_def Let_def)

lemma clock_all_bumps:
  "ck_bumps (clock_all on_read on_write p es k) + ck_pending (clock_all on_read on_write p es k) \<le>
   ck_bumps k + ck_pending k + 3 * length es"
proof (induction es arbitrary: k)
  case (Cons e es)
  from Cons [of "clock_event on_read on_write p e k"] clock_bumps [of on_read on_write p e k]
  show ?case by (simp add: clock_all_def)
qed (simp add: clock_all_def)

lemma length_leaks [simp]: "length (leaks p ops l) = length ops"
  by (induction ops arbitrary: l) simp_all



section \<open>Writes, evictions and errors\<close>

text \<open>C10: A write of a known block succeeds and updates the content, except that it may panic,
  with the content unchanged, and only on an access that evicts inline.\<close>

theorem oram_write_or_panic:
  assumes "wf_params p" and "ext_ok X" and "oram_reach X p c V" and "V i = Some v"
    and "length w = block_bytes p"
  shows "\<exists>c'. oram_write mem_ops X i w c = (Inr (), c') \<and> oram_inv mem_ops mem_view mem_inv X c' (V(i \<mapsto> w)) \<or>
    oram_write mem_ops X i w c = (Inl Panic, c') \<and> oram_inv mem_ops mem_view mem_inv X c' V \<and>
      evict_due c \<and> \<not> defer_evictions c"
  using mem.write_or_panic [OF reach_inv(1) [OF assms(3,1,2)] assms(2) reach_inv(2) [OF assms(3,1,2)] assms(4)]
    reach_inv(3) [OF assms(3,1,2)] assms(5) by blast

theorem oram_write_or_panic_witness:
  "let c = demo_run demo_params [Admit 1 [7]] in
   \<exists>c'. oram_write mem_ops demo_ext 1 [9] c = (Inr (), c') \<and>
      oram_inv mem_ops mem_view mem_inv demo_ext c' ([1 \<mapsto> [7]](1 \<mapsto> [9])) \<or>
    oram_write mem_ops demo_ext 1 [9] c = (Inl Panic, c') \<and>
      oram_inv mem_ops mem_view mem_inv demo_ext c' [1 \<mapsto> [7]] \<and> evict_due c \<and> \<not> defer_evictions c"
  using oram_write_or_panic [OF wf_demo(1) demo_ext_ok demo_client, of 1 "[7]" "[9]"]
  by (simp add: Let_def) (simp add: demo_params_def)

text \<open>The panic happens: on a tree with \<open>a = 1\<close>, writing a block that was just admitted
  panics, because the read inside \<open>write\<close> evicts the block before \<open>write\<close> takes it from
  the stash.\<close>

theorem oram_write_panics:
  "\<exists>c. oram_new mem_ops demo_ext (mem_new (num_buckets eager_params)) eager_params [] [] = Inr c \<and>
    fst (run_ops mem_ops demo_ext [Admit 1 [7], Write 1 [9]] c) = [Inr None, Inl Panic]"
proof -
  let ?c = "projr (oram_new mem_ops demo_ext (mem_new (num_buckets eager_params)) eager_params [] [])"
  have "oram_new mem_ops demo_ext (mem_new (num_buckets eager_params)) eager_params [] [] = Inr ?c"
    by code_simp
  moreover have "fst (run_ops mem_ops demo_ext [Admit 1 [7], Write 1 [9]] ?c) = [Inr None, Inl Panic]"
    by code_simp
  ultimately show ?thesis by blast
qed

text \<open>Flushing runs exactly the queued evictions, in cursor order, and leaves none; content,
  position map, generator and access counter are as before.\<close>

theorem oram_flush_drains:
  assumes "wf_params p" and "ext_ok X" and "oram_reach X p c V"
  shows "\<exists>c'. flush_evictions mem_ops X c = (Inr (), c') \<and> pending_evictions c' = 0 \<and>
    oram_inv mem_ops mem_view mem_inv X c' V \<and> posmap c' = posmap c \<and> rng c' = rng c \<and>
    accesses_since_evict c' = accesses_since_evict c \<and>
    evict_cursor c' = next_cursor (n_leaves p) (pending_evictions c) (evict_cursor c)"
  using mem.flush_ok [OF reach_inv(1) [OF assms(3,1,2)] assms(2)] reach_inv(3) [OF assms(3,1,2)] by auto

theorem oram_flush_drains_witness:
  "let c = demo_run demo_params [Admit 1 [7]] in
   \<exists>c'. flush_evictions mem_ops demo_ext c = (Inr (), c') \<and> pending_evictions c' = 0"
  using oram_flush_drains [OF wf_demo(1) demo_ext_ok demo_client] by (auto simp: Let_def)

text \<open>With an eviction interval of zero the eviction loop does not end: no amount of fuel
  lets it return.\<close>

theorem zero_interval_hangs:
  assumes "ring_a (params c) = 0" and "defer_evictions c"
  shows "fst (maybe_evict_loop be X fuel c) = Inl Hang"
  using assms by (induction fuel arbitrary: c) (simp_all add: efault_def)

theorem zero_interval_hangs_witness:
  "fst (maybe_evict_loop mem_ops demo_ext 5
     ((demo_run demo_params [])\<lparr>params := demo_params\<lparr>ring_a := 0\<rparr>, defer_evictions := True\<rparr>)) = Inl Hang"
  by (rule zero_interval_hangs) simp_all



text \<open>When frames no longer authenticate, a read of a known block returns \<open>Corrupted\<close>, and
  the stash, the position map and the stored frames are as before.\<close>

theorem oram_read_corrupted:
  assumes "wf_params p" and "ext_ok X" and "oram_reach X p c V" and "V i = Some v"
  shows "\<exists>c'. oram_read mem_ops (X\<lparr>ext_unseal := \<lambda>_ _ _. None\<rparr>) i c =
      (Inl (Fail (Corrupted AuthenticationFailed)), c') \<and>
    stash c' = stash c \<and> posmap c' = posmap c \<and> counters c' = counters c \<and>
    (\<forall>x < num_buckets p. mem_view (backend c') x = mem_view (backend c) x)"
proof -
  let ?X = "X\<lparr>ext_unseal := \<lambda>_ _ _. None\<rparr>"
  note r = reach_inv [OF assms(3,1,2)]
  obtain T where P: "phys_inv mem_ops mem_view mem_inv X c T"
    and C: "content_inv p T (posmap c) (stash c) V"
    using oram_invariant [OF assms(1-3)] by blast
  obtain q where q: "posmap c i = Some q" using content_invD(2) [OF C] assms(4) by blast
  have qn: "q < n_leaves p" using content_invD(4) [OF C q] .
  let ?ids = "path_buckets q (n_leaves p)"
  have ids: "\<forall>x \<in> set ?ids. x < num_buckets (params c)" using path_in_range [OF assms(1) qn] r(3) by blast
  obtain b where b: "read_path_cached mem_ops ?ids c =
      (Inr (map (\<lambda>x. sealed X (key c) x (counters c ! x) (T x)) ?ids), c\<lparr>backend := b\<rparr>)"
    "phys_inv mem_ops mem_view mem_inv X (c\<lparr>backend := b\<rparr>) T"
    using mem.read_path_cached_ok [OF P ids] by blast
  obtain x xs where x: "?ids = x # xs"
    using length_path [OF assms(1) qn] tree_levels_pos [of "n_leaves p"] by (cases ?ids) (auto simp: levels_def)
  have "absorb_path ?X (\<lambda>e. Fail (Corrupted e)) (map (\<lambda>x. sealed X (key c) x (counters c ! x) (T x)) ?ids)
      (c\<lparr>backend := b\<rparr>) = (Inl (Fail (Corrupted AuthenticationFailed)), c\<lparr>backend := b\<rparr>)"
    by (simp add: x absorb_path_def aes_decrypt_def eseq_def ebind_def eget_def efault_def)
  then have "oram_read mem_ops ?X i c = (Inl (Fail (Corrupted AuthenticationFailed)), c\<lparr>backend := b\<rparr>)"
    using b(1) r(3) q by (simp add: oram_read_def posmap_get_def ebind_step Let_def)
      (simp add: eseq_def ebind_def)
  moreover have "mem_view b y = mem_view (backend c) y" if "y < num_buckets p" for y
    using phys_invD(5) [OF b(2)] phys_invD(5) [OF P] that r(3) by simp
  ultimately show ?thesis by (intro exI [of _ "c\<lparr>backend := b\<rparr>"]) simp
qed

theorem oram_read_corrupted_witness:
  "\<exists>c'. oram_read mem_ops (demo_ext\<lparr>ext_unseal := \<lambda>_ _ _. None\<rparr>) 1 (demo_run demo_params [Admit 1 [7]]) =
      (Inl (Fail (Corrupted AuthenticationFailed)), c')"
  using oram_read_corrupted [OF wf_demo(1) demo_ext_ok demo_client, of 1 "[7]"] by auto

section \<open>Layout and codec\<close>

text \<open>The path of a leaf has one bucket per level; it starts at the root, every bucket is
  the parent of the next, all are in range and strictly increasing.\<close>

theorem path_structure:
  assumes "wf_params p" and "q < n_leaves p"
  shows "length (path_buckets q (n_leaves p)) = levels p \<and> hd (path_buckets q (n_leaves p)) = 0 \<and>
    sorted_wrt (<) (path_buckets q (n_leaves p)) \<and>
    set (path_buckets q (n_leaves p)) \<subseteq> {..<num_buckets p} \<and>
    (\<forall>d. Suc d < levels p \<longrightarrow> path_buckets q (n_leaves p) ! d = (path_buckets q (n_leaves p) ! Suc d - 1) div 2)"
  using length_path [OF assms] root_in_path [OF assms] sorted_path [OF assms]
    path_in_range [OF assms] path_parent [OF assms] by blast

theorem path_structure_witness:
  "path_buckets 1 (n_leaves demo_params) = [0, 2] \<and> levels demo_params = 2 \<and>
    sorted_wrt (<) (path_buckets 1 (n_leaves demo_params)) \<and>
    path_buckets 1 (n_leaves demo_params) ! 0 = (path_buckets 1 (n_leaves demo_params) ! 1 - 1) div 2"
proof -
  have e: "path_buckets 1 (n_leaves demo_params) = [0, 2]" "levels demo_params = 2" by code_simp+
  have "1 < n_leaves demo_params" by (simp add: demo_params_def)
  from path_structure [OF wf_demo(1) this] e show ?thesis by simp
qed

text \<open>A bucket of at most \<open>z + s\<close> blocks of the right size serialises to a frame of fixed
  length, whatever it holds, and deserialises to the same blocks followed by dummies.\<close>

theorem bucket_round_trip:
  assumes "fits p bs" and "length bs \<le> bucket_capacity p"
  shows "\<exists>pt. serialise_bucket bs p = (Inr pt :: (oram_error, bytes) outcome) \<and>
    length pt = bucket_plaintext_size p \<and>
    deserialise_bucket pt p = (Inr (pad_bucket p bs) :: (oram_error, oblock list) outcome)"
proof -
  let ?pt = "concat (map slot_bytes (pad_bucket p bs))"
  have ser: "serialise_bucket bs p = (Inr ?pt :: (oram_error, bytes) outcome)"
    by (rule serialise_bucket_bytes [OF assms])
  have "\<forall>xs \<in> set (map slot_bytes (pad_bucket p bs)). length xs = slot_size p"
    using length_slot_bytes [of p "pad_bucket p bs"] assms(1) by auto
  from length_concat_const [OF this] have "length ?pt = bucket_plaintext_size p"
    using assms(2) by (simp add: bucket_plaintext_size_def)
  with ser deserialise_serialise [OF assms ser] show ?thesis by blast
qed

theorem bucket_round_trip_witness:
  "\<exists>pt. serialise_bucket [\<lparr>ob_id = 1, ob_payload = [7]\<rparr>] demo_params = (Inr pt :: (oram_error, bytes) outcome) \<and>
    deserialise_bucket pt demo_params = (Inr [\<lparr>ob_id = 1, ob_payload = [7]\<rparr>, block_dummy 1] :: (oram_error, oblock list) outcome)"
proof -
  have "fits demo_params [\<lparr>ob_id = 1, ob_payload = [7]\<rparr>]" "bucket_capacity demo_params = 2"
    by (simp_all add: fits_def demo_params_def bucket_capacity_def wadd32_def)
  then show ?thesis
    using bucket_round_trip [of demo_params "[\<lparr>ob_id = 1, ob_payload = [7]\<rparr>]"]
    by (auto simp: pad_bucket_def demo_params_def)
qed

end
