(* ===== verification/Xormm.thy ===== *)
theory Xormm
  imports Oram_Block
begin

text \<open>
  The volume-hiding encrypted multi-map of \<^verbatim>\<open>crates/xormm-emm\<close>: parameters
  (\<^verbatim>\<open>params.rs\<close>), bucket codec (\<^verbatim>\<open>bucket.rs\<close>), byte store
  (\<^verbatim>\<open>backend.rs\<close>), and the client's cuckoo placement and lookups
  (\<^verbatim>\<open>client.rs\<close>).  SHA-256 and AES-GCM are parameters; a logical key is its 32
  bytes.  \<open>usize\<close> arithmetic on \<open>u32\<close> quantities does not overflow 64 bits and is
  modelled by \<open>nat\<close>.
\<close>

section \<open>Parameters and bucket codec\<close>

record xormm_params =
  volume_bound :: nat
  value_bytes :: nat
  xm_n_buckets :: nat
  max_kicks :: nat

definition xm_default_params :: xormm_params where
  "xm_default_params = \<lparr>volume_bound = 64, value_bytes = 32, xm_n_buckets = 1024, max_kicks = 16\<rparr>"

definition xm_bucket_plaintext_size :: "xormm_params \<Rightarrow> nat" where
  "xm_bucket_plaintext_size p = 1 + 32 + 4 + volume_bound p * value_bytes p"

type_synonym logical_key = bytes
type_synonym logical_value = bytes

definition DUMMY_FINGERPRINT :: bytes where
  "DUMMY_FINGERPRINT = replicate 32 255"

record bucket_plain =
  dummy_flag :: u8
  fingerprint :: bytes
  value_count :: nat
  bp_values :: "bytes list"

definition bp_dummy :: "xormm_params \<Rightarrow> bucket_plain" where
  "bp_dummy p = \<lparr>dummy_flag = 1, fingerprint = DUMMY_FINGERPRINT, value_count = 0,
     bp_values = replicate (volume_bound p) (replicate (value_bytes p) 0)\<rparr>"

fun put_values :: "nat \<Rightarrow> nat \<Rightarrow> bytes list \<Rightarrow> bytes \<Rightarrow> ('e, bytes) outcome" where
  "put_values vb i [] buf = Inr buf"
| "put_values vb i (v # vs) buf =
     (if length v \<noteq> vb then Inl Panic
      else rbind (copy_slice (1 + 32 + 4 + i * vb) v buf) (put_values vb (Suc i) vs))"

definition bp_serialise :: "bucket_plain \<Rightarrow> xormm_params \<Rightarrow> ('e, bytes) outcome" where
  "bp_serialise b p =
     (let header = 1 + 32 + 4; vb = value_bytes p; body = volume_bound p * vb in
      rbind (copy_slice 0 [dummy_flag b] (replicate (header + body) 0)) (\<lambda>buf.
      rbind (copy_slice 1 (fingerprint b) buf) (\<lambda>buf.
      rbind (copy_slice 33 (le_bytes 4 (value_count b)) buf) (\<lambda>buf.
      put_values vb 0 (bp_values b) buf))))"

definition bp_deserialise :: "bytes \<Rightarrow> xormm_params \<Rightarrow> ('e, bucket_plain) outcome" where
  "bp_deserialise bs p =
     (let header = 1 + 32 + 4; vb = value_bytes p; vol = volume_bound p in
      if length bs < header + vol * vb then Inl Panic
      else
        rbind (slice 1 32 bs) (\<lambda>fp.
        rbind (slice 33 4 bs) (\<lambda>cnt.
        rbind (rmap (\<lambda>i. slice (header + i * vb) vb bs) [0..<vol]) (\<lambda>vs.
        Inr \<lparr>dummy_flag = hd bs, fingerprint = fp, value_count = of_le_bytes cnt, bp_values = vs\<rparr>))))"

definition xm_make_nonce :: "nat \<Rightarrow> nat \<Rightarrow> bytes" where
  "xm_make_nonce bucket_id generation = le_bytes 4 bucket_id @ le_bytes 4 generation @ replicate 4 0"

definition xm_encrypt :: "seal_fun \<Rightarrow> bytes \<Rightarrow> nat \<Rightarrow> nat \<Rightarrow> bytes \<Rightarrow> bytes" where
  "xm_encrypt seal k bucket_id generation pt = seal k (xm_make_nonce bucket_id generation) pt"

datatype xormm_error = BuildOverflow nat nat nat | ValueTooLong nat nat | XmCorrupted aes_error

definition xm_decrypt :: "unseal_fun \<Rightarrow> bytes \<Rightarrow> nat \<Rightarrow> nat \<Rightarrow> bytes \<Rightarrow> (xormm_error, bytes) outcome" where
  "xm_decrypt unseal k bucket_id generation ct =
     (case unseal k (xm_make_nonce bucket_id generation) ct of
        None \<Rightarrow> Inl (Fail (XmCorrupted AuthenticationFailed)) | Some pt \<Rightarrow> Inr pt)"

definition fingerprint_matches :: "logical_key \<Rightarrow> bytes \<Rightarrow> bool" where
  "fingerprint_matches k fp \<longleftrightarrow> k = fp"

section \<open>The byte store\<close>

record xm_frame =
  xf_bucket_id :: nat
  xf_generation :: nat
  xf_ciphertext :: bytes

record 'b byte_store_ops =
  bs_read :: "nat list \<Rightarrow> 'b \<Rightarrow> (xormm_error, xm_frame list) outcome"
  bs_write :: "xm_frame list \<Rightarrow> ('b, xormm_error, unit) eff"

type_synonym mem_store = "xm_frame list"

definition store_new :: "nat \<Rightarrow> mem_store" where
  "store_new n = map (\<lambda>i. \<lparr>xf_bucket_id = i, xf_generation = 0, xf_ciphertext = []\<rparr>) [0..<n]"

definition store_read :: "nat list \<Rightarrow> mem_store \<Rightarrow> (xormm_error, xm_frame list) outcome" where
  "store_read ids st = rmap (\<lambda>i. if i < length st then Inr (st ! i) else Inl Panic) ids"

definition store_put :: "xm_frame \<Rightarrow> (mem_store, xormm_error, unit) eff" where
  "store_put f = ebind (eget length) (\<lambda>n.
     eseq (eassert (xf_bucket_id f < n)) (emodify (\<lambda>st. st[xf_bucket_id f := f])))"

definition store_write :: "xm_frame list \<Rightarrow> (mem_store, xormm_error, unit) eff" where
  "store_write fs = efor fs store_put"

definition store_num_buckets :: "mem_store \<Rightarrow> nat" where
  "store_num_buckets st = length st mod 2 ^ 32"

definition store_ops :: "mem_store byte_store_ops" where
  "store_ops = \<lparr>bs_read = store_read, bs_write = store_write\<rparr>"

section \<open>Building\<close>

record xm_ext =
  xm_seal :: seal_fun
  xm_unseal :: unseal_fun
  xm_sha256 :: "bytes \<Rightarrow> bytes"

record 'b xormm_client =
  xm_backend :: 'b
  xm_params :: xormm_params
  xm_key :: bytes
  seed1 :: bytes
  seed2 :: bytes
  xm_generation :: nat
  xm_stash :: "(logical_key \<times> bytes list \<times> nat) list"

text \<open>\<open>n = 0\<close> is a division by zero.\<close>

definition hash_bucket :: "xm_ext \<Rightarrow> logical_key \<Rightarrow> bytes \<Rightarrow> nat \<Rightarrow> nat" where
  "hash_bucket X k seed n = of_le_bytes (take 8 (xm_sha256 X (seed @ k))) mod n"

type_synonym xm_entry = "logical_key \<times> bytes list \<times> nat"

fun pad_values :: "xormm_params \<Rightarrow> logical_value list \<Rightarrow> (xormm_error, bytes list) outcome" where
  "pad_values p [] = Inr []"
| "pad_values p (v # vs) =
     (if value_bytes p < length v then Inl (Fail (ValueTooLong (length v) (value_bytes p)))
      else rbind (pad_values p vs) (\<lambda>rest. Inr (resize (value_bytes p) 0 v # rest)))"

definition prepare :: "xormm_params \<Rightarrow> logical_key \<times> logical_value list \<Rightarrow> (xormm_error, xm_entry) outcome" where
  "prepare p e = (case e of (k, vs) \<Rightarrow>
     rbind (pad_values p (take (volume_bound p) vs)) (\<lambda>padded.
     Inr (k, padded @ replicate (volume_bound p - length padded) (replicate (value_bytes p) 0),
          min (length vs) (volume_bound p))))"

text \<open>The displacement loop.  \<open>which = False\<close> tries the first candidate bucket of the
  current entry; every step overwrites a bucket and goes on with the entry it displaced.\<close>

function place_loop :: "nat \<Rightarrow> (logical_key \<Rightarrow> nat) \<Rightarrow> (logical_key \<Rightarrow> nat) \<Rightarrow> nat \<Rightarrow> bool \<Rightarrow> xm_entry \<Rightarrow>
    xm_entry option list \<times> (logical_key \<times> bytes list \<times> nat) list \<Rightarrow>
    xm_entry option list \<times> (logical_key \<times> bytes list \<times> nat) list" where
  "place_loop limit h1 h2 kicks which current (occ, st) =
     (let target = (if which then h2 (fst current) else h1 (fst current));
          occ' = occ[target := Some current] in
      case occ ! target of
        None \<Rightarrow> (occ', st)
      | Some displaced \<Rightarrow>
          (let a = h1 (fst displaced); which' = (target = a); kicks' = Suc kicks in
           if limit < kicks' then (occ', AList.update (fst displaced) (snd displaced) st)
           else place_loop limit h1 h2 kicks' which' displaced (occ', st)))"
  by pat_completeness auto
termination
  by (relation "measure (\<lambda>(limit, h1, h2, kicks, which, current, occ, st). Suc limit - kicks)") auto

declare place_loop.simps [simp del]

definition place_entry :: "nat \<Rightarrow> (logical_key \<Rightarrow> nat) \<Rightarrow> (logical_key \<Rightarrow> nat) \<Rightarrow> xm_entry \<Rightarrow>
    xm_entry option list \<times> (logical_key \<times> bytes list \<times> nat) list \<Rightarrow>
    xm_entry option list \<times> (logical_key \<times> bytes list \<times> nat) list" where
  "place_entry limit h1 h2 = place_loop limit h1 h2 0 False"

definition slot_plain :: "xormm_params \<Rightarrow> xm_entry option \<Rightarrow> bucket_plain" where
  "slot_plain p slot =
     (case slot of
        Some (k, vs, cnt) \<Rightarrow> \<lparr>dummy_flag = 0, fingerprint = k, value_count = cnt, bp_values = vs\<rparr>
      | None \<Rightarrow> bp_dummy p)"

definition seal_slot :: "xm_ext \<Rightarrow> xormm_params \<Rightarrow> bytes \<Rightarrow> nat \<times> xm_entry option \<Rightarrow> (xormm_error, xm_frame) outcome" where
  "seal_slot X p k = (\<lambda>(bid, slot).
     rbind (bp_serialise (slot_plain p slot) p) (\<lambda>pt.
     Inr \<lparr>xf_bucket_id = bid, xf_generation = 1, xf_ciphertext = xm_encrypt (xm_seal X) k bid 1 pt\<rparr>))"

definition xm_build :: "'b byte_store_ops \<Rightarrow> xm_ext \<Rightarrow> (logical_key \<times> logical_value list) list \<Rightarrow>
    xormm_params \<Rightarrow> bytes \<Rightarrow> bytes \<Rightarrow> bytes \<Rightarrow> 'b \<Rightarrow> (xormm_error, 'b xormm_client) outcome" where
  "xm_build be X entries p k s1 s2 b =
     rbind (rmap (prepare p) entries) (\<lambda>prepared.
     let n = xm_n_buckets p in
     if prepared \<noteq> [] \<and> n = 0 then Inl Panic
     else
       (let (occ, st) = fold (place_entry (max_kicks p) (\<lambda>k. hash_bucket X k s1 n) (\<lambda>k. hash_bucket X k s2 n))
                           prepared (replicate n None, []) in
        rbind (rmap (seal_slot X p k) (enumerate 0 occ)) (\<lambda>updates.
        case bs_write be updates b of
          (Inl e, _) \<Rightarrow> Inl e
        | (Inr _, b') \<Rightarrow>
            Inr \<lparr>xm_backend = b', xm_params = p, xm_key = k, seed1 = s1, seed2 = s2, xm_generation = 1,
                 xm_stash = st\<rparr>)))"

section \<open>Lookups\<close>

definition take_real :: "xormm_params \<Rightarrow> bytes list \<Rightarrow> nat \<Rightarrow> logical_value list" where
  "take_real p vs cnt = take (min cnt (volume_bound p)) vs"

definition choose_bucket :: "logical_key \<Rightarrow> bucket_plain \<Rightarrow> bucket_plain \<Rightarrow> bucket_plain option" where
  "choose_bucket k a b =
     (if dummy_flag a = 0 \<and> fingerprint_matches k (fingerprint a) then Some a
      else if dummy_flag b = 0 \<and> fingerprint_matches k (fingerprint b) then Some b
      else None)"

definition open_frame :: "xm_ext \<Rightarrow> 'b xormm_client \<Rightarrow> xm_frame \<Rightarrow> (xormm_error, bytes) outcome" where
  "open_frame X c f = xm_decrypt (xm_unseal X) (xm_key c) (xf_bucket_id f) (xf_generation f) (xf_ciphertext f)"

definition answer :: "xm_ext \<Rightarrow> 'b xormm_client \<Rightarrow> xm_frame list \<Rightarrow> nat \<times> logical_key \<Rightarrow>
    (xormm_error, logical_value list) outcome" where
  "answer X c encrypted = (\<lambda>(i, k).
     if length encrypted \<le> 2 * i + 1 then Inl Panic
     else
       rbind (open_frame X c (encrypted ! (2 * i))) (\<lambda>pt_a.
       rbind (open_frame X c (encrypted ! (2 * i + 1))) (\<lambda>pt_b.
       rbind (bp_deserialise pt_a (xm_params c)) (\<lambda>bp_a.
       rbind (bp_deserialise pt_b (xm_params c)) (\<lambda>bp_b.
       Inr (case choose_bucket k bp_a bp_b of
              Some bp \<Rightarrow> take_real (xm_params c) (bp_values bp) (value_count bp)
            | None \<Rightarrow>
                (case map_of (xm_stash c) k of
                   Some (vs, cnt) \<Rightarrow> take_real (xm_params c) vs cnt
                 | None \<Rightarrow> [])))))))"

definition candidate_ids :: "xm_ext \<Rightarrow> 'b xormm_client \<Rightarrow> logical_key list \<Rightarrow> nat list" where
  "candidate_ids X c ks = (let n = xm_n_buckets (xm_params c) in
     concat (map (\<lambda>k. [hash_bucket X k (seed1 c) n, hash_bucket X k (seed2 c) n]) ks))"

definition xm_get_batch :: "'b byte_store_ops \<Rightarrow> xm_ext \<Rightarrow> 'b xormm_client \<Rightarrow> logical_key list \<Rightarrow>
    (xormm_error, logical_value list list) outcome" where
  "xm_get_batch be X c ks =
     (if ks \<noteq> [] \<and> xm_n_buckets (xm_params c) = 0 then Inl Panic
      else rbind (bs_read be (candidate_ids X c ks) (xm_backend c)) (\<lambda>encrypted.
        rmap (answer X c encrypted) (enumerate 0 ks)))"

definition xm_get :: "'b byte_store_ops \<Rightarrow> xm_ext \<Rightarrow> 'b xormm_client \<Rightarrow> logical_key \<Rightarrow>
    (xormm_error, logical_value list) outcome" where
  "xm_get be X c k = rbind (xm_get_batch be X c [k]) (\<lambda>rs. case rs of [] \<Rightarrow> Inl Panic | r # _ \<Rightarrow> Inr r)"

definition xm_stash_len :: "'b xormm_client \<Rightarrow> nat" where
  "xm_stash_len c = length (xm_stash c)"

end
