(* ===== verification/Xormm_Correct.thy ===== *)
theory Xormm_Correct
  imports Xormm "HOL-Library.Code_Target_Nat"
begin

text \<open>
  Correctness of the encrypted multi-map: the bucket codec round-trips; the displacement
  loop keeps every entry in one of its two candidate buckets or in the stash; so \<open>get\<close>
  after \<open>build\<close> is a lookup in the input; and what the server stores and serves has the
  same shape for every input.
\<close>

section \<open>Bucket codec\<close>

definition bp_fits :: "xormm_params \<Rightarrow> bucket_plain \<Rightarrow> bool" where
  "bp_fits p b \<longleftrightarrow> length (fingerprint b) = 32 \<and> value_count b < 2 ^ 32 \<and>
     length (bp_values b) = volume_bound p \<and> (\<forall>v \<in> set (bp_values b). length v = value_bytes p)"

definition bp_header :: "bucket_plain \<Rightarrow> bytes" where
  "bp_header b = dummy_flag b # fingerprint b @ le_bytes 4 (value_count b)"

lemma put_values_Inr:
  assumes "\<forall>v \<in> set vs. length v = vb" and "length pre = 37 + i * vb"
  shows "(put_values vb i vs (pre @ replicate (length vs * vb) 0) :: ('e, bytes) outcome) = Inr (pre @ concat vs)"
  using assms
proof (induction vs arbitrary: i pre)
  case (Cons v vs)
  have len: "length v = vb" using Cons.prems(1) by simp
  have "copy_slice (1 + 32 + 4 + i * vb) v (pre @ replicate (length (v # vs) * vb) 0) =
      (Inr ((pre @ v) @ replicate (length vs * vb) 0) :: ('e, bytes) outcome)"
    using len Cons.prems(2) by (simp add: copy_slice_def)
  moreover have "(put_values vb (Suc i) vs ((pre @ v) @ replicate (length vs * vb) 0) :: ('e, bytes) outcome) =
      Inr ((pre @ v) @ concat vs)"
    using Cons.prems len by (intro Cons.IH) auto
  ultimately show ?case using len by simp
qed simp

lemma bp_serialise_bytes:
  assumes "bp_fits p b"
  shows "bp_serialise b p = (Inr (bp_header b @ concat (bp_values b)) :: ('e, bytes) outcome)"
proof -
  let ?body = "volume_bound p * value_bytes p"
  have fp: "length (fingerprint b) = 32" and vs: "length (bp_values b) = volume_bound p"
    "\<forall>v \<in> set (bp_values b). length v = value_bytes p"
    using assms by (simp_all add: bp_fits_def)
  let ?buf0 = "replicate (1 + 32 + 4 + ?body) (0::u8)"
  have c0: "copy_slice 0 [dummy_flag b] ?buf0 = (Inr (dummy_flag b # replicate (36 + ?body) 0) :: ('e, bytes) outcome)"
    by (simp add: copy_slice_def)
  have c1: "copy_slice 1 (fingerprint b) (dummy_flag b # replicate (36 + ?body) 0) =
      (Inr (dummy_flag b # fingerprint b @ replicate (4 + ?body) 0) :: ('e, bytes) outcome)"
    using fp by (simp add: copy_slice_def)
  have "copy_slice 33 (le_bytes 4 (value_count b)) (dummy_flag b # fingerprint b @ replicate (4 + ?body) 0) =
      (Inr (bp_header b @ replicate ?body 0) :: ('e, bytes) outcome)"
    using fp by (simp add: copy_slice_def bp_header_def drop_Cons')
  moreover have "(put_values (value_bytes p) 0 (bp_values b) (bp_header b @ replicate ?body 0) :: ('e, bytes) outcome) =
      Inr (bp_header b @ concat (bp_values b))"
    using put_values_Inr [OF vs(2), of "bp_header b" 0] vs(1) fp by (simp add: bp_header_def)
  ultimately show ?thesis
    using c0 c1 by (simp add: bp_serialise_def Let_def)
qed

lemma length_bp_bytes:
  "bp_fits p b \<Longrightarrow> length (bp_header b @ concat (bp_values b)) = xm_bucket_plaintext_size p"
  using length_concat_const [of "bp_values b" "value_bytes p"]
  by (simp add: bp_fits_def bp_header_def xm_bucket_plaintext_size_def)

lemma bp_deserialise_bytes:
  assumes "bp_fits p b"
  shows "bp_deserialise (bp_header b @ concat (bp_values b)) p = (Inr b :: ('e, bucket_plain) outcome)"
proof -
  let ?bs = "bp_header b @ concat (bp_values b)" and ?vb = "value_bytes p"
  have fp: "length (fingerprint b) = 32" and vs: "length (bp_values b) = volume_bound p"
    "\<forall>v \<in> set (bp_values b). length v = ?vb" and cnt: "value_count b < 2 ^ 32"
    using assms by (simp_all add: bp_fits_def)
  have len: "length ?bs = 37 + volume_bound p * ?vb"
    using length_bp_bytes [OF assms] by (simp add: xm_bucket_plaintext_size_def)
  have s1: "slice 1 32 ?bs = (Inr (fingerprint b) :: ('e, bytes) outcome)"
    using len fp by (simp add: slice_def bp_header_def)
  have s2: "slice 33 4 ?bs = (Inr (le_bytes 4 (value_count b)) :: ('e, bytes) outcome)"
    using len fp by (simp add: slice_def bp_header_def drop_Cons')
  have "slice (37 + i * ?vb) ?vb ?bs = (Inr (bp_values b ! i) :: ('e, bytes) outcome)"
    if i: "i < volume_bound p" for i
  proof -
    have "Suc i * ?vb \<le> volume_bound p * ?vb" using i by (intro mult_le_mono1) simp
    moreover have "drop (37 + i * ?vb) ?bs = drop (i * ?vb) (concat (bp_values b))"
      using fp by (simp add: bp_header_def drop_Cons')
    moreover have "take ?vb (drop (i * ?vb) (concat (bp_values b))) = bp_values b ! i"
      using slot_of_concat [OF vs(2), of i "[]"] i vs(1) by simp
    ultimately show ?thesis using len by (simp add: slice_def)
  qed
  then have "rmap (\<lambda>i. slice (37 + i * ?vb) ?vb ?bs) [0..<volume_bound p] =
      (Inr (map ((!) (bp_values b)) [0..<volume_bound p]) :: ('e, bytes list) outcome)"
    by (intro rmap_Inr) simp
  moreover have "map ((!) (bp_values b)) [0..<volume_bound p] = bp_values b"
    using vs(1) map_nth by metis
  moreover have "hd ?bs = dummy_flag b" by (simp add: bp_header_def)
  moreover have "of_le_bytes (le_bytes 4 (value_count b)) = value_count b"
    using cnt by (simp add: of_le_bytes_le_bytes)
  ultimately show ?thesis
    using len s1 s2 by (simp add: bp_deserialise_def Let_def del: length_append)
qed

section \<open>Placement\<close>

definition placed :: "(logical_key \<Rightarrow> nat) \<Rightarrow> (logical_key \<Rightarrow> nat) \<Rightarrow>
    xm_entry option list \<times> (logical_key \<times> bytes list \<times> nat) list \<Rightarrow> xm_entry \<Rightarrow> bool" where
  "placed h1 h2 s e \<longleftrightarrow> fst s ! h1 (fst e) = Some e \<or> fst s ! h2 (fst e) = Some e \<or>
     map_of (snd s) (fst e) = Some (snd e)"

definition only_from :: "xm_entry set \<Rightarrow> xm_entry option list \<times> (logical_key \<times> bytes list \<times> nat) list \<Rightarrow> bool" where
  "only_from E s \<longleftrightarrow> (\<forall>e. Some e \<in> set (fst s) \<longrightarrow> e \<in> E) \<and>
     (\<forall>k v. map_of (snd s) k = Some v \<longrightarrow> (k, v) \<in> E)"

lemma only_fromD:
  "only_from E s \<Longrightarrow> Some e \<in> set (fst s) \<Longrightarrow> e \<in> E"
  "only_from E s \<Longrightarrow> map_of (snd s) k = Some v \<Longrightarrow> (k, v) \<in> E"
  by (simp_all add: only_from_def del: split_paired_All)

lemma place_loop_ok:
  assumes "inj_on fst E" and "current \<in> E" and "only_from E s"
    and "\<forall>e \<in> E - {current}. placed h1 h2 s e" and "\<forall>k. h1 k < n \<and> h2 k < n" and "length (fst s) = n"
  shows "only_from E (place_loop limit h1 h2 kicks which current s) \<and>
    length (fst (place_loop limit h1 h2 kicks which current s)) = n \<and>
    (\<forall>e \<in> E. placed h1 h2 (place_loop limit h1 h2 kicks which current s) e)"
  using assms
proof (induction limit h1 h2 kicks which current s rule: place_loop.induct)
  case (1 limit h1 h2 kicks which current occ st)
  let ?target = "if which then h2 (fst current) else h1 (fst current)"
  let ?occ = "occ[?target := Some current]"
  note prems = 1(2-7)
  have t: "?target < length occ" using prems by simp
  have from': "only_from E (?occ, st)"
    using prems(2,3) t by (auto simp: only_from_def dest: set_update_subset_insert [THEN subsetD])
  have now: "placed h1 h2 (?occ, st) current" using t by (auto simp: placed_def)
  have keep: "placed h1 h2 (?occ, st) e"
    if e: "e \<in> E" "e \<noteq> current" "occ ! ?target \<noteq> Some e" for e
  proof -
    have "?occ ! j = Some e" if "occ ! j = Some e" for j
      using that e(3) by (cases "j = ?target") simp_all
    moreover have "placed h1 h2 (occ, st) e" using prems(4) e(1,2) by blast
    ultimately show ?thesis unfolding placed_def fst_conv snd_conv by blast
  qed
  show ?case
  proof (cases "occ ! ?target")
    case None
    then have run: "place_loop limit h1 h2 kicks which current (occ, st) = (?occ, st)"
      by (subst place_loop.simps) (simp add: Let_def)
    have "\<forall>e \<in> E. placed h1 h2 (?occ, st) e" using keep now None by fastforce
    then show ?thesis unfolding run using from' prems(6) by simp
  next
    case (Some d)
    have "Some d \<in> set occ" using Some t by (metis nth_mem)
    then have d: "d \<in> E" using only_fromD(1) [OF prems(3)] by simp
    have others: "\<forall>e \<in> E - {d}. placed h1 h2 (?occ, st) e" using keep now Some by fastforce
    show ?thesis
    proof (cases "limit < Suc kicks")
      case True
      let ?st = "AList.update (fst d) (snd d) st"
      have run: "place_loop limit h1 h2 kicks which current (occ, st) = (?occ, ?st)"
        using Some True by (subst place_loop.simps) (simp add: Let_def)
      have "only_from E (?occ, ?st)" using from' d by (cases d) (auto simp: only_from_def)
      moreover have "placed h1 h2 (?occ, ?st) e" if "e \<in> E" for e
      proof (cases "e = d")
        case False
        then have "fst e \<noteq> fst d" using that d prems(1) by (auto dest: inj_onD)
        then show ?thesis using others that False by (auto simp: placed_def)
      qed (simp add: placed_def)
      ultimately show ?thesis unfolding run using prems(6) by simp
    next
      case False
      have run: "place_loop limit h1 h2 kicks which current (occ, st) =
          place_loop limit h1 h2 (Suc kicks) (?target = h1 (fst d)) d (?occ, st)"
        using Some False by (subst place_loop.simps) (simp add: Let_def)
      show ?thesis unfolding run
        by (rule 1(1) [OF refl refl Some refl refl refl False prems(1) d from' others prems(5)])
           (use prems(6) in simp)
    qed
  qed
qed

lemma place_all_ok:
  assumes "distinct (map fst es)" and "\<forall>k. h1 k < n \<and> h2 k < n"
  shows "only_from (set es) (fold (place_entry limit h1 h2) es (replicate n None, [])) \<and>
    length (fst (fold (place_entry limit h1 h2) es (replicate n None, []))) = n \<and>
    (\<forall>e \<in> set es. placed h1 h2 (fold (place_entry limit h1 h2) es (replicate n None, [])) e)"
  using assms(1)
proof (induction es rule: rev_induct)
  case Nil
  then show ?case by (auto simp: only_from_def)
next
  case (snoc e es)
  let ?s = "fold (place_entry limit h1 h2) es (replicate n None, [])"
  have IH: "only_from (set es) ?s" "length (fst ?s) = n" "\<forall>e \<in> set es. placed h1 h2 ?s e"
    using snoc by auto
  have "inj_on fst (set (es @ [e]))" using snoc.prems by (simp only: distinct_map)
  moreover have "only_from (set (es @ [e])) ?s" using IH(1) by (auto simp: only_from_def)
  ultimately show ?case
    using place_loop_ok [of "set (es @ [e])" e ?s h1 h2 n limit 0 False] IH assms(2)
    by (auto simp: place_entry_def)
qed

text \<open>Each entry adds at most one key to the stash.\<close>

lemma length_alist_update: "length (AList.update k v al) \<le> Suc (length al)"
  by (induction al) auto

lemma place_loop_stash: "length (snd (place_loop limit h1 h2 kicks which current s)) \<le> Suc (length (snd s))"
proof (induction limit h1 h2 kicks which current s rule: place_loop.induct)
  case (1 limit h1 h2 kicks which current occ st)
  let ?target = "if which then h2 (fst current) else h1 (fst current)"
  show ?case
  proof (cases "occ ! ?target")
    case None
    then show ?thesis by (subst place_loop.simps) (simp add: Let_def)
  next
    case (Some d)
    show ?thesis
    proof (cases "limit < Suc kicks")
      case True
      with Some show ?thesis
        by (subst place_loop.simps) (simp add: Let_def length_alist_update)
    next
      case False
      have "place_loop limit h1 h2 kicks which current (occ, st) =
          place_loop limit h1 h2 (Suc kicks) (?target = h1 (fst d)) d (occ[?target := Some current], st)"
        using Some False by (subst place_loop.simps) (simp add: Let_def)
      then show ?thesis using 1 [OF refl refl Some refl refl refl False] by simp
    qed
  qed
qed

lemma place_all_stash: "length (snd (fold (place_entry limit h1 h2) es s)) \<le> length (snd s) + length es"
proof (induction es arbitrary: s)
  case (Cons e es)
  from Cons [of "place_entry limit h1 h2 e s"] place_loop_stash [of limit h1 h2 0 False e s]
  show ?case by (simp add: place_entry_def)
qed simp

section \<open>The byte store contract\<close>

text \<open>Reads in range return the stored frames in the requested order, writes replace the named
  frames, the last one winning.\<close>

locale byte_store =
  fixes be :: "'b byte_store_ops"
    and stored :: "'b \<Rightarrow> nat \<Rightarrow> xm_frame"
    and store_size :: "'b \<Rightarrow> nat"
  assumes bs_read_ok: "\<forall>i \<in> set ids. i < store_size b \<Longrightarrow>
      bs_read be ids b = Inr (map (stored b) ids)"
    and bs_write_ok: "distinct (map xf_bucket_id fs) \<Longrightarrow> \<forall>f \<in> set fs. xf_bucket_id f < store_size b \<Longrightarrow>
      \<exists>b'. bs_write be fs b = (Inr (), b') \<and> store_size b' = store_size b \<and>
        (\<forall>f \<in> set fs. stored b' (xf_bucket_id f) = f)"

lemma store_write_ok:
  assumes "distinct (map xf_bucket_id fs)" and "\<forall>f \<in> set fs. xf_bucket_id f < length st"
  shows "\<exists>st'. store_write fs st = (Inr (), st') \<and> length st' = length st \<and>
    (\<forall>f \<in> set fs. st' ! xf_bucket_id f = f) \<and>
    (\<forall>i < length st. i \<notin> xf_bucket_id ` set fs \<longrightarrow> st' ! i = st ! i)"
  using assms
proof (induction fs arbitrary: st)
  case Nil
  then show ?case by (simp add: store_write_def ereturn_def)
next
  case (Cons f fs)
  let ?st = "st[xf_bucket_id f := f]"
  obtain st' where st': "store_write fs ?st = (Inr (), st')" "length st' = length st"
    "\<forall>f \<in> set fs. st' ! xf_bucket_id f = f"
    "\<forall>i < length st. i \<notin> xf_bucket_id ` set fs \<longrightarrow> st' ! i = ?st ! i"
    using Cons.IH [of ?st] Cons.prems by auto
  have "store_put f st = (Inr (), ?st)" using Cons.prems by (simp add: store_put_def eff_defs)
  then have "store_write (f # fs) st = (Inr (), st')"
    using st'(1) by (simp add: store_write_def eseq_def ebind_def)
  with st' Cons.prems show ?case by (intro exI [of _ st']) auto
qed

interpretation ram: byte_store store_ops nth length
proof unfold_locales
  fix ids and b :: mem_store
  assume "\<forall>i \<in> set ids. i < length b"
  then show "bs_read store_ops ids b = Inr (map ((!) b) ids)"
    unfolding store_ops_def store_read_def by (simp, intro rmap_Inr) simp
next
  fix fs :: "xm_frame list" and b :: mem_store
  assume "distinct (map xf_bucket_id fs)" "\<forall>f \<in> set fs. xf_bucket_id f < length b"
  from store_write_ok [OF this] show "\<exists>b'. bs_write store_ops fs b = (Inr (), b') \<and> length b' = length b \<and>
      (\<forall>f \<in> set fs. b' ! xf_bucket_id f = f)"
    by (auto simp: store_ops_def)
qed

section \<open>Building and looking up\<close>

definition xm_ok :: "xm_ext \<Rightarrow> bool" where
  "xm_ok X \<longleftrightarrow> aead_roundtrip (xm_seal X) (xm_unseal X)"

text \<open>The input: 32-byte keys, no key twice, and the first \<open>volume_bound\<close> values of each key fit.\<close>

definition xm_input :: "xormm_params \<Rightarrow> (logical_key \<times> logical_value list) list \<Rightarrow> bool" where
  "xm_input p entries \<longleftrightarrow> distinct (map fst entries) \<and>
     (\<forall>(k, vs) \<in> set entries. length k = 32 \<and>
        (\<forall>v \<in> set (take (volume_bound p) vs). length v \<le> value_bytes p))"

definition xm_wf :: "xormm_params \<Rightarrow> bool" where
  "xm_wf p \<longleftrightarrow> 0 < xm_n_buckets p \<and> xm_n_buckets p < 2 ^ 32 \<and> volume_bound p < 2 ^ 32"

definition padded_entry :: "xormm_params \<Rightarrow> logical_key \<times> logical_value list \<Rightarrow> xm_entry" where
  "padded_entry p = (\<lambda>(k, vs). (k,
     map (resize (value_bytes p) 0) (take (volume_bound p) vs) @
       replicate (volume_bound p - length vs) (replicate (value_bytes p) 0),
     min (length vs) (volume_bound p)))"

definition xm_lookup :: "xormm_params \<Rightarrow> (logical_key \<times> logical_value list) list \<Rightarrow> logical_key \<Rightarrow> logical_value list" where
  "xm_lookup p entries k =
     (case map_of entries k of None \<Rightarrow> []
      | Some vs \<Rightarrow> map (resize (value_bytes p) 0) (take (volume_bound p) vs))"

lemma pad_values_Inr:
  "\<forall>v \<in> set vs. length v \<le> value_bytes p \<Longrightarrow> pad_values p vs = Inr (map (resize (value_bytes p) 0) vs)"
  by (induction vs) auto

lemma prepare_Inr:
  "\<forall>v \<in> set (take (volume_bound p) vs). length v \<le> value_bytes p \<Longrightarrow>
   prepare p (k, vs) = Inr (padded_entry p (k, vs))"
  by (simp add: prepare_def padded_entry_def pad_values_Inr min_def)

lemma prepare_all: "xm_input p entries \<Longrightarrow> rmap (prepare p) entries = Inr (map (padded_entry p) entries)"
  by (intro rmap_Inr) (auto simp: xm_input_def intro: prepare_Inr)

lemma fst_padded [simp]: "fst (padded_entry p e) = fst e"
  by (cases e) (simp add: padded_entry_def)

lemma padded_fits:
  assumes "length (fst e) = 32" and "xm_wf p"
  shows "bp_fits p (slot_plain p (Some (padded_entry p e)))"
  using assms by (cases e) (auto simp: bp_fits_def slot_plain_def padded_entry_def xm_wf_def min_def)

lemma dummy_fits: "bp_fits p (bp_dummy p)"
  by (simp add: bp_fits_def bp_dummy_def DUMMY_FINGERPRINT_def)

lemma take_real_padded:
  "take_real p (fst (snd (padded_entry p (k, vs)))) (snd (snd (padded_entry p (k, vs)))) =
   map (resize (value_bytes p) 0) (take (volume_bound p) vs)"
  by (simp add: take_real_def padded_entry_def min_def)

text \<open>What the store holds for bucket \<open>i\<close>.\<close>

definition built_frame :: "xm_ext \<Rightarrow> xormm_params \<Rightarrow> bytes \<Rightarrow> xm_entry option list \<Rightarrow> nat \<Rightarrow> xm_frame" where
  "built_frame X p k occ i = \<lparr>xf_bucket_id = i, xf_generation = 1, xf_ciphertext = xm_encrypt (xm_seal X) k i 1
     (bp_header (slot_plain p (occ ! i)) @ concat (bp_values (slot_plain p (occ ! i))))\<rparr>"

lemma built_frame_id [simp]: "xf_bucket_id (built_frame X p k occ i) = i"
  by (simp add: built_frame_def)

lemma seal_slots:
  assumes "\<forall>slot \<in> set occ. bp_fits p (slot_plain p slot)"
  shows "rmap (seal_slot X p k) (enumerate 0 occ) = Inr (map (built_frame X p k occ) [0..<length occ])"
proof -
  have "rmap (seal_slot X p k) (enumerate 0 occ) =
      Inr (map (\<lambda>(i, slot). built_frame X p k occ i) (enumerate 0 occ))"
  proof (rule rmap_Inr)
    fix e assume "e \<in> set (enumerate 0 occ)"
    then obtain i where i: "i < length occ" "e = (i, occ ! i)"
      by (auto simp: enumerate_eq_zip in_set_zip)
    then have "bp_fits p (slot_plain p (occ ! i))" using assms by simp
    then show "seal_slot X p k e = Inr (case e of (i, slot) \<Rightarrow> built_frame X p k occ i)"
      using i by (simp add: seal_slot_def built_frame_def bp_serialise_bytes)
  qed
  also have "map (\<lambda>(i, slot). built_frame X p k occ i) (enumerate 0 occ) = map (built_frame X p k occ) [0..<length occ]"
    by (rule nth_equalityI) (simp_all add: nth_enumerate_eq)
  finally show ?thesis .
qed

context byte_store begin

definition built :: "xm_ext \<Rightarrow> (logical_key \<times> logical_value list) list \<Rightarrow> xormm_params \<Rightarrow> bytes \<Rightarrow> bytes \<Rightarrow>
    bytes \<Rightarrow> 'b xormm_client \<Rightarrow> xm_entry option list \<Rightarrow> bool" where
  "built X entries p k s1 s2 c occ \<longleftrightarrow> xm_params c = p \<and> xm_key c = k \<and> seed1 c = s1 \<and> seed2 c = s2 \<and>
     xm_generation c = 1 \<and> length (xm_stash c) \<le> length entries \<and>
     store_size (xm_backend c) = xm_n_buckets p \<and> length occ = xm_n_buckets p \<and>
     (\<forall>slot \<in> set occ. bp_fits p (slot_plain p slot)) \<and>
     (\<forall>i < xm_n_buckets p. stored (xm_backend c) i = built_frame X p k occ i) \<and>
     only_from (padded_entry p ` set entries) (occ, xm_stash c) \<and>
     (\<forall>e \<in> set entries. placed (\<lambda>k. hash_bucket X k s1 (xm_n_buckets p)) (\<lambda>k. hash_bucket X k s2 (xm_n_buckets p))
        (occ, xm_stash c) (padded_entry p e))"

lemma build_ok:
  assumes wf: "xm_wf p" and inp: "xm_input p entries" and b: "store_size b = xm_n_buckets p"
  shows "\<exists>c occ. xm_build be X entries p k s1 s2 b = Inr c \<and> built X entries p k s1 s2 c occ"
proof -
  let ?n = "xm_n_buckets p" and ?es = "map (padded_entry p) entries"
  let ?h1 = "\<lambda>k. hash_bucket X k s1 ?n" and ?h2 = "\<lambda>k. hash_bucket X k s2 ?n"
  obtain occ st where s: "fold (place_entry (max_kicks p) ?h1 ?h2) ?es (replicate ?n None, []) = (occ, st)"
    by fastforce
  have dist: "distinct (map fst ?es)" using inp by (simp add: xm_input_def comp_def)
  have h: "\<forall>k. ?h1 k < ?n \<and> ?h2 k < ?n" using wf by (simp add: hash_bucket_def xm_wf_def)
  note P = place_all_ok [OF dist h, of "max_kicks p", unfolded s]
  have fits: "\<forall>slot \<in> set occ. bp_fits p (slot_plain p slot)"
  proof
    fix slot assume slot: "slot \<in> set occ"
    show "bp_fits p (slot_plain p slot)"
    proof (cases slot)
      case None
      then show ?thesis using dummy_fits by (simp add: slot_plain_def)
    next
      case (Some e)
      then have "e \<in> set ?es" using only_fromD(1) [OF conjunct1 [OF P], of e] slot by simp
      then obtain e' where e': "e' \<in> set entries" "e = padded_entry p e'" by auto
      then have "length (fst e') = 32" using inp by (auto simp: xm_input_def)
      with e' Some wf show ?thesis using padded_fits by simp
    qed
  qed
  let ?fs = "map (built_frame X p k occ) [0..<?n]"
  have len: "length occ = ?n" using P by simp
  have ids: "map xf_bucket_id ?fs = [0..<?n]" by (simp add: comp_def)
  obtain b' where b': "bs_write be ?fs b = (Inr (), b')" "store_size b' = store_size b"
    "\<forall>f \<in> set ?fs. stored b' (xf_bucket_id f) = f"
    using bs_write_ok [of ?fs b] b ids by auto
  let ?c = "\<lparr>xm_backend = b', xm_params = p, xm_key = k, seed1 = s1, seed2 = s2, xm_generation = 1, xm_stash = st\<rparr>"
  have "xm_build be X entries p k s1 s2 b = Inr ?c"
    using prepare_all [OF inp] wf s seal_slots [OF fits] len b'(1)
    by (simp add: xm_build_def Let_def xm_wf_def del: fold_map)
  moreover have "length st \<le> length entries"
    using place_all_stash [of "max_kicks p" ?h1 ?h2 ?es "(replicate ?n None, [])"] unfolding s by simp
  then have "built X entries p k s1 s2 ?c occ"
    using P len fits b' b by (simp add: built_def)
  ultimately show ?thesis by blast
qed

lemma open_built:
  assumes X: "xm_ok X" and c: "built X entries p k s1 s2 c occ" and i: "i < xm_n_buckets p"
  shows "\<exists>pt. open_frame X c (stored (xm_backend c) i) = Inr pt \<and>
    bp_deserialise pt p = (Inr (slot_plain p (occ ! i)) :: (xormm_error, bucket_plain) outcome)"
proof -
  let ?b = "slot_plain p (occ ! i)"
  have fits: "bp_fits p ?b" using c i by (simp add: built_def)
  have "open_frame X c (stored (xm_backend c) i) = Inr (bp_header ?b @ concat (bp_values ?b))"
    using X c i by (simp add: built_def open_frame_def built_frame_def xm_decrypt_def xm_encrypt_def
        xm_ok_def aead_roundtrip_def)
  with bp_deserialise_bytes [OF fits] show ?thesis by blast
qed

lemma slot_matches:
  "dummy_flag (slot_plain p slot) = 0 \<and> fingerprint_matches q (fingerprint (slot_plain p slot)) \<longleftrightarrow>
   (\<exists>v. slot = Some (q, v))"
  by (auto simp: slot_plain_def bp_dummy_def fingerprint_matches_def split: option.splits)

lemma found:
  assumes c: "built X entries p k s1 s2 c occ" and inp: "xm_input p entries" and i: "i < xm_n_buckets p"
    and e: "occ ! i = Some (q, v)"
  shows "take_real p (bp_values (slot_plain p (occ ! i))) (value_count (slot_plain p (occ ! i))) =
    xm_lookup p entries q"
proof -
  have "Some (q, v) \<in> set occ" using e i c by (metis built_def nth_mem)
  then have "(q, v) \<in> padded_entry p ` set entries"
    using c only_fromD(1) [of _ "(occ, xm_stash c)"] by (simp add: built_def)
  then obtain vs where vs: "(q, vs) \<in> set entries" "(q, v) = padded_entry p (q, vs)"
    by (auto simp: padded_entry_def)
  then have "map_of entries q = Some vs" using inp by (simp add: xm_input_def)
  moreover have "take_real p (fst v) (snd v) = map (resize (value_bytes p) 0) (take (volume_bound p) vs)"
    using take_real_padded [of p q vs] vs(2) by (metis snd_conv)
  ultimately show ?thesis using e by (cases v) (simp add: xm_lookup_def slot_plain_def)
qed

lemma stash_from:
  assumes "built X entries p k s1 s2 c occ" and "map_of (xm_stash c) q = Some v"
  shows "q \<in> fst ` set entries"
proof -
  have "(q, v) \<in> padded_entry p ` set entries"
    using assms only_fromD(2) [of _ "(occ, xm_stash c)" q v] by (simp add: built_def)
  then show ?thesis by (auto simp: padded_entry_def) force
qed

lemma stash_has:
  assumes c: "built X entries p k s1 s2 c occ" and e: "(q, vs) \<in> set entries"
    and i: "\<nexists>v. occ ! hash_bucket X q s1 (xm_n_buckets p) = Some (q, v)"
    and j: "\<nexists>v. occ ! hash_bucket X q s2 (xm_n_buckets p) = Some (q, v)"
  shows "map_of (xm_stash c) q = Some (snd (padded_entry p (q, vs)))"
proof -
  have "padded_entry p (q, vs) = (q, snd (padded_entry p (q, vs)))" by (simp add: padded_entry_def)
  moreover have "placed (\<lambda>k. hash_bucket X k s1 (xm_n_buckets p)) (\<lambda>k. hash_bucket X k s2 (xm_n_buckets p))
      (occ, xm_stash c) (padded_entry p (q, vs))" using c e unfolding built_def by blast
  ultimately show ?thesis using i j unfolding placed_def by (metis fst_conv snd_conv)
qed

lemma answer_ok:
  assumes X: "xm_ok X" and c: "built X entries p k s1 s2 c occ" and inp: "xm_input p entries"
    and ij: "i = hash_bucket X q s1 (xm_n_buckets p)" "j = hash_bucket X q s2 (xm_n_buckets p)"
    and bound: "i < xm_n_buckets p" "j < xm_n_buckets p"
    and enc: "2 * t + 1 < length encrypted" "encrypted ! (2 * t) = stored (xm_backend c) i"
      "encrypted ! (2 * t + 1) = stored (xm_backend c) j"
  shows "answer X c encrypted (t, q) = Inr (xm_lookup p entries q)"
proof -
  let ?a = "slot_plain p (occ ! i)" and ?b = "slot_plain p (occ ! j)"
  have p: "xm_params c = p" using c by (simp add: built_def)
  obtain pa pb where o: "open_frame X c (stored (xm_backend c) i) = Inr pa"
    "bp_deserialise pa p = (Inr ?a :: (xormm_error, bucket_plain) outcome)"
    "open_frame X c (stored (xm_backend c) j) = Inr pb"
    "bp_deserialise pb p = (Inr ?b :: (xormm_error, bucket_plain) outcome)"
    using open_built [OF X c bound(1)] open_built [OF X c bound(2)] by blast
  have run: "answer X c encrypted (t, q) = Inr (case choose_bucket q ?a ?b of
      Some bp \<Rightarrow> take_real p (bp_values bp) (value_count bp)
    | None \<Rightarrow> (case map_of (xm_stash c) q of Some (vs, cnt) \<Rightarrow> take_real p vs cnt | None \<Rightarrow> []))"
    unfolding answer_def p using o enc by simp
  consider (first) v where "occ ! i = Some (q, v)"
    | (second) v where "\<nexists>v. occ ! i = Some (q, v)" "occ ! j = Some (q, v)"
    | (neither) "\<nexists>v. occ ! i = Some (q, v)" "\<nexists>v. occ ! j = Some (q, v)" by blast
  then show ?thesis
  proof cases
    case first
    then have "choose_bucket q ?a ?b = Some ?a" using slot_matches by (simp add: choose_bucket_def)
    then show ?thesis using run found [OF c inp bound(1) first] by simp
  next
    case second
    then have "choose_bucket q ?a ?b = Some ?b" using slot_matches [of p _ q] by (auto simp: choose_bucket_def)
    then show ?thesis using run found [OF c inp bound(2) second(2)] by simp
  next
    case neither
    then have none: "choose_bucket q ?a ?b = None" using slot_matches [of p _ q] by (auto simp: choose_bucket_def)
    show ?thesis
    proof (cases "map_of entries q")
      case None
      then have "q \<notin> fst ` set entries" by (simp add: map_of_eq_None_iff)
      then have "map_of (xm_stash c) q = None" using stash_from [OF c] by fastforce
      with None none run show ?thesis by (simp add: xm_lookup_def)
    next
      case (Some vs)
      then have "(q, vs) \<in> set entries" by (rule map_of_SomeD)
      then have "map_of (xm_stash c) q = Some (snd (padded_entry p (q, vs)))"
        using stash_has [OF c] neither ij by simp
      with none run Some take_real_padded [of p q vs] show ?thesis
        by (cases "snd (padded_entry p (q, vs))") (simp add: xm_lookup_def)
    qed
  qed
qed

lemma nth_pairs:
  "t < length ks \<Longrightarrow> concat (map (\<lambda>k. [f k, g k]) ks) ! (2 * t) = f (ks ! t) \<and>
   concat (map (\<lambda>k. [f k, g k]) ks) ! (2 * t + 1) = g (ks ! t)"
proof (induction ks arbitrary: t)
  case (Cons k ks)
  then show ?case by (cases t) simp_all
qed simp

lemma length_pairs [simp]: "length (concat (map (\<lambda>k. [f k, g k]) ks)) = 2 * length ks"
  by (induction ks) simp_all

lemma get_batch_ok:
  assumes X: "xm_ok X" and c: "built X entries p k s1 s2 c occ" and inp: "xm_input p entries" and wf: "xm_wf p"
  shows "xm_get_batch be X c ks = Inr (map (xm_lookup p entries) ks)"
proof -
  let ?n = "xm_n_buckets p"
  let ?h1 = "\<lambda>k. hash_bucket X k s1 ?n" and ?h2 = "\<lambda>k. hash_bucket X k s2 ?n"
  have h: "?h1 q < ?n" "?h2 q < ?n" for q using wf by (simp_all add: hash_bucket_def xm_wf_def)
  have ids: "candidate_ids X c ks = concat (map (\<lambda>q. [?h1 q, ?h2 q]) ks)"
    using c by (simp add: candidate_ids_def built_def Let_def)
  let ?ids = "concat (map (\<lambda>q. [?h1 q, ?h2 q]) ks)" and ?v = "stored (xm_backend c)"
  have "\<forall>i \<in> set ?ids. i < store_size (xm_backend c)" using c h by (auto simp: built_def)
  from bs_read_ok [OF this] have read: "bs_read be ?ids (xm_backend c) = Inr (map ?v ?ids)" .
  have "rmap (answer X c (map ?v ?ids)) (enumerate 0 ks) = Inr (map (\<lambda>(t, q). xm_lookup p entries q) (enumerate 0 ks))"
  proof (rule rmap_Inr)
    fix e assume "e \<in> set (enumerate 0 ks)"
    then obtain t where t: "t < length ks" "e = (t, ks ! t)" by (auto simp: enumerate_eq_zip in_set_zip)
    have "2 * t + 1 < length ?ids" using t by simp
    then have "map ?v ?ids ! (2 * t) = ?v (?h1 (ks ! t))" "map ?v ?ids ! (2 * t + 1) = ?v (?h2 (ks ! t))"
      using nth_pairs [OF t(1), of ?h1 ?h2] by (simp_all only: nth_map)
    then show "answer X c (map ?v ?ids) e = Inr (case e of (t, q) \<Rightarrow> xm_lookup p entries q)"
      using answer_ok [OF X c inp refl refl h(1) h(2), of t "map ?v ?ids" "ks ! t"] t by simp
  qed
  moreover have "map (\<lambda>(t, q). xm_lookup p entries q) (enumerate 0 ks) = map (xm_lookup p entries) ks"
    by (rule nth_equalityI) (simp_all add: nth_enumerate_eq)
  ultimately show ?thesis
    using c wf read ids by (simp add: xm_get_batch_def built_def xm_wf_def)
qed

end

section \<open>Properties\<close>

lemma length_store_new [simp]: "length (store_new n) = n"
  by (simp add: store_new_def)

definition xm_demo_ext :: xm_ext where
  "xm_demo_ext = \<lparr>xm_seal = (\<lambda>k n pt. pt), xm_unseal = (\<lambda>k n ct. Some ct), xm_sha256 = (\<lambda>bs. drop 1 bs)\<rparr>"

definition xm_demo_params :: xormm_params where
  "xm_demo_params = \<lparr>volume_bound = 2, value_bytes = 2, xm_n_buckets = 2, max_kicks = 1\<rparr>"

definition demo_key :: "u8 \<Rightarrow> logical_key" where
  "demo_key b = b # replicate 31 0"

text \<open>Three keys over two buckets, so one lands in the stash; the third value of key 1 is
  beyond the volume bound and too long to store.\<close>

definition xm_demo_entries :: "(logical_key \<times> logical_value list) list" where
  "xm_demo_entries = [(demo_key 1, [[7], [8, 9], [1, 2, 3]]), (demo_key 2, []), (demo_key 3, [[5]])]"

lemma xm_demo: "xm_ok xm_demo_ext" "xm_wf xm_demo_params" "xm_input xm_demo_params xm_demo_entries"
  by (simp_all add: xm_ok_def xm_demo_ext_def aead_roundtrip_def xm_wf_def xm_demo_params_def xm_input_def
      xm_demo_entries_def demo_key_def)

lemma ram_build:
  assumes "xm_wf p" and "xm_input p entries" and "length st = xm_n_buckets p"
  obtains c occ where "xm_build store_ops X entries p k s1 s2 st = Inr c" "ram.built X entries p k s1 s2 c occ"
  using ram.build_ok [OF assms] by blast





text \<open>A value among the first \<open>volume_bound\<close> of a key that is longer than \<open>value_bytes\<close> makes
  the build fail with \<open>ValueTooLong\<close>, naming the first such value's length.\<close>

theorem xormm_value_too_long:
  assumes "xm_input p pre" and "take (volume_bound p) vs = good @ v # bad"
    and "\<forall>w \<in> set good. length w \<le> value_bytes p" and "value_bytes p < length v"
  shows "xm_build be X (pre @ (q, vs) # post) p k s1 s2 b = Inl (Fail (ValueTooLong (length v) (value_bytes p)))"
proof -
  have "pad_values p (good @ v # bad) = Inl (Fail (ValueTooLong (length v) (value_bytes p)))"
    using assms(3,4) by (induction good) auto
  then have bad: "prepare p (q, vs) = Inl (Fail (ValueTooLong (length v) (value_bytes p)))"
    using assms(2) by (simp add: prepare_def)
  have good: "prepare p e = Inr (padded_entry p e)" if "e \<in> set pre" for e
    using assms(1) that by (auto simp: xm_input_def intro: prepare_Inr)
  have "rmap (prepare p) (es @ (q, vs) # post) = Inl (Fail (ValueTooLong (length v) (value_bytes p)))"
    if "set es \<subseteq> set pre" for es
    using that by (induction es) (simp_all add: bad good)
  from this [OF order_refl] show ?thesis by (simp add: xm_build_def)
qed

theorem xormm_value_too_long_witness:
  "xm_build store_ops xm_demo_ext (xm_demo_entries @ (demo_key 4, [[1], [1, 2, 3]]) # []) xm_demo_params [] [0] [1]
     (store_new 2) = Inl (Fail (ValueTooLong 3 2))"
  using xormm_value_too_long [OF xm_demo(3), of "[[1], [1, 2, 3]]" "[[1]]" "[1, 2, 3]" "[]" store_ops xm_demo_ext "demo_key 4" "[]"]
  by (simp add: xm_demo_params_def)

text \<open>However full the table is, building never reports \<open>BuildOverflow\<close>: keys that cannot be
  placed go to the stash, which may come to hold up to one key per entry.\<close>

theorem xormm_no_overflow_error:
  assumes "xm_wf p" and "xm_input p entries"
  shows "\<exists>c. xm_build store_ops X entries p k s1 s2 (store_new (xm_n_buckets p)) = Inr c \<and>
    xm_stash_len c \<le> length entries"
  using ram.build_ok [OF assms length_store_new, of X k s1 s2] by (auto simp: ram.built_def xm_stash_len_def)

theorem xormm_no_overflow_error_witness:
  "\<exists>c. xm_build store_ops xm_demo_ext xm_demo_entries xm_demo_params [] [0] [1] (store_new 2) = Inr c \<and>
    xm_stash_len c \<le> 3"
proof -
  have "xm_n_buckets xm_demo_params = 2" "length xm_demo_entries = 3" by code_simp+
  then show ?thesis using xormm_no_overflow_error [OF xm_demo(2,3), of xm_demo_ext "[]" "[0]" "[1]"] by simp
qed

text \<open>Every build seals bucket \<open>i\<close> under generation 1, so rebuilding over the store of an
  earlier build with the same key seals different plaintexts under the same key and nonce.\<close>

theorem xormm_rebuild_reuses_nonces:
  assumes "xm_wf p" and "xm_input p entries" and "xm_input p entries'"
    and "xm_build store_ops X entries p k s1 s2 (store_new (xm_n_buckets p)) = Inr c"
    and "xm_build store_ops X entries' p k s1 s2 (xm_backend c) = Inr c'" and "i < xm_n_buckets p"
  shows "\<exists>pt pt'. xf_ciphertext (xm_backend c ! i) = xm_seal X k (xm_make_nonce i 1) pt \<and>
    xf_ciphertext (xm_backend c' ! i) = xm_seal X k (xm_make_nonce i 1) pt' \<and>
    xm_generation c = 1 \<and> xm_generation c' = 1"
proof -
  obtain occ where o: "ram.built X entries p k s1 s2 c occ"
    using ram.build_ok [OF assms(1,2) length_store_new, of X k s1 s2] assms(4) by auto
  then have "length (xm_backend c) = xm_n_buckets p" by (simp add: ram.built_def)
  from ram.build_ok [OF assms(1,3) this, of X k s1 s2] assms(5)
  obtain occ' where "ram.built X entries' p k s1 s2 c' occ'" by auto
  with o assms(6) show ?thesis by (auto simp: ram.built_def built_frame_def xm_encrypt_def)
qed

theorem xormm_rebuild_reuses_nonces_witness:
  "\<exists>c c'. xm_build store_ops xm_demo_ext [] xm_demo_params [] [0] [1] (store_new 2) = Inr c \<and>
    xm_build store_ops xm_demo_ext xm_demo_entries xm_demo_params [] [0] [1] (xm_backend c) = Inr c' \<and>
    xm_generation c = xm_generation c' \<and> xm_backend c ! 0 \<noteq> xm_backend c' ! 0"
proof -
  let ?c = "projr (xm_build store_ops xm_demo_ext [] xm_demo_params [] [0] [1] (store_new 2))"
  let ?c' = "projr (xm_build store_ops xm_demo_ext xm_demo_entries xm_demo_params [] [0] [1] (xm_backend ?c))"
  have e: "xm_input xm_demo_params []" by (simp add: xm_input_def)
  have c: "xm_build store_ops xm_demo_ext [] xm_demo_params [] [0] [1] (store_new 2) = Inr ?c" by code_simp
  have c': "xm_build store_ops xm_demo_ext xm_demo_entries xm_demo_params [] [0] [1] (xm_backend ?c) = Inr ?c'"
    by code_simp
  have ne: "xf_ciphertext (xm_backend ?c ! 0) \<noteq> xf_ciphertext (xm_backend ?c' ! 0)" by code_simp
  have "xm_n_buckets xm_demo_params = 2" by (simp add: xm_demo_params_def)
  then have "xm_generation ?c = xm_generation ?c'"
    using xormm_rebuild_reuses_nonces [OF xm_demo(2) e xm_demo(3), of xm_demo_ext "[]" "[0]" "[1]" ?c ?c' 0] c c' by auto
  then show ?thesis using c c' ne by metis
qed

end
