(* ===== verification/Compass_Hnsw.thy ===== *)
theory Compass_Hnsw
  imports Prelude
begin

text \<open>
  The plaintext half of the Compass index: node codec (\<^verbatim>\<open>crates/compass-index/src/codec.rs\<close>),
  directional hints (\<^verbatim>\<open>hints.rs\<close>) and the layered HNSW builder
  (\<^verbatim>\<open>hnsw_plain.rs\<close>).  The primitive \<open>f32\<close> operations are fields of a record: the
  definitions use them as the code uses the hardware's, so nothing here depends on
  their rounding, and NaN is just a value that compares false.  The iteration order of
  a binary heap is a parameter as well.
\<close>

unbundle bit_operations_syntax

section \<open>Single-precision floats\<close>

record 'f f32_ops =
  f_lit :: "int \<Rightarrow> 'f"
  f_add :: "'f \<Rightarrow> 'f \<Rightarrow> 'f"
  f_sub :: "'f \<Rightarrow> 'f \<Rightarrow> 'f"
  f_mul :: "'f \<Rightarrow> 'f \<Rightarrow> 'f"
  f_div :: "'f \<Rightarrow> 'f \<Rightarrow> 'f"
  f_max :: "'f \<Rightarrow> 'f \<Rightarrow> 'f"
  f_abs :: "'f \<Rightarrow> 'f"
  f_sqrt :: "'f \<Rightarrow> 'f"
  f_ln :: "'f \<Rightarrow> 'f"
  f_neg :: "'f \<Rightarrow> 'f"
  f_floor :: "'f \<Rightarrow> 'f"
  f_round :: "'f \<Rightarrow> 'f"
  f_clamp :: "'f \<Rightarrow> 'f \<Rightarrow> 'f \<Rightarrow> 'f"
  f_min_positive :: 'f
  f_lt :: "'f \<Rightarrow> 'f \<Rightarrow> bool"
  f_le :: "'f \<Rightarrow> 'f \<Rightarrow> bool"
  f_to_u8 :: "'f \<Rightarrow> u8"
  f_of_u8 :: "u8 \<Rightarrow> 'f"
  f_to_u32 :: "'f \<Rightarrow> nat"
  f_to_le :: "'f \<Rightarrow> bytes"
  f_of_le :: "bytes \<Rightarrow> 'f"

text \<open>\<open>a.partial_cmp(&b).unwrap_or(Equal)\<close> is \<open>Less\<close>, and is \<open>Equal\<close>.\<close>

definition fcmp_eq :: "'f f32_ops \<Rightarrow> 'f \<Rightarrow> 'f \<Rightarrow> bool" where
  "fcmp_eq F a b \<longleftrightarrow> \<not> f_lt F a b \<and> \<not> f_lt F b a"

text \<open>A stable sort with a comparison that is true when the left argument sorts strictly before
  the right one.\<close>

fun insert_by :: "('a \<Rightarrow> 'a \<Rightarrow> bool) \<Rightarrow> 'a \<Rightarrow> 'a list \<Rightarrow> 'a list" where
  "insert_by bef x [] = [x]"
| "insert_by bef x (y # ys) = (if bef y x then y # insert_by bef x ys else x # y # ys)"

definition sort_by :: "('a \<Rightarrow> 'a \<Rightarrow> bool) \<Rightarrow> 'a list \<Rightarrow> 'a list" where
  "sort_by bef xs = foldr (insert_by bef) xs []"

section \<open>Node codec\<close>

record 'f node_block =
  nb_embedding :: "'f list"
  nb_neighbors :: "nat list"

datatype codec_error =
    DimMismatch nat nat
  | NeighborOverflow nat nat
  | BlockTooSmall nat nat nat nat

definition serialised_size :: "nat \<Rightarrow> nat \<Rightarrow> nat" where
  "serialised_size dim max_neighbors = 4 * dim + 4 + 4 * max_neighbors"

fun put_words :: "nat \<Rightarrow> bytes list \<Rightarrow> bytes \<Rightarrow> ('e, bytes) outcome" where
  "put_words off [] out = Inr out"
| "put_words off (w # ws) out = rbind (copy_slice off w out) (put_words (off + 4) ws)"

definition serialise_node :: "'f f32_ops \<Rightarrow> 'f node_block \<Rightarrow> nat \<Rightarrow> nat \<Rightarrow> nat \<Rightarrow> (codec_error, bytes) outcome" where
  "serialise_node F node dim max_neighbors block_bytes =
     (if length (nb_embedding node) \<noteq> dim then Inl (Fail (DimMismatch (length (nb_embedding node)) dim))
      else if max_neighbors < length (nb_neighbors node)
      then Inl (Fail (NeighborOverflow (length (nb_neighbors node)) max_neighbors))
      else
        let need = serialised_size dim max_neighbors in
        if block_bytes < need then Inl (Fail (BlockTooSmall dim max_neighbors need block_bytes))
        else
          rbind (put_words 0 (map (f_to_le F) (nb_embedding node)) (replicate block_bytes 0)) (\<lambda>out.
          rbind (copy_slice (4 * dim) (le_bytes 4 (length (nb_neighbors node))) out) (\<lambda>out.
          put_words (4 * dim + 4) (map (le_bytes 4) (nb_neighbors node)) out)))"

definition deserialise_node :: "'f f32_ops \<Rightarrow> bytes \<Rightarrow> nat \<Rightarrow> nat \<Rightarrow> (codec_error, 'f node_block) outcome" where
  "deserialise_node F bs dim max_neighbors =
     (let need = serialised_size dim max_neighbors in
      if length bs < need then Inl (Fail (BlockTooSmall dim max_neighbors need (length bs)))
      else
        rbind (rmap (\<lambda>i. slice (i * 4) 4 bs) [0..<dim]) (\<lambda>emb.
        rbind (slice (4 * dim) 4 bs) (\<lambda>cnt.
        let count = min (of_le_bytes cnt) max_neighbors in
        rbind (rmap (\<lambda>i. slice (4 * dim + 4 + i * 4) 4 bs) [0..<count]) (\<lambda>nbrs.
        Inr \<lparr>nb_embedding = map (f_of_le F) emb, nb_neighbors = map of_le_bytes nbrs\<rparr>))))"

section \<open>Directional hints\<close>

definition Q_LEVELS :: u8 where
  "Q_LEVELS = 15"

definition quantise_nibble :: "'f f32_ops \<Rightarrow> 'f \<Rightarrow> u8" where
  "quantise_nibble F x =
     (let clamped = f_clamp F x (f_lit F (-1)) (f_lit F 1);
          mapped = f_mul F (f_div F (f_add F clamped (f_lit F 1)) (f_lit F 2)) (f_of_u8 F Q_LEVELS)
      in f_to_u8 F (f_round F mapped) AND 15)"

definition dequantise_nibble :: "'f f32_ops \<Rightarrow> u8 \<Rightarrow> 'f" where
  "dequantise_nibble F q =
     f_sub F (f_mul F (f_div F (f_of_u8 F q) (f_of_u8 F Q_LEVELS)) (f_lit F 2)) (f_lit F 1)"

fun pack_nibbles :: "nat \<Rightarrow> u8 list \<Rightarrow> bytes \<Rightarrow> bytes" where
  "pack_nibbles i [] out = out"
| "pack_nibbles i (q # qs) out =
     pack_nibbles (Suc i) qs
       (out[i div 2 := out ! (i div 2) OR (if even i then q else push_bit 4 q)])"

definition pack_direction :: "'f f32_ops \<Rightarrow> 'f list \<Rightarrow> bytes" where
  "pack_direction F direction =
     (let scale = f_max F (fold (\<lambda>x m. f_max F m x) (map (f_abs F) direction) (f_lit F 0)) (f_min_positive F);
          normed = map (\<lambda>x. f_div F x scale) direction
      in pack_nibbles 0 (map (quantise_nibble F) normed) (replicate ((length normed + 1) div 2) 0))"

definition nibble_at :: "bytes \<Rightarrow> nat \<Rightarrow> u8" where
  "nibble_at packed i = (if even i then packed ! (i div 2) AND 15 else drop_bit 4 (packed ! (i div 2)))"

definition unpack_direction :: "'f f32_ops \<Rightarrow> bytes \<Rightarrow> nat \<Rightarrow> 'f list" where
  "unpack_direction F packed dim = map (\<lambda>i. dequantise_nibble F (nibble_at packed i)) [0..<dim]"

fun score_from :: "'f f32_ops \<Rightarrow> bytes \<Rightarrow> nat \<Rightarrow> 'f list \<Rightarrow> 'f \<Rightarrow> ('e, 'f) outcome" where
  "score_from F packed i [] acc = Inr acc"
| "score_from F packed i (qd # qs) acc =
     (if length packed \<le> i div 2 then Inl Panic
      else score_from F packed (Suc i) qs (f_add F acc (f_mul F (dequantise_nibble F (nibble_at packed i)) qd)))"

definition score_packed :: "'f f32_ops \<Rightarrow> bytes \<Rightarrow> 'f list \<Rightarrow> ('e, 'f) outcome" where
  "score_packed F packed q_dir = score_from F packed 0 q_dir (f_lit F 0)"

section \<open>Distances and candidates\<close>

definition cosine_distance :: "'f f32_ops \<Rightarrow> 'f list \<Rightarrow> 'f list \<Rightarrow> 'f" where
  "cosine_distance F a b =
     (let (dot, na, nb) = fold (\<lambda>(x, y) (dot, na, nb).
            (f_add F dot (f_mul F x y), f_add F na (f_mul F x x), f_add F nb (f_mul F y y)))
            (zip a b) (f_lit F 0, f_lit F 0, f_lit F 0);
          denom = f_mul F (f_sqrt F na) (f_sqrt F nb)
      in if f_le F denom (f_lit F 0) then f_lit F 1 else f_sub F (f_lit F 1) (f_div F dot denom))"

record 'f candidate =
  cd_id :: nat
  cd_dist :: 'f

definition cand_less :: "'f f32_ops \<Rightarrow> 'f candidate \<Rightarrow> 'f candidate \<Rightarrow> bool" where
  "cand_less F a b \<longleftrightarrow> f_lt F (cd_dist a) (cd_dist b) \<or>
     (fcmp_eq F (cd_dist a) (cd_dist b) \<and> cd_id a < cd_id b)"

definition dist_less :: "'f f32_ops \<Rightarrow> 'f candidate \<Rightarrow> 'f candidate \<Rightarrow> bool" where
  "dist_less F a b \<longleftrightarrow> f_lt F (cd_dist a) (cd_dist b)"

text \<open>A binary heap as the list of its elements; popping removes the extreme one.\<close>

fun least :: "('a \<Rightarrow> 'a \<Rightarrow> bool) \<Rightarrow> 'a \<Rightarrow> 'a list \<Rightarrow> 'a" where
  "least bef x [] = x"
| "least bef x (y # ys) = least bef (if bef y x then y else x) ys"

definition pop_least :: "('a \<Rightarrow> 'a \<Rightarrow> bool) \<Rightarrow> 'a list \<Rightarrow> ('a \<times> 'a list) option" where
  "pop_least bef xs = (case xs of [] \<Rightarrow> None | y # ys \<Rightarrow> let m = least bef y ys in Some (m, remove1 m xs))"

definition greatest_of :: "('a \<Rightarrow> 'a \<Rightarrow> bool) \<Rightarrow> 'a list \<Rightarrow> ('a \<times> 'a list) option" where
  "greatest_of bef = pop_least (\<lambda>a b. bef b a)"

section \<open>The layered graph\<close>

record 'f hnsw_params =
  hp_dim :: nat
  max_neighbors_l0 :: nat
  max_neighbors_upper :: nat
  ef_construction :: nat
  hp_ml :: 'f
  build_seed :: bytes
  use_algorithm4 :: bool

definition paper_defaults :: "'f f32_ops \<Rightarrow> nat \<Rightarrow> nat \<Rightarrow> 'f hnsw_params" where
  "paper_defaults F dim m = \<lparr>hp_dim = dim, max_neighbors_l0 = 2 * m, max_neighbors_upper = m,
     ef_construction = 200, hp_ml = f_div F (f_lit F 1) (f_ln F (f_lit F (int m))),
     build_seed = replicate 32 0, use_algorithm4 = True\<rparr>"

record hnsw_graph =
  g_layer0 :: "nat list list"
  g_upper :: "(nat \<times> nat list) list list"

record 'f plain_hnsw =
  ph_params :: "'f hnsw_params"
  ph_embeddings :: "'f list list"
  ph_levels :: "nat list"
  ph_graph :: hnsw_graph
  ph_entry :: nat
  ph_top_layer :: nat

definition at :: "'a list \<Rightarrow> nat \<Rightarrow> ('e, 'a) outcome" where
  "at xs i = (if i < length xs then Inr (xs ! i) else Inl Panic)"

definition neighbours_of :: "nat \<Rightarrow> nat \<Rightarrow> hnsw_graph \<Rightarrow> ('e, nat list) outcome" where
  "neighbours_of i layer g =
     (if layer = 0 then at (g_layer0 g) i
      else rbind (at (g_upper g) (layer - 1)) (\<lambda>m. Inr (case map_of m i of Some ns \<Rightarrow> ns | None \<Rightarrow> [])))"

definition set_neighbours :: "nat \<Rightarrow> nat \<Rightarrow> nat list \<Rightarrow> hnsw_graph \<Rightarrow> ('e, hnsw_graph) outcome" where
  "set_neighbours i layer ns g =
     (if layer = 0 then
        (if i < length (g_layer0 g) then Inr (g\<lparr>g_layer0 := (g_layer0 g)[i := ns]\<rparr>) else Inl Panic)
      else
        (if layer - 1 < length (g_upper g)
         then Inr (g\<lparr>g_upper := (g_upper g)[layer - 1 := AList.update i ns (g_upper g ! (layer - 1))]\<rparr>)
         else Inl Panic))"

text \<open>One round of \<open>greedy_one_hop\<close> over the neighbours of the best node, then the loop until
  nothing improves.\<close>

fun greedy_scan :: "'f f32_ops \<Rightarrow> 'f list list \<Rightarrow> 'f list \<Rightarrow> nat list \<Rightarrow> nat \<times> 'f \<times> bool \<Rightarrow>
    ('e, nat \<times> 'f \<times> bool) outcome" where
  "greedy_scan F embs t [] s = Inr s"
| "greedy_scan F embs t (n # ns) (best, best_dist, improved) =
     rbind (at embs n) (\<lambda>e.
     let d = cosine_distance F t e in
     greedy_scan F embs t ns
       (if f_lt F d best_dist then (n, d, True) else (best, best_dist, improved)))"

fun greedy_loop :: "'f f32_ops \<Rightarrow> 'f list list \<Rightarrow> hnsw_graph \<Rightarrow> nat \<Rightarrow> 'f list \<Rightarrow> nat \<Rightarrow> nat \<times> 'f \<Rightarrow>
    ('e, nat \<times> 'f) outcome" where
  "greedy_loop F embs g layer t 0 s = Inl Hang"
| "greedy_loop F embs g layer t (Suc fuel) s =
     (case s of (best, best_dist) \<Rightarrow>
       rbind (neighbours_of best layer g) (\<lambda>nbrs.
       rbind (greedy_scan F embs t nbrs (best, best_dist, False)) (\<lambda>(best', best_dist', improved).
       if improved then greedy_loop F embs g layer t fuel (best', best_dist')
       else Inr (best', best_dist'))))"

definition greedy_one_hop :: "'f f32_ops \<Rightarrow> 'f list list \<Rightarrow> hnsw_graph \<Rightarrow> nat \<Rightarrow> nat \<Rightarrow> 'f \<Rightarrow> nat \<Rightarrow>
    ('e, nat \<times> 'f) outcome" where
  "greedy_one_hop F embs g target start start_dist layer =
     rbind (at embs target) (\<lambda>t. greedy_loop F embs g layer t (Suc (Suc (length embs))) (start, start_dist))"

text \<open>The state of a beam search: nodes seen, frontier, and the best \<open>ef\<close> found.\<close>

record 'f beam =
  bm_visited :: "nat list"
  bm_candidates :: "'f candidate list"
  bm_top :: "'f candidate list"

definition beam_enter :: "'f f32_ops \<Rightarrow> 'f list list \<Rightarrow> 'f list \<Rightarrow> nat list \<Rightarrow> nat \<Rightarrow> 'f beam \<Rightarrow>
    ('e, 'f beam) outcome" where
  "beam_enter F embs t inserted e b =
     (if e \<notin> set inserted \<or> e \<in> set (bm_visited b) then Inr b
      else rbind (at embs e) (\<lambda>emb.
        let node = \<lparr>cd_id = e, cd_dist = cosine_distance F t emb\<rparr> in
        Inr \<lparr>bm_visited = e # bm_visited b, bm_candidates = node # bm_candidates b, bm_top = node # bm_top b\<rparr>))"

definition beam_offer :: "'f f32_ops \<Rightarrow> nat \<Rightarrow> 'f candidate \<Rightarrow> 'f beam \<Rightarrow> ('e, 'f beam) outcome" where
  "beam_offer F ef node b =
     (if length (bm_top b) < ef
      then Inr (b\<lparr>bm_top := node # bm_top b, bm_candidates := node # bm_candidates b\<rparr>)
      else
        (case greatest_of (cand_less F) (bm_top b) of
           None \<Rightarrow> Inl Panic
         | Some (far, rest) \<Rightarrow>
             if f_lt F (cd_dist node) (cd_dist far)
             then Inr (b\<lparr>bm_top := node # rest, bm_candidates := node # bm_candidates b\<rparr>)
             else Inr b))"

definition beam_visit :: "'f f32_ops \<Rightarrow> 'f list list \<Rightarrow> 'f list \<Rightarrow> nat list \<Rightarrow> nat \<Rightarrow> nat \<Rightarrow> 'f beam \<Rightarrow>
    ('e, 'f beam) outcome" where
  "beam_visit F embs t inserted ef n b =
     (if n \<notin> set inserted \<or> n \<in> set (bm_visited b) then Inr b
      else rbind (at embs n) (\<lambda>emb.
        beam_offer F ef \<lparr>cd_id = n, cd_dist = cosine_distance F t emb\<rparr>
          (b\<lparr>bm_visited := n # bm_visited b\<rparr>)))"

fun rfold :: "('x \<Rightarrow> 's \<Rightarrow> ('e, 's) outcome) \<Rightarrow> 'x list \<Rightarrow> 's \<Rightarrow> ('e, 's) outcome" where
  "rfold f [] s = Inr s"
| "rfold f (x # xs) s = rbind (f x s) (rfold f xs)"

text \<open>Whether the nearest frontier node is already farther than the whole beam.\<close>

definition beam_done :: "'f f32_ops \<Rightarrow> nat \<Rightarrow> 'f candidate \<Rightarrow> 'f candidate list \<Rightarrow> ('e, bool) outcome" where
  "beam_done F ef c best =
     (if ef \<le> length best then
        (case greatest_of (cand_less F) best of
           None \<Rightarrow> Inl Panic
         | Some (far, _) \<Rightarrow> Inr (f_lt F (cd_dist far) (cd_dist c)))
      else Inr False)"

fun beam_loop :: "'f f32_ops \<Rightarrow> 'f list list \<Rightarrow> hnsw_graph \<Rightarrow> nat \<Rightarrow> 'f list \<Rightarrow> nat list \<Rightarrow> nat \<Rightarrow> nat \<Rightarrow>
    'f beam \<Rightarrow> ('e, 'f beam) outcome" where
  "beam_loop F embs g layer t inserted ef 0 b = Inl Hang"
| "beam_loop F embs g layer t inserted ef (Suc fuel) b =
     (case pop_least (cand_less F) (bm_candidates b) of
        None \<Rightarrow> Inr b
      | Some (c, rest) \<Rightarrow>
          rbind (beam_done F ef c (bm_top b)) (\<lambda>stop.
          if stop then Inr (b\<lparr>bm_candidates := rest\<rparr>)
          else
            rbind (neighbours_of (cd_id c) layer g) (\<lambda>nbrs.
            rbind (rfold (beam_visit F embs t inserted ef) nbrs (b\<lparr>bm_candidates := rest\<rparr>))
              (beam_loop F embs g layer t inserted ef fuel))))"

definition beam_search_layer :: "'f f32_ops \<Rightarrow> ('f candidate list \<Rightarrow> 'f candidate list) \<Rightarrow> 'f list list \<Rightarrow>
    hnsw_graph \<Rightarrow> nat \<Rightarrow> nat list \<Rightarrow> nat \<Rightarrow> nat \<Rightarrow> nat list \<Rightarrow> ('e, 'f candidate list) outcome" where
  "beam_search_layer F heap_order embs g target entry_points layer ef inserted =
     rbind (at embs target) (\<lambda>t.
     rbind (rfold (beam_enter F embs t inserted) entry_points \<lparr>bm_visited = [], bm_candidates = [], bm_top = []\<rparr>) (\<lambda>b.
     rbind (beam_loop F embs g layer t inserted ef (Suc (length embs)) b) (\<lambda>b.
     Inr (sort_by (dist_less F) (heap_order (bm_top b))))))"

section \<open>Neighbour selection\<close>

fun diverse :: "'f f32_ops \<Rightarrow> 'f list list \<Rightarrow> 'f list \<Rightarrow> 'f \<Rightarrow> nat list \<Rightarrow> ('e, bool) outcome" where
  "diverse F embs cand_emb cand_dist [] = Inr True"
| "diverse F embs cand_emb cand_dist (s # ss) =
     rbind (at embs s) (\<lambda>s_emb.
     if f_lt F (cosine_distance F cand_emb s_emb) cand_dist then Inr False
     else diverse F embs cand_emb cand_dist ss)"

fun select_walk :: "'f f32_ops \<Rightarrow> 'f list list \<Rightarrow> nat \<Rightarrow> nat \<Rightarrow> 'f candidate list \<Rightarrow> nat list \<Rightarrow> ('e, nat list) outcome" where
  "select_walk F embs q m [] selected = Inr selected"
| "select_walk F embs q m (c # cs) selected =
     (if cd_id c = q then select_walk F embs q m cs selected
      else if m \<le> length selected then Inr selected
      else
        rbind (at embs (cd_id c)) (\<lambda>cand_emb.
        rbind (diverse F embs cand_emb (cd_dist c) selected) (\<lambda>ok.
        select_walk F embs q m cs (if ok then selected @ [cd_id c] else selected))))"

definition algorithm4_select :: "'f f32_ops \<Rightarrow> 'f list list \<Rightarrow> nat \<Rightarrow> 'f candidate list \<Rightarrow> nat \<Rightarrow>
    ('e, nat list) outcome" where
  "algorithm4_select F embs q candidates m =
     rbind (at embs q) (\<lambda>_. select_walk F embs q m (sort_by (dist_less F) candidates) [])"

definition select_neighbours :: "'f f32_ops \<Rightarrow> 'f hnsw_params \<Rightarrow> 'f list list \<Rightarrow> nat \<Rightarrow> 'f candidate list \<Rightarrow> nat \<Rightarrow>
    ('e, nat list) outcome" where
  "select_neighbours F p embs q candidates m =
     (if use_algorithm4 p then algorithm4_select F embs q candidates m
      else Inr (map cd_id (take m (sort_by (dist_less F) candidates))))"

section \<open>Building\<close>

definition max_m :: "'f hnsw_params \<Rightarrow> nat \<Rightarrow> nat" where
  "max_m p l = (if l = 0 then max_neighbors_l0 p else max_neighbors_upper p)"

text \<open>Linking \<open>x\<close> back from a selected neighbour \<open>s\<close>, which is pruned when it has too many.\<close>

definition link_back :: "'f f32_ops \<Rightarrow> 'f hnsw_params \<Rightarrow> 'f list list \<Rightarrow> nat \<Rightarrow> nat \<Rightarrow> nat \<Rightarrow> hnsw_graph \<Rightarrow>
    ('e, hnsw_graph) outcome" where
  "link_back F p embs x l s g =
     rbind (neighbours_of s l g) (\<lambda>old.
     let s_n = old @ [x]; s_max = max_m p l in
     if s_max < length s_n then
       rbind (at embs s) (\<lambda>s_emb.
       rbind (rmap (\<lambda>i. rbind (at embs i) (\<lambda>e. Inr \<lparr>cd_id = i, cd_dist = cosine_distance F s_emb e\<rparr>)) s_n) (\<lambda>cand.
       rbind (select_neighbours F p embs s cand s_max) (\<lambda>pruned.
       set_neighbours s l pruned g)))
     else set_neighbours s l s_n g)"

definition connect_layer :: "'f f32_ops \<Rightarrow> ('f candidate list \<Rightarrow> 'f candidate list) \<Rightarrow> 'f hnsw_params \<Rightarrow>
    'f list list \<Rightarrow> nat list \<Rightarrow> nat \<Rightarrow> nat \<Rightarrow> nat \<Rightarrow> nat list \<times> hnsw_graph \<Rightarrow> ('e, nat list \<times> hnsw_graph) outcome" where
  "connect_layer F heap_order p embs inserted x current l = (\<lambda>(entries, g).
     rbind (beam_search_layer F heap_order embs g x entries l (ef_construction p) inserted) (\<lambda>candidates.
     rbind (select_neighbours F p embs x candidates (max_m p l)) (\<lambda>selected.
     rbind (set_neighbours x l selected g) (\<lambda>g.
     rbind (rfold (link_back F p embs x l) selected g) (\<lambda>g.
     Inr (if selected = [] then [current] else selected, g))))))"

definition insert_node :: "'f f32_ops \<Rightarrow> ('f candidate list \<Rightarrow> 'f candidate list) \<Rightarrow> 'f hnsw_params \<Rightarrow>
    'f list list \<Rightarrow> nat list \<Rightarrow> nat \<Rightarrow> nat \<Rightarrow> nat \<Rightarrow> nat list \<times> hnsw_graph \<Rightarrow> ('e, nat list \<times> hnsw_graph) outcome" where
  "insert_node F heap_order p embs levels entry top_layer x = (\<lambda>(inserted, g).
     rbind (at levels x) (\<lambda>lx.
     if inserted = [] then
       rbind (rfold (\<lambda>l g. set_neighbours x l [] g) [1..<Suc lx] g) (\<lambda>g. Inr ([x], g))
     else
       rbind (at embs x) (\<lambda>x_emb.
       rbind (at embs entry) (\<lambda>entry_emb.
       rbind (rfold (\<lambda>l (cur, d). greedy_one_hop F embs g x cur d l) (rev [Suc lx..<Suc top_layer])
                (entry, cosine_distance F x_emb entry_emb)) (\<lambda>(current, _).
       rbind (rfold (connect_layer F heap_order p embs inserted x current) (rev [0..<Suc lx]) ([current], g)) (\<lambda>(_, g).
       Inr (x # inserted, g)))))))"

definition sample_level :: "'f f32_ops \<Rightarrow> 'f hnsw_params \<Rightarrow> 'f \<Rightarrow> nat" where
  "sample_level F p u = f_to_u32 F (f_floor F (f_mul F (f_neg F (f_ln F u)) (hp_ml p)))"

text \<open>\<open>draws\<close> are the uniform draws of the seeded generator, one per node.\<close>

definition hnsw_build :: "'f f32_ops \<Rightarrow> ('f candidate list \<Rightarrow> 'f candidate list) \<Rightarrow> (bytes \<Rightarrow> nat \<Rightarrow> 'f) \<Rightarrow>
    'f list list \<Rightarrow> 'f hnsw_params \<Rightarrow> ('e, 'f plain_hnsw) outcome" where
  "hnsw_build F heap_order draws embs p =
     (let n = length embs in
      if n = 0 \<or> (\<exists>e \<in> set embs. length e \<noteq> hp_dim p) then Inl Panic
      else
        let levels = map (\<lambda>i. sample_level F p (draws (build_seed p) i)) [0..<n];
            top_layer = fold max levels 0;
            order = sort_by (\<lambda>a b. levels ! b < levels ! a \<or> (levels ! a = levels ! b \<and> a < b)) [0..<n];
            entry = hd order;
            g = \<lparr>g_layer0 = replicate n [], g_upper = replicate top_layer []\<rparr>
        in rbind (rfold (insert_node F heap_order p embs levels entry top_layer) order ([], g)) (\<lambda>(_, g).
           Inr \<lparr>ph_params = p, ph_embeddings = embs, ph_levels = levels, ph_graph = g, ph_entry = entry,
                ph_top_layer = top_layer\<rparr>))"

definition layer0_blocks :: "'f plain_hnsw \<Rightarrow> 'f node_block list" where
  "layer0_blocks h = map (\<lambda>(emb, nb). \<lparr>nb_embedding = emb, nb_neighbors = nb\<rparr>)
     (zip (ph_embeddings h) (g_layer0 (ph_graph h)))"

type_synonym node_hints = "bytes list"

definition layer0_directional_hints :: "'f f32_ops \<Rightarrow> 'f plain_hnsw \<Rightarrow> ('e, node_hints list) outcome" where
  "layer0_directional_hints F h =
     rmap (\<lambda>(x_id, x_emb).
       rbind (at (g_layer0 (ph_graph h)) x_id) (\<lambda>neighbours.
       rmap (\<lambda>n_id. rbind (at (ph_embeddings h) n_id) (\<lambda>n_emb.
         Inr (pack_direction F (map (\<lambda>(n, x). f_sub F n x) (zip n_emb x_emb))))) neighbours))
       (enumerate 0 (ph_embeddings h))"

end
