(* ===== verification/Rust_Text.thy ===== *)
theory Rust_Text
  imports Prelude
begin

text \<open>
  Rust strings as their UTF-8 bytes: validity, the byte order of \<open>str\<close>, trailing NUL bytes,
  and the order-preserving removal of duplicates that the code writes as
  \<^verbatim>\<open>retain(|x| seen.insert(x.clone()))\<close>.
\<close>

type_synonym str = bytes

definition ascii :: "string \<Rightarrow> str" where
  "ascii s = map (\<lambda>c. word_of_nat (of_char c)) s"

section \<open>UTF-8\<close>

definition in_range :: "nat \<Rightarrow> nat \<Rightarrow> u8 \<Rightarrow> bool" where
  "in_range lo hi b \<longleftrightarrow> lo \<le> unat b \<and> unat b \<le> hi"

definition cont_byte :: "u8 \<Rightarrow> bool" where
  "cont_byte = in_range 128 191"

text \<open>The second byte allowed after a leading byte of a 3- or 4-byte sequence.\<close>

definition second_ok :: "u8 \<Rightarrow> u8 \<Rightarrow> bool" where
  "second_ok a b \<longleftrightarrow>
     (if unat a = 224 then in_range 160 191 b
      else if unat a = 237 then in_range 128 159 b
      else if unat a = 240 then in_range 144 191 b
      else if unat a = 244 then in_range 128 143 b
      else cont_byte b)"

text \<open>What follows the first encoded character.\<close>

definition utf8_tail :: "u8 \<Rightarrow> bytes \<Rightarrow> bytes option" where
  "utf8_tail a s =
     (if in_range 0 127 a then Some s
      else if in_range 194 223 a then (case s of b # r \<Rightarrow> if cont_byte b then Some r else None | _ \<Rightarrow> None)
      else if in_range 224 239 a then
        (case s of b # c # r \<Rightarrow> if second_ok a b \<and> cont_byte c then Some r else None | _ \<Rightarrow> None)
      else if in_range 240 244 a then
        (case s of b # c # d # r \<Rightarrow> if second_ok a b \<and> cont_byte c \<and> cont_byte d then Some r else None | _ \<Rightarrow> None)
      else None)"

lemma utf8_tail_length: "utf8_tail a s = Some r \<Longrightarrow> length r \<le> length s"
  by (auto simp: utf8_tail_def split: if_splits list.splits)

lemma utf8_tail_append: "utf8_tail a s = Some r \<Longrightarrow> utf8_tail a (s @ t) = Some (r @ t)"
  by (auto simp: utf8_tail_def split: if_splits list.splits)

function utf8_valid :: "bytes \<Rightarrow> bool" where
  "utf8_valid [] = True"
| "utf8_valid (a # s) = (case utf8_tail a s of None \<Rightarrow> False | Some r \<Rightarrow> utf8_valid r)"
  by pat_completeness auto
termination
  by (relation "measure length") (auto dest: utf8_tail_length)

lemma utf8_valid_append: "utf8_valid a \<Longrightarrow> utf8_valid (a @ b) = utf8_valid b"
proof (induction a rule: utf8_valid.induct)
  case (2 x s)
  then obtain r where r: "utf8_tail x s = Some r" "utf8_valid r" by (auto split: option.splits)
  from 2(1) [OF r(1,2)] utf8_tail_append [OF r(1)] show ?case by simp
qed simp

lemma utf8_valid_ascii_byte: "unat a < 128 \<Longrightarrow> utf8_valid (a # s) = utf8_valid s"
  by (simp add: utf8_tail_def in_range_def)

text \<open>\<open>String::from_utf8(v).ok()\<close>.\<close>

definition from_utf8 :: "bytes \<Rightarrow> str option" where
  "from_utf8 b = (if utf8_valid b then Some b else None)"

section \<open>Order\<close>

fun str_le :: "str \<Rightarrow> str \<Rightarrow> bool" where
  "str_le [] y = True"
| "str_le (a # x) [] = False"
| "str_le (a # x) (b # y) = (a < b \<or> (a = b \<and> str_le x y))"

lemma str_le_total: "str_le x y \<or> str_le y x"
  by (induction x y rule: str_le.induct) auto

lemma str_le_antisym: "str_le x y \<Longrightarrow> str_le y x \<Longrightarrow> x = y"
proof (induction x y rule: str_le.induct)
  case (1 y)
  then show ?case by (cases y) auto
qed auto

section \<open>Padding\<close>

definition strip_trailing_nuls :: "bytes \<Rightarrow> bytes" where
  "strip_trailing_nuls v = rev (dropWhile (\<lambda>b. b = 0) (rev v))"

lemma strip_resize:
  assumes "length s \<le> n" and "s = [] \<or> last s \<noteq> 0"
  shows "strip_trailing_nuls (resize n 0 s) = s"
proof -
  have "resize n 0 s = s @ replicate (n - length s) 0" using assms(1) by (simp add: resize_def)
  moreover have "dropWhile (\<lambda>b. b = 0) (replicate k (0::u8) @ r) = dropWhile (\<lambda>b. b = 0) r" for k r
    by (induction k) auto
  moreover have "dropWhile (\<lambda>b. b = 0) (rev s) = rev s"
    using assms(2) by (cases s rule: rev_cases) auto
  ultimately show ?thesis by (simp add: strip_trailing_nuls_def)
qed

section \<open>Removing duplicates, first occurrence kept\<close>

fun retain_new :: "'a list \<Rightarrow> 'a list \<Rightarrow> 'a list" where
  "retain_new seen [] = []"
| "retain_new seen (x # xs) = (if x \<in> set seen then retain_new seen xs else x # retain_new (x # seen) xs)"

definition retain_first :: "'a list \<Rightarrow> 'a list" where
  "retain_first = retain_new []"

lemma set_retain_new: "set (retain_new seen xs) = set xs - set seen"
  by (induction seen xs rule: retain_new.induct) auto

lemma set_retain_first [simp]: "set (retain_first xs) = set xs"
  by (simp add: retain_first_def set_retain_new)

lemma distinct_retain_new: "distinct (retain_new seen xs)"
  by (induction seen xs rule: retain_new.induct) (auto simp: set_retain_new)

lemma distinct_retain_first [simp]: "distinct (retain_first xs)"
  by (simp add: retain_first_def distinct_retain_new)

section \<open>Maps collected from lists\<close>

text \<open>\<open>iter().collect::<HashMap>()\<close>: a later pair replaces an earlier one with its key.\<close>

definition collect_map :: "('k \<times> 'v) list \<Rightarrow> 'k \<Rightarrow> 'v option" where
  "collect_map kvs = map_of (rev kvs)"

text \<open>\<open>entry(k).or_default().push(v)\<close> and \<open>entry(k).or_default().extend(vs)\<close>.\<close>

definition entry_append :: "'k \<Rightarrow> 'v list \<Rightarrow> ('k \<times> 'v list) list \<Rightarrow> ('k \<times> 'v list) list" where
  "entry_append k vs m = AList.update k ((case map_of m k of None \<Rightarrow> [] | Some old \<Rightarrow> old) @ vs) m"

lemma map_of_entry_append:
  "map_of (entry_append k vs m) = (map_of m)(k \<mapsto> (case map_of m k of None \<Rightarrow> [] | Some old \<Rightarrow> old) @ vs)"
  by (simp add: entry_append_def)

lemma distinct_entry_append: "distinct (map fst m) \<Longrightarrow> distinct (map fst (entry_append k vs m))"
  by (simp add: entry_append_def distinct_update)

end
