(* ===== verification/Compass_Search.thy ===== *)
theory Compass_Search
  imports Compass_Hnsw Oram_Client Rust_Text
begin

text \<open>
  The encrypted half of the Compass index: \<^verbatim>\<open>crates/compass-index/src/index.rs\<close> and
  \<^verbatim>\<open>search.rs\<close>.  The bottom layer lives in a Ring-ORAM, one node per block; the
  upper layers, the hints and the parameters stay in clear inside the enclave.  The
  search body is written over the function that fetches a node, so that the same text is
  the encrypted search (\<open>read_layer0_node\<close>) and the search of the plaintext graph
  (\<open>plain_node\<close>).
\<close>

record 'f compass_params =
  cp_hnsw :: "'f hnsw_params"
  cp_oram :: ring_oram_params
  cp_ef_search :: nat
  cp_ef_n :: nat

definition compass_default_params :: "'f f32_ops \<Rightarrow> 'f compass_params" where
  "compass_default_params F = \<lparr>cp_hnsw = paper_defaults F 128 16,
     cp_oram = \<lparr>ring_z = 4, ring_s = 5, ring_a = 3, block_bytes = 1024, n_leaves = 2048, treetop_levels = 4\<rparr>,
     cp_ef_search = 64, cp_ef_n = 4\<rparr>"

datatype compass_error = CxOram oram_error | CxCodec codec_error | MissingEntry

type_synonym 'f upper_layer = "(nat \<times> 'f list \<times> nat list) list"

text \<open>The part of the index that never reaches the storage server.\<close>

record 'f compass_clear =
  cx_params :: "'f compass_params"
  cx_entry :: nat
  cx_top_layer :: nat
  cx_upper :: "'f upper_layer list"
  cx_hints :: "node_hints list"

record ('b, 'g, 'f) compass_index =
  cx_oram :: "('b, 'g) oram_client"
  cx_clear :: "'f compass_clear"
  cx_read_count :: nat

definition with_oram :: "('b, 'g, 'a) oram \<Rightarrow> (('b, 'g, 'f) compass_index, compass_error, 'a) eff" where
  "with_oram m = (\<lambda>idx. let (r, c) = m (cx_oram idx) in (fail_as CxOram r, idx\<lparr>cx_oram := c\<rparr>))"

section \<open>Building\<close>

definition build_upper_layer_cache :: "'f plain_hnsw \<Rightarrow> ('e, 'f upper_layer list) outcome" where
  "build_upper_layer_cache h =
     rmap (rmap (\<lambda>(i, ns). rbind (at (ph_embeddings h) i) (\<lambda>emb. Inr (i, emb, ns)))) (g_upper (ph_graph h))"

definition derive_test_key :: "(bytes \<Rightarrow> bytes) \<Rightarrow> bytes \<Rightarrow> bytes \<Rightarrow> bytes" where
  "derive_test_key sha256 seed label = sha256 (seed @ label)"

definition admit_node :: "'b backend_ops \<Rightarrow> 'g oram_ext \<Rightarrow> 'f f32_ops \<Rightarrow> 'f compass_params \<Rightarrow>
    nat \<times> 'f node_block \<Rightarrow> (('b, 'g) oram_client, compass_error, unit) eff" where
  "admit_node be X F p = (\<lambda>(i, node).
     let node = node\<lparr>nb_neighbors := take (max_neighbors_l0 (cp_hnsw p)) (nb_neighbors node)\<rparr> in
     ebind (elift (fail_as CxCodec (serialise_node F node (hp_dim (cp_hnsw p)) (max_neighbors_l0 (cp_hnsw p))
                     (block_bytes (cp_oram p))))) (\<lambda>bs.
     \<lambda>c. let (r, c') = oram_admit be X (word_of_nat i) bs c in (fail_as CxOram r, c')))"

definition from_plaintext_corpus_on :: "'b backend_ops \<Rightarrow> 'g oram_ext \<Rightarrow> 'f f32_ops \<Rightarrow> (bytes \<Rightarrow> bytes) \<Rightarrow>
    ('f candidate list \<Rightarrow> 'f candidate list) \<Rightarrow> (bytes \<Rightarrow> nat \<Rightarrow> 'f) \<Rightarrow> 'f list list \<Rightarrow> 'f compass_params \<Rightarrow> 'b \<Rightarrow>
    (compass_error, ('b, 'g, 'f) compass_index) outcome" where
  "from_plaintext_corpus_on be X F sha256 heap_order draws embs p b =
     rbind (hnsw_build F heap_order draws embs (cp_hnsw p)) (\<lambda>h.
     let seed = build_seed (ph_params h);
         k = derive_test_key sha256 seed (ascii ''oram-key'');
         rng_seed = derive_test_key sha256 seed (ascii ''oram-rng'') in
     rbind (fail_as CxOram (oram_new be X b (cp_oram p) k rng_seed)) (\<lambda>c.
     rbind (build_upper_layer_cache h) (\<lambda>upper.
     rbind (layer0_directional_hints F h) (\<lambda>hints.
     case efor (enumerate 0 (layer0_blocks h)) (admit_node be X F p) c of
       (Inl e, _) \<Rightarrow> Inl e
     | (Inr _, c) \<Rightarrow>
         Inr \<lparr>cx_oram = c,
              cx_clear = \<lparr>cx_params = p, cx_entry = ph_entry h, cx_top_layer = ph_top_layer h,
                          cx_upper = upper, cx_hints = hints\<rparr>,
              cx_read_count = 0\<rparr>))))"

definition from_plaintext_corpus :: "'g oram_ext \<Rightarrow> 'f f32_ops \<Rightarrow> (bytes \<Rightarrow> bytes) \<Rightarrow>
    ('f candidate list \<Rightarrow> 'f candidate list) \<Rightarrow> (bytes \<Rightarrow> nat \<Rightarrow> 'f) \<Rightarrow> 'f list list \<Rightarrow> 'f compass_params \<Rightarrow>
    (compass_error, (mem_backend, 'g, 'f) compass_index) outcome" where
  "from_plaintext_corpus X F sha256 heap_order draws embs p =
     from_plaintext_corpus_on mem_ops X F sha256 heap_order draws embs p (mem_new (num_buckets (cp_oram p)))"

definition read_layer0_node :: "'b backend_ops \<Rightarrow> 'g oram_ext \<Rightarrow> 'f f32_ops \<Rightarrow> nat \<Rightarrow>
    (('b, 'g, 'f) compass_index, compass_error, 'f node_block) eff" where
  "read_layer0_node be X F i =
     ebind (with_oram (oram_read be X (word_of_nat i))) (\<lambda>bs.
     ebind (eget (\<lambda>idx. cp_hnsw (cx_params (cx_clear idx)))) (\<lambda>p.
     ebind (elift (fail_as CxCodec (deserialise_node F bs (hp_dim p) (max_neighbors_l0 p)))) (\<lambda>node.
     eseq (emodify (\<lambda>idx. idx\<lparr>cx_read_count := (cx_read_count idx + 1) mod 2 ^ 64\<rparr>))
       (ereturn node))))"

section \<open>Descending the upper layers\<close>

definition upper_layer_embedding :: "'f compass_clear \<Rightarrow> nat \<Rightarrow> nat \<Rightarrow> 'f list option" where
  "upper_layer_embedding cx i layer =
     (if layer = 0 \<or> length (cx_upper cx) \<le> layer - 1 then None
      else map_option fst (map_of (cx_upper cx ! (layer - 1)) i))"

definition upper_layer_neighbours :: "'f compass_clear \<Rightarrow> nat \<Rightarrow> nat \<Rightarrow> nat list" where
  "upper_layer_neighbours cx i layer =
     (if layer = 0 \<or> length (cx_upper cx) \<le> layer - 1 then []
      else case map_of (cx_upper cx ! (layer - 1)) i of Some (_, ns) \<Rightarrow> ns | None \<Rightarrow> [])"

fun descend_scan :: "'f f32_ops \<Rightarrow> 'f compass_clear \<Rightarrow> 'f list \<Rightarrow> nat \<Rightarrow> nat list \<Rightarrow> nat \<times> 'f \<times> bool \<Rightarrow>
    nat \<times> 'f \<times> bool" where
  "descend_scan F cx q l [] s = s"
| "descend_scan F cx q l (n # ns) (current, cur_dist, improved) =
     descend_scan F cx q l ns
       (case upper_layer_embedding cx n l of
          None \<Rightarrow> (current, cur_dist, improved)
        | Some emb \<Rightarrow>
            let d = cosine_distance F q emb in
            if f_lt F d cur_dist then (n, d, True) else (current, cur_dist, improved))"

fun descend_loop :: "'f f32_ops \<Rightarrow> 'f compass_clear \<Rightarrow> 'f list \<Rightarrow> nat \<Rightarrow> nat \<Rightarrow> nat \<times> 'f \<Rightarrow> ('e, nat \<times> 'f) outcome" where
  "descend_loop F cx q l 0 s = Inl Hang"
| "descend_loop F cx q l (Suc fuel) s =
     (case s of (current, cur_dist) \<Rightarrow>
      case descend_scan F cx q l (upper_layer_neighbours cx current l) (current, cur_dist, False) of
        (current', cur_dist', improved) \<Rightarrow>
          if improved then descend_loop F cx q l fuel (current', cur_dist')
          else Inr (current', cur_dist'))"

section \<open>The search body\<close>

definition score_neighbours :: "'f f32_ops \<Rightarrow> 'f list \<Rightarrow> (nat \<times> bytes) list \<Rightarrow> ('e, ('f \<times> nat) list) outcome" where
  "score_neighbours F q_dir = rmap (\<lambda>(nb, packed). rbind (score_packed F packed q_dir) (\<lambda>s. Inr (s, nb)))"

definition directional_filter :: "'f f32_ops \<Rightarrow> 'f compass_clear \<Rightarrow> 'f list \<Rightarrow> nat \<Rightarrow> 'f node_block \<Rightarrow>
    ('e, nat list) outcome" where
  "directional_filter F cx q i node =
     (let ef_n = cp_ef_n (cx_params cx) in
      if length (nb_neighbors node) \<le> ef_n then Inr (nb_neighbors node)
      else
        let q_dir = map (\<lambda>(a, b). f_sub F a b) (zip q (nb_embedding node)) in
        rbind (at (cx_hints cx) i) (\<lambda>hints.
        rbind (score_neighbours F q_dir (zip (nb_neighbors node) hints)) (\<lambda>scored.
        Inr (map snd (take ef_n (sort_by (\<lambda>a b. f_lt F (fst b) (fst a)) scored))))))"

text \<open>\<open>rd\<close> fetches a node of the bottom layer.\<close>

definition visit_neighbour :: "'f f32_ops \<Rightarrow> (nat \<Rightarrow> ('s, 'e, 'f node_block) eff) \<Rightarrow> 'f list \<Rightarrow> nat \<Rightarrow> nat \<Rightarrow>
    'f beam \<Rightarrow> ('s, 'e, 'f beam) eff" where
  "visit_neighbour F rd q ef nb b =
     (if nb \<in> set (bm_visited b) then ereturn b
      else ebind (rd nb) (\<lambda>node.
        elift (beam_offer F ef \<lparr>cd_id = nb, cd_dist = cosine_distance F q (nb_embedding node)\<rparr>
          (b\<lparr>bm_visited := nb # bm_visited b\<rparr>))))"

fun search_loop :: "'f f32_ops \<Rightarrow> 'f compass_clear \<Rightarrow> (nat \<Rightarrow> ('s, 'e, 'f node_block) eff) \<Rightarrow> 'f list \<Rightarrow> nat \<Rightarrow> nat \<Rightarrow>
    'f beam \<Rightarrow> ('s, 'e, 'f beam) eff" where
  "search_loop F cx rd q ef 0 b = efault Hang"
| "search_loop F cx rd q ef (Suc fuel) b =
     (case pop_least (cand_less F) (bm_candidates b) of
        None \<Rightarrow> ereturn b
      | Some (c, rest) \<Rightarrow>
          ebind (elift (beam_done F ef c (bm_top b))) (\<lambda>stop.
          if stop then ereturn (b\<lparr>bm_candidates := rest\<rparr>)
          else
            ebind (rd (cd_id c)) (\<lambda>node.
            ebind (elift (directional_filter F cx q (cd_id c) node)) (\<lambda>fetch.
            ebind (efold (visit_neighbour F rd q ef) fetch (b\<lparr>bm_candidates := rest\<rparr>))
              (search_loop F cx rd q ef fuel)))))"

definition layered_search_inner :: "'f f32_ops \<Rightarrow> ('f candidate list \<Rightarrow> 'f candidate list) \<Rightarrow> 'f compass_clear \<Rightarrow>
    (nat \<Rightarrow> ('s, 'e, 'f node_block) eff) \<Rightarrow> 'f list \<Rightarrow> nat \<Rightarrow> ('s, 'e, nat list) eff" where
  "layered_search_inner F heap_order cx rd q k =
     ebind (if cx_top_layer cx = 0
            then ebind (rd (cx_entry cx)) (\<lambda>node. ereturn (cosine_distance F q (nb_embedding node)))
            else (case upper_layer_embedding cx (cx_entry cx) (cx_top_layer cx) of
                    None \<Rightarrow> efault Panic
                  | Some emb \<Rightarrow> ereturn (cosine_distance F q emb))) (\<lambda>d0.
     ebind (elift (rfold (\<lambda>l. descend_loop F cx q l (Suc (Suc (length (cx_hints cx)))))
                     (rev [1..<Suc (cx_top_layer cx)]) (cx_entry cx, d0))) (\<lambda>(current, cur_dist).
     let ef = max (cp_ef_search (cx_params cx)) k;
         entry_cand = \<lparr>cd_id = current, cd_dist = cur_dist\<rparr> in
     ebind (search_loop F cx rd q ef (Suc (length (cx_hints cx)))
              \<lparr>bm_visited = [current], bm_candidates = [entry_cand], bm_top = [entry_cand]\<rparr>) (\<lambda>b.
     ereturn (map cd_id (take k (sort_by (cand_less F) (heap_order (bm_top b))))))))"

text \<open>Evictions are deferred during the body and flushed after it, whether or not it failed;
  the body's error wins over the flush's.  A panic unwinds past the flush.\<close>

definition layered_search :: "'b backend_ops \<Rightarrow> 'g oram_ext \<Rightarrow> 'f f32_ops \<Rightarrow>
    ('f candidate list \<Rightarrow> 'f candidate list) \<Rightarrow> 'f list \<Rightarrow> nat \<Rightarrow>
    (('b, 'g, 'f) compass_index, compass_error, nat list) eff" where
  "layered_search be X F heap_order q k =
     ebind (eget cx_clear) (\<lambda>cx.
     eseq (eassert (length q = hp_dim (cp_hnsw (cx_params cx))))
     (eseq (with_oram (set_defer_evictions True))
     (\<lambda>idx. case layered_search_inner F heap_order cx (read_layer0_node be X F) q k idx of
        (Inl Panic, idx') \<Rightarrow> (Inl Panic, idx')
      | (Inl Hang, idx') \<Rightarrow> (Inl Hang, idx')
      | (result, idx') \<Rightarrow>
          (case eseq (with_oram (set_defer_evictions False)) (with_oram (flush_evictions be X)) idx' of
             (Inl Panic, idx'') \<Rightarrow> (Inl Panic, idx'')
           | (Inl Hang, idx'') \<Rightarrow> (Inl Hang, idx'')
           | (flush, idx'') \<Rightarrow>
               (case (result, flush) of
                  (Inr r, Inr _) \<Rightarrow> Inr r
                | (Inl e, _) \<Rightarrow> Inl e
                | (Inr _, Inl e) \<Rightarrow> Inl e, idx'')))))"

definition search :: "'b backend_ops \<Rightarrow> 'g oram_ext \<Rightarrow> 'f f32_ops \<Rightarrow>
    ('f candidate list \<Rightarrow> 'f candidate list) \<Rightarrow> 'f list \<Rightarrow> nat \<Rightarrow>
    (('b, 'g, 'f) compass_index, compass_error, nat list) eff" where
  "search = layered_search"

definition layer0_read_count :: "('b, 'g, 'f) compass_index \<Rightarrow> nat" where
  "layer0_read_count = cx_read_count"

section \<open>The plaintext reference\<close>

definition plain_node :: "'f plain_hnsw \<Rightarrow> nat \<Rightarrow> (unit, compass_error, 'f node_block) eff" where
  "plain_node h i = elift (at (layer0_blocks h) i)"

definition plain_search :: "'f f32_ops \<Rightarrow> ('f candidate list \<Rightarrow> 'f candidate list) \<Rightarrow> 'f compass_clear \<Rightarrow>
    'f plain_hnsw \<Rightarrow> 'f list \<Rightarrow> nat \<Rightarrow> (compass_error, nat list) outcome" where
  "plain_search F heap_order cx h q k = fst (layered_search_inner F heap_order cx (plain_node h) q k ())"

end
