(* ===== verification/Compass_Hnsw_Correct.thy ===== *)
theory Compass_Hnsw_Correct
  imports Compass_Hnsw "HOL-Library.Multiset"
begin

text \<open>
  Lemmas on the plaintext half of the Compass index: the node codec and the hint codec
  round-trip; the selection rule returns a bounded, diverse set; and the builder
  returns, without a panic or an endless loop, a graph whose neighbour lists are in
  range and within the degree bound of their layer.
\<close>

section \<open>Results of outcome computations\<close>

definition ret :: "('e, 'a) outcome \<Rightarrow> ('a \<Rightarrow> bool) \<Rightarrow> bool" where
  "ret m Q \<longleftrightarrow> (\<exists>x. m = Inr x \<and> Q x)"

lemma ret_Inr [simp]: "ret (Inr x) Q = Q x"
  by (simp add: ret_def)

lemma ret_Inl [simp]: "\<not> ret (Inl e) Q"
  by (simp add: ret_def)

lemma ret_rbind: "ret m R \<Longrightarrow> (\<And>x. R x \<Longrightarrow> ret (k x) Q) \<Longrightarrow> ret (rbind m k) Q"
  by (auto simp: ret_def)

lemma ret_weaken: "ret m R \<Longrightarrow> (\<And>x. R x \<Longrightarrow> Q x) \<Longrightarrow> ret m Q"
  by (auto simp: ret_def)

lemma ret_rfold:
  assumes "\<And>x s. x \<in> set xs \<Longrightarrow> I s \<Longrightarrow> ret (f x s) I" and "I s"
  shows "ret (rfold f xs s) I"
  using assms
proof (induction xs arbitrary: s)
  case (Cons x xs)
  show ?case unfolding rfold.simps
    by (rule ret_rbind [where R = I]) (use Cons in auto)
qed simp

lemma ret_rmap:
  assumes "\<And>x. x \<in> set xs \<Longrightarrow> ret (f x) R"
  shows "ret (rmap f xs) (\<lambda>ys. length ys = length xs \<and> (\<forall>y \<in> set ys. R y))"
  using assms
proof (induction xs)
  case (Cons x xs)
  have "ret (rmap f xs) (\<lambda>ys. length ys = length xs \<and> (\<forall>y \<in> set ys. R y))" using Cons by simp
  moreover have "ret (f x) R" using Cons.prems by simp
  ultimately show ?case unfolding rmap.simps by (auto intro!: ret_rbind)
qed simp

lemma ret_at: "i < length xs \<Longrightarrow> Q (xs ! i) \<Longrightarrow> ret (at xs i) Q"
  by (simp add: at_def)

section \<open>Sorting and heaps\<close>

lemma mset_insert_by [simp]: "mset (insert_by bef x xs) = add_mset x (mset xs)"
  by (induction xs) auto

lemma mset_sort_by [simp]: "mset (sort_by bef xs) = mset xs"
  unfolding sort_by_def by (induction xs) auto

lemma set_sort_by [simp]: "set (sort_by bef xs) = set xs"
  by (metis mset_sort_by set_mset_mset)

lemma length_sort_by [simp]: "length (sort_by bef xs) = length xs"
  by (metis mset_sort_by size_mset)

lemma least_in: "least bef x xs \<in> set (x # xs)"
  by (induction xs arbitrary: x) auto

lemma pop_least_Some:
  assumes "pop_least bef xs = Some (m, rest)"
  shows "m \<in> set xs" and "rest = remove1 m xs" and "length xs = Suc (length rest)" and "set rest \<subseteq> set xs"
proof -
  obtain y ys where xs: "xs = y # ys" using assms by (cases xs) (auto simp: pop_least_def)
  then have m: "m = least bef y ys" "rest = remove1 m xs" using assms by (auto simp: pop_least_def Let_def)
  show mem: "m \<in> set xs" using m least_in [of bef y ys] xs by simp
  have "length rest = length xs - 1" unfolding m(2) using mem by (simp only: length_remove1 if_True)
  then show "length xs = Suc (length rest)" using xs by simp
  show "rest = remove1 m xs" by (rule m(2))
  show "set rest \<subseteq> set xs" unfolding m(2) by (rule set_remove1_subset)
qed

lemma pop_least_None: "pop_least bef xs = None \<longleftrightarrow> xs = []"
  by (cases xs) (simp_all add: pop_least_def Let_def)

section \<open>Codecs\<close>

definition f32_codec_ok :: "'f f32_ops \<Rightarrow> bool" where
  "f32_codec_ok F \<longleftrightarrow> (\<forall>x. length (f_to_le F x) = 4 \<and> f_of_le F (f_to_le F x) = x)"

lemma put_words_Inr:
  assumes "\<forall>w \<in> set ws. length w = 4" and "length pre + 4 * length ws + length rest = n"
  shows "(put_words (length pre) ws (pre @ replicate (4 * length ws) 0 @ rest) :: ('e, bytes) outcome) =
    Inr (pre @ concat ws @ rest)"
  using assms
proof (induction ws arbitrary: pre)
  case (Cons w ws)
  have len: "length w = 4" using Cons.prems by simp
  have rep: "replicate (4 * length (w # ws)) (0::u8) = replicate 4 0 @ replicate (4 * length ws) 0"
    by (simp only: list.size mult_Suc_right add_0_right replicate_add [symmetric] add.commute) simp
  have c: "copy_slice (length pre) w (pre @ replicate (4 * length (w # ws)) 0 @ rest) =
      (Inr ((pre @ w) @ replicate (4 * length ws) 0 @ rest) :: ('e, bytes) outcome)"
    unfolding rep using len by (simp add: copy_slice_def)
  have "(put_words (length (pre @ w)) ws ((pre @ w) @ replicate (4 * length ws) 0 @ rest) :: ('e, bytes) outcome) =
      Inr ((pre @ w) @ concat ws @ rest)"
    using Cons.prems len by (intro Cons.IH) simp_all
  then show ?case using len by (simp only: put_words.simps c rbind_simps) (simp add: ac_simps)
qed simp

definition node_bytes :: "'f f32_ops \<Rightarrow> 'f node_block \<Rightarrow> bytes" where
  "node_bytes F node = concat (map (f_to_le F) (nb_embedding node)) @
     le_bytes 4 (length (nb_neighbors node)) @ concat (map (le_bytes 4) (nb_neighbors node))"

lemma serialise_node_bytes:
  assumes F: "f32_codec_ok F" and dim: "length (nb_embedding node) = dim"
    and m: "length (nb_neighbors node) \<le> max_neighbors" and room: "serialised_size dim max_neighbors \<le> block_bytes"
  shows "serialise_node F node dim max_neighbors block_bytes =
    Inr (node_bytes F node @ replicate (block_bytes - (4 * dim + 4 + 4 * length (nb_neighbors node))) 0)"
proof -
  let ?ws = "map (f_to_le F) (nb_embedding node)" and ?ns = "map (le_bytes 4) (nb_neighbors node)"
  let ?k = "length (nb_neighbors node)" and ?cnt = "le_bytes 4 (length (nb_neighbors node))"
  have w4: "\<forall>w \<in> set ?ws. length w = 4" "\<forall>w \<in> set ?ns. length w = 4"
    using F by (auto simp: f32_codec_ok_def)
  have sz: "4 * dim + 4 + 4 * ?k \<le> block_bytes" using room m by (simp add: serialised_size_def)
  define tail where "tail = replicate (block_bytes - (4 * dim + 4 + 4 * ?k)) (0::u8)"
  have buf: "replicate block_bytes (0::u8) = replicate (4 * length ?ws) 0 @ replicate (4 + 4 * ?k) 0 @ tail"
    using sz by (simp add: tail_def replicate_add [symmetric] dim)
  have p1: "put_words 0 ?ws (replicate block_bytes 0) =
      (Inr (concat ?ws @ replicate (4 + 4 * ?k) 0 @ tail) :: (codec_error, bytes) outcome)"
    using put_words_Inr [OF w4(1), of "[]" "replicate (4 + 4 * ?k) 0 @ tail"] unfolding buf by simp
  have cl: "length (concat ?ws) = 4 * dim" using length_concat_const [OF w4(1)] dim by simp
  have p2: "copy_slice (4 * dim) ?cnt (concat ?ws @ replicate (4 + 4 * ?k) 0 @ tail) =
      (Inr ((concat ?ws @ ?cnt) @ replicate (4 * ?k) 0 @ tail) :: (codec_error, bytes) outcome)"
    using cl by (simp add: copy_slice_def)
  have p3: "put_words (4 * dim + 4) ?ns ((concat ?ws @ ?cnt) @ replicate (4 * ?k) 0 @ tail) =
      (Inr ((concat ?ws @ ?cnt) @ concat ?ns @ tail) :: (codec_error, bytes) outcome)"
    using put_words_Inr [OF w4(2), of "concat ?ws @ ?cnt" tail] cl by simp
  show ?thesis
    using dim m room p1 p2 p3
    by (simp add: serialise_node_def Let_def node_bytes_def tail_def)
qed

lemma deserialise_node_bytes:
  assumes F: "f32_codec_ok F" and dim: "length (nb_embedding node) = dim"
    and m: "length (nb_neighbors node) \<le> max_neighbors" and small: "max_neighbors < 2 ^ 32"
    and ids: "\<forall>i \<in> set (nb_neighbors node). i < 2 ^ 32"
    and room: "serialised_size dim max_neighbors \<le> length (node_bytes F node @ rest)"
  shows "deserialise_node F (node_bytes F node @ rest) dim max_neighbors = Inr node"
proof -
  let ?ws = "map (f_to_le F) (nb_embedding node)" and ?ns = "map (le_bytes 4) (nb_neighbors node)"
  let ?k = "length (nb_neighbors node)" and ?bs = "node_bytes F node @ rest"
  have w4: "\<forall>w \<in> set ?ws. length w = 4" "\<forall>w \<in> set ?ns. length w = 4"
    using F by (auto simp: f32_codec_ok_def)
  have cl: "length (concat ?ws) = 4 * dim" "length (concat ?ns) = 4 * ?k"
    using length_concat_const [OF w4(1)] length_concat_const [OF w4(2)] dim by simp_all
  have len: "4 * dim + 4 + 4 * ?k \<le> length ?bs" using cl by (simp add: node_bytes_def)
  have "slice (i * 4) 4 ?bs = (Inr (?ws ! i) :: (codec_error, bytes) outcome)" if i: "i < dim" for i
  proof -
    have eq: "?bs = concat ?ws @ (le_bytes 4 ?k @ concat ?ns @ rest)" by (simp add: node_bytes_def)
    have "take 4 (drop (i * 4) ?bs) = ?ws ! i"
      unfolding eq by (rule slot_of_concat [OF w4(1)]) (use i dim in simp)
    moreover have "i * 4 + 4 \<le> length ?bs" using i len by simp
    ultimately show ?thesis by (simp add: slice_def)
  qed
  then have e: "rmap (\<lambda>i. slice (i * 4) 4 ?bs) [0..<dim] = (Inr (map ((!) ?ws) [0..<dim]) :: (codec_error, bytes list) outcome)"
    by (intro rmap_Inr) simp
  have c: "slice (4 * dim) 4 ?bs = (Inr (le_bytes 4 ?k) :: (codec_error, bytes) outcome)"
    using len cl by (simp add: slice_def node_bytes_def)
  have "slice (4 * dim + 4 + i * 4) 4 ?bs = (Inr (?ns ! i) :: (codec_error, bytes) outcome)" if i: "i < ?k" for i
  proof -
    have eq: "drop (4 * dim + 4 + i * 4) ?bs = drop (i * 4) (concat ?ns @ rest)"
      using cl by (simp add: node_bytes_def)
    have "take 4 (drop (4 * dim + 4 + i * 4) ?bs) = ?ns ! i"
      unfolding eq by (rule slot_of_concat [OF w4(2)]) (use i in simp)
    moreover have "4 * dim + 4 + i * 4 + 4 \<le> length ?bs" using i len by simp
    ultimately show ?thesis by (simp add: slice_def)
  qed
  then have n: "rmap (\<lambda>i. slice (4 * dim + 4 + i * 4) 4 ?bs) [0..<?k] =
      (Inr (map ((!) ?ns) [0..<?k]) :: (codec_error, bytes list) outcome)"
    by (intro rmap_Inr) simp
  have "map ((!) ?ws) [0..<dim] = ?ws" "map ((!) ?ns) [0..<?k] = ?ns"
    using dim map_nth [of ?ws] map_nth [of ?ns] by simp_all
  moreover have "map (f_of_le F) ?ws = nb_embedding node"
    using F by (simp add: f32_codec_ok_def comp_def)
  moreover have "map of_le_bytes ?ns = nb_neighbors node"
    using ids by (simp add: of_le_bytes_le_bytes map_idI)
  moreover have "min (of_le_bytes (le_bytes 4 ?k)) max_neighbors = ?k"
    using m small by (simp add: of_le_bytes_le_bytes)
  ultimately show ?thesis
    using room e c n by (simp add: deserialise_node_def Let_def)
qed

text \<open>Hint nibbles.\<close>

lemma nibble_mask: "(15::u8) = mask 4"
  by (simp add: mask_eq_exp_minus_1)

lemma low_nibble_or_high:
  assumes q: "q AND (15::u8) = q"
  shows "(q OR push_bit 4 r) AND 15 = q"
proof -
  have "push_bit k r AND (15::u8) = 0" if "4 \<le> k" for k
    unfolding nibble_mask using that by (intro bit_word_eqI) (auto simp: bit_simps)
  from this [of 4] q show ?thesis by (simp add: bit.conj_disj_distrib2)
qed

lemma high_nibble_of_or:
  assumes q: "q AND (15::u8) = q" and r: "r AND 15 = r"
  shows "drop_bit 4 (q OR push_bit 4 r) = r"
proof -
  have "drop_bit k (q AND (15::u8)) = 0" if "4 \<le> k" for k
    unfolding nibble_mask using that by (intro bit_word_eqI) (auto simp: bit_simps)
  moreover have "drop_bit k (push_bit k (r AND (15::u8))) = r AND 15" if "k \<le> 4" for k
    unfolding nibble_mask using that by (intro bit_word_eqI) (auto simp: bit_simps)
  ultimately show ?thesis using q r by (simp only: drop_bit_or) simp
qed

text \<open>Packing writes code \<open>i\<close> where \<open>nibble_at\<close> reads it.\<close>

lemma length_pack_nibbles [simp]: "length (pack_nibbles i qs out) = length out"
  by (induction i qs out rule: pack_nibbles.induct) simp_all

lemma pack_nibbles_other:
  assumes "j < i div 2"
  shows "pack_nibbles i qs out ! j = out ! j"
  using assms
proof (induction i qs out rule: pack_nibbles.induct)
  case (2 i q qs out)
  then have "j < Suc i div 2" by linarith
  with 2 show ?case by simp
qed simp

lemma pack_nibbles_at:
  assumes "\<forall>q \<in> set qs. q AND 15 = q" and "i + length qs \<le> 2 * length out"
    and "\<forall>j < length out. if j = i div 2 \<and> odd i then out ! j AND 15 = out ! j else i div 2 \<le> j \<longrightarrow> out ! j = 0"
    and "k < length qs"
  shows "nibble_at (pack_nibbles i qs out) (i + k) = qs ! k \<and>
    (odd i \<longrightarrow> pack_nibbles i qs out ! (i div 2) AND 15 = out ! (i div 2))"
  using assms
proof (induction qs arbitrary: i out k)
  case (Cons q qs)
  let ?v = "out ! (i div 2) OR (if even i then q else push_bit 4 q)"
  let ?out = "out[i div 2 := ?v]"
  have bound: "i div 2 < length out" using Cons.prems(2) by simp
  have q: "q AND 15 = q" using Cons.prems(1) by simp
  have old: "if odd i then out ! (i div 2) AND 15 = out ! (i div 2) else out ! (i div 2) = 0"
    using Cons.prems(3) bound by auto
  have next_ok: "\<forall>j < length ?out. if j = Suc i div 2 \<and> odd (Suc i) then ?out ! j AND 15 = ?out ! j
      else Suc i div 2 \<le> j \<longrightarrow> ?out ! j = 0"
  proof (intro allI impI)
    fix j assume j: "j < length ?out"
    have inv: "if j = i div 2 \<and> odd i then out ! j AND 15 = out ! j else i div 2 \<le> j \<longrightarrow> out ! j = 0"
      using Cons.prems(3) j by simp
    show "if j = Suc i div 2 \<and> odd (Suc i) then ?out ! j AND 15 = ?out ! j else Suc i div 2 \<le> j \<longrightarrow> ?out ! j = 0"
      using inv old q bound by (cases "even i") (auto simp: nth_list_update elim!: evenE oddE)
  qed
  have rest: "nibble_at (pack_nibbles (Suc i) qs ?out) (Suc i + k') = qs ! k' \<and>
      (odd (Suc i) \<longrightarrow> pack_nibbles (Suc i) qs ?out ! (Suc i div 2) AND 15 = ?out ! (Suc i div 2))"
    if "k' < length qs" for k'
    using Cons.IH [OF _ _ next_ok that] Cons.prems(1,2) by simp
  have here: "pack_nibbles (Suc i) qs ?out ! (i div 2) AND 15 = ?v AND 15 \<and>
      (odd i \<longrightarrow> pack_nibbles (Suc i) qs ?out ! (i div 2) = ?v)"
  proof (cases "odd i")
    case True
    then have "i div 2 < Suc i div 2" by (auto elim!: oddE)
    from pack_nibbles_other [OF this] show ?thesis using bound True by simp
  next
    case False
    show ?thesis
    proof (cases qs)
      case Nil
      then show ?thesis using bound False by simp
    next
      case (Cons r rs)
      have "Suc i div 2 = i div 2" using False by (auto elim!: evenE)
      with rest [of 0] Cons False bound old q show ?thesis by simp
    qed
  qed
  have first: "nibble_at (pack_nibbles i (q # qs) out) i = q"
    using here old q bound high_nibble_of_or [of "out ! (i div 2)" q]
    by (cases "even i") (auto simp: nibble_at_def)
  have low: "odd i \<longrightarrow> pack_nibbles i (q # qs) out ! (i div 2) AND 15 = out ! (i div 2)"
    using here old low_nibble_or_high [of "out ! (i div 2)" q] by auto
  show ?case
  proof (cases k)
    case 0
    then show ?thesis using first low by simp
  next
    case (Suc k')
    then show ?thesis using rest [of k'] low Cons.prems(4) by simp
  qed
qed simp

section \<open>Neighbour selection\<close>

definition dist_of :: "'f f32_ops \<Rightarrow> 'f list list \<Rightarrow> nat \<Rightarrow> nat \<Rightarrow> 'f" where
  "dist_of F embs i j = cosine_distance F (embs ! i) (embs ! j)"

lemma diverse_ret:
  assumes "\<forall>s \<in> set ss. s < length embs"
  shows "diverse F embs e d ss = Inr (\<forall>s \<in> set ss. \<not> f_lt F (cosine_distance F e (embs ! s)) d)"
  using assms by (induction ss) (auto simp: at_def)

definition selection_ok :: "'f f32_ops \<Rightarrow> 'f list list \<Rightarrow> nat \<Rightarrow> nat \<Rightarrow> 'f candidate list \<Rightarrow> nat list \<Rightarrow> bool" where
  "selection_ok F embs q m cs sel \<longleftrightarrow> length sel \<le> m \<and> q \<notin> set sel \<and> set sel \<subseteq> cd_id ` set cs \<and>
     (\<forall>j < length sel. \<exists>c \<in> set cs. cd_id c = sel ! j \<and>
        (\<forall>i < j. \<not> f_lt F (dist_of F embs (sel ! j) (sel ! i)) (cd_dist c)))"

lemma selection_ok_append:
  assumes "selection_ok F embs q m cs sel" and "length sel < m" and "c \<in> set cs" and "cd_id c \<noteq> q"
    and "\<forall>s \<in> set sel. \<not> f_lt F (dist_of F embs (cd_id c) s) (cd_dist c)"
  shows "selection_ok F embs q m cs (sel @ [cd_id c])"
proof -
  have "\<exists>c' \<in> set cs. cd_id c' = (sel @ [cd_id c]) ! j \<and>
      (\<forall>i < j. \<not> f_lt F (dist_of F embs ((sel @ [cd_id c]) ! j) ((sel @ [cd_id c]) ! i)) (cd_dist c'))"
    if j: "j < Suc (length sel)" for j
  proof (cases "j < length sel")
    case True
    then show ?thesis using assms(1) by (simp add: selection_ok_def nth_append)
  next
    case False
    then have "j = length sel" using j by simp
    then show ?thesis using assms(3,5) by (intro bexI [of _ c]) (simp_all add: nth_append)
  qed
  then show ?thesis using assms by (auto simp: selection_ok_def)
qed

lemma select_walk_ok:
  assumes "\<forall>c \<in> set all. cd_id c < length embs" and "set cs \<subseteq> set all" and "selection_ok F embs q m all sel"
  shows "ret (select_walk F embs q m cs sel) (selection_ok F embs q m all)"
  using assms(2,3)
proof (induction cs arbitrary: sel)
  case (Cons c cs)
  have c: "c \<in> set all" "cd_id c < length embs" using Cons.prems assms(1) by auto
  have "set sel \<subseteq> cd_id ` set all" using Cons.prems(2) by (simp add: selection_ok_def)
  then have sel: "\<forall>s \<in> set sel. s < length embs" using assms(1) by fastforce
  show ?case
    using Cons.IH [of sel] Cons.IH [of "sel @ [cd_id c]"] Cons.prems c
      selection_ok_append [OF Cons.prems(2) _ c(1)]
    by (auto simp: at_def diverse_ret [OF sel] dist_of_def)
qed simp

lemma algorithm4_ok:
  assumes "q < length embs" and "\<forall>c \<in> set cs. cd_id c < length embs"
  shows "ret (algorithm4_select F embs q cs m) (selection_ok F embs q m cs)"
proof -
  have "selection_ok F embs q m cs []" by (simp add: selection_ok_def)
  then show ?thesis
    using select_walk_ok [OF assms(2), of "sort_by (dist_less F) cs"] assms(1)
    by (simp add: algorithm4_select_def at_def)
qed

lemma select_neighbours_ok:
  assumes "q < length embs" and "\<forall>c \<in> set cs. cd_id c < length embs"
  shows "ret (select_neighbours F p embs q cs m) (\<lambda>sel. length sel \<le> m \<and> set sel \<subseteq> cd_id ` set cs)"
proof (cases "use_algorithm4 p")
  case True
  then show ?thesis
    using ret_weaken [OF algorithm4_ok [OF assms, of F m], of "\<lambda>sel. length sel \<le> m \<and> set sel \<subseteq> cd_id ` set cs"]
    by (simp add: select_neighbours_def selection_ok_def)
next
  case False
  have "set (take m (sort_by (dist_less F) cs)) \<subseteq> set cs" using set_take_subset set_sort_by by metis
  then show ?thesis using False by (auto simp: select_neighbours_def)
qed

section \<open>The builder\<close>

text \<open>\<open><\<close> on \<open>f32\<close> is irreflexive and transitive, NaN included.\<close>

definition f32_lt_ok :: "'f f32_ops \<Rightarrow> bool" where
  "f32_lt_ok F \<longleftrightarrow> (\<forall>a. \<not> f_lt F a a) \<and> (\<forall>a b c. f_lt F a b \<longrightarrow> f_lt F b c \<longrightarrow> f_lt F a c)"

definition heap_order_ok :: "('f candidate list \<Rightarrow> 'f candidate list) \<Rightarrow> bool" where
  "heap_order_ok ho \<longleftrightarrow> (\<forall>xs. mset (ho xs) = mset xs)"

lemma heap_order_set: "heap_order_ok ho \<Longrightarrow> set (ho xs) = set xs"
  unfolding heap_order_ok_def by (metis set_mset_mset)

definition list_ok :: "nat \<Rightarrow> nat \<Rightarrow> nat list \<Rightarrow> bool" where
  "list_ok n bound ns \<longleftrightarrow> length ns \<le> bound \<and> set ns \<subseteq> {..<n}"

definition graph_ok :: "'f hnsw_params \<Rightarrow> nat \<Rightarrow> nat \<Rightarrow> hnsw_graph \<Rightarrow> bool" where
  "graph_ok p n top_layer g \<longleftrightarrow> length (g_layer0 g) = n \<and> length (g_upper g) = top_layer \<and>
     (\<forall>i < n. list_ok n (max_m p 0) (g_layer0 g ! i)) \<and>
     (\<forall>l i ns. l < top_layer \<and> map_of (g_upper g ! l) i = Some ns \<longrightarrow> list_ok n (max_m p (Suc l)) ns) \<and>
     (\<forall>l < top_layer. fst ` set (g_upper g ! l) \<subseteq> {..<n})"

lemma neighbours_ok:
  assumes "graph_ok p n top_layer g" and "i < n" and "l \<le> top_layer"
  shows "ret (neighbours_of i l g :: ('e, nat list) outcome) (list_ok n (max_m p l))"
proof (cases l)
  case 0
  then show ?thesis using assms by (simp add: neighbours_of_def graph_ok_def at_def)
next
  case (Suc k)
  then have k: "k < top_layer" "k < length (g_upper g)" using assms by (auto simp: graph_ok_def)
  show ?thesis
  proof (cases "map_of (g_upper g ! k) i")
    case None
    then show ?thesis using k Suc by (simp add: neighbours_of_def at_def list_ok_def)
  next
    case (Some ns)
    then have "list_ok n (max_m p l) ns" using assms(1) k Suc by (simp add: graph_ok_def)
    then show ?thesis using Some k Suc by (simp add: neighbours_of_def at_def)
  qed
qed

lemma set_neighbours_ok:
  assumes "graph_ok p n top_layer g" and "i < n" and "l \<le> top_layer" and "list_ok n (max_m p l) ns"
  shows "ret (set_neighbours i l ns g) (graph_ok p n top_layer)"
proof (cases l)
  case 0
  then show ?thesis using assms by (auto simp: set_neighbours_def graph_ok_def nth_list_update)
next
  case (Suc k)
  then have "k < length (g_upper g)" using assms by (auto simp: graph_ok_def)
  moreover have "graph_ok p n top_layer (g\<lparr>g_upper := (g_upper g)[k := AList.update i ns (g_upper g ! k)]\<rparr>)"
    unfolding graph_ok_def
  proof (intro conjI allI impI; (elim conjE)?)
    fix m j ms assume *: "m < top_layer" "map_of (g_upper (g\<lparr>g_upper := (g_upper g)[k := AList.update i ns (g_upper g ! k)]\<rparr>) ! m) j = Some ms"
    show "list_ok n (max_m p (Suc m)) ms"
    proof (cases "m = k \<and> j = i")
      case True
      then show ?thesis using * assms(1,4) Suc by (simp add: graph_ok_def)
    next
      case False
      then have "map_of (g_upper g ! m) j = Some ms"
        using * assms(1) by (cases "m = k") (auto simp: graph_ok_def)
      then show ?thesis using *(1) assms(1) unfolding graph_ok_def by blast
    qed
  next
    fix m assume m: "m < top_layer"
    then have old: "fst ` set (g_upper g ! m) \<subseteq> {..<n}" using assms(1) by (simp add: graph_ok_def)
    show "fst ` set (g_upper (g\<lparr>g_upper := (g_upper g)[k := AList.update i ns (g_upper g ! k)]\<rparr>) ! m) \<subseteq> {..<n}"
      using old assms(2) Suc assms(1,3) m by (cases "m = k") (auto simp: AList.dom_update graph_ok_def)
  qed (use assms(1) in \<open>simp_all add: graph_ok_def\<close>)
  ultimately show ?thesis using Suc by (simp add: set_neighbours_def)
qed

subsection \<open>Greedy descent\<close>

definition closer :: "'f f32_ops \<Rightarrow> 'f list list \<Rightarrow> 'f list \<Rightarrow> 'f \<Rightarrow> nat set" where
  "closer F embs t d = {m. m < length embs \<and> f_lt F (cosine_distance F t (embs ! m)) d}"

lemma closer_finite: "finite (closer F embs t d)"
  by (rule finite_subset [of _ "{..<length embs}"]) (auto simp: closer_def)

lemma closer_card: "card (closer F embs t d) \<le> length embs"
  using card_mono [of "{..<length embs}" "closer F embs t d"] by (auto simp: closer_def)

lemma closer_shrinks:
  assumes "f32_lt_ok F" and "m < length embs" and "f_lt F (cosine_distance F t (embs ! m)) d"
  shows "closer F embs t (cosine_distance F t (embs ! m)) \<subset> closer F embs t d"
  using assms unfolding closer_def f32_lt_ok_def by blast

text \<open>A scan ends on a node at most as far, and on a strictly closer one when it improved.\<close>

lemma greedy_scan_ok:
  fixes F :: "'f f32_ops"
  assumes F: "f32_lt_ok F" and "set ns \<subseteq> {..<length embs}" and "best < length embs"
  shows "ret (greedy_scan F embs t ns (best, d, improved) :: ('e, nat \<times> 'f \<times> bool) outcome) (\<lambda>(best', d', improved').
    best' < length embs \<and> closer F embs t d' \<subseteq> closer F embs t d \<and> (improved \<longrightarrow> improved') \<and>
    (improved' \<longrightarrow> improved \<or> closer F embs t d' \<subset> closer F embs t d))"
  using assms(2,3)
proof (induction ns arbitrary: best d improved)
  case (Cons n ns)
  have n: "n < length embs" using Cons.prems by simp
  let ?d = "cosine_distance F t (embs ! n)"
  show ?case
  proof (cases "f_lt F ?d d")
    case True
    note s = closer_shrinks [OF F n True]
    have "ret (greedy_scan F embs t ns (n, ?d, True) :: ('e, nat \<times> 'f \<times> bool) outcome) (\<lambda>(best', d', improved').
      best' < length embs \<and> closer F embs t d' \<subseteq> closer F embs t ?d \<and> (True \<longrightarrow> improved') \<and>
      (improved' \<longrightarrow> True \<or> closer F embs t d' \<subset> closer F embs t ?d))"
      using Cons.IH [of n ?d True] Cons.prems n by simp
    then have "ret (greedy_scan F embs t ns (n, ?d, True) :: ('e, nat \<times> 'f \<times> bool) outcome) (\<lambda>(best', d', improved').
      best' < length embs \<and> improved' \<and> closer F embs t d' \<subset> closer F embs t d)"
      by (rule ret_weaken) (use s subset_psubset_trans in fastforce)
    then show ?thesis using True n by (auto simp: at_def elim!: ret_weaken)
  next
    case False
    then show ?thesis using Cons.IH [of best d improved] Cons.prems n by (simp add: at_def)
  qed
qed simp

lemma greedy_loop_ok:
  fixes F :: "'f f32_ops"
  assumes F: "f32_lt_ok F" and g: "graph_ok p (length embs) top_layer g" and l: "l \<le> top_layer"
    and "best < length embs" and "card (closer F embs t d) < fuel"
  shows "ret (greedy_loop F embs g l t fuel (best, d) :: ('e, nat \<times> 'f) outcome) (\<lambda>(best', d'). best' < length embs)"
  using assms(4,5)
proof (induction fuel arbitrary: best d)
  case (Suc fuel)
  obtain ns where ns: "neighbours_of best l g = (Inr ns :: ('e, nat list) outcome)" "set ns \<subseteq> {..<length embs}"
    using neighbours_ok [OF g Suc.prems(1) l, where 'e = 'e] by (auto simp: ret_def list_ok_def)
  obtain b' d' i' where s: "greedy_scan F embs t ns (best, d, False) = (Inr (b', d', i') :: ('e, nat \<times> 'f \<times> bool) outcome)" "b' < length embs"
    "i' \<longrightarrow> closer F embs t d' \<subset> closer F embs t d"
    using greedy_scan_ok [OF F ns(2) Suc.prems(1), where 'e = 'e, of t d False] by (auto simp: ret_def)
  show ?case
  proof (cases i')
    case True
    then have "card (closer F embs t d') < card (closer F embs t d)"
      using s(3) by (simp add: psubset_card_mono closer_finite)
    then show ?thesis using Suc.IH [OF s(2), of d'] Suc.prems(2) ns(1) s(1) True by simp
  next
    case False
    then show ?thesis using ns(1) s(1,2) by simp
  qed
qed simp

lemma greedy_one_hop_ok:
  assumes "f32_lt_ok F" and "graph_ok p (length embs) top_layer g" and "l \<le> top_layer"
    and "best < length embs" and "x < length embs"
  shows "ret (greedy_one_hop F embs g x best d l) (\<lambda>(best', d'). best' < length embs)"
  using greedy_loop_ok [OF assms(1-4), of "embs ! x" d "Suc (Suc (length embs))"]
    closer_card [of F embs "embs ! x" d] assms(5)
  by (simp add: greedy_one_hop_def at_def del: greedy_loop.simps)

subsection \<open>Beam search\<close>

definition beam_ok :: "nat \<Rightarrow> nat list \<Rightarrow> 'f beam \<Rightarrow> bool" where
  "beam_ok n inserted b \<longleftrightarrow> distinct (bm_visited b) \<and> set (bm_visited b) \<subseteq> {..<n} \<inter> set inserted \<and>
     cd_id ` set (bm_candidates b) \<subseteq> set (bm_visited b) \<and> cd_id ` set (bm_top b) \<subseteq> set (bm_visited b)"

text \<open>What is left to do: frontier nodes and nodes not seen yet.\<close>

definition beam_work :: "nat \<Rightarrow> 'f beam \<Rightarrow> nat" where
  "beam_work n b = length (bm_candidates b) + (n - length (bm_visited b))"

lemma beam_seen: "beam_ok n inserted b \<Longrightarrow> length (bm_visited b) \<le> n"
  using card_mono [of "{..<n}" "set (bm_visited b)"] by (auto simp: beam_ok_def distinct_card)

lemma beam_grow:
  assumes "beam_ok n inserted b" and "x < n" and "x \<in> set inserted" and "x \<notin> set (bm_visited b)"
  shows "length (bm_visited b) < n"
proof -
  have "beam_ok n inserted (b\<lparr>bm_visited := x # bm_visited b\<rparr>)" using assms by (auto simp: beam_ok_def)
  from beam_seen [OF this] show ?thesis by simp
qed

lemma beam_enter_ok:
  assumes "beam_ok (length embs) inserted b" and "e < length embs" and "bm_candidates b \<noteq> [] \<longrightarrow> bm_top b \<noteq> []"
  shows "ret (beam_enter F embs t inserted e b) (\<lambda>b'. beam_ok (length embs) inserted b' \<and>
    (bm_candidates b' \<noteq> [] \<longrightarrow> bm_top b' \<noteq> []) \<and>
    beam_work (length embs) b' \<le> beam_work (length embs) b)"
  using assms beam_grow [OF assms(1,2)] by (auto simp: beam_enter_def at_def beam_ok_def beam_work_def Let_def)

lemma beam_offer_ok:
  assumes "beam_ok n inserted b" and "cd_id c \<in> set (bm_visited b)" and "bm_top b \<noteq> []"
  shows "ret (beam_offer F ef c b) (\<lambda>b'. beam_ok n inserted b' \<and> bm_visited b' = bm_visited b \<and>
    bm_top b' \<noteq> [] \<and> length (bm_candidates b') \<le> Suc (length (bm_candidates b)))"
proof -
  obtain far rest where pop: "greatest_of (cand_less F) (bm_top b) = Some (far, rest)"
    using assms(3) pop_least_None by (metis greatest_of_def not_None_eq surj_pair)
  have "set rest \<subseteq> set (bm_top b)" by (rule pop_least_Some(4) [OF pop [unfolded greatest_of_def]])
  then have "cd_id ` set rest \<subseteq> set (bm_visited b)"
    using assms(1) unfolding beam_ok_def by (meson image_mono order_trans)
  then show ?thesis using assms pop by (auto simp: beam_offer_def beam_ok_def)
qed

lemma beam_visit_ok:
  assumes "beam_ok (length embs) inserted b" and "x < length embs" and "bm_top b \<noteq> []"
  shows "ret (beam_visit F embs t inserted ef x b) (\<lambda>b'. beam_ok (length embs) inserted b' \<and>
    bm_top b' \<noteq> [] \<and> beam_work (length embs) b' \<le> beam_work (length embs) b)"
proof (cases "x \<notin> set inserted \<or> x \<in> set (bm_visited b)")
  case True
  then show ?thesis using assms by (simp add: beam_visit_def)
next
  case False
  let ?b = "b\<lparr>bm_visited := x # bm_visited b\<rparr>"
  let ?c = "\<lparr>cd_id = x, cd_dist = cosine_distance F t (embs ! x)\<rparr>"
  have ok: "beam_ok (length embs) inserted ?b" using assms False by (auto simp: beam_ok_def)
  have "ret (beam_offer F ef ?c ?b) (\<lambda>b'. beam_ok (length embs) inserted b' \<and> bm_visited b' = bm_visited ?b \<and>
      bm_top b' \<noteq> [] \<and> length (bm_candidates b') \<le> Suc (length (bm_candidates ?b)))"
    by (rule beam_offer_ok [OF ok]) (use assms(3) in simp_all)
  then show ?thesis
    using False assms(2) beam_grow [OF assms(1,2)]
    by (auto simp: beam_visit_def at_def beam_work_def ret_def)
qed

lemma beam_loop_ok:
  fixes F :: "'f f32_ops"
  assumes g: "graph_ok p (length embs) top_layer g" and l: "l \<le> top_layer"
    and "beam_ok (length embs) inserted b" and "bm_candidates b \<noteq> [] \<longrightarrow> bm_top b \<noteq> []"
    and "beam_work (length embs) b < fuel"
  shows "ret (beam_loop F embs g l t inserted ef fuel b :: ('e, 'f beam) outcome) (beam_ok (length embs) inserted)"
  using assms(3-5)
proof (induction fuel arbitrary: b)
  case (Suc fuel)
  let ?n = "length embs"
  show ?case
  proof (cases "pop_least (cand_less F) (bm_candidates b)")
    case None
    then show ?thesis using Suc.prems by simp
  next
    case (Some cr)
    then obtain c rest where pop: "pop_least (cand_less F) (bm_candidates b) = Some (c, rest)" by (cases cr) auto
    note P = pop_least_Some [OF pop]
    let ?b = "b\<lparr>bm_candidates := rest\<rparr>"
    have "cd_id ` set rest \<subseteq> cd_id ` set (bm_candidates b)" by (rule image_mono [OF P(4)])
    then have "cd_id ` set rest \<subseteq> set (bm_visited b)"
      using Suc.prems(1) unfolding beam_ok_def by (meson order_trans)
    then have ok: "beam_ok ?n inserted ?b" using Suc.prems(1) by (simp add: beam_ok_def)
    have top: "bm_top b \<noteq> []" using P(1) Suc.prems(2) by auto
    have work: "Suc (beam_work ?n ?b) = beam_work ?n b" using P(3) by (simp add: beam_work_def)
    have cn: "cd_id c < ?n" using P(1) Suc.prems(1) by (auto simp: beam_ok_def)
    obtain far others where "greatest_of (cand_less F) (bm_top b) = Some (far, others)"
      using top pop_least_None by (metis greatest_of_def not_None_eq surj_pair)
    then have "beam_done F ef c (bm_top b) =
        (Inr (ef \<le> length (bm_top b) \<and> f_lt F (cd_dist far) (cd_dist c)) :: ('e, bool) outcome)"
      by (simp add: beam_done_def)
    then obtain stop where stop: "beam_done F ef c (bm_top b) = (Inr stop :: ('e, bool) outcome)" by blast
    show ?thesis
    proof (cases stop)
      case True
      then show ?thesis using pop stop ok by simp
    next
      case False
      obtain ns where ns: "neighbours_of (cd_id c) l g = (Inr ns :: ('e, nat list) outcome)" "set ns \<subseteq> {..<?n}"
        using neighbours_ok [OF g cn l, where 'e = 'e] by (auto simp: ret_def list_ok_def)
      have "ret (rfold (beam_visit F embs t inserted ef) ns ?b) (\<lambda>b'. beam_ok ?n inserted b' \<and>
          bm_top b' \<noteq> [] \<and> beam_work ?n b' \<le> beam_work ?n ?b)"
      proof (rule ret_rfold)
        fix x and s :: "'f beam"
        assume x: "x \<in> set ns" and s: "beam_ok ?n inserted s \<and> bm_top s \<noteq> [] \<and> beam_work ?n s \<le> beam_work ?n ?b"
        then have "x < ?n" using ns(2) by auto
        show "ret (beam_visit F embs t inserted ef x s) (\<lambda>b'. beam_ok ?n inserted b' \<and>
            bm_top b' \<noteq> [] \<and> beam_work ?n b' \<le> beam_work ?n ?b)"
          by (rule ret_weaken [OF beam_visit_ok]) (use s \<open>x < ?n\<close> in auto)
      qed (use ok top in simp)
      then obtain b' where b': "rfold (beam_visit F embs t inserted ef) ns ?b = (Inr b' :: ('e, 'f beam) outcome)"
        "beam_ok ?n inserted b'" "bm_top b' \<noteq> []" "beam_work ?n b' \<le> beam_work ?n ?b"
        by (auto simp: ret_def)
      then show ?thesis using Suc.IH [OF b'(2)] Suc.prems(3) work pop stop False ns(1) by simp
    qed
  qed
qed simp

lemma beam_search_ok:
  fixes F :: "'f f32_ops"
  assumes g: "graph_ok p (length embs) top_layer g" and l: "l \<le> top_layer" and ho: "heap_order_ok ho"
    and x: "x < length embs" and e: "set entries \<subseteq> {..<length embs}"
  shows "ret (beam_search_layer F ho embs g x entries l ef inserted :: ('e, 'f candidate list) outcome)
    (\<lambda>cs. \<forall>c \<in> set cs. cd_id c < length embs \<and> cd_id c \<in> set inserted)"
proof -
  let ?n = "length embs" and ?b0 = "\<lparr>bm_visited = [], bm_candidates = [], bm_top = []\<rparr> :: 'f beam"
  let ?t = "embs ! x"
  have "ret (rfold (beam_enter F embs ?t inserted) entries ?b0 :: ('e, 'f beam) outcome)
      (\<lambda>b. beam_ok ?n inserted b \<and> (bm_candidates b \<noteq> [] \<longrightarrow> bm_top b \<noteq> []) \<and> beam_work ?n b \<le> ?n)"
  proof (rule ret_rfold)
    fix y and b :: "'f beam"
    assume y: "y \<in> set entries" and b: "beam_ok ?n inserted b \<and> (bm_candidates b \<noteq> [] \<longrightarrow> bm_top b \<noteq> []) \<and> beam_work ?n b \<le> ?n"
    have "y < ?n" using y e by auto
    show "ret (beam_enter F embs ?t inserted y b :: ('e, 'f beam) outcome)
        (\<lambda>b. beam_ok ?n inserted b \<and> (bm_candidates b \<noteq> [] \<longrightarrow> bm_top b \<noteq> []) \<and> beam_work ?n b \<le> ?n)"
      by (rule ret_weaken [OF beam_enter_ok]) (use b \<open>y < ?n\<close> in auto)
  qed (simp add: beam_ok_def beam_work_def)
  then obtain b where b: "rfold (beam_enter F embs ?t inserted) entries ?b0 = (Inr b :: ('e, 'f beam) outcome)"
    "beam_ok ?n inserted b" "bm_candidates b \<noteq> [] \<longrightarrow> bm_top b \<noteq> []" "beam_work ?n b \<le> ?n"
    by (auto simp: ret_def)
  obtain b' where b': "beam_loop F embs g l ?t inserted ef (Suc ?n) b = (Inr b' :: ('e, 'f beam) outcome)"
    "beam_ok ?n inserted b'"
    using beam_loop_ok [OF g l b(2,3), of "Suc ?n" F ?t ef, where 'e = 'e] b(4) by (auto simp: ret_def)
  have "beam_search_layer F ho embs g x entries l ef inserted =
      (Inr (sort_by (dist_less F) (ho (bm_top b'))) :: ('e, 'f candidate list) outcome)"
    using x b(1) b'(1) by (simp add: beam_search_layer_def at_def del: beam_loop.simps)
  moreover have "cd_id c < ?n \<and> cd_id c \<in> set inserted" if "c \<in> set (bm_top b')" for c
    using that b'(2) by (auto simp: beam_ok_def)
  ultimately show ?thesis by (simp add: heap_order_set [OF ho])
qed

subsection \<open>Linking and inserting\<close>

lemma link_back_ok:
  fixes F :: "'f f32_ops"
  assumes g: "graph_ok p (length embs) top_layer g" and l: "l \<le> top_layer"
    and "x < length embs" and "s < length embs"
  shows "ret (link_back F p embs x l s g :: ('e, hnsw_graph) outcome) (graph_ok p (length embs) top_layer)"
proof -
  let ?n = "length embs"
  obtain old where old: "neighbours_of s l g = (Inr old :: ('e, nat list) outcome)" "list_ok ?n (max_m p l) old"
    using neighbours_ok [OF g assms(4) l, where 'e = 'e] by (auto simp: ret_def)
  let ?s_n = "old @ [x]"
  have ids: "set ?s_n \<subseteq> {..<?n}" using old(2) assms(3) by (auto simp: list_ok_def)
  show ?thesis
  proof (cases "max_m p l < length ?s_n")
    case False
    then have "list_ok ?n (max_m p l) ?s_n" using ids by (simp add: list_ok_def)
    then show ?thesis using False old(1) set_neighbours_ok [OF g assms(4) l] by (simp add: link_back_def Let_def)
  next
    case True
    let ?mk = "\<lambda>i. \<lparr>cd_id = i, cd_dist = cosine_distance F (embs ! s) (embs ! i)\<rparr>"
    have "rmap (\<lambda>i. rbind (at embs i) (\<lambda>e. Inr \<lparr>cd_id = i, cd_dist = cosine_distance F (embs ! s) e\<rparr>)) ?s_n =
        (Inr (map ?mk ?s_n) :: ('e, 'f candidate list) outcome)"
      using ids by (intro rmap_Inr) (auto simp: at_def)
    moreover have "\<forall>c \<in> set (map ?mk ?s_n). cd_id c < ?n" using ids by auto
    from select_neighbours_ok [OF assms(4) this, of F p "max_m p l"]
    obtain pruned where pr: "select_neighbours F p embs s (map ?mk ?s_n) (max_m p l) = (Inr pruned :: ('e, nat list) outcome)"
      "length pruned \<le> max_m p l" "set pruned \<subseteq> cd_id ` set (map ?mk ?s_n)" by (auto simp: ret_def)
    moreover have "cd_id ` set (map ?mk ?s_n) = set ?s_n" by force
    then have "list_ok ?n (max_m p l) pruned" using pr(2,3) ids by (simp add: list_ok_def) blast
    ultimately show ?thesis
      using True old(1) assms(4) set_neighbours_ok [OF g assms(4) l]
      by (simp add: link_back_def Let_def at_def)
  qed
qed

lemma connect_layer_ok:
  fixes F :: "'f f32_ops"
  assumes ho: "heap_order_ok ho" and x: "x < length embs" and cur: "current < length embs" and l: "l \<le> top_layer"
    and s: "set (fst s) \<subseteq> {..<length embs} \<and> graph_ok p (length embs) top_layer (snd s)"
  shows "ret (connect_layer F ho p embs inserted x current l s :: ('e, nat list \<times> hnsw_graph) outcome)
    (\<lambda>s. set (fst s) \<subseteq> {..<length embs} \<and> graph_ok p (length embs) top_layer (snd s))"
proof -
  let ?n = "length embs"
  obtain entries g where eg: "s = (entries, g)" by fastforce
  with s have e: "set entries \<subseteq> {..<?n}" and g: "graph_ok p ?n top_layer g" by simp_all
  obtain cs where cs: "beam_search_layer F ho embs g x entries l (ef_construction p) inserted =
      (Inr cs :: ('e, 'f candidate list) outcome)" "\<forall>c \<in> set cs. cd_id c < ?n"
    using beam_search_ok [OF g l ho x e, where 'e = 'e, of F "ef_construction p" inserted]
    by (auto simp: ret_def)
  obtain sel where sel: "select_neighbours F p embs x cs (max_m p l) = (Inr sel :: ('e, nat list) outcome)"
    "length sel \<le> max_m p l" "set sel \<subseteq> cd_id ` set cs"
    using select_neighbours_ok [OF x cs(2), of F p "max_m p l"] by (auto simp: ret_def)
  have ids: "set sel \<subseteq> {..<?n}" using sel(3) cs(2) by auto
  then have "list_ok ?n (max_m p l) sel" using sel(2) by (simp add: list_ok_def)
  from set_neighbours_ok [OF g x l this] obtain g1 where g1:
    "set_neighbours x l sel g = (Inr g1 :: ('e, hnsw_graph) outcome)" "graph_ok p ?n top_layer g1"
    by (auto simp: ret_def)
  have "ret (rfold (link_back F p embs x l) sel g1 :: ('e, hnsw_graph) outcome) (graph_ok p ?n top_layer)"
    by (rule ret_rfold [OF link_back_ok g1(2)]) (use ids x l in auto)
  then obtain g2 where g2: "rfold (link_back F p embs x l) sel g1 = (Inr g2 :: ('e, hnsw_graph) outcome)"
    "graph_ok p ?n top_layer g2" by (auto simp: ret_def)
  show ?thesis using cs(1) sel(1) g1(1) g2 ids cur eg by (simp add: connect_layer_def)
qed

lemma insert_node_ok:
  fixes F :: "'f f32_ops"
  assumes F: "f32_lt_ok F" and ho: "heap_order_ok ho" and x: "x < length embs" and ent: "entry < length embs"
    and lv: "length levels = length embs" "\<forall>l \<in> set levels. l \<le> top_layer"
    and s: "graph_ok p (length embs) top_layer (snd s)"
  shows "ret (insert_node F ho p embs levels entry top_layer x s :: ('e, nat list \<times> hnsw_graph) outcome)
    (\<lambda>s. graph_ok p (length embs) top_layer (snd s))"
proof -
  let ?n = "length embs"
  obtain inserted g where ig: "s = (inserted, g)" by fastforce
  with s have g: "graph_ok p ?n top_layer g" by simp
  have lx: "levels ! x \<le> top_layer" "x < length levels" using lv x by simp_all
  show ?thesis
  proof (cases "inserted = []")
    case True
    have "ret (rfold (\<lambda>l g. set_neighbours x l [] g) [1..<Suc (levels ! x)] g :: ('e, hnsw_graph) outcome)
        (graph_ok p ?n top_layer)"
    proof (rule ret_rfold)
      fix l g' assume l: "l \<in> set [1..<Suc (levels ! x)]" and g': "graph_ok p ?n top_layer g'"
      show "ret (set_neighbours x l [] g' :: ('e, hnsw_graph) outcome) (graph_ok p ?n top_layer)"
      proof (rule set_neighbours_ok [OF g' x])
        have "l < Suc (levels ! x)" using l by (simp only: atLeastLessThan_upt [symmetric] atLeastLessThan_iff)
        then show "l \<le> top_layer" using lx(1) by linarith
        show "list_ok ?n (max_m p l) []" by (simp add: list_ok_def)
      qed
    qed (rule g)
    then show ?thesis using True ig lx by (auto simp: insert_node_def at_def ret_def)
  next
    case False
    have "ret (rfold (\<lambda>l (cur, d). greedy_one_hop F embs g x cur d l) (rev [Suc (levels ! x)..<Suc top_layer])
        (entry, cosine_distance F (embs ! x) (embs ! entry)) :: ('e, nat \<times> 'f) outcome) (\<lambda>s. fst s < ?n)"
    proof (rule ret_rfold)
      fix l and s :: "nat \<times> 'f" assume l: "l \<in> set (rev [Suc (levels ! x)..<Suc top_layer])" and s: "fst s < ?n"
      obtain c d where cd: "s = (c, d)" by fastforce
      have "l \<le> top_layer" using l unfolding set_rev set_upt by simp
      from greedy_one_hop_ok [OF F g this _ x, of c d] s cd
      show "ret ((case s of (cur, d) \<Rightarrow> greedy_one_hop F embs g x cur d l) :: ('e, nat \<times> 'f) outcome) (\<lambda>s. fst s < ?n)"
        by (simp add: case_prod_unfold)
    qed (use ent in simp)
    then obtain c d where cd: "rfold (\<lambda>l (cur, d). greedy_one_hop F embs g x cur d l)
        (rev [Suc (levels ! x)..<Suc top_layer]) (entry, cosine_distance F (embs ! x) (embs ! entry)) =
        (Inr (c, d) :: ('e, nat \<times> 'f) outcome)" "c < ?n" by (auto simp: ret_def)
    have "ret (rfold (connect_layer F ho p embs inserted x c) (rev [0..<Suc (levels ! x)]) ([c], g) :: ('e, nat list \<times> hnsw_graph) outcome)
        (\<lambda>s. set (fst s) \<subseteq> {..<?n} \<and> graph_ok p ?n top_layer (snd s))"
      by (rule ret_rfold [OF connect_layer_ok [OF ho x cd(2)]]) (use lx g cd(2) in auto)
    then obtain es g2 where g2: "rfold (connect_layer F ho p embs inserted x c) (rev [0..<Suc (levels ! x)]) ([c], g) =
        (Inr (es, g2) :: ('e, nat list \<times> hnsw_graph) outcome)" "graph_ok p ?n top_layer g2" by (auto simp: ret_def)
    show ?thesis
      using False ig lx x ent cd(1) g2 by (simp add: insert_node_def at_def del: upt_Suc rev.simps)
  qed
qed

subsection \<open>The entry node\<close>

text \<open>What every write to the graph keeps, the whole insertion keeps.\<close>

lemma rfold_keeps:
  assumes "rfold f xs s = Inr s'" and "P s" and "\<And>x s s'. x \<in> set xs \<Longrightarrow> P s \<Longrightarrow> f x s = Inr s' \<Longrightarrow> P s'"
  shows "P s'"
  using assms by (induction xs arbitrary: s) (auto simp: rbind_Inr_iff)

definition kept_by_writes :: "(hnsw_graph \<Rightarrow> bool) \<Rightarrow> 'e itself \<Rightarrow> bool" where
  "kept_by_writes P _ \<longleftrightarrow> (\<forall>i l ns g g'. P g \<longrightarrow> (set_neighbours i l ns g :: ('e, hnsw_graph) outcome) = Inr g' \<longrightarrow> P g')"

lemma link_back_keeps:
  assumes "kept_by_writes P TYPE('e)" and "P g" and "(link_back F p embs x l s g :: ('e, hnsw_graph) outcome) = Inr g'"
  shows "P g'"
  using assms unfolding kept_by_writes_def link_back_def Let_def
  by (auto simp: rbind_Inr_iff split: if_splits)

lemma connect_layer_keeps:
  assumes k: "kept_by_writes P TYPE('e)" and "P (snd s)"
    and "(connect_layer F ho p embs inserted x current l s :: ('e, nat list \<times> hnsw_graph) outcome) = Inr s'"
  shows "P (snd s')"
proof -
  obtain cs sel g1 g2 where g1: "set_neighbours x l sel (snd s) = (Inr g1 :: ('e, hnsw_graph) outcome)"
    and g2: "rfold (link_back F p embs x l) sel g1 = (Inr g2 :: ('e, hnsw_graph) outcome)" and s': "snd s' = g2"
    using assms(3) unfolding connect_layer_def by (auto simp: rbind_Inr_iff split: prod.splits)
  have "P g1" using k g1 assms(2) unfolding kept_by_writes_def by blast
  then have "P g2" by (rule rfold_keeps [OF g2]) (rule link_back_keeps [OF k])
  with s' show ?thesis by simp
qed

lemma insert_node_keeps:
  assumes k: "kept_by_writes P TYPE('e)" and "P (snd s)"
    and r: "(insert_node F ho p embs levels entry top_layer x s :: ('e, nat list \<times> hnsw_graph) outcome) = Inr s'"
  shows "P (snd s')"
proof (cases "fst s = []")
  case True
  with r obtain g1 where g1: "rfold (\<lambda>l g. set_neighbours x l [] g) [1..<Suc (levels ! x)] (snd s) = (Inr g1 :: ('e, hnsw_graph) outcome)"
    and "snd s' = g1"
    unfolding insert_node_def by (auto simp: rbind_Inr_iff at_def split: prod.splits if_splits)
  moreover have "P g1"
    by (rule rfold_keeps [where P = P, OF g1 assms(2)]) (use k [unfolded kept_by_writes_def] in blast)
  ultimately show ?thesis by simp
next
  case False
  with r obtain es g1 c where g1: "rfold (connect_layer F ho p embs (fst s) x c) (rev [0..<Suc (levels ! x)]) ([c], snd s) =
      (Inr (es, g1) :: ('e, nat list \<times> hnsw_graph) outcome)" and "snd s' = g1"
    unfolding insert_node_def by (auto simp: rbind_Inr_iff at_def split: prod.splits if_splits simp del: upt_Suc rev.simps)
  moreover have "P (snd (es, g1))"
  proof (rule rfold_keeps [where P = "\<lambda>s. P (snd s)", OF g1])
    show "P (snd ([c], snd s))" using assms(2) by simp
  qed (rule connect_layer_keeps [OF k])
  ultimately show ?thesis by simp
qed

definition entered :: "nat \<Rightarrow> nat \<Rightarrow> hnsw_graph \<Rightarrow> bool" where
  "entered e m g \<longleftrightarrow> m \<le> length (g_upper g) \<and> (\<forall>l < m. map_of (g_upper g ! l) e \<noteq> None)"

lemma entered_write:
  assumes "entered e m g" and "set_neighbours i l ns g = Inr g'"
  shows "entered e m g'"
  using assms by (auto simp: entered_def set_neighbours_def nth_list_update split: if_splits)

lemma entered_kept: "kept_by_writes (entered e m) TYPE('e)"
  unfolding kept_by_writes_def using entered_write by blast

lemma enter_loop:
  assumes "rfold (\<lambda>l g. set_neighbours x l [] g) (map Suc [a..<b]) g = (Inr g' :: ('e, hnsw_graph) outcome)" and "entered x a g" and "a \<le> b"
  shows "entered x b g'"
  using assms
proof (induction "b - a" arbitrary: a g)
  case (Suc d)
  then have ab: "[a..<b] = a # [Suc a..<b]" "a < b" by (auto simp: upt_conv_Cons)
  obtain g1 where g1: "set_neighbours x (Suc a) [] g = (Inr g1 :: ('e, hnsw_graph) outcome)"
    "rfold (\<lambda>l g. set_neighbours x l [] g) (map Suc [Suc a..<b]) g1 = (Inr g' :: ('e, hnsw_graph) outcome)"
    using Suc.prems(1) unfolding ab(1) by (auto simp: rbind_Inr_iff)
  have "entered x (Suc a) g1"
    using Suc.prems(2) g1(1)
    by (auto simp: entered_def set_neighbours_def nth_list_update less_Suc_eq split: if_splits)
  then show ?case using Suc.hyps(1) [of "Suc a" g1] g1(2) Suc.hyps(2) ab(2) by simp
qed simp

lemma hd_sort_by:
  assumes asym: "\<And>a b. bef a b \<Longrightarrow> \<not> bef b a" and neg: "\<And>a b c. \<not> bef a b \<Longrightarrow> \<not> bef b c \<Longrightarrow> \<not> bef a c"
  shows "\<forall>y \<in> set xs. \<not> bef y (hd (sort_by bef xs))"
proof (induction xs)
  case (Cons x xs)
  let ?ys = "sort_by bef xs"
  have s: "sort_by bef (x # xs) = insert_by bef x ?ys" by (simp add: sort_by_def)
  show ?case
  proof (cases ?ys)
    case Nil
    then have "xs = []" by (metis length_sort_by length_0_conv)
    then show ?thesis using asym by (auto simp: sort_by_def)
  next
    case (Cons y ys)
    then have ih: "\<not> bef z y" if "z \<in> set xs" for z using Cons.IH that by simp
    have refl: "\<not> bef x x" using asym by blast
    show ?thesis
    proof (cases "bef y x")
      case True
      then have "hd (sort_by bef (x # xs)) = y" using Cons by (simp add: s)
      then show ?thesis using ih asym [OF True] by (simp only: list.set insert_iff) blast
    next
      case False
      then have "hd (sort_by bef (x # xs)) = x" using Cons by (simp add: s)
      then show ?thesis using ih refl neg [OF _ False] by (simp only: list.set insert_iff) blast
    qed
  qed
qed simp

lemma fold_max_le: "l \<in> set ls \<or> l \<le> m \<Longrightarrow> (l::nat) \<le> fold max ls m"
proof (induction ls arbitrary: m)
  case (Cons a ls)
  from Cons.prems have "l \<in> set ls \<or> l \<le> max a m" by (auto simp: le_max_iff_disj)
  from Cons.IH [OF this] show ?case by simp
qed simp

lemma fold_max_bound: "\<forall>l \<in> set ls. l \<le> b \<Longrightarrow> m \<le> b \<Longrightarrow> fold max ls m \<le> (b::nat)"
  by (induction ls arbitrary: m) auto

lemma hnsw_build_ok:
  fixes F :: "'f f32_ops"
  assumes F: "f32_lt_ok F" and ho: "heap_order_ok ho" and ne: "embs \<noteq> []"
    and dim: "\<forall>e \<in> set embs. length e = hp_dim p"
  shows "ret (hnsw_build F ho draws embs p :: ('e, 'f plain_hnsw) outcome) (\<lambda>h.
    ph_params h = p \<and> ph_embeddings h = embs \<and> ph_entry h < length embs \<and>
    graph_ok p (length embs) (ph_top_layer h) (ph_graph h) \<and> entered (ph_entry h) (ph_top_layer h) (ph_graph h))"
proof -
  let ?n = "length embs"
  define levels where "levels = map (\<lambda>i. sample_level F p (draws (build_seed p) i)) [0..<?n]"
  define top_layer where "top_layer = fold max levels 0"
  let ?bef = "\<lambda>a b. levels ! b < levels ! a \<or> (levels ! a = levels ! b \<and> a < b)"
  define order where "order = sort_by ?bef [0..<?n]"
  define g where "g = \<lparr>g_layer0 = replicate ?n [], g_upper = replicate top_layer ([] :: (nat \<times> nat list) list)\<rparr>"
  let ?ins = "insert_node F ho p embs levels (hd order) top_layer :: nat \<Rightarrow> nat list \<times> hnsw_graph \<Rightarrow> ('e, nat list \<times> hnsw_graph) outcome"
  have ids: "set order = {..<?n}" unfolding order_def set_sort_by by auto
  have "0 \<in> set order" unfolding ids using ne by simp
  then have ord: "order \<noteq> []" by (metis empty_iff list.set(1))
  then have ent: "hd order < ?n" using ids hd_in_set by blast
  have lv: "length levels = ?n" "\<forall>l \<in> set levels. l \<le> top_layer"
    by (simp add: levels_def) (auto simp: top_layer_def intro: fold_max_le)
  have "\<forall>y \<in> set [0..<?n]. \<not> ?bef y (hd order)"
    unfolding order_def by (rule hd_sort_by; arith)
  then have "\<forall>l \<in> set levels. l \<le> levels ! hd order" using lv(1) by (auto simp: in_set_conv_nth not_less)
  then have "top_layer \<le> levels ! hd order" unfolding top_layer_def by (intro fold_max_bound) auto
  then have top: "levels ! hd order = top_layer" using lv ent by (simp add: le_antisym)
  have g0: "graph_ok p ?n top_layer g" by (auto simp: graph_ok_def g_def list_ok_def)
  have "ret (rfold ?ins order ([], g)) (\<lambda>s. graph_ok p ?n top_layer (snd s))"
    by (rule ret_rfold [OF insert_node_ok [OF F ho _ ent lv]]) (use ids g0 in auto)
  then obtain ins g' where run: "rfold ?ins order ([], g) = Inr (ins, g')" and g': "graph_ok p ?n top_layer g'"
    by (auto simp: ret_def)
  have split: "order = hd order # tl order" using ord by simp
  have "rfold ?ins (hd order # tl order) ([], g) = Inr (ins, g')" using run split by simp
  then obtain s1 where s1: "?ins (hd order) ([], g) = Inr s1" "rfold ?ins (tl order) s1 = Inr (ins, g')"
    unfolding rfold.simps rbind_Inr_iff by blast
  have "[1..<Suc top_layer] = map Suc [0..<top_layer]" by (simp add: map_Suc_upt)
  moreover have "entered (hd order) 0 g" by (simp add: entered_def)
  moreover have "rfold (\<lambda>l g. set_neighbours (hd order) l [] g) [1..<Suc top_layer] g = (Inr (snd s1) :: ('e, hnsw_graph) outcome)"
    using s1(1) ent lv(1) top by (auto simp: insert_node_def at_def rbind_Inr_iff simp del: upt_Suc)
  ultimately have "entered (hd order) top_layer (snd s1)" using enter_loop [of "hd order" 0 top_layer g] by simp
  then have "entered (hd order) top_layer (snd (ins, g'))"
    by (rule rfold_keeps [OF s1(2)]) (rule insert_node_keeps [OF entered_kept])
  moreover have "\<not> (?n = 0 \<or> (\<exists>e \<in> set embs. length e \<noteq> hp_dim p))" using ne dim by auto
  ultimately show ?thesis
    unfolding hnsw_build_def Let_def levels_def [symmetric] top_layer_def [symmetric] order_def [symmetric]
      g_def [symmetric]
    using ent run g' by simp
qed

end
