(* ===== verification/Compass_Correct.thy ===== *)
theory Compass_Correct
  imports Compass_Search Compass_Hnsw_Correct Oram_Access
begin

text \<open>
  The encrypted search refines the plaintext one.  \<open>runs\<close> relates a stateful computation
  to the same computation over the plaintext graph; the search body is related for every
  function that fetches nodes correctly.  The Ring-ORAM fetches nodes correctly because
  of its own refinement and the round trip of the node codec, for every backend that
  keeps the block-backend contract.
\<close>

section \<open>Agreeing runs\<close>

definition runs :: "('s \<Rightarrow> bool) \<Rightarrow> ('s, 'e, 'a) eff \<Rightarrow> (unit, 'e, 'a) eff \<Rightarrow> ('a \<Rightarrow> bool) \<Rightarrow> bool" where
  "runs I m m' Q \<longleftrightarrow> (\<exists>x. m' () = (Inr x, ()) \<and> Q x \<and> (\<forall>s. I s \<longrightarrow> (\<exists>s'. m s = (Inr x, s') \<and> I s')))"

lemma runs_ereturn: "Q x \<Longrightarrow> runs I (ereturn x) (ereturn x) Q"
  by (simp add: runs_def ereturn_def)

lemma runs_elift: "ret r Q \<Longrightarrow> runs I (elift r) (elift r) Q"
  by (auto simp: runs_def ret_def elift_def)

lemma runs_bind:
  assumes "runs I m m' R" and "\<And>x. R x \<Longrightarrow> runs I (k x) (k' x) Q"
  shows "runs I (ebind m k) (ebind m' k') Q"
proof -
  obtain x where x: "m' () = (Inr x, ())" "R x" "\<And>s. I s \<Longrightarrow> \<exists>s'. m s = (Inr x, s') \<and> I s'"
    using assms(1) by (auto simp: runs_def)
  obtain y where y: "k' x () = (Inr y, ())" "Q y" "\<And>s. I s \<Longrightarrow> \<exists>s'. k x s = (Inr y, s') \<and> I s'"
    using assms(2) [OF x(2)] by (auto simp: runs_def)
  have "\<exists>s'. ebind m k s = (Inr y, s') \<and> I s'" if "I s" for s
    using x(3) [OF that] y(3) by (auto simp: ebind_def)
  then show ?thesis using x(1) y(1,2) by (auto simp: runs_def ebind_def)
qed

lemma runs_weaken: "runs I m m' R \<Longrightarrow> (\<And>x. R x \<Longrightarrow> Q x) \<Longrightarrow> runs I m m' Q"
  unfolding runs_def by blast

lemma runs_efold:
  assumes "\<And>x acc. x \<in> set xs \<Longrightarrow> J acc \<Longrightarrow> runs I (f x acc) (f' x acc) J" and "J acc"
  shows "runs I (efold f xs acc) (efold f' xs acc) J"
  using assms
proof (induction xs arbitrary: acc)
  case Nil
  then show ?case unfolding efold.simps by (intro runs_ereturn)
next
  case (Cons x xs)
  show ?case unfolding efold.simps
    by (rule runs_bind [where R = J]) (use Cons in auto)
qed

section \<open>The clear part of an index\<close>

definition plain_ok :: "'f plain_hnsw \<Rightarrow> bool" where
  "plain_ok h \<longleftrightarrow> ph_entry h < length (ph_embeddings h) \<and>
     (\<forall>e \<in> set (ph_embeddings h). length e = hp_dim (ph_params h)) \<and>
     graph_ok (ph_params h) (length (ph_embeddings h)) (ph_top_layer h) (ph_graph h) \<and>
     entered (ph_entry h) (ph_top_layer h) (ph_graph h)"

definition upper_cache :: "'f plain_hnsw \<Rightarrow> 'f upper_layer list" where
  "upper_cache h = map (map (\<lambda>(i, ns). (i, ph_embeddings h ! i, ns))) (g_upper (ph_graph h))"

definition hint_table :: "'f f32_ops \<Rightarrow> 'f plain_hnsw \<Rightarrow> node_hints list" where
  "hint_table F h = map (\<lambda>(i, e). map (\<lambda>j. pack_direction F (map (\<lambda>(n, x). f_sub F n x)
     (zip (ph_embeddings h ! j) e))) (g_layer0 (ph_graph h) ! i)) (enumerate 0 (ph_embeddings h))"

definition clear_ok :: "'f f32_ops \<Rightarrow> 'f compass_clear \<Rightarrow> 'f plain_hnsw \<Rightarrow> bool" where
  "clear_ok F cx h \<longleftrightarrow> cx_entry cx = ph_entry h \<and> cx_top_layer cx = ph_top_layer h \<and>
     cp_hnsw (cx_params cx) = ph_params h \<and> cx_upper cx = upper_cache h \<and> cx_hints cx = hint_table F h"

text \<open>The clear part of the index of a plaintext graph.\<close>

definition clear_of :: "'f f32_ops \<Rightarrow> 'f compass_params \<Rightarrow> 'f plain_hnsw \<Rightarrow> 'f compass_clear" where
  "clear_of F p h = \<lparr>cx_params = p, cx_entry = ph_entry h, cx_top_layer = ph_top_layer h, cx_upper = upper_cache h,
     cx_hints = hint_table F h\<rparr>"

lemma clear_ok_unique: "clear_ok F cx h \<Longrightarrow> cx_params cx = p \<Longrightarrow> cx = clear_of F p h"
  by (simp add: clear_ok_def clear_of_def)

lemma layer0_list:
  assumes "plain_ok h" and "i < length (ph_embeddings h)"
  shows "list_ok (length (ph_embeddings h)) (max_m (ph_params h) 0) (g_layer0 (ph_graph h) ! i)"
    and "length (g_layer0 (ph_graph h)) = length (ph_embeddings h)"
    and "layer0_blocks h ! i = \<lparr>nb_embedding = ph_embeddings h ! i, nb_neighbors = g_layer0 (ph_graph h) ! i\<rparr>"
  using assms by (auto simp: plain_ok_def graph_ok_def layer0_blocks_def)

lemma upper_key:
  assumes "plain_ok h" and "k < ph_top_layer h" and "x \<in> set (g_upper (ph_graph h) ! k)"
  shows "fst x < length (ph_embeddings h)"
proof -
  have "fst ` set (g_upper (ph_graph h) ! k) \<subseteq> {..<length (ph_embeddings h)}"
    using assms(1,2) by (simp add: plain_ok_def graph_ok_def)
  then show ?thesis using assms(3) by blast
qed

lemma build_upper_layer_cache_Inr:
  assumes "plain_ok h"
  shows "build_upper_layer_cache h = Inr (upper_cache h)"
  unfolding build_upper_layer_cache_def upper_cache_def
proof (rule rmap_Inr, rule rmap_Inr)
  fix layer x assume l: "layer \<in> set (g_upper (ph_graph h))" and x: "x \<in> set layer"
  then obtain k where "k < ph_top_layer h" "layer = g_upper (ph_graph h) ! k"
    using assms by (auto simp: plain_ok_def graph_ok_def in_set_conv_nth)
  then have "fst x < length (ph_embeddings h)" using upper_key [OF assms] x by simp
  then show "(case x of (i, ns) \<Rightarrow> rbind (at (ph_embeddings h) i) (\<lambda>emb. Inr (i, emb, ns))) =
      Inr (case x of (i, ns) \<Rightarrow> (i, ph_embeddings h ! i, ns))"
    by (cases x) (simp add: at_def)
qed

lemma hints_Inr:
  assumes ok: "plain_ok h"
  shows "layer0_directional_hints F h = Inr (hint_table F h)"
  unfolding layer0_directional_hints_def hint_table_def
proof (rule rmap_Inr)
  fix x assume "x \<in> set (enumerate 0 (ph_embeddings h))"
  then obtain i e where x: "x = (i, e)" "i < length (ph_embeddings h)" 
    by (metis add.commute add_0_right in_set_enumerate_eq prod.collapse)
  have "set (g_layer0 (ph_graph h) ! i) \<subseteq> {..<length (ph_embeddings h)}"
    using layer0_list(1) [OF ok x(2)] by (simp add: list_ok_def)
  then have "rmap (\<lambda>n_id. rbind (at (ph_embeddings h) n_id) (\<lambda>n_emb.
      Inr (pack_direction F (map (\<lambda>(n, x). f_sub F n x) (zip n_emb e))))) (g_layer0 (ph_graph h) ! i) =
      Inr (map (\<lambda>j. pack_direction F (map (\<lambda>(n, x). f_sub F n x) (zip (ph_embeddings h ! j) e))) (g_layer0 (ph_graph h) ! i))"
    by (intro rmap_Inr) (auto simp: at_def)
  then show "(case x of (x_id, x_emb) \<Rightarrow> rbind (at (g_layer0 (ph_graph h)) x_id) (\<lambda>neighbours.
      rmap (\<lambda>n_id. rbind (at (ph_embeddings h) n_id) (\<lambda>n_emb.
        Inr (pack_direction F (map (\<lambda>(n, x). f_sub F n x) (zip n_emb x_emb))))) neighbours)) =
      Inr (case x of (i, e) \<Rightarrow> map (\<lambda>j. pack_direction F (map (\<lambda>(n, x). f_sub F n x)
        (zip (ph_embeddings h ! j) e))) (g_layer0 (ph_graph h) ! i))"
    using x layer0_list(2) [OF ok x(2)] by (simp add: at_def)
qed

lemma map_of_map_values: "map_of (map (\<lambda>(i, ns). (i, f i, ns)) al) i = map_option (\<lambda>ns. (f i, ns)) (map_of al i)"
  by (induction al) auto

lemma upper_embedding:
  assumes "clear_ok F cx h" and "plain_ok h"
  shows "upper_layer_embedding cx i l = Some e \<Longrightarrow> i < length (ph_embeddings h) \<and> e = ph_embeddings h ! i"
proof -
  assume e: "upper_layer_embedding cx i l = Some e"
  then have l: "l \<noteq> 0" "l - 1 < length (g_upper (ph_graph h))"
    using assms(1) by (auto simp: upper_layer_embedding_def clear_ok_def upper_cache_def split: if_splits)
  with e obtain ns where ns: "map_of (g_upper (ph_graph h) ! (l - 1)) i = Some ns" "e = ph_embeddings h ! i"
    using assms(1) by (auto simp: upper_layer_embedding_def clear_ok_def upper_cache_def map_of_map_values)
  have "l - 1 < ph_top_layer h" using l assms(2) by (simp add: plain_ok_def graph_ok_def)
  from upper_key [OF assms(2) this map_of_SomeD [OF ns(1)]] show ?thesis using ns(2) by simp
qed

lemma entry_embedding:
  assumes c: "clear_ok F cx h" and p: "plain_ok h" and t: "cx_top_layer cx \<noteq> 0"
  shows "upper_layer_embedding cx (cx_entry cx) (cx_top_layer cx) = Some (ph_embeddings h ! ph_entry h)"
proof -
  let ?l = "ph_top_layer h - 1"
  have l: "?l < length (g_upper (ph_graph h))" using c p t by (simp add: clear_ok_def plain_ok_def graph_ok_def)
  have "map_of (g_upper (ph_graph h) ! ?l) (ph_entry h) \<noteq> None"
    using c p t by (simp add: clear_ok_def plain_ok_def entered_def)
  then obtain ns where "map_of (g_upper (ph_graph h) ! ?l) (ph_entry h) = Some ns" by blast
  then show ?thesis
    using c t l by (simp add: upper_layer_embedding_def clear_ok_def upper_cache_def map_of_map_values)
qed

section \<open>Descending\<close>

lemma descend_scan_ok:
  assumes F: "f32_lt_ok F" and c: "clear_ok F cx h" and p: "plain_ok h" and "cur < length (ph_embeddings h)"
  shows "case descend_scan F cx q l ns (cur, d, improved) of (cur', d', improved') \<Rightarrow>
    cur' < length (ph_embeddings h) \<and>
    closer F (ph_embeddings h) q d' \<subseteq> closer F (ph_embeddings h) q d \<and> (improved \<longrightarrow> improved') \<and>
    (improved' \<longrightarrow> improved \<or> closer F (ph_embeddings h) q d' \<subset> closer F (ph_embeddings h) q d)"
  using assms(4)
proof (induction ns arbitrary: cur d improved)
  case (Cons n ns)
  show ?case
  proof (cases "\<exists>e. upper_layer_embedding cx n l = Some e \<and> f_lt F (cosine_distance F q e) d")
    case True
    then obtain e where e: "upper_layer_embedding cx n l = Some e" "f_lt F (cosine_distance F q e) d" by blast
    from upper_embedding [OF c p e(1)] have n: "n < length (ph_embeddings h)" "e = ph_embeddings h ! n" by simp_all
    note s = closer_shrinks [OF F n(1), of q d]
    have "descend_scan F cx q l (n # ns) (cur, d, improved) = descend_scan F cx q l ns (n, cosine_distance F q e, True)"
      using e by simp
    then show ?thesis using Cons.IH [OF n(1), of "cosine_distance F q e" True] s e(2) n(2) by fastforce
  next
    case False
    then have "descend_scan F cx q l (n # ns) (cur, d, improved) = descend_scan F cx q l ns (cur, d, improved)"
      by (auto split: option.split)
    then show ?thesis using Cons by simp
  qed
qed simp

lemma descend_loop_ok:
  fixes F :: "'f f32_ops"
  assumes F: "f32_lt_ok F" and c: "clear_ok F cx h" and p: "plain_ok h" and "cur < length (ph_embeddings h)"
    and "card (closer F (ph_embeddings h) q d) < fuel"
  shows "ret (descend_loop F cx q l fuel (cur, d) :: ('e, nat \<times> 'f) outcome) (\<lambda>s. fst s < length (ph_embeddings h))"
  using assms(4,5)
proof (induction fuel arbitrary: cur d)
  case (Suc fuel)
  obtain c' d' i' where s: "descend_scan F cx q l (upper_layer_neighbours cx cur l) (cur, d, False) = (c', d', i')"
    by (metis prod_cases3)
  with descend_scan_ok [OF F c p Suc.prems(1), where q = q and l = l and ns = "upper_layer_neighbours cx cur l" and d = d and improved = False]
  have c': "c' < length (ph_embeddings h)"
    "i' \<longrightarrow> closer F (ph_embeddings h) q d' \<subset> closer F (ph_embeddings h) q d" by simp_all
  show ?case
  proof (cases i')
    case True
    then have "card (closer F (ph_embeddings h) q d') < card (closer F (ph_embeddings h) q d)"
      using c'(2) by (simp add: psubset_card_mono closer_finite)
    then show ?thesis using Suc.IH [OF c'(1), of d'] Suc.prems(2) s True by simp
  next
    case False
    then show ?thesis using s c'(1) by simp
  qed
qed simp

section \<open>The directional filter\<close>

lemma score_from_ok:
  "\<forall>j < length qs. (i + j) div 2 < length packed \<Longrightarrow> ret (score_from F packed i qs acc) (\<lambda>_. True)"
proof (induction qs arbitrary: i acc)
  case (Cons x qs)
  have "i div 2 < length packed" using Cons.prems by (metis add_0_right length_greater_0_conv list.distinct(1))
  moreover have "\<forall>j < length qs. (Suc i + j) div 2 < length packed" using Cons.prems by fastforce
  ultimately show ?case using Cons.IH [of "Suc i"] by simp
qed simp

lemma score_packed_ok: "length qs \<le> 2 * length packed \<Longrightarrow> ret (score_packed F packed qs) (\<lambda>_. True)"
  unfolding score_packed_def by (rule score_from_ok) auto

lemma length_pack_direction: "length (pack_direction F d) = (length d + 1) div 2"
  by (simp add: pack_direction_def Let_def)

lemma directional_filter_ok:
  fixes F :: "'f f32_ops"
  assumes c: "clear_ok F cx h" and p: "plain_ok h" and i: "i < length (ph_embeddings h)"
    and q: "length q = hp_dim (ph_params h)"
  shows "ret (directional_filter F cx q i (layer0_blocks h ! i) :: ('e, nat list) outcome)
    (\<lambda>ns. set ns \<subseteq> {..<length (ph_embeddings h)})"
proof -
  let ?n = "length (ph_embeddings h)" and ?nb = "g_layer0 (ph_graph h) ! i" and ?e = "ph_embeddings h ! i"
  let ?dim = "hp_dim (ph_params h)"
  have nb: "set ?nb \<subseteq> {..<?n}" using layer0_list(1) [OF p i] by (simp add: list_ok_def)
  have blk: "layer0_blocks h ! i = \<lparr>nb_embedding = ?e, nb_neighbors = ?nb\<rparr>" by (rule layer0_list(3) [OF p i])
  have dim: "length (ph_embeddings h ! j) = ?dim" if "j < ?n" for j using p that by (simp add: plain_ok_def)
  show ?thesis
  proof (cases "length ?nb \<le> cp_ef_n (cx_params cx)")
    case True
    then show ?thesis using nb blk by (simp add: directional_filter_def)
  next
    case False
    let ?dir = "\<lambda>j. pack_direction F (map (\<lambda>(n, x). f_sub F n x) (zip (ph_embeddings h ! j) ?e))"
    let ?hints = "map ?dir ?nb"
    let ?q = "map (\<lambda>(a, b). f_sub F a b) (zip q ?e)"
    have h: "at (cx_hints cx) i = (Inr ?hints :: ('e, bytes list) outcome)"
      using c i by (simp add: clear_ok_def hint_table_def at_def nth_enumerate_eq)
    have "ret (score_neighbours F ?q (zip ?nb ?hints) :: ('e, ('f \<times> nat) list) outcome)
        (\<lambda>ys. length ys = length (zip ?nb ?hints) \<and> (\<forall>y \<in> set ys. snd y \<in> set ?nb))"
      unfolding score_neighbours_def
    proof (rule ret_rmap)
      fix x assume x: "x \<in> set (zip ?nb ?hints)"
      then obtain j where j: "x = (j, ?dir j)" "j \<in> set ?nb" by (auto simp: zip_map2 in_set_zip)
      have "length (?dir j) = (?dim + 1) div 2"
        using j(2) nb dim i by (simp add: length_pack_direction subset_eq)
      then have "length ?q \<le> 2 * length (?dir j)" using q dim i by simp
      from score_packed_ok [OF this] obtain y where "score_packed F (?dir j) ?q = (Inr y :: ('e, 'f) outcome)"
        by (auto simp: ret_def)
      then show "ret ((case x of (nb, packed) \<Rightarrow> rbind (score_packed F packed ?q) (\<lambda>s. Inr (s, nb))) :: ('e, 'f \<times> nat) outcome)
          (\<lambda>y. snd y \<in> set ?nb)" using j by simp
    qed
    then obtain ys where ys: "score_neighbours F ?q (zip ?nb ?hints) = (Inr ys :: ('e, ('f \<times> nat) list) outcome)"
      "\<forall>y \<in> set ys. snd y \<in> set ?nb" by (auto simp: ret_def)
    have "set (map snd (take k (sort_by bef ys))) \<subseteq> set ?nb" for k and bef :: "'f \<times> nat \<Rightarrow> 'f \<times> nat \<Rightarrow> bool"
      using ys(2) set_take_subset [of k "sort_by bef ys"] by auto
    then show ?thesis using False h ys(1) nb blk by (simp add: directional_filter_def Let_def) blast
  qed
qed

section \<open>The search body\<close>

definition search_beam :: "nat \<Rightarrow> 'f beam \<Rightarrow> bool" where
  "search_beam n b \<longleftrightarrow> beam_ok n [0..<n] b \<and> bm_top b \<noteq> [] \<and> distinct (map cd_id (bm_top b))"

lemma offer_distinct:
  assumes "distinct (map cd_id (bm_top b))" and "cd_id c \<notin> cd_id ` set (bm_top b)" and "beam_offer F ef c b = Inr b'"
  shows "distinct (map cd_id (bm_top b'))"
proof -
  have "distinct (map cd_id rest) \<and> cd_id c \<notin> cd_id ` set rest" if "greatest_of (cand_less F) (bm_top b) = Some (far, rest)" for far rest
  proof -
    note P = pop_least_Some [OF that [unfolded greatest_of_def]]
    have "distinct (bm_top b)" using assms(1) by (simp add: distinct_map)
    then have "distinct rest" unfolding P(2) by (rule distinct_remove1)
    moreover have "inj_on cd_id (set rest)" using assms(1) P(4) by (auto simp: distinct_map intro: inj_on_subset)
    ultimately show ?thesis using assms(2) P(4) by (auto simp: distinct_map)
  qed
  then show ?thesis
    using assms by (auto simp: beam_offer_def split: if_splits option.splits)
qed

lemma visit_neighbour_runs:
  fixes F :: "'f f32_ops" and rd :: "nat \<Rightarrow> ('s, compass_error, 'f node_block) eff"
  assumes rd: "\<And>i. i < length (ph_embeddings h) \<Longrightarrow> runs I (rd i) (plain_node h i) (\<lambda>b. b = layer0_blocks h ! i)"
    and x: "x < length (ph_embeddings h)" and b: "search_beam (length (ph_embeddings h)) b"
  shows "runs I (visit_neighbour F rd q ef x b) (visit_neighbour F (plain_node h) q ef x b)
    (\<lambda>b'. search_beam (length (ph_embeddings h)) b' \<and>
      beam_work (length (ph_embeddings h)) b' \<le> beam_work (length (ph_embeddings h)) b)"
proof (cases "x \<in> set (bm_visited b)")
  case True
  then show ?thesis unfolding visit_neighbour_def using b by (simp add: runs_ereturn del: ereturn_def)
next
  case False
  let ?n = "length (ph_embeddings h)"
  let ?b = "b\<lparr>bm_visited := x # bm_visited b\<rparr>"
  have ok: "beam_ok ?n [0..<?n] ?b" using b x False by (auto simp: search_beam_def beam_ok_def)
  have fresh: "x \<notin> cd_id ` set (bm_top ?b)" using b False by (auto simp: search_beam_def beam_ok_def)
  have grow: "length (bm_visited b) < ?n"
    using beam_grow [of ?n "[0..<?n]" b x] b x False by (simp add: search_beam_def)
  have "runs I (elift (beam_offer F ef c ?b) :: ('s, compass_error, 'f beam) eff) (elift (beam_offer F ef c ?b))
      (\<lambda>b'. search_beam ?n b' \<and> beam_work ?n b' \<le> beam_work ?n b)" if c: "cd_id c = x" for c
  proof (rule runs_elift)
    have "ret (beam_offer F ef c ?b :: (compass_error, 'f beam) outcome) (\<lambda>b'. beam_ok ?n [0..<?n] b' \<and>
        bm_visited b' = bm_visited ?b \<and> bm_top b' \<noteq> [] \<and> length (bm_candidates b') \<le> Suc (length (bm_candidates ?b)))"
      by (rule beam_offer_ok [OF ok]) (use c b in \<open>simp_all add: search_beam_def\<close>)
    then obtain b' where b': "beam_offer F ef c ?b = (Inr b' :: (compass_error, 'f beam) outcome)" "beam_ok ?n [0..<?n] b'"
      "bm_visited b' = bm_visited ?b" "bm_top b' \<noteq> []" "length (bm_candidates b') \<le> Suc (length (bm_candidates ?b))"
      by (auto simp: ret_def)
    moreover have "distinct (map cd_id (bm_top b'))"
      by (rule offer_distinct [OF _ _ b'(1)]) (use b fresh c in \<open>simp_all add: search_beam_def\<close>)
    ultimately show "ret (beam_offer F ef c ?b :: (compass_error, 'f beam) outcome)
        (\<lambda>b'. search_beam ?n b' \<and> beam_work ?n b' \<le> beam_work ?n b)"
      using grow by (simp add: search_beam_def beam_work_def)
  qed
  note offer = this
  have visit: "visit_neighbour F r q ef x b = ebind (r x) (\<lambda>node. elift (beam_offer F ef
      \<lparr>cd_id = x, cd_dist = cosine_distance F q (nb_embedding node)\<rparr> ?b))" for r :: "nat \<Rightarrow> ('t, compass_error, 'f node_block) eff"
    using False by (simp add: visit_neighbour_def)
  show ?thesis unfolding visit by (rule runs_bind [OF rd [OF x]]) (rule offer, simp)
qed

lemma search_loop_runs:
  fixes F :: "'f f32_ops" and rd :: "nat \<Rightarrow> ('s, compass_error, 'f node_block) eff"
  assumes rd: "\<And>i. i < length (ph_embeddings h) \<Longrightarrow> runs I (rd i) (plain_node h i) (\<lambda>b. b = layer0_blocks h ! i)"
    and c: "clear_ok F cx h" and p: "plain_ok h" and q: "length q = hp_dim (ph_params h)"
    and "search_beam (length (ph_embeddings h)) b" and "beam_work (length (ph_embeddings h)) b < fuel"
  shows "runs I (search_loop F cx rd q ef fuel b) (search_loop F cx (plain_node h) q ef fuel b)
    (search_beam (length (ph_embeddings h)))"
  using assms(5,6)
proof (induction fuel arbitrary: b)
  case (Suc fuel)
  let ?n = "length (ph_embeddings h)"
  show ?case
  proof (cases "pop_least (cand_less F) (bm_candidates b)")
    case None
    then show ?thesis unfolding search_loop.simps None option.case using Suc.prems(1) by (intro runs_ereturn)
  next
    case (Some cr)
    then obtain cd rest where pop: "pop_least (cand_less F) (bm_candidates b) = Some (cd, rest)" by (cases cr) auto
    note P = pop_least_Some [OF pop]
    let ?b = "b\<lparr>bm_candidates := rest\<rparr>"
    have B: "beam_ok ?n [0..<?n] b" "bm_top b \<noteq> []" using Suc.prems(1) by (simp_all add: search_beam_def)
    have "cd_id ` set rest \<subseteq> cd_id ` set (bm_candidates b)" by (rule image_mono [OF P(4)])
    then have "cd_id ` set rest \<subseteq> set (bm_visited b)" using B(1) unfolding beam_ok_def by (meson order_trans)
    then have ok: "search_beam ?n ?b" using Suc.prems(1) by (simp add: search_beam_def beam_ok_def)
    have cd: "cd_id cd < ?n" using P(1) B(1) by (auto simp: beam_ok_def)
    have work: "Suc (beam_work ?n ?b) = beam_work ?n b" using P(3) by (simp add: beam_work_def)
    obtain far others where far: "greatest_of (cand_less F) (bm_top b) = Some (far, others)"
      using B(2) pop_least_None by (metis greatest_of_def not_None_eq surj_pair)
    have stop: "ret (beam_done F ef cd (bm_top b)) (\<lambda>_. True)" using far by (simp add: beam_done_def)
    have body: "runs I (ebind (rd (cd_id cd)) (\<lambda>node. ebind (elift (directional_filter F cx q (cd_id cd) node))
          (\<lambda>fetch. ebind (efold (visit_neighbour F rd q ef) fetch ?b) (search_loop F cx rd q ef fuel))))
        (ebind (plain_node h (cd_id cd)) (\<lambda>node. ebind (elift (directional_filter F cx q (cd_id cd) node))
          (\<lambda>fetch. ebind (efold (visit_neighbour F (plain_node h) q ef) fetch ?b) (search_loop F cx (plain_node h) q ef fuel))))
        (search_beam ?n)"
    proof (rule runs_bind [OF rd [OF cd]])
      fix node assume "node = layer0_blocks h ! cd_id cd"
      then have f: "runs I (elift (directional_filter F cx q (cd_id cd) node)) (elift (directional_filter F cx q (cd_id cd) node))
          (\<lambda>ns. set ns \<subseteq> {..<?n})"
        using directional_filter_ok [OF c p cd q] by (intro runs_elift) simp
      show "runs I (ebind (elift (directional_filter F cx q (cd_id cd) node))
          (\<lambda>fetch. ebind (efold (visit_neighbour F rd q ef) fetch ?b) (search_loop F cx rd q ef fuel)))
        (ebind (elift (directional_filter F cx q (cd_id cd) node))
          (\<lambda>fetch. ebind (efold (visit_neighbour F (plain_node h) q ef) fetch ?b) (search_loop F cx (plain_node h) q ef fuel)))
        (search_beam ?n)"
      proof (rule runs_bind [OF f])
        fix fetch assume fetch: "set fetch \<subseteq> {..<?n}"
        have "runs I (efold (visit_neighbour F rd q ef) fetch ?b) (efold (visit_neighbour F (plain_node h) q ef) fetch ?b)
            (\<lambda>b'. search_beam ?n b' \<and> beam_work ?n b' \<le> beam_work ?n ?b)"
        proof (rule runs_efold)
          fix x and acc :: "'f beam" assume x: "x \<in> set fetch" and acc: "search_beam ?n acc \<and> beam_work ?n acc \<le> beam_work ?n ?b"
          then have "x < ?n" using fetch by auto
          from visit_neighbour_runs [OF rd this, of acc F q ef] acc
          show "runs I (visit_neighbour F rd q ef x acc) (visit_neighbour F (plain_node h) q ef x acc)
              (\<lambda>b'. search_beam ?n b' \<and> beam_work ?n b' \<le> beam_work ?n ?b)"
            by (auto elim!: runs_weaken)
        qed (use ok in simp)
        then show "runs I (ebind (efold (visit_neighbour F rd q ef) fetch ?b) (search_loop F cx rd q ef fuel))
            (ebind (efold (visit_neighbour F (plain_node h) q ef) fetch ?b) (search_loop F cx (plain_node h) q ef fuel))
            (search_beam ?n)"
          by (rule runs_bind) (rule Suc.IH, use work Suc.prems(2) in auto)
      qed
    qed
    show ?thesis
      unfolding search_loop.simps pop option.case prod.case
    proof (rule runs_bind [OF runs_elift [OF stop]])
      fix st
      show "runs I (if st then ereturn ?b else ebind (rd (cd_id cd)) (\<lambda>node. ebind (elift (directional_filter F cx q (cd_id cd) node))
          (\<lambda>fetch. ebind (efold (visit_neighbour F rd q ef) fetch ?b) (search_loop F cx rd q ef fuel))))
        (if st then ereturn ?b else ebind (plain_node h (cd_id cd)) (\<lambda>node. ebind (elift (directional_filter F cx q (cd_id cd) node))
          (\<lambda>fetch. ebind (efold (visit_neighbour F (plain_node h) q ef) fetch ?b) (search_loop F cx (plain_node h) q ef fuel))))
        (search_beam ?n)"
        using body ok by (cases st) (simp_all only: if_True if_False runs_ereturn)
    qed
  qed
qed simp

lemma search_inner_runs:
  fixes F :: "'f f32_ops" and rd :: "nat \<Rightarrow> ('s, compass_error, 'f node_block) eff"
  assumes rd: "\<And>i. i < length (ph_embeddings h) \<Longrightarrow> runs I (rd i) (plain_node h i) (\<lambda>b. b = layer0_blocks h ! i)"
    and c: "clear_ok F cx h" and p: "plain_ok h" and q: "length q = hp_dim (ph_params h)"
    and F: "f32_lt_ok F" and ho: "heap_order_ok ho"
  shows "runs I (layered_search_inner F ho cx rd q k) (layered_search_inner F ho cx (plain_node h) q k)
    (\<lambda>ids. length ids \<le> k \<and> distinct ids \<and> set ids \<subseteq> {..<length (ph_embeddings h)})"
  unfolding layered_search_inner_def
proof (rule runs_bind [where R = "\<lambda>_. True"])
  let ?n = "length (ph_embeddings h)"
  have ent: "cx_entry cx < ?n" "cx_entry cx = ph_entry h" using c p by (simp_all add: clear_ok_def plain_ok_def)
  show "runs I (if cx_top_layer cx = 0
      then ebind (rd (cx_entry cx)) (\<lambda>node. ereturn (cosine_distance F q (nb_embedding node)))
      else case upper_layer_embedding cx (cx_entry cx) (cx_top_layer cx) of
        None \<Rightarrow> efault Panic | Some emb \<Rightarrow> ereturn (cosine_distance F q emb))
    (if cx_top_layer cx = 0
      then ebind (plain_node h (cx_entry cx)) (\<lambda>node. ereturn (cosine_distance F q (nb_embedding node)))
      else case upper_layer_embedding cx (cx_entry cx) (cx_top_layer cx) of
        None \<Rightarrow> efault Panic | Some emb \<Rightarrow> ereturn (cosine_distance F q emb)) (\<lambda>_. True)"
  proof (cases "cx_top_layer cx = 0")
    case True
    show ?thesis unfolding if_P [OF True] by (rule runs_bind [OF rd [OF ent(1)]], intro runs_ereturn TrueI)
  next
    case False
    show ?thesis unfolding if_not_P [OF False] entry_embedding [OF c p False] option.case
      by (intro runs_ereturn TrueI)
  qed
next
  fix d0
  let ?n = "length (ph_embeddings h)"
  have ent: "cx_entry cx < ?n" using c p by (simp add: clear_ok_def plain_ok_def)
  have hints: "length (cx_hints cx) = ?n" using c by (simp add: clear_ok_def hint_table_def)
  have desc: "ret (rfold (\<lambda>l. descend_loop F cx q l (Suc (Suc (length (cx_hints cx))))) (rev [1..<Suc (cx_top_layer cx)])
      (cx_entry cx, d0) :: (compass_error, nat \<times> 'f) outcome) (\<lambda>s. fst s < ?n)"
  proof (rule ret_rfold)
    fix l and s :: "nat \<times> 'f" assume s: "fst s < ?n"
    have "card (closer F (ph_embeddings h) q (snd s)) < Suc (Suc ?n)" using closer_card [of F "ph_embeddings h" q "snd s"] by simp
    from descend_loop_ok [OF F c p s this, of l]
    show "ret (descend_loop F cx q l (Suc (Suc (length (cx_hints cx)))) s :: (compass_error, nat \<times> 'f) outcome) (\<lambda>s. fst s < ?n)"
      unfolding hints prod.collapse .
  qed (use ent in simp)
  let ?rest = "\<lambda>rd (current, cur_dist). let ef = max (cp_ef_search (cx_params cx)) k;
         entry_cand = \<lparr>cd_id = current, cd_dist = cur_dist\<rparr> in
     ebind (search_loop F cx rd q ef (Suc (length (cx_hints cx)))
              \<lparr>bm_visited = [current], bm_candidates = [entry_cand], bm_top = [entry_cand]\<rparr>) (\<lambda>b.
     ereturn (map cd_id (take k (sort_by (cand_less F) (ho (bm_top b))))))"
  have last: "runs I (ereturn (map cd_id (take k (sort_by (cand_less F) (ho (bm_top b))))) :: ('s, compass_error, nat list) eff)
      (ereturn (map cd_id (take k (sort_by (cand_less F) (ho (bm_top b))))))
      (\<lambda>ids. length ids \<le> k \<and> distinct ids \<and> set ids \<subseteq> {..<?n})" if b: "search_beam ?n b" for b
  proof (rule runs_ereturn)
    let ?s = "sort_by (cand_less F) (ho (bm_top b))"
    have m: "mset ?s = mset (bm_top b)" using ho by (simp add: heap_order_ok_def)
    then have "mset (map cd_id ?s) = mset (map cd_id (bm_top b))" by simp
    then have d: "distinct (map cd_id ?s)" using b unfolding search_beam_def by (metis mset_eq_imp_distinct_iff)
    have "set ?s = set (bm_top b)" using m by (metis set_mset_mset)
    then have "cd_id ` set ?s \<subseteq> {..<?n}" using b by (auto simp: search_beam_def beam_ok_def)
    moreover have "set (take k ?s) \<subseteq> set ?s" by (rule set_take_subset)
    ultimately have "cd_id ` set (take k ?s) \<subseteq> {..<?n}" by (meson image_mono order_trans)
    moreover have "distinct (take k (map cd_id ?s))" using d by (rule distinct_take)
    ultimately show "length (map cd_id (take k ?s)) \<le> k \<and> distinct (map cd_id (take k ?s)) \<and>
        set (map cd_id (take k ?s)) \<subseteq> {..<?n}" by (simp only: take_map set_map) simp
  qed
  show "runs I (ebind (elift (rfold (\<lambda>l. descend_loop F cx q l (Suc (Suc (length (cx_hints cx)))))
        (rev [1..<Suc (cx_top_layer cx)]) (cx_entry cx, d0))) (?rest rd))
      (ebind (elift (rfold (\<lambda>l. descend_loop F cx q l (Suc (Suc (length (cx_hints cx)))))
        (rev [1..<Suc (cx_top_layer cx)]) (cx_entry cx, d0))) (?rest (plain_node h)))
      (\<lambda>ids. length ids \<le> k \<and> distinct ids \<and> set ids \<subseteq> {..<?n})"
  proof (rule runs_bind [OF runs_elift [OF desc]])
    fix s :: "nat \<times> 'f" assume s: "fst s < ?n"
    obtain cur d where cd: "s = (cur, d)" by fastforce
    let ?b = "\<lparr>bm_visited = [cur], bm_candidates = [\<lparr>cd_id = cur, cd_dist = d\<rparr>], bm_top = [\<lparr>cd_id = cur, cd_dist = d\<rparr>]\<rparr>"
    have b: "search_beam ?n ?b" "beam_work ?n ?b < Suc (length (cx_hints cx))"
      using s cd hints by (auto simp: search_beam_def beam_ok_def beam_work_def)
    show "runs I (?rest rd s) (?rest (plain_node h) s)
        (\<lambda>ids. length ids \<le> k \<and> distinct ids \<and> set ids \<subseteq> {..<?n})"
      unfolding cd prod.case Let_def
    proof (rule runs_bind)
      show "runs I (search_loop F cx rd q (max (cp_ef_search (cx_params cx)) k) (Suc (length (cx_hints cx))) ?b)
          (search_loop F cx (plain_node h) q (max (cp_ef_search (cx_params cx)) k) (Suc (length (cx_hints cx))) ?b)
          (search_beam ?n)"
        by (rule search_loop_runs [OF rd c p q b])
    qed (rule last)
  qed
qed

section \<open>Nodes in the Ring-ORAM\<close>

definition node_frame :: "'f f32_ops \<Rightarrow> nat \<Rightarrow> 'f node_block \<Rightarrow> bytes" where
  "node_frame F bb node = node_bytes F node @
     replicate (bb - (4 * length (nb_embedding node) + 4 + 4 * length (nb_neighbors node))) 0"

text \<open>The content of the Ring-ORAM once nodes below \<open>k\<close> are admitted.\<close>

definition node_store :: "'f f32_ops \<Rightarrow> nat \<Rightarrow> 'f plain_hnsw \<Rightarrow> nat \<Rightarrow> block_id \<Rightarrow> bytes option" where
  "node_store F bb h k = (\<lambda>w. if unat w < k then Some (node_frame F bb (layer0_blocks h ! unat w)) else None)"

definition compass_wf :: "'f f32_ops \<Rightarrow> 'f compass_params \<Rightarrow> 'f list list \<Rightarrow> bool" where
  "compass_wf F p embs \<longleftrightarrow> f32_codec_ok F \<and> f32_lt_ok F \<and> wf_params (cp_oram p) \<and> embs \<noteq> [] \<and>
     (\<forall>e \<in> set embs. length e = hp_dim (cp_hnsw p)) \<and> length embs < 2 ^ 32 \<and>
     max_neighbors_l0 (cp_hnsw p) < 2 ^ 32 \<and>
     serialised_size (hp_dim (cp_hnsw p)) (max_neighbors_l0 (cp_hnsw p)) \<le> block_bytes (cp_oram p)"

definition plain_for :: "'f compass_params \<Rightarrow> 'f list list \<Rightarrow> 'f plain_hnsw \<Rightarrow> bool" where
  "plain_for p embs h \<longleftrightarrow> plain_ok h \<and> ph_params h = cp_hnsw p \<and> ph_embeddings h = embs"

lemma layer0_node:
  assumes "plain_for p embs h" and "compass_wf F p embs" and "i < length embs"
  shows "length (nb_embedding (layer0_blocks h ! i)) = hp_dim (cp_hnsw p)"
    and "length (nb_neighbors (layer0_blocks h ! i)) \<le> max_neighbors_l0 (cp_hnsw p)"
    and "set (nb_neighbors (layer0_blocks h ! i)) \<subseteq> {..<length embs}"
  using assms layer0_list [of h i] by (auto simp: plain_for_def compass_wf_def list_ok_def max_m_def)

lemma serialise_layer0:
  assumes "plain_for p embs h" and wf: "compass_wf F p embs" and "i < length embs"
  shows "serialise_node F (layer0_blocks h ! i) (hp_dim (cp_hnsw p)) (max_neighbors_l0 (cp_hnsw p)) (block_bytes (cp_oram p)) =
      Inr (node_frame F (block_bytes (cp_oram p)) (layer0_blocks h ! i))"
    and "length (node_frame F (block_bytes (cp_oram p)) (layer0_blocks h ! i)) = block_bytes (cp_oram p)"
    and "deserialise_node F (node_frame F (block_bytes (cp_oram p)) (layer0_blocks h ! i)) (hp_dim (cp_hnsw p))
        (max_neighbors_l0 (cp_hnsw p)) = Inr (layer0_blocks h ! i)"
proof -
  note N = layer0_node [OF assms]
  let ?b = "layer0_blocks h ! i" and ?bb = "block_bytes (cp_oram p)"
  have F: "f32_codec_ok F" and room: "serialised_size (hp_dim (cp_hnsw p)) (max_neighbors_l0 (cp_hnsw p)) \<le> ?bb"
    and small: "max_neighbors_l0 (cp_hnsw p) < 2 ^ 32" "length embs < 2 ^ 32"
    using wf by (simp_all add: compass_wf_def)
  show "serialise_node F ?b (hp_dim (cp_hnsw p)) (max_neighbors_l0 (cp_hnsw p)) ?bb = Inr (node_frame F ?bb ?b)"
    using serialise_node_bytes [OF F N(1,2) room] N(1) by (simp add: node_frame_def)
  have "\<forall>w \<in> set (map (f_to_le F) (nb_embedding ?b)). length w = 4" using F by (simp add: f32_codec_ok_def)
  moreover have "\<forall>w \<in> set (map (le_bytes 4) (nb_neighbors ?b)). length w = 4" by simp
  ultimately have "length (node_bytes F ?b) = 4 * length (nb_embedding ?b) + 4 + 4 * length (nb_neighbors ?b)"
    by (simp only: node_bytes_def length_append length_concat_const length_map length_le_bytes)
  then show len: "length (node_frame F ?bb ?b) = ?bb"
    using room N(1,2) by (simp add: node_frame_def serialised_size_def)
  have ids: "\<forall>j \<in> set (nb_neighbors ?b). j < 2 ^ 32" using N(3) small(2) by auto
  have "serialised_size (hp_dim (cp_hnsw p)) (max_neighbors_l0 (cp_hnsw p)) \<le> length (node_frame F ?bb ?b)"
    using len room by simp
  then show "deserialise_node F (node_frame F ?bb ?b) (hp_dim (cp_hnsw p)) (max_neighbors_l0 (cp_hnsw p)) = Inr ?b"
    unfolding node_frame_def by (rule deserialise_node_bytes [OF F N(1,2) small(1) ids])
qed

lemma unat_id: "i < 2 ^ 32 \<Longrightarrow> unat (word_of_nat i :: block_id) = i"
  by (simp add: unat_of_nat take_bit_nat_eq_self)

definition index_ok :: "'b backend_ops \<Rightarrow> ('b \<Rightarrow> nat \<Rightarrow> enc_bucket) \<Rightarrow> ('b \<Rightarrow> bool) \<Rightarrow> 'g oram_ext \<Rightarrow>
    'f f32_ops \<Rightarrow> 'f compass_params \<Rightarrow> 'f plain_hnsw \<Rightarrow> 'f compass_clear \<Rightarrow> ('b, 'g, 'f) compass_index \<Rightarrow> bool" where
  "index_ok be view be_inv X F p h cx idx \<longleftrightarrow> cx_clear idx = cx \<and> params (cx_oram idx) = cp_oram p \<and>
     ready (cx_oram idx) \<and> oram_inv be view be_inv X (cx_oram idx)
       (node_store F (block_bytes (cp_oram p)) h (length (ph_embeddings h)))"

definition idle :: "('b, 'g) oram_client \<Rightarrow> bool" where
  "idle c \<longleftrightarrow> pending_evictions c = 0 \<and> \<not> defer_evictions c"

lemma clocked_idle: "clocked c c' \<Longrightarrow> idle c \<Longrightarrow> idle c' \<and> params c' = params c"
  by (auto simp: clocked_def idle_def same_setup_def split: if_splits)

lemma enumerate_nth: "enumerate 0 xs = map (\<lambda>i. (i, xs ! i)) [0..<length xs]"
  by (rule nth_equalityI) (simp_all add: nth_enumerate_eq)

lemma node_store_Suc:
  assumes "k < 2 ^ 32"
  shows "node_store F bb h (Suc k) = (node_store F bb h k)(word_of_nat k \<mapsto> node_frame F bb (layer0_blocks h ! k))"
proof
  fix w :: block_id
  have "unat w = k \<longleftrightarrow> w = word_of_nat k" using unat_id [OF assms] by (auto simp: word_unat_eq_iff)
  then show "node_store F bb h (Suc k) w = ((node_store F bb h k)(word_of_nat k \<mapsto> node_frame F bb (layer0_blocks h ! k))) w"
    using unat_id [OF assms] by (auto simp: node_store_def less_Suc_eq)
qed

lemma id_not_dummy: "i < 2 ^ 32 - 1 \<Longrightarrow> (word_of_nat i :: block_id) \<noteq> DUMMY"
  unfolding DUMMY_def using unat_id [of i] unat_id [of "2 ^ 32 - 1"] by auto

context block_backend begin

lemma read_node_runs:
  fixes F :: "'f f32_ops"
  assumes X: "ext_ok X" and h: "plain_for p embs h" and wf: "compass_wf F p embs" and cx: "cx_params cx = p"
    and i: "i < length (ph_embeddings h)"
  shows "runs (index_ok be view be_inv X F p h cx) (read_layer0_node be X F i) (plain_node h i)
    (\<lambda>b. b = layer0_blocks h ! i)"
proof -
  have n: "length (ph_embeddings h) = length embs" using h by (simp add: plain_for_def)
  then have ie: "i < length embs" using i by simp
  let ?V = "node_store F (block_bytes (cp_oram p)) h (length (ph_embeddings h))"
  have w: "unat (word_of_nat i :: block_id) = i" using ie wf by (intro unat_id) (simp add: compass_wf_def)
  have V: "?V (word_of_nat i) = Some (node_frame F (block_bytes (cp_oram p)) (layer0_blocks h ! i))"
    unfolding node_store_def w using i by simp
  have "\<exists>s'. read_layer0_node be X F i s = (Inr (layer0_blocks h ! i), s') \<and> index_ok be view be_inv X F p h cx s'"
    if s: "index_ok be view be_inv X F p h cx s" for s
  proof -
    have pre: "oram_inv be view be_inv X (cx_oram s) ?V" "ready (cx_oram s)" "params (cx_oram s) = cp_oram p" "cx_clear s = cx"
      using s by (simp_all add: index_ok_def)
    obtain c' q where c': "oram_read be X (word_of_nat i) (cx_oram s) =
        (Inr (node_frame F (block_bytes (cp_oram p)) (layer0_blocks h ! i)), c')"
      "oram_inv be view be_inv X c' ?V" "clocked (cx_oram s) c'"
      using read_ok [where V = ?V and i = "word_of_nat i", OF pre(1) X pre(2) V] by blast
    have "params c' = cp_oram p" "ready c'"
      using c'(3) pre(2,3) clocked_ready [OF c'(3)] by (simp_all add: clocked_def same_setup_def)
    then show ?thesis
      using c'(1,2) pre(4) cx serialise_layer0(3) [OF h wf ie]
      by (simp add: read_layer0_node_def with_oram_def index_ok_def ebind_def eseq_def eget_def elift_def emodify_def ereturn_def)
  qed
  moreover have "plain_node h i () = (Inr (layer0_blocks h ! i), ())"
    using i h layer0_list(2) [of h i] by (simp add: plain_node_def at_def elift_def layer0_blocks_def plain_for_def)
  ultimately show ?thesis by (simp add: runs_def)
qed

text \<open>A search answers like the plaintext graph and leaves no eviction pending.\<close>

lemma search_ok:
  fixes F :: "'f f32_ops" and X :: "'g oram_ext"
  assumes X: "ext_ok X" and h: "plain_for p embs h" and wf: "compass_wf F p embs" and cx: "cx_params cx = p"
    and c: "clear_ok F cx h" and ho: "heap_order_ok ho" and q: "length q = hp_dim (cp_hnsw p)"
    and idx: "index_ok be view be_inv X F p h cx idx"
  shows "\<exists>ids idx'. search be X F ho q k idx = (Inr ids, idx') \<and> plain_search F ho cx h q k = Inr ids \<and>
    length ids \<le> k \<and> distinct ids \<and> set ids \<subseteq> {..<length embs} \<and>
    index_ok be view be_inv X F p h cx idx' \<and> idle (cx_oram idx')"
proof -
  let ?I = "index_ok be view be_inv X F p h cx"
  have pl: "plain_ok h" "length (ph_embeddings h) = length embs" "ph_params h = cp_hnsw p"
    using h by (simp_all add: plain_for_def)
  have F: "f32_lt_ok F" using wf by (simp add: compass_wf_def)
  have "runs ?I (layered_search_inner F ho cx (read_layer0_node be X F) q k) (layered_search_inner F ho cx (plain_node h) q k)
      (\<lambda>ids. length ids \<le> k \<and> distinct ids \<and> set ids \<subseteq> {..<length (ph_embeddings h)})"
    by (rule search_inner_runs [OF read_node_runs [OF X h wf cx] c pl(1) _ F ho]) (simp_all add: q pl)
  then obtain ids where ids: "layered_search_inner F ho cx (plain_node h) q k () = (Inr ids, ())"
    "length ids \<le> k" "distinct ids" "set ids \<subseteq> {..<length embs}"
    "\<And>s. ?I s \<Longrightarrow> \<exists>s'. layered_search_inner F ho cx (read_layer0_node be X F) q k s = (Inr ids, s') \<and> ?I s'"
    unfolding runs_def pl(2) by blast
  let ?V = "node_store F (block_bytes (cp_oram p)) h (length (ph_embeddings h))"
  let ?idx1 = "idx\<lparr>cx_oram := (cx_oram idx)\<lparr>defer_evictions := True\<rparr>\<rparr>"
  have "ready ((cx_oram idx)\<lparr>defer_evictions := True\<rparr>)" using idx by (auto simp: index_ok_def ready_def)
  then have "?I ?idx1" using idx oram_inv_control(3) [of X "cx_oram idx" ?V True]
    by (simp add: index_ok_def)
  from ids(5) [OF this] obtain idx2 where body: "layered_search_inner F ho cx (read_layer0_node be X F) q k ?idx1 = (Inr ids, idx2)"
    and idx2: "?I idx2" by blast
  let ?c2 = "(cx_oram idx2)\<lparr>defer_evictions := False\<rparr>"
  have inv2: "oram_inv be view be_inv X ?c2 ?V" 
    by (rule oram_inv_control(3)) (use idx2 in \<open>simp add: index_ok_def\<close>)
  obtain c3 where c3: "flush_evictions be X ?c2 = (Inr (), c3)" "oram_inv be view be_inv X c3 ?V" "same_setup ?c2 c3"
    "accesses_since_evict c3 = accesses_since_evict ?c2" "pending_evictions c3 = 0"
    using flush_ok [OF inv2 X] by blast
  have cx1: "cx_clear idx = cx" using idx by (simp add: index_ok_def)
  have len: "length q = hp_dim (cp_hnsw (cx_params cx))" using q cx by simp
  have "search be X F ho q k idx = (Inr ids, idx2\<lparr>cx_oram := c3\<rparr>)"
    unfolding search_def layered_search_def
    using body c3(1) cx1 len
    by (simp add: with_oram_def set_defer_evictions_def ebind_def eseq_def eget_def eassert_def ereturn_def emodify_def)
  moreover have "ready c3" "idle c3" "params c3 = cp_oram p"
    using idx2 c3(3-5) by (auto simp: index_ok_def ready_def same_setup_def idle_def)
  then have "?I (idx2\<lparr>cx_oram := c3\<rparr>)" "idle c3"
    using idx2 c3(2) by (simp_all add: index_ok_def)
  moreover have "plain_search F ho cx h q k = Inr ids" using ids(1) by (simp add: plain_search_def)
  ultimately show ?thesis using ids(2-4) by (intro exI [of _ ids] exI [of _ "idx2\<lparr>cx_oram := c3\<rparr>"]) simp
qed

text \<open>Admitting the nodes one after the other.\<close>

lemma admit_node_ok:
  fixes F :: "'f f32_ops"
  assumes X: "ext_ok X" and h: "plain_for p embs h" and wf: "compass_wf F p embs" and k: "k < length embs"
    and small: "length embs < 2 ^ 32"
    and c: "oram_inv be view be_inv X c (node_store F (block_bytes (cp_oram p)) h k)" "ready c" "params c = cp_oram p" "idle c"
  shows "\<exists>c'. admit_node be X F p (k, layer0_blocks h ! k) c = (Inr (), c') \<and>
    oram_inv be view be_inv X c' (node_store F (block_bytes (cp_oram p)) h (Suc k)) \<and> ready c' \<and> params c' = cp_oram p \<and> idle c'"
proof -
  let ?V = "node_store F (block_bytes (cp_oram p)) h k" and ?f = "node_frame F (block_bytes (cp_oram p)) (layer0_blocks h ! k)"
  have k32: "k < 2 ^ 32" "k < 2 ^ 32 - 1" using k small by simp_all
  have none: "?V (word_of_nat k) = None" unfolding node_store_def unat_id [OF k32(1)] by simp
  have len: "length ?f = block_bytes (params c)" using serialise_layer0(2) [OF h wf k] c(3) by simp
  obtain c' where c': "oram_admit be X (word_of_nat k) ?f c = (Inr (), c')"
    "oram_inv be view be_inv X c' (?V(word_of_nat k \<mapsto> ?f))" "clocked c c'"
    using admit_ok [where V = ?V and i = "word_of_nat k", OF c(1) X c(2) none id_not_dummy [OF k32(2)] len] by blast
  have "take (max_neighbors_l0 (cp_hnsw p)) (nb_neighbors (layer0_blocks h ! k)) = nb_neighbors (layer0_blocks h ! k)"
    using layer0_node(2) [OF h wf k] by simp
  then have "admit_node be X F p (k, layer0_blocks h ! k) c = (Inr (), c')"
    using c'(1) serialise_layer0(1) [OF h wf k] by (simp add: admit_node_def elift_def ebind_def)
  then show ?thesis
    using c'(2) clocked_ready [OF c'(3) c(2)] clocked_idle [OF c'(3) c(4)] c(3)
    by (auto simp: node_store_Suc [OF k32(1)])
qed

lemma admit_all_ok:
  fixes F :: "'f f32_ops"
  assumes "ext_ok X" and "plain_for p embs h" and "compass_wf F p embs" and "length embs < 2 ^ 32" and "k \<le> length embs"
    and "oram_inv be view be_inv X c (node_store F (block_bytes (cp_oram p)) h k)" "ready c" "params c = cp_oram p" "idle c"
  shows "\<exists>c'. efor (map (\<lambda>i. (i, layer0_blocks h ! i)) [k..<length embs]) (admit_node be X F p) c = (Inr (), c') \<and>
    oram_inv be view be_inv X c' (node_store F (block_bytes (cp_oram p)) h (length embs)) \<and> ready c' \<and>
    params c' = cp_oram p \<and> idle c'"
  using assms(5-)
proof (induction "length embs - k" arbitrary: k c)
  case 0
  then show ?case by (simp add: ereturn_def)
next
  case (Suc d)
  then have k: "k < length embs" and split: "[k..<length embs] = k # [Suc k..<length embs]" by (simp_all add: upt_conv_Cons)
  obtain c1 where c1: "admit_node be X F p (k, layer0_blocks h ! k) c = (Inr (), c1)"
    "oram_inv be view be_inv X c1 (node_store F (block_bytes (cp_oram p)) h (Suc k))" "ready c1" "params c1 = cp_oram p" "idle c1"
    using admit_node_ok [OF assms(1-3) k assms(4) Suc.prems(2-5)] by blast
  have d: "d = length embs - Suc k" using Suc.hyps(2) by simp
  have "Suc k \<le> length embs" using k by simp
  from Suc.hyps(1) [OF d this c1(2-5)] obtain c' where
    "efor (map (\<lambda>i. (i, layer0_blocks h ! i)) [Suc k..<length embs]) (admit_node be X F p) c1 = (Inr (), c')"
    "oram_inv be view be_inv X c' (node_store F (block_bytes (cp_oram p)) h (length embs))" "ready c'" "params c' = cp_oram p" "idle c'"
    by blast
  then show ?case unfolding split list.map efor.simps eseq_def ebind_def c1(1) by auto
qed

lemma corpus_ok:
  fixes F :: "'f f32_ops" and X :: "'g oram_ext"
  assumes X: "ext_ok X" and wf: "compass_wf F p embs" and ho: "heap_order_ok ho"
    and b: "start b" and n: "be_num_buckets be b = num_buckets (cp_oram p)"
  shows "\<exists>h cx idx. (hnsw_build F ho draws embs (cp_hnsw p) :: (compass_error, 'f plain_hnsw) outcome) = Inr h \<and>
    plain_for p embs h \<and> clear_ok F cx h \<and> cx_params cx = p \<and>
    from_plaintext_corpus_on be X F sha256 ho draws embs p b = Inr idx \<and>
    index_ok be view be_inv X F p h cx idx \<and> idle (cx_oram idx) \<and> cx_read_count idx = 0"
proof -
  have W: "f32_lt_ok F" "embs \<noteq> []" "\<forall>e \<in> set embs. length e = hp_dim (cp_hnsw p)" "wf_params (cp_oram p)" "length embs < 2 ^ 32"
    using wf by (simp_all add: compass_wf_def)
  obtain h where h: "(hnsw_build F ho draws embs (cp_hnsw p) :: (compass_error, 'f plain_hnsw) outcome) = Inr h"
    "ph_params h = cp_hnsw p" "ph_embeddings h = embs" "ph_entry h < length embs"
    "graph_ok (cp_hnsw p) (length embs) (ph_top_layer h) (ph_graph h)" "entered (ph_entry h) (ph_top_layer h) (ph_graph h)"
    using hnsw_build_ok [OF W(1) ho W(2,3), where 'e = compass_error] by (auto simp: ret_def)
  then have pl: "plain_for p embs h" using W(3) by (simp add: plain_for_def plain_ok_def)
  then have ok: "plain_ok h" by (simp add: plain_for_def)
  let ?key = "derive_test_key sha256 (build_seed (cp_hnsw p)) (ascii ''oram-key'')"
  let ?seed = "derive_test_key sha256 (build_seed (cp_hnsw p)) (ascii ''oram-rng'')"
  obtain c where c: "oram_new be X b (cp_oram p) ?key ?seed = Inr c" "oram_inv be view be_inv X c Map.empty"
    "ready c" "params c = cp_oram p" "\<not> defer_evictions c" "pending_evictions c = 0"
    using oram_new_ok [OF W(4) b n, of X ?key ?seed] by blast
  have "node_store F (block_bytes (cp_oram p)) h 0 = Map.empty" by (simp add: node_store_def fun_eq_iff)
  then have "oram_inv be view be_inv X c (node_store F (block_bytes (cp_oram p)) h 0)" "idle c"
    using c(2,5,6) by (simp_all add: idle_def)
  from admit_all_ok [OF X pl wf W(5) _ this(1) c(3,4) this(2)] obtain c' where
    c': "efor (map (\<lambda>i. (i, layer0_blocks h ! i)) [0..<length embs]) (admit_node be X F p) c = (Inr (), c')"
    "oram_inv be view be_inv X c' (node_store F (block_bytes (cp_oram p)) h (length embs))" "ready c'"
    "params c' = cp_oram p" "idle c'" by blast
  let ?cx = "\<lparr>cx_params = p, cx_entry = ph_entry h, cx_top_layer = ph_top_layer h, cx_upper = upper_cache h,
    cx_hints = hint_table F h\<rparr>"
  let ?idx = "\<lparr>cx_oram = c', cx_clear = ?cx, cx_read_count = 0\<rparr>"
  have "length (layer0_blocks h) = length embs"
    using layer0_list(2) [OF ok] h(3,4) by (simp add: layer0_blocks_def)
  then have "from_plaintext_corpus_on be X F sha256 ho draws embs p b = Inr ?idx"
    using h(1,2) c(1) c'(1)
    by (simp add: from_plaintext_corpus_on_def enumerate_nth build_upper_layer_cache_Inr [OF ok] hints_Inr [OF ok])
  moreover have "clear_ok F ?cx h" using h(2) by (simp add: clear_ok_def)
  moreover have "index_ok be view be_inv X F p h ?cx ?idx" using c' h(3) by (simp add: index_ok_def)
  ultimately show ?thesis using h(1) pl c'(5) by (intro exI [of _ h] exI [of _ ?cx] exI [of _ ?idx]) simp
qed

end

end
