(* ===== verification/Compass_Theorems.thy ===== *)
theory Compass_Theorems
  imports Compass_Correct Oram_Theorems
begin

text \<open>
  The properties of the Compass index: the node and hint codecs, neighbour selection, the
  layered builder, and the encrypted search against the search of the plaintext graph.
  The witnesses use 32-bit words in place of floats, which satisfy every law asked of
  \<open>f32\<close> here.
\<close>

unbundle bit_operations_syntax

definition demo_f32 :: "u32 f32_ops" where
  "demo_f32 = \<lparr>f_lit = of_int, f_add = (+), f_sub = (-), f_mul = (*), f_div = (\<lambda>a b. a div b), f_max = max,
     f_abs = (\<lambda>a. a), f_sqrt = (\<lambda>a. a), f_ln = (\<lambda>a. a), f_neg = (\<lambda>a. a), f_floor = (\<lambda>a. a), f_round = (\<lambda>a. a),
     f_clamp = (\<lambda>a lo hi. a), f_min_positive = 1, f_lt = (<), f_le = (\<le>), f_to_u8 = ucast, f_of_u8 = ucast,
     f_to_u32 = unat, f_to_le = u32_le, f_of_le = u32_of_le\<rparr>"

lemma demo_f32_ok: "f32_codec_ok demo_f32" "f32_lt_ok demo_f32"
  by (auto simp: f32_codec_ok_def f32_lt_ok_def demo_f32_def)

lemma heap_order_id: "heap_order_ok (\<lambda>xs. xs)"
  by (simp add: heap_order_ok_def)

section \<open>Codecs\<close>

text \<open>A layer-0 node whose neighbour ids fit 32 bits serialises into exactly \<open>block_bytes\<close>
  bytes, and these deserialise to the same node.\<close>

theorem node_round_trip:
  assumes "f32_codec_ok F" and "length (nb_embedding node) = dim"
    and "length (nb_neighbors node) \<le> max_neighbors" and "max_neighbors < 2 ^ 32"
    and "\<forall>i \<in> set (nb_neighbors node). i < 2 ^ 32" and "serialised_size dim max_neighbors \<le> bb"
  shows "\<exists>bs. serialise_node F node dim max_neighbors bb = Inr bs \<and> length bs = bb \<and>
    deserialise_node F bs dim max_neighbors = Inr node"
proof -
  let ?bs = "node_frame F bb node"
  have "\<forall>w \<in> set (map (f_to_le F) (nb_embedding node)). length w = 4" using assms(1) by (simp add: f32_codec_ok_def)
  moreover have "\<forall>w \<in> set (map (le_bytes 4) (nb_neighbors node)). length w = 4" by simp
  ultimately have "length (node_bytes F node) = 4 * dim + 4 + 4 * length (nb_neighbors node)"
    using assms(2) by (simp only: node_bytes_def length_append length_concat_const length_map length_le_bytes)
  then have len: "length ?bs = bb" using assms(2,3,6) by (simp add: node_frame_def serialised_size_def)
  then have "deserialise_node F ?bs dim max_neighbors = Inr node"
    using assms(6) unfolding node_frame_def by (intro deserialise_node_bytes [OF assms(1-5)]) simp
  moreover have "serialise_node F node dim max_neighbors bb = Inr ?bs"
    using serialise_node_bytes [OF assms(1-3,6)] assms(2) by (simp add: node_frame_def)
  ultimately show ?thesis using len by blast
qed

theorem node_round_trip_witness:
  "\<exists>bs. serialise_node demo_f32 \<lparr>nb_embedding = [7, 9], nb_neighbors = [300]\<rparr> 2 2 24 = Inr bs \<and> length bs = 24 \<and>
    deserialise_node demo_f32 bs 2 2 = Inr \<lparr>nb_embedding = [7, 9], nb_neighbors = [300]\<rparr>"
  by (rule node_round_trip [OF demo_f32_ok(1)]) (simp_all add: serialised_size_def)

text \<open>Serialising never panics: it reports a wrong dimension first, then too many
  neighbours, then a block too small, each with its numbers, and otherwise succeeds.
  Deserialising fails exactly on a block too small.\<close>

theorem node_codec_errors:
  assumes "f32_codec_ok F"
  shows "serialise_node F node dim max_neighbors bb =
      (if length (nb_embedding node) \<noteq> dim then Inl (Fail (DimMismatch (length (nb_embedding node)) dim))
       else if max_neighbors < length (nb_neighbors node)
       then Inl (Fail (NeighborOverflow (length (nb_neighbors node)) max_neighbors))
       else if bb < serialised_size dim max_neighbors
       then Inl (Fail (BlockTooSmall dim max_neighbors (serialised_size dim max_neighbors) bb))
       else Inr (node_frame F bb node)) \<and>
    ((\<exists>node. deserialise_node F bs dim max_neighbors = Inr node) \<or>
      (length bs < serialised_size dim max_neighbors \<and> deserialise_node F bs dim max_neighbors =
        Inl (Fail (BlockTooSmall dim max_neighbors (serialised_size dim max_neighbors) (length bs)))))"
proof (rule conjI)
  show "serialise_node F node dim max_neighbors bb =
      (if length (nb_embedding node) \<noteq> dim then Inl (Fail (DimMismatch (length (nb_embedding node)) dim))
       else if max_neighbors < length (nb_neighbors node)
       then Inl (Fail (NeighborOverflow (length (nb_neighbors node)) max_neighbors))
       else if bb < serialised_size dim max_neighbors
       then Inl (Fail (BlockTooSmall dim max_neighbors (serialised_size dim max_neighbors) bb))
       else Inr (node_frame F bb node))"
  proof (cases "length (nb_embedding node) = dim \<and> length (nb_neighbors node) \<le> max_neighbors \<and>
      serialised_size dim max_neighbors \<le> bb")
    case True
    then show ?thesis using serialise_node_bytes [OF assms, of node dim max_neighbors bb] by (simp add: node_frame_def)
  next
    case False
    then show ?thesis by (auto simp: serialise_node_def Let_def)
  qed
  show "(\<exists>node. deserialise_node F bs dim max_neighbors = Inr node) \<or>
      (length bs < serialised_size dim max_neighbors \<and> deserialise_node F bs dim max_neighbors =
        Inl (Fail (BlockTooSmall dim max_neighbors (serialised_size dim max_neighbors) (length bs))))"
  proof (cases "length bs < serialised_size dim max_neighbors")
    case True
    then show ?thesis by (simp add: deserialise_node_def Let_def)
  next
    case False
    then have len: "4 * dim + 4 + 4 * max_neighbors \<le> length bs" by (simp add: serialised_size_def)
    have "rmap (\<lambda>i. slice (i * 4) 4 bs) [0..<dim] =
        (Inr (map (\<lambda>i. take 4 (drop (i * 4) bs)) [0..<dim]) :: (codec_error, bytes list) outcome)"
      by (rule rmap_Inr) (use len in \<open>simp add: slice_def\<close>)
    moreover have "slice (4 * dim) 4 bs = (Inr (take 4 (drop (4 * dim) bs)) :: (codec_error, bytes) outcome)"
      using len by (simp add: slice_def)
    moreover have "rmap (\<lambda>i. slice (4 * dim + 4 + i * 4) 4 bs) [0..<min k max_neighbors] =
        (Inr (map (\<lambda>i. take 4 (drop (4 * dim + 4 + i * 4) bs)) [0..<min k max_neighbors]) :: (codec_error, bytes list) outcome)" for k
      by (rule rmap_Inr) (use len in \<open>simp add: slice_def\<close>)
    ultimately show ?thesis using False by (simp add: deserialise_node_def Let_def)
  qed
qed

theorem node_codec_errors_witness:
  "serialise_node demo_f32 \<lparr>nb_embedding = [7], nb_neighbors = [3, 4]\<rparr> 1 1 64 = Inl (Fail (NeighborOverflow 2 1))"
  using node_codec_errors [OF demo_f32_ok(1), of "\<lparr>nb_embedding = [7], nb_neighbors = [3, 4]\<rparr>" 1 1 64] by simp

text \<open>The largest absolute coordinate, floored as the packing does.\<close>

definition direction_scale :: "'f f32_ops \<Rightarrow> 'f list \<Rightarrow> 'f" where
  "direction_scale F d = f_max F (fold (\<lambda>x m. f_max F m x) (map (f_abs F) d) (f_lit F 0)) (f_min_positive F)"

text \<open>Packing a direction and unpacking it gives, coordinate by coordinate, the dequantised
  4-bit code of the coordinate divided by the largest absolute one, for odd and even
  dimensions alike.\<close>

theorem direction_round_trip:
  "unpack_direction F (pack_direction F d) (length d) =
     map (\<lambda>x. dequantise_nibble F (quantise_nibble F (f_div F x (direction_scale F d)))) d \<and>
   length (pack_direction F d) = (length d + 1) div 2"
proof
  let ?qs = "map (\<lambda>x. quantise_nibble F (f_div F x (direction_scale F d))) d"
  let ?out = "replicate ((length d + 1) div 2) (0::u8)"
  have p: "pack_direction F d = pack_nibbles 0 ?qs ?out"
    by (simp add: pack_direction_def direction_scale_def Let_def comp_def)
  have "\<forall>q \<in> set ?qs. q AND 15 = q" by (auto simp: quantise_nibble_def Let_def and.assoc)
  then have "nibble_at (pack_nibbles 0 ?qs ?out) k = ?qs ! k" if "k < length d" for k
    using pack_nibbles_at [of ?qs 0 ?out k] that by simp
  then show "unpack_direction F (pack_direction F d) (length d) =
     map (\<lambda>x. dequantise_nibble F (quantise_nibble F (f_div F x (direction_scale F d)))) d"
    unfolding p unpack_direction_def by (intro nth_equalityI) simp_all
  show "length (pack_direction F d) = (length d + 1) div 2" by (rule length_pack_direction)
qed

section \<open>Neighbour selection and the builder\<close>

text \<open>Algorithm 4 returns at most \<open>m\<close> of the candidates, never \<open>q\<close> itself, and no selected
  node is nearer to an earlier selected one than the distance it was offered with.\<close>

theorem algorithm4_diverse:
  assumes "q < length embs" and "\<forall>c \<in> set cs. cd_id c < length embs"
  shows "\<exists>sel. (algorithm4_select F embs q cs m :: ('e, nat list) outcome) = Inr sel \<and> length sel \<le> m \<and> q \<notin> set sel \<and>
    set sel \<subseteq> cd_id ` set cs \<and>
    (\<forall>j < length sel. \<exists>c \<in> set cs. cd_id c = sel ! j \<and>
      (\<forall>i < j. \<not> f_lt F (cosine_distance F (embs ! (sel ! j)) (embs ! (sel ! i))) (cd_dist c)))"
  using algorithm4_ok [OF assms, of F m] unfolding ret_def selection_ok_def dist_of_def by blast

theorem algorithm4_diverse_witness:
  "\<exists>sel. (algorithm4_select demo_f32 [[1], [2], [3]] 0 [\<lparr>cd_id = 1, cd_dist = 5\<rparr>, \<lparr>cd_id = 2, cd_dist = 4\<rparr>] 1
      :: (unit, nat list) outcome) = Inr sel \<and> length sel \<le> 1 \<and> 0 \<notin> set sel"
  using algorithm4_diverse [of 0 "[[1], [2], [3]]" "[\<lparr>cd_id = 1, cd_dist = 5\<rparr>, \<lparr>cd_id = 2, cd_dist = 4\<rparr>]" demo_f32 1]
  by auto

text \<open>C18: Building returns for every non-empty corpus of the right dimension, whatever levels are
  drawn: every neighbour list holds node ids of the corpus, at most the bound of its layer,
  and the entry node is on every upper layer.\<close>

theorem hnsw_build_sound:
  fixes F :: "'f f32_ops"
  assumes "f32_lt_ok F" and "heap_order_ok ho" and "embs \<noteq> []" and "\<forall>e \<in> set embs. length e = hp_dim p"
  shows "\<exists>h. (hnsw_build F ho draws embs p :: ('e, 'f plain_hnsw) outcome) = Inr h \<and> ph_embeddings h = embs \<and>
    length (g_layer0 (ph_graph h)) = length embs \<and> length (g_upper (ph_graph h)) = ph_top_layer h \<and>
    (\<forall>ns \<in> set (g_layer0 (ph_graph h)). length ns \<le> max_neighbors_l0 p \<and> set ns \<subseteq> {..<length embs}) \<and>
    (\<forall>l < ph_top_layer h. map_of (g_upper (ph_graph h) ! l) (ph_entry h) \<noteq> None \<and>
      (\<forall>i ns. map_of (g_upper (ph_graph h) ! l) i = Some ns \<longrightarrow>
        i < length embs \<and> length ns \<le> max_neighbors_upper p \<and> set ns \<subseteq> {..<length embs}))"
proof -
  obtain h where h: "(hnsw_build F ho draws embs p :: ('e, 'f plain_hnsw) outcome) = Inr h"
    "ph_params h = p" "ph_embeddings h = embs" "ph_entry h < length embs"
    and g: "graph_ok p (length embs) (ph_top_layer h) (ph_graph h)"
    and e: "entered (ph_entry h) (ph_top_layer h) (ph_graph h)"
    using hnsw_build_ok [OF assms, where 'e = 'e] by (auto simp: ret_def)
  have "plain_ok h" using h g e assms(4) by (simp add: plain_ok_def)
  then have key: "i < length embs" if "l < ph_top_layer h" "map_of (g_upper (ph_graph h) ! l) i = Some ns" for l i ns
    using upper_key [of h l "(i, ns)"] map_of_SomeD [OF that(2)] that(1) h(3) by simp
  have "\<forall>ns \<in> set (g_layer0 (ph_graph h)). length ns \<le> max_neighbors_l0 p \<and> set ns \<subseteq> {..<length embs}"
  proof
    fix ns assume "ns \<in> set (g_layer0 (ph_graph h))"
    then obtain i where "i < length embs" "ns = g_layer0 (ph_graph h) ! i"
      using g by (metis graph_ok_def in_set_conv_nth)
    then show "length ns \<le> max_neighbors_l0 p \<and> set ns \<subseteq> {..<length embs}"
      using g by (simp add: graph_ok_def list_ok_def max_m_def)
  qed
  moreover have "\<forall>l < ph_top_layer h. map_of (g_upper (ph_graph h) ! l) (ph_entry h) \<noteq> None \<and>
      (\<forall>i ns. map_of (g_upper (ph_graph h) ! l) i = Some ns \<longrightarrow>
        i < length embs \<and> length ns \<le> max_neighbors_upper p \<and> set ns \<subseteq> {..<length embs})"
  proof (intro allI impI conjI)
    fix l assume l: "l < ph_top_layer h"
    then show "map_of (g_upper (ph_graph h) ! l) (ph_entry h) \<noteq> None" using e by (simp add: entered_def)
    fix i ns assume ns: "map_of (g_upper (ph_graph h) ! l) i = Some ns"
    from key [OF l ns] show "i < length embs" .
    have "list_ok (length embs) (max_m p (Suc l)) ns" using g l ns unfolding graph_ok_def by blast
    then show "length ns \<le> max_neighbors_upper p" "set ns \<subseteq> {..<length embs}"
      by (simp_all add: list_ok_def max_m_def)
  qed
  moreover have "length (g_layer0 (ph_graph h)) = length embs" "length (g_upper (ph_graph h)) = ph_top_layer h"
    using g by (simp_all add: graph_ok_def)
  ultimately show ?thesis using h(1,3) by blast
qed

definition demo_hnsw :: "u32 hnsw_params" where
  "demo_hnsw = \<lparr>hp_dim = 1, max_neighbors_l0 = 2, max_neighbors_upper = 1, ef_construction = 2, hp_ml = 1,
     build_seed = [], use_algorithm4 = True\<rparr>"

definition demo_draws :: "bytes \<Rightarrow> nat \<Rightarrow> u32" where
  "demo_draws seed i = (if i = 1 then 1 else 0)"

theorem hnsw_build_sound_witness:
  "\<exists>h. (hnsw_build demo_f32 (\<lambda>xs. xs) demo_draws [[1], [2], [3]] demo_hnsw :: (unit, u32 plain_hnsw) outcome) = Inr h \<and>
    ph_embeddings h = [[1], [2], [3]] \<and> length (g_layer0 (ph_graph h)) = 3"
  using hnsw_build_sound [OF demo_f32_ok(2) heap_order_id, of "[[1], [2], [3]]" demo_hnsw demo_draws, where 'e = unit]
  by (auto simp: demo_hnsw_def)

section \<open>Encrypted search\<close>

text \<open>A series of searches.\<close>

fun search_all :: "'b backend_ops \<Rightarrow> 'g oram_ext \<Rightarrow> 'f f32_ops \<Rightarrow> ('f candidate list \<Rightarrow> 'f candidate list) \<Rightarrow>
    ('f list \<times> nat) list \<Rightarrow> ('b, 'g, 'f) compass_index \<Rightarrow>
    (compass_error, nat list) outcome list \<times> ('b, 'g, 'f) compass_index" where
  "search_all be X F ho [] idx = ([], idx)"
| "search_all be X F ho ((q, k) # qs) idx =
     (let (r, idx') = search be X F ho q k idx; (rs, idx'') = search_all be X F ho qs idx' in (r # rs, idx''))"

context block_backend
begin

lemma search_all_ok:
  fixes F :: "'f f32_ops" and X :: "'g oram_ext"
  assumes X: "ext_ok X" and h: "plain_for p embs h" and wf: "compass_wf F p embs" and c: "clear_ok F cx h"
    and cx: "cx_params cx = p" and ho: "heap_order_ok ho"
    and "\<forall>qk \<in> set qs. length (fst qk) = hp_dim (cp_hnsw p)"
    and "index_ok be view be_inv X F p h cx idx" and "idle (cx_oram idx)"
  shows "\<exists>idx'. search_all be X F ho qs idx = (map (\<lambda>(q, k). plain_search F ho cx h q k) qs, idx') \<and>
    (\<forall>(q, k) \<in> set qs. \<exists>ids. plain_search F ho cx h q k = Inr ids \<and> length ids \<le> k \<and> distinct ids \<and> set ids \<subseteq> {..<length embs}) \<and>
    idle (cx_oram idx')"
  using assms(7-9)
proof (induction qs arbitrary: idx)
  case (Cons qk qs)
  obtain q k where qk: "qk = (q, k)" by fastforce
  with Cons.prems(1) have q: "length q = hp_dim (cp_hnsw p)" by simp
  obtain ids idx1 where s: "search be X F ho q k idx = (Inr ids, idx1)" "plain_search F ho cx h q k = Inr ids"
    "length ids \<le> k" "distinct ids" "set ids \<subseteq> {..<length embs}"
    "index_ok be view be_inv X F p h cx idx1" "idle (cx_oram idx1)"
    using search_ok [OF X h wf cx c ho q Cons.prems(2), of k] by blast
  have "\<forall>qk \<in> set qs. length (fst qk) = hp_dim (cp_hnsw p)" using Cons.prems(1) by simp
  from Cons.IH [OF this s(6,7)] obtain idx2 where
    "search_all be X F ho qs idx1 = (map (\<lambda>(q, k). plain_search F ho cx h q k) qs, idx2)"
    "\<forall>(q, k) \<in> set qs. \<exists>ids. plain_search F ho cx h q k = Inr ids \<and> length ids \<le> k \<and> distinct ids \<and> set ids \<subseteq> {..<length embs}"
    "idle (cx_oram idx2)" by blast
  with s qk show ?case by simp
qed simp

end

lemma corpus_mem_ok:
  fixes F :: "'f f32_ops" and X :: "'g oram_ext"
  assumes "ext_ok X" and wf: "compass_wf F p embs" and "heap_order_ok ho"
  shows "\<exists>h idx. (hnsw_build F ho draws embs (cp_hnsw p) :: (compass_error, 'f plain_hnsw) outcome) = Inr h \<and>
    plain_for p embs h \<and> clear_ok F (clear_of F p h) h \<and> from_plaintext_corpus X F sha256 ho draws embs p = Inr idx \<and>
    index_ok mem_ops mem_view mem_inv X F p h (clear_of F p h) idx \<and> idle (cx_oram idx)"
proof -
  obtain h cx idx where "(hnsw_build F ho draws embs (cp_hnsw p) :: (compass_error, 'f plain_hnsw) outcome) = Inr h"
    "plain_for p embs h" "clear_ok F cx h" "cx_params cx = p"
    "from_plaintext_corpus_on mem_ops X F sha256 ho draws embs p (mem_new (num_buckets (cp_oram p))) = Inr idx"
    "index_ok mem_ops mem_view mem_inv X F p h cx idx" "idle (cx_oram idx)"
    using mem.corpus_ok [OF assms mem_new_inv [OF num_buckets_less] mem_new_num [OF num_buckets_less]] by blast
  then show ?thesis using clear_ok_unique [of F cx h p] by (auto simp: from_plaintext_corpus_def)
qed

text \<open>C15: An index built from a corpus over the in-memory backend answers every series of
  queries exactly like a search of the plaintext graph it was built from: node ids, order
  and length included, with no error, panic or endless loop, whatever evictions the
  Ring-ORAM defers and flushes in between.\<close>

theorem compass_search_refines:
  fixes F :: "'f f32_ops" and X :: "'g oram_ext"
  assumes "ext_ok X" and "compass_wf F p embs" and "heap_order_ok ho"
    and "\<forall>qk \<in> set qs. length (fst qk) = hp_dim (cp_hnsw p)"
  shows "\<exists>h idx idx'. (hnsw_build F ho draws embs (cp_hnsw p) :: (compass_error, 'f plain_hnsw) outcome) = Inr h \<and>
    from_plaintext_corpus X F sha256 ho draws embs p = Inr idx \<and>
    search_all mem_ops X F ho qs idx = (map (\<lambda>(q, k). plain_search F ho (clear_of F p h) h q k) qs, idx')"
proof -
  obtain h idx where h: "(hnsw_build F ho draws embs (cp_hnsw p) :: (compass_error, 'f plain_hnsw) outcome) = Inr h"
    "plain_for p embs h" "clear_ok F (clear_of F p h) h" "from_plaintext_corpus X F sha256 ho draws embs p = Inr idx"
    "index_ok mem_ops mem_view mem_inv X F p h (clear_of F p h) idx" "idle (cx_oram idx)"
    using corpus_mem_ok [OF assms(1-3)] by blast
  have "cx_params (clear_of F p h) = p" by (simp add: clear_of_def)
  from mem.search_all_ok [OF assms(1) h(2) assms(2) h(3) this assms(3,4) h(5,6)] h(1,4) show ?thesis by blast
qed

text \<open>C17: Every search of a built index returns at most \<open>k\<close> different ids of the corpus, and
  leaves the Ring-ORAM with no pending eviction and with inline eviction switched on again.\<close>

theorem compass_search_returns:
  fixes F :: "'f f32_ops" and X :: "'g oram_ext"
  assumes "ext_ok X" and "compass_wf F p embs" and "heap_order_ok ho"
    and "\<forall>qk \<in> set qs. length (fst qk) = hp_dim (cp_hnsw p)" and "length q = hp_dim (cp_hnsw p)"
  shows "\<exists>idx ids idx'. from_plaintext_corpus X F sha256 ho draws embs p = Inr idx \<and>
    search mem_ops X F ho q k (snd (search_all mem_ops X F ho qs idx)) = (Inr ids, idx') \<and>
    length ids \<le> k \<and> distinct ids \<and> set ids \<subseteq> {..<length embs} \<and>
    pending_evictions (cx_oram idx') = 0 \<and> \<not> defer_evictions (cx_oram idx')"
proof -
  obtain h idx where h: "plain_for p embs h" "clear_ok F (clear_of F p h) h" "from_plaintext_corpus X F sha256 ho draws embs p = Inr idx"
    "index_ok mem_ops mem_view mem_inv X F p h (clear_of F p h) idx"
    using corpus_mem_ok [OF assms(1-3)] by blast
  have cx: "cx_params (clear_of F p h) = p" by (simp add: clear_of_def)
  have "index_ok mem_ops mem_view mem_inv X F p h (clear_of F p h) (snd (search_all mem_ops X F ho qs idx))"
    using assms(4) h(4)
  proof (induction qs arbitrary: idx)
    case (Cons qk qs)
    obtain q' k' where qk: "qk = (q', k')" by fastforce
    with Cons.prems(1) have q': "length q' = hp_dim (cp_hnsw p)" by simp
    obtain ids idx1 where "search mem_ops X F ho q' k' idx = (Inr ids, idx1)"
      "index_ok mem_ops mem_view mem_inv X F p h (clear_of F p h) idx1"
      using mem.search_ok [OF assms(1) h(1) assms(2) cx h(2) assms(3) q' Cons.prems(2), of k'] by blast
    then show ?case using Cons.IH [of idx1] Cons.prems(1) qk by (simp add: case_prod_unfold Let_def)
  qed simp
  from mem.search_ok [OF assms(1) h(1) assms(2) cx h(2) assms(3,5) this, of k] h(3) show ?thesis
    unfolding idle_def by blast
qed

text \<open>A query of the wrong dimension panics before anything is read or changed.\<close>

theorem compass_wrong_dimension:
  assumes "length q \<noteq> hp_dim (cp_hnsw (cx_params (cx_clear idx)))"
  shows "search be X F ho q k idx = (Inl Panic, idx)"
  using assms by (simp add: search_def layered_search_def eassert_def efault_def ebind_def eseq_def eget_def)

definition demo_compass :: "u32 compass_params" where
  "demo_compass = \<lparr>cp_hnsw = demo_hnsw,
     cp_oram = \<lparr>ring_z = 1, ring_s = 1, ring_a = 2, block_bytes = 16, n_leaves = 2, treetop_levels = 1\<rparr>,
     cp_ef_search = 2, cp_ef_n = 1\<rparr>"

lemma demo_compass_wf: "compass_wf demo_f32 demo_compass [[1], [2], [3]]"
  using demo_f32_ok by (simp add: compass_wf_def demo_compass_def demo_hnsw_def wf_params_def serialised_size_def)

theorem compass_search_refines_witness:
  "\<exists>h idx idx'. (hnsw_build demo_f32 (\<lambda>xs. xs) demo_draws [[1], [2], [3]] demo_hnsw :: (compass_error, u32 plain_hnsw) outcome) = Inr h \<and>
    from_plaintext_corpus demo_ext demo_f32 (\<lambda>s. s) (\<lambda>xs. xs) demo_draws [[1], [2], [3]] demo_compass = Inr idx \<and>
    search_all mem_ops demo_ext demo_f32 (\<lambda>xs. xs) [([2], 2), ([3], 1)] idx =
      ([plain_search demo_f32 (\<lambda>xs. xs) (clear_of demo_f32 demo_compass h) h [2] 2,
        plain_search demo_f32 (\<lambda>xs. xs) (clear_of demo_f32 demo_compass h) h [3] 1], idx')"
  using compass_search_refines [OF demo_ext_ok demo_compass_wf heap_order_id, of "[([2], 2), ([3], 1)]" demo_draws "\<lambda>s. s"]
  by (simp add: demo_compass_def demo_hnsw_def)

theorem compass_search_returns_witness:
  "\<exists>idx ids idx'. from_plaintext_corpus demo_ext demo_f32 (\<lambda>s. s) (\<lambda>xs. xs) demo_draws [[1], [2], [3]] demo_compass = Inr idx \<and>
    search mem_ops demo_ext demo_f32 (\<lambda>xs. xs) [3] 2 (snd (search_all mem_ops demo_ext demo_f32 (\<lambda>xs. xs) [([2], 2)] idx)) = (Inr ids, idx') \<and>
    length ids \<le> 2 \<and> distinct ids \<and> set ids \<subseteq> {..<3}"
  using compass_search_returns [OF demo_ext_ok demo_compass_wf heap_order_id, of "[([2], 2)]" "[3]" "\<lambda>s. s" demo_draws 2]
  by (fastforce simp: demo_compass_def demo_hnsw_def)

theorem compass_wrong_dimension_witness:
  "search mem_ops demo_ext demo_f32 (\<lambda>xs. xs) [1, 2] 1
     \<lparr>cx_oram = demo_run demo_params [], cx_clear = \<lparr>cx_params = demo_compass, cx_entry = 0, cx_top_layer = 0, cx_upper = [], cx_hints = []\<rparr>,
      cx_read_count = 0\<rparr> =
   (Inl Panic, \<lparr>cx_oram = demo_run demo_params [], cx_clear = \<lparr>cx_params = demo_compass, cx_entry = 0, cx_top_layer = 0, cx_upper = [], cx_hints = []\<rparr>,
      cx_read_count = 0\<rparr>)"
  by (rule compass_wrong_dimension) (simp add: demo_compass_def demo_hnsw_def)

end
