(* ===== verification/Keying.thy ===== *)
theory Keying
  imports Rust_Text
begin

text \<open>
  The two-party key derivation of \<^verbatim>\<open>crates/core/src/keying.rs\<close>: the public scheme
  parameters, the two HKDF policies, the keys they derive and the canonical bytes of a
  scheme identity.  HKDF and SHA-256 are parameters.  An \<open>f32\<close> parameter is its bit
  pattern, which is all this module reads of it.
\<close>

section \<open>Formatting of integers\<close>

definition digit :: "nat \<Rightarrow> u8" where
  "digit d = word_of_nat (if d < 10 then 48 + d else 87 + d)"

fun show_nat :: "nat \<Rightarrow> str" where
  "show_nat n = (if n < 10 then [digit n] else show_nat (n div 10) @ [digit (n mod 10)])"

declare show_nat.simps [simp del]

text \<open>\<open>{:0kx}\<close>, for a number of at most \<open>k\<close> hexadecimal digits.\<close>

fun show_hex :: "nat \<Rightarrow> nat \<Rightarrow> str" where
  "show_hex 0 n = []"
| "show_hex (Suc k) n = show_hex k (n div 16) @ [digit (n mod 16)]"

section \<open>Public parameters\<close>

type_synonym tenant_id = str
type_synonym f32_bits = u32

record scheme_params =
  sp_scale :: f32_bits
  sp_beta :: f32_bits

definition default_scheme_params :: scheme_params where
  "default_scheme_params = \<lparr>sp_scale = 0x42000000, sp_beta = 0x3E19999A\<rparr>"

datatype hnsw_heuristic = Algorithm4 | Simple

record compass_public =
  ring_oram_z :: nat
  ring_oram_s :: nat
  ring_oram_a :: nat
  oram_block_bytes :: nat
  hnsw_m :: nat
  hnsw_ef :: nat
  hnsw_ef_spec :: nat
  hnsw_ef_n :: nat
  oram_treetop_levels :: nat
  directional_hint_bits :: nat
  hnsw_m_l0 :: nat
  hnsw_m_upper :: nat
  hnsw_ef_construction :: nat
  hnsw_ml_bits :: f32_bits
  hnsw_neighbour_heuristic :: hnsw_heuristic
  hnsw_build_seed :: bytes

text \<open>\<open>ml_bits m\<close> is \<^verbatim>\<open>(1.0_f32 / (m as f32).ln()).to_bits()\<close>.\<close>

definition default_compass_public :: "(bytes \<Rightarrow> bytes) \<Rightarrow> (nat \<Rightarrow> f32_bits) \<Rightarrow> compass_public" where
  "default_compass_public sha256 ml_bits = \<lparr>ring_oram_z = 4, ring_oram_s = 5, ring_oram_a = 3, oram_block_bytes = 2048,
     hnsw_m = 12, hnsw_ef = 64, hnsw_ef_spec = 16, hnsw_ef_n = 4, oram_treetop_levels = 4, directional_hint_bits = 4,
     hnsw_m_l0 = 2 * 12, hnsw_m_upper = 12, hnsw_ef_construction = 200, hnsw_ml_bits = ml_bits 12,
     hnsw_neighbour_heuristic = Algorithm4, hnsw_build_seed = sha256 (ascii ''gelo-rag.v2.hnsw-build-seed.default'')\<rparr>"

record xormm_public =
  xp_volume_bound :: nat
  xp_stash_size :: nat

definition default_xormm_public :: xormm_public where
  "default_xormm_public = \<lparr>xp_volume_bound = 64, xp_stash_size = 128\<rparr>"

record lightrag_params =
  lr_top_k :: nat
  lr_chunk_top_k :: nat
  max_entity_tokens :: nat
  max_relation_tokens :: nat
  max_total_tokens :: nat
  search_perturb_epsilon :: f32_bits

definition default_lightrag_params :: lightrag_params where
  "default_lightrag_params = \<lparr>lr_top_k = 20, lr_chunk_top_k = 60, max_entity_tokens = 4000, max_relation_tokens = 4000,
     max_total_tokens = 32000, search_perturb_epsilon = 0x3CA3D70A\<rparr>"

record scheme_params_v2 =
  v2_caprise :: scheme_params
  v2_compass :: compass_public
  v2_xormm :: xormm_public
  v2_lightrag :: lightrag_params

definition default_scheme_params_v2 :: "(bytes \<Rightarrow> bytes) \<Rightarrow> (nat \<Rightarrow> f32_bits) \<Rightarrow> scheme_params_v2" where
  "default_scheme_params_v2 sha256 ml_bits = \<lparr>v2_caprise = default_scheme_params,
     v2_compass = default_compass_public sha256 ml_bits, v2_xormm = default_xormm_public,
     v2_lightrag = default_lightrag_params\<rparr>"

section \<open>Key derivation\<close>

text \<open>\<open>hkdf salt ikm info len\<close>: one extract and one expand.\<close>

type_synonym hkdf = "bytes \<Rightarrow> bytes \<Rightarrow> bytes \<Rightarrow> nat \<Rightarrow> bytes"

record hkdf_policy =
  hp_version :: str
  hp_caprise_info :: str
  hp_aes_info :: str
  hp_salt_label :: str

definition policy_V1 :: hkdf_policy where
  "policy_V1 = \<lparr>hp_version = ascii ''gelo-rag.v1'', hp_caprise_info = ascii ''gelo-rag.v1.caprise.seed'',
     hp_aes_info = ascii ''gelo-rag.v1.aes-chunks'', hp_salt_label = ascii ''tenant_id''\<rparr>"

definition derive_v1 :: "hkdf \<Rightarrow> hkdf_policy \<Rightarrow> bytes \<Rightarrow> bytes \<Rightarrow> tenant_id \<Rightarrow> bytes \<times> bytes" where
  "derive_v1 hkdf po user_x_sk tee_user_x_sk tenant =
     (let ikm = user_x_sk @ tee_user_x_sk in
      (hkdf tenant ikm (hp_caprise_info po) 32, hkdf tenant ikm (hp_aes_info po) 32))"

record hkdf_policy_v2 =
  p2_version :: str
  p2_caprise_info :: str
  p2_aes_info :: str
  p2_oram_entities_info :: str
  p2_oram_relations_info :: str
  p2_oram_chunks_info :: str
  p2_emm_adjacency_info :: str
  p2_emm_src_chunks_info :: str
  p2_search_pattern_info :: str
  p2_salt_label :: str

definition policy_V2 :: hkdf_policy_v2 where
  "policy_V2 = \<lparr>p2_version = ascii ''gelo-rag.v2'', p2_caprise_info = ascii ''gelo-rag.v2.caprise.seed'',
     p2_aes_info = ascii ''gelo-rag.v2.aes-chunks'', p2_oram_entities_info = ascii ''gelo-rag.v2.oram-entities'',
     p2_oram_relations_info = ascii ''gelo-rag.v2.oram-relations'', p2_oram_chunks_info = ascii ''gelo-rag.v2.oram-chunks'',
     p2_emm_adjacency_info = ascii ''gelo-rag.v2.emm-adjacency'', p2_emm_src_chunks_info = ascii ''gelo-rag.v2.emm-src-chunks'',
     p2_search_pattern_info = ascii ''gelo-rag.v2.search-pattern'', p2_salt_label = ascii ''tenant_id''\<rparr>"

record derived_keys_v2 =
  caprise_seed :: bytes
  aes_chunk_key :: bytes
  oram_entities_key :: bytes
  oram_relations_key :: bytes
  oram_chunks_key :: bytes
  emm_adjacency_key :: bytes
  emm_src_chunks_key :: bytes
  search_pattern_key :: bytes

definition derive_v2 :: "hkdf \<Rightarrow> hkdf_policy_v2 \<Rightarrow> bytes \<Rightarrow> bytes \<Rightarrow> tenant_id \<Rightarrow> derived_keys_v2" where
  "derive_v2 hkdf po user_x_sk tee_user_x_sk tenant =
     (let ikm = user_x_sk @ tee_user_x_sk;
          expand = (\<lambda>info. hkdf tenant ikm info 32)
      in \<lparr>caprise_seed = expand (p2_caprise_info po), aes_chunk_key = expand (p2_aes_info po),
          oram_entities_key = expand (p2_oram_entities_info po), oram_relations_key = expand (p2_oram_relations_info po),
          oram_chunks_key = expand (p2_oram_chunks_info po), emm_adjacency_key = expand (p2_emm_adjacency_info po),
          emm_src_chunks_key = expand (p2_emm_src_chunks_info po), search_pattern_key = expand (p2_search_pattern_info po)\<rparr>)"

section \<open>Scheme identity\<close>

text \<open>One line of the canonical encoding.\<close>

definition line :: "string \<Rightarrow> str \<Rightarrow> str" where
  "line label v = ascii label @ v @ [10]"

definition hex_bits :: "f32_bits \<Rightarrow> str" where
  "hex_bits b = ascii ''0x'' @ show_hex 8 (unat b)"

definition scheme_identity_fragment_v1 :: "hkdf_policy \<Rightarrow> scheme_params \<Rightarrow> bytes" where
  "scheme_identity_fragment_v1 po p =
     line '''' (hp_version po) @ line ''kdf=hkdf-sha256'' [] @
     line ''kdf-info-caprise='' (hp_caprise_info po) @ line ''kdf-info-aes='' (hp_aes_info po) @
     line ''kdf-salt='' (hp_salt_label po) @
     line ''caprise-scale-bits='' (hex_bits (sp_scale p)) @ line ''caprise-beta-bits='' (hex_bits (sp_beta p))"

definition scheme_identity_digest_v1 :: "(bytes \<Rightarrow> bytes) \<Rightarrow> hkdf_policy \<Rightarrow> scheme_params \<Rightarrow> bytes" where
  "scheme_identity_digest_v1 sha256 po p = sha256 (scheme_identity_fragment_v1 po p)"

definition scheme_identity_fragment :: "hkdf_policy_v2 \<Rightarrow> scheme_params_v2 \<Rightarrow> bytes" where
  "scheme_identity_fragment po ps =
     line '''' (p2_version po) @ line ''kdf=hkdf-sha256'' [] @
     line ''kdf-info-caprise='' (p2_caprise_info po) @ line ''kdf-info-aes='' (p2_aes_info po) @
     line ''kdf-info-oram-entities='' (p2_oram_entities_info po) @
     line ''kdf-info-oram-relations='' (p2_oram_relations_info po) @
     line ''kdf-info-oram-chunks='' (p2_oram_chunks_info po) @
     line ''kdf-info-emm-adjacency='' (p2_emm_adjacency_info po) @
     line ''kdf-info-emm-src-chunks='' (p2_emm_src_chunks_info po) @
     line ''kdf-info-search-pattern='' (p2_search_pattern_info po) @
     line ''kdf-salt='' (p2_salt_label po) @
     line ''caprise-scale-bits='' (hex_bits (sp_scale (v2_caprise ps))) @
     line ''caprise-beta-bits='' (hex_bits (sp_beta (v2_caprise ps))) @
     (let c = v2_compass ps in
      line ''compass-z='' (show_nat (ring_oram_z c)) @ line ''compass-s='' (show_nat (ring_oram_s c)) @
      line ''compass-a='' (show_nat (ring_oram_a c)) @ line ''compass-block-bytes='' (show_nat (oram_block_bytes c)) @
      line ''compass-hnsw-m='' (show_nat (hnsw_m c)) @ line ''compass-hnsw-ef='' (show_nat (hnsw_ef c)) @
      line ''compass-hnsw-ef-spec='' (show_nat (hnsw_ef_spec c)) @ line ''compass-hnsw-ef-n='' (show_nat (hnsw_ef_n c)) @
      line ''compass-treetop-levels='' (show_nat (oram_treetop_levels c)) @
      line ''compass-hint-bits='' (show_nat (directional_hint_bits c)) @
      line ''compass-hnsw-m-l0='' (show_nat (hnsw_m_l0 c)) @ line ''compass-hnsw-m-upper='' (show_nat (hnsw_m_upper c)) @
      line ''compass-hnsw-ef-construction='' (show_nat (hnsw_ef_construction c)) @
      line ''compass-hnsw-ml-bits='' (hex_bits (hnsw_ml_bits c)) @
      line ''compass-hnsw-neighbour-heuristic=''
        (case hnsw_neighbour_heuristic c of Algorithm4 \<Rightarrow> ascii ''algorithm4'' | Simple \<Rightarrow> ascii ''simple'') @
      line ''compass-hnsw-build-seed='' (concat (map (\<lambda>b. show_hex 2 (unat b)) (hnsw_build_seed c)))) @
     (let x = v2_xormm ps in
      line ''xormm-volume-bound='' (show_nat (xp_volume_bound x)) @ line ''xormm-stash-size='' (show_nat (xp_stash_size x))) @
     (let l = v2_lightrag ps in
      line ''lightrag-top-k='' (show_nat (lr_top_k l)) @ line ''lightrag-chunk-top-k='' (show_nat (lr_chunk_top_k l)) @
      line ''lightrag-max-entity-tokens='' (show_nat (max_entity_tokens l)) @
      line ''lightrag-max-relation-tokens='' (show_nat (max_relation_tokens l)) @
      line ''lightrag-max-total-tokens='' (show_nat (max_total_tokens l)) @
      line ''lightrag-search-eps-bits='' (hex_bits (search_perturb_epsilon l)))"

definition scheme_identity_digest :: "(bytes \<Rightarrow> bytes) \<Rightarrow> hkdf_policy_v2 \<Rightarrow> scheme_params_v2 \<Rightarrow> bytes" where
  "scheme_identity_digest sha256 po ps = sha256 (scheme_identity_fragment po ps)"

section \<open>Formatting is injective and stays on its line\<close>

lemma unat_digit: "d < 16 \<Longrightarrow> unat (digit d) = (if d < 10 then 48 + d else 87 + d)"
  by (simp add: digit_def unat_of_nat)

lemma digit_inj:
  assumes "d < 16" and "e < 16" shows "digit d = digit e \<longleftrightarrow> d = e"
proof
  assume "digit d = digit e"
  then have "unat (digit d) = unat (digit e)" by simp
  then show "d = e" unfolding unat_digit [OF assms(1)] unat_digit [OF assms(2)] using assms by (auto split: if_splits)
qed simp

lemma digit_ne_nl:
  assumes "d < 16" shows "digit d \<noteq> 10"
proof
  assume "digit d = 10"
  then have "unat (digit d) = 10" by simp
  then show False unfolding unat_digit [OF assms] by (auto split: if_splits)
qed

lemma show_nat_no_nl: "10 \<notin> set (show_nat n)"
proof (induction n rule: show_nat.induct)
  case (1 n)
  have "digit d \<noteq> 10" if "d < 10" for d using that digit_ne_nl [of d] by simp
  then have "10 \<noteq> digit d" if "d < 10" for d using that by metis
  then show ?case using 1 by (subst show_nat.simps) auto
qed

lemma show_nat_nonempty: "show_nat n \<noteq> []"
  by (subst show_nat.simps) simp

lemma show_nat_inj: "show_nat m = show_nat n \<Longrightarrow> m = n"
proof (induction m arbitrary: n rule: show_nat.induct)
  case (1 m)
  have len: "length (show_nat k) = 1 \<longleftrightarrow> k < 10" for k
    using show_nat_nonempty [of "k div 10"] by (subst show_nat.simps) (auto simp: neq_Nil_conv)
  show ?case
  proof (cases "m < 10")
    case True
    then have "n < 10" using 1(2) len by metis
    then show ?thesis using True 1(2) digit_inj [of m n] by (simp add: show_nat.simps)
  next
    case False
    then have n: "\<not> n < 10" using 1(2) len by metis
    then have "show_nat (m div 10) = show_nat (n div 10)" "digit (m mod 10) = digit (n mod 10)"
      using False 1(2) by (simp_all add: show_nat.simps [of m] show_nat.simps [of n])
    then have "m div 10 = n div 10" "m mod 10 = n mod 10"
      using 1(1) [OF False] digit_inj [of "m mod 10" "n mod 10"] by simp_all
    then show ?thesis by (metis div_mult_mod_eq)
  qed
qed

lemma length_show_hex [simp]: "length (show_hex k n) = k"
  by (induction k arbitrary: n) auto

lemma show_hex_no_nl: "10 \<notin> set (show_hex k n)"
proof (induction k arbitrary: n)
  case (Suc k)
  have "10 \<noteq> digit (n mod 16)" using digit_ne_nl [of "n mod 16"] by (metis mod_less_divisor zero_less_numeral)
  then show ?case using Suc by simp
qed simp

lemma show_hex_inj: "show_hex k m = show_hex k n \<Longrightarrow> m < 16 ^ k \<Longrightarrow> n < 16 ^ k \<Longrightarrow> m = n"
proof (induction k arbitrary: m n)
  case (Suc k)
  then have "show_hex k (m div 16) = show_hex k (n div 16)" "digit (m mod 16) = digit (n mod 16)" by simp_all
  moreover have "m div 16 < 16 ^ k" "n div 16 < 16 ^ k"
    using Suc.prems(2,3) by (simp_all add: less_mult_imp_div_less mult.commute)
  ultimately have "m div 16 = n div 16" "m mod 16 = n mod 16"
    using Suc.IH digit_inj [of "m mod 16" "n mod 16"] by simp_all
  then show ?case by (metis div_mult_mod_eq)
qed simp

definition one_line :: "str \<Rightarrow> bool" where
  "one_line v \<longleftrightarrow> 10 \<notin> set v"

lemma one_line_values [simp]: "one_line (show_nat n)" "one_line (hex_bits b)" "one_line []"
  "one_line (case k of Algorithm4 \<Rightarrow> ascii ''algorithm4'' | Simple \<Rightarrow> ascii ''simple'')"
  "one_line (concat (map (\<lambda>b. show_hex 2 (unat b)) bs))"
  by (auto simp: one_line_def show_nat_no_nl show_hex_no_nl hex_bits_def ascii_def split: hnsw_heuristic.split)

lemma append_nl_cancel:
  assumes "10 \<notin> set v" and "10 \<notin> set w"
  shows "v @ 10 # r = w @ (10::u8) # s \<longleftrightarrow> v = w \<and> r = s"
  using assms
proof (induction v arbitrary: w)
  case Nil
  then show ?case by (cases w) auto
next
  case (Cons a v)
  then show ?case by (cases w) auto
qed

lemma line_cancel:
  "one_line v \<Longrightarrow> one_line w \<Longrightarrow> line a v @ r = line a w @ s \<longleftrightarrow> v = w \<and> r = s"
  "line a v = line a w \<longleftrightarrow> v = w"
  by (simp_all add: line_def one_line_def append_nl_cancel)

lemma hex_bits_inj: "hex_bits a = hex_bits b \<longleftrightarrow> a = b"
proof
  assume "hex_bits a = hex_bits b"
  then have "show_hex 8 (unat a) = show_hex 8 (unat b)" by (simp add: hex_bits_def)
  moreover have "unat a < 16 ^ 8" "unat b < 16 ^ 8" using unsigned_less [of a] unsigned_less [of b] by simp_all
  ultimately have "unat a = unat b" by (rule show_hex_inj)
  then show "a = b" by (simp add: word_unat_eq_iff)
qed simp

lemma hex_bytes_inj:
  "concat (map (\<lambda>b. show_hex 2 (unat (b::u8))) xs) = concat (map (\<lambda>b. show_hex 2 (unat b)) ys) \<longleftrightarrow> xs = ys"
proof (induction xs arbitrary: ys)
  case Nil
  then show ?case by (cases ys) (auto dest: arg_cong [of _ _ length])
next
  case (Cons x xs)
  show ?case
  proof (cases ys)
    case Nil
    then show ?thesis by (auto dest: arg_cong [of _ _ length])
  next
    case ys: (Cons y zs)
    have "show_hex 2 (unat x) = show_hex 2 (unat y) \<longleftrightarrow> x = y"
    proof
      assume e: "show_hex 2 (unat x) = show_hex 2 (unat y)"
      have "unat x < 16 ^ 2" "unat y < 16 ^ 2" using unsigned_less [of x] unsigned_less [of y] by simp_all
      from show_hex_inj [OF e this] show "x = y" by (simp add: word_unat_eq_iff)
    qed simp
    then show ?thesis using ys Cons by simp
  qed
qed

lemma heuristic_inj:
  "(case k of Algorithm4 \<Rightarrow> ascii ''algorithm4'' | Simple \<Rightarrow> ascii ''simple'') =
   (case k' of Algorithm4 \<Rightarrow> ascii ''algorithm4'' | Simple \<Rightarrow> ascii ''simple'') \<longleftrightarrow> k = k'"
proof -
  have "length (ascii ''algorithm4'') \<noteq> length (ascii ''simple'')" unfolding ascii_def length_map by simp
  then have "ascii ''algorithm4'' \<noteq> ascii ''simple''" by metis
  then show ?thesis by (cases k; cases k') simp_all
qed

lemma show_nat_eq: "show_nat m = show_nat n \<longleftrightarrow> m = n"
  using show_nat_inj by auto

section \<open>The properties\<close>

definition policy_lines :: "hkdf_policy_v2 \<Rightarrow> bool" where
  "policy_lines po \<longleftrightarrow> one_line (p2_version po) \<and> one_line (p2_caprise_info po) \<and> one_line (p2_aes_info po) \<and>
     one_line (p2_oram_entities_info po) \<and> one_line (p2_oram_relations_info po) \<and> one_line (p2_oram_chunks_info po) \<and>
     one_line (p2_emm_adjacency_info po) \<and> one_line (p2_emm_src_chunks_info po) \<and> one_line (p2_search_pattern_info po) \<and>
     one_line (p2_salt_label po)"

lemma policy_V2_lines: "policy_lines policy_V2"
  by (simp add: policy_lines_def policy_V2_def one_line_def ascii_def)

text \<open>C14: The attested identity binds every knob: for a hash that does not collide on the two
  encodings, equal scheme identities come from the same derivation policy and the same
  public parameters, down to each bit of the floats and each byte of the build seed.\<close>

theorem scheme_identity_binds:
  assumes "policy_lines po" and "policy_lines po'"
    and "inj_on sha256 {scheme_identity_fragment po ps, scheme_identity_fragment po' ps'}"
  shows "scheme_identity_digest sha256 po ps = scheme_identity_digest sha256 po' ps' \<longleftrightarrow> po = po' \<and> ps = ps'"
proof
  assume digest: "scheme_identity_digest sha256 po ps = scheme_identity_digest sha256 po' ps'"
  have eq: "scheme_identity_fragment po ps = scheme_identity_fragment po' ps'"
    by (rule inj_onD [OF assms(3) digest [unfolded scheme_identity_digest_def]]) (rule insertI1, rule insertI2, rule insertI1)
  note L = assms(1,2) [unfolded policy_lines_def]
  have lines: "p2_version po = p2_version po' \<and> p2_caprise_info po = p2_caprise_info po' \<and> p2_aes_info po = p2_aes_info po' \<and>
      p2_oram_entities_info po = p2_oram_entities_info po' \<and> p2_oram_relations_info po = p2_oram_relations_info po' \<and>
      p2_oram_chunks_info po = p2_oram_chunks_info po' \<and> p2_emm_adjacency_info po = p2_emm_adjacency_info po' \<and>
      p2_emm_src_chunks_info po = p2_emm_src_chunks_info po' \<and> p2_search_pattern_info po = p2_search_pattern_info po' \<and>
      p2_salt_label po = p2_salt_label po' \<and> v2_caprise ps = v2_caprise ps' \<and> v2_compass ps = v2_compass ps' \<and>
      v2_xormm ps = v2_xormm ps' \<and> v2_lightrag ps = v2_lightrag ps'"
    using eq L
    by (simp only: scheme_identity_fragment_def Let_def append_assoc line_cancel one_line_values show_nat_eq hex_bits_inj
        hex_bytes_inj heuristic_inj simp_thms)
      (simp add: scheme_params.equality compass_public.equality xormm_public.equality lightrag_params.equality)
  then show "po = po' \<and> ps = ps'" by (simp add: hkdf_policy_v2.equality scheme_params_v2.equality)
qed simp

theorem scheme_identity_binds_witness:
  "scheme_identity_digest (\<lambda>b. b) policy_V2 (default_scheme_params_v2 (\<lambda>b. b) (\<lambda>m. 7)) \<noteq>
   scheme_identity_digest (\<lambda>b. b) policy_V2
     (default_scheme_params_v2 (\<lambda>b. b) (\<lambda>m. 7)\<lparr>v2_xormm := \<lparr>xp_volume_bound = 64, xp_stash_size = 129\<rparr>\<rparr>)"
proof -
  have "inj_on (\<lambda>b. b) S" for S :: "bytes set" by (simp add: inj_on_def)
  from scheme_identity_binds [OF policy_V2_lines policy_V2_lines this] show ?thesis
    by (simp add: default_scheme_params_v2_def default_xormm_public_def)
qed

text \<open>The derived keys and the inputs of the expansions that produce them.\<close>

definition child_keys :: "derived_keys_v2 \<Rightarrow> bytes list" where
  "child_keys k = [caprise_seed k, aes_chunk_key k, oram_entities_key k, oram_relations_key k, oram_chunks_key k,
     emm_adjacency_key k, emm_src_chunks_key k, search_pattern_key k]"

definition v2_infos :: "hkdf_policy_v2 \<Rightarrow> str list" where
  "v2_infos po = [p2_caprise_info po, p2_aes_info po, p2_oram_entities_info po, p2_oram_relations_info po,
     p2_oram_chunks_info po, p2_emm_adjacency_info po, p2_emm_src_chunks_info po, p2_search_pattern_info po]"

definition v1_infos :: "hkdf_policy \<Rightarrow> str list" where
  "v1_infos po = [hp_caprise_info po, hp_aes_info po]"

lemma child_keys_expand:
  "child_keys (derive_v2 hkdf po u t tenant) = map (\<lambda>info. hkdf tenant (u @ t) info 32) (v2_infos po)"
  by (simp add: child_keys_def derive_v2_def v2_infos_def Let_def)

lemma infos_distinct: "distinct (v2_infos policy_V2 @ v1_infos policy_V1)"
  by code_simp

text \<open>Key separation.  For an HKDF that does not collide on the inputs at hand, the eight keys
  of a derivation are different from one another and from the two keys of the V1 policy,
  and two derivations share a key only if tenant, user secret and TEE secret all agree.\<close>

theorem derive_v2_separates:
  assumes "inj_on (\<lambda>(salt, ikm, info). hkdf salt ikm info 32)
      ({tenant, tenant'} \<times> {u @ t, u' @ t'} \<times> set (v2_infos policy_V2 @ v1_infos policy_V1))"
    and "length u = 32" and "length u' = 32"
  shows "distinct (child_keys (derive_v2 hkdf policy_V2 u t tenant)) \<and>
    fst (derive_v1 hkdf policy_V1 u' t' tenant') \<notin> set (child_keys (derive_v2 hkdf policy_V2 u t tenant)) \<and>
    snd (derive_v1 hkdf policy_V1 u' t' tenant') \<notin> set (child_keys (derive_v2 hkdf policy_V2 u t tenant)) \<and>
    (set (child_keys (derive_v2 hkdf policy_V2 u t tenant)) \<inter> set (child_keys (derive_v2 hkdf policy_V2 u' t' tenant')) \<noteq> {} \<longleftrightarrow>
      tenant = tenant' \<and> u = u' \<and> t = t')"
proof -
  let ?v2 = "v2_infos policy_V2" and ?v1 = "v1_infos policy_V1"
  have inj: "a = c \<and> b = d \<and> x = y"
    if "hkdf a b x 32 = hkdf c d y 32" "a \<in> {tenant, tenant'}" "c \<in> {tenant, tenant'}" "b \<in> {u @ t, u' @ t'}"
      "d \<in> {u @ t, u' @ t'}" "x \<in> set (?v2 @ ?v1)" "y \<in> set (?v2 @ ?v1)" for a b c d x y
    using inj_onD [OF assms(1), of "(a, b, x)" "(c, d, y)"] that by (simp only: case_prod_conv mem_Sigma_iff Pair_inject) simp
  have d: "distinct ?v2" and no_v1: "info \<notin> set ?v2" if "info \<in> set ?v1" for info
    using infos_distinct that unfolding distinct_append by blast+
  have ks: "set (child_keys (derive_v2 hkdf policy_V2 a b c)) = (\<lambda>info. hkdf c (a @ b) info 32) ` set ?v2" for a b c
    by (simp only: child_keys_expand set_map)
  have "inj_on (\<lambda>info. hkdf tenant (u @ t) info 32) (set ?v2)"
  proof (rule inj_onI)
    fix x y assume "x \<in> set ?v2" "y \<in> set ?v2" "hkdf tenant (u @ t) x 32 = hkdf tenant (u @ t) y 32"
    with inj [of tenant "u @ t" x tenant "u @ t" y] show "x = y" by simp
  qed
  then have 1: "distinct (child_keys (derive_v2 hkdf policy_V2 u t tenant))"
    using infos_distinct by (simp only: child_keys_expand distinct_map distinct_append)
  have sep: "hkdf tenant' (u' @ t') info 32 \<notin> set (child_keys (derive_v2 hkdf policy_V2 u t tenant))" if "info \<in> set ?v1" for info
  proof
    assume "hkdf tenant' (u' @ t') info 32 \<in> set (child_keys (derive_v2 hkdf policy_V2 u t tenant))"
    then obtain y where "y \<in> set ?v2" "hkdf tenant' (u' @ t') info 32 = hkdf tenant (u @ t) y 32" unfolding ks by blast
    with inj [of tenant' "u' @ t'" info tenant "u @ t" y] that have "info \<in> set ?v2" by simp
    with no_v1 [OF that] show False by simp
  qed
  have v1: "fst (derive_v1 hkdf policy_V1 u' t' tenant') \<notin> set (child_keys (derive_v2 hkdf policy_V2 u t tenant))"
    "snd (derive_v1 hkdf policy_V1 u' t' tenant') \<notin> set (child_keys (derive_v2 hkdf policy_V2 u t tenant))"
    using sep by (simp_all add: derive_v1_def v1_infos_def Let_def)
  have "tenant = tenant' \<and> u = u' \<and> t = t'"
    if shared: "set (child_keys (derive_v2 hkdf policy_V2 u t tenant)) \<inter> set (child_keys (derive_v2 hkdf policy_V2 u' t' tenant')) \<noteq> {}"
  proof -
    obtain x y where "x \<in> set ?v2" "y \<in> set ?v2" "hkdf tenant (u @ t) x 32 = hkdf tenant' (u' @ t') y 32"
      using shared unfolding ks by blast
    with inj [of tenant "u @ t" x tenant' "u' @ t'" y] have "tenant = tenant'" "u @ t = u' @ t'" by simp_all
    then show ?thesis using assms(2,3) by simp
  qed
  moreover have "set (child_keys (derive_v2 hkdf policy_V2 u t tenant)) \<inter> set (child_keys (derive_v2 hkdf policy_V2 u t tenant)) \<noteq> {}"
    by (simp add: child_keys_def)
  ultimately show ?thesis using 1 v1 by blast
qed

theorem derive_v2_separates_witness:
  "distinct (child_keys (derive_v2 (\<lambda>salt ikm info n. salt @ [0] @ ikm @ info) policy_V2 (replicate 32 1) (replicate 32 2) [5])) \<and>
   set (child_keys (derive_v2 (\<lambda>salt ikm info n. salt @ [0] @ ikm @ info) policy_V2 (replicate 32 1) (replicate 32 2) [5])) \<inter>
   set (child_keys (derive_v2 (\<lambda>salt ikm info n. salt @ [0] @ ikm @ info) policy_V2 (replicate 32 1) (replicate 32 3) [5])) = {}"
proof -
  let ?h = "\<lambda>salt ikm info (n::nat). salt @ [0::u8] @ ikm @ info"
  let ?u = "replicate 32 (1::u8)" and ?t = "replicate 32 (2::u8)" and ?t' = "replicate 32 (3::u8)"
  have "inj_on (\<lambda>(salt, ikm, info). ?h salt ikm info 32)
      ({[5], [5]} \<times> {?u @ ?t, ?u @ ?t'} \<times> set (v2_infos policy_V2 @ v1_infos policy_V1))"
  proof (rule inj_onI)
    fix a b assume *: "a \<in> {[5], [5]} \<times> {?u @ ?t, ?u @ ?t'} \<times> set (v2_infos policy_V2 @ v1_infos policy_V1)"
      "b \<in> {[5], [5]} \<times> {?u @ ?t, ?u @ ?t'} \<times> set (v2_infos policy_V2 @ v1_infos policy_V1)"
      "(case a of (salt, ikm, info) \<Rightarrow> ?h salt ikm info 32) = (case b of (salt, ikm, info) \<Rightarrow> ?h salt ikm info 32)"
    obtain s i x s' i' x' where ab: "a = (s, i, x)" "b = (s', i', x')" by (metis prod_cases3)
    with * have "s = [5]" "s' = [5]" "length i = 64" "length i' = 64" by auto
    with *(3) ab show "a = b" by simp
  qed
  from derive_v2_separates [OF this] show ?thesis by (simp only: length_replicate) simp
qed

text \<open>A V1 identity is never a V2 identity, whatever the parameters: the encodings differ in
  their first line, so a downgrade shows unless the hash collides.\<close>

theorem scheme_identity_no_downgrade:
  "scheme_identity_fragment_v1 policy_V1 p \<noteq> scheme_identity_fragment policy_V2 ps"
proof
  assume eq: "scheme_identity_fragment_v1 policy_V1 p = scheme_identity_fragment policy_V2 ps"
  have "one_line (hp_version policy_V1)" "one_line (p2_version policy_V2)" by code_simp+
  from line_cancel(1) [OF this] eq have "hp_version policy_V1 = p2_version policy_V2"
    unfolding scheme_identity_fragment_v1_def scheme_identity_fragment_def by blast
  moreover have "hp_version policy_V1 \<noteq> p2_version policy_V2" by code_simp
  ultimately show False by contradiction
qed

end
