(* ===== verification/Kg_Store.thy ===== *)
theory Kg_Store
  imports Compass_Search Xormm Keying
begin

text \<open>
  The knowledge-graph store of \<^verbatim>\<open>crates/light-kg-store\<close>: its plaintext types
  (\<^verbatim>\<open>types.rs\<close>), keyed identifiers (\<^verbatim>\<open>keys.rs\<close>), encrypted chunk texts
  (\<^verbatim>\<open>aes_chunk_store.rs\<close>), and the composition of three Compass indices, two
  encrypted multi-maps and the chunk store with its retrieval query (\<^verbatim>\<open>store.rs\<close>).
  A \<open>String\<close> is its UTF-8 bytes.  The text of an error message is its format arguments.
\<close>

section \<open>Plaintext knowledge graphs\<close>

record 'f kg_chunk =
  ch_id :: str
  ch_text :: str
  ch_embedding :: "'f list"

record 'f kg_entity =
  en_name :: str
  en_description :: str
  en_embedding :: "'f list"
  en_source_chunks :: "str list"

record 'f kg_relation =
  re_src :: str
  re_tgt :: str
  re_description :: str
  re_embedding :: "'f list"
  re_source_chunks :: "str list"

record 'f extracted_kg =
  kg_chunks :: "'f kg_chunk list"
  kg_entities :: "'f kg_entity list"
  kg_relations :: "'f kg_relation list"

definition canonical_key :: "'f kg_relation \<Rightarrow> str" where
  "canonical_key r =
     (if str_le (re_src r) (re_tgt r) then re_src r @ [0] @ re_tgt r else re_tgt r @ [0] @ re_src r)"

section \<open>Keyed identifiers\<close>

definition ADJACENCY_ENTITY :: str where
  "ADJACENCY_ENTITY = ascii ''adjacency/entity''"

definition SRC_CHUNKS_ENTITY :: str where
  "SRC_CHUNKS_ENTITY = ascii ''src_chunks/entity''"

definition derive_logical_key :: "(bytes \<Rightarrow> bytes \<Rightarrow> bytes) \<Rightarrow> bytes \<Rightarrow> str \<Rightarrow> str \<Rightarrow> logical_key" where
  "derive_logical_key hmac master_key label name = hmac master_key (label @ [0] @ name)"

section \<open>Chunk texts\<close>

datatype aead_message = EncryptFailed str | DecryptFailed str | NotUtf8 str

datatype chunk_store_error = ChunkNotFound str | Aead aead_message

record chunk_record =
  cr_nonce :: bytes
  cr_ciphertext :: bytes

record chunk_store =
  cs_key :: bytes
  cs_entries :: "(str \<times> chunk_record) list"

text \<open>Encryption of one message may be refused (the library limits its length).\<close>

record chunk_ext =
  ct_seal :: "bytes \<Rightarrow> bytes \<Rightarrow> bytes \<Rightarrow> bytes option"
  ct_unseal :: "bytes \<Rightarrow> bytes \<Rightarrow> bytes \<Rightarrow> bytes option"
  ct_sha256 :: "bytes \<Rightarrow> bytes"

definition chunk_store_new :: "bytes \<Rightarrow> chunk_store" where
  "chunk_store_new k = \<lparr>cs_key = k, cs_entries = []\<rparr>"

definition derive_nonce :: "chunk_ext \<Rightarrow> str \<Rightarrow> bytes" where
  "derive_nonce C i = take 12 (ct_sha256 C i)"

definition put_chunk :: "chunk_ext \<Rightarrow> 'f kg_chunk \<Rightarrow> (chunk_store, chunk_store_error, unit) eff" where
  "put_chunk C c =
     (let nonce = derive_nonce C (ch_id c) in
      ebind (eget cs_key) (\<lambda>k.
      case ct_seal C k nonce (ch_text c) of
        None \<Rightarrow> efault (Fail (Aead (EncryptFailed (ch_id c))))
      | Some ct \<Rightarrow> emodify (\<lambda>s. s\<lparr>cs_entries := AList.update (ch_id c) \<lparr>cr_nonce = nonce, cr_ciphertext = ct\<rparr> (cs_entries s)\<rparr>)))"

definition put_all :: "chunk_ext \<Rightarrow> 'f kg_chunk list \<Rightarrow> (chunk_store, chunk_store_error, unit) eff" where
  "put_all C chunks = efor chunks (put_chunk C)"

definition get_chunk :: "chunk_ext \<Rightarrow> chunk_store \<Rightarrow> str \<Rightarrow> (chunk_store_error, str) outcome" where
  "get_chunk C s i =
     (case map_of (cs_entries s) i of
        None \<Rightarrow> Inl (Fail (ChunkNotFound i))
      | Some rec \<Rightarrow>
          (case ct_unseal C (cs_key s) (cr_nonce rec) (cr_ciphertext rec) of
             None \<Rightarrow> Inl (Fail (Aead (DecryptFailed i)))
           | Some pt \<Rightarrow> (case from_utf8 pt of None \<Rightarrow> Inl (Fail (Aead (NotUtf8 i))) | Some t \<Rightarrow> Inr t)))"

definition chunk_store_len :: "chunk_store \<Rightarrow> nat" where
  "chunk_store_len s = length (cs_entries s)"

definition chunk_store_is_empty :: "chunk_store \<Rightarrow> bool" where
  "chunk_store_is_empty s \<longleftrightarrow> cs_entries s = []"

section \<open>The store\<close>

datatype kg_error =
    KgCompass compass_error
  | KgXorMm xormm_error
  | KgChunk chunk_store_error
  | KgBackend string
  | Inconsistent str nat
  | UnknownEntity str

record 'f light_kg_params =
  lk_entities :: "'f compass_params"
  lk_relations :: "'f compass_params"
  lk_chunks :: "'f compass_params"
  lk_adjacency :: xormm_params
  lk_src_chunks :: xormm_params

record key_bundle =
  kb_aes_chunk :: bytes
  kb_oram_entities :: bytes
  kb_oram_relations :: bytes
  kb_oram_chunks :: bytes
  kb_emm_adjacency :: bytes
  kb_emm_src_chunks :: bytes

definition from_derived :: "derived_keys_v2 \<Rightarrow> key_bundle" where
  "from_derived d = \<lparr>kb_aes_chunk = aes_chunk_key d, kb_oram_entities = oram_entities_key d,
     kb_oram_relations = oram_relations_key d, kb_oram_chunks = oram_chunks_key d,
     kb_emm_adjacency = emm_adjacency_key d, kb_emm_src_chunks = emm_src_chunks_key d\<rparr>"

record ('b, 'g, 'f, 's) kg_store =
  ks_entities :: "('b, 'g, 'f) compass_index"
  ks_relations :: "('b, 'g, 'f) compass_index"
  ks_chunks :: "('b, 'g, 'f) compass_index"
  ks_adjacency :: "'s xormm_client"
  ks_src_chunks :: "'s xormm_client"
  ks_chunk_text :: chunk_store
  ks_entity_block_id :: "(str \<times> nat) list"
  ks_relation_block_id :: "(str \<times> nat) list"
  ks_relation_endpoints :: "nat \<Rightarrow> (str \<times> str) option"
  ks_chunk_block_id :: "(str \<times> nat) list"
  ks_keys :: key_bundle

text \<open>The code of other crates, and the iteration order of hash maps and heaps.\<close>

record ('g, 'f) kg_ext =
  kx_oram :: "'g oram_ext"
  kx_f32 :: "'f f32_ops"
  kx_heap_order :: "'f candidate list \<Rightarrow> 'f candidate list"
  kx_draws :: "bytes \<Rightarrow> nat \<Rightarrow> 'f"
  kx_xormm :: xm_ext
  kx_chunk :: chunk_ext
  kx_hmac :: "bytes \<Rightarrow> bytes \<Rightarrow> bytes"
  kx_map_order :: "(str \<times> logical_value list) list \<Rightarrow> (str \<times> logical_value list) list"
  kx_sha256 :: "bytes \<Rightarrow> bytes"

definition string_to_value :: "str \<Rightarrow> nat \<Rightarrow> (kg_error, logical_value) outcome" where
  "string_to_value s vb = (if vb < length s then Inl (Fail (Inconsistent s vb)) else Inr s)"

subsection \<open>Building\<close>

definition build_emm :: "'s byte_store_ops \<Rightarrow> ('g, 'f) kg_ext \<Rightarrow> bytes \<Rightarrow> str \<Rightarrow> (str \<times> logical_value list) list \<Rightarrow>
    xormm_params \<Rightarrow> 's \<Rightarrow> (kg_error, 's xormm_client) outcome" where
  "build_emm bs K master_key label entries p b =
     (let prepared = map (\<lambda>(name, vs). (derive_logical_key (kx_hmac K) master_key label name, vs)) (kx_map_order K entries) in
      fail_as KgXorMm (xm_build bs (kx_xormm K) prepared p master_key (take 16 master_key) (drop 16 master_key) b))"

definition adjacency_of :: "nat \<Rightarrow> 'f kg_relation \<Rightarrow> (str \<times> logical_value list) list \<Rightarrow>
    (kg_error, (str \<times> logical_value list) list) outcome" where
  "adjacency_of vb r m =
     rbind (string_to_value (canonical_key r) vb) (\<lambda>v.
     let m = entry_append (re_src r) [v] m in
     if re_src r \<noteq> re_tgt r
     then rbind (string_to_value (canonical_key r) vb) (\<lambda>v. Inr (entry_append (re_tgt r) [v] m))
     else Inr m)"

definition src_chunks_of :: "nat \<Rightarrow> 'f kg_entity \<Rightarrow> (str \<times> logical_value list) list \<Rightarrow>
    (kg_error, (str \<times> logical_value list) list) outcome" where
  "src_chunks_of vb e m =
     rbind (rmap (\<lambda>c. string_to_value c vb) (en_source_chunks e)) (\<lambda>vs. Inr (entry_append (en_name e) vs m))"

definition index_ids :: "('a \<Rightarrow> 'k) \<Rightarrow> 'a list \<Rightarrow> ('k \<times> nat) list" where
  "index_ids name xs = fold (\<lambda>(i, x). AList.update (name x) i) (enumerate 0 xs) []"

definition build_inner :: "'b backend_ops \<Rightarrow> 's byte_store_ops \<Rightarrow> ('g, 'f) kg_ext \<Rightarrow> 'f extracted_kg \<Rightarrow> 'f light_kg_params \<Rightarrow>
    derived_keys_v2 \<Rightarrow> ('f compass_params \<Rightarrow> 'b) \<Rightarrow> (xormm_params \<Rightarrow> 's) \<Rightarrow>
    (kg_error, ('b, 'g, 'f, 's) kg_store) outcome" where
  "build_inner be bs K kg p keys mk_block_backend mk_byte_store =
     (let bundle = from_derived keys;
          compass = (\<lambda>embs cp. fail_as KgCompass (from_plaintext_corpus_on be (kx_oram K) (kx_f32 K) (kx_sha256 K)
            (kx_heap_order K) (kx_draws K) embs cp (mk_block_backend cp)))
      in
      rbind (compass (map en_embedding (kg_entities kg)) (lk_entities p)) (\<lambda>entities.
      rbind (compass (map re_embedding (kg_relations kg)) (lk_relations p)) (\<lambda>relations.
      rbind (compass (map ch_embedding (kg_chunks kg)) (lk_chunks p)) (\<lambda>chunks.
      let entity_block_id = index_ids en_name (kg_entities kg);
          relation_block_id = index_ids canonical_key (kg_relations kg);
          relation_endpoints = (\<lambda>i. map_option (\<lambda>r. (re_src r, re_tgt r))
            (if i < length (kg_relations kg) then Some (kg_relations kg ! i) else None));
          chunk_block_id = index_ids ch_id (kg_chunks kg) in
      case put_all (kx_chunk K) (kg_chunks kg) (chunk_store_new (kb_aes_chunk bundle)) of
        (Inl e, _) \<Rightarrow> fail_as KgChunk (Inl e)
      | (Inr _, chunk_text) \<Rightarrow>
          rbind (rfold (adjacency_of (value_bytes (lk_adjacency p))) (kg_relations kg) []) (\<lambda>adjacency_entries.
          rbind (build_emm bs K (kb_emm_adjacency bundle) ADJACENCY_ENTITY adjacency_entries (lk_adjacency p)
                   (mk_byte_store (lk_adjacency p))) (\<lambda>adjacency_emm.
          rbind (rfold (src_chunks_of (value_bytes (lk_src_chunks p))) (kg_entities kg) []) (\<lambda>src_chunks_entries.
          rbind (build_emm bs K (kb_emm_src_chunks bundle) SRC_CHUNKS_ENTITY src_chunks_entries (lk_src_chunks p)
                   (mk_byte_store (lk_src_chunks p))) (\<lambda>src_chunks_emm.
          Inr \<lparr>ks_entities = entities, ks_relations = relations, ks_chunks = chunks, ks_adjacency = adjacency_emm,
               ks_src_chunks = src_chunks_emm, ks_chunk_text = chunk_text, ks_entity_block_id = entity_block_id,
               ks_relation_block_id = relation_block_id, ks_relation_endpoints = relation_endpoints,
               ks_chunk_block_id = chunk_block_id, ks_keys = bundle\<rparr>))))))))"

definition build_from_kg :: "('g, 'f) kg_ext \<Rightarrow> 'f extracted_kg \<Rightarrow> 'f light_kg_params \<Rightarrow> derived_keys_v2 \<Rightarrow>
    (kg_error, (mem_backend, 'g, 'f, mem_store) kg_store) outcome" where
  "build_from_kg K kg p keys =
     build_inner mem_ops store_ops K kg p keys (\<lambda>cp. mem_new (num_buckets (cp_oram cp))) (\<lambda>xp. store_new (xm_n_buckets xp))"

definition build_from_kg_on :: "'b backend_ops \<Rightarrow> 's byte_store_ops \<Rightarrow> ('g, 'f) kg_ext \<Rightarrow> 'f extracted_kg \<Rightarrow>
    'f light_kg_params \<Rightarrow> derived_keys_v2 \<Rightarrow> ('f compass_params \<Rightarrow> 'b) \<Rightarrow> (xormm_params \<Rightarrow> 's) \<Rightarrow>
    (kg_error, ('b, 'g, 'f, 's) kg_store) outcome" where
  "build_from_kg_on = build_inner"

subsection \<open>Lookups\<close>

definition on_entities :: "(('b, 'g, 'f) compass_index, compass_error, 'a) eff \<Rightarrow> (('b, 'g, 'f, 's) kg_store, kg_error, 'a) eff" where
  "on_entities m = (\<lambda>s. let (r, i) = m (ks_entities s) in (fail_as KgCompass r, s\<lparr>ks_entities := i\<rparr>))"

definition on_relations :: "(('b, 'g, 'f) compass_index, compass_error, 'a) eff \<Rightarrow> (('b, 'g, 'f, 's) kg_store, kg_error, 'a) eff" where
  "on_relations m = (\<lambda>s. let (r, i) = m (ks_relations s) in (fail_as KgCompass r, s\<lparr>ks_relations := i\<rparr>))"

definition query_entities_topk :: "'b backend_ops \<Rightarrow> ('g, 'f) kg_ext \<Rightarrow> 'f list \<Rightarrow> nat \<Rightarrow>
    (('b, 'g, 'f, 's) kg_store, kg_error, nat list) eff" where
  "query_entities_topk be K q k = on_entities (search be (kx_oram K) (kx_f32 K) (kx_heap_order K) q k)"

definition query_relations_topk :: "'b backend_ops \<Rightarrow> ('g, 'f) kg_ext \<Rightarrow> 'f list \<Rightarrow> nat \<Rightarrow>
    (('b, 'g, 'f, 's) kg_store, kg_error, nat list) eff" where
  "query_relations_topk be K q k = on_relations (search be (kx_oram K) (kx_f32 K) (kx_heap_order K) q k)"

definition decode_values :: "logical_value list \<Rightarrow> str list" where
  "decode_values vs = filter (\<lambda>s. s \<noteq> []) (List.map_filter (\<lambda>v. from_utf8 (strip_trailing_nuls v)) vs)"

definition adjacency_for_entity :: "'s byte_store_ops \<Rightarrow> ('g, 'f) kg_ext \<Rightarrow> ('b, 'g, 'f, 's) kg_store \<Rightarrow> str \<Rightarrow>
    (kg_error, str list) outcome" where
  "adjacency_for_entity bs K s name =
     rbind (fail_as KgXorMm (xm_get bs (kx_xormm K) (ks_adjacency s)
              (derive_logical_key (kx_hmac K) (kb_emm_adjacency (ks_keys s)) ADJACENCY_ENTITY name)))
       (\<lambda>vs. Inr (decode_values vs))"

definition src_chunks_for_entity :: "'s byte_store_ops \<Rightarrow> ('g, 'f) kg_ext \<Rightarrow> ('b, 'g, 'f, 's) kg_store \<Rightarrow> str \<Rightarrow>
    (kg_error, str list) outcome" where
  "src_chunks_for_entity bs K s name =
     rbind (fail_as KgXorMm (xm_get bs (kx_xormm K) (ks_src_chunks s)
              (derive_logical_key (kx_hmac K) (kb_emm_src_chunks (ks_keys s)) SRC_CHUNKS_ENTITY name)))
       (\<lambda>vs. Inr (decode_values vs))"

definition chunk_text :: "('g, 'f) kg_ext \<Rightarrow> ('b, 'g, 'f, 's) kg_store \<Rightarrow> str \<Rightarrow> (kg_error, str) outcome" where
  "chunk_text K s i = fail_as KgChunk (get_chunk (kx_chunk K) (ks_chunk_text s) i)"

subsection \<open>The retrieval query\<close>

datatype query_shape = Local | Hybrid

record kg_query_params =
  top_k_entities :: nat
  top_k_chunks_per_entity :: nat
  qp_shape :: query_shape
  top_k_relations :: nat

definition default_kg_query_params :: kg_query_params where
  "default_kg_query_params = \<lparr>top_k_entities = 5, top_k_chunks_per_entity = 2, qp_shape = Local, top_k_relations = 5\<rparr>"

record kg_context =
  kc_entities :: "str list"
  kc_relations :: "str list"
  kc_chunks :: "(str \<times> str) list"

text \<open>The inverse of an id map: the pairs are swapped and collected again.\<close>

definition name_of_id :: "(str \<times> nat) list \<Rightarrow> nat \<Rightarrow> str option" where
  "name_of_id m = collect_map (map (\<lambda>(name, i). (i, name)) m)"

definition inflate :: "('b, 'g, 'f, 's) kg_store \<Rightarrow> nat \<Rightarrow> str list \<times> str list \<Rightarrow> str list \<times> str list" where
  "inflate s i = (\<lambda>(names, keys).
     (case ks_relation_endpoints s i of Some (src, tgt) \<Rightarrow> names @ [src, tgt] | None \<Rightarrow> names,
      case name_of_id (ks_relation_block_id s) i of Some canon \<Rightarrow> keys @ [canon] | None \<Rightarrow> keys))"

definition fan_out :: "'s byte_store_ops \<Rightarrow> ('g, 'f) kg_ext \<Rightarrow> kg_query_params \<Rightarrow> str list \<Rightarrow> str list \<Rightarrow>
    ('b, 'g, 'f, 's) kg_store \<Rightarrow> (kg_error, kg_context) outcome" where
  "fan_out bs K qp names found s =
     rbind (rmap (adjacency_for_entity bs K s) names) (\<lambda>rels.
     rbind (rmap (\<lambda>name. rbind (src_chunks_for_entity bs K s name) (\<lambda>cs. Inr (take (top_k_chunks_per_entity qp) cs))) names) (\<lambda>css.
     let chunk_ids = retain_first (concat css) in
     rbind (rmap (\<lambda>i. rbind (chunk_text K s i) (\<lambda>t. Inr (i, t))) chunk_ids) (\<lambda>texts.
     Inr \<lparr>kc_entities = names, kc_relations = retain_first (found @ concat rels), kc_chunks = texts\<rparr>)))"

definition query_context :: "'b backend_ops \<Rightarrow> 's byte_store_ops \<Rightarrow> ('g, 'f) kg_ext \<Rightarrow> 'f list \<Rightarrow> 'f list \<Rightarrow>
    kg_query_params \<Rightarrow> (('b, 'g, 'f, 's) kg_store, kg_error, kg_context) eff" where
  "query_context be bs K ll_perturbed hl_perturbed qp =
     ebind (query_entities_topk be K ll_perturbed (top_k_entities qp)) (\<lambda>entity_ids.
     ebind (eget (\<lambda>s. List.map_filter (name_of_id (ks_entity_block_id s)) entity_ids)) (\<lambda>entity_names.
     ebind (case qp_shape qp of
              Local \<Rightarrow> ereturn (entity_names, [])
            | Hybrid \<Rightarrow>
                ebind (query_relations_topk be K hl_perturbed (top_k_relations qp)) (\<lambda>relation_ids.
                eget (\<lambda>s. fold (inflate s) relation_ids (entity_names, [])))) (\<lambda>(names, found).
     \<lambda>s. (fan_out bs K qp (retain_first names) found s, s))))"

definition to_context_string :: "kg_context \<Rightarrow> str" where
  "to_context_string c =
     ascii ''# Entities'' @ [10] @ concat (map (\<lambda>e. ascii ''- '' @ e @ [10]) (kc_entities c)) @
     [10] @ ascii ''# Relations'' @ [10] @ concat (map (\<lambda>r. ascii ''- '' @ r @ [10]) (kc_relations c)) @
     [10] @ ascii ''# Source chunks'' @ [10] @
     concat (map (\<lambda>(i, t). ascii ''['' @ i @ ascii ''] '' @ t @ [10]) (kc_chunks c))"

end
