(* ===== verification/Kg_Correct.thy ===== *)
theory Kg_Correct
  imports Kg_Store Compass_Correct Xormm_Correct
begin

text \<open>
  The encrypted knowledge-graph store against plaintext retrieval.  Each part is read back:
  the id maps, the chunk texts, the two multi-maps; \<open>plain_query\<close> is the retrieval over
  the plaintext graph, and a query of a built store gives exactly its answer.
\<close>

section \<open>Id maps\<close>

text \<open>The last position with a given name.\<close>

definition last_with :: "('a \<Rightarrow> 'k) \<Rightarrow> 'a list \<Rightarrow> nat \<Rightarrow> 'k option" where
  "last_with name xs i =
     (if i < length xs \<and> (\<forall>j \<in> {i<..<length xs}. name (xs ! j) \<noteq> name (xs ! i)) then Some (name (xs ! i)) else None)"

lemma index_ids_snoc: "index_ids name (xs @ [x]) = AList.update (name x) (length xs) (index_ids name xs)"
  by (simp add: index_ids_def enumerate_append_eq)

lemma index_ids_distinct: "distinct (map fst (index_ids name xs))"
  by (induction xs rule: rev_induct) (simp_all add: index_ids_snoc distinct_update, simp add: index_ids_def)

lemma index_ids_last: "map_of (index_ids name xs) k = Some i \<longleftrightarrow> last_with name xs i = Some k"
proof (induction xs arbitrary: k i rule: rev_induct)
  case Nil
  then show ?case by (simp add: index_ids_def last_with_def)
next
  case (snoc x xs)
  have "last_with name (xs @ [x]) i = Some k \<longleftrightarrow>
      (if i = length xs then name x = k else last_with name xs i = Some k \<and> name x \<noteq> k)"
    by (auto simp: last_with_def nth_append less_Suc_eq split: if_splits)
  then show ?case using snoc.IH [of k i] snoc.IH [of k "length xs"]
    by (auto simp: index_ids_snoc last_with_def)
qed

lemma name_of_index_ids: "name_of_id (index_ids name xs) i = last_with name xs i"
proof -
  let ?m = "index_ids name xs" and ?s = "map (\<lambda>(k, i). (i, k)) (index_ids name xs)"
  have mem: "(i, k) \<in> set ?s \<longleftrightarrow> last_with name xs i = Some k" for k i
  proof -
    have "(i, k) \<in> set ?s \<longleftrightarrow> (k, i) \<in> set ?m" by force
    also have "\<dots> \<longleftrightarrow> map_of ?m k = Some i" by (simp add: map_of_eq_Some_iff index_ids_distinct)
    finally show ?thesis by (simp add: index_ids_last)
  qed
  show ?thesis
  proof (cases "last_with name xs i")
    case None
    then have "(i, k) \<notin> set ?s" for k using mem [of i k] by simp
    then have "i \<notin> fst ` set (rev ?s)" by (metis (no_types) imageE prod.collapse set_rev)
    then show ?thesis using None by (simp add: name_of_id_def collect_map_def map_of_eq_None_iff [THEN iffD2])
  next
    case (Some k)
    then have "i \<in> fst ` set (rev ?s)" using mem [of i k] by force
    then obtain k' where k': "map_of (rev ?s) i = Some k'" by (metis map_of_eq_None_iff not_None_eq)
    from map_of_SomeD [OF this] have "k' = k" using mem [of i k'] Some by simp
    then show ?thesis using k' Some by (simp add: name_of_id_def collect_map_def)
  qed
qed

section \<open>Chunk texts\<close>

definition chunk_ext_ok :: "chunk_ext \<Rightarrow> bool" where
  "chunk_ext_ok C \<longleftrightarrow> (\<forall>k n m c. ct_seal C k n m = Some c \<longrightarrow> ct_unseal C k n c = Some m)"

definition chunk_row :: "chunk_ext \<Rightarrow> bytes \<Rightarrow> 'f kg_chunk \<Rightarrow> str \<times> chunk_record" where
  "chunk_row C k c = (ch_id c, \<lparr>cr_nonce = derive_nonce C (ch_id c),
     cr_ciphertext = the (ct_seal C k (derive_nonce C (ch_id c)) (ch_text c))\<rparr>)"

lemma put_all_ok:
  assumes "\<forall>c \<in> set cs. ct_seal C (cs_key s) (derive_nonce C (ch_id c)) (ch_text c) \<noteq> None"
  shows "\<exists>s'. put_all C cs s = (Inr (), s') \<and> cs_key s' = cs_key s \<and>
    map_of (cs_entries s') = map_of (cs_entries s) ++ map_of (rev (map (chunk_row C (cs_key s)) cs))"
  using assms
proof (induction cs arbitrary: s)
  case Nil
  then show ?case by (simp add: put_all_def ereturn_def)
next
  case (Cons c cs)
  obtain ct where ct: "ct_seal C (cs_key s) (derive_nonce C (ch_id c)) (ch_text c) = Some ct" using Cons.prems by auto
  let ?s = "s\<lparr>cs_entries := AList.update (ch_id c) \<lparr>cr_nonce = derive_nonce C (ch_id c), cr_ciphertext = ct\<rparr> (cs_entries s)\<rparr>"
  have 1: "put_chunk C c s = (Inr (), ?s)"
    using ct by (simp add: put_chunk_def Let_def ebind_def eget_def emodify_def)
  obtain s' where s': "put_all C cs ?s = (Inr (), s')" "cs_key s' = cs_key s"
    "map_of (cs_entries s') = map_of (cs_entries ?s) ++ map_of (rev (map (chunk_row C (cs_key s)) cs))"
  proof -
    have key: "cs_key ?s = cs_key s" by simp
    have "\<forall>c \<in> set cs. ct_seal C (cs_key ?s) (derive_nonce C (ch_id c)) (ch_text c) \<noteq> None" using Cons.prems by simp
    from Cons.IH [OF this] that show thesis unfolding key by blast
  qed
  have "put_all C (c # cs) s = (Inr (), s')"
    using 1 s'(1) by (simp add: put_all_def eseq_def ebind_def)
  moreover have "map_of (cs_entries s') = map_of (cs_entries s) ++ map_of (rev (map (chunk_row C (cs_key s)) (c # cs)))"
    using s'(3) ct by (simp add: chunk_row_def fun_eq_iff map_add_def split: option.split)
  ultimately show ?case using s'(2) by blast
qed

definition text_of :: "'f extracted_kg \<Rightarrow> str \<Rightarrow> str option" where
  "text_of kg = collect_map (map (\<lambda>c. (ch_id c, ch_text c)) (kg_chunks kg))"

lemma map_of_pair: "map_of (map (\<lambda>x. (f x, g x)) xs) k = map_option (\<lambda>x. g x) (List.find (\<lambda>x. f x = k) xs)"
  by (induction xs) auto

lemma find_SomeD: "List.find P xs = Some x \<Longrightarrow> x \<in> set xs \<and> P x"
  by (auto simp: find_Some_iff)

lemma get_chunk_ok:
  assumes C: "chunk_ext_ok C" and k: "cs_key s = k"
    and seal: "\<forall>c \<in> set (kg_chunks kg). ct_seal C k (derive_nonce C (ch_id c)) (ch_text c) \<noteq> None \<and> utf8_valid (ch_text c)"
    and e: "map_of (cs_entries s) = map_of (rev (map (chunk_row C k) (kg_chunks kg)))"
  shows "get_chunk C s i = (case text_of kg i of None \<Rightarrow> Inl (Fail (ChunkNotFound i)) | Some t \<Rightarrow> Inr t)"
proof -
  let ?f = "List.find (\<lambda>c. ch_id c = i) (rev (kg_chunks kg))"
  have t: "text_of kg i = map_option ch_text ?f"
    by (simp add: text_of_def collect_map_def rev_map map_of_pair)
  have r: "map_of (cs_entries s) i = map_option (\<lambda>c. snd (chunk_row C k c)) ?f"
  proof -
    have row: "chunk_row C k = (\<lambda>c. (ch_id c, snd (chunk_row C k c)))" by (simp add: chunk_row_def fun_eq_iff)
    show ?thesis unfolding e rev_map by (subst row) (rule map_of_pair)
  qed
  show ?thesis
  proof (cases ?f)
    case None
    then show ?thesis using t r by (simp add: get_chunk_def)
  next
    case (Some c)
    from find_SomeD [OF this] have c: "c \<in> set (kg_chunks kg)" "ch_id c = i" by simp_all
    with seal obtain ct where ct: "ct_seal C k (derive_nonce C i) (ch_text c) = Some ct" "utf8_valid (ch_text c)" by auto
    with C have "ct_unseal C k (derive_nonce C i) ct = Some (ch_text c)" by (auto simp: chunk_ext_ok_def)
    then show ?thesis using Some t r c(2) ct k by (simp add: get_chunk_def chunk_row_def from_utf8_def)
  qed
qed

section \<open>Multi-map entries\<close>

definition values_at :: "('k \<times> 'v list) list \<Rightarrow> 'k \<Rightarrow> 'v list" where
  "values_at m k = (case map_of m k of None \<Rightarrow> [] | Some vs \<Rightarrow> vs)"

lemma values_at_append: "values_at (entry_append k vs m) j = (if j = k then values_at m k @ vs else values_at m j)"
  by (simp add: values_at_def map_of_entry_append)

lemma keys_entry_append: "fst ` set (entry_append k vs m) = insert k (fst ` set m)"
  by (simp add: entry_append_def AList.dom_update)

definition related_to :: "str \<Rightarrow> 'f kg_relation \<Rightarrow> bool" where
  "related_to name r \<longleftrightarrow> re_src r = name \<or> re_tgt r = name"

lemma adjacency_fold:
  assumes "\<forall>r \<in> set rs. length (canonical_key r) \<le> vb"
  shows "\<exists>m'. (rfold (adjacency_of vb) rs m :: (kg_error, (str \<times> logical_value list) list) outcome) = Inr m' \<and>
    (\<forall>name. values_at m' name = values_at m name @ map canonical_key (filter (related_to name) rs)) \<and>
    fst ` set m' = fst ` set m \<union> (re_src ` set rs \<union> re_tgt ` set rs) \<and>
    (distinct (map fst m) \<longrightarrow> distinct (map fst m'))"
  using assms
proof (induction rs arbitrary: m)
  case (Cons r rs)
  let ?v = "canonical_key r"
  let ?m1 = "if re_src r \<noteq> re_tgt r then entry_append (re_tgt r) [?v] (entry_append (re_src r) [?v] m)
    else entry_append (re_src r) [?v] m"
  have step: "adjacency_of vb r m = (Inr ?m1 :: (kg_error, (str \<times> logical_value list) list) outcome)"
    using Cons.prems by (simp add: adjacency_of_def string_to_value_def Let_def)
  have v: "values_at ?m1 name = values_at m name @ map canonical_key (filter (related_to name) [r])" for name
    by (auto simp: values_at_append related_to_def)
  have k: "fst ` set ?m1 = fst ` set m \<union> {re_src r, re_tgt r}"
    by (auto simp: keys_entry_append)
  have d: "distinct (map fst m) \<longrightarrow> distinct (map fst ?m1)" by (simp add: distinct_entry_append)
  from Cons obtain m' where "(rfold (adjacency_of vb) rs ?m1 :: (kg_error, (str \<times> logical_value list) list) outcome) = Inr m'"
    "\<forall>name. values_at m' name = values_at ?m1 name @ map canonical_key (filter (related_to name) rs)"
    "fst ` set m' = fst ` set ?m1 \<union> (re_src ` set rs \<union> re_tgt ` set rs)"
    "distinct (map fst ?m1) \<longrightarrow> distinct (map fst m')" by (metis list.set_intros(2))
  then show ?case unfolding rfold.simps step rbind_simps v k
    by (intro exI [of _ m']) (use d in auto)
qed simp

lemma src_chunks_fold:
  assumes "\<forall>e \<in> set es. \<forall>c \<in> set (en_source_chunks e). length c \<le> vb"
  shows "\<exists>m'. (rfold (src_chunks_of vb) es m :: (kg_error, (str \<times> logical_value list) list) outcome) = Inr m' \<and>
    (\<forall>name. values_at m' name = values_at m name @ concat (map en_source_chunks (filter (\<lambda>e. en_name e = name) es))) \<and>
    fst ` set m' = fst ` set m \<union> en_name ` set es \<and> (distinct (map fst m) \<longrightarrow> distinct (map fst m'))"
  using assms
proof (induction es arbitrary: m)
  case (Cons e es)
  let ?m1 = "entry_append (en_name e) (en_source_chunks e) m"
  have "rmap (\<lambda>c. string_to_value c vb) (en_source_chunks e) = (Inr (map (\<lambda>c. c) (en_source_chunks e)) :: (kg_error, _) outcome)"
    by (rule rmap_Inr) (use Cons.prems in \<open>auto simp: string_to_value_def not_less\<close>)
  then have step: "src_chunks_of vb e m = (Inr ?m1 :: (kg_error, (str \<times> logical_value list) list) outcome)"
    by (simp add: src_chunks_of_def)
  from Cons obtain m' where "(rfold (src_chunks_of vb) es ?m1 :: (kg_error, (str \<times> logical_value list) list) outcome) = Inr m'"
    "\<forall>name. values_at m' name = values_at ?m1 name @ concat (map en_source_chunks (filter (\<lambda>e. en_name e = name) es))"
    "fst ` set m' = fst ` set ?m1 \<union> en_name ` set es" "distinct (map fst ?m1) \<longrightarrow> distinct (map fst m')"
    by (metis list.set_intros(2))
  then show ?case unfolding rfold.simps step rbind_simps
    by (intro exI [of _ m']) (auto simp: values_at_append keys_entry_append distinct_entry_append)
qed simp

section \<open>Reading a multi-map back\<close>

lemma xm_build_get:
  assumes "xm_ok X" and "xm_wf p" and "xm_input p entries"
  shows "\<exists>c. xm_build store_ops X entries p k s1 s2 (store_new (xm_n_buckets p)) = Inr c \<and>
    (\<forall>q. xm_get store_ops X c q = Inr (xm_lookup p entries q))"
proof -
  obtain c occ where c: "xm_build store_ops X entries p k s1 s2 (store_new (xm_n_buckets p)) = Inr c"
    "ram.built X entries p k s1 s2 c occ"
    by (rule ram_build [OF assms(2,3) length_store_new])
  have "xm_get_batch store_ops X c ks = Inr (map (xm_lookup p entries) ks)" for ks
    by (rule ram.get_batch_ok [OF assms(1) c(2) assms(3,2)])
  with c(1) show ?thesis by (simp add: xm_get_def)
qed

lemma map_of_map_inj:
  "inj_on f (insert k (fst ` set al)) \<Longrightarrow> map_of (map (\<lambda>(k, v). (f k, v)) al) (f k) = map_of al k"
proof (induction al)
  case (Cons a al)
  obtain k' v where a: "a = (k', v)" by fastforce
  have "inj_on f (insert k (fst ` set al))" by (rule inj_on_subset [OF Cons.prems]) auto
  moreover have "f k' = f k \<longleftrightarrow> k' = k" using Cons.prems a by (auto simp: inj_on_def)
  ultimately show ?case using Cons.IH a by auto
qed simp

definition text_ok :: "str \<Rightarrow> bool" where
  "text_ok s \<longleftrightarrow> utf8_valid s \<and> s \<noteq> [] \<and> last s \<noteq> 0"

lemma decode_padded:
  assumes "\<forall>s \<in> set vs. text_ok s \<and> length s \<le> n"
  shows "decode_values (map (resize n 0) vs) = vs"
  using assms
proof (induction vs)
  case (Cons s vs)
  have "strip_trailing_nuls (resize n 0 s) = s" using Cons.prems by (intro strip_resize) (auto simp: text_ok_def)
  then show ?case using Cons by (simp add: decode_values_def List.map_filter_def from_utf8_def text_ok_def)
qed (simp add: decode_values_def List.map_filter_def)

definition hmac_ok :: "('g, 'f) kg_ext \<Rightarrow> bytes \<Rightarrow> str \<Rightarrow> str set \<Rightarrow> bool" where
  "hmac_ok K mk label names \<longleftrightarrow> inj_on (derive_logical_key (kx_hmac K) mk label) names \<and>
     (\<forall>n \<in> names. length (derive_logical_key (kx_hmac K) mk label n) = 32)"

definition map_order_ok :: "('g, 'f) kg_ext \<Rightarrow> bool" where
  "map_order_ok K \<longleftrightarrow> (\<forall>m. mset (kx_map_order K m) = mset m)"

lemma build_emm_ok:
  assumes X: "xm_ok (kx_xormm K)" and p: "xm_wf p" and h: "hmac_ok K mk label names" and o: "map_order_ok K"
    and d: "distinct (map fst m)" and names: "fst ` set m \<subseteq> names"
    and vals: "\<forall>name. \<forall>v \<in> set (values_at m name). text_ok v \<and> length v \<le> value_bytes p"
  shows "\<exists>c. build_emm store_ops K mk label m p (store_new (xm_n_buckets p)) = Inr c \<and>
    (\<forall>name \<in> names. \<exists>vs. xm_get store_ops (kx_xormm K) c (derive_logical_key (kx_hmac K) mk label name) = Inr vs \<and>
      decode_values vs = take (volume_bound p) (values_at m name))"
proof -
  let ?dk = "derive_logical_key (kx_hmac K) mk label" and ?m = "kx_map_order K m"
  let ?prep = "map (\<lambda>(name, vs). (?dk name, vs)) ?m"
  have ms: "mset ?m = mset m" using o by (simp add: map_order_ok_def)
  then have set: "set ?m = set m" by (metis set_mset_mset)
  have dm: "distinct (map fst ?m)" using d ms by (metis mset_map mset_eq_imp_distinct_iff)
  have map: "map_of ?m = map_of m" using map_of_inject_set [OF dm d] set by simp
  have inj: "inj_on ?dk names" using h by (simp add: hmac_ok_def)
  have "distinct (map fst ?prep)"
  proof -
    have e: "map fst ?prep = map ?dk (map fst ?m)" by (simp add: case_prod_unfold comp_def)
    have "inj_on ?dk (set (map fst ?m))" by (rule inj_on_subset [OF inj]) (use set names in simp)
    then show ?thesis unfolding e using dm by (simp only: distinct_map [of ?dk])
  qed
  moreover have "length k = 32 \<and> (\<forall>v \<in> set (take (volume_bound p) vs). length v \<le> value_bytes p)" if kv: "(k, vs) \<in> set ?prep" for k vs
  proof -
    obtain name where n: "(name, vs) \<in> set m" "k = ?dk name" using kv set by auto
    then have "map_of m name = Some vs" using d by simp
    then have "values_at m name = vs" by (simp add: values_at_def)
    then have "\<forall>v \<in> set vs. length v \<le> value_bytes p" using vals by metis
    moreover have "name \<in> names" using n names by force
    ultimately show ?thesis using n(2) h set_take_subset [of "volume_bound p" vs] by (auto simp: hmac_ok_def)
  qed
  ultimately have "xm_input p ?prep" unfolding xm_input_def by blast
  from xm_build_get [OF X p this] obtain c where c:
    "xm_build store_ops (kx_xormm K) ?prep p mk (take 16 mk) (drop 16 mk) (store_new (xm_n_buckets p)) = Inr c"
    "\<forall>q. xm_get store_ops (kx_xormm K) c q = Inr (xm_lookup p ?prep q)" by blast
  have "decode_values (xm_lookup p ?prep (?dk name)) = take (volume_bound p) (values_at m name)" if n: "name \<in> names" for name
  proof -
    have "inj_on ?dk (insert name (fst ` set ?m))" by (rule inj_on_subset [OF inj]) (use n set names in auto)
    then have "map_of ?prep (?dk name) = map_of m name" using map_of_map_inj map by metis
    then have l: "xm_lookup p ?prep (?dk name) = map (resize (value_bytes p) 0) (take (volume_bound p) (values_at m name))"
      by (simp add: xm_lookup_def values_at_def split: option.split)
    have "\<forall>v \<in> set (take (volume_bound p) (values_at m name)). text_ok v \<and> length v \<le> value_bytes p"
      using vals by (meson in_set_takeD)
    from decode_padded [OF this] show ?thesis unfolding l .
  qed
  then show ?thesis using c by (simp add: build_emm_def)
qed

section \<open>The built store\<close>

lemma canonical_key_ok: "text_ok (re_src r) \<Longrightarrow> text_ok (re_tgt r) \<Longrightarrow> text_ok (canonical_key r)"
  by (simp add: canonical_key_def text_ok_def utf8_valid_append utf8_valid_ascii_byte del: utf8_valid.simps(2))

definition kg_names :: "'f extracted_kg \<Rightarrow> str set" where
  "kg_names kg = re_src ` set (kg_relations kg) \<union> re_tgt ` set (kg_relations kg) \<union> en_name ` set (kg_entities kg)"

definition kg_wf :: "('g, 'f) kg_ext \<Rightarrow> 'f extracted_kg \<Rightarrow> 'f light_kg_params \<Rightarrow> derived_keys_v2 \<Rightarrow> bool" where
  "kg_wf K kg p keys \<longleftrightarrow> ext_ok (kx_oram K) \<and> heap_order_ok (kx_heap_order K) \<and>
     compass_wf (kx_f32 K) (lk_entities p) (map en_embedding (kg_entities kg)) \<and>
     compass_wf (kx_f32 K) (lk_relations p) (map re_embedding (kg_relations kg)) \<and>
     compass_wf (kx_f32 K) (lk_chunks p) (map ch_embedding (kg_chunks kg)) \<and>
     xm_ok (kx_xormm K) \<and> xm_wf (lk_adjacency p) \<and> xm_wf (lk_src_chunks p) \<and>
     chunk_ext_ok (kx_chunk K) \<and> map_order_ok K \<and>
     hmac_ok K (emm_adjacency_key keys) ADJACENCY_ENTITY (kg_names kg) \<and>
     hmac_ok K (emm_src_chunks_key keys) SRC_CHUNKS_ENTITY (kg_names kg) \<and>
     (\<forall>c \<in> set (kg_chunks kg). ct_seal (kx_chunk K) (aes_chunk_key keys) (derive_nonce (kx_chunk K) (ch_id c)) (ch_text c) \<noteq> None \<and>
        utf8_valid (ch_text c)) \<and>
     (\<forall>r \<in> set (kg_relations kg). text_ok (re_src r) \<and> text_ok (re_tgt r) \<and>
        length (canonical_key r) \<le> value_bytes (lk_adjacency p)) \<and>
     (\<forall>e \<in> set (kg_entities kg). \<forall>c \<in> set (en_source_chunks e). text_ok c \<and> length c \<le> value_bytes (lk_src_chunks p))"

definition adjacent :: "'f light_kg_params \<Rightarrow> 'f extracted_kg \<Rightarrow> str \<Rightarrow> str list" where
  "adjacent p kg name = take (volume_bound (lk_adjacency p)) (map canonical_key (filter (related_to name) (kg_relations kg)))"

definition sources :: "'f light_kg_params \<Rightarrow> 'f extracted_kg \<Rightarrow> str \<Rightarrow> str list" where
  "sources p kg name = take (volume_bound (lk_src_chunks p))
     (concat (map en_source_chunks (filter (\<lambda>e. en_name e = name) (kg_entities kg))))"

definition text_result :: "'f extracted_kg \<Rightarrow> str \<Rightarrow> (kg_error, str) outcome" where
  "text_result kg i = (case text_of kg i of None \<Rightarrow> Inl (Fail (KgChunk (ChunkNotFound i))) | Some t \<Rightarrow> Inr t)"

type_synonym ('g, 'f) mem_kg_store = "(mem_backend, 'g, 'f, mem_store) kg_store"

definition kg_state :: "('g, 'f) kg_ext \<Rightarrow> 'f extracted_kg \<Rightarrow> 'f light_kg_params \<Rightarrow> 'f plain_hnsw \<Rightarrow> 'f plain_hnsw \<Rightarrow>
    ('g, 'f) mem_kg_store \<Rightarrow> bool" where
  "kg_state K kg p he hr s \<longleftrightarrow>
     index_ok mem_ops mem_view mem_inv (kx_oram K) (kx_f32 K) (lk_entities p) he (clear_of (kx_f32 K) (lk_entities p) he) (ks_entities s) \<and>
     index_ok mem_ops mem_view mem_inv (kx_oram K) (kx_f32 K) (lk_relations p) hr (clear_of (kx_f32 K) (lk_relations p) hr) (ks_relations s) \<and>
     ks_entity_block_id s = index_ids en_name (kg_entities kg) \<and>
     ks_relation_block_id s = index_ids canonical_key (kg_relations kg) \<and>
     (\<forall>i. ks_relation_endpoints s i = (if i < length (kg_relations kg)
        then Some (re_src (kg_relations kg ! i), re_tgt (kg_relations kg ! i)) else None)) \<and>
     (\<forall>name \<in> kg_names kg. adjacency_for_entity store_ops K s name = Inr (adjacent p kg name)) \<and>
     (\<forall>name \<in> kg_names kg. src_chunks_for_entity store_ops K s name = Inr (sources p kg name)) \<and>
     (\<forall>i. chunk_text K s i = text_result kg i)"

lemma lookup_indices [simp]:
  "adjacency_for_entity bs K (s\<lparr>ks_entities := i\<rparr>) = adjacency_for_entity bs K s"
  "adjacency_for_entity bs K (s\<lparr>ks_relations := i\<rparr>) = adjacency_for_entity bs K s"
  "src_chunks_for_entity bs K (s\<lparr>ks_entities := i\<rparr>) = src_chunks_for_entity bs K s"
  "src_chunks_for_entity bs K (s\<lparr>ks_relations := i\<rparr>) = src_chunks_for_entity bs K s"
  "chunk_text K (s\<lparr>ks_entities := i\<rparr>) = chunk_text K s"
  "chunk_text K (s\<lparr>ks_relations := i\<rparr>) = chunk_text K s"
  by (simp_all add: adjacency_for_entity_def src_chunks_for_entity_def chunk_text_def fun_eq_iff)

lemma corpus_mem:
  fixes F :: "'f f32_ops" and X :: "'g oram_ext"
  assumes "ext_ok X" and "compass_wf F p embs" and "heap_order_ok ho"
  shows "\<exists>h idx. (hnsw_build F ho draws embs (cp_hnsw p) :: (compass_error, 'f plain_hnsw) outcome) = Inr h \<and>
    plain_for p embs h \<and> clear_ok F (clear_of F p h) h \<and>
    from_plaintext_corpus_on mem_ops X F sha256 ho draws embs p (mem_new (num_buckets (cp_oram p))) = Inr idx \<and>
    index_ok mem_ops mem_view mem_inv X F p h (clear_of F p h) idx"
proof -
  have n: "num_buckets (cp_oram p) < 2 ^ 32" by (simp add: num_buckets_def low_mask32_def wsub32_def)
  obtain h cx idx where "(hnsw_build F ho draws embs (cp_hnsw p) :: (compass_error, 'f plain_hnsw) outcome) = Inr h"
    "plain_for p embs h" "clear_ok F cx h" "cx_params cx = p"
    "from_plaintext_corpus_on mem_ops X F sha256 ho draws embs p (mem_new (num_buckets (cp_oram p))) = Inr idx"
    "index_ok mem_ops mem_view mem_inv X F p h cx idx"
    using mem.corpus_ok [OF assms mem_new_inv [OF n] mem_new_num [OF n]] by blast
  then show ?thesis using clear_ok_unique [of F cx h p] by auto
qed

definition built_with :: "('g, 'f) kg_ext \<Rightarrow> 'f compass_params \<Rightarrow> 'f list list \<Rightarrow> 'f plain_hnsw \<Rightarrow> bool" where
  "built_with K cp embs h \<longleftrightarrow>
     (hnsw_build (kx_f32 K) (kx_heap_order K) (kx_draws K) embs (cp_hnsw cp) :: (compass_error, 'f plain_hnsw) outcome) = Inr h \<and>
     plain_for cp embs h \<and> clear_ok (kx_f32 K) (clear_of (kx_f32 K) cp h) h"

lemma adjacency_emm_ok:
  assumes wf: "kg_wf K kg p keys"
  shows "\<exists>m c. (rfold (adjacency_of (value_bytes (lk_adjacency p))) (kg_relations kg) [] ::
      (kg_error, (str \<times> logical_value list) list) outcome) = Inr m \<and>
    build_emm store_ops K (emm_adjacency_key keys) ADJACENCY_ENTITY m (lk_adjacency p) (store_new (xm_n_buckets (lk_adjacency p))) = Inr c \<and>
    (\<forall>name \<in> kg_names kg. \<exists>vs. xm_get store_ops (kx_xormm K) c
        (derive_logical_key (kx_hmac K) (emm_adjacency_key keys) ADJACENCY_ENTITY name) = Inr vs \<and>
      decode_values vs = adjacent p kg name)"
proof -
  have r: "\<forall>r \<in> set (kg_relations kg). text_ok (canonical_key r) \<and> length (canonical_key r) \<le> value_bytes (lk_adjacency p)"
    using wf canonical_key_ok by (auto simp: kg_wf_def)
  obtain m where m: "(rfold (adjacency_of (value_bytes (lk_adjacency p))) (kg_relations kg) [] ::
      (kg_error, (str \<times> logical_value list) list) outcome) = Inr m"
    "\<forall>name. values_at m name = map canonical_key (filter (related_to name) (kg_relations kg))"
    "fst ` set m = re_src ` set (kg_relations kg) \<union> re_tgt ` set (kg_relations kg)" "distinct (map fst m)"
    using adjacency_fold [of "kg_relations kg" "value_bytes (lk_adjacency p)" "[]"] r by (auto simp: values_at_def)
  have names: "fst ` set m \<subseteq> kg_names kg" using m(3) by (auto simp: kg_names_def)
  have vals: "\<forall>name. \<forall>v \<in> set (values_at m name). text_ok v \<and> length v \<le> value_bytes (lk_adjacency p)"
    using m(2) r by auto
  have W: "xm_ok (kx_xormm K)" "xm_wf (lk_adjacency p)" "hmac_ok K (emm_adjacency_key keys) ADJACENCY_ENTITY (kg_names kg)" "map_order_ok K"
    using wf by (simp_all add: kg_wf_def)
  from build_emm_ok [OF W m(4) names vals] m(1,2) show ?thesis by (auto simp: adjacent_def)
qed

lemma src_chunks_emm_ok:
  assumes wf: "kg_wf K kg p keys"
  shows "\<exists>m c. (rfold (src_chunks_of (value_bytes (lk_src_chunks p))) (kg_entities kg) [] ::
      (kg_error, (str \<times> logical_value list) list) outcome) = Inr m \<and>
    build_emm store_ops K (emm_src_chunks_key keys) SRC_CHUNKS_ENTITY m (lk_src_chunks p) (store_new (xm_n_buckets (lk_src_chunks p))) = Inr c \<and>
    (\<forall>name \<in> kg_names kg. \<exists>vs. xm_get store_ops (kx_xormm K) c
        (derive_logical_key (kx_hmac K) (emm_src_chunks_key keys) SRC_CHUNKS_ENTITY name) = Inr vs \<and>
      decode_values vs = sources p kg name)"
proof -
  have r: "\<forall>e \<in> set (kg_entities kg). \<forall>c \<in> set (en_source_chunks e). text_ok c \<and> length c \<le> value_bytes (lk_src_chunks p)"
    using wf by (simp add: kg_wf_def)
  then obtain m where m: "(rfold (src_chunks_of (value_bytes (lk_src_chunks p))) (kg_entities kg) [] ::
      (kg_error, (str \<times> logical_value list) list) outcome) = Inr m"
    "\<forall>name. values_at m name = concat (map en_source_chunks (filter (\<lambda>e. en_name e = name) (kg_entities kg)))"
    "fst ` set m = en_name ` set (kg_entities kg)" "distinct (map fst m)"
    using src_chunks_fold [of "kg_entities kg" "value_bytes (lk_src_chunks p)" "[]"] by (auto simp: values_at_def)
  have names: "fst ` set m \<subseteq> kg_names kg" using m(3) by (auto simp: kg_names_def)
  have vals: "\<forall>name. \<forall>v \<in> set (values_at m name). text_ok v \<and> length v \<le> value_bytes (lk_src_chunks p)"
    using m(2) r by auto
  have W: "xm_ok (kx_xormm K)" "xm_wf (lk_src_chunks p)" "hmac_ok K (emm_src_chunks_key keys) SRC_CHUNKS_ENTITY (kg_names kg)" "map_order_ok K"
    using wf by (simp_all add: kg_wf_def)
  from build_emm_ok [OF W m(4) names vals] m(1,2) show ?thesis by (auto simp: sources_def)
qed

lemma kg_build_ok:
  fixes K :: "('g, 'f) kg_ext"
  assumes wf: "kg_wf K kg p keys"
  shows "\<exists>s he hr. build_from_kg K kg p keys = Inr s \<and> built_with K (lk_entities p) (map en_embedding (kg_entities kg)) he \<and>
    built_with K (lk_relations p) (map re_embedding (kg_relations kg)) hr \<and> kg_state K kg p he hr s"
proof -
  have W: "ext_ok (kx_oram K)" "heap_order_ok (kx_heap_order K)"
    "compass_wf (kx_f32 K) (lk_entities p) (map en_embedding (kg_entities kg))"
    "compass_wf (kx_f32 K) (lk_relations p) (map re_embedding (kg_relations kg))"
    "compass_wf (kx_f32 K) (lk_chunks p) (map ch_embedding (kg_chunks kg))" "chunk_ext_ok (kx_chunk K)"
    "\<forall>c \<in> set (kg_chunks kg). ct_seal (kx_chunk K) (aes_chunk_key keys) (derive_nonce (kx_chunk K) (ch_id c)) (ch_text c) \<noteq> None \<and>
        utf8_valid (ch_text c)"
    using wf by (simp_all add: kg_wf_def)
  obtain he ie where e: "built_with K (lk_entities p) (map en_embedding (kg_entities kg)) he"
    "from_plaintext_corpus_on mem_ops (kx_oram K) (kx_f32 K) (kx_sha256 K) (kx_heap_order K) (kx_draws K)
      (map en_embedding (kg_entities kg)) (lk_entities p) (mem_new (num_buckets (cp_oram (lk_entities p)))) = Inr ie"
    "index_ok mem_ops mem_view mem_inv (kx_oram K) (kx_f32 K) (lk_entities p) he (clear_of (kx_f32 K) (lk_entities p) he) ie"
    using corpus_mem [OF W(1,3,2)] unfolding built_with_def by blast
  obtain hr ir where r: "built_with K (lk_relations p) (map re_embedding (kg_relations kg)) hr"
    "from_plaintext_corpus_on mem_ops (kx_oram K) (kx_f32 K) (kx_sha256 K) (kx_heap_order K) (kx_draws K)
      (map re_embedding (kg_relations kg)) (lk_relations p) (mem_new (num_buckets (cp_oram (lk_relations p)))) = Inr ir"
    "index_ok mem_ops mem_view mem_inv (kx_oram K) (kx_f32 K) (lk_relations p) hr (clear_of (kx_f32 K) (lk_relations p) hr) ir"
    using corpus_mem [OF W(1,4,2)] unfolding built_with_def by blast
  obtain ic where c: "from_plaintext_corpus_on mem_ops (kx_oram K) (kx_f32 K) (kx_sha256 K) (kx_heap_order K) (kx_draws K)
      (map ch_embedding (kg_chunks kg)) (lk_chunks p) (mem_new (num_buckets (cp_oram (lk_chunks p)))) = Inr ic"
    using corpus_mem [OF W(1,5,2)] by blast
  have "\<forall>c \<in> set (kg_chunks kg). ct_seal (kx_chunk K) (cs_key (chunk_store_new (aes_chunk_key keys))) (derive_nonce (kx_chunk K) (ch_id c)) (ch_text c) \<noteq> None"
    using W(7) by (simp add: chunk_store_new_def)
  from put_all_ok [OF this] obtain cs where cs:
    "put_all (kx_chunk K) (kg_chunks kg) (chunk_store_new (aes_chunk_key keys)) = (Inr (), cs)" "cs_key cs = aes_chunk_key keys"
    "map_of (cs_entries cs) = map_of (rev (map (chunk_row (kx_chunk K) (aes_chunk_key keys)) (kg_chunks kg)))"
    by (auto simp: chunk_store_new_def)
  obtain ma ca where a: "(rfold (adjacency_of (value_bytes (lk_adjacency p))) (kg_relations kg) [] ::
      (kg_error, (str \<times> logical_value list) list) outcome) = Inr ma"
    "build_emm store_ops K (emm_adjacency_key keys) ADJACENCY_ENTITY ma (lk_adjacency p) (store_new (xm_n_buckets (lk_adjacency p))) = Inr ca"
    "\<forall>name \<in> kg_names kg. \<exists>vs. xm_get store_ops (kx_xormm K) ca
        (derive_logical_key (kx_hmac K) (emm_adjacency_key keys) ADJACENCY_ENTITY name) = Inr vs \<and> decode_values vs = adjacent p kg name"
    using adjacency_emm_ok [OF wf] by blast
  obtain ms cm where m: "(rfold (src_chunks_of (value_bytes (lk_src_chunks p))) (kg_entities kg) [] ::
      (kg_error, (str \<times> logical_value list) list) outcome) = Inr ms"
    "build_emm store_ops K (emm_src_chunks_key keys) SRC_CHUNKS_ENTITY ms (lk_src_chunks p) (store_new (xm_n_buckets (lk_src_chunks p))) = Inr cm"
    "\<forall>name \<in> kg_names kg. \<exists>vs. xm_get store_ops (kx_xormm K) cm
        (derive_logical_key (kx_hmac K) (emm_src_chunks_key keys) SRC_CHUNKS_ENTITY name) = Inr vs \<and> decode_values vs = sources p kg name"
    using src_chunks_emm_ok [OF wf] by blast
  let ?s = "\<lparr>ks_entities = ie, ks_relations = ir, ks_chunks = ic, ks_adjacency = ca, ks_src_chunks = cm, ks_chunk_text = cs,
    ks_entity_block_id = index_ids en_name (kg_entities kg), ks_relation_block_id = index_ids canonical_key (kg_relations kg),
    ks_relation_endpoints = (\<lambda>i. map_option (\<lambda>r. (re_src r, re_tgt r))
      (if i < length (kg_relations kg) then Some (kg_relations kg ! i) else None)),
    ks_chunk_block_id = index_ids ch_id (kg_chunks kg), ks_keys = from_derived keys\<rparr>"
  have "build_from_kg K kg p keys = Inr ?s"
    using e(2) r(2) c cs(1) a(1,2) m(1,2)
    by (simp add: build_from_kg_def build_inner_def Let_def from_derived_def)
  moreover have "chunk_text K ?s i = text_result kg i" for i
    using get_chunk_ok [OF W(6) cs(2) W(7) cs(3), of i]
    by (simp add: chunk_text_def text_result_def split: option.split)
  then have "kg_state K kg p he hr ?s"
    using e(3) r(3) a(3) m(3)
    by (auto simp: kg_state_def adjacency_for_entity_def src_chunks_for_entity_def from_derived_def)
  ultimately show ?thesis using e(1) r(1) by blast
qed

end
