(* ===== verification/Kg_Theorems.thy ===== *)
theory Kg_Theorems
  imports Kg_Correct Compass_Theorems
begin

text \<open>
  The properties of the encrypted knowledge-graph store: its retrieval query against the
  retrieval over the plaintext graph, its lookups, its failures, and its canonical keys.
\<close>

section \<open>The reference retrieval\<close>

definition endpoints :: "'f extracted_kg \<Rightarrow> nat \<Rightarrow> str list" where
  "endpoints kg i = (if i < length (kg_relations kg) then [re_src (kg_relations kg ! i), re_tgt (kg_relations kg ! i)] else [])"

text \<open>Retrieval over the plaintext graph: searches of the two plaintext HNSW graphs, names by
  position, then the relations and chunks of every name.\<close>

definition plain_query :: "('g, 'f) kg_ext \<Rightarrow> 'f extracted_kg \<Rightarrow> 'f light_kg_params \<Rightarrow> 'f plain_hnsw \<Rightarrow> 'f plain_hnsw \<Rightarrow>
    'f list \<Rightarrow> 'f list \<Rightarrow> kg_query_params \<Rightarrow> (kg_error, kg_context) outcome" where
  "plain_query K kg p he hr ll hl qp =
     (let find = (\<lambda>cp h q k. fail_as KgCompass (plain_search (kx_f32 K) (kx_heap_order K) (clear_of (kx_f32 K) cp h) h q k)) in
      rbind (find (lk_entities p) he ll (top_k_entities qp)) (\<lambda>ids.
      rbind (case qp_shape qp of Local \<Rightarrow> Inr [] | Hybrid \<Rightarrow> find (lk_relations p) hr hl (top_k_relations qp)) (\<lambda>rids.
      let names = retain_first (List.map_filter (last_with en_name (kg_entities kg)) ids @ concat (map (endpoints kg) rids));
          found = List.map_filter (last_with canonical_key (kg_relations kg)) rids;
          chunk_ids = retain_first (concat (map (\<lambda>n. take (top_k_chunks_per_entity qp) (sources p kg n)) names)) in
      rbind (rmap (\<lambda>i. rbind (text_result kg i) (\<lambda>t. Inr (i, t))) chunk_ids) (\<lambda>texts.
      Inr \<lparr>kc_entities = names, kc_relations = retain_first (found @ concat (map (adjacent p kg) names)), kc_chunks = texts\<rparr>))))"

lemma map_filter_snoc_case:
  "List.map_filter f (xs @ ys) = List.map_filter f xs @ List.map_filter f ys"
  by (simp add: List.map_filter_def)

lemma inflate_fold:
  assumes "ks_relation_block_id s = index_ids canonical_key (kg_relations kg)"
    and "\<forall>i. ks_relation_endpoints s i = (if i < length (kg_relations kg)
        then Some (re_src (kg_relations kg ! i), re_tgt (kg_relations kg ! i)) else None)"
  shows "fold (inflate s) rids (names, found) =
    (names @ concat (map (endpoints kg) rids), found @ List.map_filter (last_with canonical_key (kg_relations kg)) rids)"
  by (induction rids arbitrary: names found)
    (auto simp: inflate_def assms name_of_index_ids endpoints_def List.map_filter_simps split: option.split)

lemma fan_out_ok:
  assumes s: "kg_state K kg p he hr s" and names: "set names \<subseteq> kg_names kg"
  shows "fan_out store_ops K qp names found s =
    rbind (rmap (\<lambda>i. rbind (text_result kg i) (\<lambda>t. Inr (i, t)))
      (retain_first (concat (map (\<lambda>n. take (top_k_chunks_per_entity qp) (sources p kg n)) names)))) (\<lambda>texts.
      Inr \<lparr>kc_entities = names, kc_relations = retain_first (found @ concat (map (adjacent p kg) names)), kc_chunks = texts\<rparr>)"
proof -
  have 1: "rmap (adjacency_for_entity store_ops K s) names = Inr (map (adjacent p kg) names)"
    by (rule rmap_Inr) (use s names in \<open>auto simp: kg_state_def\<close>)
  have 2: "rmap (\<lambda>name. rbind (src_chunks_for_entity store_ops K s name) (\<lambda>cs. Inr (take (top_k_chunks_per_entity qp) cs))) names =
      Inr (map (\<lambda>n. take (top_k_chunks_per_entity qp) (sources p kg n)) names)"
    by (rule rmap_Inr) (use s names in \<open>auto simp: kg_state_def\<close>)
  have 3: "chunk_text K s = text_result kg" using s by (simp add: kg_state_def fun_eq_iff)
  show ?thesis by (simp add: fan_out_def 1 2 3 Let_def)
qed

lemma kg_names_entities: "set (List.map_filter (last_with en_name (kg_entities kg)) ids) \<subseteq> kg_names kg"
  by (auto simp: List.map_filter_def last_with_def kg_names_def split: if_splits)

lemma kg_names_endpoints: "set (concat (map (endpoints kg) rids)) \<subseteq> kg_names kg"
  by (auto simp: endpoints_def kg_names_def split: if_splits)

definition right_dim :: "'f light_kg_params \<Rightarrow> 'f list \<times> 'f list \<times> kg_query_params \<Rightarrow> bool" where
  "right_dim p = (\<lambda>(ll, hl, qp). length ll = hp_dim (cp_hnsw (lk_entities p)) \<and>
     (qp_shape qp = Local \<or> length hl = hp_dim (cp_hnsw (lk_relations p))))"

lemma query_ok:
  fixes K :: "('g, 'f) kg_ext"
  assumes wf: "kg_wf K kg p keys"
    and he: "built_with K (lk_entities p) (map en_embedding (kg_entities kg)) he"
    and hr: "built_with K (lk_relations p) (map re_embedding (kg_relations kg)) hr"
    and s: "kg_state K kg p he hr s" and q: "right_dim p (ll, hl, qp)"
  shows "\<exists>s'. query_context mem_ops store_ops K ll hl qp s = (plain_query K kg p he hr ll hl qp, s') \<and> kg_state K kg p he hr s'"
proof -
  let ?F = "kx_f32 K" and ?ho = "kx_heap_order K"
  let ?I = "\<lambda>cp h. index_ok mem_ops mem_view mem_inv (kx_oram K) ?F cp h (clear_of ?F cp h)"
  let ?names = "List.map_filter (last_with en_name (kg_entities kg))"
  have W: "ext_ok (kx_oram K)" "heap_order_ok ?ho"
    "compass_wf ?F (lk_entities p) (map en_embedding (kg_entities kg))"
    "compass_wf ?F (lk_relations p) (map re_embedding (kg_relations kg))"
    using wf by (simp_all add: kg_wf_def)
  have E: "plain_for (lk_entities p) (map en_embedding (kg_entities kg)) he" "clear_ok ?F (clear_of ?F (lk_entities p) he) he"
    and R: "plain_for (lk_relations p) (map re_embedding (kg_relations kg)) hr" "clear_ok ?F (clear_of ?F (lk_relations p) hr) hr"
    using he hr by (simp_all add: built_with_def)
  have cp: "cx_params (clear_of ?F cp h) = cp" for cp h by (simp add: clear_of_def)
  have Q: "length ll = hp_dim (cp_hnsw (lk_entities p))" "qp_shape qp = Hybrid \<Longrightarrow> length hl = hp_dim (cp_hnsw (lk_relations p))"
    using q by (auto simp: right_dim_def)
  have I: "?I (lk_entities p) he (ks_entities s)" "?I (lk_relations p) hr (ks_relations s)"
    using s by (simp_all add: kg_state_def)
  obtain ids e1 where e: "search mem_ops (kx_oram K) ?F ?ho ll (top_k_entities qp) (ks_entities s) = (Inr ids, e1)"
    "plain_search ?F ?ho (clear_of ?F (lk_entities p) he) he ll (top_k_entities qp) = Inr ids" "?I (lk_entities p) he e1"
    using mem.search_ok [OF W(1) E(1) W(3) cp E(2) W(2) Q(1) I(1), of "top_k_entities qp"] by blast
  let ?s1 = "s\<lparr>ks_entities := e1\<rparr>"
  have s1: "kg_state K kg p he hr ?s1" using s e(3) by (simp add: kg_state_def)
  have 1: "query_entities_topk mem_ops K ll (top_k_entities qp) s = (Inr ids, ?s1)"
    using e(1) by (simp add: query_entities_topk_def on_entities_def)
  have n1: "List.map_filter (name_of_id (ks_entity_block_id ?s1)) ids = ?names ids"
  proof -
    have "name_of_id (ks_entity_block_id ?s1) = last_with en_name (kg_entities kg)"
      using s by (simp add: kg_state_def fun_eq_iff name_of_index_ids)
    then show ?thesis by simp
  qed
  show ?thesis
  proof (cases "qp_shape qp")
    case Local
    have "set (retain_first (?names ids)) \<subseteq> kg_names kg" using kg_names_entities by simp
    from fan_out_ok [OF s1 this] have "query_context mem_ops store_ops K ll hl qp s = (plain_query K kg p he hr ll hl qp, ?s1)"
      using Local 1 n1 e(2)
      by (simp add: query_context_def plain_query_def ebind_def eget_def ereturn_def Let_def List.map_filter_simps)
    then show ?thesis using s1 by blast
  next
    case Hybrid
    obtain rids r1 where r: "search mem_ops (kx_oram K) ?F ?ho hl (top_k_relations qp) (ks_relations s) = (Inr rids, r1)"
      "plain_search ?F ?ho (clear_of ?F (lk_relations p) hr) hr hl (top_k_relations qp) = Inr rids" "?I (lk_relations p) hr r1"
      using mem.search_ok [OF W(1) R(1) W(4) cp R(2) W(2) Q(2) I(2), of "top_k_relations qp"] Hybrid by blast
    let ?s2 = "?s1\<lparr>ks_relations := r1\<rparr>"
    have s2: "kg_state K kg p he hr ?s2" using s1 r(3) by (simp add: kg_state_def)
    have 2: "query_relations_topk mem_ops K hl (top_k_relations qp) ?s1 = (Inr rids, ?s2)"
      using r(1) by (simp add: query_relations_topk_def on_relations_def)
    have 3: "fold (inflate ?s2) rids (?names ids, []) =
        (?names ids @ concat (map (endpoints kg) rids), List.map_filter (last_with canonical_key (kg_relations kg)) rids)"
      using inflate_fold [of ?s2 kg rids "?names ids" "[]"] s2 by (simp add: kg_state_def)
    have "set (retain_first (?names ids @ concat (map (endpoints kg) rids))) \<subseteq> kg_names kg"
      using kg_names_entities [of kg ids] kg_names_endpoints [of kg rids] by simp
    from fan_out_ok [OF s2 this] have "query_context mem_ops store_ops K ll hl qp s = (plain_query K kg p he hr ll hl qp, ?s2)"
      using Hybrid 1 2 3 n1 e(2) r(2)
      by (simp add: query_context_def plain_query_def ebind_def eget_def ereturn_def Let_def)
    then show ?thesis using s2 by blast
  qed
qed

section \<open>Demonstration graph\<close>

definition demo_kg :: "u32 extracted_kg" where
  "demo_kg = \<lparr>
     kg_chunks = [\<lparr>ch_id = ascii ''c1'', ch_text = ascii ''one'', ch_embedding = [1]\<rparr>,
                  \<lparr>ch_id = ascii ''c2'', ch_text = ascii ''two'', ch_embedding = [2]\<rparr>],
     kg_entities = [\<lparr>en_name = ascii ''A'', en_description = [], en_embedding = [1], en_source_chunks = [ascii ''c1'']\<rparr>,
                    \<lparr>en_name = ascii ''B'', en_description = [], en_embedding = [2], en_source_chunks = [ascii ''c1'', ascii ''c2'']\<rparr>],
     kg_relations = [\<lparr>re_src = ascii ''B'', re_tgt = ascii ''A'', re_description = [], re_embedding = [3], re_source_chunks = []\<rparr>]\<rparr>"

definition demo_kg_params :: "u32 light_kg_params" where
  "demo_kg_params = \<lparr>lk_entities = demo_compass, lk_relations = demo_compass, lk_chunks = demo_compass,
     lk_adjacency = \<lparr>volume_bound = 2, value_bytes = 4, xm_n_buckets = 2, max_kicks = 1\<rparr>,
     lk_src_chunks = \<lparr>volume_bound = 2, value_bytes = 4, xm_n_buckets = 2, max_kicks = 1\<rparr>\<rparr>"

definition demo_chunk_ext :: chunk_ext where
  "demo_chunk_ext = \<lparr>ct_seal = (\<lambda>k n m. if length m < 100 then Some (n @ m) else None),
     ct_unseal = (\<lambda>k n c. if take (length n) c = n then Some (drop (length n) c) else None), ct_sha256 = (\<lambda>m. m)\<rparr>"

definition demo_kg_ext :: "(nat, u32) kg_ext" where
  "demo_kg_ext = \<lparr>kx_oram = demo_ext, kx_f32 = demo_f32, kx_heap_order = (\<lambda>xs. xs), kx_draws = demo_draws,
     kx_xormm = xm_demo_ext, kx_chunk = demo_chunk_ext, kx_hmac = (\<lambda>k m. resize 32 0 m), kx_map_order = (\<lambda>m. m),
     kx_sha256 = (\<lambda>m. m)\<rparr>"

definition demo_kg_keys :: derived_keys_v2 where
  "demo_kg_keys = \<lparr>caprise_seed = [], aes_chunk_key = [], oram_entities_key = [], oram_relations_key = [],
     oram_chunks_key = [], emm_adjacency_key = [], emm_src_chunks_key = [], search_pattern_key = []\<rparr>"

lemma demo_compass_ok: "embs \<noteq> [] \<Longrightarrow> \<forall>e \<in> set embs. length e = 1 \<Longrightarrow> length embs < 10 \<Longrightarrow> compass_wf demo_f32 demo_compass embs"
  using demo_f32_ok by (simp add: compass_wf_def demo_compass_def demo_hnsw_def wf_params_def serialised_size_def)

lemma demo_chunk_ext_ok: "chunk_ext_ok demo_chunk_ext"
  by (auto simp: chunk_ext_ok_def demo_chunk_ext_def split: if_splits)

lemma demo_names: "kg_names demo_kg = {ascii ''A'', ascii ''B''}"
  by (auto simp: kg_names_def demo_kg_def)

lemma demo_hmac_ok: "hmac_ok demo_kg_ext mk ADJACENCY_ENTITY (kg_names demo_kg)" "hmac_ok demo_kg_ext mk SRC_CHUNKS_ENTITY (kg_names demo_kg)"
proof -
  have "resize 32 0 (l @ [0] @ ascii ''A'') \<noteq> resize 32 0 (l @ [0] @ ascii ''B'')" if "l = ADJACENCY_ENTITY \<or> l = SRC_CHUNKS_ENTITY" for l
    using that by (elim disjE) (hypsubst, code_simp)+
  then show "hmac_ok demo_kg_ext mk ADJACENCY_ENTITY (kg_names demo_kg)" "hmac_ok demo_kg_ext mk SRC_CHUNKS_ENTITY (kg_names demo_kg)"
    by (force simp: hmac_ok_def demo_names derive_logical_key_def demo_kg_ext_def)+
qed

lemma demo_texts:
  "\<forall>c \<in> set (kg_chunks demo_kg). ct_seal demo_chunk_ext k (derive_nonce demo_chunk_ext (ch_id c)) (ch_text c) \<noteq> None \<and> utf8_valid (ch_text c)"
  "\<forall>r \<in> set (kg_relations demo_kg). text_ok (re_src r) \<and> text_ok (re_tgt r) \<and> length (canonical_key r) \<le> 4"
  "\<forall>e \<in> set (kg_entities demo_kg). \<forall>c \<in> set (en_source_chunks e). text_ok c \<and> length c \<le> 4"
  by (code_simp)+

lemma demo_kg_wf: "kg_wf demo_kg_ext demo_kg demo_kg_params demo_kg_keys"
proof -
  have "compass_wf demo_f32 demo_compass (map en_embedding (kg_entities demo_kg))"
    "compass_wf demo_f32 demo_compass (map re_embedding (kg_relations demo_kg))"
    "compass_wf demo_f32 demo_compass (map ch_embedding (kg_chunks demo_kg))"
    by (intro demo_compass_ok; simp add: demo_kg_def)+
  then show ?thesis
    using demo_ext_ok heap_order_id xm_demo(1) demo_chunk_ext_ok demo_hmac_ok demo_texts
    unfolding kg_wf_def by (simp add: demo_kg_ext_def demo_kg_params_def xm_wf_def map_order_ok_def)
qed

section \<open>Retrieval\<close>

text \<open>A series of retrieval queries.\<close>

fun query_all :: "'b backend_ops \<Rightarrow> 's byte_store_ops \<Rightarrow> ('g, 'f) kg_ext \<Rightarrow> ('f list \<times> 'f list \<times> kg_query_params) list \<Rightarrow>
    ('b, 'g, 'f, 's) kg_store \<Rightarrow> (kg_error, kg_context) outcome list \<times> ('b, 'g, 'f, 's) kg_store" where
  "query_all be bs K [] s = ([], s)"
| "query_all be bs K ((ll, hl, qp) # qs) s =
     (let (r, s') = query_context be bs K ll hl qp s; (rs, s'') = query_all be bs K qs s' in (r # rs, s''))"

lemma query_all_ok:
  fixes K :: "('g, 'f) kg_ext"
  assumes wf: "kg_wf K kg p keys"
    and he: "built_with K (lk_entities p) (map en_embedding (kg_entities kg)) he"
    and hr: "built_with K (lk_relations p) (map re_embedding (kg_relations kg)) hr"
    and "kg_state K kg p he hr s" and "\<forall>q \<in> set qs. right_dim p q"
  shows "\<exists>s'. query_all mem_ops store_ops K qs s = (map (\<lambda>(ll, hl, qp). plain_query K kg p he hr ll hl qp) qs, s')"
  using assms(4,5)
proof (induction qs arbitrary: s)
  case (Cons q qs)
  obtain ll hl qp where q: "q = (ll, hl, qp)" by (metis prod_cases3)
  with Cons.prems have "right_dim p (ll, hl, qp)" by simp
  from query_ok [OF wf he hr Cons.prems(1) this] obtain s1 where
    "query_context mem_ops store_ops K ll hl qp s = (plain_query K kg p he hr ll hl qp, s1)" "kg_state K kg p he hr s1" by blast
  with Cons.IH [of s1] Cons.prems(2) q show ?case by auto
qed simp

text \<open>C13: A knowledge graph encrypted into three Ring-ORAM indices, two XorMM multi-maps and the
  sealed chunk texts answers every series of Local and Hybrid queries exactly like the
  retrieval over the plaintext graph: entities, relations, chunk texts, their order, and the
  error of a missing chunk text alike.\<close>

theorem kg_query_refines:
  fixes K :: "('g, 'f) kg_ext"
  assumes "kg_wf K kg p keys" and "\<forall>q \<in> set qs. right_dim p q"
  shows "\<exists>s s' he hr. build_from_kg K kg p keys = Inr s \<and>
    built_with K (lk_entities p) (map en_embedding (kg_entities kg)) he \<and>
    built_with K (lk_relations p) (map re_embedding (kg_relations kg)) hr \<and>
    query_all mem_ops store_ops K qs s = (map (\<lambda>(ll, hl, qp). plain_query K kg p he hr ll hl qp) qs, s')"
  using kg_build_ok [OF assms(1)] query_all_ok [OF assms(1) _ _ _ assms(2)] by blast

theorem kg_query_refines_witness:
  "\<exists>s s' he hr. build_from_kg demo_kg_ext demo_kg demo_kg_params demo_kg_keys = Inr s \<and>
    query_all mem_ops store_ops demo_kg_ext [([1], [], default_kg_query_params), ([2], [3], default_kg_query_params\<lparr>qp_shape := Hybrid\<rparr>)] s =
      ([plain_query demo_kg_ext demo_kg demo_kg_params he hr [1] [] default_kg_query_params,
        plain_query demo_kg_ext demo_kg demo_kg_params he hr [2] [3] (default_kg_query_params\<lparr>qp_shape := Hybrid\<rparr>)], s')"
  using kg_query_refines [OF demo_kg_wf, of "[([1], [], default_kg_query_params), ([2], [3], default_kg_query_params\<lparr>qp_shape := Hybrid\<rparr>)]"]
  by (fastforce simp: right_dim_def demo_kg_params_def demo_compass_def demo_hnsw_def default_kg_query_params_def)

section \<open>Lookups\<close>

text \<open>In a built store the adjacency multi-map gives, for every name of the graph, the
  canonical keys of the relations it takes part in, in order and cut at the volume bound; the
  source multi-map its source chunks; the chunk store the text put last under an id, and
  \<open>NotFound\<close> for every other id.\<close>

theorem kg_lookups:
  fixes K :: "('g, 'f) kg_ext"
  assumes "kg_wf K kg p keys" and "name \<in> kg_names kg"
  shows "\<exists>s. build_from_kg K kg p keys = Inr s \<and>
    adjacency_for_entity store_ops K s name =
      Inr (take (volume_bound (lk_adjacency p)) (map canonical_key (filter (\<lambda>r. re_src r = name \<or> re_tgt r = name) (kg_relations kg)))) \<and>
    src_chunks_for_entity store_ops K s name =
      Inr (take (volume_bound (lk_src_chunks p)) (concat (map en_source_chunks (filter (\<lambda>e. en_name e = name) (kg_entities kg))))) \<and>
    chunk_text K s i = (case List.find (\<lambda>c. ch_id c = i) (rev (kg_chunks kg)) of
      None \<Rightarrow> Inl (Fail (KgChunk (ChunkNotFound i))) | Some c \<Rightarrow> Inr (ch_text c))"
proof -
  obtain s he hr where s: "build_from_kg K kg p keys = Inr s" "kg_state K kg p he hr s" using kg_build_ok [OF assms(1)] by blast
  have t: "text_of kg i = map_option ch_text (List.find (\<lambda>c. ch_id c = i) (rev (kg_chunks kg)))"
    by (simp add: text_of_def collect_map_def rev_map map_of_pair)
  have "chunk_text K s i = text_result kg i" using s(2) by (simp add: kg_state_def)
  then have "chunk_text K s i = (case List.find (\<lambda>c. ch_id c = i) (rev (kg_chunks kg)) of
      None \<Rightarrow> Inl (Fail (KgChunk (ChunkNotFound i))) | Some c \<Rightarrow> Inr (ch_text c))"
    by (simp add: text_result_def t split: option.split)
  moreover have rel: "related_to name = (\<lambda>r. re_src r = name \<or> re_tgt r = name)" by (simp add: related_to_def fun_eq_iff)
  ultimately show ?thesis using s assms(2) unfolding kg_state_def adjacent_def sources_def rel [symmetric] by auto
qed

theorem kg_lookups_witness:
  "\<exists>s. build_from_kg demo_kg_ext demo_kg demo_kg_params demo_kg_keys = Inr s \<and>
    adjacency_for_entity store_ops demo_kg_ext s (ascii ''A'') = Inr [ascii ''A'' @ [0] @ ascii ''B''] \<and>
    src_chunks_for_entity store_ops demo_kg_ext s (ascii ''A'') = Inr [ascii ''c1''] \<and>
    chunk_text demo_kg_ext s (ascii ''c2'') = Inr (ascii ''two'')"
proof -
  have n: "ascii ''A'' \<in> kg_names demo_kg" by (simp add: demo_names)
  have 1: "take (volume_bound (lk_adjacency demo_kg_params)) (map canonical_key (filter (\<lambda>r. re_src r = ascii ''A'' \<or> re_tgt r = ascii ''A'')
      (kg_relations demo_kg))) = [ascii ''A'' @ [0] @ ascii ''B'']" by code_simp
  have 2: "take (volume_bound (lk_src_chunks demo_kg_params)) (concat (map en_source_chunks (filter (\<lambda>e. en_name e = ascii ''A'')
      (kg_entities demo_kg)))) = [ascii ''c1'']" by code_simp
  have 3: "(case List.find (\<lambda>c. ch_id c = ascii ''c2'') (rev (kg_chunks demo_kg)) of
      None \<Rightarrow> Inl (Fail (KgChunk (ChunkNotFound (ascii ''c2'')))) | Some c \<Rightarrow> Inr (ch_text c)) = Inr (ascii ''two'')" by code_simp
  show ?thesis using kg_lookups [OF demo_kg_wf n, of "ascii ''c2''"] unfolding 1 2 3 .
qed

section \<open>Failures of a build\<close>

lemma adjacency_too_long:
  assumes "\<forall>r \<in> set rs. length (canonical_key r) \<le> vb" and "vb < length (canonical_key r)"
  shows "(rfold (adjacency_of vb) (rs @ r # rs') m :: (kg_error, (str \<times> logical_value list) list) outcome) =
    Inl (Fail (Inconsistent (canonical_key r) vb))"
  using assms(1)
proof (induction rs arbitrary: m)
  case Nil
  then show ?case using assms(2) by (simp add: adjacency_of_def string_to_value_def)
next
  case (Cons x xs)
  obtain m' where "(adjacency_of vb x m :: (kg_error, (str \<times> logical_value list) list) outcome) = Inr m'"
    using Cons.prems by (cases "re_src x = re_tgt x") (auto simp: adjacency_of_def string_to_value_def Let_def not_less)
  then show ?case using Cons by simp
qed

text \<open>Building panics when the graph has no entities, no relations or no chunks: the plaintext
  index asserts a non-empty corpus, and every graph is given one.\<close>

theorem kg_empty_corpus_panics:
  fixes K :: "('g, 'f) kg_ext"
  assumes "ext_ok (kx_oram K)" and "heap_order_ok (kx_heap_order K)"
    and e: "kg_entities kg = [] \<or> compass_wf (kx_f32 K) (lk_entities p) (map en_embedding (kg_entities kg))"
    and r: "kg_relations kg = [] \<or> compass_wf (kx_f32 K) (lk_relations p) (map re_embedding (kg_relations kg))"
    and "kg_entities kg = [] \<or> kg_relations kg = [] \<or> kg_chunks kg = []"
  shows "build_from_kg K kg p keys = Inl Panic"
proof -
  let ?compass = "\<lambda>embs cp. from_plaintext_corpus_on mem_ops (kx_oram K) (kx_f32 K) (kx_sha256 K) (kx_heap_order K) (kx_draws K) embs cp
    (mem_new (num_buckets (cp_oram cp)))"
  have empty: "?compass [] cp = Inl Panic" for cp
    by (simp add: from_plaintext_corpus_on_def hnsw_build_def)
  have full: "\<exists>i. ?compass embs cp = Inr i" if "compass_wf (kx_f32 K) cp embs" for embs cp
    using corpus_mem [OF assms(1) that assms(2)] by blast
  have c: "\<exists>i. ?compass (map re_embedding (kg_relations kg)) (lk_relations p) = Inr i" if "kg_relations kg \<noteq> []"
    using r that full by blast
  have d: "\<exists>i. ?compass (map en_embedding (kg_entities kg)) (lk_entities p) = Inr i" if "kg_entities kg \<noteq> []"
    using e that full by blast
  show ?thesis
    using assms(5) c d by (cases "kg_entities kg = []"; cases "kg_relations kg = []")
      (auto simp: build_from_kg_def build_inner_def Let_def empty)
qed

theorem kg_empty_corpus_panics_witness:
  "build_from_kg demo_kg_ext (demo_kg\<lparr>kg_relations := []\<rparr>) demo_kg_params demo_kg_keys = Inl Panic"
proof (rule kg_empty_corpus_panics)
  have "compass_wf demo_f32 demo_compass (map en_embedding (kg_entities demo_kg))"
    by (intro demo_compass_ok; simp add: demo_kg_def)
  then show "kg_entities (demo_kg\<lparr>kg_relations := []\<rparr>) = [] \<or>
    compass_wf (kx_f32 demo_kg_ext) (lk_entities demo_kg_params) (map en_embedding (kg_entities (demo_kg\<lparr>kg_relations := []\<rparr>)))"
    by (simp add: demo_kg_ext_def demo_kg_params_def)
qed (simp_all add: demo_kg_ext_def demo_ext_ok heap_order_id)

text \<open>The first relation whose canonical key does not fit the value width of the adjacency
  multi-map makes the build fail with \<open>Inconsistent\<close>, naming the key and the width.\<close>

theorem kg_long_relation_inconsistent:
  fixes K :: "('g, 'f) kg_ext"
  assumes "ext_ok (kx_oram K)" and "heap_order_ok (kx_heap_order K)"
    and e: "compass_wf (kx_f32 K) (lk_entities p) (map en_embedding (kg_entities kg))"
    and r: "compass_wf (kx_f32 K) (lk_relations p) (map re_embedding (kg_relations kg))"
    and c: "compass_wf (kx_f32 K) (lk_chunks p) (map ch_embedding (kg_chunks kg))"
    and seal: "\<forall>c \<in> set (kg_chunks kg). ct_seal (kx_chunk K) (aes_chunk_key keys) (derive_nonce (kx_chunk K) (ch_id c)) (ch_text c) \<noteq> None"
    and rs: "kg_relations kg = rs @ x # rs'" "\<forall>r \<in> set rs. length (canonical_key r) \<le> value_bytes (lk_adjacency p)"
    and long: "value_bytes (lk_adjacency p) < length (canonical_key x)"
  shows "build_from_kg K kg p keys = Inl (Fail (Inconsistent (canonical_key x) (value_bytes (lk_adjacency p))))"
proof -
  let ?compass = "\<lambda>embs cp. from_plaintext_corpus_on mem_ops (kx_oram K) (kx_f32 K) (kx_sha256 K) (kx_heap_order K) (kx_draws K) embs cp
    (mem_new (num_buckets (cp_oram cp)))"
  obtain ie where 1: "?compass (map en_embedding (kg_entities kg)) (lk_entities p) = Inr ie"
    using corpus_mem [OF assms(1) e assms(2)] by blast
  obtain ir where 2: "?compass (map re_embedding (kg_relations kg)) (lk_relations p) = Inr ir"
    using corpus_mem [OF assms(1) r assms(2)] by blast
  obtain ic where 3: "?compass (map ch_embedding (kg_chunks kg)) (lk_chunks p) = Inr ic"
    using corpus_mem [OF assms(1) c assms(2)] by blast
  obtain cs where 4: "put_all (kx_chunk K) (kg_chunks kg) (chunk_store_new (aes_chunk_key keys)) = (Inr (), cs)"
    using put_all_ok [of "kg_chunks kg" "kx_chunk K" "chunk_store_new (aes_chunk_key keys)"] seal by (auto simp: chunk_store_new_def)
  have 5: "(rfold (adjacency_of (value_bytes (lk_adjacency p))) (kg_relations kg) [] :: (kg_error, (str \<times> logical_value list) list) outcome) =
      Inl (Fail (Inconsistent (canonical_key x) (value_bytes (lk_adjacency p))))"
    unfolding rs(1) by (rule adjacency_too_long [OF rs(2) long])
  show ?thesis by (simp add: build_from_kg_def build_inner_def Let_def from_derived_def 1 2 3 4 5)
qed

theorem kg_long_relation_inconsistent_witness:
  "build_from_kg demo_kg_ext (demo_kg\<lparr>kg_relations := [\<lparr>re_src = ascii ''long'', re_tgt = ascii ''A'', re_description = [],
      re_embedding = [3], re_source_chunks = []\<rparr>]\<rparr>) demo_kg_params demo_kg_keys =
    Inl (Fail (Inconsistent (ascii ''A'' @ [0] @ ascii ''long'') 4))"
proof -
  let ?r = "\<lparr>re_src = ascii ''long'', re_tgt = ascii ''A'', re_description = [], re_embedding = [3::u32], re_source_chunks = []\<rparr>"
  let ?kg = "demo_kg\<lparr>kg_relations := [?r]\<rparr>"
  have W: "compass_wf (kx_f32 demo_kg_ext) (lk_entities demo_kg_params) (map en_embedding (kg_entities ?kg))"
    "compass_wf (kx_f32 demo_kg_ext) (lk_relations demo_kg_params) (map re_embedding (kg_relations ?kg))"
    "compass_wf (kx_f32 demo_kg_ext) (lk_chunks demo_kg_params) (map ch_embedding (kg_chunks ?kg))"
    using demo_compass_ok by (simp_all add: demo_kg_ext_def demo_kg_params_def demo_kg_def)
  have k: "canonical_key ?r = ascii ''A'' @ [0] @ ascii ''long''" by code_simp
  have l: "length (ascii ''A'' @ [0] @ ascii ''long'') = 6" by code_simp
  have s: "\<forall>c \<in> set (kg_chunks ?kg). ct_seal (kx_chunk demo_kg_ext) (aes_chunk_key demo_kg_keys)
      (derive_nonce (kx_chunk demo_kg_ext) (ch_id c)) (ch_text c) \<noteq> None"
    using demo_texts(1) by (simp add: demo_kg_ext_def)
  have "build_from_kg demo_kg_ext ?kg demo_kg_params demo_kg_keys =
      Inl (Fail (Inconsistent (canonical_key ?r) (value_bytes (lk_adjacency demo_kg_params))))"
    by (rule kg_long_relation_inconsistent [OF _ _ W s, of "[]" ?r "[]"])
      (use l in \<open>simp_all add: demo_kg_ext_def demo_ext_ok heap_order_id demo_kg_params_def k\<close>)
  then show ?thesis unfolding k by (simp add: demo_kg_params_def)
qed

section \<open>Canonical keys\<close>

lemma split_at_nul: "0 \<notin> set a \<Longrightarrow> 0 \<notin> set a' \<Longrightarrow> (a @ 0 # b = a' @ 0 # (b' :: u8 list)) \<longleftrightarrow> a = a' \<and> b = b'"
proof (induction a arbitrary: a')
  case Nil
  then show ?case by (cases a') auto
next
  case (Cons x a)
  then show ?case by (cases a') auto
qed

lemma canonical_key_pair:
  "\<exists>a b. {a, b} = {re_src r, re_tgt r} \<and> str_le a b \<and> canonical_key r = a @ 0 # b"
proof (cases "str_le (re_src r) (re_tgt r)")
  case True
  then show ?thesis by (intro exI [of _ "re_src r"] exI [of _ "re_tgt r"]) (simp add: canonical_key_def)
next
  case False
  then have "str_le (re_tgt r) (re_src r)" using str_le_total by blast
  with False show ?thesis by (intro exI [of _ "re_tgt r"] exI [of _ "re_src r"]) (auto simp: canonical_key_def)
qed

text \<open>For names without a NUL byte, the canonical key of a relation identifies its unordered
  pair of endpoints.\<close>

theorem canonical_key_identifies:
  assumes "0 \<notin> set (re_src r @ re_tgt r @ re_src r' @ re_tgt r')"
  shows "canonical_key r = canonical_key r' \<longleftrightarrow> {re_src r, re_tgt r} = {re_src r', re_tgt r'}"
proof -
  obtain a b where ab: "{a, b} = {re_src r, re_tgt r}" "str_le a b" "canonical_key r = a @ 0 # b" using canonical_key_pair by blast
  obtain c d where cd: "{c, d} = {re_src r', re_tgt r'}" "str_le c d" "canonical_key r' = c @ 0 # d" using canonical_key_pair by blast
  have "a \<in> {re_src r, re_tgt r}" "c \<in> {re_src r', re_tgt r'}" using ab(1) cd(1) by blast+
  then have "0 \<notin> set a" "0 \<notin> set c" using assms by auto
  then have "canonical_key r = canonical_key r' \<longleftrightarrow> a = c \<and> b = d" unfolding ab(3) cd(3) by (rule split_at_nul)
  also have "\<dots> \<longleftrightarrow> {a, b} = {c, d}" using ab(2) cd(2) str_le_antisym by (auto simp: doubleton_eq_iff)
  finally show ?thesis unfolding ab(1) cd(1) .
qed

theorem canonical_key_identifies_witness:
  "canonical_key \<lparr>re_src = [66], re_tgt = [65], re_description = [], re_embedding = [1::u32], re_source_chunks = []\<rparr> =
   canonical_key \<lparr>re_src = [65], re_tgt = [66], re_description = [7], re_embedding = [], re_source_chunks = []\<rparr>"
  by (subst canonical_key_identifies) auto

end
