(* ===== verification/Rest_Backend.thy ===== *)
theory Rest_Backend
  imports Oram_Backend Keying
begin

text \<open>
  The network-shaped block backend of \<^verbatim>\<open>crates/compass-rest-backend\<close>: the wire types
  (\<^verbatim>\<open>wire.rs\<close>), the server with its three handlers over a sled database (\<^verbatim>\<open>server.rs\<close>), and
  the client that implements the \<open>BlockBackend\<close> trait (\<^verbatim>\<open>client.rs\<close>).  MessagePack, sled and
  the URL library are parameters; the network delivers every request to the server, whose
  state the client's record carries along.
\<close>

section \<open>Wire types\<close>

record wire_bucket =
  wb_bucket_id :: nat
  wb_write_counter :: nat
  wb_ciphertext :: bytes

definition wire_of_bucket :: "enc_bucket \<Rightarrow> wire_bucket" where
  "wire_of_bucket eb = \<lparr>wb_bucket_id = eb_bucket_id eb, wb_write_counter = eb_write_counter eb, wb_ciphertext = eb_ciphertext eb\<rparr>"

definition bucket_of_wire :: "wire_bucket \<Rightarrow> enc_bucket" where
  "bucket_of_wire w = \<lparr>eb_bucket_id = wb_bucket_id w, eb_write_counter = wb_write_counter w, eb_ciphertext = wb_ciphertext w\<rparr>"

lemma bucket_of_wire_of_bucket [simp]: "bucket_of_wire (wire_of_bucket e) = e"
  by (simp add: wire_of_bucket_def bucket_of_wire_def)

lemma bucket_id_of_wire [simp]: "wb_bucket_id (wire_of_bucket e) = eb_bucket_id e" "eb_bucket_id (bucket_of_wire w) = wb_bucket_id w"
  by (simp_all add: wire_of_bucket_def bucket_of_wire_def)

record init_request =
  ir_num_buckets :: nat

record read_path_request =
  rr_bucket_ids :: "nat list"

record read_path_response =
  rp_buckets :: "wire_bucket list"

record write_buckets_request =
  wr_buckets :: "wire_bucket list"

text \<open>Serialisation of each message type; either direction may fail with a text.\<close>

record 'a codec =
  to_vec :: "'a \<Rightarrow> str + bytes"
  from_slice :: "bytes \<Rightarrow> str + 'a"

record msgpack =
  mp_bucket :: "wire_bucket codec"
  mp_init :: "init_request codec"
  mp_read_request :: "read_path_request codec"
  mp_read_response :: "read_path_response codec"
  mp_write_request :: "write_buckets_request codec"

text \<open>The operations of a sled database, on a tree by its name.\<close>

record 'db sled_ops =
  sl_open_tree :: "str \<Rightarrow> ('db, str, unit) eff"
  sl_get :: "str \<Rightarrow> bytes \<Rightarrow> ('db, str, bytes option) eff"
  sl_insert :: "str \<Rightarrow> bytes \<Rightarrow> bytes \<Rightarrow> ('db, str, unit) eff"
  sl_flush :: "str \<Rightarrow> ('db, str, unit) eff"

section \<open>The server\<close>

datatype server_error = Storage str | Codec str | MissingBucket nat

record http_response =
  hr_status :: nat
  hr_body :: bytes

definition MAX_BODY_BYTES :: nat where
  "MAX_BODY_BYTES = 128 * 1024 * 1024"

definition error_text :: "server_error \<Rightarrow> str" where
  "error_text e = (case e of
     Storage t \<Rightarrow> ascii ''storage error: '' @ t
   | Codec t \<Rightarrow> ascii ''codec error: '' @ t
   | MissingBucket b \<Rightarrow> ascii ''missing bucket '' @ show_nat b @ ascii '' (server tree under-populated for tenant/index)'')"

definition into_response :: "server_error \<Rightarrow> http_response" where
  "into_response e = \<lparr>hr_status = (case e of Storage _ \<Rightarrow> 500 | Codec _ \<Rightarrow> 400 | MissingBucket _ \<Rightarrow> 404),
     hr_body = error_text e\<rparr>"

type_synonym ('db, 'a) handler = "('db, server_error, 'a) eff"

definition msgpack_body :: "'a codec \<Rightarrow> 'a \<Rightarrow> ('db, http_response) handler" where
  "msgpack_body c value =
     (case to_vec c value of Inl e \<Rightarrow> efault (Fail (Codec e)) | Inr body \<Rightarrow> ereturn \<lparr>hr_status = 200, hr_body = body\<rparr>)"

definition parse_msgpack :: "'a codec \<Rightarrow> bytes \<Rightarrow> ('db, 'a) handler" where
  "parse_msgpack c body = (case from_slice c body of Inl e \<Rightarrow> efault (Fail (Codec e)) | Inr x \<Rightarrow> ereturn x)"

definition tree_name :: "str \<Rightarrow> str \<Rightarrow> str" where
  "tree_name tenant index = tenant @ [47] @ index"

definition open_tree :: "'db sled_ops \<Rightarrow> str \<Rightarrow> str \<Rightarrow> ('db, str) handler" where
  "open_tree S tenant index =
     (let name = tree_name tenant index in eseq (efail_as Storage (sl_open_tree S name)) (ereturn name))"

definition bucket_key :: "nat \<Rightarrow> bytes" where
  "bucket_key bucket_id = le_bytes 4 bucket_id"

definition NUM_BUCKETS_KEY :: bytes where
  "NUM_BUCKETS_KEY = ascii ''__num_buckets''"

definition ok_response :: http_response where
  "ok_response = \<lparr>hr_status = 200, hr_body = []\<rparr>"

definition init_handler :: "msgpack \<Rightarrow> 'db sled_ops \<Rightarrow> str \<Rightarrow> str \<Rightarrow> bytes \<Rightarrow> ('db, http_response) handler" where
  "init_handler M S tenant index body =
     ebind (parse_msgpack (mp_init M) body) (\<lambda>req.
     ebind (open_tree S tenant index) (\<lambda>tree.
     ebind (efail_as Storage (sl_get S tree NUM_BUCKETS_KEY)) (\<lambda>found.
     eseq (case found of
             Some existing \<Rightarrow>
               eseq (eassert (4 \<le> length existing))
                 (let existing_count = of_le_bytes (take 4 existing) in
                  if existing_count \<noteq> ir_num_buckets req
                  then efault (Fail (Codec (ascii ''init mismatch: tree has '' @ show_nat existing_count @
                    ascii '' buckets, request asks for '' @ show_nat (ir_num_buckets req))))
                  else ereturn ())
           | None \<Rightarrow> efail_as Storage (sl_insert S tree NUM_BUCKETS_KEY (le_bytes 4 (ir_num_buckets req))))
       (eseq (efail_as Storage (sl_flush S tree)) (ereturn ok_response)))))"

definition read_bucket :: "msgpack \<Rightarrow> 'db sled_ops \<Rightarrow> str \<Rightarrow> nat \<Rightarrow> ('db, wire_bucket) handler" where
  "read_bucket M S tree bid =
     ebind (efail_as Storage (sl_get S tree (bucket_key bid))) (\<lambda>found.
     case found of None \<Rightarrow> efault (Fail (MissingBucket bid)) | Some raw \<Rightarrow> parse_msgpack (mp_bucket M) raw)"

definition read_path_handler :: "msgpack \<Rightarrow> 'db sled_ops \<Rightarrow> str \<Rightarrow> str \<Rightarrow> bytes \<Rightarrow> ('db, http_response) handler" where
  "read_path_handler M S tenant index body =
     ebind (parse_msgpack (mp_read_request M) body) (\<lambda>req.
     ebind (open_tree S tenant index) (\<lambda>tree.
     ebind (emap (read_bucket M S tree) (rr_bucket_ids req)) (\<lambda>buckets.
     msgpack_body (mp_read_response M) \<lparr>rp_buckets = buckets\<rparr>)))"

definition store_bucket :: "msgpack \<Rightarrow> 'db sled_ops \<Rightarrow> str \<Rightarrow> wire_bucket \<Rightarrow> ('db, unit) handler" where
  "store_bucket M S tree w =
     (case to_vec (mp_bucket M) w of
        Inl e \<Rightarrow> efault (Fail (Codec e))
      | Inr value \<Rightarrow> efail_as Storage (sl_insert S tree (bucket_key (wb_bucket_id w)) value))"

definition write_buckets_handler :: "msgpack \<Rightarrow> 'db sled_ops \<Rightarrow> str \<Rightarrow> str \<Rightarrow> bytes \<Rightarrow> ('db, http_response) handler" where
  "write_buckets_handler M S tenant index body =
     ebind (parse_msgpack (mp_write_request M) body) (\<lambda>req.
     ebind (open_tree S tenant index) (\<lambda>tree.
     eseq (efor (wr_buckets req) (store_bucket M S tree))
       (eseq (efail_as Storage (sl_flush S tree)) (ereturn ok_response))))"

text \<open>A request is answered with a response; a panicking handler drops the connection.\<close>

definition respond :: "('db, http_response) handler \<Rightarrow> 'db \<Rightarrow> http_response option \<times> 'db" where
  "respond h d =
     (case h d of
        (Inr r, d') \<Rightarrow> (Some r, d')
      | (Inl (Fail e), d') \<Rightarrow> (Some (into_response e), d')
      | (Inl _, d') \<Rightarrow> (None, d'))"

text \<open>The router, behind the layer that limits the body to \<open>limit\<close> bytes.\<close>

definition router :: "nat option \<Rightarrow> msgpack \<Rightarrow> 'db sled_ops \<Rightarrow> str list \<Rightarrow> bytes \<Rightarrow> 'db \<Rightarrow> http_response option \<times> 'db" where
  "router limit M S path body =
     (\<lambda>d. case path of
        [v, tenant, index, op] \<Rightarrow>
          if v \<noteq> ascii ''v1'' \<or> tenant = [] \<or> index = [] then (Some \<lparr>hr_status = 404, hr_body = []\<rparr>, d)
          else if op \<noteq> ascii ''init'' \<and> op \<noteq> ascii ''read_path'' \<and> op \<noteq> ascii ''write_buckets''
          then (Some \<lparr>hr_status = 404, hr_body = []\<rparr>, d)
          else if (case limit of None \<Rightarrow> False | Some n \<Rightarrow> n < length body)
          then (Some \<lparr>hr_status = 413, hr_body = ascii ''Failed to buffer the request body: length limit exceeded''\<rparr>, d)
          else if op = ascii ''init'' then respond (init_handler M S tenant index body) d
          else if op = ascii ''read_path'' then respond (read_path_handler M S tenant index body) d
          else respond (write_buckets_handler M S tenant index body) d
      | _ \<Rightarrow> (Some \<lparr>hr_status = 404, hr_body = []\<rparr>, d))"

section \<open>The client\<close>

text \<open>\<open>Url::parse\<close>, \<open>Url::join\<close> and the decoded segments of a URL's path.\<close>

record url_ops =
  url_parse :: "str \<Rightarrow> str option"
  url_join :: "str \<Rightarrow> str \<Rightarrow> str option"
  url_segments :: "str \<Rightarrow> str list"

record 'db rest_client =
  rc_base :: str
  rc_num_buckets :: nat
  rc_server :: 'db

type_synonym ('db, 'a) rest = "('db rest_client, string, 'a) eff"

definition text_string :: "str \<Rightarrow> string" where
  "text_string t = map (\<lambda>b. char_of (unat b)) t"

definition trim_end_slashes :: "str \<Rightarrow> str" where
  "trim_end_slashes s = rev (dropWhile (\<lambda>b. b = 47) (rev s))"

definition normalise_base :: "url_ops \<Rightarrow> str \<Rightarrow> str option" where
  "normalise_base U s = url_parse U (trim_end_slashes s @ [47])"

definition check_status :: "http_response \<Rightarrow> str \<Rightarrow> (string, bytes) outcome" where
  "check_status resp url =
     (if \<not> (200 \<le> hr_status resp \<and> hr_status resp < 300)
      then Inl (Fail (text_string (ascii ''server returned status '' @ show_nat (hr_status resp) @ ascii '' for '' @ url @
        ascii '': '' @ hr_body resp)))
      else Inr (hr_body resp))"

text \<open>One request: build the URL, encode, send, check the status.\<close>

definition rest_post :: "nat option \<Rightarrow> msgpack \<Rightarrow> 'db sled_ops \<Rightarrow> url_ops \<Rightarrow> string \<Rightarrow> str \<Rightarrow> string \<Rightarrow> (str + bytes) \<Rightarrow> string \<Rightarrow>
    ('db, bytes) rest" where
  "rest_post limit M S U join_msg op encode_msg encoded send_msg = (\<lambda>c.
     case url_join U (rc_base c) op of
       None \<Rightarrow> (Inl (Fail join_msg), c)
     | Some url \<Rightarrow>
         (case encoded of
            Inl e \<Rightarrow> (Inl (Fail encode_msg), c)
          | Inr body \<Rightarrow>
              (case router limit M S (url_segments U url) body (rc_server c) of
                 (None, d) \<Rightarrow> (Inl (Fail send_msg), c\<lparr>rc_server := d\<rparr>)
               | (Some resp, d) \<Rightarrow> (check_status resp url, c\<lparr>rc_server := d\<rparr>))))"

definition rest_init :: "nat option \<Rightarrow> msgpack \<Rightarrow> 'db sled_ops \<Rightarrow> url_ops \<Rightarrow> ('db, unit) rest" where
  "rest_init limit M S U =
     ebind (eget rc_num_buckets) (\<lambda>n.
     eseq (rest_post limit M S U ''join init URL'' (ascii ''init'') ''encode InitRequest''
       (to_vec (mp_init M) \<lparr>ir_num_buckets = n\<rparr>) ''send init'') (ereturn ()))"

definition connect :: "nat option \<Rightarrow> msgpack \<Rightarrow> 'db sled_ops \<Rightarrow> url_ops \<Rightarrow> str \<Rightarrow> nat \<Rightarrow> 'db \<Rightarrow> (string, 'db rest_client) outcome" where
  "connect limit M S U base_url n d =
     (case normalise_base U base_url of
        None \<Rightarrow> Inl (Fail ''parse REST backend base URL'')
      | Some base \<Rightarrow>
          (case rest_init limit M S U \<lparr>rc_base = base, rc_num_buckets = n, rc_server = d\<rparr> of
             (Inl e, _) \<Rightarrow> Inl e
           | (Inr _, this) \<Rightarrow> Inr this))"

definition rest_read_path :: "nat option \<Rightarrow> msgpack \<Rightarrow> 'db sled_ops \<Rightarrow> url_ops \<Rightarrow> nat list \<Rightarrow> ('db, enc_bucket list) rest" where
  "rest_read_path limit M S U bucket_ids =
     ebind (rest_post limit M S U ''join read_path URL'' (ascii ''read_path'') ''encode ReadPathRequest''
       (to_vec (mp_read_request M) \<lparr>rr_bucket_ids = bucket_ids\<rparr>) ''send read_path'') (\<lambda>body.
     case from_slice (mp_read_response M) body of
       Inl e \<Rightarrow> efault (Fail ''decode read_path response'')
     | Inr response \<Rightarrow> ereturn (map bucket_of_wire (rp_buckets response)))"

definition rest_write_buckets :: "nat option \<Rightarrow> msgpack \<Rightarrow> 'db sled_ops \<Rightarrow> url_ops \<Rightarrow> enc_bucket list \<Rightarrow> ('db, unit) rest" where
  "rest_write_buckets limit M S U buckets =
     eseq (rest_post limit M S U ''join write_buckets URL'' (ascii ''write_buckets'') ''encode WriteBucketsRequest''
       (to_vec (mp_write_request M) \<lparr>wr_buckets = map wire_of_bucket buckets\<rparr>) ''send write_buckets'') (ereturn ())"

definition rest_ops :: "nat option \<Rightarrow> msgpack \<Rightarrow> 'db sled_ops \<Rightarrow> url_ops \<Rightarrow> 'db rest_client backend_ops" where
  "rest_ops limit M S U = \<lparr>be_read_path = rest_read_path limit M S U, be_write_buckets = rest_write_buckets limit M S U,
     be_num_buckets = rc_num_buckets\<rparr>"

end
