(* ===== verification/Rest_Correct.thy ===== *)
theory Rest_Correct
  imports Rest_Backend Compass_Theorems
begin

text \<open>
  The REST backend keeps the contract of a block backend, over a database that stores what
  it is given and a codec that reads back what it wrote: the laws are the locale \<open>rest_env\<close>,
  and the Ring-ORAM and the Compass index run over the network as they do in memory.
\<close>

definition codec_ok :: "'a codec \<Rightarrow> bool" where
  "codec_ok c \<longleftrightarrow> (\<forall>x. \<exists>b. to_vec c x = Inr b \<and> from_slice c b = Inr x)"

lemma codec_okE:
  assumes "codec_ok c"
  obtains b where "to_vec c x = Inr b" "from_slice c b = Inr x"
  using assms by (auto simp: codec_ok_def)

text \<open>What the handlers rely on in sled: \<open>content\<close> is what a tree holds, \<open>healthy\<close> that no
  operation fails.\<close>

definition sled_ok :: "'db sled_ops \<Rightarrow> ('db \<Rightarrow> bool) \<Rightarrow> ('db \<Rightarrow> str \<Rightarrow> bytes \<Rightarrow> bytes option) \<Rightarrow> bool" where
  "sled_ok S healthy content \<longleftrightarrow> (\<forall>d n k v. healthy d \<longrightarrow>
     (\<exists>d'. sl_open_tree S n d = (Inr (), d') \<and> healthy d' \<and> content d' = content d) \<and>
     (\<exists>d'. sl_get S n k d = (Inr (content d n k), d') \<and> healthy d' \<and> content d' = content d) \<and>
     (\<exists>d'. sl_insert S n k v d = (Inr (), d') \<and> healthy d' \<and> content d' = (content d)(n := (content d n)(k \<mapsto> v))) \<and>
     (\<exists>d'. sl_flush S n d = (Inr (), d') \<and> healthy d' \<and> content d' = content d))"

lemma sled_okD:
  assumes "sled_ok S healthy content" and "healthy d"
  shows "\<exists>d'. sl_open_tree S n d = (Inr (), d') \<and> healthy d' \<and> content d' = content d"
    and "\<exists>d'. sl_get S n k d = (Inr (content d n k), d') \<and> healthy d' \<and> content d' = content d"
    and "\<exists>d'. sl_insert S n k v d = (Inr (), d') \<and> healthy d' \<and> content d' = (content d)(n := (content d n)(k \<mapsto> v))"
    and "\<exists>d'. sl_flush S n d = (Inr (), d') \<and> healthy d' \<and> content d' = content d"
  using assms unfolding sled_ok_def by simp_all

lemma efail_as_Inr: "f d = (Inr x, d') \<Longrightarrow> efail_as F f d = (Inr x, d')"
  by (simp add: efail_as_def)

locale rest_env =
  fixes M :: msgpack and S :: "'db sled_ops" and U :: url_ops
    and healthy :: "'db \<Rightarrow> bool" and content :: "'db \<Rightarrow> str \<Rightarrow> bytes \<Rightarrow> bytes option"
    and base :: str and tenant :: str and index :: str
  assumes codecs: "codec_ok (mp_bucket M)" "codec_ok (mp_init M)" "codec_ok (mp_read_request M)"
      "codec_ok (mp_read_response M)" "codec_ok (mp_write_request M)"
    and sled: "sled_ok S healthy content"
    and urls: "op \<in> {ascii ''init'', ascii ''read_path'', ascii ''write_buckets''} \<Longrightarrow>
      \<exists>url. url_join U base op = Some url \<and> url_segments U url = [ascii ''v1'', tenant, index, op]"
    and names: "tenant \<noteq> []" "index \<noteq> []"
begin

abbreviation tree :: str where
  "tree \<equiv> tree_name tenant index"

lemma op_urls:
  "\<exists>url. url_join U base (ascii ''init'') = Some url \<and> url_segments U url = [ascii ''v1'', tenant, index, ascii ''init'']"
  "\<exists>url. url_join U base (ascii ''read_path'') = Some url \<and> url_segments U url = [ascii ''v1'', tenant, index, ascii ''read_path'']"
  "\<exists>url. url_join U base (ascii ''write_buckets'') = Some url \<and> url_segments U url = [ascii ''v1'', tenant, index, ascii ''write_buckets'']"
  by (rule urls, blast)+

lemma tree_opens: "healthy d \<Longrightarrow> \<exists>d'. open_tree S tenant index d = (Inr tree, d') \<and> healthy d' \<and> content d' = content d"
proof -
  assume "healthy d"
  from sled_okD(1) [OF sled this, of tree] obtain d' where "sl_open_tree S tree d = (Inr (), d')" "healthy d'" "content d' = content d"
    by blast
  then show ?thesis by (simp add: open_tree_def Let_def eseq_def ebind_def ereturn_def efail_as_Inr)
qed

lemma tree_gets: "healthy d \<Longrightarrow> \<exists>d'. efail_as Storage (sl_get S n k) d = (Inr (content d n k), d') \<and> healthy d' \<and> content d' = content d"
  using sled_okD(2) [OF sled] efail_as_Inr by metis

lemma tree_inserts: "healthy d \<Longrightarrow> \<exists>d'. efail_as Storage (sl_insert S n k v) d = (Inr (), d') \<and> healthy d' \<and>
    content d' = (content d)(n := (content d n)(k \<mapsto> v))"
  using sled_okD(3) [OF sled] efail_as_Inr by metis

lemma tree_flushes: "healthy d \<Longrightarrow> \<exists>d'. efail_as Storage (sl_flush S n) d = (Inr (), d') \<and> healthy d' \<and> content d' = content d"
  using sled_okD(4) [OF sled] efail_as_Inr by metis

text \<open>The bucket stored under an index.\<close>

definition stored :: "'db \<Rightarrow> nat \<Rightarrow> wire_bucket option" where
  "stored d i = (case content d tree (bucket_key i) of None \<Rightarrow> None
     | Some raw \<Rightarrow> (case from_slice (mp_bucket M) raw of Inl _ \<Rightarrow> None | Inr w \<Rightarrow> Some w))"

lemma bucket_key_inj: "i < 2 ^ 32 \<Longrightarrow> j < 2 ^ 32 \<Longrightarrow> bucket_key i = bucket_key j \<longleftrightarrow> i = j"
  unfolding bucket_key_def using le_bytes_inj [of i 4 j] by auto

lemma read_all_ok:
  assumes "healthy d" and "\<forall>i \<in> set ids. stored d i \<noteq> None"
  shows "\<exists>d'. emap (read_bucket M S tree) ids d = (Inr (map (\<lambda>i. the (stored d i)) ids), d') \<and> healthy d' \<and> content d' = content d"
  using assms
proof (induction ids arbitrary: d)
  case (Cons i ids)
  obtain d1 where d1: "efail_as Storage (sl_get S tree (bucket_key i)) d = (Inr (content d tree (bucket_key i)), d1)"
    "healthy d1" "content d1 = content d" using tree_gets [OF Cons.prems(1)] by blast
  have i: "stored d i \<noteq> None" using Cons.prems(2) by simp
  then obtain raw w where raw: "content d tree (bucket_key i) = Some raw" "from_slice (mp_bucket M) raw = Inr w"
    by (auto simp: stored_def split: option.splits sum.splits)
  have r: "read_bucket M S tree i d = (Inr (the (stored d i)), d1)"
    using d1(1) raw by (simp add: read_bucket_def ebind_def parse_msgpack_def ereturn_def stored_def)
  have st: "stored d1 = stored d" using d1(3) by (simp add: stored_def fun_eq_iff)
  with Cons.prems(2) have "\<forall>j \<in> set ids. stored d1 j \<noteq> None" by simp
  from Cons.IH [OF d1(2) this] obtain d2 where "emap (read_bucket M S tree) ids d1 = (Inr (map (\<lambda>i. the (stored d1 i)) ids), d2)"
    "healthy d2" "content d2 = content d1" by blast
  then show ?case using r st d1(3) by (simp add: ebind_def ereturn_def)
qed (simp add: ereturn_def)

lemma store_all_ok:
  assumes "healthy d" and "\<forall>e \<in> set es. eb_bucket_id e < 2 ^ 32"
  shows "\<exists>d'. efor (map wire_of_bucket es) (store_bucket M S tree) d = (Inr (), d') \<and> healthy d' \<and>
    (\<forall>i < 2 ^ 32. stored d' i = (if i \<in> eb_bucket_id ` set es then Some (wire_of_bucket (put_view es v i)) else stored d i))"
  using assms
proof (induction es arbitrary: d v)
  case Nil
  then show ?case by (simp add: ereturn_def)
next
  case (Cons e es)
  obtain raw where raw: "to_vec (mp_bucket M) (wire_of_bucket e) = Inr raw" "from_slice (mp_bucket M) raw = Inr (wire_of_bucket e)"
    by (rule codec_okE [OF codecs(1)])
  obtain d1 where d1: "efail_as Storage (sl_insert S tree (bucket_key (eb_bucket_id e)) raw) d = (Inr (), d1)" "healthy d1"
    "content d1 = (content d)(tree := (content d tree)(bucket_key (eb_bucket_id e) \<mapsto> raw))" using tree_inserts [OF Cons.prems(1)] by blast
  have s1: "store_bucket M S tree (wire_of_bucket e) d = (Inr (), d1)"
    using raw d1(1) by (simp add: store_bucket_def)
  have st: "stored d1 i = (if i = eb_bucket_id e then Some (wire_of_bucket e) else stored d i)" if "i < 2 ^ 32" for i
    using d1(3) raw(2) bucket_key_inj [OF that, of "eb_bucket_id e"] Cons.prems(2) by (simp add: stored_def)
  have "\<forall>e \<in> set es. eb_bucket_id e < 2 ^ 32" using Cons.prems(2) by simp
  from Cons.IH [OF d1(2) this, of "v(eb_bucket_id e := e)"] obtain d2 where
    d2: "efor (map wire_of_bucket es) (store_bucket M S tree) d1 = (Inr (), d2)" "healthy d2"
    "\<forall>i < 2 ^ 32. stored d2 i = (if i \<in> eb_bucket_id ` set es then Some (wire_of_bucket (put_view es (v(eb_bucket_id e := e)) i)) else stored d1 i)"
    by blast
  have "stored d2 i = (if i \<in> eb_bucket_id ` set (e # es) then Some (wire_of_bucket (put_view (e # es) v i)) else stored d i)"
    if i: "i < 2 ^ 32" for i
  proof (cases "i \<in> eb_bucket_id ` set es")
    case True
    then show ?thesis using d2(3) i by simp
  next
    case False
    then have "put_view es (v(eb_bucket_id e := e)) i = (v(eb_bucket_id e := e)) i" by (rule put_view_notin)
    then show ?thesis using False d2(3) st [OF i] i by auto
  qed
  with d2(1,2) s1 show ?case by (auto simp: eseq_def ebind_def)
qed

subsection \<open>Requests\<close>

lemma handle_read:
  assumes "healthy d" and "\<forall>i \<in> set ids. stored d i \<noteq> None"
    and "from_slice (mp_read_request M) body = Inr \<lparr>rr_bucket_ids = ids\<rparr>"
  shows "\<exists>d' out. router None M S [ascii ''v1'', tenant, index, ascii ''read_path''] body d = (Some \<lparr>hr_status = 200, hr_body = out\<rparr>, d') \<and>
    from_slice (mp_read_response M) out = Inr \<lparr>rp_buckets = map (\<lambda>i. the (stored d i)) ids\<rparr> \<and> healthy d' \<and> content d' = content d"
proof -
  obtain d1 where d1: "open_tree S tenant index d = (Inr tree, d1)" "healthy d1" "content d1 = content d" using tree_opens [OF assms(1)] by blast
  have st: "stored d1 = stored d" using d1(3) by (simp add: stored_def fun_eq_iff)
  obtain d2 where d2: "emap (read_bucket M S tree) ids d1 = (Inr (map (\<lambda>i. the (stored d i)) ids), d2)" "healthy d2" "content d2 = content d"
    using read_all_ok [OF d1(2), of ids] assms(2) st d1(3) by auto
  obtain out where out: "to_vec (mp_read_response M) \<lparr>rp_buckets = map (\<lambda>i. the (stored d i)) ids\<rparr> = Inr out"
    "from_slice (mp_read_response M) out = Inr \<lparr>rp_buckets = map (\<lambda>i. the (stored d i)) ids\<rparr>" by (rule codec_okE [OF codecs(4)])
  have op: "ascii ''read_path'' \<noteq> ascii ''init''" by code_simp
  have "read_path_handler M S tenant index body d = (Inr \<lparr>hr_status = 200, hr_body = out\<rparr>, d2)"
    using assms(3) d1(1) d2(1) out(1) by (simp add: read_path_handler_def parse_msgpack_def msgpack_body_def ebind_def ereturn_def)
  then show ?thesis using names op d2(2,3) out(2) by (simp add: router_def respond_def)
qed

lemma handle_write:
  assumes "healthy d" and "\<forall>e \<in> set es. eb_bucket_id e < 2 ^ 32"
    and "from_slice (mp_write_request M) body = Inr \<lparr>wr_buckets = map wire_of_bucket es\<rparr>"
  shows "\<exists>d'. router None M S [ascii ''v1'', tenant, index, ascii ''write_buckets''] body d = (Some ok_response, d') \<and> healthy d' \<and>
    (\<forall>i < 2 ^ 32. stored d' i = (if i \<in> eb_bucket_id ` set es then Some (wire_of_bucket (put_view es v i)) else stored d i))"
proof -
  obtain d1 where d1: "open_tree S tenant index d = (Inr tree, d1)" "healthy d1" "content d1 = content d" using tree_opens [OF assms(1)] by blast
  have st: "stored d1 = stored d" using d1(3) by (simp add: stored_def fun_eq_iff)
  obtain d2 where d2: "efor (map wire_of_bucket es) (store_bucket M S tree) d1 = (Inr (), d2)" "healthy d2"
    "\<forall>i < 2 ^ 32. stored d2 i = (if i \<in> eb_bucket_id ` set es then Some (wire_of_bucket (put_view es v i)) else stored d i)"
    using store_all_ok [OF d1(2) assms(2), of v] st by auto
  obtain d3 where d3: "efail_as Storage (sl_flush S tree) d2 = (Inr (), d3)" "healthy d3" "content d3 = content d2" using tree_flushes [OF d2(2)] by blast
  have st3: "stored d3 = stored d2" using d3(3) by (simp add: stored_def fun_eq_iff)
  have op: "ascii ''write_buckets'' \<noteq> ascii ''init''" "ascii ''write_buckets'' \<noteq> ascii ''read_path''" by code_simp+
  have "write_buckets_handler M S tenant index body d = (Inr ok_response, d3)"
    using assms(3) d1(1) d2(1) d3(1) by (simp add: write_buckets_handler_def parse_msgpack_def ebind_def eseq_def ereturn_def)
  then show ?thesis using names op d2(3) d3(2) st3 by (simp add: router_def respond_def)
qed

subsection \<open>The contract\<close>

definition rest_view :: "'db rest_client \<Rightarrow> nat \<Rightarrow> enc_bucket" where
  "rest_view c i = bucket_of_wire (the (stored (rc_server c) i))"

definition rest_start :: "'db rest_client \<Rightarrow> bool" where
  "rest_start c \<longleftrightarrow> rc_base c = base \<and> rc_num_buckets c < 2 ^ 32 \<and> healthy (rc_server c)"

definition rest_inv :: "'db rest_client \<Rightarrow> bool" where
  "rest_inv c \<longleftrightarrow> rest_start c \<and> (\<forall>i < rc_num_buckets c. stored (rc_server c) i \<noteq> None)"

lemma rest_read_ok:
  assumes "rest_inv c" and "\<forall>i \<in> set ids. i < rc_num_buckets c"
  shows "\<exists>c'. rest_read_path None M S U ids c = (Inr (map (rest_view c) ids), c') \<and> rest_inv c' \<and> rest_view c' = rest_view c \<and>
    rc_num_buckets c' = rc_num_buckets c"
proof -
  obtain url where url: "url_join U base (ascii ''read_path'') = Some url" "url_segments U url = [ascii ''v1'', tenant, index, ascii ''read_path'']"
    using op_urls(2) by blast
  obtain body where body: "to_vec (mp_read_request M) \<lparr>rr_bucket_ids = ids\<rparr> = Inr body" "from_slice (mp_read_request M) body = Inr \<lparr>rr_bucket_ids = ids\<rparr>"
    by (rule codec_okE [OF codecs(3)])
  have c: "healthy (rc_server c)" "rc_base c = base" "\<forall>i \<in> set ids. stored (rc_server c) i \<noteq> None"
    using assms by (auto simp: rest_inv_def rest_start_def)
  from handle_read [OF c(1,3) body(2)] obtain d' out where
    r: "router None M S [ascii ''v1'', tenant, index, ascii ''read_path''] body (rc_server c) = (Some \<lparr>hr_status = 200, hr_body = out\<rparr>, d')"
    "from_slice (mp_read_response M) out = Inr \<lparr>rp_buckets = map (\<lambda>i. the (stored (rc_server c) i)) ids\<rparr>" "healthy d'" "content d' = content (rc_server c)"
    by blast
  have st: "stored d' = stored (rc_server c)" using r(4) by (simp add: stored_def fun_eq_iff)
  have "rest_read_path None M S U ids c = (Inr (map (rest_view c) ids), c\<lparr>rc_server := d'\<rparr>)"
    using url body(1) r(1,2) c(2)
    by (simp add: rest_read_path_def rest_post_def ebind_def check_status_def ereturn_def rest_view_def comp_def)
  then show ?thesis using assms(1) r(3) st by (auto simp: rest_inv_def rest_start_def rest_view_def fun_eq_iff)
qed

lemma rest_write_ok:
  assumes "rest_start c" and "\<forall>e \<in> set es. eb_bucket_id e < rc_num_buckets c"
  shows "\<exists>d'. rest_write_buckets None M S U es c = (Inr (), c\<lparr>rc_server := d'\<rparr>) \<and> healthy d' \<and>
    (\<forall>i < 2 ^ 32. stored d' i = (if i \<in> eb_bucket_id ` set es then Some (wire_of_bucket (put_view es v i)) else stored (rc_server c) i))"
proof -
  obtain url where url: "url_join U base (ascii ''write_buckets'') = Some url" "url_segments U url = [ascii ''v1'', tenant, index, ascii ''write_buckets'']"
    using op_urls(3) by blast
  obtain body where body: "to_vec (mp_write_request M) \<lparr>wr_buckets = map wire_of_bucket es\<rparr> = Inr body"
    "from_slice (mp_write_request M) body = Inr \<lparr>wr_buckets = map wire_of_bucket es\<rparr>" by (rule codec_okE [OF codecs(5)])
  have c: "healthy (rc_server c)" "rc_base c = base" "\<forall>e \<in> set es. eb_bucket_id e < 2 ^ 32"
    using assms by (auto simp: rest_start_def)
  from handle_write [OF c(1,3) body(2), of v] obtain d' where
    r: "router None M S [ascii ''v1'', tenant, index, ascii ''write_buckets''] body (rc_server c) = (Some ok_response, d')" "healthy d'"
    "\<forall>i < 2 ^ 32. stored d' i = (if i \<in> eb_bucket_id ` set es then Some (wire_of_bucket (put_view es v i)) else stored (rc_server c) i)"
    by blast
  have "rest_write_buckets None M S U es c = (Inr (), c\<lparr>rc_server := d'\<rparr>)"
    using url body(1) r(1) c(2)
    by (simp add: rest_write_buckets_def rest_post_def eseq_def ebind_def check_status_def ereturn_def ok_response_def)
  then show ?thesis using r(2,3) by blast
qed

text \<open>Connecting to a tree that is new, or that was created for as many buckets.\<close>

lemma init_ok:
  assumes "healthy (rc_server c)" and "rc_base c = base" and "rc_num_buckets c < 2 ^ 32"
    and "content (rc_server c) tree NUM_BUCKETS_KEY \<in> {None, Some (le_bytes 4 (rc_num_buckets c))}"
  shows "\<exists>d'. rest_init None M S U c = (Inr (), c\<lparr>rc_server := d'\<rparr>) \<and> healthy d' \<and>
    content d' = (content (rc_server c))(tree := (content (rc_server c) tree)(NUM_BUCKETS_KEY \<mapsto> le_bytes 4 (rc_num_buckets c)))"
proof -
  let ?n = "rc_num_buckets c"
  obtain url where url: "url_join U base (ascii ''init'') = Some url" "url_segments U url = [ascii ''v1'', tenant, index, ascii ''init'']"
    using op_urls(1) by blast
  obtain body where body: "to_vec (mp_init M) \<lparr>ir_num_buckets = ?n\<rparr> = Inr body" "from_slice (mp_init M) body = Inr \<lparr>ir_num_buckets = ?n\<rparr>"
    by (rule codec_okE [OF codecs(2)])
  obtain d1 where d1: "open_tree S tenant index (rc_server c) = (Inr tree, d1)" "healthy d1" "content d1 = content (rc_server c)"
    using tree_opens [OF assms(1)] by blast
  obtain d2 where d2: "efail_as Storage (sl_get S tree NUM_BUCKETS_KEY) d1 = (Inr (content d1 tree NUM_BUCKETS_KEY), d2)"
    "healthy d2" "content d2 = content d1" using tree_gets [OF d1(2)] by blast
  obtain d3 where d3: "efail_as Storage (sl_insert S tree NUM_BUCKETS_KEY (le_bytes 4 ?n)) d2 = (Inr (), d3)"
    "healthy d3" "content d3 = (content d2)(tree := (content d2 tree)(NUM_BUCKETS_KEY \<mapsto> le_bytes 4 ?n))"
    using tree_inserts [OF d2(2)] by blast
  have le: "of_le_bytes (le_bytes 4 ?n) = ?n" using assms(3) by (simp add: of_le_bytes_le_bytes)
  let ?d = "case content (rc_server c) tree NUM_BUCKETS_KEY of None \<Rightarrow> d3 | Some _ \<Rightarrow> d2"
  have d: "healthy ?d" "content ?d = (content (rc_server c))(tree := (content (rc_server c) tree)(NUM_BUCKETS_KEY \<mapsto> le_bytes 4 ?n))"
    using assms(4) d1(2,3) d2(2,3) d3(2,3) by (auto simp: fun_eq_iff)
  obtain d4 where d4: "efail_as Storage (sl_flush S tree) ?d = (Inr (), d4)" "healthy d4" "content d4 = content ?d"
    using tree_flushes [OF d(1)] by blast
  have "init_handler M S tenant index body (rc_server c) = (Inr ok_response, d4)"
    using body(2) d1(1) d2(1) d3(1) d4(1) assms(4) le d1(3)
    by (auto simp: init_handler_def parse_msgpack_def ebind_def eseq_def ereturn_def eassert_def Let_def)
  then have "router None M S [ascii ''v1'', tenant, index, ascii ''init''] body (rc_server c) = (Some ok_response, d4)"
    using names by (simp add: router_def respond_def)
  then have "rest_init None M S U c = (Inr (), c\<lparr>rc_server := d4\<rparr>)"
    using url body(1) assms(2)
    by (simp add: rest_init_def rest_post_def eseq_def ebind_def eget_def check_status_def ereturn_def ok_response_def)
  with d4 d(2) show ?thesis by auto
qed

lemma connect_ok:
  assumes "healthy d" and "normalise_base U base_url = Some base" and "n < 2 ^ 32"
    and "content d tree NUM_BUCKETS_KEY \<in> {None, Some (le_bytes 4 n)}"
  shows "\<exists>c. connect None M S U base_url n d = Inr c \<and> rest_start c \<and> rc_num_buckets c = n \<and>
    content (rc_server c) = (content d)(tree := (content d tree)(NUM_BUCKETS_KEY \<mapsto> le_bytes 4 n))"
  using init_ok [of "\<lparr>rc_base = base, rc_num_buckets = n, rc_server = d\<rparr>"] assms
  by (auto simp: connect_def rest_start_def)

text \<open>A tree created for another number of buckets refuses the client and keeps its content.\<close>

lemma connect_mismatch:
  assumes "healthy d" and "normalise_base U base_url = Some base"
    and "content d tree NUM_BUCKETS_KEY = Some bs" and "4 \<le> length bs" and "of_le_bytes (take 4 bs) \<noteq> n"
  shows "(\<exists>msg. connect None M S U base_url n d = Inl (Fail msg)) \<and>
    (\<exists>d'. router None M S [ascii ''v1'', tenant, index, ascii ''init''] (projr (to_vec (mp_init M) \<lparr>ir_num_buckets = n\<rparr>)) d =
      (Some (into_response (Codec (ascii ''init mismatch: tree has '' @ show_nat (of_le_bytes (take 4 bs)) @
        ascii '' buckets, request asks for '' @ show_nat n))), d') \<and> healthy d' \<and> content d' = content d)"
proof -
  obtain url where url: "url_join U base (ascii ''init'') = Some url" "url_segments U url = [ascii ''v1'', tenant, index, ascii ''init'']"
    using op_urls(1) by blast
  obtain body where body: "to_vec (mp_init M) \<lparr>ir_num_buckets = n\<rparr> = Inr body" "from_slice (mp_init M) body = Inr \<lparr>ir_num_buckets = n\<rparr>"
    by (rule codec_okE [OF codecs(2)])
  obtain d1 where d1: "open_tree S tenant index d = (Inr tree, d1)" "healthy d1" "content d1 = content d"
    using tree_opens [OF assms(1)] by blast
  obtain d2 where d2: "efail_as Storage (sl_get S tree NUM_BUCKETS_KEY) d1 = (Inr (content d1 tree NUM_BUCKETS_KEY), d2)"
    "healthy d2" "content d2 = content d1" using tree_gets [OF d1(2)] by blast
  let ?e = "Codec (ascii ''init mismatch: tree has '' @ show_nat (of_le_bytes (take 4 bs)) @
        ascii '' buckets, request asks for '' @ show_nat n)"
  have "init_handler M S tenant index body d = (Inl (Fail ?e), d2)"
    using body(2) d1(1,3) d2(1) assms(3-5)
    by (simp add: init_handler_def parse_msgpack_def ebind_def eseq_def ereturn_def eassert_def efault_def Let_def)
  then have r: "router None M S [ascii ''v1'', tenant, index, ascii ''init''] body d = (Some (into_response ?e), d2)"
    using names by (simp add: router_def respond_def)
  then have "\<exists>msg c'. rest_init None M S U \<lparr>rc_base = base, rc_num_buckets = n, rc_server = d\<rparr> = (Inl (Fail msg), c')"
    using url body(1)
    by (simp add: rest_init_def rest_post_def eseq_def ebind_def eget_def check_status_def into_response_def)
  then show ?thesis using r body(1) d2(2,3) d1(3) assms(2) by (auto simp: connect_def)
qed

text \<open>The first bucket of a path that was never written is named in a 404.\<close>

lemma read_missing:
  assumes "healthy d" and "\<forall>i \<in> set ids. stored d i \<noteq> None" and "content d tree (bucket_key j) = None"
    and "from_slice (mp_read_request M) body = Inr \<lparr>rr_bucket_ids = ids @ j # js\<rparr>"
  shows "\<exists>d'. router None M S [ascii ''v1'', tenant, index, ascii ''read_path''] body d = (Some (into_response (MissingBucket j)), d') \<and>
    healthy d' \<and> content d' = content d"
proof -
  have miss: "\<exists>d'. emap (read_bucket M S tree) (ids @ j # js) d = (Inl (Fail (MissingBucket j)), d') \<and> healthy d' \<and> content d' = content d"
    if "healthy d" "\<forall>i \<in> set ids. stored d i \<noteq> None" "content d tree (bucket_key j) = None" for d
    using that
  proof (induction ids arbitrary: d)
    case Nil
    obtain d1 where "efail_as Storage (sl_get S tree (bucket_key j)) d = (Inr (content d tree (bucket_key j)), d1)"
      "healthy d1" "content d1 = content d" using tree_gets [OF Nil.prems(1)] by blast
    with Nil.prems(3) show ?case by (simp add: read_bucket_def ebind_def efault_def)
  next
    case (Cons i ids)
    obtain d1 where d1: "emap (read_bucket M S tree) [i] d = (Inr [the (stored d i)], d1)" "healthy d1" "content d1 = content d"
      using read_all_ok [OF Cons.prems(1), of "[i]"] Cons.prems(2) by auto
    have st: "stored d1 = stored d" using d1(3) by (simp add: stored_def fun_eq_iff)
    have r: "read_bucket M S tree i d = (Inr (the (stored d i)), d1)"
      using d1(1) by (auto simp: ebind_def ereturn_def split: prod.splits sum.splits)
    obtain d2 where "emap (read_bucket M S tree) (ids @ j # js) d1 = (Inl (Fail (MissingBucket j)), d2)" "healthy d2" "content d2 = content d1"
      using Cons.IH [OF d1(2)] Cons.prems(2,3) st d1(3) by auto
    then show ?case using r d1(3) by (simp add: ebind_def)
  qed
  obtain d1 where d1: "open_tree S tenant index d = (Inr tree, d1)" "healthy d1" "content d1 = content d"
    using tree_opens [OF assms(1)] by blast
  have st: "stored d1 = stored d" using d1(3) by (simp add: stored_def fun_eq_iff)
  obtain d2 where d2: "emap (read_bucket M S tree) (ids @ j # js) d1 = (Inl (Fail (MissingBucket j)), d2)" "healthy d2" "content d2 = content d1"
    using miss [OF d1(2)] assms(2,3) st d1(3) by auto
  have op: "ascii ''read_path'' \<noteq> ascii ''init''" by code_simp
  have "read_path_handler M S tenant index body d = (Inl (Fail (MissingBucket j)), d2)"
    using assms(4) d1(1) d2(1) by (simp add: read_path_handler_def parse_msgpack_def ebind_def ereturn_def)
  then show ?thesis using names op d1(3) d2(2,3) by (simp add: router_def respond_def)
qed

end

sublocale rest_env \<subseteq> rest: block_backend "rest_ops None M S U" rest_view rest_inv "\<lambda>_. ()" "\<lambda>_ x. x" "\<lambda>_ x. x" rest_start
proof (unfold_locales, goal_cases)
  case (1 b ids)
  then show ?case using rest_read_ok [of b ids] by (simp add: rest_ops_def)
next
  case (2 b es)
  then have s: "rest_start b" "\<forall>e \<in> set es. eb_bucket_id e < rc_num_buckets b" by (simp_all add: rest_inv_def rest_ops_def)
  from rest_write_ok [OF this, of "rest_view b"] obtain d' where
    w: "rest_write_buckets None M S U es b = (Inr (), b\<lparr>rc_server := d'\<rparr>)" "healthy d'"
    "\<forall>i < 2 ^ 32. stored d' i = (if i \<in> eb_bucket_id ` set es then Some (wire_of_bucket (put_view es (rest_view b) i)) else stored (rc_server b) i)"
    by blast
  have n: "i < rc_num_buckets b \<Longrightarrow> i < 2 ^ 32" for i using s(1) by (simp add: rest_start_def)
  have "rest_view (b\<lparr>rc_server := d'\<rparr>) i = put_view es (rest_view b) i" if "i < rc_num_buckets b" for i
    using w(3) n [OF that] by (cases "i \<in> eb_bucket_id ` set es") (simp_all add: rest_view_def put_view_notin)
  moreover have "rest_inv (b\<lparr>rc_server := d'\<rparr>)" using 2(1) w(2,3) n by (auto simp: rest_inv_def rest_start_def)
  ultimately show ?case using w(1) by (intro exI [of _ "b\<lparr>rc_server := d'\<rparr>"]) (simp add: rest_ops_def)
next
  case (3 b es)
  then have ids: "map eb_bucket_id es = [0..<rc_num_buckets b]" by (simp add: rest_ops_def)
  have "\<forall>e \<in> set es. eb_bucket_id e < rc_num_buckets b" using put_all_view [OF ids] by blast
  from rest_write_ok [OF 3(1) this, of "rest_view b"] obtain d' where
    w: "rest_write_buckets None M S U es b = (Inr (), b\<lparr>rc_server := d'\<rparr>)" "healthy d'"
    "\<forall>i < 2 ^ 32. stored d' i = (if i \<in> eb_bucket_id ` set es then Some (wire_of_bucket (put_view es (rest_view b) i)) else stored (rc_server b) i)"
    by blast
  have n: "i < rc_num_buckets b \<Longrightarrow> i < 2 ^ 32" for i using 3(1) by (simp add: rest_start_def)
  have all: "eb_bucket_id ` set es = {0..<rc_num_buckets b}" using ids by (metis set_map set_upt)
  have "rest_view (b\<lparr>rc_server := d'\<rparr>) (eb_bucket_id e) = e" if "e \<in> set es" for e
    using put_all_view [OF ids that, of "rest_view b"] w(3) n that by (auto simp: rest_view_def)
  moreover have "rest_inv (b\<lparr>rc_server := d'\<rparr>)" using 3(1) w(2,3) n all by (auto simp: rest_inv_def rest_start_def)
  ultimately show ?case using w(1) by (intro exI [of _ "b\<lparr>rc_server := d'\<rparr>"]) (simp add: rest_ops_def)
qed

end
