(* ===== verification/Text_Ops.thy ===== *)
theory Text_Ops
  imports Rust_Text
begin

text \<open>
  The string operations of the standard library that the text components use, on UTF-8 bytes:
  character boundaries, trimming, searching, splitting and joining, and the order of a
  \<open>BTreeMap\<close>.  For well-formed text a match of a well-formed pattern in the bytes is a match
  in the characters.
\<close>

section \<open>Characters\<close>

text \<open>The encoded characters of a text.\<close>

function chars :: "str \<Rightarrow> str list" where
  "chars [] = []"
| "chars (a # s) =
     (case utf8_tail a s of None \<Rightarrow> [a # s] | Some r \<Rightarrow> (a # take (length s - length r) s) # chars r)"
  by pat_completeness auto
termination
  by (relation "measure length") (auto dest: utf8_tail_length)

lemma utf8_tail_suffix: "utf8_tail a s = Some r \<Longrightarrow> s = take (length s - length r) s @ r"
  by (auto simp: utf8_tail_def split: if_splits list.splits)

lemma concat_chars: "concat (chars s) = s"
proof (induction s rule: chars.induct)
  case (2 a s)
  show ?case
  proof (cases "utf8_tail a s")
    case (Some r)
    then show ?thesis using 2 [OF Some] utf8_tail_suffix [OF Some] by simp
  qed simp
qed simp

lemma chars_append: "utf8_valid a \<Longrightarrow> chars (a @ b) = chars a @ chars b"
proof (induction a rule: utf8_valid.induct)
  case (2 x s)
  then obtain r where r: "utf8_tail x s = Some r" "utf8_valid r" by (auto split: option.splits)
  have "length r \<le> length s" by (rule utf8_tail_length [OF r(1)])
  then show ?case using 2(1) [OF r(1,2)] utf8_tail_append [OF r(1)] r(1) by simp
qed simp

text \<open>\<open>is_char_boundary\<close>.\<close>

definition is_char_boundary :: "str \<Rightarrow> nat \<Rightarrow> bool" where
  "is_char_boundary s i \<longleftrightarrow> i = 0 \<or> i = length s \<or> (i < length s \<and> \<not> cont_byte (s ! i))"

lemma boundary_0 [simp]: "is_char_boundary s 0"
  by (simp add: is_char_boundary_def)

lemma boundary_len [simp]: "is_char_boundary s (length s)"
  by (simp add: is_char_boundary_def)

lemma boundary_le: "is_char_boundary s i \<Longrightarrow> i \<le> length s"
  by (auto simp: is_char_boundary_def)

lemma utf8_tail_short: "utf8_tail a s = Some r \<Longrightarrow> length s \<le> length r + 3"
  by (auto simp: utf8_tail_def split: if_splits list.splits)

lemma valid_head: "utf8_valid (a # s) \<Longrightarrow> \<not> cont_byte a"
  by (auto simp: utf8_tail_def cont_byte_def in_range_def split: if_splits)

text \<open>In well-formed text a boundary is at most three bytes away.\<close>

lemma boundary_near: "utf8_valid s \<Longrightarrow> i \<le> length s \<Longrightarrow> \<exists>j \<le> i. i \<le> j + 3 \<and> is_char_boundary s j"
proof (induction s arbitrary: i rule: utf8_valid.induct)
  case (2 a s)
  then obtain r where r: "utf8_tail a s = Some r" "utf8_valid r" by (auto split: option.splits)
  let ?k = "Suc (length s - length r)"
  have len: "length r \<le> length s" by (rule utf8_tail_length [OF r(1)])
  show ?case
  proof (cases "i < ?k")
    case True
    then show ?thesis using utf8_tail_short [OF r(1)] by (intro exI [of _ 0]) auto
  next
    case False
    then have "i - ?k \<le> length r" using 2(3) len by simp
    then obtain j where j: "j \<le> i - ?k" "i - ?k \<le> j + 3" "is_char_boundary r j" using 2(1) [OF r] by blast
    have s: "a # s = (a # take (length s - length r) s) @ r" using utf8_tail_suffix [OF r(1)] by simp
    have "is_char_boundary (a # s) (?k + j)"
    proof (cases "j = length r")
      case True
      then show ?thesis using len by (simp add: is_char_boundary_def)
    next
      case False
      with j(3) boundary_le have "j < length r" by fastforce
      moreover have "\<not> cont_byte (r ! j)"
      proof (cases "j = 0")
        case True
        with \<open>j < length r\<close> obtain b r' where "r = b # r'" by (cases r) auto
        with r(2) True show ?thesis using valid_head [of b r'] by simp
      next
        case False
        with j(3) \<open>j < length r\<close> show ?thesis by (simp add: is_char_boundary_def)
      qed
      moreover have "(a # s) ! (?k + j) = r ! j"
      proof -
        have "length (a # take (length s - length r) s) = ?k" by simp
        then show ?thesis by (subst s) (metis nth_append_length_plus)
      qed
      moreover have "?k + j < length (a # s)" using \<open>j < length r\<close> len by simp
      ultimately show ?thesis unfolding is_char_boundary_def by simp
    qed
    then show ?thesis using j(1,2) False by (intro exI [of _ "?k + j"]) auto
  qed
qed simp

lemma utf8_tail_chunk: "utf8_tail a s = Some r \<Longrightarrow> utf8_tail a (take (length s - length r) s @ t) = Some t"
  by (auto simp: utf8_tail_def split: if_splits list.splits)

lemma utf8_tail_cont: "utf8_tail a s = Some r \<Longrightarrow> b \<in> set (take (length s - length r) s) \<Longrightarrow> cont_byte b"
  by (auto simp: utf8_tail_def second_ok_def cont_byte_def in_range_def split: if_splits list.splits)

text \<open>Well-formed text splits at its boundaries into well-formed texts.\<close>

lemma valid_split: "utf8_valid s \<Longrightarrow> is_char_boundary s i \<Longrightarrow> utf8_valid (take i s) \<and> utf8_valid (drop i s)"
proof (induction s arbitrary: i rule: utf8_valid.induct)
  case (2 a s)
  then obtain r where r: "utf8_tail a s = Some r" "utf8_valid r" by (auto split: option.splits)
  let ?c = "take (length s - length r) s"
  let ?k = "Suc (length s - length r)"
  have len: "length r \<le> length s" by (rule utf8_tail_length [OF r(1)])
  have s: "s = ?c @ r" by (rule utf8_tail_suffix [OF r(1)])
  have lc: "length ?c = length s - length r" using len by simp
  consider "i = 0" | "0 < i" "i < ?k" | "?k \<le> i" by linarith
  then show ?case
  proof cases
    case 1
    then show ?thesis using 2(2) by simp
  next
    case 2
    then have i: "i - 1 < length ?c" using lc by simp
    then have "(a # s) ! i = ?c ! (i - 1)" using 2 s by (metis nth_Cons' nth_append less_numeral_extra(3))
    then have "cont_byte ((a # s) ! i)" using utf8_tail_cont [OF r(1)] nth_mem [OF i] by simp
    then have "i = length (a # s)" using \<open>is_char_boundary (a # s) i\<close> 2 by (auto simp: is_char_boundary_def)
    with 2 show ?thesis by simp
  next
    case 3
    have "is_char_boundary r (i - ?k)"
    proof (cases "i < length (a # s)")
      case True
      have "(a # s) ! i = (?c @ r) ! (i - 1)" using 3 s by (metis nth_Cons' Suc_le_eq not_less0)
      also have "\<dots> = r ! (i - ?k)"
      proof -
        have "\<not> i - 1 < length ?c" "i - 1 - length ?c = i - ?k" using 3 lc by linarith+
        then show ?thesis by (simp only: nth_append if_False)
      qed
      finally have "(a # s) ! i = r ! (i - ?k)" .
      then show ?thesis using \<open>is_char_boundary (a # s) i\<close> True 3 len by (auto simp: is_char_boundary_def)
    next
      case False
      then show ?thesis using \<open>is_char_boundary (a # s) i\<close> boundary_le [of "a # s" i] len by (simp add: is_char_boundary_def)
    qed
    from 2(1) [OF r this] have v: "utf8_valid (take (i - ?k) r)" "utf8_valid (drop (i - ?k) r)" by simp_all
    obtain j where j: "i = Suc j" "j - length ?c = i - ?k" "length ?c \<le> j" using 3 lc by (cases i) auto
    have "take i (a # s) = a # ?c @ take (i - ?k) r" using j s by (metis take_Suc_Cons take_append take_all)
    moreover have "drop i (a # s) = drop (i - ?k) r" using j s by (metis drop_Suc_Cons drop_append drop_all append_Nil)
    ultimately show ?thesis using v utf8_tail_chunk [OF r(1)] by simp
  qed
qed simp

text \<open>\<open>&s[a..b]\<close>.\<close>

definition str_slice :: "str \<Rightarrow> nat \<Rightarrow> nat \<Rightarrow> ('e, str) outcome" where
  "str_slice s a b =
     (if a \<le> b \<and> b \<le> length s \<and> is_char_boundary s a \<and> is_char_boundary s b then Inr (take (b - a) (drop a s)) else Inl Panic)"

section \<open>White space\<close>

text \<open>The characters with the Unicode property \<open>White_Space\<close>.\<close>

definition is_white :: "str \<Rightarrow> bool" where
  "is_white c \<longleftrightarrow> c \<in> set ([[9], [10], [11], [12], [13], [32], [0xC2, 0x85], [0xC2, 0xA0], [0xE1, 0x9A, 0x80],
     [0xE2, 0x80, 0xA8], [0xE2, 0x80, 0xA9], [0xE2, 0x80, 0xAF], [0xE2, 0x81, 0x9F], [0xE3, 0x80, 0x80]] @
     map (\<lambda>i. [0xE2, 0x80, 0x80 + of_nat i]) [0..<11])"

definition trim :: "str \<Rightarrow> str" where
  "trim s = concat (rev (dropWhile is_white (rev (dropWhile is_white (chars s)))))"

definition is_blank :: "str \<Rightarrow> bool" where
  "is_blank s \<longleftrightarrow> trim s = []"

section \<open>Searching, splitting and joining\<close>

definition starts_with :: "str \<Rightarrow> str \<Rightarrow> bool" where
  "starts_with p s \<longleftrightarrow> take (length p) s = p"

fun find_sub :: "str \<Rightarrow> str \<Rightarrow> nat option" where
  "find_sub p [] = (if p = [] then Some 0 else None)"
| "find_sub p (x # s) = (if starts_with p (x # s) then Some 0 else map_option Suc (find_sub p s))"

fun rfind_upto :: "str \<Rightarrow> str \<Rightarrow> nat \<Rightarrow> nat option" where
  "rfind_upto p s 0 = (if starts_with p s then Some 0 else None)"
| "rfind_upto p s (Suc i) = (if starts_with p (drop (Suc i) s) then Some (Suc i) else rfind_upto p s i)"

definition rfind_sub :: "str \<Rightarrow> str \<Rightarrow> nat option" where
  "rfind_sub p s = rfind_upto p s (length s)"

definition contains_sub :: "str \<Rightarrow> str \<Rightarrow> bool" where
  "contains_sub p s \<longleftrightarrow> find_sub p s \<noteq> None"

lemma find_sub_Some:
  "find_sub p s = Some i \<Longrightarrow> i + length p \<le> length s \<and> take (length p) (drop i s) = p \<and>
    (\<forall>j < i. \<not> starts_with p (drop j s))"
proof (induction s arbitrary: i)
  case (Cons x s)
  show ?case
  proof (cases "starts_with p (x # s)")
    case True
    then have "length p \<le> length (x # s)" by (metis starts_with_def length_take min.absorb_iff2 min.commute)
    then show ?thesis using True Cons.prems by (simp add: starts_with_def)
  next
    case False
    with Cons.prems obtain k where k: "find_sub p s = Some k" "i = Suc k" by auto
    have "\<not> starts_with p (drop j (x # s))" if "j < i" for j
      using that Cons.IH [OF k(1)] False k(2) by (cases j) auto
    with Cons.IH [OF k(1)] k(2) show ?thesis by auto
  qed
qed (simp split: if_splits)

lemma find_sub_None: "find_sub p s = None \<Longrightarrow> j \<le> length s \<Longrightarrow> \<not> starts_with p (drop j s)"
proof (induction s arbitrary: j)
  case Nil
  then show ?case by (simp add: starts_with_def split: if_splits)
next
  case (Cons x s)
  then show ?case by (cases j) (auto split: if_splits)
qed

lemma rfind_upto_le: "rfind_upto p s k = Some i \<Longrightarrow> i \<le> k \<and> starts_with p (drop i s)"
  by (induction k) (auto split: if_splits)

lemma starts_with_length: "starts_with p s \<Longrightarrow> length p \<le> length s"
  by (metis starts_with_def length_take min.absorb_iff2 min.commute)

lemma rfind_sub_Some: "rfind_sub p s = Some i \<Longrightarrow> i + length p \<le> length s"
  using rfind_upto_le [of p s "length s" i] starts_with_length [of p "drop i s"] by (auto simp: rfind_sub_def)

text \<open>\<open>str::split\<close>; an empty pattern matches at every boundary.\<close>

function split_on :: "str \<Rightarrow> str \<Rightarrow> str list" where
  "split_on p s =
     (if p = [] then [] # chars s @ [[]]
      else case find_sub p s of None \<Rightarrow> [s] | Some i \<Rightarrow> take i s # split_on p (drop (i + length p) s))"
  by auto
termination
  by (relation "measure (\<lambda>(p, s). length s)") (auto dest!: find_sub_Some intro!: diff_less simp: neq_Nil_conv)

declare split_on.simps [simp del]

fun join_with :: "str \<Rightarrow> str list \<Rightarrow> str" where
  "join_with sep [] = []"
| "join_with sep [x] = x"
| "join_with sep (x # y # ys) = x @ sep @ join_with sep (y # ys)"

section \<open>Ordered maps\<close>

text \<open>A \<open>BTreeMap\<close> is its list of entries in ascending key order.\<close>

fun bt_put :: "('k \<Rightarrow> 'k \<Rightarrow> bool) \<Rightarrow> 'k \<Rightarrow> 'v \<Rightarrow> ('k \<times> 'v) list \<Rightarrow> ('k \<times> 'v) list" where
  "bt_put le k v [] = [(k, v)]"
| "bt_put le k v ((k', v') # m) =
     (if k = k' then (k, v) # m else if le k k' then (k, v) # (k', v') # m else (k', v') # bt_put le k v m)"

lemma map_of_bt_put: "map_of (bt_put le k v m) = (map_of m)(k \<mapsto> v)"
  by (induction m) (auto simp: fun_eq_iff)

lemma keys_bt_put: "fst ` set (bt_put le k v m) = insert k (fst ` set m)"
  by (induction le k v m rule: bt_put.induct) (auto simp: image_iff)

lemma set_bt_put: "set (bt_put le k v m) \<subseteq> insert (k, v) (set m)"
  by (induction le k v m rule: bt_put.induct) auto

text \<open>Strictly ascending keys.\<close>

definition bt_sorted :: "('k \<Rightarrow> 'k \<Rightarrow> bool) \<Rightarrow> ('k \<times> 'v) list \<Rightarrow> bool" where
  "bt_sorted le m \<longleftrightarrow> sorted_wrt (\<lambda>x y. le x y \<and> x \<noteq> y) (map fst m)"

lemma bt_sorted_distinct: "(\<And>x y. le x y \<Longrightarrow> le y x \<Longrightarrow> x = y) \<Longrightarrow> bt_sorted le m \<Longrightarrow> distinct (map fst m)"
  by (induction m) (auto simp: bt_sorted_def)

lemma bt_sorted_put:
  assumes total: "\<And>x y. le x y \<or> le y x" and trans: "\<And>x y z. le x y \<Longrightarrow> le y z \<Longrightarrow> le x z"
    and anti: "\<And>x y. le x y \<Longrightarrow> le y x \<Longrightarrow> x = y"
  shows "bt_sorted le m \<Longrightarrow> bt_sorted le (bt_put le k v m)"
proof (induction m)
  case (Cons a m)
  obtain k' v' where a: "a = (k', v')" by fastforce
  have k': "le k' y \<and> k' \<noteq> y" if "y \<in> fst ` set m" for y using Cons.prems a that by (auto simp: bt_sorted_def)
  consider "k = k'" | "k \<noteq> k'" "le k k'" | "k \<noteq> k'" "\<not> le k k'" by blast
  then show ?case
  proof cases
    case 1
    then show ?thesis using Cons.prems a by (simp add: bt_sorted_def)
  next
    case 2
    have "le k y \<and> k \<noteq> y" if "y \<in> fst ` set m" for y
      using k' [OF that] 2 trans anti by blast
    then show ?thesis using 2 Cons.prems a by (auto simp: bt_sorted_def)
  next
    case 3
    then have "le k' k" using total by blast
    then have "\<forall>y \<in> fst ` set (bt_put le k v m). le k' y \<and> k' \<noteq> y" using k' 3 by (simp add: keys_bt_put)
    then show ?thesis using 3 Cons a by (simp add: bt_sorted_def)
  qed
qed (simp add: bt_sorted_def)

lemma str_le_refl [simp]: "str_le x x"
  by (induction x) auto

lemma str_le_trans: "str_le x y \<Longrightarrow> str_le y z \<Longrightarrow> str_le x z"
proof (induction x y arbitrary: z rule: str_le.induct)
  case (3 a x b y)
  then show ?case by (cases z) auto
qed auto

text \<open>The order of pairs of strings.\<close>

definition pair_le :: "str \<times> str \<Rightarrow> str \<times> str \<Rightarrow> bool" where
  "pair_le p q \<longleftrightarrow> (if fst p = fst q then str_le (snd p) (snd q) else str_le (fst p) (fst q))"

lemma pair_le_total: "pair_le p q \<or> pair_le q p"
  by (simp add: pair_le_def str_le_total)

lemma pair_le_antisym: "pair_le p q \<Longrightarrow> pair_le q p \<Longrightarrow> p = q"
  using str_le_antisym by (cases p; cases q) (auto simp: pair_le_def split: if_splits)

lemma pair_le_trans: "pair_le p q \<Longrightarrow> pair_le q r \<Longrightarrow> pair_le p r"
  using str_le_antisym [of "fst p" "fst q"] str_le_trans [of "fst p" "fst q" "fst r"] str_le_trans [of "snd p" "snd q" "snd r"]
  unfolding pair_le_def by (cases "fst p = fst q"; cases "fst q = fst r"; cases "fst p = fst r") simp_all

end
