(* ===== verification/Rest_Theorems.thy ===== *)
theory Rest_Theorems
  imports Rest_Correct Text_Ops
begin

text \<open>
  What the network backend guarantees: the Ring-ORAM and the Compass index behave over the
  network as they do in memory, a tree remembers the size it was made for, a bucket that is
  missing is named in the answer, an oversized body is refused, and requests to one tenant
  do not touch the trees of another.
\<close>

section \<open>A database and a codec that keep the laws\<close>

text \<open>A database that is a map, and a codec that writes numbers in unary and every list
  behind its length.\<close>

definition map_sled :: "(str \<Rightarrow> bytes \<Rightarrow> bytes option) sled_ops" where
  "map_sled = \<lparr>sl_open_tree = \<lambda>n. ereturn (), sl_get = \<lambda>n k. eget (\<lambda>d. d n k),
     sl_insert = \<lambda>n k v. emodify (\<lambda>d. d(n := (d n)(k \<mapsto> v))), sl_flush = \<lambda>n. ereturn ()\<rparr>"

lemma map_sled_ok: "sled_ok map_sled (\<lambda>_. True) (\<lambda>d. d)"
  by (simp add: sled_ok_def map_sled_def ereturn_def eget_def emodify_def)

type_synonym 'a reader = "bytes \<Rightarrow> ('a \<times> bytes) option"

definition put_num :: "nat \<Rightarrow> bytes" where
  "put_num n = replicate n 1 @ [0]"

fun get_num :: "nat reader" where
  "get_num [] = None"
| "get_num (b # bs) = (if b = 0 then Some (0, bs) else map_option (\<lambda>(n, r). (Suc n, r)) (get_num bs))"

fun get_many :: "'a reader \<Rightarrow> nat \<Rightarrow> 'a list reader" where
  "get_many g 0 s = Some ([], s)"
| "get_many g (Suc n) s = (case g s of None \<Rightarrow> None | Some (x, r) \<Rightarrow> map_option (\<lambda>(xs, r). (x # xs, r)) (get_many g n r))"

definition put_list :: "('a \<Rightarrow> bytes) \<Rightarrow> 'a list \<Rightarrow> bytes" where
  "put_list f xs = put_num (length xs) @ concat (map f xs)"

definition get_list :: "'a reader \<Rightarrow> 'a list reader" where
  "get_list g s = Option.bind (get_num s) (\<lambda>(n, r). get_many g n r)"

definition get_byte :: "u8 reader" where
  "get_byte s = (case s of [] \<Rightarrow> None | b # r \<Rightarrow> Some (b, r))"

definition put_wire :: "wire_bucket \<Rightarrow> bytes" where
  "put_wire w = put_num (wb_bucket_id w) @ put_num (wb_write_counter w) @ put_list (\<lambda>b. [b]) (wb_ciphertext w)"

definition get_wire :: "wire_bucket reader" where
  "get_wire s = Option.bind (get_num s) (\<lambda>(i, r). Option.bind (get_num r) (\<lambda>(c, r). Option.bind (get_list get_byte r) (\<lambda>(bs, r).
     Some (\<lparr>wb_bucket_id = i, wb_write_counter = c, wb_ciphertext = bs\<rparr>, r))))"

definition reads :: "('a \<Rightarrow> bytes) \<Rightarrow> 'a reader \<Rightarrow> bool" where
  "reads f g \<longleftrightarrow> (\<forall>x r. g (f x @ r) = Some (x, r))"

lemma reads_num: "reads put_num get_num"
proof -
  have "get_num (replicate n 1 @ 0 # r) = Some (n, r)" for n r by (induction n) auto
  then show ?thesis by (simp add: reads_def put_num_def)
qed

lemma reads_list:
  assumes "reads f g" shows "reads (put_list f) (get_list g)"
proof -
  have "get_many g (length xs) (concat (map f xs) @ r) = Some (xs, r)" for xs r
    using assms by (induction xs) (auto simp: reads_def)
  then show ?thesis using reads_num by (simp add: reads_def put_list_def get_list_def)
qed

lemma reads_wire: "reads put_wire get_wire"
proof -
  have b: "reads (\<lambda>b. [b]) get_byte" by (simp add: reads_def get_byte_def)
  show ?thesis using reads_num reads_list [OF b] by (simp add: reads_def put_wire_def get_wire_def)
qed

definition plain_codec :: "('a \<Rightarrow> bytes) \<Rightarrow> 'a reader \<Rightarrow> 'a codec" where
  "plain_codec f g = \<lparr>to_vec = \<lambda>x. Inr (f x),
     from_slice = \<lambda>s. case g s of Some (x, []) \<Rightarrow> Inr x | _ \<Rightarrow> Inl (ascii ''bad message'')\<rparr>"

lemma plain_codec_ok:
  assumes "reads f g" shows "codec_ok (plain_codec f g)"
proof -
  have "g (f x) = Some (x, [])" for x using assms by (metis append_Nil2 reads_def)
  then show ?thesis by (simp add: codec_ok_def plain_codec_def)
qed

definition wrapped :: "('b \<Rightarrow> 'a) \<Rightarrow> ('a \<Rightarrow> 'b) \<Rightarrow> ('a \<Rightarrow> bytes) \<Rightarrow> 'a reader \<Rightarrow> 'b codec" where
  "wrapped un mk f g = plain_codec (f \<circ> un) (\<lambda>s. map_option (\<lambda>(x, r). (mk x, r)) (g s))"

lemma wrapped_ok: "reads f g \<Longrightarrow> (\<And>x. mk (un x) = x) \<Longrightarrow> codec_ok (wrapped un mk f g)"
  unfolding wrapped_def by (rule plain_codec_ok) (simp add: reads_def)

definition plain_msgpack :: msgpack where
  "plain_msgpack = \<lparr>mp_bucket = plain_codec put_wire get_wire,
     mp_init = wrapped ir_num_buckets (\<lambda>n. \<lparr>ir_num_buckets = n\<rparr>) put_num get_num,
     mp_read_request = wrapped rr_bucket_ids (\<lambda>ids. \<lparr>rr_bucket_ids = ids\<rparr>) (put_list put_num) (get_list get_num),
     mp_read_response = wrapped rp_buckets (\<lambda>bs. \<lparr>rp_buckets = bs\<rparr>) (put_list put_wire) (get_list get_wire),
     mp_write_request = wrapped wr_buckets (\<lambda>bs. \<lparr>wr_buckets = bs\<rparr>) (put_list put_wire) (get_list get_wire)\<rparr>"

lemma plain_msgpack_ok:
  "codec_ok (mp_bucket plain_msgpack)" "codec_ok (mp_init plain_msgpack)" "codec_ok (mp_read_request plain_msgpack)"
  "codec_ok (mp_read_response plain_msgpack)" "codec_ok (mp_write_request plain_msgpack)"
  by (auto simp: plain_msgpack_def intro!: plain_codec_ok wrapped_ok reads_wire reads_num reads_list)

text \<open>URLs of the form \<open>http://host/v1/tenant/index/op\<close>.\<close>

definition plain_url :: url_ops where
  "plain_url = \<lparr>url_parse = Some, url_join = \<lambda>b op. Some (b @ op), url_segments = \<lambda>u. drop 3 (split_on [47] u)\<rparr>"

definition demo_base :: str where
  "demo_base = ascii ''http://h/v1/alpha/entities/''"

lemma demo_urls:
  assumes "op \<in> {ascii ''init'', ascii ''read_path'', ascii ''write_buckets''}"
  shows "\<exists>url. url_join plain_url demo_base op = Some url \<and>
    url_segments plain_url url = [ascii ''v1'', ascii ''alpha'', ascii ''entities'', op]"
proof -
  have "url_segments plain_url (demo_base @ ascii ''init'') = [ascii ''v1'', ascii ''alpha'', ascii ''entities'', ascii ''init'']"
    "url_segments plain_url (demo_base @ ascii ''read_path'') = [ascii ''v1'', ascii ''alpha'', ascii ''entities'', ascii ''read_path'']"
    "url_segments plain_url (demo_base @ ascii ''write_buckets'') = [ascii ''v1'', ascii ''alpha'', ascii ''entities'', ascii ''write_buckets'']"
    by code_simp+
  then show ?thesis using assms unfolding plain_url_def by auto
qed

interpretation demo_env: rest_env plain_msgpack map_sled plain_url "\<lambda>_. True" "\<lambda>d. d" demo_base "ascii ''alpha''" "ascii ''entities''"
  by unfold_locales (use plain_msgpack_ok map_sled_ok demo_urls in \<open>auto simp: ascii_def\<close>)

section \<open>Requests stay within their tree\<close>

definition confined :: "('db \<Rightarrow> bool) \<Rightarrow> ('db \<Rightarrow> str \<Rightarrow> bytes \<Rightarrow> bytes option) \<Rightarrow> str \<Rightarrow> ('db, 'e, 'a) eff \<Rightarrow> bool" where
  "confined healthy content t m \<longleftrightarrow> (\<forall>d. healthy d \<longrightarrow> healthy (snd (m d)) \<and> (\<forall>n. n \<noteq> t \<longrightarrow> content (snd (m d)) n = content d n))"

lemma confined_pure [intro]:
  "confined healthy content t (ereturn x)" "confined healthy content t (efault e)" "confined healthy content t (eassert b)"
  by (simp_all add: confined_def ereturn_def efault_def eassert_def)

lemma confined_ebind [intro]:
  assumes "confined healthy content t m" and "\<And>x. confined healthy content t (k x)"
  shows "confined healthy content t (ebind m k)"
  using assms unfolding confined_def ebind_def
  by (auto split: prod.splits sum.splits)

lemma confined_eseq [intro]: "confined healthy content t m \<Longrightarrow> confined healthy content t k \<Longrightarrow> confined healthy content t (eseq m k)"
  unfolding eseq_def by (rule confined_ebind)

lemma confined_efor: "(\<And>x. confined healthy content t (f x)) \<Longrightarrow> confined healthy content t (efor xs f)"
  by (induction xs) auto

lemma confined_emap: "(\<And>x. confined healthy content t (f x)) \<Longrightarrow> confined healthy content t (emap f xs)"
  by (induction xs) auto

lemma confined_efail_as: "confined healthy content t m \<Longrightarrow> confined healthy content t (efail_as F m)"
  by (auto simp: confined_def efail_as_def split: prod.splits)

lemma confinedI:
  "(\<And>d. healthy d \<Longrightarrow> \<exists>x d'. m d = (x, d') \<and> healthy d' \<and> (content d' = content d \<or> (\<exists>f. content d' = (content d)(t := f)))) \<Longrightarrow>
    confined healthy content t m"
  unfolding confined_def by (metis fun_upd_other snd_conv)

lemma confined_sled:
  assumes "sled_ok S healthy content"
  shows "confined healthy content t (efail_as F (sl_open_tree S n))" "confined healthy content t (efail_as F (sl_get S n k))"
    "confined healthy content t (efail_as F (sl_insert S t k v))" "confined healthy content t (efail_as F (sl_flush S n))"
  by (rule confined_efail_as, rule confinedI, use sled_okD [OF assms] in blast)+

lemma confined_handlers:
  fixes M :: msgpack
  assumes "sled_ok S healthy content"
  shows "confined healthy content (tree_name tenant index) (init_handler M S tenant index body)"
    and "confined healthy content (tree_name tenant index) (read_path_handler M S tenant index body)"
    and "confined healthy content (tree_name tenant index) (write_buckets_handler M S tenant index body)"
proof -
  let ?C = "\<lambda>m. confined healthy content (tree_name tenant index) m"
  note sled = confined_sled [OF assms]
  have parse: "?C (parse_msgpack c body)" for c body by (auto simp: parse_msgpack_def split: sum.split)
  have bind: "?C (ebind (open_tree S tenant index) k)" if "?C (k (tree_name tenant index))" for k
  proof -
    have "ebind (open_tree S tenant index) k =
        eseq (efail_as Storage (sl_open_tree S (tree_name tenant index))) (k (tree_name tenant index))"
      by (auto simp: open_tree_def Let_def eseq_def ebind_def ereturn_def fun_eq_iff split: prod.split sum.split)
    with confined_eseq [OF sled(1) that] show ?thesis by simp
  qed
  show "?C (init_handler M S tenant index body)"
    unfolding init_handler_def
    by (rule confined_ebind [OF parse], rule bind, rule confined_ebind [OF sled(2)], rule confined_eseq)
       (auto simp: Let_def split: option.split intro!: sled)
  show "?C (read_path_handler M S tenant index body)"
    unfolding read_path_handler_def
    by (rule confined_ebind [OF parse], rule bind, rule confined_ebind, rule confined_emap)
       (auto simp: read_bucket_def msgpack_body_def split: option.split sum.split intro!: confined_ebind sled parse)
  show "?C (write_buckets_handler M S tenant index body)"
    unfolding write_buckets_handler_def
    by (rule confined_ebind [OF parse], rule bind, rule confined_eseq, rule confined_efor)
       (auto simp: store_bucket_def split: sum.split intro!: sled)
qed

lemma router_confined:
  assumes "sled_ok S healthy content" and "healthy d"
  shows "healthy (snd (router limit M S [v, tenant, index, op] body d)) \<and>
    (\<forall>n. n \<noteq> tree_name tenant index \<longrightarrow> content (snd (router limit M S [v, tenant, index, op] body d)) n = content d n)"
proof -
  have r: "snd (respond h d) = snd (h d)" for h :: "('db, http_response) handler" and d :: 'db
    by (auto simp: respond_def split: prod.split sum.split fault.split)
  from confined_handlers [OF assms(1), of tenant index M body] assms(2) show ?thesis
    by (simp add: router_def r confined_def)
qed

lemma tree_name_inj:
  assumes "47 \<notin> set tenant" and "47 \<notin> set tenant'" and "tree_name tenant index = tree_name tenant' index'"
  shows "tenant = tenant' \<and> index = index'"
proof -
  have "takeWhile (\<lambda>b. b \<noteq> 47) (tree_name t i) = t" if "47 \<notin> set t" for t i
    using that unfolding tree_name_def by (subst takeWhile_append2) auto
  with assms have "tenant = tenant'" by metis
  with assms(3) show ?thesis by (simp add: tree_name_def)
qed

context rest_env
begin

lemma oram_over_rest:
  assumes "normalise_base U base_url = Some base" and "healthy d"
    and "content d tree NUM_BUCKETS_KEY \<in> {None, Some (le_bytes 4 (num_buckets p))}"
    and "wf_params p" and "ext_ok X" and "legal p ops Map.empty 0 False"
  shows "\<exists>b c c'. connect None M S U base_url (num_buckets p) d = Inr b \<and>
    oram_new (rest_ops None M S U) X b p k seed = Inr c \<and>
    run_ops (rest_ops None M S U) X ops c = (kv_run p ops Map.empty, c')"
proof -
  obtain b where b: "connect None M S U base_url (num_buckets p) d = Inr b" "rest_start b" "rc_num_buckets b = num_buckets p"
    using connect_ok [OF assms(2,1) num_buckets_less assms(3)] by blast
  then have "be_num_buckets (rest_ops None M S U) b = num_buckets p" by (simp add: rest_ops_def)
  from rest.fresh_history [OF assms(4,5) b(2) this refl assms(6), of k seed] b(1) show ?thesis by blast
qed

lemma compass_over_rest:
  fixes F :: "'f f32_ops" and X :: "'g oram_ext"
  assumes "normalise_base U base_url = Some base" and "healthy d"
    and "content d tree NUM_BUCKETS_KEY \<in> {None, Some (le_bytes 4 (num_buckets (cp_oram p)))}"
    and "ext_ok X" and "compass_wf F p embs" and "heap_order_ok ho"
    and "\<forall>qk \<in> set qs. length (fst qk) = hp_dim (cp_hnsw p)"
  shows "\<exists>b h idx idx'. connect None M S U base_url (num_buckets (cp_oram p)) d = Inr b \<and>
    (hnsw_build F ho draws embs (cp_hnsw p) :: (compass_error, 'f plain_hnsw) outcome) = Inr h \<and>
    from_plaintext_corpus_on (rest_ops None M S U) X F sha256 ho draws embs p b = Inr idx \<and>
    search_all (rest_ops None M S U) X F ho qs idx = (map (\<lambda>(q, k). plain_search F ho (clear_of F p h) h q k) qs, idx')"
proof -
  let ?n = "num_buckets (cp_oram p)"
  obtain b where b: "connect None M S U base_url ?n d = Inr b" "rest_start b" "rc_num_buckets b = ?n"
    using connect_ok [OF assms(2,1) num_buckets_less assms(3)] by blast
  then have n: "be_num_buckets (rest_ops None M S U) b = ?n" by (simp add: rest_ops_def)
  obtain h cx idx where h: "(hnsw_build F ho draws embs (cp_hnsw p) :: (compass_error, 'f plain_hnsw) outcome) = Inr h"
    "plain_for p embs h" "clear_ok F cx h" "cx_params cx = p"
    "from_plaintext_corpus_on (rest_ops None M S U) X F sha256 ho draws embs p b = Inr idx"
    "index_ok (rest_ops None M S U) rest_view rest_inv X F p h cx idx" "idle (cx_oram idx)"
    using rest.corpus_ok [OF assms(4-6) b(2) n] by blast
  from rest.search_all_ok [OF assms(4) h(2) assms(5) h(3,4) assms(6,7) h(6,7)] clear_ok_unique [OF h(3,4)] b(1) h(1,5)
  show ?thesis by blast
qed

end

section \<open>The properties\<close>



text \<open>Errors of the storage server.  A connection for another number of buckets than the tree
  was made for is refused, and a path with a bucket that was never written is answered by
  the 404 that names the first such bucket; neither changes what the database holds.\<close>

theorem rest_server_errors:
  assumes "rest_env M S U healthy content base tenant index" and "normalise_base U base_url = Some base" and "healthy d"
    and "from_slice (mp_read_request M) body = Inr \<lparr>rr_bucket_ids = ids @ j # js\<rparr>"
    and "content d (tree_name tenant index) NUM_BUCKETS_KEY = Some (le_bytes 4 m)" and "m < 2 ^ 32" and "n \<noteq> m"
    and "\<forall>i \<in> set ids. \<exists>raw w. content d (tree_name tenant index) (bucket_key i) = Some raw \<and> from_slice (mp_bucket M) raw = Inr w"
    and "content d (tree_name tenant index) (bucket_key j) = None"
  shows "(\<exists>msg. connect None M S U base_url n d = Inl (Fail msg)) \<and>
    (\<exists>d'. router None M S [ascii ''v1'', tenant, index, ascii ''init''] (projr (to_vec (mp_init M) \<lparr>ir_num_buckets = n\<rparr>)) d =
      (Some (into_response (Codec (ascii ''init mismatch: tree has '' @ show_nat m @ ascii '' buckets, request asks for '' @ show_nat n))), d') \<and>
      content d' = content d) \<and>
    (\<exists>d'. router None M S [ascii ''v1'', tenant, index, ascii ''read_path''] body d = (Some (into_response (MissingBucket j)), d') \<and>
      content d' = content d)"
proof -
  have "of_le_bytes (take 4 (le_bytes 4 m)) = m" using assms(6) by (simp add: of_le_bytes_le_bytes)
  with rest_env.connect_mismatch [OF assms(1,3,2,5), of n] assms(7)
  have 1: "(\<exists>msg. connect None M S U base_url n d = Inl (Fail msg)) \<and>
    (\<exists>d'. router None M S [ascii ''v1'', tenant, index, ascii ''init''] (projr (to_vec (mp_init M) \<lparr>ir_num_buckets = n\<rparr>)) d =
      (Some (into_response (Codec (ascii ''init mismatch: tree has '' @ show_nat m @ ascii '' buckets, request asks for '' @ show_nat n))), d') \<and>
      content d' = content d)" by auto
  have "\<forall>i \<in> set ids. rest_env.stored M content tenant index d i \<noteq> None"
    using assms(8) by (auto simp: rest_env.stored_def [OF assms(1)])
  from rest_env.read_missing [OF assms(1,3) this assms(9,4)] 1 show ?thesis by blast
qed

text \<open>C22: Tenants are isolated.  Whatever request the server gets, of any shape and with any
  outcome, only the tree of the tenant and index it names can change, and tenants whose names
  hold no slash have different trees.\<close>

theorem rest_tenants_isolated:
  assumes "sled_ok S healthy content" and "healthy d" and "47 \<notin> set tenant" and "47 \<notin> set tenant'"
    and "tenant \<noteq> tenant' \<or> index \<noteq> index'"
  shows "content (snd (router limit M S [v, tenant, index, op] body d)) (tree_name tenant' index') =
    content d (tree_name tenant' index')"
  using router_confined [OF assms(1,2), of limit M v tenant index op body] tree_name_inj [OF assms(3,4), of index index'] assms(5)
  by metis

text \<open>A request whose body is over the limit is answered with status 413, and the client
  reports it as an error; nothing reaches the database.\<close>

theorem rest_body_limit:
  assumes "url_join U (rc_base c) (ascii ''write_buckets'') = Some url"
    and "url_segments U url = [ascii ''v1'', tenant, index, ascii ''write_buckets'']" and "tenant \<noteq> []" and "index \<noteq> []"
    and "to_vec (mp_write_request M) \<lparr>wr_buckets = map wire_of_bucket es\<rparr> = Inr body" and "MAX_BODY_BYTES < length body"
  shows "\<exists>msg. rest_write_buckets (Some MAX_BODY_BYTES) M S U es c = (Inl (Fail msg), c)"
proof -
  have op: "ascii ''write_buckets'' \<noteq> ascii ''init''" "ascii ''write_buckets'' \<noteq> ascii ''read_path''" by code_simp+
  show ?thesis using assms op
    by (simp add: rest_write_buckets_def rest_post_def router_def check_status_def eseq_def ebind_def)
qed

text \<open>Two tenants with a slash in a name can share a tree: the segments of a path are decoded
  before they are joined.\<close>

lemma rest_trees_collide:
  "tree_name (ascii ''a/b'') (ascii ''c'') = tree_name (ascii ''a'') (ascii ''b/c'')"
  by code_simp

section \<open>Witnesses\<close>

lemma demo_base_ok: "normalise_base plain_url (ascii ''http://h/v1/alpha/entities/'') = Some demo_base"
  by code_simp



definition demo_db :: "str \<Rightarrow> bytes \<Rightarrow> bytes option" where
  "demo_db = (\<lambda>_. Map.empty)(ascii ''alpha/entities'' := [NUM_BUCKETS_KEY \<mapsto> le_bytes 4 8])"

theorem rest_server_errors_witness:
  "(\<exists>msg. connect None plain_msgpack map_sled plain_url (ascii ''http://h/v1/alpha/entities/'') 9 demo_db = Inl (Fail msg)) \<and>
   (\<exists>d'. router None plain_msgpack map_sled [ascii ''v1'', ascii ''alpha'', ascii ''entities'', ascii ''read_path''] (put_list put_num [3]) demo_db =
     (Some \<lparr>hr_status = 404, hr_body = ascii ''missing bucket 3 (server tree under-populated for tenant/index)''\<rparr>, d'))"
proof -
  have t: "tree_name (ascii ''alpha'') (ascii ''entities'') = ascii ''alpha/entities''" by code_simp
  have k: "bucket_key 3 \<noteq> NUM_BUCKETS_KEY" by code_simp
  have b: "from_slice (mp_read_request plain_msgpack) (put_list put_num [3]) = Inr \<lparr>rr_bucket_ids = [] @ 3 # []\<rparr>" by code_simp
  have e: "into_response (MissingBucket 3) =
      \<lparr>hr_status = 404, hr_body = ascii ''missing bucket 3 (server tree under-populated for tenant/index)''\<rparr>" by code_simp
  from rest_server_errors [OF demo_env.rest_env_axioms demo_base_ok _ b, of demo_db 8 9] show ?thesis
    unfolding t e using k by (auto simp: demo_db_def)
qed

theorem rest_tenants_isolated_witness:
  "snd (router None plain_msgpack map_sled [ascii ''v1'', ascii ''beta'', ascii ''entities'', ascii ''write_buckets'']
      (put_list put_wire [\<lparr>wb_bucket_id = 3, wb_write_counter = 1, wb_ciphertext = [7]\<rparr>]) demo_db)
     (tree_name (ascii ''alpha'') (ascii ''entities'')) = demo_db (tree_name (ascii ''alpha'') (ascii ''entities''))"
proof -
  have s: "47 \<notin> set (ascii ''beta'')" "47 \<notin> set (ascii ''alpha'')" "ascii ''beta'' \<noteq> ascii ''alpha''" by code_simp+
  show ?thesis by (rule rest_tenants_isolated [OF map_sled_ok _ s(1,2)]) (use s(3) in simp_all)
qed

theorem rest_body_limit_witness:
  "\<exists>msg. rest_write_buckets (Some MAX_BODY_BYTES) plain_msgpack map_sled plain_url
      [\<lparr>eb_bucket_id = 0, eb_write_counter = 0, eb_ciphertext = replicate MAX_BODY_BYTES 0\<rparr>]
      \<lparr>rc_base = demo_base, rc_num_buckets = 1, rc_server = demo_db\<rparr> =
    (Inl (Fail msg), \<lparr>rc_base = demo_base, rc_num_buckets = 1, rc_server = demo_db\<rparr>)"
proof -
  let ?es = "[\<lparr>eb_bucket_id = 0, eb_write_counter = 0, eb_ciphertext = replicate MAX_BODY_BYTES 0\<rparr>]"
  let ?body = "put_list put_wire (map wire_of_bucket ?es)"
  have "url_segments plain_url (demo_base @ ascii ''write_buckets'') = [ascii ''v1'', ascii ''alpha'', ascii ''entities'', ascii ''write_buckets'']"
    by code_simp
  moreover have "ascii ''alpha'' \<noteq> []" "ascii ''entities'' \<noteq> []" by code_simp+
  moreover have "to_vec (mp_write_request plain_msgpack) \<lparr>wr_buckets = map wire_of_bucket ?es\<rparr> = Inr ?body"
    by (simp add: plain_msgpack_def wrapped_def plain_codec_def)
  moreover have "MAX_BODY_BYTES < length ?body"
    by (simp add: put_list_def put_wire_def put_num_def wire_of_bucket_def)
  ultimately show ?thesis
    by (intro rest_body_limit [where url = "demo_base @ ascii ''write_buckets''" and tenant = "ascii ''alpha''" and
        index = "ascii ''entities''" and body = ?body]) (simp_all add: plain_url_def)
qed

end
