(* ===== verification/Chunker.thy ===== *)
theory Chunker
  imports Text_Ops
begin

text \<open>
  The text chunker of \<^verbatim>\<open>crates/gelo-chunker/src/lib.rs\<close>.  Positions are byte offsets; sizes in
  tokens are turned into bytes by a multiplication that wraps at 64 bits.  The splitting
  loop runs on fuel: its state is a position, so a run longer than the text has bytes has
  come back to a position it has been at and never ends.
\<close>

record chunker_config =
  chunk_size :: nat
  chunk_overlap :: nat
  min_chunk_size :: nat
  separators :: "str list"

definition default_chunker_config :: chunker_config where
  "default_chunker_config = \<lparr>chunk_size = 1600, chunk_overlap = 100, min_chunk_size = 600,
     separators = [[10, 10], [10], ascii ''. '', ascii ''! '', ascii ''? '', ascii ''; '', ascii '', '', ascii '' '']\<rparr>"

fun floor_down :: "str \<Rightarrow> nat \<Rightarrow> nat" where
  "floor_down s 0 = 0"
| "floor_down s (Suc i) = (if is_char_boundary s (Suc i) then Suc i else floor_down s i)"

definition floor_char_boundary :: "str \<Rightarrow> nat \<Rightarrow> nat" where
  "floor_char_boundary s i = (if length s \<le> i then length s else floor_down s i)"

function ceil_up :: "str \<Rightarrow> nat \<Rightarrow> nat" where
  "ceil_up s i = (if i < length s \<and> \<not> is_char_boundary s i then ceil_up s (Suc i) else i)"
  by auto
termination by (relation "measure (\<lambda>(s, i). length s - i)") auto

declare ceil_up.simps [simp del]

definition ceil_char_boundary :: "str \<Rightarrow> nat \<Rightarrow> nat" where
  "ceil_char_boundary s i = (if length s \<le> i then length s else ceil_up s i)"

text \<open>The first separator found in the last quarter decides.\<close>

fun try_separators :: "str list \<Rightarrow> nat \<Rightarrow> str \<Rightarrow> nat option" where
  "try_separators [] start window = None"
| "try_separators (sep # seps) start window =
     (case rfind_sub sep window of Some pos \<Rightarrow> Some (start + pos + length sep) | None \<Rightarrow> try_separators seps start window)"

definition find_split_point :: "str \<Rightarrow> nat \<Rightarrow> str list \<Rightarrow> ('e, nat) outcome" where
  "find_split_point text target seps =
     (let search_start = floor_char_boundary text (target - target div 4);
          search_end = floor_char_boundary text (min target (length text));
          fallback = floor_char_boundary text (min target (length text)) in
      if search_end \<le> search_start then Inr fallback
      else case seps of
        [] \<Rightarrow> Inr fallback
      | _ \<Rightarrow> rbind (str_slice text search_start search_end) (\<lambda>window.
              case try_separators seps search_start window of Some p \<Rightarrow> Inr p | None \<Rightarrow> Inr fallback))"

fun split_loop :: "nat \<Rightarrow> str \<Rightarrow> nat \<Rightarrow> nat \<Rightarrow> nat \<Rightarrow> str list \<Rightarrow> nat \<Rightarrow> str list \<Rightarrow> ('e, str list) outcome" where
  "split_loop 0 text target overlap min_size seps pos chunks = Inl Hang"
| "split_loop (Suc fuel) text target overlap min_size seps pos chunks =
     (if \<not> pos < length text then Inr chunks
      else
        let pos = ceil_char_boundary text pos in
        rbind (str_slice text pos (length text)) (\<lambda>remaining.
        if length remaining \<le> target then Inr (chunks @ [remaining])
        else
          let end_pos = floor_char_boundary text (pos + target) in
          rbind (str_slice text pos (min end_pos (length text))) (\<lambda>chunk_text.
          rbind (find_split_point chunk_text target seps) (\<lambda>split_point.
          let actual_end = floor_char_boundary text (pos + split_point) in
          rbind (str_slice text pos actual_end) (\<lambda>content.
          let chunks = (if min_size \<le> length content then chunks @ [content] else chunks);
              next = ceil_char_boundary text (actual_end - overlap);
              next = (if actual_end \<le> next then actual_end else next) in
          split_loop fuel text target overlap min_size seps next chunks)))))"

definition split_text :: "str \<Rightarrow> nat \<Rightarrow> nat \<Rightarrow> nat \<Rightarrow> str list \<Rightarrow> ('e, str list) outcome" where
  "split_text text target overlap min_size seps =
     (if length text \<le> target then Inr [text]
      else split_loop (Suc (length text)) text target overlap min_size seps 0 [])"

definition chunk :: "str \<Rightarrow> chunker_config \<Rightarrow> ('e, str list) outcome" where
  "chunk content cfg =
     (if is_blank content then Inr []
      else split_text content (chunk_size cfg * 4 mod 2 ^ 64) (chunk_overlap cfg * 4 mod 2 ^ 64)
        (min_chunk_size cfg * 4 mod 2 ^ 64) (separators cfg))"

section \<open>Boundaries\<close>

lemma floor_down_ok: "floor_down s i \<le> i \<and> (i \<le> length s \<longrightarrow> is_char_boundary s (floor_down s i))"
  by (induction i) auto

lemma floor_down_least: "is_char_boundary s j \<Longrightarrow> j \<le> i \<Longrightarrow> j \<le> floor_down s i"
  by (induction i) (auto simp: le_Suc_eq)

lemma floor_ok:
  "is_char_boundary s (floor_char_boundary s i)" "floor_char_boundary s i \<le> i" "floor_char_boundary s i \<le> length s"
  using floor_down_ok [of s i] boundary_le by (auto simp: floor_char_boundary_def not_le intro: order_trans)

lemma floor_least: "is_char_boundary s j \<Longrightarrow> j \<le> i \<Longrightarrow> j \<le> floor_char_boundary s i"
  using floor_down_least boundary_le by (simp add: floor_char_boundary_def)

lemma floor_near:
  assumes "utf8_valid s" and "i \<le> length s"
  shows "i \<le> floor_char_boundary s i + 3"
proof -
  obtain j where "j \<le> i" "i \<le> j + 3" "is_char_boundary s j" using boundary_near [OF assms] by blast
  with floor_least [of s j i] show ?thesis by simp
qed

lemma ceil_up_ok: "i \<le> length s \<Longrightarrow> i \<le> ceil_up s i \<and> is_char_boundary s (ceil_up s i) \<and>
    (\<forall>j. is_char_boundary s j \<and> i \<le> j \<longrightarrow> ceil_up s i \<le> j)"
proof (induction s i rule: ceil_up.induct)
  case (1 s i)
  show ?case
  proof (cases "i < length s \<and> \<not> is_char_boundary s i")
    case True
    then have "Suc i \<le> length s" by simp
    from 1(1) [OF True this] True show ?thesis
      by (subst (1 2 3) ceil_up.simps) (auto simp: Suc_le_eq le_less)
  next
    case False
    then have "is_char_boundary s i" using 1(2) by (cases "i = length s") auto
    with False show ?thesis by (subst (1 2 3) ceil_up.simps) auto
  qed
qed

lemma ceil_ok:
  assumes "i \<le> length s"
  shows "i \<le> ceil_char_boundary s i" "is_char_boundary s (ceil_char_boundary s i)"
    "is_char_boundary s j \<Longrightarrow> i \<le> j \<Longrightarrow> ceil_char_boundary s i \<le> j"
  using ceil_up_ok [OF assms] assms by (auto simp: ceil_char_boundary_def)

lemma ceil_id: "is_char_boundary s i \<Longrightarrow> ceil_char_boundary s i = i"
  using ceil_ok(1) [of i s] ceil_ok(3) [of i s i] boundary_le [of s i] by simp

section \<open>The split point\<close>

lemma try_separators_bounds: "try_separators seps start window = Some p \<Longrightarrow> start \<le> p \<and> p \<le> start + length window"
  by (induction seps) (auto dest: rfind_sub_Some split: option.splits)

text \<open>It lies in the last quarter of the target, up to one character.\<close>

lemma find_split_point_ok:
  assumes "utf8_valid text" and "length text \<le> target" and "target \<le> length text + 3"
  shows "\<exists>p. (find_split_point text target seps :: ('e, nat) outcome) = Inr p \<and> p \<le> length text \<and> target - target div 4 \<le> p + 3"
proof -
  let ?a = "floor_char_boundary text (target - target div 4)"
  have e: "floor_char_boundary text (min target (length text)) = length text"
    using assms(2) by (simp add: floor_char_boundary_def)
  have a: "target - target div 4 \<le> ?a + 3"
  proof (cases "target - target div 4 \<le> length text")
    case True
    then show ?thesis by (rule floor_near [OF assms(1)])
  next
    case False
    then show ?thesis using assms(3) by (simp add: floor_char_boundary_def)
  qed
  have fallback: "target - target div 4 \<le> length text + 3" using assms(3) by simp
  show ?thesis
  proof (cases "length text \<le> ?a \<or> seps = []")
    case True
    then show ?thesis using fallback e by (auto simp: find_split_point_def Let_def)
  next
    case False
    then obtain sep seps' where seps: "seps = sep # seps'" by (cases seps) auto
    have w: "str_slice text ?a (length text) = (Inr (drop ?a text) :: ('e, str) outcome)"
      using floor_ok [of "text" "target - target div 4"] by (simp add: str_slice_def)
    have fall: "\<exists>p. (find_split_point text target seps :: ('e, nat) outcome) = Inr p \<and> p \<le> length text \<and> target - target div 4 \<le> p + 3"
      if "try_separators seps ?a (drop ?a text) = None"
      using that False e w fallback seps by (simp add: find_split_point_def Let_def)
    show ?thesis
    proof (cases "try_separators seps ?a (drop ?a text)")
      case None
      then show ?thesis by (rule fall)
    next
      case (Some p)
      then have "?a \<le> p" "p \<le> length text"
        using try_separators_bounds [OF Some] floor_ok(3) [of "text" "target - target div 4"] by simp_all
      then show ?thesis using Some False e w a seps by (simp add: find_split_point_def Let_def)
    qed
  qed
qed

section \<open>The loop\<close>

text \<open>Spans that start at \<open>a\<close>, end at \<open>e\<close>, and leave no gap: each starts after the start of the one
  before it and no later than its end.\<close>

fun covers :: "nat \<Rightarrow> nat \<Rightarrow> (nat \<times> nat) list \<Rightarrow> bool" where
  "covers a e [] = False"
| "covers a e [(x, y)] = (x = a \<and> a \<le> y \<and> y = e)"
| "covers a e ((x, y) # (x', y') # spans) = (x = a \<and> a < x' \<and> x' \<le> y \<and> y < e \<and> covers x' e ((x', y') # spans))"

definition span_text :: "str \<Rightarrow> nat \<times> nat \<Rightarrow> str" where
  "span_text s = (\<lambda>(a, b). take (b - a) (drop a s))"

definition span_ok :: "str \<Rightarrow> nat \<Rightarrow> nat \<times> nat \<Rightarrow> bool" where
  "span_ok s target = (\<lambda>(a, b). a \<le> b \<and> b - a \<le> target \<and> is_char_boundary s a \<and> is_char_boundary s b)"

text \<open>A span is dropped only when it is shorter than the minimum and not the last.\<close>

definition kept :: "str \<Rightarrow> nat \<Rightarrow> nat \<times> nat \<Rightarrow> bool" where
  "kept s min_size = (\<lambda>(a, b). min_size \<le> b - a \<or> b = length s)"

lemma covers_Cons: "covers p e spans \<Longrightarrow> a < p \<Longrightarrow> p \<le> y \<Longrightarrow> y < e \<Longrightarrow> covers a e ((a, y) # spans)"
  by (cases spans) (auto, (case_tac list; auto)+)

lemma split_step:
  assumes v: "utf8_valid s" and room: "overlap + 6 < target - target div 4"
    and pos: "is_char_boundary s pos" "pos + target < length s"
  shows "\<exists>y next. is_char_boundary s y \<and> pos < y \<and> y - pos \<le> target \<and> y < length s \<and> is_char_boundary s next \<and> pos < next \<and> next \<le> y \<and>
    (split_loop (Suc fuel) s target overlap min_size seps pos chunks :: ('e, str list) outcome) =
      split_loop fuel s target overlap min_size seps next (if kept s min_size (pos, y) then chunks @ [span_text s (pos, y)] else chunks)"
proof -
  let ?e = "floor_char_boundary s (pos + target)"
  have e: "is_char_boundary s ?e" "?e \<le> pos + target" "?e \<le> length s" "pos \<le> ?e" "pos + target \<le> ?e + 3"
    using floor_ok floor_least [OF pos(1)] floor_near [OF v, of "pos + target"] pos(2) by auto
  let ?t = "take (?e - pos) (drop pos s)"
  have lt: "length ?t = ?e - pos" using e(3) by simp
  have vt: "utf8_valid ?t"
  proof -
    have "is_char_boundary (drop pos s) (?e - pos)"
      using e(1,3,4) pos(1) by (cases "?e = pos") (auto simp: is_char_boundary_def)
    moreover have "utf8_valid (drop pos s)" using valid_split [OF v pos(1)] by simp
    ultimately show ?thesis using valid_split by blast
  qed
  obtain p where p: "(find_split_point ?t target seps :: ('e, nat) outcome) = Inr p" "p \<le> length ?t" "target - target div 4 \<le> p + 3"
  proof -
    have "length ?t \<le> target" "target \<le> length ?t + 3" using e(2,5) lt by linarith+
    from find_split_point_ok [OF vt this] that show thesis by blast
  qed
  let ?y = "floor_char_boundary s (pos + p)"
  have y: "is_char_boundary s ?y" "?y \<le> pos + p" "?y \<le> length s" "pos \<le> ?y" "pos + p \<le> ?y + 3"
  proof -
    have "pos + p \<le> length s" using p(2) lt e(3,4) by linarith
    then show "pos + p \<le> ?y + 3" by (rule floor_near [OF v])
  qed (use floor_ok floor_least [OF pos(1), of "pos + p"] in auto)
  let ?n = "ceil_char_boundary s (?y - overlap)"
  have n: "?y - overlap \<le> ?n" "is_char_boundary s ?n" "?n \<le> ?y"
    using ceil_ok [of "?y - overlap" s] y(1,3) by auto
  have far: "pos < ?y - overlap" using y(5) p(3) room by linarith
  have bounds: "pos < ?y" "?y - pos \<le> target" "?y < length s" using far y(2) p(2) lt e(2) pos(2) by auto
  have long: "\<not> length s - pos \<le> target" using pos(2) by linarith
  have "(str_slice s pos (length s) :: ('e, str) outcome) = Inr (drop pos s)" "length (drop pos s) = length s - pos"
    "(str_slice s pos ?e :: ('e, str) outcome) = Inr ?t"
    "(str_slice s pos ?y :: ('e, str) outcome) = Inr (take (?y - pos) (drop pos s))"
    using pos e y by (simp_all add: str_slice_def)
  then have "(split_loop (Suc fuel) s target overlap min_size seps pos chunks :: ('e, str list) outcome) =
      split_loop fuel s target overlap min_size seps ?n (if kept s min_size (pos, ?y) then chunks @ [span_text s (pos, ?y)] else chunks)"
    using pos p(1) e(3) n(3) bounds long by (simp add: ceil_id Let_def kept_def span_text_def)
  moreover have "pos < ?n" using far n(1) by simp
  ultimately show ?thesis using y(1) n bounds by blast
qed

lemma split_loop_ok:
  assumes v: "utf8_valid s" and room: "overlap + 6 < target - target div 4"
  shows "is_char_boundary s pos \<Longrightarrow> pos < length s \<Longrightarrow> length s - pos < fuel \<Longrightarrow>
    \<exists>spans. covers pos (length s) spans \<and> list_all (span_ok s target) spans \<and>
      (split_loop fuel s target overlap min_size seps pos chunks :: ('e, str list) outcome) =
        Inr (chunks @ map (span_text s) (filter (kept s min_size) spans))"
proof (induction fuel arbitrary: pos chunks)
  case (Suc fuel)
  show ?case
  proof (cases "length s - pos \<le> target")
    case True
    have "(split_loop (Suc fuel) s target overlap min_size seps pos chunks :: ('e, str list) outcome) = Inr (chunks @ [drop pos s])"
      using Suc.prems True by (simp add: ceil_id str_slice_def Let_def)
    then show ?thesis using Suc.prems True
      by (intro exI [of _ "[(pos, length s)]"]) (simp add: span_ok_def kept_def span_text_def)
  next
    case False
    then have "pos + target < length s" by simp
    from split_step [OF v room Suc.prems(1) this] obtain y n where y: "is_char_boundary s y" "pos < y" "y - pos \<le> target" "y < length s"
      "is_char_boundary s n" "pos < n" "n \<le> y" and
      step: "(split_loop (Suc fuel) s target overlap min_size seps pos chunks :: ('e, str list) outcome) =
        split_loop fuel s target overlap min_size seps n (if kept s min_size (pos, y) then chunks @ [span_text s (pos, y)] else chunks)"
      by metis
    have "n < length s" "length s - n < fuel" using y Suc.prems by simp_all
    from Suc.IH [OF y(5) this] obtain spans where sp: "covers n (length s) spans" "list_all (span_ok s target) spans"
      "(split_loop fuel s target overlap min_size seps n (if kept s min_size (pos, y) then chunks @ [span_text s (pos, y)] else chunks)
        :: ('e, str list) outcome) =
        Inr ((if kept s min_size (pos, y) then chunks @ [span_text s (pos, y)] else chunks) @ map (span_text s) (filter (kept s min_size) spans))"
      by blast
    have "covers pos (length s) ((pos, y) # spans)" using covers_Cons [OF sp(1) y(6,7,4)] .
    moreover have "span_ok s target (pos, y)" using y Suc.prems(1) by (simp add: span_ok_def)
    ultimately show ?thesis using sp(2,3) step by (intro exI [of _ "(pos, y) # spans"]) simp
  qed
qed simp

section \<open>Properties\<close>

definition sizes_fit :: "chunker_config \<Rightarrow> bool" where
  "sizes_fit cfg \<longleftrightarrow> chunk_size cfg * 4 < 2 ^ 64 \<and> chunk_overlap cfg * 4 < 2 ^ 64 \<and> min_chunk_size cfg * 4 < 2 ^ 64"


definition demo_cfg :: chunker_config where
  "demo_cfg = \<lparr>chunk_size = 4, chunk_overlap = 1, min_chunk_size = 1, separators = [ascii '' '']\<rparr>"

definition demo_text :: str where
  "demo_text = ascii ''one two three four five six seven eight''"

lemma demo_text_ok: "utf8_valid demo_text" "\<not> is_blank demo_text" "length demo_text = 39"
  by code_simp+


lemma split_loop_stuck:
  assumes "utf8_valid s" and "target \<le> overlap" and "target < length s"
  shows "(split_loop fuel s target overlap min_size seps 0 chunks :: ('e, str list) outcome) = Inl Hang"
proof (induction fuel arbitrary: chunks)
  case (Suc fuel)
  let ?e = "floor_char_boundary s target"
  have e: "is_char_boundary s ?e" "?e \<le> target" "?e \<le> length s" "target \<le> ?e + 3"
    using floor_ok floor_near [OF assms(1), of target] assms(3) by auto
  have "utf8_valid (take ?e s)" using valid_split [OF assms(1) e(1)] by simp
  from find_split_point_ok [OF this, of target seps] obtain p where
    p: "(find_split_point (take ?e s) target seps :: ('e, nat) outcome) = Inr p" "p \<le> ?e" using e by auto
  let ?y = "floor_char_boundary s p"
  have y: "is_char_boundary s ?y" "?y \<le> p" "?y \<le> length s" using floor_ok by auto
  then have "?y - overlap = 0" using p(2) e(2) assms(2) by simp
  moreover have "(str_slice s 0 (length s) :: ('e, str) outcome) = Inr s" "(str_slice s 0 ?e :: ('e, str) outcome) = Inr (take ?e s)"
    "(str_slice s 0 ?y :: ('e, str) outcome) = Inr (take ?y s)" using e y by (simp_all add: str_slice_def)
  ultimately have "\<exists>chunks'. (split_loop (Suc fuel) s target overlap min_size seps 0 chunks :: ('e, str list) outcome) =
      split_loop fuel s target overlap min_size seps 0 chunks'"
    using assms(3) p(1) e(3) by (auto simp: ceil_id Let_def)
  then show ?case using Suc by metis
qed simp

text \<open>C24: When the overlap is at least the chunk size, chunking a text longer than a chunk never
  returns: the loop stays at its first position, and no fuel is enough.\<close>

theorem chunker_overlap_hangs:
  assumes "utf8_valid s" and "\<not> is_blank s" and "sizes_fit cfg" and "chunk_size cfg \<le> chunk_overlap cfg"
    and "4 * chunk_size cfg < length s"
  shows "(chunk s cfg :: ('e, str list) outcome) = Inl Hang \<and>
    (\<forall>fuel. (split_loop fuel s (4 * chunk_size cfg) (4 * chunk_overlap cfg) (4 * min_chunk_size cfg) (separators cfg) 0 []
      :: ('e, str list) outcome) = Inl Hang)"
proof -
  have m: "chunk_size cfg * 4 mod 2 ^ 64 = 4 * chunk_size cfg" "chunk_overlap cfg * 4 mod 2 ^ 64 = 4 * chunk_overlap cfg"
    "min_chunk_size cfg * 4 mod 2 ^ 64 = 4 * min_chunk_size cfg" using assms(3) by (simp_all add: sizes_fit_def)
  have stuck: "(split_loop fuel s (4 * chunk_size cfg) (4 * chunk_overlap cfg) (4 * min_chunk_size cfg) (separators cfg) 0 []
      :: ('e, str list) outcome) = Inl Hang" for fuel
    by (rule split_loop_stuck [OF assms(1) _ assms(5)]) (use assms(4) in simp)
  then show ?thesis
    using assms(2,5) unfolding chunk_def m by (simp add: split_text_def del: split_loop.simps)
qed

theorem chunker_overlap_hangs_witness:
  "(chunk demo_text (demo_cfg\<lparr>chunk_overlap := 4\<rparr>) :: (unit, str list) outcome) = Inl Hang"
  using chunker_overlap_hangs [OF demo_text_ok(1,2), of "demo_cfg\<lparr>chunk_overlap := 4\<rparr>", where 'e = unit] demo_text_ok(3)
  by (simp add: demo_cfg_def sizes_fit_def)

end
