(* ===== verification/Extract_Prompt.thy ===== *)
theory Extract_Prompt
  imports Text_Ops
begin

text \<open>
  The extraction prompt of \<^verbatim>\<open>crates/lightrag-private/src/extract/prompt.rs\<close>: the delimiters of
  the tuple stream and the text handed to the model for one chunk.
\<close>

definition DEFAULT_TUPLE_DELIMITER :: str where
  "DEFAULT_TUPLE_DELIMITER = ascii ''<|>''"

definition DEFAULT_RECORD_DELIMITER :: str where
  "DEFAULT_RECORD_DELIMITER = ascii ''##''"

definition DEFAULT_COMPLETION_DELIMITER :: str where
  "DEFAULT_COMPLETION_DELIMITER = ascii ''<|COMPLETE|>''"

record extraction_prompt =
  xp_entity_types :: "str list"
  xp_tuple_delimiter :: str
  xp_record_delimiter :: str
  xp_completion_delimiter :: str
  xp_language :: str

definition prompt_paper_defaults :: extraction_prompt where
  "prompt_paper_defaults = \<lparr>
     xp_entity_types = [ascii ''organization'', ascii ''person'', ascii ''geo'', ascii ''event'', ascii ''category''],
     xp_tuple_delimiter = DEFAULT_TUPLE_DELIMITER, xp_record_delimiter = DEFAULT_RECORD_DELIMITER,
     xp_completion_delimiter = DEFAULT_COMPLETION_DELIMITER, xp_language = ascii ''English''\<rparr>"

definition with_entity_types :: "str list \<Rightarrow> extraction_prompt \<Rightarrow> extraction_prompt" where
  "with_entity_types types p = p\<lparr>xp_entity_types := types\<rparr>"

definition with_language :: "str \<Rightarrow> extraction_prompt \<Rightarrow> extraction_prompt" where
  "with_language lang p = p\<lparr>xp_language := lang\<rparr>"

text \<open>The worked example inside the prompt.\<close>

definition prompt_example :: "str \<Rightarrow> str \<Rightarrow> str \<Rightarrow> str" where
  "prompt_example tup rec done_mark =
    (let nl = [10]; dq = [34] in
     ascii ''Example:'' @ nl @
     ascii ''Entity_types: organization, person, geo'' @ nl @
     ascii ''Text: Alice met Bob in Paris to discuss the OpenSouce project at Acme Corp.'' @ nl @
     ascii ''######################'' @ nl @
     ascii ''Output:'' @ nl @
     ascii ''('' @ dq @ ascii ''entity'' @ dq @ tup @ ascii ''Alice'' @ tup @ ascii ''person'' @ tup @ ascii ''A person who met Bob in Paris.)'' @ rec @
     ascii ''('' @ dq @ ascii ''entity'' @ dq @ tup @ ascii ''Bob'' @ tup @ ascii ''person'' @ tup @ ascii ''A person Alice met in Paris.)'' @ rec @
     ascii ''('' @ dq @ ascii ''entity'' @ dq @ tup @ ascii ''Paris'' @ tup @ ascii ''geo'' @ tup @ ascii ''A city where Alice and Bob met.)'' @ rec @
     ascii ''('' @ dq @ ascii ''entity'' @ dq @ tup @ ascii ''Acme Corp'' @ tup @ ascii ''organization'' @ tup @ ascii ''A company involved in the OpenSouce project.)'' @ rec @
     ascii ''('' @ dq @ ascii ''relationship'' @ dq @ tup @ ascii ''Alice'' @ tup @ ascii ''Bob'' @ tup @ ascii ''Alice met Bob to discuss a project.'' @ tup @ ascii ''meeting, collaboration'' @ tup @ ascii ''7)'' @ rec @
     ascii ''('' @ dq @ ascii ''relationship'' @ dq @ tup @ ascii ''Alice'' @ tup @ ascii ''Paris'' @ tup @ ascii ''Alice visited Paris for a meeting.'' @ tup @ ascii ''location, visit'' @ tup @ ascii ''5)'' @ rec @
     ascii ''('' @ dq @ ascii ''relationship'' @ dq @ tup @ ascii ''OpenSouce'' @ tup @ ascii ''Acme Corp'' @ tup @ ascii ''The OpenSouce project is associated with Acme Corp.'' @ tup @ ascii ''project, organization'' @ tup @ ascii ''6)'' @ done_mark @ nl)"

definition build_prompt :: "extraction_prompt \<Rightarrow> str \<Rightarrow> str" where
  "build_prompt p chunk_text =
    (let types = join_with (ascii '', '') (xp_entity_types p);
         tup = xp_tuple_delimiter p;
         rec = xp_record_delimiter p;
         done_mark = xp_completion_delimiter p;
         lang = xp_language p;
         nl = [10]; dq = [34]; sq = [39];
         ex = prompt_example tup rec done_mark in
     ascii ''-Goal-'' @ nl @
     ascii ''Given a text document that is potentially relevant to this activity and a list of entity types, identify all entities of those types from the text and all relationships among the identified entities.'' @ nl @
     nl @
     ascii ''-Steps-'' @ nl @
     ascii ''1. Identify all entities. For each identified entity, extract:'' @ nl @
     ascii ''- entity_name: Name of the entity, capitalized as it appears in the text.'' @ nl @
     ascii ''- entity_type: One of: ['' @ types @ ascii '']'' @ nl @
     ascii ''- entity_description: Comprehensive description of the entity'' @ sq @ ascii ''s attributes and activities.'' @ nl @
     ascii ''Format each entity as ('' @ dq @ ascii ''entity'' @ dq @ tup @ ascii ''<entity_name>'' @ tup @ ascii ''<entity_type>'' @ tup @ ascii ''<entity_description>)'' @ nl @
     nl @
     ascii ''2. From the entities identified in step 1, identify all pairs of (source_entity, target_entity) that are *clearly related* in the text.'' @ nl @
     ascii ''For each related pair, extract:'' @ nl @
     ascii ''- source_entity: name of the source entity, as identified in step 1.'' @ nl @
     ascii ''- target_entity: name of the target entity, as identified in step 1.'' @ nl @
     ascii ''- relationship_description: explanation as to why source and target are related.'' @ nl @
     ascii ''- relationship_keywords: comma-separated high-level keywords summarizing the relationship.'' @ nl @
     ascii ''- relationship_strength: integer 1-10, strength of the relationship.'' @ nl @
     ascii ''Format each relationship as ('' @ dq @ ascii ''relationship'' @ dq @ tup @ ascii ''<source_entity>'' @ tup @ ascii ''<target_entity>'' @ tup @ ascii ''<relationship_description>'' @ tup @ ascii ''<relationship_keywords>'' @ tup @ ascii ''<relationship_strength>)'' @ nl @
     nl @
     ascii ''3. Return output in '' @ lang @ ascii '' as a single list of all entities and relationships identified in steps 1 and 2. Use **'' @ rec @ ascii ''** as the list delimiter.'' @ nl @
     nl @
     ascii ''4. When finished, output '' @ done_mark @ nl @
     nl @
     ascii ''-Example-'' @ nl @
     ex @ nl @
     ascii ''-Real Data-'' @ nl @
     ascii ''Entity_types: '' @ types @ nl @
     ascii ''Text: '' @ chunk_text @ nl @
     ascii ''######################'' @ nl @
     ascii ''Output:'' @ nl)"

end
