(* ===== verification/Extract.thy ===== *)
theory Extract
  imports Extract_Prompt Kg_Store
begin

text \<open>
  Knowledge-graph extraction (\<^verbatim>\<open>crates/lightrag-private/src/extract\<close>): the tolerant parser
  of the model's tuple stream (\<^verbatim>\<open>parser.rs\<close>) and the loop over chunks with the merge across
  them (\<^verbatim>\<open>orchestrator.rs\<close>).  The decoder and the embedder are the code's two traits, with
  a state each.  Wall-clock timings and log events are left out.
\<close>

section \<open>Numbers in the stream\<close>

definition is_digit :: "u8 \<Rightarrow> bool" where
  "is_digit b \<longleftrightarrow> in_range 48 57 b"

definition to_lower :: "u8 \<Rightarrow> u8" where
  "to_lower b = (if in_range 65 90 b then b + 32 else b)"

definition strip_sign :: "str \<Rightarrow> str" where
  "strip_sign s = (case s of b # r \<Rightarrow> if b = 43 \<or> b = 45 then r else s | [] \<Rightarrow> [])"

definition f32_number :: "str \<Rightarrow> bool" where
  "f32_number s =
     (let int = takeWhile is_digit s;
          r = dropWhile is_digit s;
          (frac, r) = (case r of [] \<Rightarrow> ([], r)
            | d # t \<Rightarrow> if d = 46 then (takeWhile is_digit t, dropWhile is_digit t) else ([], r)) in
      (int \<noteq> [] \<or> frac \<noteq> []) \<and>
      (case r of [] \<Rightarrow> True
       | e # t \<Rightarrow> to_lower e = 101 \<and> strip_sign t \<noteq> [] \<and> list_all is_digit (strip_sign t)))"

text \<open>What \<open>str::parse::<f32>\<close> accepts; the value it gives is the parameter \<open>pf\<close>.\<close>

definition f32_syntax :: "str \<Rightarrow> bool" where
  "f32_syntax s \<longleftrightarrow>
     map to_lower (strip_sign s) \<in> {ascii ''inf'', ascii ''infinity'', ascii ''nan''} \<or> f32_number (strip_sign s)"

definition parse_f32 :: "(str \<Rightarrow> 'f) \<Rightarrow> str \<Rightarrow> 'f option" where
  "parse_f32 pf s = (if f32_syntax s then Some (pf s) else None)"

section \<open>The tuple-stream parser\<close>

record tuple_config =
  tuple_delimiter :: str
  record_delimiter :: str
  completion_delimiter :: str

definition default_tuple_config :: tuple_config where
  "default_tuple_config = \<lparr>tuple_delimiter = DEFAULT_TUPLE_DELIMITER, record_delimiter = DEFAULT_RECORD_DELIMITER,
     completion_delimiter = DEFAULT_COMPLETION_DELIMITER\<rparr>"

record entity_draft =
  ed_name :: str
  ed_type :: str
  ed_description :: str

record 'f relation_draft =
  rd_src :: str
  rd_tgt :: str
  rd_description :: str
  rd_keywords :: str
  rd_strength :: 'f

record parse_trailer =
  saw_completion :: bool
  malformed_records :: nat

definition strip_outer_parens :: "str \<Rightarrow> str option" where
  "strip_outer_parens s =
     (let s = trim s in
      if \<not> starts_with [40] s \<or> s = [] \<or> last s \<noteq> 41 then None
      else if length s < 2 then None
      else Some (take (length s - 2) (drop 1 s)))"

text \<open>Straight quotes of either kind, or a pair of typographic ones.\<close>

definition quote_pair :: "str \<Rightarrow> str \<Rightarrow> bool" where
  "quote_pair first_char last_char \<longleftrightarrow> (first_char = [34] \<and> last_char = [34]) \<or> (first_char = [39] \<and> last_char = [39]) \<or>
     (first_char = [0xE2, 0x80, 0x9C] \<and> last_char = [0xE2, 0x80, 0x9D])"

definition unquote :: "str \<Rightarrow> str" where
  "unquote s =
     (let s = trim s; cs = chars s in
      if 2 \<le> length cs \<and> quote_pair (cs ! 0) (cs ! (length cs - 1))
      then trim (concat (take (length cs - 2) (drop 1 cs)))
      else s)"

definition parse_entity :: "str list \<Rightarrow> entity_draft option" where
  "parse_entity flds =
     (if length flds < 3 then None
      else
        let name = unquote (flds ! 0);
            entity_type = unquote (flds ! 1);
            description = (if length flds = 3 then unquote (flds ! 2)
              else trim (join_with DEFAULT_TUPLE_DELIMITER (drop 2 flds))) in
        if name = [] then None
        else Some \<lparr>ed_name = name, ed_type = entity_type, ed_description = description\<rparr>)"

definition parse_relationship :: "(str \<Rightarrow> 'f) \<Rightarrow> str list \<Rightarrow> 'f relation_draft option" where
  "parse_relationship pf flds =
     (if length flds < 5 then None
      else
        let src = unquote (flds ! 0);
            tgt = unquote (flds ! 1);
            description = unquote (flds ! 2);
            keywords = unquote (flds ! 3);
            strength_raw = unquote (flds ! 4) in
        case parse_f32 pf strength_raw of
          None \<Rightarrow> None
        | Some strength \<Rightarrow>
            if src = [] \<or> tgt = [] then None
            else Some \<lparr>rd_src = src, rd_tgt = tgt, rd_description = description, rd_keywords = keywords,
                       rd_strength = strength\<rparr>)"

type_synonym 'f parse_state = "entity_draft list \<times> 'f relation_draft list \<times> nat"

definition parse_record :: "(str \<Rightarrow> 'f) \<Rightarrow> tuple_config \<Rightarrow> str \<Rightarrow> 'f parse_state \<Rightarrow> 'f parse_state" where
  "parse_record pf cfg rec = (\<lambda>(es, rs, bad).
     let trimmed = trim rec in
     if trimmed = [] then (es, rs, bad)
     else case strip_outer_parens trimmed of
       None \<Rightarrow> (es, rs, bad + 1)
     | Some inner \<Rightarrow>
         let flds = split_on (tuple_delimiter cfg) inner in
         if flds = [] then (es, rs, bad + 1)
         else
           let kind = unquote (trim (flds ! 0)) in
           if kind = ascii ''entity'' then
             (case parse_entity (drop 1 flds) of Some e \<Rightarrow> (es @ [e], rs, bad) | None \<Rightarrow> (es, rs, bad + 1))
           else if kind = ascii ''relationship'' then
             (case parse_relationship pf (drop 1 flds) of Some r \<Rightarrow> (es, rs @ [r], bad) | None \<Rightarrow> (es, rs, bad + 1))
           else (es, rs, bad + 1))"

definition parse_tuple_stream :: "(str \<Rightarrow> 'f) \<Rightarrow> str \<Rightarrow> tuple_config \<Rightarrow>
    entity_draft list \<times> 'f relation_draft list \<times> parse_trailer" where
  "parse_tuple_stream pf raw cfg =
     (let (stream, saw) = (case find_sub (completion_delimiter cfg) raw of Some i \<Rightarrow> (take i raw, True) | None \<Rightarrow> (raw, False));
          (es, rs, bad) = fold (parse_record pf cfg) (split_on (record_delimiter cfg) stream) ([], [], 0) in
      (es, rs, \<lparr>saw_completion = saw, malformed_records = bad\<rparr>))"

section \<open>Merging drafts across chunks\<close>

record merged_entity =
  me_name :: str
  me_description :: str
  me_source_chunks :: "str list"

record merged_relation =
  mr_src :: str
  mr_tgt :: str
  mr_description :: str
  mr_source_chunks :: "str list"

definition append_description :: "str \<Rightarrow> str \<Rightarrow> str" where
  "append_description old d =
     (if d \<noteq> [] \<and> \<not> contains_sub d old then (if old = [] then d else old @ [10] @ d) else old)"

definition add_source :: "str \<Rightarrow> str list \<Rightarrow> str list" where
  "add_source i srcs = (if i \<in> set srcs then srcs else srcs @ [i])"

definition merge_entity :: "str \<Rightarrow> entity_draft \<Rightarrow> (str \<times> merged_entity) list \<Rightarrow> (str \<times> merged_entity) list" where
  "merge_entity chunk_id d acc =
     (case map_of acc (ed_name d) of
        None \<Rightarrow> bt_put str_le (ed_name d)
          \<lparr>me_name = ed_name d, me_description = ed_description d, me_source_chunks = [chunk_id]\<rparr> acc
      | Some old \<Rightarrow> bt_put str_le (ed_name d)
          (old\<lparr>me_description := append_description (me_description old) (ed_description d),
               me_source_chunks := add_source chunk_id (me_source_chunks old)\<rparr>) acc)"

definition merge_entities :: "str \<Rightarrow> entity_draft list \<Rightarrow> (str \<times> merged_entity) list \<Rightarrow> (str \<times> merged_entity) list" where
  "merge_entities chunk_id drafts acc = fold (merge_entity chunk_id) drafts acc"

definition relation_key :: "'f relation_draft \<Rightarrow> str \<times> str" where
  "relation_key d = (if str_le (rd_src d) (rd_tgt d) then (rd_src d, rd_tgt d) else (rd_tgt d, rd_src d))"

definition merge_relation :: "str \<Rightarrow> 'f relation_draft \<Rightarrow> ((str \<times> str) \<times> merged_relation) list \<Rightarrow>
    ((str \<times> str) \<times> merged_relation) list" where
  "merge_relation chunk_id d acc =
     (let key = relation_key d in
      case map_of acc key of
        None \<Rightarrow> bt_put pair_le key
          \<lparr>mr_src = fst key, mr_tgt = snd key, mr_description = rd_description d, mr_source_chunks = [chunk_id]\<rparr> acc
      | Some old \<Rightarrow> bt_put pair_le key
          (old\<lparr>mr_description := append_description (mr_description old) (rd_description d),
               mr_source_chunks := add_source chunk_id (mr_source_chunks old)\<rparr>) acc)"

definition merge_relations :: "str \<Rightarrow> 'f relation_draft list \<Rightarrow> ((str \<times> str) \<times> merged_relation) list \<Rightarrow>
    ((str \<times> str) \<times> merged_relation) list" where
  "merge_relations chunk_id drafts acc = fold (merge_relation chunk_id) drafts acc"

section \<open>The loop over chunks\<close>

record decoder_output =
  do_text :: str
  do_stopped_on_eos :: bool

text \<open>The trait \<open>ExtractionDecoder\<close> and its default batched method; the trait
  \<open>DescriptionEmbedder\<close>.\<close>

record 'd decoder_ops =
  generate_extraction :: "str \<Rightarrow> nat \<Rightarrow> ('d, string, decoder_output) eff"
  generate_extraction_batched :: "str list \<Rightarrow> nat \<Rightarrow> ('d, string, decoder_output list) eff"

definition default_generate_extraction_batched :: "(str \<Rightarrow> nat \<Rightarrow> ('d, string, decoder_output) eff) \<Rightarrow>
    str list \<Rightarrow> nat \<Rightarrow> ('d, string, decoder_output list) eff" where
  "default_generate_extraction_batched gen prompts max_tokens = emap (\<lambda>p. gen p max_tokens) prompts"

type_synonym ('m, 'f) embedder = "str list \<Rightarrow> ('m, string, 'f list list) eff"

record extraction_config =
  max_tokens_per_chunk :: nat
  extraction_batch_size :: nat
  ec_tuple_config :: tuple_config

definition default_extraction_config :: extraction_config where
  "default_extraction_config = \<lparr>max_tokens_per_chunk = 1024, extraction_batch_size = 8, ec_tuple_config = default_tuple_config\<rparr>"

record chunk_input =
  ci_id :: str
  ci_text :: str

record chunk_counts =
  entities_extracted :: nat
  relations_extracted :: nat
  cc_stopped_on_eos :: bool

record extraction_report =
  chunks_processed :: nat
  chunks_skipped_empty :: nat
  generations_truncated :: nat
  malformed_records_total :: nat
  dropped_dangling_relations_total :: nat
  per_chunk_trailers :: "parse_trailer list"
  chunk_timings :: "chunk_counts list"

definition default_report :: extraction_report where
  "default_report = \<lparr>chunks_processed = 0, chunks_skipped_empty = 0, generations_truncated = 0,
     malformed_records_total = 0, dropped_dangling_relations_total = 0, per_chunk_trailers = [], chunk_timings = []\<rparr>"

datatype extract_error =
    DecoderFailed string
  | DecoderCount nat nat
  | EmbedderFailed string
  | ChunkRows nat nat
  | EntityRows nat nat
  | RelationRows nat nat

record extract_acc =
  xa_entities :: "(str \<times> merged_entity) list"
  xa_relations :: "((str \<times> str) \<times> merged_relation) list"
  xa_report :: extraction_report

text \<open>One decoded chunk: parse, then merge.\<close>

definition absorb_output :: "(str \<Rightarrow> 'f) \<Rightarrow> extraction_config \<Rightarrow> chunk_input \<times> decoder_output \<Rightarrow> extract_acc \<Rightarrow> extract_acc" where
  "absorb_output pf cfg = (\<lambda>(c, out) acc.
     let (es, rs, trailer) = parse_tuple_stream pf (do_text out) (ec_tuple_config cfg);
         r = xa_report acc;
         r = (if do_stopped_on_eos out then r else r\<lparr>generations_truncated := generations_truncated r + 1\<rparr>);
         r = r\<lparr>malformed_records_total := malformed_records_total r + malformed_records trailer,
               per_chunk_trailers := per_chunk_trailers r @ [trailer],
               chunk_timings := chunk_timings r @ [\<lparr>entities_extracted = length es, relations_extracted = length rs,
                 cc_stopped_on_eos = do_stopped_on_eos out\<rparr>],
               chunks_processed := chunks_processed r + 1\<rparr> in
     \<lparr>xa_entities = merge_entities (ci_id c) es (xa_entities acc),
      xa_relations = merge_relations (ci_id c) rs (xa_relations acc), xa_report = r\<rparr>)"

text \<open>One sub-batch; a single prompt goes through the single-prompt method.\<close>

definition run_batch :: "'d decoder_ops \<Rightarrow> (str \<Rightarrow> 'f) \<Rightarrow> extraction_config \<Rightarrow> chunk_input list \<Rightarrow> extract_acc \<Rightarrow>
    ('d, extract_error, extract_acc) eff" where
  "run_batch D pf cfg batch acc =
     (let prompts = map (\<lambda>c. build_prompt prompt_paper_defaults (ci_text c)) batch in
      ebind (if length batch = 1
             then ebind (efail_as DecoderFailed (generate_extraction D (prompts ! 0) (max_tokens_per_chunk cfg))) (\<lambda>out. ereturn [out])
             else efail_as DecoderFailed (generate_extraction_batched D prompts (max_tokens_per_chunk cfg))) (\<lambda>outs.
      if length outs \<noteq> length batch then efault (Fail (DecoderCount (length outs) (length batch)))
      else ereturn (fold (absorb_output pf cfg) (zip batch outs) acc)))"

function extract_loop :: "'d decoder_ops \<Rightarrow> (str \<Rightarrow> 'f) \<Rightarrow> extraction_config \<Rightarrow> chunk_input list \<Rightarrow> extract_acc \<Rightarrow>
    ('d, extract_error, extract_acc) eff" where
  "extract_loop D pf cfg live acc =
     (if live = [] then ereturn acc
      else
        let b = min (length live) (max 1 (extraction_batch_size cfg)) in
        ebind (run_batch D pf cfg (take b live) acc) (\<lambda>acc. extract_loop D pf cfg (drop b live) acc))"
  by auto
termination
  by (relation "measure (\<lambda>(D, pf, cfg, live, acc). length live)") auto

declare extract_loop.simps [simp del]

section \<open>Embedding and assembly\<close>

definition entity_line :: "merged_entity \<Rightarrow> str" where
  "entity_line e = me_name e @ ascii '': '' @ me_description e"

definition relation_line :: "merged_relation \<Rightarrow> str" where
  "relation_line r = mr_src r @ ascii '' -> '' @ mr_tgt r @ ascii '': '' @ mr_description r"

text \<open>An empty batch of descriptions is not embedded.\<close>

definition embed_rows :: "('m, 'f) embedder \<Rightarrow> (nat \<Rightarrow> nat \<Rightarrow> extract_error) \<Rightarrow> bool \<Rightarrow> str list \<Rightarrow>
    ('m, extract_error, 'f list list) eff" where
  "embed_rows emb wrong skip_empty texts =
     (if skip_empty \<and> texts = [] then ereturn []
      else ebind (efail_as EmbedderFailed (emb texts)) (\<lambda>rows.
        if length rows \<noteq> length texts then efault (Fail (wrong (length rows) (length texts))) else ereturn rows))"

definition drop_dangling :: "extract_acc \<Rightarrow> extract_acc" where
  "drop_dangling acc =
     (let names = map fst (xa_entities acc);
          keep = (\<lambda>(k, r). mr_src r \<in> set names \<and> mr_tgt r \<in> set names);
          r = xa_report acc in
      acc\<lparr>xa_relations := filter keep (xa_relations acc),
          xa_report := r\<lparr>dropped_dangling_relations_total :=
            dropped_dangling_relations_total r + length (filter (\<lambda>x. \<not> keep x) (xa_relations acc))\<rparr>\<rparr>)"

definition assemble :: "chunk_input list \<Rightarrow> 'f list list \<Rightarrow> merged_entity list \<Rightarrow> 'f list list \<Rightarrow>
    merged_relation list \<Rightarrow> 'f list list \<Rightarrow> 'f extracted_kg" where
  "assemble live ces es ees rs res = \<lparr>
     kg_chunks = map (\<lambda>(c, emb). \<lparr>ch_id = ci_id c, ch_text = ci_text c, ch_embedding = emb\<rparr>) (zip live ces),
     kg_entities = map (\<lambda>(e, emb). \<lparr>en_name = me_name e, en_description = me_description e, en_embedding = emb,
       en_source_chunks = me_source_chunks e\<rparr>) (zip es ees),
     kg_relations = map (\<lambda>(r, emb). \<lparr>re_src = mr_src r, re_tgt = mr_tgt r, re_description = mr_description r,
       re_embedding = emb, re_source_chunks = mr_source_chunks r\<rparr>) (zip rs res)\<rparr>"

definition extract_kg_from_chunks :: "'d decoder_ops \<Rightarrow> ('m, 'f) embedder \<Rightarrow> (str \<Rightarrow> 'f) \<Rightarrow> chunk_input list \<Rightarrow>
    extraction_config \<Rightarrow> ('d \<times> 'm, extract_error, 'f extracted_kg \<times> extraction_report) eff" where
  "extract_kg_from_chunks D emb pf chunks cfg = (\<lambda>(d, m).
     let live = filter (\<lambda>c. \<not> is_blank (ci_text c)) chunks;
         skipped = length (filter (\<lambda>c. is_blank (ci_text c)) chunks);
         start = \<lparr>xa_entities = [], xa_relations = [], xa_report = default_report\<lparr>chunks_skipped_empty := skipped\<rparr>\<rparr> in
     case extract_loop D pf cfg live start d of
       (Inl e, d') \<Rightarrow> (Inl e, d', m)
     | (Inr acc, d') \<Rightarrow>
         let acc = drop_dangling acc;
             es = map snd (xa_entities acc);
             rs = map snd (xa_relations acc);
             (r, m') = ebind (embed_rows emb ChunkRows False (map ci_text live)) (\<lambda>ces.
               ebind (embed_rows emb EntityRows True (map entity_line es)) (\<lambda>ees.
               ebind (embed_rows emb RelationRows True (map relation_line rs)) (\<lambda>res.
               ereturn (assemble live ces es ees rs res, xa_report acc)))) m in
         (r, d', m'))"

end
