(* ===== verification/Extract_Correct.thy ===== *)
theory Extract_Correct
  imports Extract
begin

text \<open>
  The extraction pipeline: what the merge keeps, the sub-batches against one prompt at a
  time, and the printing of a tuple stream that the parser reads back.
\<close>

section \<open>Records are counted\<close>

lemma parse_record_count:
  "parse_record pf cfg rec (es, rs, bad) = (es', rs', bad') \<Longrightarrow>
    length es' + length rs' + bad' = length es + length rs + bad + (if trim rec = [] then 0 else 1)"
  by (auto simp: parse_record_def Let_def split: if_splits option.splits)

lemma parse_fold_count:
  "fold (parse_record pf cfg) recs (es, rs, bad) = (es', rs', bad') \<Longrightarrow>
    length es' + length rs' + bad' = length es + length rs + bad + length (filter (\<lambda>r. trim r \<noteq> []) recs)"
proof (induction recs arbitrary: es rs bad)
  case (Cons r recs)
  obtain es1 rs1 bad1 where 1: "parse_record pf cfg r (es, rs, bad) = (es1, rs1, bad1)" by (metis prod_cases3)
  with Cons.prems have "fold (parse_record pf cfg) recs (es1, rs1, bad1) = (es', rs', bad')" by simp
  from Cons.IH [OF this] parse_record_count [OF 1] show ?case by simp
qed simp

definition drafts_named :: "entity_draft list \<Rightarrow> 'f relation_draft list \<Rightarrow> bool" where
  "drafts_named es rs \<longleftrightarrow> (\<forall>e \<in> set es. ed_name e \<noteq> []) \<and> (\<forall>r \<in> set rs. rd_src r \<noteq> [] \<and> rd_tgt r \<noteq> [])"

lemma parse_entity_named: "parse_entity flds = Some e \<Longrightarrow> ed_name e \<noteq> []"
  by (auto simp: parse_entity_def Let_def split: if_splits)

lemma parse_relationship_named: "parse_relationship pf flds = Some r \<Longrightarrow> rd_src r \<noteq> [] \<and> rd_tgt r \<noteq> []"
  by (auto simp: parse_relationship_def Let_def split: if_splits option.splits)

lemma parse_record_named:
  "parse_record pf cfg rec (es, rs, bad) = (es', rs', bad') \<Longrightarrow> drafts_named es rs \<Longrightarrow> drafts_named es' rs'"
  by (auto simp: parse_record_def drafts_named_def Let_def split: if_splits option.splits
      dest!: parse_entity_named parse_relationship_named)

lemma parse_fold_named:
  "fold (parse_record pf cfg) recs (es, rs, bad) = (es', rs', bad') \<Longrightarrow> drafts_named es rs \<Longrightarrow> drafts_named es' rs'"
proof (induction recs arbitrary: es rs bad)
  case (Cons r recs)
  obtain es1 rs1 bad1 where 1: "parse_record pf cfg r (es, rs, bad) = (es1, rs1, bad1)" by (metis prod_cases3)
  with Cons.prems(1) have "fold (parse_record pf cfg) recs (es1, rs1, bad1) = (es', rs', bad')" by simp
  from Cons.IH [OF this parse_record_named [OF 1 Cons.prems(2)]] show ?case .
qed simp

lemma parse_named: "parse_tuple_stream pf raw cfg = (es, rs, t) \<Longrightarrow> drafts_named es rs"
  by (auto simp: parse_tuple_stream_def Let_def drafts_named_def split: prod.splits
      dest!: parse_fold_named [where es = "[]" and rs = "[]"])

section \<open>Merging\<close>

definition sources_ok :: "str set \<Rightarrow> str list \<Rightarrow> bool" where
  "sources_ok ids srcs \<longleftrightarrow> srcs \<noteq> [] \<and> distinct srcs \<and> set srcs \<subseteq> ids"

lemma sources_ok_add: "sources_ok ids srcs \<Longrightarrow> i \<in> ids \<Longrightarrow> sources_ok ids (add_source i srcs)"
  by (auto simp: sources_ok_def add_source_def)

definition entities_ok :: "str set \<Rightarrow> (str \<times> merged_entity) list \<Rightarrow> bool" where
  "entities_ok ids m \<longleftrightarrow> bt_sorted str_le m \<and>
     (\<forall>(k, e) \<in> set m. me_name e = k \<and> k \<noteq> [] \<and> sources_ok ids (me_source_chunks e))"

definition relations_ok :: "str set \<Rightarrow> ((str \<times> str) \<times> merged_relation) list \<Rightarrow> bool" where
  "relations_ok ids m \<longleftrightarrow> bt_sorted pair_le m \<and>
     (\<forall>(k, r) \<in> set m. (mr_src r, mr_tgt r) = k \<and> str_le (fst k) (snd k) \<and> fst k \<noteq> [] \<and> snd k \<noteq> [] \<and>
        sources_ok ids (mr_source_chunks r))"

lemmas str_order = str_le_total str_le_trans str_le_antisym
lemmas pair_order = pair_le_total pair_le_trans pair_le_antisym

lemma entities_ok_put:
  assumes "entities_ok ids m" and "me_name e = k" and "k \<noteq> []" and "sources_ok ids (me_source_chunks e)"
  shows "entities_ok ids (bt_put str_le k e m)"
proof -
  have "bt_sorted str_le (bt_put str_le k e m)"
    by (rule bt_sorted_put [OF str_order]) (use assms(1) in \<open>auto simp: entities_ok_def\<close>)
  moreover have "x = (k, e) \<or> x \<in> set m" if "x \<in> set (bt_put str_le k e m)" for x
    using set_bt_put [of str_le k e m] that by blast
  ultimately show ?thesis using assms by (fastforce simp: entities_ok_def)
qed

lemma relations_ok_put:
  assumes "relations_ok ids m" and "(mr_src r, mr_tgt r) = k" and "str_le (fst k) (snd k)" and "fst k \<noteq> []" and "snd k \<noteq> []"
    and "sources_ok ids (mr_source_chunks r)"
  shows "relations_ok ids (bt_put pair_le k r m)"
proof -
  have "bt_sorted pair_le (bt_put pair_le k r m)"
    by (rule bt_sorted_put [OF pair_order]) (use assms(1) in \<open>auto simp: relations_ok_def\<close>)
  moreover have "x = (k, r) \<or> x \<in> set m" if "x \<in> set (bt_put pair_le k r m)" for x
    using set_bt_put [of pair_le k r m] that by blast
  ultimately show ?thesis using assms by (fastforce simp: relations_ok_def)
qed

lemma merge_entity_ok:
  assumes "entities_ok ids m" and "ed_name d \<noteq> []" and "i \<in> ids"
  shows "entities_ok ids (merge_entity i d m)"
proof (cases "map_of m (ed_name d)")
  case None
  then show ?thesis unfolding merge_entity_def using assms
    by (auto intro!: entities_ok_put simp: sources_ok_def)
next
  case (Some old)
  from map_of_SomeD [OF this] have "me_name old = ed_name d" "sources_ok ids (me_source_chunks old)"
    using assms(1) by (auto simp: entities_ok_def)
  then show ?thesis unfolding merge_entity_def using assms Some
    by (auto intro!: entities_ok_put sources_ok_add)
qed

lemma relation_key_ok: "str_le (fst (relation_key d)) (snd (relation_key d))"
  using str_le_total by (auto simp: relation_key_def)

lemma relation_key_nonempty: "rd_src d \<noteq> [] \<Longrightarrow> rd_tgt d \<noteq> [] \<Longrightarrow> fst (relation_key d) \<noteq> [] \<and> snd (relation_key d) \<noteq> []"
  by (simp add: relation_key_def)

lemma merge_relation_ok:
  assumes "relations_ok ids m" and "rd_src d \<noteq> []" and "rd_tgt d \<noteq> []" and "i \<in> ids"
  shows "relations_ok ids (merge_relation i d m)"
proof (cases "map_of m (relation_key d)")
  case None
  then show ?thesis unfolding merge_relation_def Let_def
    using assms relation_key_ok relation_key_nonempty [OF assms(2,3)]
    by (auto intro!: relations_ok_put simp: sources_ok_def)
next
  case (Some old)
  from map_of_SomeD [OF this] have "(mr_src old, mr_tgt old) = relation_key d" "sources_ok ids (mr_source_chunks old)"
    using assms(1) by (auto simp: relations_ok_def)
  then show ?thesis unfolding merge_relation_def Let_def
    using assms Some relation_key_ok relation_key_nonempty [OF assms(2,3)]
    by (auto intro!: relations_ok_put sources_ok_add)
qed

lemma fold_keeps: "(\<And>x a. x \<in> set xs \<Longrightarrow> P a \<Longrightarrow> P (f x a)) \<Longrightarrow> P a \<Longrightarrow> P (fold f xs a)"
  by (induction xs arbitrary: a) auto

lemma absorb_ok:
  assumes "entities_ok ids (xa_entities acc)" and "relations_ok ids (xa_relations acc)" and "ci_id c \<in> ids"
  shows "entities_ok ids (xa_entities (absorb_output pf cfg (c, out) acc))"
    and "relations_ok ids (xa_relations (absorb_output pf cfg (c, out) acc))"
    and "chunks_processed (xa_report (absorb_output pf cfg (c, out) acc)) = Suc (chunks_processed (xa_report acc))"
    and "chunks_skipped_empty (xa_report (absorb_output pf cfg (c, out) acc)) = chunks_skipped_empty (xa_report acc)"
proof -
  obtain es rs t where p: "parse_tuple_stream pf (do_text out) (ec_tuple_config cfg) = (es, rs, t)" by (metis prod_cases3)
  from parse_named [OF this] have n: "\<forall>e \<in> set es. ed_name e \<noteq> []" "\<forall>r \<in> set rs. rd_src r \<noteq> [] \<and> rd_tgt r \<noteq> []"
    by (simp_all add: drafts_named_def)
  show "entities_ok ids (xa_entities (absorb_output pf cfg (c, out) acc))"
    unfolding absorb_output_def merge_entities_def using p assms n(1)
    by (auto simp: Let_def intro!: fold_keeps [where P = "entities_ok ids"] merge_entity_ok)
  show "relations_ok ids (xa_relations (absorb_output pf cfg (c, out) acc))"
    unfolding absorb_output_def merge_relations_def using p assms n(2)
    by (auto simp: Let_def intro!: fold_keeps [where P = "relations_ok ids"] merge_relation_ok)
qed (auto simp: absorb_output_def Let_def split: prod.splits)

definition acc_ok :: "str set \<Rightarrow> nat \<Rightarrow> nat \<Rightarrow> extract_acc \<Rightarrow> bool" where
  "acc_ok ids n skipped acc \<longleftrightarrow> entities_ok ids (xa_entities acc) \<and> relations_ok ids (xa_relations acc) \<and>
     chunks_processed (xa_report acc) = n \<and> chunks_skipped_empty (xa_report acc) = skipped"

lemma fold_absorb_ok:
  "acc_ok ids n skipped acc \<Longrightarrow> \<forall>c \<in> set (map fst cos). ci_id c \<in> ids \<Longrightarrow>
    acc_ok ids (n + length cos) skipped (fold (absorb_output pf cfg) cos acc)"
proof (induction cos arbitrary: acc n)
  case (Cons co cos)
  obtain c out where co: "co = (c, out)" by fastforce
  have "acc_ok ids (Suc n) skipped (absorb_output pf cfg (c, out) acc)"
    using Cons.prems absorb_ok [of ids acc c pf cfg out] co by (simp add: acc_ok_def)
  from Cons.IH [OF this] Cons.prems(2) co show ?case by simp
qed simp

section \<open>The loop\<close>

lemma run_batch_ok:
  assumes "run_batch D pf cfg batch acc d = (Inr acc', d')" and "acc_ok ids n skipped acc" and "\<forall>c \<in> set batch. ci_id c \<in> ids"
  shows "acc_ok ids (n + length batch) skipped acc'"
proof -
  obtain outs where outs: "length outs = length batch" "acc' = fold (absorb_output pf cfg) (zip batch outs) acc"
    using assms(1) by (auto simp: run_batch_def Let_def ebind_def ereturn_def efault_def split: if_splits prod.splits sum.splits)
  then have "\<forall>c \<in> set (map fst (zip batch outs)). ci_id c \<in> ids" using assms(3) by simp
  from fold_absorb_ok [OF assms(2) this] outs show ?thesis by simp
qed

lemma extract_loop_ok:
  "extract_loop D pf cfg live acc d = (Inr acc', d') \<Longrightarrow> acc_ok ids n skipped acc \<Longrightarrow> \<forall>c \<in> set live. ci_id c \<in> ids \<Longrightarrow>
    acc_ok ids (n + length live) skipped acc'"
proof (induction D pf cfg live acc arbitrary: d n rule: extract_loop.induct)
  case (1 D pf cfg live acc)
  show ?case
  proof (cases "live = []")
    case True
    then show ?thesis using 1(2,3) by (simp add: extract_loop.simps ereturn_def)
  next
    case False
    let ?b = "min (length live) (max 1 (extraction_batch_size cfg))"
    obtain acc1 d1 where b: "run_batch D pf cfg (take ?b live) acc d = (Inr acc1, d1)"
      and l: "extract_loop D pf cfg (drop ?b live) acc1 d1 = (Inr acc', d')"
      using 1(2) False by (subst (asm) extract_loop.simps) (auto simp: Let_def ebind_def split: prod.splits sum.splits)
    have "acc_ok ids (n + length (take ?b live)) skipped acc1"
      by (rule run_batch_ok [OF b 1(3)]) (use 1(4) in \<open>meson in_set_takeD\<close>)
    from 1(1) [OF False refl l this] 1(4) have "acc_ok ids (n + length (take ?b live) + length (drop ?b live)) skipped acc'"
      by (meson in_set_dropD)
    then show ?thesis by simp
  qed
qed

text \<open>One prompt after the other.\<close>

definition one_by_one :: "(str \<Rightarrow> nat \<Rightarrow> ('d, string, decoder_output) eff) \<Rightarrow> (str \<Rightarrow> 'f) \<Rightarrow> extraction_config \<Rightarrow> chunk_input list \<Rightarrow>
    extract_acc \<Rightarrow> ('d, extract_error, extract_acc) eff" where
  "one_by_one gen pf cfg live acc =
     ebind (efail_as DecoderFailed (emap (\<lambda>p. gen p (max_tokens_per_chunk cfg))
       (map (\<lambda>c. build_prompt prompt_paper_defaults (ci_text c)) live)))
     (\<lambda>outs. ereturn (fold (absorb_output pf cfg) (zip live outs) acc))"

definition default_decoder :: "(str \<Rightarrow> nat \<Rightarrow> ('d, string, decoder_output) eff) \<Rightarrow> 'd decoder_ops" where
  "default_decoder gen = \<lparr>generate_extraction = gen, generate_extraction_batched = default_generate_extraction_batched gen\<rparr>"

lemma emap_length: "emap f xs s = (Inr ys, s') \<Longrightarrow> length ys = length xs"
proof (induction xs arbitrary: s ys)
  case (Cons x xs)
  then show ?case by (auto simp: ebind_def ereturn_def split: prod.splits sum.splits)
qed (simp add: ereturn_def)

lemma emap_append:
  "emap f (xs @ ys) s = (case emap f xs s of (Inl e, s') \<Rightarrow> (Inl e, s')
    | (Inr as, s') \<Rightarrow> (case emap f ys s' of (Inl e, s'') \<Rightarrow> (Inl e, s'') | (Inr bs, s'') \<Rightarrow> (Inr (as @ bs), s'')))"
proof (induction xs arbitrary: s)
  case Nil
  then show ?case by (simp add: ereturn_def split: prod.splits sum.splits)
next
  case (Cons x xs)
  then show ?case by (simp add: ebind_def ereturn_def split: prod.splits sum.splits)
qed

lemma fail_as_Inl: "fail_as h (Inl e) = Inl (case e of Panic \<Rightarrow> Panic | Hang \<Rightarrow> Hang | Fail x \<Rightarrow> Fail (h x))"
  by (cases e) simp_all

lemma run_batch_one_by_one:
  assumes "batch \<noteq> []"
  shows "run_batch (default_decoder gen) pf cfg batch acc = one_by_one gen pf cfg batch acc"
proof
  fix d
  let ?f = "\<lambda>p. gen p (max_tokens_per_chunk cfg)"
  let ?ps = "map (\<lambda>c. build_prompt prompt_paper_defaults (ci_text c)) batch"
  show "run_batch (default_decoder gen) pf cfg batch acc d = one_by_one gen pf cfg batch acc d"
  proof (cases "length batch = 1")
    case True
    then obtain c where c: "batch = [c]" by (cases batch) auto
    show ?thesis unfolding run_batch_def one_by_one_def default_decoder_def c
      by (auto simp: Let_def ebind_def ereturn_def efail_as_def fail_as_Inl split: prod.splits sum.splits)
  next
    case False
    show ?thesis
    proof (cases "emap ?f ?ps d")
      case (Pair r d')
      show ?thesis
      proof (cases r)
        case (Inl e)
        then show ?thesis using Pair False
          by (simp add: run_batch_def one_by_one_def default_decoder_def default_generate_extraction_batched_def Let_def
              ebind_def efail_as_def fail_as_Inl)
      next
        case (Inr outs)
        then have "length outs = length batch" using emap_length Pair by fastforce
        then show ?thesis using Pair False Inr
          by (simp add: run_batch_def one_by_one_def default_decoder_def default_generate_extraction_batched_def Let_def
              ebind_def efail_as_def)
      qed
    qed
  qed
qed

lemma one_by_one_append:
  "ebind (one_by_one gen pf cfg xs acc) (one_by_one gen pf cfg ys) = one_by_one gen pf cfg (xs @ ys) acc"
proof
  fix d
  let ?f = "\<lambda>p. gen p (max_tokens_per_chunk cfg)"
  let ?ps = "\<lambda>xs. map (\<lambda>c. build_prompt prompt_paper_defaults (ci_text c)) xs"
  obtain r1 d1 where 1: "emap ?f (?ps xs) d = (r1, d1)" by fastforce
  show "ebind (one_by_one gen pf cfg xs acc) (one_by_one gen pf cfg ys) d = one_by_one gen pf cfg (xs @ ys) acc d"
  proof (cases r1)
    case (Inl e)
    then show ?thesis using 1 by (simp add: one_by_one_def ebind_def efail_as_def emap_append fail_as_Inl)
  next
    case (Inr as)
    then have len: "length as = length xs" using emap_length 1 by fastforce
    obtain r2 d2 where 2: "emap ?f (?ps ys) d1 = (r2, d2)" by fastforce
    show ?thesis using 1 2 Inr len
      by (cases r2) (simp_all add: one_by_one_def ebind_def ereturn_def efail_as_def emap_append fail_as_Inl)
  qed
qed

lemma extract_loop_one_by_one:
  "extract_loop (default_decoder gen) pf cfg live acc = one_by_one gen pf cfg live acc"
proof (induction "length live" arbitrary: live acc rule: less_induct)
  case less
  show ?case
  proof (cases "live = []")
    case True
    then show ?thesis
      by (simp add: extract_loop.simps one_by_one_def ebind_def ereturn_def efail_as_def fun_eq_iff)
  next
    case False
    let ?b = "min (length live) (max 1 (extraction_batch_size cfg))"
    have b: "take ?b live \<noteq> []" "length (drop ?b live) < length live" using False by auto
    have "extract_loop (default_decoder gen) pf cfg live acc =
        ebind (run_batch (default_decoder gen) pf cfg (take ?b live) acc) (extract_loop (default_decoder gen) pf cfg (drop ?b live))"
      using False by (subst extract_loop.simps) (simp add: Let_def)
    also have "\<dots> = ebind (one_by_one gen pf cfg (take ?b live) acc) (one_by_one gen pf cfg (drop ?b live))"
    proof -
      have "extract_loop (default_decoder gen) pf cfg (drop ?b live) = one_by_one gen pf cfg (drop ?b live)"
        using less [OF b(2)] by (simp add: fun_eq_iff)
      then show ?thesis by (simp only: run_batch_one_by_one [OF b(1)])
    qed
    also have "\<dots> = one_by_one gen pf cfg live acc" by (simp only: one_by_one_append append_take_drop_id)
    finally show ?thesis .
  qed
qed

end
