(* ===== verification/Extract_Theorems.thy ===== *)
theory Extract_Theorems
  imports Extract_Correct Kg_Theorems
begin

text \<open>
  The properties of the extraction pipeline: the parser against a printer of the stream, its
  account of malformed records, the independence of the batch size, the graph it hands to the
  store, and the retrieval from a graph that was extracted.
\<close>

section \<open>A printer for the tuple stream\<close>

datatype tuple_record = EntityRec str str str | RelationRec str str str str str

definition quoted :: "str \<Rightarrow> str" where
  "quoted s = 34 # s @ [34]"

fun record_fields :: "tuple_record \<Rightarrow> str list" where
  "record_fields (EntityRec n t d) = [quoted (ascii ''entity''), n, t, d]"
| "record_fields (RelationRec a b d k w) = [quoted (ascii ''relationship''), a, b, d, k, w]"

definition render_record :: "tuple_record \<Rightarrow> str" where
  "render_record r = 40 # join_with DEFAULT_TUPLE_DELIMITER (record_fields r) @ [41]"

definition render_stream :: "tuple_record list \<Rightarrow> str" where
  "render_stream recs = join_with DEFAULT_RECORD_DELIMITER (map render_record recs)"

fun entity_of :: "tuple_record \<Rightarrow> entity_draft list" where
  "entity_of (EntityRec n t d) = [\<lparr>ed_name = n, ed_type = t, ed_description = d\<rparr>]"
| "entity_of _ = []"

fun relation_of :: "(str \<Rightarrow> 'f) \<Rightarrow> tuple_record \<Rightarrow> 'f relation_draft list" where
  "relation_of pf (RelationRec a b d k w) =
     [\<lparr>rd_src = a, rd_tgt = b, rd_description = d, rd_keywords = k, rd_strength = pf w\<rparr>]"
| "relation_of pf _ = []"

text \<open>A field without delimiter characters that is its own trimmed and unquoted form.\<close>

definition clean :: "str \<Rightarrow> bool" where
  "clean f \<longleftrightarrow> utf8_valid f \<and> 60 \<notin> set f \<and> 35 \<notin> set f \<and> unquote f = f"

fun record_ok :: "tuple_record \<Rightarrow> bool" where
  "record_ok (EntityRec n t d) \<longleftrightarrow> clean n \<and> clean t \<and> clean d \<and> n \<noteq> []"
| "record_ok (RelationRec a b d k w) \<longleftrightarrow> clean a \<and> clean b \<and> clean d \<and> clean k \<and> clean w \<and> a \<noteq> [] \<and> b \<noteq> [] \<and> f32_syntax w"

section \<open>Finding and splitting\<close>

lemma find_skip: "x \<notin> set f \<Longrightarrow> find_sub (x # p) (f @ r) = map_option (\<lambda>i. length f + i) (find_sub (x # p) r)"
  by (induction f) ((cases "find_sub (x # p) r"; auto simp: starts_with_def)+)

lemma find_here: "find_sub p (p @ r) = Some 0"
  by (cases "p @ r") (auto simp: starts_with_def simp del: append_eq_Cons_conv dest: sym)

lemma split_here: "x \<notin> set f \<Longrightarrow> split_on (x # p) (f @ (x # p) @ r) = f # split_on (x # p) r"
  by (subst split_on.simps) (simp add: find_skip find_here [of "x # p", simplified])

lemma split_none: "x \<notin> set f \<Longrightarrow> split_on (x # p) f = [f]"
  using find_skip [of x f p "[]"] by (subst split_on.simps) simp

lemma split_join: "fs \<noteq> [] \<Longrightarrow> \<forall>f \<in> set fs. x \<notin> set f \<Longrightarrow> split_on (x # p) (join_with (x # p) fs) = fs"
proof (induction fs)
  case (Cons f fs)
  then show ?case
  proof (cases fs)
    case Nil
    then show ?thesis using Cons.prems by (simp add: split_none)
  next
    case (Cons g gs)
    then have "join_with (x # p) (f # fs) = f @ (x # p) @ join_with (x # p) fs" by simp
    then show ?thesis using Cons.IH Cons.prems Cons split_here [of x f p "join_with (x # p) fs"] by simp
  qed
qed simp

lemma set_join: "set (join_with sep fs) \<subseteq> set sep \<union> (\<Union> (set ` set fs))"
  by (induction sep fs rule: join_with.induct) auto

lemma valid_join: "utf8_valid sep \<Longrightarrow> \<forall>f \<in> set fs. utf8_valid f \<Longrightarrow> utf8_valid (join_with sep fs)"
  by (induction sep fs rule: join_with.induct) (simp_all add: utf8_valid_append)

lemma delimiters:
  "DEFAULT_TUPLE_DELIMITER = [60, 124, 62]" "DEFAULT_RECORD_DELIMITER = [35, 35]"
  "DEFAULT_COMPLETION_DELIMITER = [60, 124, 67, 79, 77, 80, 76, 69, 84, 69, 124, 62]"
  by code_simp+

text \<open>Text through which the search for the completion marker passes.\<close>

definition unmarked :: "str \<Rightarrow> bool" where
  "unmarked s \<longleftrightarrow> (\<forall>r. find_sub DEFAULT_COMPLETION_DELIMITER (s @ r) =
     map_option (\<lambda>i. length s + i) (find_sub DEFAULT_COMPLETION_DELIMITER r))"

lemma unmarked_free: "60 \<notin> set s \<Longrightarrow> unmarked s"
  by (simp add: unmarked_def delimiters find_skip)

lemma unmarked_delim: "unmarked [60, 124, 62]"
  by (simp add: unmarked_def delimiters starts_with_def option.map_comp comp_def)

lemma unmarked_append: "unmarked a \<Longrightarrow> unmarked b \<Longrightarrow> unmarked (a @ b)"
  by (simp add: unmarked_def option.map_comp comp_def add.assoc)

lemma unmarked_join: "unmarked sep \<Longrightarrow> \<forall>f \<in> set fs. unmarked f \<Longrightarrow> unmarked (join_with sep fs)"
  by (induction sep fs rule: join_with.induct) (simp_all add: unmarked_append, simp add: unmarked_free)

section \<open>One printed record\<close>

lemma quoted_kinds:
  "unquote (trim (quoted (ascii ''entity''))) = ascii ''entity''"
  "unquote (trim (quoted (ascii ''relationship''))) = ascii ''relationship''"
  "utf8_valid (quoted (ascii ''entity''))" "utf8_valid (quoted (ascii ''relationship''))"
  "60 \<notin> set (quoted (ascii ''entity''))" "60 \<notin> set (quoted (ascii ''relationship''))"
  "35 \<notin> set (quoted (ascii ''entity''))" "35 \<notin> set (quoted (ascii ''relationship''))"
  "ascii ''relationship'' \<noteq> ascii ''entity''"
  by code_simp+

lemma fields_ok: "record_ok r \<Longrightarrow> f \<in> set (record_fields r) \<Longrightarrow> utf8_valid f \<and> 60 \<notin> set f \<and> 35 \<notin> set f"
  using quoted_kinds by (cases r) (auto simp: clean_def)

lemma paren_valid: "utf8_valid (40 # s) = utf8_valid s" "utf8_valid [41]" "chars [41] = [[41]]" "chars (40 # s) = [40] # chars s"
  "\<not> is_white [40]" "\<not> is_white [41]"
  by ((simp add: utf8_tail_def in_range_def)+, code_simp+)

lemma render_record_ok:
  assumes "record_ok r"
  shows "utf8_valid (join_with DEFAULT_TUPLE_DELIMITER (record_fields r))"
    and "trim (render_record r) = render_record r" and "35 \<notin> set (render_record r)" and "unmarked (render_record r)"
proof -
  let ?m = "join_with DEFAULT_TUPLE_DELIMITER (record_fields r)"
  have "utf8_valid DEFAULT_TUPLE_DELIMITER" by code_simp
  then show v: "utf8_valid ?m" using fields_ok [OF assms] by (intro valid_join) auto
  have c: "chars (render_record r) = [40] # chars ?m @ [[41]]"
    using chars_append [OF v, of "[41]"] by (simp add: render_record_def paren_valid del: chars.simps)
  show "trim (render_record r) = render_record r"
    unfolding trim_def c by (simp add: paren_valid concat_chars) (simp add: render_record_def)
  have "set ?m \<subseteq> set DEFAULT_TUPLE_DELIMITER \<union> \<Union> (set ` set (record_fields r))" by (rule set_join)
  then show "35 \<notin> set (render_record r)"
    using fields_ok [OF assms] by (fastforce simp: render_record_def delimiters)
  have "unmarked ?m" unfolding delimiters
    using fields_ok [OF assms] unmarked_delim unmarked_free by (intro unmarked_join) auto
  then have "unmarked ([40] @ ?m @ [41])" by (intro unmarked_append) (simp_all add: unmarked_free)
  then show "unmarked (render_record r)" by (simp add: render_record_def)
qed

lemma parse_printed:
  assumes "record_ok r"
  shows "parse_record pf default_tuple_config (render_record r) (es, rs, bad) = (es @ entity_of r, rs @ relation_of pf r, bad)"
proof -
  let ?m = "join_with DEFAULT_TUPLE_DELIMITER (record_fields r)"
  have strip: "strip_outer_parens (render_record r) = Some ?m"
    unfolding strip_outer_parens_def render_record_ok(2) [OF assms] Let_def
    by (simp add: render_record_def starts_with_def)
  have split: "split_on (tuple_delimiter default_tuple_config) ?m = record_fields r"
    unfolding default_tuple_config_def delimiters using fields_ok [OF assms]
    by (cases r) (simp_all only: tuple_config.simps, (rule split_join; simp)+)
  have ne: "render_record r \<noteq> []" by (simp add: render_record_def)
  show ?thesis
    unfolding parse_record_def prod.case render_record_ok(2) [OF assms] strip Let_def option.case split
    using assms ne
    by (cases r) (simp_all add: quoted_kinds parse_entity_def parse_relationship_def parse_f32_def clean_def)
qed

lemma parse_printed_all:
  "\<forall>r \<in> set recs. record_ok r \<Longrightarrow>
    fold (parse_record pf default_tuple_config) (map render_record recs) (es, rs, bad) =
      (es @ concat (map entity_of recs), rs @ concat (map (relation_of pf) recs), bad)"
  by (induction recs arbitrary: es rs) (simp_all add: parse_printed)

section \<open>The parser\<close>

lemma render_stream_parses:
  assumes "\<forall>r \<in> set recs. record_ok r"
  shows "parse_tuple_stream pf (render_stream recs @ DEFAULT_COMPLETION_DELIMITER @ junk) default_tuple_config =
    (concat (map entity_of recs), concat (map (relation_of pf) recs), \<lparr>saw_completion = True, malformed_records = 0\<rparr>)"
proof -
  have "unmarked (render_stream recs)"
    unfolding render_stream_def delimiters using assms render_record_ok(4)
    by (intro unmarked_join) (auto intro: unmarked_free)
  then have f: "find_sub DEFAULT_COMPLETION_DELIMITER (render_stream recs @ DEFAULT_COMPLETION_DELIMITER @ junk) = Some (length (render_stream recs))"
    by (simp only: unmarked_def find_here) simp
  have s: "fold (parse_record pf default_tuple_config) (split_on DEFAULT_RECORD_DELIMITER (render_stream recs)) ([], [], 0) =
      (concat (map entity_of recs), concat (map (relation_of pf) recs), 0)"
  proof (cases "recs = []")
    case True
    then show ?thesis
      by (simp add: render_stream_def delimiters split_none parse_record_def trim_def)
  next
    case False
    then have "split_on DEFAULT_RECORD_DELIMITER (render_stream recs) = map render_record recs"
      unfolding render_stream_def delimiters using assms render_record_ok(3) by (intro split_join) auto
    then show ?thesis using parse_printed_all [OF assms, of pf "[]" "[]" 0] by simp
  qed
  have cfg: "completion_delimiter default_tuple_config = DEFAULT_COMPLETION_DELIMITER" "record_delimiter default_tuple_config = DEFAULT_RECORD_DELIMITER"
    by (simp_all add: default_tuple_config_def)
  show ?thesis unfolding parse_tuple_stream_def cfg f by (simp add: s)
qed

text \<open>C25: Every stream of entity and relationship records printed with the default delimiters, closed
  by the completion marker and followed by any text at all, is read back: the same drafts in
  the same order, no malformed record.\<close>

theorem tuple_stream_round_trip:
  assumes "\<forall>r \<in> set recs. record_ok r"
  shows "parse_tuple_stream pf (render_stream recs @ DEFAULT_COMPLETION_DELIMITER @ junk) default_tuple_config =
    (concat (map entity_of recs), concat (map (relation_of pf) recs), \<lparr>saw_completion = True, malformed_records = 0\<rparr>)"
  by (rule render_stream_parses [OF assms])

theorem tuple_stream_round_trip_witness:
  "parse_tuple_stream (\<lambda>w. w) (render_stream [EntityRec (ascii ''Alice'') (ascii ''person'') (ascii ''A person.''),
      RelationRec (ascii ''Alice'') (ascii ''Bob'') [] (ascii ''met'') (ascii ''7.5'')] @ DEFAULT_COMPLETION_DELIMITER @ ascii ''(bye'') default_tuple_config =
    ([\<lparr>ed_name = ascii ''Alice'', ed_type = ascii ''person'', ed_description = ascii ''A person.''\<rparr>],
     [\<lparr>rd_src = ascii ''Alice'', rd_tgt = ascii ''Bob'', rd_description = [], rd_keywords = ascii ''met'', rd_strength = ascii ''7.5''\<rparr>],
     \<lparr>saw_completion = True, malformed_records = 0\<rparr>)"
proof -
  have "\<forall>r \<in> set [EntityRec (ascii ''Alice'') (ascii ''person'') (ascii ''A person.''),
      RelationRec (ascii ''Alice'') (ascii ''Bob'') [] (ascii ''met'') (ascii ''7.5'')]. record_ok r" by code_simp
  from tuple_stream_round_trip [OF this, of "\<lambda>w. w" "ascii ''(bye''"] show ?thesis by simp
qed

text \<open>Parsing any text accounts for every record: what is neither blank nor a draft is counted
  as malformed; and no draft has an empty name or endpoint.\<close>

theorem parser_accounts:
  assumes "parse_tuple_stream pf raw cfg = (es, rs, t)"
  shows "length es + length rs + malformed_records t =
      length (filter (\<lambda>r. \<not> is_blank r) (split_on (record_delimiter cfg)
        (case find_sub (completion_delimiter cfg) raw of Some i \<Rightarrow> take i raw | None \<Rightarrow> raw))) \<and>
    (saw_completion t \<longleftrightarrow> contains_sub (completion_delimiter cfg) raw) \<and>
    (\<forall>e \<in> set es. ed_name e \<noteq> []) \<and> (\<forall>r \<in> set rs. rd_src r \<noteq> [] \<and> rd_tgt r \<noteq> [])"
proof -
  let ?s = "case find_sub (completion_delimiter cfg) raw of Some i \<Rightarrow> take i raw | None \<Rightarrow> raw"
  obtain bad where f: "fold (parse_record pf cfg) (split_on (record_delimiter cfg) ?s) ([], [], 0) = (es, rs, bad)"
    and t: "t = \<lparr>saw_completion = contains_sub (completion_delimiter cfg) raw, malformed_records = bad\<rparr>"
    using assms by (cases "find_sub (completion_delimiter cfg) raw")
      (auto simp: parse_tuple_stream_def contains_sub_def Let_def split: prod.splits)
  have "length es + length rs + bad = length (filter (\<lambda>r. \<not> is_blank r) (split_on (record_delimiter cfg) ?s))"
    using parse_fold_count [OF f] by (simp add: is_blank_def)
  then show ?thesis using parse_named [OF assms] t by (simp add: drafts_named_def)
qed

theorem parser_accounts_witness:
  "malformed_records (snd (snd (parse_tuple_stream (\<lambda>w. w) (ascii ''(entity<|>A<|>x<|>y)## ##(entity<|>B'') default_tuple_config))) = 1"
proof -
  let ?raw = "ascii ''(entity<|>A<|>x<|>y)## ##(entity<|>B''"
  obtain es rs t where p: "parse_tuple_stream (\<lambda>w. w) ?raw default_tuple_config = (es, rs, t)" by (metis prod_cases3)
  have n: "length (filter (\<lambda>r. \<not> is_blank r) (split_on (record_delimiter default_tuple_config)
      (case find_sub (completion_delimiter default_tuple_config) ?raw of Some i \<Rightarrow> take i ?raw | None \<Rightarrow> ?raw))) = 2" by code_simp
  have "length (fst (parse_tuple_stream (\<lambda>w. w) ?raw default_tuple_config)) = 1"
    "length (fst (snd (parse_tuple_stream (\<lambda>w. w) ?raw default_tuple_config))) = 0" by code_simp+
  then have "length es = 1" "length rs = 0" by (simp_all only: p fst_conv snd_conv)
  with parser_accounts [OF p] show ?thesis unfolding n p by simp
qed

section \<open>Batches\<close>

text \<open>C26: With the trait's default batched method, the batch size changes nothing: the graph, the
  report, the error if there is one, and the state left in decoder and embedder are the same
  for every batch size, 0 included.\<close>

theorem extraction_batch_independent:
  "extract_kg_from_chunks (default_decoder gen) emb pf chunks (cfg\<lparr>extraction_batch_size := b\<rparr>) =
    extract_kg_from_chunks (default_decoder gen) emb pf chunks cfg"
proof -
  have "one_by_one gen pf (cfg\<lparr>extraction_batch_size := b\<rparr>) cks acc = one_by_one gen pf cfg cks acc" for cks acc
    by (simp add: one_by_one_def absorb_output_def [abs_def])
  then have "extract_loop (default_decoder gen) pf (cfg\<lparr>extraction_batch_size := b\<rparr>) cks acc = extract_loop (default_decoder gen) pf cfg cks acc" for cks acc
    by (simp only: extract_loop_one_by_one)
  then show ?thesis by (simp only: extract_kg_from_chunks_def [abs_def])
qed

section \<open>The extracted graph\<close>

text \<open>What the store's retrieval relies on: names without repetition and in order, relations
  between entities of the graph, and sources among its chunks.\<close>

definition kg_consistent :: "'f extracted_kg \<Rightarrow> bool" where
  "kg_consistent kg \<longleftrightarrow>
     sorted_wrt (\<lambda>a b. str_le a b \<and> a \<noteq> b) (map en_name (kg_entities kg)) \<and>
     sorted_wrt (\<lambda>p q. pair_le p q \<and> p \<noteq> q) (map (\<lambda>r. (re_src r, re_tgt r)) (kg_relations kg)) \<and>
     (\<forall>e \<in> set (kg_entities kg). en_name e \<noteq> [] \<and> sources_ok (ch_id ` set (kg_chunks kg)) (en_source_chunks e)) \<and>
     (\<forall>r \<in> set (kg_relations kg). str_le (re_src r) (re_tgt r) \<and> {re_src r, re_tgt r} \<subseteq> en_name ` set (kg_entities kg) \<and>
        sources_ok (ch_id ` set (kg_chunks kg)) (re_source_chunks r))"

lemma embed_rows_length: "embed_rows emb wrong b texts s = (Inr rows, s') \<Longrightarrow> length rows = length texts"
  by (auto simp: embed_rows_def ebind_def ereturn_def efault_def split: if_splits prod.splits sum.splits)

lemma assemble_fields:
  assumes "length ces = length cks" and "length ees = length es" and "length res = length rs"
  shows "map (\<lambda>c. (ch_id c, ch_text c)) (kg_chunks (assemble cks ces es ees rs res)) = map (\<lambda>c. (ci_id c, ci_text c)) cks"
    and "map (\<lambda>e. (en_name e, en_source_chunks e)) (kg_entities (assemble cks ces es ees rs res)) = map (\<lambda>e. (me_name e, me_source_chunks e)) es"
    and "map (\<lambda>r. ((re_src r, re_tgt r), re_source_chunks r)) (kg_relations (assemble cks ces es ees rs res)) =
      map (\<lambda>r. ((mr_src r, mr_tgt r), mr_source_chunks r)) rs"
  using assms by (auto intro!: nth_equalityI simp: assemble_def)

lemma sorted_wrt_filter: "sorted_wrt P (map f xs) \<Longrightarrow> sorted_wrt P (map f (filter Q xs))"
  by (induction xs) auto

lemma consistent_of_maps:
  assumes E: "entities_ok ids E" and R: "relations_ok ids R"
    and c: "ids = ch_id ` set (kg_chunks kg)"
    and e: "map (\<lambda>e. (en_name e, en_source_chunks e)) (kg_entities kg) = map (\<lambda>e. (me_name e, me_source_chunks e)) (map snd E)"
    and r: "map (\<lambda>r. ((re_src r, re_tgt r), re_source_chunks r)) (kg_relations kg) =
      map (\<lambda>r. ((mr_src r, mr_tgt r), mr_source_chunks r)) (map snd R)"
    and d: "\<forall>(k, r) \<in> set R. mr_src r \<in> set (map fst E) \<and> mr_tgt r \<in> set (map fst E)"
  shows "kg_consistent kg"
proof -
  have keyE: "map (\<lambda>e. me_name e) (map snd E) = map fst E" using E by (auto simp: entities_ok_def)
  have keyR: "map (\<lambda>r. (mr_src r, mr_tgt r)) (map snd R) = map fst R" using R by (auto simp: relations_ok_def)
  have names: "map en_name (kg_entities kg) = map fst E"
    using arg_cong [OF e, of "map fst"] keyE by (simp add: comp_def)
  have pairs: "map (\<lambda>r. (re_src r, re_tgt r)) (kg_relations kg) = map fst R"
    using arg_cong [OF r, of "map fst"] keyR by (simp add: comp_def)
  have "en_name x \<noteq> [] \<and> sources_ok ids (en_source_chunks x)" if "x \<in> set (kg_entities kg)" for x
  proof -
    have "(en_name x, en_source_chunks x) \<in> set (map (\<lambda>e. (me_name e, me_source_chunks e)) (map snd E))"
      unfolding e [symmetric] using that by auto
    then show ?thesis using E by (auto simp: entities_ok_def)
  qed
  moreover have "str_le (re_src x) (re_tgt x) \<and> {re_src x, re_tgt x} \<subseteq> en_name ` set (kg_entities kg) \<and> sources_ok ids (re_source_chunks x)"
    if "x \<in> set (kg_relations kg)" for x
  proof -
    have "((re_src x, re_tgt x), re_source_chunks x) \<in> set (map (\<lambda>r. ((mr_src r, mr_tgt r), mr_source_chunks r)) (map snd R))"
      unfolding r [symmetric] using that by auto
    then obtain k m where m: "(k, m) \<in> set R" "re_src x = mr_src m" "re_tgt x = mr_tgt m" "re_source_chunks x = mr_source_chunks m" by auto
    then have "str_le (mr_src m) (mr_tgt m)" "sources_ok ids (mr_source_chunks m)" using R by (auto simp: relations_ok_def)
    moreover have "{mr_src m, mr_tgt m} \<subseteq> set (map fst E)" using d m(1) by auto
    moreover have "set (map fst E) = en_name ` set (kg_entities kg)" by (simp only: names [symmetric] set_map)
    ultimately show ?thesis using m by simp
  qed
  ultimately show ?thesis
    using E R by (simp add: kg_consistent_def names pairs c entities_ok_def relations_ok_def bt_sorted_def)
qed

lemma extraction_facts:
  assumes "extract_kg_from_chunks D emb pf chunks cfg s = (Inr (kg, report), s')"
  shows "kg_consistent kg \<and>
    map (\<lambda>c. (ch_id c, ch_text c)) (kg_chunks kg) = map (\<lambda>c. (ci_id c, ci_text c)) (filter (\<lambda>c. \<not> is_blank (ci_text c)) chunks) \<and>
    chunks_processed report + chunks_skipped_empty report = length chunks"
proof -
  let ?cks = "filter (\<lambda>c. \<not> is_blank (ci_text c)) chunks"
  let ?skipped = "length (filter (\<lambda>c. is_blank (ci_text c)) chunks)"
  let ?start = "\<lparr>xa_entities = [], xa_relations = [], xa_report = default_report\<lparr>chunks_skipped_empty := ?skipped\<rparr>\<rparr>"
  obtain d m where s: "s = (d, m)" by fastforce
  obtain acc d1 where l: "extract_loop D pf cfg ?cks ?start d = (Inr acc, d1)"
    using assms by (auto simp: extract_kg_from_chunks_def s Let_def split: prod.splits sum.splits)
  let ?a = "drop_dangling acc"
  let ?es = "map snd (xa_entities ?a)" and ?rs = "map snd (xa_relations ?a)"
  obtain ces m1 ees m2 res m3 where c: "embed_rows emb ChunkRows False (map ci_text ?cks) m = (Inr ces, m1)"
    and e: "embed_rows emb EntityRows True (map entity_line ?es) m1 = (Inr ees, m2)"
    and r: "embed_rows emb RelationRows True (map relation_line ?rs) m2 = (Inr res, m3)"
    and kg: "kg = assemble ?cks ces ?es ees ?rs res" and rep: "report = xa_report ?a"
    using assms l by (auto simp: extract_kg_from_chunks_def s Let_def ebind_def ereturn_def split: prod.splits sum.splits)
  have len: "length ces = length ?cks" "length ees = length ?es" "length res = length ?rs"
    using embed_rows_length [OF c] embed_rows_length [OF e] embed_rows_length [OF r] by simp_all
  note fields = assemble_fields [OF len]
  have "acc_ok (ci_id ` set ?cks) (0 + length ?cks) ?skipped acc"
    by (rule extract_loop_ok [OF l]) (auto simp: acc_ok_def default_report_def entities_ok_def relations_ok_def bt_sorted_def)
  then have A: "entities_ok (ci_id ` set ?cks) (xa_entities acc)" "relations_ok (ci_id ` set ?cks) (xa_relations acc)"
    "chunks_processed (xa_report acc) = length ?cks" "chunks_skipped_empty (xa_report acc) = ?skipped"
    by (simp_all add: acc_ok_def)
  have E: "entities_ok (ci_id ` set ?cks) (xa_entities ?a)" using A(1) by (simp add: drop_dangling_def Let_def)
  have R: "relations_ok (ci_id ` set ?cks) (xa_relations ?a)"
    using A(2) sorted_wrt_filter by (auto simp: drop_dangling_def Let_def relations_ok_def bt_sorted_def)
  have dang: "\<forall>(k, r) \<in> set (xa_relations ?a). mr_src r \<in> set (map fst (xa_entities ?a)) \<and> mr_tgt r \<in> set (map fst (xa_entities ?a))"
    by (auto simp: drop_dangling_def Let_def)
  have chunks: "map (\<lambda>c. (ch_id c, ch_text c)) (kg_chunks kg) = map (\<lambda>c. (ci_id c, ci_text c)) ?cks" unfolding kg by (rule fields(1))
  have ids: "ci_id ` set ?cks = ch_id ` set (kg_chunks kg)"
    using arg_cong [OF chunks, of "\<lambda>xs. fst ` set xs"] by (simp only: set_map image_image fst_conv)
  have "kg_consistent kg"
    by (rule consistent_of_maps [OF E R ids]) (use fields(2,3) dang in \<open>simp_all add: kg\<close>)
  moreover have "chunks_processed report + chunks_skipped_empty report = length chunks"
    using A(3,4) sum_length_filter_compl [of "\<lambda>c. is_blank (ci_text c)" chunks] by (simp add: rep drop_dangling_def Let_def)
  ultimately show ?thesis using chunks by blast
qed

text \<open>C27: Whatever the decoder and the embedder return, an extraction that succeeds gives the chunks
  that are not blank, in order, and a consistent graph: entity names and unordered relation
  pairs without repetition, every relation between two of its entities, every source one of
  its chunks; and every input chunk is either processed or counted as skipped.\<close>

theorem extraction_consistent:
  assumes "extract_kg_from_chunks D emb pf chunks cfg s = (Inr (kg, report), s')"
  shows "kg_consistent kg \<and>
    map (\<lambda>c. (ch_id c, ch_text c)) (kg_chunks kg) = map (\<lambda>c. (ci_id c, ci_text c)) (filter (\<lambda>c. \<not> is_blank (ci_text c)) chunks) \<and>
    chunks_processed report + chunks_skipped_empty report = length chunks"
  by (rule extraction_facts [OF assms])

section \<open>A demonstration run\<close>

definition demo_records :: "tuple_record list" where
  "demo_records = [EntityRec (ascii ''A'') (ascii ''x'') (ascii ''y''), EntityRec (ascii ''B'') (ascii ''x'') (ascii ''z''),
     RelationRec (ascii ''B'') (ascii ''A'') (ascii ''d'') (ascii ''k'') (ascii ''7''),
     RelationRec (ascii ''B'') (ascii ''C'') (ascii ''d'') (ascii ''k'') (ascii ''7'')]"

definition demo_gen :: "str \<Rightarrow> nat \<Rightarrow> (unit, string, decoder_output) eff" where
  "demo_gen p n = ereturn \<lparr>do_text = render_stream demo_records @ DEFAULT_COMPLETION_DELIMITER @ [], do_stopped_on_eos = True\<rparr>"

definition demo_embed :: "(unit, u32) embedder" where
  "demo_embed texts = ereturn (map (\<lambda>t. [7]) texts)"

definition demo_inputs :: "chunk_input list" where
  "demo_inputs = [\<lparr>ci_id = ascii ''c1'', ci_text = ascii ''B met A''\<rparr>, \<lparr>ci_id = ascii ''c2'', ci_text = ascii '' ''\<rparr>]"

definition demo_extracted :: "u32 extracted_kg" where
  "demo_extracted = \<lparr>
     kg_chunks = [\<lparr>ch_id = ascii ''c1'', ch_text = ascii ''B met A'', ch_embedding = [7]\<rparr>],
     kg_entities = [\<lparr>en_name = ascii ''A'', en_description = ascii ''y'', en_embedding = [7], en_source_chunks = [ascii ''c1'']\<rparr>,
                    \<lparr>en_name = ascii ''B'', en_description = ascii ''z'', en_embedding = [7], en_source_chunks = [ascii ''c1'']\<rparr>],
     kg_relations = [\<lparr>re_src = ascii ''A'', re_tgt = ascii ''B'', re_description = ascii ''d'', re_embedding = [7],
                      re_source_chunks = [ascii ''c1'']\<rparr>]\<rparr>"

lemma demo_blank: "is_blank (ascii '' '')" "\<not> is_blank (ascii ''B met A'')"
  by code_simp+

lemma demo_parse:
  "parse_tuple_stream (\<lambda>w. 0 :: u32) (render_stream demo_records @ DEFAULT_COMPLETION_DELIMITER @ []) default_tuple_config =
    ([\<lparr>ed_name = ascii ''A'', ed_type = ascii ''x'', ed_description = ascii ''y''\<rparr>, \<lparr>ed_name = ascii ''B'', ed_type = ascii ''x'', ed_description = ascii ''z''\<rparr>],
     [\<lparr>rd_src = ascii ''B'', rd_tgt = ascii ''A'', rd_description = ascii ''d'', rd_keywords = ascii ''k'', rd_strength = 0\<rparr>,
      \<lparr>rd_src = ascii ''B'', rd_tgt = ascii ''C'', rd_description = ascii ''d'', rd_keywords = ascii ''k'', rd_strength = 0\<rparr>],
     \<lparr>saw_completion = True, malformed_records = 0\<rparr>)"
proof -
  have "\<forall>r \<in> set demo_records. record_ok r" by code_simp
  then show ?thesis by (subst render_stream_parses) (simp_all add: demo_records_def)
qed

lemma demo_merged:
  "merge_entities (ascii ''c1'') [\<lparr>ed_name = ascii ''A'', ed_type = ascii ''x'', ed_description = ascii ''y''\<rparr>,
      \<lparr>ed_name = ascii ''B'', ed_type = ascii ''x'', ed_description = ascii ''z''\<rparr>] [] =
    [(ascii ''A'', \<lparr>me_name = ascii ''A'', me_description = ascii ''y'', me_source_chunks = [ascii ''c1'']\<rparr>),
     (ascii ''B'', \<lparr>me_name = ascii ''B'', me_description = ascii ''z'', me_source_chunks = [ascii ''c1'']\<rparr>)]"
  "merge_relations (ascii ''c1'') [\<lparr>rd_src = ascii ''B'', rd_tgt = ascii ''A'', rd_description = ascii ''d'', rd_keywords = ascii ''k'', rd_strength = 0 :: u32\<rparr>,
      \<lparr>rd_src = ascii ''B'', rd_tgt = ascii ''C'', rd_description = ascii ''d'', rd_keywords = ascii ''k'', rd_strength = 0\<rparr>] [] =
    [((ascii ''A'', ascii ''B''), \<lparr>mr_src = ascii ''A'', mr_tgt = ascii ''B'', mr_description = ascii ''d'', mr_source_chunks = [ascii ''c1'']\<rparr>),
     ((ascii ''B'', ascii ''C''), \<lparr>mr_src = ascii ''B'', mr_tgt = ascii ''C'', mr_description = ascii ''d'', mr_source_chunks = [ascii ''c1'']\<rparr>)]"
  by code_simp+

lemma demo_extract:
  "\<exists>report. extract_kg_from_chunks (default_decoder demo_gen) demo_embed (\<lambda>w. 0) demo_inputs default_extraction_config ((), ()) =
    (Inr (demo_extracted, report), ((), ())) \<and> dropped_dangling_relations_total report = 1"
proof -
  have l: "filter (\<lambda>c. \<not> is_blank (ci_text c)) demo_inputs = [\<lparr>ci_id = ascii ''c1'', ci_text = ascii ''B met A''\<rparr>]"
    "length (filter (\<lambda>c. is_blank (ci_text c)) demo_inputs) = 1"
    by (simp_all add: demo_inputs_def demo_blank)
  have ne: "ascii ''C'' \<noteq> ascii ''A''" "ascii ''C'' \<noteq> ascii ''B''" by code_simp+
  show ?thesis
    unfolding extract_kg_from_chunks_def prod.case l extract_loop_one_by_one
    using ne by (simp add: one_by_one_def demo_gen_def ebind_def ereturn_def efail_as_def absorb_output_def
        default_extraction_config_def demo_parse [simplified] demo_merged Let_def drop_dangling_def embed_rows_def demo_embed_def
        assemble_def demo_extracted_def default_report_def)
qed

theorem extraction_consistent_witness:
  "kg_consistent demo_extracted \<and> length (kg_relations demo_extracted) = 1"
proof -
  obtain report where e: "extract_kg_from_chunks (default_decoder demo_gen) demo_embed (\<lambda>w. 0) demo_inputs default_extraction_config ((), ()) =
    (Inr (demo_extracted, report), ((), ()))" using demo_extract by blast
  show ?thesis using extraction_consistent [OF e] by (simp add: demo_extracted_def)
qed

section \<open>From text to retrieval\<close>

lemma text_of_source:
  assumes "i \<in> ch_id ` set (kg_chunks kg)"
  shows "\<exists>c \<in> set (kg_chunks kg). ch_id c = i \<and> text_of kg i = Some (ch_text c)"
proof -
  have "List.find (\<lambda>c. ch_id c = i) (rev (kg_chunks kg)) \<noteq> None" using assms by (auto simp: find_None_iff)
  then obtain c where "List.find (\<lambda>c. ch_id c = i) (rev (kg_chunks kg)) = Some c" by blast
  with find_SomeD [OF this] show ?thesis by (auto simp: text_of_def collect_map_def rev_map map_of_pair)
qed

lemma rmap_texts:
  assumes "set ids \<subseteq> ch_id ` set (kg_chunks kg)"
  shows "\<exists>ts. rmap (\<lambda>i. rbind (text_result kg i) (\<lambda>t. Inr (i, t))) ids = Inr ts \<and>
    (\<forall>(i, t) \<in> set ts. \<exists>c \<in> set (kg_chunks kg). ch_id c = i \<and> ch_text c = t)"
  using assms
proof (induction ids)
  case (Cons i ids)
  then obtain ts c where "rmap (\<lambda>i. rbind (text_result kg i) (\<lambda>t. Inr (i, t))) ids = Inr ts"
    "\<forall>(i, t) \<in> set ts. \<exists>c \<in> set (kg_chunks kg). ch_id c = i \<and> ch_text c = t"
    "c \<in> set (kg_chunks kg)" "ch_id c = i" "text_of kg i = Some (ch_text c)"
    using text_of_source [of i kg] by auto
  then show ?case by (auto simp: text_result_def)
qed simp

lemma plain_query_consistent:
  fixes K :: "('g, 'f) kg_ext"
  assumes wf: "kg_wf K kg p keys" and con: "kg_consistent kg"
    and he: "built_with K (lk_entities p) (map en_embedding (kg_entities kg)) he"
    and hr: "built_with K (lk_relations p) (map re_embedding (kg_relations kg)) hr"
    and s: "kg_state K kg p he hr s" and q: "right_dim p (ll, hl, qp)"
  shows "\<exists>ctx. plain_query K kg p he hr ll hl qp = Inr ctx \<and>
    (\<forall>(i, t) \<in> set (kc_chunks ctx). \<exists>c \<in> set (kg_chunks kg). ch_id c = i \<and> ch_text c = t)"
proof -
  let ?F = "kx_f32 K" and ?ho = "kx_heap_order K"
  have find: "\<exists>ids. plain_search ?F ?ho (clear_of ?F cp h) h v k = Inr ids"
    if "compass_wf ?F cp embs" "built_with K cp embs h" "length v = hp_dim (cp_hnsw cp)"
      "index_ok mem_ops mem_view mem_inv (kx_oram K) ?F cp h (clear_of ?F cp h) i" for cp embs h v k i
  proof -
    have w: "ext_ok (kx_oram K)" "heap_order_ok ?ho" using wf by (simp_all add: kg_wf_def)
    have b: "plain_for cp embs h" "clear_ok ?F (clear_of ?F cp h) h" using that(2) by (simp_all add: built_with_def)
    have c: "cx_params (clear_of ?F cp h) = cp" by (simp add: clear_of_def)
    show ?thesis using mem.search_ok [OF w(1) b(1) that(1) c b(2) w(2) that(3,4), of k] by blast
  qed
  obtain ids where e: "plain_search ?F ?ho (clear_of ?F (lk_entities p) he) he ll (top_k_entities qp) = Inr ids"
  proof -
    have "compass_wf ?F (lk_entities p) (map en_embedding (kg_entities kg))" using wf by (simp add: kg_wf_def)
    moreover have "length ll = hp_dim (cp_hnsw (lk_entities p))" using q by (simp add: right_dim_def)
    moreover have "index_ok mem_ops mem_view mem_inv (kx_oram K) ?F (lk_entities p) he (clear_of ?F (lk_entities p) he) (ks_entities s)"
      using s by (simp add: kg_state_def)
    ultimately show thesis using find [OF _ he, of ll "ks_entities s" "top_k_entities qp"] that by blast
  qed
  obtain rids where r: "(case qp_shape qp of Local \<Rightarrow> Inr [] | Hybrid \<Rightarrow>
      fail_as KgCompass (plain_search ?F ?ho (clear_of ?F (lk_relations p) hr) hr hl (top_k_relations qp))) = (Inr rids :: (kg_error, nat list) outcome)"
  proof (cases "qp_shape qp")
    case Hybrid
    have "compass_wf ?F (lk_relations p) (map re_embedding (kg_relations kg))" using wf by (simp add: kg_wf_def)
    moreover have "length hl = hp_dim (cp_hnsw (lk_relations p))" using q Hybrid by (simp add: right_dim_def)
    moreover have "index_ok mem_ops mem_view mem_inv (kx_oram K) ?F (lk_relations p) hr (clear_of ?F (lk_relations p) hr) (ks_relations s)"
      using s by (simp add: kg_state_def)
    ultimately obtain rids where "plain_search ?F ?ho (clear_of ?F (lk_relations p) hr) hr hl (top_k_relations qp) = Inr rids"
      using find [OF _ hr, of hl "ks_relations s" "top_k_relations qp"] by blast
    then show ?thesis using Hybrid that by simp
  qed (use that in simp)
  let ?names = "retain_first (List.map_filter (last_with en_name (kg_entities kg)) ids @ concat (map (endpoints kg) rids))"
  let ?cids = "retain_first (concat (map (\<lambda>n. take (top_k_chunks_per_entity qp) (sources p kg n)) ?names))"
  have "set (sources p kg n) \<subseteq> ch_id ` set (kg_chunks kg)" for n
  proof -
    have "set (sources p kg n) \<subseteq> (\<Union>e \<in> set (kg_entities kg). set (en_source_chunks e))"
      using set_take_subset by (fastforce simp: sources_def)
    also have "\<dots> \<subseteq> ch_id ` set (kg_chunks kg)" using con by (auto simp: kg_consistent_def sources_ok_def)
    finally show ?thesis .
  qed
  then have "set ?cids \<subseteq> ch_id ` set (kg_chunks kg)" using set_take_subset by fastforce
  from rmap_texts [OF this] obtain ts where
    "(rmap (\<lambda>i. rbind (text_result kg i) (\<lambda>t. Inr (i, t))) ?cids) = Inr ts"
    "\<forall>(i, t) \<in> set ts. \<exists>c \<in> set (kg_chunks kg). ch_id c = i \<and> ch_text c = t" by blast
  then show ?thesis using e r by (simp add: plain_query_def Let_def)
qed

lemma map_all_Inr:
  "(\<And>q. q \<in> set qs \<Longrightarrow> \<exists>y. f q = Inr y \<and> P y) \<Longrightarrow> \<exists>ys. map f qs = map Inr ys \<and> (\<forall>y \<in> set ys. P y)"
proof (induction qs)
  case (Cons q qs)
  then obtain y ys where "f q = Inr y" "P y" "map f qs = map Inr ys" "\<forall>y \<in> set ys. P y" by (meson list.set_intros)
  then show ?case by (intro exI [of _ "y # ys"]) simp
qed simp


lemma demo_extracted_wf: "kg_wf demo_kg_ext demo_extracted demo_kg_params demo_kg_keys"
proof -
  have c: "compass_wf demo_f32 demo_compass (map en_embedding (kg_entities demo_extracted))"
    "compass_wf demo_f32 demo_compass (map re_embedding (kg_relations demo_extracted))"
    "compass_wf demo_f32 demo_compass (map ch_embedding (kg_chunks demo_extracted))"
    by (intro demo_compass_ok; simp add: demo_extracted_def)+
  have n: "kg_names demo_extracted = kg_names demo_kg"
    unfolding demo_names by (auto simp: kg_names_def demo_extracted_def)
  have t: "\<forall>c \<in> set (kg_chunks demo_extracted). ct_seal demo_chunk_ext k (derive_nonce demo_chunk_ext (ch_id c)) (ch_text c) \<noteq> None \<and> utf8_valid (ch_text c)"
    "\<forall>r \<in> set (kg_relations demo_extracted). text_ok (re_src r) \<and> text_ok (re_tgt r) \<and> length (canonical_key r) \<le> 4"
    "\<forall>e \<in> set (kg_entities demo_extracted). \<forall>c \<in> set (en_source_chunks e). text_ok c \<and> length c \<le> 4" for k
    by code_simp+
  show ?thesis
    using demo_ext_ok heap_order_id xm_demo(1) demo_chunk_ext_ok demo_hmac_ok c t
    unfolding kg_wf_def n by (simp add: demo_kg_ext_def demo_kg_params_def xm_wf_def map_order_ok_def)
qed


end
