(* ===== verification/Attest.thy ===== *)
theory Attest
  imports Keying
begin

text \<open>
  SEV-SNP attestation: \<^verbatim>\<open>crates/gelo-tee-sev-snp\<close> (report data, runtime mode, the ECDSA chain,
  the relying party's verifier, the mock and the hardware issuer, the executor's evidence),
  the verifier interface of \<^verbatim>\<open>crates/gelo-rag\<close> (\<^verbatim>\<open>attestation.rs\<close>, \<^verbatim>\<open>snp.rs\<close>) and the issuer
  side of \<^verbatim>\<open>crates/gelo-snp-runner\<close> (\<^verbatim>\<open>issuer.rs\<close>, \<^verbatim>\<open>evidence.rs\<close>).  The X.509, P-384, SHA-2 and
  SEV libraries are parameters, as is the firmware of the secure processor.
\<close>

section \<open>Report data\<close>

definition report_data_build :: "(bytes \<Rightarrow> bytes) \<Rightarrow> bytes \<Rightarrow> bytes \<Rightarrow> bytes option \<Rightarrow> bytes" where
  "report_data_build sha256 model_identity scheme_identity nonce =
     sha256 model_identity @
     sha256 (scheme_identity @ (case nonce of Some n \<Rightarrow> n | None \<Rightarrow> []))"

definition model_id_hash :: "bytes \<Rightarrow> bytes" where
  "model_id_hash rd = take 32 rd"

definition scheme_id_hash :: "bytes \<Rightarrow> bytes" where
  "scheme_id_hash rd = drop 32 rd"

section \<open>Runtime mode\<close>

datatype runtime_mode = Production | Mock

datatype runtime_mode_error = Unset | Unrecognised str | MissingSevGuestDevice

text \<open>The arguments are the value of \<open>SNP_MODE\<close> and whether \<^verbatim>\<open>/dev/sev-guest\<close> exists.\<close>

definition runtime_mode_from_env :: "str option \<Rightarrow> bool \<Rightarrow> (runtime_mode_error, runtime_mode) outcome" where
  "runtime_mode_from_env snp_mode device =
     (case snp_mode of
        None \<Rightarrow> Inl (Fail Unset)
      | Some raw \<Rightarrow>
          if raw = ascii ''production'' then if \<not> device then Inl (Fail MissingSevGuestDevice) else Inr Production
          else if raw = ascii ''mock'' then Inr Mock
          else Inl (Fail (Unrecognised raw)))"

section \<open>The attestation report and the libraries\<close>

text \<open>The fields of an SEV-SNP report the code reads or writes; a signature is its two
  72-byte little-endian scalars.\<close>

record snp_report =
  ar_version :: nat
  ar_chip_id :: bytes
  ar_report_data :: bytes
  ar_measurement :: bytes
  ar_policy :: nat
  ar_signature :: "bytes \<times> bytes"

text \<open>X.509 certificates \<open>'c\<close>, P-384 verifying keys \<open>'k\<close>, ECDSA signatures \<open>'g\<close>, SEV
  certificates \<open>'v\<close> and signing keys \<open>'s\<close>.\<close>

record ('c, 'k, 'g, 'v, 's) snp_lib =
  lib_sha256 :: "bytes \<Rightarrow> bytes"
  lib_sha384 :: "bytes \<Rightarrow> bytes"
  cert_from_pem :: "bytes \<Rightarrow> 'c option"
  cert_oid :: "'c \<Rightarrow> nat list"
  cert_spki_key :: "'c \<Rightarrow> bytes option"
  cert_tbs_der :: "'c \<Rightarrow> bytes option"
  cert_signature :: "'c \<Rightarrow> bytes option"
  cert_not_before :: "'c \<Rightarrow> int"
  cert_not_after :: "'c \<Rightarrow> int"
  key_from_sec1 :: "bytes \<Rightarrow> 'k option"
  sig_from_der :: "bytes \<Rightarrow> 'g option"
  key_verify_digest :: "'k \<Rightarrow> bytes \<Rightarrow> 'g \<Rightarrow> bool"
  sev_from_bytes :: "bytes \<Rightarrow> snp_report option"
  sev_to_bytes :: "snp_report \<Rightarrow> bytes option"
  sev_default :: snp_report
  sev_cert_from_pem :: "bytes \<Rightarrow> 'v option"
  sev_verify :: "'v \<Rightarrow> snp_report \<Rightarrow> bool"
  key_from_pkcs8 :: "bytes \<Rightarrow> 's option"
  key_sign_digest :: "'s \<Rightarrow> bytes \<Rightarrow> 'g"
  sig_split :: "'g \<Rightarrow> bytes \<times> bytes"

text \<open>An \<open>anyhow\<close> error is its contexts, the outermost first.\<close>

type_synonym any_error = "string list"

definition with_context :: "string \<Rightarrow> (any_error, 'a) outcome \<Rightarrow> (any_error, 'a) outcome" where
  "with_context ctx r = fail_as (\<lambda>e. ctx # e) r"

definition or_err :: "string \<Rightarrow> 'a option \<Rightarrow> (any_error, 'a) outcome" where
  "or_err msg x = (case x of None \<Rightarrow> Inl (Fail [msg]) | Some y \<Rightarrow> Inr y)"

definition require :: "string \<Rightarrow> bool \<Rightarrow> (any_error, unit) outcome" where
  "require msg b = (if b then Inr () else Inl (Fail [msg]))"

definition parse_report :: "('c, 'k, 'g, 'v, 's) snp_lib \<Rightarrow> bytes \<Rightarrow> (any_error, snp_report) outcome" where
  "parse_report L bs = or_err ''parsing SEV-SNP attestation report bytes'' (sev_from_bytes L bs)"

definition serialize_report :: "('c, 'k, 'g, 'v, 's) snp_lib \<Rightarrow> snp_report \<Rightarrow> (any_error, bytes) outcome" where
  "serialize_report L r = or_err ''serializing SEV-SNP attestation report'' (sev_to_bytes L r)"

definition skeleton_for_tests :: "('c, 'k, 'g, 'v, 's) snp_lib \<Rightarrow> snp_report" where
  "skeleton_for_tests L = (sev_default L)\<lparr>ar_version := 2, ar_chip_id := replicate 64 0xAB\<rparr>"

section \<open>The certificate chain\<close>

definition ECDSA_WITH_SHA384_OID :: "nat list" where
  "ECDSA_WITH_SHA384_OID = [1, 2, 840, 10045, 4, 3, 3]"

definition parse_cert_pem :: "('c, 'k, 'g, 'v, 's) snp_lib \<Rightarrow> bytes \<Rightarrow> (any_error, 'c) outcome" where
  "parse_cert_pem L pem = or_err ''parsing PEM-encoded certificate'' (cert_from_pem L pem)"

definition verify_signed_by :: "('c, 'k, 'g, 'v, 's) snp_lib \<Rightarrow> 'c \<Rightarrow> 'c \<Rightarrow> (any_error, unit) outcome" where
  "verify_signed_by L parent child =
     rbind (require ''child certificate uses unsupported signature algorithm'' (cert_oid L child = ECDSA_WITH_SHA384_OID)) (\<lambda>_.
     rbind (or_err ''parent SPKI has no public-key bytes'' (cert_spki_key L parent)) (\<lambda>pub_key_bytes.
     rbind (or_err ''parent's SPKI is not a valid ECDSA-P-384 public key'' (key_from_sec1 L pub_key_bytes)) (\<lambda>verifying_key.
     rbind (or_err ''re-serialising child's TBSCertificate as DER'' (cert_tbs_der L child)) (\<lambda>tbs_der.
     rbind (or_err ''child certificate signature is empty'' (cert_signature L child)) (\<lambda>sig_bytes.
     rbind (or_err ''parsing child's ECDSA signature'' (sig_from_der L sig_bytes)) (\<lambda>sig.
     require ''child signature does not verify against parent public key''
       (key_verify_digest L verifying_key (lib_sha384 L tbs_der) sig)))))))"

definition verify_mock_chain :: "('c, 'k, 'g, 'v, 's) snp_lib \<Rightarrow> bytes \<Rightarrow> bytes \<Rightarrow> bytes \<Rightarrow> (any_error, 'c) outcome" where
  "verify_mock_chain L ark_pem ask_pem vcek_pem =
     rbind (with_context ''parsing ARK'' (parse_cert_pem L ark_pem)) (\<lambda>ark.
     rbind (with_context ''parsing ASK'' (parse_cert_pem L ask_pem)) (\<lambda>ask.
     rbind (with_context ''parsing VCEK'' (parse_cert_pem L vcek_pem)) (\<lambda>vcek.
     rbind (with_context ''ARK self-signature'' (verify_signed_by L ark ark)) (\<lambda>_.
     rbind (with_context ''ARK to ASK'' (verify_signed_by L ark ask)) (\<lambda>_.
     rbind (with_context ''ASK to VCEK'' (verify_signed_by L ask vcek)) (\<lambda>_.
     Inr vcek))))))"

definition validity_window :: "('c, 'k, 'g, 'v, 's) snp_lib \<Rightarrow> 'c \<Rightarrow> int \<times> int" where
  "validity_window L cert = (cert_not_before L cert, cert_not_after L cert)"

section \<open>The relying party's verifier\<close>

record attested_binding =
  ab_model_identity :: bytes
  ab_scheme_identity :: bytes
  ab_nonce :: "bytes option"

record snp_root_trust =
  ark_pem :: bytes
  ask_pem :: bytes
  use_mock_chain :: bool

datatype snp_verify_error =
    MissingReport
  | MissingVcek
  | ReportParse any_error
  | Chain any_error
  | ReportSignature string
  | ReportDataMismatch bytes bytes
  | MeasurementMismatch
  | PolicyMismatch nat nat
  | VcekExpired int int int
  | UnsupportedProductionChain

text \<open>The clock is what it shows when the verifier reads it.\<close>

record snp_verifier =
  root_trust :: snp_root_trust
  expected_measurement :: "bytes option"
  expected_model_id :: "bytes option"
  expected_policy :: "nat option"
  clock :: int

definition snp_verifier_new :: "snp_root_trust \<Rightarrow> int \<Rightarrow> snp_verifier" where
  "snp_verifier_new root now = \<lparr>root_trust = root, expected_measurement = None, expected_model_id = None,
     expected_policy = None, clock = now\<rparr>"

definition with_expected_measurement :: "bytes \<Rightarrow> snp_verifier \<Rightarrow> snp_verifier" where
  "with_expected_measurement m v = v\<lparr>expected_measurement := Some m\<rparr>"

definition with_expected_model_id :: "bytes \<Rightarrow> snp_verifier \<Rightarrow> snp_verifier" where
  "with_expected_model_id m v = v\<lparr>expected_model_id := Some m\<rparr>"

definition with_expected_policy :: "nat \<Rightarrow> snp_verifier \<Rightarrow> snp_verifier" where
  "with_expected_policy p v = v\<lparr>expected_policy := Some p\<rparr>"

definition with_clock :: "int \<Rightarrow> snp_verifier \<Rightarrow> snp_verifier" where
  "with_clock now v = v\<lparr>clock := now\<rparr>"

text \<open>A build without the feature \<open>mock\<close> has no chain validator and fails closed.\<close>

definition validate_chain_and_window :: "('c, 'k, 'g, 'v, 's) snp_lib \<Rightarrow> bool \<Rightarrow> snp_verifier \<Rightarrow> bytes \<Rightarrow>
    (snp_verify_error, 'c option) outcome" where
  "validate_chain_and_window L mock v vcek_pem =
     (if \<not> mock then Inl (Fail UnsupportedProductionChain)
      else if \<not> use_mock_chain (root_trust v) then Inl (Fail UnsupportedProductionChain)
      else
        rbind (fail_as Chain (verify_mock_chain L (ark_pem (root_trust v)) (ask_pem (root_trust v)) vcek_pem)) (\<lambda>vcek.
        let (nb, na) = validity_window L vcek; now = clock v in
        if now < nb \<or> now > na then Inl (Fail (VcekExpired nb na now)) else Inr (Some vcek)))"

definition verify_report_signature :: "('c, 'k, 'g, 'v, 's) snp_lib \<Rightarrow> snp_report \<Rightarrow> bytes \<Rightarrow> (snp_verify_error, unit) outcome" where
  "verify_report_signature L report vcek_pem =
     (case sev_cert_from_pem L vcek_pem of
        None \<Rightarrow> Inl (Fail (ReportSignature ''VCEK does not parse''))
      | Some vcek \<Rightarrow> if sev_verify L vcek report then Inr () else Inl (Fail (ReportSignature ''signature does not verify'')))"

definition snp_verify :: "('c, 'k, 'g, 'v, 's) snp_lib \<Rightarrow> bool \<Rightarrow> snp_verifier \<Rightarrow> bytes \<Rightarrow> bytes \<Rightarrow> attested_binding \<Rightarrow>
    (snp_verify_error, snp_report) outcome" where
  "snp_verify L mock v report_bytes vcek_pem binding =
     rbind (fail_as ReportParse (parse_report L report_bytes)) (\<lambda>report.
     rbind (validate_chain_and_window L mock v vcek_pem) (\<lambda>_.
     rbind (verify_report_signature L report vcek_pem) (\<lambda>_.
     let expected = report_data_build (lib_sha256 L) (ab_model_identity binding) (ab_scheme_identity binding) (ab_nonce binding) in
     if ar_report_data report \<noteq> expected then Inl (Fail (ReportDataMismatch expected (ar_report_data report)))
     else if (case expected_measurement v of Some m \<Rightarrow> ar_measurement report \<noteq> m | None \<Rightarrow> False)
     then Inl (Fail MeasurementMismatch)
     else if (case expected_policy v of Some p \<Rightarrow> ar_policy report \<noteq> p | None \<Rightarrow> False)
     then Inl (Fail (PolicyMismatch (the (expected_policy v)) (ar_policy report)))
     else if (case expected_model_id v of Some i \<Rightarrow> take 32 (ar_report_data report) \<noteq> i | None \<Rightarrow> False)
     then Inl (Fail (ReportDataMismatch expected (ar_report_data report)))
     else Inr report)))"

section \<open>Issuers\<close>

record snp_evidence =
  report_bytes :: bytes
  vcek_cert_pem :: bytes

definition MEASURABLE_PREFIX_LEN :: nat where
  "MEASURABLE_PREFIX_LEN = 0x2a0"

text \<open>Scalars are big-endian in the signature and little-endian, padded to 72 bytes, in the
  report.\<close>

definition pack_signature :: "('c, 'k, 'g, 'v, 's) snp_lib \<Rightarrow> 'g \<Rightarrow> (any_error, bytes \<times> bytes) outcome" where
  "pack_signature L sig =
     (let (r, s) = sig_split L sig in
      if length r \<noteq> 48 \<or> length s \<noteq> 48 then Inl (Fail [''expected 48-byte ECDSA P-384 scalars''])
      else Inr (rev r @ replicate 24 0, rev s @ replicate 24 0))"

record 's mock_issuer =
  vcek_signing_key :: 's
  bundled_vcek_pem :: bytes

definition mock_from_bundled :: "('c, 'k, 'g, 'v, 's) snp_lib \<Rightarrow> bytes \<Rightarrow> bytes \<Rightarrow> (any_error, 's mock_issuer) outcome" where
  "mock_from_bundled L key_pem vcek_pem =
     rbind (require ''bundled VCEK private-key PEM is not UTF-8'' (utf8_valid key_pem)) (\<lambda>_.
     rbind (or_err ''parsing bundled VCEK private key'' (key_from_pkcs8 L key_pem)) (\<lambda>k.
     Inr \<lparr>vcek_signing_key = k, bundled_vcek_pem = vcek_pem\<rparr>))"

definition mock_issue :: "('c, 'k, 'g, 'v, 's) snp_lib \<Rightarrow> 's mock_issuer \<Rightarrow> bytes \<Rightarrow> (any_error, snp_evidence) outcome" where
  "mock_issue L issuer rd =
     (let report = (skeleton_for_tests L)\<lparr>ar_report_data := rd, ar_signature := (replicate 72 0, replicate 72 0)\<rparr> in
      rbind (or_err ''serializing report (pre-sign)'' (sev_to_bytes L report)) (\<lambda>encoded.
      rbind (require ''encoded report shorter than expected measurable prefix'' (MEASURABLE_PREFIX_LEN \<le> length encoded)) (\<lambda>_.
      let sig = key_sign_digest L (vcek_signing_key issuer) (lib_sha384 L (take MEASURABLE_PREFIX_LEN encoded)) in
      rbind (pack_signature L sig) (\<lambda>packed.
      rbind (or_err ''serializing report (post-sign)'' (sev_to_bytes L (report\<lparr>ar_signature := packed\<rparr>))) (\<lambda>final_bytes.
      Inr \<lparr>report_bytes = final_bytes, vcek_cert_pem = bundled_vcek_pem issuer\<rparr>)))))"

text \<open>The certificate table the host's firmware returns with a report.\<close>

datatype cert_type = CertArk | CertAsk | CertVcek | CertOther nat

type_synonym firmware = "bytes \<Rightarrow> nat \<Rightarrow> (bytes \<times> (cert_type \<times> bytes) list option) option"

record hardware_issuer =
  hw_firmware :: firmware
  hw_vmpl :: nat

definition hardware_with_vmpl :: "firmware option \<Rightarrow> nat \<Rightarrow> (any_error, hardware_issuer) outcome" where
  "hardware_with_vmpl opened level =
     rbind (or_err ''opening /dev/sev-guest (is this binary running inside a SEV-SNP CVM?)'' opened) (\<lambda>fw.
     Inr \<lparr>hw_firmware = fw, hw_vmpl = level\<rparr>)"

definition hardware_new :: "firmware option \<Rightarrow> (any_error, hardware_issuer) outcome" where
  "hardware_new opened = hardware_with_vmpl opened 0"

definition hardware_issue :: "hardware_issuer \<Rightarrow> bytes \<Rightarrow> (any_error, snp_evidence) outcome" where
  "hardware_issue h rd =
     rbind (or_err ''SNP_GET_EXT_REPORT failed'' (hw_firmware h rd (hw_vmpl h))) (\<lambda>(bs, certs).
     rbind (or_err ''SNP_GET_EXT_REPORT returned no cert table; host /dev/sev/cert may be unconfigured'' certs) (\<lambda>certs.
     rbind (or_err ''cert table from /dev/sev-guest contains no VCEK entry'' (List.find (\<lambda>(t, _). t = CertVcek) certs)) (\<lambda>(_, pem).
     Inr \<lparr>report_bytes = bs, vcek_cert_pem = pem\<rparr>)))"

datatype 's issuer_handle = Hardware hardware_issuer | MockIssuer "'s mock_issuer"

text \<open>The features compiled in, and what opening the device gives.\<close>

record runner_build =
  feature_snp :: bool
  feature_mock :: bool
  rb_firmware :: "firmware option"
  rb_key_pem :: bytes
  rb_vcek_pem :: bytes

definition for_mode :: "('c, 'k, 'g, 'v, 's) snp_lib \<Rightarrow> runner_build \<Rightarrow> runtime_mode \<Rightarrow> (any_error, 's issuer_handle) outcome" where
  "for_mode L b mode =
     (case mode of
        Production \<Rightarrow>
          if feature_snp b then rbind (hardware_new (rb_firmware b)) (\<lambda>h. Inr (Hardware h))
          else Inl (Fail [''SNP_MODE=production but this binary was built without the `snp` feature''])
      | Mock \<Rightarrow>
          if feature_mock b then rbind (mock_from_bundled L (rb_key_pem b) (rb_vcek_pem b)) (\<lambda>m. Inr (MockIssuer m))
          else Inl (Fail [''SNP_MODE=mock but this binary was built without the `mock` feature'']))"

definition issue :: "('c, 'k, 'g, 'v, 's) snp_lib \<Rightarrow> 's issuer_handle \<Rightarrow> bytes \<Rightarrow> (any_error, snp_evidence) outcome" where
  "issue L i rd = (case i of Hardware h \<Rightarrow> hardware_issue h rd | MockIssuer m \<Rightarrow> mock_issue L m rd)"

text \<open>What the attested executor adds to the one it wraps.\<close>

record 's snp_executor =
  se_issuer :: "'s issuer_handle"
  se_model_identity :: bytes
  se_scheme_identity :: bytes

definition executor_evidence :: "('c, 'k, 'g, 'v, 's) snp_lib \<Rightarrow> 's snp_executor \<Rightarrow> bytes option \<Rightarrow> (any_error, snp_evidence) outcome" where
  "executor_evidence L e nonce =
     issue L (se_issuer e) (report_data_build (lib_sha256 L) (se_model_identity e) (se_scheme_identity e) nonce)"

section \<open>Evidence in the service\<close>

text \<open>\<open>String::from_utf8_lossy\<close>: every maximal invalid prefix of a character becomes U+FFFD.\<close>

definition bad_prefix :: "u8 \<Rightarrow> bytes \<Rightarrow> nat" where
  "bad_prefix a s =
     (let follows = (\<lambda>p n. n < length s \<and> p (s ! n)) in
      if in_range 224 239 a then if \<not> follows (second_ok a) 0 then 0 else 1
      else if in_range 240 244 a
      then if \<not> follows (second_ok a) 0 then 0 else if \<not> follows cont_byte 1 then 1 else 2
      else 0)"

function utf8_lossy :: "bytes \<Rightarrow> str" where
  "utf8_lossy [] = []"
| "utf8_lossy (a # s) =
     (case utf8_tail a s of
        Some r \<Rightarrow> take (Suc (length s) - length r) (a # s) @ utf8_lossy r
      | None \<Rightarrow> [239, 191, 189] @ utf8_lossy (drop (bad_prefix a s) s))"
  by pat_completeness auto
termination
  by (relation "measure length") (auto dest: utf8_tail_length)

record attestation_evidence =
  tee_measurement :: str
  model_identity :: str
  scheme_identity :: str
  ev_report :: "bytes option"
  ev_vcek_cert :: "bytes option"

definition noop_verify :: "attestation_evidence \<Rightarrow> (any_error, unit) outcome" where
  "noop_verify e = Inr ()"

definition adapter_verify :: "('c, 'k, 'g, 'v, 's) snp_lib \<Rightarrow> bool \<Rightarrow> snp_verifier \<Rightarrow> attestation_evidence \<Rightarrow> (any_error, unit) outcome" where
  "adapter_verify L mock v e =
     rbind (or_err ''AttestationEvidence.report is missing'' (ev_report e)) (\<lambda>report.
     rbind (or_err ''AttestationEvidence.vcek_cert is missing'' (ev_vcek_cert e)) (\<lambda>vcek.
     rbind (fail_as (\<lambda>_. [''SEV-SNP attestation verification failed''])
       (snp_verify L mock v report vcek \<lparr>ab_model_identity = model_identity e, ab_scheme_identity = scheme_identity e, ab_nonce = None\<rparr>))
       (\<lambda>_. Inr ())))"

definition build_evidence :: "('c, 'k, 'g, 'v, 's) snp_lib \<Rightarrow> 's issuer_handle \<Rightarrow> bytes \<Rightarrow> bytes \<Rightarrow> (any_error, attestation_evidence) outcome" where
  "build_evidence L issuer model scheme =
     rbind (issue L issuer (report_data_build (lib_sha256 L) model scheme None)) (\<lambda>issued.
     Inr \<lparr>tee_measurement = ascii ''snp'', model_identity = utf8_lossy model, scheme_identity = utf8_lossy scheme,
       ev_report = Some (report_bytes issued), ev_vcek_cert = Some (vcek_cert_pem issued)\<rparr>)"

text \<open>The runner's scheme identity: the configured one and the service's digest behind a NUL.\<close>

definition compose_scheme_identity :: "(bytes \<Rightarrow> bytes) \<Rightarrow> bytes \<Rightarrow> bytes \<Rightarrow> bytes" where
  "compose_scheme_identity sha256 cfg_bytes service_digest = sha256 (cfg_bytes @ [0] @ service_digest)"

end
