(* ===== verification/Attest_Theorems.thy ===== *)
theory Attest_Theorems
  imports Attest
begin

text \<open>
  What an accepted attestation proves, what the report data binds, and what the evidence the
  service hands out is worth to a relying party.
\<close>

section \<open>The verifier\<close>

lemma or_err_Inr [simp]: "or_err msg x = Inr y \<longleftrightarrow> x = Some y"
  by (cases x) (simp_all add: or_err_def)

lemma require_Inr [simp]: "require msg b = Inr u \<longleftrightarrow> b"
  by (simp add: require_def)

lemma fail_as_Inr [simp]: "fail_as h r = Inr y \<longleftrightarrow> r = Inr y"
  by (auto simp: fail_as_def split: sum.splits fault.splits)

lemma with_context_Inr [simp]: "with_context ctx r = Inr y \<longleftrightarrow> r = Inr y"
  by (simp add: with_context_def)

text \<open>A certificate carries a P-384 signature over its contents that the other's key made.\<close>

definition signed_by :: "('c, 'k, 'g, 'v, 's) snp_lib \<Rightarrow> 'c \<Rightarrow> 'c \<Rightarrow> bool" where
  "signed_by L parent child \<longleftrightarrow> cert_oid L child = ECDSA_WITH_SHA384_OID \<and>
     (\<exists>pk key tbs bs sig. cert_spki_key L parent = Some pk \<and> key_from_sec1 L pk = Some key \<and> cert_tbs_der L child = Some tbs \<and>
       cert_signature L child = Some bs \<and> sig_from_der L bs = Some sig \<and> key_verify_digest L key (lib_sha384 L tbs) sig)"

lemma verify_signed_by_Inr: "verify_signed_by L p c = Inr u \<longleftrightarrow> signed_by L p c"
  by (auto simp: verify_signed_by_def signed_by_def rbind_Inr_iff)

definition chain_ok :: "('c, 'k, 'g, 'v, 's) snp_lib \<Rightarrow> bytes \<Rightarrow> bytes \<Rightarrow> bytes \<Rightarrow> 'c \<Rightarrow> bool" where
  "chain_ok L ark ask vcek c \<longleftrightarrow> (\<exists>a b. cert_from_pem L ark = Some a \<and> cert_from_pem L ask = Some b \<and> cert_from_pem L vcek = Some c \<and>
     signed_by L a a \<and> signed_by L a b \<and> signed_by L b c)"

lemma verify_mock_chain_Inr: "verify_mock_chain L ark ask vcek = Inr c \<longleftrightarrow> chain_ok L ark ask vcek c"
  by (auto simp: verify_mock_chain_def chain_ok_def parse_cert_pem_def rbind_Inr_iff verify_signed_by_Inr)

text \<open>What the relying party has pinned.\<close>

definition pins_ok :: "snp_verifier \<Rightarrow> snp_report \<Rightarrow> bool" where
  "pins_ok v r \<longleftrightarrow> (\<forall>m. expected_measurement v = Some m \<longrightarrow> ar_measurement r = m) \<and>
     (\<forall>p. expected_policy v = Some p \<longrightarrow> ar_policy r = p) \<and>
     (\<forall>i. expected_model_id v = Some i \<longrightarrow> model_id_hash (ar_report_data r) = i)"

lemma snp_verify_Inr:
  "snp_verify L mock v bs vcek_pem b = Inr r \<longleftrightarrow>
     mock \<and> use_mock_chain (root_trust v) \<and> sev_from_bytes L bs = Some r \<and>
     (\<exists>c. chain_ok L (ark_pem (root_trust v)) (ask_pem (root_trust v)) vcek_pem c \<and>
       cert_not_before L c \<le> clock v \<and> clock v \<le> cert_not_after L c) \<and>
     (\<exists>k. sev_cert_from_pem L vcek_pem = Some k \<and> sev_verify L k r) \<and>
     ar_report_data r = report_data_build (lib_sha256 L) (ab_model_identity b) (ab_scheme_identity b) (ab_nonce b) \<and>
     pins_ok v r"
proof -
  have sig: "verify_report_signature L r' vcek_pem = Inr u \<longleftrightarrow> (\<exists>k. sev_cert_from_pem L vcek_pem = Some k \<and> sev_verify L k r')" for r' u
    by (auto simp: verify_report_signature_def split: option.split)
  have win: "validate_chain_and_window L mock v vcek_pem = Inr u \<longleftrightarrow> mock \<and> use_mock_chain (root_trust v) \<and>
      (\<exists>c. u = Some c \<and> chain_ok L (ark_pem (root_trust v)) (ask_pem (root_trust v)) vcek_pem c \<and>
        cert_not_before L c \<le> clock v \<and> clock v \<le> cert_not_after L c)" for u
    by (cases "mock \<and> use_mock_chain (root_trust v)")
       (auto simp: validate_chain_and_window_def validity_window_def rbind_Inr_iff verify_mock_chain_Inr Let_def not_less)
  have pins: "pins_ok v r' \<longleftrightarrow> \<not> (case expected_measurement v of Some m \<Rightarrow> ar_measurement r' \<noteq> m | None \<Rightarrow> False) \<and>
      \<not> (case expected_policy v of Some p \<Rightarrow> ar_policy r' \<noteq> p | None \<Rightarrow> False) \<and>
      \<not> (case expected_model_id v of Some i \<Rightarrow> take 32 (ar_report_data r') \<noteq> i | None \<Rightarrow> False)" for r'
    by (auto simp: pins_ok_def model_id_hash_def split: option.split)
  show ?thesis
    unfolding snp_verify_def parse_report_def rbind_Inr_iff Let_def pins
    by (auto simp: sig win split: if_splits)
qed

text \<open>C29: The verifier accepts evidence exactly when the report parses, ARK, ASK and VCEK form a chain
  of P-384 signatures from a self-signed root, the clock is within the VCEK's validity window,
  the VCEK signs the report, its report data is that of the expected identities and nonce, and
  every pinned field has its value; a production build and a production root accept nothing.\<close>

theorem attestation_accepts_iff:
  "snp_verify L mock v bs vcek_pem b = Inr r \<longleftrightarrow>
     mock \<and> use_mock_chain (root_trust v) \<and> sev_from_bytes L bs = Some r \<and>
     (\<exists>c. chain_ok L (ark_pem (root_trust v)) (ask_pem (root_trust v)) vcek_pem c \<and>
       cert_not_before L c \<le> clock v \<and> clock v \<le> cert_not_after L c) \<and>
     (\<exists>k. sev_cert_from_pem L vcek_pem = Some k \<and> sev_verify L k r) \<and>
     ar_report_data r = report_data_build (lib_sha256 L) (ab_model_identity b) (ab_scheme_identity b) (ab_nonce b) \<and>
     pins_ok v r"
  by (rule snp_verify_Inr)

section \<open>What the report data binds\<close>

definition bound_scheme :: "attested_binding \<Rightarrow> bytes" where
  "bound_scheme b = ab_scheme_identity b @ (case ab_nonce b of Some n \<Rightarrow> n | None \<Rightarrow> [])"

lemma report_data_binds:
  assumes "report_data_build sha m s n = report_data_build sha m' s' n'"
    and "length (sha m) = length (sha m')"
    and "inj_on sha {m, m', s @ (case n of Some x \<Rightarrow> x | None \<Rightarrow> []), s' @ (case n' of Some x \<Rightarrow> x | None \<Rightarrow> [])}"
  shows "m = m' \<and> s @ (case n of Some x \<Rightarrow> x | None \<Rightarrow> []) = s' @ (case n' of Some x \<Rightarrow> x | None \<Rightarrow> [])"
proof -
  from assms(1,2) have "sha m = sha m'" "sha (s @ (case n of Some x \<Rightarrow> x | None \<Rightarrow> [])) = sha (s' @ (case n' of Some x \<Rightarrow> x | None \<Rightarrow> []))"
    by (simp_all add: report_data_build_def)
  then show ?thesis using inj_onD [OF assms(3)] by blast
qed

text \<open>A report binds one model, and one scheme identity and nonce: when the same report is
  accepted for two expectations, with hashes of equal length that do not collide on them, then
  the models are equal, and if the nonces are equally long so are schemes and nonces.\<close>

theorem attestation_binds:
  assumes "snp_verify L mock v bs pem b = Inr r" and "snp_verify L mock v' bs pem' b' = Inr r'"
    and "length (lib_sha256 L (ab_model_identity b)) = length (lib_sha256 L (ab_model_identity b'))"
    and "inj_on (lib_sha256 L) {ab_model_identity b, ab_model_identity b', bound_scheme b, bound_scheme b'}"
    and "map_option length (ab_nonce b) = map_option length (ab_nonce b')"
  shows "b = b'"
proof -
  have "sev_from_bytes L bs = Some r" "sev_from_bytes L bs = Some r'"
    and d: "ar_report_data r = report_data_build (lib_sha256 L) (ab_model_identity b) (ab_scheme_identity b) (ab_nonce b)"
      "ar_report_data r' = report_data_build (lib_sha256 L) (ab_model_identity b') (ab_scheme_identity b') (ab_nonce b')"
    using assms(1,2) unfolding snp_verify_Inr by blast+
  then have "r = r'" by simp
  with d have "report_data_build (lib_sha256 L) (ab_model_identity b) (ab_scheme_identity b) (ab_nonce b) =
      report_data_build (lib_sha256 L) (ab_model_identity b') (ab_scheme_identity b') (ab_nonce b')" by simp
  from report_data_binds [OF this assms(3) assms(4) [unfolded bound_scheme_def]]
  have "ab_model_identity b = ab_model_identity b'" "bound_scheme b = bound_scheme b'"
    unfolding bound_scheme_def by blast+
  moreover have "ab_scheme_identity b = ab_scheme_identity b' \<and> ab_nonce b = ab_nonce b'"
    using \<open>bound_scheme b = bound_scheme b'\<close> assms(5)
    by (cases "ab_nonce b"; cases "ab_nonce b'") (auto simp: bound_scheme_def)
  ultimately show ?thesis by (simp add: attested_binding.equality)
qed

text \<open>The boundary between scheme identity and nonce is not bound: a verifier cannot tell bytes at
  the end of the scheme identity from bytes at the start of the nonce, nor an empty nonce from
  none.\<close>

theorem nonce_boundary_free:
  "snp_verify L mock v bs pem \<lparr>ab_model_identity = m, ab_scheme_identity = s @ x, ab_nonce = Some n\<rparr> =
     snp_verify L mock v bs pem \<lparr>ab_model_identity = m, ab_scheme_identity = s, ab_nonce = Some (x @ n)\<rparr> \<and>
   snp_verify L mock v bs pem \<lparr>ab_model_identity = m, ab_scheme_identity = s, ab_nonce = Some []\<rparr> =
     snp_verify L mock v bs pem \<lparr>ab_model_identity = m, ab_scheme_identity = s, ab_nonce = None\<rparr>"
proof -
  have "report_data_build sha m (s @ x) (Some n) = report_data_build sha m s (Some (x @ n))"
    "report_data_build sha m s (Some []) = report_data_build sha m s None" for sha
    by (simp_all add: report_data_build_def)
  then show ?thesis unfolding snp_verify_def by (simp only: attested_binding.select_convs)
qed

text \<open>The report data of a runner binds its whole configuration: with hashes of 32 bytes that do
  not collide on the values at hand, equal report data come from the same model identity, the
  same configured scheme and the same public CAPRISE parameters, bit by bit.\<close>

theorem report_binds_configuration:
  assumes "\<forall>x. length (sha256 x) = 32"
    and "inj_on sha256 ({m, m', compose_scheme_identity sha256 c (scheme_identity_digest_v1 sha256 policy_V1 p),
        compose_scheme_identity sha256 c' (scheme_identity_digest_v1 sha256 policy_V1 p')} \<union>
      {c @ [0] @ scheme_identity_digest_v1 sha256 policy_V1 p, c' @ [0] @ scheme_identity_digest_v1 sha256 policy_V1 p',
       scheme_identity_fragment_v1 policy_V1 p, scheme_identity_fragment_v1 policy_V1 p'})"
    and "report_data_build sha256 m (compose_scheme_identity sha256 c (scheme_identity_digest_v1 sha256 policy_V1 p)) None =
      report_data_build sha256 m' (compose_scheme_identity sha256 c' (scheme_identity_digest_v1 sha256 policy_V1 p')) None"
  shows "m = m' \<and> c = c' \<and> p = p'"
proof -
  let ?d = "scheme_identity_digest_v1 sha256 policy_V1"
  let ?s = "compose_scheme_identity sha256 c (?d p)" and ?s' = "compose_scheme_identity sha256 c' (?d p')"
  have i: "sha256 x = sha256 y \<Longrightarrow> x \<in> S \<Longrightarrow> y \<in> S \<Longrightarrow> x = y"
    if "S = {m, m', ?s, ?s'} \<union> {c @ [0] @ ?d p, c' @ [0] @ ?d p', scheme_identity_fragment_v1 policy_V1 p, scheme_identity_fragment_v1 policy_V1 p'}"
    for x y S using inj_onD [OF assms(2)] that by blast
  from assms(3,1) have "sha256 m = sha256 m'" "sha256 ?s = sha256 ?s'" by (simp_all add: report_data_build_def)
  then have m: "m = m'" and s: "?s = ?s'" using i by blast+
  then have "c @ [0] @ ?d p = c' @ [0] @ ?d p'" unfolding compose_scheme_identity_def using i by blast
  moreover have "length (?d p) = length (?d p')" using assms(1) by (simp add: scheme_identity_digest_v1_def)
  ultimately have c: "c = c'" and d: "?d p = ?d p'" by (simp_all)
  then have "scheme_identity_fragment_v1 policy_V1 p = scheme_identity_fragment_v1 policy_V1 p'"
    unfolding scheme_identity_digest_v1_def using i by blast
  then have "sp_scale p = sp_scale p' \<and> sp_beta p = sp_beta p'"
    by (simp add: scheme_identity_fragment_v1_def line_cancel hex_bits_inj)
  then show ?thesis using m c by (simp add: scheme_params.equality)
qed

section \<open>Lossy text\<close>

lemma utf8_tail_split: "utf8_tail a s = Some r \<Longrightarrow> \<exists>p. s = p @ r \<and> utf8_tail a p = Some []"
  by (auto simp: utf8_tail_def split: if_splits list.splits)

lemma take_char: "s = p @ r \<Longrightarrow> take (Suc (length s) - length r) (a # s) = a # p"
  by simp

lemma utf8_lossy_valid: "utf8_valid (utf8_lossy s)"
proof (induction s rule: utf8_lossy.induct)
  case (2 a s)
  show ?case
  proof (cases "utf8_tail a s")
    case None
    have "utf8_valid [239, 191, 189]" by code_simp
    then show ?thesis using None "2.IH"(1) utf8_valid_append [of "[239, 191, 189]"] by simp
  next
    case (Some r)
    then obtain p where p: "s = p @ r" "utf8_tail a p = Some []" using utf8_tail_split by blast
    then have "utf8_valid (a # p)" by simp
    from utf8_valid_append [OF this] Some "2.IH"(2) [OF Some] show ?thesis by (simp add: take_char [OF p(1)])
  qed
qed simp

lemma utf8_lossy_id: "utf8_lossy s = s \<longleftrightarrow> utf8_valid s"
proof
  assume "utf8_lossy s = s"
  with utf8_lossy_valid [of s] show "utf8_valid s" by simp
next
  assume "utf8_valid s"
  then show "utf8_lossy s = s"
  proof (induction s rule: utf8_lossy.induct)
    case (2 a s)
    then obtain r where r: "utf8_tail a s = Some r" "utf8_valid r" by (auto split: option.splits)
    then obtain p where p: "s = p @ r" using utf8_tail_split by blast
    from r 2 show ?case by (simp add: take_char [OF p]) (simp add: p)
  qed simp
qed

section \<open>Evidence of the mock issuer\<close>

definition mock_report :: "('c, 'k, 'g, 'v, 's) snp_lib \<Rightarrow> bytes \<Rightarrow> bytes \<times> bytes \<Rightarrow> snp_report" where
  "mock_report L rd sig = (skeleton_for_tests L)\<lparr>ar_report_data := rd, ar_signature := sig\<rparr>"

definition packed :: "bytes \<times> bytes \<Rightarrow> bytes \<times> bytes" where
  "packed = (\<lambda>(r, s). (rev r @ replicate 24 0, rev s @ replicate 24 0))"

text \<open>The bundled PKI and what the code relies on in the libraries: the chain is signed, a report
  parses back from its bytes, its first 0x2a0 bytes do not depend on the signature, a signature
  verifies under the key that made it, and the SEV library checks the signature of those bytes.\<close>

definition trusts :: "('c, 'k, 'g, 'v, 's) snp_lib \<Rightarrow> bytes \<Rightarrow> bytes \<Rightarrow> 'c \<Rightarrow> snp_verifier \<Rightarrow> bool" where
  "trusts L ark ask vcek v \<longleftrightarrow> root_trust v = \<lparr>ark_pem = ark, ask_pem = ask, use_mock_chain = True\<rparr> \<and>
     cert_not_before L vcek \<le> clock v \<and> clock v \<le> cert_not_after L vcek \<and>
     expected_measurement v = None \<and> expected_policy v = None \<and> expected_model_id v = None"

locale snp_pki =
  fixes L :: "('c, 'k, 'g, 'v, 's) snp_lib" and issuer :: "'s mock_issuer" and ark :: bytes and ask :: bytes
    and vcek :: 'c and key :: 'k and sev_cert :: 'v
  assumes chain: "chain_ok L ark ask (bundled_vcek_pem issuer) vcek"
    and encode: "length rd = 64 \<Longrightarrow> length (fst sig) = 72 \<Longrightarrow> length (snd sig) = 72 \<Longrightarrow>
      \<exists>bs. sev_to_bytes L (mock_report L rd sig) = Some bs \<and> MEASURABLE_PREFIX_LEN \<le> length bs \<and>
        sev_from_bytes L bs = Some (mock_report L rd sig)"
    and prefix: "sev_to_bytes L (mock_report L rd sig) = Some bs \<Longrightarrow> sev_to_bytes L (mock_report L rd sig') = Some bs' \<Longrightarrow>
      take MEASURABLE_PREFIX_LEN bs = take MEASURABLE_PREFIX_LEN bs'"
    and ecdsa: "key_verify_digest L key d (key_sign_digest L (vcek_signing_key issuer) d)"
    and scalars: "sig_split L g = (r, s) \<Longrightarrow> length r = 48 \<and> length s = 48"
    and sev_cert: "sev_cert_from_pem L (bundled_vcek_pem issuer) = Some sev_cert"
    and sev_verify: "sev_to_bytes L (mock_report L rd (packed (sig_split L g))) = Some bs \<Longrightarrow>
      key_verify_digest L key (lib_sha384 L (take MEASURABLE_PREFIX_LEN bs)) g \<Longrightarrow>
      sev_verify L sev_cert (mock_report L rd (packed (sig_split L g)))"
    and sha256: "length (lib_sha256 L x) = 32"
begin

lemma report_data_length: "length (report_data_build (lib_sha256 L) m s n) = 64"
  by (simp add: report_data_build_def sha256)

lemma mock_issue_ok:
  assumes rd: "length rd = 64"
  shows "\<exists>ev r. mock_issue L issuer rd = Inr ev \<and> vcek_cert_pem ev = bundled_vcek_pem issuer \<and>
    sev_from_bytes L (report_bytes ev) = Some r \<and> ar_report_data r = rd \<and> sev_verify L sev_cert r"
proof -
  let ?zero = "(replicate 72 0, replicate 72 0) :: bytes \<times> bytes"
  obtain bs where bs: "sev_to_bytes L (mock_report L rd ?zero) = Some bs" "MEASURABLE_PREFIX_LEN \<le> length bs"
    using encode [OF rd, of ?zero] by auto
  let ?g = "key_sign_digest L (vcek_signing_key issuer) (lib_sha384 L (take MEASURABLE_PREFIX_LEN bs))"
  obtain r s where g: "sig_split L ?g = (r, s)" by fastforce
  with scalars have len: "length r = 48" "length s = 48" by blast+
  let ?sig = "packed (sig_split L ?g)"
  have "length (fst ?sig) = 72" "length (snd ?sig) = 72" using len by (simp_all add: g packed_def)
  with encode [OF rd] obtain final where final: "sev_to_bytes L (mock_report L rd ?sig) = Some final"
    "sev_from_bytes L final = Some (mock_report L rd ?sig)" by blast
  have "sev_verify L sev_cert (mock_report L rd ?sig)"
    by (rule sev_verify [OF final(1)]) (use prefix [OF bs(1) final(1)] ecdsa in simp)
  moreover have "mock_issue L issuer rd = Inr \<lparr>report_bytes = final, vcek_cert_pem = bundled_vcek_pem issuer\<rparr>"
    using bs final(1) g len
    by (simp add: mock_issue_def mock_report_def or_err_def require_def Let_def pack_signature_def packed_def)
  moreover have "ar_report_data (mock_report L rd ?sig) = rd" by (simp add: mock_report_def)
  ultimately show ?thesis using final(2) by auto
qed

lemma verify_issued:
  assumes "mock_issue L issuer rd = Inr ev" and rd: "length rd = 64" and v: "trusts L ark ask vcek v"
  shows "\<exists>r. ar_report_data r = rd \<and> snp_verify L True v (report_bytes ev) (vcek_cert_pem ev) b =
    (let e = report_data_build (lib_sha256 L) (ab_model_identity b) (ab_scheme_identity b) (ab_nonce b) in
     if rd = e then Inr r else Inl (Fail (ReportDataMismatch e rd)))"
proof -
  obtain r where r: "vcek_cert_pem ev = bundled_vcek_pem issuer" "sev_from_bytes L (report_bytes ev) = Some r"
    "ar_report_data r = rd" "sev_verify L sev_cert r" using mock_issue_ok [OF rd] assms(1) by auto
  have c: "verify_mock_chain L ark ask (bundled_vcek_pem issuer) = Inr vcek" using chain by (simp add: verify_mock_chain_Inr)
  have "validate_chain_and_window L True v (vcek_cert_pem ev) = Inr (Some vcek)"
    using v c r(1) by (simp add: validate_chain_and_window_def trusts_def validity_window_def)
  moreover have "verify_report_signature L r (vcek_cert_pem ev) = Inr ()"
    using r(1,4) sev_cert by (simp add: verify_report_signature_def)
  moreover have "fail_as ReportParse (parse_report L (report_bytes ev)) = Inr r" using r(2) by (simp add: parse_report_def)
  ultimately have "snp_verify L True v (report_bytes ev) (vcek_cert_pem ev) b =
    (let e = report_data_build (lib_sha256 L) (ab_model_identity b) (ab_scheme_identity b) (ab_nonce b) in
     if rd = e then Inr r else Inl (Fail (ReportDataMismatch e rd)))"
    using v r(3) unfolding snp_verify_def by (simp add: trusts_def Let_def)
  with r(3) show ?thesis by blast
qed

lemma evidence_ok:
  assumes "executor_evidence L \<lparr>se_issuer = MockIssuer issuer, se_model_identity = m, se_scheme_identity = s\<rparr> n = Inr ev"
    and v: "trusts L ark ask vcek v"
    and inj: "inj_on (lib_sha256 L) {m, ab_model_identity b, bound_scheme \<lparr>ab_model_identity = m, ab_scheme_identity = s, ab_nonce = n\<rparr>, bound_scheme b}"
  shows "(\<exists>r. snp_verify L True v (report_bytes ev) (vcek_cert_pem ev) b = Inr r) \<longleftrightarrow>
    ab_model_identity b = m \<and> bound_scheme b = bound_scheme \<lparr>ab_model_identity = m, ab_scheme_identity = s, ab_nonce = n\<rparr>"
proof -
  let ?rd = "report_data_build (lib_sha256 L) m s n"
  let ?e = "report_data_build (lib_sha256 L) (ab_model_identity b) (ab_scheme_identity b) (ab_nonce b)"
  have "mock_issue L issuer ?rd = Inr ev" using assms(1) by (simp add: executor_evidence_def issue_def)
  from verify_issued [OF this report_data_length v, of b]
  have "(\<exists>r. snp_verify L True v (report_bytes ev) (vcek_cert_pem ev) b = Inr r) \<longleftrightarrow> ?rd = ?e" by (auto simp: Let_def split: if_splits)
  also have "\<dots> \<longleftrightarrow> ab_model_identity b = m \<and> bound_scheme b = bound_scheme \<lparr>ab_model_identity = m, ab_scheme_identity = s, ab_nonce = n\<rparr>"
  proof
    assume eq: "?rd = ?e"
    have l: "length (lib_sha256 L m) = length (lib_sha256 L (ab_model_identity b))" by (simp only: sha256)
    from report_data_binds [OF eq l inj [unfolded bound_scheme_def attested_binding.select_convs]]
    show "ab_model_identity b = m \<and> bound_scheme b = bound_scheme \<lparr>ab_model_identity = m, ab_scheme_identity = s, ab_nonce = n\<rparr>"
      unfolding bound_scheme_def by (simp only: attested_binding.select_convs)
  next
    assume "ab_model_identity b = m \<and> bound_scheme b = bound_scheme \<lparr>ab_model_identity = m, ab_scheme_identity = s, ab_nonce = n\<rparr>"
    then show "?rd = ?e" by (simp add: report_data_build_def bound_scheme_def)
  qed
  finally show ?thesis .
qed

lemma runner_evidence:
  assumes "trusts L ark ask vcek v" and inj: "inj_on (lib_sha256 L) {m, utf8_lossy m, s, utf8_lossy s}"
  shows "\<exists>e. build_evidence L (MockIssuer issuer) m s = Inr e \<and>
    (adapter_verify L True v e = Inr () \<longleftrightarrow> utf8_valid m \<and> utf8_valid s)"
proof -
  let ?rd = "report_data_build (lib_sha256 L) m s None"
  let ?b = "\<lparr>ab_model_identity = utf8_lossy m, ab_scheme_identity = utf8_lossy s, ab_nonce = None\<rparr>"
  obtain ev where ev: "mock_issue L issuer ?rd = Inr ev" using mock_issue_ok [OF report_data_length] by blast
  let ?e = "\<lparr>tee_measurement = ascii ''snp'', model_identity = utf8_lossy m, scheme_identity = utf8_lossy s,
    ev_report = Some (report_bytes ev), ev_vcek_cert = Some (vcek_cert_pem ev)\<rparr>"
  have e: "build_evidence L (MockIssuer issuer) m s = Inr ?e" using ev by (simp add: build_evidence_def issue_def)
  from verify_issued [OF ev report_data_length assms(1), of ?b]
  have "(\<exists>r. snp_verify L True v (report_bytes ev) (vcek_cert_pem ev) ?b = Inr r) \<longleftrightarrow> ?rd = report_data_build (lib_sha256 L) (utf8_lossy m) (utf8_lossy s) None"
    by (auto simp: Let_def split: if_splits)
  moreover have "adapter_verify L True v ?e = Inr () \<longleftrightarrow> (\<exists>r. snp_verify L True v (report_bytes ev) (vcek_cert_pem ev) ?b = Inr r)"
    by (simp add: adapter_verify_def or_err_def rbind_Inr_iff)
  moreover have "?rd = report_data_build (lib_sha256 L) (utf8_lossy m) (utf8_lossy s) None \<longleftrightarrow> m = utf8_lossy m \<and> s = utf8_lossy s"
  proof
    assume eq: "?rd = report_data_build (lib_sha256 L) (utf8_lossy m) (utf8_lossy s) None"
    have l: "length (lib_sha256 L m) = length (lib_sha256 L (utf8_lossy m))" by (simp only: sha256)
    show "m = utf8_lossy m \<and> s = utf8_lossy s" using report_data_binds [OF eq l] inj
      unfolding option.case append_Nil2 by blast
  qed simp
  ultimately show ?thesis using e utf8_lossy_id [of m] utf8_lossy_id [of s] by auto
qed

end

section \<open>A library and a PKI that keep the laws\<close>

definition toy_hash :: "nat \<Rightarrow> bytes \<Rightarrow> bytes" where
  "toy_hash k b = take k ((case b of [] \<Rightarrow> 0 | x # _ \<Rightarrow> x + 1) # map (\<lambda>x. x + 1) (rev b) @ replicate k 0)"

definition toy_sign :: "u8 \<Rightarrow> bytes \<Rightarrow> bytes \<times> bytes" where
  "toy_sign k d = (replicate 47 0 @ [k], take 48 (d @ replicate 48 0))"

definition toy_split :: "bytes \<times> bytes \<Rightarrow> bytes \<times> bytes" where
  "toy_split = (\<lambda>(r, s). (take 48 (r @ replicate 48 0), take 48 (s @ replicate 48 0)))"

definition toy_to_bytes :: "snp_report \<Rightarrow> bytes option" where
  "toy_to_bytes r = Some (take 64 (ar_report_data r @ replicate 64 0) @ replicate 608 0 @ fst (ar_signature r) @ snd (ar_signature r))"

definition toy_default :: snp_report where
  "toy_default = \<lparr>ar_version = 0, ar_chip_id = [], ar_report_data = [], ar_measurement = replicate 48 0, ar_policy = 0, ar_signature = ([], [])\<rparr>"

definition toy_from_bytes :: "bytes \<Rightarrow> snp_report option" where
  "toy_from_bytes bs = (if length bs = 816
     then Some (toy_default\<lparr>ar_version := 2, ar_chip_id := replicate 64 0xAB, ar_report_data := take 64 bs,
       ar_signature := (take 72 (drop 672 bs), drop 744 bs)\<rparr>) else None)"

definition one_byte :: "bytes \<Rightarrow> u8 option" where
  "one_byte bs = (case bs of [b] \<Rightarrow> Some b | _ \<Rightarrow> None)"

definition toy_lib :: "(u8, u8, bytes \<times> bytes, u8, u8) snp_lib" where
  "toy_lib = \<lparr>lib_sha256 = toy_hash 32, lib_sha384 = toy_hash 48,
     cert_from_pem = one_byte, cert_oid = (\<lambda>_. ECDSA_WITH_SHA384_OID), cert_spki_key = (\<lambda>c. Some [c]), cert_tbs_der = (\<lambda>c. Some [c]),
     cert_signature = (\<lambda>c. let (r, s) = toy_sign (if c = 3 then 2 else 1) (toy_hash 48 [c]) in Some (r @ s)),
     cert_not_before = (\<lambda>_. 100), cert_not_after = (\<lambda>_. 200), key_from_sec1 = one_byte,
     sig_from_der = (\<lambda>bs. if length bs = 96 then Some (take 48 bs, drop 48 bs) else None),
     key_verify_digest = (\<lambda>k d g. g = toy_sign k d), sev_from_bytes = toy_from_bytes, sev_to_bytes = toy_to_bytes,
     sev_default = toy_default, sev_cert_from_pem = one_byte,
     sev_verify = (\<lambda>k r. case toy_to_bytes r of None \<Rightarrow> False
       | Some bs \<Rightarrow> ar_signature r = packed (toy_split (toy_sign k (toy_hash 48 (take MEASURABLE_PREFIX_LEN bs))))),
     key_from_pkcs8 = one_byte, key_sign_digest = toy_sign, sig_split = toy_split\<rparr>"

definition toy_issuer :: "u8 mock_issuer" where
  "toy_issuer = \<lparr>vcek_signing_key = 3, bundled_vcek_pem = [3]\<rparr>"

interpretation toy: snp_pki toy_lib toy_issuer "[1]" "[2]" 3 3 3
proof
  show "chain_ok toy_lib [1] [2] (bundled_vcek_pem toy_issuer) 3"
    unfolding verify_mock_chain_Inr [symmetric] by code_simp
  show "\<exists>bs. sev_to_bytes toy_lib (mock_report toy_lib rd sig) = Some bs \<and> MEASURABLE_PREFIX_LEN \<le> length bs \<and>
      sev_from_bytes toy_lib bs = Some (mock_report toy_lib rd sig)"
    if "length rd = 64" "length (fst sig) = 72" "length (snd sig) = 72" for rd sig
    using that by (simp add: toy_lib_def toy_to_bytes_def toy_from_bytes_def mock_report_def skeleton_for_tests_def MEASURABLE_PREFIX_LEN_def)
  show "take MEASURABLE_PREFIX_LEN bs = take MEASURABLE_PREFIX_LEN bs'"
    if "sev_to_bytes toy_lib (mock_report toy_lib rd sig) = Some bs" "sev_to_bytes toy_lib (mock_report toy_lib rd sig') = Some bs'"
    for rd sig sig' bs bs'
    using that by (auto simp: toy_lib_def toy_to_bytes_def mock_report_def MEASURABLE_PREFIX_LEN_def)
  show "sev_verify toy_lib 3 (mock_report toy_lib rd (packed (sig_split toy_lib g)))"
    if "sev_to_bytes toy_lib (mock_report toy_lib rd (packed (sig_split toy_lib g))) = Some bs"
      "key_verify_digest toy_lib 3 (lib_sha384 toy_lib (take MEASURABLE_PREFIX_LEN bs)) g" for rd g bs
    using that by (simp add: toy_lib_def mock_report_def)
  show "length r = 48 \<and> length s = 48" if "sig_split toy_lib g = (r, s)" for g r s
    using that by (cases g) (auto simp: toy_lib_def toy_split_def)
qed (simp_all add: toy_lib_def toy_issuer_def one_byte_def toy_hash_def)

definition toy_verifier :: snp_verifier where
  "toy_verifier = snp_verifier_new \<lparr>ark_pem = [1], ask_pem = [2], use_mock_chain = True\<rparr> 150"

lemma toy_trusts: "trusts toy_lib [1] [2] 3 toy_verifier"
  by (simp add: trusts_def toy_verifier_def snp_verifier_new_def toy_lib_def)

section \<open>Evidence and the relying party\<close>

text \<open>C30: Evidence of the mock issuer verifies for exactly what it was issued for: an attested executor's
  report is accepted for a binding if and only if the binding has the executor's model and its
  scheme identity followed by the session's nonce.\<close>

theorem evidence_round_trip:
  assumes "snp_pki L issuer ark ask vcek key sev_cert" and "trusts L ark ask vcek v"
    and "executor_evidence L \<lparr>se_issuer = MockIssuer issuer, se_model_identity = m, se_scheme_identity = s\<rparr> n = Inr ev"
    and "inj_on (lib_sha256 L) {m, ab_model_identity b, bound_scheme \<lparr>ab_model_identity = m, ab_scheme_identity = s, ab_nonce = n\<rparr>, bound_scheme b}"
  shows "(\<exists>r. snp_verify L True v (report_bytes ev) (vcek_cert_pem ev) b = Inr r) \<longleftrightarrow>
    ab_model_identity b = m \<and> bound_scheme b = bound_scheme \<lparr>ab_model_identity = m, ab_scheme_identity = s, ab_nonce = n\<rparr>"
  by (rule snp_pki.evidence_ok [OF assms(1,3,2,4)])

text \<open>The evidence the runner publishes names its identities as lossy text, so a relying party that
  verifies it through the service's adapter accepts it if and only if both identities are valid
  UTF-8; the runner's scheme identity is a hash, which as a rule is not.\<close>

theorem runner_evidence_accepted_iff:
  assumes "snp_pki L issuer ark ask vcek key sev_cert" and "trusts L ark ask vcek v"
    and "inj_on (lib_sha256 L) {m, utf8_lossy m, s, utf8_lossy s}"
  shows "\<exists>e. build_evidence L (MockIssuer issuer) m s = Inr e \<and>
    (adapter_verify L True v e = Inr () \<longleftrightarrow> utf8_valid m \<and> utf8_valid s)"
  by (rule snp_pki.runner_evidence [OF assms])

text \<open>Startup fails closed: a runner that gets an issuer either has \<open>SNP_MODE=production\<close>, the
  device and a build with it, and then issues hardware reports only, or has \<open>SNP_MODE=mock\<close> and a
  build with the mock.\<close>

theorem startup_fails_closed:
  "rbind (fail_as (\<lambda>_. []) (runtime_mode_from_env snp_mode device)) (for_mode L b) = Inr i \<longleftrightarrow>
     (snp_mode = Some (ascii ''production'') \<and> device \<and> feature_snp b \<and>
       (\<exists>fw. rb_firmware b = Some fw \<and> i = Hardware \<lparr>hw_firmware = fw, hw_vmpl = 0\<rparr>)) \<or>
     (snp_mode = Some (ascii ''mock'') \<and> feature_mock b \<and> utf8_valid (rb_key_pem b) \<and>
       (\<exists>k. key_from_pkcs8 L (rb_key_pem b) = Some k \<and> i = MockIssuer \<lparr>vcek_signing_key = k, bundled_vcek_pem = rb_vcek_pem b\<rparr>))"
proof -
  have ne: "ascii ''mock'' \<noteq> ascii ''production''" by code_simp
  have prod: "for_mode L b Production = Inr i \<longleftrightarrow> feature_snp b \<and> (\<exists>fw. rb_firmware b = Some fw \<and> i = Hardware \<lparr>hw_firmware = fw, hw_vmpl = 0\<rparr>)"
    by (auto simp: for_mode_def hardware_new_def hardware_with_vmpl_def rbind_Inr_iff)
  have mock: "for_mode L b Mock = Inr i \<longleftrightarrow> feature_mock b \<and> utf8_valid (rb_key_pem b) \<and>
      (\<exists>k. key_from_pkcs8 L (rb_key_pem b) = Some k \<and> i = MockIssuer \<lparr>vcek_signing_key = k, bundled_vcek_pem = rb_vcek_pem b\<rparr>)"
    by (auto simp: for_mode_def mock_from_bundled_def rbind_Inr_iff)
  show ?thesis
    by (cases snp_mode) (use ne in \<open>auto simp: runtime_mode_from_env_def rbind_Inr_iff prod mock\<close>)
qed

section \<open>Witnesses\<close>

definition demo_executor :: "u8 snp_executor" where
  "demo_executor = \<lparr>se_issuer = MockIssuer toy_issuer, se_model_identity = [77], se_scheme_identity = [5, 6]\<rparr>"

lemma toy_inj: "distinct (map f xs) \<Longrightarrow> inj_on f (set xs)"
  by (simp add: distinct_map)

theorem evidence_round_trip_witness:
  "\<exists>ev. executor_evidence toy_lib demo_executor (Some [9]) = Inr ev \<and>
    (\<exists>r. snp_verify toy_lib True toy_verifier (report_bytes ev) (vcek_cert_pem ev) \<lparr>ab_model_identity = [77], ab_scheme_identity = [5, 6], ab_nonce = Some [9]\<rparr> = Inr r) \<and>
    (\<nexists>r. snp_verify toy_lib True toy_verifier (report_bytes ev) (vcek_cert_pem ev) \<lparr>ab_model_identity = [77], ab_scheme_identity = [5, 6], ab_nonce = Some [8]\<rparr> = Inr r)"
proof -
  let ?b = "\<lambda>n. \<lparr>ab_model_identity = [77], ab_scheme_identity = [5, 6], ab_nonce = Some [n]\<rparr>"
  obtain ev where ev: "executor_evidence toy_lib demo_executor (Some [9]) = Inr ev"
    using toy.mock_issue_ok [OF toy.report_data_length [of "[77]" "[5, 6]" "Some [9]"]]
    by (auto simp: executor_evidence_def demo_executor_def issue_def)
  have sha: "lib_sha256 toy_lib = toy_hash 32" by (simp add: toy_lib_def)
  have i9: "inj_on (toy_hash 32) {[77], [77], [5, 6, 9], [5, 6, 9]}" and i8: "inj_on (toy_hash 32) {[77], [77], [5, 6, 9], [5, 6, 8]}"
    by (simp_all add: inj_on_def) code_simp+
  note rt = evidence_round_trip [OF toy.snp_pki_axioms toy_trusts ev [unfolded demo_executor_def]]
  have "\<exists>r. snp_verify toy_lib True toy_verifier (report_bytes ev) (vcek_cert_pem ev) (?b 9) = Inr r"
    using rt [of "?b 9"] i9 by (simp add: bound_scheme_def sha)
  moreover have "\<nexists>r. snp_verify toy_lib True toy_verifier (report_bytes ev) (vcek_cert_pem ev) (?b 8) = Inr r"
    using rt [of "?b 8"] i8 by (simp add: bound_scheme_def sha)
  ultimately show ?thesis using ev by blast
qed

theorem runner_evidence_accepted_iff_witness:
  "\<exists>e. build_evidence toy_lib (MockIssuer toy_issuer) [77] [200, 1] = Inr e \<and> adapter_verify toy_lib True toy_verifier e \<noteq> Inr ()"
proof -
  have l: "utf8_lossy [77] = [77]" "utf8_lossy [200, 1] = [239, 191, 189, 1]" "\<not> utf8_valid [200, 1]" by code_simp+
  have "inj_on (lib_sha256 toy_lib) {[77], utf8_lossy [77], [200, 1], utf8_lossy [200, 1]}"
    unfolding l by (simp add: toy_lib_def inj_on_def) code_simp
  from runner_evidence_accepted_iff [OF toy.snp_pki_axioms toy_trusts this] l(3) show ?thesis by blast
qed

theorem attestation_binds_witness:
  "\<exists>ev. executor_evidence toy_lib demo_executor (Some [9]) = Inr ev \<and>
    (\<forall>r. snp_verify toy_lib True toy_verifier (report_bytes ev) (vcek_cert_pem ev) \<lparr>ab_model_identity = [77], ab_scheme_identity = [5, 7], ab_nonce = Some [9]\<rparr> \<noteq> Inr r)"
proof -
  let ?b = "\<lambda>n. \<lparr>ab_model_identity = [77], ab_scheme_identity = [5, n], ab_nonce = Some [9]\<rparr>"
  obtain ev where ev: "executor_evidence toy_lib demo_executor (Some [9]) = Inr ev"
    using toy.mock_issue_ok [OF toy.report_data_length [of "[77]" "[5, 6]" "Some [9]"]]
    by (auto simp: executor_evidence_def demo_executor_def issue_def)
  then have "mock_issue toy_lib toy_issuer (report_data_build (lib_sha256 toy_lib) [77] [5, 6] (Some [9])) = Inr ev"
    by (simp add: executor_evidence_def demo_executor_def issue_def)
  from toy.verify_issued [OF this toy.report_data_length toy_trusts, of "?b 6"] obtain r where
    r: "snp_verify toy_lib True toy_verifier (report_bytes ev) (vcek_cert_pem ev) (?b 6) = Inr r" by (auto simp: Let_def)
  have len: "length (lib_sha256 toy_lib (ab_model_identity (?b 6))) = length (lib_sha256 toy_lib (ab_model_identity (?b 7)))" by simp
  have inj: "inj_on (lib_sha256 toy_lib) {ab_model_identity (?b 6), ab_model_identity (?b 7), bound_scheme (?b 6), bound_scheme (?b 7)}"
    by (simp add: toy_lib_def bound_scheme_def inj_on_def) code_simp
  have "snp_verify toy_lib True toy_verifier (report_bytes ev) (vcek_cert_pem ev) (?b 7) \<noteq> Inr r'" for r'
    using attestation_binds [OF r _ len inj, of toy_verifier "vcek_cert_pem ev" r'] by auto
  with ev show ?thesis by blast
qed

theorem report_binds_configuration_witness:
  "report_data_build (toy_hash 32) [77] (compose_scheme_identity (toy_hash 32) [10] (scheme_identity_digest_v1 (toy_hash 32) policy_V1 default_scheme_params)) None \<noteq>
   report_data_build (toy_hash 32) [77] (compose_scheme_identity (toy_hash 32) [20] (scheme_identity_digest_v1 (toy_hash 32) policy_V1 default_scheme_params)) None"
proof -
  let ?d = "scheme_identity_digest_v1 (toy_hash 32) policy_V1 default_scheme_params"
  let ?f = "scheme_identity_fragment_v1 policy_V1 default_scheme_params"
  let ?S = "{[77], [77], compose_scheme_identity (toy_hash 32) [10] ?d, compose_scheme_identity (toy_hash 32) [20] ?d} \<union>
      {[10] @ [0] @ ?d, [20] @ [0] @ ?d, ?f, ?f}"
  have hd: "hd (toy_hash 32 (x # xs)) = x + 1" for x xs by (simp add: toy_hash_def)
  have c: "\<exists>r. toy_hash 32 (x # xs) = (x + 1) # r" for x xs by (simp add: toy_hash_def)
  have "\<exists>f. ?f = 103 # f" by (simp add: scheme_identity_fragment_v1_def line_def policy_V1_def ascii_def)
  then obtain f where f: "?f = 103 # f" by blast
  obtain r where r: "compose_scheme_identity (toy_hash 32) [10] ?d = 11 # r" using c [of 10 "0 # ?d"] by (auto simp: compose_scheme_identity_def)
  obtain s where s: "compose_scheme_identity (toy_hash 32) [20] ?d = 21 # s" using c [of 20 "0 # ?d"] by (auto simp: compose_scheme_identity_def)
  have "inj_on (hd \<circ> toy_hash 32) ?S" unfolding r s f by (simp add: inj_on_def hd)
  then have inj: "inj_on (toy_hash 32) ?S" by (rule inj_on_imageI2)
  have len: "\<forall>x. length (toy_hash 32 x) = 32" by (auto simp: toy_hash_def min_def)
  have "[10] \<noteq> [20 :: u8]" by simp
  then show ?thesis using report_binds_configuration [OF len inj] by blast
qed

end
