(* ===== verification/Rag_Core.thy ===== *)
theory Rag_Core
  imports Compass_Hnsw Keying
begin

text \<open>
  The retrieval core of \<^verbatim>\<open>crates/core\<close>: document and ciphertext types (\<^verbatim>\<open>types.rs\<close>), the keyed
  generator and its samplers (\<^verbatim>\<open>prf.rs\<close>), the two distance-preserving embedding schemes
  (\<^verbatim>\<open>sap.rs\<close>, \<^verbatim>\<open>caprise.rs\<close>), the AES-GCM chunk cipher (\<^verbatim>\<open>content.rs\<close>), similarity ranking
  (\<^verbatim>\<open>distance.rs\<close>) and the in-memory encrypted index (\<^verbatim>\<open>storage.rs\<close>).  HMAC, ChaCha20,
  AES-GCM, the arithmetic of \<open>f32\<close> and the system's entropy are parameters.
\<close>

section \<open>Types\<close>

record document_chunk =
  dc_id :: str
  dc_text :: str

record 'f encrypted_embedding =
  ee_scheme :: str
  ee_vector :: "'f list"
  ee_nonce :: bytes
  ee_original_dimension :: nat

record chunk_ciphertext =
  ct_chunk_id :: str
  ct_scheme :: str
  ct_nonce :: bytes
  ct_ciphertext :: bytes

record 'f retrieval_hit =
  rh_id :: str
  rh_score :: 'f
  rh_text :: str
  rh_embedding :: "'f encrypted_embedding"

section \<open>Parameters\<close>

text \<open>Operations of \<open>f32\<close> beyond those of the index; \<open>f_total_less\<close> is \<open>total_cmp\<close> being
  \<open>Less\<close>, \<open>f_sum_start\<close> what \<open>sum()\<close> starts from.\<close>

record 'f f32_math =
  f_powf :: "'f \<Rightarrow> 'f \<Rightarrow> 'f"
  f_cos :: "'f \<Rightarrow> 'f"
  f_sin :: "'f \<Rightarrow> 'f"
  f_pi :: 'f
  f_epsilon :: 'f
  f_of_nat :: "nat \<Rightarrow> 'f"
  f_of_bits :: "u32 \<Rightarrow> 'f"
  f_sum_start :: 'f
  f_total_less :: "'f \<Rightarrow> 'f \<Rightarrow> bool"

text \<open>HMAC-SHA-256, ChaCha20 and AES-256-GCM; a draw from the entropy of the system.\<close>

record ('g, 'f) prf_ops =
  hmac_sha256 :: "bytes \<Rightarrow> bytes \<Rightarrow> bytes"
  chacha_from_seed :: "bytes \<Rightarrow> 'g"
  random_f32 :: "'g \<Rightarrow> 'f \<times> 'g"

record aes_gcm =
  gcm_encrypt :: "bytes \<Rightarrow> bytes \<Rightarrow> bytes \<Rightarrow> bytes option"
  gcm_decrypt :: "bytes \<Rightarrow> bytes \<Rightarrow> bytes \<Rightarrow> bytes option"

type_synonym 'w entropy = "nat \<Rightarrow> 'w \<Rightarrow> bytes \<times> 'w"

definition fill_bytes :: "'w entropy \<Rightarrow> nat \<Rightarrow> ('w, 'e, bytes) eff" where
  "fill_bytes R n = (\<lambda>w. let (bs, w') = R n w in (Inr bs, w'))"

text \<open>A computation on one field of the state.\<close>

definition zoom :: "('s \<Rightarrow> 't) \<Rightarrow> ('t \<Rightarrow> 's \<Rightarrow> 's) \<Rightarrow> ('t, 'e, 'a) eff \<Rightarrow> ('s, 'e, 'a) eff" where
  "zoom sel upd m = (\<lambda>s. let (r, t) = m (sel s) in (r, upd t s))"

section \<open>The keyed generator\<close>

definition derive_rng :: "('g, 'f) prf_ops \<Rightarrow> bytes \<Rightarrow> bytes \<Rightarrow> bytes \<Rightarrow> 'g" where
  "derive_rng P k nonce label = chacha_from_seed P (take 32 (hmac_sha256 P k (label @ nonce)))"

function sample_raw :: "'f f32_ops \<Rightarrow> 'f f32_math \<Rightarrow> ('g, 'f) prf_ops \<Rightarrow> nat \<Rightarrow> 'f list \<Rightarrow> 'g \<Rightarrow> 'f list" where
  "sample_raw F H P dims raw g =
     (if length raw < dims then
        let (u1, g) = random_f32 P g;
            u1 = f_clamp F u1 (f_epsilon H) (f_lit F 1);
            (u2, g) = random_f32 P g;
            radius = f_sqrt F (f_mul F (f_lit F (- 2)) (f_ln F u1));
            theta = f_mul F (f_mul F (f_lit F 2) (f_pi H)) u2;
            raw' = raw @ [f_mul F radius (f_cos H theta)];
            raw'' = (if length raw' < dims then raw' @ [f_mul F radius (f_sin H theta)] else raw')
        in sample_raw F H P dims raw'' g
      else raw)"
  by pat_completeness auto
termination
  by (relation "measure (\<lambda>(F, H, P, dims, raw, g). dims - length raw)") (auto split: if_splits)

declare sample_raw.simps [simp del]

definition f_eq :: "'f f32_ops \<Rightarrow> 'f \<Rightarrow> 'f \<Rightarrow> bool" where
  "f_eq F a b \<longleftrightarrow> f_le F a b \<and> f_le F b a"

definition sample_unit_vector :: "'f f32_ops \<Rightarrow> 'f f32_math \<Rightarrow> ('g, 'f) prf_ops \<Rightarrow> 'g \<Rightarrow> nat \<Rightarrow> 'f list" where
  "sample_unit_vector F H P g dims =
     (let raw = sample_raw F H P dims [] g;
          norm = f_sqrt F (fold (\<lambda>v s. f_add F s (f_mul F v v)) raw (f_sum_start H))
      in if f_eq F norm (f_lit F 0) then replicate dims (f_lit F 0)
         else map (\<lambda>v. f_div F v norm) raw)"

definition sample_uniform_open01 :: "'f f32_ops \<Rightarrow> 'f f32_math \<Rightarrow> ('g, 'f) prf_ops \<Rightarrow> 'g \<Rightarrow> 'f" where
  "sample_uniform_open01 F H P g = f_clamp F (fst (random_f32 P g)) (f_epsilon H) (f_sub F (f_lit F 1) (f_epsilon H))"

section \<open>Embedding schemes\<close>

text \<open>The trait \<open>EmbeddingEncryptionScheme\<close>; the state is what the scheme draws its nonces from.\<close>

record ('s, 'f) embedding_scheme =
  scheme_name :: str
  encrypt_document :: "'f list \<Rightarrow> ('s, string, 'f encrypted_embedding) eff"
  encrypt_query :: "'f list \<Rightarrow> ('s, string, 'f encrypted_embedding) eff"
  decrypt_document :: "'f encrypted_embedding \<Rightarrow> ('s, string, 'f list) eff"

definition blur :: "'f f32_ops \<Rightarrow> 'f \<Rightarrow> 'f \<Rightarrow> 'f list \<Rightarrow> 'f list \<Rightarrow> 'f list" where
  "blur F scale radius noise v = map (\<lambda>(v, n). f_add F (f_mul F v scale) (f_mul F n radius)) (zip v noise)"

definition unblur :: "'f f32_ops \<Rightarrow> 'f \<Rightarrow> 'f \<Rightarrow> 'f list \<Rightarrow> 'f list \<Rightarrow> 'f list" where
  "unblur F scale radius noise v = map (\<lambda>(v, n). f_div F (f_sub F v (f_mul F n radius)) scale) (zip v noise)"

definition inv_power :: "'f f32_ops \<Rightarrow> 'f f32_math \<Rightarrow> 'f \<Rightarrow> nat \<Rightarrow> 'f" where
  "inv_power F H u dims = f_powf H u (f_div F (f_lit F 1) (f_of_nat H dims))"

record 'f sap_key =
  sk_scale_factor :: 'f
  sk_beta :: 'f
  sk_seed_key :: bytes

definition sap_generate :: "'w entropy \<Rightarrow> 'f \<Rightarrow> 'f \<Rightarrow> ('w, 'e, 'f sap_key) eff" where
  "sap_generate R scale b = ebind (fill_bytes R 32) (\<lambda>seed. ereturn \<lparr>sk_scale_factor = scale, sk_beta = b, sk_seed_key = seed\<rparr>)"

definition sap_radius :: "'f f32_ops \<Rightarrow> 'f f32_math \<Rightarrow> 'f sap_key \<Rightarrow> 'f \<Rightarrow> nat \<Rightarrow> 'f" where
  "sap_radius F H k u dims = f_div F (f_mul F (f_mul F (inv_power F H u dims) (sk_scale_factor k)) (sk_beta k)) (f_lit F 4)"

definition sap_encrypt_with_nonce :: "'f f32_ops \<Rightarrow> 'f f32_math \<Rightarrow> ('g, 'f) prf_ops \<Rightarrow> 'f sap_key \<Rightarrow> 'f list \<Rightarrow> bytes \<Rightarrow>
    (string, 'f encrypted_embedding) outcome" where
  "sap_encrypt_with_nonce F H P k v nonce =
     (if v = [] then Inl (Fail ''embedding must not be empty'')
      else
        let dims = length v;
            noise = sample_unit_vector F H P (derive_rng P (sk_seed_key k) nonce (ascii ''sap:direction'')) dims;
            u = sample_uniform_open01 F H P (derive_rng P (sk_seed_key k) nonce (ascii ''sap:radius''));
            radius = sap_radius F H k u dims
        in Inr \<lparr>ee_scheme = ascii ''sap'', ee_vector = blur F (sk_scale_factor k) radius noise v, ee_nonce = nonce,
             ee_original_dimension = dims\<rparr>)"

definition sap_decrypt_with_nonce :: "'f f32_ops \<Rightarrow> 'f f32_math \<Rightarrow> ('g, 'f) prf_ops \<Rightarrow> 'f sap_key \<Rightarrow> 'f encrypted_embedding \<Rightarrow>
    (string, 'f list) outcome" where
  "sap_decrypt_with_nonce F H P k ct =
     (if ee_scheme ct \<noteq> ascii ''sap'' then Inl (Fail ''ciphertext scheme mismatch: expected sap'')
      else if ee_vector ct = [] then Inl (Fail ''ciphertext vector must not be empty'')
      else if length (ee_nonce ct) \<noteq> 16 then Inl (Fail ''sap nonce must be 16 bytes'')
      else
        let dims = length (ee_vector ct);
            noise = sample_unit_vector F H P (derive_rng P (sk_seed_key k) (ee_nonce ct) (ascii ''sap:direction'')) dims;
            u = sample_uniform_open01 F H P (derive_rng P (sk_seed_key k) (ee_nonce ct) (ascii ''sap:radius''));
            radius = sap_radius F H k u dims
        in Inr (unblur F (sk_scale_factor k) radius noise (ee_vector ct)))"

definition sap_scheme :: "'f f32_ops \<Rightarrow> 'f f32_math \<Rightarrow> ('g, 'f) prf_ops \<Rightarrow> 'w entropy \<Rightarrow> 'f sap_key \<Rightarrow> ('w, 'f) embedding_scheme" where
  "sap_scheme F H P R k = \<lparr>scheme_name = ascii ''sap'',
     encrypt_document = (\<lambda>v. ebind (fill_bytes R 16) (\<lambda>nonce. elift (sap_encrypt_with_nonce F H P k v nonce))),
     encrypt_query = (\<lambda>v. ebind (fill_bytes R 16) (\<lambda>nonce. elift (sap_encrypt_with_nonce F H P k v nonce))),
     decrypt_document = (\<lambda>ct. elift (sap_decrypt_with_nonce F H P k ct))\<rparr>"

record 'f caprise_key =
  ck_scale_factor :: 'f
  ck_beta :: 'f
  ck_seed_key :: bytes

definition caprise_generate :: "'w entropy \<Rightarrow> 'f \<Rightarrow> 'f \<Rightarrow> ('w, 'e, 'f caprise_key) eff" where
  "caprise_generate R scale b = ebind (fill_bytes R 32) (\<lambda>seed. ereturn \<lparr>ck_scale_factor = scale, ck_beta = b, ck_seed_key = seed\<rparr>)"

definition caprise_from_seed :: "'f \<Rightarrow> 'f \<Rightarrow> bytes \<Rightarrow> 'f caprise_key" where
  "caprise_from_seed scale b seed = \<lparr>ck_scale_factor = scale, ck_beta = b, ck_seed_key = seed\<rparr>"

definition caprise_radius :: "'f f32_ops \<Rightarrow> 'f f32_math \<Rightarrow> 'f caprise_key \<Rightarrow> 'f \<Rightarrow> 'f \<Rightarrow> nat \<Rightarrow> 'f" where
  "caprise_radius F H k coefficient u dims =
     f_mul F (f_mul F (f_mul F coefficient (ck_scale_factor k)) (ck_beta k)) (inv_power F H u dims)"

definition caprise_encrypt_internal :: "'f f32_ops \<Rightarrow> 'f f32_math \<Rightarrow> ('g, 'f) prf_ops \<Rightarrow> 'f caprise_key \<Rightarrow> 'f list \<Rightarrow> bytes \<Rightarrow> str \<Rightarrow> 'f \<Rightarrow>
    str \<Rightarrow> (string, 'f encrypted_embedding) outcome" where
  "caprise_encrypt_internal F H P k v nonce label coefficient scheme =
     (if v = [] then Inl (Fail ''embedding must not be empty'')
      else
        let dims = length v;
            direction = sample_unit_vector F H P (derive_rng P (ck_seed_key k) nonce label) dims;
            u = sample_uniform_open01 F H P (derive_rng P (ck_seed_key k) nonce (ascii ''caprise:radius''));
            radius = caprise_radius F H k coefficient u dims
        in Inr \<lparr>ee_scheme = scheme, ee_vector = blur F (ck_scale_factor k) radius direction v, ee_nonce = nonce,
             ee_original_dimension = dims\<rparr>)"

definition caprise_encrypt_document :: "'f f32_ops \<Rightarrow> 'f f32_math \<Rightarrow> ('g, 'f) prf_ops \<Rightarrow> 'w entropy \<Rightarrow> 'f caprise_key \<Rightarrow> 'f list \<Rightarrow>
    ('w, string, 'f encrypted_embedding) eff" where
  "caprise_encrypt_document F H P R k v = ebind (fill_bytes R 16) (\<lambda>nonce.
     elift (caprise_encrypt_internal F H P k v nonce (ascii ''caprise:db'') (f_div F (f_lit F 3) (f_lit F 8)) (ascii ''caprise-db'')))"

definition caprise_encrypt_query :: "'f f32_ops \<Rightarrow> 'f f32_math \<Rightarrow> ('g, 'f) prf_ops \<Rightarrow> 'w entropy \<Rightarrow> 'f caprise_key \<Rightarrow> 'f list \<Rightarrow>
    ('w, string, 'f encrypted_embedding) eff" where
  "caprise_encrypt_query F H P R k v = ebind (fill_bytes R 16) (\<lambda>nonce.
     elift (caprise_encrypt_internal F H P k v nonce (ascii ''caprise:query'') (f_div F (f_lit F 1) (f_lit F 8)) (ascii ''caprise-query'')))"

definition caprise_decrypt_document :: "'f f32_ops \<Rightarrow> 'f f32_math \<Rightarrow> ('g, 'f) prf_ops \<Rightarrow> 'f caprise_key \<Rightarrow> 'f encrypted_embedding \<Rightarrow>
    (string, 'f list) outcome" where
  "caprise_decrypt_document F H P k ct =
     (if ee_scheme ct \<noteq> ascii ''caprise-db'' then Inl (Fail ''ciphertext scheme mismatch: expected caprise-db'')
      else if length (ee_nonce ct) \<noteq> 16 then Inl (Fail ''caprise nonce must be 16 bytes'')
      else
        let dims = length (ee_vector ct);
            direction = sample_unit_vector F H P (derive_rng P (ck_seed_key k) (ee_nonce ct) (ascii ''caprise:db'')) dims;
            u = sample_uniform_open01 F H P (derive_rng P (ck_seed_key k) (ee_nonce ct) (ascii ''caprise:radius''));
            radius = caprise_radius F H k (f_div F (f_lit F 3) (f_lit F 8)) u dims
        in Inr (unblur F (ck_scale_factor k) radius direction (ee_vector ct)))"

definition caprise_scheme :: "'f f32_ops \<Rightarrow> 'f f32_math \<Rightarrow> ('g, 'f) prf_ops \<Rightarrow> 'w entropy \<Rightarrow> 'f caprise_key \<Rightarrow> ('w, 'f) embedding_scheme" where
  "caprise_scheme F H P R k = \<lparr>scheme_name = ascii ''caprise'',
     encrypt_document = caprise_encrypt_document F H P R k,
     encrypt_query = caprise_encrypt_query F H P R k,
     decrypt_document = (\<lambda>ct. elift (caprise_decrypt_document F H P k ct))\<rparr>"

section \<open>The chunk cipher\<close>

text \<open>The cipher is its 32-byte key.\<close>

definition chunk_cipher_generate :: "'w entropy \<Rightarrow> ('w, 'e, bytes) eff" where
  "chunk_cipher_generate R = fill_bytes R 32"

definition encrypt_chunk :: "aes_gcm \<Rightarrow> 'w entropy \<Rightarrow> bytes \<Rightarrow> document_chunk \<Rightarrow> ('w, string, chunk_ciphertext) eff" where
  "encrypt_chunk A R k c =
     ebind (fill_bytes R 12) (\<lambda>nonce.
     case gcm_encrypt A k nonce (dc_text c) of
       None \<Rightarrow> efault (Fail ''failed to AES-encrypt chunk text'')
     | Some ct \<Rightarrow> ereturn \<lparr>ct_chunk_id = dc_id c, ct_scheme = ascii ''aes-256-gcm'', ct_nonce = nonce, ct_ciphertext = ct\<rparr>)"

definition decrypt_chunk :: "aes_gcm \<Rightarrow> bytes \<Rightarrow> chunk_ciphertext \<Rightarrow> (string, document_chunk) outcome" where
  "decrypt_chunk A k e =
     (if ct_scheme e \<noteq> ascii ''aes-256-gcm'' then Inl (Fail ''unsupported chunk encryption scheme'')
      else if length (ct_nonce e) \<noteq> 12 then Inl Panic
      else case gcm_decrypt A k (ct_nonce e) (ct_ciphertext e) of
        None \<Rightarrow> Inl (Fail ''failed to AES-decrypt chunk text'')
      | Some plaintext \<Rightarrow>
          if utf8_valid plaintext then Inr \<lparr>dc_id = ct_chunk_id e, dc_text = plaintext\<rparr>
          else Inl (Fail ''chunk plaintext is not valid utf-8''))"

section \<open>Similarity and the encrypted index\<close>

definition dot :: "'f f32_ops \<Rightarrow> 'f f32_math \<Rightarrow> 'f list \<Rightarrow> 'f list \<Rightarrow> 'f" where
  "dot F H a b = fold (\<lambda>(x, y) s. f_add F s (f_mul F x y)) (zip a b) (f_sum_start H)"

definition l2_norm :: "'f f32_ops \<Rightarrow> 'f f32_math \<Rightarrow> 'f list \<Rightarrow> 'f" where
  "l2_norm F H v = f_sqrt F (dot F H v v)"

definition cosine_similarity :: "'f f32_ops \<Rightarrow> 'f f32_math \<Rightarrow> 'f list \<Rightarrow> 'f list \<Rightarrow> 'f" where
  "cosine_similarity F H a b =
     (let na = l2_norm F H a; nb = l2_norm F H b in
      if f_eq F na (f_lit F 0) \<or> f_eq F nb (f_lit F 0) then f_lit F 0
      else f_div F (dot F H a b) (f_mul F na nb))"

definition top_k_by_similarity :: "'f f32_ops \<Rightarrow> 'f f32_math \<Rightarrow> 'f list \<Rightarrow> 'f encrypted_embedding list \<Rightarrow> nat \<Rightarrow> (nat \<times> 'f) list" where
  "top_k_by_similarity F H query vectors k =
     take k (sort_by (\<lambda>l r. f_total_less H (snd r) (snd l))
       (map (\<lambda>(idx, e). (idx, cosine_similarity F H query (ee_vector e))) (enumerate 0 vectors)))"

record 'f stored_chunk =
  sc_chunk_id :: str
  sc_encrypted_chunk :: chunk_ciphertext
  sc_embedding :: "'f encrypted_embedding"

type_synonym 'f encrypted_index = "'f stored_chunk list"

definition index_insert :: "chunk_ciphertext \<Rightarrow> 'f encrypted_embedding \<Rightarrow> 'f encrypted_index \<Rightarrow> 'f encrypted_index" where
  "index_insert c e records = records @ [\<lparr>sc_chunk_id = ct_chunk_id c, sc_encrypted_chunk = c, sc_embedding = e\<rparr>]"

definition index_len :: "'f encrypted_index \<Rightarrow> nat" where
  "index_len records = length records"

definition index_search :: "'f f32_ops \<Rightarrow> 'f f32_math \<Rightarrow> 'f encrypted_index \<Rightarrow> 'f encrypted_embedding \<Rightarrow> nat \<Rightarrow>
    (chunk_ciphertext \<times> 'f encrypted_embedding \<times> 'f) list" where
  "index_search F H records query top_k =
     map (\<lambda>(idx, score). (sc_encrypted_chunk (records ! idx), sc_embedding (records ! idx), score))
       (top_k_by_similarity F H (ee_vector query) (map sc_embedding records) top_k)"

end
