(* ===== verification/Rag_Service.thy ===== *)
theory Rag_Service
  imports Rag_Core Attest
begin

text \<open>
  The retrieval services of \<^verbatim>\<open>crates/gelo-rag\<close>: one tenant with a fixed scheme
  (\<^verbatim>\<open>service.rs\<close>), and many tenants whose keys are derived per request from the user's and
  the enclave's secret (\<^verbatim>\<open>two_party_service.rs\<close>).  The embedder is a parameter.
\<close>

type_synonym ('m, 'f) rag_embedder = "str list \<Rightarrow> ('m, string, 'f list list) eff"

text \<open>\<open>&embeddings[0]\<close>.\<close>

definition first_row :: "'f list list \<Rightarrow> (string, 'f list) outcome" where
  "first_row rows = (case rows of [] \<Rightarrow> Inl Panic | v # _ \<Rightarrow> Inr v)"

section \<open>The single-tenant service\<close>

record ('m, 's, 'w, 'f) rag_service =
  rs_embedder :: 'm
  rs_scheme :: 's
  rs_entropy :: 'w
  rs_cipher :: bytes
  rs_index :: "'f encrypted_index"

definition rag_new :: "'w entropy \<Rightarrow> 'm \<Rightarrow> 's \<Rightarrow> 'w \<Rightarrow> ('m, 's, 'w, 'f) rag_service" where
  "rag_new R m s w = (let (k, w) = R 32 w in
     \<lparr>rs_embedder = m, rs_scheme = s, rs_entropy = w, rs_cipher = k, rs_index = []\<rparr>)"

definition rag_ingest_one :: "('s, 'f) embedding_scheme \<Rightarrow> aes_gcm \<Rightarrow> 'w entropy \<Rightarrow> document_chunk \<times> 'f list \<Rightarrow>
    (('m, 's, 'w, 'f) rag_service, string, unit) eff" where
  "rag_ingest_one E A R = (\<lambda>(chunk, embedding).
     ebind (zoom rs_scheme (\<lambda>t s. s\<lparr>rs_scheme := t\<rparr>) (encrypt_document E embedding)) (\<lambda>encrypted.
     ebind (eget rs_cipher) (\<lambda>k.
     ebind (zoom rs_entropy (\<lambda>t s. s\<lparr>rs_entropy := t\<rparr>) (encrypt_chunk A R k chunk)) (\<lambda>encrypted_chunk.
     emodify (\<lambda>s. s\<lparr>rs_index := index_insert encrypted_chunk encrypted (rs_index s)\<rparr>)))))"

definition rag_ingest :: "('m, 'f) rag_embedder \<Rightarrow> ('s, 'f) embedding_scheme \<Rightarrow> aes_gcm \<Rightarrow> 'w entropy \<Rightarrow> document_chunk list \<Rightarrow>
    (('m, 's, 'w, 'f) rag_service, string, unit) eff" where
  "rag_ingest emb E A R chunks =
     ebind (zoom rs_embedder (\<lambda>t s. s\<lparr>rs_embedder := t\<rparr>) (emb (map dc_text chunks))) (\<lambda>embeddings.
     efor (zip chunks embeddings) (rag_ingest_one E A R))"

definition open_hit :: "aes_gcm \<Rightarrow> bytes \<Rightarrow> chunk_ciphertext \<times> 'f encrypted_embedding \<times> 'f \<Rightarrow> (string, 'f retrieval_hit) outcome" where
  "open_hit A k = (\<lambda>(c, e, score).
     rbind (decrypt_chunk A k c) (\<lambda>chunk.
     Inr \<lparr>rh_id = dc_id chunk, rh_score = score, rh_text = dc_text chunk, rh_embedding = e\<rparr>))"

definition rag_query :: "'f f32_ops \<Rightarrow> 'f f32_math \<Rightarrow> ('m, 'f) rag_embedder \<Rightarrow> ('s, 'f) embedding_scheme \<Rightarrow> aes_gcm \<Rightarrow> str \<Rightarrow> nat \<Rightarrow>
    (('m, 's, 'w, 'f) rag_service, string, 'f retrieval_hit list) eff" where
  "rag_query F H emb E A txt top_k =
     ebind (zoom rs_embedder (\<lambda>t s. s\<lparr>rs_embedder := t\<rparr>) (emb [txt])) (\<lambda>embeddings.
     ebind (elift (first_row embeddings)) (\<lambda>v.
     ebind (zoom rs_scheme (\<lambda>t s. s\<lparr>rs_scheme := t\<rparr>) (encrypt_query E v)) (\<lambda>encrypted_query.
     ebind (eget (\<lambda>s. (rs_cipher s, index_search F H (rs_index s) encrypted_query top_k))) (\<lambda>(k, hits).
     elift (rmap (open_hit A k) hits)))))"

definition rag_index_len :: "('m, 's, 'w, 'f) rag_service \<Rightarrow> nat" where
  "rag_index_len s = index_len (rs_index s)"

section \<open>The two-party service\<close>

datatype two_party_error = UnknownTenant tenant_id | Inner string

record ('m, 'w, 'f) two_party =
  tp_embedder :: 'm
  tp_entropy :: 'w
  tp_secrets :: "tenant_id \<rightharpoonup> bytes"
  tp_indices :: "tenant_id \<rightharpoonup> 'f encrypted_index"
  tp_params :: scheme_params
  tp_policy :: hkdf_policy

text \<open>Everything the service takes from outside.\<close>

record ('m, 'w, 'g, 'f) rag_ext =
  rx_f32 :: "'f f32_ops"
  rx_math :: "'f f32_math"
  rx_prf :: "('g, 'f) prf_ops"
  rx_aes :: aes_gcm
  rx_hkdf :: hkdf
  rx_sha256 :: "bytes \<Rightarrow> bytes"
  rx_entropy :: "'w entropy"
  rx_embed :: "('m, 'f) rag_embedder"

definition two_party_with_params :: "'m \<Rightarrow> 'w \<Rightarrow> scheme_params \<Rightarrow> hkdf_policy \<Rightarrow> ('m, 'w, 'f) two_party" where
  "two_party_with_params m w ps po = \<lparr>tp_embedder = m, tp_entropy = w, tp_secrets = Map.empty, tp_indices = Map.empty,
     tp_params = ps, tp_policy = po\<rparr>"

definition two_party_new :: "'m \<Rightarrow> 'w \<Rightarrow> ('m, 'w, 'f) two_party" where
  "two_party_new m w = two_party_with_params m w default_scheme_params policy_V1"

definition service_scheme_identity :: "('m, 'w, 'g, 'f) rag_ext \<Rightarrow> ('m, 'w, 'f) two_party \<Rightarrow> bytes" where
  "service_scheme_identity X s = scheme_identity_digest_v1 (rx_sha256 X) (tp_policy s) (tp_params s)"

definition tenant_known :: "tenant_id \<Rightarrow> ('m, 'w, 'f) two_party \<Rightarrow> bool" where
  "tenant_known t s \<longleftrightarrow> tp_secrets s t \<noteq> None"

definition index_len_for :: "tenant_id \<Rightarrow> ('m, 'w, 'f) two_party \<Rightarrow> nat" where
  "index_len_for t s = (case tp_indices s t of Some i \<Rightarrow> index_len i | None \<Rightarrow> 0)"

definition forget_tenant :: "tenant_id \<Rightarrow> ('m, 'w, 'f) two_party \<Rightarrow> ('m, 'w, 'f) two_party" where
  "forget_tenant t s = s\<lparr>tp_secrets := (tp_secrets s)(t := None), tp_indices := (tp_indices s)(t := None)\<rparr>"

type_synonym ('m, 'w, 'f, 'a) tp = "(('m, 'w, 'f) two_party, two_party_error, 'a) eff"

definition with_entropy :: "('w, 'e, 'a) eff \<Rightarrow> (('m, 'w, 'f) two_party, 'e, 'a) eff" where
  "with_entropy = zoom tp_entropy (\<lambda>t s. s\<lparr>tp_entropy := t\<rparr>)"

definition or_create_tee_secret :: "('m, 'w, 'g, 'f) rag_ext \<Rightarrow> tenant_id \<Rightarrow> ('m, 'w, 'f, bytes) tp" where
  "or_create_tee_secret X t =
     ebind (eget (\<lambda>s. tp_secrets s t)) (\<lambda>found.
     case found of
       Some sk \<Rightarrow> ereturn sk
     | None \<Rightarrow>
         ebind (with_entropy (fill_bytes (rx_entropy X) 32)) (\<lambda>buf.
         eseq (emodify (\<lambda>s. s\<lparr>tp_secrets := (tp_secrets s)(t \<mapsto> buf)\<rparr>)) (ereturn buf)))"

definition require_tee_secret :: "tenant_id \<Rightarrow> ('m, 'w, 'f, bytes) tp" where
  "require_tee_secret t =
     ebind (eget (\<lambda>s. tp_secrets s t)) (\<lambda>found.
     case found of None \<Rightarrow> efault (Fail (UnknownTenant t)) | Some sk \<Rightarrow> ereturn sk)"

text \<open>The request's scheme key and chunk key.\<close>

definition request_keys :: "('m, 'w, 'g, 'f) rag_ext \<Rightarrow> tenant_id \<Rightarrow> bytes \<Rightarrow> bytes \<Rightarrow> ('m, 'w, 'f, 'f caprise_key \<times> bytes) tp" where
  "request_keys X t user_x_sk tee_sk = eget (\<lambda>s.
     let (seed, k) = derive_v1 (rx_hkdf X) (tp_policy s) user_x_sk tee_sk t in
     (caprise_from_seed (f_of_bits (rx_math X) (sp_scale (tp_params s))) (f_of_bits (rx_math X) (sp_beta (tp_params s))) seed, k))"

definition embed_texts :: "('m, 'w, 'g, 'f) rag_ext \<Rightarrow> str list \<Rightarrow> ('m, 'w, 'f, 'f list list) tp" where
  "embed_texts X texts = efail_as Inner (zoom tp_embedder (\<lambda>t s. s\<lparr>tp_embedder := t\<rparr>) (rx_embed X texts))"

definition ingest_one :: "('m, 'w, 'g, 'f) rag_ext \<Rightarrow> tenant_id \<Rightarrow> 'f caprise_key \<Rightarrow> bytes \<Rightarrow> document_chunk \<times> 'f list \<Rightarrow>
    ('m, 'w, 'f, unit) tp" where
  "ingest_one X t ck k = (\<lambda>(chunk, embedding).
     ebind (efail_as Inner (with_entropy (caprise_encrypt_document (rx_f32 X) (rx_math X) (rx_prf X) (rx_entropy X) ck embedding))) (\<lambda>encrypted.
     ebind (efail_as Inner (with_entropy (encrypt_chunk (rx_aes X) (rx_entropy X) k chunk))) (\<lambda>encrypted_chunk.
     emodify (\<lambda>s. s\<lparr>tp_indices := (tp_indices s)(t \<mapsto> index_insert encrypted_chunk encrypted (the (tp_indices s t)))\<rparr>))))"

definition ingest_chunks_for :: "('m, 'w, 'g, 'f) rag_ext \<Rightarrow> tenant_id \<Rightarrow> bytes \<Rightarrow> document_chunk list \<Rightarrow> ('m, 'w, 'f, unit) tp" where
  "ingest_chunks_for X t user_x_sk chunks =
     ebind (or_create_tee_secret X t) (\<lambda>tee_sk.
     ebind (request_keys X t user_x_sk tee_sk) (\<lambda>(ck, k).
     ebind (embed_texts X (map dc_text chunks)) (\<lambda>embeddings.
     eseq (emodify (\<lambda>s. s\<lparr>tp_indices := (tp_indices s)(t \<mapsto> case tp_indices s t of Some i \<Rightarrow> i | None \<Rightarrow> [])\<rparr>))
       (efor (zip chunks embeddings) (ingest_one X t ck k)))))"

definition query_for :: "('m, 'w, 'g, 'f) rag_ext \<Rightarrow> tenant_id \<Rightarrow> bytes \<Rightarrow> str \<Rightarrow> nat \<Rightarrow> ('m, 'w, 'f, 'f retrieval_hit list) tp" where
  "query_for X t user_x_sk txt top_k =
     ebind (require_tee_secret t) (\<lambda>tee_sk.
     ebind (request_keys X t user_x_sk tee_sk) (\<lambda>(ck, k).
     ebind (embed_texts X [txt]) (\<lambda>embeddings.
     ebind (elift (fail_as Inner (first_row embeddings))) (\<lambda>v.
     ebind (efail_as Inner (with_entropy (caprise_encrypt_query (rx_f32 X) (rx_math X) (rx_prf X) (rx_entropy X) ck v))) (\<lambda>encrypted_query.
     ebind (eget (\<lambda>s. tp_indices s t)) (\<lambda>found.
     case found of
       None \<Rightarrow> ereturn []
     | Some index \<Rightarrow>
         elift (fail_as Inner (rmap (open_hit (rx_aes X) k) (index_search (rx_f32 X) (rx_math X) index encrypted_query top_k)))))))))"

definition rotate_tenant :: "tenant_id \<Rightarrow> bytes \<Rightarrow> bytes \<Rightarrow> ('m, 'w, 'f, unit) tp" where
  "rotate_tenant t old new =
     ebind (eget (tenant_known t)) (\<lambda>known.
     if \<not> known then efault (Fail (UnknownTenant t))
     else efault (Fail (Inner ''tenant rotation not implemented (deferred to milestone M8)'')))"

end
