(* ===== verification/Rag_Correct.thy ===== *)
theory Rag_Correct
  imports Rag_Service Compass_Hnsw_Correct
begin

text \<open>
  Correctness of the retrieval core and of the two-party service: the schemes remove the noise
  they added, the ranking is exact, a sealed chunk opens under its own key and no other, a
  request touches one tenant, and every index holds what a log of the successful ingests says.
\<close>

section \<open>Laws of the parameters\<close>

text \<open>AES-GCM encrypts any message of at most \<open>2 ^ 36\<close> bytes under a nonce of 12 bytes, and what
  it encrypted it decrypts; \<open>aes_authentic\<close> is its idealised authenticity: no message opens
  under another key.\<close>

definition aes_max :: nat where
  "aes_max = 2 ^ 36"

definition aes_ok :: "aes_gcm \<Rightarrow> bool" where
  "aes_ok A \<longleftrightarrow> (\<forall>k n p. length n = 12 \<longrightarrow> length p \<le> aes_max \<longrightarrow>
     (\<exists>ct. gcm_encrypt A k n p = Some ct \<and> gcm_decrypt A k n ct = Some p))"

definition aes_authentic :: "aes_gcm \<Rightarrow> bool" where
  "aes_authentic A \<longleftrightarrow> (\<forall>k k' n p ct. gcm_encrypt A k n p = Some ct \<longrightarrow> k \<noteq> k' \<longrightarrow> gcm_decrypt A k' n ct = None)"

definition entropy_ok :: "'w entropy \<Rightarrow> bool" where
  "entropy_ok R \<longleftrightarrow> (\<forall>n w. length (fst (R n w)) = n)"

text \<open>An embedder that returns at all returns one non-empty row for each text.\<close>

definition embed_ok :: "('m, 'f) rag_embedder \<Rightarrow> bool" where
  "embed_ok emb \<longleftrightarrow> (\<forall>texts m rows. fst (emb texts m) = Inr rows \<longrightarrow> length rows = length texts \<and> [] \<notin> set rows)"

definition rag_ok :: "('m, 'w, 'g, 'f) rag_ext \<Rightarrow> bool" where
  "rag_ok X \<longleftrightarrow> aes_ok (rx_aes X) \<and> entropy_ok (rx_entropy X) \<and> embed_ok (rx_embed X)"

lemma fill_bytes_eq: "fill_bytes R n w = (Inr (fst (R n w)), snd (R n w))"
  by (simp add: fill_bytes_def split: prod.split)

section \<open>Ranking\<close>

lemma top_k_fst:
  "set (map fst (top_k_by_similarity F H q vs k)) \<subseteq> {..<length vs}"
proof -
  let ?xs = "map (\<lambda>(idx, e). (idx, cosine_similarity F H q (ee_vector e))) (enumerate 0 vs)"
  have "set (top_k_by_similarity F H q vs k) \<subseteq> set ?xs"
    unfolding top_k_by_similarity_def using set_take_subset set_sort_by by metis
  moreover have "fst ` set ?xs \<subseteq> {..<length vs}" by (auto simp: enumerate_eq_zip dest: set_zip_leftD)
  ultimately show ?thesis by auto
qed

lemma distinct_sort_by: "distinct (map f (sort_by b xs)) \<longleftrightarrow> distinct (map f xs)"
proof -
  have "mset (map f (sort_by b xs)) = mset (map f xs)" by simp
  then show ?thesis by (rule mset_eq_imp_distinct_iff)
qed

lemma top_k_distinct: "distinct (map fst (top_k_by_similarity F H q vs k))"
proof -
  let ?xs = "map (\<lambda>(idx, e). (idx, cosine_similarity F H q (ee_vector e))) (enumerate 0 vs)"
  have "map fst ?xs = map fst (enumerate 0 vs)" by (simp add: comp_def case_prod_unfold)
  then have "distinct (map fst ?xs)" by (simp only: map_fst_enumerate distinct_upt)
  then show ?thesis unfolding top_k_by_similarity_def take_map [symmetric] by (simp add: distinct_sort_by distinct_take)
qed

lemma top_k_length: "length (top_k_by_similarity F H q vs k) = min k (length vs)"
  by (simp add: top_k_by_similarity_def)

text \<open>With \<open>total_cmp\<close> a total order, the hits come best first and nothing left out beats one of them.\<close>

definition total_order :: "('f \<Rightarrow> 'f \<Rightarrow> bool) \<Rightarrow> bool" where
  "total_order lt \<longleftrightarrow> (\<forall>a b. lt a b \<longrightarrow> \<not> lt b a) \<and> (\<forall>a b c. \<not> lt a b \<longrightarrow> \<not> lt b c \<longrightarrow> \<not> lt a c)"

lemma set_insert_by: "set (insert_by bef x xs) = insert x (set xs)"
  by (metis mset_insert_by set_mset_add_mset_insert set_mset_mset)

lemma sorted_insert_by:
  assumes "\<And>a b. bef a b \<Longrightarrow> \<not> bef b a" and "\<And>a b c. \<not> bef a b \<Longrightarrow> \<not> bef b c \<Longrightarrow> \<not> bef a c"
    and "sorted_wrt (\<lambda>a b. \<not> bef b a) xs"
  shows "sorted_wrt (\<lambda>a b. \<not> bef b a) (insert_by bef x xs)"
  using assms(3)
proof (induction xs)
  case (Cons y ys)
  show ?case
  proof (cases "bef y x")
    case True
    then show ?thesis using Cons assms(1) by (auto simp: set_insert_by)
  next
    case False
    have "\<not> bef z x" if "z \<in> set ys" for z using assms(2) [of z y x] False Cons.prems that by auto
    then show ?thesis using False Cons.prems by auto
  qed
qed simp

lemma sorted_sort_by:
  assumes "\<And>a b. bef a b \<Longrightarrow> \<not> bef b a" and "\<And>a b c. \<not> bef a b \<Longrightarrow> \<not> bef b c \<Longrightarrow> \<not> bef a c"
  shows "sorted_wrt (\<lambda>a b. \<not> bef b a) (sort_by bef xs)"
proof (induction xs)
  case (Cons x xs)
  then show ?case using sorted_insert_by [of bef, OF assms] by (simp add: sort_by_def)
qed (simp add: sort_by_def)

text \<open>\<open>top\<close> is an exact ranking of \<open>n\<close> scored entries, cut at \<open>k\<close>.\<close>

definition ranking :: "('f \<Rightarrow> 'f \<Rightarrow> bool) \<Rightarrow> (nat \<Rightarrow> 'f) \<Rightarrow> nat \<Rightarrow> nat \<Rightarrow> nat list \<Rightarrow> bool" where
  "ranking lt score n k is \<longleftrightarrow> distinct is \<and> set is \<subseteq> {..<n} \<and> length is = min k n \<and>
     sorted_wrt (\<lambda>i j. \<not> lt (score i) (score j)) is \<and>
     (\<forall>i \<in> set is. \<forall>j < n. j \<notin> set is \<longrightarrow> \<not> lt (score i) (score j))"

lemma top_k_ranking:
  assumes "total_order (f_total_less H)"
  shows "\<exists>is. top_k_by_similarity F H q vs k = map (\<lambda>i. (i, cosine_similarity F H q (ee_vector (vs ! i)))) is \<and>
    ranking (f_total_less H) (\<lambda>i. cosine_similarity F H q (ee_vector (vs ! i))) (length vs) k is"
proof -
  let ?sc = "\<lambda>i. cosine_similarity F H q (ee_vector (vs ! i))"
  let ?xs = "map (\<lambda>(idx, e). (idx, cosine_similarity F H q (ee_vector e))) (enumerate 0 vs)"
  let ?bef = "\<lambda>l r. f_total_less H (snd r) (snd l)"
  define ys where "ys = sort_by ?bef ?xs"
  define ix where "ix = map fst ys"
  have xs: "set ?xs = (\<lambda>i. (i, ?sc i)) ` {..<length vs}"
    by (force simp: enumerate_eq_zip set_zip image_iff)
  have "set ys = set ?xs" unfolding ys_def by (rule set_sort_by)
  then have elem: "y = (fst y, ?sc (fst y))" if "y \<in> set ys" for y using that xs by auto
  have ys: "ys = map (\<lambda>i. (i, ?sc i)) ix" unfolding ix_def map_map by (rule map_idI [symmetric]) (simp add: elem [symmetric])
  have set_ix: "set ix = {..<length vs}" unfolding ix_def using \<open>set ys = set ?xs\<close> xs by (simp only: list.set_map image_image) simp
  have "map fst ?xs = map fst (enumerate 0 vs)" by (simp add: comp_def case_prod_unfold)
  then have d: "distinct ix" unfolding ix_def ys_def by (simp add: distinct_sort_by)
  have "sorted_wrt (\<lambda>a b. \<not> ?bef b a) ys" unfolding ys_def
  proof (rule sorted_sort_by)
    show "\<not> f_total_less H (snd a) (snd b)" if "f_total_less H (snd b) (snd a)" for a b :: "nat \<times> _"
      using assms that unfolding total_order_def by blast
    show "\<not> f_total_less H (snd c) (snd a)" if "\<not> f_total_less H (snd b) (snd a)" "\<not> f_total_less H (snd c) (snd b)"
      for a b c :: "nat \<times> _"
      using assms that unfolding total_order_def by blast
  qed
  then have s: "sorted_wrt (\<lambda>i j. \<not> f_total_less H (?sc i) (?sc j)) ix" unfolding ys by (simp add: sorted_wrt_map)
  have len: "length ix = length vs" using distinct_card [OF d] set_ix by simp
  have cut: "sorted_wrt (\<lambda>i j. \<not> f_total_less H (?sc i) (?sc j)) (take k ix @ drop k ix)" using s by simp
  have "ranking (f_total_less H) ?sc (length vs) k (take k ix)"
    unfolding ranking_def
  proof (intro conjI ballI allI impI)
    fix i j assume i: "i \<in> set (take k ix)" and j: "j < length vs" "j \<notin> set (take k ix)"
    have "j \<in> set (take k ix @ drop k ix)" using j(1) set_ix by simp
    then have "j \<in> set (drop k ix)" using j(2) by (simp only: set_append) blast
    then show "\<not> f_total_less H (?sc i) (?sc j)" using cut i unfolding sorted_wrt_append by blast
  next
    show "set (take k ix) \<subseteq> {..<length vs}" using set_take_subset set_ix by metis
    show "sorted_wrt (\<lambda>i j. \<not> f_total_less H (?sc i) (?sc j)) (take k ix)" using cut unfolding sorted_wrt_append by blast
  qed (use d len in simp_all)
  moreover have "top_k_by_similarity F H q vs k = take k ys" unfolding top_k_by_similarity_def ys_def by simp
  ultimately show ?thesis unfolding ys take_map by blast
qed

section \<open>The schemes remove the noise they added\<close>

lemma length_sample_raw: "length raw \<le> dims \<Longrightarrow> length (sample_raw F H P dims raw g) = dims"
proof (induction F H P dims raw g rule: sample_raw.induct)
  case (1 F H P dims raw g)
  show ?case
  proof (cases "length raw < dims")
    case True
    then show ?thesis using "1.IH" by (subst sample_raw.simps) (auto simp: Let_def split: prod.split)
  next
    case False
    then show ?thesis using "1.prems" by (subst sample_raw.simps) simp
  qed
qed

lemma length_unit_vector [simp]: "length (sample_unit_vector F H P g dims) = dims"
  by (simp add: sample_unit_vector_def Let_def length_sample_raw)

text \<open>\<open>denoise F scale r n v\<close> is what is left of a coordinate: the noise \<open>n * r\<close> put on the scaled
  value, taken off again, and the scale divided out, each step in \<open>f32\<close>.\<close>

definition denoise :: "'f f32_ops \<Rightarrow> 'f \<Rightarrow> 'f \<Rightarrow> 'f \<Rightarrow> 'f \<Rightarrow> 'f" where
  "denoise F scale r n v = f_div F (f_sub F (f_add F (f_mul F v scale) (f_mul F n r)) (f_mul F n r)) scale"

lemma unblur_blur:
  "length noise = length v \<Longrightarrow> unblur F scale r noise (blur F scale r noise v) = map2 (denoise F scale r) noise v"
  by (induction noise v rule: list_induct2) (simp_all add: unblur_def blur_def denoise_def)

lemma length_blur [simp]: "length noise = length v \<Longrightarrow> length (blur F scale r noise v) = length v"
  by (simp add: blur_def)

lemma sap_round:
  assumes "v \<noteq> []" and "length nonce = 16"
  shows "\<exists>ct noise r. sap_encrypt_with_nonce F H P k v nonce = Inr ct \<and> length noise = length v \<and>
    ee_vector ct = blur F (sk_scale_factor k) r noise v \<and>
    sap_decrypt_with_nonce F H P k ct = Inr (map2 (denoise F (sk_scale_factor k) r) noise v)"
proof -
  let ?noise = "sample_unit_vector F H P (derive_rng P (sk_seed_key k) nonce (ascii ''sap:direction'')) (length v)"
  let ?r = "sap_radius F H k (sample_uniform_open01 F H P (derive_rng P (sk_seed_key k) nonce (ascii ''sap:radius''))) (length v)"
  have "blur F (sk_scale_factor k) ?r ?noise v \<noteq> []" using assms(1) length_blur [of ?noise v F "sk_scale_factor k" ?r] by fastforce
  then show ?thesis using assms
    by (intro exI [of _ "\<lparr>ee_scheme = ascii ''sap'', ee_vector = blur F (sk_scale_factor k) ?r ?noise v, ee_nonce = nonce,
      ee_original_dimension = length v\<rparr>"] exI [of _ ?noise] exI [of _ ?r])
      (simp add: sap_encrypt_with_nonce_def sap_decrypt_with_nonce_def Let_def unblur_blur)
qed

lemma caprise_round:
  assumes "v \<noteq> []" and "length nonce = 16"
  shows "\<exists>ct noise r. caprise_encrypt_internal F H P k v nonce (ascii ''caprise:db'') (f_div F (f_lit F 3) (f_lit F 8)) (ascii ''caprise-db'') = Inr ct \<and>
    length noise = length v \<and> ee_vector ct = blur F (ck_scale_factor k) r noise v \<and>
    caprise_decrypt_document F H P k ct = Inr (map2 (denoise F (ck_scale_factor k) r) noise v)"
proof -
  let ?noise = "sample_unit_vector F H P (derive_rng P (ck_seed_key k) nonce (ascii ''caprise:db'')) (length v)"
  let ?r = "caprise_radius F H k (f_div F (f_lit F 3) (f_lit F 8))
    (sample_uniform_open01 F H P (derive_rng P (ck_seed_key k) nonce (ascii ''caprise:radius''))) (length v)"
  show ?thesis using assms
    by (intro exI [of _ "\<lparr>ee_scheme = ascii ''caprise-db'', ee_vector = blur F (ck_scale_factor k) ?r ?noise v, ee_nonce = nonce,
      ee_original_dimension = length v\<rparr>"] exI [of _ ?noise] exI [of _ ?r])
      (simp add: caprise_encrypt_internal_def caprise_decrypt_document_def Let_def unblur_blur)
qed

section \<open>Sealed chunks\<close>

text \<open>A stored record holds a chunk under a key.\<close>

definition sealed :: "aes_gcm \<Rightarrow> bytes \<Rightarrow> document_chunk \<Rightarrow> 'f stored_chunk \<Rightarrow> bool" where
  "sealed A k c r \<longleftrightarrow> (\<exists>n ct. length n = 12 \<and> length (dc_text c) \<le> aes_max \<and> gcm_encrypt A k n (dc_text c) = Some ct \<and>
     sc_encrypted_chunk r = \<lparr>ct_chunk_id = dc_id c, ct_scheme = ascii ''aes-256-gcm'', ct_nonce = n, ct_ciphertext = ct\<rparr>)"

lemma sealed_opens:
  assumes "sealed A k c r" and "aes_ok A" and "utf8_valid (dc_text c)"
  shows "decrypt_chunk A k (sc_encrypted_chunk r) = Inr c"
proof -
  obtain n ct where n: "length n = 12" and "length (dc_text c) \<le> aes_max" and e: "gcm_encrypt A k n (dc_text c) = Some ct"
    and r: "sc_encrypted_chunk r = \<lparr>ct_chunk_id = dc_id c, ct_scheme = ascii ''aes-256-gcm'', ct_nonce = n, ct_ciphertext = ct\<rparr>"
    using assms(1) unfolding sealed_def by blast
  obtain ct' where "gcm_encrypt A k n (dc_text c) = Some ct'" "gcm_decrypt A k n ct' = Some (dc_text c)"
    using assms(2) n \<open>length (dc_text c) \<le> aes_max\<close> unfolding aes_ok_def by blast
  then have "gcm_decrypt A k n ct = Some (dc_text c)" using e by simp
  then show ?thesis using n r assms(3) by (simp add: decrypt_chunk_def)
qed

lemma sealed_other_key:
  assumes "sealed A k c r" and "aes_authentic A" and "k' \<noteq> k"
  shows "decrypt_chunk A k' (sc_encrypted_chunk r) = Inl (Fail ''failed to AES-decrypt chunk text'')"
proof -
  obtain n ct where n: "length n = 12" and e: "gcm_encrypt A k n (dc_text c) = Some ct"
    and r: "sc_encrypted_chunk r = \<lparr>ct_chunk_id = dc_id c, ct_scheme = ascii ''aes-256-gcm'', ct_nonce = n, ct_ciphertext = ct\<rparr>"
    using assms(1) unfolding sealed_def by blast
  have "gcm_decrypt A k' n ct = None" using assms(2,3) e unfolding aes_authentic_def by metis
  then show ?thesis using n r by (simp add: decrypt_chunk_def)
qed

lemma encrypt_chunk_seals:
  assumes "aes_ok A" and "entropy_ok R" and "length (dc_text c) \<le> aes_max"
  shows "\<exists>e. fst (encrypt_chunk A R k c w) = Inr e \<and> (\<forall>v. sealed A k c \<lparr>sc_chunk_id = ct_chunk_id e, sc_encrypted_chunk = e, sc_embedding = v\<rparr>)"
proof -
  let ?n = "fst (R 12 w)"
  have n: "length ?n = 12" using assms(2) by (simp add: entropy_ok_def)
  then obtain ct where "gcm_encrypt A k ?n (dc_text c) = Some ct" using assms(1,3) unfolding aes_ok_def by blast
  then show ?thesis using n assms(3) by (simp add: encrypt_chunk_def ebind_def fill_bytes_eq ereturn_def sealed_def)
qed

section \<open>Requests and their log\<close>

datatype tp_op =
    TpIngest tenant_id bytes "document_chunk list"
  | TpQuery tenant_id bytes str nat
  | TpRotate tenant_id bytes bytes
  | TpForget tenant_id

fun tp_step :: "('m, 'w, 'g, 'f) rag_ext \<Rightarrow> tp_op \<Rightarrow> ('m, 'w, 'f) two_party \<Rightarrow> ('m, 'w, 'f) two_party" where
  "tp_step X (TpIngest t u cs) s = snd (ingest_chunks_for X t u cs s)"
| "tp_step X (TpQuery t u txt k) s = snd (query_for X t u txt k s)"
| "tp_step X (TpRotate t u u') s = snd (rotate_tenant t u u' s)"
| "tp_step X (TpForget t) s = forget_tenant t s"

fun op_tenant :: "tp_op \<Rightarrow> tenant_id" where
  "op_tenant (TpIngest t _ _) = t" | "op_tenant (TpQuery t _ _ _) = t" | "op_tenant (TpRotate t _ _) = t" | "op_tenant (TpForget t) = t"

fun op_chunks :: "tp_op \<Rightarrow> document_chunk list" where
  "op_chunks (TpIngest _ _ cs) = cs" | "op_chunks _ = []"

text \<open>What is ingested for each tenant and under which user secret: an ingest counts when it
  answers \<open>Ok\<close>, forgetting a tenant drops its entries.\<close>

type_synonym tp_log = "tenant_id \<Rightarrow> (bytes \<times> document_chunk) list"

fun log_step :: "('m, 'w, 'g, 'f) rag_ext \<Rightarrow> tp_op \<Rightarrow> ('m, 'w, 'f) two_party \<Rightarrow> tp_log \<Rightarrow> tp_log" where
  "log_step X (TpIngest t u cs) s l =
     (if fst (ingest_chunks_for X t u cs s) = Inr () then l(t := l t @ map (Pair u) cs) else l)"
| "log_step X (TpForget t) s l = l(t := [])"
| "log_step X op s l = l"

fun tp_run :: "('m, 'w, 'g, 'f) rag_ext \<Rightarrow> tp_op list \<Rightarrow> ('m, 'w, 'f) two_party \<times> tp_log \<Rightarrow> ('m, 'w, 'f) two_party \<times> tp_log" where
  "tp_run X [] (s, l) = (s, l)"
| "tp_run X (op # ops) (s, l) = tp_run X ops (tp_step X op s, log_step X op s l)"

text \<open>The chunk key a user derives with the enclave.\<close>

definition aes_key :: "('m, 'w, 'g, 'f) rag_ext \<Rightarrow> ('m, 'w, 'f) two_party \<Rightarrow> tenant_id \<Rightarrow> bytes \<Rightarrow> bytes" where
  "aes_key X s t u = snd (derive_v1 (rx_hkdf X) (tp_policy s) u (the (tp_secrets s t)) t)"

definition index_of :: "('m, 'w, 'f) two_party \<Rightarrow> tenant_id \<Rightarrow> 'f encrypted_index" where
  "index_of s t = (case tp_indices s t of Some i \<Rightarrow> i | None \<Rightarrow> [])"

text \<open>Every index holds what the log says, each chunk under the key of the user who ingested it.\<close>

definition tp_inv :: "('m, 'w, 'g, 'f) rag_ext \<Rightarrow> ('m, 'w, 'f) two_party \<Rightarrow> tp_log \<Rightarrow> bool" where
  "tp_inv X s l \<longleftrightarrow> (\<forall>t. list_all2 (\<lambda>r (u, c). sealed (rx_aes X) (aes_key X s t u) c r) (index_of s t) (l t) \<and>
     (tp_indices s t \<noteq> None \<longrightarrow> tp_secrets s t \<noteq> None))"

section \<open>What each request does to the state\<close>

lemma zoom_eq: "zoom g upd m s = (fst (m (g s)), upd (snd (m (g s))) s)"
  by (simp add: zoom_def split: prod.split)

lemma efail_as_eq: "efail_as h m s = (fail_as h (fst (m s)), snd (m s))"
  by (simp add: efail_as_def split: prod.split)

lemma fst_fail_as: "fail_as h r = Inr y \<longleftrightarrow> r = Inr y"
  by (auto simp: fail_as_def split: sum.splits fault.splits)

text \<open>Steps that touch at most the tenant \<open>t\<close>, and steps that touch none.\<close>

definition tenant_only :: "tenant_id set \<Rightarrow> ('m, 'w, 'f, 'a) tp \<Rightarrow> bool" where
  "tenant_only T m \<longleftrightarrow> (\<forall>s. tp_params (snd (m s)) = tp_params s \<and> tp_policy (snd (m s)) = tp_policy s \<and>
     (\<forall>t. t \<notin> T \<longrightarrow> tp_secrets (snd (m s)) t = tp_secrets s t \<and> tp_indices (snd (m s)) t = tp_indices s t))"

abbreviation quiet :: "('m, 'w, 'f, 'a) tp \<Rightarrow> bool" where
  "quiet \<equiv> tenant_only {}"

lemma quietD:
  assumes "quiet m"
  shows "tp_secrets (snd (m s)) = tp_secrets s" "tp_indices (snd (m s)) = tp_indices s"
    "tp_params (snd (m s)) = tp_params s" "tp_policy (snd (m s)) = tp_policy s"
  using assms unfolding tenant_only_def by auto

lemma tenant_only_pure [intro]: "tenant_only T (ereturn x)" "tenant_only T (efault e)" "tenant_only T (eget f)" "tenant_only T (elift r)"
  by (simp_all add: tenant_only_def eff_defs)

lemma tenant_only_ebind [intro]:
  assumes m: "tenant_only T m" and k: "\<And>x. tenant_only T (k x)" shows "tenant_only T (ebind m k)"
proof -
  have "snd (ebind m k s) = (case fst (m s) of Inl e \<Rightarrow> snd (m s) | Inr x \<Rightarrow> snd (k x (snd (m s))))" for s
    by (simp add: ebind_def split: prod.split sum.split)
  then show ?thesis using m k unfolding tenant_only_def by (simp split: sum.split)
qed

lemma tenant_only_eseq [intro]: "tenant_only T m \<Longrightarrow> tenant_only T k \<Longrightarrow> tenant_only T (eseq m k)"
  unfolding eseq_def by (rule tenant_only_ebind)

lemma tenant_only_efor [intro]: "(\<And>x. tenant_only T (f x)) \<Longrightarrow> tenant_only T (efor xs f)"
  by (induction xs) auto

lemma tenant_only_embed [intro]: "tenant_only T (embed_texts X texts)"
  by (simp add: tenant_only_def embed_texts_def efail_as_eq zoom_eq)

lemma tenant_only_entropy [intro]: "tenant_only T (with_entropy m)" "tenant_only T (efail_as h (with_entropy m'))"
  by (simp_all add: tenant_only_def with_entropy_def efail_as_eq zoom_eq)

lemma tenant_only_keys [intro]: "tenant_only T (request_keys X t u sk)"
  unfolding request_keys_def by (rule tenant_only_pure)

lemma tenant_only_emodify:
  assumes "\<And>s. tp_params (f s) = tp_params s \<and> tp_policy (f s) = tp_policy s \<and>
    (\<forall>t. t \<notin> T \<longrightarrow> tp_secrets (f s) t = tp_secrets s t \<and> tp_indices (f s) t = tp_indices s t)"
  shows "tenant_only T (emodify f)"
  using assms by (simp add: tenant_only_def emodify_def)

lemma tenant_only_cases:
  "tenant_only T m \<Longrightarrow> (\<And>x. tenant_only T (f x)) \<Longrightarrow> tenant_only T (case x of None \<Rightarrow> m | Some y \<Rightarrow> f y)"
  "(\<And>x y. tenant_only T (g x y)) \<Longrightarrow> tenant_only T (case p of (x, y) \<Rightarrow> g x y)"
  "tenant_only T m \<Longrightarrow> tenant_only T m' \<Longrightarrow> tenant_only T (if b then m else m')"
  by (simp_all split: option.split prod.split)

lemmas tenant_only_rules = tenant_only_pure tenant_only_ebind tenant_only_eseq tenant_only_efor tenant_only_embed tenant_only_entropy
  tenant_only_keys tenant_only_cases tenant_only_emodify

lemma tenant_only_query: "tenant_only T (query_for X t u txt k)"
  unfolding query_for_def require_tee_secret_def by (intro tenant_only_rules)

lemma tenant_only_rotate: "tenant_only T (rotate_tenant t u u')"
  unfolding rotate_tenant_def by (intro tenant_only_rules)

lemma tenant_only_or_create: "tenant_only {t} (or_create_tee_secret X t)"
  unfolding or_create_tee_secret_def by (intro tenant_only_rules) simp

lemma tenant_only_ingest: "tenant_only {t} (ingest_chunks_for X t u cs)"
  unfolding ingest_chunks_for_def ingest_one_def by (intro tenant_only_rules tenant_only_or_create) simp_all

lemma tenant_only_forget: "tenant_only {t} (emodify (forget_tenant t))"
  by (intro tenant_only_emodify) (simp add: forget_tenant_def)

lemma tp_step_frame:
  "tp_params (tp_step X op s) = tp_params s" "tp_policy (tp_step X op s) = tp_policy s"
  "t \<noteq> op_tenant op \<Longrightarrow> tp_secrets (tp_step X op s) t = tp_secrets s t"
  "t \<noteq> op_tenant op \<Longrightarrow> tp_indices (tp_step X op s) t = tp_indices s t"
proof -
  have c: "tenant_only {op_tenant op} (\<lambda>s. (Inr (), tp_step X op s) :: (two_party_error, unit) outcome \<times> _)"
  proof (cases op)
    case (TpIngest t u cs)
    with tenant_only_ingest [of t X u cs] show ?thesis by (simp add: tenant_only_def)
  next
    case (TpQuery t u q k)
    with tenant_only_query [of "{t}" X t u q k] show ?thesis by (simp add: tenant_only_def)
  next
    case (TpRotate t u u')
    with tenant_only_rotate [of "{t}" t u u'] show ?thesis by (simp add: tenant_only_def)
  next
    case (TpForget t)
    with tenant_only_forget [of t] show ?thesis by (simp add: tenant_only_def emodify_def)
  qed
  note c = spec [OF c [unfolded tenant_only_def snd_conv], of s]
  show "tp_params (tp_step X op s) = tp_params s" "tp_policy (tp_step X op s) = tp_policy s" using c by blast+
  show "tp_secrets (tp_step X op s) t = tp_secrets s t" "tp_indices (tp_step X op s) t = tp_indices s t" if "t \<noteq> op_tenant op"
    using c that by blast+
qed

lemma or_create_eq:
  "or_create_tee_secret X t s = (case tp_secrets s t of Some sk \<Rightarrow> (Inr sk, s)
     | None \<Rightarrow> (Inr (fst (rx_entropy X 32 (tp_entropy s))), s\<lparr>tp_entropy := snd (rx_entropy X 32 (tp_entropy s)),
         tp_secrets := (tp_secrets s)(t \<mapsto> fst (rx_entropy X 32 (tp_entropy s)))\<rparr>))"
  by (simp add: or_create_tee_secret_def with_entropy_def zoom_eq fill_bytes_eq eff_defs split: option.split prod.split)

lemma request_keys_eq: "request_keys X t u sk s =
    (Inr (caprise_from_seed (f_of_bits (rx_math X) (sp_scale (tp_params s))) (f_of_bits (rx_math X) (sp_beta (tp_params s)))
       (fst (derive_v1 (rx_hkdf X) (tp_policy s) u sk t)), snd (derive_v1 (rx_hkdf X) (tp_policy s) u sk t)), s)"
  by (simp add: request_keys_def eget_def split: prod.split)

lemma embed_texts_eq: "embed_texts X texts s =
    (fail_as Inner (fst (rx_embed X texts (tp_embedder s))), s\<lparr>tp_embedder := snd (rx_embed X texts (tp_embedder s))\<rparr>)"
  by (simp add: embed_texts_def efail_as_eq zoom_eq)

lemma with_entropy_eq: "efail_as h (with_entropy m) s =
    (fail_as h (fst (m (tp_entropy s))), s\<lparr>tp_entropy := snd (m (tp_entropy s))\<rparr>)"
  by (simp add: with_entropy_def efail_as_eq zoom_eq)

lemma caprise_encrypts:
  "v \<noteq> [] \<Longrightarrow> \<exists>e w'. caprise_encrypt_document F H P R ck v w = (Inr e, w')"
  "v \<noteq> [] \<Longrightarrow> \<exists>e w'. caprise_encrypt_query F H P R ck v w = (Inr e, w')"
  by (simp_all add: caprise_encrypt_document_def caprise_encrypt_query_def caprise_encrypt_internal_def ebind_def fill_bytes_eq
      elift_def Let_def)

text \<open>One pass of the ingestion loop, and the loop.\<close>

lemma ingest_one_ok:
  assumes "rag_ok X" and "length (dc_text c) \<le> aes_max" and "v \<noteq> []" and i: "tp_indices s t = Some i"
  shows "\<exists>r a. ingest_one X t ck k (c, v) s = (Inr (), s\<lparr>tp_entropy := a, tp_indices := (tp_indices s)(t \<mapsto> i @ [r])\<rparr>) \<and>
    sealed (rx_aes X) k c r"
proof -
  obtain e w where e: "caprise_encrypt_document (rx_f32 X) (rx_math X) (rx_prf X) (rx_entropy X) ck v (tp_entropy s) = (Inr e, w)"
    using caprise_encrypts(1) [OF assms(3), of "rx_f32 X" "rx_math X" "rx_prf X" "rx_entropy X" ck "tp_entropy s"] by auto
  obtain ec where ec: "fst (encrypt_chunk (rx_aes X) (rx_entropy X) k c w) = Inr ec"
    and sealed: "sealed (rx_aes X) k c \<lparr>sc_chunk_id = ct_chunk_id ec, sc_encrypted_chunk = ec, sc_embedding = e\<rparr>"
    using encrypt_chunk_seals [of "rx_aes X" "rx_entropy X" c k w] assms(1,2) unfolding rag_ok_def by blast
  have "ingest_one X t ck k (c, v) s = (Inr (), s\<lparr>tp_entropy := snd (encrypt_chunk (rx_aes X) (rx_entropy X) k c w),
      tp_indices := (tp_indices s)(t \<mapsto> i @ [\<lparr>sc_chunk_id = ct_chunk_id ec, sc_encrypted_chunk = ec, sc_embedding = e\<rparr>])\<rparr>)"
    using i by (simp add: ingest_one_def ebind_def with_entropy_eq e ec emodify_def index_insert_def)
  then show ?thesis using sealed by blast
qed

lemma ingest_loop_ok:
  assumes "rag_ok X"
  shows "\<forall>(c, v) \<in> set cvs. length (dc_text c) \<le> aes_max \<and> v \<noteq> [] \<Longrightarrow> tp_indices s t = Some i \<Longrightarrow>
    \<exists>rs a. efor cvs (ingest_one X t ck k) s = (Inr (), s\<lparr>tp_entropy := a, tp_indices := (tp_indices s)(t \<mapsto> i @ rs)\<rparr>) \<and>
      list_all2 (\<lambda>r c. sealed (rx_aes X) k c r) rs (map fst cvs)"
proof (induction cvs arbitrary: s i)
  case Nil
  have "s = s\<lparr>tp_entropy := tp_entropy s, tp_indices := (tp_indices s)(t \<mapsto> i @ [])\<rparr>" using Nil.prems(2) by (simp add: fun_upd_idem)
  then have "efor [] (ingest_one X t ck k) s = (Inr (), s\<lparr>tp_entropy := tp_entropy s, tp_indices := (tp_indices s)(t \<mapsto> i @ [])\<rparr>)"
    by (simp only: efor.simps ereturn_def)
  then show ?case by (metis list.simps(8) list.rel_inject(1))
next
  case (Cons cv cvs)
  obtain c v where cv: "cv = (c, v)" by (cases cv)
  obtain r a where r: "ingest_one X t ck k cv s = (Inr (), s\<lparr>tp_entropy := a, tp_indices := (tp_indices s)(t \<mapsto> i @ [r])\<rparr>)"
      "sealed (rx_aes X) k c r"
    using ingest_one_ok [OF assms, of c v s t i ck k] Cons.prems by (auto simp: cv)
  let ?s = "s\<lparr>tp_entropy := a, tp_indices := (tp_indices s)(t \<mapsto> i @ [r])\<rparr>"
  have "tp_indices ?s t = Some (i @ [r])" and "\<forall>(c, v) \<in> set cvs. length (dc_text c) \<le> aes_max \<and> v \<noteq> []"
    using Cons.prems by simp_all
  from Cons.IH [OF this(2,1)] obtain rs b where
      rs: "efor cvs (ingest_one X t ck k) ?s = (Inr (), ?s\<lparr>tp_entropy := b, tp_indices := (tp_indices ?s)(t \<mapsto> (i @ [r]) @ rs)\<rparr>)"
      "list_all2 (\<lambda>r c. sealed (rx_aes X) k c r) rs (map fst cvs)"
    by blast
  then have "efor (cv # cvs) (ingest_one X t ck k) s = (Inr (), s\<lparr>tp_entropy := b, tp_indices := (tp_indices s)(t \<mapsto> i @ r # rs)\<rparr>)"
      "list_all2 (\<lambda>r c. sealed (rx_aes X) k c r) (r # rs) (map fst (cv # cvs))"
    using r rs by (simp_all add: eseq_def ebind_def cv)
  then show ?case by blast
qed

text \<open>The whole request: the secret is there afterwards, and either the embedder failed and the
  index is what it was, or the answer is \<open>Ok\<close> and the index has grown by the sealed chunks.\<close>

lemma ingest_ok:
  assumes X: "rag_ok X" and small: "\<forall>c \<in> set cs. length (dc_text c) \<le> aes_max"
  shows "\<exists>r s'. ingest_chunks_for X t u cs s = (r, s') \<and>
    tp_secrets s' t \<noteq> None \<and> (tp_secrets s t \<noteq> None \<longrightarrow> tp_secrets s' t = tp_secrets s t) \<and>
    (r = Inr () \<longleftrightarrow> (\<exists>rows. fst (rx_embed X (map dc_text cs) (tp_embedder s)) = Inr rows)) \<and>
    (if r = Inr () then \<exists>rs. tp_indices s' t = Some (index_of s t @ rs) \<and>
        list_all2 (\<lambda>r c. sealed (rx_aes X) (aes_key X s' t u) c r) rs cs
     else tp_indices s' t = tp_indices s t)"
proof -
  obtain sk s1 where s1: "or_create_tee_secret X t s = (Inr sk, s1)" "tp_secrets s1 t = Some sk" "tp_indices s1 = tp_indices s"
      "tp_policy s1 = tp_policy s" "tp_secrets s t \<noteq> None \<longrightarrow> tp_secrets s1 = tp_secrets s" "tp_embedder s1 = tp_embedder s"
    by (cases "tp_secrets s t") (auto simp: or_create_eq split: prod.split)
  let ?emb = "rx_embed X (map dc_text cs) (tp_embedder s1)"
  let ?s2 = "s1\<lparr>tp_embedder := snd ?emb\<rparr>"
  let ?s3 = "?s2\<lparr>tp_indices := (tp_indices s1)(t \<mapsto> index_of s t)\<rparr>"
  define k where "k = snd (derive_v1 (rx_hkdf X) (tp_policy s1) u sk t)"
  obtain ck where ck: "request_keys X t u sk s1 = (Inr (ck, k), s1)" by (simp add: request_keys_eq k_def)
  have run: "ingest_chunks_for X t u cs s = (case fst ?emb of
      Inl e \<Rightarrow> (fail_as Inner (Inl e), ?s2) | Inr rows \<Rightarrow> efor (zip cs rows) (ingest_one X t ck k) ?s3)"
    by (simp add: ingest_chunks_for_def ebind_def s1 ck embed_texts_eq eseq_def emodify_def index_of_def fail_as_def
        split: sum.split fault.split)
  show ?thesis
  proof (cases "fst ?emb")
    case (Inl e)
    have "fail_as Inner (Inl e) \<noteq> Inr ()" by (simp add: fst_fail_as)
    moreover have "\<nexists>rows. fst (rx_embed X (map dc_text cs) (tp_embedder s)) = Inr rows" using Inl s1(6) by simp
    moreover have "ingest_chunks_for X t u cs s = (fail_as Inner (Inl e), ?s2)" by (simp only: run Inl sum.case)
    ultimately show ?thesis using s1 by (intro exI [of _ "fail_as Inner (Inl e)"] exI [of _ ?s2]) auto
  next
    case (Inr rows)
    then have len: "length rows = length cs" and "[] \<notin> set rows" using X unfolding rag_ok_def embed_ok_def by (metis length_map)+
    then have "\<forall>(c, v) \<in> set (zip cs rows). length (dc_text c) \<le> aes_max \<and> v \<noteq> []"
      using small by (auto dest: set_zip_leftD set_zip_rightD)
    moreover have "tp_indices ?s3 t = Some (index_of s t)" by simp
    ultimately obtain rs a where
        loop: "efor (zip cs rows) (ingest_one X t ck k) ?s3 = (Inr (), ?s3\<lparr>tp_entropy := a, tp_indices := (tp_indices ?s3)(t \<mapsto> index_of s t @ rs)\<rparr>)"
        "list_all2 (\<lambda>r c. sealed (rx_aes X) k c r) rs (map fst (zip cs rows))"
      using ingest_loop_ok [OF X] by blast
    have "aes_key X (?s3\<lparr>tp_entropy := a, tp_indices := (tp_indices ?s3)(t \<mapsto> index_of s t @ rs)\<rparr>) t u = k"
      by (simp add: aes_key_def k_def s1)
    moreover have "fst (rx_embed X (map dc_text cs) (tp_embedder s)) = Inr rows" using Inr s1(6) by simp
    ultimately show ?thesis using loop len s1 by (simp add: run Inr)
  qed
qed

section \<open>The invariant\<close>

lemma tp_step_inv:
  assumes X: "rag_ok X" and inv: "tp_inv X s l" and small: "\<forall>c \<in> set (op_chunks op). length (dc_text c) \<le> aes_max"
  shows "tp_inv X (tp_step X op s) (log_step X op s l)"
proof -
  let ?s' = "tp_step X op s" and ?l' = "log_step X op s l"
  let ?ok = "\<lambda>s l t. list_all2 (\<lambda>r (u, c). sealed (rx_aes X) (aes_key X s t u) c r) (index_of s t) (l t) \<and>
     (tp_indices s t \<noteq> None \<longrightarrow> tp_secrets s t \<noteq> None)"
  have inv: "?ok s l t" for t using inv unfolding tp_inv_def by blast
  have same: "?ok ?s' ?l' t" if "tp_secrets ?s' t = tp_secrets s t" "tp_indices ?s' t = tp_indices s t" "?l' t = l t" for t
    using inv [of t] that by (simp add: index_of_def aes_key_def tp_step_frame)
  have "?ok ?s' ?l' t" for t
  proof (cases "t = op_tenant op")
    case False
    then have "?l' t = l t" by (cases op) auto
    with False show ?thesis by (intro same) (simp_all add: tp_step_frame)
  next
    case t: True
    show ?thesis
    proof (cases op)
      case (TpQuery t' u q k)
      then show ?thesis using quietD [OF tenant_only_query [of "{}"], of X t' u q k s] by (intro same) simp_all
    next
      case (TpRotate t' u u')
      then show ?thesis using quietD [OF tenant_only_rotate [of "{}"], of t' u u' s] by (intro same) simp_all
    next
      case (TpForget t')
      then show ?thesis using t by (simp add: forget_tenant_def index_of_def)
    next
      case (TpIngest t' u cs)
      with t have op: "op = TpIngest t u cs" by simp
      obtain r s' where s': "ingest_chunks_for X t u cs s = (r, s')" "tp_secrets s' t \<noteq> None"
          "tp_secrets s t \<noteq> None \<longrightarrow> tp_secrets s' t = tp_secrets s t"
          "if r = Inr () then \<exists>rs. tp_indices s' t = Some (index_of s t @ rs) \<and>
             list_all2 (\<lambda>r c. sealed (rx_aes X) (aes_key X s' t u) c r) rs cs
           else tp_indices s' t = tp_indices s t"
        using ingest_ok [OF X, of cs t u s] small op by auto
      have s'_eq: "s' = ?s'" using op s'(1) by simp
      have old: "list_all2 (\<lambda>r (u, c). sealed (rx_aes X) (aes_key X s' t u) c r) (index_of s t) (l t)"
      proof (cases "tp_indices s t")
        case None
        then show ?thesis using inv [of t] by (simp add: index_of_def)
      next
        case (Some i)
        then have "tp_secrets s' t = tp_secrets s t" using inv [of t] s'(3) by simp
        moreover have "tp_policy s' = tp_policy s" unfolding s'_eq by (rule tp_step_frame)
        ultimately have "aes_key X s' t = aes_key X s t" by (simp add: aes_key_def fun_eq_iff)
        then show ?thesis using inv [of t] by simp
      qed
      show ?thesis
      proof (cases "r = Inr ()")
        case True
        then obtain rs where rs: "tp_indices s' t = Some (index_of s t @ rs)"
            "list_all2 (\<lambda>r c. sealed (rx_aes X) (aes_key X s' t u) c r) rs cs" using s'(4) by auto
        then have "list_all2 (\<lambda>r (u, c). sealed (rx_aes X) (aes_key X s' t u) c r) rs (map (Pair u) cs)"
          by (simp add: list.rel_map)
        then show ?thesis using old rs(1) s' True op by (simp add: index_of_def [of s'] list_all2_appendI)
      next
        case False
        then have "index_of s' t = index_of s t" using s'(4) by (simp add: index_of_def)
        then show ?thesis using old s' False op by simp
      qed
    qed
  qed
  then show ?thesis unfolding tp_inv_def by blast
qed

lemma tp_run_inv:
  assumes "rag_ok X" and "tp_run X ops (s, l) = (s', l')" and "tp_inv X s l"
    and "\<forall>op \<in> set ops. \<forall>c \<in> set (op_chunks op). length (dc_text c) \<le> aes_max"
  shows "tp_inv X s' l'"
  using assms(2-)
proof (induction ops arbitrary: s l)
  case (Cons op ops)
  then have "tp_inv X (tp_step X op s) (log_step X op s l)" using tp_step_inv [OF assms(1)] by simp
  then show ?case using Cons by simp
qed simp

lemma tp_inv_new: "tp_inv X (two_party_with_params m w ps po) (\<lambda>_. [])"
  by (simp add: tp_inv_def two_party_with_params_def index_of_def)

section \<open>What a query answers\<close>

text \<open>The scheme key of a request, the vector a query is searched with, and the score it gives the
  entry \<open>i\<close> of the index.\<close>

definition scheme_key :: "('m, 'w, 'g, 'f) rag_ext \<Rightarrow> ('m, 'w, 'f) two_party \<Rightarrow> tenant_id \<Rightarrow> bytes \<Rightarrow> 'f caprise_key" where
  "scheme_key X s t u = caprise_from_seed (f_of_bits (rx_math X) (sp_scale (tp_params s))) (f_of_bits (rx_math X) (sp_beta (tp_params s)))
     (fst (derive_v1 (rx_hkdf X) (tp_policy s) u (the (tp_secrets s t)) t))"

definition query_vector :: "('m, 'w, 'g, 'f) rag_ext \<Rightarrow> ('m, 'w, 'f) two_party \<Rightarrow> tenant_id \<Rightarrow> bytes \<Rightarrow> 'f list \<Rightarrow> 'f list" where
  "query_vector X s t u v =
     (case fst (caprise_encrypt_query (rx_f32 X) (rx_math X) (rx_prf X) (rx_entropy X) (scheme_key X s t u) v (tp_entropy s)) of
        Inl _ \<Rightarrow> [] | Inr e \<Rightarrow> ee_vector e)"

definition entry_score :: "('m, 'w, 'g, 'f) rag_ext \<Rightarrow> ('m, 'w, 'f) two_party \<Rightarrow> tenant_id \<Rightarrow> bytes \<Rightarrow> 'f list \<Rightarrow> nat \<Rightarrow> 'f" where
  "entry_score X s t u v i = cosine_similarity (rx_f32 X) (rx_math X) (query_vector X s t u v)
     (ee_vector (map sc_embedding (index_of s t) ! i))"

text \<open>A query of a known tenant whose text the embedder embeds is a search of the index whose hits
  are opened with the key of the request.\<close>

lemma query_eq:
  assumes X: "rag_ok X" and t: "tp_secrets s t \<noteq> None" and emb: "fst (rx_embed X [txt] (tp_embedder s)) = Inr rows"
  shows "\<exists>e. ee_vector e = query_vector X s t u (hd rows) \<and> fst (query_for X t u txt k s) =
    fail_as Inner (rmap (open_hit (rx_aes X) (aes_key X s t u)) (index_search (rx_f32 X) (rx_math X) (index_of s t) e k))"
proof -
  obtain v where rows: "rows = [v]" "v \<noteq> []"
    using X emb unfolding rag_ok_def embed_ok_def by (cases rows; cases "tl rows") fastforce+
  obtain sk where sk: "tp_secrets s t = Some sk" using t by blast
  obtain ck where ck: "request_keys X t u sk s = (Inr (ck, aes_key X s t u), s)" "ck = scheme_key X s t u"
    by (simp add: request_keys_eq aes_key_def scheme_key_def sk)
  obtain e w where e: "caprise_encrypt_query (rx_f32 X) (rx_math X) (rx_prf X) (rx_entropy X) ck v (tp_entropy s) = (Inr e, w)"
    using caprise_encrypts(2) [OF rows(2), of "rx_f32 X" "rx_math X" "rx_prf X" "rx_entropy X" ck "tp_entropy s"] by auto
  have "fst (query_for X t u txt k s) =
    fail_as Inner (rmap (open_hit (rx_aes X) (aes_key X s t u)) (index_search (rx_f32 X) (rx_math X) (index_of s t) e k))"
  proof (cases "tp_indices s t")
    case None
    then show ?thesis
      by (simp add: query_for_def require_tee_secret_def ebind_def eget_def sk ereturn_def ck(1) embed_texts_eq emb rows first_row_def
          elift_def with_entropy_eq e index_of_def index_search_def top_k_by_similarity_def sort_by_def)
  next
    case (Some i)
    then show ?thesis
      by (simp add: query_for_def require_tee_secret_def ebind_def eget_def sk ereturn_def ck(1) embed_texts_eq emb rows first_row_def
          elift_def with_entropy_eq e index_of_def)
  qed
  moreover have "ee_vector e = query_vector X s t u (hd rows)" using e by (simp add: query_vector_def ck(2) rows)
  ultimately show ?thesis by blast
qed

lemma rmap_map: "rmap f (map g xs) = rmap (f \<circ> g) xs"
  by (induction xs) auto

lemma rmap_Inl:
  assumes "x \<in> set xs" and "\<And>y. y \<in> set xs \<Longrightarrow> f y = Inl e \<or> (\<exists>z. f y = Inr z)" and "f x = Inl e"
  shows "rmap f xs = Inl e"
  using assms
proof (induction xs)
  case (Cons y ys)
  show ?case
  proof (cases "f y")
    case (Inl a)
    then show ?thesis using Cons.prems(2) [of y] by auto
  next
    case (Inr a)
    then have "x \<in> set ys" using Cons.prems by auto
    then show ?thesis using Cons Inr by auto
  qed
qed simp

text \<open>What the hit at entry \<open>i\<close> of the log must be.\<close>

definition hit_of :: "'f encrypted_index \<Rightarrow> (bytes \<times> document_chunk) list \<Rightarrow> (nat \<Rightarrow> 'f) \<Rightarrow> nat \<Rightarrow> 'f retrieval_hit" where
  "hit_of idx es score i = \<lparr>rh_id = dc_id (snd (es ! i)), rh_score = score i, rh_text = dc_text (snd (es ! i)),
     rh_embedding = sc_embedding (idx ! i)\<rparr>"

lemma query_opens:
  fixes u :: bytes
  assumes X: "rag_ok X" and H: "total_order (f_total_less (rx_math X))" and inv: "tp_inv X s l" and t: "tp_secrets s t \<noteq> None"
    and emb: "fst (rx_embed X [txt] (tp_embedder s)) = Inr rows"
  defines "score \<equiv> entry_score X s t u (hd rows)"
  shows "\<exists>is. ranking (f_total_less (rx_math X)) score (length (l t)) k is \<and>
    ((\<forall>i \<in> set is. aes_key X s t (fst (l t ! i)) = aes_key X s t u \<and> utf8_valid (dc_text (snd (l t ! i)))) \<longrightarrow>
       fst (query_for X t u txt k s) = Inr (map (hit_of (index_of s t) (l t) score) is)) \<and>
    (aes_authentic (rx_aes X) \<longrightarrow> (\<forall>(u', c) \<in> set (l t). utf8_valid (dc_text c)) \<longrightarrow>
       (\<exists>i \<in> set is. aes_key X s t (fst (l t ! i)) \<noteq> aes_key X s t u) \<longrightarrow>
       fst (query_for X t u txt k s) = Inl (Fail (Inner ''failed to AES-decrypt chunk text'')))"
proof -
  let ?idx = "index_of s t" and ?A = "rx_aes X" and ?key = "aes_key X s t"
  obtain e where e: "ee_vector e = query_vector X s t u (hd rows)" and q: "fst (query_for X t u txt k s) =
      fail_as Inner (rmap (open_hit ?A (?key u)) (index_search (rx_f32 X) (rx_math X) ?idx e k))"
    using query_eq [OF X t emb] by blast
  let ?score = "\<lambda>i. cosine_similarity (rx_f32 X) (rx_math X) (ee_vector e) (ee_vector (map sc_embedding ?idx ! i))"
  have score: "score = ?score" by (simp add: score_def entry_score_def e fun_eq_iff)
  obtain "is" where top: "top_k_by_similarity (rx_f32 X) (rx_math X) (ee_vector e) (map sc_embedding ?idx) k = map (\<lambda>i. (i, ?score i)) is"
      and rank: "ranking (f_total_less (rx_math X)) ?score (length (map sc_embedding ?idx)) k is"
    using top_k_ranking [OF H] by blast
  have all2: "list_all2 (\<lambda>r (u, c). sealed ?A (?key u) c r) ?idx (l t)" using inv unfolding tp_inv_def by blast
  then have len: "length ?idx = length (l t)" by (rule list_all2_lengthD)
  have bound: "i < length ?idx" if "i \<in> set is" for i using rank that unfolding ranking_def by auto
  have seal: "sealed ?A (?key (fst (l t ! i))) (snd (l t ! i)) (?idx ! i)" if "i \<in> set is" for i
    using list_all2_nthD [OF all2 bound [OF that]] by (simp add: case_prod_unfold)
  let ?hit = "\<lambda>i. (sc_encrypted_chunk (?idx ! i), sc_embedding (?idx ! i), ?score i)"
  have hits: "index_search (rx_f32 X) (rx_math X) ?idx e k = map ?hit is" by (simp add: index_search_def top)
  have opens: "open_hit ?A (?key u) (?hit i) = Inr (hit_of ?idx (l t) ?score i)"
    if "i \<in> set is" "?key (fst (l t ! i)) = ?key u" "utf8_valid (dc_text (snd (l t ! i)))" for i
    using sealed_opens [OF seal [OF that(1)] _ that(3)] X that(2) by (simp add: open_hit_def hit_of_def rag_ok_def)
  have shut: "open_hit ?A (?key u) (?hit i) = Inl (Fail ''failed to AES-decrypt chunk text'')"
    if "i \<in> set is" "?key (fst (l t ! i)) \<noteq> ?key u" "aes_authentic ?A" for i
    using sealed_other_key [OF seal [OF that(1)] that(3)] that(2) by (simp add: open_hit_def)
  have "rmap (open_hit ?A (?key u)) (map ?hit is) = Inr (map (hit_of ?idx (l t) ?score) is)"
    if "\<forall>i \<in> set is. ?key (fst (l t ! i)) = ?key u \<and> utf8_valid (dc_text (snd (l t ! i)))"
  proof -
    have "rmap (open_hit ?A (?key u) \<circ> ?hit) is = Inr (map (hit_of ?idx (l t) ?score) is)"
      using opens that by (intro rmap_Inr) simp
    then show ?thesis by (simp only: rmap_map)
  qed
  moreover have "rmap (open_hit ?A (?key u)) (map ?hit is) = Inl (Fail ''failed to AES-decrypt chunk text'')"
    if auth: "aes_authentic ?A" and valid: "\<forall>(u', c) \<in> set (l t). utf8_valid (dc_text c)"
      and i: "i \<in> set is" "?key (fst (l t ! i)) \<noteq> ?key u" for i
  proof -
    have "open_hit ?A (?key u) (?hit j) = Inl (Fail ''failed to AES-decrypt chunk text'') \<or> (\<exists>z. open_hit ?A (?key u) (?hit j) = Inr z)"
      if "j \<in> set is" for j
    proof (cases "?key (fst (l t ! j)) = ?key u")
      case True
      have "l t ! j \<in> set (l t)" using bound [OF that] len by simp
      then have "utf8_valid (dc_text (snd (l t ! j)))" using valid by (auto simp: case_prod_unfold)
      then show ?thesis using opens [OF that True] by blast
    next
      case False
      then show ?thesis using shut [OF that] auth by blast
    qed
    then have "rmap (open_hit ?A (?key u) \<circ> ?hit) is = Inl (Fail ''failed to AES-decrypt chunk text'')"
      using shut [OF i auth] i(1) by (intro rmap_Inl [of i]) (simp_all only: o_apply)
    then show ?thesis by (simp only: rmap_map)
  qed
  ultimately show ?thesis using rank unfolding score by (intro exI [of _ "is"]) (auto simp: q hits len)
qed

section \<open>Which tenants are known\<close>

text \<open>A tenant has a secret from its first ingest on, until it is forgotten.\<close>

fun registered :: "tenant_id \<Rightarrow> bool \<Rightarrow> tp_op list \<Rightarrow> bool" where
  "registered t b [] = b"
| "registered t b (TpIngest t' u cs # ops) = registered t (b \<or> t' = t) ops"
| "registered t b (TpForget t' # ops) = registered t (b \<and> t' \<noteq> t) ops"
| "registered t b (_ # ops) = registered t b ops"

lemma tp_step_known:
  assumes X: "rag_ok X" and small: "\<forall>c \<in> set (op_chunks op). length (dc_text c) \<le> aes_max" and b: "tenant_known t s = b"
  shows "registered t b (op # ops) = registered t (tenant_known t (tp_step X op s)) ops"
proof (cases "t = op_tenant op")
  case False
  then have "tenant_known t (tp_step X op s) = b" using b by (simp add: tenant_known_def tp_step_frame)
  then show ?thesis using False by (cases op) auto
next
  case t: True
  show ?thesis
  proof (cases op)
    case (TpIngest t' u cs)
    then obtain r s' where "ingest_chunks_for X t u cs s = (r, s')" "tp_secrets s' t \<noteq> None"
      using ingest_ok [OF X, of cs t u s] small by auto
    then show ?thesis using TpIngest t by (simp add: tenant_known_def)
  next
    case (TpQuery t' u q k)
    then show ?thesis using quietD(1) [OF tenant_only_query [of "{}"], of X t' u q k s] b by (simp add: tenant_known_def)
  next
    case (TpRotate t' u u')
    then show ?thesis using quietD(1) [OF tenant_only_rotate [of "{}"], of t' u u' s] b by (simp add: tenant_known_def)
  next
    case (TpForget t')
    then show ?thesis using t by (simp add: tenant_known_def forget_tenant_def)
  qed
qed

lemma tp_run_known:
  assumes "rag_ok X" and "tp_run X ops (s, l) = (s', l')" and "\<forall>op \<in> set ops. \<forall>c \<in> set (op_chunks op). length (dc_text c) \<le> aes_max"
  shows "tenant_known t s' = registered t (tenant_known t s) ops"
  using assms(2-)
proof (induction ops arbitrary: s l)
  case (Cons op ops)
  have "tenant_known t s' = registered t (tenant_known t (tp_step X op s)) ops" using Cons by simp
  then show ?case using tp_step_known [OF assms(1), of op t s "tenant_known t s" ops] Cons.prems by simp
qed simp

lemma tp_run_frame:
  assumes "tp_run X ops (s, l) = (s', l')" and "\<forall>op \<in> set ops. op_tenant op \<noteq> t"
  shows "tp_secrets s' t = tp_secrets s t \<and> tp_indices s' t = tp_indices s t \<and> tp_params s' = tp_params s \<and>
    tp_policy s' = tp_policy s \<and> l' t = l t"
  using assms
proof (induction ops arbitrary: s l)
  case (Cons op ops)
  have "log_step X op s l t = l t" using Cons.prems(2) by (cases op) auto
  moreover have "t \<noteq> op_tenant op" using Cons.prems(2) by auto
  ultimately show ?case using Cons.IH [of "tp_step X op s" "log_step X op s l"] Cons.prems by (simp add: tp_step_frame)
qed simp

section \<open>Runs of a fresh service\<close>

text \<open>A tenant with entries is known, and a query of it with any secret answers its ranking or fails
  on the first of its hits that is not under the key of the request.\<close>

lemma two_party_answers:
  assumes X: "rag_ok X" and H: "total_order (f_total_less (rx_math X))"
    and run: "tp_run X ops (two_party_with_params m w ps po, \<lambda>_. []) = (s, l)"
    and small: "\<forall>op \<in> set ops. \<forall>c \<in> set (op_chunks op). length (dc_text c) \<le> aes_max"
    and t: "l t \<noteq> []" and emb: "fst (rx_embed X [txt] (tp_embedder s)) = Inr rows"
  shows "\<exists>is. ranking (f_total_less (rx_math X)) (entry_score X s t u (hd rows)) (length (l t)) k is \<and>
    ((\<forall>i \<in> set is. aes_key X s t (fst (l t ! i)) = aes_key X s t u \<and> utf8_valid (dc_text (snd (l t ! i)))) \<longrightarrow>
       fst (query_for X t u txt k s) = Inr (map (hit_of (index_of s t) (l t) (entry_score X s t u (hd rows))) is)) \<and>
    (aes_authentic (rx_aes X) \<longrightarrow> (\<forall>(u', c) \<in> set (l t). utf8_valid (dc_text c)) \<longrightarrow>
       (\<exists>i \<in> set is. aes_key X s t (fst (l t ! i)) \<noteq> aes_key X s t u) \<longrightarrow>
       fst (query_for X t u txt k s) = Inl (Fail (Inner ''failed to AES-decrypt chunk text'')))"
proof -
  have inv: "tp_inv X s l" using tp_run_inv [OF X run tp_inv_new small] .
  then have "list_all2 (\<lambda>r (u, c). sealed (rx_aes X) (aes_key X s t u) c r) (index_of s t) (l t)"
    and known: "tp_indices s t \<noteq> None \<longrightarrow> tp_secrets s t \<noteq> None" unfolding tp_inv_def by blast+
  then have "length (index_of s t) = length (l t)" by (simp add: list_all2_lengthD)
  then have "tp_secrets s t \<noteq> None" using t known by (auto simp: index_of_def split: option.splits)
  then show ?thesis by (rule query_opens [OF X H inv _ emb])
qed

lemma tp_run_log:
  assumes "tp_run X ops (s, \<lambda>_. []) = (s', l')" and "\<forall>op \<in> set ops. \<forall>c \<in> set (op_chunks op). P c"
  shows "\<forall>(u, c) \<in> set (l' t). P c"
proof -
  have "\<forall>(u, c) \<in> set (l' t). P c" if "tp_run X ops (s, l) = (s', l')" "\<forall>t. \<forall>(u, c) \<in> set (l t). P c" for s l
    using that assms(2)
  proof (induction ops arbitrary: s l)
    case (Cons op ops)
    have "\<forall>t. \<forall>(u, c) \<in> set (log_step X op s l t). P c" using Cons.prems(2,3) by (cases op) auto
    then show ?case using Cons.IH [of "tp_step X op s" "log_step X op s l"] Cons.prems by simp
  qed simp
  from this [OF assms(1)] show ?thesis by simp
qed

section \<open>Unknown tenants\<close>

lemma fail_as_Inner: "fail_as Inner r \<noteq> Inl (Fail (UnknownTenant t))"
  by (auto simp: fail_as_def split: sum.split fault.split)

lemma query_unknown: "tp_secrets s t = None \<Longrightarrow> query_for X t u txt k s = (Inl (Fail (UnknownTenant t)), s)"
  by (simp add: query_for_def require_tee_secret_def ebind_def eget_def efault_def)

text \<open>Steps that never report an unknown tenant.\<close>

definition knowing :: "('m, 'w, 'f, 'a) tp \<Rightarrow> bool" where
  "knowing m \<longleftrightarrow> (\<forall>s t. fst (m s) \<noteq> Inl (Fail (UnknownTenant t)))"

lemma knowing_ebind: "knowing m \<Longrightarrow> (\<And>x. knowing (k x)) \<Longrightarrow> knowing (ebind m k)"
  unfolding knowing_def ebind_def by (auto split: prod.split sum.split) (metis fst_conv)

lemma knowing_steps:
  "knowing (elift (fail_as Inner r))" "knowing (efail_as Inner m)" "knowing (eget f)" "knowing (ereturn x)" "knowing (embed_texts X texts)"
  by (simp_all add: fail_as_Inner knowing_def elift_def efail_as_eq eget_def ereturn_def embed_texts_eq)

lemma knowing_cases:
  "knowing m \<Longrightarrow> (\<And>x. knowing (f x)) \<Longrightarrow> knowing (case x of None \<Rightarrow> m | Some y \<Rightarrow> f y)"
  "(\<And>x y. knowing (g x y)) \<Longrightarrow> knowing (case p of (x, y) \<Rightarrow> g x y)"
  by (simp_all split: option.split prod.split)

lemma query_known:
  assumes "tp_secrets s t \<noteq> None" shows "fst (query_for X t u txt k s) \<noteq> Inl (Fail (UnknownTenant t'))"
proof -
  obtain sk where sk: "tp_secrets s t = Some sk" using assms by blast
  let ?rest = "ebind (request_keys X t u sk) (\<lambda>(ck, k').
     ebind (embed_texts X [txt]) (\<lambda>embeddings.
     ebind (elift (fail_as Inner (first_row embeddings))) (\<lambda>v.
     ebind (efail_as Inner (with_entropy (caprise_encrypt_query (rx_f32 X) (rx_math X) (rx_prf X) (rx_entropy X) ck v))) (\<lambda>encrypted_query.
     ebind (eget (\<lambda>s. tp_indices s t)) (\<lambda>found.
     case found of
       None \<Rightarrow> ereturn []
     | Some index \<Rightarrow>
         elift (fail_as Inner (rmap (open_hit (rx_aes X) k') (index_search (rx_f32 X) (rx_math X) index encrypted_query k))))))))"
  have "knowing ?rest" unfolding request_keys_def by (intro knowing_ebind knowing_steps knowing_cases)
  moreover have "query_for X t u txt k s = ?rest s"
    by (simp add: query_for_def require_tee_secret_def ebind_def eget_def sk ereturn_def)
  ultimately show ?thesis unfolding knowing_def by metis
qed

lemma rotate_eq: "rotate_tenant t u u' s = (Inl (Fail (if tp_secrets s t = None then UnknownTenant t
    else Inner ''tenant rotation not implemented (deferred to milestone M8)'')), s)"
  by (simp add: rotate_tenant_def ebind_def eget_def efault_def tenant_known_def)

lemma map2_snd: "length xs = length ys \<Longrightarrow> map2 (\<lambda>x y. y) xs ys = ys"
  by (induction xs ys rule: list_induct2) auto

lemma caprise_labels: "ascii ''caprise-query'' \<noteq> ascii ''caprise-db''"
  by code_simp

end
