(* ===== verification/Rag_Theorems.thy ===== *)
theory Rag_Theorems
  imports Rag_Correct
begin

text \<open>
  What a user of the retrieval services can rely on: after any series of requests, a query
  returns the chunks ingested for its tenant, decrypted and ranked; one chunk of another user
  among the hits fails the query; requests for one tenant leave the others alone; a tenant is
  unknown until its first ingest and after it is forgotten; both embedding schemes take off
  exactly the noise they put on.
\<close>

section \<open>An instance of the parameters\<close>

text \<open>Key and message side by side, the key in a prefix-free code.\<close>

fun rag_demo_key :: "bytes \<Rightarrow> bytes" where
  "rag_demo_key [] = [0]"
| "rag_demo_key (x # xs) = 1 # x # rag_demo_key xs"

definition rag_demo_aes :: aes_gcm where
  "rag_demo_aes = \<lparr>gcm_encrypt = (\<lambda>k n p. Some (rag_demo_key k @ p)),
     gcm_decrypt = (\<lambda>k n ct. if take (length (rag_demo_key k)) ct = rag_demo_key k then Some (drop (length (rag_demo_key k)) ct) else None)\<rparr>"

lemma rag_demo_key_prefix: "take (length (rag_demo_key k)) (rag_demo_key k' @ p) = rag_demo_key k \<Longrightarrow> k = k'"
proof (induction k arbitrary: k')
  case Nil
  then show ?case by (cases k') auto
next
  case (Cons x k)
  then show ?case by (cases k') auto
qed

lemma rag_demo_aes_ok: "aes_ok rag_demo_aes" "aes_authentic rag_demo_aes"
proof -
  show "aes_ok rag_demo_aes" by (simp add: aes_ok_def rag_demo_aes_def)
  have "take (length (rag_demo_key k')) (rag_demo_key k @ p) \<noteq> rag_demo_key k'" if "k \<noteq> k'" for k k' p
    using rag_demo_key_prefix that by blast
  then show "aes_authentic rag_demo_aes" by (simp add: aes_authentic_def rag_demo_aes_def)
qed

definition rag_demo_f32 :: "int f32_ops" where
  "rag_demo_f32 = \<lparr>f_lit = id, f_add = (+), f_sub = (-), f_mul = (*), f_div = (\<lambda>a b. a div b), f_max = max, f_abs = abs,
     f_sqrt = id, f_ln = id, f_neg = uminus, f_floor = id, f_round = id, f_clamp = (\<lambda>x a b. max a (min b x)), f_min_positive = 1,
     f_lt = (<), f_le = (\<le>), f_to_u8 = of_int, f_of_u8 = uint, f_to_u32 = nat, f_to_le = (\<lambda>_. []), f_of_le = (\<lambda>_. 0)\<rparr>"

definition rag_demo_math :: "int f32_math" where
  "rag_demo_math = \<lparr>f_powf = (\<lambda>a b. a), f_cos = id, f_sin = id, f_pi = 3, f_epsilon = 0, f_of_nat = int, f_of_bits = (\<lambda>_. 2),
     f_sum_start = 0, f_total_less = (<)\<rparr>"

definition rag_demo_prf :: "(nat, int) prf_ops" where
  "rag_demo_prf = \<lparr>hmac_sha256 = (\<lambda>k m. k @ m), chacha_from_seed = length, random_f32 = (\<lambda>g. (int g, Suc g))\<rparr>"

definition rag_demo_entropy :: "nat entropy" where
  "rag_demo_entropy = (\<lambda>n w. (replicate n (word_of_nat w), Suc w))"

text \<open>The embedder maps a text to its length and its first byte.\<close>

definition rag_demo :: "(unit, nat, nat, int) rag_ext" where
  "rag_demo = \<lparr>rx_f32 = rag_demo_f32, rx_math = rag_demo_math, rx_prf = rag_demo_prf, rx_aes = rag_demo_aes,
     rx_hkdf = (\<lambda>salt ikm info n. ikm), rx_sha256 = id, rx_entropy = rag_demo_entropy,
     rx_embed = (\<lambda>texts m. (Inr (map (\<lambda>t. [int (length t), uint (hd (t @ [0]))]) texts), m))\<rparr>"

lemma rag_demo_ok: "rag_ok rag_demo" "total_order (f_total_less (rx_math rag_demo))" "aes_authentic (rx_aes rag_demo)"
  using rag_demo_aes_ok
  by (simp_all add: rag_ok_def rag_demo_def entropy_ok_def rag_demo_entropy_def embed_ok_def total_order_def rag_demo_math_def image_iff)

definition rag_demo_ops :: "tp_op list" where
  "rag_demo_ops = [TpIngest [1] [7] [\<lparr>dc_id = [65], dc_text = [72, 105]\<rparr>], TpIngest [2] [9] [\<lparr>dc_id = [66], dc_text = [74]\<rparr>],
     TpRotate [1] [7] [8], TpQuery [2] [9] [74] 1, TpIngest [1] [7] [\<lparr>dc_id = [67], dc_text = []\<rparr>], TpForget [2]]"

lemma rag_demo_ingests:
  assumes "\<forall>c \<in> set cs. length (dc_text c) \<le> aes_max"
  shows "fst (ingest_chunks_for rag_demo t u cs s) = Inr ()"
  using ingest_ok [OF rag_demo_ok(1) assms, of t u s] by (auto simp: rag_demo_def)

lemma rag_demo_log:
  "snd (tp_run rag_demo rag_demo_ops (two_party_new () 0, \<lambda>_. [])) [1] =
     [([7], \<lparr>dc_id = [65], dc_text = [72, 105]\<rparr>), ([7], \<lparr>dc_id = [67], dc_text = []\<rparr>)]"
  by (simp add: rag_demo_ops_def rag_demo_ingests aes_max_def del: tp_step.simps)

section \<open>The two-party service\<close>





text \<open>C33: Requests of other tenants never touch a tenant's secret or index, whatever they ingest, forget or
  fail on.\<close>

theorem two_party_isolated:
  assumes "tp_run X ops (s, l) = (s', l')" and "\<forall>op \<in> set ops. op_tenant op \<noteq> t"
  shows "tp_secrets s' t = tp_secrets s t \<and> tp_indices s' t = tp_indices s t \<and> index_len_for t s' = index_len_for t s \<and>
    aes_key X s' t u = aes_key X s t u \<and> scheme_key X s' t u = scheme_key X s t u"
  using tp_run_frame [OF assms] by (simp add: index_len_for_def aes_key_def scheme_key_def)

theorem two_party_isolated_witness:
  "let s = fst (tp_run rag_demo [TpIngest [2] [9] [\<lparr>dc_id = [66], dc_text = [74]\<rparr>], TpForget [3]] (two_party_new () 0, \<lambda>_. [])) in
    tp_secrets s [1] = None \<and> index_len_for [1] s = 0"
proof -
  obtain s l where run: "tp_run rag_demo [TpIngest [2] [9] [\<lparr>dc_id = [66], dc_text = [74]\<rparr>], TpForget [3]] (two_party_new () 0, \<lambda>_. []) = (s, l)"
    by fastforce
  have "\<forall>op \<in> set [TpIngest [2] [9] [\<lparr>dc_id = [66], dc_text = [74]\<rparr>], TpForget [3]]. op_tenant op \<noteq> [1]" by simp
  from two_party_isolated [OF run this, of "[]"] run show ?thesis
    by (simp add: two_party_new_def two_party_with_params_def index_len_for_def)
qed

text \<open>The tenants of a service are those that ingested something since they were last forgotten.  For
  any other tenant both a query and a rotation report it as unknown and leave the service as it is;
  for a known one they never do, and a rotation reports that it is not implemented.\<close>

theorem two_party_unknown_tenant:
  assumes "rag_ok X" and "tp_run X ops (two_party_with_params m w ps po, \<lambda>_. []) = (s, l)"
    and "\<forall>op \<in> set ops. \<forall>c \<in> set (op_chunks op). length (dc_text c) \<le> aes_max"
  shows "tenant_known t s = registered t False ops \<and>
    (if registered t False ops
     then fst (query_for X t u txt k s) \<noteq> Inl (Fail (UnknownTenant t')) \<and>
       rotate_tenant t u u' s = (Inl (Fail (Inner ''tenant rotation not implemented (deferred to milestone M8)'')), s)
     else query_for X t u txt k s = (Inl (Fail (UnknownTenant t)), s) \<and> rotate_tenant t u u' s = (Inl (Fail (UnknownTenant t)), s))"
proof -
  have "tenant_known t s = registered t False ops"
    using tp_run_known [OF assms, of t] by (simp add: tenant_known_def two_party_with_params_def)
  moreover have "(tp_secrets s t = None) = (\<not> tenant_known t s)" by (simp add: tenant_known_def)
  ultimately show ?thesis using query_known [of s t X u "txt" k t'] query_unknown [of s t X u "txt" k] by (simp add: rotate_eq)
qed

theorem two_party_unknown_tenant_witness:
  "\<exists>s l. tp_run rag_demo rag_demo_ops (two_party_new () 0, \<lambda>_. []) = (s, l) \<and>
    query_for rag_demo [2] [9] [74] 1 s = (Inl (Fail (UnknownTenant [2])), s) \<and>
    rotate_tenant [1] [7] [8] s = (Inl (Fail (Inner ''tenant rotation not implemented (deferred to milestone M8)'')), s)"
proof -
  obtain s l where run: "tp_run rag_demo rag_demo_ops (two_party_new () 0, \<lambda>_. []) = (s, l)" by fastforce
  have small: "\<forall>op \<in> set rag_demo_ops. \<forall>c \<in> set (op_chunks op). length (dc_text c) \<le> aes_max"
    by (simp add: rag_demo_ops_def aes_max_def)
  have reg: "registered [1] False rag_demo_ops" "\<not> registered [2] False rag_demo_ops" by (simp_all add: rag_demo_ops_def)
  note this_run = two_party_unknown_tenant [OF rag_demo_ok(1) run [unfolded two_party_new_def] small]
  from this_run [of "[1]" "[7]" _ _ _ "[8]"] this_run [of "[2]" "[9]" "[74]" 1] run reg show ?thesis by auto
qed

section \<open>The embedding schemes\<close>

text \<open>C34: Decrypting what either scheme encrypted takes off exactly the noise that was put on: each
  coordinate comes back up to the rounding of one addition, one subtraction and the scaling, and
  without rounding the embedding comes back as it was.  CAPRISE refuses to decrypt a query.\<close>

theorem scheme_noise_cancels:
  assumes "entropy_ok R" and "v \<noteq> []"
  shows "(\<exists>ct noise r. fst (encrypt_document (sap_scheme F H P R sk) v w) = Inr ct \<and> length noise = length v \<and>
      ee_vector ct = blur F (sk_scale_factor sk) r noise v \<and>
      fst (decrypt_document (sap_scheme F H P R sk) ct w') = Inr (map2 (denoise F (sk_scale_factor sk) r) noise v) \<and>
      ((\<forall>n x. denoise F (sk_scale_factor sk) r n x = x) \<longrightarrow> fst (decrypt_document (sap_scheme F H P R sk) ct w') = Inr v)) \<and>
     (\<exists>ct noise r. fst (encrypt_document (caprise_scheme F H P R ck) v w) = Inr ct \<and> length noise = length v \<and>
      ee_vector ct = blur F (ck_scale_factor ck) r noise v \<and>
      fst (decrypt_document (caprise_scheme F H P R ck) ct w') = Inr (map2 (denoise F (ck_scale_factor ck) r) noise v) \<and>
      ((\<forall>n x. denoise F (ck_scale_factor ck) r n x = x) \<longrightarrow> fst (decrypt_document (caprise_scheme F H P R ck) ct w') = Inr v)) \<and>
     (\<exists>q. fst (encrypt_query (caprise_scheme F H P R ck) v w) = Inr q \<and>
      fst (decrypt_document (caprise_scheme F H P R ck) q w') = Inl (Fail ''ciphertext scheme mismatch: expected caprise-db''))"
proof (intro conjI)
  have n: "length (fst (R 16 w)) = 16" using assms(1) by (simp add: entropy_ok_def)
  have exact: "map2 (denoise F c r) noise v = v" if "\<forall>n x. denoise F c r n x = x" "length noise = length v" for c r noise
    using that by (simp add: map2_snd)
  show "\<exists>ct noise r. fst (encrypt_document (sap_scheme F H P R sk) v w) = Inr ct \<and> length noise = length v \<and>
      ee_vector ct = blur F (sk_scale_factor sk) r noise v \<and>
      fst (decrypt_document (sap_scheme F H P R sk) ct w') = Inr (map2 (denoise F (sk_scale_factor sk) r) noise v) \<and>
      ((\<forall>n x. denoise F (sk_scale_factor sk) r n x = x) \<longrightarrow> fst (decrypt_document (sap_scheme F H P R sk) ct w') = Inr v)"
    using sap_round [OF assms(2) n, of F H P sk] exact
    by (fastforce simp: sap_scheme_def ebind_def fill_bytes_eq elift_def)
  show "\<exists>ct noise r. fst (encrypt_document (caprise_scheme F H P R ck) v w) = Inr ct \<and> length noise = length v \<and>
      ee_vector ct = blur F (ck_scale_factor ck) r noise v \<and>
      fst (decrypt_document (caprise_scheme F H P R ck) ct w') = Inr (map2 (denoise F (ck_scale_factor ck) r) noise v) \<and>
      ((\<forall>n x. denoise F (ck_scale_factor ck) r n x = x) \<longrightarrow> fst (decrypt_document (caprise_scheme F H P R ck) ct w') = Inr v)"
    using caprise_round [OF assms(2) n, of F H P ck] exact
    by (fastforce simp: caprise_scheme_def caprise_encrypt_document_def ebind_def fill_bytes_eq elift_def)
  show "\<exists>q. fst (encrypt_query (caprise_scheme F H P R ck) v w) = Inr q \<and>
      fst (decrypt_document (caprise_scheme F H P R ck) q w') = Inl (Fail ''ciphertext scheme mismatch: expected caprise-db'')"
    using assms(2) caprise_labels
    by (simp add: caprise_scheme_def caprise_encrypt_query_def caprise_encrypt_internal_def ebind_def fill_bytes_eq elift_def
        caprise_decrypt_document_def Let_def)
qed

theorem scheme_noise_cancels_witness:
  "\<exists>q. fst (encrypt_query (caprise_scheme rag_demo_f32 rag_demo_math rag_demo_prf rag_demo_entropy (caprise_from_seed 2 3 [5])) [4, 1] 0) = Inr q \<and>
    fst (decrypt_document (caprise_scheme rag_demo_f32 rag_demo_math rag_demo_prf rag_demo_entropy (caprise_from_seed 2 3 [5])) q 0) =
      Inl (Fail ''ciphertext scheme mismatch: expected caprise-db'')"
  using scheme_noise_cancels [of rag_demo_entropy "[4, 1]", THEN conjunct2, THEN conjunct2] rag_demo_ok(1) by (simp add: rag_ok_def rag_demo_def)

end
