(* ===== verification/Gelo_Hd3.thy ===== *)
theory Gelo_Hd3
  imports Rag_Core
begin

text \<open>
  The structured orthogonal masks of \<^verbatim>\<open>crates/gelo-protocol\<close>: the Walsh-Hadamard cascade
  (\<^verbatim>\<open>hd3.rs\<close>) with its radix-2 and radix-8 stages and vector kernels, and the DCT-IV cascade
  (\<^verbatim>\<open>dct4.rs\<close>) over column tiles.  A row-major buffer of \<open>n\<close> rows and \<open>d\<close> columns is the
  list of its rows; chunks and tiles that the code hands to parallel workers are disjoint, so
  they are processed in order.  The DCT-IV itself is a library and a parameter.
\<close>

section \<open>Kernels\<close>

text \<open>A loop of vectors of \<open>w\<close> lanes with a scalar tail, the lanes of the tail one by one.\<close>

definition butterfly_pair_scalar :: "'f f32_ops \<Rightarrow> 'f list \<Rightarrow> 'f list \<Rightarrow> 'f list \<times> 'f list" where
  "butterfly_pair_scalar F r0 r1 = (map (\<lambda>k. f_add F (r0 ! k) (r1 ! k)) [0..<length r0], map (\<lambda>k. f_sub F (r0 ! k) (r1 ! k)) [0..<length r0])"

function butterfly_pair_simd :: "'f f32_ops \<Rightarrow> nat \<Rightarrow> 'f list \<Rightarrow> 'f list \<Rightarrow> 'f list \<times> 'f list" where
  "butterfly_pair_simd F w r0 r1 =
     (if 0 < w \<and> w \<le> length r0 then
        let v0 = take w r0; v1 = take w r1;
            (r0', r1') = butterfly_pair_simd F w (drop w r0) (drop w r1)
        in (map2 (f_add F) v0 v1 @ r0', map2 (f_sub F) v0 v1 @ r1')
      else butterfly_pair_scalar F r0 r1)"
  by pat_completeness auto
termination by (relation "measure (\<lambda>(F, w, r0, r1). length r0)") auto

declare butterfly_pair_simd.simps [simp del]

definition butterfly_pair :: "'f f32_ops \<Rightarrow> bool \<Rightarrow> bool \<Rightarrow> 'f list \<Rightarrow> 'f list \<Rightarrow> 'f list \<times> 'f list" where
  "butterfly_pair F use_avx512 use_avx2 r0 r1 =
     (if use_avx512 then butterfly_pair_simd F 16 r0 r1
      else if use_avx2 then butterfly_pair_simd F 8 r0 r1
      else butterfly_pair_scalar F r0 r1)"

text \<open>Three stages over eight values: of one lane, or of a vector of lanes.\<close>

definition oct_network :: "('a \<Rightarrow> 'a \<Rightarrow> 'a) \<Rightarrow> ('a \<Rightarrow> 'a \<Rightarrow> 'a) \<Rightarrow> 'a list \<Rightarrow> 'a list" where
  "oct_network add sub x =
     (let s01 = add (x ! 0) (x ! 1); d01 = sub (x ! 0) (x ! 1);
          s23 = add (x ! 2) (x ! 3); d23 = sub (x ! 2) (x ! 3);
          s45 = add (x ! 4) (x ! 5); d45 = sub (x ! 4) (x ! 5);
          s67 = add (x ! 6) (x ! 7); d67 = sub (x ! 6) (x ! 7);
          p0 = add s01 s23; p2 = sub s01 s23;
          p1 = add d01 d23; p3 = sub d01 d23;
          p4 = add s45 s67; p6 = sub s45 s67;
          p5 = add d45 d67; p7 = sub d45 d67
      in [add p0 p4, add p1 p5, add p2 p6, add p3 p7, sub p0 p4, sub p1 p5, sub p2 p6, sub p3 p7])"

definition oct_lane :: "'f f32_ops \<Rightarrow> 'f list list \<Rightarrow> nat \<Rightarrow> 'f list" where
  "oct_lane F rows k = oct_network (f_add F) (f_sub F) (map (\<lambda>r. r ! k) rows)"

definition butterfly_oct_scalar :: "'f f32_ops \<Rightarrow> nat \<Rightarrow> 'f list list \<Rightarrow> 'f list list" where
  "butterfly_oct_scalar F d rows = map (\<lambda>i. map (\<lambda>k. oct_lane F rows k ! i) [0..<d]) [0..<8]"

function butterfly_oct_simd :: "'f f32_ops \<Rightarrow> nat \<Rightarrow> nat \<Rightarrow> 'f list list \<Rightarrow> 'f list list" where
  "butterfly_oct_simd F w d rows =
     (if 0 < w \<and> w \<le> d then
        map2 (@) (oct_network (map2 (f_add F)) (map2 (f_sub F)) (map (take w) rows))
          (butterfly_oct_simd F w (d - w) (map (drop w) rows))
      else butterfly_oct_scalar F d rows)"
  by pat_completeness auto
termination by (relation "measure (\<lambda>(F, w, d, rows). d)") auto

declare butterfly_oct_simd.simps [simp del]

definition butterfly_oct :: "'f f32_ops \<Rightarrow> bool \<Rightarrow> bool \<Rightarrow> nat \<Rightarrow> 'f list list \<Rightarrow> 'f list list" where
  "butterfly_oct F use_avx512 use_avx2 d rows =
     (if use_avx512 then butterfly_oct_simd F 16 d rows
      else if use_avx2 then butterfly_oct_simd F 8 d rows
      else butterfly_oct_scalar F d rows)"

section \<open>The Walsh-Hadamard transform\<close>

text \<open>What the processor supports.\<close>

record cpu =
  avx512 :: bool
  avx2 :: bool

definition process_stage_chunk :: "'f f32_ops \<Rightarrow> cpu \<Rightarrow> nat \<Rightarrow> 'f list list \<Rightarrow> 'f list list" where
  "process_stage_chunk F cpu h chunk =
     fold (\<lambda>j c. if length c \<le> j + h then c
        else let (r0, r1) = butterfly_pair F (avx512 cpu) (\<not> avx512 cpu \<and> avx2 cpu) (c ! j) (c ! (j + h)) in c[j := r0, j + h := r1])
      [0..<h] chunk"

definition process_stage_chunk_radix8 :: "'f f32_ops \<Rightarrow> cpu \<Rightarrow> nat \<Rightarrow> nat \<Rightarrow> 'f list list \<Rightarrow> 'f list list" where
  "process_stage_chunk_radix8 F cpu h d chunk =
     fold (\<lambda>j c. if length c \<le> j + 7 * h then c
        else let r = butterfly_oct F (avx512 cpu) (\<not> avx512 cpu \<and> avx2 cpu) d (map (\<lambda>i. c ! (j + i * h)) [0..<8])
          in fold (\<lambda>i c. c[j + i * h := r ! i]) [0..<8] c)
      [0..<h] chunk"

text \<open>\<open>chunks_mut(k)\<close>.\<close>

function row_chunks :: "nat \<Rightarrow> 'a list \<Rightarrow> 'a list list" where
  "row_chunks k xs = (if xs = [] \<or> k = 0 then [] else take k xs # row_chunks k (drop k xs))"
  by pat_completeness auto
termination by (relation "measure (\<lambda>(k, xs). length xs)") auto

declare row_chunks.simps [simp del]

function fwht_loop :: "'f f32_ops \<Rightarrow> cpu \<Rightarrow> nat \<Rightarrow> nat \<Rightarrow> nat \<Rightarrow> 'f list list \<Rightarrow> 'f list list" where
  "fwht_loop F cpu n d h m =
     (if 0 < h \<and> h < n then
        if h * 8 \<le> n then fwht_loop F cpu n d (h * 8) (concat (map (process_stage_chunk_radix8 F cpu h d) (row_chunks (8 * h) m)))
        else fwht_loop F cpu n d (h * 2) (concat (map (process_stage_chunk F cpu h) (row_chunks (2 * h) m)))
      else m)"
  by pat_completeness auto
termination by (relation "measure (\<lambda>(F, cpu, n, d, h, m). n - h)") auto

declare fwht_loop.simps [simp del]

definition fwht_rows :: "'f f32_ops \<Rightarrow> cpu \<Rightarrow> nat \<Rightarrow> nat \<Rightarrow> 'f list list \<Rightarrow> 'f list list" where
  "fwht_rows F cpu n d m = (if n < 2 \<or> d = 0 then m else fwht_loop F cpu n d 1 m)"

definition apply_diag :: "'f f32_ops \<Rightarrow> 'f list \<Rightarrow> 'f list list \<Rightarrow> 'f list list" where
  "apply_diag F diag m = map2 (\<lambda>sign row. if f_lt F sign (f_lit F 0) then map (f_neg F) row else row) diag m"

definition apply_diag_scaled :: "'f f32_ops \<Rightarrow> 'f list \<Rightarrow> 'f \<Rightarrow> 'f list list \<Rightarrow> 'f list list" where
  "apply_diag_scaled F diag factor m = map2 (\<lambda>sign row. map (\<lambda>v. f_mul F v (f_mul F sign factor)) row) diag m"

section \<open>Sampling the diagonals\<close>

text \<open>\<open>next_u32\<close> of the mask generator; the bits are used from the lowest.\<close>

type_synonym 'g next_u32 = "'g \<Rightarrow> u32 \<times> 'g"

fun sign_bits :: "'f f32_ops \<Rightarrow> nat \<Rightarrow> u32 \<Rightarrow> 'f list" where
  "sign_bits F 0 bits = []"
| "sign_bits F (Suc k) bits = (if bits AND 1 = 0 then f_lit F (- 1) else f_lit F 1) # sign_bits F k (drop_bit 1 bits)"

function sample_diag :: "'f f32_ops \<Rightarrow> 'g next_u32 \<Rightarrow> nat \<Rightarrow> 'g \<Rightarrow> 'f list \<times> 'g" where
  "sample_diag F next n g =
     (if n = 0 then ([], g)
      else let (bits, g) = next g; k = min n 32; (rest, g) = sample_diag F next (n - k) g
        in (sign_bits F k bits @ rest, g))"
  by pat_completeness auto
termination by (relation "measure (\<lambda>(F, next, n, g). n)") auto

declare sample_diag.simps [simp del]

text \<open>\<open>is_power_of_two\<close> and \<open>next_power_of_two\<close>.\<close>

definition is_power_of_two :: "nat \<Rightarrow> bool" where
  "is_power_of_two n \<longleftrightarrow> 0 < n \<and> 2 ^ (bit_length n - 1) = n"

definition next_power_of_two :: "nat \<Rightarrow> nat" where
  "next_power_of_two n = (if n \<le> 1 then 1 else 2 ^ bit_length (n - 1))"

section \<open>The Hadamard cascade\<close>

record 'f hd3_mask =
  hd_n :: nat
  hd_d1 :: "'f list"
  hd_d2 :: "'f list"
  hd_d3 :: "'f list"
  hd_inv_norm :: 'f

definition sample_diags :: "'f f32_ops \<Rightarrow> 'g next_u32 \<Rightarrow> nat \<Rightarrow> 'g \<Rightarrow> ('f list \<times> 'f list \<times> 'f list) \<times> 'g" where
  "sample_diags F next n g =
     (let (d1, g) = sample_diag F next n g; (d2, g) = sample_diag F next n g; (d3, g) = sample_diag F next n g
      in ((d1, d2, d3), g))"

text \<open>\<open>1.5\<close> is exact in \<open>f32\<close>, as a quotient too.\<close>

definition hd3_fresh :: "'f f32_ops \<Rightarrow> 'f f32_math \<Rightarrow> 'g next_u32 \<Rightarrow> nat \<Rightarrow> ('g, 'e, 'f hd3_mask) eff" where
  "hd3_fresh F H next n =
     eseq (eassert (is_power_of_two n)) (\<lambda>g.
       let ((d1, d2, d3), g) = sample_diags F next n g in
       (Inr \<lparr>hd_n = n, hd_d1 = d1, hd_d2 = d2, hd_d3 = d3,
          hd_inv_norm = f_div F (f_lit F 1) (f_powf H (f_of_nat H n) (f_div F (f_lit F 3) (f_lit F 2)))\<rparr>, g))"

definition hd3_apply_slice :: "'f f32_ops \<Rightarrow> cpu \<Rightarrow> 'f hd3_mask \<Rightarrow> nat \<Rightarrow> 'f list list \<Rightarrow> 'f list list" where
  "hd3_apply_slice F cpu M cols buf =
     (let n = hd_n M;
          buf = fwht_rows F cpu n cols buf;
          buf = apply_diag F (hd_d1 M) buf;
          buf = fwht_rows F cpu n cols buf;
          buf = apply_diag F (hd_d2 M) buf;
          buf = fwht_rows F cpu n cols buf
      in apply_diag_scaled F (hd_d3 M) (hd_inv_norm M) buf)"

definition hd3_unapply_slice :: "'f f32_ops \<Rightarrow> cpu \<Rightarrow> 'f hd3_mask \<Rightarrow> nat \<Rightarrow> 'f list list \<Rightarrow> 'f list list" where
  "hd3_unapply_slice F cpu M cols buf =
     (let n = hd_n M;
          buf = apply_diag_scaled F (hd_d3 M) (hd_inv_norm M) buf;
          buf = fwht_rows F cpu n cols buf;
          buf = apply_diag F (hd_d2 M) buf;
          buf = fwht_rows F cpu n cols buf;
          buf = apply_diag F (hd_d1 M) buf
      in fwht_rows F cpu n cols buf)"

section \<open>The DCT-IV cascade\<close>

definition DCT4_CASCADE_TILE :: nat where
  "DCT4_CASCADE_TILE = 16"

record 'f dct4_mask =
  dc_n :: nat
  dc_d1 :: "'f list"
  dc_d2 :: "'f list"
  dc_d3 :: "'f list"
  dc_inv_norm :: 'f

definition dct4_fresh :: "'f f32_ops \<Rightarrow> 'f f32_math \<Rightarrow> 'g next_u32 \<Rightarrow> nat \<Rightarrow> ('g, 'e, 'f dct4_mask) eff" where
  "dct4_fresh F H next n =
     eseq (eassert (0 < n)) (\<lambda>g.
       let ((d1, d2, d3), g) = sample_diags F next n g in
       (Inr \<lparr>dc_n = n, dc_d1 = d1, dc_d2 = d2, dc_d3 = d3,
          dc_inv_norm = f_powf H (f_div F (f_lit F 2) (f_of_nat H n)) (f_div F (f_lit F 3) (f_lit F 2))\<rparr>, g))"

text \<open>A tile holds \<open>tile_d\<close> columns, one after the other.\<close>

definition copy_tile_in :: "nat \<Rightarrow> nat \<Rightarrow> nat \<Rightarrow> 'f list list \<Rightarrow> 'f list list" where
  "copy_tile_in n tile_start tile_d m = map (\<lambda>j. map (\<lambda>i. m ! i ! (tile_start + j)) [0..<n]) [0..<tile_d]"

definition copy_tile_out :: "nat \<Rightarrow> nat \<Rightarrow> 'f list list \<Rightarrow> 'f list list \<Rightarrow> 'f list list" where
  "copy_tile_out tile_start tile_d tile m =
     map (\<lambda>i. fold (\<lambda>j row. row[tile_start + j := tile ! j ! i]) [0..<tile_d] (m ! i)) [0..<length m]"

definition sign_diag_in_tile :: "'f f32_ops \<Rightarrow> 'f list \<Rightarrow> 'f list list \<Rightarrow> 'f list list" where
  "sign_diag_in_tile F diag = map (map2 (\<lambda>s v. if f_lt F s (f_lit F 0) then f_neg F v else v) diag)"

definition scaled_diag_in_tile :: "'f f32_ops \<Rightarrow> 'f list \<Rightarrow> 'f \<Rightarrow> 'f list list \<Rightarrow> 'f list list" where
  "scaled_diag_in_tile F diag factor = map (map2 (\<lambda>s v. f_mul F v (f_mul F s factor)) diag)"

definition cascade_apply_in_tile :: "'f f32_ops \<Rightarrow> ('f list \<Rightarrow> 'f list) \<Rightarrow> 'f dct4_mask \<Rightarrow> 'f list list \<Rightarrow> 'f list list" where
  "cascade_apply_in_tile F dct4 M tile =
     scaled_diag_in_tile F (dc_d3 M) (dc_inv_norm M) (map dct4
       (sign_diag_in_tile F (dc_d2 M) (map dct4
         (sign_diag_in_tile F (dc_d1 M) (map dct4 tile)))))"

definition cascade_unapply_in_tile :: "'f f32_ops \<Rightarrow> ('f list \<Rightarrow> 'f list) \<Rightarrow> 'f dct4_mask \<Rightarrow> 'f list list \<Rightarrow> 'f list list" where
  "cascade_unapply_in_tile F dct4 M tile =
     map dct4 (sign_diag_in_tile F (dc_d1 M)
       (map dct4 (sign_diag_in_tile F (dc_d2 M)
         (map dct4 (scaled_diag_in_tile F (dc_d3 M) (dc_inv_norm M) tile)))))"

definition cascade_over_tiles :: "('f list list \<Rightarrow> 'f list list) \<Rightarrow> nat \<Rightarrow> nat \<Rightarrow> 'f list list \<Rightarrow> 'f list list" where
  "cascade_over_tiles cascade n d m =
     (if n < 2 \<or> d = 0 then m
      else fold (\<lambda>t m.
          let tile_start = t * DCT4_CASCADE_TILE; tile_d = min (tile_start + DCT4_CASCADE_TILE) d - tile_start in
          copy_tile_out tile_start tile_d (cascade (copy_tile_in n tile_start tile_d m)) m)
        [0..<(d + DCT4_CASCADE_TILE - 1) div DCT4_CASCADE_TILE] m)"

definition dct4_apply_slice :: "'f f32_ops \<Rightarrow> (nat \<Rightarrow> 'f list \<Rightarrow> 'f list) \<Rightarrow> 'f dct4_mask \<Rightarrow> nat \<Rightarrow> 'f list list \<Rightarrow> 'f list list" where
  "dct4_apply_slice F dct4 M cols buf = cascade_over_tiles (cascade_apply_in_tile F (dct4 (dc_n M)) M) (dc_n M) cols buf"

definition dct4_unapply_slice :: "'f f32_ops \<Rightarrow> (nat \<Rightarrow> 'f list \<Rightarrow> 'f list) \<Rightarrow> 'f dct4_mask \<Rightarrow> nat \<Rightarrow> 'f list list \<Rightarrow> 'f list list" where
  "dct4_unapply_slice F dct4 M cols buf = cascade_over_tiles (cascade_unapply_in_tile F (dct4 (dc_n M)) M) (dc_n M) cols buf"

end
