(* ===== verification/Gelo_Mask.thy ===== *)
theory Gelo_Mask
  imports Gelo_Hd3
begin

text \<open>
  The masks of \<^verbatim>\<open>crates/gelo-protocol\<close>: the dense orthogonal sampler and the choice of a family
  (\<^verbatim>\<open>mask.rs\<close>), the shield rows (\<^verbatim>\<open>shield.rs\<close>, \<^verbatim>\<open>gaussian.rs\<close>), the integrity probe
  (\<^verbatim>\<open>integrity.rs\<close>), the snapshot buffer (\<^verbatim>\<open>snapshot.rs\<close>) and the per-layer embedding table
  (\<^verbatim>\<open>ple.rs\<close>).  A matrix is its number of columns with the list of its rows.  The generators,
  BLAS and the dot products of the array library are parameters.
\<close>

type_synonym u16 = "16 word"
type_synonym 'f array2 = "nat \<times> 'f list list"

definition zeros :: "'f f32_ops \<Rightarrow> nat \<Rightarrow> nat \<Rightarrow> 'f list list" where
  "zeros F n d = replicate n (replicate d (f_lit F 0))"

text \<open>Library code: \<open>gl_sgemm t a b\<close> is \<open>cblas_sgemm\<close> on \<open>a\<close>, transposed if \<open>t\<close>, and
  \<open>gl_lpgemm\<close> the one on \<open>bf16\<close>; \<open>gl_fill\<close> is \<open>fill_bytes\<close> of the shield generator, which
  \<open>gl_seed\<close> starts; \<open>gl_probe\<close> draws a coefficient of a probe and \<open>gl_scalar\<close> a positive scalar.\<close>

record ('f, 'g, 'h) gelo_lib =
  gl_cpu :: cpu
  gl_next_u32 :: "'g next_u32"
  gl_normal :: "'g \<Rightarrow> 'f \<times> 'g"
  gl_probe :: "'g \<Rightarrow> int \<times> 'g"
  gl_scalar :: "'g \<Rightarrow> 'f \<times> 'g"
  gl_shuffle :: "nat list \<Rightarrow> 'g \<Rightarrow> nat list \<times> 'g"
  gl_fill_rng :: "nat \<Rightarrow> 'g \<Rightarrow> bytes \<times> 'g"
  gl_chacha :: "bytes \<Rightarrow> 'g"
  gl_set_stream :: "64 word \<Rightarrow> 'g \<Rightarrow> 'g"
  gl_fill :: "nat \<Rightarrow> 'h \<Rightarrow> bytes \<times> 'h"
  gl_seed :: "bytes \<Rightarrow> 'h"
  gl_dct4 :: "nat \<Rightarrow> 'f list \<Rightarrow> 'f list"
  gl_sgemm :: "bool \<Rightarrow> 'f list list \<Rightarrow> 'f array2 \<Rightarrow> 'f list list"
  gl_lpgemm :: "bool \<Rightarrow> u16 list list \<Rightarrow> nat \<times> u16 list list \<Rightarrow> 'f list list"
  gl_to_bf16 :: "'f \<Rightarrow> u16"
  gl_dot :: "'f list \<Rightarrow> 'f list \<Rightarrow> 'f"
  gl_mm :: "'f array2 \<Rightarrow> 'f array2 \<Rightarrow> 'f list list"
  gl_exp :: "'f \<Rightarrow> 'f"
  gl_neg_infinity :: 'f

fun draws :: "('g \<Rightarrow> 'a \<times> 'g) \<Rightarrow> nat \<Rightarrow> 'g \<Rightarrow> 'a list \<times> 'g" where
  "draws f 0 g = ([], g)"
| "draws f (Suc n) g = (let (x, g) = f g; (xs, g) = draws f n g in (x # xs, g))"

text \<open>\<open>n\<close> rows of \<open>d\<close> values out of a contiguous slice.\<close>

definition rows_of :: "nat \<Rightarrow> nat \<Rightarrow> 'a list \<Rightarrow> 'a list list" where
  "rows_of d n xs = map (\<lambda>i. take d (drop (i * d) xs)) [0..<n]"

section \<open>The dense sampler\<close>

definition f_is_zero :: "'f f32_ops \<Rightarrow> 'f \<Rightarrow> bool" where
  "f_is_zero F x \<longleftrightarrow> f_le F x (f_lit F 0) \<and> f_le F (f_lit F 0) x"

definition rank1_householder_update_rows :: "'f f32_ops \<Rightarrow> nat \<Rightarrow> 'f list \<Rightarrow> 'f list list \<Rightarrow> 'f list list" where
  "rank1_householder_update_rows F k v a =
     (let dot = fold (\<lambda>(row, vi) dot. map2 (\<lambda>d x. f_add F d (f_mul F vi x)) dot (drop k row))
            (zip (drop k a) v) (replicate (length v) (f_lit F 0))
      in take k a @ map2 (\<lambda>row vi.
          let coef = f_mul F (f_lit F 2) vi in
          if f_is_zero F coef then row
          else take k row @ map2 (\<lambda>r d. f_sub F r (f_mul F coef d)) (drop k row) dot) (drop k a) v)"

definition rank1_householder_update_cols :: "'f f32_ops \<Rightarrow> nat \<Rightarrow> 'f list \<Rightarrow> 'f list list \<Rightarrow> 'f list list" where
  "rank1_householder_update_cols F k v q =
     map (\<lambda>row.
       let dot_r = fold (\<lambda>(x, vc) acc. f_add F acc (f_mul F x vc)) (zip (drop k row) v) (f_lit F 0);
           coef = f_mul F (f_lit F 2) dot_r in
       if f_is_zero F coef then row
       else take k row @ map2 (\<lambda>r vc. f_sub F r (f_mul F coef vc)) (drop k row) v) q"

text \<open>The bits of \<open>1e-30_f32\<close>.\<close>

definition tiny_bits :: u32 where
  "tiny_bits = 0x0DA24260"

definition householder_step :: "'f f32_ops \<Rightarrow> 'f f32_math \<Rightarrow> nat \<Rightarrow> nat \<Rightarrow> 'f list list \<times> 'f list list \<Rightarrow> 'f list list \<times> 'f list list" where
  "householder_step F H n k = (\<lambda>(a, q).
     let sigma_sq = fold (\<lambda>i s. f_add F s (f_mul F (a ! i ! k) (a ! i ! k))) [k..<n] (f_lit F 0);
         sigma = f_sqrt F sigma_sq
     in if f_lt F sigma (f_of_bits H tiny_bits) then (a, q)
     else let a_kk = a ! k ! k;
         sign = (if f_le F (f_lit F 0) a_kk then f_lit F 1 else f_lit F (- 1));
         alpha = f_mul F (f_neg F sign) sigma;
         v0 = f_sub F a_kk alpha;
         v_norm_sq = fold (\<lambda>i s. f_add F s (f_mul F (a ! i ! k) (a ! i ! k))) [k + 1..<n] (f_mul F v0 v0);
         v_norm = f_sqrt F v_norm_sq
     in if f_lt F v_norm (f_of_bits H tiny_bits) then (a, q)
     else let v = f_div F v0 v_norm # map (\<lambda>i. f_div F (a ! i ! k) v_norm) [k + 1..<n]
     in (rank1_householder_update_rows F k v a, rank1_householder_update_cols F k v q))"

definition flip_columns :: "'f f32_ops \<Rightarrow> nat \<Rightarrow> 'f list list \<Rightarrow> 'f list list \<Rightarrow> 'f list list" where
  "flip_columns F n a q =
     fold (\<lambda>i q. if f_lt F (a ! i ! i) (f_lit F 0) then map (\<lambda>row. row[i := f_neg F (row ! i)]) q else q) [0..<n] q"

definition eye :: "'f f32_ops \<Rightarrow> nat \<Rightarrow> 'f list list" where
  "eye F n = map (\<lambda>i. map (\<lambda>j. if i = j then f_lit F 1 else f_lit F 0) [0..<n]) [0..<n]"

definition sample_haar_orthogonal :: "'f f32_ops \<Rightarrow> 'f f32_math \<Rightarrow> ('f, 'g, 'h) gelo_lib \<Rightarrow> nat \<Rightarrow> 'g \<Rightarrow> 'f list list \<times> 'g" where
  "sample_haar_orthogonal F H L n g =
     (let (xs, g) = draws (gl_normal L) (n * n) g;
          (a, q) = fold (householder_step F H n) [0..<n - 1] (rows_of n n xs, eye F n)
      in (flip_columns F n a q, g))"

record 'f gelo_mask =
  gm_a :: "'f list list"
  gm_a_bf16 :: "u16 list list option"

definition gelo_fresh :: "'f f32_ops \<Rightarrow> 'f f32_math \<Rightarrow> ('f, 'g, 'h) gelo_lib \<Rightarrow> nat \<Rightarrow> 'g \<Rightarrow> 'f gelo_mask \<times> 'g" where
  "gelo_fresh F H L n g = (let (a, g) = sample_haar_orthogonal F H L n g in (\<lparr>gm_a = a, gm_a_bf16 = None\<rparr>, g))"

definition gelo_fresh_bf16 :: "'f f32_ops \<Rightarrow> 'f f32_math \<Rightarrow> ('f, 'g, 'h) gelo_lib \<Rightarrow> nat \<Rightarrow> 'g \<Rightarrow> 'f gelo_mask \<times> 'g" where
  "gelo_fresh_bf16 F H L n g =
     (let (a, g) = sample_haar_orthogonal F H L n g in (\<lparr>gm_a = a, gm_a_bf16 = Some (map (map (gl_to_bf16 L)) a)\<rparr>, g))"

definition gelo_product :: "('f, 'g, 'h) gelo_lib \<Rightarrow> bool \<Rightarrow> 'f gelo_mask \<Rightarrow> nat \<Rightarrow> 'f list list \<Rightarrow> 'f list list" where
  "gelo_product L tr M d rows =
     (case gm_a_bf16 M of
       Some a \<Rightarrow> gl_lpgemm L tr a (d, map (map (gl_to_bf16 L)) rows)
     | None \<Rightarrow> gl_sgemm L tr (gm_a M) (d, rows))"

definition gelo_apply :: "('f, 'g, 'h) gelo_lib \<Rightarrow> 'f gelo_mask \<Rightarrow> nat \<Rightarrow> 'f list list \<Rightarrow> ('e, 'f list list) outcome" where
  "gelo_apply L M d hidden = (if length hidden = length (gm_a M) then Inr (gelo_product L False M d hidden) else Inl Panic)"

definition gelo_unapply :: "('f, 'g, 'h) gelo_lib \<Rightarrow> 'f gelo_mask \<Rightarrow> nat \<Rightarrow> 'f list list \<Rightarrow> ('e, 'f list list) outcome" where
  "gelo_unapply L M d masked = (if length masked = length (gm_a M) then Inr (gelo_product L True M d masked) else Inl Panic)"

section \<open>The families\<close>

definition hd3_apply :: "'f f32_ops \<Rightarrow> cpu \<Rightarrow> 'f hd3_mask \<Rightarrow> nat \<Rightarrow> 'f list list \<Rightarrow> ('e, 'f list list) outcome" where
  "hd3_apply F cpu M d buf = (if length buf = hd_n M then Inr (hd3_apply_slice F cpu M d buf) else Inl Panic)"

definition hd3_unapply :: "'f f32_ops \<Rightarrow> cpu \<Rightarrow> 'f hd3_mask \<Rightarrow> nat \<Rightarrow> 'f list list \<Rightarrow> ('e, 'f list list) outcome" where
  "hd3_unapply F cpu M d buf = (if length buf = hd_n M then Inr (hd3_unapply_slice F cpu M d buf) else Inl Panic)"

definition dct4_apply :: "'f f32_ops \<Rightarrow> (nat \<Rightarrow> 'f list \<Rightarrow> 'f list) \<Rightarrow> 'f dct4_mask \<Rightarrow> nat \<Rightarrow> 'f list list \<Rightarrow> ('e, 'f list list) outcome" where
  "dct4_apply F dct4 M d buf = (if length buf = dc_n M then Inr (dct4_apply_slice F dct4 M d buf) else Inl Panic)"

definition dct4_unapply :: "'f f32_ops \<Rightarrow> (nat \<Rightarrow> 'f list \<Rightarrow> 'f list) \<Rightarrow> 'f dct4_mask \<Rightarrow> nat \<Rightarrow> 'f list list \<Rightarrow> ('e, 'f list list) outcome" where
  "dct4_unapply F dct4 M d buf = (if length buf = dc_n M then Inr (dct4_unapply_slice F dct4 M d buf) else Inl Panic)"

datatype 'f mask_family = Haar "'f gelo_mask" | Hd3 "'f hd3_mask" | Dct4 "'f dct4_mask"

datatype mask_kind = KindHaar | KindHd3 | KindDct4 | KindAuto

fun family_n :: "'f mask_family \<Rightarrow> nat" where
  "family_n (Haar m) = length (gm_a m)"
| "family_n (Hd3 m) = hd_n m"
| "family_n (Dct4 m) = dc_n m"

fun family_apply :: "'f f32_ops \<Rightarrow> ('f, 'g, 'h) gelo_lib \<Rightarrow> 'f mask_family \<Rightarrow> nat \<Rightarrow> 'f list list \<Rightarrow> ('e, 'f list list) outcome" where
  "family_apply F L (Haar m) d hidden = gelo_apply L m d hidden"
| "family_apply F L (Hd3 m) d hidden = hd3_apply F (gl_cpu L) m d hidden"
| "family_apply F L (Dct4 m) d hidden = dct4_apply F (gl_dct4 L) m d hidden"

fun family_unapply :: "'f f32_ops \<Rightarrow> ('f, 'g, 'h) gelo_lib \<Rightarrow> 'f mask_family \<Rightarrow> nat \<Rightarrow> 'f list list \<Rightarrow> ('e, 'f list list) outcome" where
  "family_unapply F L (Haar m) d masked = gelo_unapply L m d masked"
| "family_unapply F L (Hd3 m) d masked = hd3_unapply F (gl_cpu L) m d masked"
| "family_unapply F L (Dct4 m) d masked = dct4_unapply F (gl_dct4 L) m d masked"

definition HD3_AUTO_MAX_PAD_RATIO_NUM :: nat where
  "HD3_AUTO_MAX_PAD_RATIO_NUM = 8"

definition HD3_AUTO_MAX_PAD_RATIO_DEN :: nat where
  "HD3_AUTO_MAX_PAD_RATIO_DEN = 5"

fun resolve_mask_kind_for_shape :: "mask_kind \<Rightarrow> nat \<Rightarrow> mask_kind" where
  "resolve_mask_kind_for_shape KindAuto s =
     (let s_pad = max (next_power_of_two s) 2 in
      if s_pad * HD3_AUTO_MAX_PAD_RATIO_DEN \<le> s * HD3_AUTO_MAX_PAD_RATIO_NUM then KindHd3 else KindDct4)"
| "resolve_mask_kind_for_shape kind s = kind"

section \<open>Shield rows\<close>

record 'f shield_config =
  sc_k :: nat
  sc_energy_scale :: 'f

definition shield_none :: "'f f32_ops \<Rightarrow> 'f shield_config" where
  "shield_none F = \<lparr>sc_k = 0, sc_energy_scale = f_lit F 0\<rparr>"

definition shield_enabled :: "'f shield_config \<Rightarrow> bool" where
  "shield_enabled c \<longleftrightarrow> 0 < sc_k c"

definition shield_k_for_batch :: "nat \<Rightarrow> nat \<Rightarrow> nat" where
  "shield_k_for_batch n k_base = max (next_power_of_two (n + k_base) - n) k_base"

text \<open>The polar method: \<open>lane\<close> is one of the eight lanes of \<open>load_lanes_as_unit_f32\<close>.\<close>

definition lane :: "'f f32_ops \<Rightarrow> u32 \<Rightarrow> 'f" where
  "lane F u = f_mul F (f_lit F (sint u)) (f_div F (f_lit F 1) (f_lit F 2147483648))"

definition polar_emit :: "'f f32_ops \<Rightarrow> u32 list \<Rightarrow> nat \<Rightarrow> 'f \<Rightarrow> nat \<Rightarrow> 'f list \<Rightarrow> 'f list" where
  "polar_emit F u_buf pool_pairs sigma n out =
     fold (\<lambda>i out.
       if n \<le> length out then out
       else let u1 = lane F (u_buf ! i); u2 = lane F (u_buf ! (pool_pairs + i));
           s = f_add F (f_mul F u1 u1) (f_mul F u2 u2)
         in if f_lt F s (f_lit F 1) \<and> f_lt F (f_lit F 0) s then
             let factor = f_mul F sigma (f_sqrt F (f_div F (f_mul F (f_lit F (- 2)) (f_ln F s)) s))
             in take n (out @ [f_mul F u1 factor, f_mul F u2 factor])
           else out)
       [0..<8 * (pool_pairs div 8)] out"

definition u32s_of_bytes :: "bytes \<Rightarrow> u32 list" where
  "u32s_of_bytes bs = map (\<lambda>i. word_of_nat (of_le_bytes (take 4 (drop (4 * i) bs)))) [0..<length bs div 4]"

partial_function (option) fill_loop :: "'f f32_ops \<Rightarrow> ('f, 'g, 'h) gelo_lib \<Rightarrow> nat \<Rightarrow> 'f \<Rightarrow> nat \<Rightarrow> 'f list \<Rightarrow> 'h \<Rightarrow> ('f list \<times> 'h) option" where
  "fill_loop F L pool_pairs sigma n out h =
     (if n \<le> length out then Some (out, h)
      else let (bs, h) = gl_fill L (4 * (2 * pool_pairs)) h
        in fill_loop F L pool_pairs sigma n (polar_emit F (u32s_of_bytes bs) pool_pairs sigma n out) h)"

definition pool_size :: "nat \<Rightarrow> nat" where
  "pool_size n = (let target_pairs = (n + 1) div 2; pool_pairs = max (target_pairs * 7 div 5) 8 in (pool_pairs + 7) div 8 * 8)"

definition fill_gaussian :: "'f f32_ops \<Rightarrow> ('f, 'g, 'h) gelo_lib \<Rightarrow> nat \<Rightarrow> 'f \<Rightarrow> 'h \<Rightarrow> ('f list \<times> 'h) option" where
  "fill_gaussian F L n sigma h =
     (if n = 0 then Some ([], h)
      else if f_is_zero F sigma then Some (replicate n (f_lit F 0), h)
      else fill_loop F L (pool_size n) sigma n [] h)"

definition mean_row_norm :: "'f f32_ops \<Rightarrow> 'f f32_math \<Rightarrow> 'f list list \<Rightarrow> 'f" where
  "mean_row_norm F H m =
     (if m = [] then f_lit F 0
      else f_div F (fold (\<lambda>row acc. f_add F acc (f_sqrt F (fold (\<lambda>v s. f_add F s (f_mul F v v)) row (f_sum_start H)))) m (f_lit F 0))
        (f_of_nat H (length m)))"

definition shield_sigma :: "'f f32_ops \<Rightarrow> 'f f32_math \<Rightarrow> 'f \<Rightarrow> nat \<Rightarrow> 'f list list \<Rightarrow> 'f" where
  "shield_sigma F H scale d hidden =
     (if d = 0 then f_lit F 0 else f_div F (f_mul F scale (mean_row_norm F H hidden)) (f_sqrt F (f_of_nat H d)))"

definition fill_shield_rows :: "'f f32_ops \<Rightarrow> ('f, 'g, 'h) gelo_lib \<Rightarrow> nat \<Rightarrow> nat \<Rightarrow> 'f \<Rightarrow> 'h \<Rightarrow> ('f list list \<times> 'h) option" where
  "fill_shield_rows F L k d sigma h = map_option (\<lambda>(xs, h). (rows_of d k xs, h)) (fill_gaussian F L (k * d) sigma h)"

definition stack_shield :: "'f f32_ops \<Rightarrow> 'f f32_math \<Rightarrow> ('f, 'g, 'h) gelo_lib \<Rightarrow> nat \<Rightarrow> 'f list list \<Rightarrow> 'f shield_config \<Rightarrow> 'h \<Rightarrow> ('f list list \<times> 'h) option" where
  "stack_shield F H L d hidden cfg h =
     (if \<not> shield_enabled cfg then Some (hidden, h)
      else if 0 < sc_k cfg \<and> 0 < d then
        map_option (\<lambda>(rows, h). (hidden @ rows, h)) (fill_shield_rows F L (sc_k cfg) d (shield_sigma F H (sc_energy_scale cfg) d hidden) h)
      else Some (hidden @ zeros F (sc_k cfg) d, h))"

section \<open>The integrity probe\<close>

datatype probe_error = ProbeShapeB | ProbeShapeZ | ProbeMismatch nat nat

definition PROBE_L :: int where
  "PROBE_L = 3"

definition inf_norm :: "'f f32_ops \<Rightarrow> 'f list list \<Rightarrow> 'f" where
  "inf_norm F m = fold (\<lambda>v acc. f_max F acc (f_abs F v)) (concat m) (f_lit F 0)"

text \<open>The bits of \<open>f32::EPSILON\<close> and of \<open>1e-4_f32\<close>.\<close>

definition f32_eps_bits :: u32 where
  "f32_eps_bits = 0x34000000"

definition abs_floor_bits :: u32 where
  "abs_floor_bits = 0x38D1B717"

definition probe_row_ok :: "'f f32_ops \<Rightarrow> 'f f32_math \<Rightarrow> 'f \<Rightarrow> 'f \<Rightarrow> 'f \<Rightarrow> bool" where
  "probe_row_ok F H roundoff_bound expected observed =
     (let diff = f_abs F (f_sub F expected observed);
          scale = f_max F (f_max F (f_abs F expected) (f_abs F observed)) (f_lit F 1);
          tol = f_add F (f_max F roundoff_bound (f_of_bits H abs_floor_bits)) (f_mul F (f_of_bits H abs_floor_bits) scale)
      in \<not> f_lt F tol diff)"

fun verify_probes_from :: "'f f32_ops \<Rightarrow> 'f f32_math \<Rightarrow> ('f, 'g, 'h) gelo_lib \<Rightarrow> 'f \<Rightarrow> nat \<Rightarrow> nat \<Rightarrow>
    'f array2 \<Rightarrow> 'f array2 \<Rightarrow> 'f array2 \<Rightarrow> 'g \<Rightarrow> (probe_error + unit) \<times> 'g" where
  "verify_probes_from F H L bound idx 0 a b z g = (Inr (), g)"
| "verify_probes_from F H L bound idx (Suc n) a b z g =
     (let (coeffs, g) = draws (gl_probe L) (fst b) g;
          r = map (f_lit F) coeffs;
          br = map (\<lambda>row. gl_dot L row r) (snd b);
          expected = map (\<lambda>row. gl_dot L row br) (snd a);
          observed = map (\<lambda>row. gl_dot L row r) (snd z)
      in case find (\<lambda>i. \<not> probe_row_ok F H bound (expected ! i) (observed ! i)) [0..<length (snd a)] of
           Some i \<Rightarrow> (Inl (ProbeMismatch idx i), g)
         | None \<Rightarrow> verify_probes_from F H L bound (Suc idx) n a b z g)"

definition verify_offload :: "'f f32_ops \<Rightarrow> 'f f32_math \<Rightarrow> ('f, 'g, 'h) gelo_lib \<Rightarrow> nat \<Rightarrow>
    'f array2 \<Rightarrow> 'f array2 \<Rightarrow> 'f array2 \<Rightarrow> 'g \<Rightarrow> (probe_error + unit) \<times> 'g" where
  "verify_offload F H L n_probes a b z g =
     (if n_probes = 0 then (Inr (), g)
      else if length (snd b) \<noteq> fst a then (Inl ProbeShapeB, g)
      else if length (snd z) \<noteq> length (snd a) \<or> fst z \<noteq> fst b then (Inl ProbeShapeZ, g)
      else let chain = f_of_nat H (fst a + fst b);
          roundoff_bound = f_mul F (f_mul F (f_mul F (f_mul F (f_mul F (f_lit F 40) chain) (f_of_bits H f32_eps_bits))
            (inf_norm F (snd a))) (inf_norm F (snd b))) (f_lit F PROBE_L)
        in verify_probes_from F H L roundoff_bound 0 n_probes a b z g)"

section \<open>Snapshots\<close>

datatype weight_kind = WQ | WK | WV | WO | WFfnGate | WFfnUp | WFfnDown | WLmHead

record weight_handle =
  wh_layer :: u16
  wh_kind :: weight_kind

record 'f pcie_snapshot =
  ps_seq_idx :: nat
  ps_layer :: u16
  ps_kind :: weight_kind
  ps_masked_operand :: "'f array2"
  ps_masked_output :: "'f array2 option"

record snapshot_config =
  cfg_capture_outputs :: bool
  cfg_max_snapshots :: "nat option"

record 'f snapshot_capture =
  cap_cfg :: snapshot_config
  cap_buffer :: "'f pcie_snapshot list"
  cap_next_seq :: nat
  cap_dropped :: nat

definition snapshot_new :: "snapshot_config \<Rightarrow> 'f snapshot_capture" where
  "snapshot_new cfg = \<lparr>cap_cfg = cfg, cap_buffer = [], cap_next_seq = 0, cap_dropped = 0\<rparr>"

definition snapshot_record :: "weight_handle \<Rightarrow> 'f array2 \<Rightarrow> 'f array2 option \<Rightarrow> 'f snapshot_capture \<Rightarrow> 'f snapshot_capture" where
  "snapshot_record handle operand output c =
     (if (case cfg_max_snapshots (cap_cfg c) of Some cap \<Rightarrow> cap \<le> length (cap_buffer c) | None \<Rightarrow> False)
      then c\<lparr>cap_dropped := cap_dropped c + 1\<rparr>
      else c\<lparr>cap_buffer := cap_buffer c @ [\<lparr>ps_seq_idx = cap_next_seq c, ps_layer = wh_layer handle, ps_kind = wh_kind handle,
               ps_masked_operand = operand, ps_masked_output = (if cfg_capture_outputs (cap_cfg c) then output else None)\<rparr>],
             cap_next_seq := cap_next_seq c + 1\<rparr>)"

definition snapshot_drain :: "'f snapshot_capture \<Rightarrow> 'f pcie_snapshot list \<times> 'f snapshot_capture" where
  "snapshot_drain c = (cap_buffer c, c\<lparr>cap_buffer := []\<rparr>)"

definition snapshot_reset :: "'f snapshot_capture \<Rightarrow> 'f snapshot_capture" where
  "snapshot_reset c = c\<lparr>cap_buffer := [], cap_next_seq := 0, cap_dropped := 0\<rparr>"

section \<open>The per-layer embedding table\<close>

record 'f ple_table =
  pt_data :: "8 word list list"
  pt_vocab_size :: nat
  pt_d_ple :: nat
  pt_scale :: 'f

datatype ple_error = PleNoLayers | PleScale | PleOverflow | PleLayerSize nat | PleLayerRange nat | PleTokenRange nat

definition ple_from_int8_rows :: "'f f32_ops \<Rightarrow> 8 word list list \<Rightarrow> nat \<Rightarrow> nat \<Rightarrow> 'f \<Rightarrow> ple_error + 'f ple_table" where
  "ple_from_int8_rows F per_layer_data vocab_size d_ple scale =
     (if per_layer_data = [] then Inl PleNoLayers
      else if f_le F scale (f_lit F 0) then Inl PleScale
      else if 2 ^ 64 \<le> vocab_size * d_ple then Inl PleOverflow
      else case find (\<lambda>li. length (per_layer_data ! li) \<noteq> vocab_size * d_ple) [0..<length per_layer_data] of
          Some li \<Rightarrow> Inl (PleLayerSize li)
        | None \<Rightarrow> Inr \<lparr>pt_data = per_layer_data, pt_vocab_size = vocab_size, pt_d_ple = d_ple, pt_scale = scale\<rparr>)"

definition ple_gather :: "'f f32_ops \<Rightarrow> 'f ple_table \<Rightarrow> u32 list \<Rightarrow> nat \<Rightarrow> ple_error + 'f array2" where
  "ple_gather F T token_ids layer_idx =
     (if length (pt_data T) \<le> layer_idx then Inl (PleLayerRange layer_idx)
      else let layer = pt_data T ! layer_idx; inv_scale = f_div F (f_lit F 1) (pt_scale T); d = pt_d_ple T in
        case find (\<lambda>t. pt_vocab_size T \<le> unat t) token_ids of
          Some t \<Rightarrow> Inl (PleTokenRange (unat t))
        | None \<Rightarrow> Inr (d, map (\<lambda>t. map (\<lambda>b. f_mul F (f_lit F (sint b)) inv_scale) (take d (drop (unat t * d) layer))) token_ids))"

end
