(* ===== verification/Gelo_Attention.thy ===== *)
theory Gelo_Attention
  imports Gelo_Mask
begin

text \<open>
  The engine seam of \<^verbatim>\<open>crates/gelo-protocol\<close> (\<^verbatim>\<open>substrate.rs\<close>: the trait with its default
  methods, and the reference engine of \<^verbatim>\<open>sim.rs\<close>) and the two protocols for operands that are
  both secret: the outsourced product of queries and keys (\<^verbatim>\<open>out_attn_mult.rs\<close>) and the
  permuted attention (\<^verbatim>\<open>attention.rs\<close>).  A tensor of three axes is its row and column counts
  with the list of its heads.  An engine is a record of the trait's methods on a state, so it
  can answer anything.
\<close>

type_synonym 'f array3 = "nat \<times> nat \<times> 'f list list list"

datatype gelo_error =
    EngineError string
  | NotRegistered weight_handle
  | ShapeMismatch nat nat
  | ResultCount nat nat
  | NotCached weight_handle
  | Probe probe_error
  | EmptyBatch
  | EmptyRows
  | NotParity
  | NoPleTable
  | Ple ple_error
  | BadShape string

section \<open>The engine\<close>

record ('f, 'v) engine_ops =
  en_register :: "weight_handle \<Rightarrow> 'f array2 \<Rightarrow> ('v, gelo_error, unit) eff"
  en_register_bf16 :: "weight_handle \<Rightarrow> nat \<times> u16 list list \<Rightarrow> ('v, gelo_error, unit) eff"
  en_run_registered_linear :: "weight_handle list \<Rightarrow> 'f array2 \<Rightarrow> ('v, gelo_error, 'f array2 list) eff"
  en_matmul_dynamic :: "'f array2 \<Rightarrow> 'f array2 \<Rightarrow> ('v, gelo_error, 'f array2) eff"
  en_run_runtime_matmul :: "'f array3 \<Rightarrow> 'f array3 \<Rightarrow> ('v, gelo_error, 'f array3) eff"
  en_run_fused_attention :: "'f array3 \<Rightarrow> 'f array3 \<Rightarrow> 'f array3 \<Rightarrow> 'f \<Rightarrow> 'f array3 option \<Rightarrow> ('v, gelo_error, 'f array3) eff"

definition default_register_bf16 ::
  "(u16 \<Rightarrow> 'f) \<Rightarrow> (weight_handle \<Rightarrow> 'f array2 \<Rightarrow> ('v, gelo_error, unit) eff) \<Rightarrow> weight_handle \<Rightarrow> nat \<times> u16 list list \<Rightarrow> ('v, gelo_error, unit) eff" where
  "default_register_bf16 widen register handle w = register handle (fst w, map (map widen) (snd w))"

definition default_matmul_many ::
  "(weight_handle \<Rightarrow> 'f array2 \<Rightarrow> ('v, gelo_error, 'f array2) eff) \<Rightarrow> weight_handle list \<Rightarrow> 'f array2 \<Rightarrow> ('v, gelo_error, 'f array2 list) eff" where
  "default_matmul_many matmul handles input = emap (\<lambda>h. matmul h input) handles"

definition default_run_registered_linear ::
  "(weight_handle list \<Rightarrow> 'f array2 \<Rightarrow> ('v, gelo_error, 'f array2 list) eff) \<Rightarrow> weight_handle list \<Rightarrow> 'f array2 \<Rightarrow> ('v, gelo_error, 'f array2 list) eff" where
  "default_run_registered_linear matmul_many handles input = (if handles = [] then ereturn [] else matmul_many handles input)"

definition default_matmul_dynamic_batched ::
  "('f array2 \<Rightarrow> 'f array2 \<Rightarrow> ('v, gelo_error, 'f array2) eff) \<Rightarrow> 'f array3 \<Rightarrow> 'f array3 \<Rightarrow> ('v, gelo_error, 'f array3) eff" where
  "default_matmul_dynamic_batched matmul_dynamic = (\<lambda>(m, k, lhs) (k', n, rhs).
     if length rhs \<noteq> length lhs \<or> k' \<noteq> k then efault (Fail (BadShape ''matmul_dynamic_batched shape mismatch''))
     else ebind (emap (\<lambda>(l, r). ebind (matmul_dynamic (k, l) (n, r)) (\<lambda>z.
         eseq (eassert (length (snd z) = m \<and> fst z = n)) (ereturn (snd z)))) (zip lhs rhs))
       (\<lambda>out. ereturn (m, n, out)))"

definition softmax_row :: "'f f32_ops \<Rightarrow> ('f, 'g, 'h) gelo_lib \<Rightarrow> 'f list \<Rightarrow> 'f list" where
  "softmax_row F L row =
     (let mx = fold (\<lambda>v m. f_max F m v) row (gl_neg_infinity L);
          es = map (\<lambda>v. gl_exp L (f_sub F v mx)) row;
          sum = fold (\<lambda>e s. f_add F s e) es (f_lit F 0);
          inv = f_div F (f_lit F 1) sum
      in map (\<lambda>e. f_mul F e inv) es)"

definition transpose_of :: "nat \<Rightarrow> 'f list list \<Rightarrow> 'f list list" where
  "transpose_of d m = map (\<lambda>i. map (\<lambda>row. row ! i) m) [0..<d]"

definition add_mask :: "'f f32_ops \<Rightarrow> 'f \<Rightarrow> 'f list list list option \<Rightarrow> 'f list list list \<Rightarrow> 'f list list list" where
  "add_mask F scale msk scores =
     (case msk of
       Some m \<Rightarrow> map2 (map2 (map2 (\<lambda>s x. f_add F (f_mul F s scale) x))) scores m
     | None \<Rightarrow> map (map (map (\<lambda>s. f_mul F s scale))) scores)"

definition default_fused_attention ::
  "'f f32_ops \<Rightarrow> ('f, 'g, 'h) gelo_lib \<Rightarrow> ('f array3 \<Rightarrow> 'f array3 \<Rightarrow> ('v, gelo_error, 'f array3) eff) \<Rightarrow>
    'f array3 \<Rightarrow> 'f array3 \<Rightarrow> 'f array3 \<Rightarrow> 'f \<Rightarrow> 'f array3 option \<Rightarrow> ('v, gelo_error, 'f array3) eff" where
  "default_fused_attention F L batched = (\<lambda>(n_q, d, q) (n_kv, d', k) v scale msk.
     ebind (batched (n_q, d, q) (d, n_kv, map (transpose_of d) k)) (\<lambda>(n_q, n_kv, scores).
       let scores = add_mask F scale (map_option (snd \<circ> snd) msk) scores;
           probs = map (map (softmax_row F L)) scores
       in batched (n_q, n_kv, probs) v))"

text \<open>The engine of the tests keeps its weights and multiplies with the array library.\<close>

type_synonym 'f weights = "weight_handle \<Rightarrow> 'f array2 option"

definition reference_register :: "weight_handle \<Rightarrow> 'f array2 \<Rightarrow> ('f weights, gelo_error, unit) eff" where
  "reference_register handle w = emodify (\<lambda>ws. ws(handle \<mapsto> w))"

definition reference_matmul :: "('f, 'g, 'h) gelo_lib \<Rightarrow> weight_handle \<Rightarrow> 'f array2 \<Rightarrow> ('f weights, gelo_error, 'f array2) eff" where
  "reference_matmul L handle input = ebind (eget (\<lambda>ws. ws handle)) (\<lambda>w.
     case w of None \<Rightarrow> efault (Fail (NotRegistered handle))
     | Some w \<Rightarrow> if fst input \<noteq> length (snd w) then efault (Fail (ShapeMismatch (fst input) (length (snd w))))
         else ereturn (fst w, gl_mm L input w))"

definition reference_matmul_dynamic :: "('f, 'g, 'h) gelo_lib \<Rightarrow> 'f array2 \<Rightarrow> 'f array2 \<Rightarrow> ('v, gelo_error, 'f array2) eff" where
  "reference_matmul_dynamic L lhs rhs =
     (if fst lhs \<noteq> length (snd rhs) then efault (Fail (ShapeMismatch (fst lhs) (length (snd rhs))))
      else ereturn (fst rhs, gl_mm L lhs rhs))"

definition reference_engine :: "'f f32_ops \<Rightarrow> ('f, 'g, 'h) gelo_lib \<Rightarrow> (u16 \<Rightarrow> 'f) \<Rightarrow> ('f, 'f weights) engine_ops" where
  "reference_engine F L widen =
     \<lparr>en_register = reference_register,
      en_register_bf16 = default_register_bf16 widen reference_register,
      en_run_registered_linear = default_run_registered_linear (default_matmul_many (reference_matmul L)),
      en_matmul_dynamic = reference_matmul_dynamic L,
      en_run_runtime_matmul = default_matmul_dynamic_batched (reference_matmul_dynamic L),
      en_run_fused_attention = default_fused_attention F L (default_matmul_dynamic_batched (reference_matmul_dynamic L))\<rparr>"

section \<open>The outsourced product\<close>

text \<open>The state is that of the engine with the generator of the trusted side.\<close>

definition engine_call :: "('v, gelo_error, 'a) eff \<Rightarrow> ('v \<times> 'g, gelo_error, 'a) eff" where
  "engine_call = zoom fst (\<lambda>v (_, g). (v, g))"

definition sampling :: "('g \<Rightarrow> 'a \<times> 'g) \<Rightarrow> ('v \<times> 'g, gelo_error, 'a) eff" where
  "sampling f = (\<lambda>(v, g). let (x, g) = f g in (Inr x, (v, g)))"

definition probing :: "('g \<Rightarrow> (probe_error + unit) \<times> 'g) \<Rightarrow> ('v \<times> 'g, gelo_error, unit) eff" where
  "probing f = (\<lambda>(v, g). case f g of (Inl e, g) \<Rightarrow> (Inl (Fail (Probe e)), (v, g)) | (Inr _, g) \<Rightarrow> (Inr (), (v, g)))"

definition sample_normal :: "'f f32_ops \<Rightarrow> ('f, 'g, 'h) gelo_lib \<Rightarrow> nat \<Rightarrow> nat \<Rightarrow> 'f \<Rightarrow> 'g \<Rightarrow> 'f list list \<times> 'g" where
  "sample_normal F L rows cols sigma g =
     (let (zs, g) = draws (gl_normal L) (rows * cols) g in (rows_of cols rows (map (\<lambda>z. f_mul F z sigma) zs), g))"

definition sample_scalar :: "'f f32_ops \<Rightarrow> ('f, 'g, 'h) gelo_lib \<Rightarrow> 'g \<Rightarrow> 'f \<times> 'g" where
  "sample_scalar F L g = (let (v, g) = gl_scalar L g; (u, g) = gl_next_u32 L g in (if u AND 1 = 0 then v else f_neg F v, g))"

definition random_perm :: "('f, 'g, 'h) gelo_lib \<Rightarrow> nat \<Rightarrow> 'g \<Rightarrow> nat list \<times> 'g" where
  "random_perm L n g = gl_shuffle L [0..<n] g"

definition permute_rows :: "nat list \<Rightarrow> 'a list list \<Rightarrow> 'a list list" where
  "permute_rows lambda m = map (nth m) lambda"

definition permute_cols :: "nat list \<Rightarrow> 'a list list \<Rightarrow> 'a list list" where
  "permute_cols lambda m = map (\<lambda>row. map (nth row) lambda) m"

definition inverse_of :: "nat list \<Rightarrow> nat list" where
  "inverse_of lambda = fold (\<lambda>i inv. inv[lambda ! i := i]) [0..<length lambda] (replicate (length lambda) 0)"

definition inverse_permute :: "nat list \<Rightarrow> nat list \<Rightarrow> 'a list list \<Rightarrow> 'a list list" where
  "inverse_permute lambda_rows lambda_cols m =
     map (\<lambda>i. map (\<lambda>j. m ! (inverse_of lambda_rows ! i) ! (inverse_of lambda_cols ! j)) [0..<length lambda_cols]) [0..<length lambda_rows]"

definition ew :: "('a \<Rightarrow> 'b \<Rightarrow> 'c) \<Rightarrow> 'a list list \<Rightarrow> 'b list list \<Rightarrow> 'c list list" where
  "ew f = map2 (map2 f)"

text \<open>What the trusted side keeps of one product.\<close>

record 'f out_attn =
  oa_q :: "'f list list"
  oa_kt :: "'f list list"
  oa_lambda_q :: "nat list"
  oa_lambda_k :: "nat list"
  oa_a :: 'f
  oa_b :: 'f

definition out_attn_setup :: "'f f32_ops \<Rightarrow> ('f, 'g, 'h) gelo_lib \<Rightarrow> nat \<Rightarrow> nat \<Rightarrow> 'f list list \<Rightarrow> 'f list list \<Rightarrow> 'g \<Rightarrow> 'f out_attn \<times> 'g" where
  "out_attn_setup F L n d q kt g =
     (let (r_q, g) = sample_normal F L n d (f_lit F 1) g;
          (r_kt, g) = sample_normal F L d n (f_lit F 1) g;
          (a, g) = sample_scalar F L g;
          (b, g) = sample_scalar F L g;
          sq = ew (f_add F) q r_q @ map (map (\<lambda>x. f_mul F x a)) r_q;
          (lambda_q, g) = random_perm L (2 * n) g;
          skt = map2 (@) (ew (f_add F) kt r_kt) (map (map (\<lambda>x. f_mul F x b)) r_kt);
          (lambda_k, g) = random_perm L (2 * n) g
      in (\<lparr>oa_q = permute_rows lambda_q sq, oa_kt = permute_cols lambda_k skt,
           oa_lambda_q = lambda_q, oa_lambda_k = lambda_k, oa_a = a, oa_b = b\<rparr>, g))"

definition out_attn_recover :: "'f f32_ops \<Rightarrow> nat \<Rightarrow> 'f out_attn \<Rightarrow> 'f list list \<Rightarrow> 'f list list" where
  "out_attn_recover F n S tilde =
     (let permed = inverse_permute (oa_lambda_q S) (oa_lambda_k S) tilde;
          t1 = map (take n) (take n permed);
          t2 = map (drop n) (take n permed);
          t3 = map (take n) (drop n permed);
          t4 = map (drop n) (drop n permed);
          ab = f_mul F (oa_a S) (oa_b S)
      in ew (f_add F) (ew (f_sub F) (ew (f_sub F) t1 (map (map (\<lambda>x. f_div F x (oa_b S))) t2))
           (map (map (\<lambda>x. f_div F x (oa_a S))) t3)) (map (map (\<lambda>x. f_div F x ab)) t4))"

text \<open>The result of the engine is used as the documented shape; another one is a panic.\<close>

definition offload_qkt :: "'f f32_ops \<Rightarrow> 'f f32_math \<Rightarrow> ('f, 'g, 'h) gelo_lib \<Rightarrow> ('f, 'v) engine_ops \<Rightarrow>
    'f array2 \<Rightarrow> 'f array2 \<Rightarrow> nat \<Rightarrow> ('v \<times> 'g, gelo_error, 'f array2) eff" where
  "offload_qkt F H L E q kt n_verify_probes =
     (let n = length (snd q); d = fst q in
      if length (snd kt) \<noteq> d \<or> fst kt \<noteq> n then efault (Fail (BadShape ''OutAttnMult shape mismatch''))
      else ebind (sampling (out_attn_setup F L n d (snd q) (snd kt))) (\<lambda>S.
        ebind (engine_call (en_matmul_dynamic E (d, oa_q S) (2 * n, oa_kt S))) (\<lambda>tilde.
        eseq (if 0 < n_verify_probes then probing (verify_offload F H L n_verify_probes (d, oa_q S) (2 * n, oa_kt S) tilde) else ereturn ())
        (eseq (eassert (length (snd tilde) = 2 * n \<and> fst tilde = 2 * n))
        (ereturn (n, out_attn_recover F n S (snd tilde)))))))"

definition offload_qkt_batched :: "'f f32_ops \<Rightarrow> 'f f32_math \<Rightarrow> ('f, 'g, 'h) gelo_lib \<Rightarrow> ('f, 'v) engine_ops \<Rightarrow>
    'f array3 \<Rightarrow> 'f array3 \<Rightarrow> nat \<Rightarrow> ('v \<times> 'g, gelo_error, 'f array3) eff" where
  "offload_qkt_batched F H L E = (\<lambda>(n, d, q) (d', n', kt) n_verify_probes.
     if length kt \<noteq> length q \<or> d' \<noteq> d \<or> n' \<noteq> n then efault (Fail (BadShape ''offload_qkt_batched shape mismatch''))
     else ebind (emap (\<lambda>(q_h, kt_h). sampling (out_attn_setup F L n d q_h kt_h)) (zip q kt)) (\<lambda>Ss.
       ebind (engine_call (en_run_runtime_matmul E (2 * n, d, map oa_q Ss) (d, 2 * n, map oa_kt Ss))) (\<lambda>(m, p, tilde).
       eseq (if 0 < n_verify_probes
             then efor (zip Ss tilde) (\<lambda>(S, z). probing (verify_offload F H L n_verify_probes (d, oa_q S) (2 * n, oa_kt S) (p, z)))
             else ereturn ())
       (eseq (eassert (m = 2 * n \<and> p = 2 * n \<and> length tilde = length Ss))
       (ereturn (n, n, map2 (out_attn_recover F n) Ss tilde))))))"

section \<open>Permuted attention\<close>

record 'f perm_attn_config =
  pa_noise_sigma :: 'f
  pa_causal_mask_neg :: 'f
  pa_decode_softmax_on_gpu :: bool

datatype attention_mask = NoMask | Causal

definition sample_permutation :: "('f, 'g, 'h) gelo_lib \<Rightarrow> nat \<Rightarrow> 'g \<Rightarrow> nat list \<times> 'g" where
  "sample_permutation L n g = gl_shuffle L [0..<n] g"

text \<open>Below the threshold the noise comes from the generator itself, above it from one generator
  per head, seeded by it.\<close>

definition noisy_head :: "'f f32_ops \<Rightarrow> ('f, 'g, 'h) gelo_lib \<Rightarrow> nat \<Rightarrow> 'f \<Rightarrow> 'f list list \<Rightarrow> 'g \<Rightarrow> 'f list list \<times> 'g" where
  "noisy_head F L d sigma m g =
     (let (zs, g) = draws (gl_normal L) (length m * d) g in
      (ew (\<lambda>v z. f_add F v (f_mul F sigma z)) m (rows_of d (length m) zs), g))"

definition add_gaussian_3d :: "'f f32_ops \<Rightarrow> ('f, 'g, 'h) gelo_lib \<Rightarrow> nat \<Rightarrow> nat \<Rightarrow> 'f \<Rightarrow> 'f list list list \<Rightarrow> 'g \<Rightarrow> 'f list list list \<times> 'g" where
  "add_gaussian_3d F L n d sigma ms g =
     (if f_is_zero F sigma then (ms, g)
      else if length ms * n * d < 32768
      then fold (\<lambda>m (out, g). let (m', g) = noisy_head F L d sigma m g in (out @ [m'], g)) ms ([], g)
      else let (seeds, g) = draws (gl_fill_rng L 32) (length ms) g in
        (map2 (\<lambda>m s. fst (noisy_head F L d sigma m (gl_chacha L s))) ms seeds, g))"

definition soft_mask :: "'f f32_ops \<Rightarrow> 'f \<Rightarrow> nat \<Rightarrow> nat list \<Rightarrow> nat list \<Rightarrow> 'f list list" where
  "soft_mask F neg q_pos_offset perm_q perm_kv =
     map (\<lambda>pi. map (\<lambda>pj. if q_pos_offset + pi < pj then f_neg F neg else f_lit F 0) perm_kv) perm_q"

definition masked_probs :: "'f f32_ops \<Rightarrow> ('f, 'g, 'h) gelo_lib \<Rightarrow> 'f perm_attn_config \<Rightarrow> attention_mask \<Rightarrow> 'f \<Rightarrow>
    nat \<Rightarrow> nat list \<Rightarrow> nat list \<Rightarrow> 'f list list \<Rightarrow> 'f list list" where
  "masked_probs F L cfg msk scale q_pos_offset perm_q perm_kv scores =
     (let scores = map (map (\<lambda>x. f_mul F x scale)) scores;
          scores = (case msk of
              Causal \<Rightarrow> ew (f_add F) scores (soft_mask F (pa_causal_mask_neg cfg) q_pos_offset perm_q perm_kv)
            | NoMask \<Rightarrow> scores)
      in map (softmax_row F L) scores)"

text \<open>Row \<open>perm ! i\<close> of the result is row \<open>i\<close> of the permuted one.\<close>

definition unpermute :: "'f f32_ops \<Rightarrow> nat \<Rightarrow> nat list \<Rightarrow> 'f list list \<Rightarrow> 'f list list" where
  "unpermute F d perm m = fold (\<lambda>i out. out[perm ! i := m ! i]) [0..<length perm] (zeros F (length perm) d)"

definition add_noise :: "'f f32_ops \<Rightarrow> ('f, 'g, 'h) gelo_lib \<Rightarrow> 'f perm_attn_config \<Rightarrow> nat \<Rightarrow> nat \<Rightarrow> nat \<Rightarrow>
    'f list list list \<Rightarrow> 'f list list list \<Rightarrow> 'g \<Rightarrow> ('f list list list \<times> 'f list list list) \<times> 'g" where
  "add_noise F L cfg n_q n_kv d q k g =
     (if f_lt F (f_lit F 0) (pa_noise_sigma cfg) then
        let (q, g) = add_gaussian_3d F L n_q d (pa_noise_sigma cfg) q g;
            (k, g) = add_gaussian_3d F L n_kv d (pa_noise_sigma cfg) k g in ((q, k), g)
      else ((q, k), g))"

definition shielded_attention :: "'f f32_ops \<Rightarrow> ('f, 'g, 'h) gelo_lib \<Rightarrow> ('f, 'v) engine_ops \<Rightarrow> 'f perm_attn_config \<Rightarrow> attention_mask \<Rightarrow>
    'f \<Rightarrow> nat \<Rightarrow> nat list \<Rightarrow> nat list \<Rightarrow> 'f array3 \<Rightarrow> 'f array3 \<Rightarrow> 'f array3 \<Rightarrow> ('v \<times> 'g, gelo_error, 'f array3) eff" where
  "shielded_attention F L E cfg msk scale q_pos_offset perm_q perm_kv = (\<lambda>(n_q, d, q) (n_kv, _, k) v.
     ebind (engine_call (en_run_runtime_matmul E (n_q, d, q) (d, n_kv, map (transpose_of d) k))) (\<lambda>(m, p, scores).
       eseq (eassert (m = n_q \<and> p = n_kv \<and> length scores = length q))
       (engine_call (en_run_runtime_matmul E (n_q, n_kv, map (masked_probs F L cfg msk scale q_pos_offset perm_q perm_kv) scores) v))))"

definition permuted_attention :: "'f f32_ops \<Rightarrow> ('f, 'g, 'h) gelo_lib \<Rightarrow> ('f, 'v) engine_ops \<Rightarrow>
    'f array3 \<Rightarrow> 'f array3 \<Rightarrow> 'f array3 \<Rightarrow> 'f \<Rightarrow> attention_mask \<Rightarrow> 'f perm_attn_config \<Rightarrow> ('v \<times> 'g, gelo_error, 'f array3) eff" where
  "permuted_attention F L E = (\<lambda>(n, d, q) (nk, dk, k) (nv, dv, v) scale msk cfg.
     if (length k, nk, dk) \<noteq> (length q, n, d) then efault (Fail (BadShape ''permuted_attention: K shape''))
     else if (length v, nv, dv) \<noteq> (length q, n, d) then efault (Fail (BadShape ''permuted_attention: V shape''))
     else ebind (sampling (sample_permutation L n)) (\<lambda>perm.
       ebind (sampling (add_noise F L cfg n n d (map (permute_rows perm) q) (map (permute_rows perm) k))) (\<lambda>(q_perm, k_perm).
       ebind (shielded_attention F L E cfg msk scale 0 perm perm (n, d, q_perm) (n, d, k_perm) (n, d, map (permute_rows perm) v)) (\<lambda>(m, p, out_perm).
       eseq (eassert (m = n \<and> p = d \<and> length out_perm = length q))
       (ereturn (n, d, map (unpermute F d perm) out_perm))))))"

definition permuted_attention_cached :: "'f f32_ops \<Rightarrow> ('f, 'g, 'h) gelo_lib \<Rightarrow> ('f, 'v) engine_ops \<Rightarrow>
    'f array3 \<Rightarrow> 'f array3 \<Rightarrow> 'f array3 \<Rightarrow> 'f \<Rightarrow> nat \<Rightarrow> attention_mask \<Rightarrow> 'f perm_attn_config \<Rightarrow> ('v \<times> 'g, gelo_error, 'f array3) eff" where
  "permuted_attention_cached F L E = (\<lambda>(n_q, d, q) (n_kv, dk, k) (nv, dv, v) scale q_pos_offset msk cfg.
     if (length k, dk) \<noteq> (length q, d) then efault (Fail (BadShape ''permuted_attention_cached: K shape''))
     else if (length v, nv, dv) \<noteq> (length q, n_kv, d) then efault (Fail (BadShape ''permuted_attention_cached: V shape''))
     else if n_kv < n_q then efault (Fail (BadShape ''permuted_attention_cached: n_q cannot exceed n_kv''))
     else if n_kv < q_pos_offset + n_q then efault (Fail (BadShape ''permuted_attention_cached: q_pos_offset''))
     else ebind (sampling (sample_permutation L n_q)) (\<lambda>perm_q.
       ebind (sampling (sample_permutation L n_kv)) (\<lambda>perm_kv.
       ebind (sampling (add_noise F L cfg n_q n_kv d (map (permute_rows perm_q) q) (map (permute_rows perm_kv) k))) (\<lambda>(q_perm, k_perm).
       let v_perm = (n_kv, d, map (permute_rows perm_kv) v);
           mask_is_noop = (case msk of NoMask \<Rightarrow> True | Causal \<Rightarrow> n_q = 1 \<and> q_pos_offset + n_q = n_kv) in
       ebind (if pa_decode_softmax_on_gpu cfg \<and> mask_is_noop
              then engine_call (en_run_fused_attention E (n_q, d, q_perm) (n_kv, d, k_perm) v_perm scale None)
              else shielded_attention F L E cfg msk scale q_pos_offset perm_q perm_kv (n_q, d, q_perm) (n_kv, d, k_perm) v_perm) (\<lambda>(m, p, out_perm).
       eseq (eassert (m = n_q \<and> p = d \<and> length out_perm = length q))
       (ereturn (n_q, d, map (unpermute F d perm_q) out_perm)))))))"

end
