(* ===== verification/Gelo_Exec.thy ===== *)
theory Gelo_Exec
  imports Gelo_Attention
begin

text \<open>
  The trusted executor of \<^verbatim>\<open>crates/gelo-protocol\<close> (\<^verbatim>\<open>sim.rs\<close>): its state, the builders, the
  forward passes and every offload, under one mask for all rows or one mask for each sequence,
  and the plaintext executor it is compared with.  A call of the engine goes through the record
  of its methods; the scratch buffers are kept between calls as in the code, with whatever an
  earlier call left in them.
\<close>

section \<open>The executor\<close>

datatype 'f session_kind =
    Single "'f mask_family" nat
  | PerSequence "'f mask_family list" nat nat

record ('f, 'g, 'h, 'v) executor =
  xe_engine :: 'v
  xe_rng :: 'g
  xe_shield_rng :: 'h
  xe_shield :: "'f shield_config"
  xe_shield_default :: "'f shield_config"
  xe_shield_small_n :: "'f shield_config option"
  xe_shield_small_n_max :: nat
  xe_verify_probes :: nat
  xe_weights :: "'f weights"
  xe_ple_table :: "'f ple_table option"
  xe_per_forward_mask :: bool
  xe_session :: "'f session_kind option"
  xe_stacked_scratch :: "nat \<Rightarrow> 'f array2 option"
  xe_per_seq_apply_scratch :: "nat \<Rightarrow> 'f array2 option"
  xe_perm_attn :: "'f perm_attn_config"
  xe_snapshot_capture :: "'f snapshot_capture option"
  xe_mask_kind :: mask_kind
  xe_haar_mask_bf16 :: bool

type_synonym ('f, 'g, 'h, 'v, 'a) exec = "(('f, 'g, 'h, 'v) executor, gelo_error, 'a) eff"

text \<open>The generator of the shield starts from a stream of its own.\<close>

definition SHIELD_RNG_STREAM :: "64 word" where
  "SHIELD_RNG_STREAM = 0xCAFEF00D5EEDE11D"

definition derive_shield_rng :: "('f, 'g, 'h) gelo_lib \<Rightarrow> bytes \<Rightarrow> 'h" where
  "derive_shield_rng L seed = gl_seed L (fst (gl_fill_rng L 32 (gl_set_stream L SHIELD_RNG_STREAM (gl_chacha L seed))))"

definition default_perm_attn :: "'f f32_ops \<Rightarrow> 'f perm_attn_config" where
  "default_perm_attn F = \<lparr>pa_noise_sigma = f_lit F 0, pa_causal_mask_neg = f_lit F 30, pa_decode_softmax_on_gpu = False\<rparr>"

definition with_shield :: "'f f32_ops \<Rightarrow> ('f, 'g, 'h) gelo_lib \<Rightarrow> 'v \<Rightarrow> bytes \<Rightarrow> 'f shield_config \<Rightarrow> ('f, 'g, 'h, 'v) executor" where
  "with_shield F L engine seed shield =
     \<lparr>xe_engine = engine, xe_rng = gl_chacha L seed, xe_shield_rng = derive_shield_rng L seed,
      xe_shield = shield, xe_shield_default = shield, xe_shield_small_n = None, xe_shield_small_n_max = 0,
      xe_verify_probes = 0, xe_weights = Map.empty, xe_ple_table = None, xe_per_forward_mask = False, xe_session = None,
      xe_stacked_scratch = Map.empty, xe_per_seq_apply_scratch = Map.empty, xe_perm_attn = default_perm_attn F,
      xe_snapshot_capture = None, xe_mask_kind = KindHaar, xe_haar_mask_bf16 = False\<rparr>"

definition with_seed :: "'f f32_ops \<Rightarrow> ('f, 'g, 'h) gelo_lib \<Rightarrow> 'v \<Rightarrow> bytes \<Rightarrow> ('f, 'g, 'h, 'v) executor" where
  "with_seed F L engine seed =
     (with_shield F L engine seed \<lparr>sc_k = 8, sc_energy_scale = f_lit F 4\<rparr>)
       \<lparr>xe_shield_small_n := Some \<lparr>sc_k = 15, sc_energy_scale = f_lit F 4\<rparr>, xe_shield_small_n_max := 1,
        xe_per_forward_mask := True, xe_mask_kind := KindAuto\<rparr>"

definition clone_executor :: "('f, 'g, 'h, 'v) executor \<Rightarrow> ('f, 'g, 'h, 'v) executor" where
  "clone_executor x = x\<lparr>xe_session := None, xe_stacked_scratch := Map.empty, xe_per_seq_apply_scratch := Map.empty,
     xe_snapshot_capture := map_option (\<lambda>c. snapshot_new (cap_cfg c)) (xe_snapshot_capture x)\<rparr>"

definition clear_scratch :: "('f, 'g, 'h, 'v) executor \<Rightarrow> ('f, 'g, 'h, 'v) executor" where
  "clear_scratch x = x\<lparr>xe_stacked_scratch := Map.empty, xe_per_seq_apply_scratch := Map.empty\<rparr>"

definition with_mask_kind :: "mask_kind \<Rightarrow> ('f, 'g, 'h, 'v) executor \<Rightarrow> ('f, 'g, 'h, 'v) executor" where
  "with_mask_kind kind x = clear_scratch (x\<lparr>xe_mask_kind := kind, xe_session := None\<rparr>)"

definition with_haar_mask_bf16 :: "('f, 'g, 'h, 'v) executor \<Rightarrow> ('f, 'g, 'h, 'v) executor" where
  "with_haar_mask_bf16 x = clear_scratch (x\<lparr>xe_haar_mask_bf16 := True, xe_session := None\<rparr>)"

definition with_small_n_shield :: "(nat \<times> 'f shield_config) option \<Rightarrow> ('f, 'g, 'h, 'v) executor \<Rightarrow> ('f, 'g, 'h, 'v) executor" where
  "with_small_n_shield cfg x =
     (case cfg of
       Some (max_n, shield) \<Rightarrow> x\<lparr>xe_shield_small_n := Some shield, xe_shield_small_n_max := max_n\<rparr>
     | None \<Rightarrow> x\<lparr>xe_shield_small_n := None, xe_shield_small_n_max := 0\<rparr>)"

definition set_shield :: "'f shield_config \<Rightarrow> ('f, 'g, 'h, 'v) executor \<Rightarrow> ('f, 'g, 'h, 'v) executor" where
  "set_shield shield x = x\<lparr>xe_shield := shield, xe_shield_default := shield\<rparr>"

definition with_per_forward_mask :: "'f shield_config \<Rightarrow> ('f, 'g, 'h, 'v) executor \<Rightarrow> (gelo_error, ('f, 'g, 'h, 'v) executor) outcome" where
  "with_per_forward_mask shield x =
     (if shield_enabled shield then Inr (x\<lparr>xe_per_forward_mask := True, xe_shield := shield\<rparr>) else Inl Panic)"

definition with_per_offload_mask :: "'f f32_ops \<Rightarrow> ('f, 'g, 'h, 'v) executor \<Rightarrow> ('f, 'g, 'h, 'v) executor" where
  "with_per_offload_mask F x = clear_scratch (x\<lparr>xe_per_forward_mask := False, xe_shield := shield_none F, xe_session := None\<rparr>)"

definition set_verify_probes :: "nat \<Rightarrow> ('f, 'g, 'h, 'v) executor \<Rightarrow> ('f, 'g, 'h, 'v) executor" where
  "set_verify_probes n x = x\<lparr>xe_verify_probes := n\<rparr>"

definition set_perm_attention :: "'f perm_attn_config \<Rightarrow> ('f, 'g, 'h, 'v) executor \<Rightarrow> ('f, 'g, 'h, 'v) executor" where
  "set_perm_attention cfg x = x\<lparr>xe_perm_attn := cfg\<rparr>"

definition enable_snapshot_capture :: "snapshot_config \<Rightarrow> ('f, 'g, 'h, 'v) executor \<Rightarrow> ('f, 'g, 'h, 'v) executor" where
  "enable_snapshot_capture cfg x = x\<lparr>xe_snapshot_capture := Some (snapshot_new cfg)\<rparr>"

definition drain_pcie_snapshots :: "('f, 'g, 'h, 'v, 'f pcie_snapshot list) exec" where
  "drain_pcie_snapshots = (\<lambda>x. case xe_snapshot_capture x of
       None \<Rightarrow> (Inr [], x)
     | Some c \<Rightarrow> let (ss, c) = snapshot_drain c in (Inr ss, x\<lparr>xe_snapshot_capture := Some c\<rparr>))"

definition record_snapshot :: "weight_handle \<Rightarrow> 'f array2 \<Rightarrow> 'f array2 option \<Rightarrow> ('f, 'g, 'h, 'v, unit) exec" where
  "record_snapshot handle operand output =
     emodify (\<lambda>x. x\<lparr>xe_snapshot_capture := map_option (snapshot_record handle operand output) (xe_snapshot_capture x)\<rparr>)"

section \<open>Parts of the state\<close>

definition on_engine :: "('v, gelo_error, 'a) eff \<Rightarrow> ('f, 'g, 'h, 'v, 'a) exec" where
  "on_engine = zoom xe_engine (\<lambda>v x. x\<lparr>xe_engine := v\<rparr>)"

definition on_rng :: "('g, gelo_error, 'a) eff \<Rightarrow> ('f, 'g, 'h, 'v, 'a) exec" where
  "on_rng = zoom xe_rng (\<lambda>g x. x\<lparr>xe_rng := g\<rparr>)"

definition on_shield_rng :: "('h \<Rightarrow> ('a \<times> 'h) option) \<Rightarrow> ('f, 'g, 'h, 'v, 'a) exec" where
  "on_shield_rng f = (\<lambda>x. case f (xe_shield_rng x) of None \<Rightarrow> (Inl Hang, x) | Some (a, h) \<Rightarrow> (Inr a, x\<lparr>xe_shield_rng := h\<rparr>))"

definition on_engine_rng :: "('v \<times> 'g, gelo_error, 'a) eff \<Rightarrow> ('f, 'g, 'h, 'v, 'a) exec" where
  "on_engine_rng = zoom (\<lambda>x. (xe_engine x, xe_rng x)) (\<lambda>(v, g) x. x\<lparr>xe_engine := v, xe_rng := g\<rparr>)"

text \<open>Rows written over those of a buffer, from \<open>start\<close> on.\<close>

definition write_rows :: "nat \<Rightarrow> 'a list \<Rightarrow> 'a list \<Rightarrow> 'a list" where
  "write_rows start rows buf = take start buf @ rows @ drop (start + length rows) buf"

definition scratch_or_zeros :: "'f f32_ops \<Rightarrow> 'f array2 option \<Rightarrow> nat \<Rightarrow> nat \<Rightarrow> 'f list list" where
  "scratch_or_zeros F b n d = (case b of Some (d', m) \<Rightarrow> (if length m = n \<and> d' = d then m else zeros F n d) | None \<Rightarrow> zeros F n d)"

section \<open>One mask for all rows\<close>

definition fresh_mask :: "'f f32_ops \<Rightarrow> 'f f32_math \<Rightarrow> ('f, 'g, 'h) gelo_lib \<Rightarrow> bool \<Rightarrow> mask_kind \<Rightarrow> nat \<Rightarrow> ('g, gelo_error, 'f mask_family) eff" where
  "fresh_mask F H L bf16 kind n =
     (case kind of
       KindHaar \<Rightarrow> (\<lambda>g. let (m, g) = (if bf16 then gelo_fresh_bf16 F H L n g else gelo_fresh F H L n g) in (Inr (Haar m), g))
     | KindHd3 \<Rightarrow> ebind (hd3_fresh F H (gl_next_u32 L) n) (\<lambda>m. ereturn (Hd3 m))
     | KindDct4 \<Rightarrow> ebind (dct4_fresh F H (gl_next_u32 L) n) (\<lambda>m. ereturn (Dct4 m))
     | KindAuto \<Rightarrow> efault Panic)"

definition stacked_size :: "mask_kind \<Rightarrow> nat \<Rightarrow> nat" where
  "stacked_size kind s = (if kind = KindHd3 then max (next_power_of_two s) 2 else s)"

definition resolve_mask :: "'f f32_ops \<Rightarrow> 'f f32_math \<Rightarrow> ('f, 'g, 'h) gelo_lib \<Rightarrow> mask_kind \<Rightarrow> nat \<Rightarrow> nat \<Rightarrow> ('f, 'g, 'h, 'v, 'f mask_family) exec" where
  "resolve_mask F H L resolved_kind n_data stacked_n =
     ebind (eget id) (\<lambda>x.
       if xe_per_forward_mask x then
         (case xe_session x of
           Some (Single M data_n) \<Rightarrow> if data_n = n_data \<and> family_n M = stacked_n then ereturn M else efault Panic
         | _ \<Rightarrow> efault Panic)
       else on_rng (fresh_mask F H L (xe_haar_mask_bf16 x) resolved_kind stacked_n))"

text \<open>The data rows, the shield rows and zeros up to the size of the mask, in the scratch buffer.\<close>

definition fill_stacked :: "'f f32_ops \<Rightarrow> ('f, 'g, 'h) gelo_lib \<Rightarrow> nat \<Rightarrow> nat \<Rightarrow> nat \<Rightarrow> 'f \<Rightarrow> 'f list list \<Rightarrow> 'f list list \<Rightarrow> 'h \<Rightarrow> ('f list list \<times> 'h) option" where
  "fill_stacked F L d k stacked_n sigma hidden buf h =
     (let n_data = length hidden; shield_end = min (n_data + k) stacked_n; buf = write_rows 0 hidden buf in
      map_option (\<lambda>(shield, h). (write_rows shield_end (zeros F (stacked_n - shield_end) d) (write_rows n_data shield buf), h))
        (fill_shield_rows F L (shield_end - n_data) d sigma h))"

definition build_shielded_and_apply :: "'f f32_ops \<Rightarrow> 'f f32_math \<Rightarrow> ('f, 'g, 'h) gelo_lib \<Rightarrow> 'f array2 \<Rightarrow>
    ('f, 'g, 'h, 'v, 'f mask_family \<times> 'f list list \<times> nat) exec" where
  "build_shielded_and_apply F H L = (\<lambda>(d, hidden).
     let n_data = length hidden in
     ebind (eget id) (\<lambda>x.
     let k = sc_k (xe_shield x);
         resolved_kind = resolve_mask_kind_for_shape (xe_mask_kind x) (n_data + k);
         stacked_n = stacked_size resolved_kind (n_data + k) in
     ebind (resolve_mask F H L resolved_kind n_data stacked_n) (\<lambda>mask.
     ebind
       (if xe_per_forward_mask x \<and> shield_enabled (xe_shield x) then
          let sigma = shield_sigma F H (sc_energy_scale (xe_shield x)) d hidden;
              buf = scratch_or_zeros F (xe_stacked_scratch x d) stacked_n d in
          ebind (on_shield_rng (fill_stacked F L d k stacked_n sigma hidden buf)) (\<lambda>buf.
          eseq (emodify (\<lambda>x. x\<lparr>xe_stacked_scratch := (case mask of
              Haar _ \<Rightarrow> (xe_stacked_scratch x)(d \<mapsto> (d, buf)) | _ \<Rightarrow> (xe_stacked_scratch x)(d := None))\<rparr>))
          (elift (family_apply F L mask d buf)))
        else
          ebind (on_shield_rng (stack_shield F H L d hidden (xe_shield x))) (\<lambda>stacked.
          elift (family_apply F L mask d (if length stacked < stacked_n then stacked @ zeros F (stacked_n - length stacked) d else stacked))))
       (\<lambda>masked. ereturn (mask, masked, n_data)))))"

definition pooled_kind :: "mask_kind \<Rightarrow> bool" where
  "pooled_kind kind \<longleftrightarrow> kind \<in> {KindHd3, KindDct4, KindAuto}"

definition return_apply_scratch :: "'f array2 \<Rightarrow> ('f, 'g, 'h, 'v, unit) exec" where
  "return_apply_scratch buf = emodify (\<lambda>x.
     if xe_per_forward_mask x \<and> shield_enabled (xe_shield x) \<and> pooled_kind (xe_mask_kind x)
     then x\<lparr>xe_stacked_scratch := (xe_stacked_scratch x)(fst buf \<mapsto> buf)\<rparr> else x)"

text \<open>The engine's answer is checked for its number, recorded, and probed if asked to.\<close>

definition verify_linear :: "'f f32_ops \<Rightarrow> 'f f32_math \<Rightarrow> ('f, 'g, 'h) gelo_lib \<Rightarrow> 'f array2 \<Rightarrow> weight_handle \<Rightarrow> 'f array2 \<Rightarrow> ('f, 'g, 'h, 'v, unit) exec" where
  "verify_linear F H L masked handle observed =
     ebind (eget id) (\<lambda>x.
       case xe_weights x handle of
         None \<Rightarrow> efault (Fail (NotCached handle))
       | Some w \<Rightarrow> on_rng (\<lambda>g. case verify_offload F H L (xe_verify_probes x) masked w observed g of
             (Inl e, g) \<Rightarrow> (Inl (Fail (Probe e)), g) | (Inr _, g) \<Rightarrow> (Inr (), g)))"

definition run_checked :: "'f f32_ops \<Rightarrow> 'f f32_math \<Rightarrow> ('f, 'g, 'h) gelo_lib \<Rightarrow> ('f, 'v) engine_ops \<Rightarrow>
    weight_handle list \<Rightarrow> 'f array2 \<Rightarrow> ('f, 'g, 'h, 'v, 'f array2 list) exec" where
  "run_checked F H L E handles masked =
     ebind (on_engine (en_run_registered_linear E handles masked)) (\<lambda>outs.
     if length outs \<noteq> length handles then efault (Fail (ResultCount (length outs) (length handles)))
     else eseq (efor (zip handles outs) (\<lambda>(h, out). record_snapshot h masked (Some out)))
       (ebind (eget xe_verify_probes) (\<lambda>probes.
        eseq (if 0 < probes then efor (zip handles outs) (\<lambda>(h, out). verify_linear F H L masked h out) else ereturn ())
       (ereturn outs))))"

definition offload_single :: "'f f32_ops \<Rightarrow> 'f f32_math \<Rightarrow> ('f, 'g, 'h) gelo_lib \<Rightarrow> ('f, 'v) engine_ops \<Rightarrow>
    weight_handle list \<Rightarrow> 'f array2 \<Rightarrow> ('f, 'g, 'h, 'v, 'f array2 list) exec" where
  "offload_single F H L E handles hidden =
     ebind (build_shielded_and_apply F H L hidden) (\<lambda>(mask, masked, n_data).
     ebind (run_checked F H L E handles (fst hidden, masked)) (\<lambda>outs.
     ebind (emap (\<lambda>(p, out). ebind (elift (family_unapply F L mask p out)) (\<lambda>u. ereturn (p, take n_data u))) outs) (\<lambda>results.
     eseq (return_apply_scratch (fst hidden, masked)) (ereturn results))))"

section \<open>One mask for each sequence\<close>

definition fill_block :: "'f f32_ops \<Rightarrow> 'f f32_math \<Rightarrow> ('f, 'g, 'h) gelo_lib \<Rightarrow> 'f shield_config \<Rightarrow> nat \<Rightarrow> nat \<Rightarrow> 'f list list \<Rightarrow> bytes \<Rightarrow> 'f list list \<Rightarrow> 'f list list option" where
  "fill_block F H L shield d stacked_n sub_in seed block =
     (let data_n = length sub_in;
          sigma = shield_sigma F H (sc_energy_scale shield) d sub_in;
          shield_end = min (data_n + sc_k shield) stacked_n;
          block = write_rows 0 sub_in block in
      map_option (\<lambda>block. write_rows shield_end (zeros F (stacked_n - shield_end) d) block)
        (if data_n < shield_end
         then map_option (\<lambda>(rows, _). write_rows data_n rows block) (fill_shield_rows F L (shield_end - data_n) d sigma (gl_seed L seed))
         else Some block))"

definition build_per_sequence_masked :: "'f f32_ops \<Rightarrow> 'f f32_math \<Rightarrow> ('f, 'g, 'h) gelo_lib \<Rightarrow> 'f array2 \<Rightarrow> 'f mask_family list \<Rightarrow> nat \<Rightarrow> nat \<Rightarrow>
    ('f, 'g, 'h, 'v, 'f list list) exec" where
  "build_per_sequence_masked F H L = (\<lambda>(d_in, hidden) masks batch_size data_n.
     eseq (eassert (masks \<noteq> []))
     (let stacked_n = family_n (masks ! 0) in
     ebind (eget id) (\<lambda>x.
     let buf = scratch_or_zeros F (xe_per_seq_apply_scratch x d_in) (batch_size * stacked_n) d_in in
     eseq (emodify (\<lambda>x. x\<lparr>xe_per_seq_apply_scratch := (xe_per_seq_apply_scratch x)(d_in := None)\<rparr>))
     (ebind (on_shield_rng (\<lambda>h. Some (draws (gl_fill L 32) batch_size h))) (\<lambda>seeds.
     eseq (eassert (0 < stacked_n \<and> batch_size * data_n \<le> length hidden))
     (ebind (emap (\<lambda>(b, block). case fill_block F H L (xe_shield x) d_in stacked_n (take data_n (drop (b * data_n) hidden)) (seeds ! b) block of
           None \<Rightarrow> efault Hang | Some block \<Rightarrow> ereturn block)
         (zip [0..<batch_size] (row_chunks stacked_n buf))) (\<lambda>blocks.
     eseq (eassert (0 < stacked_n * d_in))
     (ebind (emap (\<lambda>(b, block). eseq (eassert (b < length masks)) (elift (family_apply F L (masks ! b) d_in block)))
         (zip [0..<batch_size] blocks)) (\<lambda>blocks.
     ereturn (concat blocks))))))))))"

definition return_per_seq_apply_scratch :: "'f array2 \<Rightarrow> ('f, 'g, 'h, 'v, unit) exec" where
  "return_per_seq_apply_scratch buf = emodify (\<lambda>x.
     if xe_per_forward_mask x \<and> pooled_kind (xe_mask_kind x)
     then x\<lparr>xe_per_seq_apply_scratch := (xe_per_seq_apply_scratch x)(fst buf \<mapsto> buf)\<rparr> else x)"

text \<open>Output rows past the blocks the engine returned stay zero.\<close>

definition unmask_per_sequence :: "'f f32_ops \<Rightarrow> ('f, 'g, 'h) gelo_lib \<Rightarrow> 'f mask_family list \<Rightarrow> nat \<Rightarrow> nat \<Rightarrow> 'f array2 \<Rightarrow> ('f, 'g, 'h, 'v, 'f array2) exec" where
  "unmask_per_sequence F L masks batch_size data_n = (\<lambda>(d_out, concat_out).
     eseq (eassert (masks \<noteq> []))
     (let stacked_n = family_n (masks ! 0) in
     eseq (eassert (0 < stacked_n * d_out \<and> 0 < data_n * d_out))
     (ebind (emap (\<lambda>(b, block). eseq (eassert (b < length masks))
           (ebind (elift (family_unapply F L (masks ! b) d_out block)) (\<lambda>u. ereturn (take data_n u))))
         (zip [0..<batch_size] (row_chunks stacked_n concat_out))) (\<lambda>blocks.
     ereturn (d_out, concat blocks @ zeros F (batch_size * data_n - length (concat blocks)) d_out)))))"

definition offload_blocks :: "'f f32_ops \<Rightarrow> 'f f32_math \<Rightarrow> ('f, 'g, 'h) gelo_lib \<Rightarrow> ('f, 'v) engine_ops \<Rightarrow>
    weight_handle list \<Rightarrow> 'f array2 \<Rightarrow> nat \<Rightarrow> nat \<Rightarrow> ('f, 'g, 'h, 'v, 'f array2 list) exec" where
  "offload_blocks F H L E handles hidden batch_size data_n =
     ebind (eget xe_session) (\<lambda>session.
     case session of
       Some (PerSequence masks _ _) \<Rightarrow>
         ebind (build_per_sequence_masked F H L hidden masks batch_size data_n) (\<lambda>masked.
         ebind (run_checked F H L E handles (fst hidden, masked)) (\<lambda>outs.
         ebind (emap (unmask_per_sequence F L masks batch_size data_n) outs) (\<lambda>results.
         eseq (return_per_seq_apply_scratch (fst hidden, masked)) (ereturn results))))
     | _ \<Rightarrow> efault Panic)"

definition offload_linear_per_sequence :: "'f f32_ops \<Rightarrow> 'f f32_math \<Rightarrow> ('f, 'g, 'h) gelo_lib \<Rightarrow> ('f, 'v) engine_ops \<Rightarrow>
    weight_handle \<Rightarrow> 'f array2 \<Rightarrow> nat \<Rightarrow> nat \<Rightarrow> ('f, 'g, 'h, 'v, 'f array2) exec" where
  "offload_linear_per_sequence F H L E handle hidden batch_size data_n =
     eseq (eassert (length (snd hidden) = batch_size * data_n))
     (ebind (eget xe_per_forward_mask) (\<lambda>parity.
     if \<not> parity then efault (Fail NotParity)
     else ebind (offload_blocks F H L E [handle] hidden batch_size data_n) (\<lambda>outs. ereturn (hd outs))))"

section \<open>Forward passes\<close>

definition adaptive_shield :: "nat \<Rightarrow> ('f, 'g, 'h, 'v) executor \<Rightarrow> 'f shield_config" where
  "adaptive_shield n x =
     (case xe_shield_small_n x of Some small \<Rightarrow> (if n \<le> xe_shield_small_n_max x then small else xe_shield_default x)
      | None \<Rightarrow> xe_shield_default x)"

definition sample_session_mask :: "'f f32_ops \<Rightarrow> 'f f32_math \<Rightarrow> ('f, 'g, 'h) gelo_lib \<Rightarrow> nat \<Rightarrow> ('f, 'g, 'h, 'v, 'f mask_family) exec" where
  "sample_session_mask F H L s =
     ebind (eget id) (\<lambda>x.
       let kind = resolve_mask_kind_for_shape (xe_mask_kind x) s in
       on_rng (fresh_mask F H L (xe_haar_mask_bf16 x) kind (stacked_size kind s)))"

definition start_session :: "'f session_kind \<Rightarrow> ('f, 'g, 'h, 'v, unit) exec" where
  "start_session s = emodify (\<lambda>x. clear_scratch (x\<lparr>xe_session := Some s\<rparr>))"

definition begin_forward_pass :: "'f f32_ops \<Rightarrow> 'f f32_math \<Rightarrow> ('f, 'g, 'h) gelo_lib \<Rightarrow> nat \<Rightarrow> ('f, 'g, 'h, 'v, unit) exec" where
  "begin_forward_pass F H L n =
     ebind (eget id) (\<lambda>x.
     if \<not> xe_per_forward_mask x then ereturn ()
     else let shield = adaptive_shield n x in
       eseq (emodify (\<lambda>x. x\<lparr>xe_shield := shield\<rparr>))
       (ebind (sample_session_mask F H L (n + sc_k shield)) (\<lambda>mask. start_session (Single mask n))))"

definition end_forward_pass :: "('f, 'g, 'h, 'v, unit) exec" where
  "end_forward_pass = emodify (\<lambda>x. clear_scratch (x\<lparr>xe_session := None\<rparr>))"

definition begin_prefill_pass :: "'f f32_ops \<Rightarrow> 'f f32_math \<Rightarrow> ('f, 'g, 'h) gelo_lib \<Rightarrow> nat \<Rightarrow> nat \<Rightarrow> ('f, 'g, 'h, 'v, unit) exec" where
  "begin_prefill_pass F H L batch_size n_max =
     ebind (eget id) (\<lambda>x.
     if \<not> xe_per_forward_mask x then ereturn ()
     else if batch_size = 0 then efault (Fail EmptyBatch)
     else if n_max = 0 then efault (Fail EmptyRows)
     else let shield = adaptive_shield n_max x in
       eseq (emodify (\<lambda>x. x\<lparr>xe_shield := shield\<rparr>))
       (ebind (emap (\<lambda>_. sample_session_mask F H L (n_max + sc_k shield)) [0..<batch_size]) (\<lambda>masks.
        start_session (PerSequence masks n_max batch_size))))"

text \<open>\<open>shared\<close> is the environment variable \<open>BATCHED_DECODE_SHARED_A\<close> being \<open>1\<close>.\<close>

definition begin_decode_pass :: "'f f32_ops \<Rightarrow> 'f f32_math \<Rightarrow> ('f, 'g, 'h) gelo_lib \<Rightarrow> bool \<Rightarrow> nat \<Rightarrow> ('f, 'g, 'h, 'v, unit) exec" where
  "begin_decode_pass F H L shared batch_size =
     ebind (eget id) (\<lambda>x.
     if \<not> xe_per_forward_mask x then ereturn ()
     else if batch_size = 0 then efault (Fail EmptyBatch)
     else if shared then
       let k = shield_k_for_batch batch_size (max (sc_k (xe_shield_default x)) 1) in
       eseq (emodify (\<lambda>x. x\<lparr>xe_shield := \<lparr>sc_k = k, sc_energy_scale = sc_energy_scale (xe_shield_default x)\<rparr>\<rparr>))
       (ebind (sample_session_mask F H L (batch_size + k)) (\<lambda>mask. start_session (Single mask batch_size)))
     else let shield = adaptive_shield 1 x in
       eseq (emodify (\<lambda>x. x\<lparr>xe_shield := shield\<rparr>))
       (ebind (emap (\<lambda>_. sample_session_mask F H L (1 + sc_k shield)) [0..<batch_size]) (\<lambda>masks.
        start_session (PerSequence masks 1 batch_size))))"

datatype forward_session_shape = SingleShape nat | PrefillBatch nat nat | DecodeBatch nat

fun begin_forward_session :: "'f f32_ops \<Rightarrow> 'f f32_math \<Rightarrow> ('f, 'g, 'h) gelo_lib \<Rightarrow> bool \<Rightarrow> forward_session_shape \<Rightarrow> ('f, 'g, 'h, 'v, unit) exec" where
  "begin_forward_session F H L shared (SingleShape n) = begin_forward_pass F H L n"
| "begin_forward_session F H L shared (PrefillBatch batch_size n_max) = begin_prefill_pass F H L batch_size n_max"
| "begin_forward_session F H L shared (DecodeBatch batch_size) = begin_decode_pass F H L shared batch_size"

section \<open>Provisioning\<close>

definition set_rng_stream :: "('f, 'g, 'h) gelo_lib \<Rightarrow> 64 word \<Rightarrow> ('f, 'g, 'h, 'v, unit) exec" where
  "set_rng_stream L stream = emodify (\<lambda>x. x\<lparr>xe_rng := gl_set_stream L stream (xe_rng x)\<rparr>)"

definition cache_weight :: "weight_handle \<Rightarrow> 'f array2 \<Rightarrow> ('f, 'g, 'h, 'v, unit) exec" where
  "cache_weight handle w = emodify (\<lambda>x. if 0 < xe_verify_probes x then x\<lparr>xe_weights := (xe_weights x)(handle \<mapsto> w)\<rparr> else x)"

definition provision_weight :: "('f, 'v) engine_ops \<Rightarrow> weight_handle \<Rightarrow> 'f array2 \<Rightarrow> ('f, 'g, 'h, 'v, unit) exec" where
  "provision_weight E handle w = eseq (cache_weight handle w) (on_engine (en_register E handle w))"

definition provision_weight_shared :: "('f, 'v) engine_ops \<Rightarrow> weight_handle \<Rightarrow> 'f array2 \<Rightarrow> ('f, 'g, 'h, 'v, unit) exec" where
  "provision_weight_shared E handle w = eseq (on_engine (en_register E handle w)) (cache_weight handle w)"

definition provision_weight_bf16 :: "('f, 'v) engine_ops \<Rightarrow> weight_handle \<Rightarrow> nat \<times> u16 list list \<Rightarrow> ('f, 'g, 'h, 'v, unit) exec" where
  "provision_weight_bf16 E handle w = on_engine (en_register_bf16 E handle w)"

definition provision_ple_table :: "'f ple_table \<Rightarrow> ('f, 'g, 'h, 'v, unit) exec" where
  "provision_ple_table table = emodify (\<lambda>x. x\<lparr>xe_ple_table := Some table\<rparr>)"

definition exec_ple_gather :: "'f f32_ops \<Rightarrow> u32 list \<Rightarrow> nat \<Rightarrow> ('f, 'g, 'h, 'v, 'f array2) exec" where
  "exec_ple_gather F token_ids layer_idx = ebind (eget xe_ple_table) (\<lambda>t.
     case t of None \<Rightarrow> efault (Fail NoPleTable)
     | Some table \<Rightarrow> (case ple_gather F table token_ids layer_idx of Inl e \<Rightarrow> efault (Fail (Ple e)) | Inr m \<Rightarrow> ereturn m))"

section \<open>Offloads\<close>

definition per_sequence_dims :: "('f, 'g, 'h, 'v) executor \<Rightarrow> (nat \<times> nat) option" where
  "per_sequence_dims x = (case xe_session x of Some (PerSequence _ data_n batch_size) \<Rightarrow> Some (batch_size, data_n) | _ \<Rightarrow> None)"

definition offload_linear :: "'f f32_ops \<Rightarrow> 'f f32_math \<Rightarrow> ('f, 'g, 'h) gelo_lib \<Rightarrow> ('f, 'v) engine_ops \<Rightarrow>
    weight_handle \<Rightarrow> 'f array2 \<Rightarrow> ('f, 'g, 'h, 'v, 'f array2) exec" where
  "offload_linear F H L E handle hidden =
     ebind (eget per_sequence_dims) (\<lambda>dims.
     case dims of
       Some (batch_size, data_n) \<Rightarrow> offload_linear_per_sequence F H L E handle hidden batch_size data_n
     | None \<Rightarrow> ebind (offload_single F H L E [handle] hidden) (\<lambda>outs. ereturn (hd outs)))"

definition qkv_handles :: "u16 \<Rightarrow> weight_handle list" where
  "qkv_handles layer = map (\<lambda>k. \<lparr>wh_layer = layer, wh_kind = k\<rparr>) [WQ, WK, WV]"

definition offload_qkv :: "'f f32_ops \<Rightarrow> 'f f32_math \<Rightarrow> ('f, 'g, 'h) gelo_lib \<Rightarrow> ('f, 'v) engine_ops \<Rightarrow>
    u16 \<Rightarrow> 'f array2 \<Rightarrow> ('f, 'g, 'h, 'v, 'f array2 \<times> 'f array2 \<times> 'f array2) exec" where
  "offload_qkv F H L E layer hidden =
     ebind (eget per_sequence_dims) (\<lambda>dims.
     ebind (case dims of
         Some (batch_size, data_n) \<Rightarrow> offload_blocks F H L E (qkv_handles layer) hidden batch_size data_n
       | None \<Rightarrow> offload_single F H L E (qkv_handles layer) hidden)
       (\<lambda>outs. ereturn (outs ! 0, outs ! 1, outs ! 2)))"

definition offload_linear_many :: "'f f32_ops \<Rightarrow> 'f f32_math \<Rightarrow> ('f, 'g, 'h) gelo_lib \<Rightarrow> ('f, 'v) engine_ops \<Rightarrow>
    weight_handle list \<Rightarrow> 'f array2 \<Rightarrow> ('f, 'g, 'h, 'v, 'f array2 list) exec" where
  "offload_linear_many F H L E handles hidden =
     (if handles = [] then ereturn []
      else ebind (eget per_sequence_dims) (\<lambda>dims.
        case dims of
          Some (batch_size, data_n) \<Rightarrow> offload_blocks F H L E handles hidden batch_size data_n
        | None \<Rightarrow> offload_single F H L E handles hidden))"

definition offload_attention_qkt :: "'f f32_ops \<Rightarrow> 'f f32_math \<Rightarrow> ('f, 'g, 'h) gelo_lib \<Rightarrow> ('f, 'v) engine_ops \<Rightarrow>
    'f array2 \<Rightarrow> 'f array2 \<Rightarrow> ('f, 'g, 'h, 'v, 'f array2) exec" where
  "offload_attention_qkt F H L E q kt = ebind (eget xe_verify_probes) (\<lambda>probes. on_engine_rng (offload_qkt F H L E q kt probes))"

definition offload_attention_qkt_batched :: "'f f32_ops \<Rightarrow> 'f f32_math \<Rightarrow> ('f, 'g, 'h) gelo_lib \<Rightarrow> ('f, 'v) engine_ops \<Rightarrow>
    'f array3 \<Rightarrow> 'f array3 \<Rightarrow> ('f, 'g, 'h, 'v, 'f array3) exec" where
  "offload_attention_qkt_batched F H L E q kt = ebind (eget xe_verify_probes) (\<lambda>probes. on_engine_rng (offload_qkt_batched F H L E q kt probes))"

definition offload_attention_permuted :: "'f f32_ops \<Rightarrow> ('f, 'g, 'h) gelo_lib \<Rightarrow> ('f, 'v) engine_ops \<Rightarrow>
    'f array3 \<Rightarrow> 'f array3 \<Rightarrow> 'f array3 \<Rightarrow> 'f \<Rightarrow> attention_mask \<Rightarrow> ('f, 'g, 'h, 'v, 'f array3) exec" where
  "offload_attention_permuted F L E q k v scale msk = ebind (eget xe_perm_attn) (\<lambda>cfg. on_engine_rng (permuted_attention F L E q k v scale msk cfg))"

definition offload_attention_permuted_cached :: "'f f32_ops \<Rightarrow> ('f, 'g, 'h) gelo_lib \<Rightarrow> ('f, 'v) engine_ops \<Rightarrow>
    'f array3 \<Rightarrow> 'f array3 \<Rightarrow> 'f array3 \<Rightarrow> 'f \<Rightarrow> nat \<Rightarrow> attention_mask \<Rightarrow> ('f, 'g, 'h, 'v, 'f array3) exec" where
  "offload_attention_permuted_cached F L E q k v scale q_pos_offset msk =
     ebind (eget xe_perm_attn) (\<lambda>cfg. on_engine_rng (permuted_attention_cached F L E q k v scale q_pos_offset msk cfg))"

section \<open>The plaintext executor\<close>

record ('f, 'v) plaintext_executor =
  pe_engine :: 'v
  pe_ple_table :: "'f ple_table option"

type_synonym ('f, 'v, 'a) plain_exec = "(('f, 'v) plaintext_executor, gelo_error, 'a) eff"

definition plain_engine :: "('v, gelo_error, 'a) eff \<Rightarrow> ('f, 'v, 'a) plain_exec" where
  "plain_engine = zoom pe_engine (\<lambda>v x. x\<lparr>pe_engine := v\<rparr>)"

definition plain_provision_weight :: "('f, 'v) engine_ops \<Rightarrow> weight_handle \<Rightarrow> 'f array2 \<Rightarrow> ('f, 'v, unit) plain_exec" where
  "plain_provision_weight E handle w = plain_engine (en_register E handle w)"

definition plain_offload_linear :: "('f, 'v) engine_ops \<Rightarrow> weight_handle \<Rightarrow> 'f array2 \<Rightarrow> ('f, 'v, 'f array2) plain_exec" where
  "plain_offload_linear E handle hidden =
     ebind (plain_engine (en_run_registered_linear E [handle] hidden)) (\<lambda>outs.
     if length outs \<noteq> 1 then efault (Fail (ResultCount (length outs) 1)) else ereturn (hd outs))"

text \<open>The defaults of the trait: one offload after the other.\<close>

definition plain_offload_qkv :: "('f, 'v) engine_ops \<Rightarrow> u16 \<Rightarrow> 'f array2 \<Rightarrow> ('f, 'v, 'f array2 \<times> 'f array2 \<times> 'f array2) plain_exec" where
  "plain_offload_qkv E layer hidden =
     ebind (plain_offload_linear E \<lparr>wh_layer = layer, wh_kind = WQ\<rparr> hidden) (\<lambda>q.
     ebind (plain_offload_linear E \<lparr>wh_layer = layer, wh_kind = WK\<rparr> hidden) (\<lambda>k.
     ebind (plain_offload_linear E \<lparr>wh_layer = layer, wh_kind = WV\<rparr> hidden) (\<lambda>v. ereturn (q, k, v))))"

definition plain_offload_linear_many :: "('f, 'v) engine_ops \<Rightarrow> weight_handle list \<Rightarrow> 'f array2 \<Rightarrow> ('f, 'v, 'f array2 list) plain_exec" where
  "plain_offload_linear_many E handles hidden = emap (\<lambda>h. plain_offload_linear E h hidden) handles"

definition plain_offload_attention_qkt :: "('f, 'v) engine_ops \<Rightarrow> 'f array2 \<Rightarrow> 'f array2 \<Rightarrow> ('f, 'v, 'f array2) plain_exec" where
  "plain_offload_attention_qkt E q kt = plain_engine (en_matmul_dynamic E q kt)"

definition plain_offload_attention_qkt_batched :: "('f, 'v) engine_ops \<Rightarrow> 'f array3 \<Rightarrow> 'f array3 \<Rightarrow> ('f, 'v, 'f array3) plain_exec" where
  "plain_offload_attention_qkt_batched E q kt = plain_engine (en_run_runtime_matmul E q kt)"

definition guarded_softmax_row :: "'f f32_ops \<Rightarrow> ('f, 'g, 'h) gelo_lib \<Rightarrow> 'f list \<Rightarrow> 'f list" where
  "guarded_softmax_row F L row =
     (let mx = fold (\<lambda>v m. f_max F m v) row (gl_neg_infinity L);
          es = map (\<lambda>v. gl_exp L (f_sub F v mx)) row;
          s = fold (\<lambda>e s. f_add F s e) es (f_lit F 0)
      in if f_lt F (f_lit F 0) s then map (\<lambda>e. f_mul F e (f_div F (f_lit F 1) s)) es else es)"

definition plain_attention_head :: "'f f32_ops \<Rightarrow> ('f, 'g, 'h) gelo_lib \<Rightarrow> attention_mask \<Rightarrow> 'f \<Rightarrow> nat \<Rightarrow> nat \<Rightarrow> nat \<Rightarrow>
    'f list list \<Rightarrow> 'f list list \<Rightarrow> 'f list list \<Rightarrow> 'f list list" where
  "plain_attention_head F L msk scale q_pos_offset n_kv d q k v =
     (let scores = map (map (\<lambda>x. f_mul F x scale)) (gl_mm L (d, q) (n_kv, transpose_of d k));
          scores = (case msk of
              Causal \<Rightarrow> map (\<lambda>i. map (\<lambda>j. if q_pos_offset + i < j then gl_neg_infinity L else scores ! i ! j) [0..<n_kv]) [0..<length scores]
            | NoMask \<Rightarrow> scores)
      in gl_mm L (n_kv, map (guarded_softmax_row F L) scores) (d, v))"

definition default_attention_permuted :: "'f f32_ops \<Rightarrow> ('f, 'g, 'h) gelo_lib \<Rightarrow>
    'f array3 \<Rightarrow> 'f array3 \<Rightarrow> 'f array3 \<Rightarrow> 'f \<Rightarrow> attention_mask \<Rightarrow> ('s, gelo_error, 'f array3) eff" where
  "default_attention_permuted F L = (\<lambda>(n, d, q) (_, _, k) (_, _, v) scale msk.
     eseq (eassert (length q \<le> length k \<and> length q \<le> length v))
     (ereturn (n, d, map (\<lambda>(q, k, v). plain_attention_head F L msk scale 0 n d q k v) (zip q (zip k v)))))"

definition default_attention_permuted_cached :: "'f f32_ops \<Rightarrow> ('f, 'g, 'h) gelo_lib \<Rightarrow>
    'f array3 \<Rightarrow> 'f array3 \<Rightarrow> 'f array3 \<Rightarrow> 'f \<Rightarrow> nat \<Rightarrow> attention_mask \<Rightarrow> ('s, gelo_error, 'f array3) eff" where
  "default_attention_permuted_cached F L = (\<lambda>(n_q, d, q) (n_kv, _, k) (_, _, v) scale q_pos_offset msk.
     if n_kv < n_q then efault (Fail (BadShape ''offload_attention_permuted_cached: n_q''))
     else if n_kv < q_pos_offset + n_q then efault (Fail (BadShape ''offload_attention_permuted_cached: q_pos_offset''))
     else eseq (eassert (length q \<le> length k \<and> length q \<le> length v))
     (ereturn (n_q, d, map (\<lambda>(q, k, v). plain_attention_head F L msk scale q_pos_offset n_kv d q k v) (zip q (zip k v)))))"

end
