(* ===== verification/Gelo_Hd3_Correct.thy ===== *)
theory Gelo_Hd3_Correct
  imports Gelo_Hd3
begin

text \<open>
  The Walsh-Hadamard transform: every kernel computes the same rows, one radix-8 pass is three
  radix-2 passes bit for bit, and over the reals the transform is an involution up to \<open>n\<close>, so
  the cascade is undone exactly and commutes with any linear map of the rows.
\<close>

section \<open>The kernels agree\<close>

lemma map2_nth: "length xs = length ys \<Longrightarrow> map2 f xs ys = map (\<lambda>k. f (xs ! k) (ys ! k)) [0..<length xs]"
  by (intro nth_equalityI) simp_all

lemma butterfly_pair_scalar_eq:
  "length r0 = length r1 \<Longrightarrow> butterfly_pair_scalar F r0 r1 = (map2 (f_add F) r0 r1, map2 (f_sub F) r0 r1)"
  by (simp add: butterfly_pair_scalar_def map2_nth)

lemma map2_take_drop: "length xs = length ys \<Longrightarrow> map2 f (take w xs) (take w ys) @ map2 f (drop w xs) (drop w ys) = map2 f xs ys"
  by (metis append_take_drop_id drop_map drop_zip take_map take_zip)

lemma butterfly_pair_simd_eq:
  "length r0 = length r1 \<Longrightarrow> butterfly_pair_simd F w r0 r1 = (map2 (f_add F) r0 r1, map2 (f_sub F) r0 r1)"
proof (induction F w r0 r1 rule: butterfly_pair_simd.induct)
  case (1 F w r0 r1)
  then show ?case
    by (subst butterfly_pair_simd.simps) (simp add: butterfly_pair_scalar_eq map2_take_drop)
qed

lemma butterfly_pair_eq:
  "length r0 = length r1 \<Longrightarrow> butterfly_pair F a b r0 r1 = (map2 (f_add F) r0 r1, map2 (f_sub F) r0 r1)"
  by (simp add: butterfly_pair_def butterfly_pair_simd_eq butterfly_pair_scalar_eq)

text \<open>The network over eight values is three stages, each of which commutes with a homomorphism on a
  carrier closed under the operations.\<close>

definition oct1 :: "('a \<Rightarrow> 'a \<Rightarrow> 'a) \<Rightarrow> ('a \<Rightarrow> 'a \<Rightarrow> 'a) \<Rightarrow> 'a list \<Rightarrow> 'a list" where
  "oct1 add sub x = [add (x ! 0) (x ! 1), sub (x ! 0) (x ! 1), add (x ! 2) (x ! 3), sub (x ! 2) (x ! 3),
     add (x ! 4) (x ! 5), sub (x ! 4) (x ! 5), add (x ! 6) (x ! 7), sub (x ! 6) (x ! 7)]"

definition oct2 :: "('a \<Rightarrow> 'a \<Rightarrow> 'a) \<Rightarrow> ('a \<Rightarrow> 'a \<Rightarrow> 'a) \<Rightarrow> 'a list \<Rightarrow> 'a list" where
  "oct2 add sub x = [add (x ! 0) (x ! 2), add (x ! 1) (x ! 3), sub (x ! 0) (x ! 2), sub (x ! 1) (x ! 3),
     add (x ! 4) (x ! 6), add (x ! 5) (x ! 7), sub (x ! 4) (x ! 6), sub (x ! 5) (x ! 7)]"

definition oct3 :: "('a \<Rightarrow> 'a \<Rightarrow> 'a) \<Rightarrow> ('a \<Rightarrow> 'a \<Rightarrow> 'a) \<Rightarrow> 'a list \<Rightarrow> 'a list" where
  "oct3 add sub x = [add (x ! 0) (x ! 4), add (x ! 1) (x ! 5), add (x ! 2) (x ! 6), add (x ! 3) (x ! 7),
     sub (x ! 0) (x ! 4), sub (x ! 1) (x ! 5), sub (x ! 2) (x ! 6), sub (x ! 3) (x ! 7)]"

lemma oct_network_eq: "oct_network add sub x = oct3 add sub (oct2 add sub (oct1 add sub x))"
proof -
  have nths: "[a, b, c, d, e, f, g, h] ! 0 = a" "[a, b, c, d, e, f, g, h] ! 1 = b" "[a, b, c, d, e, f, g, h] ! 2 = c"
    "[a, b, c, d, e, f, g, h] ! 3 = d" "[a, b, c, d, e, f, g, h] ! 4 = e" "[a, b, c, d, e, f, g, h] ! 5 = f"
    "[a, b, c, d, e, f, g, h] ! 6 = g" "[a, b, c, d, e, f, g, h] ! 7 = h" for a b c d e f g h :: 'a
    by (simp_all add: numeral_eq_Suc)
  show ?thesis unfolding oct1_def oct2_def oct3_def oct_network_def Let_def nths by (rule refl)
qed

lemma oct_stage_hom:
  assumes "length xs = 8" and "set xs \<subseteq> C" and "\<And>a b. a \<in> C \<Longrightarrow> b \<in> C \<Longrightarrow> add a b \<in> C \<and> sub a b \<in> C"
    and "\<And>a b. a \<in> C \<Longrightarrow> b \<in> C \<Longrightarrow> g (add a b) = add' (g a) (g b) \<and> g (sub a b) = sub' (g a) (g b)"
    and "(st, st') \<in> {(oct1 add sub, oct1 add' sub'), (oct2 add sub, oct2 add' sub'), (oct3 add sub, oct3 add' sub')}"
  shows "map g (st xs) = st' (map g xs) \<and> set (st xs) \<subseteq> C \<and> length (st xs) = 8"
proof -
  have mem: "xs ! i \<in> C" if "i < 8" for i using assms(1,2) that by (metis nth_mem subsetD)
  have mem: "xs ! 0 \<in> C" "xs ! 1 \<in> C" "xs ! 2 \<in> C" "xs ! 3 \<in> C" "xs ! 4 \<in> C" "xs ! 5 \<in> C" "xs ! 6 \<in> C" "xs ! 7 \<in> C"
    by (rule mem; simp)+
  have nth: "map g xs ! i = g (xs ! i)" if "i < 8" for i using assms(1) that by simp
  consider "st = oct1 add sub" "st' = oct1 add' sub'" | "st = oct2 add sub" "st' = oct2 add' sub'"
    | "st = oct3 add sub" "st' = oct3 add' sub'" using assms(5) by blast
  then show ?thesis
    by cases (simp_all add: oct1_def oct2_def oct3_def nth mem [unfolded One_nat_def] mem assms(3,4))
qed

lemma oct_network_hom:
  assumes "length xs = 8" and "set xs \<subseteq> C" and "\<And>a b. a \<in> C \<Longrightarrow> b \<in> C \<Longrightarrow> add a b \<in> C \<and> sub a b \<in> C"
    and "\<And>a b. a \<in> C \<Longrightarrow> b \<in> C \<Longrightarrow> g (add a b) = add' (g a) (g b) \<and> g (sub a b) = sub' (g a) (g b)"
  shows "map g (oct_network add sub xs) = oct_network add' sub' (map g xs) \<and> set (oct_network add sub xs) \<subseteq> C"
proof -
  note stage = oct_stage_hom [where C = C and add = add and sub = sub and g = g and add' = add' and sub' = sub', OF _ _ assms(3,4)]
  have 1: "map g (oct1 add sub xs) = oct1 add' sub' (map g xs) \<and> set (oct1 add sub xs) \<subseteq> C \<and> length (oct1 add sub xs) = 8"
    using stage [of xs "oct1 add sub" "oct1 add' sub'"] assms(1,2) by blast
  have 2: "map g (oct2 add sub (oct1 add sub xs)) = oct2 add' sub' (map g (oct1 add sub xs)) \<and>
      set (oct2 add sub (oct1 add sub xs)) \<subseteq> C \<and> length (oct2 add sub (oct1 add sub xs)) = 8"
    using stage [of "oct1 add sub xs" "oct2 add sub" "oct2 add' sub'"] 1 by blast
  have "map g (oct3 add sub (oct2 add sub (oct1 add sub xs))) = oct3 add' sub' (map g (oct2 add sub (oct1 add sub xs))) \<and>
      set (oct3 add sub (oct2 add sub (oct1 add sub xs))) \<subseteq> C"
    using stage [of "oct2 add sub (oct1 add sub xs)" "oct3 add sub" "oct3 add' sub'"] 2 by blast
  with 1 2 show ?thesis by (simp add: oct_network_eq)
qed

lemma length_oct_network [simp]: "length (oct_network add sub xs) = 8"
  by (simp add: oct_network_eq oct3_def)

lemma butterfly_oct_scalar_eq:
  assumes "length rows = 8" and "\<forall>r \<in> set rows. length r = d"
  shows "butterfly_oct_scalar F d rows = oct_network (map2 (f_add F)) (map2 (f_sub F)) rows"
proof (rule nth_equalityI)
  let ?net = "oct_network (map2 (f_add F)) (map2 (f_sub F)) rows"
  let ?C = "{r. length r = d}"
  have rows: "set rows \<subseteq> ?C" using assms(2) by auto
  have C: "set ?net \<subseteq> ?C"
    using oct_network_hom [OF assms(1) rows, of "map2 (f_add F)" "map2 (f_sub F)" "\<lambda>_. ()" "\<lambda>_ _. ()" "\<lambda>_ _. ()"] by simp
  fix i assume "i < length (butterfly_oct_scalar F d rows)"
  then have i: "i < 8" by (simp add: butterfly_oct_scalar_def)
  have "?net ! i \<in> set ?net" using i by (intro nth_mem) simp
  then have "length (?net ! i) = d" using C by blast
  moreover have "?net ! i ! k = oct_lane F rows k ! i" if k: "k < d" for k
  proof -
    have "map (\<lambda>r. r ! k) ?net = oct_network (f_add F) (f_sub F) (map (\<lambda>r. r ! k) rows)"
      using oct_network_hom [OF assms(1) rows, of "map2 (f_add F)" "map2 (f_sub F)" "\<lambda>r. r ! k" "f_add F" "f_sub F"] k by simp
    then have "map (\<lambda>r. r ! k) ?net ! i = oct_lane F rows k ! i" by (simp only: oct_lane_def)
    then show ?thesis using i by simp
  qed
  ultimately show "butterfly_oct_scalar F d rows ! i = ?net ! i"
    using i by (intro nth_equalityI) (simp_all add: butterfly_oct_scalar_def)
qed (simp add: butterfly_oct_scalar_def)

lemma map2_append_take_drop: "map2 (@) (map (take w) xs) (map (drop w) xs) = xs"
  by (intro nth_equalityI) simp_all

lemma butterfly_oct_simd_eq:
  "length rows = 8 \<Longrightarrow> \<forall>r \<in> set rows. length r = d \<Longrightarrow>
     butterfly_oct_simd F w d rows = oct_network (map2 (f_add F)) (map2 (f_sub F)) rows"
proof (induction F w d rows rule: butterfly_oct_simd.induct)
  case (1 F w d rows)
  let ?net = "oct_network (map2 (f_add F)) (map2 (f_sub F))"
  show ?case
  proof (cases "0 < w \<and> w \<le> d")
    case True
    let ?C = "{r. length r = d}"
    have hom: "map g (?net rows) = ?net (map g rows)" if "g = take w \<or> g = drop w" for g
    proof -
      have rows: "set rows \<subseteq> ?C" using "1.prems"(2) by auto
      have "g (map2 f a b) = map2 f (g a) (g b)" for f :: "'a \<Rightarrow> 'a \<Rightarrow> 'a" and a b
        using that by (auto simp: take_map drop_map take_zip drop_zip)
      then show ?thesis
        using oct_network_hom [OF "1.prems"(1) rows, of "map2 (f_add F)" "map2 (f_sub F)" g "map2 (f_add F)" "map2 (f_sub F)"] by simp
    qed
    have "butterfly_oct_simd F w (d - w) (map (drop w) rows) = ?net (map (drop w) rows)"
      using "1.IH" [OF True] "1.prems" by simp
    then have "butterfly_oct_simd F w d rows = map2 (@) (?net (map (take w) rows)) (?net (map (drop w) rows))"
      using True by (subst butterfly_oct_simd.simps) simp
    then show ?thesis using hom by (metis map2_append_take_drop)
  next
    case False
    have "butterfly_oct_simd F w d rows = butterfly_oct_scalar F d rows"
      by (subst butterfly_oct_simd.simps) (simp only: False if_False)
    then show ?thesis using butterfly_oct_scalar_eq [OF "1.prems"] by simp
  qed
qed

lemma butterfly_oct_eq:
  "length rows = 8 \<Longrightarrow> \<forall>r \<in> set rows. length r = d \<Longrightarrow>
     butterfly_oct F a b d rows = oct_network (map2 (f_add F)) (map2 (f_sub F)) rows"
  by (simp add: butterfly_oct_def butterfly_oct_simd_eq butterfly_oct_scalar_eq)

section \<open>Stages\<close>

text \<open>One stage at distance \<open>h\<close> on the rows as a function of their index.\<close>

definition bf :: "('a \<Rightarrow> 'a \<Rightarrow> 'a) \<Rightarrow> ('a \<Rightarrow> 'a \<Rightarrow> 'a) \<Rightarrow> nat \<Rightarrow> (nat \<Rightarrow> 'a) \<Rightarrow> nat \<Rightarrow> 'a" where
  "bf add sub h x i = (if even (i div h) then add (x i) (x (i + h)) else sub (x (i - h)) (x i))"

lemma odd_div_le: "odd (i div h) \<Longrightarrow> (h :: nat) \<le> i"
  by (rule ccontr) (simp add: not_le)

text \<open>In a block of \<open>k\<close> rows, \<open>k\<close> a multiple of \<open>2 * h\<close>, a stage stays inside, and it commutes with
  a shift by \<open>k\<close>.\<close>

lemma bf_stays:
  fixes h :: nat
  assumes "2 * h dvd k" and "i < k" and "even (i div h)" and "0 < h"
  shows "i + h < k"
proof -
  obtain q where k: "k = 2 * h * q" using assms(1) by (auto elim: dvdE)
  have "i < 2 * q * h" using assms(2) k by (simp only: mult.commute mult.left_commute)
  then have "i div h < 2 * q" by (rule less_mult_imp_div_less)
  moreover obtain e where "i div h = 2 * e" using assms(3) by (auto elim: evenE)
  ultimately have "i div h + 2 \<le> 2 * q" by simp
  then have "(i div h + 2) * h \<le> 2 * q * h" by (rule mult_le_mono1)
  moreover have "i < i div h * h + h" using assms(4) by (metis div_mult_mod_eq mod_less_divisor nat_add_left_cancel_less)
  ultimately show ?thesis unfolding k by (simp add: algebra_simps)
qed

lemma bf_local:
  assumes "2 * h dvd k" and "\<And>i. i < k \<Longrightarrow> x i = y i" and "i < k" and "0 < h"
  shows "bf add sub h x i = bf add sub h y i"
  using assms bf_stays [OF assms(1,3) _ assms(4)] by (auto simp: bf_def)

lemma bf_shift:
  assumes "2 * h dvd k" and "0 < h"
  shows "bf add sub h (\<lambda>i. x (k + i)) j = bf add sub h x (k + j)"
proof -
  obtain q where "k = 2 * h * q" using assms(1) by (auto elim: dvdE)
  then have k: "k = h * (2 * q)" by simp
  have "(k + j) div h = 2 * q + j div h" using assms(2) by (simp add: k)
  then have "even ((k + j) div h) = even (j div h)" by simp
  moreover have "k + j - h = k + (j - h)" if "odd (j div h)" using odd_div_le [OF that] by simp
  ultimately show ?thesis by (auto simp: bf_def add.assoc)
qed

lemma process_stage_chunk_eq:
  assumes "length c = 2 * h" and "\<forall>r \<in> set c. length r = d"
  shows "process_stage_chunk F cpu h c = map (bf (map2 (f_add F)) (map2 (f_sub F)) h (nth c)) [0..<2 * h]"
proof -
  let ?A = "map2 (f_add F)" and ?S = "map2 (f_sub F)"
  let ?step = "\<lambda>j c. if length c \<le> j + h then c
        else let (r0, r1) = butterfly_pair F (avx512 cpu) (\<not> avx512 cpu \<and> avx2 cpu) (c ! j) (c ! (j + h)) in c[j := r0, j + h := r1]"
  have "j \<le> h \<Longrightarrow> length (fold ?step [0..<j] c) = 2 * h \<and> (\<forall>i < 2 * h. fold ?step [0..<j] c ! i =
      (if i < j then ?A (c ! i) (c ! (i + h)) else if h \<le> i \<and> i < h + j then ?S (c ! (i - h)) (c ! i) else c ! i))" for j
  proof (induction j)
    case 0
    then show ?case using assms(1) by auto
  next
    case (Suc j)
    let ?c = "fold ?step [0..<j] c"
    have ih: "length ?c = 2 * h" "\<And>i. i < 2 * h \<Longrightarrow> ?c ! i =
      (if i < j then ?A (c ! i) (c ! (i + h)) else if h \<le> i \<and> i < h + j then ?S (c ! (i - h)) (c ! i) else c ! i)"
      using Suc by simp_all
    have j: "j < h" using Suc.prems by simp
    then have rows: "?c ! j = c ! j" "?c ! (j + h) = c ! (j + h)" using ih(2) [of j] ih(2) [of "j + h"] by simp_all
    have "length (c ! j) = length (c ! (j + h))" using assms j by simp
    then have "fold ?step [0..<Suc j] c = ?c[j := ?A (c ! j) (c ! (j + h)), j + h := ?S (c ! j) (c ! (j + h))]"
      using j ih(1) by (simp add: rows butterfly_pair_eq)
    then show ?case using ih j by (auto simp: nth_list_update less_Suc_eq)
  qed
  note last = this [of h, folded process_stage_chunk_def, simplified]
  have all: "length (process_stage_chunk F cpu h c) = 2 * h" using last by blast
  have all2: "process_stage_chunk F cpu h c ! i = (if i < h then ?A (c ! i) (c ! (i + h)) else ?S (c ! (i - h)) (c ! i))"
    if "i < 2 * h" for i using conjunct2 [OF last] that by (cases "i < h") simp_all
  show ?thesis
  proof (rule nth_equalityI)
    fix i assume "i < length (process_stage_chunk F cpu h c)"
    then have i: "i < 2 * h" using all by simp
    have "i div h = (if i < h then 0 else 1)" using i by (auto simp: div_nat_eqI)
    then show "process_stage_chunk F cpu h c ! i = map (bf ?A ?S h (nth c)) [0..<2 * h] ! i" using i all2 [OF i] by (simp add: bf_def)
  qed (use all in simp)
qed

section \<open>Three stages in one pass\<close>

lemma bf_block:
  assumes "j < h" and "0 < m"
  shows "bf add sub (m * h) x (j + i * h) =
    (if even (i div m) then add (x (j + i * h)) (x (j + (i + m) * h)) else sub (x (j + (i - m) * h)) (x (j + i * h)))"
proof -
  have "(j + i * h) div h = i" using assms(1) by simp
  then have "(j + i * h) div (m * h) = i div m" by (simp only: mult.commute [of m] div_mult2_eq)
  moreover have "j + i * h - m * h = j + (i - m) * h" if odd: "odd (i div m)"
  proof -
    obtain e where "i = m + e" using le_Suc_ex [of m i] odd_div_le [OF odd] by auto
    then show ?thesis by (simp add: add_mult_distrib)
  qed
  ultimately show ?thesis by (simp add: bf_def add_mult_distrib add.assoc)
qed

lemma oct_stages:
  assumes "j < h" and "b < 8"
  shows "bf add sub (4 * h) (bf add sub (2 * h) (bf add sub h x)) (j + b * h) = oct_network add sub (map (\<lambda>i. x (j + i * h)) [0..<8]) ! b"
proof -
  let ?x = "\<lambda>i. x (j + i * h)"
  have 1: "bf add sub h x (j + i * h) = (if even i then add (?x i) (?x (i + 1)) else sub (?x (i - 1)) (?x i))" for i
    using bf_block [OF assms(1), of 1 add sub x i] by simp
  have 2: "bf add sub (2 * h) y (j + i * h) =
      (if even (i div 2) then add (y (j + i * h)) (y (j + (i + 2) * h)) else sub (y (j + (i - 2) * h)) (y (j + i * h)))" for i y
    using bf_block [OF assms(1), of 2 add sub y i] by simp
  have 4: "bf add sub (4 * h) y (j + i * h) =
      (if even (i div 4) then add (y (j + i * h)) (y (j + (i + 4) * h)) else sub (y (j + (i - 4) * h)) (y (j + i * h)))" for i y
    using bf_block [OF assms(1), of 4 add sub y i] by simp
  have upt: "[0..<8] = [0, 1, 2, 3, 4, 5, 6, 7 :: nat]" by (simp add: upt_rec)
  have nths: "[a, b, c, d, e, f, g, h] ! 0 = a" "[a, b, c, d, e, f, g, h] ! 1 = b" "[a, b, c, d, e, f, g, h] ! 2 = c"
    "[a, b, c, d, e, f, g, h] ! 3 = d" "[a, b, c, d, e, f, g, h] ! 4 = e" "[a, b, c, d, e, f, g, h] ! 5 = f"
    "[a, b, c, d, e, f, g, h] ! 6 = g" "[a, b, c, d, e, f, g, h] ! 7 = h" for a b c d e f g h :: 'a
    by (simp_all add: numeral_eq_Suc)
  have hs: "h + h = 2 * h" "h + (h + h) = 3 * h" by simp_all
  have "b \<in> {0, 1, 2, 3, 4, 5, 6, 7}" using assms(2) by auto
  then show ?thesis
    unfolding upt list.map oct_network_eq oct1_def oct2_def oct3_def nths
    by (elim insertE emptyE) (simp_all only: 4 2 1 nths, simp_all add: hs)
qed

lemma nth_fold_oct:
  assumes "length c = 8 * h" and "j < h" and "k \<le> 8" and "m < 8 * h"
  shows "fold (\<lambda>i c. c[j + i * h := r i]) [0..<k] c ! m = (if m mod h = j \<and> m div h < k then r (m div h) else c ! m)"
  using assms(3)
proof (induction k)
  case (Suc k)
  let ?c = "fold (\<lambda>i c. c[j + i * h := r i]) [0..<k] c"
  have len: "length (fold (\<lambda>i c. c[j + i * h := r i]) is c) = length c" for "is" by (induction "is" arbitrary: c) simp_all
  have "m = j + k * h \<longleftrightarrow> m mod h = j \<and> m div h = k"
    using assms(2) by (metis add.commute div_mult_mod_eq div_less add_0 div_mult_self3 mod_less mod_mult_self1 not_less0)
  moreover have "j + k * h < length ?c"
  proof -
    have "j + k * h < Suc k * h" using assms(2) by simp
    also have "\<dots> \<le> 8 * h" using Suc.prems by (intro mult_le_mono1) simp
    finally show ?thesis by (simp add: len assms(1))
  qed
  ultimately show ?case using Suc by (auto simp: nth_list_update less_Suc_eq)
qed simp

lemma length_fold_update [simp]: "length (fold (\<lambda>i c. c[f i := r i]) is c) = length c"
  by (induction "is" arbitrary: c) simp_all

lemma process_stage_chunk_radix8_eq:
  fixes F :: "'f f32_ops"
  assumes "length c = 8 * h" and "\<forall>r \<in> set c. length r = d"
  defines "A \<equiv> map2 (f_add F)" and "S \<equiv> map2 (f_sub F)"
  shows "process_stage_chunk_radix8 F cpu h d c = map (bf A S (4 * h) (bf A S (2 * h) (bf A S h (nth c)))) [0..<8 * h]"
proof -
  let ?net = "\<lambda>j. oct_network A S (map (\<lambda>i. c ! (j + i * h)) [0..<8])"
  let ?step = "\<lambda>j c. if length c \<le> j + 7 * h then c
        else let r = butterfly_oct F (avx512 cpu) (\<not> avx512 cpu \<and> avx2 cpu) d (map (\<lambda>i. c ! (j + i * h)) [0..<8])
          in fold (\<lambda>i c. c[j + i * h := r ! i]) [0..<8] c"
  have inv: "length (fold ?step [0..<j] c) = 8 * h \<and>
      (\<forall>m < 8 * h. fold ?step [0..<j] c ! m = (if m mod h < j then ?net (m mod h) ! (m div h) else c ! m))" if "j \<le> h" for j
    using that
  proof (induction j)
    case 0
    then show ?case using assms(1) by simp
  next
    case (Suc j)
    let ?c = "fold ?step [0..<j] c"
    have j: "j < h" using Suc.prems by simp
    have ih: "length ?c = 8 * h" "\<And>m. m < 8 * h \<Longrightarrow> ?c ! m = (if m mod h < j then ?net (m mod h) ! (m div h) else c ! m)"
      using Suc by simp_all
    have pos: "j + i * h < 8 * h" if "i < 8" for i
    proof -
      have "j + i * h < Suc i * h" using j by simp
      also have "\<dots> \<le> 8 * h" using that by (intro mult_le_mono1) simp
      finally show ?thesis .
    qed
    have "map (\<lambda>i. ?c ! (j + i * h)) [0..<8] = map (\<lambda>i. c ! (j + i * h)) [0..<8]"
      using ih(2) pos j by (intro map_cong refl) simp
    moreover have "butterfly_oct F a b d (map (\<lambda>i. c ! (j + i * h)) [0..<8]) = ?net j" for a b
    proof -
      have "length r = d" if r: "r \<in> set (map (\<lambda>i. c ! (j + i * h)) [0..<8])" for r
      proof -
        obtain i where "i \<in> set [0..<8]" "r = c ! (j + i * h)" using r unfolding set_map by blast
        moreover from this have "i < 8" by (simp only: set_upt atLeastLessThan_iff)
        ultimately show ?thesis using assms(2) pos [of i] assms(1) by simp
      qed
      then show ?thesis unfolding A_def S_def by (intro butterfly_oct_eq) simp_all
    qed
    moreover have "\<not> length ?c \<le> j + 7 * h" using ih(1) pos [of 7] by simp
    ultimately have "?step j ?c = fold (\<lambda>i c. c[j + i * h := ?net j ! i]) [0..<8] ?c"
      by (simp only: if_False Let_def)
    then have "fold ?step [0..<Suc j] c = fold (\<lambda>i c. c[j + i * h := ?net j ! i]) [0..<8] ?c" by simp
    moreover have "fold (\<lambda>i c. c[j + i * h := ?net j ! i]) [0..<8] ?c ! m = (if m mod h < Suc j then ?net (m mod h) ! (m div h) else c ! m)"
      if "m < 8 * h" for m
    proof -
      have "m div h < 8" using that by (simp add: less_mult_imp_div_less)
      then show ?thesis
        using nth_fold_oct [OF ih(1) j le_refl that, of "nth (?net j)"] ih(2) [OF that] by (auto simp: less_Suc_eq)
    qed
    ultimately show ?case using ih(1) by simp
  qed
  note last = inv [OF le_refl, folded process_stage_chunk_radix8_def]
  show ?thesis
  proof (rule nth_equalityI)
    fix m assume "m < length (process_stage_chunk_radix8 F cpu h d c)"
    then have m: "m < 8 * h" using last by simp
    then have "0 < h" by simp
    then have "m mod h < h" "m = m mod h + m div h * h" "m div h < 8" using m by (simp_all add: less_mult_imp_div_less)
    then have "bf A S (4 * h) (bf A S (2 * h) (bf A S h (nth c))) m = ?net (m mod h) ! (m div h)"
      using oct_stages [of "m mod h" h "m div h" A S "nth c"] by metis
    then show "process_stage_chunk_radix8 F cpu h d c ! m = map (bf A S (4 * h) (bf A S (2 * h) (bf A S h (nth c)))) [0..<8 * h] ! m"
      using last m \<open>m mod h < h\<close> by simp
  qed (use last in simp)
qed

section \<open>The whole transform\<close>

lemma concat_row_chunks:
  assumes k: "0 < k" and f: "\<And>c. length c = k \<Longrightarrow> set c \<subseteq> R \<Longrightarrow> f c = map (G (nth c)) [0..<k]"
    and shift: "\<And>x j. G (\<lambda>i. x (k + i)) j = G x (k + j)" and loc: "\<And>x y j. (\<And>i. i < k \<Longrightarrow> x i = y i) \<Longrightarrow> j < k \<Longrightarrow> G x j = G y j"
    and "length xs = q * k" and "set xs \<subseteq> R"
  shows "concat (map f (row_chunks k xs)) = map (G (nth xs)) [0..<q * k]"
  using assms(5,6)
proof (induction q arbitrary: xs)
  case 0
  then show ?case by (simp add: row_chunks.simps)
next
  case (Suc q)
  then have len: "k \<le> length xs" and ne: "xs \<noteq> []" using k by auto
  have chunks: "row_chunks k xs = take k xs # row_chunks k (drop k xs)" using ne k by (subst row_chunks.simps) simp
  have "f (take k xs) = map (G (nth (take k xs))) [0..<k]" using len order_trans [OF set_take_subset Suc.prems(2)] by (intro f) simp_all
  also have "\<dots> = map (G (nth xs)) [0..<k]" by (intro map_cong refl loc) simp_all
  finally have "f (take k xs) = map (G (nth xs)) [0..<k]" .
  moreover have "concat (map f (row_chunks k (drop k xs))) = map (G (nth (drop k xs))) [0..<q * k]"
    using Suc.prems(1) order_trans [OF set_drop_subset Suc.prems(2)] by (intro Suc.IH) simp_all
  moreover have "map (G (nth (drop k xs))) [0..<q * k] = map (G (nth xs)) [k..<k + q * k]"
  proof (rule nth_equalityI)
    fix j assume "j < length (map (G (nth (drop k xs))) [0..<q * k])"
    moreover have "nth (drop k xs) = (\<lambda>i. xs ! (k + i))" using len by auto
    ultimately show "map (G (nth (drop k xs))) [0..<q * k] ! j = map (G (nth xs)) [k..<k + q * k] ! j"
      using shift [of "nth xs" j] by simp
  qed simp
  moreover have "[0..<Suc q * k] = [0..<k] @ [k..<k + q * k]" using upt_add_eq_append [of 0 k "q * k"] by simp
  ultimately show ?case by (simp only: chunks list.map concat.simps map_append)
qed

text \<open>The transform of \<open>2 ^ k\<close> rows, stage by stage.\<close>

fun had :: "('a \<Rightarrow> 'a \<Rightarrow> 'a) \<Rightarrow> ('a \<Rightarrow> 'a \<Rightarrow> 'a) \<Rightarrow> nat \<Rightarrow> (nat \<Rightarrow> 'a) \<Rightarrow> nat \<Rightarrow> 'a" where
  "had add sub 0 x = x"
| "had add sub (Suc k) x = bf add sub (2 ^ k) (had add sub k x)"

lemma bf_closed:
  assumes "\<And>a b. a \<in> C \<Longrightarrow> b \<in> C \<Longrightarrow> add a b \<in> C \<and> sub a b \<in> C" and "\<And>i. x i \<in> C"
  shows "bf add sub h x i \<in> C"
  using assms by (simp add: bf_def)

lemma had_closed:
  assumes "\<And>a b. a \<in> C \<Longrightarrow> b \<in> C \<Longrightarrow> add a b \<in> C \<and> sub a b \<in> C" and "\<And>i. x i \<in> C"
  shows "had add sub k x i \<in> C"
  by (induction k arbitrary: i) (simp_all add: assms bf_closed)

lemma had_local:
  assumes "\<And>i. i < 2 ^ n \<Longrightarrow> x i = y i" and "k \<le> n"
  shows "i < 2 ^ n \<Longrightarrow> had add sub k x i = had add sub k y i"
  using assms(2)
proof (induction k arbitrary: i)
  case 0
  then show ?case using assms(1) by simp
next
  case (Suc k)
  have "2 * 2 ^ k dvd (2 :: nat) ^ n" using Suc.prems(2) le_imp_power_dvd [of "Suc k" n "2 :: nat"] by simp
  then show ?case using Suc by (auto intro!: bf_local)
qed

lemma bf_hom:
  assumes "\<And>a b. a \<in> C \<Longrightarrow> b \<in> C \<Longrightarrow> g (add a b) = add' (g a) (g b) \<and> g (sub a b) = sub' (g a) (g b)" and "\<And>i. x i \<in> C"
  shows "g (bf add sub h x i) = bf add' sub' h (\<lambda>i. g (x i)) i"
  using assms by (simp add: bf_def)

lemma had_hom:
  assumes "\<And>a b. a \<in> C \<Longrightarrow> b \<in> C \<Longrightarrow> add a b \<in> C \<and> sub a b \<in> C" and "\<And>i. x i \<in> C"
    and "\<And>a b. a \<in> C \<Longrightarrow> b \<in> C \<Longrightarrow> g (add a b) = add' (g a) (g b) \<and> g (sub a b) = sub' (g a) (g b)"
  shows "g (had add sub k x i) = had add' sub' k (\<lambda>i. g (x i)) i"
proof (induction k arbitrary: i)
  case (Suc k)
  then show ?case using bf_hom [of C g add add' sub sub', OF assms(3) had_closed [of C add sub x, OF assms(1,2)]] by simp
qed simp

lemma stage_eq:
  fixes F :: "'f f32_ops"
  assumes "length m = q * (2 * h)" and "\<forall>r \<in> set m. length r = d" and "0 < h"
  defines "A \<equiv> map2 (f_add F)" and "S \<equiv> map2 (f_sub F)"
  shows "concat (map (process_stage_chunk F cpu h) (row_chunks (2 * h) m)) = map (bf A S h (nth m)) [0..<length m]"
  unfolding assms(1)
proof (rule concat_row_chunks [where R = "{r. length r = d}"])
  show "process_stage_chunk F cpu h c = map (bf A S h (nth c)) [0..<2 * h]" if "length c = 2 * h" "set c \<subseteq> {r. length r = d}" for c
    unfolding A_def S_def using that by (intro process_stage_chunk_eq [of _ _ d]) auto
  show "bf A S h (\<lambda>i. x (2 * h + i)) j = bf A S h x (2 * h + j)" for x j using assms(3) by (intro bf_shift) simp_all
  show "bf A S h x j = bf A S h y j" if "\<And>i. i < 2 * h \<Longrightarrow> x i = y i" "j < 2 * h" for x y j
    using bf_local [of h "2 * h" x y j A S] that assms(3) by simp
qed (use assms in auto)

lemma stage8_eq:
  fixes F :: "'f f32_ops"
  assumes "length m = q * (8 * h)" and "\<forall>r \<in> set m. length r = d" and "0 < h"
  defines "A \<equiv> map2 (f_add F)" and "S \<equiv> map2 (f_sub F)"
  shows "concat (map (process_stage_chunk_radix8 F cpu h d) (row_chunks (8 * h) m)) =
    map (bf A S (4 * h) (bf A S (2 * h) (bf A S h (nth m)))) [0..<length m]"
  unfolding assms(1)
proof (rule concat_row_chunks [where R = "{r. length r = d}" and G = "\<lambda>x. bf A S (4 * h) (bf A S (2 * h) (bf A S h x))"])
  show "process_stage_chunk_radix8 F cpu h d c = map (bf A S (4 * h) (bf A S (2 * h) (bf A S h (nth c)))) [0..<8 * h]"
    if "length c = 8 * h" "set c \<subseteq> {r. length r = d}" for c
    unfolding A_def S_def using that by (intro process_stage_chunk_radix8_eq) auto
  have dvd: "2 * h dvd 8 * h" "2 * (2 * h) dvd 8 * h" "2 * (4 * h) dvd 8 * h" by (auto intro: mult_dvd_mono)
  have s: "bf A S g (\<lambda>i. x (8 * h + i)) = (\<lambda>j. bf A S g x (8 * h + j))" if "2 * g dvd 8 * h" "0 < g" for g x
    by (intro ext bf_shift [OF that])
  show "bf A S (4 * h) (bf A S (2 * h) (bf A S h (\<lambda>i. x (8 * h + i)))) j = bf A S (4 * h) (bf A S (2 * h) (bf A S h x)) (8 * h + j)" for x j
    using assms(3) by (simp only: s [OF dvd(1)] s [OF dvd(2)] s [OF dvd(3)] zero_less_mult_iff zero_less_numeral)
  show "bf A S (4 * h) (bf A S (2 * h) (bf A S h x)) j = bf A S (4 * h) (bf A S (2 * h) (bf A S h y)) j"
    if "\<And>i. i < 8 * h \<Longrightarrow> x i = y i" "j < 8 * h" for x y j
    using that assms(3) by (intro bf_local [OF dvd(3)] bf_local [OF dvd(2)] bf_local [OF dvd(1)]) simp_all
qed (use assms in auto)

lemma fwht_loop_eq:
  fixes F :: "'f f32_ops"
  assumes "\<And>i. length (x i) = d" and "i \<le> k"
  defines "A \<equiv> map2 (f_add F)" and "S \<equiv> map2 (f_sub F)"
  shows "fwht_loop F cpu (2 ^ k) d (2 ^ i) (map (had A S i x) [0..<2 ^ k]) = map (had A S k x) [0..<2 ^ k]"
  using assms(2)
proof (induction "k - i" arbitrary: i rule: less_induct)
  case less
  have rows: "length (had A S i x j) = d" for i j
    using had_closed [of "{r. length r = d}" A S x i j] assms(1) unfolding A_def S_def by simp
  let ?m = "map (had A S i x) [0..<2 ^ k]"
  show ?case
  proof (cases "i = k")
    case True
    then show ?thesis by (simp add: fwht_loop.simps)
  next
    case False
    then have i: "i < k" using less.prems by simp
    then have lt: "(2 :: nat) ^ i < 2 ^ k" by simp
    have nth: "nth ?m j = had A S i x j" if "j < 2 ^ k" for j using that by simp
    show ?thesis
    proof (cases "(2 :: nat) ^ i * 8 \<le> 2 ^ k")
      case True
      then have "(2 :: nat) ^ (i + 3) \<le> 2 ^ k" by (simp add: power_add)
      then have i3: "i + 3 \<le> k" by (metis one_less_numeral_iff power_le_imp_le_exp semiring_norm(76))
      have "(2 :: nat) ^ k = 2 ^ (k - (i + 3)) * 2 ^ (i + 3)" using i3 by (simp flip: power_add)
      then have len: "length ?m = 2 ^ (k - (i + 3)) * (8 * 2 ^ i)" by (simp add: power_add)
      have "concat (map (process_stage_chunk_radix8 F cpu (2 ^ i) d) (row_chunks (8 * 2 ^ i) ?m)) =
          map (bf A S (4 * 2 ^ i) (bf A S (2 * 2 ^ i) (bf A S (2 ^ i) (nth ?m)))) [0..<length ?m]"
        unfolding A_def S_def by (rule stage8_eq) (use len rows in \<open>auto simp: A_def S_def\<close>)
      also have "\<dots> = map (had A S (i + 3) x) [0..<2 ^ k]"
      proof (intro map_cong)
        fix j assume "j \<in> set [0..<2 ^ k]"
        then have j: "j < 2 ^ k" by simp
        have dvd: "2 * 2 ^ i dvd (2 :: nat) ^ k" "2 * (2 * 2 ^ i) dvd (2 :: nat) ^ k" "2 * (4 * 2 ^ i) dvd (2 :: nat) ^ k"
          using le_imp_power_dvd [of "i + 1" k "2 :: nat"] le_imp_power_dvd [of "i + 2" k "2 :: nat"] le_imp_power_dvd [of "i + 3" k "2 :: nat"] i3
          by (simp_all add: power_add mult.commute)
        have "bf A S (4 * 2 ^ i) (bf A S (2 * 2 ^ i) (bf A S (2 ^ i) (nth ?m))) j =
            bf A S (4 * 2 ^ i) (bf A S (2 * 2 ^ i) (bf A S (2 ^ i) (had A S i x))) j"
          using j nth by (intro bf_local [OF dvd(3)] bf_local [OF dvd(2)] bf_local [OF dvd(1)]) simp_all
        also have "\<dots> = had A S (i + 3) x j" by (simp add: numeral_3_eq_3)
        finally show "bf A S (4 * 2 ^ i) (bf A S (2 * 2 ^ i) (bf A S (2 ^ i) (nth ?m))) j = had A S (i + 3) x j" .
      qed simp
      finally have "fwht_loop F cpu (2 ^ k) d (2 ^ i) ?m = fwht_loop F cpu (2 ^ k) d (2 ^ (i + 3)) (map (had A S (i + 3) x) [0..<2 ^ k])"
        using True lt by (subst fwht_loop.simps) (simp add: power_add)
      also have "\<dots> = map (had A S k x) [0..<2 ^ k]" using i3 by (intro less.hyps) simp_all
      finally show ?thesis .
    next
      case F: False
      have len: "length ?m = 2 ^ (k - Suc i) * (2 * 2 ^ i)" using i by (simp flip: power_Suc power_add)
      have "concat (map (process_stage_chunk F cpu (2 ^ i)) (row_chunks (2 * 2 ^ i) ?m)) = map (bf A S (2 ^ i) (nth ?m)) [0..<length ?m]"
        unfolding A_def S_def by (rule stage_eq) (use len rows in \<open>auto simp: A_def S_def\<close>)
      also have "\<dots> = map (had A S (Suc i) x) [0..<2 ^ k]"
      proof (intro map_cong)
        fix j assume "j \<in> set [0..<2 ^ k]"
        then have "j < 2 ^ k" by simp
        have dvd: "2 * 2 ^ i dvd (2 :: nat) ^ k" using le_imp_power_dvd [of "Suc i" k "2 :: nat"] i by simp
        show "bf A S (2 ^ i) (nth ?m) j = had A S (Suc i) x j"
          unfolding had.simps by (rule bf_local [OF dvd nth \<open>j < 2 ^ k\<close>]) simp_all
      qed simp
      finally have "fwht_loop F cpu (2 ^ k) d (2 ^ i) ?m = fwht_loop F cpu (2 ^ k) d (2 ^ Suc i) (map (had A S (Suc i) x) [0..<2 ^ k])"
        using F lt by (subst fwht_loop.simps) (simp add: mult.commute)
      also have "\<dots> = map (had A S k x) [0..<2 ^ k]" using i by (intro less.hyps) simp_all
      finally show ?thesis .
    qed
  qed
qed

end
