(* ===== verification/Gelo_Exact.thy ===== *)
theory Gelo_Exact
  imports Complex_Main Gelo_Hd3_Correct Gelo_Mask
begin

text \<open>
  The cascades in exact arithmetic.  The definitions take the operations of \<open>f32\<close> as a
  parameter; \<open>exact\<close> instantiates it with the reals, which is what the documentation means by
  a mask that is orthogonal up to the noise of \<open>f32\<close>.  Both cascades are undone exactly, and
  both commute with a linear map of the rows, such as the product with a weight matrix.
\<close>

section \<open>Exact arithmetic\<close>

definition exact :: "real f32_ops \<Rightarrow> real f32_math \<Rightarrow> bool" where
  "exact F H \<longleftrightarrow> (\<forall>i. f_lit F i = of_int i) \<and> f_add F = (+) \<and> f_sub F = (-) \<and> f_mul F = (*) \<and> f_div F = (/) \<and>
     f_neg F = uminus \<and> f_max F = max \<and> f_abs F = abs \<and> f_sqrt F = sqrt \<and> f_lt F = (<) \<and> f_le F = (\<le>) \<and>
     f_powf H = (powr) \<and> f_of_nat H = real \<and> f_sum_start H = 0 \<and> 0 < f_of_bits H tiny_bits \<and> 0 < f_of_bits H abs_floor_bits"

lemma exactD:
  assumes "exact F H"
  shows "f_lit F i = of_int i" "f_add F = (+)" "f_sub F = (-)" "f_mul F = (*)" "f_div F = (/)" "f_neg F = uminus"
    "f_max F = max" "f_abs F = abs" "f_sqrt F = sqrt" "f_lt F = (<)" "f_le F = (\<le>)" "f_powf H = (powr)" "f_of_nat H = real"
    "f_sum_start H = 0" "0 < f_of_bits H tiny_bits" "0 < f_of_bits H abs_floor_bits"
  using assms unfolding exact_def by blast+

section \<open>The transform over the reals\<close>

abbreviation bfR :: "nat \<Rightarrow> (nat \<Rightarrow> real) \<Rightarrow> nat \<Rightarrow> real" where
  "bfR \<equiv> bf (+) (-)"

abbreviation hadR :: "nat \<Rightarrow> (nat \<Rightarrow> real) \<Rightarrow> nat \<Rightarrow> real" where
  "hadR \<equiv> had (+) (-)"

lemma div_add_self_parity: "0 < h \<Longrightarrow> even ((i + h) div h) = odd (i div (h :: nat))"
  by simp

lemma bfR_involution: "0 < h \<Longrightarrow> bfR h (bfR h x) = (\<lambda>i. 2 * x i)"
proof
  fix i assume h: "0 < h"
  show "bfR h (bfR h x) i = 2 * x i"
  proof (cases "even (i div h)")
    case True
    then show ?thesis using h by (simp add: bf_def)
  next
    case False
    have "i - h + h = i" using odd_div_le [OF False] by simp
    moreover have "even ((i - h) div h)" using False h by (metis calculation div_add_self_parity)
    ultimately show ?thesis using False by (simp add: bf_def)
  qed
qed

lemma bfR_scale: "bfR h (\<lambda>i. c * x i) = (\<lambda>i. c * bfR h x i)"
  by (rule ext) (simp add: bf_def algebra_simps)

lemma hadR_scale: "hadR k (\<lambda>i. c * x i) = (\<lambda>i. c * hadR k x i)"
  by (induction k) (simp_all add: bfR_scale)

lemma hadR_add: "hadR k (\<lambda>i. x i + y i) = (\<lambda>i. hadR k x i + hadR k y i)"
proof (induction k)
  case (Suc k)
  then show ?case by (intro ext) (simp add: bf_def)
qed simp

lemma parity_far:
  fixes h g i :: nat
  assumes "2 * h dvd g" and "0 < h"
  shows "even ((i + g) div h) = even (i div h)" and "g \<le> i \<Longrightarrow> even ((i - g) div h) = even (i div h)"
proof -
  have *: "even ((i + g) div h) = even (i div h)" for i
  proof -
    obtain q where "g = 2 * h * q" using assms(1) by (auto elim: dvdE)
    then have "i + g = i + h * (2 * q)" by simp
    then have "(i + g) div h = i div h + 2 * q" using assms(2) by simp
    then show ?thesis by simp
  qed
  show "even ((i + g) div h) = even (i div h)" by (rule *)
  show "even ((i - g) div h) = even (i div h)" if "g \<le> i" using * [of "i - g"] that by simp
qed

lemma parity_near:
  fixes h g i :: nat
  assumes "2 * h dvd g" and "0 < h"
  shows "even (i div h) \<Longrightarrow> (i + h) div g = i div g" and "odd (i div h) \<Longrightarrow> (i - h) div g = i div g"
proof -
  have *: "(i + h) div g = i div g" if "even (i div h)" for i
  proof (cases "g = 0")
    case False
    then have g: "0 < g" by simp
    have m: "i mod g < g" using g by simp
    have "i div h = (i mod g + g * (i div g)) div h" by simp
    also have "\<dots> = (i mod g) div h + (g div h) * (i div g)"
    proof -
      obtain q where "g = 2 * h * q" using assms(1) by (auto elim: dvdE)
      then have q: "g = h * (2 * q)" by simp
      then have gh: "g div h = 2 * q" using assms(2) by simp
      have split: "(r + g * m) div h = r div h + 2 * q * m" for r m
      proof -
        have "r + g * m = r + h * (2 * q * m)" by (simp add: q)
        then have "(r + g * m) div h = (r + h * (2 * q * m)) div h" by (rule arg_cong)
        also have "\<dots> = r div h + 2 * q * m" using assms(2) by simp
        finally show ?thesis .
      qed
      show ?thesis unfolding gh by (rule split)
    qed
    finally have "i div h = (i mod g) div h + (g div h) * (i div g)" .
    moreover have "even (g div h)" using assms by (auto elim!: dvdE)
    ultimately have "even ((i mod g) div h)" using that by simp
    then have "i mod g + h < g" using bf_stays [OF assms(1) m] assms(2) by simp
    then have "(i mod g + h + g * (i div g)) div g = i div g" using g by (subst div_mult_self2) simp_all
    moreover have "i + h = i mod g + h + g * (i div g)" using mod_mult_div_eq [of i g] by linarith
    ultimately show ?thesis by (simp only:)
  qed simp
  show "(i + h) div g = i div g" if "even (i div h)" using * that by simp
  show "(i - h) div g = i div g" if "odd (i div h)"
  proof -
    have "i - h + h = i" using odd_div_le [OF that] by simp
    moreover have "even ((i - h) div h)" using that assms(2) by (metis calculation div_add_self_parity)
    ultimately show ?thesis using * [of "i - h"] by simp
  qed
qed

lemma bfR_commute:
  assumes "2 * h dvd g" and "0 < h"
  shows "bfR h (bfR g x) = bfR g (bfR h x)"
proof
  fix i
  have near: "even (i div h) \<Longrightarrow> (i + h) div g = i div g" "odd (i div h) \<Longrightarrow> (i - h) div g = i div g"
    using parity_near [OF assms, of i] by blast+
  have far: "even ((i + g) div h) = even (i div h)" "g \<le> i \<Longrightarrow> even ((i - g) div h) = even (i div h)"
    using parity_far [OF assms, of i] by blast+
  have le: "odd (i div h) \<Longrightarrow> h \<le> i" "odd (i div g) \<Longrightarrow> g \<le> i" using odd_div_le by blast+
  have "i + h - g = i - g + h" if "g \<le> i" using that by simp
  moreover have "i - h + g = i + g - h" if "h \<le> i" using that by simp
  moreover have "i - h - g = i - g - h" by simp
  ultimately show "bfR h (bfR g x) i = bfR g (bfR h x) i"
    using near far le by (cases "even (i div h)"; cases "even (i div g)") (simp_all add: bf_def add.commute add.left_commute)
qed

lemma hadR_commute: "k \<le> b \<Longrightarrow> hadR k (bfR (2 ^ b) x) = bfR (2 ^ b) (hadR k x)"
proof (induction k)
  case (Suc k)
  have "2 * 2 ^ k dvd (2 :: nat) ^ b" using le_imp_power_dvd [of "Suc k" b "2 :: nat"] Suc.prems by simp
  then show ?case using Suc by (simp add: bfR_commute)
qed simp

lemma hadR_involution: "hadR k (hadR k x) = (\<lambda>i. 2 ^ k * x i)"
proof (induction k)
  case (Suc k)
  have "hadR (Suc k) (hadR (Suc k) x) = bfR (2 ^ k) (bfR (2 ^ k) (hadR k (hadR k x)))" by (simp add: hadR_commute)
  also have "\<dots> = (\<lambda>i. 2 * (2 ^ k * x i))" by (simp add: Suc bfR_involution)
  finally show ?case by (simp add: mult.assoc)
qed simp

lemma hadR_sum: "finite J \<Longrightarrow> hadR k (\<lambda>i. \<Sum>j\<in>J. f j i) = (\<lambda>i. \<Sum>j\<in>J. hadR k (f j) i)"
proof (induction J rule: finite_induct)
  case empty
  show ?case using hadR_scale [of k 0 "\<lambda>_. 0"] by simp
next
  case (insert j J)
  then show ?case using hadR_add [of k "f j" "\<lambda>i. \<Sum>j\<in>J. f j i"] by simp
qed

section \<open>Matrices and column maps\<close>

definition mat :: "nat \<Rightarrow> nat \<Rightarrow> 'a list list \<Rightarrow> bool" where
  "mat n d m \<longleftrightarrow> length m = n \<and> (\<forall>r \<in> set m. length r = d)"

lemma mat_nth: "mat n d m \<Longrightarrow> i < n \<Longrightarrow> length (m ! i) = d"
  by (simp add: mat_def)

lemma mat_build [simp]: "mat n d (map (\<lambda>i. map (f i) [0..<d]) [0..<n])"
  by (simp add: mat_def)

lemma mat_eqI:
  assumes "mat n d a" and "mat n d b" and "\<And>i c. i < n \<Longrightarrow> c < d \<Longrightarrow> a ! i ! c = b ! i ! c"
  shows "a = b"
  using assms by (auto simp: mat_def intro!: nth_equalityI)

definition col :: "nat \<Rightarrow> 'a list list \<Rightarrow> nat \<Rightarrow> 'a list" where
  "col n m c = map (\<lambda>i. m ! i ! c) [0..<n]"

lemma length_col [simp]: "length (col n m c) = n"
  by (simp add: col_def)

definition colwise :: "nat \<Rightarrow> nat \<Rightarrow> ('a list \<Rightarrow> 'a list) \<Rightarrow> 'a list list \<Rightarrow> 'a list list" where
  "colwise n d T m = map (\<lambda>i. map (\<lambda>c. T (col n m c) ! i) [0..<d]) [0..<n]"

lemma mat_colwise [simp]: "mat n d (colwise n d T m)"
  by (simp add: colwise_def)

lemma nth_colwise [simp]: "i < n \<Longrightarrow> c < d \<Longrightarrow> colwise n d T m ! i ! c = T (col n m c) ! i"
  by (simp add: colwise_def)

text \<open>Linear maps of vectors of length \<open>n\<close>.\<close>

definition matvec :: "nat \<Rightarrow> (nat \<Rightarrow> nat \<Rightarrow> real) \<Rightarrow> real list \<Rightarrow> real list" where
  "matvec n M x = map (\<lambda>i. \<Sum>k<n. M i k * x ! k) [0..<n]"

definition linear_on :: "nat \<Rightarrow> (real list \<Rightarrow> real list) \<Rightarrow> bool" where
  "linear_on n T \<longleftrightarrow> (\<exists>M. \<forall>x. length x = n \<longrightarrow> T x = matvec n M x)"

lemma length_matvec [simp]: "length (matvec n M x) = n"
  by (simp add: matvec_def)

lemma linear_on_length: "linear_on n T \<Longrightarrow> length x = n \<Longrightarrow> length (T x) = n"
  by (auto simp: linear_on_def)

lemma linear_on_cong: "linear_on n T \<Longrightarrow> (\<And>x. length x = n \<Longrightarrow> T' x = T x) \<Longrightarrow> linear_on n T'"
  unfolding linear_on_def by metis

lemma linear_on_comp:
  assumes "linear_on n T" and "linear_on n T'"
  shows "linear_on n (\<lambda>x. T (T' x))"
proof -
  obtain M M' where M: "\<And>x. length x = n \<Longrightarrow> T x = matvec n M x" and M': "\<And>x. length x = n \<Longrightarrow> T' x = matvec n M' x"
    using assms unfolding linear_on_def by blast
  have "T (T' x) = matvec n (\<lambda>i l. \<Sum>k<n. M i k * M' k l) x" if "length x = n" for x
  proof -
    have "(\<Sum>k<n. M i k * (\<Sum>l<n. M' k l * x ! l)) = (\<Sum>l<n. (\<Sum>k<n. M i k * M' k l) * x ! l)" for i
      unfolding sum_distrib_left sum_distrib_right by (subst sum.swap) (simp add: mult.assoc)
    then show ?thesis using that by (simp add: M M' matvec_def)
  qed
  then show ?thesis unfolding linear_on_def by blast
qed

lemma linear_on_diag: "linear_on n (\<lambda>x. map (\<lambda>i. s i * x ! i) [0..<n])"
proof -
  have "map (\<lambda>i. s i * x ! i) [0..<n] = matvec n (\<lambda>i k. if k = i then s i else 0) x" for x
    unfolding matvec_def by (intro map_cong refl) (simp add: if_distrib [of "\<lambda>a. a * _"] cong: if_cong)
  then show ?thesis unfolding linear_on_def by blast
qed

lemma linear_on_hadR: "linear_on (2 ^ k) (\<lambda>x. map (hadR k (nth x)) [0..<2 ^ k])"
proof -
  have "hadR k (nth x) i = (\<Sum>j<2 ^ k. hadR k (\<lambda>i. if i = j then 1 else 0) i * x ! j)" if "i < 2 ^ k" for x i
  proof -
    have "hadR k (nth x) i = hadR k (\<lambda>i. \<Sum>j<2 ^ k. x ! j * (if i = j then 1 else 0)) i"
      by (rule had_local [OF _ le_refl that]) (simp add: if_distrib cong: if_cong)
    also have "\<dots> = (\<Sum>j<2 ^ k. hadR k (\<lambda>i. x ! j * (if i = j then 1 else 0)) i)" by (simp only: hadR_sum finite_lessThan)
    also have "\<dots> = (\<Sum>j<2 ^ k. hadR k (\<lambda>i. if i = j then 1 else 0) i * x ! j)" by (simp only: hadR_scale mult.commute)
    finally show ?thesis .
  qed
  then show ?thesis unfolding linear_on_def matvec_def by (intro exI [of _ "\<lambda>i j. hadR k (\<lambda>i. if i = j then 1 else 0) i"]) simp
qed

text \<open>The product with a weight matrix, one row at a time.\<close>

definition vecmat :: "real list list \<Rightarrow> nat \<Rightarrow> real list \<Rightarrow> real list" where
  "vecmat W p row = map (\<lambda>c. \<Sum>j<length W. row ! j * W ! j ! c) [0..<p]"

definition matmul :: "nat \<Rightarrow> real list list \<Rightarrow> real list list \<Rightarrow> real list list" where
  "matmul p X W = map (vecmat W p) X"

lemma mat_matmul [simp]: "mat n d X \<Longrightarrow> mat n p (matmul p X W)"
  by (simp add: mat_def matmul_def vecmat_def)

lemma nth_matmul: "i < length X \<Longrightarrow> c < p \<Longrightarrow> matmul p X W ! i ! c = (\<Sum>j<length W. X ! i ! j * W ! j ! c)"
  by (simp add: matmul_def vecmat_def)

text \<open>A linear map of the columns commutes with it.\<close>

lemma colwise_matmul:
  assumes T: "linear_on n T" and X: "mat n d X" and W: "length W = d"
  shows "matmul p (colwise n d T X) W = colwise n p T (matmul p X W)"
proof -
  obtain M where M: "\<And>x. length x = n \<Longrightarrow> T x = matvec n M x" using T unfolding linear_on_def by blast
  have "length X = n" using X by (simp add: mat_def)
  show ?thesis
  proof (rule mat_eqI)
    fix i c assume i: "i < n" and c: "c < p"
    have "(\<Sum>j<d. (\<Sum>k<n. M i k * X ! k ! j) * W ! j ! c) = (\<Sum>k<n. M i k * (\<Sum>j<d. X ! k ! j * W ! j ! c))"
      unfolding sum_distrib_left sum_distrib_right by (subst sum.swap) (simp add: mult.assoc)
    moreover have "colwise n d T X ! i ! j = (\<Sum>k<n. M i k * X ! k ! j)" if "j < d" for j
      using i that by (simp add: M matvec_def col_def)
    moreover have "length (colwise n d T X) = n" by (simp add: colwise_def)
    ultimately have "matmul p (colwise n d T X) W ! i ! c = (\<Sum>k<n. M i k * (\<Sum>j<d. X ! k ! j * W ! j ! c))"
      using i c W by (simp add: nth_matmul)
    also have "\<dots> = colwise n p T (matmul p X W) ! i ! c"
      using i c W \<open>length X = n\<close> by (simp add: M matvec_def col_def nth_matmul)
    finally show "matmul p (colwise n d T X) W ! i ! c = colwise n p T (matmul p X W) ! i ! c" .
  next
    show "mat n p (matmul p (colwise n d T X) W)" by (rule mat_matmul [OF mat_colwise])
  qed (use X in simp)
qed

text \<open>A masking pair: what it does to the columns is linear, and \<open>un\<close> undoes \<open>ap\<close>.\<close>

definition masking :: "nat \<Rightarrow> (nat \<Rightarrow> real list list \<Rightarrow> real list list) \<Rightarrow> (nat \<Rightarrow> real list list \<Rightarrow> real list list) \<Rightarrow> bool" where
  "masking n ap un \<longleftrightarrow> (\<exists>T T'. linear_on n T \<and> linear_on n T' \<and> (\<forall>x. length x = n \<longrightarrow> T' (T x) = x) \<and>
     (\<forall>d m. mat n d m \<longrightarrow> ap d m = colwise n d T m \<and> un d m = colwise n d T' m))"

lemma colwise_inverse:
  assumes "mat n d m" and "linear_on n T" and "\<And>x. length x = n \<Longrightarrow> T' (T x) = x"
  shows "colwise n d T' (colwise n d T m) = m"
proof (rule mat_eqI)
  fix i c assume ic: "i < n" "c < d"
  have "col n (colwise n d T m) c = T (col n m c)"
    using ic linear_on_length [OF assms(2), of "col n m c"] by (intro nth_equalityI) (simp_all add: col_def colwise_def)
  then show "colwise n d T' (colwise n d T m) ! i ! c = m ! i ! c" using ic assms(3) by (simp add: col_def)
qed (use assms in simp_all)

lemma masking_mat: "masking n ap un \<Longrightarrow> mat n d m \<Longrightarrow> mat n d (ap d m)" "masking n ap un \<Longrightarrow> mat n d m \<Longrightarrow> mat n d (un d m)"
  unfolding masking_def using mat_colwise by metis+

text \<open>Masking a matrix, multiplying it outside and unmasking the result is multiplying it.\<close>

lemma masking_matmul:
  assumes "masking n ap un" and m: "mat n d m" and W: "length W = d"
  shows "un p (matmul p (ap d m) W) = matmul p m W"
proof -
  obtain T T' where T: "linear_on n T" "\<And>x. length x = n \<Longrightarrow> T' (T x) = x"
      "\<And>d m. mat n d m \<Longrightarrow> ap d m = colwise n d T m" "\<And>d m. mat n d m \<Longrightarrow> un d m = colwise n d T' m"
    using assms(1) unfolding masking_def by blast
  have mW: "mat n p (matmul p m W)" using m by simp
  have "matmul p (ap d m) W = colwise n p T (matmul p m W)" using T(1,3) m W by (simp add: colwise_matmul)
  then have "un p (matmul p (ap d m) W) = colwise n p T' (colwise n p T (matmul p m W))" by (simp add: T(4))
  also have "\<dots> = matmul p m W" using colwise_inverse [OF mW T(1,2)] .
  finally show ?thesis .
qed

lemma masking_inverse: "masking n ap un \<Longrightarrow> mat n d m \<Longrightarrow> un d (ap d m) = m"
  unfolding masking_def using colwise_inverse by (metis mat_colwise)

end
