(* ===== verification/Gelo_Cascade.thy ===== *)
theory Gelo_Cascade
  imports Gelo_Exact
begin

text \<open>
  Both cascades are masking pairs in exact arithmetic.  What one of them does to a column is
  three rounds of a transform and a diagonal of signs; the transform is its own inverse up to a
  factor, which the last scaling cancels.
\<close>

section \<open>A cascade of three rounds\<close>

definition diag_vec :: "real list \<Rightarrow> real \<Rightarrow> real list \<Rightarrow> real list" where
  "diag_vec s f x = map (\<lambda>i. (s ! i * f) * x ! i) [0..<length x]"

definition signs :: "nat \<Rightarrow> real list \<Rightarrow> bool" where
  "signs n s \<longleftrightarrow> length s = n \<and> (\<forall>i < n. s ! i = 1 \<or> s ! i = - 1)"

lemma length_diag_vec [simp]: "length (diag_vec s f x) = length x"
  by (simp add: diag_vec_def)

lemma linear_on_diag_vec: "linear_on n (diag_vec s f)"
  by (rule linear_on_cong [OF linear_on_diag [of n "\<lambda>i. s ! i * f"]]) (simp add: diag_vec_def)

lemma diag_vec_twice: "signs n s \<Longrightarrow> length x = n \<Longrightarrow> diag_vec s f (diag_vec s f x) = map ((*) (f * f)) x"
  unfolding signs_def by (intro nth_equalityI) (auto simp: diag_vec_def)

lemma linear_on_scale:
  assumes "linear_on n T" and "length x = n"
  shows "T (map ((*) a) x) = map ((*) a) (T x)"
proof -
  obtain M where M: "\<And>x. length x = n \<Longrightarrow> T x = matvec n M x" using assms(1) unfolding linear_on_def by blast
  have "(\<Sum>k<n. M i k * map ((*) a) x ! k) = a * (\<Sum>k<n. M i k * x ! k)" for i
    unfolding sum_distrib_left by (intro sum.cong) (use assms(2) in simp_all)
  then show ?thesis using assms(2) by (simp add: M matvec_def)
qed

definition cascade_ap :: "(real list \<Rightarrow> real list) \<Rightarrow> real list \<Rightarrow> real list \<Rightarrow> real list \<Rightarrow> real \<Rightarrow> real list \<Rightarrow> real list" where
  "cascade_ap H d1 d2 d3 f x = diag_vec d3 f (H (diag_vec d2 1 (H (diag_vec d1 1 (H x)))))"

definition cascade_un :: "(real list \<Rightarrow> real list) \<Rightarrow> real list \<Rightarrow> real list \<Rightarrow> real list \<Rightarrow> real \<Rightarrow> real list \<Rightarrow> real list" where
  "cascade_un H d1 d2 d3 f x = H (diag_vec d1 1 (H (diag_vec d2 1 (H (diag_vec d3 f x)))))"

lemma linear_on_cascade:
  assumes H: "linear_on n H"
  shows "linear_on n (cascade_ap H d1 d2 d3 f)" "linear_on n (cascade_un H d1 d2 d3 f)"
proof -
  note D = linear_on_diag_vec [of n]
  have "linear_on n (\<lambda>x. diag_vec d3 f (H (diag_vec d2 1 (H (diag_vec d1 1 (H x))))))"
    using linear_on_comp [OF D linear_on_comp [OF H linear_on_comp [OF D linear_on_comp [OF H linear_on_comp [OF D H]]]]] .
  then show "linear_on n (cascade_ap H d1 d2 d3 f)" by (simp add: cascade_ap_def [abs_def])
  have "linear_on n (\<lambda>x. H (diag_vec d1 1 (H (diag_vec d2 1 (H (diag_vec d3 f x))))))"
    using linear_on_comp [OF H linear_on_comp [OF D linear_on_comp [OF H linear_on_comp [OF D linear_on_comp [OF H D]]]]] .
  then show "linear_on n (cascade_un H d1 d2 d3 f)" by (simp add: cascade_un_def [abs_def])
qed

lemma cascade_inverse:
  assumes H: "linear_on n H" and inv: "\<And>x. length x = n \<Longrightarrow> H (H x) = map ((*) c) x"
    and s: "signs n d1" "signs n d2" "signs n d3" and f: "f * f * c ^ 3 = 1" and x: "length x = n"
  shows "cascade_un H d1 d2 d3 f (cascade_ap H d1 d2 d3 f x) = x"
proof -
  have scale: "map ((*) a) (map ((*) b) y) = map ((*) (a * b)) y" for a b :: real and y by simp
  have D: "diag_vec s g (map ((*) a) y) = map ((*) a) (diag_vec s g y)" for s g a y
    by (intro nth_equalityI) (simp_all add: diag_vec_def)
  note rules = linear_on_scale [OF H] D scale diag_vec_twice [OF s(1)] diag_vec_twice [OF s(2)] diag_vec_twice [OF s(3)]
    inv linear_on_length [OF H] length_diag_vec length_map x
  have "cascade_un H d1 d2 d3 f (cascade_ap H d1 d2 d3 f x) = map ((*) (f * f * c * (1 * 1) * c * (1 * 1) * c)) x"
    unfolding cascade_un_def cascade_ap_def by (simp only: rules)
  also have "f * f * c * (1 * 1) * c * (1 * 1) * c = 1" using f by (simp add: power3_eq_cube)
  finally show ?thesis by simp
qed

lemma masking_cascade:
  assumes "linear_on n H" and "\<And>x. length x = n \<Longrightarrow> H (H x) = map ((*) c) x"
    and "signs n d1" and "signs n d2" and "signs n d3" and "f * f * c ^ 3 = 1"
    and "\<And>d m. mat n d m \<Longrightarrow> ap d m = colwise n d (cascade_ap H d1 d2 d3 f) m"
    and "\<And>d m. mat n d m \<Longrightarrow> un d m = colwise n d (cascade_un H d1 d2 d3 f) m"
  shows "masking n ap un"
  unfolding masking_def
  by (intro exI [of _ "cascade_ap H d1 d2 d3 f"] exI [of _ "cascade_un H d1 d2 d3 f"] conjI allI impI)
    (use assms linear_on_cascade [OF assms(1)] cascade_inverse [OF assms(1-6)] in simp_all)

lemma colwise_comp:
  assumes "\<And>x. length x = n \<Longrightarrow> length (T' x) = n"
  shows "colwise n d T (colwise n d T' m) = colwise n d (\<lambda>x. T (T' x)) m"
proof (rule mat_eqI)
  fix i c assume ic: "i < n" "c < d"
  have "col n (colwise n d T' m) c = T' (col n m c)"
    using ic assms [of "col n m c"] by (intro nth_equalityI) (simp_all add: col_def colwise_def)
  then show "colwise n d T (colwise n d T' m) ! i ! c = colwise n d (\<lambda>x. T (T' x)) m ! i ! c" using ic by simp
qed simp_all

lemma colwise_cong: "(\<And>x. length x = n \<Longrightarrow> T x = T' x) \<Longrightarrow> colwise n d T m = colwise n d T' m"
  by (simp add: colwise_def)

lemma nth_col [simp]: "i < n \<Longrightarrow> col n m c ! i = m ! i ! c"
  by (simp add: col_def)

section \<open>The Hadamard cascade\<close>

lemma fwht_rows_eq:
  assumes m: "mat (2 ^ k) d m"
  shows "fwht_rows F cpu (2 ^ k) d m = map (had (map2 (f_add F)) (map2 (f_sub F)) k (\<lambda>i. m ! (i mod 2 ^ k))) [0..<2 ^ k]"
proof -
  let ?x = "\<lambda>i. m ! (i mod 2 ^ k)"
  have len: "length (?x i) = d" for i using m by (simp add: mat_nth)
  have m': "m = map (had (map2 (f_add F)) (map2 (f_sub F)) 0 ?x) [0..<2 ^ k]"
    using m by (intro nth_equalityI) (simp_all add: mat_def)
  show ?thesis
  proof (cases "k = 0 \<or> d = 0")
    case False
    then have "\<not> (2 :: nat) ^ k < 2" by (cases k) simp_all
    then have "fwht_rows F cpu (2 ^ k) d m = fwht_loop F cpu (2 ^ k) d (2 ^ 0) (map (had (map2 (f_add F)) (map2 (f_sub F)) 0 ?x) [0..<2 ^ k])"
      using False m' by (simp add: fwht_rows_def)
    also have "\<dots> = map (had (map2 (f_add F)) (map2 (f_sub F)) k ?x) [0..<2 ^ k]" by (rule fwht_loop_eq) (use len in simp_all)
    finally show ?thesis .
  next
    case True
    then have same: "fwht_rows F cpu (2 ^ k) d m = m" by (auto simp: fwht_rows_def)
    show ?thesis
    proof (cases "k = 0")
      case True
      then show ?thesis using same m' by simp
    next
      case k: False
      then have d: "d = 0" using True by simp
      have "length (had (map2 (f_add F)) (map2 (f_sub F)) k ?x i) = d" for i
        using had_closed [of "{r. length r = d}" "map2 (f_add F)" "map2 (f_sub F)" ?x k i] len by simp
      then show ?thesis using same m d unfolding mat_def by (intro nth_equalityI) (simp_all, metis length_0_conv nth_mem)
    qed
  qed
qed

definition had_vec :: "nat \<Rightarrow> real list \<Rightarrow> real list" where
  "had_vec k x = map (hadR k (nth x)) [0..<2 ^ k]"

lemma length_had_vec [simp]: "length (had_vec k x) = 2 ^ k"
  by (simp add: had_vec_def)

lemma linear_on_had_vec: "linear_on (2 ^ k) (had_vec k)"
  using linear_on_hadR [of k] by (simp add: had_vec_def [abs_def])

lemma had_vec_twice: "length x = 2 ^ k \<Longrightarrow> had_vec k (had_vec k x) = map ((*) (2 ^ k)) x"
proof (rule nth_equalityI)
  fix i assume x: "length x = 2 ^ k" and "i < length (had_vec k (had_vec k x))"
  then have i: "i < 2 ^ k" by simp
  have "hadR k (nth (had_vec k x)) i = hadR k (hadR k (nth x)) i"
    by (rule had_local [OF _ le_refl i]) (simp add: had_vec_def)
  then show "had_vec k (had_vec k x) ! i = map ((*) (2 ^ k)) x ! i"
    using i x by (simp add: had_vec_def hadR_involution)
qed simp

lemma fwht_rows_exact:
  assumes E: "exact F H" and m: "mat (2 ^ k) d m"
  shows "fwht_rows F cpu (2 ^ k) d m = colwise (2 ^ k) d (had_vec k) m"
proof -
  let ?x = "\<lambda>i. m ! (i mod 2 ^ k)"
  have len: "length (?x i) = d" for i using m by (simp add: mat_nth)
  define h where "h = had (map2 (+)) (map2 (-)) k ?x"
  have eq: "fwht_rows F cpu (2 ^ k) d m = map h [0..<2 ^ k]"
    unfolding fwht_rows_eq [OF m] exactD(2,3) [OF E] h_def ..
  have row: "length (h i) = d" for i :: nat
    using had_closed [of "{r. length r = d}" "map2 (+)" "map2 (-)" ?x k i] len by (simp add: h_def)
  show ?thesis
  proof (rule mat_eqI)
    show "mat (2 ^ k) d (fwht_rows F cpu (2 ^ k) d m)" by (simp add: eq mat_def row)
    fix i c :: nat assume i: "i < 2 ^ k" and c: "c < d"
    have "h i ! c = hadR k (\<lambda>i. ?x i ! c) i" unfolding h_def
      by (rule had_hom [of "{r. length r = d}" "map2 (+)" "map2 (-)" ?x "\<lambda>r. r ! c"]) (use len c in simp_all)
    also have "\<dots> = hadR k (nth (col (2 ^ k) m c)) i" by (rule had_local [OF _ le_refl i]) simp
    finally show "fwht_rows F cpu (2 ^ k) d m ! i ! c = colwise (2 ^ k) d (had_vec k) m ! i ! c"
      using i c by (simp add: eq had_vec_def)
  qed simp
qed

lemma apply_diag_exact:
  assumes E: "exact F H" and m: "mat n d m" and s: "signs n s"
  shows "apply_diag F s m = colwise n d (diag_vec s 1) m"
proof (rule mat_eqI)
  have len: "length s = n" "length m = n" using s m by (simp_all add: signs_def mat_def)
  show "mat n d (apply_diag F s m)"
    using m len by (auto simp: mat_def apply_diag_def in_set_zip)
  fix i c assume i: "i < n" and c: "c < d"
  have "s ! i = 1 \<or> s ! i = - 1" using s i by (simp add: signs_def)
  then show "apply_diag F s m ! i ! c = colwise n d (diag_vec s 1) m ! i ! c"
    using i c len mat_nth [OF m i] by (auto simp: apply_diag_def diag_vec_def exactD [OF E])
qed simp

lemma apply_diag_scaled_exact:
  assumes E: "exact F H" and m: "mat n d m" and s: "signs n s"
  shows "apply_diag_scaled F s f m = colwise n d (diag_vec s f) m"
proof (rule mat_eqI)
  have len: "length s = n" "length m = n" using s m by (simp_all add: signs_def mat_def)
  show "mat n d (apply_diag_scaled F s f m)"
    using m len by (auto simp: mat_def apply_diag_scaled_def in_set_zip)
  fix i c assume i: "i < n" and c: "c < d"
  then show "apply_diag_scaled F s f m ! i ! c = colwise n d (diag_vec s f) m ! i ! c"
    using len mat_nth [OF m i] by (simp add: apply_diag_scaled_def diag_vec_def exactD [OF E])
qed simp

text \<open>A mask of the size it was made for.\<close>

definition hd3_ok :: "real hd3_mask \<Rightarrow> bool" where
  "hd3_ok M \<longleftrightarrow> (\<exists>k. hd_n M = 2 ^ k) \<and> signs (hd_n M) (hd_d1 M) \<and> signs (hd_n M) (hd_d2 M) \<and> signs (hd_n M) (hd_d3 M) \<and>
     hd_inv_norm M = 1 / real (hd_n M) powr (3 / 2)"

lemma powr_three_halves:
  assumes "0 < (c :: real)"
  shows "c powr (3 / 2) * c powr (3 / 2) = c ^ 3"
proof -
  have "c powr (3 / 2) * c powr (3 / 2) = c powr 3" by (simp flip: powr_add)
  then show ?thesis using assms by (simp add: powr_numeral)
qed

theorem hd3_masking:
  assumes E: "exact F H" and ok: "hd3_ok M"
  shows "masking (hd_n M) (hd3_apply_slice F cpu M) (hd3_unapply_slice F cpu M)"
proof -
  obtain k where k: "hd_n M = 2 ^ k" using ok by (auto simp: hd3_ok_def)
  have s: "signs (2 ^ k) (hd_d1 M)" "signs (2 ^ k) (hd_d2 M)" "signs (2 ^ k) (hd_d3 M)" using ok k by (simp_all add: hd3_ok_def)
  have f: "hd_inv_norm M = 1 / (2 ^ k) powr (3 / 2)" using ok k by (simp add: hd3_ok_def)
  let ?c = "(2 :: real) ^ k" and ?f = "hd_inv_norm M"
  have "?f * ?f * ?c ^ 3 = 1" unfolding f using powr_three_halves [of ?c] by (simp add: field_simps)
  note had = fwht_rows_exact [OF E] and sign = apply_diag_exact [OF E mat_colwise] and scaled = apply_diag_scaled_exact [OF E]
  have ap: "hd3_apply_slice F cpu M d m = colwise (2 ^ k) d (cascade_ap (had_vec k) (hd_d1 M) (hd_d2 M) (hd_d3 M) ?f) m"
    if m: "mat (2 ^ k) d m" for d m
    unfolding hd3_apply_slice_def Let_def k had [OF m] sign [OF s(1)] had [OF mat_colwise] sign [OF s(2)] scaled [OF mat_colwise s(3)]
    by (simp add: colwise_comp cascade_ap_def [abs_def])
  have un: "hd3_unapply_slice F cpu M d m = colwise (2 ^ k) d (cascade_un (had_vec k) (hd_d1 M) (hd_d2 M) (hd_d3 M) ?f) m"
    if m: "mat (2 ^ k) d m" for d m
    unfolding hd3_unapply_slice_def Let_def k scaled [OF m s(3)] had [OF mat_colwise] sign [OF s(2)] sign [OF s(1)]
    by (simp add: colwise_comp cascade_un_def [abs_def])
  show ?thesis unfolding k
    by (rule masking_cascade [OF linear_on_had_vec had_vec_twice s \<open>?f * ?f * ?c ^ 3 = 1\<close> ap un])
qed

section \<open>The DCT-IV cascade\<close>

lemma nth_fold_row:
  "c < length row \<Longrightarrow> fold (\<lambda>j row. row[s + j := f j]) [0..<w] row ! c = (if s \<le> c \<and> c < s + w then f (c - s) else row ! c)"
proof (induction w)
  case (Suc w)
  have "fold (\<lambda>j row. row[s + j := f j]) [0..<w] row ! c = (if s \<le> c \<and> c < s + w then f (c - s) else row ! c)"
    using Suc by simp
  moreover have "length (fold (\<lambda>j row. row[s + j := f j]) [0..<w] row) = length row"
    by (induction w) simp_all
  ultimately show ?case using Suc.prems by (cases "c = s + w") (simp_all add: nth_list_update)
qed auto

lemma length_fold_row [simp]: "length (fold (\<lambda>j row. row[s + j := f j]) xs row) = length row"
  by (induction xs arbitrary: row) simp_all

lemma tile_step:
  assumes m: "mat n d m" and le: "s + w \<le> d"
  shows "mat n d (copy_tile_out s w (map T (copy_tile_in n s w m)) m)"
    and "i < n \<Longrightarrow> c < d \<Longrightarrow> copy_tile_out s w (map T (copy_tile_in n s w m)) m ! i ! c =
      (if s \<le> c \<and> c < s + w then T (col n m c) ! i else m ! i ! c)"
proof -
  have len: "length m = n" using m by (simp add: mat_def)
  show "mat n d (copy_tile_out s w (map T (copy_tile_in n s w m)) m)"
    using m by (auto simp: mat_def copy_tile_out_def)
  show "copy_tile_out s w (map T (copy_tile_in n s w m)) m ! i ! c = (if s \<le> c \<and> c < s + w then T (col n m c) ! i else m ! i ! c)"
    if "i < n" "c < d"
  proof -
    have "copy_tile_in n s w m ! (c - s) = col n m c" if "s \<le> c" "c < s + w"
      using that by (simp add: copy_tile_in_def col_def)
    moreover have "length (copy_tile_in n s w m) = w" by (simp add: copy_tile_in_def)
    ultimately have "map T (copy_tile_in n s w m) ! (c - s) = T (col n m c)" if "s \<le> c" "c < s + w"
      using that by (subst nth_map) simp_all
    then show ?thesis using that len mat_nth [OF m] by (simp add: copy_tile_out_def nth_fold_row)
  qed
qed

lemma tiles_before:
  fixes d q :: nat and T :: "'a list \<Rightarrow> 'a list"
  assumes m: "mat n d m"
  defines "step \<equiv> \<lambda>t m. let tile_start = t * DCT4_CASCADE_TILE; tile_d = min (tile_start + DCT4_CASCADE_TILE) d - tile_start in
    copy_tile_out tile_start tile_d (map T (copy_tile_in n tile_start tile_d m)) m"
  assumes "q \<le> (d + DCT4_CASCADE_TILE - 1) div DCT4_CASCADE_TILE"
  shows "mat n d (fold step [0..<q] m) \<and>
    (\<forall>i < n. \<forall>c < d. fold step [0..<q] m ! i ! c = (if c < q * DCT4_CASCADE_TILE then T (col n m c) ! i else m ! i ! c))"
  using assms(3)
proof (induction q)
  case (Suc q)
  let ?K = DCT4_CASCADE_TILE and ?r = "fold step [0..<q] m"
  let ?s = "q * ?K"
  let ?w = "min (?s + ?K) d - ?s"
  have IH: "mat n d ?r" "\<And>i c. i < n \<Longrightarrow> c < d \<Longrightarrow> ?r ! i ! c = (if c < ?s then T (col n m c) ! i else m ! i ! c)"
    using Suc by simp_all
  have "?s < d" using Suc.prems by (simp add: DCT4_CASCADE_TILE_def)
  then have le: "?s + ?w \<le> d" by simp
  have step: "fold step [0..<Suc q] m = copy_tile_out ?s ?w (map T (copy_tile_in n ?s ?w ?r)) ?r"
    by (simp only: upt_Suc_append zero_le fold_append fold.simps comp_def id_def) (simp add: step_def Let_def)
  have "fold step [0..<Suc q] m ! i ! c = (if c < Suc q * ?K then T (col n m c) ! i else m ! i ! c)" if ic: "i < n" "c < d" for i c
  proof (cases "?s \<le> c \<and> c < ?s + ?w")
    case True
    then have "col n ?r c = col n m c" using ic IH(2) by (simp add: col_def)
    then show ?thesis unfolding step tile_step(2) [OF IH(1) le ic] using True by auto
  next
    case False
    then have "c < Suc q * ?K \<longleftrightarrow> c < ?s" using ic by auto
    then show ?thesis unfolding step tile_step(2) [OF IH(1) le ic] using False IH(2) ic by simp
  qed
  then show ?case using tile_step(1) [OF IH(1) le, of T] unfolding step by blast
qed (use m in simp)

lemma cascade_over_tiles_eq:
  assumes m: "mat n d m"
  shows "cascade_over_tiles (map T) n d m = (if n < 2 then m else colwise n d T m)"
proof (cases "n < 2 \<or> d = 0")
  case True
  moreover have "colwise n 0 T m = m" if "mat n 0 m" using that by (intro mat_eqI [of n 0]) simp_all
  ultimately show ?thesis using m by (auto simp: cascade_over_tiles_def)
next
  case False
  let ?q = "(d + DCT4_CASCADE_TILE - 1) div DCT4_CASCADE_TILE"
  have "d \<le> ?q * DCT4_CASCADE_TILE" by (simp add: DCT4_CASCADE_TILE_def)
  then show ?thesis
    using False tiles_before [OF m, of ?q T] by (intro mat_eqI [of n d]) (auto simp: cascade_over_tiles_def)
qed

lemma cascade_tile_columns:
  "cascade_apply_in_tile F dct4 M = map (\<lambda>x. map2 (\<lambda>s v. f_mul F v (f_mul F s (dc_inv_norm M))) (dc_d3 M) (dct4
     (map2 (\<lambda>s v. if f_lt F s (f_lit F 0) then f_neg F v else v) (dc_d2 M) (dct4
       (map2 (\<lambda>s v. if f_lt F s (f_lit F 0) then f_neg F v else v) (dc_d1 M) (dct4 x))))))"
  "cascade_unapply_in_tile F dct4 M = map (\<lambda>x. dct4 (map2 (\<lambda>s v. if f_lt F s (f_lit F 0) then f_neg F v else v) (dc_d1 M)
     (dct4 (map2 (\<lambda>s v. if f_lt F s (f_lit F 0) then f_neg F v else v) (dc_d2 M)
       (dct4 (map2 (\<lambda>s v. f_mul F v (f_mul F s (dc_inv_norm M))) (dc_d3 M) x))))))"
  by (rule ext, simp add: cascade_apply_in_tile_def cascade_unapply_in_tile_def sign_diag_in_tile_def scaled_diag_in_tile_def)+

text \<open>What the library promises of its DCT-IV: it is linear, and its own inverse up to \<open>n / 2\<close>.\<close>

definition dct_law :: "(nat \<Rightarrow> real list \<Rightarrow> real list) \<Rightarrow> bool" where
  "dct_law dct \<longleftrightarrow> (\<forall>n > 0. linear_on n (dct n) \<and> (\<forall>x. length x = n \<longrightarrow> dct n (dct n x) = map ((*) (real n / 2)) x))"

definition dct4_ok :: "real dct4_mask \<Rightarrow> bool" where
  "dct4_ok M \<longleftrightarrow> 0 < dc_n M \<and> signs (dc_n M) (dc_d1 M) \<and> signs (dc_n M) (dc_d2 M) \<and> signs (dc_n M) (dc_d3 M) \<and>
     dc_inv_norm M = (2 / real (dc_n M)) powr (3 / 2)"

lemma sign_vec_exact: "exact F H \<Longrightarrow> signs n s \<Longrightarrow> length x = n \<Longrightarrow>
    map2 (\<lambda>s v. if f_lt F s (f_lit F 0) then f_neg F v else v) s x = diag_vec s 1 x"
  by (intro nth_equalityI) (auto simp: diag_vec_def signs_def exactD)

lemma scaled_vec_exact: "exact F H \<Longrightarrow> signs n s \<Longrightarrow> length x = n \<Longrightarrow>
    map2 (\<lambda>s v. f_mul F v (f_mul F s f)) s x = diag_vec s f x"
  by (intro nth_equalityI) (auto simp: diag_vec_def signs_def exactD)

lemma masking_id: "(\<And>d m. mat n d m \<Longrightarrow> ap d m = m \<and> un d m = m) \<Longrightarrow> masking n ap un"
proof -
  assume id: "\<And>d m. mat n d m \<Longrightarrow> ap d m = m \<and> un d m = m"
  have lin: "linear_on n (\<lambda>x. x)"
    by (rule linear_on_cong [OF linear_on_diag [of n "\<lambda>_. 1"]]) (simp, metis map_nth)
  have "m = colwise n d (\<lambda>x. x) m" if "mat n d m" for d m by (rule mat_eqI [OF that mat_colwise]) simp
  then show ?thesis unfolding masking_def using lin id by (intro exI [of _ "\<lambda>x. x"]) auto
qed

theorem dct4_masking:
  assumes E: "exact F H" and law: "dct_law dct" and ok: "dct4_ok M"
  shows "masking (dc_n M) (dct4_apply_slice F dct M) (dct4_unapply_slice F dct M)"
proof (cases "dc_n M < 2")
  case True
  then show ?thesis
    by (intro masking_id) (simp add: dct4_apply_slice_def dct4_unapply_slice_def cascade_tile_columns cascade_over_tiles_eq)
next
  case False
  let ?n = "dc_n M" and ?f = "dc_inv_norm M" and ?C = "dct (dc_n M)" and ?c = "real (dc_n M) / 2"
  have s: "signs ?n (dc_d1 M)" "signs ?n (dc_d2 M)" "signs ?n (dc_d3 M)" and n: "0 < ?n" using ok by (simp_all add: dct4_ok_def)
  have lin: "linear_on ?n ?C" and inv: "\<And>x. length x = ?n \<Longrightarrow> ?C (?C x) = map ((*) ?c) x" using law n by (simp_all add: dct_law_def)
  have f: "?f * ?f * ?c ^ 3 = 1"
  proof -
    have "?f = (2 / real ?n) powr (3 / 2)" using ok by (simp add: dct4_ok_def)
    then have "?f * ?f = (2 / real ?n) ^ 3" using powr_three_halves [of "2 / real ?n"] n by simp
    then show ?thesis using n by (simp add: power_divide)
  qed
  note len = linear_on_length [OF lin] sign_vec_exact [OF E s(1)] sign_vec_exact [OF E s(2)] scaled_vec_exact [OF E s(3)]
  show ?thesis
  proof (rule masking_cascade [OF lin inv s f])
    fix d and m :: "real list list" assume m: "mat ?n d m"
    show "dct4_apply_slice F dct M d m = colwise ?n d (cascade_ap ?C (dc_d1 M) (dc_d2 M) (dc_d3 M) ?f) m"
      using False m by (simp add: dct4_apply_slice_def cascade_tile_columns cascade_over_tiles_eq cascade_ap_def len cong: colwise_cong)
    show "dct4_unapply_slice F dct M d m = colwise ?n d (cascade_un ?C (dc_d1 M) (dc_d2 M) (dc_d3 M) ?f) m"
      using False m by (simp add: dct4_unapply_slice_def cascade_tile_columns cascade_over_tiles_eq cascade_un_def len cong: colwise_cong)
  qed simp_all
qed

end
