(* ===== verification/Gelo_Mask_Correct.thy ===== *)
theory Gelo_Mask_Correct
  imports Gelo_Cascade
begin

text \<open>
  The masks in exact arithmetic: the dense sampler yields a matrix with orthonormal columns
  whatever the generator draws, the samplers of the cascades yield diagonals of signs with the
  right scale, so a fresh mask of any family is a masking pair.
\<close>

section \<open>Sums\<close>

lemma fold_sum: "fold (\<lambda>x s. s + f x) xs (a :: real) = a + (\<Sum>x\<leftarrow>xs. f x)"
  by (induction xs arbitrary: a) simp_all

lemma fold_sum_pair: "fold (\<lambda>(x, y) s. s + x * y) (zip xs ys) (a :: real) = a + (\<Sum>(x, y)\<leftarrow>zip xs ys. x * y)"
  using fold_sum [of "\<lambda>(x, y). x * y" "zip xs ys" a] by (simp add: case_prod_unfold)

lemma sum_list_zip: "length xs = length ys \<Longrightarrow> (\<Sum>(x, y)\<leftarrow>zip xs ys. x * y) = (\<Sum>j<length ys. xs ! j * (ys ! j :: real))"
  by (simp add: sum_list_sum_nth atLeast0LessThan)

lemma sum_split: "(\<Sum>c<k + m. h c) = (\<Sum>c<k. h c) + (\<Sum>j<m. h (k + j :: nat) :: real)"
  by (induction m) simp_all

section \<open>Reflections\<close>

definition orth :: "nat \<Rightarrow> real list list \<Rightarrow> bool" where
  "orth n q \<longleftrightarrow> mat n n q \<and> (\<forall>a < n. \<forall>b < n. (\<Sum>r<n. q ! r ! a * q ! r ! b) = of_bool (a = b))"

lemma reflection_orth:
  fixes q :: "nat \<Rightarrow> nat \<Rightarrow> real" and w :: "nat \<Rightarrow> real"
  assumes orth: "\<And>a b. a < n \<Longrightarrow> b < n \<Longrightarrow> (\<Sum>r<n. q r a * q r b) = of_bool (a = b)"
    and unit: "(\<Sum>c<n. w c * w c) = 1" and ab: "a < n" "b < n"
  defines "q' \<equiv> \<lambda>r c. q r c - 2 * (\<Sum>c<n. q r c * w c) * w c"
  shows "(\<Sum>r<n. q' r a * q' r b) = of_bool (a = b)"
proof -
  define p where "p r = (\<Sum>c<n. q r c * w c)" for r
  have col: "(\<Sum>r<n. q r a * p r) = w a" if "a < n" for a
  proof -
    have "(\<Sum>r<n. q r a * p r) = (\<Sum>c<n. (\<Sum>r<n. q r a * q r c) * w c)"
      unfolding p_def sum_distrib_left sum_distrib_right by (subst sum.swap) (simp add: mult.assoc)
    also have "\<dots> = w a" using that by (simp add: orth if_distrib [of "\<lambda>x. x * _"] of_bool_def cong: if_cong)
    finally show ?thesis .
  qed
  have norm: "(\<Sum>r<n. p r * p r) = 1"
  proof -
    have "(\<Sum>r<n. p r * p r) = (\<Sum>r<n. \<Sum>c<n. w c * (q r c * p r))"
      by (subst (1) p_def) (simp add: sum_distrib_left sum_distrib_right mult_ac)
    also have "\<dots> = (\<Sum>c<n. w c * (\<Sum>r<n. q r c * p r))" by (subst sum.swap) (simp add: sum_distrib_left)
    also have "\<dots> = 1" using unit by (simp add: col)
    finally show ?thesis .
  qed
  have "(\<Sum>r<n. q' r a * q' r b) =
      (\<Sum>r<n. q r a * q r b - 2 * w b * (q r a * p r) - 2 * w a * (q r b * p r) + 4 * w a * w b * (p r * p r))"
    unfolding q'_def p_def [symmetric] by (rule sum.cong) (simp_all add: algebra_simps)
  also have "\<dots> = of_bool (a = b) - 2 * w b * w a - 2 * w a * w b + 4 * w a * w b"
    by (simp only: sum.distrib sum_subtractf sum_distrib_left [symmetric] orth [OF ab] col [OF ab(1)] col [OF ab(2)] norm mult_1_right)
  finally show ?thesis by simp
qed

lemma update_cols_nth:
  assumes E: "exact F H" and row: "length row = n" and "k \<le> n" and v: "length v = n - k"
  defines "w \<equiv> \<lambda>c. if k \<le> c then v ! (c - k) else 0"
  shows "rank1_householder_update_cols F k v [row] = [map (\<lambda>c. row ! c - 2 * (\<Sum>c<n. row ! c * w c) * w c) [0..<n]]"
proof -
  have "fold (\<lambda>(x, vc) acc. acc + x * vc) (zip (drop k row) v) 0 = (\<Sum>j<n - k. row ! (k + j) * v ! j)"
    using row v assms(3) by (simp add: fold_sum_pair sum_list_zip)
  also have "\<dots> = (\<Sum>c<n. row ! c * w c)" using sum_split [of "\<lambda>c. row ! c * w c" k "n - k"] assms(3) by (simp add: w_def)
  finally have dot: "fold (\<lambda>(x, vc) acc. acc + x * vc) (zip (drop k row) v) 0 = (\<Sum>c<n. row ! c * w c)" .
  let ?p = "\<Sum>c<n. row ! c * w c"
  have "take k row @ map2 (\<lambda>r vc. r - 2 * ?p * vc) (drop k row) v = map (\<lambda>c. row ! c - 2 * ?p * w c) [0..<n]"
    using row v assms(3) by (intro nth_equalityI) (auto simp: nth_append w_def)
  moreover have "row = map (\<lambda>c. row ! c - 2 * ?p * w c) [0..<n]" if "?p = 0"
    using row that by (intro nth_equalityI) simp_all
  ultimately show ?thesis
    by (auto simp: rank1_householder_update_cols_def Let_def f_is_zero_def exactD [OF E] dot)
qed

lemma update_cols_map: "rank1_householder_update_cols F k v q = concat (map (\<lambda>row. rank1_householder_update_cols F k v [row]) q)"
  by (induction q) (simp_all add: rank1_householder_update_cols_def)

lemma update_cols_orth:
  assumes E: "exact F H" and q: "orth n q" and "k < n" and v: "length v = n - k" and unit: "(\<Sum>j<n - k. v ! j * v ! j) = 1"
  shows "orth n (rank1_householder_update_cols F k v q)"
proof -
  define w where "w = (\<lambda>c. if k \<le> c then v ! (c - k) else 0)"
  define q' where "q' = rank1_householder_update_cols F k v q"
  have w: "(\<Sum>c<n. w c * w c) = 1" using sum_split [of "\<lambda>c. w c * w c" k "n - k"] assms(3) unit by (simp add: w_def)
  have m: "mat n n q" using q by (simp add: orth_def)
  have len: "length q = n" using m by (simp add: mat_def)
  have row: "rank1_householder_update_cols F k v [row] = [map (\<lambda>c. row ! c - 2 * (\<Sum>c<n. row ! c * w c) * w c) [0..<n]]"
    if "row \<in> set q" for row
    unfolding w_def by (rule update_cols_nth [OF E _ _ v]) (use that m assms(3) in \<open>simp_all add: mat_def\<close>)
  have q': "q' = map (\<lambda>row. map (\<lambda>c. row ! c - 2 * (\<Sum>c<n. row ! c * w c) * w c) [0..<n]) q"
    unfolding q'_def by (subst update_cols_map) (simp add: row concat_map_singleton cong: map_cong)
  have nth: "q' ! r ! c = q ! r ! c - 2 * (\<Sum>c<n. q ! r ! c * w c) * w c" if "r < n" "c < n" for r c
    using that len by (simp add: q')
  have old: "(\<Sum>r<n. q ! r ! a * q ! r ! b) = of_bool (a = b)" if "a < n" "b < n" for a b
    using q that unfolding orth_def by blast
  have "(\<Sum>r<n. q' ! r ! a * q' ! r ! b) = of_bool (a = b)" if ab: "a < n" "b < n" for a b
  proof -
    have "(\<Sum>r<n. q' ! r ! a * q' ! r ! b) =
        (\<Sum>r<n. (q ! r ! a - 2 * (\<Sum>c<n. q ! r ! c * w c) * w a) * (q ! r ! b - 2 * (\<Sum>c<n. q ! r ! c * w c) * w b))"
      by (rule sum.cong) (simp_all only: nth ab lessThan_iff)
    also have "\<dots> = of_bool (a = b)" by (rule reflection_orth [OF old w ab])
    finally show ?thesis .
  qed
  moreover have "mat n n q'" using len by (simp add: q' mat_def)
  ultimately show ?thesis unfolding orth_def q'_def by blast
qed

lemma unit_vector:
  fixes f :: "nat \<Rightarrow> real"
  assumes "vn = sqrt (v0 * v0 + (\<Sum>i\<leftarrow>is. f i * f i))" and "0 < vn"
  shows "(\<Sum>x\<leftarrow>v0 / vn # map (\<lambda>i. f i / vn) is. x * x) = 1"
proof -
  have "0 \<le> (\<Sum>i\<leftarrow>is. f i * f i)" by (rule sum_list_nonneg) auto
  then have vn2: "v0 * v0 + (\<Sum>i\<leftarrow>is. f i * f i) = vn * vn" using assms(1) by simp
  have "(\<Sum>x\<leftarrow>map (\<lambda>i. f i / vn) is. x * x) = (\<Sum>i\<leftarrow>is. f i * f i) / (vn * vn)"
    by (induction "is") (simp_all add: add_divide_distrib)
  then have "(\<Sum>x\<leftarrow>v0 / vn # map (\<lambda>i. f i / vn) is. x * x) = (v0 * v0 + (\<Sum>i\<leftarrow>is. f i * f i)) / (vn * vn)"
    by (simp add: add_divide_distrib)
  then show ?thesis using assms(2) unfolding vn2 by simp
qed

lemma householder_orth:
  assumes E: "exact F H" and q: "orth n q" and "k < n"
  shows "orth n (snd (householder_step F H n k (a, q)))"
proof -
  define v0 where "v0 = a ! k ! k - (- (if 0 \<le> a ! k ! k then 1 else - 1)) * sqrt (\<Sum>i\<leftarrow>[k..<n]. a ! i ! k * a ! i ! k)"
  define vn where "vn = sqrt (v0 * v0 + (\<Sum>i\<leftarrow>[k + 1..<n]. a ! i ! k * a ! i ! k))"
  define v where "v = v0 / vn # map (\<lambda>i. a ! i ! k / vn) [k + 1..<n]"
  have "snd (householder_step F H n k (a, q)) =
      (if sqrt (\<Sum>i\<leftarrow>[k..<n]. a ! i ! k * a ! i ! k) < f_of_bits H tiny_bits then q
       else if vn < f_of_bits H tiny_bits then q else rank1_householder_update_cols F k v q)"
    by (simp only: householder_step_def Let_def exactD [OF E] fold_sum prod.case if_distrib [of snd] snd_conv v0_def vn_def v_def
        of_int_0 of_int_1 of_int_minus add_0)
  then have step: "snd (householder_step F H n k (a, q)) = q \<or>
      0 < vn \<and> snd (householder_step F H n k (a, q)) = rank1_householder_update_cols F k v q"
    using exactD(15) [OF E] by (auto split: if_splits)
  have v: "length v = n - k" using assms(3) by (simp add: v_def)
  have "(\<Sum>j<n - k. v ! j * v ! j) = (\<Sum>x\<leftarrow>v. x * x)" using v by (simp add: sum_list_sum_nth atLeast0LessThan)
  also have "\<dots> = 1" if "0 < vn" unfolding v_def by (rule unit_vector [OF vn_def that])
  finally show ?thesis using step update_cols_orth [OF E q assms(3) v] q by auto
qed

lemma eye_orth: "exact F H \<Longrightarrow> orth n (eye F n)"
  by (simp add: orth_def eye_def exactD mat_def of_bool_def if_distrib [of "\<lambda>x. x * _"] cong: if_cong)

lemma flip_orth:
  assumes E: "exact F H" and q: "orth n q" and "i < n"
  shows "orth n (map (\<lambda>row. row[i := f_neg F (row ! i)]) q)"
proof -
  have m: "mat n n q" using q by (simp add: orth_def)
  have len: "length q = n" using m by (simp add: mat_def)
  let ?s = "\<lambda>c. if c = i then - 1 else 1 :: real"
  have nth: "map (\<lambda>row. row[i := f_neg F (row ! i)]) q ! r ! c = ?s c * q ! r ! c" if "r < n" "c < n" for r c
    using that len mat_nth [OF m that(1)] assms(3) by (simp add: exactD [OF E])
  have "(\<Sum>r<n. (?s a * q ! r ! a) * (?s b * q ! r ! b)) = of_bool (a = b)" if ab: "a < n" "b < n" for a b
  proof -
    have "(\<Sum>r<n. (?s a * q ! r ! a) * (?s b * q ! r ! b)) = (?s a * ?s b) * (\<Sum>r<n. q ! r ! a * q ! r ! b)"
      unfolding sum_distrib_left by (rule sum.cong) (simp_all add: mult_ac)
    then show ?thesis using q ab by (simp add: orth_def)
  qed
  then have "(\<Sum>r<n. map (\<lambda>row. row[i := f_neg F (row ! i)]) q ! r ! a * map (\<lambda>row. row[i := f_neg F (row ! i)]) q ! r ! b) = of_bool (a = b)"
    if ab: "a < n" "b < n" for a b
  proof -
    have "(\<Sum>r<n. map (\<lambda>row. row[i := f_neg F (row ! i)]) q ! r ! a * map (\<lambda>row. row[i := f_neg F (row ! i)]) q ! r ! b) =
        (\<Sum>r<n. (?s a * q ! r ! a) * (?s b * q ! r ! b))"
      by (rule sum.cong) (simp_all only: nth ab lessThan_iff)
    then show ?thesis using \<open>\<And>a b. a < n \<Longrightarrow> b < n \<Longrightarrow> (\<Sum>r<n. (?s a * q ! r ! a) * (?s b * q ! r ! b)) = of_bool (a = b)\<close> [OF ab] by simp
  qed
  moreover have "mat n n (map (\<lambda>row. row[i := f_neg F (row ! i)]) q)" using m by (auto simp: mat_def)
  ultimately show ?thesis unfolding orth_def by blast
qed

theorem sample_haar_orth:
  assumes E: "exact F H"
  shows "orth n (fst (sample_haar_orthogonal F H L n g))"
proof -
  have steps: "set ks \<subseteq> {..<n} \<Longrightarrow> orth n q \<Longrightarrow> orth n (snd (fold (householder_step F H n) ks (a, q)))" for ks a q
  proof (induction ks arbitrary: a q)
    case (Cons k ks)
    obtain a' q' where aq: "householder_step F H n k (a, q) = (a', q')" by fastforce
    have "orth n q'" using householder_orth [OF E Cons.prems(2), of k a] Cons.prems(1) aq by simp
    then show ?case using Cons.IH [of q' a'] Cons.prems(1) aq by simp
  qed simp
  have flips: "set is \<subseteq> {..<n} \<Longrightarrow> orth n q \<Longrightarrow>
      orth n (fold (\<lambda>i q. if f_lt F (a ! i ! i) (f_lit F 0) then map (\<lambda>row. row[i := f_neg F (row ! i)]) q else q) is q)" for "is" a q
    by (induction "is" arbitrary: q) (simp_all add: flip_orth [OF E])
  obtain xs g' where xs: "draws (gl_normal L) (n * n) g = (xs, g')" by fastforce
  obtain a q where aq: "fold (householder_step F H n) [0..<n - 1] (rows_of n n xs, eye F n) = (a, q)" by fastforce
  have "set [0..<n - 1] \<subseteq> {..<n}" by auto
  then have "orth n q" using steps [OF _ eye_orth [OF E], of "[0..<n - 1]" "rows_of n n xs"] aq by simp
  then show ?thesis using flips [of "[0..<n]" q a] by (simp add: sample_haar_orthogonal_def xs aq flip_columns_def atLeast0LessThan del: One_nat_def)
qed

section \<open>Fresh masks\<close>

lemma orth_inverse:
  assumes q: "orth n q" and x: "length x = n"
  shows "matvec n (\<lambda>i k. q ! k ! i) (matvec n (\<lambda>i k. q ! i ! k) x) = x"
proof (rule nth_equalityI)
  fix i assume "i < length (matvec n (\<lambda>i k. q ! k ! i) (matvec n (\<lambda>i k. q ! i ! k) x))"
  then have i: "i < n" by simp
  have "(\<Sum>k<n. q ! k ! i * (\<Sum>l<n. q ! k ! l * x ! l)) = (\<Sum>l<n. (\<Sum>k<n. q ! k ! i * q ! k ! l) * x ! l)"
    unfolding sum_distrib_left sum_distrib_right by (subst sum.swap) (simp add: mult.assoc)
  also have "\<dots> = (\<Sum>l<n. of_bool (i = l) * x ! l)" using q i by (intro sum.cong) (simp_all add: orth_def)
  also have "\<dots> = x ! i" using i by (simp add: of_bool_def if_distrib [of "\<lambda>x. x * _"] cong: if_cong)
  finally show "matvec n (\<lambda>i k. q ! k ! i) (matvec n (\<lambda>i k. q ! i ! k) x) ! i = x ! i"
    using i by (simp add: matvec_def)
qed (use x in simp)

text \<open>What the libraries compute, in exact arithmetic.\<close>

definition lib_ok :: "(real, 'g, 'h) gelo_lib \<Rightarrow> bool" where
  "lib_ok L \<longleftrightarrow> dct_law (gl_dct4 L) \<and>
     (\<forall>n d a b. mat n n a \<longrightarrow> mat n d b \<longrightarrow> gl_sgemm L False a (d, b) = colwise n d (matvec n (\<lambda>i k. a ! i ! k)) b \<and>
        gl_sgemm L True a (d, b) = colwise n d (matvec n (\<lambda>i k. a ! k ! i)) b) \<and>
     (\<forall>xs ys. length xs = length ys \<longrightarrow> gl_dot L xs ys = (\<Sum>j<length xs. xs ! j * ys ! j)) \<and>
     (\<forall>xs g. set (fst (gl_shuffle L xs g)) = set xs \<and> length (fst (gl_shuffle L xs g)) = length xs) \<and> (\<forall>g. 0 < fst (gl_scalar L g)) \<and> gl_exp L = exp \<and>
     (\<forall>n d p X W. mat n d X \<longrightarrow> mat d p W \<longrightarrow> gl_mm L (d, X) (p, W) = matmul p X W)"

fun family_ok :: "real mask_family \<Rightarrow> bool" where
  "family_ok (Haar m) \<longleftrightarrow> orth (length (gm_a m)) (gm_a m) \<and> gm_a_bf16 m = None"
| "family_ok (Hd3 m) \<longleftrightarrow> hd3_ok m"
| "family_ok (Dct4 m) \<longleftrightarrow> dct4_ok m"

theorem family_masking:
  assumes E: "exact F H" and L: "lib_ok L" and ok: "family_ok M"
  shows "\<exists>ap un. masking (family_n M) ap un \<and>
    (\<forall>d m. mat (family_n M) d m \<longrightarrow> family_apply F L M d m = Inr (ap d m) \<and> family_unapply F L M d m = Inr (un d m))"
proof (cases M)
  case (Haar m)
  let ?n = "length (gm_a m)"
  let ?T = "matvec ?n (\<lambda>i k. gm_a m ! i ! k)" and ?T' = "matvec ?n (\<lambda>i k. gm_a m ! k ! i)"
  have orth: "orth ?n (gm_a m)" and f32: "gm_a_bf16 m = None" using ok Haar by simp_all
  have "masking ?n (\<lambda>d. colwise ?n d ?T) (\<lambda>d. colwise ?n d ?T')"
    unfolding masking_def using orth_inverse [OF orth] by (intro exI [of _ ?T] exI [of _ ?T']) (auto simp: linear_on_def)
  moreover have "family_apply F L M d b = Inr (colwise ?n d ?T b) \<and> family_unapply F L M d b = Inr (colwise ?n d ?T' b)"
    if "mat ?n d b" for d b
    using that L orth f32 by (simp add: Haar gelo_apply_def gelo_unapply_def gelo_product_def lib_ok_def orth_def, simp add: mat_def)
  ultimately show ?thesis using Haar by auto
next
  case (Hd3 m)
  then show ?thesis using hd3_masking [OF E, of m "gl_cpu L"] ok
    by (intro exI conjI) (auto simp: hd3_apply_def hd3_unapply_def mat_def)
next
  case (Dct4 m)
  then show ?thesis using dct4_masking [OF E, of "gl_dct4 L" m] ok L
    by (intro exI conjI) (auto simp: dct4_apply_def dct4_unapply_def mat_def lib_ok_def)
qed

lemma length_sign_bits [simp]: "length (sign_bits F k b) = k"
  by (induction F k b rule: sign_bits.induct) simp_all

lemma sign_bits_signs: "exact F H \<Longrightarrow> x \<in> set (sign_bits F k b) \<Longrightarrow> x = 1 \<or> x = - 1"
  by (induction F k b rule: sign_bits.induct) (auto simp: exactD split: if_splits)

lemma sample_diag_signs: "exact F H \<Longrightarrow> signs n (fst (sample_diag F next n g))"
proof (induction F "next" n g rule: sample_diag.induct)
  case (1 F "next" n g)
  show ?case
  proof (cases "n = 0")
    case False
    obtain bits g1 where b: "next g = (bits, g1)" by fastforce
    obtain rest g2 where r: "sample_diag F next (n - min n 32) g1 = (rest, g2)" by fastforce
    have rest: "signs (n - min n 32) rest" using "1.IH" [OF False b [symmetric] refl refl "1.prems"] r by simp
    have head: "y = 1 \<or> y = - 1" if "y \<in> set (sign_bits F (min n 32) bits)" for y using sign_bits_signs [OF "1.prems" that] .
    have "y = 1 \<or> y = - 1" if "y \<in> set rest" for y using rest that by (auto simp: signs_def in_set_conv_nth)
    then have "\<forall>y \<in> set (sign_bits F (min n 32) bits @ rest). y = 1 \<or> y = - 1" using head by auto
    moreover have "length (sign_bits F (min n 32) bits @ rest) = n" using rest by (simp add: signs_def)
    moreover have "fst (sample_diag F next n g) = sign_bits F (min n 32) bits @ rest"
      using False b r by (subst sample_diag.simps) (simp add: Let_def)
    ultimately show ?thesis by (metis nth_mem signs_def)
  qed (simp add: signs_def sample_diag.simps)
qed

lemma sample_diags_signs:
  assumes "exact F H" and "sample_diags F next n g = ((d1, d2, d3), g')"
  shows "signs n d1" "signs n d2" "signs n d3"
  using assms sample_diag_signs [OF assms(1), of n "next"]
  by (auto simp: sample_diags_def Let_def split: prod.splits) (metis fst_conv)+

lemma hd3_fresh_ok:
  assumes E: "exact F H" and "is_power_of_two n"
  shows "\<exists>M g'. hd3_fresh F H next n g = (Inr M, g') \<and> hd_n M = n \<and> hd3_ok M"
proof -
  obtain d1 d2 d3 g' where d: "sample_diags F next n g = ((d1, d2, d3), g')" by (metis prod_cases4 prod.collapse)
  have "\<exists>k. n = 2 ^ k" using assms(2) unfolding is_power_of_two_def by metis
  then show ?thesis
    using assms(2) sample_diags_signs [OF E d] d
    by (simp add: hd3_fresh_def eseq_def ebind_def eassert_def ereturn_def hd3_ok_def exactD [OF E])
qed

lemma dct4_fresh_ok:
  assumes E: "exact F H" and "0 < n"
  shows "\<exists>M g'. dct4_fresh F H next n g = (Inr M, g') \<and> dc_n M = n \<and> dct4_ok M"
proof -
  obtain d1 d2 d3 g' where d: "sample_diags F next n g = ((d1, d2, d3), g')" by (metis prod_cases4 prod.collapse)
  show ?thesis
    using assms(2) sample_diags_signs [OF E d] d
    by (simp add: dct4_fresh_def eseq_def ebind_def eassert_def ereturn_def dct4_ok_def exactD [OF E])
qed

lemma gelo_fresh_ok:
  assumes "exact F H"
  shows "family_ok (Haar (fst (gelo_fresh F H L n g)))" "length (gm_a (fst (gelo_fresh F H L n g))) = n"
proof -
  have "orth n (fst (sample_haar_orthogonal F H L n g))" by (rule sample_haar_orth [OF assms])
  moreover from this have "length (fst (sample_haar_orthogonal F H L n g)) = n" by (simp add: orth_def mat_def)
  ultimately show "family_ok (Haar (fst (gelo_fresh F H L n g)))" "length (gm_a (fst (gelo_fresh F H L n g))) = n"
    by (auto simp: gelo_fresh_def split: prod.splits)
qed

end
