(* ===== verification/Gelo_Attention_Correct.thy ===== *)
theory Gelo_Attention_Correct
  imports Gelo_Attention Gelo_Mask_Correct
begin

text \<open>
  In exact arithmetic an engine that multiplies what it is given passes every integrity probe, the
  outsourced product comes back as the product of queries and keys, and the permuted attention
  as the attention, whatever the generator drew.
\<close>

section \<open>The probe accepts a product\<close>

lemma length_draws [simp]: "length (fst (draws f n g)) = n"
  by (induction f n g rule: draws.induct) (simp_all add: Let_def split: prod.splits, metis fst_conv)

lemma length_draws_eq: "draws f n g = (xs, g') \<Longrightarrow> length xs = n"
  using length_draws [of f n g] by simp

lemma mat_rows_of: "length xs = n * d \<Longrightarrow> mat n d (rows_of d n xs)"
proof -
  assume len: "length xs = n * d"
  have "d \<le> n * d - i * d" if "i < n" for i using mult_le_mono1 [of "Suc i" n d] that by simp
  then have "min (n * d - i * d) d = d" if "i < n" for i using that by (simp add: min_absorb2)
  then show ?thesis using len by (auto simp: mat_def rows_of_def)
qed

lemma freivalds:
  fixes A B :: "real list list"
  assumes L: "lib_ok L" and A: "mat m k A" and B: "mat k p B" and r: "length r = p" and i: "i < m"
  shows "map (\<lambda>row. gl_dot L row (map (\<lambda>row. gl_dot L row r) B)) A ! i = map (\<lambda>row. gl_dot L row r) (matmul p A B) ! i"
proof -
  have dot: "length xs = length ys \<Longrightarrow> gl_dot L xs ys = (\<Sum>j<length xs. xs ! j * ys ! j)" for xs ys using L by (simp add: lib_ok_def)
  have len: "length A = m" "length B = k" "length (matmul p A B) = m" using A B by (simp_all add: mat_def matmul_def)
  have Z: "mat m p (matmul p A B)" using A by simp
  have br: "gl_dot L (B ! j) r = (\<Sum>l<p. B ! j ! l * r ! l)" if "j < k" for j
    using that len r mat_nth [OF B that] by (simp add: dot)
  have "map (\<lambda>row. gl_dot L row (map (\<lambda>row. gl_dot L row r) B)) A ! i = (\<Sum>j<k. A ! i ! j * (\<Sum>l<p. B ! j ! l * r ! l))"
    using i len mat_nth [OF A i] by (simp add: dot br cong: sum.cong_simp)
  also have "\<dots> = (\<Sum>l<p. (\<Sum>j<k. A ! i ! j * B ! j ! l) * r ! l)"
    unfolding sum_distrib_left sum_distrib_right by (subst sum.swap) (simp add: mult.assoc)
  also have "\<dots> = map (\<lambda>row. gl_dot L row r) (matmul p A B) ! i"
    using i len r mat_nth [OF Z i] by (simp add: dot nth_matmul)
  finally show ?thesis .
qed

lemma probe_row_refl:
  assumes E: "exact F H"
  shows "probe_row_ok F H bound x x"
proof -
  let ?f = "f_of_bits H abs_floor_bits"
  have f: "0 < ?f" by (rule exactD(16) [OF E])
  then have "0 \<le> ?f * max (max \<bar>x\<bar> \<bar>x\<bar>) 1" by (intro mult_nonneg_nonneg) simp_all
  then have "0 \<le> max bound ?f + ?f * max (max \<bar>x\<bar> \<bar>x\<bar>) 1" using f by linarith
  then show ?thesis by (simp add: probe_row_ok_def Let_def exactD [OF E])
qed

lemma verify_probes_accepts:
  assumes E: "exact F H" and L: "lib_ok L" and A: "mat m k A" and B: "mat k p B"
  shows "fst (verify_probes_from F H L bound idx n (k, A) (p, B) (p, matmul p A B) g) = Inr ()"
proof (induction n arbitrary: idx g)
  case (Suc n)
  obtain coeffs g' where c: "draws (gl_probe L) p g = (coeffs, g')" by fastforce
  then have r: "length (map (f_lit F) coeffs) = p" using length_draws_eq by auto
  let ?e = "map (\<lambda>row. gl_dot L row (map (\<lambda>row. gl_dot L row (map (f_lit F) coeffs)) B)) A"
  let ?o = "map (\<lambda>row. gl_dot L row (map (f_lit F) coeffs)) (matmul p A B)"
  have "length A = m" using A by (simp add: mat_def)
  then have "probe_row_ok F H bound (?e ! i) (?o ! i)" if "i < length A" for i
    using freivalds [OF L A B r, of i] that probe_row_refl [OF E] by metis
  then have none: "find (\<lambda>i. \<not> probe_row_ok F H bound (?e ! i) (?o ! i)) [0..<length A] = None" by (auto simp: find_None_iff)
  show ?case unfolding verify_probes_from.simps Let_def fst_conv snd_conv c prod.case none option.case by (rule Suc.IH)
qed simp

lemma verify_accepts:
  assumes E: "exact F H" and L: "lib_ok L" and A: "mat m k A" and B: "mat k p B"
  shows "fst (verify_offload F H L n (k, A) (p, B) (p, matmul p A B) g) = Inr ()"
proof -
  have "length A = m" "length B = k" "length (matmul p A B) = m" using A B by (simp_all add: mat_def matmul_def)
  then show ?thesis using verify_probes_accepts [OF E L A B] by (simp add: verify_offload_def Let_def)
qed

section \<open>An honest engine\<close>

definition mats :: "nat \<Rightarrow> nat \<Rightarrow> 'a list list list \<Rightarrow> bool" where
  "mats n d ms \<longleftrightarrow> (\<forall>m \<in> set ms. mat n d m)"

definition weight_product :: "nat \<times> real list list \<Rightarrow> real list list \<Rightarrow> real array2" where
  "weight_product w X = (fst w, matmul (fst w) X (snd w))"

text \<open>The engine multiplies, and no call but a registration changes its weights.\<close>

locale offload_engine =
  fixes E :: "(real, 'v) engine_ops" and weights_of :: "'v \<Rightarrow> real weights"
  assumes run_linear: "\<lbrakk>\<forall>h \<in> set hs. \<exists>p W. weights_of v h = Some (p, W) \<and> mat d p W; mat n d X\<rbrakk> \<Longrightarrow>
      \<exists>v'. en_run_registered_linear E hs (d, X) v = (Inr (map (\<lambda>h. weight_product (the (weights_of v h)) X) hs), v') \<and> weights_of v' = weights_of v"
    and dynamic: "\<lbrakk>mat m k A; mat k n B\<rbrakk> \<Longrightarrow> \<exists>v'. en_matmul_dynamic E (k, A) (n, B) v = (Inr (n, matmul n A B), v') \<and> weights_of v' = weights_of v"
    and runtime: "\<lbrakk>mats m k As; mats k n Bs; length As = length Bs\<rbrakk> \<Longrightarrow>
      \<exists>v'. en_run_runtime_matmul E (m, k, As) (k, n, Bs) v = (Inr (m, n, map2 (matmul n) As Bs), v') \<and> weights_of v' = weights_of v"
    and register: "mat d p W \<Longrightarrow> \<exists>v'. en_register E h (p, W) v = (Inr (), v') \<and> weights_of v' = (weights_of v)(h \<mapsto> (p, W))"

lemma reference_runtime:
  assumes L: "lib_ok L" and "mats m k As" and "mats k n Bs" and "length As = length Bs"
  shows "default_matmul_dynamic_batched (reference_matmul_dynamic L) (m, k, As) (k, n, Bs) v = (Inr (m, n, map2 (matmul n) As Bs), v)"
proof -
  have mm: "\<forall>n d p X W. mat n d X \<longrightarrow> mat d p W \<longrightarrow> gl_mm L (d, X) (p, W) = matmul p X W" using L by (simp add: lib_ok_def)
  have "emap (\<lambda>(l, r). ebind (reference_matmul_dynamic L (k, l) (n, r)) (\<lambda>z.
      eseq (eassert (length (snd z) = m \<and> fst z = n)) (ereturn (snd z)))) (zip As Bs) v = (Inr (map2 (matmul n) As Bs), v)"
    using assms(4,2,3)
  proof (induction As Bs rule: list_induct2)
    case (Cons A As B Bs)
    then have A: "mat m k A" and B: "mat k n B" by (simp_all add: mats_def)
    then have "length B = k" "length A = m" by (simp_all add: mat_def)
    moreover have "gl_mm L (k, A) (n, B) = matmul n A B" using mm A B by blast
    ultimately show ?case using Cons by (simp add: reference_matmul_dynamic_def eff_simps mats_def matmul_def)
  qed (simp add: eff_simps)
  then show ?thesis using assms(4) by (simp add: default_matmul_dynamic_batched_def ebind_def ereturn_def)
qed

theorem reference_honest:
  assumes L: "lib_ok L"
  shows "offload_engine (reference_engine F L widen) (\<lambda>ws. ws)"
proof
  have mm: "\<forall>n d p X W. mat n d X \<longrightarrow> mat d p W \<longrightarrow> gl_mm L (d, X) (p, W) = matmul p X W" using L by (simp add: lib_ok_def)
  fix hs :: "weight_handle list" and v :: "real weights" and d n :: nat and X :: "real list list"
  assume W: "\<forall>h \<in> set hs. \<exists>p W. v h = Some (p, W) \<and> mat d p W" and X: "mat n d X"
  have "reference_matmul L h (d, X) v = (Inr (weight_product (the (v h)) X), v)" if h: "h \<in> set hs" for h
  proof -
    obtain p W where pW: "v h = Some (p, W)" "mat d p W" using W h by blast
    moreover from this have "length W = d" by (simp add: mat_def)
    moreover have "gl_mm L (d, X) (p, W) = matmul p X W" using mm X pW(2) by blast
    ultimately show ?thesis by (simp add: reference_matmul_def eff_simps weight_product_def)
  qed
  then have "emap (\<lambda>h. reference_matmul L h (d, X)) hs v = (Inr (map (\<lambda>h. weight_product (the (v h)) X) hs), v)"
    by (induction hs) (simp_all add: eff_simps)
  then show "\<exists>v'. en_run_registered_linear (reference_engine F L widen) hs (d, X) v = (Inr (map (\<lambda>h. weight_product (the (v h)) X) hs), v') \<and> v' = v"
    by (simp add: reference_engine_def default_run_registered_linear_def default_matmul_many_def ereturn_def)
next
  fix m k n :: nat and A B :: "real list list" and v :: "real weights"
  assume "mat m k A" "mat k n B"
  moreover from this L have "gl_mm L (k, A) (n, B) = matmul n A B" unfolding lib_ok_def by blast
  moreover have "length B = k" using calculation(2) by (simp add: mat_def)
  ultimately show "\<exists>v'. en_matmul_dynamic (reference_engine F L widen) (k, A) (n, B) v = (Inr (n, matmul n A B), v') \<and> v' = v"
    by (simp add: reference_engine_def reference_matmul_dynamic_def ereturn_def)
qed (use reference_runtime [OF L] in \<open>simp_all add: reference_engine_def reference_register_def emodify_def\<close>)

section \<open>Permutations\<close>

definition perm :: "nat \<Rightarrow> nat list \<Rightarrow> bool" where
  "perm n ps \<longleftrightarrow> length ps = n \<and> set ps = {..<n}"

lemma perm_distinct: "perm n ps \<Longrightarrow> distinct ps"
  by (simp add: perm_def card_distinct)

lemma perm_less: "perm n ps \<Longrightarrow> i < n \<Longrightarrow> ps ! i < n"
  unfolding perm_def by (metis lessThan_iff nth_mem)

lemma shuffle_perm: "lib_ok L \<Longrightarrow> perm n (fst (gl_shuffle L [0..<n] g))"
  by (simp add: lib_ok_def perm_def atLeast0LessThan)

lemma perm_index: "perm n ps \<Longrightarrow> k < n \<Longrightarrow> \<exists>i < n. ps ! i = k"
  unfolding perm_def by (metis in_set_conv_nth lessThan_iff)

lemma perm_sum:
  assumes "perm n ps"
  shows "(\<Sum>j<n. f (ps ! j)) = (\<Sum>l<n. f l :: real)"
proof -
  have "bij_betw (nth ps) {..<n} {..<n}"
    by (rule bij_betw_nth [OF perm_distinct [OF assms]]) (use assms in \<open>simp_all add: perm_def\<close>)
  then show ?thesis using sum.reindex_bij_betw [of "nth ps" "{..<n}" "{..<n}" f] by blast
qed

lemma nth_scatter:
  assumes ps: "perm n ps" and i: "i < n" and k: "k \<le> n" and len: "length out = n"
  shows "fold (\<lambda>i out. out[ps ! i := f i]) [0..<k] out ! (ps ! i) = (if i < k then f i else out ! (ps ! i))
    \<and> length (fold (\<lambda>i out. out[ps ! i := f i]) [0..<k] out) = n"
  using k
proof (induction k)
  case (Suc k)
  then have k: "k < n" by simp
  have eq: "ps ! k = ps ! i \<longleftrightarrow> k = i" using perm_distinct [OF ps] ps k i by (simp add: perm_def nth_eq_iff_index_eq)
  let ?out = "fold (\<lambda>i out. out[ps ! i := f i]) [0..<k] out"
  have IH: "?out ! (ps ! i) = (if i < k then f i else out ! (ps ! i))" "length ?out = n" using Suc.IH k by simp_all
  have "fold (\<lambda>i out. out[ps ! i := f i]) [0..<Suc k] out = ?out[ps ! k := f k]" by simp
  then show ?case using IH eq perm_less [OF ps k] by (cases "i = k") simp_all
qed (use len in simp)

lemma inverse_of_nth:
  assumes ps: "perm n ps" and k: "k < n"
  shows "inverse_of ps ! k < n" "ps ! (inverse_of ps ! k) = k"
proof -
  obtain i where i: "i < n" "ps ! i = k" using perm_index [OF ps k] by blast
  have len: "length ps = n" using ps by (simp add: perm_def)
  have "inverse_of ps ! (ps ! i) = i"
    using nth_scatter [OF ps i(1) le_refl, of "replicate n 0" "\<lambda>i. i"] i(1) by (simp add: inverse_of_def len)
  then show "inverse_of ps ! k < n" "ps ! (inverse_of ps ! k) = k" using i by simp_all
qed

lemma unpermute_nth:
  assumes "perm n ps" and "i < n"
  shows "unpermute F d ps m ! (ps ! i) = m ! i" and "length (unpermute F d ps m) = n"
proof -
  have len: "length ps = n" using assms(1) by (simp add: perm_def)
  have "length (zeros F n d) = n" by (simp add: zeros_def)
  then show "unpermute F d ps m ! (ps ! i) = m ! i" and "length (unpermute F d ps m) = n"
    using nth_scatter [OF assms le_refl, of "zeros F n d" "nth m"] assms(2) by (simp_all add: unpermute_def len)
qed

section \<open>The outsourced product\<close>

lemma nth_ew: "mat n d a \<Longrightarrow> mat n d b \<Longrightarrow> i < n \<Longrightarrow> c < d \<Longrightarrow> ew f a b ! i ! c = f (a ! i ! c) (b ! i ! c)"
  by (simp add: mat_def ew_def)

lemma mat_ew [simp]: "mat n d a \<Longrightarrow> mat n d b \<Longrightarrow> mat n d (ew f a b)"
  by (auto simp: mat_def ew_def in_set_zip)

lemma mat_map [simp]: "mat n d a \<Longrightarrow> mat n d (map (map f) a)"
  by (simp add: mat_def)

lemma nth_map_map: "mat n d a \<Longrightarrow> i < n \<Longrightarrow> c < d \<Longrightarrow> map (map f) a ! i ! c = f (a ! i ! c)"
  by (simp add: mat_def)

lemma mat_length: "mat n d m \<Longrightarrow> length m = n"
  by (simp add: mat_def)

lemma sample_normal_mat: "mat n d (fst (sample_normal F L n d sigma g))"
proof -
  obtain zs g' where z: "draws (gl_normal L) (n * d) g = (zs, g')" by fastforce
  then show ?thesis using mat_rows_of [of "map (\<lambda>z. f_mul F z sigma) zs" n d] length_draws_eq [OF z] by (simp add: sample_normal_def)
qed

lemma sample_scalar_nonzero: "exact F H \<Longrightarrow> lib_ok L \<Longrightarrow> fst (sample_scalar F L g) \<noteq> 0"
  unfolding lib_ok_def by (auto simp: sample_scalar_def Let_def exactD split: prod.splits) (metis fst_conv less_irrefl)+

text \<open>What the setup yields: permuted stacks of the masked operands with the fillers.\<close>

definition out_attn_ok :: "nat \<Rightarrow> nat \<Rightarrow> real list list \<Rightarrow> real list list \<Rightarrow> real out_attn \<Rightarrow> bool" where
  "out_attn_ok n d q kt S \<longleftrightarrow> perm (2 * n) (oa_lambda_q S) \<and> perm (2 * n) (oa_lambda_k S) \<and> oa_a S \<noteq> 0 \<and> oa_b S \<noteq> 0 \<and>
     (\<exists>rq rk sq skt. mat n d rq \<and> mat d n rk \<and> mat (2 * n) d sq \<and> mat d (2 * n) skt \<and>
        oa_q S = permute_rows (oa_lambda_q S) sq \<and> oa_kt S = permute_cols (oa_lambda_k S) skt \<and>
        (\<forall>i < n. \<forall>c < d. sq ! i ! c = q ! i ! c + rq ! i ! c \<and> sq ! (n + i) ! c = rq ! i ! c * oa_a S) \<and>
        (\<forall>c < d. \<forall>j < n. skt ! c ! j = kt ! c ! j + rk ! c ! j \<and> skt ! c ! (n + j) = rk ! c ! j * oa_b S))"

lemma out_attn_setup_ok:
  assumes E: "exact F H" and L: "lib_ok L" and q: "mat n d q" and kt: "mat d n kt"
  shows "out_attn_ok n d q kt (fst (out_attn_setup F L n d q kt g))"
proof -
  obtain rq g1 where rq: "sample_normal F L n d 1 g = (rq, g1)" by fastforce
  obtain rk g2 where rk: "sample_normal F L d n 1 g1 = (rk, g2)" by fastforce
  obtain a g3 where a: "sample_scalar F L g2 = (a, g3)" by fastforce
  obtain b g4 where b: "sample_scalar F L g3 = (b, g4)" by fastforce
  obtain lq g5 where lq: "random_perm L (2 * n) g4 = (lq, g5)" by fastforce
  obtain lk g6 where lk: "random_perm L (2 * n) g5 = (lk, g6)" by fastforce
  define sq where "sq = ew (+) q rq @ map (map (\<lambda>x. x * a)) rq"
  define skt where "skt = map2 (@) (ew (+) kt rk) (map (map (\<lambda>x. x * b)) rk)"
  have m: "mat n d rq" "mat d n rk" using sample_normal_mat [of n d F L] sample_normal_mat [of d n F L] rq rk by (metis fst_conv)+
  note len = mat_length [OF q] mat_length [OF kt] mat_length [OF m(1)] mat_length [OF m(2)]
  have ewq: "mat n d (ew (+) q rq)" "mat d n (ew (+) kt rk)" using q kt m by simp_all
  note ewl = mat_length [OF ewq(1)] mat_length [OF ewq(2)]
  have "mat (2 * n) d sq" using mat_map [OF m(1), of "\<lambda>x. x * a"] ewq by (auto simp: sq_def mat_def)
  moreover have "mat d (2 * n) skt"
    using mat_map [OF m(2), of "\<lambda>x. x * b"] ewq(2) by (auto simp: skt_def mat_def in_set_zip)
  moreover have "sq ! i ! c = q ! i ! c + rq ! i ! c \<and> sq ! (n + i) ! c = rq ! i ! c * a" if "i < n" "c < d" for i c
    using that len ewl nth_ew [OF q m(1) that] mat_nth [OF m(1) that(1)] by (simp add: sq_def nth_append)
  moreover have "skt ! c ! j = kt ! c ! j + rk ! c ! j \<and> skt ! c ! (n + j) = rk ! c ! j * b" if "c < d" "j < n" for c j
    using that len ewl nth_ew [OF kt m(2) that] mat_nth [OF m(2) that(1)] mat_nth [OF ewq(2) that(1)] by (simp add: skt_def nth_append)
  moreover have "perm (2 * n) lq" "perm (2 * n) lk" using shuffle_perm [OF L, of "2 * n"] lq lk unfolding random_perm_def by (metis fst_conv)+
  moreover have "a \<noteq> 0" "b \<noteq> 0" using sample_scalar_nonzero [OF E L] a b by (metis fst_conv)+
  moreover have "fst (out_attn_setup F L n d q kt g) =
      \<lparr>oa_q = permute_rows lq sq, oa_kt = permute_cols lk skt, oa_lambda_q = lq, oa_lambda_k = lk, oa_a = a, oa_b = b\<rparr>"
    by (simp add: out_attn_setup_def rq rk a b lq lk sq_def skt_def exactD [OF E])
  ultimately show ?thesis using m by (simp only: out_attn_ok_def out_attn.simps) blast
qed

lemma mat_permute_rows: "perm n ps \<Longrightarrow> mat n d m \<Longrightarrow> mat n d (permute_rows ps m)"
  by (auto simp: mat_def permute_rows_def perm_def)

lemma mat_permute_cols: "perm n ps \<Longrightarrow> mat d n m \<Longrightarrow> mat d n (permute_cols ps m)"
  by (auto simp: mat_def permute_cols_def perm_def)

lemma out_attn_mats:
  assumes "out_attn_ok n d q kt S"
  shows "mat (2 * n) d (oa_q S)" "mat d (2 * n) (oa_kt S)"
  using assms mat_permute_rows mat_permute_cols unfolding out_attn_ok_def by metis+

lemma out_attn_recovers:
  assumes E: "exact F H" and ok: "out_attn_ok n d q kt S" and q: "mat n d q" and kt: "mat d n kt"
  shows "out_attn_recover F n S (matmul (2 * n) (oa_q S) (oa_kt S)) = matmul n q kt"
proof -
  let ?lq = "oa_lambda_q S" and ?lk = "oa_lambda_k S" and ?a = "oa_a S" and ?b = "oa_b S"
  obtain rq rk sq skt where S: "mat n d rq" "mat d n rk" "mat (2 * n) d sq" "mat d (2 * n) skt"
      "oa_q S = permute_rows ?lq sq" "oa_kt S = permute_cols ?lk skt"
      "\<And>i c. i < n \<Longrightarrow> c < d \<Longrightarrow> sq ! i ! c = q ! i ! c + rq ! i ! c \<and> sq ! (n + i) ! c = rq ! i ! c * ?a"
      "\<And>c j. c < d \<Longrightarrow> j < n \<Longrightarrow> skt ! c ! j = kt ! c ! j + rk ! c ! j \<and> skt ! c ! (n + j) = rk ! c ! j * ?b"
    using ok unfolding out_attn_ok_def by blast
  have p: "perm (2 * n) ?lq" "perm (2 * n) ?lk" and ab: "?a \<noteq> 0" "?b \<noteq> 0" using ok unfolding out_attn_ok_def by blast+
  have pl: "length ?lq = 2 * n" "length ?lk = 2 * n" using p by (simp_all add: perm_def)
  define P where "P = inverse_permute ?lq ?lk (matmul (2 * n) (oa_q S) (oa_kt S))"
  have P: "P ! i ! j = (\<Sum>c<d. sq ! i ! c * skt ! c ! j)" if ij: "i < 2 * n" "j < 2 * n" for i j
  proof -
    have inv: "inverse_of ?lq ! i < 2 * n" "inverse_of ?lk ! j < 2 * n" "?lq ! (inverse_of ?lq ! i) = i" "?lk ! (inverse_of ?lk ! j) = j"
      using inverse_of_nth [OF p(1) ij(1)] inverse_of_nth [OF p(2) ij(2)] by simp_all
    have "P ! i ! j = matmul (2 * n) (oa_q S) (oa_kt S) ! (inverse_of ?lq ! i) ! (inverse_of ?lk ! j)"
      using ij pl by (simp add: P_def inverse_permute_def)
    also have "\<dots> = (\<Sum>c<d. oa_q S ! (inverse_of ?lq ! i) ! c * oa_kt S ! c ! (inverse_of ?lk ! j))"
      using inv mat_length [OF out_attn_mats(1) [OF ok]] mat_length [OF out_attn_mats(2) [OF ok]] by (subst nth_matmul) simp_all
    also have "\<dots> = (\<Sum>c<d. sq ! i ! c * skt ! c ! j)"
      using inv pl mat_length [OF S(4)] by (intro sum.cong refl) (simp add: S(5,6) permute_rows_def permute_cols_def)
    finally show ?thesis .
  qed
  have Pm: "mat (2 * n) (2 * n) P" by (simp add: P_def inverse_permute_def mat_def pl)
  have parts: "mat n n (map (take n) (take n P))" "mat n n (map (drop n) (take n P))"
      "mat n n (map (take n) (drop n P))" "mat n n (map (drop n) (drop n P))"
    using Pm by (auto simp: mat_def dest: in_set_takeD in_set_dropD)
  have entry: "map (take n) (take n P) ! i ! j = P ! i ! j" "map (drop n) (take n P) ! i ! j = P ! i ! (n + j)"
      "map (take n) (drop n P) ! i ! j = P ! (n + i) ! j" "map (drop n) (drop n P) ! i ! j = P ! (n + i) ! (n + j)"
    if "i < n" "j < n" for i j using that mat_length [OF Pm] mat_nth [OF Pm] by simp_all
  define R where "R = ew (+) (ew (-) (ew (-) (map (take n) (take n P)) (map (map (\<lambda>x. x / ?b)) (map (drop n) (take n P))))
    (map (map (\<lambda>x. x / ?a)) (map (take n) (drop n P)))) (map (map (\<lambda>x. x / (?a * ?b))) (map (drop n) (drop n P)))"
  note m1 = mat_map [OF parts(2), of "\<lambda>x. x / ?b"] and m2 = mat_map [OF parts(3), of "\<lambda>x. x / ?a"] and m3 = mat_map [OF parts(4), of "\<lambda>x. x / (?a * ?b)"]
  note e1 = mat_ew [OF parts(1) m1, of "(-)"]
  note e2 = mat_ew [OF e1 m2, of "(-)"]
  have "R ! i ! j = matmul n q kt ! i ! j" if ij: "i < n" "j < n" for i j
  proof -
    have "R ! i ! j = P ! i ! j - P ! i ! (n + j) / ?b - P ! (n + i) ! j / ?a + P ! (n + i) ! (n + j) / (?a * ?b)"
      unfolding R_def nth_ew [OF e2 m3 ij] nth_ew [OF e1 m2 ij] nth_ew [OF parts(1) m1 ij]
        nth_map_map [OF parts(2) ij] nth_map_map [OF parts(3) ij] nth_map_map [OF parts(4) ij] entry [OF ij] ..
    also have "\<dots> = (\<Sum>c<d. sq ! i ! c * skt ! c ! j - sq ! i ! c * skt ! c ! (n + j) / ?b
        - sq ! (n + i) ! c * skt ! c ! j / ?a + sq ! (n + i) ! c * skt ! c ! (n + j) / (?a * ?b))"
      using ij by (simp add: P sum.distrib sum_subtractf sum_divide_distrib)
    also have "\<dots> = (\<Sum>c<d. q ! i ! c * kt ! c ! j)"
      using ij ab by (intro sum.cong refl) (simp add: S(7,8), simp add: field_simps)
    also have "\<dots> = matmul n q kt ! i ! j" using ij mat_length [OF q] mat_length [OF kt] by (simp add: nth_matmul)
    finally show ?thesis .
  qed
  then have "R = matmul n q kt" using mat_ew [OF e2 m3, of "(+)"] q by (intro mat_eqI [of n n]) (simp_all add: R_def)
  then show ?thesis by (simp add: out_attn_recover_def R_def P_def exactD [OF E] Let_def)
qed

end
