(* ===== verification/Gelo_Attention_Exact.thy ===== *)
theory Gelo_Attention_Exact
  imports Gelo_Attention_Correct
begin

text \<open>
  The two protocols end to end over an honest engine: the outsourced product returns the product,
  batched or not and with the probe on or off, and both forms of the permuted attention return
  the attention of the unpermuted operands.
\<close>

section \<open>Calls\<close>

lemma ereturn_app: "ereturn x s = (Inr x, s)"
  by (simp add: ereturn_def)

lemma engine_call_eq: "m v = (r, v') \<Longrightarrow> engine_call m (v, g) = (r, (v', g))"
  by (simp add: engine_call_def zoom_def)

lemma sampling_eq: "sampling f (v, g) = (Inr (fst (f g)), (v, snd (f g)))"
  by (simp add: sampling_def split: prod.split)

lemma probing_accepts: "fst (f g) = Inr () \<Longrightarrow> probing f (v, g) = (Inr (), (v, snd (f g)))"
  by (cases "f g") (simp add: probing_def)

lemma probing_product:
  assumes "exact F H" and "lib_ok L" and "mat m k A" and "mat k p B"
  shows "\<exists>g'. probing (verify_offload F H L n (k, A) (p, B) (p, matmul p A B)) (v, g) = (Inr (), (v, g'))"
  using probing_accepts [of "verify_offload F H L n (k, A) (p, B) (p, matmul p A B)" g v, OF verify_accepts [OF assms]] by blast

lemma probe_if:
  assumes "exact F H" and "lib_ok L" and "mat m k A" and "mat k p B"
  shows "\<exists>g'. (if 0 < n then probing (verify_offload F H L n (k, A) (p, B) (p, matmul p A B)) else ereturn ()) (v, g) = (Inr (), (v, g'))"
  using probing_product [OF assms, of n v g] by (simp add: ereturn_def)

section \<open>The outsourced product\<close>

context offload_engine
begin

lemma qkt_exact:
  assumes X: "exact F H" and L: "lib_ok L" and q: "mat n d q" and kt: "mat d n kt"
  shows "\<exists>v' g'. offload_qkt F H L E (d, q) (n, kt) probes (v, g) = (Inr (n, matmul n q kt), (v', g')) \<and> weights_of v' = weights_of v"
proof -
  obtain S g1 where S: "out_attn_setup F L n d q kt g = (S, g1)" by fastforce
  have ok: "out_attn_ok n d q kt S" using out_attn_setup_ok [OF X L q kt, of g] S by simp
  note m = out_attn_mats [OF ok]
  obtain v' where v': "en_matmul_dynamic E (d, oa_q S) (2 * n, oa_kt S) v = (Inr (2 * n, matmul (2 * n) (oa_q S) (oa_kt S)), v')"
      "weights_of v' = weights_of v" using dynamic [OF m] by blast
  obtain g2 where "(if 0 < probes then probing (verify_offload F H L probes (d, oa_q S) (2 * n, oa_kt S) (2 * n, matmul (2 * n) (oa_q S) (oa_kt S)))
      else ereturn ()) (v', g1) = (Inr (), (v', g2))" using probe_if [OF X L m, of probes v' g1] by blast
  moreover have "length (matmul (2 * n) (oa_q S) (oa_kt S)) = 2 * n" using mat_length [OF m(1)] by (simp add: matmul_def)
  ultimately have "offload_qkt F H L E (d, q) (n, kt) probes (v, g) = (Inr (n, matmul n q kt), (v', g2))"
    using S v'(1) mat_length [OF q] mat_length [OF kt] out_attn_recovers [OF X ok q kt]
    by (simp add: offload_qkt_def ebind_def eseq_def sampling_eq engine_call_eq eassert_def ereturn_def Let_def)
  then show ?thesis using v'(2) by blast
qed

lemma qkt_batched_exact:
  assumes X: "exact F H" and L: "lib_ok L" and q: "mats n d q" and kt: "mats d n kt" and len: "length kt = length q"
  shows "\<exists>v' g'. offload_qkt_batched F H L E (n, d, q) (d, n, kt) probes (v, g) = (Inr (n, n, map2 (matmul n) q kt), (v', g')) \<and>
    weights_of v' = weights_of v"
proof -
  have made: "\<exists>Ss g'. emap (\<lambda>(q_h, kt_h). sampling (out_attn_setup F L n d q_h kt_h)) (zip q kt) (v, g) = (Inr Ss, (v, g')) \<and>
      length Ss = length q \<and> (\<forall>h < length q. out_attn_ok n d (q ! h) (kt ! h) (Ss ! h))" for g
    using len [symmetric] q kt
  proof (induction q kt arbitrary: g rule: list_induct2)
    case (Cons x q y kt)
    then have xy: "mat n d x" "mat d n y" by (simp_all add: mats_def)
    obtain S g1 where S: "out_attn_setup F L n d x y g = (S, g1)" by fastforce
    have ok: "out_attn_ok n d x y S" using out_attn_setup_ok [OF X L xy, of g] S by simp
    obtain Ss g2 where Ss: "emap (\<lambda>(q_h, kt_h). sampling (out_attn_setup F L n d q_h kt_h)) (zip q kt) (v, g1) = (Inr Ss, (v, g2))"
        "length Ss = length q" "\<forall>h < length q. out_attn_ok n d (q ! h) (kt ! h) (Ss ! h)"
      using Cons.IH [of g1] Cons.prems by (auto simp: mats_def)
    have "emap (\<lambda>(q_h, kt_h). sampling (out_attn_setup F L n d q_h kt_h)) (zip (x # q) (y # kt)) (v, g) = (Inr (S # Ss), (v, g2))"
      using Ss(1) S by (simp add: sampling_eq eff_simps)
    moreover have "\<forall>h < length (x # q). out_attn_ok n d ((x # q) ! h) ((y # kt) ! h) ((S # Ss) ! h)"
      using ok Ss(3) by (auto simp: nth_Cons split: nat.split)
    ultimately show ?case using Ss(2) by (metis length_Cons)
  qed (simp add: ereturn_def)
  obtain Ss g1 where Ss: "emap (\<lambda>(q_h, kt_h). sampling (out_attn_setup F L n d q_h kt_h)) (zip q kt) (v, g) = (Inr Ss, (v, g1))"
      "length Ss = length q" "\<And>h. h < length q \<Longrightarrow> out_attn_ok n d (q ! h) (kt ! h) (Ss ! h)" using made by blast
  have ms: "mat (2 * n) d (oa_q S)" "mat d (2 * n) (oa_kt S)" if "S \<in> set Ss" for S
    using that Ss(2,3) out_attn_mats unfolding in_set_conv_nth by metis+
  then have "mats (2 * n) d (map oa_q Ss)" "mats d (2 * n) (map oa_kt Ss)" by (auto simp: mats_def)
  then obtain v' where v': "en_run_runtime_matmul E (2 * n, d, map oa_q Ss) (d, 2 * n, map oa_kt Ss) v =
      (Inr (2 * n, 2 * n, map2 (matmul (2 * n)) (map oa_q Ss) (map oa_kt Ss)), v')" "weights_of v' = weights_of v"
    using runtime by (metis length_map)
  define Z where "Z = map (\<lambda>S. matmul (2 * n) (oa_q S) (oa_kt S)) Ss"
  have lenZ: "length Z = length Ss" by (simp add: Z_def)
  have Z: "map2 (matmul (2 * n)) (map oa_q Ss) (map oa_kt Ss) = Z" by (simp add: Z_def zip_map_map zip_same_conv_map)
  have "\<exists>g'. efor (zip Ss Z) (\<lambda>(S, z). probing (verify_offload F H L probes (d, oa_q S) (2 * n, oa_kt S) (2 * n, z))) (v', g) = (Inr (), (v', g'))" for g
    unfolding Z_def using ms
  proof (induction Ss arbitrary: g)
    case (Cons S Ss)
    then have m: "mat (2 * n) d (oa_q S)" "mat d (2 * n) (oa_kt S)" by simp_all
    obtain g1 where "probing (verify_offload F H L probes (d, oa_q S) (2 * n, oa_kt S) (2 * n, matmul (2 * n) (oa_q S) (oa_kt S))) (v', g) = (Inr (), (v', g1))"
      using probing_product [OF X L m, of probes v' g] by blast
    then show ?case using Cons by (simp add: eseq_def ebind_def)
  qed (simp add: ereturn_def)
  then obtain g2 where "(if 0 < probes then efor (zip Ss Z) (\<lambda>(S, z). probing (verify_offload F H L probes (d, oa_q S) (2 * n, oa_kt S) (2 * n, z)))
      else ereturn ()) (v', g1) = (Inr (), (v', g2))" by (cases "0 < probes") (auto simp: ereturn_def)
  moreover have "map2 (out_attn_recover F n) Ss Z = map2 (matmul n) q kt"
  proof (rule nth_equalityI)
    show "length (map2 (out_attn_recover F n) Ss Z) = length (map2 (matmul n) q kt)" using Ss(2) len by (simp add: Z_def)
    fix h assume "h < length (map2 (out_attn_recover F n) Ss Z)"
    then have h: "h < length q" using Ss(2) by (simp add: Z_def)
    have "mat n d (q ! h)" "mat d n (kt ! h)" using h len q kt by (simp_all add: mats_def)
    then show "map2 (out_attn_recover F n) Ss Z ! h = map2 (matmul n) q kt ! h"
      using h len Ss(2) out_attn_recovers [OF X Ss(3) [OF h]] by (simp add: Z_def)
  qed
  ultimately have "offload_qkt_batched F H L E (n, d, q) (d, n, kt) probes (v, g) = (Inr (n, n, map2 (matmul n) q kt), (v', g2))"
    using len Ss(1) v'(1) lenZ by (simp add: offload_qkt_batched_def ebind_def eseq_def engine_call_eq Z eassert_def ereturn_app split del: if_split)
  then show ?thesis using v'(2) by blast
qed

end

section \<open>Attention\<close>

text \<open>What attention computes: the weights of a row are proportional to the exponentials of its scores.\<close>

definition attention_score :: "attention_mask \<Rightarrow> real \<Rightarrow> real \<Rightarrow> nat \<Rightarrow> nat \<Rightarrow> real list list \<Rightarrow> real list list \<Rightarrow> nat \<Rightarrow> nat \<Rightarrow> real" where
  "attention_score msk scale neg offset d q k i j =
     scale * (\<Sum>c<d. q ! i ! c * k ! j ! c) + (if msk = Causal \<and> offset + i < j then - neg else 0)"

definition attention_head :: "attention_mask \<Rightarrow> real \<Rightarrow> real \<Rightarrow> nat \<Rightarrow> nat \<Rightarrow> nat \<Rightarrow> nat \<Rightarrow>
    real list list \<Rightarrow> real list list \<Rightarrow> real list list \<Rightarrow> real list list" where
  "attention_head msk scale neg offset n_q n_kv d q k v =
     map (\<lambda>i. map (\<lambda>c. \<Sum>j<n_kv. exp (attention_score msk scale neg offset d q k i j) /
        (\<Sum>l<n_kv. exp (attention_score msk scale neg offset d q k i l)) * v ! j ! c) [0..<d]) [0..<n_q]"

lemma softmax_exact:
  assumes X: "exact F H" and "gl_exp L = exp"
  shows "softmax_row F L row = map (\<lambda>x. exp x / (\<Sum>y\<leftarrow>row. exp y)) row"
proof -
  define c where "c = fold (\<lambda>v m. f_max F m v) row (gl_neg_infinity L)"
  have "fold (\<lambda>e s. s + e) (map (\<lambda>v. exp (v - c)) row) 0 = (\<Sum>y\<leftarrow>row. exp (y - c))"
    using fold_sum [of "\<lambda>x. x" "map (\<lambda>v. exp (v - c)) row" 0] by (simp add: o_def)
  also have "\<dots> = (\<Sum>y\<leftarrow>row. exp y) / exp c" by (induction row) (simp_all add: exp_diff add_divide_distrib)
  finally have "fold (\<lambda>e s. s + e) (map (\<lambda>v. exp (v - c)) row) 0 = (\<Sum>y\<leftarrow>row. exp y) / exp c" .
  then have "softmax_row F L row = map (\<lambda>v. exp (v - c) * (1 / ((\<Sum>y\<leftarrow>row. exp y) / exp c))) row"
    using assms by (simp add: softmax_row_def Let_def exactD [OF X] c_def [symmetric, unfolded exactD [OF X]] o_def)
  then show ?thesis by (simp add: exp_diff)
qed

lemma mat_softmax: "mat n d m \<Longrightarrow> mat n d (map (softmax_row F L) m)"
  by (simp add: mat_def softmax_row_def Let_def)

lemma transpose_nth: "mat n d k \<Longrightarrow> c < d \<Longrightarrow> j < n \<Longrightarrow> transpose_of d k ! c ! j = k ! j ! c"
  by (simp add: transpose_of_def mat_def)

lemma mat_transpose: "mat n d k \<Longrightarrow> mat d n (transpose_of d k)"
  by (simp add: transpose_of_def mat_def)

lemma permute_nth: "perm n ps \<Longrightarrow> i < n \<Longrightarrow> permute_rows ps m ! i = m ! (ps ! i)"
  by (simp add: permute_rows_def perm_def)

text \<open>The heart of the protocol: over permuted operands the rows come out permuted.\<close>

lemma probs_permuted:
  fixes q k v :: "real list list"
  assumes X: "exact F H" and L: "lib_ok L" and q: "mat n_q d q" and k: "mat n_kv d k" and v: "mat n_kv d v"
    and pq: "perm n_q pq" and pkv: "perm n_kv pkv"
  defines "scores \<equiv> matmul n_kv (permute_rows pq q) (transpose_of d (permute_rows pkv k))"
  shows "mat n_q n_kv (masked_probs F L cfg msk scale offset pq pkv scores)"
    and "i < n_q \<Longrightarrow> matmul d (masked_probs F L cfg msk scale offset pq pkv scores) (permute_rows pkv v) ! i =
      attention_head msk scale (pa_causal_mask_neg cfg) offset n_q n_kv d q k v ! (pq ! i)"
proof -
  let ?neg = "pa_causal_mask_neg cfg"
  define sc where "sc = attention_score msk scale ?neg offset d q k"
  have qp: "mat n_q d (permute_rows pq q)" and kp: "mat n_kv d (permute_rows pkv k)" and vp: "mat n_kv d (permute_rows pkv v)"
    using mat_permute_rows pq pkv q k v by blast+
  have len: "length pq = n_q" "length pkv = n_kv" using pq pkv by (simp_all add: perm_def)
  have s: "mat n_q n_kv scores" using qp by (simp add: scores_def)
  have raw: "scores ! i ! j = (\<Sum>c<d. q ! (pq ! i) ! c * k ! (pkv ! j) ! c)" if "i < n_q" "j < n_kv" for i j
    using that mat_length [OF qp] mat_length [OF mat_transpose [OF kp]]
    by (simp add: scores_def nth_matmul transpose_nth [OF kp] permute_nth [OF pq] permute_nth [OF pkv])
  have mask: "mat n_q n_kv (soft_mask F ?neg offset pq pkv)" by (simp add: soft_mask_def mat_def len)
  define ms where "ms = (case msk of Causal \<Rightarrow> ew (f_add F) (map (map (\<lambda>x. f_mul F x scale)) scores) (soft_mask F ?neg offset pq pkv)
    | NoMask \<Rightarrow> map (map (\<lambda>x. f_mul F x scale)) scores)"
  have ms: "mat n_q n_kv ms" using s mask by (simp add: ms_def split: attention_mask.split)
  have entry: "ms ! i ! j = sc (pq ! i) (pkv ! j)" if ij: "i < n_q" "j < n_kv" for i j
  proof (cases msk)
    case NoMask
    then have "ms ! i ! j = scores ! i ! j * scale" unfolding ms_def using nth_map_map [OF s ij] by (simp add: exactD [OF X])
    then show ?thesis using NoMask by (simp add: sc_def attention_score_def raw [OF ij])
  next
    case Causal
    have "soft_mask F ?neg offset pq pkv ! i ! j = (if offset + pq ! i < pkv ! j then - ?neg else 0)"
      using ij len by (simp add: soft_mask_def exactD [OF X])
    then have "ms ! i ! j = scores ! i ! j * scale + (if offset + pq ! i < pkv ! j then - ?neg else 0)"
      using Causal nth_ew [OF mat_map [OF s, of "\<lambda>x. x * scale"] mask ij, of "(+)"] nth_map_map [OF s ij, of "\<lambda>x. x * scale"]
        \<open>soft_mask F ?neg offset pq pkv ! i ! j = _\<close> by (simp add: ms_def exactD [OF X])
    then show ?thesis using Causal by (simp add: sc_def attention_score_def raw [OF ij])
  qed
  have P: "masked_probs F L cfg msk scale offset pq pkv scores = map (softmax_row F L) ms"
    by (simp add: masked_probs_def ms_def Let_def)
  show pm: "mat n_q n_kv (masked_probs F L cfg msk scale offset pq pkv scores)" unfolding P by (rule mat_softmax [OF ms])
  assume i: "i < n_q"
  have row: "ms ! i = map (\<lambda>j. sc (pq ! i) (pkv ! j)) [0..<n_kv]"
    using mat_nth [OF ms i] entry [OF i] by (intro nth_equalityI) simp_all
  have "(\<Sum>y\<leftarrow>ms ! i. exp y) = (\<Sum>j<n_kv. exp (sc (pq ! i) (pkv ! j)))" by (simp add: row sum_list_sum_nth atLeast0LessThan)
  also have "\<dots> = (\<Sum>l<n_kv. exp (sc (pq ! i) l))" by (rule perm_sum [OF pkv])
  finally have total: "(\<Sum>y\<leftarrow>ms ! i. exp y) = (\<Sum>l<n_kv. exp (sc (pq ! i) l))" .
  have exp: "gl_exp L = exp" using L by (simp add: lib_ok_def)
  have prob: "map (softmax_row F L) ms ! i ! j = exp (sc (pq ! i) (pkv ! j)) / (\<Sum>l<n_kv. exp (sc (pq ! i) l))" if "j < n_kv" for j
    using i that mat_length [OF ms] mat_nth [OF ms i] entry [OF i that] total by (simp add: softmax_exact [OF X exp])
  show "matmul d (masked_probs F L cfg msk scale offset pq pkv scores) (permute_rows pkv v) ! i =
      attention_head msk scale ?neg offset n_q n_kv d q k v ! (pq ! i)"
  proof (rule nth_equalityI)
    have z: "mat n_q d (matmul d (masked_probs F L cfg msk scale offset pq pkv scores) (permute_rows pkv v))" using pm by simp
    show "length (matmul d (masked_probs F L cfg msk scale offset pq pkv scores) (permute_rows pkv v) ! i) =
        length (attention_head msk scale ?neg offset n_q n_kv d q k v ! (pq ! i))"
      using mat_nth [OF z i] perm_less [OF pq i] by (simp add: attention_head_def)
    fix c assume "c < length (matmul d (masked_probs F L cfg msk scale offset pq pkv scores) (permute_rows pkv v) ! i)"
    then have c: "c < d" using mat_nth [OF z i] by simp
    have "matmul d (masked_probs F L cfg msk scale offset pq pkv scores) (permute_rows pkv v) ! i ! c =
        (\<Sum>j<n_kv. exp (sc (pq ! i) (pkv ! j)) / (\<Sum>l<n_kv. exp (sc (pq ! i) l)) * v ! (pkv ! j) ! c)"
      using i c mat_length [OF pm] mat_length [OF vp] prob by (simp add: nth_matmul P permute_nth [OF pkv])
    also have "\<dots> = (\<Sum>j<n_kv. exp (sc (pq ! i) j) / (\<Sum>l<n_kv. exp (sc (pq ! i) l)) * v ! j ! c)"
      by (rule perm_sum [OF pkv, of "\<lambda>j. exp (sc (pq ! i) j) / (\<Sum>l<n_kv. exp (sc (pq ! i) l)) * v ! j ! c"])
    finally show "matmul d (masked_probs F L cfg msk scale offset pq pkv scores) (permute_rows pkv v) ! i ! c =
        attention_head msk scale ?neg offset n_q n_kv d q k v ! (pq ! i) ! c"
      using perm_less [OF pq i] c by (simp add: attention_head_def sc_def)
  qed
qed

lemma unpermuted:
  fixes out :: "real list list"
  assumes ps: "perm n ps" and "\<And>i. i < n \<Longrightarrow> out ! i = spec ! (ps ! i)" and "length spec = n"
  shows "unpermute F d ps out = spec"
proof (rule nth_equalityI)
  show "length (unpermute F d ps out) = length spec"
  proof (cases n)
    case 0
    then show ?thesis using ps assms(3) by (simp add: perm_def unpermute_def zeros_def)
  qed (use unpermute_nth(2) [OF ps] assms(3) in auto)
  fix l assume l: "l < length (unpermute F d ps out)"
  then have "l < n" using \<open>length (unpermute F d ps out) = length spec\<close> assms(3) by simp
  then obtain i where "i < n" "ps ! i = l" using perm_index [OF ps] by blast
  then show "unpermute F d ps out ! l = spec ! l" using unpermute_nth(1) [OF ps] assms(2) by metis
qed

lemma mats_map: "(\<And>m. mat n d m \<Longrightarrow> mat n' d' (f m)) \<Longrightarrow> mats n d ms \<Longrightarrow> mats n' d' (map f ms)"
  by (simp add: mats_def)

lemma length_attention_head [simp]: "length (attention_head msk scale neg offset n_q n_kv d q k v) = n_q"
  by (simp add: attention_head_def)

context offload_engine
begin

lemma shielded_exact:
  fixes q k v :: "real list list list"
  assumes X: "exact F H" and L: "lib_ok L" and q: "mats n_q d q" and k: "mats n_kv d k" and v: "mats n_kv d v"
    and len: "length k = length q" "length v = length q" and pq: "perm n_q pq" and pkv: "perm n_kv pkv"
  shows "\<exists>w' out. shielded_attention F L E cfg msk scale offset pq pkv (n_q, d, map (permute_rows pq) q) (n_kv, d, map (permute_rows pkv) k)
      (n_kv, d, map (permute_rows pkv) v) (w, g) = (Inr (n_q, d, out), (w', g)) \<and> weights_of w' = weights_of w \<and> length out = length q \<and>
      (\<forall>h < length q. unpermute F d pq (out ! h) = attention_head msk scale (pa_causal_mask_neg cfg) offset n_q n_kv d (q ! h) (k ! h) (v ! h))"
proof -
  let ?q = "map (permute_rows pq) q" and ?k = "map (transpose_of d) (map (permute_rows pkv) k)" and ?v = "map (permute_rows pkv) v"
  define P where "P = masked_probs F L cfg msk scale offset pq pkv"
  define sc where "sc = map2 (matmul n_kv) ?q ?k"
  have kp: "mats n_kv d (map (permute_rows pkv) k)" by (rule mats_map [OF _ k]) (rule mat_permute_rows [OF pkv])
  have q': "mats n_q d ?q" by (rule mats_map [OF _ q]) (rule mat_permute_rows [OF pq])
  have k': "mats d n_kv ?k" by (rule mats_map [OF _ kp]) (rule mat_transpose)
  have v': "mats n_kv d ?v" by (rule mats_map [OF _ v]) (rule mat_permute_rows [OF pkv])
  note ms = q' k' v'
  obtain w1 where w1: "en_run_runtime_matmul E (n_q, d, ?q) (d, n_kv, ?k) w = (Inr (n_q, n_kv, sc), w1)" "weights_of w1 = weights_of w"
    using runtime [OF ms(1,2)] len by (auto simp: sc_def)
  have head: "mat n_q d (q ! h)" "mat n_kv d (k ! h)" "mat n_kv d (v ! h)" if "h < length q" for h
    using that q k v len by (simp_all add: mats_def)
  have sc: "length sc = length q" "sc ! h = matmul n_kv (permute_rows pq (q ! h)) (transpose_of d (permute_rows pkv (k ! h)))" if "h < length q" for h
    using that len by (simp_all add: sc_def)
  have "length sc = length q" using len by (simp add: sc_def)
  moreover have "mat n_q n_kv (P (sc ! h))" if "h < length q" for h
    using probs_permuted(1) [OF X L head [OF that] pq pkv] sc(2) [OF that] by (simp add: P_def)
  ultimately have "mats n_q n_kv (map P sc)" unfolding mats_def set_conv_nth by auto
  then obtain w2 where w2: "en_run_runtime_matmul E (n_q, n_kv, map P sc) (n_kv, d, ?v) w1 = (Inr (n_q, d, map2 (matmul d) (map P sc) ?v), w2)"
      "weights_of w2 = weights_of w1" using runtime [OF _ ms(3)] len \<open>length sc = length q\<close> by (metis length_map)
  have "shielded_attention F L E cfg msk scale offset pq pkv (n_q, d, ?q) (n_kv, d, map (permute_rows pkv) k) (n_kv, d, ?v) (w, g) =
      (Inr (n_q, d, map2 (matmul d) (map P sc) ?v), (w2, g))"
    using w1(1) w2(1) \<open>length sc = length q\<close>
    by (simp add: shielded_attention_def ebind_def eseq_def eassert_def ereturn_app engine_call_eq P_def [symmetric])
  moreover have "unpermute F d pq (map2 (matmul d) (map P sc) ?v ! h) =
      attention_head msk scale (pa_causal_mask_neg cfg) offset n_q n_kv d (q ! h) (k ! h) (v ! h)" if h: "h < length q" for h
  proof (rule unpermuted [OF pq])
    fix i assume i: "i < n_q"
    have "map2 (matmul d) (map P sc) ?v ! h = matmul d (P (sc ! h)) (permute_rows pkv (v ! h))"
      using h len \<open>length sc = length q\<close> by simp
    then show "map2 (matmul d) (map P sc) ?v ! h ! i =
        attention_head msk scale (pa_causal_mask_neg cfg) offset n_q n_kv d (q ! h) (k ! h) (v ! h) ! (pq ! i)"
      using probs_permuted(2) [OF X L head [OF h] pq pkv i] sc(2) [OF h] by (simp add: P_def)
  qed simp
  moreover have "length (map2 (matmul d) (map P sc) ?v) = length q" using len \<open>length sc = length q\<close> by simp
  ultimately show ?thesis using w1(2) w2(2) by metis
qed

lemma permuted_exact:
  assumes X: "exact F H" and L: "lib_ok L" and q: "mats n d q" and k: "mats n d k" and v: "mats n d v"
    and len: "length k = length q" "length v = length q" and quiet: "pa_noise_sigma cfg \<le> 0"
  shows "\<exists>w' g'. permuted_attention F L E (n, d, q) (n, d, k) (n, d, v) scale msk cfg (w, g) =
      (Inr (n, d, map (\<lambda>h. attention_head msk scale (pa_causal_mask_neg cfg) 0 n n d (q ! h) (k ! h) (v ! h)) [0..<length q]), (w', g')) \<and>
    weights_of w' = weights_of w"
proof -
  define ps where "ps = fst (sample_permutation L n g)"
  have ps: "perm n ps" using shuffle_perm [OF L] by (simp add: ps_def sample_permutation_def)
  obtain w' out where out: "shielded_attention F L E cfg msk scale 0 ps ps (n, d, map (permute_rows ps) q) (n, d, map (permute_rows ps) k)
      (n, d, map (permute_rows ps) v) (w, snd (sample_permutation L n g)) = (Inr (n, d, out), (w', snd (sample_permutation L n g)))"
      "weights_of w' = weights_of w" "length out = length q"
      "\<forall>h < length q. unpermute F d ps (out ! h) = attention_head msk scale (pa_causal_mask_neg cfg) 0 n n d (q ! h) (k ! h) (v ! h)"
    using shielded_exact [OF X L q k v len ps ps] by metis
  have "map (unpermute F d ps) out = map (\<lambda>h. attention_head msk scale (pa_causal_mask_neg cfg) 0 n n d (q ! h) (k ! h) (v ! h)) [0..<length q]"
    using out(3,4) by (intro nth_equalityI) simp_all
  then show ?thesis using len quiet out(1-3)
    by (simp add: permuted_attention_def ebind_def eseq_def eassert_def ereturn_app sampling_eq ps_def [symmetric] add_noise_def exactD [OF X])
qed

lemma permuted_cached_exact:
  assumes X: "exact F H" and L: "lib_ok L" and q: "mats n_q d q" and k: "mats n_kv d k" and v: "mats n_kv d v"
    and len: "length k = length q" "length v = length q" and quiet: "pa_noise_sigma cfg \<le> 0"
    and fits: "offset + n_q \<le> n_kv" and tee: "\<not> pa_decode_softmax_on_gpu cfg"
  shows "\<exists>w' g'. permuted_attention_cached F L E (n_q, d, q) (n_kv, d, k) (n_kv, d, v) scale offset msk cfg (w, g) =
      (Inr (n_q, d, map (\<lambda>h. attention_head msk scale (pa_causal_mask_neg cfg) offset n_q n_kv d (q ! h) (k ! h) (v ! h)) [0..<length q]), (w', g')) \<and>
    weights_of w' = weights_of w"
proof -
  define pq where "pq = fst (sample_permutation L n_q g)"
  define g1 where "g1 = snd (sample_permutation L n_q g)"
  define pkv where "pkv = fst (sample_permutation L n_kv g1)"
  have p: "perm n_q pq" "perm n_kv pkv" using shuffle_perm [OF L] by (simp_all add: pq_def pkv_def sample_permutation_def)
  obtain w' out where out: "shielded_attention F L E cfg msk scale offset pq pkv (n_q, d, map (permute_rows pq) q) (n_kv, d, map (permute_rows pkv) k)
      (n_kv, d, map (permute_rows pkv) v) (w, snd (sample_permutation L n_kv g1)) = (Inr (n_q, d, out), (w', snd (sample_permutation L n_kv g1)))"
      "weights_of w' = weights_of w" "length out = length q"
      "\<forall>h < length q. unpermute F d pq (out ! h) = attention_head msk scale (pa_causal_mask_neg cfg) offset n_q n_kv d (q ! h) (k ! h) (v ! h)"
    using shielded_exact [OF X L q k v len p] by metis
  have "map (unpermute F d pq) out = map (\<lambda>h. attention_head msk scale (pa_causal_mask_neg cfg) offset n_q n_kv d (q ! h) (k ! h) (v ! h)) [0..<length q]"
    using out(3,4) by (intro nth_equalityI) simp_all
  then show ?thesis using len quiet out(1-3) fits tee
    by (simp add: permuted_attention_cached_def ebind_def eseq_def eassert_def ereturn_app sampling_eq pq_def [symmetric] g1_def [symmetric]
        pkv_def [symmetric] add_noise_def exactD [OF X])
qed

end

end
