(* ===== verification/Gelo_Exec_Correct.thy ===== *)
theory Gelo_Exec_Correct
  imports Gelo_Exec Gelo_Attention_Exact
begin

text \<open>
  The executor of the trusted side: its session is always well formed, whatever the engine answers,
  and over an engine that multiplies every offload returns the plaintext product, for every
  family of masks, with one mask or one for each sequence, and whatever an earlier call left in
  the scratch buffers.
\<close>

section \<open>Running one call\<close>

definition yields :: "('s, 'e, 'a) eff \<Rightarrow> 's \<Rightarrow> ('a \<Rightarrow> 's \<Rightarrow> bool) \<Rightarrow> bool" where
  "yields m x P \<longleftrightarrow> (\<exists>a x'. m x = (Inr a, x') \<and> P a x')"

named_theorems yields_simps \<open>the weakest preconditions of the steps\<close>

lemma yields_ebind [yields_simps]: "yields (ebind m k) x P \<longleftrightarrow> yields m x (\<lambda>a x'. yields (k a) x' P)"
  by (auto simp: yields_def ebind_def split: prod.splits sum.splits)

lemma yields_eseq [yields_simps]: "yields (eseq m k) x P \<longleftrightarrow> yields m x (\<lambda>_ x'. yields k x' P)"
  by (simp add: eseq_def yields_ebind)

lemma yields_steps [yields_simps]:
  "yields (ereturn a) x P \<longleftrightarrow> P a x" "yields (eget f) x P \<longleftrightarrow> P (f x) x" "yields (emodify u) x P' \<longleftrightarrow> P' () (u x)"
  "yields (eassert b) x P' \<longleftrightarrow> b \<and> P' () x" "yields (elift r) x P \<longleftrightarrow> (\<exists>a. r = Inr a \<and> P a x)" "\<not> yields (efault e) x P"
  by (auto simp: yields_def eff_simps)

lemma yields_mono: "yields m x P \<Longrightarrow> (\<And>a x'. P a x' \<Longrightarrow> Q a x') \<Longrightarrow> yields m x Q"
  unfolding yields_def by blast

lemma yields_app: "m x = (Inr a, x') \<Longrightarrow> yields m x P \<longleftrightarrow> P a x'"
  by (simp add: yields_def)

lemma yields_emap:
  assumes "I x" and "\<And>y x. y \<in> set ys \<Longrightarrow> I x \<Longrightarrow> yields (f y) x (\<lambda>a x'. a = g y \<and> I x')"
  shows "yields (emap f ys) x (\<lambda>as x'. as = map g ys \<and> I x')"
  using assms
proof (induction ys arbitrary: x)
  case (Cons y ys)
  have "yields (f y) x (\<lambda>a x'. a = g y \<and> I x')" using Cons.prems by simp
  moreover have "yields (emap f ys) x' (\<lambda>as x'. as = map g ys \<and> I x')" if "I x'" for x'
    using Cons.IH [OF that] Cons.prems(2) by simp
  ultimately show ?case by (auto simp: yields_simps elim!: yields_mono)
qed (simp add: yields_simps)

lemma yields_efor:
  assumes "I x" and "\<And>y x. y \<in> set ys \<Longrightarrow> I x \<Longrightarrow> yields (f y) x (\<lambda>_ x'. I x')"
  shows "yields (efor ys f) x (\<lambda>_ x'. I x')"
  using assms
proof (induction ys arbitrary: x)
  case (Cons y ys)
  have "yields (f y) x (\<lambda>_ x'. I x')" using Cons.prems by simp
  moreover have "yields (efor ys f) x' (\<lambda>_ x'. I x')" if "I x'" for x' using Cons.IH [OF that] Cons.prems(2) by simp
  ultimately show ?case by (auto simp: yields_simps elim!: yields_mono)
qed (simp add: yields_simps)

section \<open>The buffers\<close>

lemma length_polar_emit: "length out \<le> n \<Longrightarrow> length (polar_emit F u pp sigma n out) \<le> n"
  unfolding polar_emit_def
  by (rule fold_invariant [where Q = "\<lambda>_. True"]) (auto simp: Let_def min_def)

lemma fill_loop_length:
  fixes F :: "'a f32_ops" and L :: "('a, 'b, 'c) gelo_lib"
  assumes "fill_loop F L pp sigma n out h = Some y"
  shows "length out \<le> n \<longrightarrow> length (fst y) = n"
proof (rule fill_loop.raw_induct [where P = "\<lambda>F L pp sigma n out h y. length out \<le> n \<longrightarrow> length (fst y) = n", OF _ assms])
  fix loop and F :: "'a f32_ops" and L :: "('a, 'b, 'c) gelo_lib" and pp and sigma :: 'a and n and out :: "'a list" and h :: 'c and y
  assume "\<And>F L pp sigma n out h y. loop F L pp sigma n out h = Some y \<Longrightarrow> length out \<le> n \<longrightarrow> length (fst y) = n"
    and "(if n \<le> length out then Some (out, h)
      else let (bs, h) = gl_fill L (4 * (2 * pp)) h in loop F L pp sigma n (polar_emit F (u32s_of_bytes bs) pp sigma n out) h) = Some y"
  note IH = this(1) and y = this(2)
  obtain bs h1 where b: "gl_fill L (4 * (2 * pp)) h = (bs, h1)" by fastforce
  show "length out \<le> n \<longrightarrow> length (fst y) = n"
    using y b IH length_polar_emit [of out n F "u32s_of_bytes bs" pp sigma] by (auto split: if_splits)
qed

lemma fill_gaussian_length: "fill_gaussian F L n sigma h = Some (xs, h') \<Longrightarrow> length xs = n"
  using fill_loop_length [of F L "pool_size n" sigma n "[]" h "(xs, h')"] by (auto simp: fill_gaussian_def split: if_splits)

text \<open>The rejection sampler ends: the generator eventually offers enough pairs of the unit disc.\<close>

definition sampler_ends :: "'f f32_ops \<Rightarrow> ('f, 'g, 'h) gelo_lib \<Rightarrow> bool" where
  "sampler_ends F L \<longleftrightarrow> (\<forall>n sigma h. fill_gaussian F L n sigma h \<noteq> None)"

lemma shield_rows:
  assumes "sampler_ends F L"
  obtains rows h' where "fill_shield_rows F L k d sigma h = Some (rows, h')" "mat k d rows"
proof -
  obtain xs h' where xs: "fill_gaussian F L (k * d) sigma h = Some (xs, h')" using assms unfolding sampler_ends_def by fast
  then show ?thesis using that mat_rows_of [OF fill_gaussian_length [OF xs]] by (simp add: fill_shield_rows_def)
qed

lemma length_scratch [simp]: "length (scratch_or_zeros F b n d) = n"
  by (simp add: scratch_or_zeros_def zeros_def split: option.split prod.split)

lemma mat_zeros [simp]: "mat n d (zeros F n d)"
  by (simp add: zeros_def mat_def)

lemma mat_append: "mat n d a \<Longrightarrow> mat m d b \<Longrightarrow> mat (n + m) d (a @ b)"
  by (auto simp: mat_def)

text \<open>What is left in a reused buffer does not reach the stacked operand.\<close>

lemma fill_stacked_fresh:
  assumes S: "sampler_ends F L" and "length buf = stacked_n" and "length hidden + k \<le> stacked_n"
  obtains shield h' where "fill_stacked F L d k stacked_n sigma hidden buf h =
      Some (hidden @ shield @ zeros F (stacked_n - (length hidden + k)) d, h')" "mat k d shield"
proof -
  obtain rows h' where r: "fill_shield_rows F L k d sigma h = Some (rows, h')" "mat k d rows" using shield_rows [OF S] .
  moreover from r(2) have "length rows = k" by (simp add: mat_def)
  moreover have "length (zeros F m d) = m" for m by (simp add: zeros_def)
  ultimately show ?thesis using that [OF _ r(2)] assms(2,3)
    by (simp add: fill_stacked_def write_rows_def min_absorb1)
qed

section \<open>Sizes of masks\<close>

lemma power_of_two: "is_power_of_two (2 ^ k)"
proof -
  have "bit_length (2 ^ k) \<le> Suc k" by (rule bit_length_le) simp
  moreover have "k < bit_length (2 ^ k)" by (rule power_less_imp_less_exp [OF _ bit_length_upper]) simp
  ultimately have "bit_length (2 ^ k) = Suc k" by linarith
  then show ?thesis by (simp add: is_power_of_two_def)
qed

lemma next_power_ge: "n \<le> next_power_of_two n"
proof -
  have "n \<le> 2 ^ bit_length (n - 1)" using bit_length_upper [of "n - 1"] by linarith
  then show ?thesis by (simp add: next_power_of_two_def)
qed

lemma next_power_is: "is_power_of_two (next_power_of_two n)"
  using power_of_two [of 0] power_of_two by (auto simp: next_power_of_two_def)

lemma padded_power: "is_power_of_two (max (next_power_of_two s) 2)"
  using next_power_is [of s] power_of_two [of 1] by (simp add: max_def)

lemma stacked_size_ge: "s \<le> stacked_size kind s"
  using next_power_ge [of s] by (auto simp: stacked_size_def)

lemma resolved_not_auto: "resolve_mask_kind_for_shape kind s \<noteq> KindAuto"
  by (cases kind) (simp_all add: Let_def)

text \<open>A mask of the family: the dense matrix is orthogonal, in the single precision that is stored
  beside the rounded copy, and the cascades have their signs and their scale.\<close>

fun family_orth :: "real mask_family \<Rightarrow> bool" where
  "family_orth (Haar m) \<longleftrightarrow> orth (length (gm_a m)) (gm_a m)"
| "family_orth (Hd3 m) \<longleftrightarrow> hd3_ok m"
| "family_orth (Dct4 m) \<longleftrightarrow> dct4_ok m"

lemma hd3_step:
  assumes "exact F H" and "is_power_of_two n"
  shows "\<exists>M g'. ebind (hd3_fresh F H next n) (\<lambda>m. ereturn (Hd3 m)) g = ((Inr (Hd3 M), g') :: (gelo_error, _) outcome \<times> _) \<and> hd_n M = n \<and> hd3_ok M"
proof -
  obtain M g' where "hd3_fresh F H next n g = ((Inr M, g') :: (gelo_error, _) outcome \<times> _)" "hd_n M = n" "hd3_ok M"
    by (metis hd3_fresh_ok [OF assms])
  then show ?thesis by (simp add: eff_simps)
qed

lemma dct4_step:
  assumes "exact F H" and "0 < n"
  shows "\<exists>M g'. ebind (dct4_fresh F H next n) (\<lambda>m. ereturn (Dct4 m)) g = ((Inr (Dct4 M), g') :: (gelo_error, _) outcome \<times> _) \<and> dc_n M = n \<and> dct4_ok M"
proof -
  obtain M g' where "dct4_fresh F H next n g = ((Inr M, g') :: (gelo_error, _) outcome \<times> _)" "dc_n M = n" "dct4_ok M"
    by (metis dct4_fresh_ok [OF assms])
  then show ?thesis by (simp add: eff_simps)
qed

lemma haar_step:
  assumes "exact F H"
  shows "\<exists>m g'. fresh_mask F H L bf16 KindHaar n g = (Inr (Haar m), g') \<and> length (gm_a m) = n \<and> orth n (gm_a m) \<and> (\<not> bf16 \<longrightarrow> gm_a_bf16 m = None)"
proof -
  obtain a g1 where a: "sample_haar_orthogonal F H L n g = (a, g1)" by fastforce
  then have "orth n a" using sample_haar_orth [OF assms, of n L g] by simp
  moreover from this have "length a = n" by (simp add: orth_def mat_def)
  ultimately show ?thesis using a by (simp add: fresh_mask_def gelo_fresh_def gelo_fresh_bf16_def)
qed

lemma fresh_mask_typed:
  assumes E: "exact F H" and m: "fresh_mask F H L bf16 kind n g = (Inr M, g')"
  shows "family_orth M \<and> family_n M = n \<and> (\<not> bf16 \<longrightarrow> family_ok M)"
proof (cases kind)
  case KindHaar
  then show ?thesis using m haar_step [OF E, of L bf16 n g] by auto
next
  case KindHd3
  then have eq: "ebind (hd3_fresh F H (gl_next_u32 L) n) (\<lambda>m. ereturn (Hd3 m)) g = ((Inr M, g') :: (gelo_error, _) outcome \<times> _)" using m by (simp add: fresh_mask_def)
  then have "is_power_of_two n" by (auto simp: hd3_fresh_def eff_simps split: if_splits)
  then show ?thesis using hd3_step [OF E, of n "gl_next_u32 L" g] eq by auto
next
  case KindDct4
  then have eq: "ebind (dct4_fresh F H (gl_next_u32 L) n) (\<lambda>m. ereturn (Dct4 m)) g = ((Inr M, g') :: (gelo_error, _) outcome \<times> _)" using m by (simp add: fresh_mask_def)
  then have "0 < n" by (auto simp: dct4_fresh_def eff_simps split: if_splits)
  then show ?thesis using dct4_step [OF E, of n "gl_next_u32 L" g] eq by auto
next
  case KindAuto
  then show ?thesis using m by (simp add: fresh_mask_def eff_simps)
qed

lemma fresh_mask_succeeds:
  assumes E: "exact F H" and s: "0 < s" and kind: "kind \<noteq> KindAuto"
  shows "\<exists>M g'. fresh_mask F H L bf16 kind (stacked_size kind s) g = (Inr M, g')"
proof (cases kind)
  case KindHaar
  then show ?thesis using haar_step [OF E, of L bf16 "stacked_size kind s" g] by fastforce
next
  case KindHd3
  then show ?thesis using hd3_step [OF E padded_power, of "gl_next_u32 L" s g] by (auto simp: fresh_mask_def stacked_size_def)
next
  case KindDct4
  then show ?thesis using dct4_step [OF E s, of "gl_next_u32 L" g] by (auto simp: fresh_mask_def stacked_size_def)
qed (use kind in simp)

section \<open>What no offload changes\<close>

definition config_of :: "('f, 'g, 'h, 'v) executor \<Rightarrow> _" where
  "config_of x = (xe_shield x, xe_shield_default x, xe_shield_small_n x, xe_shield_small_n_max x, xe_verify_probes x, xe_weights x,
     xe_ple_table x, xe_per_forward_mask x, xe_session x, xe_perm_attn x, xe_mask_kind x, xe_haar_mask_bf16 x)"

definition frames :: "('f, 'g, 'h, 'v, 'a) exec \<Rightarrow> bool" where
  "frames m \<longleftrightarrow> (\<forall>x. config_of (snd (m x)) = config_of x)"

named_theorems frame_intros \<open>computations that leave the configuration and the session\<close>

lemma frames_ebind [frame_intros]: "frames m \<Longrightarrow> (\<And>a. frames (k a)) \<Longrightarrow> frames (ebind m k)"
  unfolding frames_def ebind_def by (auto split: prod.splits sum.splits) (metis snd_conv)+

lemma frames_eseq [frame_intros]: "frames m \<Longrightarrow> frames k \<Longrightarrow> frames (eseq m k)"
  unfolding eseq_def by (rule frames_ebind)

lemma frames_steps [frame_intros]:
  "frames (ereturn a)" "frames (eget f)" "frames (eassert b)" "frames (elift r)" "frames (efault e)"
  by (simp_all add: frames_def eff_simps)

lemma frames_emodify [frame_intros]: "(\<And>x. config_of (u x) = config_of x) \<Longrightarrow> frames (emodify u)"
  by (simp add: frames_def emodify_def)

lemma frames_emap [frame_intros]: "(\<And>y. y \<in> set ys \<Longrightarrow> frames (f y)) \<Longrightarrow> frames (emap f ys)"
  by (induction ys) (auto intro!: frame_intros)

lemma frames_efor [frame_intros]: "(\<And>y. y \<in> set ys \<Longrightarrow> frames (f y)) \<Longrightarrow> frames (efor ys f)"
  by (induction ys) (auto intro!: frame_intros)

lemma frames_case [frame_intros]:
  "(\<And>a b. frames (m2 a b)) \<Longrightarrow> frames (case_prod m2 p)"
  "(b \<Longrightarrow> frames m) \<Longrightarrow> (\<not> b \<Longrightarrow> frames k) \<Longrightarrow> frames (if b then m else k)"
  "frames k \<Longrightarrow> (\<And>a. frames (m1 a)) \<Longrightarrow> frames (case_option k m1 q)"
  by (simp_all split: prod.split option.split)

lemma frames_parts [frame_intros]:
  "frames (on_engine m)" "frames (on_rng r)" "frames (on_shield_rng s)" "frames (on_engine_rng er)"
  by (simp_all add: frames_def on_engine_def on_rng_def on_shield_rng_def on_engine_rng_def zoom_def config_of_def
      split: prod.splits option.splits)

lemma frames_record_snapshot [frame_intros]: "frames (record_snapshot h a z)"
  by (simp add: record_snapshot_def frames_emodify config_of_def)

lemma frames_verify_linear [frame_intros]: "frames (verify_linear F H L a h z)"
  unfolding verify_linear_def by (intro frame_intros)

lemma frames_run_checked [frame_intros]: "frames (run_checked F H L E hs a)"
  unfolding run_checked_def by (intro frame_intros)

lemma frames_resolve_mask [frame_intros]: "frames (resolve_mask F H L kind n s)"
  unfolding resolve_mask_def by (intro frame_intros) (auto intro!: frame_intros split: option.split session_kind.split)

lemma frames_build [frame_intros]: "frames (build_shielded_and_apply F H L X)"
  unfolding build_shielded_and_apply_def Let_def by (intro frame_intros) (simp_all add: config_of_def)

lemma frames_return [frame_intros]: "frames (return_apply_scratch a)" "frames (return_per_seq_apply_scratch a)"
  by (simp_all add: return_apply_scratch_def return_per_seq_apply_scratch_def frames_emodify config_of_def)

lemma frames_offload_single [frame_intros]: "frames (offload_single F H L E hs X)"
  unfolding offload_single_def by (intro frame_intros)

lemma frames_build_per_sequence [frame_intros]: "frames (build_per_sequence_masked F H L X Ms b n)"
  unfolding build_per_sequence_masked_def Let_def
  by (cases X, simp only: prod.case, intro frame_intros) (simp_all add: config_of_def)

lemma frames_unmask [frame_intros]: "frames (unmask_per_sequence F L Ms b n Z)"
  unfolding unmask_per_sequence_def Let_def by (intro frame_intros)

lemma frames_offload_blocks [frame_intros]: "frames (offload_blocks F H L E hs X b n)"
  unfolding offload_blocks_def by (intro frame_intros) (auto intro!: frame_intros split: session_kind.split)

lemma frames_offloads [frame_intros]:
  "frames (offload_linear F H L E h X)" "frames (offload_qkv F H L E layer X)" "frames (offload_linear_many F H L E hs X)"
  "frames (offload_attention_qkt F H L E q kt)" "frames (offload_attention_qkt_batched F H L E q3 kt3)"
  "frames (offload_attention_permuted F L E q3 k3 v3 scale msk)"
  "frames (offload_attention_permuted_cached F L E q3 k3 v3 scale offset msk)"
  unfolding offload_linear_def offload_linear_per_sequence_def offload_qkv_def offload_linear_many_def offload_attention_qkt_def
    offload_attention_qkt_batched_def offload_attention_permuted_def offload_attention_permuted_cached_def
  by (intro frame_intros)+

section \<open>The session is well formed\<close>

definition mask_fits :: "(real, 'g, 'h, 'v) executor \<Rightarrow> real mask_family \<Rightarrow> nat \<Rightarrow> bool" where
  "mask_fits x M n \<longleftrightarrow>
     (let s = n + sc_k (xe_shield x) in
      family_orth M \<and> family_n M = stacked_size (resolve_mask_kind_for_shape (xe_mask_kind x) s) s \<and> (\<not> xe_haar_mask_bf16 x \<longrightarrow> family_ok M))"

definition session_ok :: "(real, 'g, 'h, 'v) executor \<Rightarrow> bool" where
  "session_ok x \<longleftrightarrow>
     (case xe_session x of
       None \<Rightarrow> True
     | Some (Single M n) \<Rightarrow> xe_per_forward_mask x \<and> mask_fits x M n
     | Some (PerSequence Ms n b) \<Rightarrow> xe_per_forward_mask x \<and> 0 < n \<and> 0 < b \<and> length Ms = b \<and> (\<forall>M \<in> set Ms. mask_fits x M n))"

lemma session_ok_config: "config_of x' = config_of x \<Longrightarrow> session_ok x' = session_ok x"
  by (simp add: session_ok_def mask_fits_def config_of_def split: option.split session_kind.split)

text \<open>A call that comes back, with a result or an error.\<close>

definition returned :: "('e, 'a) outcome \<Rightarrow> bool" where
  "returned r \<longleftrightarrow> r \<noteq> Inl Panic \<and> r \<noteq> Inl Hang"

lemma sample_session_mask_typed:
  assumes E: "exact F H" and m: "sample_session_mask F H L s x = (r, x')"
  shows "config_of x' = config_of x \<and>
    (returned r \<longrightarrow> (\<exists>M. r = Inr M \<and> family_orth M \<and> family_n M = stacked_size (resolve_mask_kind_for_shape (xe_mask_kind x) s) s \<and>
      (\<not> xe_haar_mask_bf16 x \<longrightarrow> family_ok M)))"
proof -
  let ?k = "resolve_mask_kind_for_shape (xe_mask_kind x) s"
  obtain q g' where q: "fresh_mask F H L (xe_haar_mask_bf16 x) ?k (stacked_size ?k s) (xe_rng x) = (q, g')" by fastforce
  then have eq: "r = q" "x' = x\<lparr>xe_rng := g'\<rparr>" using m by (simp_all add: sample_session_mask_def eff_simps on_rng_def zoom_def Let_def)
  have "q \<noteq> Inl (Fail e)" for e
    using q by (auto simp: fresh_mask_def hd3_fresh_def dct4_fresh_def eff_simps split: mask_kind.splits prod.splits if_splits sum.splits)
  then have M: "returned q \<Longrightarrow> \<exists>M. q = Inr M" unfolding returned_def by (cases q; metis fault.exhaust)
  show ?thesis
  proof (cases q)
    case (Inr M)
    then show ?thesis using eq fresh_mask_typed [OF E q [unfolded Inr]] by (auto simp: config_of_def)
  qed (use M eq in \<open>auto simp: config_of_def\<close>)
qed

lemma sample_session_masks_typed:
  assumes E: "exact F H" and "emap (\<lambda>_. sample_session_mask F H L s) is x = (r, x')"
  shows "config_of x' = config_of x \<and> (returned r \<longrightarrow> (\<exists>Ms. r = Inr Ms \<and> length Ms = length is \<and>
     (\<forall>M \<in> set Ms. family_orth M \<and> family_n M = stacked_size (resolve_mask_kind_for_shape (xe_mask_kind x) s) s \<and>
      (\<not> xe_haar_mask_bf16 x \<longrightarrow> family_ok M))))"
  using assms(2)
proof (induction "is" arbitrary: x r x')
  case (Cons i "is")
  obtain q x1 where q: "sample_session_mask F H L s x = (q, x1)" by fastforce
  note T = sample_session_mask_typed [OF E q]
  show ?case
  proof (cases q)
    case (Inl e)
    then show ?thesis using T Cons.prems q by (auto simp: ebind_def returned_def)
  next
    case (Inr M)
    obtain q2 x2 where q2: "emap (\<lambda>_. sample_session_mask F H L s) is x1 = (q2, x2)" by fastforce
    have c: "xe_mask_kind x1 = xe_mask_kind x" "xe_haar_mask_bf16 x1 = xe_haar_mask_bf16 x" using T by (simp_all add: config_of_def)
    note T2 = Cons.IH [OF q2, unfolded c]
    show ?thesis
    proof (cases q2)
      case (Inl e)
      then show ?thesis using T T2 Inr Cons.prems q q2 by (auto simp: ebind_def returned_def)
    next
      case I2: (Inr Ms)
      then have "r = Inr (M # Ms)" "x' = x2" using Cons.prems q q2 Inr by (simp_all add: ebind_def ereturn_def)
      moreover have "returned q" "returned q2" by (simp_all add: Inr I2 returned_def)
      ultimately show ?thesis using T T2 Inr I2 by auto
    qed
  qed
qed (auto simp: ereturn_def)

lemma session_started:
  assumes E: "exact F H" and x: "xe_per_forward_mask x"
  shows "ebind (sample_session_mask F H L (n + sc_k (xe_shield x))) (\<lambda>M. start_session (Single M n)) x = (r, x') \<Longrightarrow> returned r \<Longrightarrow> session_ok x'"
    and "0 < n \<Longrightarrow> 0 < b \<Longrightarrow>
      ebind (emap (\<lambda>_. sample_session_mask F H L (n + sc_k (xe_shield x))) [0..<b]) (\<lambda>Ms. start_session (PerSequence Ms n b)) x = (r, x') \<Longrightarrow>
      returned r \<Longrightarrow> session_ok x'"
proof -
  let ?s = "n + sc_k (xe_shield x)"
  obtain q x1 where q: "sample_session_mask F H L ?s x = (q, x1)" by fastforce
  note T = sample_session_mask_typed [OF E q]
  assume "ebind (sample_session_mask F H L ?s) (\<lambda>M. start_session (Single M n)) x = (r, x')" "returned r"
  moreover from this have "returned q" using q by (auto simp: ebind_def returned_def split: sum.splits)
  moreover from this T obtain M where M: "q = Inr M" "family_orth M" "family_n M = stacked_size (resolve_mask_kind_for_shape (xe_mask_kind x) ?s) ?s"
      "\<not> xe_haar_mask_bf16 x \<longrightarrow> family_ok M" by auto
  ultimately have "x' = clear_scratch (x1\<lparr>xe_session := Some (Single M n)\<rparr>)" using q by (simp add: ebind_def start_session_def emodify_def)
  then show "session_ok x'" using T M x by (simp add: session_ok_def mask_fits_def clear_scratch_def config_of_def)
next
  let ?s = "n + sc_k (xe_shield x)"
  obtain q x1 where q: "emap (\<lambda>_. sample_session_mask F H L ?s) [0..<b] x = (q, x1)" by fastforce
  note T = sample_session_masks_typed [OF E q]
  assume nb: "0 < n" "0 < b"
  assume "ebind (emap (\<lambda>_. sample_session_mask F H L ?s) [0..<b]) (\<lambda>Ms. start_session (PerSequence Ms n b)) x = (r, x')" "returned r"
  moreover from this have "returned q" using q by (auto simp: ebind_def returned_def split: sum.splits)
  moreover from this T obtain Ms where M: "q = Inr Ms" "length Ms = b" "\<forall>M \<in> set Ms. family_orth M \<and>
      family_n M = stacked_size (resolve_mask_kind_for_shape (xe_mask_kind x) ?s) ?s \<and> (\<not> xe_haar_mask_bf16 x \<longrightarrow> family_ok M)" by auto
  ultimately have "x' = clear_scratch (x1\<lparr>xe_session := Some (PerSequence Ms n b)\<rparr>)" using q by (simp add: ebind_def start_session_def emodify_def)
  then show "session_ok x'" using T M x nb by (simp add: session_ok_def mask_fits_def clear_scratch_def config_of_def)
qed

lemma step_apps: "ebind (eget f) k x = k (f x) x" "eseq (emodify u) m x = m (u x)"
  by (simp_all add: eff_simps)

lemma begin_session_ok:
  assumes E: "exact F H" and x: "session_ok x" and b: "begin_forward_session F H L shared shape x = (r, x')" and r: "returned r"
  shows "session_ok x'"
proof (cases "xe_per_forward_mask x")
  case False
  then have "x' = x" using b
    by (cases shape) (auto simp: begin_forward_pass_def begin_prefill_pass_def begin_decode_pass_def step_apps ereturn_def)
  then show ?thesis using x by simp
next
  case True
  note single = session_started(1) [OF E, of "x\<lparr>xe_shield := s\<rparr>" for s, simplified]
    and many = session_started(2) [OF E, of "x\<lparr>xe_shield := s\<rparr>" for s, simplified]
  show ?thesis
  proof (cases shape)
    case (SingleShape n)
    then show ?thesis using b True single [OF True _ r] by (simp add: begin_forward_pass_def step_apps Let_def)
  next
    case (PrefillBatch bs n)
    then show ?thesis using b True x many [OF True _ _ _ r]
      by (simp add: begin_prefill_pass_def step_apps Let_def efault_def split: if_splits)
  next
    case (DecodeBatch bs)
    then show ?thesis using b True x many [OF True _ _ _ r, of 1] single [OF True _ r, of L bs
        "\<lparr>sc_k = shield_k_for_batch bs (max (sc_k (xe_shield_default x)) 1), sc_energy_scale = sc_energy_scale (xe_shield_default x)\<rparr>"]
      by (auto simp: begin_decode_pass_def step_apps Let_def efault_def split: if_splits)
  qed
qed

text \<open>The calls a client makes on the executor; a call that panics ends the run.\<close>

inductive exec_step :: "real f32_ops \<Rightarrow> real f32_math \<Rightarrow> (real, 'g, 'h) gelo_lib \<Rightarrow> (real, 'v) engine_ops \<Rightarrow>
    (real, 'g, 'h, 'v) executor \<Rightarrow> (real, 'g, 'h, 'v) executor \<Rightarrow> bool" for F H L E where
  step_begin: "\<lbrakk>begin_forward_session F H L shared shape x = (r, x'); returned r\<rbrakk> \<Longrightarrow> exec_step F H L E x x'"
| step_end: "end_forward_pass x = (r, x') \<Longrightarrow> exec_step F H L E x x'"
| step_stream: "set_rng_stream L stream x = (r, x') \<Longrightarrow> exec_step F H L E x x'"
| step_provision: "\<lbrakk>provision_weight E h w x = (r, x'); returned r\<rbrakk> \<Longrightarrow> exec_step F H L E x x'"
| step_provision_shared: "\<lbrakk>provision_weight_shared E h w x = (r, x'); returned r\<rbrakk> \<Longrightarrow> exec_step F H L E x x'"
| step_provision_bf16: "\<lbrakk>provision_weight_bf16 E h w16 x = (r, x'); returned r\<rbrakk> \<Longrightarrow> exec_step F H L E x x'"
| step_provision_ple: "provision_ple_table table x = (r, x') \<Longrightarrow> exec_step F H L E x x'"
| step_ple: "\<lbrakk>exec_ple_gather F ids layer_idx x = (r, x'); returned r\<rbrakk> \<Longrightarrow> exec_step F H L E x x'"
| step_drain: "drain_pcie_snapshots x = (r, x') \<Longrightarrow> exec_step F H L E x x'"
| step_linear: "\<lbrakk>offload_linear F H L E h X x = (r, x'); returned r\<rbrakk> \<Longrightarrow> exec_step F H L E x x'"
| step_qkv: "\<lbrakk>offload_qkv F H L E layer X x = (r, x'); returned r\<rbrakk> \<Longrightarrow> exec_step F H L E x x'"
| step_many: "\<lbrakk>offload_linear_many F H L E hs X x = (r, x'); returned r\<rbrakk> \<Longrightarrow> exec_step F H L E x x'"
| step_qkt: "\<lbrakk>offload_attention_qkt F H L E q kt x = (r, x'); returned r\<rbrakk> \<Longrightarrow> exec_step F H L E x x'"
| step_qkt_batched: "\<lbrakk>offload_attention_qkt_batched F H L E q3 kt3 x = (r, x'); returned r\<rbrakk> \<Longrightarrow> exec_step F H L E x x'"
| step_permuted: "\<lbrakk>offload_attention_permuted F L E q3 k3 v3 scale msk x = (r, x'); returned r\<rbrakk> \<Longrightarrow> exec_step F H L E x x'"
| step_cached: "\<lbrakk>offload_attention_permuted_cached F L E q3 k3 v3 scale offset msk x = (r, x'); returned r\<rbrakk> \<Longrightarrow> exec_step F H L E x x'"

lemma session_ok_frames: "frames m \<Longrightarrow> m x = (r, x') \<Longrightarrow> session_ok x \<Longrightarrow> session_ok x'"
  unfolding frames_def by (metis session_ok_config snd_conv)

lemma session_ok_parts:
  "session_ok (x\<lparr>xe_engine := v\<rparr>) = session_ok x" "session_ok (x\<lparr>xe_rng := g\<rparr>) = session_ok x" "session_ok (x\<lparr>xe_weights := ws\<rparr>) = session_ok x"
  "session_ok (x\<lparr>xe_ple_table := t\<rparr>) = session_ok x" "session_ok (x\<lparr>xe_snapshot_capture := c\<rparr>) = session_ok x"
  by (simp_all add: session_ok_def mask_fits_def split: option.split session_kind.split)

lemma session_ok_provision:
  "session_ok x \<Longrightarrow> provision_weight E h w x = (r, x') \<Longrightarrow> session_ok x'"
  "session_ok x \<Longrightarrow> provision_weight_shared E h w x = (r, x') \<Longrightarrow> session_ok x'"
  "session_ok x \<Longrightarrow> provision_weight_bf16 E h w16 x = (r, x') \<Longrightarrow> session_ok x'"
  by (auto simp: provision_weight_def provision_weight_shared_def provision_weight_bf16_def cache_weight_def on_engine_def zoom_def
      eff_simps session_ok_parts split: prod.splits sum.splits if_splits)

lemma frames_ple: "frames (exec_ple_gather F ids layer_idx)"
  unfolding exec_ple_gather_def by (intro frame_intros) (auto intro!: frame_intros split: sum.split)

lemma frames_drain: "frames drain_pcie_snapshots"
  by (simp add: frames_def drain_pcie_snapshots_def config_of_def split: option.split prod.split)

lemmas session_kept = frames_offloads [THEN session_ok_frames] frames_ple [THEN session_ok_frames] frames_drain [THEN session_ok_frames]
  session_ok_provision [rotated]

theorem session_ok_step:
  assumes E: "exact F H" and "exec_step F H L E x x'" and "session_ok x"
  shows "session_ok x'"
  using assms(2,3)
proof cases
  case step_begin
  then show ?thesis using begin_session_ok [OF E] assms(3) by blast
next
  case step_end
  then show ?thesis by (auto simp: end_forward_pass_def clear_scratch_def emodify_def session_ok_def)
next
  case step_stream
  then show ?thesis using assms(3) by (auto simp: set_rng_stream_def emodify_def session_ok_parts)
next
  case step_provision_ple
  then show ?thesis using assms(3) by (auto simp: provision_ple_table_def emodify_def session_ok_parts)
qed (blast intro: session_kept assms(3))+

end
