(* ===== verification/Gelo_Offload.thy ===== *)
theory Gelo_Offload
  imports Gelo_Exec_Correct
begin

text \<open>
  Over an engine that multiplies, every offload of the trusted executor returns the plaintext
  product, under one mask for all rows and under one mask for each sequence.
\<close>

section \<open>Chunks\<close>

lemma row_chunks_concat: "\<forall>ys \<in> set yss. length ys = s \<Longrightarrow> 0 < s \<Longrightarrow> row_chunks s (concat yss) = yss"
proof (induction yss)
  case (Cons ys yss)
  then have "concat (ys # yss) \<noteq> []" by auto
  then show ?case using Cons by (subst row_chunks.simps) simp
qed (simp add: row_chunks.simps)

lemma chunked:
  assumes "length xs = b * s"
  obtains yss where "xs = concat yss" "length yss = b" "\<forall>ys \<in> set yss. length ys = s"
proof -
  have "\<exists>yss. xs = concat yss \<and> length yss = b \<and> (\<forall>ys \<in> set yss. length ys = s)" if "length xs = b * s" for xs :: "'a list" and b
    using that
  proof (induction b arbitrary: xs)
    case (Suc b)
    then have "length (drop s xs) = b * s" by simp
    from Suc.IH [OF this] obtain yss where "drop s xs = concat yss" "length yss = b" "\<forall>ys \<in> set yss. length ys = s" by blast
    moreover from this have "xs = concat (take s xs # yss)" using append_take_drop_id [of s xs] by simp
    moreover have "length (take s xs) = s" using Suc.prems by simp
    ultimately show ?case by (intro exI [of _ "take s xs # yss"]) simp
  qed simp
  then show ?thesis using that assms by blast
qed

lemma nth_chunk: "i < length yss \<Longrightarrow> \<forall>ys \<in> set yss. length ys = s \<Longrightarrow> take s (drop (i * s) (concat yss)) = yss ! i"
proof (induction yss arbitrary: i)
  case (Cons ys yss)
  then show ?case by (cases i) simp_all
qed simp

lemma chunks_of: "length xs = b * s \<Longrightarrow> concat (map (\<lambda>i. take s (drop (i * s) xs)) [0..<b]) = xs"
proof -
  assume "length xs = b * s"
  then obtain yss where y: "xs = concat yss" "length yss = b" "\<forall>ys \<in> set yss. length ys = s" by (rule chunked)
  then have "map (\<lambda>i. take s (drop (i * s) xs)) [0..<b] = yss" using nth_chunk [OF _ y(3)] by (intro nth_equalityI) simp_all
  then show ?thesis using y(1) by simp
qed

lemma matmul_append: "matmul p (A @ B) W = matmul p A W @ matmul p B W"
  by (simp add: matmul_def)

lemma matmul_concat: "matmul p (concat As) W = concat (map (\<lambda>A. matmul p A W) As)"
  by (induction As) (simp_all add: matmul_append, simp add: matmul_def)

lemma length_matmul [simp]: "length (matmul p A W) = length A"
  by (simp add: matmul_def)

section \<open>Building the masked operand\<close>

lemma family_pair:
  assumes "exact F H" and "lib_ok L" and "family_ok M"
  obtains ap un where "masking (family_n M) ap un"
    "\<And>d m. mat (family_n M) d m \<Longrightarrow> family_apply F L M d m = (Inr (ap d m) :: (gelo_error, _) outcome)"
    "\<And>d m. mat (family_n M) d m \<Longrightarrow> family_unapply F L M d m = (Inr (un d m) :: (gelo_error, _) outcome)"
  using family_masking [OF assms] that by blast

definition operand :: "real f32_ops \<Rightarrow> (real, 'g, 'h) gelo_lib \<Rightarrow> real mask_family \<Rightarrow> nat \<Rightarrow> real list list \<Rightarrow> real list list \<Rightarrow> bool" where
  "operand F L M d X masked \<longleftrightarrow> family_ok M \<and>
     (\<exists>rest. mat (family_n M) d (X @ rest) \<and> family_apply F L M d (X @ rest) = (Inr masked :: (gelo_error, _) outcome))"

lemma operand_mat: "exact F H \<Longrightarrow> lib_ok L \<Longrightarrow> operand F L M d X masked \<Longrightarrow> mat (family_n M) d masked"
  unfolding operand_def by (metis family_pair masking_mat(1) sum.inject(2))

text \<open>Whatever rows were stacked under the data, the data's product comes back.\<close>

lemma operand_product:
  assumes E: "exact F H" and L: "lib_ok L" and m: "operand F L M d X masked" and W: "mat d p W"
  shows "\<exists>u. family_unapply F L M p (matmul p masked W) = (Inr u :: (gelo_error, _) outcome) \<and> take (length X) u = matmul p X W"
proof -
  obtain rest where r: "mat (family_n M) d (X @ rest)" "family_apply F L M d (X @ rest) = (Inr masked :: (gelo_error, _) outcome)"
    using m unfolding operand_def by blast
  have "family_ok M" using m by (simp add: operand_def)
  then obtain ap un where mk: "masking (family_n M) ap un" and
      f: "\<And>d m. mat (family_n M) d m \<Longrightarrow> family_apply F L M d m = (Inr (ap d m) :: (gelo_error, _) outcome)"
        "\<And>d m. mat (family_n M) d m \<Longrightarrow> family_unapply F L M d m = (Inr (un d m) :: (gelo_error, _) outcome)"
    by (rule family_pair [OF E L]) blast
  have masked: "masked = ap d (X @ rest)" using r f(1) by simp
  have "mat (family_n M) p (matmul p masked W)" using operand_mat [OF E L m] by simp
  then have "family_unapply F L M p (matmul p masked W) = (Inr (un p (matmul p masked W)) :: (gelo_error, _) outcome)" by (rule f(2))
  moreover have "un p (matmul p masked W) = matmul p X W @ matmul p rest W"
    unfolding masked using masking_matmul [OF mk r(1)] W by (simp add: matmul_append mat_def)
  ultimately show ?thesis by simp
qed

lemma yields_shield_rng [yields_simps]:
  "yields (on_shield_rng f) x P \<longleftrightarrow> (\<exists>a h. f (xe_shield_rng x) = Some (a, h) \<and> P a (x\<lparr>xe_shield_rng := h\<rparr>))"
  by (auto simp: yields_def on_shield_rng_def split: option.splits)

lemma yields_rng: "yields (on_rng m) x P \<longleftrightarrow> (\<exists>a g. m (xe_rng x) = (Inr a, g) \<and> P a (x\<lparr>xe_rng := g\<rparr>))"
  by (auto simp: yields_def on_rng_def zoom_def split: prod.splits)

text \<open>The configuration and the engine stay as they are.\<close>

definition still :: "(real, 'g, 'h, 'v) executor \<Rightarrow> (real, 'g, 'h, 'v) executor \<Rightarrow> bool" where
  "still x x' \<longleftrightarrow> config_of x' = config_of x \<and> xe_engine x' = xe_engine x"

lemma still_simps [simp]:
  "still x x" "still x (x'\<lparr>xe_shield_rng := h\<rparr>) = still x x'" "still x (x'\<lparr>xe_rng := g\<rparr>) = still x x'"
  "still x (x'\<lparr>xe_stacked_scratch := s\<rparr>) = still x x'" "still x (x'\<lparr>xe_per_seq_apply_scratch := s\<rparr>) = still x x'"
  by (simp_all add: still_def config_of_def)

definition single_shape :: "(real, 'g, 'h, 'v) executor \<Rightarrow> nat \<Rightarrow> bool" where
  "single_shape x n \<longleftrightarrow>
     (case xe_session x of
       None \<Rightarrow> \<not> xe_per_forward_mask x \<and> 0 < n + sc_k (xe_shield x)
     | Some (Single _ n') \<Rightarrow> n' = n
     | Some (PerSequence _ _ _) \<Rightarrow> False)"

lemma resolve_mask_yields:
  assumes E: "exact F H" and ok: "session_ok x" and full: "\<not> xe_haar_mask_bf16 x" and shape: "single_shape x n"
    and kind: "kind = resolve_mask_kind_for_shape (xe_mask_kind x) (n + sc_k (xe_shield x))"
  shows "yields (resolve_mask F H L kind n (stacked_size kind (n + sc_k (xe_shield x)))) x
    (\<lambda>M x'. family_ok M \<and> family_n M = stacked_size kind (n + sc_k (xe_shield x)) \<and> still x x')"
proof (cases "xe_session x")
  case None
  then have s: "\<not> xe_per_forward_mask x" "0 < n + sc_k (xe_shield x)" using shape by (simp_all add: single_shape_def)
  obtain M g' where M: "fresh_mask F H L False kind (stacked_size kind (n + sc_k (xe_shield x))) (xe_rng x) = (Inr M, g')"
    using fresh_mask_succeeds [OF E s(2), of kind L False "xe_rng x"]
      resolved_not_auto [of "xe_mask_kind x" "n + sc_k (xe_shield x)"] kind by auto
  then show ?thesis using fresh_mask_typed [OF E M] s full by (auto simp: resolve_mask_def yields_simps yields_rng)
next
  case (Some q)
  then obtain M where q: "q = Single M n" using shape by (auto simp: single_shape_def split: session_kind.splits)
  then have "xe_per_forward_mask x" "mask_fits x M n" using ok Some by (simp_all add: session_ok_def)
  then show ?thesis using Some q full kind by (simp add: resolve_mask_def yields_simps mask_fits_def Let_def)
qed

lemma stack_shield_rows:
  assumes "sampler_ends F L"
  obtains rows h' where "stack_shield F H L d X cfg h = Some (X @ rows, h')" "mat (sc_k cfg) d rows"
proof -
  consider "sc_k cfg = 0" | "0 < sc_k cfg" "d = 0" | "0 < sc_k cfg" "0 < d" by blast
  then show ?thesis
  proof cases
    case 1
    then show ?thesis using that [of "[]" h] by (simp add: stack_shield_def shield_enabled_def mat_def)
  next
    case 2
    then show ?thesis using that [of "zeros F (sc_k cfg) d" h] by (simp add: stack_shield_def shield_enabled_def)
  next
    case 3
    obtain rows h' where "fill_shield_rows F L (sc_k cfg) d (shield_sigma F H (sc_energy_scale cfg) d X) h = Some (rows, h')" "mat (sc_k cfg) d rows"
      using shield_rows [OF assms] .
    then show ?thesis using that 3 by (simp add: stack_shield_def shield_enabled_def)
  qed
qed

lemma apply_operand:
  assumes "exact F H" and "lib_ok L" and "family_ok M" and "mat (family_n M) d (X @ rest)"
  shows "\<exists>masked. family_apply F L M d (X @ rest) = (Inr masked :: (gelo_error, _) outcome) \<and> operand F L M d X masked"
proof -
  obtain ap un where "family_apply F L M d (X @ rest) = (Inr (ap d (X @ rest)) :: (gelo_error, _) outcome)"
    by (rule family_pair [OF assms(1-3)]) (use assms(4) in blast)
  then show ?thesis using assms(3,4) by (auto simp: operand_def)
qed

lemma build_yields:
  fixes X :: "real list list"
  assumes E: "exact F H" and L: "lib_ok L" and S: "sampler_ends F L" and X: "mat n d X"
    and ok: "session_ok x" and full: "\<not> xe_haar_mask_bf16 x" and shape: "single_shape x n"
  shows "yields (build_shielded_and_apply F H L (d, X)) x (\<lambda>(M, masked, n') x'. n' = n \<and> operand F L M d X masked \<and> still x x')"
proof -
  let ?k = "sc_k (xe_shield x)"
  define kind where "kind = resolve_mask_kind_for_shape (xe_mask_kind x) (n + ?k)"
  define s where "s = stacked_size kind (n + ?k)"
  have len: "length X = n" using X by (simp add: mat_def)
  have s: "n + ?k \<le> s" using stacked_size_ge s_def by simp
  have pad: "mat s d (X @ rows @ zeros F (s - (n + ?k)) d)" if "mat ?k d rows" for rows
    using mat_append [OF X mat_append [OF that mat_zeros, of "s - (n + ?k)" F]] s by simp
  have "yields (resolve_mask F H L kind n s) x (\<lambda>M x'. family_ok M \<and> family_n M = s \<and> still x x')"
    unfolding s_def by (rule resolve_mask_yields [OF E ok full shape kind_def])
  then show "yields (build_shielded_and_apply F H L (d, X)) x (\<lambda>(M, masked, n') x'. n' = n \<and> operand F L M d X masked \<and> still x x')"
  proof (unfold build_shielded_and_apply_def prod.case len Let_def, simp only: yields_simps id_def, fold kind_def s_def, elim yields_mono conjE)
    fix M x' assume M: "family_ok M" "family_n M = s" "still x x'"
    note ap = apply_operand [OF E L M(1), of d X, unfolded M(2)]
    show "yields (if xe_per_forward_mask x \<and> shield_enabled (xe_shield x) then
          ebind (on_shield_rng (fill_stacked F L d ?k s (shield_sigma F H (sc_energy_scale (xe_shield x)) d X) X
                (scratch_or_zeros F (xe_stacked_scratch x d) s d)))
            (\<lambda>buf. eseq (emodify (\<lambda>x. x\<lparr>xe_stacked_scratch := (case M of
              Haar _ \<Rightarrow> (xe_stacked_scratch x)(d \<mapsto> (d, buf)) | _ \<Rightarrow> (xe_stacked_scratch x)(d := None))\<rparr>)) (elift (family_apply F L M d buf)))
        else ebind (on_shield_rng (stack_shield F H L d X (xe_shield x))) (\<lambda>stacked.
          elift (family_apply F L M d (if length stacked < s then stacked @ zeros F (s - length stacked) d else stacked)))) x'
        (\<lambda>a x'. (case (M, a, n) of (M, masked, n') \<Rightarrow> \<lambda>x'. n' = n \<and> operand F L M d X masked \<and> still x x') x')"
    proof (cases "xe_per_forward_mask x \<and> shield_enabled (xe_shield x)")
      case True
      obtain rows h' where "fill_stacked F L d ?k s (shield_sigma F H (sc_energy_scale (xe_shield x)) d X) X
          (scratch_or_zeros F (xe_stacked_scratch x d) s d) (xe_shield_rng x') = Some (X @ rows @ zeros F (s - (n + ?k)) d, h')" "mat ?k d rows"
        by (rule fill_stacked_fresh [OF S, of "scratch_or_zeros F (xe_stacked_scratch x d) s d" s X ?k d
          "shield_sigma F H (sc_energy_scale (xe_shield x)) d X" "xe_shield_rng x'"]) (use len s in simp_all)
      then show ?thesis using True M(3) ap [OF pad] by (simp add: yields_simps)
    next
      case False
      obtain rows h' where r: "stack_shield F H L d X (xe_shield x) (xe_shield_rng x') = Some (X @ rows, h')" "mat ?k d rows"
        using stack_shield_rows [OF S] .
      then have "length (X @ rows) = n + ?k" using len by (simp add: mat_def)
      moreover have "zeros F 0 d = []" by (simp add: zeros_def)
      ultimately show ?thesis using False M(3) ap [OF pad [OF r(2)]] r(1) s by (cases "n + ?k < s") (auto simp: yields_simps)
    qed
  qed
qed

section \<open>One offload\<close>

definition probes_cached :: "(real, 'g, 'h, 'v) executor \<Rightarrow> real weights \<Rightarrow> weight_handle list \<Rightarrow> bool" where
  "probes_cached x ws hs \<longleftrightarrow> (0 < xe_verify_probes x \<longrightarrow> (\<forall>h \<in> set hs. xe_weights x h = ws h))"

definition weights_fit :: "real weights \<Rightarrow> nat \<Rightarrow> weight_handle list \<Rightarrow> bool" where
  "weights_fit ws d hs \<longleftrightarrow> (\<forall>h \<in> set hs. \<exists>p W. ws h = Some (p, W) \<and> mat d p W)"

lemma still_config: "config_of x' = config_of x \<Longrightarrow> xe_verify_probes x' = xe_verify_probes x \<and> xe_weights x' = xe_weights x \<and>
    xe_session x' = xe_session x \<and> xe_per_forward_mask x' = xe_per_forward_mask x \<and> xe_shield x' = xe_shield x"
  by (simp add: config_of_def)

lemma record_config: "yields (record_snapshot h a z) x (\<lambda>_ x'. config_of x' = config_of x \<and> xe_engine x' = xe_engine x)"
  by (simp add: record_snapshot_def yields_simps config_of_def)

context offload_engine
begin

definition same :: "(real, 'g, 'h, 'v) executor \<Rightarrow> (real, 'g, 'h, 'v) executor \<Rightarrow> bool" where
  "same x x' \<longleftrightarrow> config_of x' = config_of x \<and> weights_of (xe_engine x') = weights_of (xe_engine x)"

lemma still_same: "still x x' \<Longrightarrow> same x x'"
  by (simp add: still_def same_def)

lemma same_trans: "same x x' \<Longrightarrow> same x' x'' \<Longrightarrow> same x x''"
  by (simp add: same_def)

lemma run_checked_yields:
  assumes E: "exact F H" and L: "lib_ok L" and Z: "mat s d Z" and fit: "weights_fit (weights_of (xe_engine x)) d hs"
    and cached: "probes_cached x (weights_of (xe_engine x)) hs"
  shows "yields (run_checked F H L E hs (d, Z)) x
    (\<lambda>outs x'. outs = map (\<lambda>h. weight_product (the (weights_of (xe_engine x) h)) Z) hs \<and> same x x')"
proof -
  let ?w = "weights_of (xe_engine x)" and ?outs = "map (\<lambda>h. weight_product (the (weights_of (xe_engine x) h)) Z) hs"
  obtain v' where v': "en_run_registered_linear E hs (d, Z) (xe_engine x) = (Inr ?outs, v')" "weights_of v' = ?w"
    using run_linear [of hs "xe_engine x" d s Z] fit Z unfolding weights_fit_def by blast
  define x1 where "x1 = x\<lparr>xe_engine := v'\<rparr>"
  have run: "yields (on_engine (en_run_registered_linear E hs (d, Z))) x P \<longleftrightarrow> P ?outs x1" for P
    by (simp add: yields_def on_engine_def zoom_def v' x1_def)
  have same1: "same x x1" using v'(2) by (simp add: same_def x1_def config_of_def)
  have rec: "yields (efor (zip hs ?outs) (\<lambda>(h, out). record_snapshot h (d, Z) (Some out))) x1 (\<lambda>_ x'. same x x')"
    by (rule yields_efor [where I = "same x"]) (use same1 in \<open>auto simp: same_def intro: yields_mono [OF record_config]\<close>)
  have ver: "yields (efor (zip hs ?outs) (\<lambda>(h, out). verify_linear F H L (d, Z) h out)) x' (\<lambda>_ x'. same x x')"
    if "same x x'" "0 < xe_verify_probes x" for x'
  proof (rule yields_efor [where I = "same x"])
    fix y x2 assume y: "y \<in> set (zip hs ?outs)" and x2: "same x x2"
    then obtain h where h: "h \<in> set hs" "y = (h, weight_product (the (?w h)) Z)" by (auto simp: zip_map2 zip_same_conv_map)
    then obtain p W where W: "?w h = Some (p, W)" "mat d p W" using fit unfolding weights_fit_def by blast
    have "xe_weights x2 h = Some (p, W)" using x2 still_config [of x2 x] cached that(2) W h by (simp add: same_def probes_cached_def)
    moreover obtain g' where "verify_offload F H L (xe_verify_probes x2) (d, Z) (p, W) (p, matmul p Z W) (xe_rng x2) = (Inr (), g')"
      using verify_accepts [OF E L Z W(2), of "xe_verify_probes x2" "xe_rng x2"] by (metis prod.collapse)
    ultimately show "yields (case y of (h, out) \<Rightarrow> verify_linear F H L (d, Z) h out) x2 (\<lambda>_ x'. same x x')"
      using x2 W by (simp add: h verify_linear_def yields_simps yields_rng weight_product_def same_def config_of_def)
  qed (rule that(1))
  have "yields (ebind (eget xe_verify_probes) (\<lambda>probes.
      eseq (if 0 < probes then efor (zip hs ?outs) (\<lambda>(h, out). verify_linear F H L (d, Z) h out) else ereturn ()) (ereturn ?outs))) x'
      (\<lambda>outs x'. outs = ?outs \<and> same x x')" if "same x x'" for x'
    using ver [OF that] still_config [of x' x] that by (auto simp: yields_simps same_def)
  then have "yields (eseq (efor (zip hs ?outs) (\<lambda>(h, out). record_snapshot h (d, Z) (Some out)))
      (ebind (eget xe_verify_probes) (\<lambda>probes.
        eseq (if 0 < probes then efor (zip hs ?outs) (\<lambda>(h, out). verify_linear F H L (d, Z) h out) else ereturn ()) (ereturn ?outs)))) x1
      (\<lambda>outs x'. outs = ?outs \<and> same x x')"
    by (subst yields_eseq) (rule yields_mono [OF rec])
  then show ?thesis by (simp add: run_checked_def yields_ebind run)
qed

end

lemma yields_case_prod: "yields m x (\<lambda>(a, b, c) x'. P a b c x') \<Longrightarrow> (\<And>a b c x'. P a b c x' \<Longrightarrow> Q (a, b, c) x') \<Longrightarrow> yields m x Q"
  unfolding yields_def by (metis case_prod_conv prod_cases3)

lemma session_ok_same: "config_of x' = config_of x \<Longrightarrow> probes_cached x' ws hs = probes_cached x ws hs"
  by (simp add: probes_cached_def config_of_def)

lemma return_scratch_config:
  "yields (return_apply_scratch a) x (\<lambda>_ x'. config_of x' = config_of x \<and> xe_engine x' = xe_engine x)"
  "yields (return_per_seq_apply_scratch a) x (\<lambda>_ x'. config_of x' = config_of x \<and> xe_engine x' = xe_engine x)"
  by (simp_all add: return_apply_scratch_def return_per_seq_apply_scratch_def yields_simps config_of_def)

context offload_engine
begin

lemma offload_single_yields:
  fixes X :: "real list list"
  assumes E: "exact F H" and L: "lib_ok L" and S: "sampler_ends F L" and X: "mat n d X"
    and ok: "session_ok x" and full: "\<not> xe_haar_mask_bf16 x" and shape: "single_shape x n"
    and fit: "weights_fit (weights_of (xe_engine x)) d hs" and cached: "probes_cached x (weights_of (xe_engine x)) hs"
  shows "yields (offload_single F H L E hs (d, X)) x
    (\<lambda>outs x'. outs = map (\<lambda>h. weight_product (the (weights_of (xe_engine x) h)) X) hs \<and> same x x')"
  unfolding offload_single_def yields_ebind
proof (rule yields_case_prod [OF build_yields [OF E L S X ok full shape]], elim conjE, unfold prod.case yields_ebind)
  fix M masked n' x1 assume n': "n' = n" and op: "operand F L M d X masked" and x1: "still x x1"
  let ?w = "weights_of (xe_engine x)"
  have c1: "config_of x1 = config_of x" "xe_engine x1 = xe_engine x" using x1 by (simp_all add: still_def)
  have "yields (run_checked F H L E hs (d, masked)) x1
      (\<lambda>outs x'. outs = map (\<lambda>h. weight_product (the (?w h)) masked) hs \<and> same x1 x')"
    using run_checked_yields [OF E L operand_mat [OF E L op], of x1 hs] fit cached session_ok_same [OF c1(1)] c1(2) by simp
  then show "yields (run_checked F H L E hs (fst (d, X), masked)) x1 (\<lambda>outs x'.
      yields (emap (\<lambda>(p, out). ebind (elift (family_unapply F L M p out)) (\<lambda>u. ereturn (p, take n' u))) outs :: (_, gelo_error, _) eff) x' (\<lambda>results x'.
      yields (eseq (return_apply_scratch (fst (d, X), masked)) (ereturn results)) x'
        (\<lambda>outs x'. outs = map (\<lambda>h. weight_product (the (?w h)) X) hs \<and> same x x')))"
  proof (simp only: fst_conv, elim yields_mono conjE)
    fix outs x2 assume outs: "outs = map (\<lambda>h. weight_product (the (?w h)) masked) hs" and "same x1 x2"
    then have x2: "same x x2" using still_same [OF x1] same_trans by blast
    have one: "\<exists>u. family_unapply F L M (fst (the (?w h))) (matmul (fst (the (?w h))) masked (snd (the (?w h)))) = (Inr u :: (gelo_error, _) outcome)
        \<and> take n u = matmul (fst (the (?w h))) X (snd (the (?w h)))" if h: "h \<in> set hs" for h
    proof -
      obtain p W where "?w h = Some (p, W)" "mat d p W" using fit h unfolding weights_fit_def by blast
      then show ?thesis using operand_product [OF E L op] X by (simp add: mat_def)
    qed
    have "yields (emap (\<lambda>(p, out). ebind (elift (family_unapply F L M p out)) (\<lambda>u. ereturn (p, take n' u))) outs :: (_, gelo_error, _) eff) x2
        (\<lambda>rs x'. rs = map (\<lambda>h. weight_product (the (?w h)) X) hs \<and> same x x')"
      unfolding outs using x2 one
    proof (induction hs arbitrary: x2)
      case (Cons h hs)
      obtain u where "family_unapply F L M (fst (the (?w h))) (matmul (fst (the (?w h))) masked (snd (the (?w h)))) = (Inr u :: (gelo_error, _) outcome)"
          "take n u = matmul (fst (the (?w h))) X (snd (the (?w h)))" using Cons.prems(2) by fastforce
      moreover have "yields (emap (\<lambda>(p, out). ebind (elift (family_unapply F L M p out)) (\<lambda>u. ereturn (p, take n' u)))
          (map (\<lambda>h. weight_product (the (?w h)) masked) hs) :: (_, gelo_error, _) eff) x2 (\<lambda>rs x'. rs = map (\<lambda>h. weight_product (the (?w h)) X) hs \<and> same x x')"
        using Cons by simp
      ultimately show ?case by (simp add: yields_simps weight_product_def n')
    qed (simp add: yields_simps)
    then show "yields (emap (\<lambda>(p, out). ebind (elift (family_unapply F L M p out)) (\<lambda>u. ereturn (p, take n' u))) outs :: (_, gelo_error, _) eff) x2 (\<lambda>results x'.
        yields (eseq (return_apply_scratch (d, masked)) (ereturn results)) x'
          (\<lambda>outs x'. outs = map (\<lambda>h. weight_product (the (?w h)) X) hs \<and> same x x'))"
      by (rule yields_mono) (auto simp: yields_simps same_def intro!: yields_mono [OF return_scratch_config(1)])
  qed
qed

end

section \<open>One mask for each sequence\<close>

lemma fill_block_fresh:
  fixes sub :: "real list list"
  assumes S: "sampler_ends F L" and sub: "mat n d sub" and "length block = s" and "n + sc_k shield \<le> s"
  shows "\<exists>rest. fill_block F H L shield d s sub seed block = Some (sub @ rest) \<and> mat s d (sub @ rest)"
proof -
  let ?k = "sc_k shield"
  have len: "length sub = n" using sub by (simp add: mat_def)
  have pad: "mat s d (sub @ rows @ zeros F (s - (n + ?k)) d)" if "mat ?k d rows" for rows
    using mat_append [OF sub mat_append [OF that mat_zeros, of "s - (n + ?k)" F]] assms(4) by simp
  have z: "length (zeros F m d) = m" for m by (simp add: zeros_def)
  show ?thesis
  proof (cases "?k = 0")
    case True
    then have "fill_block F H L shield d s sub seed block = Some (sub @ zeros F (s - n) d)"
      using len assms(3,4) z by (simp add: fill_block_def Let_def write_rows_def min_absorb1)
    then show ?thesis using pad [of "[]"] True by (auto simp: mat_def)
  next
    case False
    obtain rows h' where r: "fill_shield_rows F L ?k d (shield_sigma F H (sc_energy_scale shield) d sub) (gl_seed L seed) = Some (rows, h')" "mat ?k d rows"
      using shield_rows [OF S] .
    have "length rows = ?k" using r(2) by (simp add: mat_def)
    then have "fill_block F H L shield d s sub seed block = Some (sub @ rows @ zeros F (s - (n + ?k)) d)"
      using r(1) len assms(3,4) z False by (simp add: fill_block_def Let_def write_rows_def min_absorb1)
    then show ?thesis using pad [OF r(2)] by blast
  qed
qed

definition sub_rows :: "nat \<Rightarrow> real list list \<Rightarrow> nat \<Rightarrow> real list list" where
  "sub_rows n X i = take n (drop (i * n) X)"

lemma mat_sub_rows: "mat (b * n) d X \<Longrightarrow> i < b \<Longrightarrow> mat n d (sub_rows n X i)"
proof -
  assume X: "mat (b * n) d X" and i: "i < b"
  have "Suc i * n \<le> b * n" using i by (intro mult_le_mono1) simp
  then have "length (sub_rows n X i) = n" using X by (simp add: sub_rows_def mat_def)
  moreover have "set (sub_rows n X i) \<subseteq> set X" unfolding sub_rows_def using set_take_subset set_drop_subset by (metis order_trans)
  ultimately show ?thesis using X by (auto simp: mat_def)
qed

text \<open>The masked blocks of a batch.\<close>

definition operands :: "real f32_ops \<Rightarrow> (real, 'g, 'h) gelo_lib \<Rightarrow> real mask_family list \<Rightarrow> nat \<Rightarrow> nat \<Rightarrow> nat \<Rightarrow> nat \<Rightarrow> real list list \<Rightarrow> real list list list \<Rightarrow> bool" where
  "operands F L Ms s b n d X Ys \<longleftrightarrow> length Ys = b \<and> length Ms = b \<and> (\<forall>i < b. family_n (Ms ! i) = s \<and> operand F L (Ms ! i) d (sub_rows n X i) (Ys ! i))"

lemma operands_mat:
  assumes "exact F H" and "lib_ok L" and "operands F L Ms s b n d X Ys"
  shows "mat (b * s) d (concat Ys)"
proof -
  have Y: "\<forall>Y \<in> set Ys. mat s d Y" using assms operand_mat [OF assms(1,2)] unfolding operands_def by (metis in_set_conv_nth)
  then have "length (concat Ys) = length Ys * s" by (induction Ys) (simp_all add: mat_def)
  then show ?thesis using Y assms(3) by (auto simp: mat_def operands_def)
qed

lemma build_blocks_yields:
  fixes X :: "real list list" and x :: "(real, 'g, 'h, 'v) executor"
  assumes E: "exact F H" and L: "lib_ok L" and S: "sampler_ends F L" and X: "mat (b * n) d X" and d: "0 < d"
    and ok: "session_ok x" and full: "\<not> xe_haar_mask_bf16 x" and sess: "xe_session x = Some (PerSequence Ms n b)"
  shows "yields (build_per_sequence_masked F H L (d, X) Ms b n) x
    (\<lambda>masked x'. still x x' \<and> (\<exists>Ys. masked = concat Ys \<and> operands F L Ms (family_n (Ms ! 0)) b n d X Ys))"
proof -
  let ?k = "sc_k (xe_shield x)"
  define s where "s = family_n (Ms ! 0)"
  have nb: "0 < n" "0 < b" "length Ms = b" and fits: "\<And>M. M \<in> set Ms \<Longrightarrow> mask_fits x M n"
    using ok sess by (simp_all add: session_ok_def)
  have Ms: "family_n (Ms ! i) = s" "family_ok (Ms ! i)" "n + ?k \<le> s" if "i < b" for i
    using fits [of "Ms ! i"] fits [of "Ms ! 0"] that nb full stacked_size_ge [of "n + ?k"] by (simp_all add: mask_fits_def Let_def s_def)
  have s: "0 < s" using Ms(3) nb by fastforce
  define buf where "buf = scratch_or_zeros F (xe_per_seq_apply_scratch x d) (b * s) d"
  obtain yss where y: "buf = concat yss" "length yss = b" "\<forall>ys \<in> set yss. length ys = s"
    by (rule chunked [of buf b s]) (simp add: buf_def)
  have chunks: "row_chunks s buf = yss" unfolding y(1) using y(3) s by (rule row_chunks_concat)
  define x1 where "x1 = x\<lparr>xe_per_seq_apply_scratch := (xe_per_seq_apply_scratch x)(d := None)\<rparr>"
  obtain seeds h' where seeds: "draws (gl_fill L 32) b (xe_shield_rng x) = (seeds, h')" by fastforce
  define fill where "fill = (\<lambda>i block. fill_block F H L (xe_shield x) d s (sub_rows n X i) (seeds ! i) block)"
  have fill: "\<exists>rest. fill i (yss ! i) = Some (sub_rows n X i @ rest) \<and> mat s d (sub_rows n X i @ rest)" if "i < b" for i
    unfolding fill_def by (rule fill_block_fresh [OF S mat_sub_rows [OF X that] _ Ms(3) [OF that]]) (use y that in simp)
  define Bs where "Bs = map (\<lambda>(i, block). the (fill i block)) (zip [0..<b] yss)"
  have Bs: "length Bs = b" "Bs ! i = the (fill i (yss ! i))" if "i < b" for i using that y(2) by (simp_all add: Bs_def)
  have Bs_len: "length Bs = b" using y(2) by (simp add: Bs_def)
  have "\<exists>Y. family_apply F L (Ms ! i) d (Bs ! i) = (Inr Y :: (gelo_error, _) outcome) \<and> operand F L (Ms ! i) d (sub_rows n X i) Y" if i: "i < b" for i
    using fill [OF i] Bs(2) [OF i] apply_operand [OF E L Ms(2) [OF i]] Ms(1) [OF i] by fastforce
  then obtain Y where Y: "\<And>i. i < b \<Longrightarrow> family_apply F L (Ms ! i) d (Bs ! i) = (Inr (Y i) :: (gelo_error, _) outcome)"
      "\<And>i. i < b \<Longrightarrow> operand F L (Ms ! i) d (sub_rows n X i) (Y i)" by metis
  define Ys where "Ys = map (\<lambda>(i, block). Y i) (zip [0..<b] Bs)"
  have "Ys = map Y [0..<b]" using Bs_len by (intro nth_equalityI) (simp_all add: Ys_def)
  then have ops: "operands F L Ms s b n d X Ys" using Y(2) nb Ms(1) by (simp add: operands_def)
  have fills: "yields (emap (\<lambda>(i, block). case fill i block of None \<Rightarrow> efault Hang | Some block \<Rightarrow> ereturn block) (zip [0..<b] yss)
      :: (_, gelo_error, _) eff) x2 (\<lambda>bs x'. bs = Bs \<and> x' = x2)" for x2 :: "(real, 'g, 'h, 'v) executor"
    unfolding Bs_def
  proof (rule yields_emap [where I = "\<lambda>x'. x' = x2"])
    fix y x3 assume "y \<in> set (zip [0..<b] yss)" and x3: "x3 = x2"
    then obtain i where "i < b" "y = zip [0..<b] yss ! i" using y(2) by (auto simp: in_set_conv_nth)
    then have i: "y = (i, yss ! i)" "i < b" using y(2) by simp_all
    show "yields (case y of (i, block) \<Rightarrow> case fill i block of None \<Rightarrow> efault Hang | Some block \<Rightarrow> ereturn block) x3
        (\<lambda>a x'. a = (case y of (i, block) \<Rightarrow> the (fill i block)) \<and> x' = x2)"
      using fill [OF i(2)] x3 i by (auto simp: yields_simps)
  qed simp
  have applies: "yields (emap (\<lambda>(i, block). eseq (eassert (i < length Ms)) (elift (family_apply F L (Ms ! i) d block))) (zip [0..<b] Bs)
      :: (_, gelo_error, _) eff) x2 (\<lambda>bs x'. bs = Ys \<and> x' = x2)" for x2 :: "(real, 'g, 'h, 'v) executor"
    unfolding Ys_def using Y(1) Bs_len nb by (intro yields_emap [where I = "\<lambda>x'. x' = x2"]) (auto simp: in_set_zip yields_simps)
  have body: "yields (ebind (emap (\<lambda>(i, block). case fill i block of None \<Rightarrow> efault Hang | Some block \<Rightarrow> ereturn block) (zip [0..<b] yss)) (\<lambda>blocks.
      eseq (eassert (0 < s * d)) (ebind (emap (\<lambda>(i, block). eseq (eassert (i < length Ms)) (elift (family_apply F L (Ms ! i) d block))) (zip [0..<b] blocks))
        (\<lambda>blocks. ereturn (concat blocks)))) :: (_, gelo_error, _) eff) x2 (\<lambda>masked x'. masked = concat Ys \<and> x' = x2)"
    for x2 :: "(real, 'g, 'h, 'v) executor"
    unfolding yields_ebind using s d
    by (intro yields_mono [OF fills]) (auto simp: yields_simps intro!: yields_mono [OF applies])
  have fold: "fill_block F H L (xe_shield x) d s (sub_rows n X i) (seeds ! i) block = fill i block" for i block by (simp add: fill_def)
  have "still x x1" by (simp add: x1_def)
  then have "yields (ebind (emap (\<lambda>(i, block). case fill i block of None \<Rightarrow> efault Hang | Some block \<Rightarrow> ereturn block) (zip [0..<b] yss)) (\<lambda>blocks.
      eseq (eassert (0 < s * d)) (ebind (emap (\<lambda>(i, block). eseq (eassert (i < length Ms)) (elift (family_apply F L (Ms ! i) d block))) (zip [0..<b] blocks))
        (\<lambda>blocks. ereturn (concat blocks)))) :: (_, gelo_error, _) eff) (x1\<lparr>xe_shield_rng := h'\<rparr>)
      (\<lambda>masked x'. still x x' \<and> (\<exists>Ys. masked = concat Ys \<and> operands F L Ms s b n d X Ys))"
    by (intro yields_mono [OF body]) (use ops in auto)
  moreover have "length X = b * n" "Ms \<noteq> []" using X nb by (auto simp: mat_def)
  ultimately show ?thesis
    using s seeds
    by (simp add: build_per_sequence_masked_def Let_def s_def [symmetric] yields_ebind yields_eseq yields_steps yields_shield_rng
        sub_rows_def [symmetric] fold buf_def [symmetric] chunks x1_def [symmetric])
qed

lemma unmask_yields:
  fixes X :: "real list list" and x :: "(real, 'g, 'h, 'v) executor"
  assumes E: "exact F H" and L: "lib_ok L" and X: "mat (b * n) d X" and W: "mat d p W" and p: "0 < p" and n: "0 < n" and b: "0 < b"
    and ops: "operands F L Ms (family_n (Ms ! 0)) b n d X Ys" and s: "0 < family_n (Ms ! 0)"
  shows "yields (unmask_per_sequence F L Ms b n (p, matmul p (concat Ys) W)) x (\<lambda>r x'. r = (p, matmul p X W) \<and> x' = x)"
proof -
  let ?s = "family_n (Ms ! 0)"
  define Zs where "Zs = map (\<lambda>Y. matmul p Y W) Ys"
  have len: "length Ys = b" "length Ms = b" using ops by (simp_all add: operands_def)
  have Z: "\<forall>Z \<in> set Zs. length Z = ?s"
    using ops operand_mat [OF E L] unfolding operands_def Zs_def mat_def by (auto simp: in_set_conv_nth) metis
  have chunks: "row_chunks ?s (matmul p (concat Ys) W) = Zs" unfolding matmul_concat Zs_def [symmetric] using Z s by (rule row_chunks_concat)
  have one: "\<exists>u. family_unapply F L (Ms ! i) p (Zs ! i) = (Inr u :: (gelo_error, _) outcome) \<and> take n u = matmul p (sub_rows n X i) W" if i: "i < b" for i
    using operand_product [OF E L _ W, of "Ms ! i" "sub_rows n X i" "Ys ! i"] ops mat_sub_rows [OF X i] i
    by (simp add: operands_def Zs_def mat_def)
  define Rs where "Rs = map (\<lambda>(i, Z). matmul p (sub_rows n X i) W) (zip [0..<b] Zs)"
  have "Rs = map (\<lambda>i. matmul p (sub_rows n X i) W) [0..<b]" using len by (intro nth_equalityI) (simp_all add: Rs_def Zs_def)
  then have "concat Rs = matmul p (concat (map (sub_rows n X) [0..<b])) W" by (simp add: matmul_concat o_def)
  also have "concat (map (sub_rows n X) [0..<b]) = X" using chunks_of [of X b n] X by (simp add: sub_rows_def [abs_def] mat_def)
  finally have R: "concat Rs = matmul p X W" .
  have "yields (emap (\<lambda>(i, Z). eseq (eassert (i < length Ms)) (ebind (elift (family_unapply F L (Ms ! i) p Z)) (\<lambda>u. ereturn (take n u)))) (zip [0..<b] Zs)
      :: (_, gelo_error, _) eff) x (\<lambda>rs x'. rs = Rs \<and> x' = x)"
    unfolding Rs_def
  proof (rule yields_emap [where I = "\<lambda>x'. x' = x"])
    fix y x3 assume "y \<in> set (zip [0..<b] Zs)" and x3: "x3 = x"
    then obtain i where "i < b" "y = zip [0..<b] Zs ! i" using len by (auto simp: in_set_conv_nth Zs_def)
    then have i: "y = (i, Zs ! i)" "i < b" using len by (simp_all add: Zs_def)
    show "yields ((case y of (i, Z) \<Rightarrow> eseq (eassert (i < length Ms)) (ebind (elift (family_unapply F L (Ms ! i) p Z)) (\<lambda>u. ereturn (take n u))))
        :: (_, gelo_error, _) eff) x3 (\<lambda>a x'. a = (case y of (i, Z) \<Rightarrow> matmul p (sub_rows n X i) W) \<and> x' = x)"
      using one [OF i(2)] x3 i len by (auto simp: yields_simps)
  qed simp
  then have "yields (emap (\<lambda>(i, Z). eseq (eassert (i < length Ms)) (ebind (elift (family_unapply F L (Ms ! i) p Z)) (\<lambda>u. ereturn (take n u)))) (zip [0..<b] Zs)
      :: (_, gelo_error, _) eff) x (\<lambda>rs x'. (p, concat rs @ zeros F (b * n - length (concat rs)) p) = (p, matmul p X W) \<and> x' = x)"
    by (rule yields_mono) (use R X in \<open>simp add: mat_def zeros_def\<close>)
  moreover have "Ms \<noteq> []" using len(2) b by auto
  ultimately show ?thesis using s p n b len(2)
    by (simp add: unmask_per_sequence_def Let_def chunks yields_ebind yields_eseq yields_steps)
qed

context offload_engine
begin

lemma offload_blocks_yields:
  fixes X :: "real list list" and x :: "(real, 'g, 'h, 'v) executor"
  assumes E: "exact F H" and L: "lib_ok L" and S: "sampler_ends F L" and X: "mat (b * n) d X" and d: "0 < d"
    and ok: "session_ok x" and full: "\<not> xe_haar_mask_bf16 x" and sess: "xe_session x = Some (PerSequence Ms n b)"
    and fit: "weights_fit (weights_of (xe_engine x)) d hs" and wide: "\<forall>h \<in> set hs. 0 < fst (the (weights_of (xe_engine x) h))"
    and cached: "probes_cached x (weights_of (xe_engine x)) hs"
  shows "yields (offload_blocks F H L E hs (d, X) b n) x
    (\<lambda>outs x'. outs = map (\<lambda>h. weight_product (the (weights_of (xe_engine x) h)) X) hs \<and> same x x')"
proof -
  let ?w = "weights_of (xe_engine x)" and ?s = "family_n (Ms ! 0)"
  have nb: "0 < n" "0 < b" "length Ms = b" and fits: "\<And>M. M \<in> set Ms \<Longrightarrow> mask_fits x M n"
    using ok sess by (simp_all add: session_ok_def)
  have "n + sc_k (xe_shield x) \<le> ?s"
    using fits [of "Ms ! 0"] nb stacked_size_ge [of "n + sc_k (xe_shield x)"] by (simp add: mask_fits_def Let_def)
  then have s: "0 < ?s" using nb by simp
  have "yields (ebind (build_per_sequence_masked F H L (d, X) Ms b n) (\<lambda>masked.
         ebind (run_checked F H L E hs (d, masked)) (\<lambda>outs.
         ebind (emap (unmask_per_sequence F L Ms b n) outs) (\<lambda>results.
         eseq (return_per_seq_apply_scratch (d, masked)) (ereturn results))))) x
    (\<lambda>outs x'. outs = map (\<lambda>h. weight_product (the (?w h)) X) hs \<and> same x x')"
    unfolding yields_ebind
  proof (rule yields_mono [OF build_blocks_yields [OF E L S X d ok full sess]], elim conjE exE)
    fix masked x1 Ys assume x1: "still x x1" and masked: "masked = concat Ys" and ops: "operands F L Ms ?s b n d X Ys"
    have c1: "config_of x1 = config_of x" "xe_engine x1 = xe_engine x" using x1 by (simp_all add: still_def)
    have run: "yields (run_checked F H L E hs (d, masked)) x1 (\<lambda>outs x'. outs = map (\<lambda>h. weight_product (the (?w h)) masked) hs \<and> same x1 x')"
      unfolding masked using run_checked_yields [OF E L operands_mat [OF E L ops], of x1 hs] fit cached session_ok_same [OF c1(1)] c1(2) by simp
    show "yields (run_checked F H L E hs (d, masked)) x1 (\<lambda>outs x'.
         yields (emap (unmask_per_sequence F L Ms b n) outs) x' (\<lambda>results x'.
         yields (eseq (return_per_seq_apply_scratch (d, masked)) (ereturn results)) x'
          (\<lambda>outs x'. outs = map (\<lambda>h. weight_product (the (?w h)) X) hs \<and> same x x')))"
    proof (rule yields_mono [OF run], elim conjE)
      fix outs x2 assume outs: "outs = map (\<lambda>h. weight_product (the (?w h)) masked) hs" and "same x1 x2"
      then have x2: "same x x2" using still_same [OF x1] same_trans by blast
      have one: "yields (unmask_per_sequence F L Ms b n (weight_product (the (?w h)) masked)) x3
          (\<lambda>r x'. r = weight_product (the (?w h)) X \<and> x' = x3)" if h: "h \<in> set hs" for h and x3 :: "(real, 'g, 'h, 'v) executor"
      proof -
        obtain p W where W: "?w h = Some (p, W)" "mat d p W" using fit h unfolding weights_fit_def by blast
        then have "0 < p" using wide h by fastforce
        then show ?thesis using unmask_yields [OF E L X W(2) _ nb(1,2) ops s] W(1) by (simp add: weight_product_def masked)
      qed
      have "yields (emap (unmask_per_sequence F L Ms b n) outs) x2 (\<lambda>rs x'. rs = map (\<lambda>h. weight_product (the (?w h)) X) hs \<and> x' = x2)"
        unfolding outs
      proof (use one in \<open>induction hs\<close>)
        case (Cons h hs)
        have "yields (emap (unmask_per_sequence F L Ms b n) (map (\<lambda>h. weight_product (the (?w h)) masked) hs)) x2
            (\<lambda>rs x'. rs = map (\<lambda>h. weight_product (the (?w h)) X) hs \<and> x' = x2)" using Cons by simp
        then show ?case using Cons.prems [of h x2]
          by (auto simp: yields_simps elim!: yields_mono)
      qed (simp add: yields_simps)
      then show "yields (emap (unmask_per_sequence F L Ms b n) outs) x2 (\<lambda>results x'.
           yields (eseq (return_per_seq_apply_scratch (d, masked)) (ereturn results)) x'
            (\<lambda>outs x'. outs = map (\<lambda>h. weight_product (the (?w h)) X) hs \<and> same x x'))"
        by (rule yields_mono) (use x2 in \<open>auto simp: yields_simps same_def intro!: yields_mono [OF return_scratch_config(2)]\<close>)
    qed
  qed
  then show ?thesis using sess by (simp add: offload_blocks_def yields_steps yields_ebind [of "eget _"])
qed

end

end
