(* ===== verification/Gelo_Forward.thy ===== *)
theory Gelo_Forward
  imports Gelo_Offload
begin

text \<open>
  A forward pass of the trusted executor: what the calls that open it establish, and that every
  series of offloads inside it gives what the plaintext executor gives.
\<close>

section \<open>Opening a pass\<close>

definition accepts :: "(real, 'g, 'h, 'v) executor \<Rightarrow> nat \<Rightarrow> bool" where
  "accepts x rows \<longleftrightarrow>
     (case xe_session x of
       None \<Rightarrow> \<not> xe_per_forward_mask x \<and> 0 < rows + sc_k (xe_shield x)
     | Some (Single _ n) \<Rightarrow> n = rows
     | Some (PerSequence _ n b) \<Rightarrow> b * n = rows)"

fun shape_rows :: "forward_session_shape \<Rightarrow> nat" where
  "shape_rows (SingleShape n) = n"
| "shape_rows (PrefillBatch b n) = b * n"
| "shape_rows (DecodeBatch b) = b"

lemma sample_session_yields:
  assumes E: "exact F H" and s: "0 < s"
  shows "yields (sample_session_mask F H L s) x (\<lambda>_ x'. still x x')"
proof -
  let ?k = "resolve_mask_kind_for_shape (xe_mask_kind x) s"
  obtain M g' where "fresh_mask F H L (xe_haar_mask_bf16 x) ?k (stacked_size ?k s) (xe_rng x) = (Inr M, g')"
    using fresh_mask_succeeds [OF E s resolved_not_auto [of "xe_mask_kind x" s], of L "xe_haar_mask_bf16 x" "xe_rng x"] by blast
  then show ?thesis by (simp add: sample_session_mask_def yields_steps yields_ebind Let_def yields_rng)
qed

lemma sample_sessions_yields:
  assumes E: "exact F H" and s: "0 < s"
  shows "yields (emap (\<lambda>_. sample_session_mask F H L s) is) x (\<lambda>Ms x'. still x x')"
proof (induction "is" arbitrary: x)
  case (Cons i "is")
  have "yields (emap (\<lambda>_. sample_session_mask F H L s) is) x1 (\<lambda>Ms x'. still x x')" if "still x x1" for x1
    by (rule yields_mono [OF Cons]) (use that in \<open>simp add: still_def\<close>)
  then show ?case by (auto simp: yields_simps intro!: yields_mono [OF sample_session_yields [OF E s]])
qed (simp add: yields_steps)

text \<open>The engine, the probes and the cached weights stay.\<close>

definition prepared :: "(real, 'g, 'h, 'v) executor \<Rightarrow> (real, 'g, 'h, 'v) executor \<Rightarrow> bool" where
  "prepared x x' \<longleftrightarrow> xe_engine x' = xe_engine x \<and> xe_verify_probes x' = xe_verify_probes x \<and> xe_weights x' = xe_weights x \<and>
     xe_haar_mask_bf16 x' = xe_haar_mask_bf16 x"

lemma start_single:
  assumes "exact F H" and "0 < n"
  shows "yields (ebind (sample_session_mask F H L (n + k)) (\<lambda>M. start_session (Single M n))) x (\<lambda>_ x'. accepts x' n \<and> prepared x x')"
  unfolding yields_ebind
  by (rule yields_mono [OF sample_session_yields])
    (use assms in \<open>auto simp: start_session_def yields_steps clear_scratch_def accepts_def prepared_def still_def config_of_def\<close>)

lemma start_many:
  assumes "exact F H" and "0 < n"
  shows "yields (ebind (emap (\<lambda>_. sample_session_mask F H L (n + k)) is) (\<lambda>Ms. start_session (PerSequence Ms n b))) x
    (\<lambda>_ x'. accepts x' (b * n) \<and> prepared x x')"
  unfolding yields_ebind
  by (rule yields_mono [OF sample_sessions_yields])
    (use assms in \<open>auto simp: start_session_def yields_steps clear_scratch_def accepts_def prepared_def still_def config_of_def\<close>)

lemma prepared_shield: "prepared (x\<lparr>xe_shield := s\<rparr>) x' = prepared x x'"
  by (simp add: prepared_def)

lemma begin_yields:
  assumes E: "exact F H" and ok: "session_ok x" and rows: "0 < shape_rows shape"
  shows "yields (begin_forward_session F H L shared shape) x (\<lambda>_ x'. session_ok x' \<and> accepts x' (shape_rows shape) \<and> prepared x x')"
proof -
  have "yields (begin_forward_session F H L shared shape) x (\<lambda>_ x'. accepts x' (shape_rows shape) \<and> prepared x x')"
  proof (cases "xe_per_forward_mask x")
    case False
    then have "xe_session x = None" using ok by (auto simp: session_ok_def split: option.splits session_kind.splits)
    then show ?thesis using False rows
      by (cases shape) (simp_all add: begin_forward_pass_def begin_prefill_pass_def begin_decode_pass_def yields_simps accepts_def prepared_def)
  next
    case True
    note starts = start_single [OF E, where x = "x\<lparr>xe_shield := s\<rparr>" for s, unfolded prepared_shield]
      start_many [OF E, where x = "x\<lparr>xe_shield := s\<rparr>" for s, unfolded prepared_shield]
    show ?thesis
    proof (cases shape)
      case (SingleShape n)
      then show ?thesis using True rows starts(1) [of n]
        by (simp add: begin_forward_pass_def yields_eseq yields_steps yields_ebind [of "eget _"] Let_def)
    next
      case (PrefillBatch b n)
      then show ?thesis using True rows starts(2) [of n]
        by (simp add: begin_prefill_pass_def yields_eseq yields_steps yields_ebind [of "eget _"] Let_def)
    next
      case (DecodeBatch b)
      show ?thesis
      proof (cases shared)
        case True
        then show ?thesis using DecodeBatch \<open>xe_per_forward_mask x\<close> rows starts(1) [of b]
          by (simp add: begin_decode_pass_def yields_eseq yields_steps yields_ebind [of "eget _"] Let_def)
      next
        case False
        then show ?thesis using DecodeBatch True rows starts(2) [of 1, where b = b]
          by (simp add: begin_decode_pass_def yields_eseq yields_steps yields_ebind [of "eget _"] Let_def)
      qed
    qed
  qed
  moreover have "session_ok x'" if "begin_forward_session F H L shared shape x = (Inr a, x')" for a x'
    using begin_session_ok [OF E ok that] by (simp add: returned_def)
  ultimately show ?thesis unfolding yields_def by blast
qed

section \<open>Offloads against the plaintext executor\<close>

lemma session_ok_still: "config_of x' = config_of x \<Longrightarrow> session_ok x' = session_ok x \<and> accepts x' rows = accepts x rows \<and>
    xe_haar_mask_bf16 x' = xe_haar_mask_bf16 x"
  using session_ok_config [of x' x] by (simp add: accepts_def config_of_def split: option.split session_kind.split)

definition fits :: "real weights \<Rightarrow> nat \<Rightarrow> weight_handle list \<Rightarrow> bool" where
  "fits ws d hs \<longleftrightarrow> 0 < d \<and> weights_fit ws d hs \<and> (\<forall>h \<in> set hs. 0 < fst (the (ws h)))"

text \<open>Requests of one pass: the handles and the operand of each.\<close>

definition requests_fit :: "(real, 'g, 'h, 'v) executor \<Rightarrow> real weights \<Rightarrow> nat \<Rightarrow> (weight_handle list \<times> real array2) list \<Rightarrow> bool" where
  "requests_fit x ws rows reqs \<longleftrightarrow> (\<forall>(hs, d, X) \<in> set reqs. mat rows d X \<and> fits ws d hs \<and> probes_cached x ws hs)"

definition answers :: "real weights \<Rightarrow> (weight_handle list \<times> real array2) list \<Rightarrow> real array2 list list" where
  "answers ws = map (\<lambda>(hs, d, X). map (\<lambda>h. weight_product (the (ws h)) X) hs)"

context offload_engine
begin

lemma many_yields:
  fixes X :: "real list list"
  assumes E: "exact F H" and L: "lib_ok L" and S: "sampler_ends F L" and X: "mat rows d X"
    and ok: "session_ok x" and full: "\<not> xe_haar_mask_bf16 x" and acc: "accepts x rows"
    and fit: "fits (weights_of (xe_engine x)) d hs" and cached: "probes_cached x (weights_of (xe_engine x)) hs"
  shows "yields (offload_linear_many F H L E hs (d, X)) x
    (\<lambda>outs x'. outs = map (\<lambda>h. weight_product (the (weights_of (xe_engine x) h)) X) hs \<and> same x x')"
proof (cases "hs = []")
  case True
  then show ?thesis by (simp add: offload_linear_many_def yields_steps same_def)
next
  case False
  have f: "0 < d" "weights_fit (weights_of (xe_engine x)) d hs" "\<forall>h \<in> set hs. 0 < fst (the (weights_of (xe_engine x) h))"
    using fit by (simp_all add: fits_def)
  show ?thesis
  proof (cases "\<exists>Ms n b. xe_session x = Some (PerSequence Ms n b)")
    case True
    then obtain Ms n b where s: "xe_session x = Some (PerSequence Ms n b)" by blast
    then have "mat (b * n) d X" using acc X by (simp add: accepts_def)
    from offload_blocks_yields [OF E L S this f(1) ok full s f(2,3) cached] show ?thesis
      using False s by (simp add: offload_linear_many_def yields_ebind yields_steps per_sequence_dims_def)
  next
    case single: False
    then have "single_shape x rows" using acc by (auto simp: accepts_def single_shape_def split: option.splits session_kind.splits)
    from offload_single_yields [OF E L S X ok full this f(2) cached] show ?thesis
      using False single by (auto simp: offload_linear_many_def yields_ebind yields_steps per_sequence_dims_def split: option.split session_kind.split)
  qed
qed

lemma linear_yields:
  fixes X :: "real list list"
  assumes E: "exact F H" and L: "lib_ok L" and S: "sampler_ends F L" and X: "mat rows d X"
    and ok: "session_ok x" and full: "\<not> xe_haar_mask_bf16 x" and acc: "accepts x rows"
    and fit: "fits (weights_of (xe_engine x)) d [h]" and cached: "probes_cached x (weights_of (xe_engine x)) [h]"
  shows "yields (offload_linear F H L E h (d, X)) x (\<lambda>out x'. out = weight_product (the (weights_of (xe_engine x) h)) X \<and> same x x')"
proof -
  note many = many_yields [OF E L S X ok full acc fit cached]
  have "xe_per_forward_mask x \<and> length X = b * n" if "xe_session x = Some (PerSequence Ms n b)" for Ms n b
    using that ok acc X by (simp add: session_ok_def accepts_def mat_def)
  then have "yields (offload_linear F H L E h (d, X)) x P \<longleftrightarrow> yields (offload_linear_many F H L E [h] (d, X)) x (\<lambda>outs x'. P (hd outs) x')" for P
    by (simp add: offload_linear_def offload_linear_many_def offload_linear_per_sequence_def yields_simps per_sequence_dims_def
        split: option.split session_kind.split)
  then show ?thesis using many by (auto elim!: yields_mono)
qed

lemma qkv_yields:
  fixes X :: "real list list"
  assumes E: "exact F H" and L: "lib_ok L" and S: "sampler_ends F L" and X: "mat rows d X"
    and ok: "session_ok x" and full: "\<not> xe_haar_mask_bf16 x" and acc: "accepts x rows"
    and fit: "fits (weights_of (xe_engine x)) d (qkv_handles layer)" and cached: "probes_cached x (weights_of (xe_engine x)) (qkv_handles layer)"
  shows "yields (offload_qkv F H L E layer (d, X)) x (\<lambda>out x'. out = (let f = (\<lambda>k. weight_product (the (weights_of (xe_engine x) \<lparr>wh_layer = layer, wh_kind = k\<rparr>)) X)
    in (f WQ, f WK, f WV)) \<and> same x x')"
proof -
  note many = many_yields [OF E L S X ok full acc fit cached]
  have "yields (offload_qkv F H L E layer (d, X)) x P \<longleftrightarrow>
      yields (offload_linear_many F H L E (qkv_handles layer) (d, X)) x (\<lambda>outs x'. P (outs ! 0, outs ! 1, outs ! 2) x')" for P
    by (simp add: offload_qkv_def offload_linear_many_def qkv_handles_def yields_simps split: option.split)
  then show ?thesis using many by (auto simp: qkv_handles_def elim!: yields_mono)
qed

lemma plain_linear_yields:
  assumes X: "mat rows d X" and fit: "weights_fit (weights_of (pe_engine x)) d [h]"
  shows "yields (plain_offload_linear E h (d, X)) x
    (\<lambda>out x'. out = weight_product (the (weights_of (pe_engine x) h)) X \<and> weights_of (pe_engine x') = weights_of (pe_engine x))"
proof -
  obtain v' where "en_run_registered_linear E [h] (d, X) (pe_engine x) = (Inr [weight_product (the (weights_of (pe_engine x) h)) X], v')"
      "weights_of v' = weights_of (pe_engine x)"
    using run_linear [of "[h]" "pe_engine x" d rows X] fit X unfolding weights_fit_def by auto
  then show ?thesis by (simp add: yields_def plain_offload_linear_def plain_engine_def zoom_def ebind_def ereturn_def)
qed

lemma plain_many_yields:
  assumes X: "mat rows d X" and fit: "weights_fit (weights_of (pe_engine x)) d hs"
  shows "yields (plain_offload_linear_many E hs (d, X)) x
    (\<lambda>outs x'. outs = map (\<lambda>h. weight_product (the (weights_of (pe_engine x) h)) X) hs \<and> weights_of (pe_engine x') = weights_of (pe_engine x))"
  unfolding plain_offload_linear_many_def
proof (rule yields_emap [where I = "\<lambda>x'. weights_of (pe_engine x') = weights_of (pe_engine x)"])
  fix h and x1 :: "(real, 'v) plaintext_executor"
  assume h: "h \<in> set hs" and x1: "weights_of (pe_engine x1) = weights_of (pe_engine x)"
  have w: "weights_fit (weights_of (pe_engine x1)) d [h]" using fit h x1 by (simp add: weights_fit_def)
  show "yields (plain_offload_linear E h (d, X)) x1
      (\<lambda>out x'. out = weight_product (the (weights_of (pe_engine x) h)) X \<and> weights_of (pe_engine x') = weights_of (pe_engine x))"
    by (rule yields_mono [OF plain_linear_yields [OF X w]]) (use x1 in simp)
qed simp

lemma series_yields:
  assumes E: "exact F H" and L: "lib_ok L" and S: "sampler_ends F L"
    and ok: "session_ok x" and full: "\<not> xe_haar_mask_bf16 x" and acc: "accepts x rows"
    and reqs: "requests_fit x (weights_of (xe_engine x)) rows reqs"
  shows "yields (emap (\<lambda>(hs, X). offload_linear_many F H L E hs X) reqs) x
    (\<lambda>outs x'. outs = answers (weights_of (xe_engine x)) reqs \<and> same x x')"
  unfolding answers_def
proof (rule yields_emap [where I = "same x"])
  fix y x1 assume y: "y \<in> set reqs" and x1: "same x x1"
  obtain hs d X where q: "y = (hs, d, X)" by (metis prod_cases3)
  have c: "config_of x1 = config_of x" and w: "weights_of (xe_engine x1) = weights_of (xe_engine x)" using x1 by (simp_all add: same_def)
  have r: "mat rows d X" "fits (weights_of (xe_engine x)) d hs" "probes_cached x1 (weights_of (xe_engine x)) hs"
    using reqs y session_ok_same [OF c] by (auto simp: requests_fit_def q)
  have st: "session_ok x1" "\<not> xe_haar_mask_bf16 x1" "accepts x1 rows" using session_ok_still [OF c] ok full acc by simp_all
  have "yields (offload_linear_many F H L E hs (d, X)) x1
      (\<lambda>outs x'. outs = map (\<lambda>h. weight_product (the (weights_of (xe_engine x) h)) X) hs \<and> same x1 x')"
    using many_yields [OF E L S r(1) st, of hs] r(2,3) w by simp
  then have "yields (offload_linear_many F H L E hs (d, X)) x1
      (\<lambda>outs x'. outs = map (\<lambda>h. weight_product (the (weights_of (xe_engine x) h)) X) hs \<and> same x x')"
    by (rule yields_mono) (use same_trans [OF x1] in blast)
  then show "yields (case y of (hs, X) \<Rightarrow> offload_linear_many F H L E hs X) x1
      (\<lambda>outs x'. outs = (case y of (hs, d, X) \<Rightarrow> map (\<lambda>h. weight_product (the (weights_of (xe_engine x) h)) X) hs) \<and> same x x')"
    by (simp add: q)
qed (simp add: same_def)

lemma plain_series_yields:
  assumes reqs: "requests_fit x (weights_of (pe_engine p)) rows reqs"
  shows "yields (emap (\<lambda>(hs, X). plain_offload_linear_many E hs X) reqs) p
    (\<lambda>outs p'. outs = answers (weights_of (pe_engine p)) reqs \<and> weights_of (pe_engine p') = weights_of (pe_engine p))"
  unfolding answers_def
proof (rule yields_emap [where I = "\<lambda>p'. weights_of (pe_engine p') = weights_of (pe_engine p)"])
  fix y and p1 :: "(real, 'v) plaintext_executor"
  assume y: "y \<in> set reqs" and w: "weights_of (pe_engine p1) = weights_of (pe_engine p)"
  obtain hs d X where q: "y = (hs, d, X)" by (metis prod_cases3)
  have "mat rows d X" "weights_fit (weights_of (pe_engine p1)) d hs" using reqs y w by (auto simp: requests_fit_def q fits_def)
  from plain_many_yields [OF this]
  show "yields (case y of (hs, X) \<Rightarrow> plain_offload_linear_many E hs X) p1
      (\<lambda>outs p'. outs = (case y of (hs, d, X) \<Rightarrow> map (\<lambda>h. weight_product (the (weights_of (pe_engine p) h)) X) hs) \<and>
        weights_of (pe_engine p') = weights_of (pe_engine p))"
    by (simp add: q w)
qed simp

lemma pass_yields:
  assumes E: "exact F H" and L: "lib_ok L" and S: "sampler_ends F L"
    and ok: "session_ok x" and full: "\<not> xe_haar_mask_bf16 x" and rows: "0 < shape_rows shape"
    and reqs: "requests_fit x (weights_of (xe_engine x)) (shape_rows shape) reqs"
  shows "yields (eseq (begin_forward_session F H L shared shape) (emap (\<lambda>(hs, X). offload_linear_many F H L E hs X) reqs)) x
    (\<lambda>outs x'. outs = answers (weights_of (xe_engine x)) reqs \<and> session_ok x' \<and> weights_of (xe_engine x') = weights_of (xe_engine x))"
  unfolding yields_eseq
proof (rule yields_mono [OF begin_yields [OF E ok rows]], elim conjE)
  fix x1 assume x1: "session_ok x1" "accepts x1 (shape_rows shape)" "prepared x x1"
  then have "requests_fit x1 (weights_of (xe_engine x1)) (shape_rows shape) reqs"
    using reqs by (simp add: requests_fit_def prepared_def probes_cached_def)
  from series_yields [OF E L S x1(1) _ x1(2) this]
  show "yields (emap (\<lambda>(hs, X). offload_linear_many F H L E hs X) reqs) x1
      (\<lambda>outs x'. outs = answers (weights_of (xe_engine x)) reqs \<and> session_ok x' \<and> weights_of (xe_engine x') = weights_of (xe_engine x))"
    by (rule yields_mono) (use x1 full session_ok_config in \<open>auto simp: prepared_def same_def\<close>)
qed

end

end
