(* ===== verification/Gelo_Library.thy ===== *)
theory Gelo_Library
  imports Gelo_Forward
begin

text \<open>
  The libraries the executor calls, as a contract and with an instance over the reals: the
  products and sums are the mathematical ones and the transform is the discrete cosine transform
  of type IV, for which the law the masks need is proved.
\<close>

section \<open>The cosine transform\<close>

definition real_dct4 :: "nat \<Rightarrow> real list \<Rightarrow> real list" where
  "real_dct4 n = matvec n (\<lambda>i j. cos (pi / n * (real i + 1 / 2) * (real j + 1 / 2)))"

lemma cos_sum: "2 * sin h * (\<Sum>k<n. cos ((2 * real k + 1) * h)) = sin (2 * real n * h)"
proof (induction n)
  case (Suc n)
  have "2 * sin h * cos ((2 * real n + 1) * h) = sin (2 * real (Suc n) * h) - sin (2 * real n * h)"
    using sin_times_cos [of h "(2 * real n + 1) * h"] sin_minus [of "2 * real n * h"] by (simp add: algebra_simps)
  then show ?case using Suc by (simp add: distrib_left)
qed simp

lemma cos_sum_zero:
  assumes "0 < m" and "m < 2 * n"
  shows "(\<Sum>k<n. cos (pi / n * real m * (real k + 1 / 2))) = 0"
proof -
  define h where "h = pi * real m / (2 * real n)"
  have n: "0 < real n" using assms by simp
  have "real m < 2 * real n" using assms(2) by (metis of_nat_less_iff of_nat_mult of_nat_numeral)
  then have "0 < h" "h < pi" using assms n by (simp_all add: h_def field_simps)
  then have "sin h \<noteq> 0" using sin_gt_zero [of h] by simp
  moreover have "sin (2 * real n * h) = 0" using n by (simp add: h_def mult.commute [of pi])
  ultimately have "(\<Sum>k<n. cos ((2 * real k + 1) * h)) = 0" using cos_sum [of h n] by simp
  moreover have "(2 * real k + 1) * h = pi / n * real m * (real k + 1 / 2)" for k using n by (simp add: h_def field_simps)
  ultimately show ?thesis by simp
qed

lemma dct4_rows:
  assumes "i < n" and "j < n"
  shows "(\<Sum>k<n. cos (pi / n * (real i + 1 / 2) * (real k + 1 / 2)) * cos (pi / n * (real k + 1 / 2) * (real j + 1 / 2))) = (if i = j then real n / 2 else 0)"
proof -
  let ?d = "if i < j then j - i else i - j"
  have prod: "cos (pi / n * (real i + 1 / 2) * (real k + 1 / 2)) * cos (pi / n * (real k + 1 / 2) * (real j + 1 / 2)) =
      cos (pi / n * real ?d * (real k + 1 / 2)) / 2 + cos (pi / n * real (i + j + 1) * (real k + 1 / 2)) / 2" for k
  proof -
    define c where "c = pi / n"
    let ?a = "c * (real i + 1 / 2) * (real k + 1 / 2)" and ?b = "c * (real k + 1 / 2) * (real j + 1 / 2)"
    have "?a + ?b = c * real (i + j + 1) * (real k + 1 / 2)" by (simp add: algebra_simps)
    moreover have "cos (?a - ?b) = cos (c * real ?d * (real k + 1 / 2))"
    proof (cases "i < j")
      case True
      then have "?a - ?b = - (c * real ?d * (real k + 1 / 2))" by (simp add: of_nat_diff algebra_simps)
      then show ?thesis by (metis cos_minus)
    next
      case False
      then have "?a - ?b = c * real ?d * (real k + 1 / 2)" by (simp add: of_nat_diff algebra_simps)
      then show ?thesis by simp
    qed
    ultimately show ?thesis unfolding c_def [symmetric] using cos_times_cos [of ?a ?b] by (simp add: add_divide_distrib)
  qed
  have "(\<Sum>k<n. cos (pi / n * real (i + j + 1) * (real k + 1 / 2))) = 0" by (rule cos_sum_zero) (use assms in auto)
  moreover have "(\<Sum>k<n. cos (pi / n * real ?d * (real k + 1 / 2))) = (if i = j then real n else 0)"
  proof (cases "i = j")
    case False
    then have "(\<Sum>k<n. cos (pi / n * real ?d * (real k + 1 / 2))) = 0" by (intro cos_sum_zero) (use assms in auto)
    then show ?thesis using False by simp
  qed simp
  ultimately show ?thesis unfolding prod sum.distrib by (simp flip: sum_divide_distrib)
qed

lemma linear_on_matvec: "linear_on n (matvec n M)"
  by (auto simp: linear_on_def)

theorem real_dct4_law: "dct_law real_dct4"
  unfolding dct_law_def
proof (intro allI impI conjI)
  fix n :: nat and x :: "real list" assume n: "0 < n" and x: "length x = n"
  let ?c = "\<lambda>i j. cos (pi / n * (real i + 1 / 2) * (real j + 1 / 2))"
  show "real_dct4 n (real_dct4 n x) = map ((*) (real n / 2)) x"
  proof (rule nth_equalityI)
    fix i assume "i < length (real_dct4 n (real_dct4 n x))"
    then have i: "i < n" by (simp add: real_dct4_def)
    have "real_dct4 n (real_dct4 n x) ! i = (\<Sum>k<n. ?c i k * (\<Sum>j<n. ?c k j * x ! j))" using i by (simp add: real_dct4_def matvec_def)
    also have "\<dots> = (\<Sum>j<n. (\<Sum>k<n. ?c i k * ?c k j) * x ! j)"
      unfolding sum_distrib_left sum_distrib_right by (subst sum.swap) (simp add: mult.assoc)
    also have "\<dots> = (\<Sum>j<n. (if i = j then real n / 2 else 0) * x ! j)" using dct4_rows [OF i] by (intro sum.cong refl) (simp only: lessThan_iff)
    also have "\<dots> = real n / 2 * x ! i" using i by (simp add: if_distrib [of "\<lambda>x. x * _"] cong: if_cong)
    finally show "real_dct4 n (real_dct4 n x) ! i = map ((*) (real n / 2)) x ! i" using i x by simp
  qed (simp add: real_dct4_def x)
qed (simp add: real_dct4_def linear_on_matvec)

section \<open>The contract of the libraries\<close>

locale honest_library =
  fixes F :: "real f32_ops" and H :: "real f32_math" and L :: "(real, 'g, 'h) gelo_lib" and widen :: "u16 \<Rightarrow> real"
  assumes exact: "exact F H" and lib: "lib_ok L" and ends: "sampler_ends F L"

sublocale honest_library \<subseteq> reference: offload_engine "reference_engine F L widen" "\<lambda>ws. ws"
  by (rule reference_honest [OF lib])

text \<open>Arithmetic on the reals; the bits of a float stand for their number, and the generators count.\<close>

definition real_ops :: "real f32_ops" where
  "real_ops = \<lparr>f_lit = of_int, f_add = (+), f_sub = (-), f_mul = (*), f_div = (/), f_max = max, f_abs = abs, f_sqrt = sqrt, f_ln = ln,
     f_neg = uminus, f_floor = (\<lambda>x. of_int \<lfloor>x\<rfloor>), f_round = (\<lambda>x. of_int (round x)), f_clamp = (\<lambda>x lo hi. max lo (min x hi)),
     f_min_positive = 1 / 2 ^ 126, f_lt = (<), f_le = (\<le>), f_to_u8 = (\<lambda>x. word_of_int \<lfloor>x\<rfloor>), f_of_u8 = (\<lambda>w. real (unat w)),
     f_to_u32 = (\<lambda>x. nat \<lfloor>x\<rfloor>), f_to_le = (\<lambda>_. []), f_of_le = (\<lambda>_. 0)\<rparr>"

definition real_math :: "real f32_math" where
  "real_math = \<lparr>f_powf = (powr), f_cos = cos, f_sin = sin, f_pi = pi, f_epsilon = 1 / 2 ^ 23, f_of_nat = real, f_of_bits = (\<lambda>w. real (unat w)),
     f_sum_start = 0, f_total_less = (<)\<rparr>"

lemma real_exact: "exact real_ops real_math"
  by (simp add: exact_def real_ops_def real_math_def tiny_bits_def abs_floor_bits_def)

definition real_lib :: "(real, nat, nat) gelo_lib" where
  "real_lib = \<lparr>gl_cpu = \<lparr>avx512 = False, avx2 = True\<rparr>, gl_next_u32 = (\<lambda>g. (word_of_nat g, g + 1)), gl_normal = (\<lambda>g. (real g, g + 1)),
     gl_probe = (\<lambda>g. (int (g mod 7) - 3, g + 1)), gl_scalar = (\<lambda>g. (1 + real g, g + 1)), gl_shuffle = (\<lambda>xs g. (rotate g xs, g + 1)),
     gl_fill_rng = (\<lambda>n g. (replicate n (word_of_nat g), g + 1)), gl_chacha = (\<lambda>_. 0), gl_set_stream = (\<lambda>s _. unat s),
     gl_fill = (\<lambda>n h. (replicate n 32, h + 1)), gl_seed = length, gl_dct4 = real_dct4,
     gl_sgemm = (\<lambda>tr a (d, b). if tr then colwise (length a) d (matvec (length a) (\<lambda>i k. a ! k ! i)) b
        else colwise (length a) d (matvec (length a) (\<lambda>i k. a ! i ! k)) b),
     gl_lpgemm = (\<lambda>_ _ _. []), gl_to_bf16 = (\<lambda>x. word_of_int \<lfloor>x\<rfloor>), gl_dot = (\<lambda>xs ys. \<Sum>j<length xs. xs ! j * ys ! j),
     gl_mm = (\<lambda>(_, X) (p, W). matmul p X W), gl_exp = exp, gl_neg_infinity = 0\<rparr>"

lemma real_lib_ok: "lib_ok real_lib"
  by (auto simp: lib_ok_def real_lib_def real_dct4_law mat_def)

lemma emitted:
  "length (fold (\<lambda>i out. if n \<le> length out then out else take n (out @ [a i, b i])) [0..<m] []) = min n (2 * m)"
  by (induction m) auto

lemma pool_word: "i < 2 * p \<Longrightarrow> u32s_of_bytes (replicate (4 * (2 * p)) 32) ! i = 538976288"
proof -
  assume i: "i < 2 * p"
  have bytes: "replicate 4 (32 :: 8 word) = [32, 32, 32, 32]" by code_simp
  have "4 \<le> 4 * (2 * p) - 4 * i" using i by simp
  then have "take 4 (drop (4 * i) (replicate (4 * (2 * p)) (32 :: 8 word))) = [32, 32, 32, 32]" by (simp add: bytes min_absorb1)
  moreover have "u32s_of_bytes (replicate (4 * (2 * p)) 32) ! i = word_of_nat (of_le_bytes (take 4 (drop (4 * i) (replicate (4 * (2 * p)) 32))))"
    unfolding u32s_of_bytes_def by (subst nth_map) (use i in simp_all)
  ultimately show ?thesis by simp
qed

lemma lane_value: "lane real_ops 538976288 = 538976288 / 2147483648"
  by (simp add: lane_def real_ops_def)

lemma emit_full:
  assumes "8 * (p div 8) = p" and "\<And>i. i < 2 * p \<Longrightarrow> u ! i = 538976288"
  shows "length (polar_emit real_ops u p sigma n []) = min n (2 * p)"
proof -
  define l :: real where "l = 538976288 / 2147483648"
  have l: "0 < l * l + l * l" "l * l + l * l < 1" by (simp_all add: l_def)
  define c where "c = l * (sigma * sqrt (- 2 * ln (l * l + l * l) / (l * l + l * l)))"
  have u: "lane real_ops (u ! i) = l \<and> lane real_ops (u ! (p + i)) = l" if "i < p" for i
    using that assms(2) by (simp add: lane_value l_def)
  have "polar_emit real_ops u p sigma n [] = fold (\<lambda>i out. if n \<le> length out then out else take n (out @ [c, c])) [0..<p] []"
    unfolding polar_emit_def assms(1)
  proof (rule fold_cong)
    fix i assume "i \<in> set [0..<p]"
    then have "lane real_ops (u ! i) = l" "lane real_ops (u ! (p + i)) = l" using u by simp_all
    note lanes = this
    have ops: "f_ln real_ops = ln" by (simp add: real_ops_def)
    show "(\<lambda>out. if n \<le> length out then out
        else let u1 = lane real_ops (u ! i); u2 = lane real_ops (u ! (p + i)); s = f_add real_ops (f_mul real_ops u1 u1) (f_mul real_ops u2 u2)
          in if f_lt real_ops s (f_lit real_ops 1) \<and> f_lt real_ops (f_lit real_ops 0) s
             then let factor = f_mul real_ops sigma (f_sqrt real_ops (f_div real_ops (f_mul real_ops (f_lit real_ops (- 2)) (f_ln real_ops s)) s))
                  in take n (out @ [f_mul real_ops u1 factor, f_mul real_ops u2 factor])
             else out) = (\<lambda>out. if n \<le> length out then out else take n (out @ [c, c]))"
      by (rule ext) (use l in \<open>simp only: lanes Let_def ops exactD [OF real_exact] c_def of_int_1 of_int_0 simp_thms if_True of_int_minus of_int_numeral\<close>)
  qed simp_all
  then show ?thesis by (simp add: emitted)
qed

lemma pool_size_facts: "n \<le> 2 * pool_size n" "8 * (pool_size n div 8) = pool_size n"
  by (simp_all add: pool_size_def Let_def)

lemma real_sampler_ends: "sampler_ends real_ops real_lib"
  unfolding sampler_ends_def
proof (intro allI)
  fix n :: nat and sigma :: real and h :: nat
  let ?p = "pool_size n" and ?u = "u32s_of_bytes (replicate (4 * (2 * pool_size n)) 32)"
  have fill: "gl_fill real_lib k h = (replicate k 32, h + 1)" for k h by (simp add: real_lib_def)
  have "n \<le> length (polar_emit real_ops ?u ?p sigma n [])"
    using emit_full [OF pool_size_facts(2) pool_word, where n = n and sigma = sigma] pool_size_facts(1) [of n] by simp
  then have "fill_loop real_ops real_lib ?p sigma n (polar_emit real_ops ?u ?p sigma n []) (h + 1) =
      Some (polar_emit real_ops ?u ?p sigma n [], h + 1)" by (subst fill_loop.simps) simp
  then have "fill_loop real_ops real_lib ?p sigma n [] h \<noteq> None" by (subst fill_loop.simps) (simp only: fill Let_def prod.case, simp)
  then show "fill_gaussian real_ops real_lib n sigma h \<noteq> None" by (simp add: fill_gaussian_def)
qed

interpretation real_library: honest_library real_ops real_math real_lib "\<lambda>w. real (unat w)"
  by unfold_locales (rule real_exact real_lib_ok real_sampler_ends)+

end
