(* ===== verification/Gelo_Theorems.thy ===== *)
theory Gelo_Theorems
  imports Gelo_Library
begin

text \<open>
  The properties of the masked offload protocol, each with a witness over the reference engine and
  the library of the reals.
\<close>

section \<open>The transform and the choice of sizes\<close>

lemma fwht_rows_had:
  fixes F :: "'f f32_ops"
  assumes m: "length m = 2 ^ k" and d: "\<And>row. row \<in> set m \<Longrightarrow> length row = d" and "2 \<le> (2 :: nat) ^ k"
  shows "fwht_loop F cpu (2 ^ k) d 1 m = map (had (map2 (f_add F)) (map2 (f_sub F)) k (nth m)) [0..<2 ^ k]"
proof -
  define x where "x = (\<lambda>i. if i < 2 ^ k then m ! i else replicate d (f_lit F 0))"
  have x: "length (x i) = d" for i using m d nth_mem [of i m] by (simp add: x_def)
  have "m = map (had (map2 (f_add F)) (map2 (f_sub F)) 0 x) [0..<2 ^ k]" using m by (intro nth_equalityI) (simp_all add: x_def)
  then have "fwht_loop F cpu (2 ^ k) d 1 m = map (had (map2 (f_add F)) (map2 (f_sub F)) k x) [0..<2 ^ k]"
    using fwht_loop_eq [OF x, of 0 k F cpu] by simp
  also have "\<dots> = map (had (map2 (f_add F)) (map2 (f_sub F)) k (nth m)) [0..<2 ^ k]"
  proof (intro map_cong refl)
    fix i assume "i \<in> set [0..<2 ^ k]"
    then show "had (map2 (f_add F)) (map2 (f_sub F)) k x i = had (map2 (f_add F)) (map2 (f_sub F)) k (nth m) i"
      using had_local [of k x "nth m" k i] by (simp add: x_def)
  qed
  finally show ?thesis .
qed

lemma map2_empty: "(\<And>row. row \<in> set m \<Longrightarrow> row = []) \<Longrightarrow> length m = 2 ^ k \<Longrightarrow> map (had (map2 f) (map2 g) k (nth m)) [0..<2 ^ k] = m"
proof (rule nth_equalityI)
  assume m: "\<And>row. row \<in> set m \<Longrightarrow> row = []" and len: "length m = 2 ^ k"
  fix i assume "i < length (map (had (map2 f) (map2 g) k (nth m)) [0..<2 ^ k])"
  then have i: "i < 2 ^ k" by simp
  have "had (map2 f) (map2 g) k (nth m) i = had (map2 f) (map2 g) k (\<lambda>_. []) i"
    by (rule had_local [of k _ _ k]) (use i m len nth_mem in auto)
  also have "\<dots> = []" using had_closed [of "{[]}" "map2 f" "map2 g" "\<lambda>_. []" k i] by simp
  finally show "map (had (map2 f) (map2 g) k (nth m)) [0..<2 ^ k] ! i = m ! i" using i len m [of "m ! i"] nth_mem [of i m] by simp
qed simp

text \<open>C39: The Walsh-Hadamard kernel in place, with its radix-8 stages and whatever vector instructions
  the processor has, computes the textbook transform: stage after stage of row sums and row
  differences, bit for bit in the arithmetic of f32.\<close>

theorem fwht_kernels_agree:
  fixes F :: "'f f32_ops"
  assumes "length m = 2 ^ k" and "\<And>row. row \<in> set m \<Longrightarrow> length row = d"
  shows "fwht_rows F cpu (2 ^ k) d m = map (had (map2 (f_add F)) (map2 (f_sub F)) k (nth m)) [0..<2 ^ k]"
proof (cases "d = 0")
  case True
  then show ?thesis using assms map2_empty [of m k] by (simp add: fwht_rows_def)
next
  case d: False
  show ?thesis
  proof (cases k)
    case 0
    then show ?thesis using assms(1) d by (cases m) (simp_all add: fwht_rows_def)
  next
    case (Suc j)
    then have "2 \<le> (2 :: nat) ^ k" by simp
    then show ?thesis using fwht_rows_had [OF assms] d by (simp add: fwht_rows_def)
  qed
qed

theorem fwht_kernels_agree_witness:
  "fwht_rows real_ops \<lparr>avx512 = False, avx2 = True\<rparr> (2 ^ 1) 1 [[1], [2]] = [[3], [- 1]]"
proof -
  have "fwht_rows real_ops \<lparr>avx512 = False, avx2 = True\<rparr> (2 ^ 1) 1 [[1], [2]] =
      map (had (map2 (f_add real_ops)) (map2 (f_sub real_ops)) 1 (nth [[1], [2]])) [0..<2 ^ 1]"
    by (rule fwht_kernels_agree) auto
  also have "\<dots> = [[3], [- 1]]" by (simp add: bf_def exactD [OF real_exact] numeral_2_eq_2)
  finally show ?thesis .
qed

lemma bit_length_lower: "0 < j \<Longrightarrow> 2 ^ bit_length j \<le> 2 * j"
proof (rule ccontr)
  assume j: "0 < j" and "\<not> 2 ^ bit_length j \<le> 2 * j"
  then have lt: "2 * j < 2 ^ bit_length j" by simp
  have "bit_length j \<noteq> 0" using j by (simp add: bit_length.simps)
  then obtain b where b: "bit_length j = Suc b" by (cases "bit_length j") auto
  then have "j < 2 ^ b" using lt by simp
  then show False using bit_length_le [of j b] b by simp
qed

lemma next_power_less: "0 < n \<Longrightarrow> next_power_of_two n < 2 * n"
  using bit_length_lower [of "n - 1"] by (cases "n \<le> 1") (simp_all add: next_power_of_two_def)

lemma next_power_fixed: "next_power_of_two (next_power_of_two n) = next_power_of_two n"
proof -
  have "next_power_of_two (2 ^ k) = 2 ^ k" for k
  proof (cases k)
    case (Suc j)
    have "bit_length (2 ^ k - 1) \<le> k" by (rule bit_length_le) simp
    moreover have "\<not> bit_length (2 ^ k - 1) \<le> j"
    proof
      assume "bit_length (2 ^ k - 1) \<le> j"
      then have "2 ^ bit_length (2 ^ k - 1) \<le> (2 :: nat) ^ j" by simp
      then have "2 ^ k - 1 < (2 :: nat) ^ j" using bit_length_upper [of "2 ^ k - 1"] by linarith
      then show False using Suc one_le_power [of "2 :: nat" j] by simp
    qed
    ultimately have "bit_length (2 ^ k - 1) = k" using Suc by linarith
    moreover have "1 < (2 :: nat) ^ k" by (rule one_less_power) (use Suc in simp_all)
    ultimately show ?thesis by (simp add: next_power_of_two_def)
  qed (simp add: next_power_of_two_def)
  moreover have "\<exists>k. next_power_of_two n = 2 ^ k" unfolding next_power_of_two_def by (metis power_0)
  ultimately show ?thesis by metis
qed

text \<open>A batch decoded under one shared mask has a shield that fills it up to a power of two: the
  automatic choice then always takes the Hadamard cascade, no row is padding, and the shield has
  at least its base size and less than doubles the batch with it.\<close>

theorem shared_decode_aligned:
  assumes "0 < b" and "0 < k_base"
  defines "s \<equiv> b + shield_k_for_batch b k_base"
  shows "resolve_mask_kind_for_shape KindAuto s = KindHd3 \<and> stacked_size KindHd3 s = s \<and> k_base \<le> shield_k_for_batch b k_base \<and>
    s < 2 * (b + k_base)"
proof -
  have "b + k_base \<le> next_power_of_two (b + k_base)" by (rule next_power_ge)
  then have s: "s = next_power_of_two (b + k_base)" "k_base \<le> shield_k_for_batch b k_base"
    by (simp_all add: s_def shield_k_for_batch_def)
  then have "next_power_of_two s = s" using next_power_fixed by simp
  moreover have "2 \<le> s" using assms s(2) by (simp add: s_def)
  ultimately show ?thesis using s next_power_less [of "b + k_base"] assms
    by (simp add: stacked_size_def HD3_AUTO_MAX_PAD_RATIO_NUM_def HD3_AUTO_MAX_PAD_RATIO_DEN_def)
qed

theorem shared_decode_aligned_witness:
  "resolve_mask_kind_for_shape KindAuto (3 + shield_k_for_batch 3 8) = KindHd3 \<and> stacked_size KindHd3 (3 + shield_k_for_batch 3 8) = 3 + shield_k_for_batch 3 8 \<and>
    8 \<le> shield_k_for_batch 3 8 \<and> 3 + shield_k_for_batch 3 8 < 2 * (3 + 8)"
  by (rule shared_decode_aligned) simp_all

section \<open>Masks\<close>

text \<open>C40: Every dense mask the sampler returns is orthogonal, whatever the generator drew, degenerate
  draws included.\<close>

theorem haar_orthogonal:
  assumes "exact F H" and "i < n" and "j < n"
  shows "length (fst (sample_haar_orthogonal F H L n g)) = n \<and>
    (\<Sum>r<n. fst (sample_haar_orthogonal F H L n g) ! r ! i * fst (sample_haar_orthogonal F H L n g) ! r ! j) = (if i = j then 1 else 0)"
  using sample_haar_orth [OF assms(1), of n L g] assms(2,3) by (simp add: orth_def mat_def)

theorem haar_orthogonal_witness:
  "length (fst (sample_haar_orthogonal real_ops real_math real_lib 3 0)) = 3 \<and>
    (\<Sum>r<3. fst (sample_haar_orthogonal real_ops real_math real_lib 3 0) ! r ! 1 * fst (sample_haar_orthogonal real_ops real_math real_lib 3 0) ! r ! 2) = 0"
  using haar_orthogonal [OF real_exact, of 1 3 2 real_lib 0] by simp

text \<open>C36: Masking rows with a fresh mask of any family, multiplying the masked rows by a weight matrix
  and unmasking the product gives the product of the rows.\<close>

theorem fresh_mask_commutes:
  assumes E: "exact F H" and L: "lib_ok L" and M: "fresh_mask F H L False kind n g = (Inr M, g')"
    and X: "mat n d X" and W: "mat d p W"
  shows "\<exists>masked. family_apply F L M d X = (Inr masked :: (gelo_error, _) outcome) \<and> mat n d masked \<and>
    family_unapply F L M p (matmul p masked W) = (Inr (matmul p X W) :: (gelo_error, _) outcome)"
proof -
  have ok: "family_ok M" "family_n M = n" using fresh_mask_typed [OF E M] by simp_all
  obtain masked where m: "family_apply F L M d X = (Inr masked :: (gelo_error, _) outcome)" "operand F L M d X masked"
    using apply_operand [OF E L ok(1), of d X "[]"] X ok(2) by auto
  obtain ap un where un: "masking n ap un" "\<And>d m. mat n d m \<Longrightarrow> family_apply F L M d m = (Inr (ap d m) :: (gelo_error, _) outcome)"
      "\<And>d m. mat n d m \<Longrightarrow> family_unapply F L M d m = (Inr (un d m) :: (gelo_error, _) outcome)"
    by (rule family_pair [OF E L ok(1), unfolded ok(2)]) blast
  have masked: "masked = ap d X" using m(1) un(2) [OF X] by simp
  have mm: "mat n d masked" using operand_mat [OF E L m(2)] ok(2) by simp
  have "length W = d" using W by (simp add: mat_def)
  then have "un p (matmul p masked W) = matmul p X W" unfolding masked by (rule masking_matmul [OF un(1) X])
  then show ?thesis using m(1) mm un(3) [OF mat_matmul [OF mm], of p W] by simp
qed

theorem fresh_mask_commutes_witness:
  "\<exists>M masked. fst (fresh_mask real_ops real_math real_lib False KindDct4 3 0) = Inr M \<and>
    family_apply real_ops real_lib M 1 [[1], [2], [3]] = (Inr masked :: (gelo_error, _) outcome) \<and>
    family_unapply real_ops real_lib M 1 (matmul 1 masked [[5]]) = (Inr [[5], [10], [15]] :: (gelo_error, _) outcome)"
proof -
  obtain M g' where M: "fresh_mask real_ops real_math real_lib False KindDct4 3 0 = (Inr M, g')"
    using fresh_mask_succeeds [OF real_exact, of 3 KindDct4 real_lib False 0] by (auto simp: stacked_size_def)
  have "matmul 1 [[1], [2], [3]] [[5]] = [[5], [10], [15 :: real]]" by (simp add: matmul_def vecmat_def)
  then show ?thesis
    using fresh_mask_commutes [OF real_exact real_lib_ok M, of 1 "[[1], [2], [3]]" 1 "[[5]]"] M by (auto simp: mat_def)
qed

section \<open>The integrity probe\<close>

text \<open>The integrity probe accepts the product, and rejects without probing a weight that does not fit
  or a result of another shape.\<close>

theorem probe_accepts_product:
  assumes "exact F H" and "lib_ok L" and "mat m k A" and "mat k p B"
  shows "fst (verify_offload F H L probes (k, A) (p, B) (p, matmul p A B) g) = Inr () \<and>
    (0 < probes \<and> length B' \<noteq> k \<longrightarrow> verify_offload F H L probes (k, A) (p, B') Z g = (Inl ProbeShapeB, g)) \<and>
    (0 < probes \<and> (length (snd Z) \<noteq> m \<or> fst Z \<noteq> p) \<longrightarrow> verify_offload F H L probes (k, A) (p, B) Z g = (Inl ProbeShapeZ, g))"
  using verify_accepts [OF assms, of probes g] assms(3,4) by (auto simp: verify_offload_def mat_def)

theorem probe_accepts_product_witness:
  "fst (verify_offload real_ops real_math real_lib 2 (1, [[3]]) (1, [[5]]) (1, [[15]]) 0) = Inr () \<and>
    verify_offload real_ops real_math real_lib 2 (1, [[3]]) (1, [[5]]) (2, [[15, 0]]) 0 = (Inl ProbeShapeZ, 0)"
proof -
  have "matmul 1 [[3]] [[5]] = [[15 :: real]]" by (simp add: matmul_def vecmat_def)
  then show ?thesis
    using probe_accepts_product [OF real_exact real_lib_ok, of 1 1 "[[3]]" 1 "[[5]]" 2 0 "[]" "(2, [[15, 0]])"] by (simp add: mat_def)
qed

section \<open>Operands that are both secret\<close>

text \<open>C38: The outsourced product of queries and keys comes back exactly as their product, whatever the
  generator drew for the fillers, the scalars and the permutations, and with any number of probes.\<close>

theorem qkt_outsourced_exact:
  assumes "offload_engine E weights_of" and "exact F H" and "lib_ok L" and "mat n d q" and "mat d n kt"
  shows "fst (offload_qkt F H L E (d, q) (n, kt) probes (v, g)) = Inr (n, matmul n q kt)"
  using offload_engine.qkt_exact [OF assms, of probes v g] by auto

theorem qkt_outsourced_exact_witness:
  "fst (offload_qkt real_ops real_math real_lib (reference_engine real_ops real_lib (\<lambda>w. real (unat w))) (1, [[2], [3]]) (2, [[5, 7]]) 1 (Map.empty, 0)) =
    Inr (2, [[10, 14], [15, 21]])"
proof -
  have "matmul 2 [[2], [3]] [[5, 7]] = [[10, 14], [15, 21 :: real]]" by (simp add: matmul_def vecmat_def numeral_2_eq_2)
  then show ?thesis
    using qkt_outsourced_exact [OF reference_honest [OF real_lib_ok] real_exact real_lib_ok, of 2 1 "[[2], [3]]" "[[5, 7]]"] by (simp add: mat_def)
qed



section \<open>The executor\<close>


definition real_executor :: "(real, nat, nat, real weights) executor" where
  "real_executor = with_seed real_ops real_lib [\<lparr>wh_layer = 0, wh_kind = WQ\<rparr> \<mapsto> (1, [[2]])] (replicate 32 0)"

lemma real_executor_simps:
  "xe_session real_executor = None" "session_ok real_executor" "\<not> xe_haar_mask_bf16 real_executor" "xe_verify_probes real_executor = 0"
  "xe_engine real_executor = [\<lparr>wh_layer = 0, wh_kind = WQ\<rparr> \<mapsto> (1, [[2]])]"
  by (simp_all add: real_executor_def with_seed_def with_shield_def session_ok_def)


text \<open>C1: A forward pass, with one mask or one for each sequence and with the masks of any family, gives
  for every series of linear offloads exactly what the plaintext executor gives, whatever the buffers
  held before.\<close>

theorem forward_pass_equals_plaintext:
  assumes engine: "offload_engine E weights_of" and "exact F H" and "lib_ok L" and "sampler_ends F L"
    and "session_ok x" and "\<not> xe_haar_mask_bf16 x" and "0 < shape_rows shape"
    and reqs: "requests_fit x (weights_of (xe_engine x)) (shape_rows shape) reqs" and p: "weights_of (pe_engine p) = weights_of (xe_engine x)"
  shows "fst (eseq (begin_forward_session F H L shared shape) (emap (\<lambda>(hs, X). offload_linear_many F H L E hs X) reqs) x) =
    fst (emap (\<lambda>(hs, X). plain_offload_linear_many E hs X) reqs p)"
  using offload_engine.pass_yields [OF assms(1-8), of shared]
    offload_engine.plain_series_yields [OF engine, of x p "shape_rows shape" reqs] reqs p
  unfolding yields_def by auto

theorem forward_pass_equals_plaintext_witness:
  "fst (eseq (begin_forward_session real_ops real_math real_lib False (SingleShape 2))
      (emap (\<lambda>(hs, X). offload_linear_many real_ops real_math real_lib (reference_engine real_ops real_lib (\<lambda>w. real (unat w))) hs X)
        [([\<lparr>wh_layer = 0, wh_kind = WQ\<rparr>], 1, [[3], [5]])]) real_executor) = Inr [[(1, [[6], [10]])]]"
proof -
  let ?h = "\<lparr>wh_layer = 0, wh_kind = WQ\<rparr>" and ?p = "\<lparr>pe_engine = [\<lparr>wh_layer = 0, wh_kind = WQ\<rparr> \<mapsto> (1, [[2 :: real]])], pe_ple_table = None\<rparr>"
  have mm: "gl_mm real_lib (1, [[3], [5]]) (1, [[2]]) = [[6], [10]]" by (simp add: real_lib_def matmul_def vecmat_def)
  have "fst (emap (\<lambda>(hs, X). plain_offload_linear_many (reference_engine real_ops real_lib (\<lambda>w. real (unat w))) hs X) [([?h], 1, [[3], [5]])] ?p) =
      Inr [[(1, [[6], [10]])]]"
    using mm by (simp add: plain_offload_linear_many_def plain_offload_linear_def plain_engine_def zoom_def reference_engine_def
        default_run_registered_linear_def default_matmul_many_def reference_matmul_def eff_simps)
  moreover have "requests_fit real_executor [?h \<mapsto> (1, [[2]])] 2 [([?h], 1, [[3], [5]])]"
    by (simp add: requests_fit_def fits_def weights_fit_def probes_cached_def real_executor_simps mat_def)
  ultimately show ?thesis
    using forward_pass_equals_plaintext [OF reference_honest [OF real_lib_ok, where F = real_ops and widen = "\<lambda>w. real (unat w)"]
        real_exact real_lib_ok real_sampler_ends real_executor_simps(2,3), where shape = "SingleShape 2" and reqs = "[([?h], 1, [[3], [5]])]"
        and p = ?p and shared = False]
    by (simp add: real_executor_simps)
qed

end
