(* ===== verification/Dec_Kernels.thy ===== *)
theory Dec_Kernels
  imports Gelo_Exec
begin

text \<open>
  The numeric kernels of the decoder of \<^verbatim>\<open>crates/gelo-embedder/src/decoder\<close>: configuration
  (\<^verbatim>\<open>config.rs\<close>), weights (\<^verbatim>\<open>weights.rs\<close>), normalisation (\<^verbatim>\<open>rms_norm.rs\<close>), rotary positions
  (\<^verbatim>\<open>rope.rs\<close>), activation (\<^verbatim>\<open>swiglu.rs\<close>) and causal attention (\<^verbatim>\<open>attention.rs\<close>).  A matrix is
  its number of columns with the list of its rows; a failed assertion is a panic.  The loops over
  rows and heads run in parallel above a size, with the same result.
\<close>

section \<open>Configuration and weights\<close>

text \<open>Library code beside \<open>gelo_lib\<close>: \<open>is_finite\<close>, \<open>tanh\<close>, the widening of \<open>bf16\<close> and the
  conversion of a float to \<open>usize\<close>.\<close>

record 'f kernel_lib =
  kn_is_finite :: "'f \<Rightarrow> bool"
  kn_tanh :: "'f \<Rightarrow> 'f"
  kn_widen :: "u16 \<Rightarrow> 'f"
  kn_to_usize :: "'f \<Rightarrow> nat"

datatype attention_class = Local nat | Global

record 'f decoder_config =
  dc_vocab_size :: nat
  dc_hidden_size :: nat
  dc_intermediate_size :: nat
  dc_num_hidden_layers :: nat
  dc_num_attention_heads :: nat
  dc_num_key_value_heads :: nat
  dc_head_dim :: "nat option"
  dc_max_position_embeddings :: nat
  dc_rms_norm_eps :: 'f
  dc_rope_theta :: 'f
  dc_skip_first_layers :: nat
  dc_skip_last_layer :: bool
  dc_use_out_attn_mult :: bool
  dc_out_attn_mult_min_seq_len :: "nat option"
  dc_use_perm_attention :: bool
  dc_perm_attention_min_seq_len :: "nat option"
  dc_attention_classes :: "attention_class list option"
  dc_partial_rope :: "'f option"
  dc_kv_shared_in_global :: bool
  dc_final_logit_softcapping :: "'f option"

definition head_dim_value :: "'f decoder_config \<Rightarrow> nat" where
  "head_dim_value c = (case dc_head_dim c of Some d \<Rightarrow> d | None \<Rightarrow> dc_hidden_size c div dc_num_attention_heads c)"

definition q_dim :: "'f decoder_config \<Rightarrow> nat" where
  "q_dim c = dc_num_attention_heads c * head_dim_value c"

definition kv_dim :: "'f decoder_config \<Rightarrow> nat" where
  "kv_dim c = dc_num_key_value_heads c * head_dim_value c"

definition offload_layer :: "'f decoder_config \<Rightarrow> nat \<Rightarrow> bool" where
  "offload_layer c layer =
     (if layer < dc_skip_first_layers c then False
      else if dc_skip_last_layer c \<and> layer + 1 = dc_num_hidden_layers c then False
      else True)"

definition out_attn_mult_enabled_for :: "'f decoder_config \<Rightarrow> nat \<Rightarrow> bool" where
  "out_attn_mult_enabled_for c n \<longleftrightarrow>
     dc_use_out_attn_mult c \<and> (case dc_out_attn_mult_min_seq_len c of Some m \<Rightarrow> m | None \<Rightarrow> dc_hidden_size c) \<le> n"

definition perm_attention_enabled_for :: "'f decoder_config \<Rightarrow> nat \<Rightarrow> bool" where
  "perm_attention_enabled_for c n =
     (if \<not> dc_use_perm_attention c then False
      else if out_attn_mult_enabled_for c n then False
      else (case dc_perm_attention_min_seq_len c of Some m \<Rightarrow> m | None \<Rightarrow> 64) \<le> n)"

definition assert_that :: "bool \<Rightarrow> ('e, unit) outcome" where
  "assert_that b = (if b then Inr () else Inl Panic)"

lemma assert_that_simps [simp]: "assert_that True = Inr ()" "assert_that False = Inl Panic"
  by (simp_all add: assert_that_def)

definition effective_attention_class :: "'f decoder_config \<Rightarrow> nat \<Rightarrow> ('e, attention_class) outcome" where
  "effective_attention_class c li =
     (case dc_attention_classes c of
       None \<Rightarrow> Inr Global
     | Some v \<Rightarrow> rbind (assert_that (length v = dc_num_hidden_layers c \<and> li < length v)) (\<lambda>_. Inr (v ! li)))"

definition rotated_dim :: "'f f32_ops \<Rightarrow> 'f f32_math \<Rightarrow> 'f kernel_lib \<Rightarrow> 'f decoder_config \<Rightarrow> ('e, nat) outcome" where
  "rotated_dim F H K c =
     (case dc_partial_rope c of
       None \<Rightarrow> Inr (head_dim_value c)
     | Some p \<Rightarrow> rbind (assert_that (f_le F (f_lit F 0) p \<and> f_le F p (f_lit F 1))) (\<lambda>_.
         let r = kn_to_usize K (f_floor F (f_mul F p (f_of_nat H (head_dim_value c)))) in Inr (r - r mod 2)))"

type_synonym bf16_matrix = "nat \<times> u16 list list"

record 'f decoder_layer =
  dl_norm_attn :: "'f list"
  dl_wq :: "bf16_matrix option"
  dl_wk :: "bf16_matrix option"
  dl_wv :: "bf16_matrix option"
  dl_wo :: "bf16_matrix option"
  dl_norm_ffn :: "'f list"
  dl_w_gate :: "bf16_matrix option"
  dl_w_up :: "bf16_matrix option"
  dl_w_down :: "bf16_matrix option"
  dl_q_norm :: "'f list option"
  dl_k_norm :: "'f list option"

record 'f decoder_weights =
  dw_token_embedding :: bf16_matrix
  dw_final_norm :: "'f list"
  dw_layers :: "'f decoder_layer list"

definition tee_matmul_bf16 :: "('f, 'g, 'h) gelo_lib \<Rightarrow> 'f kernel_lib \<Rightarrow> 'f array2 \<Rightarrow> bf16_matrix \<Rightarrow> ('e, 'f array2) outcome" where
  "tee_matmul_bf16 L K a b =
     rbind (assert_that (length (snd b) = fst a)) (\<lambda>_.
     Inr (fst b, gl_mm L a (fst b, map (map (kn_widen K)) (snd b))))"

text \<open>\<open>.expect("offload=false requires ...")\<close>.\<close>

definition direct :: "('f, 'g, 'h) gelo_lib \<Rightarrow> 'f kernel_lib \<Rightarrow> 'f array2 \<Rightarrow> bf16_matrix option \<Rightarrow> ('e, 'f array2) outcome" where
  "direct L K a w = (case w of Some b \<Rightarrow> tee_matmul_bf16 L K a b | None \<Rightarrow> Inl Panic)"

section \<open>Normalisation and activation\<close>

definition norm_row :: "'f f32_ops \<Rightarrow> 'f f32_math \<Rightarrow> 'f list \<Rightarrow> 'f \<Rightarrow> 'f list \<Rightarrow> 'f list" where
  "norm_row F H gamma eps row =
     (let inv_d = f_div F (f_lit F 1) (f_of_nat H (length gamma));
          ss = fold (\<lambda>v s. f_add F s (f_mul F v v)) row (f_lit F 0);
          inv_denom = f_div F (f_lit F 1) (f_sqrt F (f_add F (f_mul F ss inv_d) eps))
      in map2 (\<lambda>x g. f_mul F (f_mul F x inv_denom) g) row gamma)"

definition rms_norm :: "'f f32_ops \<Rightarrow> 'f f32_math \<Rightarrow> 'f array2 \<Rightarrow> 'f list \<Rightarrow> 'f \<Rightarrow> ('e, 'f array2) outcome" where
  "rms_norm F H x gamma eps =
     rbind (assert_that (length gamma = fst x)) (\<lambda>_. Inr (fst x, map (norm_row F H gamma eps) (snd x)))"

text \<open>The heads lie one after the other in a row.\<close>

definition on_heads :: "nat \<Rightarrow> nat \<Rightarrow> ('a list \<Rightarrow> 'a list) \<Rightarrow> 'a list \<Rightarrow> 'a list" where
  "on_heads n_heads head_dim f row = concat (map f (rows_of head_dim n_heads row))"

definition apply_qk_norm :: "'f f32_ops \<Rightarrow> 'f f32_math \<Rightarrow> 'f array2 \<Rightarrow> nat \<Rightarrow> nat \<Rightarrow> 'f list \<Rightarrow> 'f \<Rightarrow> ('e, 'f array2) outcome" where
  "apply_qk_norm F H qk n_heads head_dim gamma eps =
     rbind (assert_that (fst qk = n_heads * head_dim \<and> length gamma = head_dim)) (\<lambda>_.
     Inr (fst qk, map (on_heads n_heads head_dim (norm_row F H gamma eps)) (snd qk)))"

definition swiglu :: "'f f32_ops \<Rightarrow> ('f, 'g, 'h) gelo_lib \<Rightarrow> 'f array2 \<Rightarrow> 'f array2 \<Rightarrow> ('e, 'f array2) outcome" where
  "swiglu F L gate up =
     rbind (assert_that (fst gate = fst up \<and> length (snd gate) = length (snd up))) (\<lambda>_.
     Inr (fst gate, map2 (map2 (\<lambda>g u. f_mul F (f_div F g (f_add F (f_lit F 1) (gl_exp L (f_neg F g)))) u)) (snd gate) (snd up)))"

text \<open>\<open>&a + &b\<close> of two matrices of one shape.\<close>

definition residual :: "'f f32_ops \<Rightarrow> 'f array2 \<Rightarrow> 'f array2 \<Rightarrow> ('e, 'f array2) outcome" where
  "residual F a b =
     rbind (assert_that (fst a = fst b \<and> length (snd a) = length (snd b))) (\<lambda>_.
     Inr (fst a, map2 (map2 (f_add F)) (snd a) (snd b)))"

section \<open>Rotary positions\<close>

record 'f rope_tables =
  rt_head_dim :: nat
  rt_cos :: "'f list list"
  rt_sin :: "'f list list"

definition rope_new :: "'f f32_ops \<Rightarrow> 'f f32_math \<Rightarrow> nat \<Rightarrow> nat \<Rightarrow> 'f \<Rightarrow> ('e, 'f rope_tables) outcome" where
  "rope_new F H head_dim max_positions base =
     rbind (assert_that (head_dim mod 2 = 0)) (\<lambda>_.
     let theta = (\<lambda>i. f_powf H base (f_neg F (f_div F (f_of_nat H (2 * i)) (f_of_nat H head_dim))));
         angle = (\<lambda>p i. f_mul F (f_of_nat H p) (theta i));
         table = (\<lambda>f. map (\<lambda>p. map (\<lambda>i. f (angle p i)) [0..<head_dim div 2]) [0..<max_positions])
     in Inr \<lparr>rt_head_dim = head_dim, rt_cos = table (f_cos H), rt_sin = table (f_sin H)\<rparr>)"

definition rotate_head :: "'f f32_ops \<Rightarrow> nat \<Rightarrow> 'f list \<Rightarrow> 'f list \<Rightarrow> 'f list \<Rightarrow> 'f list" where
  "rotate_head F half cs sn head =
     map (\<lambda>j. f_sub F (f_mul F (head ! j) (cs ! j)) (f_mul F (head ! (half + j)) (sn ! j))) [0..<half] @
     map (\<lambda>j. f_add F (f_mul F (head ! j) (sn ! j)) (f_mul F (head ! (half + j)) (cs ! j))) [0..<half] @
     drop (2 * half) head"

definition rope_row :: "'f f32_ops \<Rightarrow> 'f rope_tables \<Rightarrow> nat \<Rightarrow> nat \<Rightarrow> nat \<Rightarrow> 'f list \<Rightarrow> 'f list" where
  "rope_row F R num_heads rotated pos row =
     (if rotated = 0 then row
      else on_heads num_heads (rt_head_dim R) (rotate_head F (rotated div 2) (rt_cos R ! pos) (rt_sin R ! pos)) row)"

definition apply_partial_at :: "'f f32_ops \<Rightarrow> 'f rope_tables \<Rightarrow> 'f array2 \<Rightarrow> nat \<Rightarrow> nat \<Rightarrow> nat \<Rightarrow> ('e, 'f array2) outcome" where
  "apply_partial_at F R x num_heads start_pos rotated =
     rbind (assert_that (fst x = num_heads * rt_head_dim R \<and> rotated \<le> rt_head_dim R \<and> rotated mod 2 = 0 \<and>
         (rotated \<noteq> 0 \<longrightarrow> start_pos + length (snd x) \<le> length (rt_cos R)))) (\<lambda>_.
     Inr (fst x, map2 (\<lambda>i. rope_row F R num_heads rotated (start_pos + i)) [0..<length (snd x)] (snd x)))"

definition rope_apply :: "'f f32_ops \<Rightarrow> 'f rope_tables \<Rightarrow> 'f array2 \<Rightarrow> nat \<Rightarrow> ('e, 'f array2) outcome" where
  "rope_apply F R x num_heads = apply_partial_at F R x num_heads 0 (rt_head_dim R)"

section \<open>Causal attention\<close>

definition softmax_inplace_row :: "'f f32_ops \<Rightarrow> ('f, 'g, 'h) gelo_lib \<Rightarrow> 'f kernel_lib \<Rightarrow> 'f list \<Rightarrow> 'f list" where
  "softmax_inplace_row F L K row =
     (let mx = fold (\<lambda>v m. if f_lt F m v then v else m) row (gl_neg_infinity L)
      in if \<not> kn_is_finite K mx then map (\<lambda>_. f_lit F 0) row
      else let es = map (\<lambda>v. gl_exp L (f_sub F v mx)) row;
               s = fold (\<lambda>e s. f_add F s e) es (f_lit F 0)
      in if f_lt F (f_lit F 0) s then map (\<lambda>e. f_mul F e (f_div F (f_lit F 1) s)) es else es)"

text \<open>Entries past the position of the query, and those before the window, are set to minus infinity.\<close>

definition band_mask :: "'f \<Rightarrow> nat \<Rightarrow> nat \<Rightarrow> 'f list \<Rightarrow> 'f list" where
  "band_mask neg_inf lo hi row = map2 (\<lambda>j x. if j < lo \<or> hi < j then neg_inf else x) [0..<length row] row"

definition window_start :: "attention_class \<Rightarrow> nat \<Rightarrow> nat" where
  "window_start cls pos = (case cls of Local window \<Rightarrow> pos - (window - 1) | Global \<Rightarrow> 0)"

definition cols :: "nat \<Rightarrow> nat \<Rightarrow> 'a list list \<Rightarrow> 'a list list" where
  "cols off len m = map (\<lambda>row. take len (drop off row)) m"

definition attention_scale :: "'f f32_ops \<Rightarrow> 'f f32_math \<Rightarrow> nat \<Rightarrow> 'f" where
  "attention_scale F H head_dim = f_div F (f_lit F 1) (f_sqrt F (f_of_nat H head_dim))"

text \<open>One head from its raw scores on: scale, mask, softmax, product with the values.\<close>

definition context_of_scores :: "'f f32_ops \<Rightarrow> 'f f32_math \<Rightarrow> ('f, 'g, 'h) gelo_lib \<Rightarrow> 'f kernel_lib \<Rightarrow> attention_class \<Rightarrow> nat \<Rightarrow> nat \<Rightarrow>
    'f list list \<Rightarrow> 'f list list \<Rightarrow> 'f list list" where
  "context_of_scores F H L K cls q_pos_offset head_dim scores vh =
     (let scores = map (map (\<lambda>x. f_mul F x (attention_scale F H head_dim))) scores;
          masked = map2 (\<lambda>i. band_mask (gl_neg_infinity L) (window_start cls (q_pos_offset + i)) (q_pos_offset + i)) [0..<length scores] scores
      in gl_mm L (length vh, map (softmax_inplace_row F L K) masked) (head_dim, vh))"

definition join_heads :: "nat \<Rightarrow> 'a list list list \<Rightarrow> 'a list list" where
  "join_heads n heads = map (\<lambda>i. concat (map (\<lambda>h. h ! i) heads)) [0..<n]"

definition gqa_heads :: "'f f32_ops \<Rightarrow> 'f f32_math \<Rightarrow> ('f, 'g, 'h) gelo_lib \<Rightarrow> 'f kernel_lib \<Rightarrow> attention_class \<Rightarrow>
    'f list list \<Rightarrow> 'f list list \<Rightarrow> 'f list list \<Rightarrow> nat \<Rightarrow> nat \<Rightarrow> nat \<Rightarrow> nat \<Rightarrow> 'f list list" where
  "gqa_heads F H L K cls q k v num_q_heads num_kv_heads head_dim q_pos_offset =
     join_heads (length q) (map (\<lambda>qh.
       let kv_off = (qh div (num_q_heads div num_kv_heads)) * head_dim;
           kh = cols kv_off head_dim k;
           scores = gl_mm L (head_dim, cols (qh * head_dim) head_dim q) (length kh, transpose_of head_dim kh)
       in context_of_scores F H L K cls q_pos_offset head_dim scores (cols kv_off head_dim v)) [0..<num_q_heads])"

definition gqa_shape :: "'f array2 \<Rightarrow> 'f array2 \<Rightarrow> 'f array2 \<Rightarrow> nat \<Rightarrow> nat \<Rightarrow> nat \<Rightarrow> bool" where
  "gqa_shape q k v num_q_heads num_kv_heads head_dim \<longleftrightarrow>
     0 < num_kv_heads \<and> num_kv_heads \<le> num_q_heads \<and> num_q_heads mod num_kv_heads = 0 \<and> fst q = num_q_heads * head_dim \<and>
     fst k = num_kv_heads * head_dim \<and> fst v = num_kv_heads * head_dim \<and> length (snd v) = length (snd k)"

definition causal_gqa_attention :: "'f f32_ops \<Rightarrow> 'f f32_math \<Rightarrow> ('f, 'g, 'h) gelo_lib \<Rightarrow> 'f kernel_lib \<Rightarrow>
    'f array2 \<Rightarrow> 'f array2 \<Rightarrow> 'f array2 \<Rightarrow> nat \<Rightarrow> nat \<Rightarrow> nat \<Rightarrow> ('e, 'f array2) outcome" where
  "causal_gqa_attention F H L K q k v num_q_heads num_kv_heads head_dim =
     rbind (assert_that (gqa_shape q k v num_q_heads num_kv_heads head_dim)) (\<lambda>_.
     Inr (num_q_heads * head_dim, gqa_heads F H L K Global (snd q) (snd k) (snd v) num_q_heads num_kv_heads head_dim 0))"

definition causal_gqa_attention_cached :: "'f f32_ops \<Rightarrow> 'f f32_math \<Rightarrow> ('f, 'g, 'h) gelo_lib \<Rightarrow> 'f kernel_lib \<Rightarrow>
    'f array2 \<Rightarrow> 'f array2 \<Rightarrow> 'f array2 \<Rightarrow> nat \<Rightarrow> nat \<Rightarrow> nat \<Rightarrow> nat \<Rightarrow> ('e, 'f array2) outcome" where
  "causal_gqa_attention_cached F H L K q k v num_q_heads num_kv_heads head_dim q_pos_offset =
     rbind (assert_that (gqa_shape q k v num_q_heads num_kv_heads head_dim \<and> length (snd q) + q_pos_offset \<le> length (snd k))) (\<lambda>_.
     Inr (num_q_heads * head_dim, gqa_heads F H L K Global (snd q) (snd k) (snd v) num_q_heads num_kv_heads head_dim q_pos_offset))"

definition causal_gqa_attention_swa_cached :: "'f f32_ops \<Rightarrow> 'f f32_math \<Rightarrow> ('f, 'g, 'h) gelo_lib \<Rightarrow> 'f kernel_lib \<Rightarrow>
    'f array2 \<Rightarrow> 'f array2 \<Rightarrow> 'f array2 \<Rightarrow> nat \<Rightarrow> nat \<Rightarrow> nat \<Rightarrow> nat \<Rightarrow> nat \<Rightarrow> ('e, 'f array2) outcome" where
  "causal_gqa_attention_swa_cached F H L K q k v num_q_heads num_kv_heads head_dim q_pos_offset window =
     rbind (assert_that (0 < window \<and> gqa_shape q k v num_q_heads num_kv_heads head_dim \<and> length (snd q) + q_pos_offset \<le> length (snd k))) (\<lambda>_.
     Inr (num_q_heads * head_dim, gqa_heads F H L K (Local window) (snd q) (snd k) (snd v) num_q_heads num_kv_heads head_dim q_pos_offset))"

end
