(* ===== verification/Dec_Cache.thy ===== *)
theory Dec_Cache
  imports Dec_Kernels
begin

text \<open>
  The cache of keys and values of \<^verbatim>\<open>crates/gelo-embedder/src/decoder/kv_cache.rs\<close>: a store per
  layer, of a separate or a shared kind, with the number of valid rows of each sequence.
\<close>

section \<open>Errors of the decoder\<close>

datatype decode_error =
  Executor gelo_error
| CacheLayer nat
| CacheBatch nat
| CacheRows nat nat
| CacheWidth nat nat
| CacheOverflow nat nat
| PromptEmpty
| PromptTooLong nat
| LogitShape

section \<open>Stores\<close>

datatype 'f layer_store =
  Separate "'f list list list" "'f list list list"
| Shared "'f list list list"

record 'f layer_kv =
  lk_storage :: "'f layer_store"
  lk_lens :: "nat list"

definition kv_zeros :: "'f f32_ops \<Rightarrow> nat \<Rightarrow> nat \<Rightarrow> nat \<Rightarrow> 'f list list list" where
  "kv_zeros F batch_size max_cache_len width = replicate batch_size (zeros F max_cache_len width)"

definition layer_new :: "'f f32_ops \<Rightarrow> bool \<Rightarrow> nat \<Rightarrow> nat \<Rightarrow> nat \<Rightarrow> 'f layer_kv" where
  "layer_new F shared batch_size max_cache_len width =
     (let z = kv_zeros F batch_size max_cache_len width
      in \<lparr>lk_storage = (if shared then Shared z else Separate z z), lk_lens = replicate batch_size 0\<rparr>)"

definition is_shared :: "'f layer_kv \<Rightarrow> bool" where
  "is_shared l = (case lk_storage l of Shared _ \<Rightarrow> True | Separate _ _ \<Rightarrow> False)"

definition layer_view_b :: "'f layer_kv \<Rightarrow> nat \<Rightarrow> 'f list list \<times> 'f list list" where
  "layer_view_b l b =
     (let len = lk_lens l ! b
      in case lk_storage l of
           Separate k v \<Rightarrow> (take len (k ! b), take len (v ! b))
         | Shared kv \<Rightarrow> (take len (kv ! b), take len (kv ! b)))"

definition store_cells :: "'f list list list \<Rightarrow> nat" where
  "store_cells a = sum_list (map (\<lambda>m. sum_list (map length m)) a)"

definition layer_bytes :: "'f layer_kv \<Rightarrow> nat" where
  "layer_bytes l = (case lk_storage l of Separate k v \<Rightarrow> store_cells k * 4 + store_cells v * 4 | Shared kv \<Rightarrow> store_cells kv * 4)"

section \<open>The cache\<close>

record 'f kv_cache =
  kv_layers :: "'f layer_kv list"
  kv_max_len :: nat
  kv_width :: nat
  kv_batch :: nat

definition kv_new_batched :: "'f f32_ops \<Rightarrow> nat \<Rightarrow> nat \<Rightarrow> nat \<Rightarrow> nat \<Rightarrow> 'f kv_cache" where
  "kv_new_batched F batch_size num_layers max_cache_len width =
     \<lparr>kv_layers = map (\<lambda>_. layer_new F False batch_size max_cache_len width) [0..<num_layers],
      kv_max_len = max_cache_len, kv_width = width, kv_batch = batch_size\<rparr>"

definition kv_new :: "'f f32_ops \<Rightarrow> nat \<Rightarrow> nat \<Rightarrow> nat \<Rightarrow> 'f kv_cache" where
  "kv_new F num_layers max_cache_len width = kv_new_batched F 1 num_layers max_cache_len width"

definition kv_new_with_sharing_batched :: "'f f32_ops \<Rightarrow> nat \<Rightarrow> nat \<Rightarrow> nat \<Rightarrow> nat \<Rightarrow> bool list \<Rightarrow> ('e, 'f kv_cache) outcome" where
  "kv_new_with_sharing_batched F batch_size num_layers max_cache_len width shared =
     rbind (assert_that (length shared = num_layers)) (\<lambda>_.
     Inr \<lparr>kv_layers = map (\<lambda>li. layer_new F (shared ! li) batch_size max_cache_len width) [0..<num_layers],
      kv_max_len = max_cache_len, kv_width = width, kv_batch = batch_size\<rparr>)"

definition kv_new_with_sharing :: "'f f32_ops \<Rightarrow> nat \<Rightarrow> nat \<Rightarrow> nat \<Rightarrow> bool list \<Rightarrow> ('e, 'f kv_cache) outcome" where
  "kv_new_with_sharing F num_layers max_cache_len width shared = kv_new_with_sharing_batched F 1 num_layers max_cache_len width shared"

definition kv_len :: "'f kv_cache \<Rightarrow> ('e, nat) outcome" where
  "kv_len c = rbind (assert_that (kv_batch c = 1)) (\<lambda>_.
     case kv_layers c of
       [] \<Rightarrow> Inr 0
     | l # _ \<Rightarrow> (case lk_lens l of [] \<Rightarrow> Inl Panic | n # _ \<Rightarrow> Inr n))"

definition kv_len_b :: "'f kv_cache \<Rightarrow> nat \<Rightarrow> nat \<Rightarrow> ('e, nat) outcome" where
  "kv_len_b c li b = rbind (assert_that (li < length (kv_layers c) \<and> b < length (lk_lens (kv_layers c ! li)))) (\<lambda>_.
     Inr (lk_lens (kv_layers c ! li) ! b))"

definition kv_is_empty :: "'f kv_cache \<Rightarrow> bool" where
  "kv_is_empty c = list_all (\<lambda>l. list_all (\<lambda>n. n = 0) (lk_lens l)) (kv_layers c)"

definition kv_is_layer_shared :: "'f kv_cache \<Rightarrow> nat \<Rightarrow> bool" where
  "kv_is_layer_shared c li = (if li < length (kv_layers c) then is_shared (kv_layers c ! li) else False)"

definition kv_bytes :: "'f kv_cache \<Rightarrow> nat" where
  "kv_bytes c = sum_list (map layer_bytes (kv_layers c))"

text \<open>\<open>slice_mut(s![b, cur..cur + n, ..]).assign(&rows)\<close>.\<close>

definition assign_rows :: "nat \<Rightarrow> nat \<Rightarrow> 'f list list \<Rightarrow> 'f list list list \<Rightarrow> 'f list list list" where
  "assign_rows b cur rows a = a[b := take cur (a ! b) @ rows @ drop (cur + length rows) (a ! b)]"

definition store_rows :: "nat \<Rightarrow> nat \<Rightarrow> 'f list list \<Rightarrow> 'f list list \<Rightarrow> 'f layer_kv \<Rightarrow> 'f layer_kv" where
  "store_rows b cur new_k new_v l = l\<lparr>
     lk_storage := (case lk_storage l of
         Separate k v \<Rightarrow> Separate (assign_rows b cur new_k k) (assign_rows b cur new_v v)
       | Shared kv \<Rightarrow> Shared (assign_rows b cur new_k kv)),
     lk_lens := (lk_lens l)[b := cur + length new_k]\<rparr>"

definition with_layer :: "nat \<Rightarrow> ('f layer_kv \<Rightarrow> 'f layer_kv) \<Rightarrow> 'f kv_cache \<Rightarrow> 'f kv_cache" where
  "with_layer li f c = c\<lparr>kv_layers := (kv_layers c)[li := f (kv_layers c ! li)]\<rparr>"

definition append_prefill :: "nat \<Rightarrow> nat \<Rightarrow> 'f array2 \<Rightarrow> 'f array2 \<Rightarrow> ('f kv_cache, decode_error, unit) eff" where
  "append_prefill li b new_k new_v =
     ebind (eget id) (\<lambda>c.
     if \<not> li < length (kv_layers c) then efault (Fail (CacheLayer li))
     else if kv_batch c \<le> b then efault (Fail (CacheBatch b))
     else let added = length (snd new_k) in
       if length (snd new_v) \<noteq> added then efault (Fail (CacheRows added (length (snd new_v))))
       else if fst new_k \<noteq> kv_width c then efault (Fail (CacheWidth (fst new_k) (kv_width c)))
       else if fst new_v \<noteq> kv_width c then efault (Fail (CacheWidth (fst new_v) (kv_width c)))
       else let cur = lk_lens (kv_layers c ! li) ! b in
         if kv_max_len c < cur + added then efault (Fail (CacheOverflow cur added))
         else emodify (with_layer li (store_rows b cur (snd new_k) (snd new_v))))"

definition kv_append :: "nat \<Rightarrow> 'f array2 \<Rightarrow> 'f array2 \<Rightarrow> ('f kv_cache, decode_error, unit) eff" where
  "kv_append li new_k new_v = ebind (eget kv_batch) (\<lambda>n. eseq (eassert (n = 1)) (append_prefill li 0 new_k new_v))"

definition append_row :: "nat \<Rightarrow> nat \<Rightarrow> 'f list \<Rightarrow> 'f list \<Rightarrow> ('f kv_cache, decode_error, unit) eff" where
  "append_row li b k_row v_row =
     ebind (eget id) (\<lambda>c.
     let cur = lk_lens (kv_layers c ! li) ! b in
       if kv_max_len c < cur + 1 then efault (Fail (CacheOverflow cur 1))
       else emodify (with_layer li (store_rows b cur [k_row] [v_row])))"

definition append_decode :: "nat \<Rightarrow> 'f array2 \<Rightarrow> 'f array2 \<Rightarrow> ('f kv_cache, decode_error, unit) eff" where
  "append_decode li new_k new_v =
     ebind (eget id) (\<lambda>c.
     if \<not> li < length (kv_layers c) then efault (Fail (CacheLayer li))
     else if length (snd new_k) \<noteq> kv_batch c then efault (Fail (CacheRows (length (snd new_k)) (kv_batch c)))
     else if length (snd new_v) \<noteq> kv_batch c then efault (Fail (CacheRows (length (snd new_v)) (kv_batch c)))
     else if fst new_k \<noteq> kv_width c then efault (Fail (CacheWidth (fst new_k) (kv_width c)))
     else if fst new_v \<noteq> kv_width c then efault (Fail (CacheWidth (fst new_v) (kv_width c)))
     else efor [0..<kv_batch c] (\<lambda>b. append_row li b (snd new_k ! b) (snd new_v ! b)))"

definition view_b :: "'f kv_cache \<Rightarrow> nat \<Rightarrow> nat \<Rightarrow> (decode_error, 'f array2 \<times> 'f array2) outcome" where
  "view_b c li b =
     (if \<not> li < length (kv_layers c) then Inl (Fail (CacheLayer li))
      else if kv_batch c \<le> b then Inl (Fail (CacheBatch b))
      else let (k, v) = layer_view_b (kv_layers c ! li) b in Inr ((kv_width c, k), (kv_width c, v)))"

definition view :: "'f kv_cache \<Rightarrow> nat \<Rightarrow> (decode_error, 'f array2 \<times> 'f array2) outcome" where
  "view c li = rbind (assert_that (kv_batch c = 1)) (\<lambda>_. view_b c li 0)"

definition kv_reset :: "'f kv_cache \<Rightarrow> 'f kv_cache" where
  "kv_reset c = c\<lparr>kv_layers := map (\<lambda>l. l\<lparr>lk_lens := map (\<lambda>_. 0) (lk_lens l)\<rparr>) (kv_layers c)\<rparr>"

section \<open>What the cache keeps\<close>

definition store_ok :: "nat \<Rightarrow> nat \<Rightarrow> nat \<Rightarrow> 'f list list list \<Rightarrow> bool" where
  "store_ok batch n d a \<longleftrightarrow> length a = batch \<and> (\<forall>m \<in> set a. length m = n \<and> (\<forall>row \<in> set m. length row = d))"

definition layer_ok :: "'f kv_cache \<Rightarrow> 'f layer_kv \<Rightarrow> bool" where
  "layer_ok c l \<longleftrightarrow> length (lk_lens l) = kv_batch c \<and> (\<forall>n \<in> set (lk_lens l). n \<le> kv_max_len c) \<and>
     (case lk_storage l of
        Separate k v \<Rightarrow> store_ok (kv_batch c) (kv_max_len c) (kv_width c) k \<and> store_ok (kv_batch c) (kv_max_len c) (kv_width c) v
      | Shared kv \<Rightarrow> store_ok (kv_batch c) (kv_max_len c) (kv_width c) kv)"

definition cache_ok :: "'f kv_cache \<Rightarrow> bool" where
  "cache_ok c \<longleftrightarrow> (\<forall>l \<in> set (kv_layers c). layer_ok c l)"

text \<open>The rows of a sequence that are valid in a layer.\<close>

definition cached :: "'f kv_cache \<Rightarrow> nat \<Rightarrow> nat \<Rightarrow> 'f list list \<times> 'f list list" where
  "cached c li b = layer_view_b (kv_layers c ! li) b"

lemma store_ok_assign:
  assumes "store_ok n_b n d a" and "b < n_b" and "cur + length rows \<le> n" and "\<And>row. row \<in> set rows \<Longrightarrow> length row = d"
  shows "store_ok n_b n d (assign_rows b cur rows a)"
proof -
  define m where "m = take cur (a ! b) @ rows @ drop (cur + length rows) (a ! b)"
  define good where "good = (\<lambda>m :: 'a list list. length m = n \<and> (\<forall>row \<in> set m. length row = d))"
  have a: "\<forall>m \<in> set a. good m" using assms(1) by (simp add: store_ok_def good_def)
  have "a ! b \<in> set a" using assms(1,2) by (simp add: store_ok_def)
  then have "good (a ! b)" using a by blast
  then have ab: "length (a ! b) = n" "\<And>row. row \<in> set (a ! b) \<Longrightarrow> length row = d" by (simp_all add: good_def)
  have "length row = d" if "row \<in> set m" for row
  proof -
    from that consider "row \<in> set (take cur (a ! b))" | "row \<in> set rows" | "row \<in> set (drop (cur + length rows) (a ! b))"
      unfolding m_def set_append by blast
    then show ?thesis
    proof cases
      case 1
      from ab(2) [OF in_set_takeD [OF this]] show ?thesis .
    next
      case 2
      from assms(4) [OF this] show ?thesis .
    next
      case 3
      from ab(2) [OF in_set_dropD [OF this]] show ?thesis .
    qed
  qed
  moreover have "length m = n" unfolding m_def using ab(1) assms(3) by simp
  ultimately have "good m" unfolding good_def by blast
  then have "\<forall>m' \<in> set (a[b := m]). good m'" using a set_update_subset_insert [of a b m] by blast
  then have "\<forall>m' \<in> set (assign_rows b cur rows a). length m' = n \<and> (\<forall>row \<in> set m'. length row = d)"
    unfolding assign_rows_def m_def good_def .
  moreover have "length (assign_rows b cur rows a) = n_b" using assms(1) by (simp add: store_ok_def assign_rows_def)
  ultimately show ?thesis unfolding store_ok_def by blast
qed

lemma take_assign:
  assumes "store_ok n_b n d a" and "b < n_b" and "cur + length rows \<le> n"
  shows "take (cur + length rows) (assign_rows b cur rows a ! b) = take cur (a ! b) @ rows"
    "b' \<noteq> b \<Longrightarrow> assign_rows b cur rows a ! b' = a ! b'"
proof -
  have "length (a ! b) = n" "b < length a" using assms(1,2) by (simp_all add: store_ok_def)
  then show "take (cur + length rows) (assign_rows b cur rows a ! b) = take cur (a ! b) @ rows" using assms(3)
    by (simp add: assign_rows_def)
qed (simp add: assign_rows_def)

lemma layer_ok_store:
  assumes l: "layer_ok c l" and b: "b < kv_batch c" and "length new_v = length new_k" and fit: "lk_lens l ! b + length new_k \<le> kv_max_len c"
    and k: "\<And>row. row \<in> set new_k \<Longrightarrow> length row = kv_width c" and v: "\<And>row. row \<in> set new_v \<Longrightarrow> length row = kv_width c"
  shows "layer_ok c (store_rows b (lk_lens l ! b) new_k new_v l)"
proof -
  have "\<forall>n \<in> set ((lk_lens l)[b := lk_lens l ! b + length new_k]). n \<le> kv_max_len c"
    using l fit set_update_subset_insert [of "lk_lens l" b] by (fastforce simp: layer_ok_def)
  moreover have "store_ok (kv_batch c) (kv_max_len c) (kv_width c) (assign_rows b (lk_lens l ! b) new_k a)"
      "store_ok (kv_batch c) (kv_max_len c) (kv_width c) (assign_rows b (lk_lens l ! b) new_v a)"
    if "store_ok (kv_batch c) (kv_max_len c) (kv_width c) a" for a
    using store_ok_assign [OF that b] fit k v assms(3) by simp_all
  ultimately show ?thesis using l by (cases "lk_storage l") (simp_all add: layer_ok_def store_rows_def)
qed

text \<open>A shared store takes its rows from the keys.\<close>

definition stored_v :: "'f layer_kv \<Rightarrow> 'f list list \<Rightarrow> 'f list list \<Rightarrow> 'f list list" where
  "stored_v l new_k new_v = (if is_shared l then new_k else new_v)"

lemma layer_view_store:
  assumes l: "layer_ok c l" and b: "b < kv_batch c" and "length new_v = length new_k" and fit: "lk_lens l ! b + length new_k \<le> kv_max_len c"
  shows "layer_view_b (store_rows b (lk_lens l ! b) new_k new_v l) b =
      (fst (layer_view_b l b) @ new_k, snd (layer_view_b l b) @ stored_v l new_k new_v)"
    "b' \<noteq> b \<Longrightarrow> layer_view_b (store_rows b (lk_lens l ! b) new_k new_v l) b' = layer_view_b l b'"
proof -
  have lens: "b < length (lk_lens l)" using l b by (simp add: layer_ok_def)
  show "layer_view_b (store_rows b (lk_lens l ! b) new_k new_v l) b =
      (fst (layer_view_b l b) @ new_k, snd (layer_view_b l b) @ stored_v l new_k new_v)"
  proof (cases "lk_storage l")
    case (Separate k v)
    then have "store_ok (kv_batch c) (kv_max_len c) (kv_width c) k" "store_ok (kv_batch c) (kv_max_len c) (kv_width c) v"
      using l by (simp_all add: layer_ok_def)
    then show ?thesis using Separate lens take_assign(1) [OF _ b fit] take_assign(1) [of "kv_batch c" "kv_max_len c" "kv_width c" v b "lk_lens l ! b" new_v] b fit assms(3)
      by (simp add: layer_view_b_def store_rows_def stored_v_def is_shared_def Let_def)
  next
    case (Shared kv)
    then have "store_ok (kv_batch c) (kv_max_len c) (kv_width c) kv" using l by (simp add: layer_ok_def)
    then show ?thesis using Shared lens take_assign(1) [OF _ b fit]
      by (simp add: layer_view_b_def store_rows_def stored_v_def is_shared_def Let_def)
  qed
  show "b' \<noteq> b \<Longrightarrow> layer_view_b (store_rows b (lk_lens l ! b) new_k new_v l) b' = layer_view_b l b'"
    by (simp add: layer_view_b_def store_rows_def assign_rows_def Let_def split: layer_store.split)
qed

end
