(* ===== verification/Dec_Forward.thy ===== *)
theory Dec_Forward
  imports Dec_Cache
begin

text \<open>
  The decoder of \<^verbatim>\<open>crates/gelo-embedder/src/decoder\<close> over a trusted executor: the four blocks and
  the passes built from them (\<^verbatim>\<open>forward.rs\<close>), and generation (\<^verbatim>\<open>generation.rs\<close>).  The executor is
  the interface \<open>TrustedExecutor\<close>, with the masking and the plaintext executor as instances.
\<close>

section \<open>The trusted executor as the decoder sees it\<close>

record ('f, 'x) trusted_ops =
  tx_begin :: "forward_session_shape \<Rightarrow> ('x, gelo_error, unit) eff"
  tx_end :: "('x, gelo_error, unit) eff"
  tx_linear :: "weight_handle \<Rightarrow> 'f array2 \<Rightarrow> ('x, gelo_error, 'f array2) eff"
  tx_qkv :: "u16 \<Rightarrow> 'f array2 \<Rightarrow> ('x, gelo_error, 'f array2 \<times> 'f array2 \<times> 'f array2) eff"
  tx_many :: "weight_handle list \<Rightarrow> 'f array2 \<Rightarrow> ('x, gelo_error, 'f array2 list) eff"
  tx_qkt_batched :: "'f array3 \<Rightarrow> 'f array3 \<Rightarrow> ('x, gelo_error, 'f array3) eff"
  tx_attention_permuted :: "'f array3 \<Rightarrow> 'f array3 \<Rightarrow> 'f array3 \<Rightarrow> 'f \<Rightarrow> attention_mask \<Rightarrow> ('x, gelo_error, 'f array3) eff"
  tx_attention_permuted_cached :: "'f array3 \<Rightarrow> 'f array3 \<Rightarrow> 'f array3 \<Rightarrow> 'f \<Rightarrow> nat \<Rightarrow> attention_mask \<Rightarrow> ('x, gelo_error, 'f array3) eff"

definition masking_ops :: "'f f32_ops \<Rightarrow> 'f f32_math \<Rightarrow> ('f, 'g, 'h) gelo_lib \<Rightarrow> ('f, 'v) engine_ops \<Rightarrow> bool \<Rightarrow>
    ('f, ('f, 'g, 'h, 'v) executor) trusted_ops" where
  "masking_ops F H L E shared_decode =
     \<lparr>tx_begin = begin_forward_session F H L shared_decode, tx_end = end_forward_pass,
      tx_linear = offload_linear F H L E, tx_qkv = offload_qkv F H L E, tx_many = offload_linear_many F H L E,
      tx_qkt_batched = offload_attention_qkt_batched F H L E,
      tx_attention_permuted = offload_attention_permuted F L E,
      tx_attention_permuted_cached = offload_attention_permuted_cached F L E\<rparr>"

definition plaintext_ops :: "'f f32_ops \<Rightarrow> ('f, 'g, 'h) gelo_lib \<Rightarrow> ('f, 'v) engine_ops \<Rightarrow> ('f, ('f, 'v) plaintext_executor) trusted_ops" where
  "plaintext_ops F L E =
     \<lparr>tx_begin = (\<lambda>_. ereturn ()), tx_end = ereturn (),
      tx_linear = plain_offload_linear E, tx_qkv = plain_offload_qkv E, tx_many = plain_offload_linear_many E,
      tx_qkt_batched = plain_offload_attention_qkt_batched E,
      tx_attention_permuted = default_attention_permuted F L,
      tx_attention_permuted_cached = default_attention_permuted_cached F L\<rparr>"

text \<open>A computation over the executor and the cache.\<close>

type_synonym ('x, 'c, 'a) dec = "('x \<times> 'c, decode_error, 'a) eff"

definition on_exec :: "('x, gelo_error, 'a) eff \<Rightarrow> ('x, 'c, 'a) dec" where
  "on_exec m = zoom fst (\<lambda>x s. (x, snd s)) (efail_as Executor m)"

definition on_cache :: "('c, decode_error, 'a) eff \<Rightarrow> ('x, 'c, 'a) dec" where
  "on_cache m = zoom snd (\<lambda>c s. (fst s, c)) m"

text \<open>A panic of the body unwinds past the call that ends the pass.\<close>

definition with_forward_session :: "('f, 'x) trusted_ops \<Rightarrow> forward_session_shape \<Rightarrow> ('x, 'c, 'a) dec \<Rightarrow> ('x, 'c, 'a) dec" where
  "with_forward_session T shape body = eseq (on_exec (tx_begin T shape)) (\<lambda>s.
     case body s of
       (Inl (Fail e), s) \<Rightarrow> (case on_exec (tx_end T) s of
           (Inl Panic, s) \<Rightarrow> (Inl Panic, s) | (Inl Hang, s) \<Rightarrow> (Inl Hang, s) | (_, s) \<Rightarrow> (Inl (Fail e), s))
     | (Inl e, s) \<Rightarrow> (Inl e, s)
     | (Inr v, s) \<Rightarrow> (case on_exec (tx_end T) s of (Inl e, s) \<Rightarrow> (Inl e, s) | (Inr _, s) \<Rightarrow> (Inr v, s)))"

section \<open>Steps of a block\<close>

definition layer_handle :: "nat \<Rightarrow> weight_kind \<Rightarrow> weight_handle" where
  "layer_handle li kind = \<lparr>wh_layer = of_nat li, wh_kind = kind\<rparr>"

definition linear_step :: "('f, 'x) trusted_ops \<Rightarrow> ('f, 'g, 'h) gelo_lib \<Rightarrow> 'f kernel_lib \<Rightarrow> bool \<Rightarrow> nat \<Rightarrow> weight_kind \<Rightarrow> bf16_matrix option \<Rightarrow>
    'f array2 \<Rightarrow> ('x, 'c, 'f array2) dec" where
  "linear_step T L K offload li kind w x =
     (if offload then on_exec (tx_linear T (layer_handle li kind) x) else elift (direct L K x w))"

definition qkv_step :: "('f, 'x) trusted_ops \<Rightarrow> ('f, 'g, 'h) gelo_lib \<Rightarrow> 'f kernel_lib \<Rightarrow> bool \<Rightarrow> nat \<Rightarrow> 'f decoder_layer \<Rightarrow>
    'f array2 \<Rightarrow> ('x, 'c, 'f array2 \<times> 'f array2 \<times> 'f array2) dec" where
  "qkv_step T L K offload li layer x =
     (if offload then on_exec (tx_qkv T (of_nat li) x)
      else ebind (elift (direct L K x (dl_wq layer))) (\<lambda>q.
        ebind (elift (direct L K x (dl_wk layer))) (\<lambda>k.
        ebind (elift (direct L K x (dl_wv layer))) (\<lambda>v. ereturn (q, k, v)))))"

text \<open>With keys and values tied, the values are the keys.\<close>

definition qkv_tied_step :: "('f, 'x) trusted_ops \<Rightarrow> ('f, 'g, 'h) gelo_lib \<Rightarrow> 'f kernel_lib \<Rightarrow> bool \<Rightarrow> bool \<Rightarrow> nat \<Rightarrow> 'f decoder_layer \<Rightarrow>
    'f array2 \<Rightarrow> ('x, 'c, 'f array2 \<times> 'f array2 \<times> 'f array2) dec" where
  "qkv_tied_step T L K kv_shared offload li layer x =
     (if \<not> kv_shared then qkv_step T L K offload li layer x
      else ebind (linear_step T L K offload li WQ (dl_wq layer) x) (\<lambda>q.
        ebind (linear_step T L K offload li WK (dl_wk layer) x) (\<lambda>k. ereturn (q, k, k))))"

definition qk_norm_step :: "'f f32_ops \<Rightarrow> 'f f32_math \<Rightarrow> 'f decoder_config \<Rightarrow> 'f decoder_layer \<Rightarrow> 'f array2 \<Rightarrow> 'f array2 \<Rightarrow>
    (decode_error, 'f array2 \<times> 'f array2) outcome" where
  "qk_norm_step F H cfg layer q k =
     rbind (case dl_q_norm layer of
         Some g \<Rightarrow> apply_qk_norm F H q (dc_num_attention_heads cfg) (head_dim_value cfg) g (dc_rms_norm_eps cfg) | None \<Rightarrow> Inr q) (\<lambda>q.
     rbind (case dl_k_norm layer of
         Some g \<Rightarrow> apply_qk_norm F H k (dc_num_key_value_heads cfg) (head_dim_value cfg) g (dc_rms_norm_eps cfg) | None \<Rightarrow> Inr k) (\<lambda>k.
     Inr (q, k)))"

definition rotation_of :: "'f f32_ops \<Rightarrow> 'f f32_math \<Rightarrow> 'f kernel_lib \<Rightarrow> 'f decoder_config \<Rightarrow> attention_class \<Rightarrow> (decode_error, nat) outcome" where
  "rotation_of F H K cfg cls =
     (if cls = Global \<and> dc_partial_rope cfg \<noteq> None then rotated_dim F H K cfg else Inr (head_dim_value cfg))"

text \<open>From the context of the attention to the output of the block: the output projection, the
  feed-forward part, and the two residuals.\<close>

definition finish_block :: "('f, 'x) trusted_ops \<Rightarrow> 'f f32_ops \<Rightarrow> 'f f32_math \<Rightarrow> ('f, 'g, 'h) gelo_lib \<Rightarrow> 'f kernel_lib \<Rightarrow> 'f decoder_config \<Rightarrow>
    bool \<Rightarrow> nat \<Rightarrow> 'f decoder_layer \<Rightarrow> 'f array2 \<Rightarrow> 'f array2 \<Rightarrow> ('x, 'c, 'f array2) dec" where
  "finish_block T F H L K cfg offload li layer hidden ctx =
     ebind (linear_step T L K offload li WO (dl_wo layer) ctx) (\<lambda>attn_out.
     ebind (elift (residual F hidden attn_out)) (\<lambda>h1.
     ebind (elift (rms_norm F H h1 (dl_norm_ffn layer) (dc_rms_norm_eps cfg))) (\<lambda>h1_norm.
     ebind (if offload
         then ebind (on_exec (tx_many T [layer_handle li WFfnGate, layer_handle li WFfnUp] h1_norm)) (\<lambda>out.
           eseq (eassert (2 \<le> length out)) (ereturn (out ! (length out - 2), out ! (length out - 1))))
         else ebind (elift (direct L K h1_norm (dl_w_gate layer))) (\<lambda>gate.
           ebind (elift (direct L K h1_norm (dl_w_up layer))) (\<lambda>up. ereturn (gate, up)))) (\<lambda>(gate, up).
     ebind (elift (swiglu F L gate up)) (\<lambda>activated.
     ebind (linear_step T L K offload li WFfnDown (dl_w_down layer) activated) (\<lambda>ffn_out.
     elift (residual F h1 ffn_out)))))))"

section \<open>Offloaded attention\<close>

text \<open>The heads of \<open>q\<close>, and for each of them its group's head of \<open>k\<close> or \<open>v\<close>.\<close>

definition q_heads :: "'f array2 \<Rightarrow> nat \<Rightarrow> nat \<Rightarrow> 'f list list list" where
  "q_heads q num_q_heads head_dim = map (\<lambda>qh. cols (qh * head_dim) head_dim (snd q)) [0..<num_q_heads]"

definition kv_heads :: "'f array2 \<Rightarrow> nat \<Rightarrow> nat \<Rightarrow> nat \<Rightarrow> 'f list list list" where
  "kv_heads k num_q_heads num_kv_heads head_dim =
     map (\<lambda>qh. cols ((qh div (num_q_heads div num_kv_heads)) * head_dim) head_dim (snd k)) [0..<num_q_heads]"

text \<open>The slices of the heads lie in the matrices; wider ones are not refused.\<close>

definition gqa_fits :: "'f array2 \<Rightarrow> 'f array2 \<Rightarrow> 'f array2 \<Rightarrow> nat \<Rightarrow> nat \<Rightarrow> nat \<Rightarrow> bool" where
  "gqa_fits q k v num_q_heads num_kv_heads head_dim \<longleftrightarrow>
     0 < num_kv_heads \<and> num_kv_heads \<le> num_q_heads \<and> num_q_heads mod num_kv_heads = 0 \<and> num_q_heads * head_dim \<le> fst q \<and>
     num_kv_heads * head_dim \<le> fst k \<and> num_kv_heads * head_dim \<le> fst v \<and> length (snd v) = length (snd k)"

definition causal_gqa_attention_with_offload :: "('f, 'x) trusted_ops \<Rightarrow> 'f f32_ops \<Rightarrow> 'f f32_math \<Rightarrow> ('f, 'g, 'h) gelo_lib \<Rightarrow> 'f kernel_lib \<Rightarrow>
    'f array2 \<Rightarrow> 'f array2 \<Rightarrow> 'f array2 \<Rightarrow> nat \<Rightarrow> nat \<Rightarrow> nat \<Rightarrow> ('x, 'c, 'f array2) dec" where
  "causal_gqa_attention_with_offload T F H L K q k v num_q_heads num_kv_heads head_dim =
     (let n = length (snd q) in
      eseq (eassert (gqa_fits q k v num_q_heads num_kv_heads head_dim \<and> length (snd k) = n))
      (ebind (on_exec (tx_qkt_batched T (n, head_dim, q_heads q num_q_heads head_dim)
          (head_dim, n, map (transpose_of head_dim) (kv_heads k num_q_heads num_kv_heads head_dim)))) (\<lambda>(m, p, scores).
       eseq (eassert (m = n \<and> p = n \<and> num_q_heads \<le> length scores))
       (ereturn (num_q_heads * head_dim,
          join_heads n (map2 (context_of_scores F H L K Global 0 head_dim) (take num_q_heads scores)
            (kv_heads v num_q_heads num_kv_heads head_dim)))))))"

definition causal_gqa_attention_permuted :: "('f, 'x) trusted_ops \<Rightarrow> 'f f32_ops \<Rightarrow> 'f f32_math \<Rightarrow>
    'f array2 \<Rightarrow> 'f array2 \<Rightarrow> 'f array2 \<Rightarrow> nat \<Rightarrow> nat \<Rightarrow> nat \<Rightarrow> ('x, 'c, 'f array2) dec" where
  "causal_gqa_attention_permuted T F H q k v num_q_heads num_kv_heads head_dim =
     (let n = length (snd q) in
      eseq (eassert (gqa_fits q k v num_q_heads num_kv_heads head_dim \<and> length (snd k) = n))
      (ebind (on_exec (tx_attention_permuted T (n, head_dim, q_heads q num_q_heads head_dim)
          (n, head_dim, kv_heads k num_q_heads num_kv_heads head_dim) (n, head_dim, kv_heads v num_q_heads num_kv_heads head_dim)
          (attention_scale F H head_dim) Causal)) (\<lambda>(m, d, out).
       eseq (eassert (m = n \<and> d = head_dim \<and> num_q_heads \<le> length out))
       (ereturn (num_q_heads * head_dim, join_heads n (take num_q_heads out))))))"

definition causal_gqa_attention_permuted_cached :: "('f, 'x) trusted_ops \<Rightarrow> 'f f32_ops \<Rightarrow> 'f f32_math \<Rightarrow>
    'f array2 \<Rightarrow> 'f array2 \<Rightarrow> 'f array2 \<Rightarrow> nat \<Rightarrow> nat \<Rightarrow> nat \<Rightarrow> nat \<Rightarrow> ('x, 'c, 'f array2) dec" where
  "causal_gqa_attention_permuted_cached T F H q k v num_q_heads num_kv_heads head_dim q_pos_offset =
     (let n_q = length (snd q); n_kv = length (snd k) in
      eseq (eassert (gqa_shape q k v num_q_heads num_kv_heads head_dim \<and> n_q + q_pos_offset \<le> n_kv))
      (ebind (on_exec (tx_attention_permuted_cached T (n_q, head_dim, q_heads q num_q_heads head_dim)
          (n_kv, head_dim, kv_heads k num_q_heads num_kv_heads head_dim) (n_kv, head_dim, kv_heads v num_q_heads num_kv_heads head_dim)
          (attention_scale F H head_dim) q_pos_offset Causal)) (\<lambda>(m, d, out).
       eseq (eassert (m = n_q \<and> d = head_dim \<and> num_q_heads \<le> length out))
       (ereturn (num_q_heads * head_dim, join_heads n_q (take num_q_heads out))))))"

section \<open>Blocks\<close>

definition decoder_block :: "('f, 'x) trusted_ops \<Rightarrow> 'f f32_ops \<Rightarrow> 'f f32_math \<Rightarrow> ('f, 'g, 'h) gelo_lib \<Rightarrow> 'f kernel_lib \<Rightarrow> 'f decoder_config \<Rightarrow>
    'f rope_tables \<Rightarrow> nat \<Rightarrow> 'f decoder_layer \<Rightarrow> 'f array2 \<Rightarrow> ('x, 'c, 'f array2) dec" where
  "decoder_block T F H L K cfg R li layer hidden =
     (let offload = offload_layer cfg li; nq = dc_num_attention_heads cfg; nkv = dc_num_key_value_heads cfg; hd = head_dim_value cfg in
      ebind (elift (rms_norm F H hidden (dl_norm_attn layer) (dc_rms_norm_eps cfg))) (\<lambda>h_norm.
      ebind (qkv_step T L K offload li layer h_norm) (\<lambda>(q, k, v).
      ebind (elift (qk_norm_step F H cfg layer q k)) (\<lambda>(q, k).
      ebind (elift (rope_apply F R q nq)) (\<lambda>q.
      ebind (elift (rope_apply F R k nkv)) (\<lambda>k.
      let n = length (snd q) in
      ebind (if offload \<and> out_attn_mult_enabled_for cfg n then causal_gqa_attention_with_offload T F H L K q k v nq nkv hd
          else if offload \<and> perm_attention_enabled_for cfg n then causal_gqa_attention_permuted T F H q k v nq nkv hd
          else elift (causal_gqa_attention F H L K q k v nq nkv hd)) (\<lambda>ctx.
      finish_block T F H L K cfg offload li layer hidden ctx)))))))"

definition decoder_block_cached :: "('f, 'x) trusted_ops \<Rightarrow> 'f f32_ops \<Rightarrow> 'f f32_math \<Rightarrow> ('f, 'g, 'h) gelo_lib \<Rightarrow> 'f kernel_lib \<Rightarrow> 'f decoder_config \<Rightarrow>
    'f rope_tables \<Rightarrow> nat \<Rightarrow> nat \<Rightarrow> 'f decoder_layer \<Rightarrow> 'f array2 \<Rightarrow> ('x, 'f kv_cache, 'f array2) dec" where
  "decoder_block_cached T F H L K cfg R q_pos_offset li layer hidden =
     (let offload = offload_layer cfg li; nq = dc_num_attention_heads cfg; nkv = dc_num_key_value_heads cfg; hd = head_dim_value cfg in
      ebind (elift (rms_norm F H hidden (dl_norm_attn layer) (dc_rms_norm_eps cfg))) (\<lambda>h_norm.
      ebind (elift (effective_attention_class cfg li)) (\<lambda>cls.
      let kv_shared = (dc_kv_shared_in_global cfg \<and> cls = Global) in
      ebind (qkv_tied_step T L K kv_shared offload li layer h_norm) (\<lambda>(q_new, k_new, v_new).
      ebind (elift (qk_norm_step F H cfg layer q_new k_new)) (\<lambda>(q_new, k_new).
      ebind (elift (rotation_of F H K cfg cls)) (\<lambda>rotated.
      ebind (elift (apply_partial_at F R q_new nq q_pos_offset rotated)) (\<lambda>q_new.
      ebind (elift (apply_partial_at F R k_new nkv q_pos_offset rotated)) (\<lambda>k_new.
      eseq (on_cache (kv_append li k_new (if kv_shared then k_new else v_new)))
      (ebind (on_cache (\<lambda>c. (view c li, c))) (\<lambda>(k_cached, v_cached).
      ebind (case cls of
          Local window \<Rightarrow> elift (causal_gqa_attention_swa_cached F H L K q_new k_cached v_cached nq nkv hd q_pos_offset window)
        | Global \<Rightarrow>
            if offload \<and> perm_attention_enabled_for cfg (length (snd q_new))
            then causal_gqa_attention_permuted_cached T F H q_new k_cached v_cached nq nkv hd q_pos_offset
            else elift (causal_gqa_attention_cached F H L K q_new k_cached v_cached nq nkv hd q_pos_offset)) (\<lambda>ctx.
      finish_block T F H L K cfg offload li layer hidden ctx)))))))))))"

section \<open>Passes over one sequence\<close>

definition embed_row :: "'f f32_ops \<Rightarrow> 'f kernel_lib \<Rightarrow> nat \<Rightarrow> bf16_matrix \<Rightarrow> u32 \<Rightarrow> (decode_error, 'f list) outcome" where
  "embed_row F K d emb token =
     rbind (assert_that (unat token < length (snd emb) \<and> fst emb \<le> d)) (\<lambda>_.
     let row = map (kn_widen K) (snd emb ! unat token) in Inr (row @ replicate (d - length row) (f_lit F 0)))"

definition embedding_lookup :: "'f f32_ops \<Rightarrow> 'f kernel_lib \<Rightarrow> 'f decoder_config \<Rightarrow> 'f decoder_weights \<Rightarrow> u32 list \<Rightarrow> (decode_error, 'f array2) outcome" where
  "embedding_lookup F K cfg w ids =
     rbind (rmap (embed_row F K (dc_hidden_size cfg) (dw_token_embedding w)) ids) (\<lambda>rows. Inr (dc_hidden_size cfg, rows))"

definition final_norm :: "'f f32_ops \<Rightarrow> 'f f32_math \<Rightarrow> 'f decoder_config \<Rightarrow> 'f decoder_weights \<Rightarrow> 'f array2 \<Rightarrow> ('x, 'c, 'f array2) dec" where
  "final_norm F H cfg w h = elift (rms_norm F H h (dw_final_norm w) (dc_rms_norm_eps cfg))"

definition over_layers :: "(nat \<Rightarrow> 'f decoder_layer \<Rightarrow> 'f array2 \<Rightarrow> ('x, 'c, 'f array2) dec) \<Rightarrow> 'f decoder_layer list \<Rightarrow> 'f array2 \<Rightarrow> ('x, 'c, 'f array2) dec" where
  "over_layers block layers h = efold (\<lambda>(li, layer). block li layer) (zip [0..<length layers] layers) h"

definition run_with_hook :: "('f, 'x) trusted_ops \<Rightarrow> 'f f32_ops \<Rightarrow> 'f f32_math \<Rightarrow> ('f, 'g, 'h) gelo_lib \<Rightarrow> 'f kernel_lib \<Rightarrow> 'f decoder_config \<Rightarrow>
    'f decoder_weights \<Rightarrow> 'f rope_tables \<Rightarrow> u32 list \<Rightarrow> (nat \<Rightarrow> 'f array2 \<Rightarrow> 'f array2) \<Rightarrow> ('x, 'c, 'f array2) dec" where
  "run_with_hook T F H L K cfg w R ids after_layer =
     ebind (elift (embedding_lookup F K cfg w ids)) (\<lambda>h.
     with_forward_session T (SingleShape (length ids))
       (ebind (over_layers (\<lambda>li layer h. ebind (decoder_block T F H L K cfg R li layer h) (\<lambda>h. ereturn (after_layer li h))) (dw_layers w) h)
         (final_norm F H cfg w)))"

definition run :: "('f, 'x) trusted_ops \<Rightarrow> 'f f32_ops \<Rightarrow> 'f f32_math \<Rightarrow> ('f, 'g, 'h) gelo_lib \<Rightarrow> 'f kernel_lib \<Rightarrow> 'f decoder_config \<Rightarrow>
    'f decoder_weights \<Rightarrow> 'f rope_tables \<Rightarrow> u32 list \<Rightarrow> ('x, 'c, 'f array2) dec" where
  "run T F H L K cfg w R ids = run_with_hook T F H L K cfg w R ids (\<lambda>_ h. h)"

definition run_prefill :: "('f, 'x) trusted_ops \<Rightarrow> 'f f32_ops \<Rightarrow> 'f f32_math \<Rightarrow> ('f, 'g, 'h) gelo_lib \<Rightarrow> 'f kernel_lib \<Rightarrow> 'f decoder_config \<Rightarrow>
    'f decoder_weights \<Rightarrow> 'f rope_tables \<Rightarrow> u32 list \<Rightarrow> ('x, 'f kv_cache, 'f array2) dec" where
  "run_prefill T F H L K cfg w R ids =
     ebind (eget snd) (\<lambda>c.
     eseq (eassert (length (kv_layers c) = length (dw_layers w) \<and> kv_width c = kv_dim cfg))
     (ebind (elift (kv_len c)) (\<lambda>q_pos_offset.
     eseq (eassert (q_pos_offset + length ids \<le> kv_max_len c))
     (ebind (elift (embedding_lookup F K cfg w ids)) (\<lambda>h.
     with_forward_session T (SingleShape (length ids))
       (ebind (over_layers (decoder_block_cached T F H L K cfg R q_pos_offset) (dw_layers w) h) (final_norm F H cfg w)))))))"

definition run_decode_step :: "('f, 'x) trusted_ops \<Rightarrow> 'f f32_ops \<Rightarrow> 'f f32_math \<Rightarrow> ('f, 'g, 'h) gelo_lib \<Rightarrow> 'f kernel_lib \<Rightarrow> 'f decoder_config \<Rightarrow>
    'f decoder_weights \<Rightarrow> 'f rope_tables \<Rightarrow> u32 \<Rightarrow> ('x, 'f kv_cache, 'f list) dec" where
  "run_decode_step T F H L K cfg w R token_id =
     ebind (eget snd) (\<lambda>c.
     eseq (eassert (length (kv_layers c) = length (dw_layers w) \<and> kv_width c = kv_dim cfg))
     (ebind (elift (kv_len c)) (\<lambda>q_pos_offset.
     eseq (eassert (q_pos_offset + 1 \<le> kv_max_len c))
     (ebind (elift (embedding_lookup F K cfg w [token_id])) (\<lambda>h.
     with_forward_session T (SingleShape 1)
       (ebind (over_layers (decoder_block_cached T F H L K cfg R q_pos_offset) (dw_layers w) h) (\<lambda>h.
        ebind (final_norm F H cfg w h) (\<lambda>normed. eseq (eassert (snd normed \<noteq> [])) (ereturn (hd (snd normed)))))))))))"

section \<open>Generation\<close>

record generation_config =
  gc_max_tokens :: nat
  gc_eos_token_ids :: "u32 list"

record generation_output =
  go_tokens :: "u32 list"
  go_stopped_on_eos :: bool

text \<open>The index of the first largest logit; nothing is larger than minus infinity but what compares
  so.\<close>

definition argmax :: "'f f32_ops \<Rightarrow> ('f, 'g, 'h) gelo_lib \<Rightarrow> 'f list \<Rightarrow> u32" where
  "argmax F L logits =
     fst (fold (\<lambda>(i, v) (best_idx, best_val). if f_lt F best_val v then (of_nat i, v) else (best_idx, best_val))
       (zip [0..<length logits] logits) (0, gl_neg_infinity L))"

definition compute_logits :: "('f, 'x) trusted_ops \<Rightarrow> 'f f32_ops \<Rightarrow> 'f kernel_lib \<Rightarrow> 'f decoder_config \<Rightarrow> 'f decoder_weights \<Rightarrow> 'f list \<Rightarrow>
    ('x, 'c, 'f list) dec" where
  "compute_logits T F K cfg w h_last =
     eseq (on_exec (tx_begin T (SingleShape 1)))
     (ebind (on_exec (tx_linear T (layer_handle 0 WLmHead) (length h_last, [h_last]))) (\<lambda>(p, logits_2d).
      eseq (on_exec (tx_end T))
      (if length logits_2d \<noteq> 1 \<or> p \<noteq> length (snd (dw_token_embedding w)) then efault (Fail LogitShape)
       else ereturn (case dc_final_logit_softcapping cfg of
           Some cap \<Rightarrow> map (\<lambda>x. f_mul F (kn_tanh K (f_mul F x (f_div F (f_lit F 1) cap))) cap) (hd logits_2d)
         | None \<Rightarrow> hd logits_2d))))"

text \<open>The decode loop: the last hidden row gives a token, the token the next hidden row.\<close>

fun decode_loop :: "('f, 'x) trusted_ops \<Rightarrow> 'f f32_ops \<Rightarrow> 'f f32_math \<Rightarrow> ('f, 'g, 'h) gelo_lib \<Rightarrow> 'f kernel_lib \<Rightarrow> 'f decoder_config \<Rightarrow>
    'f decoder_weights \<Rightarrow> 'f rope_tables \<Rightarrow> u32 list \<Rightarrow> nat \<Rightarrow> 'f list \<Rightarrow> u32 list \<Rightarrow> ('x, 'f kv_cache, generation_output) dec" where
  "decode_loop T F H L K cfg w R eos 0 h_last tokens = ereturn \<lparr>go_tokens = tokens, go_stopped_on_eos = False\<rparr>"
| "decode_loop T F H L K cfg w R eos (Suc n) h_last tokens =
     ebind (compute_logits T F K cfg w h_last) (\<lambda>logits.
     let next_token = argmax F L logits; tokens = tokens @ [next_token] in
     if next_token \<in> set eos then ereturn \<lparr>go_tokens = tokens, go_stopped_on_eos = True\<rparr>
     else ebind (run_decode_step T F H L K cfg w R next_token) (\<lambda>h_last. decode_loop T F H L K cfg w R eos n h_last tokens))"

text \<open>The flags of the layers whose keys and values are tied.\<close>

definition shared_flags :: "'f decoder_config \<Rightarrow> nat \<Rightarrow> (decode_error, bool list) outcome" where
  "shared_flags cfg n = rmap (\<lambda>li. rbind (effective_attention_class cfg li) (\<lambda>cls. Inr (cls = Global))) [0..<n]"

definition cache_for :: "'f f32_ops \<Rightarrow> 'f decoder_config \<Rightarrow> nat \<Rightarrow> nat \<Rightarrow> nat \<Rightarrow> (decode_error, 'f kv_cache) outcome" where
  "cache_for F cfg batch_size num_layers max_cache_len =
     (if dc_kv_shared_in_global cfg \<and> dc_attention_classes cfg \<noteq> None
      then rbind (shared_flags cfg num_layers) (kv_new_with_sharing_batched F batch_size num_layers max_cache_len (kv_dim cfg))
      else Inr (kv_new_batched F batch_size num_layers max_cache_len (kv_dim cfg)))"

text \<open>The cache lives for one call.\<close>

definition with_cache :: "'c \<Rightarrow> ('x, 'c, 'a) dec \<Rightarrow> ('x, decode_error, 'a) eff" where
  "with_cache c m = (\<lambda>x. let (r, x, _) = m (x, c) in (r, x))"

definition generate :: "('f, 'x) trusted_ops \<Rightarrow> 'f f32_ops \<Rightarrow> 'f f32_math \<Rightarrow> ('f, 'g, 'h) gelo_lib \<Rightarrow> 'f kernel_lib \<Rightarrow> 'f decoder_config \<Rightarrow>
    'f decoder_weights \<Rightarrow> 'f rope_tables \<Rightarrow> u32 list \<Rightarrow> generation_config \<Rightarrow> ('x, decode_error, generation_output) eff" where
  "generate T F H L K cfg w R prompt_ids gen =
     (if prompt_ids = [] then efault (Fail PromptEmpty)
      else if gc_max_tokens gen = 0 then ereturn \<lparr>go_tokens = [], go_stopped_on_eos = False\<rparr>
      else let max_cache_len = length prompt_ids + gc_max_tokens gen in
        if dc_max_position_embeddings cfg < max_cache_len then efault (Fail (PromptTooLong max_cache_len))
        else ebind (elift (cache_for F cfg 1 (length (dw_layers w)) max_cache_len)) (\<lambda>c.
          with_cache c (ebind (run_prefill T F H L K cfg w R prompt_ids) (\<lambda>hidden.
            eseq (eassert (snd hidden \<noteq> []))
            (decode_loop T F H L K cfg w R (gc_eos_token_ids gen) (gc_max_tokens gen) (last (snd hidden)) [])))))"

end
