(* ===== verification/Dec_Reference.thy ===== *)
theory Dec_Reference
  imports Dec_Forward Gelo_Forward
begin

text \<open>
  The decoder as mathematics: every hidden row on its own, and attention over the rows before it.
  \<open>causal_layer\<close> needs no cache; \<open>dense_layer\<close> is the same layer continued from cached keys and
  values.
\<close>

section \<open>A network\<close>

record ('f, 'g, 'h) network =
  nw_ops :: "'f f32_ops"
  nw_math :: "'f f32_math"
  nw_lib :: "('f, 'g, 'h) gelo_lib"
  nw_kernels :: "'f kernel_lib"
  nw_config :: "'f decoder_config"
  nw_weights :: "'f decoder_weights"
  nw_rope :: "'f rope_tables"
  nw_registered :: "weight_handle \<Rightarrow> 'f array2"

definition dotp :: "'f f32_ops \<Rightarrow> 'f list \<Rightarrow> 'f list \<Rightarrow> 'f" where
  "dotp F xs ys = fold (\<lambda>(x, y) s. f_add F s (f_mul F x y)) (zip xs ys) (f_lit F 0)"

definition row_dots :: "'f f32_ops \<Rightarrow> nat \<Rightarrow> 'f list list \<Rightarrow> 'f list \<Rightarrow> 'f list" where
  "row_dots F p W row = map (\<lambda>j. dotp F row (map (\<lambda>w. w ! j) W)) [0..<p]"

text \<open>The matrix product of the library is the textbook product.\<close>

definition textbook_products :: "'f f32_ops \<Rightarrow> ('f, 'g, 'h) gelo_lib \<Rightarrow> bool" where
  "textbook_products F L \<longleftrightarrow>
     (\<forall>n d p X W. mat n d X \<longrightarrow> mat d p W \<longrightarrow> gl_mm L (d, X) (p, W) = map (row_dots F p W) X)"

definition weight_at :: "('f, 'g, 'h) network \<Rightarrow> nat \<Rightarrow> weight_kind \<Rightarrow> bf16_matrix option \<Rightarrow> 'f array2" where
  "weight_at N li kind w =
     (if offload_layer (nw_config N) li then nw_registered N (layer_handle li kind)
      else case w of Some b \<Rightarrow> (fst b, map (map (kn_widen (nw_kernels N))) (snd b)) | None \<Rightarrow> (0, []))"

definition project :: "('f, 'g, 'h) network \<Rightarrow> nat \<Rightarrow> weight_kind \<Rightarrow> bf16_matrix option \<Rightarrow> 'f list \<Rightarrow> 'f list" where
  "project N li kind w row = row_dots (nw_ops N) (fst (weight_at N li kind w)) (snd (weight_at N li kind w)) row"

definition layer_of :: "('f, 'g, 'h) network \<Rightarrow> nat \<Rightarrow> 'f decoder_layer" where
  "layer_of N li = dw_layers (nw_weights N) ! li"

definition class_of :: "('f, 'g, 'h) network \<Rightarrow> nat \<Rightarrow> attention_class" where
  "class_of N li = (case dc_attention_classes (nw_config N) of None \<Rightarrow> Global | Some v \<Rightarrow> v ! li)"

definition tied :: "('f, 'g, 'h) network \<Rightarrow> nat \<Rightarrow> bool" where
  "tied N li \<longleftrightarrow> dc_kv_shared_in_global (nw_config N) \<and> class_of N li = Global"

definition rotation :: "('f, 'g, 'h) network \<Rightarrow> nat \<Rightarrow> nat" where
  "rotation N li = (case rotation_of (nw_ops N) (nw_math N) (nw_kernels N) (nw_config N) (class_of N li) of Inr r \<Rightarrow> r | Inl _ \<Rightarrow> 0)"

definition normed :: "('f, 'g, 'h) network \<Rightarrow> 'f list \<Rightarrow> 'f list \<Rightarrow> 'f list" where
  "normed N gamma = norm_row (nw_ops N) (nw_math N) gamma (dc_rms_norm_eps (nw_config N))"

text \<open>Heads normalised if the layer has a weight for it, then rotated to their position.\<close>

definition positioned :: "('f, 'g, 'h) network \<Rightarrow> nat \<Rightarrow> nat \<Rightarrow> 'f list option \<Rightarrow> nat \<Rightarrow> 'f list \<Rightarrow> 'f list" where
  "positioned N li heads gamma pos row =
     rope_row (nw_ops N) (nw_rope N) heads (rotation N li) pos
       (case gamma of Some g \<Rightarrow> on_heads heads (head_dim_value (nw_config N)) (normed N g) row | None \<Rightarrow> row)"

definition query_of :: "('f, 'g, 'h) network \<Rightarrow> nat \<Rightarrow> nat \<Rightarrow> 'f list \<Rightarrow> 'f list" where
  "query_of N li pos row =
     positioned N li (dc_num_attention_heads (nw_config N)) (dl_q_norm (layer_of N li)) pos
       (project N li WQ (dl_wq (layer_of N li)) (normed N (dl_norm_attn (layer_of N li)) row))"

definition key_of :: "('f, 'g, 'h) network \<Rightarrow> nat \<Rightarrow> nat \<Rightarrow> 'f list \<Rightarrow> 'f list" where
  "key_of N li pos row =
     positioned N li (dc_num_key_value_heads (nw_config N)) (dl_k_norm (layer_of N li)) pos
       (project N li WK (dl_wk (layer_of N li)) (normed N (dl_norm_attn (layer_of N li)) row))"

definition value_of :: "('f, 'g, 'h) network \<Rightarrow> nat \<Rightarrow> nat \<Rightarrow> 'f list \<Rightarrow> 'f list" where
  "value_of N li pos row =
     (if tied N li then key_of N li pos row
      else project N li WV (dl_wv (layer_of N li)) (normed N (dl_norm_attn (layer_of N li)) row))"

text \<open>One head of one query.\<close>

definition attend_head :: "('f, 'g, 'h) network \<Rightarrow> attention_class \<Rightarrow> nat \<Rightarrow> 'f list \<Rightarrow> 'f list list \<Rightarrow> 'f list list \<Rightarrow> 'f list" where
  "attend_head N cls pos q ks vs =
     (let F = nw_ops N; d = head_dim_value (nw_config N);
          scores = map (\<lambda>k. f_mul F (dotp F q k) (attention_scale F (nw_math N) d)) ks
      in row_dots F d vs (softmax_inplace_row F (nw_lib N) (nw_kernels N) (band_mask (gl_neg_infinity (nw_lib N)) (window_start cls pos) pos scores)))"

definition attend :: "('f, 'g, 'h) network \<Rightarrow> attention_class \<Rightarrow> nat \<Rightarrow> 'f list \<Rightarrow> 'f list list \<Rightarrow> 'f list list \<Rightarrow> 'f list" where
  "attend N cls pos q ks vs =
     (let c = nw_config N; d = head_dim_value c; group = dc_num_attention_heads c div dc_num_key_value_heads c
      in concat (map (\<lambda>h. attend_head N cls pos (take d (drop (h * d) q)) (cols ((h div group) * d) d ks) (cols ((h div group) * d) d vs))
          [0..<dc_num_attention_heads c]))"

definition feed_forward :: "('f, 'g, 'h) network \<Rightarrow> nat \<Rightarrow> 'f list \<Rightarrow> 'f list \<Rightarrow> 'f list" where
  "feed_forward N li row ctx =
     (let F = nw_ops N; l = layer_of N li;
          h1 = map2 (f_add F) row (project N li WO (dl_wo l) ctx);
          h1_norm = normed N (dl_norm_ffn l) h1;
          activated = map2 (\<lambda>g u. f_mul F (f_div F g (f_add F (f_lit F 1) (gl_exp (nw_lib N) (f_neg F g)))) u)
            (project N li WFfnGate (dl_w_gate l) h1_norm) (project N li WFfnUp (dl_w_up l) h1_norm)
      in map2 (f_add F) h1 (project N li WFfnDown (dl_w_down l) activated))"

section \<open>Layers\<close>

definition keys_from :: "('f, 'g, 'h) network \<Rightarrow> nat \<Rightarrow> nat \<Rightarrow> 'f list list \<Rightarrow> 'f list list" where
  "keys_from N li off hs = map2 (\<lambda>i. key_of N li (off + i)) [0..<length hs] hs"

definition values_from :: "('f, 'g, 'h) network \<Rightarrow> nat \<Rightarrow> nat \<Rightarrow> 'f list list \<Rightarrow> 'f list list" where
  "values_from N li off hs = map2 (\<lambda>i. value_of N li (off + i)) [0..<length hs] hs"

text \<open>New rows after \<open>length ks\<close> cached ones.\<close>

definition dense_layer :: "('f, 'g, 'h) network \<Rightarrow> nat \<Rightarrow> 'f list list \<times> 'f list list \<Rightarrow> 'f list list \<Rightarrow> 'f list list \<times> 'f list list \<times> 'f list list" where
  "dense_layer N li = (\<lambda>(ks, vs) hs.
     let off = length ks; ks = ks @ keys_from N li off hs; vs = vs @ values_from N li off hs
     in (map2 (\<lambda>i h. feed_forward N li h (attend N (class_of N li) (off + i) (query_of N li (off + i) h) ks vs)) [0..<length hs] hs, ks, vs))"

text \<open>Row \<open>i\<close> sees the rows up to \<open>i\<close> and nothing else.\<close>

definition causal_layer :: "('f, 'g, 'h) network \<Rightarrow> nat \<Rightarrow> 'f list list \<Rightarrow> 'f list list" where
  "causal_layer N li hs =
     map (\<lambda>i. feed_forward N li (hs ! i)
         (attend N (class_of N li) i (query_of N li i (hs ! i)) (keys_from N li 0 (take (Suc i) hs)) (values_from N li 0 (take (Suc i) hs))))
       [0..<length hs]"

fun dense_layers :: "('f, 'g, 'h) network \<Rightarrow> nat \<Rightarrow> ('f list list \<times> 'f list list) list \<Rightarrow> 'f list list \<Rightarrow> 'f list list \<times> ('f list list \<times> 'f list list) list" where
  "dense_layers N li [] hs = (hs, [])"
| "dense_layers N li (c # cs) hs =
     (let (hs, ks, vs) = dense_layer N li c hs; (hs, cs) = dense_layers N (Suc li) cs hs in (hs, (ks, vs) # cs))"

definition causal_layers :: "('f, 'g, 'h) network \<Rightarrow> nat \<Rightarrow> 'f list list \<Rightarrow> 'f list list" where
  "causal_layers N n hs = fold (causal_layer N) [0..<n] hs"

section \<open>Tokens\<close>

definition embed :: "('f, 'g, 'h) network \<Rightarrow> u32 \<Rightarrow> 'f list" where
  "embed N token =
     (let row = map (kn_widen (nw_kernels N)) (snd (dw_token_embedding (nw_weights N)) ! unat token)
      in row @ replicate (dc_hidden_size (nw_config N) - length row) (f_lit (nw_ops N) 0))"

text \<open>The hidden rows of a text.\<close>

definition hidden_rows :: "('f, 'g, 'h) network \<Rightarrow> u32 list \<Rightarrow> 'f list list" where
  "hidden_rows N ids =
     map (normed N (dw_final_norm (nw_weights N))) (causal_layers N (length (dw_layers (nw_weights N))) (map (embed N) ids))"

definition logits_of :: "('f, 'g, 'h) network \<Rightarrow> 'f list \<Rightarrow> 'f list" where
  "logits_of N h =
     (let F = nw_ops N; W = nw_registered N (layer_handle 0 WLmHead); logits = row_dots F (fst W) (snd W) h
      in case dc_final_logit_softcapping (nw_config N) of
           Some cap \<Rightarrow> map (\<lambda>x. f_mul F (kn_tanh (nw_kernels N) (f_mul F x (f_div F (f_lit F 1) cap))) cap) logits
         | None \<Rightarrow> logits)"

definition token_of :: "('f, 'g, 'h) network \<Rightarrow> 'f list \<Rightarrow> u32" where
  "token_of N h = argmax (nw_ops N) (nw_lib N) (logits_of N h)"

text \<open>Greedy decoding that computes the whole text again for every token.\<close>

fun greedy :: "('f, 'g, 'h) network \<Rightarrow> u32 list \<Rightarrow> nat \<Rightarrow> u32 list \<Rightarrow> u32 list \<Rightarrow> generation_output" where
  "greedy N eos 0 prompt tokens = \<lparr>go_tokens = tokens, go_stopped_on_eos = False\<rparr>"
| "greedy N eos (Suc n) prompt tokens =
     (let t = token_of N (last (hidden_rows N (prompt @ tokens))); tokens = tokens @ [t]
      in if t \<in> set eos then \<lparr>go_tokens = tokens, go_stopped_on_eos = True\<rparr> else greedy N eos n prompt tokens)"

text \<open>Greedy decoding over cached keys and values.\<close>

fun cached_greedy :: "('f, 'g, 'h) network \<Rightarrow> u32 list \<Rightarrow> nat \<Rightarrow> ('f list list \<times> 'f list list) list \<Rightarrow> 'f list \<Rightarrow> u32 list \<Rightarrow> generation_output" where
  "cached_greedy N eos 0 cs h tokens = \<lparr>go_tokens = tokens, go_stopped_on_eos = False\<rparr>"
| "cached_greedy N eos (Suc n) cs h tokens =
     (let t = token_of N h; tokens = tokens @ [t]
      in if t \<in> set eos then \<lparr>go_tokens = tokens, go_stopped_on_eos = True\<rparr>
         else let (hs, cs) = dense_layers N 0 cs [embed N t]
           in cached_greedy N eos n cs (normed N (dw_final_norm (nw_weights N)) (hd hs)) tokens)"

end
