(* ===== verification/Dec_Rows.thy ===== *)
theory Dec_Rows
  imports Dec_Reference
begin

text \<open>
  The kernels row by row: on matrices of the right shape none of them panics, and each row of the
  result is the reference function of its row.
\<close>

named_theorems row_lengths \<open>the lengths of rows\<close>

section \<open>Shapes\<close>

lemma mat_map_rows: "mat n d X \<Longrightarrow> (\<And>row. length row = d \<Longrightarrow> length (f row) = p) \<Longrightarrow> mat n p (map f X)"
  by (auto simp: mat_def)

lemma mat_map2_rows:
  assumes "mat n d X" and "\<And>i row. length row = d \<Longrightarrow> length (f i row) = p"
  shows "mat n p (map2 f [0..<n] X)"
  using assms by (auto simp: mat_def set_zip)

lemma mat_rows: "mat n d X \<Longrightarrow> row \<in> set X \<Longrightarrow> length row = d"
  by (simp add: mat_def)

lemma mat_cols: "mat n w X \<Longrightarrow> off + d \<le> w \<Longrightarrow> mat n d (cols off d X)"
  by (auto simp: mat_def cols_def)

lemma length_rows_of [simp]: "length (rows_of d n xs) = n"
  by (simp add: rows_of_def)

lemma rows_of_row: "length xs = n * d \<Longrightarrow> r \<in> set (rows_of d n xs) \<Longrightarrow> length r = d"
proof -
  assume xs: "length xs = n * d" and "r \<in> set (rows_of d n xs)"
  then obtain i where i: "i < n" "r = take d (drop (i * d) xs)" by (auto simp: rows_of_def)
  have "(i + 1) * d \<le> n * d" using i(1) by (intro mult_le_mono1) simp
  then show ?thesis using i(2) xs by simp
qed

lemma length_concat_equal: "(\<And>r. r \<in> set xs \<Longrightarrow> length r = d) \<Longrightarrow> length (concat xs) = length xs * d"
  by (induction xs) auto

lemma length_on_heads:
  assumes "length row = n * d" and "\<And>r. length r = d \<Longrightarrow> length (f r) = d"
  shows "length (on_heads n d f row) = n * d"
  unfolding on_heads_def using assms(2) rows_of_row [OF assms(1)] by (subst length_concat_equal [where d = d]) auto

lemma length_norm_row [row_lengths]: "length (norm_row F H gamma eps row) = min (length row) (length gamma)"
  by (simp add: norm_row_def Let_def)

lemma length_normed [row_lengths]: "length (normed N gamma row) = min (length row) (length gamma)"
  by (simp add: normed_def row_lengths)

lemma length_row_dots [row_lengths, simp]: "length (row_dots F p W row) = p"
  by (simp add: row_dots_def)

lemma length_project [row_lengths]: "length (project N li kind w row) = fst (weight_at N li kind w)"
  by (simp add: project_def)

lemma length_rotate_head: "2 * half \<le> length r \<Longrightarrow> length (rotate_head F half cs sn r) = length r"
  by (simp add: rotate_head_def)

lemma length_rope_row:
  assumes "length row = n * rt_head_dim R" and "rotated \<le> rt_head_dim R"
  shows "length (rope_row F R n rotated pos row) = n * rt_head_dim R"
proof -
  have "length (rotate_head F (rotated div 2) cs sn r) = rt_head_dim R" if "length r = rt_head_dim R" for cs sn r
    using that assms(2) by (subst length_rotate_head) auto
  then show ?thesis using assms by (simp add: rope_row_def length_on_heads)
qed

section \<open>Products\<close>

lemma textbook: "textbook_products F L \<Longrightarrow> mat n d X \<Longrightarrow> mat d p W \<Longrightarrow> gl_mm L (d, X) (p, W) = map (row_dots F p W) X"
  unfolding textbook_products_def by blast

lemma row_dots_transpose:
  assumes "mat m d k"
  shows "row_dots F m (transpose_of d k) = (\<lambda>q. map (dotp F q) k)"
proof
  fix q
  have "map (\<lambda>w. w ! j) (transpose_of d k) = k ! j" if "j < m" for j
    using assms that by (intro nth_equalityI) (auto simp: transpose_of_def mat_def)
  then show "row_dots F m (transpose_of d k) q = map (dotp F q) k"
    using assms by (auto simp: row_dots_def mat_def intro!: nth_equalityI)
qed

lemma mat_transposed: "mat m d k \<Longrightarrow> mat d m (transpose_of d k)"
  by (auto simp: mat_def transpose_of_def)

section \<open>Attention\<close>

lemma length_band_mask [simp]: "length (band_mask z lo hi row) = length row"
  by (simp add: band_mask_def)

lemma length_softmax [simp]: "length (softmax_inplace_row F L K row) = length row"
  by (simp add: softmax_inplace_row_def Let_def)

lemma group_less:
  assumes "0 < nkv" and "nkv \<le> nq" and "nq mod nkv = 0" and "(h :: nat) < nq"
  shows "h div (nq div nkv) < nkv"
proof -
  obtain g where g: "nq = nkv * g" using assms(3) by auto
  then have "0 < g" using assms(1,2) by (cases g) auto
  then show ?thesis using g assms by (simp add: div_less_iff_less_mult mult.commute)
qed

lemma head_fits: "(h :: nat) < n \<Longrightarrow> h * d + d \<le> n * d"
  by (metis Suc_leI add.commute mult_Suc mult_le_mono1)

lemma context_rows:
  assumes tb: "textbook_products F L" and s: "mat n m scores" and v: "mat m d vh"
  shows "context_of_scores F H L K cls off d scores vh =
    map2 (\<lambda>i r. row_dots F d vh (softmax_inplace_row F L K (band_mask (gl_neg_infinity L) (window_start cls (off + i)) (off + i)
      (map (\<lambda>x. f_mul F x (attention_scale F H d)) r)))) [0..<n] scores"
proof -
  let ?rows = "map (softmax_inplace_row F L K) (map2 (\<lambda>i. band_mask (gl_neg_infinity L) (window_start cls (off + i)) (off + i))
      [0..<n] (map (map (\<lambda>x. f_mul F x (attention_scale F H d))) scores))"
  have len: "length scores = n" "length vh = m" using s v by (simp_all add: mat_def)
  have "mat n m ?rows" using s by (auto simp: mat_def set_zip)
  then have "gl_mm L (m, ?rows) (d, vh) = map (row_dots F d vh) ?rows" by (rule textbook [OF tb _ v])
  then show ?thesis using len by (simp add: context_of_scores_def Let_def zip_map2 comp_def case_prod_beta)
qed

definition head_context :: "'f f32_ops \<Rightarrow> 'f f32_math \<Rightarrow> ('f, 'g, 'h) gelo_lib \<Rightarrow> 'f kernel_lib \<Rightarrow> attention_class \<Rightarrow> nat \<Rightarrow> nat \<Rightarrow>
    'f list list \<Rightarrow> 'f list list \<Rightarrow> 'f list list \<Rightarrow> 'f list list" where
  "head_context F H L K cls off d qh kh vh = context_of_scores F H L K cls off d (gl_mm L (d, qh) (length kh, transpose_of d kh)) vh"

lemma head_rows:
  assumes tb: "textbook_products F L" and q: "mat n d qh" and k: "mat m d kh" and v: "mat m d vh"
  shows "head_context F H L K cls off d qh kh vh =
    map2 (\<lambda>i r. row_dots F d vh (softmax_inplace_row F L K (band_mask (gl_neg_infinity L) (window_start cls (off + i)) (off + i)
      (map (\<lambda>k. f_mul F (dotp F r k) (attention_scale F H d)) kh)))) [0..<n] qh"
proof -
  have "length kh = m" using k by (simp add: mat_def)
  then have s: "gl_mm L (d, qh) (length kh, transpose_of d kh) = map (\<lambda>r. map (dotp F r) kh) qh"
    using textbook [OF tb q mat_transposed [OF k]] row_dots_transpose [OF k, of F] by simp
  have "mat n m (map (\<lambda>r. map (dotp F r) kh) qh)" using q k by (auto simp: mat_def)
  from context_rows [OF tb this v] show ?thesis by (simp add: head_context_def s zip_map2 comp_def case_prod_beta)
qed

lemma gqa_heads_rows:
  assumes N: "nw_ops N = F" "nw_math N = H" "nw_lib N = L" "nw_kernels N = K" "nw_config N = c"
    and tb: "textbook_products F L" and heads: "0 < dc_num_key_value_heads c" "dc_num_key_value_heads c \<le> dc_num_attention_heads c"
      "dc_num_attention_heads c mod dc_num_key_value_heads c = 0"
    and q: "mat n (q_dim c) q" and k: "mat m (kv_dim c) k" and v: "mat m (kv_dim c) v"
  shows "gqa_heads F H L K cls q k v (dc_num_attention_heads c) (dc_num_key_value_heads c) (head_dim_value c) off =
    map2 (\<lambda>i r. attend N cls (off + i) r k v) [0..<n] q"
proof -
  let ?nq = "dc_num_attention_heads c" and ?nkv = "dc_num_key_value_heads c" and ?d = "head_dim_value c"
  let ?o = "\<lambda>h. (h div (?nq div ?nkv)) * ?d"
  define head where "head = (\<lambda>h. head_context F H L K cls off ?d (cols (h * ?d) ?d q) (cols (?o h) ?d k) (cols (?o h) ?d v))"
  have len: "length q = n" using q by (simp add: mat_def)
  have head: "head h ! i = attend_head N cls (off + i) (take ?d (drop (h * ?d) (q ! i))) (cols (?o h) ?d k) (cols (?o h) ?d v)"
    if h: "h < ?nq" and i: "i < n" for h i
  proof -
    have o: "?o h + ?d \<le> kv_dim c" using head_fits [OF group_less [OF heads h], of ?d] by (simp add: kv_dim_def)
    have qh: "mat n ?d (cols (h * ?d) ?d q)" using mat_cols [OF q] head_fits [OF h, of ?d] by (simp add: q_dim_def)
    show ?thesis unfolding head_def head_rows [OF tb qh mat_cols [OF k o] mat_cols [OF v o]]
      using i len by (simp add: attend_head_def Let_def N cols_def)
  qed
  have "join_heads n (map head [0..<?nq]) = map2 (\<lambda>i r. attend N cls (off + i) r k v) [0..<n] q"
  proof (rule nth_equalityI)
    fix i assume "i < length (join_heads n (map head [0..<?nq]))"
    then have i: "i < n" by (simp add: join_heads_def)
    have "map (\<lambda>h. head h ! i) [0..<?nq] = map (\<lambda>h. attend_head N cls (off + i) (take ?d (drop (h * ?d) (q ! i)))
        (cols (?o h) ?d k) (cols (?o h) ?d v)) [0..<?nq]"
      using i by (intro map_cong refl) (simp add: head)
    from arg_cong [OF this, of concat] show "join_heads n (map head [0..<?nq]) ! i = map2 (\<lambda>i r. attend N cls (off + i) r k v) [0..<n] q ! i"
      using i len by (simp add: join_heads_def attend_def Let_def N comp_def del: map_eq_conv)
  qed (simp add: join_heads_def len)
  then show ?thesis by (simp add: gqa_heads_def head_def head_context_def Let_def len)
qed

lemma length_attend_head: "length (attend_head N cls pos q ks vs) = head_dim_value (nw_config N)"
  by (simp add: attend_head_def Let_def)

lemma length_attend [row_lengths]: "length (attend N cls pos q ks vs) = q_dim (nw_config N)"
  unfolding attend_def Let_def q_dim_def
  by (subst length_concat_equal [where d = "head_dim_value (nw_config N)"]) (auto simp: length_attend_head)

section \<open>Networks that fit\<close>

definition projection_ok :: "('f, 'g, 'h) network \<Rightarrow> (weight_handle \<Rightarrow> nat \<Rightarrow> bool) \<Rightarrow> nat \<Rightarrow> weight_kind \<Rightarrow> bf16_matrix option \<Rightarrow> nat \<Rightarrow> nat \<Rightarrow> bool" where
  "projection_ok N fit li kind w d p \<longleftrightarrow>
     (if offload_layer (nw_config N) li then fit (layer_handle li kind) d else w \<noteq> None) \<and>
     fst (weight_at N li kind w) = p \<and> mat d p (snd (weight_at N li kind w))"

definition heads_ok :: "'f decoder_config \<Rightarrow> bool" where
  "heads_ok c \<longleftrightarrow> 0 < dc_num_key_value_heads c \<and> dc_num_key_value_heads c \<le> dc_num_attention_heads c \<and>
     dc_num_attention_heads c mod dc_num_key_value_heads c = 0"

definition layer_fits :: "('f, 'g, 'h) network \<Rightarrow> (weight_handle \<Rightarrow> nat \<Rightarrow> bool) \<Rightarrow> nat \<Rightarrow> bool" where
  "layer_fits N fit li \<longleftrightarrow>
     (let c = nw_config N; l = layer_of N li; d = dc_hidden_size c in
      length (dl_norm_attn l) = d \<and> length (dl_norm_ffn l) = d \<and>
      (\<forall>g. dl_q_norm l = Some g \<longrightarrow> length g = head_dim_value c) \<and> (\<forall>g. dl_k_norm l = Some g \<longrightarrow> length g = head_dim_value c) \<and>
      projection_ok N fit li WQ (dl_wq l) d (q_dim c) \<and> projection_ok N fit li WK (dl_wk l) d (kv_dim c) \<and>
      projection_ok N fit li WV (dl_wv l) d (kv_dim c) \<and> projection_ok N fit li WO (dl_wo l) (q_dim c) d \<and>
      projection_ok N fit li WFfnGate (dl_w_gate l) d (dc_intermediate_size c) \<and>
      projection_ok N fit li WFfnUp (dl_w_up l) d (dc_intermediate_size c) \<and>
      projection_ok N fit li WFfnDown (dl_w_down l) (dc_intermediate_size c) d \<and>
      (\<forall>window. class_of N li = Local window \<longrightarrow> 0 < window) \<and>
      rotation_of (nw_ops N) (nw_math N) (nw_kernels N) c (class_of N li) = Inr (rotation N li) \<and>
      rotation N li \<le> head_dim_value c \<and> rotation N li mod 2 = 0)"

definition network_fits :: "('f, 'g, 'h) network \<Rightarrow> (weight_handle \<Rightarrow> nat \<Rightarrow> bool) \<Rightarrow> bool" where
  "network_fits N fit \<longleftrightarrow>
     (let c = nw_config N; w = nw_weights N; d = dc_hidden_size c in
      textbook_products (nw_ops N) (nw_lib N) \<and> heads_ok c \<and> rt_head_dim (nw_rope N) = head_dim_value c \<and>
      dc_max_position_embeddings c \<le> length (rt_cos (nw_rope N)) \<and> \<not> dc_use_perm_attention c \<and>
      fst (dw_token_embedding w) \<le> d \<and> (\<forall>row \<in> set (snd (dw_token_embedding w)). length row = fst (dw_token_embedding w)) \<and>
      length (dw_final_norm w) = d \<and> dw_layers w \<noteq> [] \<and>
      (\<forall>v. dc_attention_classes c = Some v \<longrightarrow> length v = dc_num_hidden_layers c \<and> length v = length (dw_layers w)) \<and>
      (\<forall>li < length (dw_layers w). layer_fits N fit li) \<and>
      fit (layer_handle 0 WLmHead) d \<and> fst (nw_registered N (layer_handle 0 WLmHead)) = length (snd (dw_token_embedding w)) \<and>
      mat d (length (snd (dw_token_embedding w))) (snd (nw_registered N (layer_handle 0 WLmHead))))"

lemma fits_net:
  assumes "network_fits N fit"
  shows "textbook_products (nw_ops N) (nw_lib N)" "heads_ok (nw_config N)" "rt_head_dim (nw_rope N) = head_dim_value (nw_config N)"
    "dc_max_position_embeddings (nw_config N) \<le> length (rt_cos (nw_rope N))" "\<not> dc_use_perm_attention (nw_config N)"
    "length (dw_final_norm (nw_weights N)) = dc_hidden_size (nw_config N)"
    "li < length (dw_layers (nw_weights N)) \<Longrightarrow> layer_fits N fit li" "0 < length (dw_layers (nw_weights N))"
    "fit (layer_handle 0 WLmHead) (dc_hidden_size (nw_config N))"
    "fst (nw_registered N (layer_handle 0 WLmHead)) = length (snd (dw_token_embedding (nw_weights N)))"
  using assms by (simp_all add: network_fits_def Let_def)

lemma fits_layer:
  assumes "layer_fits N fit li"
  shows "length (dl_norm_attn (layer_of N li)) = dc_hidden_size (nw_config N)" "length (dl_norm_ffn (layer_of N li)) = dc_hidden_size (nw_config N)"
    "\<And>g. dl_q_norm (layer_of N li) = Some g \<Longrightarrow> length g = head_dim_value (nw_config N)"
    "\<And>g. dl_k_norm (layer_of N li) = Some g \<Longrightarrow> length g = head_dim_value (nw_config N)"
    "projection_ok N fit li WQ (dl_wq (layer_of N li)) (dc_hidden_size (nw_config N)) (q_dim (nw_config N))"
    "projection_ok N fit li WK (dl_wk (layer_of N li)) (dc_hidden_size (nw_config N)) (kv_dim (nw_config N))"
    "projection_ok N fit li WV (dl_wv (layer_of N li)) (dc_hidden_size (nw_config N)) (kv_dim (nw_config N))"
    "projection_ok N fit li WO (dl_wo (layer_of N li)) (q_dim (nw_config N)) (dc_hidden_size (nw_config N))"
    "projection_ok N fit li WFfnGate (dl_w_gate (layer_of N li)) (dc_hidden_size (nw_config N)) (dc_intermediate_size (nw_config N))"
    "projection_ok N fit li WFfnUp (dl_w_up (layer_of N li)) (dc_hidden_size (nw_config N)) (dc_intermediate_size (nw_config N))"
    "projection_ok N fit li WFfnDown (dl_w_down (layer_of N li)) (dc_intermediate_size (nw_config N)) (dc_hidden_size (nw_config N))"
    "\<And>window. class_of N li = Local window \<Longrightarrow> 0 < window"
    "rotation_of (nw_ops N) (nw_math N) (nw_kernels N) (nw_config N) (class_of N li) = Inr (rotation N li)"
    "rotation N li \<le> head_dim_value (nw_config N)" "rotation N li mod 2 = 0"
  using assms by (simp_all add: layer_fits_def Let_def)

lemma projection_fst: "projection_ok N fit li kind w d p \<Longrightarrow> fst (weight_at N li kind w) = p"
  by (simp add: projection_ok_def)

lemma length_positioned:
  assumes "length row = heads * head_dim_value (nw_config N)" and "\<And>g. gamma = Some g \<Longrightarrow> length g = head_dim_value (nw_config N)"
    and "rt_head_dim (nw_rope N) = head_dim_value (nw_config N)" and "rotation N li \<le> head_dim_value (nw_config N)"
  shows "length (positioned N li heads gamma pos row) = heads * head_dim_value (nw_config N)"
  using assms by (cases gamma) (simp_all add: positioned_def length_rope_row length_on_heads length_normed)

lemma length_query_of:
  assumes N: "network_fits N fit" and li: "li < length (dw_layers (nw_weights N))"
  shows "length (query_of N li pos row) = q_dim (nw_config N)"
  unfolding query_of_def q_dim_def using fits_layer [OF fits_net(7) [OF N li]] fits_net(3) [OF N]
  by (intro length_positioned) (simp_all add: length_project projection_fst q_dim_def)

lemma length_key_of:
  assumes N: "network_fits N fit" and li: "li < length (dw_layers (nw_weights N))"
  shows "length (key_of N li pos row) = kv_dim (nw_config N)"
  unfolding key_of_def kv_dim_def using fits_layer [OF fits_net(7) [OF N li]] fits_net(3) [OF N]
  by (intro length_positioned) (simp_all add: length_project projection_fst kv_dim_def)

lemma length_value_of:
  assumes N: "network_fits N fit" and li: "li < length (dw_layers (nw_weights N))"
  shows "length (value_of N li pos row) = kv_dim (nw_config N)"
  using fits_layer(7) [OF fits_net(7) [OF N li]] by (simp add: value_of_def length_key_of [OF N li] length_project projection_fst)

lemma length_feed_forward:
  assumes N: "network_fits N fit" and li: "li < length (dw_layers (nw_weights N))" and row: "length row = dc_hidden_size (nw_config N)"
  shows "length (feed_forward N li row ctx) = dc_hidden_size (nw_config N)"
  using fits_layer(8,11) [OF fits_net(7) [OF N li]] row by (simp add: feed_forward_def Let_def length_project projection_fst)

lemma mat_keys:
  assumes N: "network_fits N fit" and li: "li < length (dw_layers (nw_weights N))"
  shows "mat (length hs) (kv_dim (nw_config N)) (keys_from N li off hs)"
  by (auto simp: mat_def keys_from_def set_zip length_key_of [OF N li])

lemma mat_values:
  assumes N: "network_fits N fit" and li: "li < length (dw_layers (nw_weights N))"
  shows "mat (length hs) (kv_dim (nw_config N)) (values_from N li off hs)"
  by (auto simp: mat_def values_from_def set_zip length_value_of [OF N li])

end
