(* ===== verification/Dec_Run.thy ===== *)
theory Dec_Run
  imports Dec_Rows
begin

text \<open>
  The decoder over any executor that multiplies: its blocks, passes and its generation loop return the
  reference functions of their rows, and the cache holds the keys and values of the rows passed so far.
\<close>

section \<open>Runs with one outcome\<close>

text \<open>From an executor in \<open>I\<close> and the cache \<open>c\<close> the computation returns \<open>r\<close>, with the executor in
  \<open>J\<close> and the cache \<open>c'\<close>.\<close>

definition gives :: "('x \<Rightarrow> bool) \<Rightarrow> 'c \<Rightarrow> ('x, 'c, 'a) dec \<Rightarrow> 'a \<Rightarrow> ('x \<Rightarrow> bool) \<Rightarrow> 'c \<Rightarrow> bool" where
  "gives I c m r J c' \<longleftrightarrow> (\<forall>x. I x \<longrightarrow> yields m (x, c) (\<lambda>out s. out = r \<and> J (fst s) \<and> snd s = c'))"

lemma ebind_assoc: "ebind (ebind m f) g = ebind m (\<lambda>x. ebind (f x) g)"
  by (auto simp: ebind_def fun_eq_iff split: prod.split sum.split)

lemma gives_ebind: "gives I c m r J c1 \<Longrightarrow> gives J c1 (k r) r' J' c2 \<Longrightarrow> gives I c (ebind m k) r' J' c2"
  unfolding gives_def yields_ebind by (fastforce elim!: yields_mono)

lemma gives_eseq: "gives I c m r J c1 \<Longrightarrow> gives J c1 k r' J' c2 \<Longrightarrow> gives I c (eseq m k) r' J' c2"
  unfolding eseq_def by (rule gives_ebind)

lemma gives_ereturn: "gives I c (ereturn r) r I c"
  by (simp add: gives_def yields_steps)

lemma gives_eget: "gives I c (eget snd) c I c"
  by (simp add: gives_def yields_steps)

lemma gives_elift: "m = Inr r \<Longrightarrow> gives I c (elift m) r I c"
  by (simp add: gives_def yields_steps)

lemma gives_eassert: "b \<Longrightarrow> gives I c (eassert b) () I c"
  by (simp add: gives_def yields_steps)

lemma yields_on_exec: "yields (on_exec m) (x, c) P \<longleftrightarrow> yields m x (\<lambda>a x'. P a (x', c))"
  unfolding yields_def on_exec_def zoom_def efail_as_def
  by (cases "m x") (auto simp: fail_as_def Let_def split: sum.splits fault.splits)

lemma gives_on_exec: "(\<And>x. I x \<Longrightarrow> yields m x (\<lambda>a x'. a = r \<and> J x')) \<Longrightarrow> gives I c (on_exec m) r J c"
  by (auto simp: gives_def yields_on_exec elim!: yields_mono)

lemma gives_on_cache: "m c = (Inr r, c') \<Longrightarrow> gives I c (on_cache m) r I c'"
  by (simp add: gives_def yields_def on_cache_def zoom_def)

lemma gives_session:
  assumes b: "\<And>x. I x \<Longrightarrow> yields (tx_begin T shape) x (\<lambda>_ x'. J x')" and m: "gives J c body r J c'"
    and e: "\<And>x. J x \<Longrightarrow> yields (tx_end T) x (\<lambda>_ x'. I x')"
  shows "gives I c (with_forward_session T shape body) r I c'"
  unfolding gives_def
proof (intro allI impI)
  fix x assume "I x"
  then obtain x1 where 1: "on_exec (tx_begin T shape) (x, c) = (Inr (), x1, c)" "J x1"
    using b yields_on_exec [of "tx_begin T shape" x c "\<lambda>_ s. J (fst s) \<and> snd s = c"] by (auto simp: yields_def)
  then obtain x2 where 2: "body (x1, c) = (Inr r, x2, c')" "J x2" using m unfolding gives_def yields_def by fastforce
  then obtain x3 where 3: "on_exec (tx_end T) (x2, c') = (Inr (), x3, c')" "I x3"
    using e yields_on_exec [of "tx_end T" x2 c' "\<lambda>_ s. I (fst s) \<and> snd s = c'"] by (auto simp: yields_def)
  show "yields (with_forward_session T shape body) (x, c) (\<lambda>out s. out = r \<and> I (fst s) \<and> snd s = c')"
    using 1 2 3 by (simp add: yields_def with_forward_session_def eseq_def ebind_def)
qed

section \<open>Executors that multiply\<close>

text \<open>What the decoder needs of an executor: inside a session over \<open>n\<close> rows every offload of \<open>n\<close>
  rows returns their products with the registered weights, and a session can be begun and ended.
  \<open>fit h d\<close> says that the weight of \<open>h\<close> is registered and takes rows of \<open>d\<close>.\<close>

definition registered_product :: "('f, 'g, 'h) network \<Rightarrow> 'f list list \<Rightarrow> weight_handle \<Rightarrow> 'f array2" where
  "registered_product N X h = (fst (nw_registered N h), map (row_dots (nw_ops N) (fst (nw_registered N h)) (snd (nw_registered N h))) X)"

lemma registered_project:
  assumes "projection_ok N fit li kind w e p" and "offload_layer (nw_config N) li"
  shows "registered_product N X (layer_handle li kind) = (p, map (project N li kind w) X)" "fit (layer_handle li kind) e"
  using assms by (simp_all add: registered_product_def projection_ok_def project_def weight_at_def)

locale multiplying_executor =
  fixes T :: "('f, 'x) trusted_ops" and N :: "('f, 'g, 'h) network" and fit :: "weight_handle \<Rightarrow> nat \<Rightarrow> bool"
    and idle :: "'x \<Rightarrow> bool" and inside :: "nat \<Rightarrow> 'x \<Rightarrow> bool"
  assumes begins: "idle x \<Longrightarrow> 0 < shape_rows shape \<Longrightarrow> yields (tx_begin T shape) x (\<lambda>_ x'. inside (shape_rows shape) x')"
    and ends: "inside n x \<Longrightarrow> yields (tx_end T) x (\<lambda>_ x'. idle x')"
    and linear: "inside n x \<Longrightarrow> fit h d \<Longrightarrow> mat n d X \<Longrightarrow> yields (tx_linear T h (d, X)) x (\<lambda>out x'. out = registered_product N X h \<and> inside n x')"
    and qkv: "inside n x \<Longrightarrow> (\<And>kind. kind \<in> {WQ, WK, WV} \<Longrightarrow> fit (layer_handle li kind) d) \<Longrightarrow> mat n d X \<Longrightarrow>
      yields (tx_qkv T (of_nat li) (d, X)) x (\<lambda>out x'.
        out = (registered_product N X (layer_handle li WQ), registered_product N X (layer_handle li WK), registered_product N X (layer_handle li WV)) \<and>
        inside n x')"
    and many: "inside n x \<Longrightarrow> (\<And>h. h \<in> set hs \<Longrightarrow> fit h d) \<Longrightarrow> mat n d X \<Longrightarrow>
      yields (tx_many T hs (d, X)) x (\<lambda>out x'. out = map (registered_product N X) hs \<and> inside n x')"
begin

abbreviation c where "c \<equiv> nw_config N"
abbreviation d where "d \<equiv> dc_hidden_size (nw_config N)"

lemma direct_product:
  assumes tb: "textbook_products (nw_ops N) (nw_lib N)" and P: "projection_ok N fit li kind w e p"
    and X: "mat n e X" and off: "\<not> offload_layer c li"
  shows "direct (nw_lib N) (nw_kernels N) (e, X) w = Inr (p, map (project N li kind w) X)"
proof -
  obtain b where b: "w = Some b" using P off by (auto simp: projection_ok_def)
  then have w: "weight_at N li kind w = (fst b, map (map (kn_widen (nw_kernels N))) (snd b))" using off by (simp add: weight_at_def)
  then have "mat e p (map (map (kn_widen (nw_kernels N))) (snd b))" "fst b = p" using P by (simp_all add: projection_ok_def)
  moreover from this(1) have "length (snd b) = e" by (simp add: mat_def)
  ultimately show ?thesis using textbook [OF tb X, of p] w b by (simp add: direct_def tee_matmul_bf16_def project_def fun_eq_iff)
qed

lemma linear_step_gives:
  assumes tb: "textbook_products (nw_ops N) (nw_lib N)" and P: "projection_ok N fit li kind w e p" and X: "mat n e X"
  shows "gives (inside n) s (linear_step T (nw_lib N) (nw_kernels N) (offload_layer c li) li kind w (e, X)) (p, map (project N li kind w) X) (inside n) s"
proof (cases "offload_layer c li")
  case True
  have "gives (inside n) s (on_exec (tx_linear T (layer_handle li kind) (e, X))) (p, map (project N li kind w) X) (inside n) s"
    using linear [OF _ registered_project(2) [OF P True] X] unfolding registered_project(1) [OF P True] by (rule gives_on_exec)
  then show ?thesis using True by (simp add: linear_step_def)
next
  case False
  then show ?thesis by (simp add: linear_step_def gives_elift direct_product [OF tb P X False])
qed

lemma qkv_step_gives:
  assumes tb: "textbook_products (nw_ops N) (nw_lib N)" and X: "mat n e X"
    and P: "projection_ok N fit li WQ (dl_wq l) e p" "projection_ok N fit li WK (dl_wk l) e p'" "projection_ok N fit li WV (dl_wv l) e p''"
  shows "gives (inside n) s (qkv_step T (nw_lib N) (nw_kernels N) (offload_layer c li) li l (e, X))
    ((p, map (project N li WQ (dl_wq l)) X), (p', map (project N li WK (dl_wk l)) X), (p'', map (project N li WV (dl_wv l)) X)) (inside n) s"
proof (cases "offload_layer c li")
  case True
  note R = registered_project [OF P(1) True] registered_project [OF P(2) True] registered_project [OF P(3) True]
  have "fit (layer_handle li kind) e" if "kind \<in> {WQ, WK, WV}" for kind using that R by auto
  from gives_on_exec [OF qkv [OF _ this X, unfolded R(1,3,5)]] show ?thesis using True by (simp add: qkv_step_def)
next
  case False
  show ?thesis unfolding qkv_step_def using False
    by (simp, intro gives_ebind [OF gives_elift [OF direct_product [OF tb P(1) X False]]]
        gives_ebind [OF gives_elift [OF direct_product [OF tb P(2) X False]]]
        gives_ebind [OF gives_elift [OF direct_product [OF tb P(3) X False]]] gives_ereturn)
qed

text \<open>The last two of the outputs.\<close>

lemma gate_up_gives:
  assumes tb: "textbook_products (nw_ops N) (nw_lib N)" and X: "mat n e X"
    and P: "projection_ok N fit li WFfnGate w e p" "projection_ok N fit li WFfnUp w' e p'"
  shows "gives (inside n) s (if offload_layer c li
      then ebind (on_exec (tx_many T [layer_handle li WFfnGate, layer_handle li WFfnUp] (e, X))) (\<lambda>out.
        eseq (eassert (2 \<le> length out)) (ereturn (out ! (length out - 2), out ! (length out - 1))))
      else ebind (elift (direct (nw_lib N) (nw_kernels N) (e, X) w)) (\<lambda>gate.
        ebind (elift (direct (nw_lib N) (nw_kernels N) (e, X) w')) (\<lambda>up. ereturn (gate, up))))
    ((p, map (project N li WFfnGate w) X), (p', map (project N li WFfnUp w') X)) (inside n) s"
proof (cases "offload_layer c li")
  case True
  note R = registered_project [OF P(1) True] registered_project [OF P(2) True]
  have fit: "fit h e" if "h \<in> set [layer_handle li WFfnGate, layer_handle li WFfnUp]" for h using that R by auto
  have "gives (inside n) s (on_exec (tx_many T [layer_handle li WFfnGate, layer_handle li WFfnUp] (e, X)))
      (map (registered_product N X) [layer_handle li WFfnGate, layer_handle li WFfnUp]) (inside n) s"
    by (intro gives_on_exec many [OF _ fit X])
  then have "gives (inside n) s (on_exec (tx_many T [layer_handle li WFfnGate, layer_handle li WFfnUp] (e, X)))
      [(p, map (project N li WFfnGate w) X), (p', map (project N li WFfnUp w') X)] (inside n) s"
    by (simp only: list.map R(1,3))
  moreover have "gives (inside n) s (eseq (eassert (2 \<le> length [a, b])) (ereturn ([a, b] ! (length [a, b] - 2), [a, b] ! (length [a, b] - 1))))
      (a, b) (inside n) s" for a b :: "'f array2"
    using gives_eseq [OF gives_eassert gives_ereturn, of "2 \<le> length [a, b]" "inside n" s "(a, b)"] by simp
  ultimately show ?thesis using True by (simp only: if_True) (rule gives_ebind)
next
  case False
  then show ?thesis
    by (simp, intro gives_ebind [OF gives_elift [OF direct_product [OF tb P(1) X False]]]
        gives_ebind [OF gives_elift [OF direct_product [OF tb P(2) X False]]] gives_ereturn)
qed

end

end
