(* ===== verification/Dec_Blocks.thy ===== *)
theory Dec_Blocks
  imports Dec_Run
begin

text \<open>
  The blocks of the decoder over an executor that multiplies: each returns the reference layer of its
  rows, and the cached block leaves the keys and values of its rows in the cache.
\<close>

section \<open>Caches that hold rows\<close>

text \<open>The cache of one sequence holds \<open>cs ! li\<close> at layer \<open>li\<close>; only tied layers share their store.\<close>

definition holds :: "('f, 'g, 'h) network \<Rightarrow> 'f kv_cache \<Rightarrow> ('f list list \<times> 'f list list) list \<Rightarrow> bool" where
  "holds N s cs \<longleftrightarrow> cache_ok s \<and> kv_batch s = 1 \<and> kv_width s = kv_dim (nw_config N) \<and> length (kv_layers s) = length cs \<and>
     (\<forall>li < length cs. cached s li 0 = cs ! li \<and> (is_shared (kv_layers s ! li) \<longrightarrow> tied N li))"

lemma layer_view_mat:
  assumes "layer_ok s l" and "b < kv_batch s"
  shows "mat (lk_lens l ! b) (kv_width s) (fst (layer_view_b l b))" "mat (lk_lens l ! b) (kv_width s) (snd (layer_view_b l b))"
proof -
  have lens: "length (lk_lens l) = kv_batch s" "\<And>n. n \<in> set (lk_lens l) \<Longrightarrow> n \<le> kv_max_len s" using assms(1) unfolding layer_ok_def by blast+
  have "lk_lens l ! b \<in> set (lk_lens l)" using assms(2) lens(1) by simp
  then have le: "lk_lens l ! b \<le> kv_max_len s" by (rule lens(2))
  have m: "mat (lk_lens l ! b) (kv_width s) (take (lk_lens l ! b) (a ! b))" if "store_ok (kv_batch s) (kv_max_len s) (kv_width s) a" for a
  proof -
    have "b < length a" using that assms(2) unfolding store_ok_def by presburger
    then have "a ! b \<in> set a" by (rule nth_mem)
    then have ab: "length (a ! b) = kv_max_len s" "\<And>r. r \<in> set (a ! b) \<Longrightarrow> length r = kv_width s" using that unfolding store_ok_def by blast+
    show ?thesis unfolding mat_def
    proof
      show "length (take (lk_lens l ! b) (a ! b)) = lk_lens l ! b" using ab(1) le by (simp add: min_def)
      show "\<forall>r \<in> set (take (lk_lens l ! b) (a ! b)). length r = kv_width s" using ab(2) in_set_takeD by fast
    qed
  qed
  have "mat (lk_lens l ! b) (kv_width s) (fst (layer_view_b l b)) \<and> mat (lk_lens l ! b) (kv_width s) (snd (layer_view_b l b))"
  proof (cases "lk_storage l")
    case (Separate k v)
    then have "store_ok (kv_batch s) (kv_max_len s) (kv_width s) k" "store_ok (kv_batch s) (kv_max_len s) (kv_width s) v"
      using assms(1) by (simp_all add: layer_ok_def)
    from m [OF this(1)] m [OF this(2)] show ?thesis using Separate by (simp add: layer_view_b_def Let_def)
  next
    case (Shared kv)
    then have "store_ok (kv_batch s) (kv_max_len s) (kv_width s) kv" using assms(1) by (simp add: layer_ok_def)
    from m [OF this] show ?thesis using Shared by (simp add: layer_view_b_def Let_def)
  qed
  then show "mat (lk_lens l ! b) (kv_width s) (fst (layer_view_b l b))" "mat (lk_lens l ! b) (kv_width s) (snd (layer_view_b l b))" by blast+
qed

lemma layer_view_length: "layer_ok s l \<Longrightarrow> b < kv_batch s \<Longrightarrow> length (fst (layer_view_b l b)) = lk_lens l ! b"
  by (rule mat_length [OF layer_view_mat(1)])

lemma holds_layer:
  assumes "holds N s cs" and "li < length cs"
  shows "layer_ok s (kv_layers s ! li)" "lk_lens (kv_layers s ! li) ! 0 = length (fst (cs ! li))" "lk_lens (kv_layers s ! li) \<noteq> []"
    "layer_view_b (kv_layers s ! li) 0 = cs ! li"
    "mat (length (fst (cs ! li))) (kv_dim (nw_config N)) (fst (cs ! li))" "mat (length (fst (cs ! li))) (kv_dim (nw_config N)) (snd (cs ! li))"
proof -
  show ok: "layer_ok s (kv_layers s ! li)" using assms by (simp add: holds_def cache_ok_def)
  show v: "layer_view_b (kv_layers s ! li) 0 = cs ! li" using assms by (simp add: holds_def cached_def)
  show l: "lk_lens (kv_layers s ! li) ! 0 = length (fst (cs ! li))"
    using layer_view_length [OF ok, of 0] assms v by (simp add: holds_def)
  show "mat (length (fst (cs ! li))) (kv_dim (nw_config N)) (fst (cs ! li))" "mat (length (fst (cs ! li))) (kv_dim (nw_config N)) (snd (cs ! li))"
    using layer_view_mat [OF ok, of 0] assms(1) v l by (simp_all add: holds_def)
  show "lk_lens (kv_layers s ! li) \<noteq> []" using ok assms(1) by (auto simp: layer_ok_def holds_def)
qed

lemma layer_ok_same: "kv_max_len s' = kv_max_len s \<Longrightarrow> kv_width s' = kv_width s \<Longrightarrow> kv_batch s' = kv_batch s \<Longrightarrow> layer_ok s' l = layer_ok s l"
  by (simp add: layer_ok_def split: layer_store.split)

lemma with_layer_simps [simp]:
  "kv_max_len (with_layer li f s) = kv_max_len s" "kv_width (with_layer li f s) = kv_width s" "kv_batch (with_layer li f s) = kv_batch s"
  "kv_layers (with_layer li f s) = (kv_layers s)[li := f (kv_layers s ! li)]"
  by (simp_all add: with_layer_def)

lemma store_rows_shared [simp]: "is_shared (store_rows b cur k v l) = is_shared l"
  by (simp add: is_shared_def store_rows_def split: layer_store.split)

lemma holds_store:
  assumes h: "holds N s cs" and li: "li < length cs" and k: "mat m (kv_dim (nw_config N)) k" and v: "mat m (kv_dim (nw_config N)) v"
    and fit: "length (fst (cs ! li)) + m \<le> kv_max_len s" and t: "tied N li \<Longrightarrow> v = k"
  shows "holds N (with_layer li (store_rows 0 (length (fst (cs ! li))) k v) s) (cs[li := (fst (cs ! li) @ k, snd (cs ! li) @ v)])"
proof -
  let ?l = "kv_layers s ! li" and ?off = "length (fst (cs ! li))"
  let ?s = "with_layer li (store_rows 0 ?off k v) s"
  note l = holds_layer [OF h li]
  have s: "cache_ok s" "kv_batch s = 1" "kv_width s = kv_dim (nw_config N)" "length (kv_layers s) = length cs" using h by (simp_all add: holds_def)
  have len: "length k = m" "length v = m" and rows: "\<And>r. r \<in> set k \<Longrightarrow> length r = kv_width s" "\<And>r. r \<in> set v \<Longrightarrow> length r = kv_width s"
    using k v s(3) by (simp_all add: mat_def)
  have new: "layer_ok s (store_rows 0 ?off k v ?l)" using layer_ok_store [OF l(1), of 0 v k] s(2) len fit rows by (simp add: l(2))
  have "cache_ok ?s" unfolding cache_ok_def
  proof
    fix l' assume "l' \<in> set (kv_layers ?s)"
    then have "l' = store_rows 0 ?off k v ?l \<or> l' \<in> set (kv_layers s)" using set_update_subset_insert [of "kv_layers s"] by auto
    then show "layer_ok ?s l'" using new s(1) layer_ok_same [of ?s s] by (auto simp: cache_ok_def)
  qed
  moreover have "layer_view_b (store_rows 0 ?off k v ?l) 0 = (fst (cs ! li) @ k, snd (cs ! li) @ v)"
    using layer_view_store(1) [OF l(1), of 0 v k] s(2) len fit h li t by (auto simp: l(2,4) stored_v_def holds_def)
  ultimately show ?thesis using h li by (auto simp: holds_def cached_def nth_list_update)
qed

lemma kv_append_ok:
  assumes h: "holds N s cs" and li: "li < length cs" and k: "mat m (kv_dim (nw_config N)) k" and v: "mat m (kv_dim (nw_config N)) v"
    and fit: "length (fst (cs ! li)) + m \<le> kv_max_len s"
  shows "kv_append li (kv_dim (nw_config N), k) (kv_dim (nw_config N), v) s =
    (Inr (), with_layer li (store_rows 0 (length (fst (cs ! li))) k v) s)"
proof -
  have "length k = m" "length v = m" using k v by (simp_all add: mat_def)
  then show ?thesis using holds_layer(2) [OF h li] h li fit
    by (simp add: kv_append_def append_prefill_def eff_simps holds_def Let_def)
qed

lemma view_ok: "holds N s cs \<Longrightarrow> li < length cs \<Longrightarrow>
    view s li = Inr ((kv_dim (nw_config N), fst (cs ! li)), (kv_dim (nw_config N), snd (cs ! li)))"
  using holds_layer(4) [of N s cs li] by (simp add: view_def view_b_def holds_def case_prod_beta)

lemma gives_view: "view s li = Inr r \<Longrightarrow> gives I s (on_cache (\<lambda>c. (view c li, c))) r I s"
  by (rule gives_on_cache) simp

lemma kv_len_ok: "holds N s cs \<Longrightarrow> cs \<noteq> [] \<Longrightarrow> kv_len s = Inr (length (fst (cs ! 0)))"
  using holds_layer(2,3) [of N s cs 0] by (cases "kv_layers s") (auto simp: kv_len_def holds_def split: list.split)

section \<open>Steps\<close>

lemma rms_norm_rows: "length gamma = e \<Longrightarrow>
    rms_norm (nw_ops N) (nw_math N) (e, X) gamma (dc_rms_norm_eps (nw_config N)) = Inr (e, map (normed N gamma) X)"
  by (simp add: rms_norm_def normed_def fun_eq_iff)

lemma residual_rows: "length X = length Y \<Longrightarrow> residual F (e, X) (e, Y) = Inr (e, map2 (map2 (f_add F)) X Y)"
  by (simp add: residual_def)

lemma mat_normed: "mat n e X \<Longrightarrow> length gamma = e \<Longrightarrow> mat n e (map (normed N gamma) X)"
  by (auto simp: mat_def length_normed)

lemma mat_projected: "mat n e X \<Longrightarrow> fst (weight_at N li kind w) = p \<Longrightarrow> mat n p (map (project N li kind w) X)"
  by (auto simp: mat_def length_project)

lemma mat_map2_both: "mat n e X \<Longrightarrow> mat n e Y \<Longrightarrow> mat n e (map2 (map2 f) X Y)"
  by (auto simp: mat_def set_zip)

lemma qk_norm_rows:
  assumes "layer_fits N fit li"
  shows "qk_norm_step (nw_ops N) (nw_math N) (nw_config N) (layer_of N li) (q_dim (nw_config N), Q) (kv_dim (nw_config N), Y) =
    Inr ((q_dim (nw_config N), map (\<lambda>r. case dl_q_norm (layer_of N li) of
            Some g \<Rightarrow> on_heads (dc_num_attention_heads (nw_config N)) (head_dim_value (nw_config N)) (normed N g) r | None \<Rightarrow> r) Q),
         (kv_dim (nw_config N), map (\<lambda>r. case dl_k_norm (layer_of N li) of
            Some g \<Rightarrow> on_heads (dc_num_key_value_heads (nw_config N)) (head_dim_value (nw_config N)) (normed N g) r | None \<Rightarrow> r) Y))"
  using fits_layer(3,4) [OF assms]
  by (cases "dl_q_norm (layer_of N li)"; cases "dl_k_norm (layer_of N li)")
    (simp_all add: qk_norm_step_def apply_qk_norm_def q_dim_def kv_dim_def normed_def [abs_def])

lemma rope_rows:
  assumes "rt_head_dim R = e" and "rotated \<le> e" and "rotated mod 2 = 0" and "pos + length X \<le> length (rt_cos R)"
  shows "apply_partial_at F R (heads * e, X) heads pos rotated = Inr (heads * e, map2 (\<lambda>i. rope_row F R heads rotated (pos + i)) [0..<length X] X)"
  using assms by (simp add: apply_partial_at_def)

text \<open>The values of a block before they are tied to the keys.\<close>

definition raw_values :: "('f, 'g, 'h) network \<Rightarrow> nat \<Rightarrow> 'f list list \<Rightarrow> 'f list list" where
  "raw_values N li nm = (if tied N li then map (project N li WK (dl_wk (layer_of N li))) nm else map (project N li WV (dl_wv (layer_of N li))) nm)"

context multiplying_executor
begin

lemma finish_block_gives:
  assumes fits: "network_fits N fit" and li: "li < length (dw_layers (nw_weights N))"
    and X: "mat n d X" and C: "mat n (q_dim c) C"
  shows "gives (inside n) s
    (finish_block T (nw_ops N) (nw_math N) (nw_lib N) (nw_kernels N) c (offload_layer c li) li (layer_of N li) (d, X) (q_dim c, C))
    (d, map2 (feed_forward N li) X C) (inside n) s"
proof -
  note net = fits_net [OF fits] and layer = fits_layer [OF fits_net(7) [OF fits li]]
  let ?l = "layer_of N li" and ?m = "dc_intermediate_size c" and ?F = "nw_ops N"
  let ?O = "map (project N li WO (dl_wo ?l)) C"
  let ?h1 = "map2 (map2 (f_add ?F)) X ?O"
  let ?nm = "map (normed N (dl_norm_ffn ?l)) ?h1"
  let ?G = "map (project N li WFfnGate (dl_w_gate ?l)) ?nm" and ?U = "map (project N li WFfnUp (dl_w_up ?l)) ?nm"
  let ?A = "map2 (map2 (\<lambda>g u. f_mul ?F (f_div ?F g (f_add ?F (f_lit ?F 1) (gl_exp (nw_lib N) (f_neg ?F g)))) u)) ?G ?U"
  let ?D = "map (project N li WFfnDown (dl_w_down ?l)) ?A"
  have O: "mat n d ?O" by (rule mat_projected [OF C projection_fst [OF layer(8)]])
  have h1: "mat n d ?h1" by (rule mat_map2_both [OF X O])
  have nm: "mat n d ?nm" by (rule mat_normed [OF h1 layer(2)])
  have GU: "mat n ?m ?G" "mat n ?m ?U"
    by (rule mat_projected [OF nm projection_fst [OF layer(9)]], rule mat_projected [OF nm projection_fst [OF layer(10)]])
  have A: "mat n ?m ?A" by (rule mat_map2_both [OF GU])
  have D: "mat n d ?D" by (rule mat_projected [OF A projection_fst [OF layer(11)]])
  have rows: "length X = n" "length C = n" using X C by (simp_all add: mat_def)
  have out: "map2 (map2 (f_add ?F)) ?h1 ?D = map2 (feed_forward N li) X C"
    using rows by (intro nth_equalityI) (simp_all add: feed_forward_def Let_def)
  have r1: "residual ?F (d, X) (d, ?O) = Inr (d, ?h1)" by (rule residual_rows) (simp add: rows)
  have sw: "swiglu ?F (nw_lib N) (?m, ?G) (?m, ?U) = Inr (?m, ?A)" by (simp add: swiglu_def)
  have r2: "residual ?F (d, ?h1) (d, ?D) = Inr (d, map2 (feed_forward N li) X C)"
    unfolding out [symmetric] by (rule residual_rows) (simp add: rows)
  have gu: "gives (inside n) s (case ((?m, ?G), (?m, ?U)) of (gate, up) \<Rightarrow> ebind (elift (swiglu ?F (nw_lib N) gate up)) (\<lambda>activated.
      ebind (linear_step T (nw_lib N) (nw_kernels N) (offload_layer c li) li WFfnDown (dl_w_down ?l) activated) (\<lambda>ffn_out.
      elift (residual ?F (d, ?h1) ffn_out)))) (d, map2 (feed_forward N li) X C) (inside n) s"
    unfolding prod.case
    by (rule gives_ebind [OF gives_elift [OF sw]], rule gives_ebind [OF linear_step_gives [OF net(1) layer(11) A]], rule gives_elift [OF r2])
  show ?thesis unfolding finish_block_def
    by (rule gives_ebind [OF linear_step_gives [OF net(1) layer(8) C]], rule gives_ebind [OF gives_elift [OF r1]],
        rule gives_ebind [OF gives_elift [OF rms_norm_rows [OF layer(2)]]], rule gives_ebind [OF gate_up_gives [OF net(1) nm layer(9,10)]], rule gu)
qed

text \<open>The queries and keys of a block.\<close>

lemma keys_rows: "mat n d hs \<Longrightarrow> li < length (dw_layers (nw_weights N)) \<Longrightarrow> map2 (\<lambda>i. rope_row (nw_ops N) (nw_rope N) (dc_num_key_value_heads c) (rotation N li) (off + i)) [0..<n]
    (map (\<lambda>r. case dl_k_norm (layer_of N li) of
        Some g \<Rightarrow> on_heads (dc_num_key_value_heads c) (head_dim_value c) (normed N g) r | None \<Rightarrow> r)
      (map (project N li WK (dl_wk (layer_of N li))) (map (normed N (dl_norm_attn (layer_of N li))) hs))) = keys_from N li off hs"
  by (rule nth_equalityI) (simp_all add: keys_from_def key_of_def positioned_def mat_def comp_def)

lemma queries_rows: "mat n d hs \<Longrightarrow> map2 (\<lambda>i. rope_row (nw_ops N) (nw_rope N) (dc_num_attention_heads c) (rotation N li) (off + i)) [0..<n]
    (map (\<lambda>r. case dl_q_norm (layer_of N li) of
        Some g \<Rightarrow> on_heads (dc_num_attention_heads c) (head_dim_value c) (normed N g) r | None \<Rightarrow> r)
      (map (project N li WQ (dl_wq (layer_of N li))) (map (normed N (dl_norm_attn (layer_of N li))) hs))) = map2 (\<lambda>i. query_of N li (off + i)) [0..<n] hs"
  by (rule nth_equalityI) (simp_all add: query_of_def positioned_def mat_def comp_def)

lemma tied_step_gives:
  assumes fits: "network_fits N fit" and li: "li < length (dw_layers (nw_weights N))" and nm: "mat n d nm"
  shows "gives (inside n) s (qkv_tied_step T (nw_lib N) (nw_kernels N) (dc_kv_shared_in_global c \<and> class_of N li = Global) (offload_layer c li) li (layer_of N li) (d, nm))
      ((q_dim c, map (project N li WQ (dl_wq (layer_of N li))) nm), (kv_dim c, map (project N li WK (dl_wk (layer_of N li))) nm), (kv_dim c, raw_values N li nm)) (inside n) s"
proof -
  note net = fits_net [OF fits] and layer = fits_layer [OF fits_net(7) [OF fits li]]
  show ?thesis
  proof (cases "tied N li")
    case True
    then have t: "\<not> \<not> (dc_kv_shared_in_global c \<and> class_of N li = Global)" by (simp add: tied_def)
    show ?thesis unfolding qkv_tied_step_def raw_values_def if_P [OF True] if_not_P [OF t]
      by (rule gives_ebind [OF linear_step_gives [OF net(1) layer(5) nm]], rule gives_ebind [OF linear_step_gives [OF net(1) layer(6) nm]], rule gives_ereturn)
  next
    case False
    then have f: "\<not> (dc_kv_shared_in_global c \<and> class_of N li = Global)" by (simp add: tied_def)
    show ?thesis unfolding qkv_tied_step_def raw_values_def if_not_P [OF False] if_P [OF f]
      by (rule qkv_step_gives [OF net(1) nm layer(5-7)])
  qed
qed

lemma tied_from: "tied N li \<Longrightarrow> values_from N li off hs = keys_from N li off hs"
  by (simp add: values_from_def keys_from_def value_of_def [abs_def])

lemma dense_layer_split:
  assumes "length (fst kv) = off" and "length hs = n"
  shows "fst (dense_layer N li kv hs) = map2 (feed_forward N li) hs
      (map2 (\<lambda>i r. attend N (class_of N li) (off + i) r (fst kv @ keys_from N li off hs) (snd kv @ values_from N li off hs)) [0..<n]
        (map2 (\<lambda>i. query_of N li (off + i)) [0..<n] hs))"
    "snd (dense_layer N li kv hs) = (fst kv @ keys_from N li off hs, snd kv @ values_from N li off hs)"
  using assms by (auto simp: dense_layer_def Let_def case_prod_beta intro!: nth_equalityI)

lemma tied_values:
  assumes "mat n d hs"
  shows "(if dc_kv_shared_in_global c \<and> class_of N li = Global then (kv_dim c, keys_from N li off hs)
      else (kv_dim c, raw_values N li (map (normed N (dl_norm_attn (layer_of N li))) hs))) = (kv_dim c, values_from N li off hs)"
proof (cases "tied N li")
  case True
  then have "dc_kv_shared_in_global c \<and> class_of N li = Global" by (simp add: tied_def)
  moreover have "values_from N li off hs = keys_from N li off hs" by (rule tied_from [OF True])
  ultimately show ?thesis by simp
next
  case False
  then have "\<not> (dc_kv_shared_in_global c \<and> class_of N li = Global)" by (simp add: tied_def)
  moreover have "raw_values N li (map (normed N (dl_norm_attn (layer_of N li))) hs) = values_from N li off hs"
    using False by (intro nth_equalityI) (simp_all add: raw_values_def values_from_def value_of_def)
  ultimately show ?thesis by (simp only: if_not_P if_False)
qed

lemma attention_gives:
  assumes fits: "network_fits N fit" and li: "li < length (dw_layers (nw_weights N))"
    and Q: "mat n (q_dim c) Q" and ks: "mat (off + n) (kv_dim c) ks" and vs: "mat (off + n) (kv_dim c) vs"
  shows "gives (inside n) s (case class_of N li of
          Local window \<Rightarrow> elift (causal_gqa_attention_swa_cached (nw_ops N) (nw_math N) (nw_lib N) (nw_kernels N) (q_dim c, Q) (kv_dim c, ks) (kv_dim c, vs)
            (dc_num_attention_heads c) (dc_num_key_value_heads c) (head_dim_value c) off window)
        | Global \<Rightarrow>
            if offload_layer c li \<and> perm_attention_enabled_for c (length (snd (q_dim c, Q)))
            then causal_gqa_attention_permuted_cached T (nw_ops N) (nw_math N) (q_dim c, Q) (kv_dim c, ks) (kv_dim c, vs)
              (dc_num_attention_heads c) (dc_num_key_value_heads c) (head_dim_value c) off
            else elift (causal_gqa_attention_cached (nw_ops N) (nw_math N) (nw_lib N) (nw_kernels N) (q_dim c, Q) (kv_dim c, ks) (kv_dim c, vs)
              (dc_num_attention_heads c) (dc_num_key_value_heads c) (head_dim_value c) off))
      (q_dim c, map2 (\<lambda>i r. attend N (class_of N li) (off + i) r ks vs) [0..<n] Q) (inside n) s"
proof -
  note net = fits_net [OF fits] and layer = fits_layer [OF fits_net(7) [OF fits li]]
  have heads: "0 < dc_num_key_value_heads c" "dc_num_key_value_heads c \<le> dc_num_attention_heads c"
    "dc_num_attention_heads c mod dc_num_key_value_heads c = 0" using net(2) by (simp_all add: heads_ok_def)
  note ctx = gqa_heads_rows [OF refl refl refl refl refl net(1) heads Q ks vs, of "class_of N li" off]
  have "length Q = n" "length ks = off + n" "length vs = off + n" using Q ks vs unfolding mat_def by blast+
  then have shape: "gqa_shape (q_dim c, Q) (kv_dim c, ks) (kv_dim c, vs) (dc_num_attention_heads c) (dc_num_key_value_heads c) (head_dim_value c)"
      "length Q + off \<le> length ks"
    using heads by (simp_all add: gqa_shape_def q_dim_def kv_dim_def)
  show ?thesis
  proof (cases "class_of N li")
    case (Local window)
    have w: "0 < window" using layer(12) Local by blast
    show ?thesis using ctx unfolding Local attention_class.case
      by (intro gives_elift) (simp add: causal_gqa_attention_swa_cached_def shape [unfolded q_dim_def] w q_dim_def)
  next
    case Global
    have p: "\<not> (offload_layer c li \<and> perm_attention_enabled_for c (length (snd (q_dim c, Q))))" using net(5) by (simp add: perm_attention_enabled_for_def)
    show ?thesis using ctx unfolding Global attention_class.case if_not_P [OF p]
      by (intro gives_elift) (simp add: causal_gqa_attention_cached_def shape [unfolded q_dim_def] q_dim_def)
  qed
qed

lemma turned:
  assumes fits: "network_fits N fit" and li: "li < length (dw_layers (nw_weights N))" and X: "length X = n"
    and room: "off + n \<le> length (rt_cos (nw_rope N))"
  shows "apply_partial_at (nw_ops N) (nw_rope N) (heads * head_dim_value c, X) heads off (rotation N li) =
    Inr (heads * head_dim_value c, map2 (\<lambda>i. rope_row (nw_ops N) (nw_rope N) heads (rotation N li) (off + i)) [0..<n] X)"
proof -
  note net = fits_net [OF fits] and layer = fits_layer [OF fits_net(7) [OF fits li]]
  show ?thesis using rope_rows [OF net(3) layer(14,15), of off X "nw_ops N" heads] room X by simp
qed

lemma queries_turned:
  assumes fits: "network_fits N fit" and li: "li < length (dw_layers (nw_weights N))" and X: "mat n d hs"
    and room: "off + n \<le> length (rt_cos (nw_rope N))"
  shows "apply_partial_at (nw_ops N) (nw_rope N) (q_dim c, map (\<lambda>r. case dl_q_norm (layer_of N li) of
        Some g \<Rightarrow> on_heads (dc_num_attention_heads c) (head_dim_value c) (normed N g) r | None \<Rightarrow> r)
      (map (project N li WQ (dl_wq (layer_of N li))) (map (normed N (dl_norm_attn (layer_of N li))) hs)))
      (dc_num_attention_heads c) off (rotation N li) = Inr (q_dim c, map2 (\<lambda>i. query_of N li (off + i)) [0..<n] hs)"
  unfolding queries_rows [OF X, symmetric] q_dim_def by (rule turned [OF fits li _ room]) (use X in \<open>simp add: mat_def\<close>)

lemma keys_turned:
  assumes fits: "network_fits N fit" and li: "li < length (dw_layers (nw_weights N))" and X: "mat n d hs"
    and room: "off + n \<le> length (rt_cos (nw_rope N))"
  shows "apply_partial_at (nw_ops N) (nw_rope N) (kv_dim c, map (\<lambda>r. case dl_k_norm (layer_of N li) of
        Some g \<Rightarrow> on_heads (dc_num_key_value_heads c) (head_dim_value c) (normed N g) r | None \<Rightarrow> r)
      (map (project N li WK (dl_wk (layer_of N li))) (map (normed N (dl_norm_attn (layer_of N li))) hs)))
      (dc_num_key_value_heads c) off (rotation N li) = Inr (kv_dim c, keys_from N li off hs)"
  unfolding keys_rows [OF X li, symmetric] kv_dim_def by (rule turned [OF fits li _ room]) (use X in \<open>simp add: mat_def\<close>)

lemma class_gives:
  assumes "network_fits N fit" and "li < length (dw_layers (nw_weights N))"
  shows "effective_attention_class c li = Inr (class_of N li)"
  using assms by (cases "dc_attention_classes c") (simp_all add: effective_attention_class_def class_of_def network_fits_def Let_def)

lemma block_cached_gives:
  assumes fits: "network_fits N fit" and li: "li < length (dw_layers (nw_weights N))" and X: "mat n d hs"
    and h: "holds N s cs" "length cs = length (dw_layers (nw_weights N))" and off: "length (fst (cs ! li)) = off"
    and room: "off + n \<le> kv_max_len s" "off + n \<le> length (rt_cos (nw_rope N))"
  shows "\<exists>s'. gives (inside n) s (decoder_block_cached T (nw_ops N) (nw_math N) (nw_lib N) (nw_kernels N) c (nw_rope N) off li (layer_of N li) (d, hs))
      (d, fst (dense_layer N li (cs ! li) hs)) (inside n) s' \<and>
    holds N s' (cs[li := snd (dense_layer N li (cs ! li) hs)]) \<and> kv_max_len s' = kv_max_len s"
proof -
  note net = fits_net [OF fits] and layer = fits_layer [OF fits_net(7) [OF fits li]]
  let ?l = "layer_of N li" and ?F = "nw_ops N" and ?nq = "dc_num_attention_heads c" and ?nkv = "dc_num_key_value_heads c" and ?hd = "head_dim_value c"
  let ?nm = "map (normed N (dl_norm_attn ?l)) hs"
  let ?Q = "map2 (\<lambda>i. query_of N li (off + i)) [0..<n] hs" and ?K = "keys_from N li off hs" and ?V = "values_from N li off hs"
  let ?s = "with_layer li (store_rows 0 off ?K ?V) s" and ?ks = "fst (cs ! li) @ ?K" and ?vs = "snd (cs ! li) @ ?V"
  let ?C = "map2 (\<lambda>i r. attend N (class_of N li) (off + i) r ?ks ?vs) [0..<n] ?Q"
  have len: "length hs = n" using X unfolding mat_def by blast
  have li': "li < length cs" using li h(2) by simp
  have nm: "mat n d ?nm" by (rule mat_normed [OF X layer(1)])
  have K: "mat n (kv_dim c) ?K" and V: "mat n (kv_dim c) ?V" using mat_keys [OF fits li, of hs off] mat_values [OF fits li, of hs off] unfolding len by blast+
  have Q: "mat n (q_dim c) ?Q" by (rule mat_map2_rows [OF X]) (rule length_query_of [OF fits li])
  have C: "mat n (q_dim c) ?C" by (rule mat_map2_rows [OF Q]) (rule length_attend)
  have tie: "?V = ?K" if "tied N li" by (rule tied_from [OF that])
  have h': "holds N ?s (cs[li := (?ks, ?vs)])"
    using holds_store [OF h(1) li' K V _ tie] room(1) unfolding off by blast
  have ks: "mat (off + n) (kv_dim c) ?ks" "mat (off + n) (kv_dim c) ?vs"
    using mat_append [OF holds_layer(5) [OF h(1) li'] K] mat_append [OF holds_layer(6) [OF h(1) li'] V] unfolding off .
  have app: "kv_append li (kv_dim c, ?K) (kv_dim c, ?V) s = (Inr (), ?s)"
    using kv_append_ok [OF h(1) li' K V] room(1) unfolding off .
  have viewed: "view ?s li = Inr ((kv_dim c, ?ks), (kv_dim c, ?vs))"
    using view_ok [OF h', of li] li' by simp
  note dl = dense_layer_split [OF off len, of li]
  have "gives (inside n) s (decoder_block_cached T ?F (nw_math N) (nw_lib N) (nw_kernels N) c (nw_rope N) off li ?l (d, hs))
      (d, fst (dense_layer N li (cs ! li) hs)) (inside n) ?s"
    unfolding dl decoder_block_cached_def Let_def
    apply (rule gives_ebind [OF gives_elift [OF rms_norm_rows [OF layer(1)]]])
    apply (rule gives_ebind [OF gives_elift [OF class_gives [OF fits li]]])
    apply (rule gives_ebind [OF tied_step_gives [OF fits li nm]], simp only: prod.case)
    apply (rule gives_ebind [OF gives_elift [OF qk_norm_rows [OF fits_net(7) [OF fits li]]]], simp only: prod.case)
    apply (rule gives_ebind [OF gives_elift [OF layer(13)]])
    apply (rule gives_ebind [OF gives_elift [OF queries_turned [OF fits li X room(2)]]])
    apply (rule gives_ebind [OF gives_elift [OF keys_turned [OF fits li X room(2)]]])
    apply (unfold tied_values [OF X])
    apply (rule gives_eseq [OF gives_on_cache [where m = "kv_append li (kv_dim c, ?K) (kv_dim c, ?V)", OF app]])
    apply (rule gives_ebind [OF gives_view [OF viewed]], simp only: prod.case)
    apply (rule gives_ebind [OF attention_gives [OF fits li Q ks]])
    by (rule finish_block_gives [OF fits li X C])
  then show ?thesis using h' unfolding dl(2) [symmetric] by (intro exI [of _ ?s] conjI) (assumption | simp only: with_layer_simps)+
qed

end

end
