(* ===== verification/Dec_Passes.thy ===== *)
theory Dec_Passes
  imports Dec_Blocks
begin

text \<open>
  The cached passes and the generation loop over an executor that multiplies.
\<close>

section \<open>Rows through the layers\<close>

abbreviation depth :: "('f, 'g, 'h) network \<Rightarrow> nat" where
  "depth N \<equiv> length (dw_layers (nw_weights N))"

abbreviation width_of :: "('f, 'g, 'h) network \<Rightarrow> nat" where
  "width_of N \<equiv> dc_hidden_size (nw_config N)"

lemma mat_dense_layer:
  assumes "network_fits N fit" and "li < depth N" and X: "mat n (width_of N) hs"
  shows "mat n (width_of N) (fst (dense_layer N li kv hs))"
proof -
  have "length (feed_forward N li r ctx) = width_of N" if "r \<in> set hs" for r ctx
    using length_feed_forward [OF assms(1,2)] mat_rows [OF X that] by blast
  then show ?thesis using X by (auto simp: mat_def dense_layer_def Let_def case_prod_beta set_zip)
qed

text \<open>Every layer has \<open>off\<close> rows.\<close>

definition even_rows :: "nat \<Rightarrow> ('f list list \<times> 'f list list) list \<Rightarrow> bool" where
  "even_rows off cs \<longleftrightarrow> (\<forall>kv \<in> set cs. length (fst kv) = off)"

lemma dense_layer_grows: "length (fst (snd (dense_layer N li kv hs))) = length (fst kv) + length hs"
  by (simp add: dense_layer_def case_prod_beta keys_from_def Let_def)

lemma dense_layer_length: "length (fst (dense_layer N li kv hs)) = length hs"
  by (simp add: dense_layer_def case_prod_beta Let_def)

lemma dense_layers_step:
  "dense_layers N li (kv # cs) hs =
     (fst (dense_layers N (Suc li) cs (fst (dense_layer N li kv hs))),
      snd (dense_layer N li kv hs) # snd (dense_layers N (Suc li) cs (fst (dense_layer N li kv hs))))"
  by (simp add: case_prod_beta Let_def)

declare dense_layers.simps(2) [simp del]

lemma dense_layers_length [simp]: "length (snd (dense_layers N li cs hs)) = length cs" "length (fst (dense_layers N li cs hs)) = length hs"
  by (induction cs arbitrary: li hs) (simp_all add: dense_layers_step dense_layer_length)

lemma even_rows_grow: "even_rows off cs \<Longrightarrow> even_rows (off + length hs) (snd (dense_layers N li cs hs))"
  by (induction cs arbitrary: li hs) (auto simp: even_rows_def dense_layers_step dense_layer_grows dense_layer_length)

section \<open>Cached passes\<close>

context multiplying_executor
begin

lemma layers_give:
  assumes fits: "network_fits N fit" and room: "off + n \<le> length (rt_cos (nw_rope N))"
  shows "\<lbrakk>mat n d hs; holds N s (xs @ cs); length (xs @ cs) = depth N; even_rows off cs; off + n \<le> kv_max_len s\<rbrakk> \<Longrightarrow>
    \<exists>s'. gives (inside n) s
        (efold (\<lambda>(li, layer). decoder_block_cached T (nw_ops N) (nw_math N) (nw_lib N) (nw_kernels N) c (nw_rope N) off li layer)
          (zip [length xs..<depth N] (drop (length xs) (dw_layers (nw_weights N)))) (d, hs))
        (d, fst (dense_layers N (length xs) cs hs)) (inside n) s' \<and>
      holds N s' (xs @ snd (dense_layers N (length xs) cs hs)) \<and> kv_max_len s' = kv_max_len s"
proof (induction cs arbitrary: xs hs s)
  case Nil
  have "gives (inside n) s (ereturn (d, hs)) (d, hs) (inside n) s" by (rule gives_ereturn)
  then show ?case using Nil.prems by (intro exI [of _ s]) simp
next
  case (Cons kv cs)
  let ?rest = "efold (\<lambda>(li, layer). decoder_block_cached T (nw_ops N) (nw_math N) (nw_lib N) (nw_kernels N) c (nw_rope N) off li layer)
    (zip [Suc (length xs)..<depth N] (drop (Suc (length xs)) (dw_layers (nw_weights N))))"
  let ?li = "length xs" and ?l = "dense_layer N (length xs) kv hs"
  have li: "?li < depth N" using Cons.prems(3) by simp
  have nth: "(xs @ kv # cs) ! ?li = kv" by simp
  have off: "length (fst ((xs @ kv # cs) ! ?li)) = off" using Cons.prems(4) by (simp add: even_rows_def)
  obtain s1 where s1: "gives (inside n) s (decoder_block_cached T (nw_ops N) (nw_math N) (nw_lib N) (nw_kernels N) c (nw_rope N) off ?li (layer_of N ?li) (d, hs))
      (d, fst ?l) (inside n) s1" "holds N s1 ((xs @ [snd ?l]) @ cs)" "kv_max_len s1 = kv_max_len s"
    using block_cached_gives [OF fits li Cons.prems(1,2,3) off Cons.prems(5) room] unfolding nth by (auto simp: list_update_append)
  have "even_rows off cs" using Cons.prems(4) by (simp add: even_rows_def)
  from Cons.IH [OF mat_dense_layer [OF fits li Cons.prems(1), of kv] s1(2) _ this]
  obtain s2 where s2: "gives (inside n) s1
        (efold (\<lambda>(li, layer). decoder_block_cached T (nw_ops N) (nw_math N) (nw_lib N) (nw_kernels N) c (nw_rope N) off li layer)
          (zip [Suc ?li..<depth N] (drop (Suc ?li) (dw_layers (nw_weights N)))) (d, fst ?l))
        (d, fst (dense_layers N (Suc ?li) cs (fst ?l))) (inside n) s2"
      "holds N s2 (xs @ snd ?l # snd (dense_layers N (Suc ?li) cs (fst ?l)))" "kv_max_len s2 = kv_max_len s1"
    using Cons.prems(3,5) s1(3) by auto
  have split: "zip [?li..<depth N] (drop ?li (dw_layers (nw_weights N))) =
      (?li, layer_of N ?li) # zip [Suc ?li..<depth N] (drop (Suc ?li) (dw_layers (nw_weights N)))"
    using li by (simp add: upt_conv_Cons Cons_nth_drop_Suc [symmetric] layer_of_def)
  show ?case unfolding split efold.simps prod.case dense_layers_step fst_conv snd_conv
    using gives_ebind [where k = ?rest, OF s1(1) s2(1)] s2(2,3) s1(3) by (intro exI [of _ s2]) simp
qed

lemma all_layers_give:
  assumes fits: "network_fits N fit" and room: "off + n \<le> length (rt_cos (nw_rope N))" "off + n \<le> kv_max_len s"
    and X: "mat n d hs" and h: "holds N s cs" "length cs = depth N" "even_rows off cs"
  shows "\<exists>s'. gives (inside n) s
        (over_layers (decoder_block_cached T (nw_ops N) (nw_math N) (nw_lib N) (nw_kernels N) c (nw_rope N) off) (dw_layers (nw_weights N)) (d, hs))
        (d, fst (dense_layers N 0 cs hs)) (inside n) s' \<and> holds N s' (snd (dense_layers N 0 cs hs)) \<and> kv_max_len s' = kv_max_len s"
  using layers_give [OF fits room(1) X, of s "[]" cs] h room(2) by (simp add: over_layers_def)

text \<open>A pass over new rows: embedded, through the layers, normalised.\<close>

lemma pass_gives:
  assumes fits: "network_fits N fit" and room: "off + n \<le> length (rt_cos (nw_rope N))" "off + n \<le> kv_max_len s"
    and X: "mat n d hs" and h: "holds N s cs" "length cs = depth N" "even_rows off cs"
  shows "\<exists>s'. gives (inside n) s
        (ebind (over_layers (decoder_block_cached T (nw_ops N) (nw_math N) (nw_lib N) (nw_kernels N) c (nw_rope N) off) (dw_layers (nw_weights N)) (d, hs))
          (final_norm (nw_ops N) (nw_math N) c (nw_weights N)))
        (d, map (normed N (dw_final_norm (nw_weights N))) (fst (dense_layers N 0 cs hs))) (inside n) s' \<and>
      holds N s' (snd (dense_layers N 0 cs hs)) \<and> kv_max_len s' = kv_max_len s"
proof -
  obtain s' where s': "gives (inside n) s
        (over_layers (decoder_block_cached T (nw_ops N) (nw_math N) (nw_lib N) (nw_kernels N) c (nw_rope N) off) (dw_layers (nw_weights N)) (d, hs))
        (d, fst (dense_layers N 0 cs hs)) (inside n) s'" "holds N s' (snd (dense_layers N 0 cs hs))" "kv_max_len s' = kv_max_len s"
    using all_layers_give [OF fits room X h] by blast
  have "gives (inside n) s' (final_norm (nw_ops N) (nw_math N) c (nw_weights N) (d, fst (dense_layers N 0 cs hs)))
      (d, map (normed N (dw_final_norm (nw_weights N))) (fst (dense_layers N 0 cs hs))) (inside n) s'"
    unfolding final_norm_def by (rule gives_elift [OF rms_norm_rows [OF fits_net(6) [OF fits]]])
  from gives_ebind [where k = "final_norm (nw_ops N) (nw_math N) c (nw_weights N)", OF s'(1) this] s'(2,3) show ?thesis by blast
qed

text \<open>Tokens of the vocabulary.\<close>

lemma embed_gives:
  assumes fits: "network_fits N fit" and ids: "\<forall>t \<in> set ids. unat t < length (snd (dw_token_embedding (nw_weights N)))"
  shows "embedding_lookup (nw_ops N) (nw_kernels N) c (nw_weights N) ids = Inr (d, map (embed N) ids)" "mat (length ids) d (map (embed N) ids)"
proof -
  let ?emb = "dw_token_embedding (nw_weights N)"
  have emb: "fst ?emb \<le> d" "\<And>row. row \<in> set (snd ?emb) \<Longrightarrow> length row = fst ?emb" using fits unfolding network_fits_def Let_def by blast+
  have "rmap (embed_row (nw_ops N) (nw_kernels N) d ?emb) ids = Inr (map (embed N) ids)"
    using ids by (induction ids) (simp_all add: embed_row_def embed_def emb(1) Let_def)
  then show "embedding_lookup (nw_ops N) (nw_kernels N) c (nw_weights N) ids = Inr (d, map (embed N) ids)" by (simp add: embedding_lookup_def)
  have "length (embed N t) = d" if "t \<in> set ids" for t
  proof -
    have "snd ?emb ! unat t \<in> set (snd ?emb)" using ids that by simp
    from emb(2) [OF this] emb(1) show ?thesis by (simp add: embed_def Let_def)
  qed
  then show "mat (length ids) d (map (embed N) ids)" by (simp add: mat_def)
qed

text \<open>Rows in the caches of all layers, and the room of the cache.\<close>

definition cache_holds :: "'f kv_cache \<Rightarrow> nat \<Rightarrow> ('f list list \<times> 'f list list) list \<Rightarrow> bool" where
  "cache_holds s off cs \<longleftrightarrow> holds N s cs \<and> length cs = depth N \<and> even_rows off cs \<and> kv_max_len s \<le> length (rt_cos (nw_rope N))"

lemma cache_holds_len:
  assumes "network_fits N fit" and "cache_holds s off cs"
  shows "kv_len s = Inr off" "length (kv_layers s) = depth N \<and> kv_width s = kv_dim c"
proof -
  have cs: "holds N s cs" "cs \<noteq> []" "even_rows off cs" "length cs = depth N" using assms(2) fits_net(8) [OF assms(1)] by (auto simp: cache_holds_def)
  have "cs ! 0 \<in> set cs" using cs(2) by simp
  then have "length (fst (cs ! 0)) = off" using cs(3) unfolding even_rows_def by blast
  then show "kv_len s = Inr off" using kv_len_ok [OF cs(1,2)] by simp
  show "length (kv_layers s) = depth N \<and> kv_width s = kv_dim c" using cs(1,4) by (simp add: holds_def)
qed

lemma cache_holds_grown:
  assumes "cache_holds s off cs" and "holds N s' (snd (dense_layers N 0 cs hs))" and "kv_max_len s' = kv_max_len s"
  shows "cache_holds s' (off + length hs) (snd (dense_layers N 0 cs hs))"
  using assms by (simp add: cache_holds_def even_rows_grow)

lemma prefill_gives:
  assumes fits: "network_fits N fit" and ids: "ids \<noteq> []" "\<forall>t \<in> set ids. unat t < length (snd (dw_token_embedding (nw_weights N)))"
    and h: "cache_holds s off cs" and room: "off + length ids \<le> kv_max_len s"
  shows "\<exists>s'. gives idle s (run_prefill T (nw_ops N) (nw_math N) (nw_lib N) (nw_kernels N) c (nw_weights N) (nw_rope N) ids)
        (d, map (normed N (dw_final_norm (nw_weights N))) (fst (dense_layers N 0 cs (map (embed N) ids)))) idle s' \<and>
      cache_holds s' (off + length ids) (snd (dense_layers N 0 cs (map (embed N) ids))) \<and> kv_max_len s' = kv_max_len s"
proof -
  note len = cache_holds_len [OF fits h]
  have hs: "holds N s cs" "length cs = depth N" "even_rows off cs" and r: "off + length ids \<le> length (rt_cos (nw_rope N))"
    using h room unfolding cache_holds_def by (blast, blast, blast, linarith)
  obtain s' where s': "gives (inside (length ids)) s
        (ebind (over_layers (decoder_block_cached T (nw_ops N) (nw_math N) (nw_lib N) (nw_kernels N) c (nw_rope N) off) (dw_layers (nw_weights N)) (d, map (embed N) ids))
          (final_norm (nw_ops N) (nw_math N) c (nw_weights N)))
        (d, map (normed N (dw_final_norm (nw_weights N))) (fst (dense_layers N 0 cs (map (embed N) ids)))) (inside (length ids)) s'"
      "holds N s' (snd (dense_layers N 0 cs (map (embed N) ids)))" "kv_max_len s' = kv_max_len s"
    using pass_gives [OF fits r room embed_gives(2) [OF fits ids(2)] hs] by blast
  have "gives idle s (with_forward_session T (SingleShape (length ids))
        (ebind (over_layers (decoder_block_cached T (nw_ops N) (nw_math N) (nw_lib N) (nw_kernels N) c (nw_rope N) off) (dw_layers (nw_weights N)) (d, map (embed N) ids))
          (final_norm (nw_ops N) (nw_math N) c (nw_weights N))))
        (d, map (normed N (dw_final_norm (nw_weights N))) (fst (dense_layers N 0 cs (map (embed N) ids)))) idle s'"
    by (rule gives_session [OF _ s'(1)]) (use begins [of _ "SingleShape (length ids)"] ids(1) ends in auto)
  then have "gives idle s (run_prefill T (nw_ops N) (nw_math N) (nw_lib N) (nw_kernels N) c (nw_weights N) (nw_rope N) ids)
        (d, map (normed N (dw_final_norm (nw_weights N))) (fst (dense_layers N 0 cs (map (embed N) ids)))) idle s'"
    unfolding run_prefill_def
    by (intro gives_ebind [OF gives_eget] gives_eseq [OF gives_eassert [OF len(2)]] gives_ebind [OF gives_elift [OF len(1)]]
        gives_eseq [OF gives_eassert [OF room]] gives_ebind [OF gives_elift [OF embed_gives(1) [OF fits ids(2)]]])
  then show ?thesis using cache_holds_grown [OF h s'(2,3)] s'(3) by (intro exI [of _ s']) simp
qed

lemma decode_step_gives:
  assumes fits: "network_fits N fit" and t: "unat t < length (snd (dw_token_embedding (nw_weights N)))"
    and h: "cache_holds s off cs" and room: "off + 1 \<le> kv_max_len s"
  shows "\<exists>s'. gives idle s (run_decode_step T (nw_ops N) (nw_math N) (nw_lib N) (nw_kernels N) c (nw_weights N) (nw_rope N) t)
        (normed N (dw_final_norm (nw_weights N)) (hd (fst (dense_layers N 0 cs [embed N t])))) idle s' \<and>
      cache_holds s' (off + 1) (snd (dense_layers N 0 cs [embed N t])) \<and> kv_max_len s' = kv_max_len s"
proof -
  note len = cache_holds_len [OF fits h]
  let ?out = "map (normed N (dw_final_norm (nw_weights N))) (fst (dense_layers N 0 cs [embed N t]))"
  have hs: "holds N s cs" "length cs = depth N" "even_rows off cs" and r: "off + 1 \<le> length (rt_cos (nw_rope N))"
    using h room unfolding cache_holds_def by (blast, blast, blast, linarith)
  have ids: "\<forall>u \<in> set [t]. unat u < length (snd (dw_token_embedding (nw_weights N)))" using t by simp
  note E = embed_gives [OF fits ids, simplified]
  obtain s' where s': "gives (inside 1) s
        (ebind (over_layers (decoder_block_cached T (nw_ops N) (nw_math N) (nw_lib N) (nw_kernels N) c (nw_rope N) off) (dw_layers (nw_weights N)) (d, [embed N t]))
          (final_norm (nw_ops N) (nw_math N) c (nw_weights N))) (d, ?out) (inside 1) s'"
      "holds N s' (snd (dense_layers N 0 cs [embed N t]))" "kv_max_len s' = kv_max_len s"
    using pass_gives [OF fits r room _ hs, of "[embed N t]"] E(2) by auto
  have one: "length ?out = 1" by simp
  then have out: "snd (d, ?out) \<noteq> []" "hd (snd (d, ?out)) = normed N (dw_final_norm (nw_weights N)) (hd (fst (dense_layers N 0 cs [embed N t])))"
    by (cases "fst (dense_layers N 0 cs [embed N t])"; simp)+
  let ?read = "\<lambda>m :: 'f array2. eseq (eassert (snd m \<noteq> [])) (ereturn (hd (snd m)))"
  have body: "gives (inside 1) s
        (ebind (over_layers (decoder_block_cached T (nw_ops N) (nw_math N) (nw_lib N) (nw_kernels N) c (nw_rope N) off) (dw_layers (nw_weights N)) (d, [embed N t]))
          (\<lambda>h. ebind (final_norm (nw_ops N) (nw_math N) c (nw_weights N) h) ?read)) (hd (snd (d, ?out))) (inside 1) s'"
    unfolding ebind_assoc [symmetric] by (rule gives_ebind [where k = ?read, OF s'(1) gives_eseq [OF gives_eassert [OF out(1)] gives_ereturn]])
  have "gives idle s (with_forward_session T (SingleShape 1)
        (ebind (over_layers (decoder_block_cached T (nw_ops N) (nw_math N) (nw_lib N) (nw_kernels N) c (nw_rope N) off) (dw_layers (nw_weights N)) (d, [embed N t]))
          (\<lambda>h. ebind (final_norm (nw_ops N) (nw_math N) c (nw_weights N) h) ?read))) (hd (snd (d, ?out))) idle s'"
    by (rule gives_session [OF _ body]) (use begins [of _ "SingleShape 1"] ends in auto)
  then have "gives idle s (run_decode_step T (nw_ops N) (nw_math N) (nw_lib N) (nw_kernels N) c (nw_weights N) (nw_rope N) t) (hd (snd (d, ?out))) idle s'"
    unfolding run_decode_step_def
    by (intro gives_ebind [OF gives_eget] gives_eseq [OF gives_eassert [OF len(2)]] gives_ebind [OF gives_elift [OF len(1)]]
        gives_eseq [OF gives_eassert [OF room]] gives_ebind [OF gives_elift [OF E(1)]])
  then show ?thesis using cache_holds_grown [OF h s'(2,3)] s'(3) unfolding out(2) by (intro exI [of _ s']) simp
qed

lemma logits_give:
  assumes fits: "network_fits N fit" and h: "length h = d"
  shows "gives idle s (compute_logits T (nw_ops N) (nw_kernels N) c (nw_weights N) h) (logits_of N h) idle s"
proof -
  let ?W = "nw_registered N (layer_handle 0 WLmHead)"
  have X: "mat 1 d [h]" using h by (simp add: mat_def)
  have b: "gives idle s (on_exec (tx_begin T (SingleShape 1))) () (inside 1) s"
    using begins [of _ "SingleShape 1"] by (intro gives_on_exec) simp
  have l: "gives (inside 1) s (on_exec (tx_linear T (layer_handle 0 WLmHead) (length h, [h]))) (fst ?W, [row_dots (nw_ops N) (fst ?W) (snd ?W) h]) (inside 1) s"
    using linear [OF _ fits_net(9) [OF fits] X] h by (intro gives_on_exec) (simp add: registered_product_def)
  have e: "gives (inside 1) s (on_exec (tx_end T)) () idle s"
    using ends by (intro gives_on_exec) simp
  have ok: "\<not> (length [row_dots (nw_ops N) (fst ?W) (snd ?W) h] \<noteq> 1 \<or> fst ?W \<noteq> length (snd (dw_token_embedding (nw_weights N))))"
    using fits_net(10) [OF fits] by simp
  have r: "gives idle s (ereturn (case dc_final_logit_softcapping c of
           Some cap \<Rightarrow> map (\<lambda>x. f_mul (nw_ops N) (kn_tanh (nw_kernels N) (f_mul (nw_ops N) x (f_div (nw_ops N) (f_lit (nw_ops N) 1) cap))) cap)
             (hd [row_dots (nw_ops N) (fst ?W) (snd ?W) h])
         | None \<Rightarrow> hd [row_dots (nw_ops N) (fst ?W) (snd ?W) h])) (logits_of N h) idle s"
    using gives_ereturn [of idle s "logits_of N h"] unfolding logits_of_def Let_def list.sel(1) .
  show ?thesis unfolding compute_logits_def
    by (rule gives_eseq [OF b], rule gives_ebind [OF l], unfold prod.case, rule gives_eseq [OF e], unfold if_not_P [OF ok], rule r)
qed

end

section \<open>Tokens\<close>

lemma argmax_fold:
  assumes "unat t0 < n" and "\<forall>i \<in> set is. i < n"
  shows "unat (fst (fold (\<lambda>(i, v) (t, best). if f_lt F best v then (of_nat i :: u32, v) else (t, best)) (zip is vs) (t0, b0))) < n"
  using assms
proof (induction "is" arbitrary: vs t0 b0)
  case (Cons i "is")
  have "unat (of_nat i :: u32) < n" using Cons.prems(2) by (simp add: unat_of_nat le_less_trans [OF mod_less_eq_dividend])
  then show ?case using Cons by (cases vs) auto
qed simp

lemma token_in_vocabulary: "logits \<noteq> [] \<Longrightarrow> unat (argmax F L logits) < length logits"
  unfolding argmax_def by (rule argmax_fold) simp_all

context multiplying_executor
begin

text \<open>A hidden row of the model's width, and a vocabulary.\<close>

lemma token_ok:
  assumes fits: "network_fits N fit" and "snd (dw_token_embedding (nw_weights N)) \<noteq> []"
  shows "unat (token_of N h) < length (snd (dw_token_embedding (nw_weights N)))"
proof -
  have "length (logits_of N h) = length (snd (dw_token_embedding (nw_weights N)))"
    using fits_net(10) [OF fits] by (simp add: logits_of_def Let_def split: option.split)
  moreover from this assms(2) have "logits_of N h \<noteq> []" by (metis length_0_conv)
  ultimately show ?thesis using token_in_vocabulary [of "logits_of N h" "nw_ops N" "nw_lib N"] by (simp add: token_of_def)
qed

lemma last_row_width:
  assumes fits: "network_fits N fit" and X: "mat n d hs"
    and row: "row \<in> set (fst (dense_layers N li cs hs))" and cs: "li + length cs \<le> depth N"
  shows "length (normed N (dw_final_norm (nw_weights N)) row) = d"
proof -
  have "mat n d (fst (dense_layers N li cs hs))" using cs X
  proof (induction cs arbitrary: li hs)
    case (Cons kv cs)
    then show ?case using mat_dense_layer [OF fits, of li n hs kv] by (simp add: dense_layers_step)
  qed simp
  from mat_rows [OF this row] show ?thesis using fits_net(6) [OF fits] by (simp add: length_normed)
qed

lemma loop_gives:
  assumes fits: "network_fits N fit" and v: "snd (dw_token_embedding (nw_weights N)) \<noteq> []"
  shows "\<lbrakk>length h = d; cache_holds s off cs; off + n \<le> kv_max_len s\<rbrakk> \<Longrightarrow>
    \<exists>s'. gives idle s (decode_loop T (nw_ops N) (nw_math N) (nw_lib N) (nw_kernels N) c (nw_weights N) (nw_rope N) eos n h tokens)
      (cached_greedy N eos n cs h tokens) idle s'"
proof (induction n arbitrary: h s off cs tokens)
  case 0
  then show ?case using gives_ereturn by (metis decode_loop.simps(1) cached_greedy.simps(1))
next
  case (Suc n)
  let ?next = "\<lambda>logits. let next_token = argmax (nw_ops N) (nw_lib N) logits; tokens = tokens @ [next_token] in
        if next_token \<in> set eos then ereturn \<lparr>go_tokens = tokens, go_stopped_on_eos = True\<rparr>
        else ebind (run_decode_step T (nw_ops N) (nw_math N) (nw_lib N) (nw_kernels N) c (nw_weights N) (nw_rope N) next_token) (\<lambda>h_last.
          decode_loop T (nw_ops N) (nw_math N) (nw_lib N) (nw_kernels N) c (nw_weights N) (nw_rope N) eos n h_last tokens)"
  let ?t = "token_of N h"
  let ?h = "normed N (dw_final_norm (nw_weights N)) (hd (fst (dense_layers N 0 cs [embed N ?t])))"
  let ?rest = "\<lambda>h_last. decode_loop T (nw_ops N) (nw_math N) (nw_lib N) (nw_kernels N) c (nw_weights N) (nw_rope N) eos n h_last (tokens @ [token_of N h])"
  note t = token_ok [OF fits v, of h]
  obtain s1 where s1: "gives idle s (run_decode_step T (nw_ops N) (nw_math N) (nw_lib N) (nw_kernels N) c (nw_weights N) (nw_rope N) ?t) ?h idle s1"
      "cache_holds s1 (off + 1) (snd (dense_layers N 0 cs [embed N ?t]))" "kv_max_len s1 = kv_max_len s"
    using decode_step_gives [OF fits t Suc.prems(2)] Suc.prems(3) by auto
  have X: "mat 1 d [embed N ?t]" using embed_gives(2) [OF fits, of "[?t]"] t by simp
  have len: "length (fst (dense_layers N 0 cs [embed N ?t])) = 1" by simp
  then have row: "hd (fst (dense_layers N 0 cs [embed N ?t])) \<in> set (fst (dense_layers N 0 cs [embed N ?t]))"
    by (cases "fst (dense_layers N 0 cs [embed N ?t])"; simp)
  have "length cs = depth N" using Suc.prems(2) by (simp add: cache_holds_def)
  then have h: "length ?h = d" using last_row_width [OF fits X row] by simp
  obtain s2 where s2: "gives idle s1 (decode_loop T (nw_ops N) (nw_math N) (nw_lib N) (nw_kernels N) c (nw_weights N) (nw_rope N) eos n ?h (tokens @ [?t]))
      (cached_greedy N eos n (snd (dense_layers N 0 cs [embed N ?t])) ?h (tokens @ [?t])) idle s2"
    using Suc.IH [OF h s1(2), of "tokens @ [?t]"] Suc.prems(3) s1(3) by auto
  show ?case
  proof (cases "?t \<in> set eos")
    case True
    have "gives idle s (?next (logits_of N h))
      \<lparr>go_tokens = tokens @ [?t], go_stopped_on_eos = True\<rparr> idle s"
      using True gives_ereturn by (simp add: token_of_def Let_def)
    from gives_ebind [where k = ?next, OF logits_give [OF fits Suc.prems(1)] this] show ?thesis
      using True by (intro exI [of _ s]) (simp add: Let_def)
  next
    case False
    have "gives idle s (?next (logits_of N h))
      (cached_greedy N eos n (snd (dense_layers N 0 cs [embed N ?t])) ?h (tokens @ [?t])) idle s2"
      using False gives_ebind [where k = ?rest, OF s1(1) s2] by (simp add: token_of_def Let_def)
    from gives_ebind [where k = ?next, OF logits_give [OF fits Suc.prems(1)] this] show ?thesis
      using False by (intro exI [of _ s2]) (simp add: Let_def case_prod_beta)
  qed
qed

end

end
