(* ===== verification/Dec_Generate.thy ===== *)
theory Dec_Generate
  imports Dec_Passes
begin

text \<open>
  Generation over an executor that multiplies, and the two executors as its instances.
\<close>

section \<open>The fresh cache\<close>

lemma layer_view_new: "0 < batch \<Longrightarrow> layer_view_b (layer_new F sh batch m w) 0 = ([], [])"
  by (simp add: layer_view_b_def layer_new_def Let_def)

lemma layer_ok_new: "kv_max_len s = m \<Longrightarrow> kv_width s = w \<Longrightarrow> layer_ok s (layer_new F sh (kv_batch s) m w)"
  by (auto simp: layer_ok_def layer_new_def store_ok_def kv_zeros_def zeros_def Let_def)

lemma is_shared_new [simp]: "is_shared (layer_new F sh batch m w) = sh"
  by (simp add: is_shared_def layer_new_def Let_def)

lemma holds_new:
  assumes "kv_layers s = map (\<lambda>li. layer_new F (sh li) 1 m (kv_dim (nw_config N))) [0..<n]" and "kv_max_len s = m" and "kv_batch s = 1"
    and "kv_width s = kv_dim (nw_config N)" and "\<And>li. li < n \<Longrightarrow> sh li \<Longrightarrow> tied N li"
  shows "holds N s (replicate n ([], []))"
  using assms layer_ok_new [of s m "kv_dim (nw_config N)" F] by (auto simp: holds_def cache_ok_def cached_def layer_view_new)

lemma cache_for_gives:
  assumes fits: "network_fits N fit"
  obtains s where "cache_for (nw_ops N) (nw_config N) 1 (depth N) m = Inr s" "holds N s (replicate (depth N) ([], []))" "kv_max_len s = m"
proof (cases "dc_kv_shared_in_global (nw_config N) \<and> dc_attention_classes (nw_config N) \<noteq> None")
  case True
  then obtain v where v: "dc_attention_classes (nw_config N) = Some v" by blast
  then have "length v = dc_num_hidden_layers (nw_config N)" "length v = depth N" using fits by (simp_all add: network_fits_def Let_def)
  then have "shared_flags (nw_config N) (depth N) = Inr (map (\<lambda>li. class_of N li = Global) [0..<depth N])"
    unfolding shared_flags_def by (intro rmap_Inr) (simp add: effective_attention_class_def v class_of_def)
  then have c: "cache_for (nw_ops N) (nw_config N) 1 (depth N) m = Inr \<lparr>kv_layers = map (\<lambda>li. layer_new (nw_ops N)
      (map (\<lambda>li. class_of N li = Global) [0..<depth N] ! li) 1 m (kv_dim (nw_config N))) [0..<depth N],
      kv_max_len = m, kv_width = kv_dim (nw_config N), kv_batch = 1\<rparr>" (is "_ = Inr ?s")
    using True by (simp add: cache_for_def kv_new_with_sharing_batched_def)
  have "holds N ?s (replicate (depth N) ([], []))"
    by (rule holds_new [where m = m and F = "nw_ops N" and sh = "\<lambda>li. map (\<lambda>li. class_of N li = Global) [0..<depth N] ! li"])
      (use True in \<open>simp_all add: tied_def\<close>)
  then show ?thesis using that [OF c] by simp
next
  case False
  have c: "cache_for (nw_ops N) (nw_config N) 1 (depth N) m = Inr (kv_new_batched (nw_ops N) 1 (depth N) m (kv_dim (nw_config N)))"
    unfolding cache_for_def if_not_P [OF False] ..
  have "holds N (kv_new_batched (nw_ops N) 1 (depth N) m (kv_dim (nw_config N))) (replicate (depth N) ([], []))"
    by (rule holds_new [where m = m and F = "nw_ops N" and sh = "\<lambda>_. False"]) (simp_all add: kv_new_batched_def)
  then show ?thesis using that [OF c] by (simp add: kv_new_batched_def)
qed

section \<open>Generation\<close>

text \<open>The prompt through empty caches, and the tokens after it.\<close>

definition generated :: "('f, 'g, 'h) network \<Rightarrow> generation_config \<Rightarrow> u32 list \<Rightarrow> generation_output" where
  "generated N gen prompt =
     (let (hs, cs) = dense_layers N 0 (replicate (depth N) ([], [])) (map (embed N) prompt)
      in cached_greedy N (gc_eos_token_ids gen) (gc_max_tokens gen) cs (normed N (dw_final_norm (nw_weights N)) (last hs)) [])"

definition prompt_ok :: "('f, 'g, 'h) network \<Rightarrow> generation_config \<Rightarrow> u32 list \<Rightarrow> bool" where
  "prompt_ok N gen prompt \<longleftrightarrow> prompt \<noteq> [] \<and> (\<forall>t \<in> set prompt. unat t < length (snd (dw_token_embedding (nw_weights N)))) \<and>
     length prompt + gc_max_tokens gen \<le> dc_max_position_embeddings (nw_config N)"

definition generate_on :: "('f, 'x) trusted_ops \<Rightarrow> ('f, 'g, 'h) network \<Rightarrow> generation_config \<Rightarrow> u32 list \<Rightarrow> ('x, decode_error, generation_output) eff" where
  "generate_on T N gen prompt =
     generate T (nw_ops N) (nw_math N) (nw_lib N) (nw_kernels N) (nw_config N) (nw_weights N) (nw_rope N) prompt gen"

lemma yields_with_cache: "gives I c m r J c' \<Longrightarrow> I x \<Longrightarrow> yields (with_cache c m) x (\<lambda>out x'. out = r \<and> J x')"
  by (fastforce simp: gives_def yields_def with_cache_def)

context multiplying_executor
begin

lemma generate_yields:
  assumes fits: "network_fits N fit" and p: "prompt_ok N gen prompt" and x: "idle x"
  shows "yields (generate_on T N gen prompt) x (\<lambda>out x'. out = generated N gen prompt \<and> idle x')"
proof (cases "gc_max_tokens gen = 0")
  case True
  then show ?thesis using p x by (simp add: generate_on_def generate_def prompt_ok_def generated_def yields_steps case_prod_beta Let_def)
next
  case False
  let ?m = "length prompt + gc_max_tokens gen" and ?eos = "gc_eos_token_ids gen" and ?n = "gc_max_tokens gen"
  let ?cs = "replicate (depth N) ([], [])"
  let ?hs = "fst (dense_layers N 0 ?cs (map (embed N) prompt))" and ?nm = "normed N (dw_final_norm (nw_weights N))"
  have ids: "prompt \<noteq> []" "\<forall>t \<in> set prompt. unat t < length (snd (dw_token_embedding (nw_weights N)))" "\<not> dc_max_position_embeddings c < ?m"
    using p unfolding prompt_ok_def by (blast, blast, linarith)
  obtain s where s: "cache_for (nw_ops N) c 1 (depth N) ?m = Inr s" "holds N s ?cs" "kv_max_len s = ?m"
    by (rule cache_for_gives [OF fits])
  have h: "cache_holds s 0 ?cs" using s ids(3) fits_net(4) [OF fits] by (simp add: cache_holds_def even_rows_def)
  obtain s1 where s1: "gives idle s (run_prefill T (nw_ops N) (nw_math N) (nw_lib N) (nw_kernels N) c (nw_weights N) (nw_rope N) prompt) (d, map ?nm ?hs) idle s1"
      "cache_holds s1 (length prompt) (snd (dense_layers N 0 ?cs (map (embed N) prompt)))" "kv_max_len s1 = ?m"
    using prefill_gives [OF fits ids(1,2) h] s(3) by auto
  have len: "length ?hs = length prompt" by simp
  then have hs: "?hs \<noteq> []" using ids(1) by (metis length_0_conv)
  have X: "mat (length prompt) d (map (embed N) prompt)" by (rule embed_gives(2) [OF fits ids(2)])
  have w: "length (?nm (last ?hs)) = d" using last_row_width [OF fits X last_in_set [OF hs]] by simp
  have v: "snd (dw_token_embedding (nw_weights N)) \<noteq> []" using ids(1,2) by (cases prompt) auto
  obtain s2 where s2: "gives idle s1 (decode_loop T (nw_ops N) (nw_math N) (nw_lib N) (nw_kernels N) c (nw_weights N) (nw_rope N) ?eos ?n (?nm (last ?hs)) [])
      (cached_greedy N ?eos ?n (snd (dense_layers N 0 ?cs (map (embed N) prompt))) (?nm (last ?hs)) []) idle s2"
    using loop_gives [OF fits v w s1(2), of ?n ?eos "[]"] s1(3) by auto
  let ?rest = "\<lambda>hidden. eseq (eassert (snd hidden \<noteq> []))
      (decode_loop T (nw_ops N) (nw_math N) (nw_lib N) (nw_kernels N) c (nw_weights N) (nw_rope N) ?eos ?n (last (snd hidden)) [])"
  have "gives idle s (ebind (run_prefill T (nw_ops N) (nw_math N) (nw_lib N) (nw_kernels N) c (nw_weights N) (nw_rope N) prompt) ?rest)
      (generated N gen prompt) idle s2"
  proof (rule gives_ebind [where k = ?rest, OF s1(1)])
    show "gives idle s1 (?rest (d, map ?nm ?hs)) (generated N gen prompt) idle s2"
      unfolding snd_conv last_map [OF hs] generated_def case_prod_beta Let_def
      by (rule gives_eseq [OF gives_eassert s2]) (use hs in simp)
  qed
  from yields_with_cache [OF this x] show ?thesis
    using False ids(1,3) s(1) by (simp add: generate_on_def generate_def yields_ebind yields_steps Let_def)
qed

end

end
