(* ===== verification/Dec_Uncached.thy ===== *)
theory Dec_Uncached
  imports Dec_Generate
begin

text \<open>
  The pass without a cache over an executor that multiplies: for a decoder without windows, partial
  rotation or tied values it returns the rows of the pass that fills an empty cache.
\<close>

definition plain_decoder :: "'f decoder_config \<Rightarrow> bool" where
  "plain_decoder c \<longleftrightarrow> dc_attention_classes c = None \<and> dc_partial_rope c = None \<and> \<not> dc_kv_shared_in_global c \<and> \<not> dc_use_out_attn_mult c"

lemma plain_layers:
  assumes "plain_decoder (nw_config N)"
  shows "class_of N li = Global" "\<not> tied N li" "rotation N li = head_dim_value (nw_config N)" "\<not> out_attn_mult_enabled_for (nw_config N) n"
  using assms by (simp_all add: plain_decoder_def class_of_def tied_def rotation_def rotation_of_def out_attn_mult_enabled_for_def)

context multiplying_executor
begin

lemma block_gives:
  assumes fits: "network_fits N fit" and plain: "plain_decoder c" and li: "li < length (dw_layers (nw_weights N))" and X: "mat n d hs"
    and room: "0 + n \<le> length (rt_cos (nw_rope N))"
  shows "gives (inside n) s (decoder_block T (nw_ops N) (nw_math N) (nw_lib N) (nw_kernels N) c (nw_rope N) li (layer_of N li) (d, hs))
      (d, fst (dense_layer N li ([], []) hs)) (inside n) s"
proof -
  note net = fits_net [OF fits] and layer = fits_layer [OF fits_net(7) [OF fits li]] and pl = plain_layers [OF plain]
  let ?l = "layer_of N li" and ?F = "nw_ops N" and ?nq = "dc_num_attention_heads c" and ?nkv = "dc_num_key_value_heads c" and ?hd = "head_dim_value c"
  let ?nm = "map (normed N (dl_norm_attn ?l)) hs"
  let ?Q = "map2 (\<lambda>i. query_of N li (0 + i)) [0..<n] hs" and ?K = "keys_from N li 0 hs" and ?V = "values_from N li 0 hs"
  let ?C = "map2 (\<lambda>i r. attend N (class_of N li) (0 + i) r ?K ?V) [0..<n] ?Q"
  have len: "length hs = n" using X unfolding mat_def by blast
  have nm: "mat n d ?nm" by (rule mat_normed [OF X layer(1)])
  have K: "mat n (kv_dim c) ?K" and V: "mat n (kv_dim c) ?V" using mat_keys [OF fits li, of hs 0] mat_values [OF fits li, of hs 0] unfolding len by blast+
  have Q: "mat n (q_dim c) ?Q" by (rule mat_map2_rows [OF X]) (rule length_query_of [OF fits li])
  have C: "mat n (q_dim c) ?C" by (rule mat_map2_rows [OF Q]) (rule length_attend)
  have v: "map (project N li WV (dl_wv ?l)) ?nm = ?V" using pl(2) by (intro nth_equalityI) (simp_all add: values_from_def value_of_def)
  have heads: "0 < ?nkv" "?nkv \<le> ?nq" "?nq mod ?nkv = 0" using net(2) by (simp_all add: heads_ok_def)
  have rows: "length ?Q = n" "length ?K = n" "length ?V = n" using Q K V unfolding mat_def by blast+
  then have shape: "gqa_shape (?nq * ?hd, ?Q) (kv_dim c, ?K) (kv_dim c, ?V) ?nq ?nkv ?hd"
    using heads by (simp add: gqa_shape_def kv_dim_def)
  have attention: "causal_gqa_attention ?F (nw_math N) (nw_lib N) (nw_kernels N) (q_dim c, ?Q) (kv_dim c, ?K) (kv_dim c, ?V) ?nq ?nkv ?hd = Inr (q_dim c, ?C)"
    unfolding causal_gqa_attention_def q_dim_def snd_conv gqa_heads_rows [OF refl refl refl refl refl net(1) heads Q K V]
    by (simp only: shape pl(1) assert_that_simps rbind_simps)
  note dl = dense_layer_split [where kv = "([], [])" and off = 0, OF _ len, of li, simplified fst_conv snd_conv append_Nil list.size, OF refl]
  have rope: "rope_apply ?F (nw_rope N) x h = apply_partial_at ?F (nw_rope N) x h 0 (rotation N li)" for x h
    by (simp add: rope_apply_def pl(3) net(3))
  have step: "(if offload_layer c li \<and> out_attn_mult_enabled_for c m then m1 else if offload_layer c li \<and> perm_attention_enabled_for c m then m2 else m3) = m3"
    for m and m1 m2 m3 :: "('x, 'e, 'f array2) dec"
    using net(5) by (simp add: pl(4) perm_attention_enabled_for_def)
  show ?thesis
    unfolding decoder_block_def dl rope unfolding Let_def
    apply (rule gives_ebind [OF gives_elift [OF rms_norm_rows [OF layer(1)]]])
    apply (rule gives_ebind [OF qkv_step_gives [OF net(1) nm layer(5-7)]], simp only: prod.case)
    apply (rule gives_ebind [OF gives_elift [OF qk_norm_rows [OF fits_net(7) [OF fits li]]]], simp only: prod.case)
    apply (rule gives_ebind [OF gives_elift [OF queries_turned [OF fits li X room]]])
    apply (rule gives_ebind [OF gives_elift [OF keys_turned [OF fits li X room]]])
    apply (unfold v step)
    apply (rule gives_ebind [OF gives_elift [OF attention]])
    by (rule finish_block_gives [OF fits li X C])
qed

lemma plain_layers_give:
  assumes fits: "network_fits N fit" and plain: "plain_decoder c" and room: "0 + n \<le> length (rt_cos (nw_rope N))"
  shows "\<lbrakk>mat n d hs; li + m = depth N\<rbrakk> \<Longrightarrow>
    gives (inside n) s
      (efold (\<lambda>(li, layer) h. ebind (decoder_block T (nw_ops N) (nw_math N) (nw_lib N) (nw_kernels N) c (nw_rope N) li layer h) (\<lambda>h. ereturn h))
        (zip [li..<depth N] (drop li (dw_layers (nw_weights N)))) (d, hs))
      (d, fst (dense_layers N li (replicate m ([], [])) hs)) (inside n) s"
proof (induction m arbitrary: li hs)
  case 0
  then show ?case using gives_ereturn by simp
next
  case (Suc m)
  let ?step = "\<lambda>(li, layer) h. ebind (decoder_block T (nw_ops N) (nw_math N) (nw_lib N) (nw_kernels N) c (nw_rope N) li layer h) (\<lambda>h. ereturn h)"
  let ?rest = "efold ?step (zip [Suc li..<depth N] (drop (Suc li) (dw_layers (nw_weights N))))"
  have li: "li < depth N" using Suc.prems(2) by simp
  have split: "zip [li..<depth N] (drop li (dw_layers (nw_weights N))) = (li, layer_of N li) # zip [Suc li..<depth N] (drop (Suc li) (dw_layers (nw_weights N)))"
    using li by (simp add: upt_conv_Cons Cons_nth_drop_Suc [symmetric] layer_of_def)
  have b: "gives (inside n) s (?step (li, layer_of N li) (d, hs)) (d, fst (dense_layer N li ([], []) hs)) (inside n) s"
    unfolding prod.case by (rule gives_ebind [OF block_gives [OF fits plain li Suc.prems(1) room] gives_ereturn])
  have r: "gives (inside n) s (?rest (d, fst (dense_layer N li ([], []) hs)))
      (d, fst (dense_layers N (Suc li) (replicate m ([], [])) (fst (dense_layer N li ([], []) hs)))) (inside n) s"
    by (rule Suc.IH [OF mat_dense_layer [OF fits li Suc.prems(1)]]) (use Suc.prems(2) in simp)
  show ?case unfolding split efold.simps replicate.simps dense_layers_step fst_conv
    by (rule gives_ebind [where k = ?rest, OF b r])
qed

text \<open>The rows of a text through empty caches.\<close>

abbreviation fresh_rows :: "u32 list \<Rightarrow> 'f list list" where
  "fresh_rows ids \<equiv> map (normed N (dw_final_norm (nw_weights N))) (fst (dense_layers N 0 (replicate (depth N) ([], [])) (map (embed N) ids)))"

lemma run_gives:
  assumes fits: "network_fits N fit" and plain: "plain_decoder c"
    and ids: "ids \<noteq> []" "\<forall>t \<in> set ids. unat t < length (snd (dw_token_embedding (nw_weights N)))" "length ids \<le> dc_max_position_embeddings c"
  shows "gives idle s (run T (nw_ops N) (nw_math N) (nw_lib N) (nw_kernels N) c (nw_weights N) (nw_rope N) ids) (d, fresh_rows ids) idle s"
proof -
  let ?n = "length ids" and ?hs = "fst (dense_layers N 0 (replicate (depth N) ([], [])) (map (embed N) ids))"
  have room: "0 + ?n \<le> length (rt_cos (nw_rope N))" using ids(3) fits_net(4) [OF fits] by simp
  have "gives (inside ?n) s (over_layers (\<lambda>li layer h. ebind (decoder_block T (nw_ops N) (nw_math N) (nw_lib N) (nw_kernels N) c (nw_rope N) li layer h)
      (\<lambda>h. ereturn h)) (dw_layers (nw_weights N)) (d, map (embed N) ids)) (d, ?hs) (inside ?n) s"
    using plain_layers_give [OF fits plain room embed_gives(2) [OF fits ids(2)], of 0 "depth N" s] by (simp add: over_layers_def)
  moreover have "gives (inside ?n) s (final_norm (nw_ops N) (nw_math N) c (nw_weights N) (d, ?hs)) (d, fresh_rows ids) (inside ?n) s"
    unfolding final_norm_def by (rule gives_elift [OF rms_norm_rows [OF fits_net(6) [OF fits]]])
  ultimately have body: "gives (inside ?n) s (ebind (over_layers (\<lambda>li layer h. ebind (decoder_block T (nw_ops N) (nw_math N) (nw_lib N) (nw_kernels N) c (nw_rope N) li layer h)
      (\<lambda>h. ereturn h)) (dw_layers (nw_weights N)) (d, map (embed N) ids)) (final_norm (nw_ops N) (nw_math N) c (nw_weights N))) (d, fresh_rows ids) (inside ?n) s"
    by (rule gives_ebind [where k = "final_norm (nw_ops N) (nw_math N) c (nw_weights N)"])
  have "gives idle s (with_forward_session T (SingleShape ?n)
      (ebind (over_layers (\<lambda>li layer h. ebind (decoder_block T (nw_ops N) (nw_math N) (nw_lib N) (nw_kernels N) c (nw_rope N) li layer h)
      (\<lambda>h. ereturn h)) (dw_layers (nw_weights N)) (d, map (embed N) ids)) (final_norm (nw_ops N) (nw_math N) c (nw_weights N)))) (d, fresh_rows ids) idle s"
    by (rule gives_session [OF _ body]) (use begins [of _ "SingleShape ?n"] ids(1) ends in auto)
  then show ?thesis unfolding run_def run_with_hook_def
    by (rule gives_ebind [OF gives_elift [OF embed_gives(1) [OF fits ids(2)]]])
qed

lemma fresh_prefill_gives:
  assumes fits: "network_fits N fit" and ids: "ids \<noteq> []" "\<forall>t \<in> set ids. unat t < length (snd (dw_token_embedding (nw_weights N)))"
    and m: "length ids \<le> m" "m \<le> dc_max_position_embeddings c" and s: "cache_for (nw_ops N) c 1 (depth N) m = Inr s"
  shows "\<exists>s'. gives idle s (run_prefill T (nw_ops N) (nw_math N) (nw_lib N) (nw_kernels N) c (nw_weights N) (nw_rope N) ids) (d, fresh_rows ids) idle s'"
proof -
  obtain s1 where s1: "cache_for (nw_ops N) c 1 (depth N) m = Inr s1" "holds N s1 (replicate (depth N) ([], []))" "kv_max_len s1 = m"
    by (rule cache_for_gives [OF fits])
  then have "s1 = s" using s by simp
  then have h: "cache_holds s 0 (replicate (depth N) ([], []))" and room: "0 + length ids \<le> kv_max_len s"
    using s1 m fits_net(4) [OF fits] by (simp_all add: cache_holds_def even_rows_def)
  from prefill_gives [OF fits ids h room] show ?thesis by blast
qed

end

end
