(* ===== verification/Dec_Executors.thy ===== *)
theory Dec_Executors
  imports Dec_Uncached
begin

text \<open>
  The plaintext and the masking executor as executors that multiply: for the first over any numbers,
  for the second over the reals.
\<close>

definition weight_fits :: "(weight_handle \<Rightarrow> 'f array2 option) \<Rightarrow> weight_handle \<Rightarrow> nat \<Rightarrow> bool" where
  "weight_fits ws h d \<longleftrightarrow> 0 < d \<and> (\<exists>p W. ws h = Some (p, W) \<and> 0 < p \<and> mat d p W)"

definition registers :: "('f, 'g, 'h) network \<Rightarrow> (weight_handle \<Rightarrow> 'f array2 option) \<Rightarrow> bool" where
  "registers N ws \<longleftrightarrow> (\<forall>h w. ws h = Some w \<longrightarrow> nw_registered N h = w)"

lemma registered_weight:
  assumes "registers N ws" and "weight_fits ws h d"
  obtains "ws h = Some (nw_registered N h)" "mat d (fst (nw_registered N h)) (snd (nw_registered N h))" "0 < fst (nw_registered N h)" "0 < d"
  using assms unfolding registers_def weight_fits_def by (metis fst_conv snd_conv)

section \<open>The plaintext executor\<close>

abbreviation plain_on :: "('f, 'g, 'h) network \<Rightarrow> ('f, ('f, 'f weights) plaintext_executor) trusted_ops" where
  "plain_on N \<equiv> plaintext_ops (nw_ops N) (nw_lib N) (reference_engine (nw_ops N) (nw_lib N) (kn_widen (nw_kernels N)))"

definition plain_ready :: "('f, 'g, 'h) network \<Rightarrow> 'f weights \<Rightarrow> ('f, 'f weights) plaintext_executor \<Rightarrow> bool" where
  "plain_ready N ws x \<longleftrightarrow> textbook_products (nw_ops N) (nw_lib N) \<and> registers N ws \<and> pe_engine x = ws"

lemma plain_linear_product:
  assumes x: "plain_ready N ws x" and fit: "weight_fits ws h d" and X: "mat n d X"
  shows "plain_offload_linear (reference_engine F (nw_lib N) widen) h (d, X) x = (Inr (registered_product N X h), x)"
proof -
  obtain w: "ws h = Some (nw_registered N h)" "mat d (fst (nw_registered N h)) (snd (nw_registered N h))"
    using x fit by (auto simp: plain_ready_def elim: registered_weight)
  have tb: "textbook_products (nw_ops N) (nw_lib N)" using x by (simp add: plain_ready_def)
  have len: "length (snd (nw_registered N h)) = d" using w(2) by (simp add: mat_def)
  have "gl_mm (nw_lib N) (d, X) (nw_registered N h) = map (row_dots (nw_ops N) (fst (nw_registered N h)) (snd (nw_registered N h))) X"
    using textbook [OF tb X w(2)] by simp
  then show ?thesis using w(1) len x
    by (simp add: plain_offload_linear_def plain_engine_def reference_engine_def default_run_registered_linear_def default_matmul_many_def
        reference_matmul_def registered_product_def plain_ready_def zoom_def eff_simps)
qed

lemma plain_many_products:
  assumes x: "plain_ready N ws x" and fit: "\<And>h. h \<in> set hs \<Longrightarrow> weight_fits ws h d" and X: "mat n d X"
  shows "plain_offload_linear_many (reference_engine F (nw_lib N) widen) hs (d, X) x = (Inr (map (registered_product N X) hs), x)"
  using fit unfolding plain_offload_linear_many_def
  by (induction hs) (simp_all add: eff_simps plain_linear_product [OF x _ X])

interpretation plain: multiplying_executor "plain_on N" N "weight_fits ws" "plain_ready N ws" "\<lambda>_. plain_ready N ws"
proof
  fix x li n d and X :: "'a list list"
  assume x: "plain_ready N ws x" and fit: "\<And>kind. kind \<in> {WQ, WK, WV} \<Longrightarrow> weight_fits ws (layer_handle li kind) d" and X: "mat n d X"
  show "yields (tx_qkv (plain_on N) (of_nat li) (d, X)) x (\<lambda>out x'.
        out = (registered_product N X (layer_handle li WQ), registered_product N X (layer_handle li WK), registered_product N X (layer_handle li WV)) \<and>
        plain_ready N ws x')"
    using plain_linear_product [OF x fit X] x
    by (simp add: yields_def plaintext_ops_def plain_offload_qkv_def eff_simps layer_handle_def [symmetric])
qed (simp_all add: yields_def plaintext_ops_def eff_simps plain_linear_product plain_many_products)

section \<open>The masking executor\<close>

lemma lib_textbook:
  assumes E: "exact F H" and L: "lib_ok L"
  shows "textbook_products F L"
  unfolding textbook_products_def
proof (intro allI impI)
  fix n d p and X W :: "real list list" assume X: "mat n d X" and W: "mat d p W"
  have dots: "dotp F xs ys = (\<Sum>j<length ys. xs ! j * ys ! j)" if "length xs = length ys" for xs ys :: "real list"
  proof -
    have "fold (\<lambda>(x, y) s. s + x * y) (zip xs ys) s = s + (\<Sum>j<length ys. xs ! j * ys ! j)" for s using that
      by (induction xs ys arbitrary: s rule: list_induct2) (simp_all add: lessThan_Suc_eq_insert_0 sum.insert sum.reindex algebra_simps)
    then show ?thesis by (simp add: dotp_def exactD [OF E])
  qed
  have "vecmat W p row = row_dots F p W row" if "row \<in> set X" for row
    using that X W by (intro nth_equalityI) (simp_all add: vecmat_def row_dots_def dots mat_def)
  then show "gl_mm L (d, X) (p, W) = map (row_dots F p W) X"
    using L X W by (simp add: lib_ok_def matmul_def)
qed

definition masking_ready :: "(real, 'v) engine_ops \<Rightarrow> ('v \<Rightarrow> real weights) \<Rightarrow> (real, 'g, 'h) network \<Rightarrow> real weights \<Rightarrow> (real, 'g, 'h, 'v) executor \<Rightarrow> bool" where
  "masking_ready E weights_of N ws x \<longleftrightarrow>
     offload_engine E weights_of \<and> exact (nw_ops N) (nw_math N) \<and> lib_ok (nw_lib N) \<and> sampler_ends (nw_ops N) (nw_lib N) \<and> registers N ws \<and>
     session_ok x \<and> \<not> xe_haar_mask_bf16 x \<and> weights_of (xe_engine x) = ws \<and> (0 < xe_verify_probes x \<longrightarrow> xe_weights x = ws)"

definition masking_inside :: "(real, 'v) engine_ops \<Rightarrow> ('v \<Rightarrow> real weights) \<Rightarrow> (real, 'g, 'h) network \<Rightarrow> real weights \<Rightarrow> nat \<Rightarrow> (real, 'g, 'h, 'v) executor \<Rightarrow> bool" where
  "masking_inside E weights_of N ws n x \<longleftrightarrow> masking_ready E weights_of N ws x \<and> accepts x n"

lemma masking_parts:
  assumes "masking_ready E weights_of N ws x"
  shows "offload_engine E weights_of" "exact (nw_ops N) (nw_math N)" "lib_ok (nw_lib N)" "sampler_ends (nw_ops N) (nw_lib N)" "registers N ws"
    "session_ok x" "\<not> xe_haar_mask_bf16 x" "weights_of (xe_engine x) = ws" "probes_cached x ws hs"
  using assms by (simp_all add: masking_ready_def probes_cached_def)

lemma masking_same:
  assumes "masking_inside E weights_of N ws n x" and "offload_engine.same weights_of x x'"
  shows "masking_inside E weights_of N ws n x'"
proof -
  have x: "masking_ready E weights_of N ws x" "accepts x n" using assms(1) by (simp_all add: masking_inside_def)
  have c: "config_of x' = config_of x" "weights_of (xe_engine x') = weights_of (xe_engine x)"
    using assms(2) by (simp_all add: offload_engine.same_def [OF masking_parts(1) [OF x(1)]])
  from c(1) have e: "xe_session x' = xe_session x" "xe_per_forward_mask x' = xe_per_forward_mask x" "xe_shield x' = xe_shield x"
      "xe_haar_mask_bf16 x' = xe_haar_mask_bf16 x" "xe_verify_probes x' = xe_verify_probes x" "xe_weights x' = xe_weights x"
    by (simp_all add: config_of_def)
  have "accepts x' n" using x(2) unfolding accepts_def e(1-3) .
  moreover have "masking_ready E weights_of N ws x'"
    using x(1) unfolding masking_ready_def e(4-6) c(2) session_ok_config [OF c(1)] .
  ultimately show ?thesis by (simp add: masking_inside_def)
qed

lemma masking_fits:
  assumes x: "masking_ready E weights_of N ws x" and fit: "\<And>h. h \<in> set hs \<Longrightarrow> weight_fits ws h d" and "hs \<noteq> []"
  shows "fits (weights_of (xe_engine x)) d hs" "\<And>h. h \<in> set hs \<Longrightarrow> the (weights_of (xe_engine x) h) = nw_registered N h"
proof -
  note ws = masking_parts(8) [OF x]
  show "the (weights_of (xe_engine x) h) = nw_registered N h" if h: "h \<in> set hs" for h
  proof -
    have "ws h = Some (nw_registered N h)" by (rule registered_weight [OF masking_parts(5) [OF x] fit [OF h]])
    then show ?thesis by (simp add: ws)
  qed
  have "hd hs \<in> set hs" using assms(3) by simp
  then have "0 < d" using fit unfolding weight_fits_def by blast
  moreover have "\<exists>p W. ws h = Some (p, W) \<and> mat d p W" "0 < fst (the (ws h))" if "h \<in> set hs" for h
    using fit [OF that] by (auto simp: weight_fits_def)
  ultimately show "fits (weights_of (xe_engine x)) d hs" unfolding fits_def weights_fit_def ws by blast
qed

lemma masked_product:
  assumes x: "masking_ready E weights_of N ws x" and fit: "weight_fits ws h d" and X: "mat n d X"
  shows "weight_product (nw_registered N h) X = registered_product N X h"
proof -
  note tb = lib_textbook [OF masking_parts(2,3) [OF x]] and L = masking_parts(3) [OF x]
  obtain W: "mat d (fst (nw_registered N h)) (snd (nw_registered N h))" using registered_weight [OF masking_parts(5) [OF x] fit] by blast
  have "gl_mm (nw_lib N) (d, X) (nw_registered N h) = matmul (fst (nw_registered N h)) X (snd (nw_registered N h))"
    using L X W by (cases "nw_registered N h") (simp add: lib_ok_def)
  moreover have "gl_mm (nw_lib N) (d, X) (nw_registered N h) = map (row_dots (nw_ops N) (fst (nw_registered N h)) (snd (nw_registered N h))) X"
    using textbook [OF tb X W] by simp
  ultimately show ?thesis by (simp add: weight_product_def registered_product_def)
qed

abbreviation masked_on :: "(real, 'v) engine_ops \<Rightarrow> bool \<Rightarrow> (real, 'g, 'h) network \<Rightarrow> (real, (real, 'g, 'h, 'v) executor) trusted_ops" where
  "masked_on E shared N \<equiv> masking_ops (nw_ops N) (nw_math N) (nw_lib N) E shared"

interpretation masked: multiplying_executor "masked_on E shared N" N "weight_fits ws" "masking_ready E weights_of N ws" "masking_inside E weights_of N ws"
proof
  fix x shape assume x: "masking_ready E weights_of N ws x" and rows: "0 < shape_rows shape"
  show "yields (tx_begin (masked_on E shared N) shape) x (\<lambda>_ x'. masking_inside E weights_of N ws (shape_rows shape) x')"
    unfolding masking_ops_def trusted_ops.simps
    by (rule yields_mono [OF begin_yields [OF masking_parts(2,6) [OF x] rows]])
      (use x in \<open>auto simp: masking_inside_def masking_ready_def prepared_def\<close>)
next
  fix x n assume "masking_inside E weights_of N ws n x"
  then show "yields (tx_end (masked_on E shared N)) x (\<lambda>_ x'. masking_ready E weights_of N ws x')"
    by (simp add: masking_ops_def end_forward_pass_def yields_steps masking_inside_def masking_ready_def clear_scratch_def session_ok_def)
next
  fix x n h d and X :: "real list list"
  assume i: "masking_inside E weights_of N ws n x" and fit: "weight_fits ws h d" and X: "mat n d X"
  have x: "masking_ready E weights_of N ws x" "accepts x n" using i by (simp_all add: masking_inside_def)
  have h: "fits (weights_of (xe_engine x)) d [h]" "the (weights_of (xe_engine x) h) = nw_registered N h"
    using masking_fits [OF x(1), of "[h]" d] fit by simp_all
  note parts = masking_parts [OF x(1)]
  have y: "yields (offload_linear (nw_ops N) (nw_math N) (nw_lib N) E h (d, X)) x
      (\<lambda>out x'. out = weight_product (the (weights_of (xe_engine x) h)) X \<and> offload_engine.same weights_of x x')"
    by (rule offload_engine.linear_yields [OF parts(1-4) X parts(6,7) x(2) h(1)]) (simp only: parts(8,9))
  show "yields (tx_linear (masked_on E shared N) h (d, X)) x (\<lambda>out x'. out = registered_product N X h \<and> masking_inside E weights_of N ws n x')"
    unfolding masking_ops_def trusted_ops.simps
    by (rule yields_mono [OF y]) (use masking_same [OF i] in \<open>simp add: h(2) masked_product [OF x(1) fit X]\<close>)
next
  fix x n li d and X :: "real list list"
  assume i: "masking_inside E weights_of N ws n x" and fit: "\<And>kind. kind \<in> {WQ, WK, WV} \<Longrightarrow> weight_fits ws (layer_handle li kind) d" and X: "mat n d X"
  have x: "masking_ready E weights_of N ws x" "accepts x n" using i by (simp_all add: masking_inside_def)
  have q: "qkv_handles (of_nat li) = [layer_handle li WQ, layer_handle li WK, layer_handle li WV]" by (simp add: qkv_handles_def layer_handle_def)
  have f: "weight_fits ws h d" if "h \<in> set (qkv_handles (of_nat li))" for h using that fit by (auto simp: q)
  have ne: "qkv_handles (of_nat li) \<noteq> []" by (simp add: q)
  note h = masking_fits [OF x(1) f ne] and parts = masking_parts [OF x(1)]
  have y: "yields (offload_qkv (nw_ops N) (nw_math N) (nw_lib N) E (of_nat li) (d, X)) x
      (\<lambda>out x'. out = (let f = (\<lambda>k. weight_product (the (weights_of (xe_engine x) \<lparr>wh_layer = of_nat li, wh_kind = k\<rparr>)) X) in (f WQ, f WK, f WV)) \<and>
        offload_engine.same weights_of x x')"
    by (rule offload_engine.qkv_yields [OF parts(1-4) X parts(6,7) x(2) h(1)]) (assumption, simp only: parts(8,9))
  show "yields (tx_qkv (masked_on E shared N) (of_nat li) (d, X)) x (\<lambda>out x'.
        out = (registered_product N X (layer_handle li WQ), registered_product N X (layer_handle li WK), registered_product N X (layer_handle li WV)) \<and>
        masking_inside E weights_of N ws n x')"
    unfolding masking_ops_def trusted_ops.simps
    by (rule yields_mono [OF y])
      (use masking_same [OF i] h(2) masked_product [OF x(1) fit X] in \<open>simp add: q layer_handle_def [symmetric] Let_def\<close>)
next
  fix x n hs d and X :: "real list list"
  assume i: "masking_inside E weights_of N ws n x" and fit: "\<And>h. h \<in> set hs \<Longrightarrow> weight_fits ws h d" and X: "mat n d X"
  have x: "masking_ready E weights_of N ws x" "accepts x n" using i by (simp_all add: masking_inside_def)
  note parts = masking_parts [OF x(1)]
  show "yields (tx_many (masked_on E shared N) hs (d, X)) x (\<lambda>out x'. out = map (registered_product N X) hs \<and> masking_inside E weights_of N ws n x')"
  proof (cases "hs = []")
    case True
    then show ?thesis using i by (simp add: masking_ops_def offload_linear_many_def yields_steps)
  next
    case False
    note h = masking_fits [OF x(1) fit False]
    have y: "yields (offload_linear_many (nw_ops N) (nw_math N) (nw_lib N) E hs (d, X)) x
        (\<lambda>outs x'. outs = map (\<lambda>h. weight_product (the (weights_of (xe_engine x) h)) X) hs \<and> offload_engine.same weights_of x x')"
      by (rule offload_engine.many_yields [OF parts(1-4) X parts(6,7) x(2) h(1)]) (assumption, simp only: parts(8,9))
    have "map (\<lambda>h. weight_product (the (weights_of (xe_engine x) h)) X) hs = map (registered_product N X) hs"
      using h(2) masked_product [OF x(1) fit X] by (intro map_cong refl) simp
    with y show ?thesis
      unfolding masking_ops_def trusted_ops.simps by (auto elim!: yields_mono intro: masking_same [OF i])
  qed
qed

end
