(* ===== verification/Dec_Causal.thy ===== *)
theory Dec_Causal
  imports Dec_Generate
begin

text \<open>
  Cached decoding is decoding that computes the whole text again for each token: rows past a query
  weigh nothing, so a layer's rows do not change when the text grows, and the cached keys and values
  are those of the whole text.
\<close>

section \<open>Masked entries weigh nothing\<close>

text \<open>The arithmetic the mask relies on: nothing compares below minus infinity, its exponential is
  zero, and adding zeros or products with zero changes nothing.\<close>

definition masks_vanish :: "('f, 'g, 'h) network \<Rightarrow> bool" where
  "masks_vanish N \<longleftrightarrow>
     (\<forall>x. \<not> f_lt (nw_ops N) x (gl_neg_infinity (nw_lib N))) \<and>
     (\<forall>m. kn_is_finite (nw_kernels N) m \<longrightarrow> gl_exp (nw_lib N) (f_sub (nw_ops N) (gl_neg_infinity (nw_lib N)) m) = f_lit (nw_ops N) 0) \<and>
     (\<forall>x. f_add (nw_ops N) x (f_lit (nw_ops N) 0) = x) \<and> (\<forall>x. f_mul (nw_ops N) (f_lit (nw_ops N) 0) x = f_lit (nw_ops N) 0)"

lemma fold_fixed: "(\<And>v. v \<in> set xs \<Longrightarrow> f v a = a) \<Longrightarrow> fold f xs a = a"
  by (induction xs) simp_all

lemma softmax_masked:
  assumes "masks_vanish N"
  shows "softmax_inplace_row (nw_ops N) (nw_lib N) (nw_kernels N) (row @ replicate k (gl_neg_infinity (nw_lib N))) =
    softmax_inplace_row (nw_ops N) (nw_lib N) (nw_kernels N) row @ replicate k (f_lit (nw_ops N) 0)"
proof -
  let ?F = "nw_ops N" and ?z = "gl_neg_infinity (nw_lib N)"
  let ?mx = "fold (\<lambda>v m. if f_lt ?F m v then v else m) row ?z"
  have mx: "fold (\<lambda>v m. if f_lt ?F m v then v else m) (replicate k ?z) ?mx = ?mx"
    using assms by (intro fold_fixed) (simp add: masks_vanish_def)
  show ?thesis
  proof (cases "kn_is_finite (nw_kernels N) ?mx")
    case False
    then show ?thesis by (simp add: softmax_inplace_row_def mx Let_def del: fold_replicate)
  next
    case True
    have e: "gl_exp (nw_lib N) (f_sub ?F ?z ?mx) = f_lit ?F 0" using True assms unfolding masks_vanish_def by blast
    let ?s = "fold (\<lambda>e s. f_add ?F s e) (map (\<lambda>v. gl_exp (nw_lib N) (f_sub ?F v ?mx)) row) (f_lit ?F 0)"
    have s: "fold (\<lambda>e s. f_add ?F s e) (replicate k (f_lit ?F 0)) ?s = ?s"
      using assms by (intro fold_fixed) (simp add: masks_vanish_def)
    have "f_mul ?F (f_lit ?F 0) x = f_lit ?F 0" for x using assms by (simp add: masks_vanish_def)
    then show ?thesis using True by (simp add: softmax_inplace_row_def mx s e Let_def del: fold_replicate)
  qed
qed

lemma dots_masked:
  assumes "masks_vanish N" and "length ws = length vs"
  shows "row_dots (nw_ops N) p (vs @ vs') (ws @ replicate (length vs') (f_lit (nw_ops N) 0)) = row_dots (nw_ops N) p vs ws"
proof -
  have "fold (\<lambda>(x, y) s. f_add (nw_ops N) s (f_mul (nw_ops N) x y)) (zip (replicate (length ys) (f_lit (nw_ops N) 0)) ys) s = s" for ys s
    using assms(1) by (intro fold_fixed) (auto simp: masks_vanish_def set_zip)
  from this [of "map (\<lambda>w. w ! j) vs'" for j] show ?thesis
    using assms(2) by (simp add: row_dots_def dotp_def)
qed

lemma band_mask_nth: "i < length row \<Longrightarrow> band_mask z lo hi row ! i = (if i < lo \<or> hi < i then z else row ! i)"
  by (simp add: band_mask_def)

lemma band_mask_past:
  assumes "length row = Suc pos"
  shows "band_mask z lo pos (row @ row') = band_mask z lo pos row @ replicate (length row') z"
proof (rule nth_equalityI)
  fix i assume "i < length (band_mask z lo pos (row @ row'))"
  then show "band_mask z lo pos (row @ row') ! i = (band_mask z lo pos row @ replicate (length row') z) ! i"
    using assms by (cases "i < Suc pos") (simp_all add: band_mask_nth nth_append)
qed simp

lemma attend_past:
  assumes "masks_vanish N" and "length ks = Suc pos" and "length vs = Suc pos" and "length vs' = length ks'"
  shows "attend N cls pos q (ks @ ks') (vs @ vs') = attend N cls pos q ks vs"
proof -
  have "attend_head N cls pos q (ks @ ks') (vs @ vs') = attend_head N cls pos q ks vs"
    if "length ks = Suc pos" "length vs = Suc pos" "length vs' = length ks'" for q ks vs ks' vs'
  proof -
    let ?sc = "map (\<lambda>k. f_mul (nw_ops N) (dotp (nw_ops N) q k) (attention_scale (nw_ops N) (nw_math N) (head_dim_value (nw_config N))))"
    have "length (?sc ks) = Suc pos" using that(1) by simp
    note b = band_mask_past [OF this, of _ _ "?sc ks'"]
    show ?thesis using that(3) dots_masked [OF assms(1)] that(1,2)
      by (simp add: attend_head_def Let_def b softmax_masked [OF assms(1)] that(3) [symmetric])
  qed
  from this [of "cols _ _ ks" "cols _ _ vs" "cols _ _ vs'" "cols _ _ ks'"] show ?thesis
    using assms(2-4) by (simp add: attend_def Let_def cols_def)
qed

section \<open>Layers of a growing text\<close>

lemma keys_from_append: "keys_from N li off (xs @ ys) = keys_from N li off xs @ keys_from N li (off + length xs) ys"
  by (rule nth_equalityI) (auto simp: keys_from_def nth_append)

lemma values_from_append: "values_from N li off (xs @ ys) = values_from N li off xs @ values_from N li (off + length xs) ys"
  by (rule nth_equalityI) (auto simp: values_from_def nth_append)

lemma length_keys_from [simp]: "length (keys_from N li off hs) = length hs" "length (values_from N li off hs) = length hs"
  by (simp_all add: keys_from_def values_from_def)

lemma length_causal_layer [simp]: "length (causal_layer N li hs) = length hs"
  by (simp add: causal_layer_def)

lemma causal_layer_grows: "take (length pre) (causal_layer N li (pre @ hs)) = causal_layer N li pre"
  by (rule nth_equalityI) (simp_all add: causal_layer_def nth_append)

lemma causal_layer_split: "causal_layer N li (pre @ hs) = causal_layer N li pre @ drop (length pre) (causal_layer N li (pre @ hs))"
  by (metis append_take_drop_id causal_layer_grows)

text \<open>A cached layer over the keys and values of the rows before gives the new rows of the whole text.\<close>

lemma dense_is_causal:
  assumes "masks_vanish N"
  shows "dense_layer N li (keys_from N li 0 pre, values_from N li 0 pre) hs =
    (drop (length pre) (causal_layer N li (pre @ hs)), keys_from N li 0 (pre @ hs), values_from N li 0 (pre @ hs))"
proof -
  let ?all = "pre @ hs" and ?off = "length pre"
  have "attend N (class_of N li) (?off + i) q (keys_from N li 0 ?all) (values_from N li 0 ?all) =
      attend N (class_of N li) (?off + i) q (keys_from N li 0 (take (Suc (?off + i)) ?all)) (values_from N li 0 (take (Suc (?off + i)) ?all))"
    if "i < length hs" for i q
  proof -
    let ?u = "take (Suc (?off + i)) ?all" and ?w = "drop (Suc (?off + i)) ?all"
    have split: "keys_from N li 0 ?all = keys_from N li 0 ?u @ keys_from N li (0 + length ?u) ?w"
      "values_from N li 0 ?all = values_from N li 0 ?u @ values_from N li (0 + length ?u) ?w"
      by (metis append_take_drop_id keys_from_append, metis append_take_drop_id values_from_append)
    show ?thesis unfolding split by (rule attend_past [OF assms]) (use that in simp_all)
  qed
  then have "map2 (\<lambda>i h. feed_forward N li h (attend N (class_of N li) (?off + i) (query_of N li (?off + i) h) (keys_from N li 0 ?all) (values_from N li 0 ?all)))
      [0..<length hs] hs = drop ?off (causal_layer N li ?all)"
    by (intro nth_equalityI) (simp_all add: causal_layer_def nth_append del: take_append)
  then show ?thesis by (simp add: dense_layer_def Let_def keys_from_append values_from_append)
qed

text \<open>The keys and values of \<open>pre\<close> in \<open>n\<close> layers.\<close>

fun text_caches :: "('f, 'g, 'h) network \<Rightarrow> nat \<Rightarrow> nat \<Rightarrow> 'f list list \<Rightarrow> ('f list list \<times> 'f list list) list" where
  "text_caches N li 0 pre = []"
| "text_caches N li (Suc n) pre = (keys_from N li 0 pre, values_from N li 0 pre) # text_caches N (Suc li) n (causal_layer N li pre)"

lemma text_caches_empty: "text_caches N li n [] = replicate n ([], [])"
  by (induction n arbitrary: li) (simp_all add: keys_from_def values_from_def causal_layer_def)

lemma dense_layers_causal:
  assumes "masks_vanish N"
  shows "dense_layers N li (text_caches N li n pre) hs =
    (drop (length pre) (fold (causal_layer N) [li..<li + n] (pre @ hs)), text_caches N li n (pre @ hs))"
proof (induction n arbitrary: li pre hs)
  case (Suc n)
  have "[li..<li + Suc n] = li # [Suc li..<Suc li + n]" by (simp add: upt_conv_Cons)
  then show ?case
    using Suc [of "Suc li" "causal_layer N li pre" "drop (length pre) (causal_layer N li (pre @ hs))"]
    by (simp add: dense_layers_step dense_is_causal [OF assms] causal_layer_split [symmetric])
qed simp

lemma length_causal_layers: "length (fold (causal_layer N) ls hs) = length hs"
  by (induction ls arbitrary: hs) simp_all

section \<open>Greedy decoding\<close>

lemma cached_is_greedy:
  assumes "masks_vanish N"
  shows "ids = prompt @ tokens \<Longrightarrow> ids \<noteq> [] \<Longrightarrow>
    cached_greedy N eos n (text_caches N 0 (depth N) (map (embed N) ids)) (last (hidden_rows N ids)) tokens = greedy N eos n prompt tokens"
proof (induction n arbitrary: ids tokens)
  case (Suc n)
  let ?t = "token_of N (last (hidden_rows N ids))"
  let ?rows = "fold (causal_layer N) [0..<depth N] (map (embed N) (ids @ [?t]))"
  have d: "dense_layers N 0 (text_caches N 0 (depth N) (map (embed N) ids)) [embed N ?t] =
      (drop (length ids) ?rows, text_caches N 0 (depth N) (map (embed N) (ids @ [?t])))"
    using dense_layers_causal [OF assms, of 0 "depth N" "map (embed N) ids" "[embed N ?t]"] by simp
  have len: "length ?rows = Suc (length ids)" by (simp add: length_causal_layers)
  then have "hd (drop (length ids) ?rows) = last ?rows" by (metis diff_Suc_1 hd_drop_conv_nth last_conv_nth lessI list.size(3) nat.distinct(1))
  then have h: "normed N (dw_final_norm (nw_weights N)) (hd (drop (length ids) ?rows)) = last (hidden_rows N (ids @ [?t]))"
    using len by (metis causal_layers_def hidden_rows_def last_map length_0_conv nat.distinct(1))
  have "cached_greedy N eos n (text_caches N 0 (depth N) (map (embed N) (ids @ [?t]))) (last (hidden_rows N (ids @ [?t]))) (tokens @ [?t]) =
      greedy N eos n prompt (tokens @ [?t])"
    by (rule Suc.IH) (simp_all add: Suc.prems(1))
  then show ?case unfolding cached_greedy.simps greedy.simps Suc.prems(1) [symmetric] Let_def d prod.case h by simp
qed simp

lemma generated_greedy:
  assumes "masks_vanish N" and "prompt \<noteq> []"
  shows "generated N gen prompt = greedy N (gc_eos_token_ids gen) (gc_max_tokens gen) prompt []"
proof -
  let ?rows = "fold (causal_layer N) [0..<depth N] (map (embed N) prompt)"
  have "?rows \<noteq> []" using assms(2) by (metis length_causal_layers length_0_conv length_map)
  then have "normed N (dw_final_norm (nw_weights N)) (last ?rows) = last (hidden_rows N prompt)"
    by (simp add: hidden_rows_def causal_layers_def last_map)
  then show ?thesis
    using dense_layers_causal [OF assms(1), of 0 "depth N" "[]" "map (embed N) prompt"] cached_is_greedy [OF assms(1), of prompt prompt "[]"] assms(2)
    by (simp add: generated_def text_caches_empty)
qed

end
