(* ===== verification/Dec_Theorems.thy ===== *)
theory Dec_Theorems
  imports Dec_Executors Dec_Causal Gelo_Library
begin

text \<open>
  The properties of the decoder and its cache, each with a witness on a network of one layer: over
  the reals for the masking executor, over the reals with minus infinity for the mask.
\<close>

section \<open>A small network\<close>

text \<open>One layer, one head of two, a vocabulary of two tokens, the identity as every weight.\<close>

definition small_weight :: "'f f32_ops \<Rightarrow> 'f array2" where
  "small_weight F = (2, [[f_lit F 1, f_lit F 0], [f_lit F 0, f_lit F 1]])"

definition small_config :: "'f f32_ops \<Rightarrow> 'f decoder_config" where
  "small_config F = \<lparr>dc_vocab_size = 2, dc_hidden_size = 2, dc_intermediate_size = 2, dc_num_hidden_layers = 1, dc_num_attention_heads = 1,
     dc_num_key_value_heads = 1, dc_head_dim = Some 2, dc_max_position_embeddings = 8, dc_rms_norm_eps = f_lit F 1, dc_rope_theta = f_lit F 1,
     dc_skip_first_layers = 0, dc_skip_last_layer = False, dc_use_out_attn_mult = False, dc_out_attn_mult_min_seq_len = None,
     dc_use_perm_attention = False, dc_perm_attention_min_seq_len = None, dc_attention_classes = None, dc_partial_rope = None,
     dc_kv_shared_in_global = False, dc_final_logit_softcapping = None\<rparr>"

definition small_layer :: "'f f32_ops \<Rightarrow> 'f decoder_layer" where
  "small_layer F = \<lparr>dl_norm_attn = [f_lit F 1, f_lit F 1], dl_wq = None, dl_wk = None, dl_wv = None, dl_wo = None,
     dl_norm_ffn = [f_lit F 1, f_lit F 1], dl_w_gate = None, dl_w_up = None, dl_w_down = None, dl_q_norm = None, dl_k_norm = None\<rparr>"

definition small_network :: "'f f32_ops \<Rightarrow> 'f f32_math \<Rightarrow> ('f, 'g, 'h) gelo_lib \<Rightarrow> 'f kernel_lib \<Rightarrow> ('f, 'g, 'h) network" where
  "small_network F H L K = \<lparr>nw_ops = F, nw_math = H, nw_lib = L, nw_kernels = K, nw_config = small_config F,
     nw_weights = \<lparr>dw_token_embedding = (2, [[0, 1], [1, 0]]), dw_final_norm = [f_lit F 1, f_lit F 1], dw_layers = [small_layer F]\<rparr>,
     nw_rope = \<lparr>rt_head_dim = 2, rt_cos = replicate 8 [f_lit F 1], rt_sin = replicate 8 [f_lit F 0]\<rparr>,
     nw_registered = (\<lambda>_. small_weight F)\<rparr>"

lemma small_network_simps:
  "nw_ops (small_network F H L K) = F" "nw_math (small_network F H L K) = H" "nw_lib (small_network F H L K) = L" "nw_kernels (small_network F H L K) = K"
  "nw_config (small_network F H L K) = small_config F" "nw_registered (small_network F H L K) h = small_weight F"
  by (simp_all add: small_network_def)

lemma small_network_fits:
  assumes "textbook_products F L"
  shows "network_fits (small_network F H L K) (weight_fits (\<lambda>_. Some (small_weight F)))" "registers (small_network F H L K) (\<lambda>_. Some (small_weight F))"
    "plain_decoder (small_config F)"
    "prompt_ok (small_network F H L K) \<lparr>gc_max_tokens = 3, gc_eos_token_ids = [0]\<rparr> [1, 0]"
proof -
  have fit: "weight_fits (\<lambda>_. Some (small_weight F)) h 2" for h by (simp add: weight_fits_def small_weight_def mat_def)
  have cfg: "q_dim (small_config F) = 2" "kv_dim (small_config F) = 2" "head_dim_value (small_config F) = 2" "offload_layer (small_config F) 0"
    by (simp_all add: q_dim_def kv_dim_def head_dim_value_def offload_layer_def small_config_def)
  have proj: "projection_ok (small_network F H L K) (weight_fits (\<lambda>_. Some (small_weight F))) 0 kind w 2 2" for kind w
    using fit cfg(4) by (simp add: projection_ok_def weight_at_def small_network_simps) (simp add: small_weight_def mat_def)
  have "layer_fits (small_network F H L K) (weight_fits (\<lambda>_. Some (small_weight F))) 0"
    unfolding layer_fits_def Let_def small_network_simps cfg
    using proj by (simp add: layer_of_def class_of_def rotation_def rotation_of_def small_network_def small_config_def small_layer_def head_dim_value_def)
  then show "network_fits (small_network F H L K) (weight_fits (\<lambda>_. Some (small_weight F)))"
    using assms fit by (simp add: network_fits_def Let_def small_network_def small_config_def heads_ok_def head_dim_value_def)
      (simp add: small_weight_def mat_def)
  show "registers (small_network F H L K) (\<lambda>_. Some (small_weight F))" by (simp add: registers_def small_network_simps)
  show "plain_decoder (small_config F)" by (simp add: plain_decoder_def small_config_def)
  show "prompt_ok (small_network F H L K) \<lparr>gc_max_tokens = 3, gc_eos_token_ids = [0]\<rparr> [1, 0]"
    by (simp add: prompt_ok_def small_network_def small_config_def)
qed

definition real_kernels :: "real kernel_lib" where
  "real_kernels = \<lparr>kn_is_finite = (\<lambda>_. True), kn_tanh = tanh, kn_widen = (\<lambda>w. real (unat w)), kn_to_usize = (\<lambda>x. nat \<lfloor>x\<rfloor>)\<rparr>"

definition small_real :: "(real, nat, nat) network" where
  "small_real = small_network real_ops real_math real_lib real_kernels"

text \<open>The reals with minus infinity, which \<open>None\<close> is.\<close>

definition ext2 :: "('a \<Rightarrow> 'a \<Rightarrow> 'a) \<Rightarrow> 'a option \<Rightarrow> 'a option \<Rightarrow> 'a option" where
  "ext2 f x y = (case (x, y) of (Some a, Some b) \<Rightarrow> Some (f a b) | _ \<Rightarrow> None)"

definition ext_lt :: "real option \<Rightarrow> real option \<Rightarrow> bool" where
  "ext_lt x y = (case (x, y) of (_, None) \<Rightarrow> False | (None, Some _) \<Rightarrow> True | (Some a, Some b) \<Rightarrow> a < b)"

definition ext_ops :: "real option f32_ops" where
  "ext_ops = \<lparr>f_lit = (\<lambda>i. Some (of_int i)), f_add = ext2 (+), f_sub = ext2 (-), f_mul = (\<lambda>x y. if x = Some 0 then Some 0 else ext2 (*) x y), f_div = ext2 (/),
     f_max = (\<lambda>x y. if ext_lt x y then y else x), f_abs = map_option abs, f_sqrt = map_option sqrt, f_ln = map_option ln,
     f_neg = map_option uminus, f_floor = map_option (\<lambda>x. of_int \<lfloor>x\<rfloor>), f_round = map_option (\<lambda>x. of_int (round x)), f_clamp = (\<lambda>x lo hi. x),
     f_min_positive = Some (1 / 2 ^ 126), f_lt = ext_lt, f_le = (\<lambda>x y. \<not> ext_lt y x), f_to_u8 = (\<lambda>_. 0), f_of_u8 = (\<lambda>w. Some (real (unat w))),
     f_to_u32 = (\<lambda>_. 0), f_to_le = (\<lambda>_. []), f_of_le = (\<lambda>_. None)\<rparr>"

definition ext_math :: "real option f32_math" where
  "ext_math = \<lparr>f_powf = ext2 (powr), f_cos = map_option cos, f_sin = map_option sin, f_pi = Some pi, f_epsilon = Some (1 / 2 ^ 23),
     f_of_nat = (\<lambda>n. Some (real n)), f_of_bits = (\<lambda>w. Some (real (unat w))), f_sum_start = Some 0, f_total_less = ext_lt\<rparr>"

definition ext_lib :: "(real option, nat, nat) gelo_lib" where
  "ext_lib = \<lparr>gl_cpu = \<lparr>avx512 = False, avx2 = True\<rparr>, gl_next_u32 = (\<lambda>g. (word_of_nat g, g + 1)), gl_normal = (\<lambda>g. (Some (real g), g + 1)),
     gl_probe = (\<lambda>g. (int g, g + 1)), gl_scalar = (\<lambda>g. (Some (1 + real g), g + 1)), gl_shuffle = (\<lambda>xs g. (xs, g + 1)),
     gl_fill_rng = (\<lambda>n g. (replicate n (word_of_nat g), g + 1)), gl_chacha = (\<lambda>_. 0), gl_set_stream = (\<lambda>s _. unat s),
     gl_fill = (\<lambda>n h. (replicate n 32, h + 1)), gl_seed = length, gl_dct4 = (\<lambda>_ xs. xs), gl_sgemm = (\<lambda>_ a _. a),
     gl_lpgemm = (\<lambda>_ _ _. []), gl_to_bf16 = (\<lambda>_. 0), gl_dot = dotp ext_ops,
     gl_mm = (\<lambda>(_, X) (p, W). map (row_dots ext_ops p W) X), gl_exp = (\<lambda>x. Some (case x of Some a \<Rightarrow> exp a | None \<Rightarrow> 0)), gl_neg_infinity = None\<rparr>"

definition small_ext :: "(real option, nat, nat) network" where
  "small_ext = small_network ext_ops ext_math ext_lib
     \<lparr>kn_is_finite = (\<lambda>x. x \<noteq> None), kn_tanh = map_option tanh, kn_widen = (\<lambda>w. Some (real (unat w))), kn_to_usize = (\<lambda>_. 0)\<rparr>"

lemma ext_textbook: "textbook_products ext_ops ext_lib"
  by (simp add: textbook_products_def ext_lib_def)

lemma ext_masks: "masks_vanish small_ext"
proof -
  have "ext2 (+) x (Some 0) = x" for x :: "real option" by (cases x) (simp_all add: ext2_def)
  then show ?thesis
    by (auto simp: masks_vanish_def small_ext_def small_network_simps ext_ops_def ext_lib_def ext2_def ext_lt_def split: option.split)
qed

section \<open>Generation\<close>

text \<open>C2: Generating over the masking executor, with masks of any family and whatever the buffers held
  before, returns the tokens that generating over the plaintext executor returns; both return.\<close>

theorem masked_generation_equals_plaintext:
  assumes "offload_engine E weights_of" and "exact (nw_ops N) (nw_math N)" and "lib_ok (nw_lib N)" and "sampler_ends (nw_ops N) (nw_lib N)"
    and "session_ok x" and "\<not> xe_haar_mask_bf16 x" and "weights_of (xe_engine x) = ws" and "0 < xe_verify_probes x \<longrightarrow> xe_weights x = ws"
    and "registers N ws" and fits: "network_fits N (weight_fits ws)" and prompt: "prompt_ok N gen prompt" and "pe_engine p = ws"
  shows "\<exists>out. fst (generate_on (masked_on E shared N) N gen prompt x) = Inr out \<and> fst (generate_on (plain_on N) N gen prompt p) = Inr out"
proof -
  have "masking_ready E weights_of N ws x" using assms(1-9) by (simp add: masking_ready_def)
  moreover have "plain_ready N ws p" using assms(2,3,9,12) by (simp add: plain_ready_def lib_textbook)
  ultimately show ?thesis
    using masked.generate_yields [OF fits prompt, of E weights_of x shared] plain.generate_yields [OF fits prompt, of p]
    by (auto simp: yields_def)
qed

definition small_prompt :: generation_config where
  "small_prompt = \<lparr>gc_max_tokens = 3, gc_eos_token_ids = [0]\<rparr>"

definition small_executor :: "(real, nat, nat, real weights) executor" where
  "small_executor = with_seed real_ops real_lib (\<lambda>_. Some (small_weight real_ops)) (replicate 32 0)"

lemma small_executor_simps:
  "session_ok small_executor" "\<not> xe_haar_mask_bf16 small_executor" "xe_engine small_executor = (\<lambda>_. Some (small_weight real_ops))"
  "0 < xe_verify_probes small_executor \<longrightarrow> xe_weights small_executor = (\<lambda>_. Some (small_weight real_ops))"
  by (simp_all add: small_executor_def with_seed_def with_shield_def session_ok_def)

theorem masked_generation_equals_plaintext_witness:
  "\<exists>out. fst (generate_on (masked_on (reference_engine real_ops real_lib (\<lambda>w. real (unat w))) False small_real) small_real small_prompt [1, 0] small_executor) = Inr out \<and>
    fst (generate_on (plain_on small_real) small_real small_prompt [1, 0] \<lparr>pe_engine = (\<lambda>_. Some (small_weight real_ops)), pe_ple_table = None\<rparr>) = Inr out"
  by (rule masked_generation_equals_plaintext [where weights_of = "\<lambda>ws. ws" and ws = "\<lambda>_. Some (small_weight real_ops)"])
    (simp_all add: small_real_def small_network_simps small_prompt_def reference_honest [OF real_lib_ok] real_exact real_lib_ok real_sampler_ends small_executor_simps
      small_network_fits [OF lib_textbook [OF real_exact real_lib_ok]])

text \<open>C3: Generation with cached keys and values returns the greedy decoding that computes the whole text
  again for every token.\<close>

theorem cached_generation_is_greedy:
  assumes "masks_vanish N" and "registers N ws" and fits: "network_fits N (weight_fits ws)" and prompt: "prompt_ok N gen prompt" and "pe_engine p = ws"
  shows "fst (generate_on (plain_on N) N gen prompt p) = Inr (greedy N (gc_eos_token_ids gen) (gc_max_tokens gen) prompt [])"
proof -
  have "plain_ready N ws p" using assms(2,5) fits_net(1) [OF fits] by (simp add: plain_ready_def)
  moreover have "prompt \<noteq> []" using prompt by (simp add: prompt_ok_def)
  ultimately show ?thesis
    using plain.generate_yields [OF fits prompt, of p] generated_greedy [OF assms(1), of prompt gen] by (auto simp: yields_def)
qed

theorem cached_generation_is_greedy_witness:
  "fst (generate_on (plain_on small_ext) small_ext small_prompt [1, 0] \<lparr>pe_engine = (\<lambda>_. Some (small_weight ext_ops)), pe_ple_table = None\<rparr>) =
    Inr (greedy small_ext [0] 3 [1, 0] [])"
  using cached_generation_is_greedy [OF ext_masks, of "\<lambda>_. Some (small_weight ext_ops)" small_prompt "[1, 0]"
      "\<lparr>pe_engine = (\<lambda>_. Some (small_weight ext_ops)), pe_ple_table = None\<rparr>"] small_network_fits [OF ext_textbook]
  by (simp add: small_ext_def small_prompt_def)

section \<open>Passes\<close>



section \<open>The cache\<close>

text \<open>C5: Appending rows to a sequence of a layer keeps the cache well formed and extends exactly that
  sequence, with the keys for the values if the layer shares its store; without room it reports the
  overflow and changes nothing.\<close>

theorem cache_append_prefill:
  assumes ok: "cache_ok c" and li: "li < length (kv_layers c)" and b: "b < kv_batch c" and k: "mat n (kv_width c) k" and v: "mat n (kv_width c) v"
  shows "case append_prefill li b (kv_width c, k) (kv_width c, v) c of
      (Inl e, c') \<Rightarrow> kv_max_len c < length (fst (cached c li b)) + n \<and> e = Fail (CacheOverflow (length (fst (cached c li b))) n) \<and> c' = c
    | (Inr _, c') \<Rightarrow> length (fst (cached c li b)) + n \<le> kv_max_len c \<and> cache_ok c' \<and>
        cached c' li b = (fst (cached c li b) @ k, snd (cached c li b) @ (if kv_is_layer_shared c li then k else v)) \<and>
        (\<forall>li' b'. (li', b') \<noteq> (li, b) \<longrightarrow> cached c' li' b' = cached c li' b')"
proof -
  let ?l = "kv_layers c ! li"
  have l: "layer_ok c ?l" using ok li by (simp add: cache_ok_def)
  have len: "length (fst (cached c li b)) = lk_lens ?l ! b" using layer_view_length [OF l b] by (simp add: cached_def)
  have rows: "length k = n" "length v = n" "\<And>r. r \<in> set k \<Longrightarrow> length r = kv_width c" "\<And>r. r \<in> set v \<Longrightarrow> length r = kv_width c"
    using k v unfolding mat_def by blast+
  show ?thesis
  proof (cases "lk_lens ?l ! b + n \<le> kv_max_len c")
    case False
    then show ?thesis using li b rows(1,2) by (simp add: append_prefill_def eff_simps Let_def len)
  next
    case True
    define s where "s = store_rows b (lk_lens ?l ! b) k v ?l"
    have s: "layer_ok c s" unfolding s_def by (rule layer_ok_store [OF l b]) (use rows True in simp_all)
    have r: "append_prefill li b (kv_width c, k) (kv_width c, v) c = (Inr (), with_layer li (store_rows b (lk_lens ?l ! b) k v) c)"
      using True li b rows(1,2) by (simp add: append_prefill_def eff_simps Let_def)
    have "layer_ok (with_layer li (store_rows b (lk_lens ?l ! b) k v) c) l'" if "l' \<in> set ((kv_layers c)[li := s])" for l'
    proof -
      have "l' = s \<or> l' \<in> set (kv_layers c)" using that set_update_subset_insert [of "kv_layers c" li s] by blast
      then show ?thesis using s ok layer_ok_same [of "with_layer li (store_rows b (lk_lens ?l ! b) k v) c" c] by (auto simp: cache_ok_def)
    qed
    then have "cache_ok (with_layer li (store_rows b (lk_lens ?l ! b) k v) c)" by (simp add: cache_ok_def s_def)
    moreover have "layer_view_b s b = (fst (layer_view_b ?l b) @ k, snd (layer_view_b ?l b) @ (if is_shared ?l then k else v))"
      "\<And>b'. b' \<noteq> b \<Longrightarrow> layer_view_b s b' = layer_view_b ?l b'"
      using layer_view_store [OF l b, of v k] rows True by (simp_all add: s_def stored_v_def)
    ultimately show ?thesis using True li len
      by (auto simp: r cached_def s_def kv_is_layer_shared_def nth_list_update)
  qed
qed

theorem cache_append_prefill_witness:
  "case append_prefill 0 1 (1, [[5], [7]]) (1, [[6], [8]]) (kv_new_batched real_ops 2 1 2 1) of
     (Inl e, c') \<Rightarrow> False
   | (Inr _, c') \<Rightarrow> cached c' 0 1 = ([[5], [7]], [[6], [8]]) \<and> cached c' 0 0 = ([], [])"
proof -
  let ?c = "kv_new_batched real_ops 2 1 2 1"
  have "layer_ok ?c (layer_new real_ops False (kv_batch ?c) 2 1)" by (rule layer_ok_new) (simp_all add: kv_new_batched_def)
  then have ok: "cache_ok ?c" by (simp add: cache_ok_def kv_new_batched_def)
  have c: "cached ?c 0 b = ([], [])" if "b < 2" for b using that by (simp add: cached_def kv_new_batched_def layer_view_new layer_view_b_def layer_new_def Let_def)
  have z: "cached ?c 0 0 = ([], [])" "cached ?c 0 1 = ([], [])" by (rule c; simp)+
  have f: "kv_max_len ?c = 2" "kv_width ?c = 1" "kv_batch ?c = 2" "length (kv_layers ?c) = 1" "kv_is_layer_shared ?c 0 = False"
    by (simp_all add: kv_new_batched_def kv_is_layer_shared_def)
  obtain r c' where a: "append_prefill 0 1 (1, [[5], [7]]) (1, [[6], [8]]) ?c = (r, c')" by (rule prod.exhaust)
  have m: "mat 2 1 [[5], [7 :: real]]" "mat 2 1 [[6], [8 :: real]]" by (simp_all add: mat_def)
  have i: "(0 :: nat) < 1" "(1 :: nat) < 2" by simp_all
  note t = cache_append_prefill [OF ok, of 0 1, unfolded f, OF i m, unfolded a prod.case z]
  show ?thesis
  proof (cases r)
    case (Inl e)
    then show ?thesis using t by simp
  next
    case (Inr u)
    have "cached c' 0 0 = cached ?c 0 0" using t unfolding Inr sum.case by (metis zero_neq_one prod.inject)
    then show ?thesis using t unfolding a Inr sum.case prod.case by (simp add: z(1) [simplified])
  qed
qed

end
