(* ===== verification/Spec2Isabelle.thy ===== *)
theory Spec2Isabelle
  imports Oram_Theorems Xormm_Correct Compass_Theorems Keying Kg_Theorems Rest_Theorems Chunker Extract_Theorems Attest_Theorems Rag_Theorems
    Gelo_Theorems Dec_Theorems
begin

text \<open>
  A verification development of gelo-lightrag: private retrieval-augmented generation, in which an
  enclave keeps its index and its knowledge graph encrypted on an untrusted storage server and has
  an untrusted accelerator compute the matrix products of its language model on masked operands.

  \<^bold>\<open>The program and its parts.\<close>  Documents are cut into chunks, a language model extracts entities and
  relations from each chunk, and the merged graph goes into an encrypted store: three HNSW indices over
  embeddings (Compass), whose bottom layers lie in Ring-ORAMs, volume-hiding multi-maps (XorMM) for the
  adjacency and the sources, and a store of sealed chunks.  The ORAMs talk to any block backend, in
  memory or over HTTP.  A query searches the indices, walks the multi-maps and opens the chunks.  All
  keys come from one user secret; the parameters of every scheme are bound into an identity that an
  attestation report of the processor carries.  The model's forward passes run in the enclave, apart from
  their matrix products: those go through the GELO executor, which multiplies the hidden rows by a secret
  orthogonal mask, hands them to the engine and takes the mask off the result.

  \<^bold>\<open>Theories and sources.\<close>  Paths are below \<^verbatim>\<open>src/crates\<close>.
  \<^item> \<open>Prelude\<close>, \<open>Rust_Text\<close>, \<open>Text_Ops\<close>: words and bytes, outcomes (\<open>Inr\<close> a value, \<open>Inl (Fail e)\<close> an
    error, \<open>Inl Panic\<close>, \<open>Inl Hang\<close> a loop that never ends), stateful computations \<open>eff\<close> with their total
    triples, slices, and the strings of the standard library as UTF-8 bytes.
  \<^item> \<open>Oram_Tree\<close>, \<open>Oram_Block\<close>, \<open>Oram_Backend\<close>, \<open>Oram_Client\<close>: \<^verbatim>\<open>ring-oram/src\<close>, file by file; the client
    is a record \<open>oram_client\<close> over a backend state.  \<open>Oram_Content\<close>, \<open>Oram_Physical\<close>, \<open>Oram_Correct\<close>,
    \<open>Oram_Ops\<close>, \<open>Oram_Access\<close>, \<open>Oram_Spec\<close>, \<open>Oram_Oblivious\<close>, \<open>Oram_Theorems\<close>: the logical content, the
    encrypted tree, each operation, the refinement of a key-value map, obliviousness.  The locale
    \<open>block_backend\<close> is the trait of the same name; it is interpreted by the in-memory backend, by the same
    backend with a log, and by the REST client.
  \<^item> \<open>Rest_Backend\<close>, \<open>Rest_Correct\<close>, \<open>Rest_Theorems\<close>: \<^verbatim>\<open>compass-rest-backend/src\<close>, the messages, the server's
    handlers and the client.
  \<^item> \<open>Xormm\<close>, \<open>Xormm_Correct\<close>: \<^verbatim>\<open>xormm-emm/src\<close>, the cuckoo build and the lookups.
  \<^item> \<open>Compass_Hnsw\<close>, \<open>Compass_Search\<close>, with \<open>Compass_Hnsw_Correct\<close>, \<open>Compass_Correct\<close>, \<open>Compass_Theorems\<close>:
    \<^verbatim>\<open>compass-index/src\<close>, the plaintext builder, the codecs, and the encrypted search against it.
  \<^item> \<open>Keying\<close>: \<^verbatim>\<open>core/src/keying.rs\<close>.  \<open>Kg_Store\<close>, \<open>Kg_Correct\<close>, \<open>Kg_Theorems\<close>: \<^verbatim>\<open>light-kg-store/src\<close>.
  \<^item> \<open>Chunker\<close>: \<^verbatim>\<open>gelo-chunker/src/lib.rs\<close>.  \<open>Extract_Prompt\<close>, \<open>Extract\<close>, \<open>Extract_Correct\<close>, \<open>Extract_Theorems\<close>:
    \<^verbatim>\<open>lightrag-private/src/extract\<close>.
  \<^item> \<open>Attest\<close>, \<open>Attest_Theorems\<close>: \<^verbatim>\<open>gelo-tee-sev-snp/src\<close> and the attestation files of \<^verbatim>\<open>gelo-rag\<close> and
    \<^verbatim>\<open>gelo-snp-runner\<close>.  \<open>Rag_Core\<close>, \<open>Rag_Service\<close>, \<open>Rag_Correct\<close>, \<open>Rag_Theorems\<close>: the retrieval core of
    \<^verbatim>\<open>core/src\<close> and the services of \<^verbatim>\<open>gelo-rag/src\<close>.
  \<^item> \<open>Gelo_Hd3\<close>, \<open>Gelo_Mask\<close>, \<open>Gelo_Attention\<close>, \<open>Gelo_Exec\<close>: \<^verbatim>\<open>gelo-protocol/src\<close>, that is the Hadamard kernels
    (\<^verbatim>\<open>hd3.rs\<close>), the masks (\<^verbatim>\<open>mask.rs\<close>, \<^verbatim>\<open>dct4.rs\<close>, \<^verbatim>\<open>gaussian.rs\<close>, \<^verbatim>\<open>integrity.rs\<close>, \<^verbatim>\<open>shield.rs\<close>), the engine with
    the outsourced attention (\<^verbatim>\<open>substrate.rs\<close>, \<^verbatim>\<open>out_attn_mult.rs\<close>, \<^verbatim>\<open>attention.rs\<close>) and the executors
    (\<^verbatim>\<open>sim.rs\<close>).  The other \<open>Gelo\<close> theories prove them exact over the reals; \<open>offload_engine\<close> is the contract
    of an engine, interpreted by the reference engine, and \<open>honest_library\<close> that of the native libraries.
  \<^item> \<open>Dec_Kernels\<close>, \<open>Dec_Cache\<close>, \<open>Dec_Forward\<close>: \<^verbatim>\<open>gelo-embedder/src/decoder\<close>, the kernels (\<^verbatim>\<open>config.rs\<close>,
    \<^verbatim>\<open>rms_norm.rs\<close>, \<^verbatim>\<open>rope.rs\<close>, \<^verbatim>\<open>swiglu.rs\<close>, \<^verbatim>\<open>attention.rs\<close>), the cache (\<^verbatim>\<open>kv_cache.rs\<close>), the blocks, the
    passes and generation (\<^verbatim>\<open>forward.rs\<close>, \<^verbatim>\<open>generation.rs\<close>).  \<open>Dec_Reference\<close> is the decoder as functions of
    rows; \<open>Dec_Rows\<close>, \<open>Dec_Run\<close>, \<open>Dec_Blocks\<close>, \<open>Dec_Passes\<close>, \<open>Dec_Generate\<close>, \<open>Dec_Uncached\<close> show that the code
    computes them over every executor of the locale \<open>multiplying_executor\<close>, which \<open>Dec_Executors\<close> interprets by
    the plaintext and by the masking executor; \<open>Dec_Causal\<close> shows that the cache changes nothing.

  \<^bold>\<open>What is shown.\<close>  Each layer is related to what its callers rely on, so that the statements compose.  The
  Ring-ORAM is a key-value map, errors and evictions included, over every backend that keeps the contract,
  and its requests depend only on the shape of a history.  A Compass search over it returns what the search
  of the plaintext graph returns; an encrypted knowledge graph answers queries as the plaintext graph does;
  both also over the REST server, and for a graph that the extraction pipeline made.  A masked matrix product
  equals the plain one for every family of masks, with and without attention; so does a series of offloads;
  so does the generation of a text, and with cached keys and values it is the greedy decoding that computes
  everything again.  The identity of a scheme determines its parameters, and a report is accepted
  exactly when its chain, window, signature, data and pins are as documented.  Other theorems state invariants of the reachable states,
  round trips of the codecs, bounds on bandwidth, that loops end, and what each component does on
  errors; some state defects: a write that panics, nonces that repeat, sizes for which chunking never ends.

  \<^bold>\<open>Numbers and bounds.\<close>  Machine integers are words where they can wrap; \<open>usize\<close> values that cannot leave
  64 bits are natural numbers.  \<open>f32\<close> is a record of operations (\<open>f32_ops\<close>, \<open>f32_math\<close>): the definitions use
  no law of it.  Statements about masks assume exact reals, because rounding makes masking approximate; the
  cached decoding holds over any numbers in which masked scores vanish.  Loops that may not end run on
  fuel and give \<open>Hang\<close> when it is spent: the eviction loop of the ORAM, the beam search, the chunker and the
  rejection samplers.  Where a statement says that a call returns, the fuel is proved enough, from the
  number of unvisited nodes, of remaining bytes or of pending accesses.

  \<^bold>\<open>Parameters.\<close>  SHA-256, HKDF, AES-GCM, ChaCha20, X.509, ECDSA, MessagePack, the sled database, the firmware
  of the processor, the accelerator, BLAS and its vector libraries, hash orders and random draws are
  arguments of the model.  Laws of theirs are hypotheses of the properties that need them: a sealed
  message opens under its key and no other, hashes of the values at hand differ, the engine multiplies.
  The witnesses instantiate them with concrete functions.

  \<^bold>\<open>Not modelled.\<close>  The passes of the decoder over a batch of texts; the encoder model BERT, the
  loaders of checkpoints (\<^verbatim>\<open>gemma4.rs\<close>, \<^verbatim>\<open>qwen3.rs\<close>, reading safetensors), the pooling services and
  the reranker; the GPU engine and its asynchronous calls, which are one instance of the engine's contract;
  HTTP routes, configuration files and process start of the runner, and the perturbed retrieval of
  \<^verbatim>\<open>lightrag-private\<close>, which compose modelled services; profiling and benchmarks.  Time, logging and
  memory erasure are left out, threads run one after the other where the code joins them, and at most
  \<open>2 ^ 16\<close> layers are numbered without wrapping.
\<close>

end
